(* ===== verification/Prelude.thy ===== *)
theory Prelude
  imports Main "HOL-Library.Word"
begin

text \<open>
  Shared vocabulary of the development: the machine integer types of the
  firmware, the C conversions between them, circular buffers as lists, and the
  collections of rewrite rules the component theories extend.

  A pointer to an object of the model is an option where the code compares it
  with 0; an \<open>int\<close> result code is an \<open>int\<close>; \<open>uintN_t\<close> is \<open>N word\<close>.
\<close>

unbundle bit_operations_syntax

type_synonym u8 = "8 word"
type_synonym u16 = "16 word"
type_synonym u32 = "32 word"

named_theorems c_arith \<open>bridges from C integer arithmetic on words to nat\<close>
named_theorems ring_simps \<open>laws of circular buffers\<close>
named_theorems frame_simps \<open>what an operation leaves unchanged\<close>

section \<open>C integer conversions\<close>

lemma unat_u16_lt [simp]: "unat (x :: u16) < 65536"
  by (rule less_le_trans [OF unsigned_less]) simp

lemma unat_u8_lt [simp]: "unat (x :: u8) < 256"
  by (rule less_le_trans [OF unsigned_less]) simp

lemma unat_u32_lt [simp]: "unat (x :: u32) < 4294967296"
  by (rule less_le_trans [OF unsigned_less]) simp

lemma unat_ucast_u16_u32 [c_arith, simp]: "unat (ucast (x :: u16) :: u32) = unat x"
  by (simp add: unsigned_ucast_eq take_bit_nat_eq_self less_trans [OF unat_u16_lt])

lemma unat_ucast_u8_u32 [c_arith, simp]: "unat (ucast (x :: u8) :: u32) = unat x"
  by (simp add: unsigned_ucast_eq take_bit_nat_eq_self less_trans [OF unat_u8_lt])

lemma unat_ucast_u32_u16 [c_arith]:
  "unat (x :: u32) < 65536 \<Longrightarrow> unat (ucast x :: u16) = unat x"
  by (simp add: unsigned_ucast_eq take_bit_nat_eq_self)

lemma unat_ucast_u32_u8 [c_arith]:
  "unat (x :: u32) < 256 \<Longrightarrow> unat (ucast x :: u8) = unat x"
  by (simp add: unsigned_ucast_eq take_bit_nat_eq_self)

lemma unat_Suc_small [c_arith]:
  "unat (x :: u32) < 4294967295 \<Longrightarrow> unat (x + 1) = Suc (unat x)"
  by (simp add: unat_word_ariths)

lemma unat_add_small [c_arith]:
  "unat (x :: u32) + unat y < 4294967296 \<Longrightarrow> unat (x + y) = unat x + unat y"
  by (simp add: unat_word_ariths)

lemma unat_mult_small [c_arith]:
  "unat (x :: u32) * unat y < 4294967296 \<Longrightarrow> unat (x * y) = unat x * unat y"
  by (simp add: unat_word_ariths)

lemma unat_sub_small [c_arith]:
  "y \<le> x \<Longrightarrow> unat (x - y) = unat (x :: u32) - unat y"
  by (simp add: unat_sub)

lemma unat_Suc_lt:
  fixes c n :: "'a :: len word"
  assumes "c < n" shows "unat (c + 1) = Suc (unat c)"
proof -
  have "Suc (unat c) < 2 ^ LENGTH('a)"
    using assms by (intro le_less_trans [OF _ unsigned_less [of n]]) (simp add: word_less_nat_alt)
  then show ?thesis by (simp add: unat_word_ariths)
qed

text \<open>\<open>(uint16_t)((i + 1u) % n)\<close>: the index step of the ring buffers.\<close>

definition ring_next16 :: "u16 \<Rightarrow> u16 \<Rightarrow> u16" where
  "ring_next16 i n = ucast ((ucast i + 1 :: u32) mod ucast n)"

lemma unat_ring_next16 [c_arith]:
  assumes "n \<noteq> 0"
  shows "unat (ring_next16 i n) = Suc (unat i) mod unat n"
proof -
  have n: "0 < unat n" using assms by (simp add: unat_gt_0)
  have s: "unat (ucast i + 1 :: u32) = Suc (unat i)"
    by (subst unat_Suc_small) (auto intro: less_trans [OF unat_u16_lt])
  have m: "unat ((ucast i + 1 :: u32) mod ucast n) = Suc (unat i) mod unat n"
    by (simp add: unat_mod s)
  have "Suc (unat i) mod unat n < 65536"
    using n mod_less_divisor [OF n, of "Suc (unat i)"] unat_u16_lt [of n] by linarith
  then show ?thesis
    unfolding ring_next16_def by (subst unat_ucast_u32_u16) (simp_all add: m)
qed

section \<open>Circular buffers\<close>

text \<open>The \<open>n\<close> elements of a circular buffer of \<open>c\<close> cells, from index \<open>t\<close> on.\<close>

definition ring_list :: "'a list \<Rightarrow> nat \<Rightarrow> nat \<Rightarrow> nat \<Rightarrow> 'a list" where
  "ring_list b c t n = map (\<lambda>i. b ! ((t + i) mod c)) [0..<n]"

lemma length_ring_list [simp]: "length (ring_list b c t n) = n"
  by (simp add: ring_list_def)

lemma ring_list_0 [simp]: "ring_list b c t 0 = []"
  by (simp add: ring_list_def)

lemma ring_index_neq:
  assumes "i < n" "n < c" shows "(t + i) mod c \<noteq> (t + n) mod (c :: nat)"
proof
  assume "(t + i) mod c = (t + n) mod c"
  then have "c dvd (t + n) - (t + i)"
    using assms by (metis mod_eq_dvd_iff_nat add_le_mono less_imp_le_nat order_refl)
  then have "c dvd n - i" by simp
  with assms show False by (auto dest: dvd_imp_le)
qed

lemma ring_list_push [ring_simps]:
  assumes "n < c" "c \<le> length b"
  shows "ring_list (b[(t + n) mod c := x]) c t (Suc n) = ring_list b c t n @ [x]"
proof -
  have "(t + n) mod c < length b"
    using assms by (intro less_le_trans [OF mod_less_divisor [of c]]) simp_all
  moreover have "b[(t + n) mod c := x] ! ((t + i) mod c) = b ! ((t + i) mod c)" if "i < n" for i
    using ring_index_neq [OF that assms(1), of t] by simp
  ultimately show ?thesis by (simp add: ring_list_def)
qed

lemma ring_list_pop:
  assumes "0 < n" "t < c"
  shows "ring_list b c t n = b ! t # ring_list b c (Suc t mod c) (n - 1)"
proof (rule nth_equalityI)
  show "length (ring_list b c t n) = length (b ! t # ring_list b c (Suc t mod c) (n - 1))"
    using assms by simp
  fix i assume "i < length (ring_list b c t n)"
  then show "ring_list b c t n ! i = (b ! t # ring_list b c (Suc t mod c) (n - 1)) ! i"
    using assms by (cases i) (auto simp: ring_list_def mod_simps)
qed

section \<open>Lists\<close>

text \<open>The last \<open>n\<close> elements, and the in-place reversal loop of the number printers.\<close>

definition lastn :: "nat \<Rightarrow> 'a list \<Rightarrow> 'a list" where
  "lastn n xs = drop (length xs - n) xs"

lemma length_lastn [simp]: "length (lastn n xs) = min n (length xs)"
  by (simp add: lastn_def)

lemma lastn_all [simp]: "length xs \<le> n \<Longrightarrow> lastn n xs = xs"
  by (simp add: lastn_def)

lemma lastn_lastn_append: "lastn n (lastn n xs @ ys) = lastn n (xs @ ys)"
  by (cases "length xs \<le> n") (auto simp: lastn_def drop_append add.commute)

definition swap_ends :: "'a list \<Rightarrow> 'a list" where
  "swap_ends xs =
     foldl (\<lambda>b i. b[i := b ! (length xs - 1 - i), length xs - 1 - i := b ! i]) xs [0..<length xs div 2]"

lemma swap_ends_loop:
  assumes "m \<le> length xs div 2"
  defines "b \<equiv> foldl (\<lambda>b i. b[i := b ! (length xs - 1 - i), length xs - 1 - i := b ! i]) xs [0..<m]"
  shows "length b = length xs \<and> (\<forall>i<length xs. b ! i =
    (if i < m \<or> length xs - 1 - i < m then xs ! (length xs - 1 - i) else xs ! i))"
  using assms(1) unfolding b_def
proof (induction m)
  case (Suc m)
  define b where "b = foldl (\<lambda>b i. b[i := b ! (length xs - 1 - i), length xs - 1 - i := b ! i]) xs [0..<m]"
  have m: "m < length xs - 1 - m" "m < length xs" using Suc.prems by simp_all
  have IH: "length b = length xs" "\<And>i. i < length xs \<Longrightarrow> b ! i =
    (if i < m \<or> length xs - 1 - i < m then xs ! (length xs - 1 - i) else xs ! i)"
    using Suc by (simp_all add: b_def)
  have "b[m := b ! (length xs - 1 - m), length xs - 1 - m := b ! m] ! i =
    (if i < Suc m \<or> length xs - 1 - i < Suc m then xs ! (length xs - 1 - i) else xs ! i)"
    if i: "i < length xs" for i
  proof -
    consider "i = m" | "i = length xs - 1 - m" | "i \<noteq> m" "i \<noteq> length xs - 1 - m" by blast
    then show ?thesis
    proof cases
      case 3
      then have "i < Suc m \<or> length xs - 1 - i < Suc m \<longleftrightarrow> i < m \<or> length xs - 1 - i < m"
        using i by linarith
      with 3 i IH(2) [OF i] show ?thesis by simp
    qed (use m i IH in simp_all)
  qed
  with IH(1) show ?case by (simp add: b_def)
qed simp

lemma swap_ends_rev [simp]: "swap_ends xs = rev xs"
proof (rule nth_equalityI)
  note l = swap_ends_loop [OF order_refl, of xs, folded swap_ends_def]
  show "length (swap_ends xs) = length (rev xs)" using l by simp
  fix i assume i: "i < length (swap_ends xs)"
  with l have "i < length xs" by simp
  moreover have "length xs - 1 - i = i" if "\<not> i < length xs div 2" "\<not> length xs - 1 - i < length xs div 2"
    using that \<open>i < length xs\<close> by arith
  ultimately show "swap_ends xs ! i = rev xs ! i" using l by (auto simp: rev_nth)
qed

end
