(* ===== verification/Ring_Fifo.thy ===== *)
theory Ring_Fifo
  imports Prelude
begin

text \<open>
  The contract of the bounded FIFO queues of the firmware (the event queues of
  the active objects, the console ring, the UART rings): an abstraction to the
  list of queued elements, a capacity, an operation that appends an element or
  refuses it when the queue is full, and one that removes the oldest element.
  Clients use a queue through sequences of the two operations; their lemmas
  are proved once for every queue that meets the contract.
\<close>

datatype 'a fifo_op = Push 'a | Pop

datatype 'a fifo_out = Accepted 'a | Refused 'a | Popped 'a | Empty

text \<open>One operation and a sequence of operations on a concrete queue.\<close>

fun fifo_step ::
  "('a \<Rightarrow> 's \<Rightarrow> bool \<times> 's) \<Rightarrow> ('s \<Rightarrow> 'a option \<times> 's) \<Rightarrow> 'a fifo_op \<Rightarrow> 's \<Rightarrow> 'a fifo_out \<times> 's" where
  "fifo_step push pop (Push x) s =
     (case push x s of (ok, s') \<Rightarrow> (if ok then Accepted x else Refused x, s'))"
| "fifo_step push pop Pop s =
     (case pop s of (None, s') \<Rightarrow> (Empty, s') | (Some x, s') \<Rightarrow> (Popped x, s'))"

fun fifo_run ::
  "('a \<Rightarrow> 's \<Rightarrow> bool \<times> 's) \<Rightarrow> ('s \<Rightarrow> 'a option \<times> 's) \<Rightarrow> 'a fifo_op list \<Rightarrow> 's \<Rightarrow> 'a fifo_out list \<times> 's" where
  "fifo_run push pop [] s = ([], s)"
| "fifo_run push pop (c # cs) s =
     (case fifo_step push pop c s of (r, s') \<Rightarrow>
        case fifo_run push pop cs s' of (rs, s'') \<Rightarrow> (r # rs, s''))"

text \<open>The abstract queue: a list that holds at most \<open>n\<close> elements.\<close>

definition list_push :: "nat \<Rightarrow> 'a \<Rightarrow> 'a list \<Rightarrow> bool \<times> 'a list" where
  "list_push n x xs = (if length xs < n then (True, xs @ [x]) else (False, xs))"

fun list_pop :: "'a list \<Rightarrow> 'a option \<times> 'a list" where
  "list_pop [] = (None, [])"
| "list_pop (x # xs) = (Some x, xs)"

text \<open>What a sequence of answers says went in and came out, in order.\<close>

fun went_in :: "'a fifo_out list \<Rightarrow> 'a list" where
  "went_in [] = []"
| "went_in (Accepted x # rs) = x # went_in rs"
| "went_in (_ # rs) = went_in rs"

fun came_out :: "'a fifo_out list \<Rightarrow> 'a list" where
  "came_out [] = []"
| "came_out (Popped x # rs) = x # came_out rs"
| "came_out (_ # rs) = came_out rs"

lemma list_run_conservation:
  "fifo_run (list_push n) list_pop cs xs = (rs, ys) \<Longrightarrow> xs @ went_in rs = came_out rs @ ys"
proof (induction cs arbitrary: xs rs)
  case (Cons c cs)
  obtain r xs' where st: "fifo_step (list_push n) list_pop c xs = (r, xs')" by fastforce
  with Cons.prems obtain rs' where rs: "rs = r # rs'"
    and run: "fifo_run (list_push n) list_pop cs xs' = (rs', ys)"
    by (auto split: prod.splits)
  note IH = Cons.IH [OF run]
  show ?case
  proof (cases c)
    case (Push x)
    with st IH rs show ?thesis by (auto simp: list_push_def split: if_splits)
  next
    case Pop
    with st IH rs show ?thesis by (cases xs) auto
  qed
qed simp

locale bounded_fifo =
  fixes inv :: "'s \<Rightarrow> bool"
    and contents :: "'s \<Rightarrow> 'a list"
    and capacity :: "'s \<Rightarrow> nat"
    and push :: "'a \<Rightarrow> 's \<Rightarrow> bool \<times> 's"
    and pop :: "'s \<Rightarrow> 'a option \<times> 's"
  assumes push_inv: "inv s \<Longrightarrow> inv (snd (push x s))"
    and push_capacity: "inv s \<Longrightarrow> capacity (snd (push x s)) = capacity s"
    and push_ok: "inv s \<Longrightarrow> fst (push x s) \<longleftrightarrow> length (contents s) < capacity s"
    and push_contents: "inv s \<Longrightarrow> contents (snd (push x s)) =
          (if length (contents s) < capacity s then contents s @ [x] else contents s)"
    and pop_inv: "inv s \<Longrightarrow> inv (snd (pop s))"
    and pop_capacity: "inv s \<Longrightarrow> capacity (snd (pop s)) = capacity s"
    and pop_contents: "inv s \<Longrightarrow> (fst (pop s), contents (snd (pop s))) = list_pop (contents s)"
begin

lemma step_refines:
  assumes "inv s" "fifo_step push pop c s = (r, s')"
  shows "fifo_step (list_push (capacity s)) list_pop c (contents s) = (r, contents s')
    \<and> inv s' \<and> capacity s' = capacity s"
proof (cases c)
  case (Push x)
  then show ?thesis
    using assms push_inv [of s x] push_capacity [of s x] push_ok [of s x] push_contents [of s x]
    by (cases "push x s") (auto simp: list_push_def)
next
  case Pop
  then show ?thesis
    using assms pop_inv [of s] pop_capacity [of s] pop_contents [of s, symmetric]
    by (cases "pop s"; cases "fst (pop s)") auto
qed

lemma run_refines:
  assumes "inv s" "fifo_run push pop cs s = (rs, s')"
  shows "fifo_run (list_push (capacity s)) list_pop cs (contents s) = (rs, contents s')
    \<and> inv s' \<and> capacity s' = capacity s"
  using assms
proof (induction cs arbitrary: s rs)
  case (Cons c cs)
  obtain r t where st: "fifo_step push pop c s = (r, t)" by fastforce
  with Cons.prems obtain rs' where rs: "rs = r # rs'" and run: "fifo_run push pop cs t = (rs', s')"
    by (auto split: prod.splits)
  note step_refines [OF Cons.prems(1) st]
  with Cons.IH [OF _ run] rs show ?case by simp
qed simp

lemma run_conservation:
  assumes "inv s" "fifo_run push pop cs s = (rs, s')"
  shows "contents s @ went_in rs = came_out rs @ contents s'"
  using run_refines [OF assms] list_run_conservation by blast

end

end
