(* ===== verification/Event_Queue.thy ===== *)
theory Event_Queue
  imports Ring_Fifo
begin

text \<open>
  The event queues of \<open>scheduler.c\<close> (\<open>eq_init\<close>, \<open>eq_push\<close>, \<open>eq_push_isr\<close>, \<open>eq_pop\<close>,
  \<open>eq_is_empty\<close>, \<open>eq_drain\<close>) over the structures of \<open>event.h\<close>: every field at
  its C width.  A null \<open>buf\<close> is None.  The storage array is the list the buffer
  holds; the invariant says it has \<open>cap\<close> cells, so every index the code uses
  lies inside it.  \<open>irq_save\<close>/\<open>irq_restore\<close> make \<open>eq_push\<close> and \<open>eq_pop\<close> atomic with
  respect to interrupts; here each is one state transformer.
\<close>

record event =
  ev_sig :: u16
  ev_src :: u16
  ev_arg0 :: u32
  ev_arg1 :: u32
  ev_tick :: u32

record event_queue =
  q_buf :: "event list option"
  q_cap :: u16
  q_head :: u16
  q_tail :: u16
  q_count :: u16
  q_high_watermark :: u16
  q_dropped :: u32

definition EQ_OK :: int where "EQ_OK = 0"
definition EQ_ERR_PARAM :: int where "EQ_ERR_PARAM = -1"
definition EQ_ERR_FULL :: int where "EQ_ERR_FULL = -2"
definition EQ_ERR_EMPTY :: int where "EQ_ERR_EMPTY = -3"

lemmas eq_codes = EQ_OK_def EQ_ERR_PARAM_def EQ_ERR_FULL_def EQ_ERR_EMPTY_def

definition eq_init :: "event list option \<Rightarrow> u16 \<Rightarrow> event_queue" where
  "eq_init storage capacity =
     \<lparr> q_buf = storage, q_cap = capacity, q_head = 0, q_tail = 0, q_count = 0,
       q_high_watermark = 0, q_dropped = 0 \<rparr>"

definition eq_push_common :: "event option \<Rightarrow> event_queue \<Rightarrow> int \<times> event_queue" where
  "eq_push_common eo q =
     (case (eo, q_buf q) of
        (Some e, Some buf) \<Rightarrow>
          if q_cap q = 0 then (EQ_ERR_PARAM, q)
          else if q_count q \<ge> q_cap q then (EQ_ERR_FULL, q\<lparr>q_dropped := q_dropped q + 1\<rparr>)
          else
            let q1 = q\<lparr>q_buf := Some (buf[unat (q_head q) := e]),
                       q_head := ring_next16 (q_head q) (q_cap q),
                       q_count := q_count q + 1\<rparr>
            in (EQ_OK, if q_count q1 > q_high_watermark q1
                       then q1\<lparr>q_high_watermark := q_count q1\<rparr> else q1)
      | _ \<Rightarrow> (EQ_ERR_PARAM, q))"

definition eq_push :: "event option \<Rightarrow> event_queue \<Rightarrow> int \<times> event_queue" where
  "eq_push e q = eq_push_common e q"

definition eq_push_isr :: "event option \<Rightarrow> event_queue \<Rightarrow> int \<times> event_queue" where
  "eq_push_isr e q = eq_push_common e q"

text \<open>\<open>eq_pop\<close> writes through its \<open>out\<close> pointer only on success: Some event.\<close>

definition eq_pop :: "event_queue \<Rightarrow> (int \<times> event option) \<times> event_queue" where
  "eq_pop q =
     (case q_buf q of
        None \<Rightarrow> ((EQ_ERR_PARAM, None), q)
      | Some buf \<Rightarrow>
          if q_cap q = 0 then ((EQ_ERR_PARAM, None), q)
          else if q_count q = 0 then ((EQ_ERR_EMPTY, None), q)
          else ((EQ_OK, Some (buf ! unat (q_tail q))),
                q\<lparr>q_tail := ring_next16 (q_tail q) (q_cap q), q_count := q_count q - 1\<rparr>))"

definition eq_is_empty :: "event_queue \<Rightarrow> bool" where
  "eq_is_empty q \<longleftrightarrow> q_count q = 0"

definition eq_drain :: "event_queue \<Rightarrow> event_queue" where
  "eq_drain q = q\<lparr>q_head := 0, q_tail := 0, q_count := 0\<rparr>"

section \<open>Invariant and abstraction\<close>

text \<open>
  The queued events, oldest first, and the representation invariant: a storage
  of at least \<open>cap > 0\<close> cells, indices inside it, and the head \<open>count\<close> cells after
  the tail.
\<close>

definition eq_contents :: "event_queue \<Rightarrow> event list" where
  "eq_contents q =
     ring_list (the (q_buf q)) (unat (q_cap q)) (unat (q_tail q)) (unat (q_count q))"

definition eq_inv :: "event_queue \<Rightarrow> bool" where
  "eq_inv q \<longleftrightarrow>
     (\<exists>buf. q_buf q = Some buf \<and> unat (q_cap q) \<le> length buf) \<and> q_cap q \<noteq> 0 \<and>
     unat (q_tail q) < unat (q_cap q) \<and>
     unat (q_count q) \<le> unat (q_cap q) \<and>
     unat (q_head q) = (unat (q_tail q) + unat (q_count q)) mod unat (q_cap q)"

definition eq_capacity :: "event_queue \<Rightarrow> nat" where
  "eq_capacity q = unat (q_cap q)"

lemma length_eq_contents [simp]: "length (eq_contents q) = unat (q_count q)"
  by (simp add: eq_contents_def)

lemma eq_contents_empty: "eq_contents q = [] \<longleftrightarrow> q_count q = 0"
  by (simp add: eq_contents_def ring_list_def unat_eq_0)

lemma eq_inv_init:
  "unat cap \<le> length buf \<Longrightarrow> cap \<noteq> 0 \<Longrightarrow> eq_inv (eq_init (Some buf) cap)"
  by (auto simp: eq_inv_def eq_init_def unat_gt_0)

lemma eq_contents_init [simp]: "eq_contents (eq_init st cap) = []"
  by (simp add: eq_contents_def eq_init_def)

lemma eq_inv_drain: "eq_inv q \<Longrightarrow> eq_inv (eq_drain q)"
  by (auto simp: eq_inv_def eq_drain_def unat_gt_0)

lemma eq_drain_count [simp]: "q_count (eq_drain q) = 0"
  by (simp add: eq_drain_def)

lemma eq_contents_drain [simp]: "eq_contents (eq_drain q) = []"
  by (simp add: eq_contents_def eq_drain_def)

text \<open>Every branch of \<open>eq_push\<close>.\<close>

lemma eq_push_null:
  "e = None \<or> q_buf q = None \<or> q_cap q = 0 \<Longrightarrow> eq_push_common e q = (EQ_ERR_PARAM, q)"
  by (auto simp: eq_push_common_def split: option.splits)

lemma eq_push_full:
  assumes "eq_inv q" "q_cap q \<le> q_count q"
  shows "eq_push_common (Some e) q = (EQ_ERR_FULL, q\<lparr>q_dropped := q_dropped q + 1\<rparr>)"
  using assms by (auto simp: eq_push_common_def eq_inv_def)

lemma eq_push_room:
  assumes "eq_inv q" "q_count q < q_cap q"
  shows "fst (eq_push_common (Some e) q) = EQ_OK"
    and "eq_inv (snd (eq_push_common (Some e) q))"
    and "eq_contents (snd (eq_push_common (Some e) q)) = eq_contents q @ [e]"
proof -
  obtain buf where buf: "q_buf q = Some buf" "unat (q_cap q) \<le> length buf" and cap: "q_cap q \<noteq> 0"
    and h: "unat (q_head q) = (unat (q_tail q) + unat (q_count q)) mod unat (q_cap q)"
    and t: "unat (q_tail q) < unat (q_cap q)"
    using assms(1) by (auto simp: eq_inv_def)
  have n: "unat (q_count q + 1) = Suc (unat (q_count q))" "unat (q_count q) < unat (q_cap q)"
    using assms(2) by (auto simp: unat_Suc_lt word_less_nat_alt)
  show "fst (eq_push_common (Some e) q) = EQ_OK"
    using assms(2) buf cap by (simp add: eq_push_common_def Let_def not_le [symmetric])
  show "eq_inv (snd (eq_push_common (Some e) q))"
    using assms(2) buf cap n h t
    by (simp add: eq_push_common_def Let_def eq_inv_def unat_ring_next16 mod_Suc_eq)
  show "eq_contents (snd (eq_push_common (Some e) q)) = eq_contents q @ [e]"
    using assms(2) buf cap n h
    by (simp add: eq_push_common_def Let_def eq_contents_def ring_simps)
qed

lemma eq_pop_empty:
  assumes "eq_inv q" "q_count q = 0"
  shows "eq_pop q = ((EQ_ERR_EMPTY, None), q)"
  using assms by (auto simp: eq_pop_def eq_inv_def)

lemma eq_pop_some:
  assumes "eq_inv q" "q_count q \<noteq> 0"
  shows "\<exists>e q'. eq_pop q = ((EQ_OK, Some e), q') \<and> eq_contents q = e # eq_contents q' \<and> eq_inv q'"
proof -
  obtain buf where buf: "q_buf q = Some buf" "unat (q_cap q) \<le> length buf" and cap: "q_cap q \<noteq> 0"
    and h: "unat (q_head q) = (unat (q_tail q) + unat (q_count q)) mod unat (q_cap q)"
    and t: "unat (q_tail q) < unat (q_cap q)" "unat (q_count q) \<le> unat (q_cap q)"
    using assms(1) by (auto simp: eq_inv_def)
  have n: "unat (q_count q - 1) = unat (q_count q) - 1" "0 < unat (q_count q)"
    using assms(2) by (auto simp: unat_minus_one unat_gt_0)
  have "(Suc (unat (q_tail q)) mod unat (q_cap q) + (unat (q_count q) - 1)) mod unat (q_cap q)
      = (unat (q_tail q) + unat (q_count q)) mod unat (q_cap q)"
    using n(2) by (subst mod_add_left_eq) simp
  then show ?thesis
    using assms(2) buf cap n h t ring_list_pop [OF n(2) t(1), of buf]
    by (simp add: eq_pop_def eq_inv_def eq_contents_def unat_ring_next16)
qed

lemmas eq_push_defs = eq_push_def eq_push_isr_def

lemma eq_push_common_inv: "eq_inv q \<Longrightarrow> eq_inv (snd (eq_push_common e q))"
proof (cases e)
  case (Some x)
  assume q: "eq_inv q"
  show ?thesis
  proof (cases "q_count q < q_cap q")
    case False
    with q Some show ?thesis by (simp add: eq_push_full) (simp add: eq_inv_def)
  qed (use q Some in \<open>simp add: eq_push_room\<close>)
qed (simp add: eq_push_null)

lemma eq_pop_inv: "eq_inv q \<Longrightarrow> eq_inv (snd (eq_pop q))"
  using eq_pop_empty [of q] eq_pop_some [of q] by (cases "q_count q = 0") auto

section \<open>The queue meets the FIFO contract\<close>

definition eq_fifo_push :: "event \<Rightarrow> event_queue \<Rightarrow> bool \<times> event_queue" where
  "eq_fifo_push e q = (case eq_push (Some e) q of (rc, q') \<Rightarrow> (rc = EQ_OK, q'))"

definition eq_fifo_pop :: "event_queue \<Rightarrow> event option \<times> event_queue" where
  "eq_fifo_pop q = (case eq_pop q of ((rc, eo), q') \<Rightarrow> (eo, q'))"

lemma eq_cap_push [simp]: "q_cap (snd (eq_push_common e q)) = q_cap q"
  by (auto simp: eq_push_common_def Let_def split: option.splits)

lemma eq_cap_pop [simp]: "q_cap (snd (eq_pop q)) = q_cap q"
  by (auto simp: eq_pop_def split: option.splits)

lemma eq_contents_dropped [simp]: "eq_contents (q\<lparr>q_dropped := d\<rparr>) = eq_contents q"
  by (simp add: eq_contents_def)

interpretation eqf: bounded_fifo eq_inv eq_contents eq_capacity eq_fifo_push eq_fifo_pop
proof unfold_locales
  fix s :: event_queue and x :: event
  assume s: "eq_inv s"
  show "eq_inv (snd (eq_fifo_push x s))" "eq_capacity (snd (eq_fifo_push x s)) = eq_capacity s"
    using eq_push_common_inv [OF s, of "Some x"]
    by (simp_all add: eq_fifo_push_def eq_push_def eq_capacity_def case_prod_beta)
  show "fst (eq_fifo_push x s) \<longleftrightarrow> length (eq_contents s) < eq_capacity s"
    "eq_contents (snd (eq_fifo_push x s)) =
       (if length (eq_contents s) < eq_capacity s then eq_contents s @ [x] else eq_contents s)"
    using eq_push_room [OF s, of x] eq_push_full [OF s, of x]
    by (cases "q_count s < q_cap s"; simp add: eq_fifo_push_def eq_push_def eq_capacity_def
        eq_codes word_less_nat_alt word_le_nat_alt case_prod_beta)+
  show "eq_inv (snd (eq_fifo_pop s))" "eq_capacity (snd (eq_fifo_pop s)) = eq_capacity s"
    using eq_pop_inv [OF s]
    by (simp_all add: eq_fifo_pop_def eq_capacity_def case_prod_beta)
  show "(fst (eq_fifo_pop s), eq_contents (snd (eq_fifo_pop s))) = list_pop (eq_contents s)"
    using eq_pop_empty [OF s] eq_pop_some [OF s]
    by (cases "q_count s = 0") (auto simp: eq_fifo_pop_def eq_contents_empty [THEN iffD2])
qed

end
