(* ===== verification/Scheduler.thy ===== *)
theory Scheduler
  imports Event_Queue
begin

text \<open>
  The cooperative scheduler of \<open>scheduler.c\<close>: the active objects of
  \<open>g_task_aos\<close>, the table of registered objects, the ready bitmap and the
  round-robin cursors.  A pointer to an active object is its index in
  \<open>g_task_aos\<close> (\<open>sched_register\<close> is only called with \<open>&g_task_aos[id]\<close>), a function
  or context pointer is its 32-bit address with 0 for null, and the scheduler
  argument of every call is the one scheduler of the system.  The record is
  the base of the system state: later theories extend it, and every operation
  here works on any extension.
\<close>

record ao =
  ao_id :: u8
  ao_prio :: u8
  ao_reserved :: u16
  ao_q :: event_queue
  ao_dispatch :: u32
  ao_state :: u32
  ao_flags :: u32
  ao_rtc_max_ticks :: u32
  ao_events_handled :: u32
  ao_name :: "string option"

record task_spec =
  ts_id :: u8
  ts_prio :: u8
  ts_dispatch :: u32
  ts_ctx :: u32
  ts_queue_storage :: "event list option"
  ts_queue_capacity :: u16
  ts_rtc_budget_ticks :: u32
  ts_name :: "string option"

record sched =
  g_task_aos :: "ao list"
  sc_table :: "nat option list"
  sc_ready_bitmap :: u32
  sc_rr_cursor :: "u8 list"
  sc_idle_hook :: u32

abbreviation (input) SCHED_MAX_AO :: nat where "SCHED_MAX_AO \<equiv> 32"

definition SCHED_OK :: int where "SCHED_OK = 0"
definition SCHED_ERR_PARAM :: int where "SCHED_ERR_PARAM = -1"
definition SCHED_ERR_FULL :: int where "SCHED_ERR_FULL = -2"
definition SCHED_ERR_EXISTS :: int where "SCHED_ERR_EXISTS = -3"
definition SCHED_ERR_NOT_FOUND :: int where "SCHED_ERR_NOT_FOUND = -4"
definition SCHED_ERR_QUEUE_FULL :: int where "SCHED_ERR_QUEUE_FULL = -5"
definition SCHED_ERR_DISABLED :: int where "SCHED_ERR_DISABLED = -6"

lemmas sched_codes = SCHED_OK_def SCHED_ERR_PARAM_def SCHED_ERR_FULL_def SCHED_ERR_EXISTS_def
  SCHED_ERR_NOT_FOUND_def SCHED_ERR_QUEUE_FULL_def SCHED_ERR_DISABLED_def

definition AO_FLAG_ACCEPT_EVENTS :: u32 where "AO_FLAG_ACCEPT_EVENTS = 1"

text \<open>\<open>1u << id\<close> and the test of a ready bit.\<close>

definition id_bit :: "nat \<Rightarrow> u32" where "id_bit i = push_bit i 1"

definition is_ready :: "'a sched_scheme \<Rightarrow> nat \<Rightarrow> bool" where
  "is_ready s i \<longleftrightarrow> sc_ready_bitmap s AND id_bit i \<noteq> 0"

definition set_ao :: "nat \<Rightarrow> (ao \<Rightarrow> ao) \<Rightarrow> 'a sched_scheme \<Rightarrow> 'a sched_scheme" where
  "set_ao k f s = s\<lparr>g_task_aos := (g_task_aos s)[k := f (g_task_aos s ! k)]\<rparr>"

definition highest_ready_prio :: "'a sched_scheme \<Rightarrow> int" where
  "highest_ready_prio s =
     foldl (\<lambda>best i.
        if \<not> is_ready s i then best
        else case sc_table s ! i of
               None \<Rightarrow> best
             | Some a \<Rightarrow> (let prio = int (unat (ao_prio (g_task_aos s ! a)))
                         in if prio > best then prio else best))
       (-1) [0..<SCHED_MAX_AO]"

text \<open>The id examined at turn \<open>i\<close> of the search that starts after the cursor.\<close>

definition rr_id :: "u8 \<Rightarrow> nat \<Rightarrow> u8" where
  "rr_id start i = ucast ((ucast start + of_nat i :: u32) AND 31)"

fun pick_loop :: "'a sched_scheme \<Rightarrow> u8 \<Rightarrow> u8 \<Rightarrow> nat list \<Rightarrow> (u8 \<times> nat) option" where
  "pick_loop s start prio [] = None"
| "pick_loop s start prio (i # is) =
     (let aid = rr_id start i in
      case sc_table s ! unat aid of
        None \<Rightarrow> pick_loop s start prio is
      | Some a \<Rightarrow>
          if ao_prio (g_task_aos s ! a) \<noteq> prio then pick_loop s start prio is
          else if \<not> is_ready s (unat aid) then pick_loop s start prio is
          else Some (aid, a))"

definition pick_ready_rr :: "'a sched_scheme \<Rightarrow> u8 \<Rightarrow> nat option \<times> 'a sched_scheme" where
  "pick_ready_rr s prio =
     (let start = sc_rr_cursor s ! unat prio + 1 in
      case pick_loop s start prio [0..<SCHED_MAX_AO] of
        None \<Rightarrow> (None, s)
      | Some (aid, a) \<Rightarrow>
          (Some a, s\<lparr>sc_rr_cursor := (sc_rr_cursor s)[unat prio := aid]\<rparr>))"

definition sched_init :: "u32 \<Rightarrow> 'a sched_scheme \<Rightarrow> 'a sched_scheme" where
  "sched_init idle_hook s =
     s\<lparr>sc_table := replicate SCHED_MAX_AO None,
       sc_rr_cursor := replicate SCHED_MAX_AO 0,
       sc_ready_bitmap := 0, sc_idle_hook := idle_hook\<rparr>"

definition sched_register :: "nat option \<Rightarrow> 'a sched_scheme \<Rightarrow> int \<times> 'a sched_scheme" where
  "sched_register aop s =
     (case aop of None \<Rightarrow> (SCHED_ERR_PARAM, s)
      | Some k \<Rightarrow>
         let ao = g_task_aos s ! k in
         if ao_dispatch ao = 0 then (SCHED_ERR_PARAM, s)
         else if unat (ao_id ao) \<ge> SCHED_MAX_AO \<or> unat (ao_prio ao) \<ge> SCHED_MAX_AO
           then (SCHED_ERR_PARAM, s)
         else if q_buf (ao_q ao) = None \<or> q_cap (ao_q ao) = 0 then (SCHED_ERR_PARAM, s)
         else if sc_table s ! unat (ao_id ao) \<noteq> None then (SCHED_ERR_EXISTS, s)
         else
           let s1 = set_ao k (\<lambda>a. a\<lparr>ao_flags := ao_flags a OR AO_FLAG_ACCEPT_EVENTS,
                                    ao_rtc_max_ticks := 0, ao_events_handled := 0\<rparr>) s;
               s2 = s1\<lparr>sc_table := (sc_table s1)[unat (ao_id ao) := Some k]\<rparr>
           in (SCHED_OK,
               if q_count (ao_q ao) > 0
               then s2\<lparr>sc_ready_bitmap := sc_ready_bitmap s2 OR id_bit (unat (ao_id ao))\<rparr>
               else s2))"

definition sched_register_task :: "task_spec option \<Rightarrow> 'a sched_scheme \<Rightarrow> int \<times> 'a sched_scheme" where
  "sched_register_task specp s =
     (case specp of None \<Rightarrow> (SCHED_ERR_PARAM, s)
      | Some spec \<Rightarrow>
         if ts_dispatch spec = 0 \<or> ts_ctx spec = 0 then (SCHED_ERR_PARAM, s)
         else if unat (ts_id spec) \<ge> SCHED_MAX_AO \<or> unat (ts_prio spec) \<ge> SCHED_MAX_AO
           then (SCHED_ERR_PARAM, s)
         else if ts_queue_storage spec = None \<or> ts_queue_capacity spec = 0
           then (SCHED_ERR_PARAM, s)
         else if sc_table s ! unat (ts_id spec) \<noteq> None then (SCHED_ERR_EXISTS, s)
         else
           let k = unat (ts_id spec);
               s1 = set_ao k (\<lambda>a.
                 \<lparr> ao_id = ts_id spec, ao_prio = ts_prio spec, ao_reserved = 0,
                   ao_q = eq_init (ts_queue_storage spec) (ts_queue_capacity spec),
                   ao_dispatch = ts_dispatch spec, ao_state = ts_ctx spec,
                   ao_flags = AO_FLAG_ACCEPT_EVENTS,
                   ao_rtc_max_ticks = ts_rtc_budget_ticks spec,
                   ao_events_handled = 0, ao_name = ts_name spec \<rparr>) s
           in sched_register (Some k) s1)"

definition sched_unregister :: "u8 \<Rightarrow> 'a sched_scheme \<Rightarrow> int \<times> 'a sched_scheme" where
  "sched_unregister aid s =
     (if unat aid \<ge> SCHED_MAX_AO then (SCHED_ERR_PARAM, s)
      else case sc_table s ! unat aid of
        None \<Rightarrow> (SCHED_ERR_NOT_FOUND, s)
      | Some k \<Rightarrow>
          let s1 = set_ao k (\<lambda>a. a\<lparr>ao_q := eq_drain (ao_q a), ao_flags := 0, ao_dispatch := 0,
                     ao_state := 0, ao_name := None, ao_events_handled := 0,
                     ao_rtc_max_ticks := 0\<rparr>) s
          in (SCHED_OK, s1\<lparr>sc_table := (sc_table s1)[unat aid := None],
                           sc_ready_bitmap := sc_ready_bitmap s1 AND NOT (id_bit (unat aid))\<rparr>))"

definition sched_post_common ::
  "u8 \<Rightarrow> event option \<Rightarrow> bool \<Rightarrow> 'a sched_scheme \<Rightarrow> int \<times> 'a sched_scheme" where
  "sched_post_common aid e is_isr s =
     (if e = None \<or> unat aid \<ge> SCHED_MAX_AO then (SCHED_ERR_PARAM, s)
      else case sc_table s ! unat aid of
        None \<Rightarrow> (SCHED_ERR_NOT_FOUND, s)
      | Some k \<Rightarrow>
          let ao = g_task_aos s ! k in
          if ao_flags ao AND AO_FLAG_ACCEPT_EVENTS = 0 then (SCHED_ERR_DISABLED, s)
          else
            case (if is_isr then eq_push_isr e (ao_q ao) else eq_push e (ao_q ao)) of (rc, q) \<Rightarrow>
            let s1 = set_ao k (\<lambda>a. a\<lparr>ao_q := q\<rparr>) s in
            if rc \<noteq> EQ_OK then (SCHED_ERR_QUEUE_FULL, s1)
            else (SCHED_OK, s1\<lparr>sc_ready_bitmap := sc_ready_bitmap s1 OR id_bit (unat aid)\<rparr>))"

definition sched_post :: "u8 \<Rightarrow> event option \<Rightarrow> 'a sched_scheme \<Rightarrow> int \<times> 'a sched_scheme" where
  "sched_post aid e s = sched_post_common aid e False s"

definition sched_post_isr :: "u8 \<Rightarrow> event option \<Rightarrow> 'a sched_scheme \<Rightarrow> int \<times> 'a sched_scheme" where
  "sched_post_isr aid e s = sched_post_common aid e True s"

definition sched_pause_accept :: "u8 \<Rightarrow> 'a sched_scheme \<Rightarrow> int \<times> 'a sched_scheme" where
  "sched_pause_accept aid s =
     (if unat aid \<ge> SCHED_MAX_AO then (SCHED_ERR_PARAM, s)
      else case sc_table s ! unat aid of
        None \<Rightarrow> (SCHED_ERR_NOT_FOUND, s)
      | Some k \<Rightarrow>
          (SCHED_OK, set_ao k (\<lambda>a. a\<lparr>ao_flags := ao_flags a AND NOT AO_FLAG_ACCEPT_EVENTS\<rparr>) s))"

definition sched_resume_accept :: "u8 \<Rightarrow> 'a sched_scheme \<Rightarrow> int \<times> 'a sched_scheme" where
  "sched_resume_accept aid s =
     (if unat aid \<ge> SCHED_MAX_AO then (SCHED_ERR_PARAM, s)
      else case sc_table s ! unat aid of
        None \<Rightarrow> (SCHED_ERR_NOT_FOUND, s)
      | Some k \<Rightarrow>
          (SCHED_OK, set_ao k (\<lambda>a. a\<lparr>ao_flags := ao_flags a OR AO_FLAG_ACCEPT_EVENTS\<rparr>) s))"

definition sched_flush_all :: "'a sched_scheme \<Rightarrow> 'a sched_scheme" where
  "sched_flush_all s =
     (foldl (\<lambda>s i. case sc_table s ! i of None \<Rightarrow> s
                   | Some k \<Rightarrow> set_ao k (\<lambda>a. a\<lparr>ao_q := eq_drain (ao_q a)\<rparr>) s)
        s [0..<SCHED_MAX_AO])\<lparr>sc_ready_bitmap := 0\<rparr>"

section \<open>The run loop\<close>

text \<open>
  One turn of \<open>sched_run\<close>.  \<open>dispatch f k e s\<close> is the call of the handler at
  address \<open>f\<close> for active object \<open>k\<close>; \<open>idle\<close> the call of the idle hook.
\<close>

datatype turn = Idle | NoPick | Panicked | Handled nat "event option"

definition sched_turn ::
  "(u32 \<Rightarrow> 'a sched_scheme \<Rightarrow> 'a sched_scheme) \<Rightarrow>
   (u32 \<Rightarrow> nat \<Rightarrow> event \<Rightarrow> 'a sched_scheme \<Rightarrow> 'a sched_scheme) \<Rightarrow>
   'a sched_scheme \<Rightarrow> turn \<times> 'a sched_scheme" where
  "sched_turn idle dispatch s =
     (let prio = highest_ready_prio s in
      if prio < 0 then (Idle, if sc_idle_hook s \<noteq> 0 then idle (sc_idle_hook s) s else s)
      else case pick_ready_rr s (of_int prio) of
        (None, s1) \<Rightarrow> (NoPick, s1)
      | (Some k, s1) \<Rightarrow>
          if ao_dispatch (g_task_aos s1 ! k) = 0 then (Panicked, s1)
          else case eq_pop (ao_q (g_task_aos s1 ! k)) of ((rc, eo), q) \<Rightarrow>
            let s2 = set_ao k (\<lambda>a. a\<lparr>ao_q := q\<rparr>) s1;
                s3 = (case eo of
                        Some e \<Rightarrow>
                          set_ao k (\<lambda>a. a\<lparr>ao_events_handled := ao_events_handled a + 1\<rparr>)
                            (dispatch (ao_dispatch (g_task_aos s2 ! k)) k e s2)
                      | None \<Rightarrow> s2);
                s4 = (if eq_is_empty (ao_q (g_task_aos s3 ! k))
                      then s3\<lparr>sc_ready_bitmap := sc_ready_bitmap s3
                                AND NOT (id_bit (unat (ao_id (g_task_aos s3 ! k))))\<rparr>
                      else s3)
            in (Handled k eo, s4))"

fun sched_run ::
  "(u32 \<Rightarrow> 'a sched_scheme \<Rightarrow> 'a sched_scheme) \<Rightarrow>
   (u32 \<Rightarrow> nat \<Rightarrow> event \<Rightarrow> 'a sched_scheme \<Rightarrow> 'a sched_scheme) \<Rightarrow>
   nat \<Rightarrow> 'a sched_scheme \<Rightarrow> turn list \<times> 'a sched_scheme" where
  "sched_run idle dispatch 0 s = ([], s)"
| "sched_run idle dispatch (Suc n) s =
     (case sched_turn idle dispatch s of
        (Panicked, s') \<Rightarrow> ([Panicked], s')
      | (t, s') \<Rightarrow> (case sched_run idle dispatch n s' of (ts, s'') \<Rightarrow> (t # ts, s'')))"

section \<open>The scheduler invariant\<close>

text \<open>
  The comment of \<open>scheduler.h\<close>: bit(id) = queue non-empty.  While a handler runs,
  the bit of its own object may be stale (its last event is already popped),
  so the invariant carries the set \<open>K\<close> of ids whose bit may be set on an empty
  queue; between turns it is empty.
\<close>

definition ao_ok :: "nat set \<Rightarrow> 'a sched_scheme \<Rightarrow> nat \<Rightarrow> bool" where
  "ao_ok K s i \<longleftrightarrow>
     (case sc_table s ! i of
        None \<Rightarrow> \<not> bit (sc_ready_bitmap s) i \<and> (i \<in> K \<longrightarrow> unat (ao_id (g_task_aos s ! i)) = i)
      | Some k \<Rightarrow>
          (let a = g_task_aos s ! i in
           k = i \<and> unat (ao_id a) = i \<and> unat (ao_prio a) < SCHED_MAX_AO \<and> ao_dispatch a \<noteq> 0 \<and>
           eq_inv (ao_q a) \<and> (q_count (ao_q a) \<noteq> 0 \<longrightarrow> bit (sc_ready_bitmap s) i) \<and>
           (bit (sc_ready_bitmap s) i \<longrightarrow> q_count (ao_q a) \<noteq> 0 \<or> i \<in> K)))"

definition sched_wf :: "nat set \<Rightarrow> 'a sched_scheme \<Rightarrow> bool" where
  "sched_wf K s \<longleftrightarrow>
     length (g_task_aos s) = SCHED_MAX_AO \<and> length (sc_table s) = SCHED_MAX_AO \<and>
     length (sc_rr_cursor s) = SCHED_MAX_AO \<and> (\<forall>i<SCHED_MAX_AO. ao_ok K s i)"

lemma is_ready_bit: "is_ready s i \<longleftrightarrow> bit (sc_ready_bitmap s) i"
  by (simp add: is_ready_def id_bit_def bit_iff_and_push_bit_not_eq_0)

lemma bit_set_id [simp]: "i < 32 \<Longrightarrow> bit (w OR id_bit k) i \<longleftrightarrow> bit w i \<or> i = k"
  by (auto simp: id_bit_def bit_simps)

lemma bit_clear_id [simp]: "bit (w AND NOT (id_bit k)) i \<longleftrightarrow> bit w i \<and> i \<noteq> k"
  by (cases "i < 32") (auto simp: id_bit_def bit_simps dest: bit_imp_le_length)

lemma set_ao_simps [simp]:
  "sc_table (set_ao k f s) = sc_table s"
  "sc_ready_bitmap (set_ao k f s) = sc_ready_bitmap s"
  "sc_rr_cursor (set_ao k f s) = sc_rr_cursor s"
  "sc_idle_hook (set_ao k f s) = sc_idle_hook s"
  "length (g_task_aos (set_ao k f s)) = length (g_task_aos s)"
  "sched.more (set_ao k f s) = sched.more s"
  by (simp_all add: set_ao_def)

lemma aos_set_ao:
  "k < length (g_task_aos s) \<Longrightarrow>
    g_task_aos (set_ao k f s) ! i = (if i = k then f (g_task_aos s ! k) else g_task_aos s ! i)"
  by (simp add: set_ao_def nth_list_update)

lemma sched_wf_lengths:
  assumes "sched_wf K s"
  shows "length (g_task_aos s) = 32" "length (sc_table s) = 32" "length (sc_rr_cursor s) = 32"
  using assms by (simp_all add: sched_wf_def)

lemma sched_wf_ao: "sched_wf K s \<Longrightarrow> i < 32 \<Longrightarrow> ao_ok K s i"
  by (simp add: sched_wf_def)

text \<open>An operation that touches one object only has to re-establish that object's part.\<close>

lemma sched_wf_step:
  assumes "sched_wf K s" "k < 32" "ao_ok K s' k"
    "length (g_task_aos s') = 32" "length (sc_table s') = 32" "length (sc_rr_cursor s') = 32"
    "\<And>i. i < 32 \<Longrightarrow> i \<noteq> k \<Longrightarrow> g_task_aos s' ! i = g_task_aos s ! i"
    "\<And>i. i < 32 \<Longrightarrow> i \<noteq> k \<Longrightarrow> sc_table s' ! i = sc_table s ! i"
    "\<And>i. i < 32 \<Longrightarrow> i \<noteq> k \<Longrightarrow> bit (sc_ready_bitmap s') i = bit (sc_ready_bitmap s) i"
  shows "sched_wf K s'"
  unfolding sched_wf_def
proof (intro conjI allI impI)
  fix i :: nat assume i: "i < 32"
  show "ao_ok K s' i"
  proof (cases "i = k")
    case False
    with i assms(7-9) [of i] sched_wf_ao [OF assms(1) i] show ?thesis
      by (simp add: ao_ok_def split: option.splits)
  qed (use assms in simp)
qed (use assms in simp_all)

lemma sched_wf_registered:
  assumes "sched_wf K s" "i < 32" "sc_table s ! i = Some k"
  shows "k = i" "unat (ao_id (g_task_aos s ! i)) = i" "unat (ao_prio (g_task_aos s ! i)) < 32"
    "ao_dispatch (g_task_aos s ! i) \<noteq> 0" "eq_inv (ao_q (g_task_aos s ! i))"
  using sched_wf_ao [OF assms(1,2)] assms(3) by (simp_all add: ao_ok_def Let_def)

lemma sched_wf_ready:
  assumes "sched_wf {} s" "i < 32"
  shows "is_ready s i \<longleftrightarrow> sc_table s ! i = Some i \<and> eq_contents (ao_q (g_task_aos s ! i)) \<noteq> []"
  using sched_wf_ao [OF assms]
  by (auto simp: ao_ok_def is_ready_bit eq_contents_empty Let_def split: option.splits)

subsection \<open>Every operation keeps it\<close>

lemma sched_init_wf: "length (g_task_aos s) = 32 \<Longrightarrow> sched_wf {} (sched_init h s)"
  by (simp add: sched_wf_def sched_init_def ao_ok_def)

text \<open>A task specification gives the queue at least the cells it claims.\<close>

definition spec_ok :: "task_spec \<Rightarrow> bool" where
  "spec_ok spec \<longleftrightarrow> (case ts_queue_storage spec of None \<Rightarrow> True
     | Some b \<Rightarrow> unat (ts_queue_capacity spec) \<le> length b)"

lemma sched_register_task_wf:
  assumes "sched_wf K s" "\<And>spec. sp = Some spec \<Longrightarrow> spec_ok spec"
  shows "sched_wf K (snd (sched_register_task sp s))"
proof (cases "fst (sched_register_task sp s) = SCHED_OK")
  case False
  then have "snd (sched_register_task sp s) = s"
    using sched_wf_lengths [OF assms(1)]
    by (auto simp: sched_register_task_def sched_register_def Let_def aos_set_ao eq_init_def
        split: option.splits if_splits)
  then show ?thesis using assms(1) by simp
next
  case True
  then obtain spec where sp: "sp = Some spec"
    by (auto simp: sched_register_task_def sched_codes split: option.splits)
  let ?k = "unat (ts_id spec)"
  have g: "ts_dispatch spec \<noteq> 0" "?k < 32" "unat (ts_prio spec) < 32" "ts_queue_capacity spec \<noteq> 0"
    "sc_table s ! ?k = None" "ts_queue_storage spec \<noteq> None"
    using True sp by (auto simp: sched_register_task_def sched_codes split: if_splits)
  then obtain b where b: "ts_queue_storage spec = Some b" by auto
  have "unat (ts_queue_capacity spec) \<le> length b"
    using assms(2) [OF sp] b by (simp add: spec_ok_def)
  note inv = eq_inv_init [OF this g(4)]
  have nb: "\<not> bit (sc_ready_bitmap s) ?k"
    using sched_wf_ao [OF assms(1) g(2)] g(5) by (simp add: ao_ok_def)
  show ?thesis
    using True g b nb sched_wf_lengths [OF assms(1)] inv
    by (intro sched_wf_step [OF assms(1) g(2)])
      (auto simp: sp sched_register_task_def sched_register_def Let_def aos_set_ao ao_ok_def
        eq_init_def sched_codes)
qed

lemma sched_unregister_wf:
  assumes "sched_wf K s" shows "sched_wf K (snd (sched_unregister aid s))"
proof (cases "unat aid < 32 \<and> sc_table s ! unat aid \<noteq> None")
  case True
  then have i: "unat aid < 32" and t: "sc_table s ! unat aid = Some (unat aid)"
    using sched_wf_registered(1) [OF assms] by auto
  show ?thesis
    using i t sched_wf_lengths [OF assms] sched_wf_registered(2) [OF assms i t]
    by (intro sched_wf_step [OF assms i])
      (auto simp: sched_unregister_def Let_def aos_set_ao ao_ok_def)
qed (use assms in \<open>auto simp: sched_unregister_def split: option.splits\<close>)

lemma sched_post_common_wf:
  assumes "sched_wf K s" shows "sched_wf K (snd (sched_post_common aid e is_isr s))"
proof (cases "e \<noteq> None \<and> unat aid < 32 \<and> sc_table s ! unat aid \<noteq> None")
  case True
  then have i: "unat aid < 32" and t: "sc_table s ! unat aid = Some (unat aid)"
    and e: "e \<noteq> None" using sched_wf_registered(1) [OF assms] by auto
  let ?q = "ao_q (g_task_aos s ! unat aid)"
  note reg = sched_wf_registered [OF assms i t]
  obtain rc q' where p: "eq_push_common e ?q = (rc, q')" by fastforce
  have q': "eq_inv q'" using eq_push_common_inv [OF reg(5), of e] p by simp
  have cnt: "rc \<noteq> EQ_OK \<Longrightarrow> q_count q' = q_count ?q"
    using p by (auto simp: eq_push_common_def Let_def eq_codes split: option.splits if_splits)
  have ok: "rc = EQ_OK \<Longrightarrow> q_count q' \<noteq> 0"
  proof -
    assume rc: "rc = EQ_OK"
    then have "q_count ?q < q_cap ?q" using p e eq_push_full [OF reg(5), of "the e"]
      by (cases "q_cap ?q \<le> q_count ?q") (auto simp: eq_codes not_le)
    with p e eq_push_room(3) [OF reg(5) this, of "the e"] have "eq_contents q' \<noteq> []" by (cases e) auto
    then show "q_count q' \<noteq> 0" by (simp add: eq_contents_empty)
  qed
  show ?thesis
    using i t e sched_wf_lengths [OF assms] p q' cnt ok reg sched_wf_ao [OF assms i]
    by (intro sched_wf_step [OF assms i])
      (auto simp: sched_post_common_def eq_push_defs Let_def aos_set_ao ao_ok_def split: if_splits)
qed (use assms in \<open>auto simp: sched_post_common_def split: option.splits\<close>)

lemma set_ao_flags_wf:
  assumes "sched_wf K s" "k < 32"
  shows "sched_wf K (set_ao k (\<lambda>a. a\<lparr>ao_flags := f a\<rparr>) s)"
  using assms(2) sched_wf_lengths [OF assms(1)] sched_wf_ao [OF assms]
  by (intro sched_wf_step [OF assms]) (auto simp: aos_set_ao ao_ok_def Let_def split: option.splits)

lemma set_ao_flags_reg_wf:
  assumes "sched_wf K s" "sc_table s ! i = Some k" "\<not> 32 \<le> i"
  shows "sched_wf K (set_ao k (\<lambda>a. a\<lparr>ao_flags := f a\<rparr>) s)"
  using assms sched_wf_registered(1) [OF assms(1) _ assms(2)] set_ao_flags_wf [OF assms(1)] by simp

lemma sched_pause_accept_wf: "sched_wf K s \<Longrightarrow> sched_wf K (snd (sched_pause_accept aid s))"
  by (auto simp: sched_pause_accept_def intro: set_ao_flags_reg_wf split: option.splits)

lemma sched_resume_accept_wf: "sched_wf K s \<Longrightarrow> sched_wf K (snd (sched_resume_accept aid s))"
  by (auto simp: sched_resume_accept_def intro: set_ao_flags_reg_wf split: option.splits)

text \<open>What the loop of \<open>sched_flush_all\<close> has done after \<open>n\<close> objects.\<close>

lemma sched_flush_loop:
  fixes s :: "'a sched_scheme"
  assumes "sched_wf K s" "n \<le> 32"
  defines "t \<equiv> foldl (\<lambda>s i. case sc_table s ! i of None \<Rightarrow> s
                   | Some k \<Rightarrow> set_ao k (\<lambda>a. a\<lparr>ao_q := eq_drain (ao_q a)\<rparr>) s) s [0..<n]"
  shows "sc_table t = sc_table s \<and> sc_rr_cursor t = sc_rr_cursor s \<and> length (g_task_aos t) = 32 \<and>
    (\<forall>i<32. g_task_aos t ! i =
       (if i < n \<and> sc_table s ! i \<noteq> None
        then (g_task_aos s ! i)\<lparr>ao_q := eq_drain (ao_q (g_task_aos s ! i))\<rparr>
        else g_task_aos s ! i))"
  using assms(2) unfolding t_def
proof (induction n)
  case (Suc n)
  show ?case
  proof (cases "sc_table s ! n")
    case (Some k)
    with sched_wf_registered(1) [OF assms(1) _ Some] Suc show ?thesis
      by (auto simp: aos_set_ao less_Suc_eq)
  qed (use Suc in \<open>auto simp: less_Suc_eq\<close>)
qed (use sched_wf_lengths [OF assms(1)] in simp)

lemma sched_flush_all_wf:
  assumes "sched_wf K s" shows "sched_wf K (sched_flush_all s)"
proof -
  note loop = sched_flush_loop [OF assms order_refl]
  have "ao_ok K (sched_flush_all s) i" if "i < 32" for i
    using that loop sched_wf_ao [OF assms that]
    by (auto simp: sched_flush_all_def ao_ok_def Let_def eq_inv_drain split: option.splits)
  with loop sched_wf_lengths [OF assms] show ?thesis
    by (simp add: sched_wf_def) (simp add: sched_flush_all_def)
qed

subsection \<open>Sequences of scheduler calls\<close>

text \<open>The calls a handler or an interrupt makes on the scheduler.\<close>

datatype sched_call =
    CRegister "task_spec option" | CUnregister u8 | CPost u8 "event option"
  | CPostIsr u8 "event option" | CPause u8 | CResume u8 | CFlush

fun call_ok :: "sched_call \<Rightarrow> bool" where
  "call_ok (CRegister (Some spec)) = spec_ok spec"
| "call_ok _ = True"

fun do_call :: "sched_call \<Rightarrow> 'a sched_scheme \<Rightarrow> 'a sched_scheme" where
  "do_call (CRegister sp) s = snd (sched_register_task sp s)"
| "do_call (CUnregister aid) s = snd (sched_unregister aid s)"
| "do_call (CPost aid e) s = snd (sched_post aid e s)"
| "do_call (CPostIsr aid e) s = snd (sched_post_isr aid e s)"
| "do_call (CPause aid) s = snd (sched_pause_accept aid s)"
| "do_call (CResume aid) s = snd (sched_resume_accept aid s)"
| "do_call CFlush s = sched_flush_all s"

lemma do_call_wf: "sched_wf K s \<Longrightarrow> call_ok c \<Longrightarrow> sched_wf K (do_call c s)"
  by (cases c) (auto simp: sched_post_def sched_post_isr_def sched_unregister_wf
      sched_post_common_wf sched_pause_accept_wf sched_resume_accept_wf sched_flush_all_wf
      intro: sched_register_task_wf)

lemma do_calls_wf:
  "sched_wf K s \<Longrightarrow> \<forall>c\<in>set cs. call_ok c \<Longrightarrow> sched_wf K (fold do_call cs s)"
  by (induction cs arbitrary: s) (simp_all add: do_call_wf)

section \<open>Which object runs next\<close>

definition eligible :: "'a sched_scheme \<Rightarrow> u8 \<Rightarrow> nat \<Rightarrow> bool" where
  "eligible s prio j \<longleftrightarrow>
     is_ready s j \<and> (\<exists>a. sc_table s ! j = Some a \<and> ao_prio (g_task_aos s ! a) = prio)"

lemma highest_loop:
  fixes s :: "'a sched_scheme"
  defines "f \<equiv> \<lambda>best i. if \<not> is_ready s i then best
        else case sc_table s ! i of
               None \<Rightarrow> best
             | Some a \<Rightarrow> (let prio = int (unat (ao_prio (g_task_aos s ! a)))
                         in if prio > best then prio else best)"
  shows "(\<forall>i<n. \<forall>p. eligible s p i \<longrightarrow> int (unat p) \<le> foldl f (-1) [0..<n]) \<and>
    (foldl f (-1) [0..<n] = -1 \<or> (\<exists>i<n. \<exists>p. eligible s p i \<and> foldl f (-1) [0..<n] = int (unat p)))"
proof (induction n)
  case (Suc n)
  have step: "foldl f (-1) [0..<Suc n] = f (foldl f (-1) [0..<n]) n" by simp
  show ?case
  proof (cases "is_ready s n \<and> sc_table s ! n \<noteq> None")
    case True
    then obtain a where a: "sc_table s ! n = Some a" "is_ready s n" by auto
    let ?p = "ao_prio (g_task_aos s ! a)"
    have e: "eligible s p n \<longleftrightarrow> p = ?p" for p using a by (auto simp: eligible_def)
    have r: "foldl f (-1) [0..<Suc n] = max (foldl f (-1) [0..<n]) (int (unat ?p))"
      unfolding step using a by (simp add: f_def Let_def max_def)
    show ?thesis unfolding r using Suc e by (fastforce simp: less_Suc_eq max_def)
  next
    case False
    then have "\<not> eligible s p n" for p by (auto simp: eligible_def)
    moreover have "foldl f (-1) [0..<Suc n] = foldl f (-1) [0..<n]"
      unfolding step using False by (auto simp: f_def split: option.splits)
    ultimately show ?thesis using Suc by (simp add: less_Suc_eq) blast
  qed
qed simp

lemma highest_ge: "eligible s p i \<Longrightarrow> i < 32 \<Longrightarrow> int (unat p) \<le> highest_ready_prio s"
  using highest_loop [where n = 32 and s = s] unfolding highest_ready_prio_def by blast

lemma highest_cases:
  "highest_ready_prio s = -1 \<or> (\<exists>i<32. \<exists>p. eligible s p i \<and> highest_ready_prio s = int (unat p))"
  using highest_loop [where n = 32 and s = s] unfolding highest_ready_prio_def by blast

lemma unat_rr_id [simp]: "i < 32 \<Longrightarrow> unat (rr_id start i) = (unat start + i) mod 32"
proof -
  assume i: "i < 32"
  have "unat start + i < 4294967296" using i unat_u8_lt [of start] by linarith
  then have u: "unat (ucast start + of_nat i :: u32) = unat start + i"
    using i by (subst unat_add_small) (simp_all add: unat_of_nat)
  have "(ucast start + of_nat i :: u32) AND 31 = take_bit 5 (ucast start + of_nat i)"
    by (simp add: take_bit_eq_mask mask_eq_exp_minus_1)
  then have "unat ((ucast start + of_nat i :: u32) AND 31) = (unat start + i) mod 32"
    using u by (simp add: unsigned_take_bit_eq take_bit_eq_mod unat_mod)
  then show ?thesis
    unfolding rr_id_def by (subst unat_ucast_u32_u8) (simp_all add: less_trans [OF mod_less_divisor])
qed

lemma pick_loop_find:
  "pick_loop s start prio is =
     (case find (\<lambda>i. eligible s prio (unat (rr_id start i))) is of
        None \<Rightarrow> None
      | Some i \<Rightarrow> Some (rr_id start i, the (sc_table s ! unat (rr_id start i))))"
  by (induction "is") (auto simp: eligible_def Let_def split: option.splits)

text \<open>How many ids the search looks at before id \<open>k\<close> when the cursor is \<open>c\<close>.\<close>

definition rr_dist :: "u8 \<Rightarrow> nat \<Rightarrow> nat" where
  "rr_dist c k = (k + (31 - unat c mod 32)) mod 32"

lemma rr_dist_less [simp]: "rr_dist c k < 32"
  by (simp add: rr_dist_def)

lemma unat_inc_mod32: "unat (c + 1 :: u8) mod 32 = (unat c mod 32 + 1) mod 32"
proof -
  have "unat (c + 1) mod 32 = Suc (unat c) mod 256 mod 32" by (simp add: unat_word_ariths)
  also have "\<dots> = Suc (unat c) mod 32" by (rule mod_mod_cancel) simp
  finally show ?thesis by (simp add: mod_Suc_eq)
qed

lemma rr_id_dist: "k < 32 \<Longrightarrow> unat (rr_id (c + 1) (rr_dist c k)) = k"
proof -
  assume k: "k < 32"
  have "(unat (c + 1) + rr_dist c k) mod 32
      = (unat c mod 32 + 1 + (k + (31 - unat c mod 32))) mod 32"
    unfolding rr_dist_def by (rule mod_add_cong) (simp_all add: unat_inc_mod32)
  also have "\<dots> = (k + 32) mod 32"
    by (rule arg_cong [where f = "\<lambda>x. x mod 32"]) (use mod_less_divisor [of 32 "unat c"] in linarith)
  finally show ?thesis using k by simp
qed

lemma rr_dist_id: "i < 32 \<Longrightarrow> rr_dist c (unat (rr_id (c + 1) i)) = i"
proof -
  assume i: "i < 32"
  have "(rr_dist c ((unat (c + 1) + i) mod 32)) = ((unat (c + 1) + i) mod 32 + (31 - unat c mod 32)) mod 32"
    by (simp add: rr_dist_def)
  also have "\<dots> = ((unat c mod 32 + 1 + i) + (31 - unat c mod 32)) mod 32"
    by (intro mod_add_cong) (simp_all add: mod_add_cong [OF unat_inc_mod32 refl])
  also have "\<dots> = (i + 32) mod 32"
    by (rule arg_cong [where f = "\<lambda>x. x mod 32"]) (use mod_less_divisor [of 32 "unat c"] in linarith)
  finally show ?thesis using i by simp
qed

text \<open>
  A search that finds some eligible object finds the nearest one after the
  cursor, and moves the cursor onto it.
\<close>

lemma find_upt_Some:
  "P k \<Longrightarrow> k < n \<Longrightarrow> \<exists>i\<le>k. find P [0..<n] = Some i \<and> P i \<and> (\<forall>j<i. \<not> P j)"
proof (induction n)
  case (Suc n)
  show ?case
  proof (cases "\<exists>i<n. P i")
    case True
    then obtain i where i: "i < n" "P i" "\<forall>j<i. \<not> P j"
      using exists_least_iff [of P] by (metis less_trans not_less_iff_gr_or_eq)
    then have "find P [0..<Suc n] = Some i"
      by (auto simp: find_Some_iff nth_append simp del: upt_Suc intro!: exI [of _ i])
    with i Suc.prems show ?thesis by (metis not_less)
  next
    case False
    with Suc.prems have "k = n" by (metis less_SucE)
    with False Suc.prems have "find P [0..<Suc n] = Some n"
      by (auto simp: find_Some_iff nth_append simp del: upt_Suc intro!: exI [of _ n])
    with False \<open>k = n\<close> Suc.prems(1) show ?thesis by blast
  qed
qed simp

lemma pick_nearest:
  assumes "sched_wf {} s" "eligible s p k" "k < 32"
  defines "c \<equiv> sc_rr_cursor s ! unat p"
  obtains j i where "pick_ready_rr s p = (Some j, s\<lparr>sc_rr_cursor := (sc_rr_cursor s)[unat p := i]\<rparr>)"
    "unat i = j" "j < 32" "eligible s p j" "rr_dist c j \<le> rr_dist c k"
proof -
  let ?P = "\<lambda>i. eligible s p (unat (rr_id (c + 1) i))"
  have "?P (rr_dist c k)" using assms(2,3) by (simp add: rr_id_dist del: unat_rr_id)
  from find_upt_Some [of ?P, OF this rr_dist_less] obtain i where
    i: "i \<le> rr_dist c k" "find ?P [0..<32] = Some i" "?P i" by auto
  have i32: "i < 32" using i(1) rr_dist_less [of c k] by linarith
  let ?j = "unat (rr_id (c + 1) i)"
  have j32: "?j < 32" using i32 by simp
  have "sc_table s ! ?j = Some ?j"
    using i(3) sched_wf_registered(1) [OF assms(1) j32] by (auto simp: eligible_def)
  then have "pick_ready_rr s p = (Some ?j, s\<lparr>sc_rr_cursor := (sc_rr_cursor s)[unat p := rr_id (c + 1) i]\<rparr>)"
    using i(2) by (simp add: pick_ready_rr_def Let_def c_def pick_loop_find)
  moreover have "rr_dist c ?j \<le> rr_dist c k" using i(1) i32 by (simp add: rr_dist_id del: unat_rr_id)
  ultimately show ?thesis using that i(3) j32 by blast
qed

lemma pick_busy:
  assumes "sched_wf {} s" "highest_ready_prio s \<noteq> -1"
  obtains k p where "highest_ready_prio s = int (unat p)" "k < 32" "eligible s p k"
    "ao_prio (g_task_aos s ! k) = p" "sc_table s ! k = Some k"
    "pick_ready_rr s p = (Some k, s\<lparr>sc_rr_cursor := (sc_rr_cursor s)[unat p := of_nat k]\<rparr>)"
    "\<forall>j<32. eligible s p j \<longrightarrow> rr_dist (sc_rr_cursor s ! unat p) k \<le> rr_dist (sc_rr_cursor s ! unat p) j"
proof -
  obtain i p where ip: "i < 32" "eligible s p i" "highest_ready_prio s = int (unat p)"
    using highest_cases [of s] assms(2) by auto
  obtain k c where pick: "pick_ready_rr s p = (Some k, s\<lparr>sc_rr_cursor := (sc_rr_cursor s)[unat p := c]\<rparr>)"
    and c: "unat c = k" and k: "k < 32" "eligible s p k"
    using pick_nearest [OF assms(1) ip(2,1)] by metis
  have "\<forall>j<32. eligible s p j \<longrightarrow> rr_dist (sc_rr_cursor s ! unat p) k \<le> rr_dist (sc_rr_cursor s ! unat p) j"
    using pick pick_nearest [OF assms(1)] by (metis option.inject prod.inject)
  moreover have "c = of_nat k" using c by (metis of_nat_unat ucast_id)
  moreover have "sc_table s ! k = Some k" "ao_prio (g_task_aos s ! k) = p"
    using k sched_wf_registered(1) [OF assms(1) k(1)] by (auto simp: eligible_def)
  ultimately show ?thesis using that ip(3) k pick by blast
qed

text \<open>After a turn for another object of the same priority, \<open>k\<close> is nearer.\<close>

lemma rr_dist_if:
  "k < 32 \<Longrightarrow> rr_dist c k =
     (if k \<le> unat c mod 32 then k + 31 - unat c mod 32 else k - unat c mod 32 - 1)"
proof -
  assume k: "k < 32"
  obtain x where x: "unat c mod 32 = x" "x < 32" using mod_less_divisor [of 32 "unat c"] by simp
  show ?thesis
  proof (cases "k \<le> x")
    case True
    then have "k + (31 - x) = k + 31 - x" "k + 31 - x < 32" using x(2) by arith+
    with True show ?thesis unfolding rr_dist_def x(1) by simp
  next
    case False
    then have "k + (31 - x) = (k - x - 1) + 32" using x(2) by arith
    then have "(k + (31 - x)) mod 32 = (k - x - 1) mod 32" by (metis mod_add_self2)
    with False k show ?thesis unfolding rr_dist_def x(1) by simp
  qed
qed

lemma rr_dist_arith:
  fixes j k x :: nat
  assumes "j < 32" "k < 32" "x < 32" "j \<noteq> k"
    "(if j \<le> x then j + 31 - x else j - x - 1) \<le> (if k \<le> x then k + 31 - x else k - x - 1)"
  shows "(if k \<le> j then k + 31 - j else k - j - 1) < (if k \<le> x then k + 31 - x else k - x - 1)"
  using assms by (cases "j \<le> x"; cases "k \<le> x"; cases "k \<le> j") auto

lemma rr_dist_step:
  assumes "j < 32" "k < 32" "j \<noteq> k" "rr_dist c j \<le> rr_dist c k"
  shows "rr_dist (of_nat j) k < rr_dist c k"
proof -
  have u: "unat (of_nat j :: u8) mod 32 = j" using assms(1) by (simp add: unat_of_nat)
  show ?thesis
    using assms(4) unfolding rr_dist_if [OF assms(1)] rr_dist_if [OF assms(2)] u
    by (intro rr_dist_arith [OF assms(1,2) _ assms(3)]) simp_all
qed

section \<open>A turn of the run loop\<close>

text \<open>
  The contract a handler owes to the scheduler, whatever else it changes: it
  leaves a well-formed scheduler well-formed and does not move the cursors.
\<close>

lemma finish_wf:
  assumes "sched_wf {k} s" "k < 32" "unat (ao_id (g_task_aos s ! k)) = k"
  shows "sched_wf {} (if eq_is_empty (ao_q (g_task_aos s ! k))
      then s\<lparr>sc_ready_bitmap := sc_ready_bitmap s AND NOT (id_bit (unat (ao_id (g_task_aos s ! k))))\<rparr>
      else s)"
  using assms
  by (auto simp: sched_wf_def ao_ok_def Let_def eq_is_empty_def split: option.splits)

lemma sched_wf_pop:
  fixes s :: "'a sched_scheme"
  assumes wf: "sched_wf {} s" and k: "k < 32" "sc_table s ! k = Some k" "is_ready s k"
    and q: "eq_inv q"
  shows "sched_wf {k} (set_ao k (\<lambda>a. a\<lparr>ao_q := q\<rparr>) s)"
proof -
  note reg = sched_wf_registered [OF wf k(1,2)] and len = sched_wf_lengths [OF wf]
  have wf0: "sched_wf {k} s" using wf reg(2)
    by (auto simp: sched_wf_def ao_ok_def Let_def split: option.splits)
  show ?thesis
    using len reg k q
    by (intro sched_wf_step [OF wf0 k(1)]) (simp_all add: ao_ok_def aos_set_ao is_ready_bit)
qed

locale handlers =
  fixes idle :: "u32 \<Rightarrow> 'a sched_scheme \<Rightarrow> 'a sched_scheme"
    and dispatch :: "u32 \<Rightarrow> nat \<Rightarrow> event \<Rightarrow> 'a sched_scheme \<Rightarrow> 'a sched_scheme"
  assumes idle_wf: "sched_wf {} s \<Longrightarrow> sched_wf {} (idle f s)"
    and dispatch_wf: "sched_wf {k} s \<Longrightarrow> sched_wf {k} (dispatch f k e s)"
    and dispatch_cursor: "sc_rr_cursor (dispatch f k e s) = sc_rr_cursor s"
begin

lemma handler_wf:
  fixes s :: "'a sched_scheme"
  assumes wf: "sched_wf {} s" and k: "k < 32" "sc_table s ! k = Some k" "is_ready s k"
    and q: "eq_inv q"
  shows "sched_wf {k} (set_ao k (\<lambda>a. a\<lparr>ao_events_handled := ao_events_handled a + 1\<rparr>)
           (dispatch f k e (set_ao k (\<lambda>a. a\<lparr>ao_q := q\<rparr>) s)))" (is "sched_wf _ (set_ao k _ ?s3)")
proof -
  from dispatch_wf [OF sched_wf_pop [OF assms]] have wf3: "sched_wf {k} ?s3" .
  show ?thesis
    using k(1) sched_wf_lengths [OF wf3] sched_wf_ao [OF wf3 k(1)]
    by (intro sched_wf_step [OF wf3 k(1)])
      (auto simp: ao_ok_def aos_set_ao Let_def split: option.splits)
qed

lemma turn_busy:
  assumes wf: "sched_wf {} s" and busy: "highest_ready_prio s \<noteq> -1"
  obtains k p e s' where "sched_turn idle dispatch s = (Handled k (Some e), s')"
    "k < 32" "eligible s p k" "highest_ready_prio s = int (unat p)"
    "\<forall>j<32. eligible s p j \<longrightarrow> rr_dist (sc_rr_cursor s ! unat p) k \<le> rr_dist (sc_rr_cursor s ! unat p) j"
    "\<exists>es. eq_contents (ao_q (g_task_aos s ! k)) = e # es"
    "sc_rr_cursor s' = (sc_rr_cursor s)[unat p := of_nat k]" "sched_wf {} s'"
proof -
  obtain k p where p: "highest_ready_prio s = int (unat p)" and k: "k < 32" "eligible s p k"
    "ao_prio (g_task_aos s ! k) = p" and tab: "sc_table s ! k = Some k"
    and pick: "pick_ready_rr s p = (Some k, s\<lparr>sc_rr_cursor := (sc_rr_cursor s)[unat p := of_nat k]\<rparr>)"
    and near: "\<forall>j<32. eligible s p j \<longrightarrow> rr_dist (sc_rr_cursor s ! unat p) k \<le> rr_dist (sc_rr_cursor s ! unat p) j"
    using pick_busy [OF assms] by metis
  let ?s1 = "s\<lparr>sc_rr_cursor := (sc_rr_cursor s)[unat p := of_nat k]\<rparr>"
  have rdy: "is_ready s k" using k(2) by (simp add: eligible_def)
  note reg = sched_wf_registered [OF wf k(1) tab]
  obtain e q where pop: "eq_pop (ao_q (g_task_aos s ! k)) = ((EQ_OK, Some e), q)"
    "eq_contents (ao_q (g_task_aos s ! k)) = e # eq_contents q" "eq_inv q"
    using eq_pop_some [OF reg(5)] sched_wf_ready [OF wf k(1)] rdy by (auto simp: eq_contents_empty)
  have wf1: "sched_wf {} ?s1" using wf by (simp add: sched_wf_def ao_ok_def cong: option.case_cong)
  define f where "f = ao_dispatch (g_task_aos s ! k)"
  let ?s3 = "set_ao k (\<lambda>a. a\<lparr>ao_events_handled := ao_events_handled a + 1\<rparr>)
           (dispatch f k e (set_ao k (\<lambda>a. a\<lparr>ao_q := q\<rparr>) ?s1))"
  have wf3: "sched_wf {k} ?s3" using rdy by (intro handler_wf [OF wf1 k(1)]) (simp_all add: tab pop is_ready_def)
  have id3: "unat (ao_id (g_task_aos ?s3 ! k)) = k"
    using sched_wf_ao [OF wf3 k(1)] by (auto simp: ao_ok_def Let_def split: option.splits)
  note turn = finish_wf [OF wf3 k(1) id3]
  let ?s4 = "if eq_is_empty (ao_q (g_task_aos ?s3 ! k))
      then ?s3\<lparr>sc_ready_bitmap := sc_ready_bitmap ?s3 AND NOT (id_bit (unat (ao_id (g_task_aos ?s3 ! k))))\<rparr>
      else ?s3"
  have "sched_turn idle dispatch s = (Handled k (Some e), ?s4)"
    using p pick reg k(1) sched_wf_lengths [OF wf]
    by (simp add: sched_turn_def Let_def pop aos_set_ao f_def)
  moreover have "sc_rr_cursor ?s4 = (sc_rr_cursor s)[unat p := of_nat k]"
    by (simp add: dispatch_cursor)
  ultimately show ?thesis using that k(1,2) p near pop(2) turn by blast
qed

lemma turn_idle:
  assumes "highest_ready_prio s = -1"
  shows "sched_turn idle dispatch s = (Idle, if sc_idle_hook s \<noteq> 0 then idle (sc_idle_hook s) s else s)"
  using assms by (simp add: sched_turn_def)

lemma turn_wf:
  assumes "sched_wf {} s" shows "sched_wf {} (snd (sched_turn idle dispatch s))"
proof (cases "highest_ready_prio s = -1")
  case True
  with assms show ?thesis by (simp add: turn_idle idle_wf)
next
  case False
  from turn_busy [OF assms False] show ?thesis by (metis snd_conv)
qed

lemma turn_progress:
  assumes wf: "sched_wf {} s" and k: "k < 32" "is_ready s k"
    and top: "highest_ready_prio s = int (unat (ao_prio (g_task_aos s ! k)))"
    and p: "p = ao_prio (g_task_aos s ! k)"
  shows "(\<exists>e. fst (sched_turn idle dispatch s) = Handled k (Some e)) \<or>
    rr_dist (sc_rr_cursor (snd (sched_turn idle dispatch s)) ! unat p) k
      < rr_dist (sc_rr_cursor s ! unat p) k"
proof -
  have tab: "sc_table s ! k = Some k" using sched_wf_ready [OF wf k(1)] k(2) by simp
  have el: "eligible s p k" using k tab by (simp add: eligible_def p)
  have p32: "unat p < length (sc_rr_cursor s)"
    using sched_wf_registered(3) [OF wf k(1) tab] sched_wf_lengths [OF wf] by (simp add: p)
  have "highest_ready_prio s \<noteq> -1" unfolding top by linarith
  then obtain j q e s' where turn: "sched_turn idle dispatch s = (Handled j (Some e), s')"
    and j: "j < 32" and q: "highest_ready_prio s = int (unat q)"
    and near: "\<forall>i<32. eligible s q i \<longrightarrow> rr_dist (sc_rr_cursor s ! unat q) j \<le> rr_dist (sc_rr_cursor s ! unat q) i"
    and cur: "sc_rr_cursor s' = (sc_rr_cursor s)[unat q := of_nat j]"
    using turn_busy [OF wf] by metis
  have "int (unat q) = int (unat p)" using q top p by simp
  then have "q = p" by (simp only: of_nat_eq_iff word_unat_eq_iff)
  with near el k(1) cur p32 have "rr_dist (sc_rr_cursor s ! unat p) j \<le> rr_dist (sc_rr_cursor s ! unat p) k"
    and c': "sc_rr_cursor s' ! unat p = of_nat j" by simp_all
  with rr_dist_step [OF j k(1)] turn show ?thesis by (cases "j = k") auto
qed

lemma turn_fair:
  fixes s :: "'a sched_scheme"
  assumes wf: "sched_wf {} s" and k: "k < 32"
    and stay: "\<And>m. m \<le> rr_dist (sc_rr_cursor s ! unat p) k \<Longrightarrow>
      (let t = ((\<lambda>s. snd (sched_turn idle dispatch s)) ^^ m) s in
       is_ready t k \<and> ao_prio (g_task_aos t ! k) = p \<and> highest_ready_prio t = int (unat p))"
  shows "\<exists>m \<le> rr_dist (sc_rr_cursor s ! unat p) k. \<exists>e.
    fst (sched_turn idle dispatch (((\<lambda>s. snd (sched_turn idle dispatch s)) ^^ m) s)) = Handled k (Some e)"
  using wf stay
proof (induction "rr_dist (sc_rr_cursor s ! unat p) k" arbitrary: s rule: less_induct)
  case less
  let ?next = "\<lambda>s. snd (sched_turn idle dispatch s)"
  have now: "is_ready s k" "ao_prio (g_task_aos s ! k) = p" "highest_ready_prio s = int (unat p)"
    using less.prems(2) [of 0] by (simp_all add: Let_def)
  consider (here) e where "fst (sched_turn idle dispatch s) = Handled k (Some e)"
    | (nearer) "rr_dist (sc_rr_cursor (?next s) ! unat p) k < rr_dist (sc_rr_cursor s ! unat p) k"
    using turn_progress [OF less.prems(1) k now(1) _ now(2) [symmetric]] now by auto
  then show ?case
  proof cases
    case here
    then show ?thesis by (intro exI [of _ 0]) simp
  next
    case nearer
    have "let t = (?next ^^ m) (?next s) in
       is_ready t k \<and> ao_prio (g_task_aos t ! k) = p \<and> highest_ready_prio t = int (unat p)"
      if "m \<le> rr_dist (sc_rr_cursor (?next s) ! unat p) k" for m
      using less.prems(2) [of "Suc m"] nearer that by (simp add: funpow_Suc_right del: funpow.simps)
    from less.hyps [OF nearer turn_wf [OF less.prems(1)] this] obtain m e where
      m: "m \<le> rr_dist (sc_rr_cursor (?next s) ! unat p) k"
      "fst (sched_turn idle dispatch ((?next ^^ m) (?next s))) = Handled k (Some e)" by auto
    show ?thesis
      using m nearer by (intro exI [of _ "Suc m"] conjI exI [of _ e])
        (simp_all add: funpow_Suc_right del: funpow.simps)
  qed
qed

end

text \<open>
  Handlers that act on the scheduler through its calls: the calls may depend on
  the whole state; a registration must hand over a large enough storage.
\<close>

definition calls_handler ::
  "(u32 \<Rightarrow> nat \<Rightarrow> event \<Rightarrow> 'a sched_scheme \<Rightarrow> sched_call list) \<Rightarrow>
   u32 \<Rightarrow> nat \<Rightarrow> event \<Rightarrow> 'a sched_scheme \<Rightarrow> 'a sched_scheme" where
  "calls_handler prog f k e s = fold do_call (filter call_ok (prog f k e s)) s"

definition calls_idle ::
  "(u32 \<Rightarrow> 'a sched_scheme \<Rightarrow> sched_call list) \<Rightarrow> u32 \<Rightarrow> 'a sched_scheme \<Rightarrow> 'a sched_scheme" where
  "calls_idle prog f s = fold do_call (filter call_ok (prog f s)) s"

lemma do_call_cursor [simp]: "sc_rr_cursor (do_call c s) = sc_rr_cursor s"
proof (cases c)
  case CFlush
  have "sc_rr_cursor (foldl (\<lambda>s i. case sc_table s ! i of None \<Rightarrow> s
      | Some k \<Rightarrow> set_ao k (\<lambda>a. a\<lparr>ao_q := eq_drain (ao_q a)\<rparr>) s) s xs) = sc_rr_cursor s"
    for xs :: "nat list"
    by (induction xs arbitrary: s) (auto split: option.splits)
  with CFlush show ?thesis by (simp add: sched_flush_all_def)
qed (auto simp: sched_register_task_def sched_register_def sched_unregister_def sched_post_def
    sched_post_isr_def sched_post_common_def sched_pause_accept_def sched_resume_accept_def Let_def
    split: option.splits prod.splits)

interpretation ch: handlers "calls_idle p" "calls_handler q" for p q
proof unfold_locales
  have cur: "sc_rr_cursor (fold do_call cs s) = sc_rr_cursor s" for cs and s :: "'a sched_scheme"
    by (induction cs arbitrary: s) simp_all
  show "sc_rr_cursor (calls_handler q f k e s) = sc_rr_cursor s" for f k e s
    by (simp add: calls_handler_def cur)
qed (simp_all add: calls_idle_def calls_handler_def do_calls_wf)

section \<open>Properties\<close>

definition ex_event :: "u16 \<Rightarrow> event" where
  "ex_event n = \<lparr> ev_sig = n, ev_src = 0, ev_arg0 = 0, ev_arg1 = 0, ev_tick = 0 \<rparr>"

definition ex_spec :: "u8 \<Rightarrow> u8 \<Rightarrow> task_spec" where
  "ex_spec tid prio =
     \<lparr> ts_id = tid, ts_prio = prio, ts_dispatch = 0x08001000, ts_ctx = 0x20001000,
       ts_queue_storage = Some [ex_event 0, ex_event 0], ts_queue_capacity = 2,
       ts_rtc_budget_ticks = 1, ts_name = None \<rparr>"

definition ex_ao :: ao where
  "ex_ao = \<lparr> ao_id = 0, ao_prio = 0, ao_reserved = 0, ao_q = eq_init None 0, ao_dispatch = 0,
     ao_state = 0, ao_flags = 0, ao_rtc_max_ticks = 0, ao_events_handled = 0, ao_name = None \<rparr>"

definition ex_boot :: sched where
  "ex_boot = sched_init 0 \<lparr> g_task_aos = replicate 32 ex_ao, sc_table = [], sc_ready_bitmap = 0,
     sc_rr_cursor = [], sc_idle_hook = 0 \<rparr>"

definition ex_calls :: "sched_call list" where
  "ex_calls = [CRegister (Some (ex_spec 1 3)), CRegister (Some (ex_spec 2 3)),
     CRegister (Some (ex_spec 4 1)), CPost 1 (Some (ex_event 7)), CPost 2 (Some (ex_event 8)),
     CPost 2 (Some (ex_event 9)), CPostIsr 4 (Some (ex_event 10))]"

definition ex_sched :: sched where "ex_sched = fold do_call ex_calls ex_boot"

lemma ex_sched_wf: "sched_wf {} ex_sched"
  unfolding ex_sched_def
  by (rule do_calls_wf) (simp_all add: ex_boot_def sched_init_wf ex_calls_def spec_ok_def ex_spec_def)

definition ex_turn :: "sched \<Rightarrow> turn \<times> sched" where
  "ex_turn = sched_turn (calls_idle (\<lambda>f s. [])) (calls_handler (\<lambda>f k e s. []))"

lemma ex_turn0: "is_ready ex_sched 2" "ao_prio (g_task_aos ex_sched ! 2) = 3"
  "highest_ready_prio ex_sched = int (unat (3 :: u8))"
  by code_simp+

lemma ex_turn1: "is_ready (snd (ex_turn ex_sched)) 2"
  "ao_prio (g_task_aos (snd (ex_turn ex_sched)) ! 2) = 3"
  "highest_ready_prio (snd (ex_turn ex_sched)) = int (unat (3 :: u8))"
  by code_simp+

text \<open>C6: after any sequence of scheduler calls from \<open>sched_init\<close> (registrations,
  unregistrations, posts from tasks and from interrupts, pauses, resumes,
  flushes), the ready bit of an id is set exactly when an object is registered
  under it and its queue holds an event.\<close>

theorem ready_bitmap_exact:
  fixes hook :: u32
  assumes "length (g_task_aos s) = SCHED_MAX_AO" "list_all call_ok cs" "i < SCHED_MAX_AO"
  defines "t \<equiv> fold do_call cs (sched_init hook s)"
  shows "is_ready t i \<longleftrightarrow> sc_table t ! i = Some i \<and> eq_contents (ao_q (g_task_aos t ! i)) \<noteq> []"
  unfolding t_def using assms
  by (intro sched_wf_ready do_calls_wf sched_init_wf) (simp_all add: list_all_iff)

theorem ready_bitmap_exact_witness:
  "is_ready (fold do_call ex_calls (sched_init 0 ex_boot)) 4 \<longleftrightarrow>
     sc_table (fold do_call ex_calls (sched_init 0 ex_boot)) ! 4 = Some 4 \<and>
     eq_contents (ao_q (g_task_aos (fold do_call ex_calls (sched_init 0 ex_boot)) ! 4)) \<noteq> []"
  by (rule ready_bitmap_exact) (simp_all add: ex_boot_def sched_init_def ex_calls_def spec_ok_def ex_spec_def)

text \<open>C5: when some object is ready, a turn of the run loop does not panic and does
  not come up empty: it hands the oldest queued event of a ready object to its
  handler, no ready object has a higher priority, and whatever scheduler calls
  the handler makes the bitmap is exact again at the end of the turn.\<close>

theorem sched_turn_serves_highest:
  assumes "sched_wf {} s" "i < SCHED_MAX_AO" "is_ready s i"
  shows "\<exists>k e es s'. sched_turn (calls_idle p) (calls_handler q) s = (Handled k (Some e), s') \<and>
    k < SCHED_MAX_AO \<and> sc_table s ! k = Some k \<and> eq_contents (ao_q (g_task_aos s ! k)) = e # es \<and>
    (\<forall>j<SCHED_MAX_AO. is_ready s j \<longrightarrow>
       unat (ao_prio (g_task_aos s ! j)) \<le> unat (ao_prio (g_task_aos s ! k))) \<and>
    sched_wf {} s'"
proof -
  have el: "eligible s (ao_prio (g_task_aos s ! j)) j" if "j < 32" "is_ready s j" for j
    using sched_wf_ready [OF assms(1) that(1)] that(2) by (simp add: eligible_def)
  from highest_ge [OF el [OF assms(2,3)] assms(2)] have "highest_ready_prio s \<noteq> -1" by linarith
  then obtain k r e s' es where turn: "sched_turn (calls_idle p) (calls_handler q) s = (Handled k (Some e), s')"
    and k: "k < 32" "eligible s r k" "highest_ready_prio s = int (unat r)"
    "eq_contents (ao_q (g_task_aos s ! k)) = e # es" "sched_wf {} s'"
    using ch.turn_busy [OF assms(1)] by metis
  have tab: "sc_table s ! k = Some k" and r: "ao_prio (g_task_aos s ! k) = r"
    using k(2) sched_wf_registered(1) [OF assms(1) k(1)] by (auto simp: eligible_def)
  have "unat (ao_prio (g_task_aos s ! j)) \<le> unat (ao_prio (g_task_aos s ! k))"
    if "j < 32" "is_ready s j" for j
    using highest_ge [OF el [OF that] that(1)] k(3) unfolding r by (simp only: of_nat_le_iff)
  with turn k tab show ?thesis by blast
qed

theorem sched_turn_serves_highest_witness:
  "\<exists>k e es s'. sched_turn (calls_idle (\<lambda>f s. [])) (calls_handler (\<lambda>f k e s. [CPost 4 (Some e)])) ex_sched
      = (Handled k (Some e), s') \<and>
    k < SCHED_MAX_AO \<and> sc_table ex_sched ! k = Some k \<and>
    eq_contents (ao_q (g_task_aos ex_sched ! k)) = e # es \<and>
    (\<forall>j<SCHED_MAX_AO. is_ready ex_sched j \<longrightarrow>
       unat (ao_prio (g_task_aos ex_sched ! j)) \<le> unat (ao_prio (g_task_aos ex_sched ! k))) \<and>
    sched_wf {} s'"
  by (rule sched_turn_serves_highest [OF ex_sched_wf, of 4]) (simp, code_simp)

text \<open>C7: round robin.  An object that stays ready, with the highest ready priority,
  is dispatched after at most as many turns as there are ids between the
  cursor of its priority and its own id, hence within 32 turns.\<close>

theorem sched_round_robin_fair:
  assumes "sched_wf {} s" "k < SCHED_MAX_AO"
    and "\<forall>m \<le> rr_dist (sc_rr_cursor s ! unat r) k.
      (let t = ((\<lambda>s. snd (sched_turn (calls_idle p) (calls_handler q) s)) ^^ m) s in
       is_ready t k \<and> ao_prio (g_task_aos t ! k) = r \<and> highest_ready_prio t = int (unat r))"
  shows "\<exists>m e. m \<le> rr_dist (sc_rr_cursor s ! unat r) k \<and> m < 32 \<and>
    fst (sched_turn (calls_idle p) (calls_handler q)
      (((\<lambda>s. snd (sched_turn (calls_idle p) (calls_handler q) s)) ^^ m) s)) = Handled k (Some e)"
proof -
  obtain m e where "m \<le> rr_dist (sc_rr_cursor s ! unat r) k"
    "fst (sched_turn (calls_idle p) (calls_handler q)
      (((\<lambda>s. snd (sched_turn (calls_idle p) (calls_handler q) s)) ^^ m) s)) = Handled k (Some e)"
    using ch.turn_fair [OF assms(1,2)] assms(3) by blast
  then show ?thesis using rr_dist_less le_less_trans by blast
qed

theorem sched_round_robin_fair_witness:
  "\<exists>m e. m \<le> rr_dist (sc_rr_cursor ex_sched ! unat (3 :: u8)) 2 \<and> m < 32 \<and>
    fst (ex_turn (((\<lambda>s. snd (ex_turn s)) ^^ m) ex_sched)) = Handled 2 (Some e)"
  unfolding ex_turn_def
proof (rule sched_round_robin_fair [OF ex_sched_wf])
  have d: "rr_dist (sc_rr_cursor ex_sched ! unat (3 :: u8)) 2 = 1" by code_simp
  show "\<forall>m \<le> rr_dist (sc_rr_cursor ex_sched ! unat (3 :: u8)) 2.
      (let t = ((\<lambda>s. snd (sched_turn (calls_idle (\<lambda>f s. [])) (calls_handler (\<lambda>f k e s. [])) s)) ^^ m) ex_sched in
       is_ready t 2 \<and> ao_prio (g_task_aos t ! 2) = 3 \<and> highest_ready_prio t = int (unat (3 :: u8)))"
    unfolding d using ex_turn0 ex_turn1 by (auto simp: le_Suc_eq Let_def ex_turn_def)
qed simp

end
