(* ===== verification/Sched_Preempt.thy ===== *)
theory Sched_Preempt
  imports Scheduler
begin

text \<open>
  The end of a turn of \<open>sched_run\<close> with interrupts enabled.  \<open>eq_is_empty\<close> is read
  and the ready bit is then cleared by a read-modify-write of
  \<open>s->ready_bitmap\<close>; neither is inside \<open>irq_save\<close>/\<open>irq_restore\<close>, so an interrupt
  handler that calls \<open>sched_post_isr\<close> can run between any two of them.  The
  steps below are the thread's accesses and the interrupt's posts.
\<close>

datatype tail_pc = AtTest nat | AtLoad nat | AtStore nat u32 | TurnDone

inductive tail_step :: "tail_pc \<times> sched \<Rightarrow> tail_pc \<times> sched \<Rightarrow> bool" where
  test_empty: "eq_is_empty (ao_q (g_task_aos s ! k)) \<Longrightarrow> tail_step (AtTest k, s) (AtLoad k, s)"
| test_nonempty: "\<not> eq_is_empty (ao_q (g_task_aos s ! k)) \<Longrightarrow> tail_step (AtTest k, s) (TurnDone, s)"
| load: "tail_step (AtLoad k, s) (AtStore k (sc_ready_bitmap s), s)"
| store: "tail_step (AtStore k w, s)
    (TurnDone, s\<lparr>sc_ready_bitmap := w AND NOT (id_bit (unat (ao_id (g_task_aos s ! k))))\<rparr>)"
| irq: "tail_step (pc, s) (pc, snd (sched_post_isr aid e s))"

inductive_simps tail_step_test: "tail_step (AtTest k, s) (pc, s')"
inductive_simps tail_step_load: "tail_step (AtLoad k, s) (pc, s')"
inductive_simps tail_step_store: "tail_step (AtStore k w, s) (pc, s')"

text \<open>The same accesses with no interrupt between them.\<close>

inductive quiet_step :: "tail_pc \<times> sched \<Rightarrow> tail_pc \<times> sched \<Rightarrow> bool" where
  q_empty: "eq_is_empty (ao_q (g_task_aos s ! k)) \<Longrightarrow> quiet_step (AtTest k, s) (AtLoad k, s)"
| q_nonempty: "\<not> eq_is_empty (ao_q (g_task_aos s ! k)) \<Longrightarrow> quiet_step (AtTest k, s) (TurnDone, s)"
| q_load: "quiet_step (AtLoad k, s) (AtStore k (sc_ready_bitmap s), s)"
| q_store: "quiet_step (AtStore k w, s)
    (TurnDone, s\<lparr>sc_ready_bitmap := w AND NOT (id_bit (unat (ao_id (g_task_aos s ! k))))\<rparr>)"

inductive_cases quiet_test_elim: "quiet_step (AtTest k, s) x"
inductive_cases quiet_load_elim: "quiet_step (AtLoad k, s) x"
inductive_cases quiet_store_elim: "quiet_step (AtStore k w, s) x"
inductive_cases quiet_done_elim: "quiet_step (TurnDone, s) x"

lemmas quiet_elims = quiet_test_elim quiet_load_elim quiet_store_elim quiet_done_elim

text \<open>What holds at each program point when no interrupt comes in between.\<close>

fun tail_inv :: "nat \<Rightarrow> tail_pc \<times> sched \<Rightarrow> bool" where
  "tail_inv k (AtTest j, s) \<longleftrightarrow> j = k \<and> k < 32 \<and> sched_wf {k} s"
| "tail_inv k (AtLoad j, s) \<longleftrightarrow> j = k \<and> k < 32 \<and> sched_wf {k} s \<and> eq_is_empty (ao_q (g_task_aos s ! k))"
| "tail_inv k (AtStore j w, s) \<longleftrightarrow>
     j = k \<and> k < 32 \<and> sched_wf {k} s \<and> eq_is_empty (ao_q (g_task_aos s ! k)) \<and> w = sc_ready_bitmap s"
| "tail_inv k (TurnDone, s) \<longleftrightarrow> sched_wf {} s"

lemma wf_own_id: "sched_wf {k} s \<Longrightarrow> k < 32 \<Longrightarrow> unat (ao_id (g_task_aos s ! k)) = k"
  using sched_wf_ao [of "{k}" s k] by (auto simp: ao_ok_def Let_def split: option.splits)

lemma quiet_step_inv: "quiet_step c c' \<Longrightarrow> tail_inv k c \<Longrightarrow> tail_inv k c'"
proof (induction rule: quiet_step.induct)
  case (q_nonempty s j)
  with finish_wf [of k s] wf_own_id [of k s] show ?case by simp
next
  case (q_store j w s)
  with finish_wf [of k s] wf_own_id [of k s] show ?case by simp
qed simp_all

lemma quiet_run_inv: "quiet_step\<^sup>*\<^sup>* c c' \<Longrightarrow> tail_inv k c \<Longrightarrow> tail_inv k c'"
  by (induction rule: rtranclp_induct) (auto intro: quiet_step_inv)

text \<open>With no interrupt inside the window, the end of a turn restores the exact
  bitmap from the state a handler leaves.\<close>

theorem turn_end_exact_without_irq:
  assumes "sched_wf {k} s" "k < SCHED_MAX_AO" "quiet_step\<^sup>*\<^sup>* (AtTest k, s) (TurnDone, s')"
  shows "sched_wf {} s'"
  using quiet_run_inv [OF assms(3), of k] assms(1,2) by simp

text \<open>The scheduler after object 4 of the example has had its only event popped.\<close>

definition ex_posted :: sched where
  "ex_posted = fold do_call [CRegister (Some (ex_spec 4 1)), CPost 4 (Some (ex_event 10))] ex_boot"

definition ex_popped :: sched where
  "ex_popped = set_ao 4 (\<lambda>a. a\<lparr>ao_q := snd (eq_pop (ao_q (g_task_aos ex_posted ! 4)))\<rparr>) ex_posted"

lemma ex_popped_facts:
  "eq_is_empty (ao_q (g_task_aos ex_popped ! 4))" "sc_table ex_popped ! 4 = Some 4"
  "ao_flags (g_task_aos ex_popped ! 4) AND AO_FLAG_ACCEPT_EVENTS \<noteq> 0"
  "is_ready ex_posted 4" "sc_table ex_posted ! 4 = Some 4"
  by code_simp+

lemma ex_popped_wf: "sched_wf {4} ex_popped"
proof -
  have wf: "sched_wf {} ex_posted" unfolding ex_posted_def
    by (rule do_calls_wf) (simp_all add: ex_boot_def sched_init_wf spec_ok_def ex_spec_def)
  have "eq_inv (ao_q (g_task_aos ex_posted ! 4))"
    by (rule sched_wf_registered [OF wf _ ex_popped_facts(5)]) simp
  then show ?thesis unfolding ex_popped_def
    by (intro sched_wf_pop wf ex_popped_facts eq_pop_inv) simp_all
qed

theorem turn_end_exact_without_irq_witness:
  "sched_wf {} (ex_popped\<lparr>sc_ready_bitmap := sc_ready_bitmap ex_popped
     AND NOT (id_bit (unat (ao_id (g_task_aos ex_popped ! 4))))\<rparr>)"
proof (rule turn_end_exact_without_irq [OF ex_popped_wf])
  show "quiet_step\<^sup>*\<^sup>* (AtTest 4, ex_popped) (TurnDone, ex_popped\<lparr>sc_ready_bitmap := sc_ready_bitmap ex_popped
     AND NOT (id_bit (unat (ao_id (g_task_aos ex_popped ! 4))))\<rparr>)"
    using q_empty [OF ex_popped_facts(1)] q_load q_store
    by (meson converse_rtranclp_into_rtranclp r_into_rtranclp)
qed simp

section \<open>The lost wake-up\<close>

lemma post_isr_to_empty:
  assumes wf: "sched_wf {k} s" and k: "k < 32" "sc_table s ! k = Some k"
    and emp: "eq_is_empty (ao_q (g_task_aos s ! k))"
    and acc: "ao_flags (g_task_aos s ! k) AND AO_FLAG_ACCEPT_EVENTS \<noteq> 0"
  shows "fst (sched_post_isr (of_nat k) (Some e) s) = SCHED_OK"
    "eq_contents (ao_q (g_task_aos (snd (sched_post_isr (of_nat k) (Some e) s)) ! k)) = [e]"
    "ao_id (g_task_aos (snd (sched_post_isr (of_nat k) (Some e) s)) ! k) = ao_id (g_task_aos s ! k)"
proof -
  let ?q = "ao_q (g_task_aos s ! k)"
  have u: "unat (of_nat k :: u8) = k" using k(1) by (simp add: unat_of_nat)
  have inv: "eq_inv ?q" using sched_wf_registered(5) [OF wf k] .
  then have room: "q_count ?q < q_cap ?q"
    using emp by (simp add: eq_is_empty_def eq_inv_def word_gt_0)
  have "eq_contents ?q = []" using emp by (simp add: eq_contents_empty eq_is_empty_def)
  note push = eq_push_room [OF inv room, of e, unfolded this]
  note d = sched_post_isr_def sched_post_common_def u eq_push_defs case_prod_beta Let_def
  show "fst (sched_post_isr (of_nat k) (Some e) s) = SCHED_OK"
    using k acc push by (simp add: d)
  show "eq_contents (ao_q (g_task_aos (snd (sched_post_isr (of_nat k) (Some e) s)) ! k)) = [e]"
    "ao_id (g_task_aos (snd (sched_post_isr (of_nat k) (Some e) s)) ! k) = ao_id (g_task_aos s ! k)"
    using k acc push sched_wf_lengths [OF wf] by (simp_all add: d aos_set_ao)
qed

text \<open>C19: an interrupt that posts to the object of the current turn between the
  emptiness test and the clearing of its bit succeeds, and its event is left in
  the queue with the ready bit clear: no later turn will see it until somebody
  posts to that object again.\<close>

theorem irq_post_loses_wakeup:
  assumes wf: "sched_wf {k} s" and k: "k < SCHED_MAX_AO" "sc_table s ! k = Some k"
    and emp: "eq_is_empty (ao_q (g_task_aos s ! k))"
    and acc: "ao_flags (g_task_aos s ! k) AND AO_FLAG_ACCEPT_EVENTS \<noteq> 0"
  shows "\<exists>s'. tail_step\<^sup>*\<^sup>* (AtTest k, s) (TurnDone, s') \<and>
    fst (sched_post_isr (of_nat k) (Some e) s) = SCHED_OK \<and>
    eq_contents (ao_q (g_task_aos s' ! k)) = [e] \<and> \<not> is_ready s' k"
proof -
  let ?s1 = "snd (sched_post_isr (of_nat k) (Some e) s)"
  let ?s2 = "?s1\<lparr>sc_ready_bitmap := sc_ready_bitmap ?s1 AND NOT (id_bit (unat (ao_id (g_task_aos ?s1 ! k))))\<rparr>"
  note post = post_isr_to_empty [OF assms, of e]
  have "tail_step\<^sup>*\<^sup>* (AtTest k, s) (TurnDone, ?s2)"
    using test_empty [OF emp] irq [of "AtLoad k" s] load [of k ?s1] store [of k _ ?s1]
    by (meson converse_rtranclp_into_rtranclp r_into_rtranclp)
  moreover have "\<not> is_ready ?s2 k" using post(3) wf_own_id [OF wf k(1)] by (simp add: is_ready_bit)
  ultimately show ?thesis using post by (intro exI [of _ ?s2]) simp
qed

theorem irq_post_loses_wakeup_witness:
  "\<exists>s'. tail_step\<^sup>*\<^sup>* (AtTest 4, ex_popped) (TurnDone, s') \<and>
    fst (sched_post_isr (of_nat 4) (Some (ex_event 11)) ex_popped) = SCHED_OK \<and>
    eq_contents (ao_q (g_task_aos s' ! 4)) = [ex_event 11] \<and> \<not> is_ready s' 4"
  by (rule irq_post_loses_wakeup [OF ex_popped_wf _ ex_popped_facts(2,1,3)]) simp

end
