(* ===== verification/Log.thy ===== *)
theory Log
  imports Scheduler
begin

text \<open>
  The log ring of \<open>log.c\<close> (512 bytes, oldest overwritten), its number printers,
  and the part of the system state every component shares: the log ring, what
  the synchronous UART printed so far, the millisecond tick, and the message of
  a kernel panic.
  A C string is the list of its characters without the terminating NUL.
\<close>

record log_ring =
  g_log_buf :: string
  g_log_head :: u16
  g_log_tail :: u16
  g_log_count :: u16

abbreviation (input) LOG_BUF_SIZE :: u16 where "LOG_BUF_SIZE \<equiv> 512"

definition log_putc :: "char \<Rightarrow> log_ring \<Rightarrow> int \<times> log_ring" where
  "log_putc c l =
     (let l1 = (if g_log_count l = LOG_BUF_SIZE
                then l\<lparr>g_log_tail := ring_next16 (g_log_tail l) LOG_BUF_SIZE,
                       g_log_count := g_log_count l - 1\<rparr>
                else l)
      in (0, l1\<lparr>g_log_buf := (g_log_buf l1)[unat (g_log_head l1) := c],
               g_log_head := ring_next16 (g_log_head l1) LOG_BUF_SIZE,
               g_log_count := g_log_count l1 + 1\<rparr>))"

definition log_write :: "string option \<Rightarrow> u16 \<Rightarrow> log_ring \<Rightarrow> int \<times> log_ring" where
  "log_write so len l =
     (case so of None \<Rightarrow> (-1, l)
      | Some s \<Rightarrow>
          if len = 0 then (-1, l)
          else (0, foldl (\<lambda>l i. snd (log_putc (s ! i) l)) l [0..<unat len]))"

definition log_puts :: "string option \<Rightarrow> log_ring \<Rightarrow> int \<times> log_ring" where
  "log_puts so l =
     (case so of None \<Rightarrow> (-1, l) | Some s \<Rightarrow> log_write (Some s) (of_nat (length s)) l)"

text \<open>The digits of \<open>v\<close>, least significant first, at most \<open>m\<close> of them.\<close>

fun u32_digits :: "nat \<Rightarrow> u32 \<Rightarrow> string" where
  "u32_digits 0 v = []"
| "u32_digits (Suc m) v = (if v > 0 then char_of (48 + unat (v mod 10)) # u32_digits m (v div 10) else [])"

definition log_put_u32 :: "u32 \<Rightarrow> log_ring \<Rightarrow> int \<times> log_ring" where
  "log_put_u32 v l =
     (if v = 0 then log_write (Some ''0'') 1 l
      else let buf = u32_digits 10 v
           in log_write (Some (swap_ends buf)) (of_nat (length buf)) l)"

abbreviation (input) hx :: string where "hx \<equiv> ''0123456789ABCDEF''"

definition log_put_hex8 :: "u8 \<Rightarrow> log_ring \<Rightarrow> int \<times> log_ring" where
  "log_put_hex8 v l =
     log_write (Some [hx ! unat (drop_bit 4 v AND 0xF), hx ! unat (v AND 0xF)]) 2 l"

definition log_put_hex32 :: "u32 \<Rightarrow> log_ring \<Rightarrow> int \<times> log_ring" where
  "log_put_hex32 v l =
     log_write (Some (map (\<lambda>i. hx ! unat (drop_bit ((7 - i) * 4) v AND 0xF)) [0..<8])) 8 l"

definition log_available :: "log_ring \<Rightarrow> u16" where
  "log_available l = g_log_count l"

definition log_read :: "bool \<Rightarrow> u16 \<Rightarrow> log_ring \<Rightarrow> (u16 \<times> string) \<times> log_ring" where
  "log_read have_buf mx l =
     (if \<not> have_buf \<or> mx = 0 then ((0, []), l)
      else
        let n = (if g_log_count l < mx then g_log_count l else mx);
            (buf, tail) = foldl (\<lambda>(buf, tail) i. (buf @ [g_log_buf l ! unat tail], ring_next16 tail LOG_BUF_SIZE))
                            ([], g_log_tail l) [0..<unat n]
        in ((n, buf), l\<lparr>g_log_tail := tail, g_log_count := g_log_count l - n\<rparr>))"

definition log_clear :: "log_ring \<Rightarrow> log_ring" where
  "log_clear l = l\<lparr>g_log_head := 0, g_log_tail := 0, g_log_count := 0\<rparr>"

definition log_put_s32 :: "int \<Rightarrow> log_ring \<Rightarrow> int \<times> log_ring" where
  "log_put_s32 v l =
     (if v < 0 then log_put_u32 (of_int (- (v + 1)) + 1) (snd (log_putc (CHR ''-'') l))
      else log_put_u32 (of_int v) l)"

definition log_basename :: "string \<Rightarrow> string" where
  "log_basename path =
     drop (foldl (\<lambda>last i. if path ! i = CHR ''/'' then i + 1 else last) 0 [0..<length path]) path"

definition log_err :: "string \<Rightarrow> int \<Rightarrow> string \<Rightarrow> u32 \<Rightarrow> log_ring \<Rightarrow> log_ring" where
  "log_err tag rc file line l =
     (let l1 = snd (log_puts (Some tag) l);
          l2 = snd (log_puts (Some '': err='') l1);
          l3 = snd (log_put_s32 rc l2);
          l4 = snd (log_puts (Some '' @'') l3);
          l5 = snd (log_puts (Some (log_basename file)) l4);
          l6 = snd (log_putc (CHR '':'') l5);
          l7 = snd (log_put_u32 line l6)
      in snd (log_puts (Some [CHR 0x0D, CHR 0x0A]) l7))"

section \<open>The shared part of the system state\<close>

record world = sched +
  w_log :: log_ring
  w_uart :: string
  w_tick :: u32
  w_panic :: "string option"

definition w_log_puts :: "string \<Rightarrow> 'a world_scheme \<Rightarrow> 'a world_scheme" where
  "w_log_puts s w = w\<lparr>w_log := snd (log_puts (Some s) (w_log w))\<rparr>"

definition w_log_u32 :: "u32 \<Rightarrow> 'a world_scheme \<Rightarrow> 'a world_scheme" where
  "w_log_u32 v w = w\<lparr>w_log := snd (log_put_u32 v (w_log w))\<rparr>"

definition w_log_s32 :: "int \<Rightarrow> 'a world_scheme \<Rightarrow> 'a world_scheme" where
  "w_log_s32 v w = w\<lparr>w_log := snd (log_put_s32 v (w_log w))\<rparr>"

text \<open>\<open>LOG_ERR(tag, rc)\<close>: the file and the line are those of the call.\<close>

definition LOG_ERR :: "string \<Rightarrow> int \<Rightarrow> string \<Rightarrow> u32 \<Rightarrow> 'a world_scheme \<Rightarrow> 'a world_scheme" where
  "LOG_ERR tag rc file line w = w\<lparr>w_log := log_err tag rc file line (w_log w)\<rparr>"

definition uart_puts :: "string \<Rightarrow> 'a world_scheme \<Rightarrow> 'a world_scheme" where
  "uart_puts s w = w\<lparr>w_uart := w_uart w @ s\<rparr>"

definition uart_put_u32 :: "u32 \<Rightarrow> 'a world_scheme \<Rightarrow> 'a world_scheme" where
  "uart_put_u32 v w =
     (if v = 0 then uart_puts ''0'' w
      else let buf = u32_digits 10 v
           in foldl (\<lambda>w i. uart_puts [buf ! i] w) w (rev [0..<length buf]))"

definition uart_put_hex32 :: "u32 \<Rightarrow> 'a world_scheme \<Rightarrow> 'a world_scheme" where
  "uart_put_hex32 v w =
     foldl (\<lambda>w i. uart_puts [hx ! unat (drop_bit (i * 4) v AND 0xF)] w) (uart_puts ''0x'' w) (rev [0..<8])"

text \<open>
  \<open>kernel_panic\<close> of \<open>panic.c\<close> prints once and never returns.  The model records the
  message; whatever is computed after a panic has no meaning, and the
  components' properties include that \<open>w_panic\<close> stays None.
\<close>

definition kernel_panic :: "string \<Rightarrow> string \<Rightarrow> u32 \<Rightarrow> 'a world_scheme \<Rightarrow> 'a world_scheme" where
  "kernel_panic msg file line w =
     (case w_panic w of
        Some _ \<Rightarrow> w
      | None \<Rightarrow>
          uart_puts [CHR 0x0D, CHR 0x0A] (uart_put_u32 line (uart_puts '':'' (uart_puts file
            (uart_puts ([CHR 0x0D, CHR 0x0A] @ ''at '') (uart_puts msg
              (uart_puts ([CHR 0x0D, CHR 0x0A] @ ''PANIC: '') (w\<lparr>w_panic := Some msg\<rparr>))))))))"

section \<open>The ring holds the last 512 bytes\<close>

definition log_contents :: "log_ring \<Rightarrow> string" where
  "log_contents l = ring_list (g_log_buf l) 512 (unat (g_log_tail l)) (unat (g_log_count l))"

definition log_inv :: "log_ring \<Rightarrow> bool" where
  "log_inv l \<longleftrightarrow> length (g_log_buf l) = 512 \<and> unat (g_log_tail l) < 512 \<and> unat (g_log_count l) \<le> 512 \<and>
     unat (g_log_head l) = (unat (g_log_tail l) + unat (g_log_count l)) mod 512"

lemma unat_next_512 [simp]: "unat (ring_next16 i 512) = Suc (unat i) mod 512"
  by (simp add: unat_ring_next16)

text \<open>\<open>log_putc\<close> on a ring that is not full.\<close>

lemma log_put_room:
  fixes c :: char
  assumes "log_inv l" "unat (g_log_count l) < 512"
  defines "l' \<equiv> l\<lparr>g_log_buf := (g_log_buf l)[unat (g_log_head l) := c],
       g_log_head := ring_next16 (g_log_head l) 512, g_log_count := g_log_count l + 1\<rparr>"
  shows "log_inv l'" "log_contents l' = log_contents l @ [c]"
proof -
  have n: "unat (g_log_count l + 1) = Suc (unat (g_log_count l))"
    using assms(2) by (intro unat_Suc_lt [of _ 512]) (simp add: word_less_nat_alt)
  show "log_inv l'" "log_contents l' = log_contents l @ [c]"
    using assms n by (auto simp: log_inv_def log_contents_def ring_list_push mod_Suc_eq)
qed

text \<open>Dropping the oldest byte of a full ring.\<close>

lemma log_drop_oldest:
  assumes "log_inv l" "g_log_count l = 512"
  defines "l' \<equiv> l\<lparr>g_log_tail := ring_next16 (g_log_tail l) 512, g_log_count := g_log_count l - 1\<rparr>"
  shows "log_inv l'" "log_contents l' = tl (log_contents l)" "unat (g_log_count l') = 511"
proof -
  have "(Suc (unat (g_log_tail l)) mod 512 + 511) mod 512 = unat (g_log_tail l) mod 512"
    by (subst mod_add_left_eq) simp
  then show "log_inv l'" "log_contents l' = tl (log_contents l)" "unat (g_log_count l') = 511"
    using assms ring_list_pop [of 512 "unat (g_log_tail l)" 512 "g_log_buf l"]
    by (auto simp: log_inv_def log_contents_def)
qed

lemma log_putc_spec:
  assumes "log_inv l"
  shows "log_inv (snd (log_putc c l))"
    "log_contents (snd (log_putc c l)) = lastn 512 (log_contents l @ [c])"
proof -
  have "log_inv (snd (log_putc c l)) \<and> log_contents (snd (log_putc c l)) = lastn 512 (log_contents l @ [c])"
  proof (cases "g_log_count l = 512")
    case True
    have len: "length (log_contents l) = 512" using True by (simp add: log_contents_def)
    then have "tl (log_contents l) @ [c] = lastn 512 (log_contents l @ [c])"
      by (cases "log_contents l") (auto simp: lastn_def)
    with True log_put_room [OF log_drop_oldest(1) [OF assms True], of c] log_drop_oldest [OF assms True]
    show ?thesis by (simp add: log_putc_def Let_def)
  next
    case False
    then have "unat (g_log_count l) < 512"
      using assms by (auto simp: log_inv_def le_less word_unat_eq_iff)
    with False log_put_room [OF assms this, of c] show ?thesis
      by (simp add: log_putc_def Let_def log_contents_def)
  qed
  then show "log_inv (snd (log_putc c l))"
    "log_contents (snd (log_putc c l)) = lastn 512 (log_contents l @ [c])" by simp_all
qed

lemma log_loop:
  assumes "log_inv l" "n \<le> length s"
  shows "log_inv (foldl (\<lambda>l i. snd (log_putc (s ! i) l)) l [0..<n]) \<and>
    log_contents (foldl (\<lambda>l i. snd (log_putc (s ! i) l)) l [0..<n]) = lastn 512 (log_contents l @ take n s)"
  using assms(2)
proof (induction n)
  case 0
  then show ?case using assms(1) by (simp add: log_inv_def log_contents_def)
next
  case (Suc n)
  then show ?case
    by (simp add: log_putc_spec take_Suc_conv_app_nth lastn_lastn_append)
qed

lemma log_write_spec:
  assumes "log_inv l" "unat len \<le> length s"
  shows "log_inv (snd (log_write (Some s) len l))"
    "log_contents (snd (log_write (Some s) len l)) = lastn 512 (log_contents l @ take (unat len) s)"
  using log_loop [OF assms] assms(1)
  by (cases "len = 0"; simp add: log_write_def log_inv_def log_contents_def)+

lemma log_puts_spec:
  assumes "log_inv l" "length s < 65536"
  shows "log_inv (snd (log_puts (Some s) l))"
    "log_contents (snd (log_puts (Some s) l)) = lastn 512 (log_contents l @ s)"
  using log_write_spec [OF assms(1), of "of_nat (length s)" s] assms(2)
  by (simp_all add: log_puts_def unat_of_nat)

section \<open>Decimal and hexadecimal output\<close>

fun dec :: "nat \<Rightarrow> string" where
  "dec n = (if n < 10 then [char_of (48 + n)] else dec (n div 10) @ [char_of (48 + n mod 10)])"

declare dec.simps [simp del]

lemma u32_digits_dec:
  "0 < unat v \<Longrightarrow> unat v < 10 ^ m \<Longrightarrow> rev (u32_digits m v) = dec (unat v)"
proof (induction m arbitrary: v)
  case (Suc m)
  have v: "v > 0" using Suc.prems(1) by (simp add: unat_gt_0 word_gt_0)
  have d: "unat (v div 10) = unat v div 10" "unat (v mod 10) = unat v mod 10"
    by (simp_all add: unat_div unat_mod)
  show ?case
  proof (cases "unat v < 10")
    case True
    then have "v div 10 = 0" using d(1) by (simp add: word_unat_eq_iff)
    then have "u32_digits m (v div 10) = []" by (cases m) simp_all
    with v True d show ?thesis by (simp add: dec.simps [of "unat v"])
  next
    case False
    have "unat (v div 10) < 10 ^ m" "0 < unat (v div 10)" using Suc.prems False d by auto
    from Suc.IH [OF this(2,1)] v False d show ?thesis by (simp add: dec.simps [of "unat v"])
  qed
qed simp

lemma length_u32_digits: "length (u32_digits m v) \<le> m"
  by (induction m arbitrary: v) auto

lemma log_put_u32_spec:
  assumes "log_inv l"
  shows "log_inv (snd (log_put_u32 v l))"
    "log_contents (snd (log_put_u32 v l)) = lastn 512 (log_contents l @ dec (unat v))"
proof -
  have "unat v < 10 ^ 10" by (rule less_trans [OF unat_u32_lt]) simp
  then have r: "v \<noteq> 0 \<Longrightarrow> rev (u32_digits 10 v) = dec (unat v)"
    by (intro u32_digits_dec) (simp_all add: unat_gt_0)
  have n: "length (u32_digits 10 v) mod 65536 = length (u32_digits 10 v)"
    using length_u32_digits [of 10 v] by simp
  have "log_inv (snd (log_put_u32 v l)) \<and>
    log_contents (snd (log_put_u32 v l)) = lastn 512 (log_contents l @ dec (unat v))"
  proof (cases "v = 0")
    case True
    have "dec 0 = ''0''" by code_simp
    with True log_write_spec [OF assms, of 1 "''0''"] show ?thesis by (simp add: log_put_u32_def)
  next
    case False
    then have len: "length (u32_digits 10 v) = length (dec (unat v))" by (metis length_rev r)
    from False n log_write_spec [OF assms, of "of_nat (length (dec (unat v)))" "dec (unat v)"]
    show ?thesis by (simp add: log_put_u32_def Let_def unat_of_nat r len)
  qed
  then show "log_inv (snd (log_put_u32 v l))"
    "log_contents (snd (log_put_u32 v l)) = lastn 512 (log_contents l @ dec (unat v))" by simp_all
qed

lemma log_read_loop:
  "foldl (\<lambda>(buf, tail) i. (buf @ [b ! unat tail], ring_next16 tail 512)) ([], t) [0..<n] = (bs, t') \<Longrightarrow>
   unat t < 512 \<Longrightarrow> bs = ring_list b 512 (unat t) n \<and> unat t' = (unat t + n) mod 512"
proof (induction n arbitrary: bs t')
  case (Suc n)
  obtain bs0 t0 where p: "foldl (\<lambda>(buf, tail) i. (buf @ [b ! unat tail], ring_next16 tail 512)) ([], t) [0..<n] = (bs0, t0)"
    by fastforce
  from Suc.IH [OF p Suc.prems(2)] Suc.prems(1) p show ?case
    by (auto simp: ring_list_def mod_Suc_eq)
qed simp

lemma log_read_spec:
  assumes "log_inv l" "mx \<noteq> 0"
  shows "snd (fst (log_read True mx l)) = take (unat mx) (log_contents l)"
    "unat (fst (fst (log_read True mx l))) = min (unat mx) (length (log_contents l))"
    "log_contents (snd (log_read True mx l)) = drop (unat mx) (log_contents l)"
    "log_inv (snd (log_read True mx l))"
proof -
  define n where "n = (if g_log_count l < mx then g_log_count l else mx)"
  have n: "unat n = min (unat mx) (unat (g_log_count l))" "n \<le> g_log_count l"
    by (auto simp: n_def word_less_nat_alt word_le_nat_alt min_def)
  obtain bs t where p: "foldl (\<lambda>(buf, tail) i. (buf @ [g_log_buf l ! unat tail], ring_next16 tail 512))
      ([], g_log_tail l) [0..<unat n] = (bs, t)" by fastforce
  have t: "unat (g_log_tail l) < 512" using assms(1) by (simp add: log_inv_def)
  note loop = log_read_loop [OF p t]
  have sub: "unat (g_log_count l - n) = unat (g_log_count l) - unat n" using n(2) by (simp add: unat_sub)
  have h: "((unat (g_log_tail l) + unat n) mod 512 + (unat (g_log_count l) - unat n)) mod 512
      = (unat (g_log_tail l) + unat (g_log_count l)) mod 512"
    using n(2) by (subst mod_add_left_eq) (simp add: word_le_nat_alt)
  have r: "log_read True mx l = ((n, bs), l\<lparr>g_log_tail := t, g_log_count := g_log_count l - n\<rparr>)"
    using assms(2) p by (simp add: log_read_def n_def [symmetric])
  show "snd (fst (log_read True mx l)) = take (unat mx) (log_contents l)"
    using loop n(1) by (simp add: r log_contents_def ring_list_def take_map min_def take_upt split: if_splits)
  show "unat (fst (fst (log_read True mx l))) = min (unat mx) (length (log_contents l))"
    using n(1) by (simp add: r log_contents_def)
  show "log_contents (snd (log_read True mx l)) = drop (unat mx) (log_contents l)"
    using loop sub n(1) by (auto simp: r log_contents_def intro!: nth_equalityI)
      (auto simp: ring_list_def mod_simps add.assoc)
  show "log_inv (snd (log_read True mx l))"
    using loop sub n(2) assms(1) h by (simp add: r log_inv_def word_le_nat_alt del: diff_le_self)
      (simp add: le_diff_conv)
qed

text \<open>A reader gets the oldest bytes of the log in order, at most as many as it
  asks for, and they leave the ring; what remains keeps its order.\<close>

theorem log_read_oldest_first:
  assumes "log_inv l" "mx \<noteq> 0"
  shows "snd (fst (log_read True mx l)) = take (unat mx) (log_contents l) \<and>
    unat (fst (fst (log_read True mx l))) = min (unat mx) (length (log_contents l)) \<and>
    log_contents (snd (log_read True mx l)) = drop (unat mx) (log_contents l)"
  by (intro conjI log_read_spec assms)

definition ex_log :: log_ring where
  "ex_log = snd (log_puts (Some ''boot'')
     \<lparr> g_log_buf = replicate 512 (CHR 0x00), g_log_head = 510, g_log_tail = 510, g_log_count = 0 \<rparr>)"

lemma ex_log_inv: "log_inv ex_log"
  unfolding ex_log_def by (rule log_puts_spec) (simp_all add: log_inv_def)

theorem log_read_oldest_first_witness:
  "snd (fst (log_read True 3 ex_log)) = take (unat (3 :: u16)) (log_contents ex_log) \<and>
    unat (fst (fst (log_read True 3 ex_log))) = min (unat (3 :: u16)) (length (log_contents ex_log)) \<and>
    log_contents (snd (log_read True 3 ex_log)) = drop (unat (3 :: u16)) (log_contents ex_log)"
  by (rule log_read_oldest_first [OF ex_log_inv]) simp

text \<open>Whatever was in the log before, after a string is written it holds the last
  512 bytes of the old contents followed by the string.\<close>

theorem log_puts_keeps_last_512:
  assumes "log_inv l" "length s < 65536"
  shows "log_contents (snd (log_puts (Some s) l)) = lastn 512 (log_contents l @ s) \<and>
    log_inv (snd (log_puts (Some s) l))"
  by (intro conjI log_puts_spec assms)

theorem log_puts_keeps_last_512_witness:
  "log_contents (snd (log_puts (Some ''!'') ex_log)) = lastn 512 (log_contents ex_log @ ''!'') \<and>
    log_inv (snd (log_puts (Some ''!'') ex_log))"
  by (rule log_puts_keeps_last_512 [OF ex_log_inv]) simp

end
