(* ===== verification/Parse.thy ===== *)
theory Parse
  imports Log
begin

text \<open>
  The string helpers of \<open>parse.c\<close>.  A C string is the list of its characters
  before the NUL; \<open>tokenize\<close> works in place, so it returns the line with NULs
  written into it and the offsets stored in \<open>argv\<close>.
\<close>

fun streq :: "string \<Rightarrow> string \<Rightarrow> bool" where
  "streq (a # as) (b # bs) = (if a \<noteq> b then False else streq as bs)"
| "streq as bs = (as = [] \<and> bs = [])"

definition is_blank :: "char \<Rightarrow> bool" where
  "is_blank c \<longleftrightarrow> c = CHR '' '' \<or> c = CHR 0x09"

text \<open>The offset the loops of \<open>tokenize\<close> stop at: past blanks, past a token.\<close>

definition skip_blanks :: "string \<Rightarrow> nat \<Rightarrow> nat" where
  "skip_blanks line p = p + length (takeWhile is_blank (drop p line))"

definition skip_token :: "string \<Rightarrow> nat \<Rightarrow> nat" where
  "skip_token line p = p + length (takeWhile (\<lambda>c. \<not> is_blank c) (drop p line))"

lemma skip_blanks_le: "p \<le> length line \<Longrightarrow> skip_blanks line p \<le> length line"
  using length_takeWhile_le [of is_blank "drop p line"] by (simp add: skip_blanks_def)

function tokenize_loop :: "string \<Rightarrow> nat \<Rightarrow> nat \<Rightarrow> nat list \<Rightarrow> nat list \<times> string" where
  "tokenize_loop line p argv_max argv =
     (if p \<ge> length line then (argv, line)
      else
        let p1 = skip_blanks line p in
        if p1 \<ge> length line then (argv, line)
        else
          let argv1 = (if length argv < argv_max then argv @ [p1] else argv);
              p2 = skip_token line p1
          in if p2 < length line
             then tokenize_loop (line[p2 := CHR 0x00]) (p2 + 1) argv_max argv1
             else (argv1, line))"
  by auto

termination tokenize_loop
  by (relation "measure (\<lambda>(line, p, mx, argv). length line - p)")
     (auto simp: skip_blanks_def skip_token_def Let_def)

declare tokenize_loop.simps [simp del]

definition tokenize :: "string \<Rightarrow> nat \<Rightarrow> (nat \<times> nat list) \<times> string" where
  "tokenize line argv_max =
     (case tokenize_loop line 0 argv_max [] of (argv, line') \<Rightarrow> ((length argv, argv), line'))"

definition is_space :: "char \<Rightarrow> bool" where
  "is_space c \<longleftrightarrow> c = CHR '' '' \<or> c = CHR 0x09 \<or> c = CHR 0x0D \<or> c = CHR 0x0A"

definition code_of :: "char \<Rightarrow> int" where "code_of c = of_char c"

definition hexval :: "char \<Rightarrow> int" where
  "hexval c =
     (if code_of (CHR ''0'') \<le> code_of c \<and> code_of c \<le> code_of (CHR ''9'')
      then code_of c - code_of (CHR ''0'')
      else if code_of (CHR ''a'') \<le> code_of c \<and> code_of c \<le> code_of (CHR ''f'')
      then 10 + (code_of c - code_of (CHR ''a''))
      else if code_of (CHR ''A'') \<le> code_of c \<and> code_of c \<le> code_of (CHR ''F'')
      then 10 + (code_of c - code_of (CHR ''A''))
      else -1)"

fun parse_hex :: "u32 \<Rightarrow> bool \<Rightarrow> string \<Rightarrow> u32 option" where
  "parse_hex v any [] = (if any then Some v else None)"
| "parse_hex v any (c # cs) =
     (if is_space c then (if any then Some v else None)
      else let h = hexval c in
        if h < 0 then None else parse_hex (push_bit 4 v OR of_int h) True cs)"

fun parse_dec :: "u32 \<Rightarrow> bool \<Rightarrow> string \<Rightarrow> u32 option" where
  "parse_dec v any [] = (if any then Some v else None)"
| "parse_dec v any (c # cs) =
     (if is_space c then (if any then Some v else None)
      else if code_of c < code_of (CHR ''0'') \<or> code_of c > code_of (CHR ''9'') then None
      else parse_dec (v * 10 + of_int (code_of c - code_of (CHR ''0''))) True cs)"

text \<open>None: the function returns 0 and leaves \<open>*out\<close> alone.\<close>

definition parse_u32 :: "string option \<Rightarrow> u32 option" where
  "parse_u32 so =
     (case so of None \<Rightarrow> None
      | Some s \<Rightarrow>
          if s = [] then None
          else if s ! 0 = CHR ''0'' \<and> 1 < length s \<and> (s ! 1 = CHR ''x'' \<or> s ! 1 = CHR ''X'')
          then parse_hex 0 False (drop 2 s)
          else parse_dec 0 False s)"

section \<open>Properties\<close>

lemma streq_iff: "streq a b \<longleftrightarrow> a = b"
  by (induction a b rule: streq.induct) auto

lemma dec_digit:
  assumes "d < 10"
  shows "\<not> is_space (char_of (48 + d))" "code_of (char_of (48 + d)) = 48 + int d"
proof -
  have "of_char (char_of (48 + d) :: char) = (48 + d) mod 256"
    by (simp add: of_char_of)
  then have c: "of_char (char_of (48 + d) :: char) = 48 + d" using assms by simp
  then show "code_of (char_of (48 + d)) = 48 + int d"
    unfolding code_of_def by (metis of_nat_of_char of_nat_add of_nat_numeral)
  have "char_of (48 + d) \<noteq> (c' :: char)" if "of_char c' < (48 :: nat)" for c'
    using c that by auto
  then show "\<not> is_space (char_of (48 + d))" by (simp add: is_space_def)
qed

lemma parse_dec_step:
  assumes "d < 10"
  shows "parse_dec v any (char_of (48 + d) # cs) = parse_dec (v * 10 + of_nat d) True cs"
proof -
  have z: "code_of (CHR ''0'') = 48" "code_of (CHR ''9'') = 57" by (simp_all add: code_of_def)
  show ?thesis using assms dec_digit [OF assms] by (simp add: z)
qed

lemma parse_dec_digits:
  "parse_dec v any (dec n @ rest) = parse_dec (v * 10 ^ length (dec n) + of_nat n) True rest"
proof (induction n arbitrary: v any rest rule: dec.induct)
  case (1 n)
  show ?case
  proof (cases "n < 10")
    case True
    then have "dec n = [char_of (48 + n)]" by (subst dec.simps) simp
    with parse_dec_step [OF True] show ?thesis by simp
  next
    case False
    then have dn: "dec n = dec (n div 10) @ [char_of (48 + n mod 10)]" by (subst dec.simps) simp
    have n: "of_nat n = (of_nat (n div 10) * 10 + of_nat (n mod 10) :: u32)"
      by (metis of_nat_add of_nat_mult of_nat_numeral div_mult_mod_eq)
    have "parse_dec v any (dec n @ rest) =
        parse_dec ((v * 10 ^ length (dec (n div 10)) + of_nat (n div 10)) * 10 + of_nat (n mod 10)) True rest"
      unfolding dn by (simp add: 1 [OF False] parse_dec_step del: parse_dec.simps)
    also have "(v * 10 ^ length (dec (n div 10)) + of_nat (n div 10)) * 10 + of_nat (n mod 10)
        = v * 10 ^ length (dec n) + of_nat n"
      unfolding n by (simp add: dn distrib_right mult.assoc mult.commute)
    finally show ?thesis .
  qed
qed

lemma dec_nonempty [simp]: "dec n \<noteq> []"
  by (subst dec.simps) simp

lemma dec_no_x:
  assumes "1 < length (dec n)"
  shows "dec n ! 1 \<noteq> CHR ''x'' \<and> dec n ! 1 \<noteq> CHR ''X''"
proof -
  have "\<forall>c\<in>set (dec n). code_of c \<le> 57"
  proof (induction n rule: dec.induct)
    case (1 n)
    have "n mod 10 < 10" by simp
    with 1 dec_digit(2) [of "n mod 10"] dec_digit(2) [of n] show ?case
      by (subst dec.simps) auto
  qed
  then have "code_of (dec n ! 1) \<le> 57" using assms by (meson nth_mem)
  then show ?thesis by (auto simp: code_of_def)
qed

text \<open>\<open>parse_u32\<close> reads back what the decimal printer of the log writes; for a
  decimal numeral that does not fit 32 bits it returns the value modulo 2 ^ 32.\<close>

theorem parse_u32_decimal: "parse_u32 (Some (dec n)) = Some (of_nat n)"
proof -
  have "parse_u32 (Some (dec n)) = parse_dec 0 False (dec n)"
    using dec_no_x [of n] by (auto simp: parse_u32_def)
  also have "\<dots> = Some (of_nat n)" using parse_dec_digits [of 0 False n "[]"] by simp
  finally show ?thesis .
qed

text \<open>Hexadecimal: the eight digits \<open>log_put_hex32\<close> prints.\<close>

definition hex_digits :: "u32 \<Rightarrow> nat \<Rightarrow> string" where
  "hex_digits v n = map (\<lambda>i. hx ! unat (drop_bit ((n - 1 - i) * 4) v AND 0xF)) [0..<n]"

lemma hx_digit:
  assumes "d < 16" shows "\<not> is_space (hx ! d)" "hexval (hx ! d) = int d"
proof -
  have "\<forall>d\<in>set [0..<16]. \<not> is_space (hx ! d) \<and> hexval (hx ! d) = int d" by code_simp
  with assms show "\<not> is_space (hx ! d)" "hexval (hx ! d) = int d" by simp_all
qed

lemma nibble_mask: "w AND 0xF = take_bit 4 (w :: u32)"
  by (simp add: take_bit_eq_mask mask_eq_exp_minus_1)

lemma nibble_lt: "unat (w AND 0xF :: u32) < 16"
  by (simp add: nibble_mask unsigned_take_bit_eq take_bit_nat_less_exp [of 4, simplified])

lemma nibble_join:
  "push_bit 4 (drop_bit (n * 4 + 4) v) OR (drop_bit (n * 4) v AND 0xF) = (drop_bit (n * 4) v :: u32)"
  unfolding nibble_mask by (rule bit_eqI) (auto simp: bit_simps not_less)

lemma parse_hex_digits:
  "parse_hex (drop_bit (n * 4) v) any (hex_digits v n @ rest) =
     (if n = 0 then parse_hex v any rest else parse_hex v True rest)"
proof (induction n arbitrary: any)
  case (Suc n)
  have split: "hex_digits v (Suc n) = hx ! unat (drop_bit (n * 4) v AND 0xF) # hex_digits v n"
    by (simp add: hex_digits_def upt_conv_Cons map_Suc_upt [symmetric] del: upt_Suc)
  have h: "of_int (int (unat (drop_bit (n * 4) v AND 0xF))) = drop_bit (n * 4) v AND 0xF" by simp
  have "parse_hex (drop_bit (Suc n * 4) v) any (hex_digits v (Suc n) @ rest)
      = parse_hex (drop_bit (n * 4) v) True (hex_digits v n @ rest)"
    unfolding split using hx_digit [OF nibble_lt] nibble_join [of n v]
    by (simp add: h add.commute)
  with Suc.IH [of True] show ?case by simp
qed (simp add: hex_digits_def)

text \<open>\<open>parse_u32\<close> reads back the eight digits that \<open>log_put_hex32\<close> prints, with the
  prefix 0x.\<close>

theorem parse_u32_hex: "parse_u32 (Some (''0x'' @ hex_digits v 8)) = Some v"
proof -
  have "drop_bit (8 * 4) v = 0" by (rule bit_eqI) (auto simp: bit_simps dest: bit_imp_le_length)
  with parse_hex_digits [of 8 v False "[]"] show ?thesis by (simp add: parse_u32_def)
qed

lemma log_put_hex32_digits: "log_put_hex32 v l = log_write (Some (hex_digits v 8)) 8 l"
  by (simp add: log_put_hex32_def hex_digits_def)

section \<open>Tokens\<close>

text \<open>The maximal blank-free pieces of a string, and the C string at an offset.\<close>

function words :: "string \<Rightarrow> string list" where
  "words s = (let r = dropWhile is_blank s in
     if r = [] then [] else takeWhile (\<lambda>c. \<not> is_blank c) r # words (dropWhile (\<lambda>c. \<not> is_blank c) r))"
  by auto

termination words
proof (relation "measure length")
  fix s r assume r: "r = dropWhile is_blank s" "r \<noteq> []"
  then obtain c cs where c: "r = c # cs" "\<not> is_blank c"
    by (metis dropWhile_eq_Cons_conv list.exhaust)
  have "length (dropWhile (\<lambda>c. \<not> is_blank c) r) \<le> length cs"
    using c length_dropWhile_le by simp
  moreover have "length r \<le> length s" using r(1) length_dropWhile_le by simp
  ultimately show "(dropWhile (\<lambda>c. \<not> is_blank c) r, s) \<in> measure length"
    using c by simp
qed simp

declare words.simps [simp del]

definition cstr :: "string \<Rightarrow> nat \<Rightarrow> string" where
  "cstr line a = takeWhile (\<lambda>c. c \<noteq> CHR 0x00) (drop a line)"

lemma words_blank: "is_blank c \<Longrightarrow> words (c # s) = words s"
  by (subst words.simps, subst (2) words.simps) simp

lemma cstr_update_later:
  assumes "a \<le> q" "q < p" "q < length line" "line ! q = CHR 0x00"
  shows "cstr (line[p := x]) a = cstr line a"
proof -
  have split: "cstr l a = takeWhile (\<lambda>c. c \<noteq> CHR 0x00) (take (Suc q - a) (drop a l))"
    if "length l = length line" "l ! q = CHR 0x00" for l
  proof -
    have "l ! q \<in> set (take (Suc q - a) (drop a l))"
      using assms that(1) by (auto simp: in_set_conv_nth intro!: exI [of _ "q - a"])
    then have "takeWhile (\<lambda>c. c \<noteq> CHR 0x00) (take (Suc q - a) (drop a l) @ drop (Suc q - a) (drop a l))
        = takeWhile (\<lambda>c. c \<noteq> CHR 0x00) (take (Suc q - a) (drop a l))"
      by (rule takeWhile_append1) (simp add: that)
    then show ?thesis unfolding cstr_def by (simp only: append_take_drop_id)
  qed
  have "take (Suc q - a) (drop a (line[p := x])) = take (Suc q - a) (drop a line)"
    using assms by (intro nth_equalityI) auto
  with split [of line] split [of "line[p := x]"] assms show ?thesis by simp
qed

lemma cstr_token:
  assumes "p1 < p2" "p2 \<le> length line" "\<forall>i\<in>{p1..<p2}. line ! i \<noteq> CHR 0x00"
  shows "cstr (if p2 < length line then line[p2 := CHR 0x00] else line) p1 = take (p2 - p1) (drop p1 line)"
proof -
  let ?l = "if p2 < length line then line[p2 := CHR 0x00] else line"
  have "drop p1 ?l = take (p2 - p1) (drop p1 line) @ drop p2 ?l"
    using assms(1,2) by (auto intro!: nth_equalityI simp: nth_append add.commute)
  moreover have "\<forall>c\<in>set (take (p2 - p1) (drop p1 line)). c \<noteq> CHR 0x00"
    using assms by (auto simp: in_set_conv_nth)
  moreover have "takeWhile (\<lambda>c. c \<noteq> CHR 0x00) (drop p2 ?l) = []"
    using assms(2) by (auto simp: Cons_nth_drop_Suc [of p2, symmetric])
  ultimately show ?thesis unfolding cstr_def by (simp add: takeWhile_append2)
qed

lemma drop_skip_blanks: "drop (skip_blanks line p) line = dropWhile is_blank (drop p line)"
  by (simp add: skip_blanks_def dropWhile_eq_drop add.commute)

lemma drop_skip_token: "drop (skip_token line p) line = dropWhile (\<lambda>c. \<not> is_blank c) (drop p line)"
  by (simp add: skip_token_def dropWhile_eq_drop add.commute)

lemma take_skip_token:
  "take (skip_token line p - p) (drop p line) = takeWhile (\<lambda>c. \<not> is_blank c) (drop p line)"
  by (simp add: skip_token_def takeWhile_eq_take [symmetric])

lemma skip_token_gt:
  assumes "skip_blanks line p < length line" (is "?p1 < _")
  shows "?p1 < skip_token line ?p1" "skip_token line ?p1 \<le> length line"
    "words (drop p line) = take (skip_token line ?p1 - ?p1) (drop ?p1 line) # words (drop (skip_token line ?p1) line)"
proof -
  have ne: "dropWhile is_blank (drop p line) \<noteq> []"
    using assms by (simp add: drop_skip_blanks [symmetric])
  then have "\<not> is_blank (hd (drop ?p1 line))" by (metis drop_skip_blanks hd_dropWhile)
  with ne have "takeWhile (\<lambda>c. \<not> is_blank c) (drop ?p1 line) \<noteq> []"
    unfolding drop_skip_blanks by (cases "dropWhile is_blank (drop p line)") auto
  then show "?p1 < skip_token line ?p1" by (simp add: skip_token_def)
  show "skip_token line ?p1 \<le> length line"
    using assms length_takeWhile_le [of "\<lambda>c. \<not> is_blank c" "drop ?p1 line"] by (simp add: skip_token_def)
  show "words (drop p line) = take (skip_token line ?p1 - ?p1) (drop ?p1 line) # words (drop (skip_token line ?p1) line)"
    using ne by (simp only: words.simps [of "drop p line"] Let_def drop_skip_token
        take_skip_token [of line ?p1, unfolded drop_skip_blanks] drop_skip_blanks if_False)
qed

lemma words_after_token:
  assumes "skip_token line p < length line" (is "?p2 < _")
  shows "words (drop ?p2 line) = words (drop (Suc ?p2) (line[?p2 := x]))"
proof -
  have "drop ?p2 line = line ! ?p2 # drop (Suc ?p2) line" using assms by (simp add: Cons_nth_drop_Suc)
  moreover from this have "is_blank (line ! ?p2)"
    unfolding drop_skip_token by (metis dropWhile_eq_Cons_conv)
  ultimately show ?thesis by (simp add: words_blank)
qed

text \<open>An argument already stored ends before the point the scan has reached.\<close>

definition ended :: "string \<Rightarrow> nat \<Rightarrow> nat \<Rightarrow> bool" where
  "ended line p a \<longleftrightarrow> (\<exists>q. a \<le> q \<and> q < p \<and> q < length line \<and> line ! q = CHR 0x00)"

lemma cstr_ended: "ended line p a \<Longrightarrow> p \<le> p2 \<Longrightarrow> cstr (line[p2 := x]) a = cstr line a"
  unfolding ended_def by (elim exE conjE) (rule cstr_update_later; simp)

lemma tokenize_loop_words:
  assumes "tokenize_loop line p mx argv = (argv', line')" "\<forall>i\<in>{p..<length line}. line ! i \<noteq> CHR 0x00"
    "\<forall>a\<in>set argv. ended line p a" "length argv \<le> mx"
  shows "map (cstr line') argv' = map (cstr line) argv @ take (mx - length argv) (words (drop p line))"
  using assms
proof (induction line p mx argv rule: tokenize_loop.induct)
  case (1 line p mx argv)
  let ?p1 = "skip_blanks line p" and ?p2 = "skip_token line (skip_blanks line p)"
  show ?case
  proof (cases "p < length line \<and> ?p1 < length line")
    case False
    then have "words (drop p line) = []"
      by (subst words.simps) (auto simp: drop_skip_blanks [symmetric] Let_def skip_blanks_def)
    with False "1.prems"(1) show ?thesis by (subst (asm) tokenize_loop.simps) (auto simp: Let_def split: if_splits)
  next
    case True
    let ?argv = "if length argv < mx then argv @ [?p1] else argv"
    let ?line = "if ?p2 < length line then line[?p2 := CHR 0x00] else line"
    note tok = skip_token_gt [of line p, OF conjunct2 [OF True]]
    have p: "p \<le> ?p1" by (simp add: skip_blanks_def)
    have old: "map (cstr ?line) argv = map (cstr line) argv"
      using "1.prems"(3) tok(1) p by (auto simp: cstr_ended)
    have new: "cstr ?line ?p1 = take (?p2 - ?p1) (drop ?p1 line)"
      using tok(1,2) p "1.prems"(2) by (intro cstr_token) auto
    have fin: "map (cstr ?line) ?argv @ take (mx - length ?argv) ws
        = map (cstr line) argv @ take (mx - length argv) (take (?p2 - ?p1) (drop ?p1 line) # ws)" for ws
      using "1.prems"(4) by (simp add: old new Suc_diff_Suc take_Cons')
    show ?thesis
    proof (cases "?p2 < length line")
      case False
      then have "words (drop ?p2 line) = []" by (subst words.simps) (simp add: Let_def)
      moreover have "argv' = ?argv" "line' = ?line"
        using True False "1.prems"(1) by (subst (asm) tokenize_loop.simps; simp add: Let_def split: if_splits)+
      ultimately show ?thesis using fin [of "[]"] tok(3) by simp
    next
      case p2: True
      have rec: "tokenize_loop (line[?p2 := CHR 0x00]) (?p2 + 1) mx ?argv = (argv', line')"
        using True p2 "1.prems"(1) by (subst (asm) tokenize_loop.simps) (simp add: Let_def)
      have "ended (line[?p2 := CHR 0x00]) (?p2 + 1) a" if "a \<in> set ?argv" for a
        using that "1.prems"(3) tok(1) p p2 unfolding ended_def
        by (intro exI [of _ ?p2]) (fastforce split: if_splits)
      then have "map (cstr line') argv' = map (cstr (line[?p2 := CHR 0x00])) ?argv
          @ take (mx - length ?argv) (words (drop (?p2 + 1) (line[?p2 := CHR 0x00])))"
        using True p2 "1.prems" tok(1,2) p
        by (intro "1.IH" [OF _ refl _ refl refl _ rec])
           (auto simp: nth_list_update)
      then show ?thesis using fin [of "words (drop ?p2 line)"] tok(3) words_after_token p2 by simp
    qed
  qed
qed

text \<open>C22: \<open>tokenize\<close> finds the words of a line: the strings its \<open>argv\<close> points to are
  the first \<open>argv_max\<close> maximal pieces without blanks, in order, and the returned
  count is their number.\<close>

theorem tokenize_words:
  assumes "CHR 0x00 \<notin> set line" "tokenize line argv_max = ((argc, argv), line')"
  shows "map (cstr line') argv = take argv_max (words line) \<and> argc = length argv"
proof -
  have "\<forall>i\<in>{0..<length line}. line ! i \<noteq> CHR 0x00" using assms(1) by (auto simp: in_set_conv_nth)
  with tokenize_loop_words [of line 0 argv_max "[]" argv line'] assms(2) show ?thesis
    by (auto simp: tokenize_def split: prod.splits)
qed

theorem tokenize_words_witness:
  "map (cstr (snd (tokenize '' sd  read 4'' 2))) (snd (fst (tokenize '' sd  read 4'' 2)))
     = take 2 (words '' sd  read 4'') \<and>
   fst (fst (tokenize '' sd  read 4'' 2)) = length (snd (fst (tokenize '' sd  read 4'' 2)))"
  by (rule tokenize_words) simp_all

end
