(* ===== verification/Bytes.thy ===== *)
theory Bytes
  imports Prelude
begin

text \<open>
  Blocks of the SD card are lists of 512 bytes.  The firmware overlays C
  structures of little-endian 32-bit words on them; this theory relates the
  two views, and holds the multiplicative checksum that every on-disk
  structure uses.
\<close>

type_synonym block = "u8 list"

abbreviation (input) SD_BLOCK_SIZE :: nat where "SD_BLOCK_SIZE \<equiv> 512"

definition u32_bytes :: "u32 \<Rightarrow> u8 list" where
  "u32_bytes w = [ucast w, ucast (drop_bit 8 w), ucast (drop_bit 16 w), ucast (drop_bit 24 w)]"

definition bytes_u32 :: "u8 \<Rightarrow> u8 \<Rightarrow> u8 \<Rightarrow> u8 \<Rightarrow> u32" where
  "bytes_u32 a b c d =
     ucast a OR push_bit 8 (ucast b) OR push_bit 16 (ucast c) OR push_bit 24 (ucast d)"

fun bytes_words :: "u8 list \<Rightarrow> u32 list" where
  "bytes_words (a # b # c # d # r) = bytes_u32 a b c d # bytes_words r"
| "bytes_words _ = []"

definition words_bytes :: "u32 list \<Rightarrow> u8 list" where
  "words_bytes ws = concat (map u32_bytes ws)"

text \<open>Word \<open>i\<close> of a block read as an array of \<open>uint32_t\<close>.\<close>

definition word_at :: "u8 list \<Rightarrow> nat \<Rightarrow> u32" where
  "word_at b i = bytes_words b ! i"

lemma bytes_u32_bytes: "bytes_u32 (ucast w) (ucast (drop_bit 8 w)) (ucast (drop_bit 16 w)) (ucast (drop_bit 24 w)) = w"
proof (rule bit_eqI)
  fix n assume "possible_bit TYPE(u32) n"
  then have "n < 32" by simp
  then consider "n < 8" | "8 \<le> n" "n < 16" | "16 \<le> n" "n < 24" | "24 \<le> n" "n < 32" by linarith
  then show "bit (bytes_u32 (ucast w) (ucast (drop_bit 8 w)) (ucast (drop_bit 16 w)) (ucast (drop_bit 24 w))) n
      = bit w n"
    by cases (auto simp: bytes_u32_def bit_simps)
qed

lemma bit_u8_high: "\<not> bit (x :: u8) (8 + n)" "\<not> bit (x :: u8) (16 + n)" "\<not> bit (x :: u8) (24 + n)"
  by (auto dest: bit_imp_le_length)

lemma u32_bytes_u32: "u32_bytes (bytes_u32 a b c d) = [a, b, c, d]"
  by (auto simp: u32_bytes_def bytes_u32_def bit_u8_high intro!: bit_word_eqI simp: bit_simps)

lemma length_u32_bytes [simp]: "length (u32_bytes w) = 4"
  by (simp add: u32_bytes_def)

lemma words_bytes_simps [simp]:
  "words_bytes [] = []" "words_bytes (w # ws) = u32_bytes w @ words_bytes ws"
  "words_bytes (ws @ ws') = words_bytes ws @ words_bytes ws'"
  by (simp_all add: words_bytes_def)

lemma bytes_words_zero: "bytes_words (replicate (4 * n) 0) = replicate n 0"
proof (induction n)
  case (Suc n)
  have "replicate (4 * Suc n) (0 :: u8) = 0 # 0 # 0 # 0 # replicate (4 * n) 0"
    by (simp add: replicate_add [of 4, simplified]) (simp add: numeral_eq_Suc)
  then show ?case using Suc by (simp only: bytes_words.simps) (simp add: bytes_u32_def)
qed simp

lemma zero_block_words: "bytes_words (replicate 512 0) = replicate 128 0"
  using bytes_words_zero [of 128] by simp

lemma length_words_bytes [simp]: "length (words_bytes ws) = 4 * length ws"
  by (induction ws) simp_all

lemma bytes_words_u32 [simp]: "bytes_words (u32_bytes w @ bs) = w # bytes_words bs"
  by (simp add: u32_bytes_def bytes_u32_bytes)

lemma bytes_words_bytes [simp]: "bytes_words (words_bytes ws) = ws"
  by (induction ws) simp_all

lemma bytes_words_append: "bytes_words (words_bytes ws @ bs) = ws @ bytes_words bs"
  by (induction ws) simp_all

lemma words_bytes_words: "length bs mod 4 = 0 \<Longrightarrow> words_bytes (bytes_words bs) = bs"
  by (induction bs rule: bytes_words.induct) (auto simp: u32_bytes_u32)

lemma length_bytes_words: "length (bytes_words bs) = length bs div 4"
  by (induction bs rule: bytes_words.induct) auto

lemma word_at_words_bytes [simp]:
  "i < length ws \<Longrightarrow> word_at (words_bytes ws @ bs) i = ws ! i"
  "word_at (words_bytes ws) i = ws ! i"
  by (simp_all add: word_at_def bytes_words_append nth_append)

section \<open>Checksums\<close>

definition fnv_step :: "u32 \<Rightarrow> u32 \<Rightarrow> u32" where
  "fnv_step h w = (h XOR w) * 16777619"

definition fnv_words :: "u32 list \<Rightarrow> u32" where
  "fnv_words ws = foldl fnv_step 2166136261 ws XOR 0xA5A55A5A"

text \<open>
  The step is injective in the word as well as in the state (the prime is odd),
  so one corrupted word always changes the checksum.
\<close>

lemma fnv_prime_inverse: "(16777619 :: u32) * 899433627 = 1"
  by simp

lemma xor_right_inj: "a XOR c = b XOR c \<longleftrightarrow> a = (b :: u32)"
proof
  assume "a XOR c = b XOR c"
  then have "(a XOR c) XOR c = (b XOR c) XOR c" by simp
  then show "a = b" by (simp add: xor.assoc)
qed simp

lemma xor_left_inj: "c XOR a = c XOR b \<longleftrightarrow> a = (b :: u32)"
  by (subst (1 2) xor.commute) (rule xor_right_inj)

lemma fnv_step_inj: "fnv_step h w = fnv_step h' w \<longleftrightarrow> h = h'" "fnv_step h w = fnv_step h w' \<longleftrightarrow> w = w'"
proof -
  have cancel: "x * 16777619 = y * 16777619 \<longleftrightarrow> x = y" for x y :: u32
  proof
    assume "x * 16777619 = y * 16777619"
    then have "(x * 16777619) * 899433627 = (y * 16777619) * 899433627" by (rule arg_cong)
    then show "x = y" by (simp only: mult.assoc fnv_prime_inverse mult_1_right)
  qed (rule arg_cong)
  show "fnv_step h w = fnv_step h' w \<longleftrightarrow> h = h'" "fnv_step h w = fnv_step h w' \<longleftrightarrow> w = w'"
    unfolding fnv_step_def cancel xor_right_inj xor_left_inj by (rule refl)+
qed

lemma foldl_fnv_inj: "foldl fnv_step h ws = foldl fnv_step h' ws \<longleftrightarrow> h = h'"
  by (induction ws arbitrary: h h') (simp_all add: fnv_step_inj)

lemma fnv_words_detects:
  assumes "i < length ws" "ws ! i \<noteq> w"
  shows "fnv_words (ws[i := w]) \<noteq> fnv_words ws"
proof -
  have split: "foldl fnv_step h (xs[i := w]) \<noteq> foldl fnv_step h xs" if "i < length xs" "xs ! i \<noteq> w" for h xs
    using that
  proof (induction xs arbitrary: i h)
    case (Cons x xs)
    then show ?case by (cases i) (auto simp: foldl_fnv_inj fnv_step_inj)
  qed simp
  from split [OF assms] show ?thesis unfolding fnv_words_def xor_right_inj .
qed

end
