(* ===== verification/Mirror.thy ===== *)
theory Mirror
  imports Bytes
begin

text \<open>
  Structures kept as a mirrored pair of blocks: the disk table (LBA 1 and 2) and
  the superblock of the file system are both written to copy A and then to copy
  B, each carrying a generation number, and both are read back by taking the
  parsable copy with the larger generation, A on a tie.  The locale states what
  such a structure provides; its lemmas say what a reader finds after the two
  writes and after an interrupted update.
\<close>

definition mirror_best :: "(block \<Rightarrow> 't option) \<Rightarrow> ('t \<Rightarrow> u32) \<Rightarrow> block \<Rightarrow> block \<Rightarrow> 't option" where
  "mirror_best parse gen ba bb =
     (case (parse ba, parse bb) of
        (None, None) \<Rightarrow> None
      | (Some a, None) \<Rightarrow> Some a
      | (None, Some b) \<Rightarrow> Some b
      | (Some a, Some b) \<Rightarrow> if gen a \<ge> gen b then Some a else Some b)"

locale mirrored =
  fixes parse :: "block \<Rightarrow> 't option"
    and gen :: "'t \<Rightarrow> u32"
    and encode :: "'t \<Rightarrow> block"
    and valid :: "'t \<Rightarrow> bool"
  assumes parse_encode: "valid t \<Longrightarrow> parse (encode t) = Some t"
begin

lemma best_both: "valid t \<Longrightarrow> mirror_best parse gen (encode t) (encode t) = Some t"
  by (simp add: mirror_best_def parse_encode)

lemma best_new_first:
  "valid new \<Longrightarrow> valid old \<Longrightarrow> gen old \<le> gen new \<Longrightarrow>
   mirror_best parse gen (encode new) (encode old) = Some new"
  by (simp add: mirror_best_def parse_encode)

text \<open>
  The update of copy A or of copy B is interrupted and leaves \<open>x\<close> there: the
  reader still gets the old or the new structure, provided \<open>x\<close> does not itself
  parse as a third one.
\<close>

lemma best_torn_first:
  assumes "valid old" "parse x = None"
  shows "mirror_best parse gen x (encode old) = Some old"
  using assms by (simp add: mirror_best_def parse_encode)

lemma best_torn_second:
  assumes "valid new" "parse x = None"
  shows "mirror_best parse gen (encode new) x = Some new"
  using assms by (simp add: mirror_best_def parse_encode)

lemma best_update:
  assumes "valid old" "valid new" "gen old \<le> gen new"
    "(ba, bb) \<in> {(encode old, encode old), (encode new, encode old), (encode new, encode new)} \<or>
     (parse ba = None \<and> bb = encode old) \<or> (ba = encode new \<and> parse bb = None)"
  shows "mirror_best parse gen ba bb = Some old \<or> mirror_best parse gen ba bb = Some new"
  using assms best_both best_new_first best_torn_first best_torn_second by blast

end

end
