(* ===== verification/Sd_Card.thy ===== *)
theory Sd_Card
  imports Bytes Log
begin

text \<open>
  The SD card and its blocking driver.  The card is a map from block number to
  block.  The controller (registers, polling, the assembly of
  \<open>sd_read_blocks.s\<close> below the block loop) is the environment: every block
  transfer takes the next outcome of \<open>sd_env\<close>, which may be a fault, and a
  faulted write may leave the old block or any other contents (a torn write).
  Byte addressing of standard-capacity cards is folded into the map.  Above
  that, \<open>sd_write_blocks\<close> and \<open>sd_read_blocks\<close> are translated: their checks, the
  loop over the blocks and its early exit.  The last command and status words
  are diagnostics that are only printed; the model carries them as values.
\<close>

datatype sd_fault = Fault_timeout | Fault_crc | Fault_cmd | Fault_data

datatype sd_outcome = IoOk | IoErr sd_fault "block option"

definition SD_OK :: int where "SD_OK = 0"
definition SD_ERR_TIMEOUT :: int where "SD_ERR_TIMEOUT = -1"
definition SD_ERR_CRC :: int where "SD_ERR_CRC = -2"
definition SD_ERR_CMD :: int where "SD_ERR_CMD = -3"
definition SD_ERR_DATA :: int where "SD_ERR_DATA = -4"
definition SD_ERR_NO_INIT :: int where "SD_ERR_NO_INIT = -5"
definition SD_ERR_PARAM :: int where "SD_ERR_PARAM = -6"

lemmas sd_codes = SD_OK_def SD_ERR_TIMEOUT_def SD_ERR_CRC_def SD_ERR_CMD_def SD_ERR_DATA_def
  SD_ERR_NO_INIT_def SD_ERR_PARAM_def

fun fault_code :: "sd_fault \<Rightarrow> int" where
  "fault_code Fault_timeout = SD_ERR_TIMEOUT"
| "fault_code Fault_crc = SD_ERR_CRC"
| "fault_code Fault_cmd = SD_ERR_CMD"
| "fault_code Fault_data = SD_ERR_DATA"

datatype sd_operation = SD_OP_NONE | SD_OP_READ | SD_OP_WRITE

datatype drv_status = DRV_IDLE | DRV_IN_PROGRESS | DRV_COMPLETE | DRV_ERROR

text \<open>
  The context of the interrupt-driven driver; pointers are addresses.  The
  fields of the world from \<open>g_sd_high_capacity\<close> on belong to that driver as well:
  its registers, its binding to the scheduler, and \<open>sd_mem\<close>, the words of memory that
  it stores to, by address.  The polled transfers below leave them out.
\<close>

record sd_context =
  ctx_operation :: sd_operation
  ctx_status :: drv_status
  ctx_error_code :: int
  ctx_error_detail :: u32
  ctx_lba :: u32
  ctx_total_blocks :: u32
  ctx_blocks_done :: u32
  ctx_buffer :: u32
  ctx_fifo_words_left :: u32
  ctx_current_ptr :: u32
  ctx_high_capacity :: u8

record sd_world = world +
  sd_detected :: bool
  g_sd_initialized :: bool
  g_sd_capacity :: u32
  g_sd_last_error :: int
  sd_card :: "u32 \<Rightarrow> block"
  sd_env :: "nat \<Rightarrow> sd_outcome"
  sd_real_capacity :: u32
  g_sd_ctx :: sd_context
  sd_last_cmd :: u32
  sd_last_sta :: u32
  g_sd_high_capacity :: u8
  sdmmc_dctrl :: u32
  sdmmc_mask :: u32
  sdmmc_fifo :: "u32 list"
  sdmmc_line :: "u32 list"
  sdmmc_irq_enabled :: bool
  g_sd_async_sched :: bool
  g_sd_ao_id :: u8
  g_sd_done_sig :: u16
  g_sd_err_sig :: u16
  sd_mem :: "u32 \<Rightarrow> u32"

section \<open>Block transfers\<close>

definition sd_next :: "'a sd_world_scheme \<Rightarrow> sd_outcome \<times> 'a sd_world_scheme" where
  "sd_next w = (sd_env w 0, w\<lparr>sd_env := (\<lambda>n. sd_env w (Suc n))\<rparr>)"

definition sd_write_block :: "u32 \<Rightarrow> block \<Rightarrow> 'a sd_world_scheme \<Rightarrow> int \<times> 'a sd_world_scheme" where
  "sd_write_block lba b w =
     (case sd_next w of
        (IoOk, w1) \<Rightarrow> (SD_OK, w1\<lparr>sd_card := (sd_card w1)(lba := b)\<rparr>)
      | (IoErr f None, w1) \<Rightarrow> (fault_code f, w1)
      | (IoErr f (Some torn), w1) \<Rightarrow> (fault_code f, w1\<lparr>sd_card := (sd_card w1)(lba := torn)\<rparr>))"

definition sd_read_block :: "u32 \<Rightarrow> 'a sd_world_scheme \<Rightarrow> (int \<times> block option) \<times> 'a sd_world_scheme" where
  "sd_read_block lba w =
     (case sd_next w of
        (IoOk, w1) \<Rightarrow> ((SD_OK, Some (sd_card w1 lba)), w1)
      | (IoErr f _, w1) \<Rightarrow> ((fault_code f, None), w1))"

fun sd_write_loop :: "u32 \<Rightarrow> block list \<Rightarrow> 'a sd_world_scheme \<Rightarrow> int \<times> 'a sd_world_scheme" where
  "sd_write_loop lba [] w = (SD_OK, w)"
| "sd_write_loop lba (b # bs) w =
     (case sd_write_block lba b w of (rc, w1) \<Rightarrow>
        if rc \<noteq> SD_OK then (rc, w1) else sd_write_loop (lba + 1) bs w1)"

definition sd_write_blocks ::
  "u32 \<Rightarrow> u32 \<Rightarrow> block list option \<Rightarrow> 'a sd_world_scheme \<Rightarrow> int \<times> 'a sd_world_scheme" where
  "sd_write_blocks lba count buf w =
     (if \<not> g_sd_initialized w then (SD_ERR_NO_INIT, w\<lparr>g_sd_last_error := SD_ERR_NO_INIT\<rparr>)
      else if count = 0 \<or> buf = None then (SD_ERR_PARAM, w\<lparr>g_sd_last_error := SD_ERR_PARAM\<rparr>)
      else case sd_write_loop lba (take (unat count) (the buf)) w of (rc, w1) \<Rightarrow>
        (rc, w1\<lparr>g_sd_last_error := rc\<rparr>))"

text \<open>A read hands back the blocks transferred before the first fault.\<close>

fun sd_read_loop :: "u32 \<Rightarrow> nat \<Rightarrow> 'a sd_world_scheme \<Rightarrow> (int \<times> block list) \<times> 'a sd_world_scheme" where
  "sd_read_loop lba 0 w = ((SD_OK, []), w)"
| "sd_read_loop lba (Suc n) w =
     (case sd_read_block lba w of
        ((rc, None), w1) \<Rightarrow> ((rc, []), w1)
      | ((rc, Some b), w1) \<Rightarrow>
          (case sd_read_loop (lba + 1) n w1 of ((rc', bs), w2) \<Rightarrow> ((rc', b # bs), w2)))"

definition sd_read_blocks ::
  "u32 \<Rightarrow> u32 \<Rightarrow> 'a sd_world_scheme \<Rightarrow> (int \<times> block list) \<times> 'a sd_world_scheme" where
  "sd_read_blocks lba count w =
     (if \<not> g_sd_initialized w then ((SD_ERR_NO_INIT, []), w\<lparr>g_sd_last_error := SD_ERR_NO_INIT\<rparr>)
      else if count = 0 then ((SD_ERR_PARAM, []), w\<lparr>g_sd_last_error := SD_ERR_PARAM\<rparr>)
      else case sd_read_loop lba (unat count) w of ((rc, bs), w1) \<Rightarrow>
        ((rc, bs), w1\<lparr>g_sd_last_error := rc\<rparr>))"

text \<open>The single-block transfers nearly all callers make.\<close>

definition sd_write1 :: "u32 \<Rightarrow> block \<Rightarrow> 'a sd_world_scheme \<Rightarrow> int \<times> 'a sd_world_scheme" where
  "sd_write1 lba b w = sd_write_blocks lba 1 (Some [b]) w"

definition sd_read1 :: "u32 \<Rightarrow> 'a sd_world_scheme \<Rightarrow> (int \<times> block option) \<times> 'a sd_world_scheme" where
  "sd_read1 lba w =
     (case sd_read_blocks lba 1 w of ((rc, bs), w1) \<Rightarrow>
        ((rc, if rc = SD_OK then Some (hd bs) else None), w1))"

text \<open>
  \<open>sd_init\<close> resets the card: it clears \<open>initialized\<close> first and sets it, with the
  capacity read from the card, when every command succeeded.
\<close>

definition sd_init :: "'a sd_world_scheme \<Rightarrow> int \<times> 'a sd_world_scheme" where
  "sd_init w =
     (case sd_next w of
        (IoOk, w1) \<Rightarrow> (SD_OK, w1\<lparr>g_sd_initialized := True, g_sd_capacity := sd_real_capacity w1\<rparr>)
      | (IoErr f _, w1) \<Rightarrow> (fault_code f, w1\<lparr>g_sd_initialized := False, g_sd_capacity := 0\<rparr>))"

section \<open>A card that answers\<close>

text \<open>From here on every transfer succeeds.\<close>

definition sd_ok :: "'a sd_world_scheme \<Rightarrow> bool" where
  "sd_ok w \<longleftrightarrow> g_sd_initialized w \<and> sd_env w = (\<lambda>_. IoOk)"

named_theorems sd_simps \<open>block transfers on a card that answers\<close>

lemma sd_next_ok: "sd_env w = (\<lambda>_. IoOk) \<Longrightarrow> sd_next w = (IoOk, w)"
  by (simp add: sd_next_def)

lemma sd_write1_ok [sd_simps]:
  "sd_ok w \<Longrightarrow> sd_write1 lba b w = (SD_OK, w\<lparr>sd_card := (sd_card w)(lba := b), g_sd_last_error := SD_OK\<rparr>)"
  by (simp add: sd_ok_def sd_write1_def sd_write_blocks_def sd_write_block_def sd_next_ok)

lemma sd_read1_ok [sd_simps]:
  "sd_ok w \<Longrightarrow> sd_read1 lba w = ((SD_OK, Some (sd_card w lba)), w\<lparr>g_sd_last_error := SD_OK\<rparr>)"
  by (simp add: sd_ok_def sd_read1_def sd_read_blocks_def sd_read_block_def sd_next_ok)

lemma sd_ok_update [simp]:
  "sd_ok (w\<lparr>sd_card := c\<rparr>) = sd_ok w"
  "sd_ok (w\<lparr>g_sd_last_error := e\<rparr>) = sd_ok w"
  "sd_ok (w\<lparr>w_log := l\<rparr>) = sd_ok w"
  "sd_ok (w\<lparr>w_uart := u\<rparr>) = sd_ok w"
  by (simp_all add: sd_ok_def)

fun card_put :: "u32 \<Rightarrow> block list \<Rightarrow> (u32 \<Rightarrow> block) \<Rightarrow> u32 \<Rightarrow> block" where
  "card_put lba [] c = c"
| "card_put lba (b # bs) c = card_put (lba + 1) bs (c(lba := b))"

lemma card_put_other: "\<forall>k<length bs. l \<noteq> lba + of_nat k \<Longrightarrow> card_put lba bs c l = c l"
proof (induction bs arbitrary: lba c)
  case (Cons b bs)
  have "\<forall>k<length bs. l \<noteq> (lba + 1) + of_nat k"
  proof (intro allI impI)
    fix k assume "k < length bs"
    with Cons.prems show "l \<noteq> (lba + 1) + of_nat k" by (auto dest: spec [of _ "Suc k"] simp: algebra_simps)
  qed
  moreover have "l \<noteq> lba" using Cons.prems by (auto dest: spec [of _ 0])
  ultimately show ?case using Cons.IH by simp
qed simp

lemma lba_inj: "a < 4294967296 \<Longrightarrow> b < 4294967296 \<Longrightarrow> (lba :: u32) + of_nat a = lba + of_nat b \<longleftrightarrow> a = b"
  unfolding add_left_cancel unfolding word_unat_eq_iff by (simp add: unat_of_nat)

lemma card_put_nth:
  "k < length bs \<Longrightarrow> length bs < 4294967296 \<Longrightarrow> card_put lba bs c (lba + of_nat k) = bs ! k"
proof (induction bs arbitrary: lba c k)
  case (Cons b bs)
  show ?case
  proof (cases k)
    case 0
    have "lba \<noteq> (lba + 1) + of_nat j" if "j < length bs" for j
      using that Cons.prems(2) lba_inj [of 0 "Suc j" lba] by (auto simp: algebra_simps)
    then have "card_put (lba + 1) bs (c(lba := b)) lba = b" by (subst card_put_other) simp_all
    with 0 show ?thesis by simp
  next
    case (Suc m)
    with Cons.IH [of m "lba + 1"] Cons.prems show ?thesis by (simp add: algebra_simps)
  qed
qed simp

lemma sd_write_loop_ok:
  "sd_env w = (\<lambda>_. IoOk) \<Longrightarrow>
   sd_write_loop lba bs w = (SD_OK, w\<lparr>sd_card := card_put lba bs (sd_card w)\<rparr>)"
  by (induction bs arbitrary: lba w) (simp_all add: sd_write_block_def sd_next_ok)

lemma sd_write_blocks_ok [sd_simps]:
  "sd_ok w \<Longrightarrow> n \<noteq> 0 \<Longrightarrow> sd_write_blocks lba n (Some bs) w =
     (SD_OK, w\<lparr>sd_card := card_put lba (take (unat n) bs) (sd_card w), g_sd_last_error := SD_OK\<rparr>)"
  by (simp add: sd_ok_def sd_write_blocks_def sd_write_loop_ok)

section \<open>Any card\<close>

text \<open>What holds whatever the outcomes: only the addressed block can change, and a
  transfer that reports success has stored the block.\<close>

lemma fault_code_neg: "fault_code f \<noteq> 0" "fault_code f < 0"
  by (cases f; simp add: sd_codes)+

lemma sd_write1_other: "l \<noteq> lba \<Longrightarrow> sd_card (snd (sd_write1 lba b w)) l = sd_card w l"
  by (simp add: sd_write1_def sd_write_blocks_def sd_write_block_def sd_next_def case_prod_beta
      split: sd_outcome.split option.split)

lemma sd_write1_ok_card:
  "fst (sd_write1 lba b w) = SD_OK \<Longrightarrow> sd_card (snd (sd_write1 lba b w)) = (sd_card w)(lba := b)"
  by (simp add: sd_write1_def sd_write_blocks_def sd_write_block_def sd_next_def case_prod_beta
      fault_code_neg sd_codes split: sd_outcome.splits option.splits if_splits)

lemma sd_write1_cases:
  obtains (ok) w1 where "sd_write1 lba b w = (SD_OK, w1)" "sd_card w1 = (sd_card w)(lba := b)"
  | (err) rc w1 x where "sd_write1 lba b w = (rc, w1)" "rc \<noteq> SD_OK" "sd_card w1 = (sd_card w)(lba := x)"
proof (cases "fst (sd_write1 lba b w) = SD_OK")
  case True
  with sd_write1_ok_card [OF True] ok show ?thesis by (metis prod.collapse)
next
  case False
  have "sd_card (snd (sd_write1 lba b w)) = (sd_card w)(lba := sd_card (snd (sd_write1 lba b w)) lba)"
    by (rule ext) (simp add: sd_write1_other)
  with False err show ?thesis by (metis prod.collapse)
qed

text \<open>
  Every block that a failed write may leave behind satisfies \<open>P\<close>; a transfer
  keeps this, and it bounds what a failed write does to the card.
\<close>

definition sd_torn :: "(block \<Rightarrow> bool) \<Rightarrow> 'a sd_world_scheme \<Rightarrow> bool" where
  "sd_torn P w \<longleftrightarrow> (\<forall>n f b. sd_env w n = IoErr f (Some b) \<longrightarrow> P b)"

lemma sd_write1_torn:
  assumes "sd_torn P w" "sd_write1 lba b w = (rc, w1)"
  shows "sd_torn P w1"
    "rc = SD_OK \<Longrightarrow> sd_card w1 = (sd_card w)(lba := b)"
    "rc \<noteq> SD_OK \<Longrightarrow> sd_card w1 = sd_card w \<or> (\<exists>x. P x \<and> sd_card w1 = (sd_card w)(lba := x))"
  using assms by (fastforce simp: sd_torn_def sd_write1_def sd_write_blocks_def sd_write_block_def sd_next_def
      fault_code_neg sd_codes split: sd_outcome.splits option.splits if_splits prod.splits)+

lemma sd_read1_torn: "sd_torn P w \<Longrightarrow> sd_torn P (snd (sd_read1 lba w))"
  by (auto simp: sd_torn_def sd_read1_def sd_read_blocks_def sd_read_block_def sd_next_def split: sd_outcome.splits)

lemma sd_torn_ok: "sd_env w = (\<lambda>_. IoOk) \<Longrightarrow> sd_torn P w"
  by (simp add: sd_torn_def)

lemma sd_read1_card [simp]: "sd_card (snd (sd_read1 lba w)) = sd_card w"
  by (simp add: sd_read1_def sd_read_blocks_def sd_read_block_def sd_next_def
      split: sd_outcome.splits)

lemma sd_read1_some:
  "sd_read1 lba w = ((rc, Some b), w1) \<Longrightarrow> rc = SD_OK \<and> b = sd_card w lba"
  by (auto simp: sd_read1_def sd_read_blocks_def sd_read_block_def sd_next_def fault_code_neg sd_codes
      split: sd_outcome.splits if_splits)

lemma sd_read1_none: "sd_read1 lba w = ((rc, None), w1) \<Longrightarrow> rc \<noteq> SD_OK"
  by (auto simp: sd_read1_def sd_read_blocks_def split: prod.splits if_splits)

end
