(* ===== verification/Handoff.thy ===== *)
theory Handoff
  imports Sd_Card
begin

text \<open>
  The two blocks of RAM through which the boot menu talks to the main image:
  the boot configuration blob of \<open>boot_handoff.c\<close>, protected by complements, and
  the resume request of \<open>rewind_restore.c\<close> at a fixed address.  Both survive a
  reset, so a consumer must expect arbitrary words there.
\<close>

record boot_handoff_blob =
  bh_magic :: u32
  bh_version :: u32
  bh_ckpt_interval_ms :: u32
  bh_ckpt_interval_inv :: u32
  bh_boot_restore_enabled :: u32
  bh_boot_restore_enabled_inv :: u32

record boot_handoff_cfg =
  cfg_ckpt_interval_ms :: u32
  cfg_boot_restore_enabled :: u32

abbreviation (input) BOOT_HANDOFF_MAGIC :: u32 where "BOOT_HANDOFF_MAGIC \<equiv> 0x48444E52"
abbreviation (input) BOOT_HANDOFF_VERSION :: u32 where "BOOT_HANDOFF_VERSION \<equiv> 2"

definition boot_handoff_clear :: "boot_handoff_blob \<Rightarrow> boot_handoff_blob" where
  "boot_handoff_clear b =
     b\<lparr>bh_magic := 0, bh_version := 0, bh_ckpt_interval_ms := 0, bh_ckpt_interval_inv := 0,
       bh_boot_restore_enabled := 0, bh_boot_restore_enabled_inv := 0\<rparr>"

definition boot_handoff_publish :: "boot_handoff_cfg option \<Rightarrow> boot_handoff_blob \<Rightarrow> boot_handoff_blob" where
  "boot_handoff_publish cfgp b =
     (let interval = (case cfgp of None \<Rightarrow> 0 | Some cfg \<Rightarrow> cfg_ckpt_interval_ms cfg);
          enabled = (case cfgp of None \<Rightarrow> 0
                     | Some cfg \<Rightarrow> if cfg_boot_restore_enabled cfg \<noteq> 0 then 1 else 0)
      in b\<lparr>bh_magic := BOOT_HANDOFF_MAGIC, bh_version := BOOT_HANDOFF_VERSION,
           bh_ckpt_interval_ms := interval, bh_ckpt_interval_inv := NOT interval,
           bh_boot_restore_enabled := enabled, bh_boot_restore_enabled_inv := NOT enabled\<rparr>)"

text \<open>The result pairs the configuration written through \<open>out\<close> with the new blob.\<close>

definition boot_handoff_consume ::
  "bool \<Rightarrow> boot_handoff_blob \<Rightarrow> boot_handoff_cfg option \<times> boot_handoff_blob" where
  "boot_handoff_consume have_out b =
     (if \<not> have_out then (None, b)
      else if bh_magic b \<noteq> BOOT_HANDOFF_MAGIC \<or> bh_version b \<noteq> BOOT_HANDOFF_VERSION then (None, b)
      else if bh_ckpt_interval_inv b \<noteq> NOT (bh_ckpt_interval_ms b) then (None, b)
      else if bh_boot_restore_enabled_inv b \<noteq> NOT (bh_boot_restore_enabled b) then (None, b)
      else (Some \<lparr> cfg_ckpt_interval_ms = bh_ckpt_interval_ms b,
                   cfg_boot_restore_enabled = (if bh_boot_restore_enabled b \<noteq> 0 then 1 else 0) \<rparr>,
            boot_handoff_clear b))"

record rewind_handoff =
  rh_magic :: u32
  rh_version :: u32
  rh_flags :: u32
  rh_slot :: u32
  rh_seq :: u32
  rh_journal_start_lba :: u32
  rh_journal_blocks :: u32
  rh_reserved :: "u32 list"

abbreviation (input) REWIND_HANDOFF_MAGIC :: u32 where "REWIND_HANDOFF_MAGIC \<equiv> 0x54535752"
abbreviation (input) REWIND_HANDOFF_VERSION :: u32 where "REWIND_HANDOFF_VERSION \<equiv> 1"
abbreviation (input) REWIND_HANDOFF_FLAG_RESUME :: u32 where "REWIND_HANDOFF_FLAG_RESUME \<equiv> 1"

definition rewind_handoff_clear :: "rewind_handoff \<Rightarrow> rewind_handoff" where
  "rewind_handoff_clear h =
     \<lparr> rh_magic = 0, rh_version = 0, rh_flags = 0, rh_slot = 0, rh_seq = 0,
       rh_journal_start_lba = 0, rh_journal_blocks = 0, rh_reserved = replicate 9 0 \<rparr>"

definition rewind_handoff_mark_resume ::
  "u32 \<Rightarrow> u32 \<Rightarrow> u32 \<Rightarrow> u32 \<Rightarrow> rewind_handoff \<Rightarrow> rewind_handoff" where
  "rewind_handoff_mark_resume slot seq jstart jblocks h =
     (rewind_handoff_clear h)\<lparr>rh_magic := REWIND_HANDOFF_MAGIC, rh_version := REWIND_HANDOFF_VERSION,
        rh_flags := REWIND_HANDOFF_FLAG_RESUME, rh_slot := slot, rh_seq := seq,
        rh_journal_start_lba := jstart, rh_journal_blocks := jblocks\<rparr>"

definition rewind_handoff_resume_requested :: "rewind_handoff \<Rightarrow> bool" where
  "rewind_handoff_resume_requested h =
     (if rh_magic h \<noteq> REWIND_HANDOFF_MAGIC then False
      else if rh_version h \<noteq> REWIND_HANDOFF_VERSION then False
      else rh_flags h AND REWIND_HANDOFF_FLAG_RESUME \<noteq> 0)"

definition rewind_handoff_read :: "rewind_handoff \<Rightarrow> rewind_handoff" where
  "rewind_handoff_read h = h"

definition rewind_restore_stack_top :: "u32 \<Rightarrow> u32" where
  "rewind_restore_stack_top stack_base = (stack_base + 2048) AND NOT 7"

record hand_world = sd_world +
  g_boot_handoff_blob :: boot_handoff_blob
  g_rewind_handoff :: rewind_handoff

section \<open>Properties\<close>

text \<open>The main image reads back what the boot menu published, with the flag
  normalised to 0 or 1 and a null configuration read as zeroes, and reads it
  once: a second consume finds nothing.\<close>

theorem boot_handoff_roundtrip:
  "boot_handoff_consume True (boot_handoff_publish (Some cfg) b) =
     (Some (cfg\<lparr>cfg_boot_restore_enabled := if cfg_boot_restore_enabled cfg \<noteq> 0 then 1 else 0\<rparr>),
      boot_handoff_clear b) \<and>
   fst (boot_handoff_consume True (snd (boot_handoff_consume True (boot_handoff_publish (Some cfg) b)))) = None"
  by (simp add: boot_handoff_consume_def boot_handoff_publish_def boot_handoff_clear_def Let_def)

text \<open>A blob with any single word changed after publishing is rejected, unless the
  change leaves it well-formed: no corrupted interval or flag is ever accepted.\<close>

theorem boot_handoff_rejects_corruption:
  assumes "fst (boot_handoff_consume True b) = Some cfg"
  shows "bh_magic b = BOOT_HANDOFF_MAGIC \<and> bh_version b = BOOT_HANDOFF_VERSION \<and>
    cfg_ckpt_interval_ms cfg = bh_ckpt_interval_ms b \<and>
    (\<forall>x. x \<noteq> bh_ckpt_interval_ms b \<longrightarrow> fst (boot_handoff_consume True (b\<lparr>bh_ckpt_interval_ms := x\<rparr>)) = None) \<and>
    (\<forall>x. x \<noteq> bh_ckpt_interval_inv b \<longrightarrow> fst (boot_handoff_consume True (b\<lparr>bh_ckpt_interval_inv := x\<rparr>)) = None) \<and>
    (\<forall>x. x \<noteq> bh_boot_restore_enabled b \<longrightarrow>
       fst (boot_handoff_consume True (b\<lparr>bh_boot_restore_enabled := x\<rparr>)) = None)"
  using assms by (auto simp: boot_handoff_consume_def split: if_splits)

theorem boot_handoff_rejects_corruption_witness:
  "fst (boot_handoff_consume True
     ((boot_handoff_publish (Some \<lparr>cfg_ckpt_interval_ms = 5000, cfg_boot_restore_enabled = 1\<rparr>)
        \<lparr>bh_magic = 0, bh_version = 0, bh_ckpt_interval_ms = 0, bh_ckpt_interval_inv = 0,
         bh_boot_restore_enabled = 0, bh_boot_restore_enabled_inv = 0\<rparr>)\<lparr>bh_ckpt_interval_ms := 5001\<rparr>)) = None"
  using boot_handoff_rejects_corruption
    [of "boot_handoff_publish (Some \<lparr>cfg_ckpt_interval_ms = 5000, cfg_boot_restore_enabled = 1\<rparr>)
        \<lparr>bh_magic = 0, bh_version = 0, bh_ckpt_interval_ms = 0, bh_ckpt_interval_inv = 0,
         bh_boot_restore_enabled = 0, bh_boot_restore_enabled_inv = 0\<rparr>"
      "\<lparr>cfg_ckpt_interval_ms = 5000, cfg_boot_restore_enabled = 1\<rparr>"]
  by (simp add: boot_handoff_consume_def boot_handoff_publish_def)

lemma rewind_handoff_request:
  "rewind_handoff_resume_requested (rewind_handoff_mark_resume slot seq js jb h)"
  "\<not> rewind_handoff_resume_requested (rewind_handoff_clear h)"
  "rh_slot (rewind_handoff_read (rewind_handoff_mark_resume slot seq js jb h)) = slot"
  "rh_seq (rewind_handoff_read (rewind_handoff_mark_resume slot seq js jb h)) = seq"
  by (simp_all add: rewind_handoff_resume_requested_def rewind_handoff_mark_resume_def
      rewind_handoff_clear_def rewind_handoff_read_def)

end
