(* ===== verification/Rwos_Disk.thy ===== *)
theory Rwos_Disk
  imports Mirror Handoff Parse
begin

text \<open>
  The partition table of \<open>rwos_disk.c\<close>: one 512-byte structure, written to LBA 1
  and LBA 2, created by auto-format on a blank card.  The structure is a record;
  \<open>disk_words\<close> and \<open>words_disk\<close> are the casts between it and an array of
  \<open>uint32_t\<close>.  The linker symbols \<open>_sram_start\<close> and \<open>_sram_end\<close> have the values of
  \<open>LinkerScript_main.ld\<close>.
\<close>

record rwos_disk =
  d_magic :: u32
  d_version :: u32
  d_generation :: u32
  d_total_blocks :: u32
  d_journal_start_lba :: u32
  d_journal_blocks :: u32
  d_snap_start_lba :: u32
  d_snap_blocks :: u32
  d_snap_slots :: u32
  d_snap_slot_blocks :: u32
  d_snap_interval_s :: u32
  d_rwfs_start_lba :: u32
  d_rwfs_blocks :: u32
  d_boot_target_mode :: u32
  d_boot_target_slot :: u32
  d_boot_target_seq :: u32
  d_last_snap_slot :: u32
  d_last_snap_seq :: u32
  d_checksum :: u32
  d_reserved :: "u32 list"

abbreviation (input) RWOS_DISK_MAGIC :: u32 where "RWOS_DISK_MAGIC \<equiv> 0x49445752"
abbreviation (input) RWOS_DISK_VERSION :: u32 where "RWOS_DISK_VERSION \<equiv> 1"
abbreviation (input) RWOS_DISK_LBA_A :: u32 where "RWOS_DISK_LBA_A \<equiv> 1"
abbreviation (input) RWOS_DISK_LBA_B :: u32 where "RWOS_DISK_LBA_B \<equiv> 2"
abbreviation (input) RWOS_BOOT_TARGET_RECENT :: u32 where "RWOS_BOOT_TARGET_RECENT \<equiv> 0"
abbreviation (input) ADMIN_MAGIC_ALT :: u32 where "ADMIN_MAGIC_ALT \<equiv> 0x53535752"
abbreviation (input) ADMIN_VERSION_ALT :: u32 where "ADMIN_VERSION_ALT \<equiv> 1"
abbreviation (input) DISK_ADMIN_END_LBA :: u32 where "DISK_ADMIN_END_LBA \<equiv> 3"
abbreviation (input) DISK_MIN_RWFS_BLOCKS :: u32 where "DISK_MIN_RWFS_BLOCKS \<equiv> 64"
abbreviation (input) SNAPSHOT_SLOTS_DEFAULT :: u32 where "SNAPSHOT_SLOTS_DEFAULT \<equiv> 4"
abbreviation (input) SNAPSHOT_HDR_BLOCKS :: u32 where "SNAPSHOT_HDR_BLOCKS \<equiv> 16"
abbreviation (input) SNAPSHOT_INTERVAL_DEFAULT_S :: u32 where "SNAPSHOT_INTERVAL_DEFAULT_S \<equiv> 60"
abbreviation (input) JOURNAL_BLOCKS_DEFAULT :: u32 where "JOURNAL_BLOCKS_DEFAULT \<equiv> 128"
abbreviation (input) sram_start :: u32 where "sram_start \<equiv> 0x20000000"
abbreviation (input) sram_end :: u32 where "sram_end \<equiv> 0x2004FFC0"

definition disk_words :: "rwos_disk \<Rightarrow> u32 list" where
  "disk_words d =
     [d_magic d, d_version d, d_generation d, d_total_blocks d, d_journal_start_lba d,
      d_journal_blocks d, d_snap_start_lba d, d_snap_blocks d, d_snap_slots d, d_snap_slot_blocks d,
      d_snap_interval_s d, d_rwfs_start_lba d, d_rwfs_blocks d, d_boot_target_mode d,
      d_boot_target_slot d, d_boot_target_seq d, d_last_snap_slot d, d_last_snap_seq d,
      d_checksum d] @ d_reserved d"

definition words_disk :: "u32 list \<Rightarrow> rwos_disk" where
  "words_disk w =
     \<lparr> d_magic = w ! 0, d_version = w ! 1, d_generation = w ! 2, d_total_blocks = w ! 3,
       d_journal_start_lba = w ! 4, d_journal_blocks = w ! 5, d_snap_start_lba = w ! 6,
       d_snap_blocks = w ! 7, d_snap_slots = w ! 8, d_snap_slot_blocks = w ! 9,
       d_snap_interval_s = w ! 10, d_rwfs_start_lba = w ! 11, d_rwfs_blocks = w ! 12,
       d_boot_target_mode = w ! 13, d_boot_target_slot = w ! 14, d_boot_target_seq = w ! 15,
       d_last_snap_slot = w ! 16, d_last_snap_seq = w ! 17, d_checksum = w ! 18,
       d_reserved = drop 19 w \<rparr>"

definition rwos_disk_checksum :: "rwos_disk \<Rightarrow> u32" where
  "rwos_disk_checksum d = fnv_words (take 18 (disk_words d))"

record disk_world = hand_world +
  g_rwos_disk :: rwos_disk
  g_rwos_disk_valid :: bool

definition rwos_disk_media_ready :: "'a disk_world_scheme \<Rightarrow> int \<times> 'a disk_world_scheme" where
  "rwos_disk_media_ready w =
     (if \<not> sd_detected w then (SD_ERR_NO_INIT, w)
      else if \<not> g_sd_initialized w then sd_init w
      else (SD_OK, w))"

text \<open>None: the function returns 0.  The boot menu's table (RWSS) is converted.\<close>

definition rwos_disk_parse :: "block \<Rightarrow> rwos_disk option" where
  "rwos_disk_parse blk =
     (let d = words_disk (bytes_words blk) in
      if d_magic d = RWOS_DISK_MAGIC \<and> d_version d = RWOS_DISK_VERSION
      then (if d_checksum d \<noteq> rwos_disk_checksum d then None else Some d)
      else
        let aw = bytes_words blk in
        if aw ! 0 \<noteq> ADMIN_MAGIC_ALT \<or> aw ! 1 \<noteq> ADMIN_VERSION_ALT then None
        else
          let out = (words_disk (replicate 128 0))
                \<lparr>d_magic := RWOS_DISK_MAGIC, d_version := RWOS_DISK_VERSION,
                 d_generation := aw ! 2, d_total_blocks := aw ! 3, d_snap_slots := aw ! 5,
                 d_snap_interval_s := aw ! 6, d_snap_start_lba := aw ! 7, d_snap_blocks := aw ! 8,
                 d_snap_slot_blocks := aw ! 9, d_boot_target_mode := aw ! 10,
                 d_boot_target_slot := aw ! 11, d_boot_target_seq := aw ! 12,
                 d_last_snap_slot := aw ! 13, d_last_snap_seq := aw ! 14,
                 d_journal_start_lba := aw ! 15, d_journal_blocks := aw ! 16\<rparr>;
              rwfs_start = d_snap_start_lba out + d_snap_blocks out;
              out1 = out\<lparr>d_rwfs_start_lba := rwfs_start,
                         d_rwfs_blocks := if d_total_blocks out > rwfs_start
                                          then d_total_blocks out - rwfs_start else 0\<rparr>
          in Some (out1\<lparr>d_checksum := rwos_disk_checksum out1\<rparr>))"

definition parse_read :: "(int \<times> block option) \<Rightarrow> rwos_disk option" where
  "parse_read r = (case r of (rc, Some b) \<Rightarrow> rwos_disk_parse b | (rc, None) \<Rightarrow> None)"

definition rwos_disk_read_best :: "'a disk_world_scheme \<Rightarrow> bool \<times> 'a disk_world_scheme" where
  "rwos_disk_read_best w =
     (case sd_read1 RWOS_DISK_LBA_A w of (ra, w1) \<Rightarrow>
      case sd_read1 RWOS_DISK_LBA_B w1 of (rb, w2) \<Rightarrow>
        (case (parse_read ra, parse_read rb) of
           (None, None) \<Rightarrow> (False, w2)
         | (Some a, None) \<Rightarrow> (True, w2\<lparr>g_rwos_disk := a\<rparr>)
         | (Some a, Some b) \<Rightarrow>
             (True, w2\<lparr>g_rwos_disk := if d_generation a \<ge> d_generation b then a else b\<rparr>)
         | (None, Some b) \<Rightarrow> (True, w2\<lparr>g_rwos_disk := b\<rparr>)))"

definition disk_block :: "rwos_disk \<Rightarrow> block" where
  "disk_block d = words_bytes (disk_words d)"

definition rwos_disk_write_both :: "'a disk_world_scheme \<Rightarrow> int \<times> 'a disk_world_scheme" where
  "rwos_disk_write_both w =
     (case sd_write1 RWOS_DISK_LBA_A (disk_block (g_rwos_disk w)) w of (rc, w1) \<Rightarrow>
      if rc \<noteq> SD_OK then (rc, LOG_ERR ''disk-A'' rc ''rwos_disk.c'' 152 w1)
      else case sd_write1 RWOS_DISK_LBA_B (disk_block (g_rwos_disk w)) w1 of (rc, w2) \<Rightarrow>
        (rc, if rc \<noteq> SD_OK then LOG_ERR ''disk-B'' rc ''rwos_disk.c'' 157 w2 else w2))"

definition disk_sram_blocks :: u32 where
  "disk_sram_blocks =
     (let bytes = sram_end - sram_start in
      if bytes = 0 then 640 else (bytes + (512 - 1)) div 512)"

abbreviation (input) crlf :: string where "crlf \<equiv> [CHR 0x0D, CHR 0x0A]"

definition rwos_disk_auto_format :: "'a disk_world_scheme \<Rightarrow> int \<times> 'a disk_world_scheme" where
  "rwos_disk_auto_format w =
     (if \<not> g_sd_initialized w \<or> g_sd_capacity w = 0 then (SD_ERR_NO_INIT, w)
      else
        let card_blocks = g_sd_capacity w;
            snap_slot_blocks = disk_sram_blocks + SNAPSHOT_HDR_BLOCKS;
            snap_blocks = SNAPSHOT_SLOTS_DEFAULT * snap_slot_blocks;
            journal_start = DISK_ADMIN_END_LBA;
            snap_start = journal_start + JOURNAL_BLOCKS_DEFAULT;
            rwfs_start = snap_start + snap_blocks
        in
        if rwfs_start + DISK_MIN_RWFS_BLOCKS > card_blocks
        then (SD_ERR_PARAM, uart_puts (''rwos_disk: card too small for format'' @ crlf) w)
        else
          let d = (words_disk (replicate 128 0))
                \<lparr>d_magic := RWOS_DISK_MAGIC, d_version := RWOS_DISK_VERSION, d_generation := 1,
                 d_total_blocks := card_blocks, d_journal_start_lba := journal_start,
                 d_journal_blocks := JOURNAL_BLOCKS_DEFAULT, d_snap_start_lba := snap_start,
                 d_snap_blocks := snap_blocks, d_snap_slots := SNAPSHOT_SLOTS_DEFAULT,
                 d_snap_slot_blocks := snap_slot_blocks,
                 d_snap_interval_s := SNAPSHOT_INTERVAL_DEFAULT_S, d_rwfs_start_lba := rwfs_start,
                 d_rwfs_blocks := card_blocks - rwfs_start,
                 d_boot_target_mode := RWOS_BOOT_TARGET_RECENT\<rparr>;
              w1 = w\<lparr>g_rwos_disk := d\<lparr>d_checksum := rwos_disk_checksum d\<rparr>\<rparr>
          in case rwos_disk_write_both w1 of (rc, w2) \<Rightarrow>
             if rc \<noteq> SD_OK
             then (rc, uart_puts crlf (uart_put_hex32 (sd_last_sta w2) (uart_puts '' sta=''
                         (uart_put_hex32 (sd_last_cmd w2) (uart_puts '' cmd=''
                         (uart_put_u32 (of_int (0 - rc)) (uart_puts ''rwos_disk: write failed err=-'' w2)))))))
             else (SD_OK, uart_puts (''rwos_disk: auto-format ok'' @ crlf) w2))"

definition rwos_disk_init :: "'a disk_world_scheme \<Rightarrow> int \<times> 'a disk_world_scheme" where
  "rwos_disk_init w =
     (case rwos_disk_media_ready (w\<lparr>g_rwos_disk_valid := False\<rparr>) of (rc, w1) \<Rightarrow>
      if rc \<noteq> SD_OK then (rc, uart_puts (''rwos_disk: media not ready'' @ crlf) w1)
      else case rwos_disk_read_best w1 of (found, w2) \<Rightarrow>
        if found
        then (SD_OK, (uart_puts (''rwos_disk: table loaded'' @ crlf) w2)\<lparr>g_rwos_disk_valid := True\<rparr>)
        else case rwos_disk_auto_format
                    (uart_puts (''rwos_disk: no table found, formatting'' @ crlf) w2) of (rc, w3) \<Rightarrow>
          (rc, if rc = SD_OK then w3\<lparr>g_rwos_disk_valid := True\<rparr> else w3))"

definition rwos_disk_get :: "'a disk_world_scheme \<Rightarrow> rwos_disk option" where
  "rwos_disk_get w = (if \<not> g_rwos_disk_valid w then None else Some (g_rwos_disk w))"

definition bump_generation :: "rwos_disk \<Rightarrow> rwos_disk" where
  "bump_generation d =
     (if d_generation d \<noteq> 0xFFFFFFFF then d\<lparr>d_generation := d_generation d + 1\<rparr> else d)"

definition rwos_disk_set_boot_target ::
  "u32 \<Rightarrow> u32 \<Rightarrow> u32 \<Rightarrow> 'a disk_world_scheme \<Rightarrow> int \<times> 'a disk_world_scheme" where
  "rwos_disk_set_boot_target mode slot seq w =
     (if \<not> g_rwos_disk_valid w then (SD_ERR_NO_INIT, w)
      else
        let d = (bump_generation (g_rwos_disk w))
              \<lparr>d_boot_target_mode := mode, d_boot_target_slot := slot, d_boot_target_seq := seq\<rparr>
        in rwos_disk_write_both (w\<lparr>g_rwos_disk := d\<lparr>d_checksum := rwos_disk_checksum d\<rparr>\<rparr>))"

definition rwos_disk_set_last_snap ::
  "u32 \<Rightarrow> u32 \<Rightarrow> 'a disk_world_scheme \<Rightarrow> int \<times> 'a disk_world_scheme" where
  "rwos_disk_set_last_snap slot seq w =
     (if \<not> g_rwos_disk_valid w then (SD_ERR_NO_INIT, w)
      else
        let d = (bump_generation (g_rwos_disk w))\<lparr>d_last_snap_slot := slot, d_last_snap_seq := seq\<rparr>
        in rwos_disk_write_both (w\<lparr>g_rwos_disk := d\<lparr>d_checksum := rwos_disk_checksum d\<rparr>\<rparr>))"

section \<open>The table as a mirrored structure\<close>

definition disk_valid :: "rwos_disk \<Rightarrow> bool" where
  "disk_valid d \<longleftrightarrow> d_magic d = RWOS_DISK_MAGIC \<and> d_version d = RWOS_DISK_VERSION \<and>
     d_checksum d = rwos_disk_checksum d \<and> length (d_reserved d) = 109"

lemma words_disk_words [simp]: "words_disk (disk_words d) = d"
  by (simp add: words_disk_def disk_words_def)

lemma length_disk_block: "length (d_reserved d) = 109 \<Longrightarrow> length (disk_block d) = 512"
  by (simp add: disk_block_def disk_words_def)

lemma rwos_disk_parse_block: "disk_valid d \<Longrightarrow> rwos_disk_parse (disk_block d) = Some d"
  by (simp add: rwos_disk_parse_def disk_block_def disk_valid_def Let_def)

interpretation dm: mirrored rwos_disk_parse d_generation disk_block disk_valid
  by unfold_locales (rule rwos_disk_parse_block)

lemma rwos_disk_checksum_of [simp]: "rwos_disk_checksum (d\<lparr>d_checksum := c\<rparr>) = rwos_disk_checksum d"
  by (simp add: rwos_disk_checksum_def disk_words_def)

lemma bump_generation_fields [simp]:
  "d_magic (bump_generation d) = d_magic d" "d_version (bump_generation d) = d_version d"
  "d_reserved (bump_generation d) = d_reserved d"
  by (simp_all add: bump_generation_def)

text \<open>The table that the two setters write.\<close>

definition target_table :: "u32 \<Rightarrow> u32 \<Rightarrow> u32 \<Rightarrow> rwos_disk \<Rightarrow> rwos_disk" where
  "target_table mode slot seq d =
     (let e = (bump_generation d)
          \<lparr>d_boot_target_mode := mode, d_boot_target_slot := slot, d_boot_target_seq := seq\<rparr>
      in e\<lparr>d_checksum := rwos_disk_checksum e\<rparr>)"

definition snap_table :: "u32 \<Rightarrow> u32 \<Rightarrow> rwos_disk \<Rightarrow> rwos_disk" where
  "snap_table slot seq d =
     (let e = (bump_generation d)\<lparr>d_last_snap_slot := slot, d_last_snap_seq := seq\<rparr>
      in e\<lparr>d_checksum := rwos_disk_checksum e\<rparr>)"

lemma setter_tables_valid:
  "disk_valid d \<Longrightarrow> disk_valid (target_table mode slot seq d)"
  "disk_valid d \<Longrightarrow> disk_valid (snap_table slot seq d)"
  by (simp_all add: disk_valid_def target_table_def snap_table_def Let_def)

lemma bump_generation_le: "d_generation d \<le> d_generation (bump_generation d)"
proof (cases "d_generation d = 0xFFFFFFFF")
  case False
  moreover have "unat (d_generation d) \<le> 4294967295" using unat_u32_lt [of "d_generation d"] by linarith
  ultimately have "d_generation d < 0xFFFFFFFF" by (simp add: word_less_nat_alt word_unat_eq_iff)
  then show ?thesis using False by (simp add: bump_generation_def word_le_nat_alt unat_Suc_lt)
qed (simp add: bump_generation_def)

lemma setter_tables_gen:
  "d_generation d \<le> d_generation (target_table mode slot seq d)"
  "d_generation d \<le> d_generation (snap_table slot seq d)"
  by (simp_all add: target_table_def snap_table_def Let_def bump_generation_le)

lemma set_boot_target_eq:
  "g_rwos_disk_valid w \<Longrightarrow> rwos_disk_set_boot_target mode slot seq w =
     rwos_disk_write_both (w\<lparr>g_rwos_disk := target_table mode slot seq (g_rwos_disk w)\<rparr>)"
  by (simp add: rwos_disk_set_boot_target_def target_table_def Let_def)

lemma set_last_snap_eq:
  "g_rwos_disk_valid w \<Longrightarrow> rwos_disk_set_last_snap slot seq w =
     rwos_disk_write_both (w\<lparr>g_rwos_disk := snap_table slot seq (g_rwos_disk w)\<rparr>)"
  by (simp add: rwos_disk_set_last_snap_def snap_table_def Let_def)

section \<open>Writing and reading the pair\<close>

lemma LOG_ERR_sd [simp]:
  "sd_card (LOG_ERR t r f l w) = sd_card w" "sd_env (LOG_ERR t r f l w) = sd_env w"
  "sd_ok (LOG_ERR t r f l w) = sd_ok w"
  by (simp_all add: LOG_ERR_def)

lemma uart_puts_sd [simp]:
  "sd_card (uart_puts s w) = sd_card w" "sd_ok (uart_puts s w) = sd_ok w"
  by (simp_all add: uart_puts_def)

text \<open>What reading the pair finds on a card.\<close>

definition card_table :: "(u32 \<Rightarrow> block) \<Rightarrow> rwos_disk option" where
  "card_table c = mirror_best rwos_disk_parse d_generation (c RWOS_DISK_LBA_A) (c RWOS_DISK_LBA_B)"

lemma read_best_ok:
  assumes "sd_ok w"
  shows "rwos_disk_read_best w =
    (case card_table (sd_card w) of
       None \<Rightarrow> (False, w\<lparr>g_sd_last_error := SD_OK\<rparr>)
     | Some d \<Rightarrow> (True, w\<lparr>g_sd_last_error := SD_OK, g_rwos_disk := d\<rparr>))"
  using assms
  by (auto simp: rwos_disk_read_best_def sd_simps parse_read_def card_table_def mirror_best_def
      split: option.splits)

lemma write_both_ok:
  assumes "sd_ok w"
  shows "rwos_disk_write_both w = (SD_OK, w\<lparr>sd_card := (sd_card w)
    (RWOS_DISK_LBA_A := disk_block (g_rwos_disk w), RWOS_DISK_LBA_B := disk_block (g_rwos_disk w)),
    g_sd_last_error := SD_OK\<rparr>)"
  using assms by (simp add: rwos_disk_write_both_def sd_simps)

text \<open>The states of the two copies an interrupted \<open>rwos_disk_write_both\<close> can leave.\<close>

lemma write_both_cases:
  assumes "rwos_disk_write_both w = (rc, w')" "sd_torn P w"
  defines "new \<equiv> disk_block (g_rwos_disk w)"
  shows "(rc = SD_OK \<and> sd_card w' = (sd_card w)(RWOS_DISK_LBA_A := new, RWOS_DISK_LBA_B := new)) \<or>
    (rc \<noteq> SD_OK \<and> (sd_card w' = sd_card w \<or> (\<exists>x. P x \<and> sd_card w' = (sd_card w)(RWOS_DISK_LBA_A := x)))) \<or>
    (rc \<noteq> SD_OK \<and> (sd_card w' = (sd_card w)(RWOS_DISK_LBA_A := new) \<or>
       (\<exists>x. P x \<and> sd_card w' = (sd_card w)(RWOS_DISK_LBA_A := new, RWOS_DISK_LBA_B := x))))"
proof (cases "sd_write1 RWOS_DISK_LBA_A new w")
  case A: (Pair r1 w1)
  note tA = sd_write1_torn [OF assms(2) A]
  show ?thesis
  proof (cases "r1 = SD_OK")
    case True
    obtain r2 w2 where B: "sd_write1 RWOS_DISK_LBA_B new w1 = (r2, w2)" by (metis surj_pair)
    have "rc = r2" "sd_card w' = sd_card w2"
      using assms(1) A B True by (auto simp: rwos_disk_write_both_def new_def)
    then show ?thesis using sd_write1_torn [OF tA(1) B] tA(2) True by auto
  next
    case False
    then have "rc = r1" "sd_card w' = sd_card w1"
      using assms(1) A by (auto simp: rwos_disk_write_both_def new_def)
    then show ?thesis using tA(3) False by auto
  qed
qed



section \<open>Auto-format\<close>

text \<open>The partitions lie one after the other inside the card, after the table.\<close>

definition layout_ok :: "rwos_disk \<Rightarrow> bool" where
  "layout_ok d \<longleftrightarrow>
     3 \<le> unat (d_journal_start_lba d) \<and>
     unat (d_journal_start_lba d) + unat (d_journal_blocks d) \<le> unat (d_snap_start_lba d) \<and>
     unat (d_snap_start_lba d) + unat (d_snap_blocks d) \<le> unat (d_rwfs_start_lba d) \<and>
     unat (d_rwfs_start_lba d) + unat (d_rwfs_blocks d) \<le> unat (d_total_blocks d) \<and>
     unat (d_snap_blocks d) = unat (d_snap_slots d) * unat (d_snap_slot_blocks d) \<and>
     64 \<le> unat (d_rwfs_blocks d)"

definition format_base :: "u32 \<Rightarrow> rwos_disk" where
  "format_base cap = (words_disk (replicate 128 0))
     \<lparr>d_magic := RWOS_DISK_MAGIC, d_version := RWOS_DISK_VERSION, d_generation := 1,
      d_total_blocks := cap, d_journal_start_lba := 3, d_journal_blocks := 128,
      d_snap_start_lba := 131, d_snap_blocks := 2624, d_snap_slots := 4,
      d_snap_slot_blocks := 656, d_snap_interval_s := 60, d_rwfs_start_lba := 2755,
      d_rwfs_blocks := cap - 2755, d_boot_target_mode := 0\<rparr>"

definition format_table :: "u32 \<Rightarrow> rwos_disk" where
  "format_table cap = (format_base cap)\<lparr>d_checksum := rwos_disk_checksum (format_base cap)\<rparr>"

lemma format_base_sel [simp]:
  "d_magic (format_base cap) = RWOS_DISK_MAGIC" "d_version (format_base cap) = RWOS_DISK_VERSION"
  "d_total_blocks (format_base cap) = cap" "d_journal_start_lba (format_base cap) = 3"
  "d_journal_blocks (format_base cap) = 128" "d_snap_start_lba (format_base cap) = 131"
  "d_snap_blocks (format_base cap) = 2624" "d_snap_slots (format_base cap) = 4"
  "d_snap_slot_blocks (format_base cap) = 656" "d_rwfs_start_lba (format_base cap) = 2755"
  "d_rwfs_blocks (format_base cap) = cap - 2755" "length (d_reserved (format_base cap)) = 109"
  by (simp_all add: format_base_def words_disk_def)

lemma format_table_valid: "disk_valid (format_table cap)"
  by (simp add: disk_valid_def format_table_def)

lemma disk_sram_blocks_640: "disk_sram_blocks = 640"
  by (simp add: disk_sram_blocks_def)

lemma auto_format_ok:
  assumes "sd_ok w" "2819 \<le> g_sd_capacity w"
  shows "\<exists>w'. rwos_disk_auto_format w = (SD_OK, w') \<and> g_rwos_disk w' = format_table (g_sd_capacity w) \<and>
    card_table (sd_card w') = Some (format_table (g_sd_capacity w)) \<and> sd_ok w'"
proof -
  have cap: "g_sd_capacity w \<noteq> 0" "\<not> 2819 > g_sd_capacity w" using assms(2) by auto
  let ?w1 = "w\<lparr>g_rwos_disk := format_table (g_sd_capacity w)\<rparr>"
  have "sd_ok ?w1" using assms(1) by (simp add: sd_ok_def)
  note wr = write_both_ok [OF this]
  show ?thesis
    using assms(1) cap wr dm.best_both [OF format_table_valid]
    by (simp add: rwos_disk_auto_format_def Let_def disk_sram_blocks_640 sd_ok_def
        format_base_def [symmetric] format_table_def [symmetric] uart_puts_def card_table_def)
qed

lemma format_table_layout: "2819 \<le> cap \<Longrightarrow> layout_ok (format_table cap)"
  by (simp add: layout_ok_def format_table_def word_le_nat_alt unat_sub)

text \<open>On a card with no table and at least 2819 blocks, \<open>rwos_disk_init\<close> formats:
  the partitions of the new table are disjoint and inside the card, the four
  snapshot slots hold the whole SRAM plus 16 blocks each, the file system gets
  at least 64 blocks, and both copies on the card read back as that table.\<close>

theorem blank_card_formatted:
  assumes "sd_ok w" "sd_detected w" "card_table (sd_card w) = None" "2819 \<le> g_sd_capacity w"
  shows "\<exists>w' d. rwos_disk_init w = (SD_OK, w') \<and> rwos_disk_get w' = Some d \<and> layout_ok d \<and>
    d_total_blocks d = g_sd_capacity w \<and> d_snap_slots d = 4 \<and>
    d_snap_slot_blocks d = disk_sram_blocks + 16 \<and> card_table (sd_card w') = Some d"
proof -
  let ?w1 = "uart_puts (''rwos_disk: no table found, formatting'' @ crlf)
    (w\<lparr>g_rwos_disk_valid := False, g_sd_last_error := SD_OK\<rparr>)"
  have w1: "sd_ok ?w1" "2819 \<le> g_sd_capacity ?w1" "g_sd_capacity ?w1 = g_sd_capacity w"
    using assms(1,4) by (simp_all add: sd_ok_def uart_puts_def)
  obtain w' where w': "rwos_disk_auto_format ?w1 = (SD_OK, w')" "g_rwos_disk w' = format_table (g_sd_capacity w)"
    "card_table (sd_card w') = Some (format_table (g_sd_capacity w))"
    using auto_format_ok [OF w1(1,2)] unfolding w1(3) by blast
  have "sd_ok (w\<lparr>g_rwos_disk_valid := False\<rparr>)" using assms(1) by (simp add: sd_ok_def)
  note rd = read_best_ok [OF this]
  have "rwos_disk_init w = (SD_OK, w'\<lparr>g_rwos_disk_valid := True\<rparr>)"
    using assms(1-3) w'(1) rd by (simp add: rwos_disk_init_def rwos_disk_media_ready_def sd_ok_def)
  then show ?thesis
    using w' format_table_layout [OF assms(4)]
    by (intro exI [of _ "w'\<lparr>g_rwos_disk_valid := True\<rparr>"] exI [of _ "format_table (g_sd_capacity w)"])
       (simp add: rwos_disk_get_def disk_sram_blocks_640, simp add: format_table_def)
qed

section \<open>A power-on state\<close>

text \<open>Zeroed RAM, an initialised card with the given contents and faults.\<close>

definition disk_power_on :: "(u32 \<Rightarrow> block) \<Rightarrow> (nat \<Rightarrow> sd_outcome) \<Rightarrow> u32 \<Rightarrow> disk_world" where
  "disk_power_on blocks env cap =
     \<lparr> g_task_aos = replicate 32 ex_ao, sc_table = replicate 32 None, sc_ready_bitmap = 0,
       sc_rr_cursor = replicate 32 0, sc_idle_hook = 0,
       w_log = \<lparr> g_log_buf = replicate 512 (CHR 0x00), g_log_head = 0, g_log_tail = 0, g_log_count = 0 \<rparr>,
       w_uart = [], w_tick = 0, w_panic = None,
       sd_detected = True, g_sd_initialized = True, g_sd_capacity = cap, g_sd_last_error = 0,
       sd_card = blocks, sd_env = env, sd_real_capacity = cap,
       g_sd_ctx = \<lparr> ctx_operation = SD_OP_NONE, ctx_status = DRV_IDLE, ctx_error_code = 0,
         ctx_error_detail = 0, ctx_lba = 0, ctx_total_blocks = 0, ctx_blocks_done = 0, ctx_buffer = 0,
         ctx_fifo_words_left = 0, ctx_current_ptr = 0, ctx_high_capacity = 1 \<rparr>,
       sd_last_cmd = 0, sd_last_sta = 0, g_sd_high_capacity = 1, sdmmc_dctrl = 0, sdmmc_mask = 0,
       sdmmc_fifo = [], sdmmc_line = [], sdmmc_irq_enabled = False, g_sd_async_sched = False, g_sd_ao_id = 0,
       g_sd_done_sig = 0, g_sd_err_sig = 0, sd_mem = (\<lambda>_. 0),
       g_boot_handoff_blob = \<lparr> bh_magic = 0, bh_version = 0, bh_ckpt_interval_ms = 0,
         bh_ckpt_interval_inv = 0, bh_boot_restore_enabled = 0, bh_boot_restore_enabled_inv = 0 \<rparr>,
       g_rewind_handoff = \<lparr> rh_magic = 0, rh_version = 0, rh_flags = 0, rh_slot = 0, rh_seq = 0,
         rh_journal_start_lba = 0, rh_journal_blocks = 0, rh_reserved = replicate 9 0 \<rparr>,
       g_rwos_disk = words_disk (replicate 128 0), g_rwos_disk_valid = False \<rparr>"

definition blank_card :: "u32 \<Rightarrow> block" where "blank_card lba = replicate 512 0"

lemma disk_power_on_sel [simp]:
  "sd_ok (disk_power_on c (\<lambda>_. IoOk) cap)" "sd_detected (disk_power_on c e cap)"
  "sd_card (disk_power_on c e cap) = c" "g_sd_capacity (disk_power_on c e cap) = cap"
  "g_sd_initialized (disk_power_on c e cap)" "sd_env (disk_power_on c e cap) = e"
  by (simp_all add: disk_power_on_def sd_ok_def)

lemma blank_card_table: "card_table blank_card = None"
proof -
  have "bytes_words (replicate 512 0) ! 0 = 0" by (simp add: zero_block_words)
  then have "rwos_disk_parse (replicate 512 0) = None"
    by (simp add: rwos_disk_parse_def words_disk_def)
  then show ?thesis by (simp add: card_table_def mirror_best_def blank_card_def)
qed

theorem blank_card_formatted_witness:
  "\<exists>w' d. rwos_disk_init (disk_power_on blank_card (\<lambda>_. IoOk) 100000) = (SD_OK, w') \<and>
    rwos_disk_get w' = Some d \<and> layout_ok d \<and>
    d_total_blocks d = g_sd_capacity (disk_power_on blank_card (\<lambda>_. IoOk) 100000) \<and> d_snap_slots d = 4 \<and>
    d_snap_slot_blocks d = disk_sram_blocks + 16 \<and> card_table (sd_card w') = Some d"
  by (rule blank_card_formatted) (simp_all add: blank_card_table)

text \<open>A state with a loaded table, and its card.\<close>

definition table_card :: "u32 \<Rightarrow> block" where
  "table_card = blank_card(1 := disk_block (format_table 100000), 2 := disk_block (format_table 100000))"

definition disk_loaded :: "(nat \<Rightarrow> sd_outcome) \<Rightarrow> disk_world" where
  "disk_loaded env = (disk_power_on table_card env 100000)
     \<lparr>g_rwos_disk := format_table 100000, g_rwos_disk_valid := True\<rparr>"

lemma disk_loaded_sel [simp]:
  "g_rwos_disk_valid (disk_loaded e)" "g_rwos_disk (disk_loaded e) = format_table 100000"
  "sd_card (disk_loaded e) = table_card" "sd_detected (disk_loaded e)"
  "sd_ok (disk_loaded (\<lambda>_. IoOk))" "disk_valid (format_table 100000)"
  by (simp_all add: disk_loaded_def sd_ok_def format_table_valid)


lemma blank_block_parse: "rwos_disk_parse (replicate 512 0) = None"
  using blank_card_table by (auto simp: card_table_def mirror_best_def blank_card_def split: option.splits if_splits)

definition torn_env :: "nat \<Rightarrow> sd_outcome" where
  "torn_env n = IoErr Fault_crc (Some (replicate 512 0))"


end
