(* ===== verification/Best_Scan.thy ===== *)
theory Best_Scan
  imports Prelude
begin

text \<open>
  The loop that looks for the newest record in a row of blocks: the journal and
  the snapshot slots are both recovered this way.  \<open>probe\<close> gives the sequence
  number of a valid record, \<open>newer\<close> compares two of them.
\<close>

fun best_scan :: "('s \<Rightarrow> 's \<Rightarrow> bool) \<Rightarrow> ('i \<Rightarrow> 's option) \<Rightarrow> 'i list \<Rightarrow> ('s \<times> 'i) option \<Rightarrow> ('s \<times> 'i) option" where
  "best_scan newer probe [] best = best"
| "best_scan newer probe (i # is) best =
     (case probe i of
        None \<Rightarrow> best_scan newer probe is best
      | Some s \<Rightarrow>
          if (case best of None \<Rightarrow> True | Some (t, _) \<Rightarrow> newer s t)
          then best_scan newer probe is (Some (s, i))
          else best_scan newer probe is best)"

text \<open>\<open>best\<close> is a newest record among those of the indices \<open>S\<close>, by rank.\<close>

definition newest :: "('i \<Rightarrow> nat) \<Rightarrow> ('i \<Rightarrow> 's option) \<Rightarrow> 'i set \<Rightarrow> ('s \<times> 'i) option \<Rightarrow> bool" where
  "newest rank probe S best \<longleftrightarrow>
     (case best of
        None \<Rightarrow> \<forall>i\<in>S. probe i = None
      | Some (s, i) \<Rightarrow> i \<in> S \<and> probe i = Some s \<and> (\<forall>j\<in>S. probe j \<noteq> None \<longrightarrow> rank j \<le> rank i))"

lemma newest_not_None: "newest rank probe S best \<Longrightarrow> i \<in> S \<Longrightarrow> probe i \<noteq> None \<Longrightarrow> best \<noteq> None"
  by (cases best) (auto simp: newest_def)

lemma newest_extend:
  assumes "newest rank probe S best" "probe i = None"
  shows "newest rank probe (insert i S) best"
  using assms by (auto simp: newest_def split: option.splits)

lemma best_scan_newest_from:
  assumes "\<And>i j s t. i \<in> S \<union> set is \<Longrightarrow> j \<in> S \<union> set is \<Longrightarrow> probe i = Some s \<Longrightarrow> probe j = Some t \<Longrightarrow>
      newer s t \<longleftrightarrow> rank i > rank j"
    and "newest rank probe S best"
  shows "newest rank probe (S \<union> set is) (best_scan newer probe is best)"
  using assms
proof (induction "is" arbitrary: S best)
  case (Cons i "is")
  let ?best = "case probe i of None \<Rightarrow> best
    | Some s \<Rightarrow> if (case best of None \<Rightarrow> True | Some (t, _) \<Rightarrow> newer s t) then Some (s, i) else best"
  have step: "best_scan newer probe (i # is) best = best_scan newer probe is ?best"
    by (simp split: option.splits)
  have "newest rank probe (insert i S) ?best"
  proof (cases "probe i")
    case None
    with newest_extend [OF Cons.prems(2)] show ?thesis by simp
  next
    case (Some s)
    show ?thesis
    proof (cases best)
      case None
      with Cons.prems(2) Some show ?thesis by (auto simp: newest_def)
    next
      case b: (Some tj)
      obtain t j where tj: "tj = (t, j)" by fastforce
      with b Cons.prems(2) have j: "j \<in> S" "probe j = Some t" by (simp_all add: newest_def)
      have "newer s t \<longleftrightarrow> rank i > rank j"
        by (rule Cons.prems(1)) (simp_all add: j Some)
      with Cons.prems(2) b Some tj show ?thesis by (fastforce simp: newest_def)
    qed
  qed
  from Cons.IH [OF _ this] Cons.prems(1) step show ?case by simp
qed simp

lemma best_scan_newest:
  assumes "\<And>i j s t. i \<in> set is \<Longrightarrow> j \<in> set is \<Longrightarrow> probe i = Some s \<Longrightarrow> probe j = Some t \<Longrightarrow>
      newer s t \<longleftrightarrow> rank i > rank j"
  shows "newest rank probe (set is) (best_scan newer probe is None)"
  using best_scan_newest_from [of "{}" "is" probe newer rank None] assms by (simp add: newest_def)

end
