(* ===== verification/Journal.thy ===== *)
theory Journal
  imports Rwos_Disk Best_Scan
begin

text \<open>
  The input journal of \<open>journal.c\<close>: a ring of one-block records in its own
  partition.  A record is a header of seven words, the payload, a tail of four
  words, and zeros up to 512 bytes.  \<open>journal_replay_from_snapshot\<close> hands the
  records to the UART and the terminal; those calls are parameters here.
\<close>

record journal_hdr =
  jh_start_magic :: u32
  jh_rec_seq :: u32
  jh_snap_seq_base :: u32
  jh_event_type :: u32
  jh_payload_len :: u32
  jh_payload_crc :: u32
  jh_hdr_crc :: u32

record journal_ctx =
  j_configured :: bool
  j_scan_ready :: bool
  j_replaying :: bool
  j_pending_len :: u16
  j_start_lba :: u32
  j_blocks :: u32
  j_next_lba :: u32
  j_next_seq :: u32
  j_last_snapshot_seq :: u32
  j_suppress_rx_bytes :: u32
  j_last_err :: int
  j_dropped :: u32
  j_pending_rx :: "u8 list"

record jrnl_world = disk_world +
  g_journal :: journal_ctx

abbreviation (input) JRNL_MAGIC :: u32 where "JRNL_MAGIC \<equiv> 0x4C4E524A"
abbreviation (input) JEND_MAGIC :: u32 where "JEND_MAGIC \<equiv> 0x444E454A"
abbreviation (input) JRNL_EVT_RX_BYTES :: u32 where "JRNL_EVT_RX_BYTES \<equiv> 1"
abbreviation (input) JRNL_EVT_IO_OWNER :: u32 where "JRNL_EVT_IO_OWNER \<equiv> 2"
abbreviation (input) JRNL_PENDING_RX_CAP :: u16 where "JRNL_PENDING_RX_CAP \<equiv> 64"
abbreviation (input) JRNL_PAYLOAD_MAX :: u32 where "JRNL_PAYLOAD_MAX \<equiv> 468"
abbreviation (input) JOURNAL_BLOCKS_MAX :: u32 where "JOURNAL_BLOCKS_MAX \<equiv> 4096"

definition upd_j :: "(journal_ctx \<Rightarrow> journal_ctx) \<Rightarrow> 'a jrnl_world_scheme \<Rightarrow> 'a jrnl_world_scheme" where
  "upd_j f w = w\<lparr>g_journal := f (g_journal w)\<rparr>"

definition jrnl_checksum_words :: "u32 list \<Rightarrow> u32" where
  "jrnl_checksum_words ws = fnv_words ws"

definition jrnl_checksum_bytes :: "u8 list \<Rightarrow> u32" where
  "jrnl_checksum_bytes bs = foldl (\<lambda>h b. (h XOR ucast b) * 16777619) 2166136261 bs XOR 0xA5A55A5A"

definition jrnl_media_ready :: "'a jrnl_world_scheme \<Rightarrow> int \<times> 'a jrnl_world_scheme" where
  "jrnl_media_ready w =
     (if \<not> sd_detected w then (SD_ERR_NO_INIT, w)
      else if \<not> g_sd_initialized w then sd_init w
      else (SD_OK, w))"

definition words_jhdr :: "u32 list \<Rightarrow> journal_hdr" where
  "words_jhdr w =
     \<lparr> jh_start_magic = w ! 0, jh_rec_seq = w ! 1, jh_snap_seq_base = w ! 2, jh_event_type = w ! 3,
       jh_payload_len = w ! 4, jh_payload_crc = w ! 5, jh_hdr_crc = w ! 6 \<rparr>"

text \<open>The header and the payload of a valid block; None when it is rejected.\<close>

definition jrnl_block_validate :: "block \<Rightarrow> (journal_hdr \<times> u8 list) option" where
  "jrnl_block_validate blk =
     (let hw = bytes_words blk; h = words_jhdr hw in
      if jh_start_magic h \<noteq> JRNL_MAGIC then None
      else if jh_payload_len h > JRNL_PAYLOAD_MAX then None
      else if jh_hdr_crc h \<noteq> jrnl_checksum_words (take 6 hw) then None
      else
        let n = unat (jh_payload_len h);
            payload = take n (drop 28 blk);
            tail_off = 28 + n
        in
        if tail_off > 512 - 16 then None
        else
          let tw = bytes_words (drop tail_off blk) in
          if tw ! 0 \<noteq> JEND_MAGIC then None
          else if tw ! 1 \<noteq> jh_rec_seq h then None
          else if tw ! 2 \<noteq> jh_payload_crc h then None
          else if tw ! 3 \<noteq> jrnl_checksum_words (take 3 tw) then None
          else if jh_payload_crc h \<noteq> jrnl_checksum_bytes payload then None
          else Some (h, payload))"

definition jrnl_seq_newer :: "u32 \<Rightarrow> u32 \<Rightarrow> bool" where
  "jrnl_seq_newer a b \<longleftrightarrow> sint (a - b) > 0"

text \<open>The loop of \<open>jrnl_scan_tail\<close>: the best record so far as (sequence, index).\<close>

fun jrnl_scan_loop ::
  "u32 list \<Rightarrow> (u32 \<times> u32) option \<Rightarrow> 'a jrnl_world_scheme \<Rightarrow> (u32 \<times> u32) option \<times> 'a jrnl_world_scheme" where
  "jrnl_scan_loop [] best w = (best, w)"
| "jrnl_scan_loop (i # is) best w =
     (case sd_read1 (j_start_lba (g_journal w) + i) w of
        ((rc, None), w1) \<Rightarrow>
          (best, uart_puts crlf (uart_put_u32 i (uart_puts ''jrnl: scan read fail i=''
                   (upd_j (\<lambda>j. j\<lparr>j_last_err := rc\<rparr>) w1))))
      | ((rc, Some b), w1) \<Rightarrow>
          (case jrnl_block_validate b of
             None \<Rightarrow> jrnl_scan_loop is best w1
           | Some (h, _) \<Rightarrow>
               if (case best of None \<Rightarrow> True | Some (s, _) \<Rightarrow> jrnl_seq_newer (jh_rec_seq h) s)
               then jrnl_scan_loop is (Some (jh_rec_seq h, i)) w1
               else jrnl_scan_loop is best w1))"

definition jrnl_scan_tail :: "'a jrnl_world_scheme \<Rightarrow> 'a jrnl_world_scheme" where
  "jrnl_scan_tail w =
     (let w0 = upd_j (\<lambda>j. j\<lparr>j_scan_ready := False\<rparr>) w in
      if \<not> j_configured (g_journal w0) \<or> j_blocks (g_journal w0) = 0 then w0
      else case jrnl_media_ready (uart_puts (''jrnl: scan media'' @ crlf) w0) of (rc, w1) \<Rightarrow>
        if rc \<noteq> SD_OK
        then uart_puts (''jrnl: scan media fail'' @ crlf)
               (upd_j (\<lambda>j. j\<lparr>j_last_err := rc, j_next_seq := 1, j_next_lba := j_start_lba j,
                              j_scan_ready := True\<rparr>) w1)
        else
          let w2 = uart_puts ('' blks'' @ crlf)
                     (uart_put_u32 (j_blocks (g_journal w1)) (uart_puts ''jrnl: scan '' w1))
          in case jrnl_scan_loop (map of_nat [0..<unat (j_blocks (g_journal w2))]) None w2 of
               (None, w3) \<Rightarrow>
                 upd_j (\<lambda>j. j\<lparr>j_next_seq := 1, j_next_lba := j_start_lba j, j_scan_ready := True,
                                j_last_err := SD_OK\<rparr>) w3
             | (Some (best_seq, best_idx), w3) \<Rightarrow>
                 uart_puts crlf (uart_put_u32 best_seq (uart_puts ''jrnl: scan done seq=''
                   (upd_j (\<lambda>j. j\<lparr>j_next_seq := best_seq + 1,
                                  j_next_lba := j_start_lba j + ((best_idx + 1) mod j_blocks j),
                                  j_scan_ready := True, j_last_err := SD_OK\<rparr>) w3))))"

text \<open>The block \<open>jrnl_append_record\<close> builds.\<close>

definition jrnl_record :: "u32 \<Rightarrow> u32 \<Rightarrow> u32 \<Rightarrow> u8 list \<Rightarrow> block" where
  "jrnl_record seq base event_type payload =
     (let pcrc = jrnl_checksum_bytes payload;
          hw = [JRNL_MAGIC, seq, base, event_type, of_nat (length payload), pcrc];
          tw = [JEND_MAGIC, seq, pcrc];
          body = words_bytes (hw @ [jrnl_checksum_words hw]) @ payload @
                 words_bytes (tw @ [jrnl_checksum_words tw])
      in body @ replicate (512 - length body) 0)"

definition jrnl_append_record ::
  "u32 \<Rightarrow> u8 list \<Rightarrow> 'a jrnl_world_scheme \<Rightarrow> int \<times> 'a jrnl_world_scheme" where
  "jrnl_append_record event_type payload w =
     (if length payload > unat JRNL_PAYLOAD_MAX
      then (SCHED_ERR_DISABLED, kernel_panic ''journal payload too large'' ''journal.c'' 230 w)
      else if \<not> j_configured (g_journal w) \<or> j_blocks (g_journal w) = 0 then (SCHED_ERR_DISABLED, w)
      else if j_replaying (g_journal w) then (SCHED_ERR_DISABLED, w)
      else
        let w0 = (if \<not> j_scan_ready (g_journal w) then jrnl_scan_tail w else w) in
        if \<not> j_scan_ready (g_journal w0) then (SCHED_ERR_DISABLED, w0)
        else if ctx_operation (g_sd_ctx w0) \<noteq> SD_OP_NONE \<or> ctx_status (g_sd_ctx w0) = DRV_IN_PROGRESS
        then (SCHED_ERR_DISABLED, upd_j (\<lambda>j. j\<lparr>j_dropped := j_dropped j + 1\<rparr>) w0)
        else case jrnl_media_ready w0 of (rc, w1) \<Rightarrow>
          if rc \<noteq> SD_OK
          then (rc, upd_j (\<lambda>j. j\<lparr>j_last_err := rc, j_dropped := j_dropped j + 1\<rparr>) w1)
          else
            let blk = jrnl_record (j_next_seq (g_journal w1)) (j_last_snapshot_seq (g_journal w1))
                        event_type payload
            in case sd_write1 (j_next_lba (g_journal w1)) blk w1 of (rc, w2) \<Rightarrow>
               if rc \<noteq> SD_OK
               then (rc, upd_j (\<lambda>j. j\<lparr>j_last_err := rc, j_dropped := j_dropped j + 1\<rparr>)
                           (LOG_ERR ''journal'' rc ''journal.c'' 286 w2))
               else (SD_OK,
                     upd_j (\<lambda>j. j\<lparr>j_next_lba :=
                                    (if j_next_lba j \<ge> j_start_lba j + j_blocks j - 1
                                     then j_start_lba j else j_next_lba j + 1),
                                  j_next_seq := j_next_seq j + 1, j_last_err := SD_OK\<rparr>) w2))"

definition jrnl_flush_pending_rx :: "'a jrnl_world_scheme \<Rightarrow> int \<times> 'a jrnl_world_scheme" where
  "jrnl_flush_pending_rx w =
     (if j_pending_len (g_journal w) = 0 then (SD_OK, w)
      else case jrnl_append_record JRNL_EVT_RX_BYTES
                  (take (unat (j_pending_len (g_journal w))) (j_pending_rx (g_journal w))) w of (rc, w1) \<Rightarrow>
        (rc, if rc = SD_OK then upd_j (\<lambda>j. j\<lparr>j_pending_len := 0\<rparr>) w1 else w1))"

definition journal_configure :: "u32 \<Rightarrow> u32 \<Rightarrow> u32 \<Rightarrow> 'a jrnl_world_scheme \<Rightarrow> 'a jrnl_world_scheme" where
  "journal_configure start_lba blocks last_snapshot_seq w =
     (let w1 = upd_j (\<lambda>j. j\<lparr>j_configured := False, j_scan_ready := False, j_replaying := False,
            j_pending_len := 0, j_suppress_rx_bytes := 0, j_last_snapshot_seq := last_snapshot_seq,
            j_start_lba := start_lba, j_next_lba := start_lba, j_next_seq := 1, j_last_err := SD_OK,
            j_dropped := 0\<rparr>) w in
      if blocks = 0 \<or> blocks > JOURNAL_BLOCKS_MAX
      then upd_j (\<lambda>j. j\<lparr>j_blocks := 0\<rparr>)
             (if blocks > JOURNAL_BLOCKS_MAX
              then uart_puts ('', disabled'' @ crlf)
                     (uart_put_u32 blocks (uart_puts ''jrnl: blocks insane '' w1))
              else w1)
      else
        let w2 = upd_j (\<lambda>j. j\<lparr>j_blocks := blocks\<rparr>) w1 in
        if start_lba = 0 then kernel_panic ''journal start lba invalid'' ''journal.c'' 343 w2
        else
          let w3 = upd_j (\<lambda>j. j\<lparr>j_configured := True\<rparr>) w2 in
          if last_snapshot_seq = 0 then upd_j (\<lambda>j. j\<lparr>j_scan_ready := True\<rparr>) w3
          else jrnl_scan_tail w3)"

definition journal_note_snapshot_seq :: "u32 \<Rightarrow> 'a jrnl_world_scheme \<Rightarrow> 'a jrnl_world_scheme" where
  "journal_note_snapshot_seq seq w =
     (let w1 = snd (jrnl_flush_pending_rx w) in
      if seq > j_last_snapshot_seq (g_journal w1)
      then upd_j (\<lambda>j. j\<lparr>j_last_snapshot_seq := seq\<rparr>) w1 else w1)"

definition journal_capture_input_byte :: "u8 \<Rightarrow> 'a jrnl_world_scheme \<Rightarrow> int \<times> 'a jrnl_world_scheme" where
  "journal_capture_input_byte c w =
     (let j = g_journal w in
      if \<not> j_configured j \<or> j_blocks j = 0 then (SCHED_ERR_DISABLED, w)
      else if j_replaying j then (SCHED_ERR_DISABLED, w)
      else if j_suppress_rx_bytes j > 0
      then (SD_OK, upd_j (\<lambda>j. j\<lparr>j_suppress_rx_bytes := j_suppress_rx_bytes j - 1\<rparr>) w)
      else
        let w1 = (if j_pending_len j \<ge> JRNL_PENDING_RX_CAP then snd (jrnl_flush_pending_rx w) else w) in
        if j_pending_len (g_journal w1) \<ge> JRNL_PENDING_RX_CAP
        then (SCHED_ERR_FULL, upd_j (\<lambda>j. j\<lparr>j_dropped := j_dropped j + 1\<rparr>) w1)
        else
          let w2 = upd_j (\<lambda>j. j\<lparr>j_pending_rx := (j_pending_rx j)[unat (j_pending_len j) := c],
                               j_pending_len := j_pending_len j + 1\<rparr>) w1
          in if c = 0x0D \<or> c = 0x0A then jrnl_flush_pending_rx w2 else (SD_OK, w2))"

definition journal_capture_io_owner :: "u8 \<Rightarrow> u8 \<Rightarrow> 'a jrnl_world_scheme \<Rightarrow> int \<times> 'a jrnl_world_scheme" where
  "journal_capture_io_owner owner_ao acquired w =
     (if \<not> j_configured (g_journal w) \<or> j_blocks (g_journal w) = 0 then (SCHED_ERR_DISABLED, w)
      else jrnl_append_record JRNL_EVT_IO_OWNER [owner_ao, if acquired \<noteq> 0 then 1 else 0]
             (snd (jrnl_flush_pending_rx w)))"

text \<open>
  The replay loop.  \<open>inject\<close> is \<open>uart_async_inject_rx\<close>, \<open>drain\<close> is
  \<open>terminal_replay_drain\<close>, \<open>acquire\<close> and \<open>release\<close> the terminal's stdin calls.  The
  loop reads \<open>g_journal.blocks\<close> again at every turn, so a handler could in
  principle keep it going: it runs on fuel, and None means out of fuel, or a drain
  that does not return.
\<close>

definition replay_event ::
  "(u8 list \<Rightarrow> 'a jrnl_world_scheme \<Rightarrow> int \<times> 'a jrnl_world_scheme) \<Rightarrow>
   ('a jrnl_world_scheme \<Rightarrow> 'a jrnl_world_scheme option) \<Rightarrow>
   (u8 \<Rightarrow> 'a jrnl_world_scheme \<Rightarrow> 'a jrnl_world_scheme) \<Rightarrow>
   (u8 \<Rightarrow> 'a jrnl_world_scheme \<Rightarrow> 'a jrnl_world_scheme) \<Rightarrow>
   journal_hdr \<Rightarrow> u8 list \<Rightarrow> 'a jrnl_world_scheme \<Rightarrow> 'a jrnl_world_scheme option" where
  "replay_event inject drain acquire release h payload w =
     (if jh_event_type h = JRNL_EVT_RX_BYTES
      then case inject payload w of (injected, w1) \<Rightarrow>
             drain (if injected > 0
                    then upd_j (\<lambda>j. j\<lparr>j_suppress_rx_bytes := j_suppress_rx_bytes j + of_int injected\<rparr>) w1
                    else w1)
      else if jh_event_type h = JRNL_EVT_IO_OWNER
      then Some (if jh_payload_len h \<ge> 2
                 then if payload ! 1 AND 1 \<noteq> 0 then acquire (payload ! 0) w else release (payload ! 0) w
                 else w)
      else Some w)"

fun journal_replay_loop ::
  "(journal_hdr \<Rightarrow> u8 list \<Rightarrow> 'a jrnl_world_scheme \<Rightarrow> 'a jrnl_world_scheme option) \<Rightarrow> u32 \<Rightarrow> nat \<Rightarrow>
   u32 \<Rightarrow> u32 \<Rightarrow> u32 option \<Rightarrow> 'a jrnl_world_scheme \<Rightarrow> 'a jrnl_world_scheme option" where
  "journal_replay_loop event snapshot_seq 0 start_rel i prev w = None"
| "journal_replay_loop event snapshot_seq (Suc fuel) start_rel i prev w =
     (if i \<ge> j_blocks (g_journal w) then Some w
      else
        let rel = (start_rel + i) mod j_blocks (g_journal w);
            lba = j_start_lba (g_journal w) + rel
        in case sd_read1 lba w of
             ((rc, None), w1) \<Rightarrow> Some w1
           | ((rc, Some b), w1) \<Rightarrow>
               (case jrnl_block_validate b of
                  None \<Rightarrow>
                    if i = 0 \<and> start_rel \<noteq> 0
                    then journal_replay_loop event snapshot_seq fuel 0 0 None w1
                    else Some w1
                | Some (h, payload) \<Rightarrow>
                    if (case prev of None \<Rightarrow> False | Some p \<Rightarrow> \<not> jrnl_seq_newer (jh_rec_seq h) p) then Some w1
                    else Option.bind (if jh_snap_seq_base h < snapshot_seq then Some w1 else event h payload w1)
                           (journal_replay_loop event snapshot_seq fuel start_rel (i + 1) (Some (jh_rec_seq h)))))"

text \<open>The part of \<open>journal_replay_from_snapshot\<close> after the journal was configured.\<close>

definition journal_replay_run ::
  "(journal_hdr \<Rightarrow> u8 list \<Rightarrow> 'a jrnl_world_scheme \<Rightarrow> 'a jrnl_world_scheme option) \<Rightarrow> nat \<Rightarrow>
   u32 \<Rightarrow> 'a jrnl_world_scheme \<Rightarrow> 'a jrnl_world_scheme option" where
  "journal_replay_run event fuel snapshot_seq w1 =
     (let w2 = snd (jrnl_flush_pending_rx (uart_puts (''jrnl: flush pending'' @ crlf) w1));
          rel_next = j_next_lba (g_journal w2) - j_start_lba (g_journal w2)
      in
      if rel_next \<ge> j_blocks (g_journal w2)
      then Some (kernel_panic ''journal next rel out of range'' ''journal.c'' 429 w2)
      else case sd_read1 (j_next_lba (g_journal w2)) w2 of ((rc, bo), w3) \<Rightarrow>
        let start_rel = (case bo of None \<Rightarrow> 0
                         | Some b \<Rightarrow> if jrnl_block_validate b \<noteq> None then rel_next else 0);
            w4 = uart_puts ('' blks'' @ crlf) (uart_put_u32 (j_blocks (g_journal w3))
                   (uart_puts ''jrnl: replay '' (upd_j (\<lambda>j. j\<lparr>j_replaying := True\<rparr>) w3)))
        in map_option (\<lambda>w5. upd_j (\<lambda>j. j\<lparr>j_replaying := False\<rparr>)
                          (uart_puts (''jrnl: replay done'' @ crlf) w5))
             (journal_replay_loop event snapshot_seq fuel start_rel 0 None w4))"

definition journal_replay_from_snapshot ::
  "(journal_hdr \<Rightarrow> u8 list \<Rightarrow> 'a jrnl_world_scheme \<Rightarrow> 'a jrnl_world_scheme option) \<Rightarrow> nat \<Rightarrow>
   u32 \<Rightarrow> u32 \<Rightarrow> u32 \<Rightarrow> 'a jrnl_world_scheme \<Rightarrow> 'a jrnl_world_scheme option" where
  "journal_replay_from_snapshot event fuel snapshot_seq start_lba blocks w =
     (if start_lba = 0 \<or> blocks = 0 then Some w
      else
        let w1 = journal_configure start_lba blocks snapshot_seq (uart_puts (''jrnl: configure'' @ crlf) w) in
        if \<not> j_configured (g_journal w1) \<or> \<not> j_scan_ready (g_journal w1)
        then Some (uart_puts (''jrnl: not ready'' @ crlf) w1)
        else journal_replay_run event fuel snapshot_seq w1)"

section \<open>Records\<close>

definition jrnl_header :: "u32 \<Rightarrow> u32 \<Rightarrow> u32 \<Rightarrow> u8 list \<Rightarrow> journal_hdr" where
  "jrnl_header seq base event_type payload =
     (let hw = [JRNL_MAGIC, seq, base, event_type, of_nat (length payload), jrnl_checksum_bytes payload]
      in words_jhdr (hw @ [jrnl_checksum_words hw]))"

lemma jrnl_header_sel [simp]:
  "jh_rec_seq (jrnl_header seq base ty p) = seq" "jh_snap_seq_base (jrnl_header seq base ty p) = base"
  "jh_event_type (jrnl_header seq base ty p) = ty"
  "jh_payload_len (jrnl_header seq base ty p) = of_nat (length p)"
  by (simp_all add: jrnl_header_def words_jhdr_def Let_def)

lemma length_jrnl_record: "length payload \<le> 468 \<Longrightarrow> length (jrnl_record seq base ty payload) = 512"
  by (simp add: jrnl_record_def Let_def)

lemma bytes_words_two: "bytes_words (u32_bytes a @ u32_bytes b @ bs) = a # b # bytes_words bs"
  by simp

lemma journal_record_roundtrip_aux:
  assumes "length payload \<le> 468"
  shows "jrnl_block_validate (jrnl_record seq base event_type payload) =
    Some (jrnl_header seq base event_type payload, payload)"
proof -
  let ?hw = "[JRNL_MAGIC, seq, base, event_type, of_nat (length payload), jrnl_checksum_bytes payload]"
  let ?tw = "[JEND_MAGIC, seq, jrnl_checksum_bytes payload]"
  let ?H = "?hw @ [jrnl_checksum_words ?hw]" and ?T = "?tw @ [jrnl_checksum_words ?tw]"
  define z where "z = replicate (512 - length (words_bytes ?H @ payload @ words_bytes ?T)) (0 :: u8)"
  have rec: "jrnl_record seq base event_type payload = words_bytes ?H @ payload @ words_bytes ?T @ z"
    by (simp add: jrnl_record_def Let_def z_def)
  have n: "unat (of_nat (length payload) :: u32) = length payload"
    using assms by (simp add: unat_of_nat)
  have hw: "bytes_words (jrnl_record seq base event_type payload)
      = ?H @ bytes_words (payload @ words_bytes ?T @ z)"
    unfolding rec by (rule bytes_words_append)
  have d: "drop 28 (jrnl_record seq base event_type payload) = payload @ words_bytes ?T @ z"
    unfolding rec by (simp del: words_bytes_simps)
  have t: "drop (28 + length payload) (jrnl_record seq base event_type payload) = words_bytes ?T @ z"
    unfolding rec by (simp del: words_bytes_simps)
  have tw: "bytes_words (words_bytes ?T @ z) = ?T @ bytes_words z" by (rule bytes_words_append)
  have lim: "\<not> (of_nat (length payload) :: u32) > 468" using assms n by (simp add: word_less_nat_alt)
  show ?thesis
    unfolding jrnl_block_validate_def Let_def hw using assms lim
    by (simp add: words_jhdr_def n d t tw jrnl_header_def Let_def)
qed

text \<open>\<open>jrnl_block_validate\<close> accepts every block \<open>jrnl_append_record\<close> builds and hands
  back its header and payload.\<close>

theorem journal_record_roundtrip:
  assumes "length payload \<le> 468"
  shows "jrnl_block_validate (jrnl_record seq base event_type payload) =
    Some (jrnl_header seq base event_type payload, payload)"
  by (rule journal_record_roundtrip_aux [OF assms])

theorem journal_record_roundtrip_witness:
  "jrnl_block_validate (jrnl_record 7 3 1 [0x6C, 0x73, 0x0D]) =
    Some (jrnl_header 7 3 1 [0x6C, 0x73, 0x0D], [0x6C, 0x73, 0x0D])"
  by (rule journal_record_roundtrip) simp

section \<open>The ring on the card\<close>

text \<open>
  The number (from 1) of the record that block \<open>i\<close> of a ring of \<open>B\<close> blocks holds
  after \<open>N\<close> records were appended, and the ring after \<open>N\<close> records.
\<close>

definition rec_no :: "nat \<Rightarrow> nat \<Rightarrow> nat \<Rightarrow> nat" where
  "rec_no N B i = i + 1 + B * ((N - 1 - i) div B)"

definition jrnl_probe :: "(u32 \<Rightarrow> block) \<Rightarrow> u32 \<Rightarrow> u32 \<Rightarrow> u32 option" where
  "jrnl_probe c start i = map_option (\<lambda>(h, p). jh_rec_seq h) (jrnl_block_validate (c (start + i)))"

definition jrnl_ring :: "(u32 \<Rightarrow> block) \<Rightarrow> u32 \<Rightarrow> nat \<Rightarrow> nat \<Rightarrow> bool" where
  "jrnl_ring c start B N \<longleftrightarrow>
     (\<forall>i<B. jrnl_probe c start (of_nat i) = (if i < N then Some (of_nat (rec_no N B i)) else None))"

lemma rec_no_bounds:
  assumes "i < N" "0 < B" shows "rec_no N B i \<le> N" "N < rec_no N B i + B"
proof -
  have "B * ((N - 1 - i) div B) + (N - 1 - i) mod B = N - 1 - i" by simp
  moreover have "(N - 1 - i) mod B < B" using assms(2) by simp
  ultimately show "rec_no N B i \<le> N" "N < rec_no N B i + B"
    unfolding rec_no_def using assms(1) by linarith+
qed

lemma rec_no_Suc:
  assumes "i < B"
  shows "i = N mod B \<Longrightarrow> rec_no (Suc N) B i = Suc N"
    and "i \<noteq> N mod B \<Longrightarrow> i < N \<Longrightarrow> rec_no (Suc N) B i = rec_no N B i"
proof -
  assume i: "i = N mod B"
  then have "N - i = B * (N div B)" by (simp add: minus_mod_eq_mult_div)
  moreover have "i \<le> N" using i by simp
  ultimately show "rec_no (Suc N) B i = Suc N" using assms by (simp add: rec_no_def)
next
  assume i: "i \<noteq> N mod B" "i < N"
  have "\<not> B dvd N - i"
  proof
    assume "B dvd N - i"
    then have "N mod B = i mod B" using i(2) by (metis less_imp_le_nat mod_eq_dvd_iff_nat)
    with i(1) assms show False by simp
  qed
  then have "(N - i) div B = (N - 1 - i) div B"
    using i(2) by (metis Suc_diff_Suc Suc_pred div_Suc diff_Suc_1 dvd_eq_mod_eq_0 zero_less_diff diff_commute diff_Suc_eq_diff_pred)
  then show "rec_no (Suc N) B i = rec_no N B i" by (simp add: rec_no_def)
qed

lemma rec_no_last: "0 < N \<Longrightarrow> 0 < B \<Longrightarrow> rec_no N B ((N - 1) mod B) = N"
  using rec_no_Suc(1) [of "(N - 1) mod B" B "N - 1"] by simp

lemma rec_no_mod: "i < B \<Longrightarrow> (rec_no N B i - 1) mod B = i"
  by (simp add: rec_no_def)

text \<open>Sequence numbers less than 2 ^ 31 apart compare like the record numbers.\<close>

lemma seq_newer_nat:
  assumes "a < b + 2147483648" "b < a + 2147483648"
  shows "jrnl_seq_newer (of_nat a) (of_nat b) \<longleftrightarrow> b < a"
proof -
  have "(of_nat a :: u32) - of_nat b = of_int (int a - int b)" by simp
  moreover have "sint (of_int (int a - int b) :: u32) = signed_take_bit 31 (int a - int b)"
    by (simp only: signed_of_int) simp
  moreover have "signed_take_bit 31 (int a - int b) = int a - int b"
    using assms by (intro signed_take_bit_int_eq_self) simp_all
  ultimately show ?thesis by (simp add: jrnl_seq_newer_def)
qed

lemma upd_j_sd [simp]:
  "sd_ok (upd_j f w) = sd_ok w" "sd_card (upd_j f w) = sd_card w" "sd_detected (upd_j f w) = sd_detected w"
  "g_sd_ctx (upd_j f w) = g_sd_ctx w" "w_panic (upd_j f w) = w_panic w"
  "g_journal (upd_j f w) = f (g_journal w)"
  by (simp_all add: upd_j_def sd_ok_def)

lemma uart_frame [simp]:
  "g_journal (uart_puts s w) = g_journal w" "sd_detected (uart_puts s w) = sd_detected w"
  "g_sd_ctx (uart_puts s w) = g_sd_ctx w" "w_panic (uart_puts s w) = w_panic w"
  by (simp_all add: uart_puts_def)

lemma uart_put_u32_puts: "\<exists>s. uart_put_u32 v w = uart_puts s w"
proof -
  have "\<exists>s. foldl (\<lambda>w i. uart_puts [b ! i] w) w xs = uart_puts s w" for b :: string and xs
  proof (induction xs arbitrary: w)
    case Nil
    have "w = uart_puts [] w" by (simp add: uart_puts_def)
    then show ?case by auto
  next
    case (Cons x xs)
    then obtain s where "foldl (\<lambda>w i. uart_puts [b ! i] w) (uart_puts [b ! x] w) xs = uart_puts s (uart_puts [b ! x] w)"
      by blast
    then show ?case by (auto simp: uart_puts_def)
  qed
  then show ?thesis by (auto simp: uart_put_u32_def Let_def)
qed

lemma uart_put_u32_frame [simp]:
  "g_journal (uart_put_u32 v w) = g_journal w" "sd_detected (uart_put_u32 v w) = sd_detected w"
  "g_sd_ctx (uart_put_u32 v w) = g_sd_ctx w" "w_panic (uart_put_u32 v w) = w_panic w"
  "sd_ok (uart_put_u32 v w) = sd_ok w" "sd_card (uart_put_u32 v w) = sd_card w"
proof -
  obtain s where "uart_put_u32 v w = uart_puts s w" using uart_put_u32_puts by blast
  then show "g_journal (uart_put_u32 v w) = g_journal w" "sd_detected (uart_put_u32 v w) = sd_detected w"
    "g_sd_ctx (uart_put_u32 v w) = g_sd_ctx w" "w_panic (uart_put_u32 v w) = w_panic w"
    "sd_ok (uart_put_u32 v w) = sd_ok w" "sd_card (uart_put_u32 v w) = sd_card w" by simp_all
qed

lemma jrnl_media_ready_ok: "sd_ok w \<Longrightarrow> sd_detected w \<Longrightarrow> jrnl_media_ready w = (SD_OK, w)"
  by (simp add: jrnl_media_ready_def sd_ok_def)

section \<open>Recovering the write position\<close>

lemma jrnl_scan_loop_ok:
  "sd_ok w \<Longrightarrow> jrnl_scan_loop is best w =
     (best_scan jrnl_seq_newer (jrnl_probe (sd_card w) (j_start_lba (g_journal w))) is best,
      if is = [] then w else w\<lparr>g_sd_last_error := SD_OK\<rparr>)"
  by (induction "is" arbitrary: best w)
     (auto simp: sd_simps jrnl_probe_def split: option.splits)

lemma ring_scan:
  assumes ring: "jrnl_ring c start B N" and B: "0 < B" "B \<le> 4096" and N: "0 < N"
  shows "best_scan jrnl_seq_newer (jrnl_probe c start) (map of_nat [0..<B]) None =
    Some (of_nat N, of_nat ((N - 1) mod B))" (is "?scan = _")
proof -
  let ?is = "map of_nat [0..<B] :: u32 list" and ?rank = "\<lambda>i :: u32. rec_no N B (unat i)"
  have idx: "unat (of_nat i :: u32) = i" if "i < B" for i using that B(2) by (simp add: unat_of_nat)
  have pr: "jrnl_probe c start (of_nat i) = (if i < N then Some (of_nat (rec_no N B i)) else None)" if "i < B" for i
    using ring that by (simp add: jrnl_ring_def)
  have cmp: "jrnl_seq_newer (of_nat (rec_no N B i)) (of_nat (rec_no N B j)) \<longleftrightarrow> rec_no N B j < rec_no N B i"
    if "i < N" "j < N" for i j
    using rec_no_bounds [OF that(1) B(1)] rec_no_bounds [OF that(2) B(1)] B(2)
    by (intro seq_newer_nat) linarith+
  have new: "newest ?rank (jrnl_probe c start) (set ?is) ?scan"
    by (rule best_scan_newest) (auto simp: pr idx cmp split: if_splits)
  let ?l = "(N - 1) mod B"
  have l: "?l < B" "?l < N" using B(1) N by (simp_all add: le_less_trans [OF mod_less_eq_dividend])
  have "jrnl_probe c start (of_nat ?l) \<noteq> None" using pr [OF l(1)] l(2) by simp
  moreover have lin: "of_nat ?l \<in> set ?is" using l(1) by simp
  ultimately have "?scan \<noteq> None" by (intro newest_not_None [OF new])
  then obtain s ii where sii: "?scan = Some (s, ii)" by auto
  with new have ii: "ii \<in> set ?is" "jrnl_probe c start ii = Some s"
    "\<forall>j\<in>set ?is. jrnl_probe c start j \<noteq> None \<longrightarrow> ?rank j \<le> ?rank ii"
    by (simp_all add: newest_def)
  from ii(1) obtain i where i0: "ii = of_nat i" "i < B" by auto
  have si: "?scan = Some (s, of_nat i)" "i < B" "jrnl_probe c start (of_nat i) = Some s"
    "rec_no N B ?l \<le> rec_no N B i"
    using sii ii(2) i0 bspec [OF ii(3) lin] \<open>jrnl_probe c start (of_nat ?l) \<noteq> None\<close> idx [OF l(1)] idx [OF i0(2)]
    by simp_all
  have i: "i < N" "s = of_nat (rec_no N B i)" using pr [OF si(2)] si(3) by (auto split: if_splits)
  have "rec_no N B i = N"
    using rec_no_last [OF N B(1)] si(4) rec_no_bounds(1) [OF i(1) B(1)] by simp
  moreover from this have "i = ?l" using rec_no_mod [OF si(2), of N] by simp
  ultimately show ?thesis using si(1) i(2) by simp
qed

lemma ring_scan_empty:
  assumes "jrnl_ring c start B 0" "B \<le> 4096"
  shows "best_scan jrnl_seq_newer (jrnl_probe c start) (map of_nat [0..<B]) None = None"
proof -
  have none: "best_scan nw pr is None = None" if "\<forall>i\<in>set is. pr i = None" for nw pr and "is" :: "u32 list"
    using that by (induction "is") simp_all
  show ?thesis by (rule none) (use assms(1) in \<open>auto simp: jrnl_ring_def\<close>)
qed

text \<open>A journal at work: \<open>N\<close> records appended since it was created.\<close>

definition jrnl_at :: "u32 \<Rightarrow> nat \<Rightarrow> nat \<Rightarrow> 'a jrnl_world_scheme \<Rightarrow> bool" where
  "jrnl_at start B N w \<longleftrightarrow>
     (let j = g_journal w in
      j_configured j \<and> \<not> j_replaying j \<and> j_start_lba j = start \<and> unat (j_blocks j) = B \<and>
      0 < B \<and> B \<le> 4096 \<and> unat start + B < 4294967296 \<and> jrnl_ring (sd_card w) start B N)"

definition jrnl_pos :: "u32 \<Rightarrow> nat \<Rightarrow> nat \<Rightarrow> 'a jrnl_world_scheme \<Rightarrow> bool" where
  "jrnl_pos start B N w \<longleftrightarrow>
     (let j = g_journal w in
      j_scan_ready j \<and> j_next_seq j = of_nat (Suc N) \<and> j_next_lba j = start + of_nat (N mod B))"

lemma next_idx:
  assumes "unat (b :: u32) = B" "0 < B" "0 < N"
  shows "(of_nat ((N - 1) mod B) + 1) mod b = of_nat (N mod B)"
proof -
  have "B < 4294967296" using assms(1) by auto
  moreover have "(N - 1) mod B < B" using assms(2) by simp
  ultimately have "Suc ((N - 1) mod B) < 4294967296" by linarith
  then have "unat (of_nat ((N - 1) mod B) + 1 :: u32) = Suc ((N - 1) mod B)"
    by (simp add: unat_word_ariths unat_of_nat)
  then have "unat ((of_nat ((N - 1) mod B) + 1) mod b) = N mod B"
    using assms by (simp add: unat_mod mod_Suc_eq)
  then show ?thesis by (metis of_nat_unat ucast_id)
qed

lemma jrnl_scan_tail_pos:
  assumes "jrnl_at start B N w" "sd_ok w" "sd_detected w"
  shows "jrnl_at start B N (jrnl_scan_tail w) \<and> jrnl_pos start B N (jrnl_scan_tail w) \<and>
    sd_ok (jrnl_scan_tail w) \<and> sd_detected (jrnl_scan_tail w) \<and> sd_card (jrnl_scan_tail w) = sd_card w \<and>
    g_sd_ctx (jrnl_scan_tail w) = g_sd_ctx w \<and> w_panic (jrnl_scan_tail w) = w_panic w"
proof -
  have at: "j_configured (g_journal w)" "j_start_lba (g_journal w) = start" "unat (j_blocks (g_journal w)) = B"
    "0 < B" "B \<le> 4096" "jrnl_ring (sd_card w) start B N" "j_blocks (g_journal w) \<noteq> 0"
    using assms(1) by (auto simp: jrnl_at_def Let_def)
  note nxt = next_idx [OF at(3,4)]
  show ?thesis
  proof (cases "N = 0")
    case True
    with assms at ring_scan_empty [of "sd_card w" start B] show ?thesis
      by (simp add: jrnl_scan_tail_def Let_def jrnl_media_ready_ok jrnl_scan_loop_ok jrnl_at_def jrnl_pos_def)
  next
    case False
    with assms at ring_scan [OF at(6,4,5)] nxt show ?thesis
      by (simp add: jrnl_scan_tail_def Let_def jrnl_media_ready_ok jrnl_scan_loop_ok jrnl_at_def jrnl_pos_def)
  qed
qed

lemma jrnl_ring_append:
  assumes ring: "jrnl_ring c start B N" and B: "0 < B" "B \<le> 4096" "unat start + B < 4294967296"
    and p: "length payload \<le> 468"
  shows "jrnl_ring (c(start + of_nat (N mod B) := jrnl_record (of_nat (Suc N)) base ty payload)) start B (Suc N)"
  unfolding jrnl_ring_def
proof (intro allI impI)
  fix i assume i: "i < B"
  have inj: "start + of_nat i = start + of_nat k \<longleftrightarrow> i = k" if "k < B" for k
    unfolding add_left_cancel unfolding word_unat_eq_iff using i that B(2) by (simp add: unat_of_nat)
  have k: "N mod B < B" using B(1) by simp
  show "jrnl_probe (c(start + of_nat (N mod B) := jrnl_record (of_nat (Suc N)) base ty payload)) start (of_nat i)
      = (if i < Suc N then Some (of_nat (rec_no (Suc N) B i)) else None)"
  proof (cases "i = N mod B")
    case True
    then have "i < Suc N" by (simp add: le_imp_less_Suc)
    with True rec_no_Suc(1) [OF i True] p show ?thesis
      by (simp add: jrnl_probe_def journal_record_roundtrip_aux)
  next
    case False
    with inj [OF k] have "jrnl_probe (c(start + of_nat (N mod B) := jrnl_record (of_nat (Suc N)) base ty payload)) start (of_nat i)
      = jrnl_probe c start (of_nat i)" by (simp add: jrnl_probe_def)
    moreover have "i \<noteq> N" using False i by auto
    ultimately show ?thesis using ring i rec_no_Suc(2) [OF i False] by (auto simp: jrnl_ring_def less_Suc_eq)
  qed
qed

lemma next_lba_step:
  assumes "unat (b :: u32) = B" "0 < B" "unat start + B < 4294967296"
  shows "(if start + of_nat (N mod B) \<ge> start + b - 1 then start else start + of_nat (N mod B) + 1)
    = start + (of_nat (Suc N mod B) :: u32)"
proof -
  have k: "N mod B < B" using assms(2) by simp
  have u: "unat (start + of_nat (N mod B)) = unat start + N mod B"
    using k assms(3) by (subst unat_add_small) (simp_all add: unat_of_nat)
  obtain m where m: "B = Suc m" using assms(2) by (cases B) auto
  have "b = of_nat (Suc m)" using assms(1) m by (metis of_nat_unat ucast_id)
  then have b: "start + b - 1 = start + of_nat m" by simp
  have ub: "unat (start + of_nat m :: u32) = unat start + m"
    using assms(3) m by (subst unat_add_small) (simp_all add: unat_of_nat)
  show ?thesis
    unfolding b word_le_nat_alt u ub using k m
  proof (cases "N mod B = m")
    case False
    then have "N mod B < m" using k m by linarith
    moreover from False have "Suc N mod B = Suc (N mod B)" using m by (simp add: mod_Suc)
    ultimately show "(if unat start + m \<le> unat start + N mod B then start
        else start + word_of_nat (N mod B) + 1) = start + word_of_nat (Suc N mod B)" by simp
  qed (simp add: mod_Suc)
qed

lemma jrnl_append_pos:
  assumes at: "jrnl_at start B N w" and pos: "jrnl_pos start B N w" and sd: "sd_ok w" "sd_detected w"
    and idle: "ctx_operation (g_sd_ctx w) = SD_OP_NONE" "ctx_status (g_sd_ctx w) \<noteq> DRV_IN_PROGRESS"
    and p: "length payload \<le> 468"
  shows "fst (jrnl_append_record ty payload w) = SD_OK \<and>
    jrnl_at start B (Suc N) (snd (jrnl_append_record ty payload w)) \<and>
    jrnl_pos start B (Suc N) (snd (jrnl_append_record ty payload w)) \<and>
    sd_ok (snd (jrnl_append_record ty payload w)) \<and> sd_detected (snd (jrnl_append_record ty payload w)) \<and>
    g_sd_ctx (snd (jrnl_append_record ty payload w)) = g_sd_ctx w \<and>
    w_panic (snd (jrnl_append_record ty payload w)) = w_panic w"
proof -
  have a: "j_configured (g_journal w)" "j_start_lba (g_journal w) = start" "unat (j_blocks (g_journal w)) = B"
    "0 < B" "B \<le> 4096" "jrnl_ring (sd_card w) start B N" "j_blocks (g_journal w) \<noteq> 0"
    "\<not> j_replaying (g_journal w)" "unat start + B < 4294967296"
    using at by (auto simp: jrnl_at_def Let_def)
  have q: "j_scan_ready (g_journal w)" "j_next_seq (g_journal w) = of_nat (Suc N)"
    "j_next_lba (g_journal w) = start + of_nat (N mod B)"
    using pos by (simp_all add: jrnl_pos_def Let_def)
  let ?r = "jrnl_record (of_nat (Suc N)) (j_last_snapshot_seq (g_journal w)) ty payload"
  let ?j = "\<lambda>j. j\<lparr>j_next_lba := (if j_next_lba j \<ge> j_start_lba j + j_blocks j - 1
                                     then j_start_lba j else j_next_lba j + 1),
                   j_next_seq := j_next_seq j + 1, j_last_err := SD_OK\<rparr>"
  have run: "jrnl_append_record ty payload w = (SD_OK, upd_j ?j
      (w\<lparr>sd_card := (sd_card w)(start + of_nat (N mod B) := ?r), g_sd_last_error := SD_OK\<rparr>))"
    using a q sd idle p by (simp add: jrnl_append_record_def Let_def jrnl_media_ready_ok sd_simps)
  show ?thesis
    unfolding run using a q sd next_lba_step [OF a(3,4,9), of N]
      jrnl_ring_append [OF a(6,4,5,9) p, of "j_last_snapshot_seq (g_journal w)" ty]
    by (simp add: jrnl_at_def jrnl_pos_def Let_def split: if_splits)
qed

text \<open>Any number of appends.\<close>

definition append_all :: "(u32 \<times> u8 list) list \<Rightarrow> 'a jrnl_world_scheme \<Rightarrow> 'a jrnl_world_scheme" where
  "append_all rs w = fold (\<lambda>(ty, p) w. snd (jrnl_append_record ty p w)) rs w"

lemma append_all_pos:
  assumes "jrnl_at start B N w" "jrnl_pos start B N w" "sd_ok w" "sd_detected w"
    "ctx_operation (g_sd_ctx w) = SD_OP_NONE" "ctx_status (g_sd_ctx w) \<noteq> DRV_IN_PROGRESS"
    "list_all (\<lambda>(ty, p). length p \<le> 468) rs"
  shows "jrnl_at start B (N + length rs) (append_all rs w) \<and> jrnl_pos start B (N + length rs) (append_all rs w) \<and>
    sd_ok (append_all rs w) \<and> sd_detected (append_all rs w) \<and> w_panic (append_all rs w) = w_panic w"
  using assms
proof (induction rs arbitrary: N w)
  case (Cons r rs)
  obtain ty p where r: "r = (ty, p)" by fastforce
  have "length p \<le> 468" using Cons.prems(7) r by simp
  note step = jrnl_append_pos [OF Cons.prems(1-6) this, of ty]
  from Cons.IH [of "Suc N" "snd (jrnl_append_record ty p w)"] step Cons.prems(5-7) r show ?case
    by (simp add: append_all_def)
qed (simp add: append_all_def)

text \<open>C8: a restart finds the write position again.  Whatever records were appended to
  a fresh journal, any number of times around the ring and even across the
  wrap of the 32-bit sequence number, \<open>journal_configure\<close> on the resulting card
  scans the ring and continues with the sequence number and the block that
  come next, without a panic.\<close>

theorem journal_restart_resumes:
  assumes "jrnl_ring (sd_card w) start (unat blocks) 0" "start \<noteq> 0" "blocks \<noteq> 0" "blocks \<le> 4096"
    and "unat start + unat blocks < 4294967296" "sd_ok w" "sd_detected w" "w_panic w = None"
    and "ctx_operation (g_sd_ctx w) = SD_OP_NONE" "ctx_status (g_sd_ctx w) \<noteq> DRV_IN_PROGRESS"
    and "list_all (\<lambda>(ty, p). length p \<le> 468) rs" "snap \<noteq> 0"
  defines "w1 \<equiv> append_all rs (journal_configure start blocks 0 w)"
  shows "j_next_seq (g_journal (journal_configure start blocks snap w1)) = j_next_seq (g_journal w1) \<and>
    j_next_lba (g_journal (journal_configure start blocks snap w1)) = j_next_lba (g_journal w1) \<and>
    j_next_seq (g_journal w1) = of_nat (length rs + 1) \<and>
    w_panic (journal_configure start blocks snap w1) = None"
proof -
  let ?w0 = "journal_configure start blocks 0 w" and ?B = "unat blocks"
  have B: "0 < ?B" "?B \<le> 4096" "\<not> 4096 < blocks"
    using assms(3,4) by (simp_all add: unat_gt_0 word_le_nat_alt not_less)
  have w0: "jrnl_at start ?B 0 ?w0" "jrnl_pos start ?B 0 ?w0" "sd_ok ?w0" "sd_detected ?w0"
    "g_sd_ctx ?w0 = g_sd_ctx w" "w_panic ?w0 = None"
    using assms B by (simp_all add: journal_configure_def Let_def jrnl_at_def jrnl_pos_def)
  have w1: "jrnl_at start ?B (length rs) w1" "jrnl_pos start ?B (length rs) w1" "sd_ok w1" "sd_detected w1"
    "w_panic w1 = None"
    using append_all_pos [OF w0(1-4), of rs] assms(9-11) w0(5,6) by (simp_all add: w1_def)
  define f :: "journal_ctx \<Rightarrow> journal_ctx" where "f = (\<lambda>j. j\<lparr>j_scan_ready := False, j_replaying := False,
            j_pending_len := 0, j_suppress_rx_bytes := 0, j_last_snapshot_seq := snap,
            j_start_lba := start, j_next_lba := start, j_next_seq := 1, j_last_err := SD_OK,
            j_dropped := 0, j_blocks := blocks, j_configured := True\<rparr>)"
  have cfg: "journal_configure start blocks snap w1 = jrnl_scan_tail (upd_j f w1)"
    using assms(2,3,12) B(3) by (simp add: journal_configure_def Let_def upd_j_def f_def)
  have "jrnl_at start ?B (length rs) (upd_j f w1)"
    using w1(1) B by (simp add: jrnl_at_def Let_def f_def)
  from jrnl_scan_tail_pos [OF this] w1 show ?thesis
    unfolding cfg by (simp add: jrnl_pos_def Let_def)
qed

definition jrnl_zero :: journal_ctx where
  "jrnl_zero = \<lparr> j_configured = False, j_scan_ready = False, j_replaying = False, j_pending_len = 0,
     j_start_lba = 0, j_blocks = 0, j_next_lba = 0, j_next_seq = 0, j_last_snapshot_seq = 0,
     j_suppress_rx_bytes = 0, j_last_err = 0, j_dropped = 0, j_pending_rx = replicate 64 0 \<rparr>"

definition jrnl_power_on :: "(u32 \<Rightarrow> block) \<Rightarrow> (nat \<Rightarrow> sd_outcome) \<Rightarrow> u32 \<Rightarrow> jrnl_world" where
  "jrnl_power_on blocks env cap = disk_world.extend (disk_power_on blocks env cap) (jrnl_world.fields jrnl_zero)"

lemma jrnl_power_on_sel [simp]:
  "sd_ok (jrnl_power_on c (\<lambda>_. IoOk) cap)" "sd_detected (jrnl_power_on c e cap)"
  "sd_card (jrnl_power_on c e cap) = c" "w_panic (jrnl_power_on c e cap) = None"
  "ctx_operation (g_sd_ctx (jrnl_power_on c e cap)) = SD_OP_NONE"
  "ctx_status (g_sd_ctx (jrnl_power_on c e cap)) = DRV_IDLE"
  by (simp_all add: jrnl_power_on_def disk_power_on_def disk_world.defs jrnl_world.defs sd_ok_def)

lemma blank_ring: "jrnl_ring blank_card start B 0"
proof -
  have "bytes_words (replicate 512 0) ! 0 = 0" by (simp add: zero_block_words)
  then show ?thesis
    by (simp add: jrnl_ring_def jrnl_probe_def jrnl_block_validate_def blank_card_def words_jhdr_def)
qed

theorem journal_restart_resumes_witness:
  "j_next_seq (g_journal (journal_configure 3 2 9 (append_all [(1, [0x61, 0x0D]), (2, [4, 1]), (1, [0x62])]
      (journal_configure 3 2 0 (jrnl_power_on blank_card (\<lambda>_. IoOk) 4096))))) =
    j_next_seq (g_journal (append_all [(1, [0x61, 0x0D]), (2, [4, 1]), (1, [0x62])]
      (journal_configure 3 2 0 (jrnl_power_on blank_card (\<lambda>_. IoOk) 4096)))) \<and>
   j_next_lba (g_journal (journal_configure 3 2 9 (append_all [(1, [0x61, 0x0D]), (2, [4, 1]), (1, [0x62])]
      (journal_configure 3 2 0 (jrnl_power_on blank_card (\<lambda>_. IoOk) 4096))))) =
    j_next_lba (g_journal (append_all [(1, [0x61, 0x0D]), (2, [4, 1]), (1, [0x62])]
      (journal_configure 3 2 0 (jrnl_power_on blank_card (\<lambda>_. IoOk) 4096)))) \<and>
   j_next_seq (g_journal (append_all [(1, [0x61, 0x0D]), (2, [4, 1]), (1, [0x62])]
      (journal_configure 3 2 0 (jrnl_power_on blank_card (\<lambda>_. IoOk) 4096)))) =
    of_nat (length [(1 :: u32, [0x61, 0x0D] :: u8 list), (2, [4, 1]), (1, [0x62])] + 1) \<and>
   w_panic (journal_configure 3 2 9 (append_all [(1, [0x61, 0x0D]), (2, [4, 1]), (1, [0x62])]
      (journal_configure 3 2 0 (jrnl_power_on blank_card (\<lambda>_. IoOk) 4096)))) = None"
  by (rule journal_restart_resumes) (simp_all add: blank_ring)


section \<open>The replay ends\<close>

lemma sd_read1_journal: "g_journal (snd (sd_read1 l w)) = g_journal w"
  by (simp add: sd_read1_def sd_read_blocks_def sd_read_block_def sd_next_def split: sd_outcome.split)

text \<open>When the events keep the size of the journal, each turn moves on by one block, and
  at most one turn goes back to the first: fuel for twice the blocks and one
  turn is enough.\<close>

lemma replay_loop_returns:
  assumes "\<And>h p w. \<exists>w'. event h p w = Some w' \<and> j_blocks (g_journal w') = j_blocks (g_journal w)"
    and "j_blocks (g_journal w) = n" "i \<le> n"
    and "unat (n - i) + (if i = 0 \<and> start_rel \<noteq> 0 then unat n + 1 else 0) < fuel"
  shows "\<exists>w'. journal_replay_loop event snapshot_seq fuel start_rel i prev w = Some w'"
  using assms(2-4)
proof (induction fuel arbitrary: start_rel i prev w)
  case (Suc fuel)
  show ?case
  proof (cases "i < n")
    case True
    have i: "unat (i + 1) = Suc (unat i)" using True by (simp add: unat_Suc_lt)
    then have "i + 1 \<noteq> 0" by (metis nat.distinct(1) unat_0)
    with True i have n: "unat (n - i) = Suc (unat (n - (i + 1)))" "i + 1 \<noteq> 0" "i + 1 \<le> n"
      by (simp_all add: unat_sub_if' word_less_nat_alt word_le_nat_alt)
    obtain rc bo w1 where r: "sd_read1 (j_start_lba (g_journal w) + (start_rel + i) mod n) w = ((rc, bo), w1)"
      by (metis prod.exhaust)
    have w1: "j_blocks (g_journal w1) = n"
      using sd_read1_journal [of "j_start_lba (g_journal w) + (start_rel + i) mod n" w] r Suc.prems(1) by simp
    have step: "\<exists>w'. journal_replay_loop event snapshot_seq fuel start_rel (i + 1) p v = Some w'"
      if "j_blocks (g_journal v) = n" for p v
      by (rule Suc.IH [OF that n(3)]) (use Suc.prems(3) n in \<open>simp split: if_splits\<close>)
    have again: "\<exists>w'. journal_replay_loop event snapshot_seq fuel 0 0 None w1 = Some w'" if "i = 0" "start_rel \<noteq> 0"
      by (rule Suc.IH [OF w1]) (use Suc.prems(3) that in simp_all)
    have ev: "\<exists>w'. event h p w1 = Some w' \<and> j_blocks (g_journal w') = n" for h p
      using assms(1) [of h p w1] w1 by auto
    show ?thesis
    proof (cases "bo")
      case (Some b)
      show ?thesis
      proof (cases "jrnl_block_validate b")
        case (Some hp)
        obtain h p where hp: "hp = (h, p)" by fastforce
        obtain w2 where "event h p w1 = Some w2" "j_blocks (g_journal w2) = n" using ev by blast
        with Some hp \<open>bo = Some b\<close> show ?thesis
          using True Suc.prems(1) r step w1 by (simp add: Let_def not_le [symmetric])
      qed (use Some True Suc.prems(1) r again in \<open>simp add: Let_def not_le [symmetric]\<close>)
    qed (use True Suc.prems(1) r in \<open>simp add: Let_def not_le [symmetric]\<close>)
  qed (use Suc.prems(1,2) in simp)
qed simp

end
