(* ===== verification/Rwfs.thy ===== *)
theory Rwfs
  imports Journal
begin

text \<open>
  The file system of \<open>rwfs.c\<close>: a mirrored superblock, an index of four blocks and
  an append-only data area in the RWFS partition.  Index entries are 60 bytes
  (a name of 32 characters and seven words), eight to a block, and the array
  in RAM has 34 of them (2048 / 60).  A file name argument is a C string; the
  names inside entries are arrays of 32 characters.
\<close>

record rwfs_super =
  rs_magic :: u32
  rs_version :: u32
  rs_generation :: u32
  rs_region_start_lba :: u32
  rs_region_blocks :: u32
  rs_index_start_lba :: u32
  rs_index_blocks :: u32
  rs_data_start_lba :: u32
  rs_data_blocks :: u32
  rs_entry_count :: u32
  rs_next_data_lba :: u32
  rs_checksum :: u32
  rs_reserved :: "u32 list"

record rwfs_entry =
  re_name :: string
  re_state :: u32
  re_data_lba :: u32
  re_data_len :: u32
  re_generation :: u32
  re_content_crc :: u32
  re_record_blocks :: u32
  re_entry_crc :: u32

record rwfs_ctx =
  fs_mounted :: bool
  fs_formatted :: bool
  fs_last_err :: int
  fs_super :: rwfs_super
  fs_entries :: "rwfs_entry list"

record fs_world = jrnl_world +
  g_rwfs :: rwfs_ctx

abbreviation (input) RWFS_MAGIC :: u32 where "RWFS_MAGIC \<equiv> 0x53465752"
abbreviation (input) RWFS_VERSION :: u32 where "RWFS_VERSION \<equiv> 1"
abbreviation (input) RWFS_INDEX_OFF :: u32 where "RWFS_INDEX_OFF \<equiv> 2"
abbreviation (input) RWFS_INDEX_BLOCKS :: u32 where "RWFS_INDEX_BLOCKS \<equiv> 4"
abbreviation (input) RWFS_DATA_OFF :: u32 where "RWFS_DATA_OFF \<equiv> 6"
abbreviation (input) RWFS_ENTRY_FREE :: u32 where "RWFS_ENTRY_FREE \<equiv> 0"
abbreviation (input) RWFS_ENTRY_LIVE :: u32 where "RWFS_ENTRY_LIVE \<equiv> 1"
abbreviation (input) RWFS_FDAT_MAGIC :: u32 where "RWFS_FDAT_MAGIC \<equiv> 0x54414446"
abbreviation (input) RWFS_FDEN_MAGIC :: u32 where "RWFS_FDEN_MAGIC \<equiv> 0x4E454446"
abbreviation (input) RWFS_NAME_MAX :: nat where "RWFS_NAME_MAX \<equiv> 32"
abbreviation (input) TOTAL_ENTRIES :: nat where "TOTAL_ENTRIES \<equiv> 34"

definition RWFS_ERR_NAME :: int where "RWFS_ERR_NAME = -20"
definition RWFS_ERR_FULL :: int where "RWFS_ERR_FULL = -21"
definition RWFS_ERR_NOT_FOUND :: int where "RWFS_ERR_NOT_FOUND = -22"
definition RWFS_ERR_CORRUPT :: int where "RWFS_ERR_CORRUPT = -23"
definition RWFS_ERR_BUSY :: int where "RWFS_ERR_BUSY = -24"

lemmas rwfs_codes = RWFS_ERR_NAME_def RWFS_ERR_FULL_def RWFS_ERR_NOT_FOUND_def
  RWFS_ERR_CORRUPT_def RWFS_ERR_BUSY_def

definition upd_fs :: "(rwfs_ctx \<Rightarrow> rwfs_ctx) \<Rightarrow> 'a fs_world_scheme \<Rightarrow> 'a fs_world_scheme" where
  "upd_fs f w = w\<lparr>g_rwfs := f (g_rwfs w)\<rparr>"

section \<open>Encodings\<close>

definition super_words :: "rwfs_super \<Rightarrow> u32 list" where
  "super_words s =
     [rs_magic s, rs_version s, rs_generation s, rs_region_start_lba s, rs_region_blocks s,
      rs_index_start_lba s, rs_index_blocks s, rs_data_start_lba s, rs_data_blocks s,
      rs_entry_count s, rs_next_data_lba s, rs_checksum s] @ rs_reserved s"

definition words_super :: "u32 list \<Rightarrow> rwfs_super" where
  "words_super w =
     \<lparr> rs_magic = w ! 0, rs_version = w ! 1, rs_generation = w ! 2, rs_region_start_lba = w ! 3,
       rs_region_blocks = w ! 4, rs_index_start_lba = w ! 5, rs_index_blocks = w ! 6,
       rs_data_start_lba = w ! 7, rs_data_blocks = w ! 8, rs_entry_count = w ! 9,
       rs_next_data_lba = w ! 10, rs_checksum = w ! 11, rs_reserved = drop 12 w \<rparr>"

definition byte_of :: "char \<Rightarrow> u8" where "byte_of c = of_nat (of_char c)"
definition char_of_byte :: "u8 \<Rightarrow> char" where "char_of_byte b = char_of (unat b)"

definition entry_bytes :: "rwfs_entry \<Rightarrow> u8 list" where
  "entry_bytes e =
     map byte_of (re_name e) @
     words_bytes [re_state e, re_data_lba e, re_data_len e, re_generation e, re_content_crc e,
                  re_record_blocks e, re_entry_crc e]"

definition bytes_entry :: "u8 list \<Rightarrow> rwfs_entry" where
  "bytes_entry b =
     (let w = bytes_words (drop 32 b) in
      \<lparr> re_name = map char_of_byte (take 32 b), re_state = w ! 0, re_data_lba = w ! 1,
        re_data_len = w ! 2, re_generation = w ! 3, re_content_crc = w ! 4,
        re_record_blocks = w ! 5, re_entry_crc = w ! 6 \<rparr>)"

section \<open>Helpers\<close>

definition rwfs_checksum_words :: "u32 list \<Rightarrow> u32" where
  "rwfs_checksum_words ws = fnv_words ws"

definition rwfs_checksum_bytes :: "u8 list \<Rightarrow> u32" where
  "rwfs_checksum_bytes bs = foldl (\<lambda>h b. (h XOR ucast b) * 16777619) 2166136261 bs XOR 0xA5A55A5A"

definition rwfs_div_up :: "u32 \<Rightarrow> u32 \<Rightarrow> u32" where
  "rwfs_div_up n d = (if d = 0 then 0 else (n + d - 1) div d)"

definition rwfs_name_hash :: "string \<Rightarrow> u32" where
  "rwfs_name_hash name =
     foldl (\<lambda>h c. (h XOR ucast (byte_of c)) * 16777619) 2166136261
       (takeWhile (\<lambda>c. c \<noteq> CHR 0x00) (take RWFS_NAME_MAX name)) XOR 0xA5A55A5A"

definition rwfs_strnlen :: "string \<Rightarrow> nat \<Rightarrow> nat" where
  "rwfs_strnlen s mx = length (takeWhile (\<lambda>c. c \<noteq> CHR 0x00) (take mx s))"

definition rwfs_name_valid :: "string option \<Rightarrow> bool" where
  "rwfs_name_valid namep =
     (case namep of None \<Rightarrow> False
      | Some name \<Rightarrow>
          if name = [] \<or> name ! 0 = CHR 0x00 then False
          else let n = rwfs_strnlen name RWFS_NAME_MAX in \<not> (n = 0 \<or> n \<ge> RWFS_NAME_MAX))"

text \<open>Character \<open>i\<close> of a C string or of a name array: NUL from its end on.\<close>

definition cch :: "string \<Rightarrow> nat \<Rightarrow> char" where
  "cch s i = (if i < length s then s ! i else CHR 0x00)"

fun streq_loop :: "string \<Rightarrow> string \<Rightarrow> nat list \<Rightarrow> bool" where
  "streq_loop a b [] = True"
| "streq_loop a b (i # is) =
     (if cch a i \<noteq> cch b i then False
      else if cch a i = CHR 0x00 then True
      else streq_loop a b is)"

definition rwfs_streq_name :: "string \<Rightarrow> string \<Rightarrow> bool" where
  "rwfs_streq_name a b = streq_loop a b [0..<RWFS_NAME_MAX]"

definition rwfs_name_copy :: "string \<Rightarrow> string" where
  "rwfs_name_copy src =
     (let s = takeWhile (\<lambda>c. c \<noteq> CHR 0x00) (take (RWFS_NAME_MAX - 1) src)
      in s @ replicate (RWFS_NAME_MAX - length s) (CHR 0x00))"

definition rwfs_media_ready :: "'a fs_world_scheme \<Rightarrow> int \<times> 'a fs_world_scheme" where
  "rwfs_media_ready w =
     (if ctx_operation (g_sd_ctx w) \<noteq> SD_OP_NONE \<or> ctx_status (g_sd_ctx w) = DRV_IN_PROGRESS
      then (RWFS_ERR_BUSY, w)
      else if \<not> sd_detected w then (SD_ERR_NO_INIT, w)
      else if \<not> g_sd_initialized w then sd_init w
      else (SD_OK, w))"

section \<open>Superblock and index\<close>

definition rwfs_super_valid :: "rwfs_super \<Rightarrow> bool" where
  "rwfs_super_valid s \<longleftrightarrow>
     (if rs_magic s \<noteq> RWFS_MAGIC \<or> rs_version s \<noteq> RWFS_VERSION then False
      else if rs_index_blocks s \<noteq> RWFS_INDEX_BLOCKS then False
      else if rs_entry_count s \<noteq> of_nat TOTAL_ENTRIES then False
      else if rs_data_start_lba s < rs_region_start_lba s + RWFS_DATA_OFF then False
      else if rs_next_data_lba s < rs_data_start_lba s then False
      else if rs_next_data_lba s > rs_region_start_lba s + rs_region_blocks s then False
      else rs_checksum s = rwfs_checksum_words (take 11 (super_words s)))"

definition parse_super :: "block \<Rightarrow> rwfs_super option" where
  "parse_super b = (let s = words_super (bytes_words b) in if rwfs_super_valid s then Some s else None)"

definition rwfs_read_super_copy :: "u32 \<Rightarrow> 'a fs_world_scheme \<Rightarrow> rwfs_super option \<times> 'a fs_world_scheme" where
  "rwfs_read_super_copy lba w =
     (case sd_read1 lba w of
        ((rc, None), w1) \<Rightarrow> (None, w1)
      | ((rc, Some b), w1) \<Rightarrow> (parse_super b, w1))"

definition super_block :: "rwfs_super \<Rightarrow> block" where
  "super_block s = words_bytes (super_words s)"

definition rwfs_write_super_both :: "rwfs_super \<Rightarrow> 'a fs_world_scheme \<Rightarrow> int \<times> 'a fs_world_scheme" where
  "rwfs_write_super_both s w =
     (case sd_write1 (rs_region_start_lba s) (super_block s) w of (rc, w1) \<Rightarrow>
      if rc \<noteq> SD_OK then (rc, w1)
      else sd_write1 (rs_region_start_lba s + 1) (super_block s) w1)"

definition rwfs_entry_crc :: "rwfs_entry \<Rightarrow> u32" where
  "rwfs_entry_crc e = rwfs_checksum_words (take 14 (bytes_words (entry_bytes e)))"

text \<open>Entry \<open>i\<close> of an index block as \<open>rwfs_read_index\<close> takes it over.\<close>

definition load_entry :: "block \<Rightarrow> nat \<Rightarrow> rwfs_entry" where
  "load_entry blk i =
     (let e = bytes_entry (take 60 (drop (60 * i) blk)) in
      if re_state e = RWFS_ENTRY_LIVE \<and> re_entry_crc e \<noteq> rwfs_entry_crc e
      then e\<lparr>re_state := RWFS_ENTRY_FREE\<rparr> else e)"

definition load_block :: "nat \<Rightarrow> block \<Rightarrow> rwfs_entry list \<Rightarrow> rwfs_entry list" where
  "load_block b blk ents =
     foldl (\<lambda>es i. if b * 8 + i < TOTAL_ENTRIES then es[b * 8 + i := load_entry blk i] else es) ents [0..<8]"

fun rwfs_read_index_loop :: "rwfs_super \<Rightarrow> nat list \<Rightarrow> 'a fs_world_scheme \<Rightarrow> int \<times> 'a fs_world_scheme" where
  "rwfs_read_index_loop s [] w = (SD_OK, w)"
| "rwfs_read_index_loop s (b # bs) w =
     (case sd_read1 (rs_index_start_lba s + of_nat b) w of
        ((rc, None), w1) \<Rightarrow> (rc, w1)
      | ((rc, Some blk), w1) \<Rightarrow>
          rwfs_read_index_loop s bs (upd_fs (\<lambda>f. f\<lparr>fs_entries := load_block b blk (fs_entries f)\<rparr>) w1))"

definition rwfs_read_index :: "rwfs_super \<Rightarrow> 'a fs_world_scheme \<Rightarrow> int \<times> 'a fs_world_scheme" where
  "rwfs_read_index s w = rwfs_read_index_loop s [0..<4] w"

definition put_bytes :: "nat \<Rightarrow> u8 list \<Rightarrow> u8 list \<Rightarrow> u8 list" where
  "put_bytes off new b = take off b @ new @ drop (off + length new) b"

definition rwfs_write_index_entry ::
  "rwfs_super \<Rightarrow> nat \<Rightarrow> rwfs_entry \<Rightarrow> 'a fs_world_scheme \<Rightarrow> int \<times> 'a fs_world_scheme" where
  "rwfs_write_index_entry s entry_idx e w =
     (let block_idx = entry_idx div 8; slot_idx = entry_idx mod 8 in
      if block_idx \<ge> 4 then (RWFS_ERR_CORRUPT, w)
      else case sd_read1 (rs_index_start_lba s + of_nat block_idx) w of
             ((rc, None), w1) \<Rightarrow> (rc, w1)
           | ((rc, Some blk), w1) \<Rightarrow>
               sd_write1 (rs_index_start_lba s + of_nat block_idx)
                 (put_bytes (60 * slot_idx) (entry_bytes e) blk) w1)"

fun zero_blocks :: "u32 list \<Rightarrow> 'a fs_world_scheme \<Rightarrow> int \<times> 'a fs_world_scheme" where
  "zero_blocks [] w = (SD_OK, w)"
| "zero_blocks (l # ls) w =
     (case sd_write1 l (replicate 512 0) w of (rc, w1) \<Rightarrow>
        if rc \<noteq> SD_OK then (rc, w1) else zero_blocks ls w1)"

definition fresh_super :: "u32 \<Rightarrow> u32 \<Rightarrow> rwfs_super" where
  "fresh_super start blocks =
     (let s = \<lparr> rs_magic = RWFS_MAGIC, rs_version = RWFS_VERSION, rs_generation = 1,
            rs_region_start_lba = start, rs_region_blocks = blocks,
            rs_index_start_lba = start + RWFS_INDEX_OFF, rs_index_blocks = RWFS_INDEX_BLOCKS,
            rs_data_start_lba = start + RWFS_DATA_OFF, rs_data_blocks = blocks - RWFS_DATA_OFF,
            rs_entry_count = of_nat TOTAL_ENTRIES, rs_next_data_lba = start + RWFS_DATA_OFF,
            rs_checksum = 0, rs_reserved = replicate 116 0 \<rparr>
      in s\<lparr>rs_checksum := rwfs_checksum_words (take 11 (super_words s))\<rparr>)"

definition rwfs_format_region :: "u32 \<Rightarrow> u32 \<Rightarrow> 'a fs_world_scheme \<Rightarrow> int \<times> 'a fs_world_scheme" where
  "rwfs_format_region start blocks w =
     (if blocks \<le> RWFS_DATA_OFF then (RWFS_ERR_FULL, w)
      else
        let s = fresh_super start blocks in
        case zero_blocks (map (\<lambda>b. rs_index_start_lba s + of_nat b) [0..<4]) w of (rc, w1) \<Rightarrow>
        if rc \<noteq> SD_OK then (rc, w1)
        else case rwfs_write_super_both s w1 of (rc, w2) \<Rightarrow>
          if rc \<noteq> SD_OK then (rc, w2)
          else (SD_OK, upd_fs (\<lambda>f. f\<lparr>fs_super := s,
                  fs_entries := map (\<lambda>e. e\<lparr>re_state := RWFS_ENTRY_FREE\<rparr>) (fs_entries f),
                  fs_mounted := True, fs_formatted := True, fs_last_err := SD_OK\<rparr>) w2))"

definition rwfs_init_or_mount :: "'a fs_world_scheme \<Rightarrow> int \<times> 'a fs_world_scheme" where
  "rwfs_init_or_mount w =
     (case rwfs_media_ready w of (rc, w1) \<Rightarrow>
      if rc \<noteq> SD_OK then (rc, upd_fs (\<lambda>f. f\<lparr>fs_last_err := rc\<rparr>) w1)
      else case rwos_disk_get w1 of
        None \<Rightarrow> (SD_ERR_NO_INIT, upd_fs (\<lambda>f. f\<lparr>fs_last_err := SD_ERR_NO_INIT\<rparr>) w1)
      | Some disk \<Rightarrow>
          let fs_start = d_rwfs_start_lba disk; fs_blocks = d_rwfs_blocks disk in
          if fs_blocks \<le> RWFS_DATA_OFF
          then (RWFS_ERR_FULL, upd_fs (\<lambda>f. f\<lparr>fs_last_err := RWFS_ERR_FULL\<rparr>) w1)
          else
            case rwfs_read_super_copy fs_start w1 of (a, w2) \<Rightarrow>
            case rwfs_read_super_copy (fs_start + 1) w2 of (b, w3) \<Rightarrow>
            case (case (a, b) of
                    (None, None) \<Rightarrow> None
                  | (Some x, None) \<Rightarrow> Some x
                  | (Some x, Some y) \<Rightarrow> if rs_generation x \<ge> rs_generation y then Some x else Some y
                  | (None, Some y) \<Rightarrow> Some y) of
              None \<Rightarrow> rwfs_format_region fs_start fs_blocks w3
            | Some best \<Rightarrow>
                let w4 = upd_fs (\<lambda>f. f\<lparr>fs_super := best\<rparr>) w3 in
                if rs_region_start_lba best \<noteq> fs_start \<or> rs_region_blocks best > fs_blocks
                then rwfs_format_region fs_start fs_blocks w4
                else case rwfs_read_index best w4 of (rc, w5) \<Rightarrow>
                  if rc \<noteq> SD_OK then (rc, upd_fs (\<lambda>f. f\<lparr>fs_last_err := rc\<rparr>) w5)
                  else (SD_OK, upd_fs (\<lambda>f. f\<lparr>fs_mounted := True, fs_formatted := True,
                                            fs_last_err := SD_OK\<rparr>) w5))"

section \<open>Files\<close>

definition rwfs_find_entry :: "string \<Rightarrow> rwfs_ctx \<Rightarrow> nat option" where
  "rwfs_find_entry name f =
     find (\<lambda>i. re_state (fs_entries f ! i) = RWFS_ENTRY_LIVE \<and> rwfs_streq_name (re_name (fs_entries f ! i)) name)
       [0..<unat (rs_entry_count (fs_super f))]"

definition rwfs_find_free_entry :: "rwfs_ctx \<Rightarrow> nat option" where
  "rwfs_find_free_entry f =
     find (\<lambda>i. re_state (fs_entries f ! i) = RWFS_ENTRY_FREE) [0..<unat (rs_entry_count (fs_super f))]"

text \<open>The header and the tail block of a data record.\<close>

definition data_words :: "u32 \<Rightarrow> u32 \<Rightarrow> u32 \<Rightarrow> u32 \<Rightarrow> u32 \<Rightarrow> u32 list" where
  "data_words magic name_hash gen len crc =
     (let ws = [magic, RWFS_VERSION, name_hash, gen, len, crc]
      in ws @ [rwfs_checksum_words ws] @ replicate 121 0)"

fun rwfs_write_payload :: "u32 \<Rightarrow> u8 list list \<Rightarrow> 'a fs_world_scheme \<Rightarrow> int \<times> 'a fs_world_scheme" where
  "rwfs_write_payload lba [] w = (SD_OK, w)"
| "rwfs_write_payload lba (c # cs) w =
     (case sd_write1 lba (c @ replicate (512 - length c) 0) w of (rc, w1) \<Rightarrow>
        if rc \<noteq> SD_OK then (rc, w1) else rwfs_write_payload (lba + 1) cs w1)"

text \<open>The chunks of 512 bytes the copy loops go through.\<close>

function chunks512 :: "u8 list \<Rightarrow> u8 list list" where
  "chunks512 bs = (if bs = [] then [] else take 512 bs # chunks512 (drop 512 bs))"
  by auto
termination chunks512
  by (relation "measure length") (auto simp: length_greater_0_conv)

declare chunks512.simps [simp del]

definition rwfs_write_record ::
  "u32 \<Rightarrow> u32 \<Rightarrow> u32 \<Rightarrow> u32 \<Rightarrow> u8 list \<Rightarrow> 'a fs_world_scheme \<Rightarrow> int \<times> 'a fs_world_scheme" where
  "rwfs_write_record rec_lba record_blocks name_hash new_gen data w =
     (let len = of_nat (length data); crc = rwfs_checksum_bytes data in
      case sd_write1 rec_lba (words_bytes (data_words RWFS_FDAT_MAGIC name_hash new_gen len crc)) w of (rc, w1) \<Rightarrow>
      if rc \<noteq> SD_OK then (rc, w1)
      else case rwfs_write_payload (rec_lba + 1) (chunks512 data) w1 of (rc, w2) \<Rightarrow>
        if rc \<noteq> SD_OK then (rc, w2)
        else sd_write1 (rec_lba + record_blocks - 1)
               (words_bytes (data_words RWFS_FDEN_MAGIC name_hash new_gen len crc)) w2)"

definition new_entry :: "string \<Rightarrow> u32 \<Rightarrow> u32 \<Rightarrow> u32 \<Rightarrow> u32 \<Rightarrow> u32 \<Rightarrow> rwfs_entry" where
  "new_entry name rec_lba len gen crc record_blocks =
     (let e = \<lparr> re_name = rwfs_name_copy name, re_state = RWFS_ENTRY_LIVE, re_data_lba = rec_lba,
            re_data_len = len, re_generation = gen, re_content_crc = crc,
            re_record_blocks = record_blocks, re_entry_crc = 0 \<rparr>
      in e\<lparr>re_entry_crc := rwfs_entry_crc e\<rparr>)"

definition advance_super :: "u32 \<Rightarrow> rwfs_super \<Rightarrow> rwfs_super" where
  "advance_super record_blocks s =
     (let s1 = s\<lparr>rs_next_data_lba := rs_next_data_lba s + record_blocks,
                 rs_generation := rs_generation s + 1\<rparr>
      in s1\<lparr>rs_checksum := rwfs_checksum_words (take 11 (super_words s1))\<rparr>)"

definition rwfs_write_all_atomic ::
  "string option \<Rightarrow> u8 list option \<Rightarrow> u32 \<Rightarrow> 'a fs_world_scheme \<Rightarrow> int \<times> 'a fs_world_scheme" where
  "rwfs_write_all_atomic namep datap len w =
     (if \<not> rwfs_name_valid namep then (RWFS_ERR_NAME, w)
      else if datap = None \<and> len > 0 then (SD_ERR_PARAM, w)
      else case rwfs_init_or_mount w of (rc, w1) \<Rightarrow>
        if rc \<noteq> SD_OK then (rc, w1)
        else
          let name = the namep;
              data = (case datap of None \<Rightarrow> [] | Some d \<Rightarrow> take (unat len) d);
              f = g_rwfs w1;
              slot = (case rwfs_find_entry name f of
                        Some i \<Rightarrow> Some (i, re_generation (fs_entries f ! i))
                      | None \<Rightarrow> (case rwfs_find_free_entry f of Some i \<Rightarrow> Some (i, 0) | None \<Rightarrow> None))
          in case slot of
               None \<Rightarrow> (RWFS_ERR_FULL, w1)
             | Some (entry_idx, prior_gen) \<Rightarrow>
                 let new_gen = prior_gen + 1;
                     record_blocks = 2 + rwfs_div_up len 512;
                     sup = fs_super f;
                     data_end = rs_region_start_lba sup + rs_region_blocks sup;
                     rec_lba = rs_next_data_lba sup
                 in
                 if rec_lba + record_blocks > data_end then (RWFS_ERR_FULL, w1)
                 else case rwfs_write_record rec_lba record_blocks (rwfs_name_hash name) new_gen data w1 of (rc, w2) \<Rightarrow>
                   if rc \<noteq> SD_OK then (rc, w2)
                   else
                     let e = new_entry name rec_lba len new_gen (rwfs_checksum_bytes data) record_blocks in
                     case rwfs_write_index_entry (fs_super (g_rwfs w2)) entry_idx e w2 of (rc, w3) \<Rightarrow>
                     if rc \<noteq> SD_OK then (rc, w3)
                     else
                       let w4 = upd_fs (\<lambda>f. f\<lparr>fs_entries := (fs_entries f)[entry_idx := e],
                                             fs_super := advance_super record_blocks (fs_super f)\<rparr>) w3
                       in case rwfs_write_super_both (fs_super (g_rwfs w4)) w4 of (rc, w5) \<Rightarrow>
                          if rc \<noteq> SD_OK then (rc, w5)
                          else (SD_OK, upd_fs (\<lambda>f. f\<lparr>fs_last_err := SD_OK\<rparr>) w5))"

text \<open>The checks on a header or tail block; both are read into the same buffer.\<close>

definition data_block_ok :: "u32 \<Rightarrow> u32 \<Rightarrow> rwfs_entry \<Rightarrow> block \<Rightarrow> bool" where
  "data_block_ok magic name_hash e b =
     (let w = bytes_words b in
      \<not> (w ! 0 \<noteq> magic \<or> w ! 1 \<noteq> RWFS_VERSION \<or> w ! 2 \<noteq> name_hash \<or> w ! 3 \<noteq> re_generation e \<or>
         w ! 4 \<noteq> re_data_len e \<or> w ! 6 \<noteq> rwfs_checksum_words (take 6 w)))"

text \<open>The copy loop: \<open>rem\<close> bytes still to come from block \<open>lba\<close> on.\<close>

function rwfs_read_payload :: "u32 \<Rightarrow> nat \<Rightarrow> 'a fs_world_scheme \<Rightarrow> (int \<times> u8 list) \<times> 'a fs_world_scheme" where
  "rwfs_read_payload lba rem w =
     (if rem = 0 then ((SD_OK, []), w)
      else case sd_read1 lba w of
             ((rc, None), w1) \<Rightarrow> ((rc, []), w1)
           | ((rc, Some b), w1) \<Rightarrow>
               let n = (if rem > 512 then 512 else rem) in
               case rwfs_read_payload (lba + 1) (rem - n) w1 of ((rc', bs), w2) \<Rightarrow>
                 ((rc', take n b @ bs), w2))"
  by auto
termination rwfs_read_payload
  by (relation "measure (\<lambda>(l, r, w). r)") auto

declare rwfs_read_payload.simps [simp del]

text \<open>
  On success the bytes written to \<open>buf\<close> (\<open>*out_len\<close> is their number).  The final
  comparison of \<open>hdr->payload_crc\<close> looks at the shared buffer, which holds the
  tail block by then.
\<close>

definition rwfs_read_all ::
  "string option \<Rightarrow> bool \<Rightarrow> u32 \<Rightarrow> 'a fs_world_scheme \<Rightarrow> (int \<times> u8 list) \<times> 'a fs_world_scheme" where
  "rwfs_read_all namep have_out cap w =
     (if \<not> rwfs_name_valid namep \<or> \<not> have_out then ((SD_ERR_PARAM, []), w)
      else case rwfs_init_or_mount w of (rc, w1) \<Rightarrow>
        if rc \<noteq> SD_OK then ((rc, []), w1)
        else case rwfs_find_entry (the namep) (g_rwfs w1) of
          None \<Rightarrow> ((RWFS_ERR_NOT_FOUND, []), w1)
        | Some idx \<Rightarrow>
            let e = fs_entries (g_rwfs w1) ! idx; name_hash = rwfs_name_hash (the namep) in
            if re_data_len e > cap then ((SD_ERR_PARAM, []), w1)
            else case sd_read1 (re_data_lba e) w1 of
              ((rc, None), w2) \<Rightarrow> ((rc, []), w2)
            | ((rc, Some hb), w2) \<Rightarrow>
                if \<not> data_block_ok RWFS_FDAT_MAGIC name_hash e hb then ((RWFS_ERR_CORRUPT, []), w2)
                else case rwfs_read_payload (re_data_lba e + 1) (unat (re_data_len e)) w2 of ((rc, bs), w3) \<Rightarrow>
                  if rc \<noteq> SD_OK then ((rc, bs), w3)
                  else case sd_read1 (re_data_lba e + re_record_blocks e - 1) w3 of
                    ((rc, None), w4) \<Rightarrow> ((rc, bs), w4)
                  | ((rc, Some tb), w4) \<Rightarrow>
                      if \<not> data_block_ok RWFS_FDEN_MAGIC name_hash e tb then ((RWFS_ERR_CORRUPT, bs), w4)
                      else if bytes_words tb ! 5 \<noteq> re_content_crc e then ((RWFS_ERR_CORRUPT, bs), w4)
                      else if rwfs_checksum_bytes bs \<noteq> re_content_crc e then ((RWFS_ERR_CORRUPT, bs), w4)
                      else ((SD_OK, bs), w4))"

record rwfs_file_info =
  fi_name :: string
  fi_size_bytes :: u32
  fi_generation :: u32

definition rwfs_list ::
  "bool \<Rightarrow> nat \<Rightarrow> bool \<Rightarrow> 'a fs_world_scheme \<Rightarrow> (int \<times> rwfs_file_info list \<times> nat) \<times> 'a fs_world_scheme" where
  "rwfs_list have_out cap have_count w =
     (if \<not> have_count then ((SD_ERR_PARAM, [], 0), w)
      else case rwfs_init_or_mount w of (rc, w1) \<Rightarrow>
        if rc \<noteq> SD_OK then ((rc, [], 0), w1)
        else
          let f = g_rwfs w1;
              (out, n) = foldl (\<lambda>(out, n) i.
                 let e = fs_entries f ! i in
                 if re_state e \<noteq> RWFS_ENTRY_LIVE then (out, n)
                 else (if have_out \<and> n < cap
                       then out @ [\<lparr> fi_name = rwfs_name_copy (re_name e), fi_size_bytes = re_data_len e,
                                     fi_generation = re_generation e \<rparr>]
                       else out, n + 1))
               ([], 0) [0..<unat (rs_entry_count (fs_super f))]
          in ((SD_OK, out, n), w1))"

record rwfs_status =
  st_mounted :: bool
  st_formatted :: bool
  st_last_err :: int
  st_region_start_lba :: u32
  st_region_blocks :: u32
  st_next_data_lba :: u32
  st_file_count :: nat
  st_super_generation :: u32

definition rwfs_get_status :: "'a fs_world_scheme \<Rightarrow> rwfs_status" where
  "rwfs_get_status w =
     (let f = g_rwfs w in
      \<lparr> st_mounted = fs_mounted f, st_formatted = fs_formatted f, st_last_err = fs_last_err f,
        st_region_start_lba = rs_region_start_lba (fs_super f),
        st_region_blocks = rs_region_blocks (fs_super f),
        st_next_data_lba = rs_next_data_lba (fs_super f),
        st_file_count = length (filter (\<lambda>i. re_state (fs_entries f ! i) = RWFS_ENTRY_LIVE)
                          [0..<unat (rs_entry_count (fs_super f))]),
        st_super_generation = rs_generation (fs_super f) \<rparr>)"

section \<open>Encodings read back\<close>

lemma char_byte [simp]: "char_of_byte (byte_of c) = c"
proof -
  show ?thesis by (simp add: char_of_byte_def byte_of_def unat_of_nat)
qed

lemma words_super_words [simp]: "words_super (super_words s) = s"
  by (simp add: words_super_def super_words_def)

lemma parse_super_block: "rwfs_super_valid s \<Longrightarrow> parse_super (super_block s) = Some s"
  by (simp add: parse_super_def super_block_def Let_def)

interpretation sm: mirrored parse_super rs_generation super_block rwfs_super_valid
  by unfold_locales (rule parse_super_block)

lemma bytes_entry_bytes: "length (re_name e) = 32 \<Longrightarrow> bytes_entry (entry_bytes e) = e"
  by (simp add: bytes_entry_def entry_bytes_def Let_def comp_def del: words_bytes_simps)

lemma length_entry_bytes: "length (re_name e) = 32 \<Longrightarrow> length (entry_bytes e) = 60"
  by (simp add: entry_bytes_def)

lemma entry_crc_update [simp]:
  assumes "length (re_name e) = 32"
  shows "rwfs_entry_crc (e\<lparr>re_entry_crc := c\<rparr>) = rwfs_entry_crc e"
proof -
  have words: "bytes_words (entry_bytes x) = bytes_words (map byte_of (re_name x)) @
      [re_state x, re_data_lba x, re_data_len x, re_generation x, re_content_crc x, re_record_blocks x, re_entry_crc x]"
    if "length (re_name x) = 32" for x :: rwfs_entry
  proof -
    have "words_bytes (bytes_words (map byte_of (re_name x))) = map byte_of (re_name x)"
      using that by (simp add: words_bytes_words)
    then show ?thesis unfolding entry_bytes_def by (metis bytes_words_append bytes_words_bytes)
  qed
  have "length (bytes_words (map byte_of (re_name e))) = 8" using assms by (simp add: length_bytes_words)
  then show ?thesis using assms by (simp add: rwfs_entry_crc_def words)
qed

definition entry_ok :: "rwfs_entry \<Rightarrow> bool" where
  "entry_ok e \<longleftrightarrow> length (re_name e) = 32 \<and> re_entry_crc e = rwfs_entry_crc e"

lemma take_put_bytes:
  assumes "off + length new \<le> length b" "length new = n"
  shows "take n (drop off (put_bytes off new b)) = new"
  using assms by (simp add: put_bytes_def)

lemma take_put_bytes_other:
  assumes "off + length new \<le> length b" "i + n \<le> off \<or> off + length new \<le> i"
  shows "take n (drop i (put_bytes off new b)) = take n (drop i b)"
  using assms(2)
proof
  assume "i + n \<le> off"
  then show ?thesis using assms(1)
    by (intro nth_equalityI) (auto simp: put_bytes_def nth_append)
next
  assume "off + length new \<le> i"
  then show ?thesis using assms(1)
    by (intro nth_equalityI) (auto simp: put_bytes_def nth_append)
qed

lemma length_put_bytes: "off + length new \<le> length b \<Longrightarrow> length (put_bytes off new b) = length b"
  by (simp add: put_bytes_def)

text \<open>Reading an index block after an entry was written into it.\<close>

lemma load_entry_put:
  assumes "entry_ok e" "j < 8" "k < 8" "length blk = 512"
  shows "load_entry (put_bytes (60 * j) (entry_bytes e) blk) k = (if k = j then e else load_entry blk k)"
proof -
  have n: "length (entry_bytes e) = 60" using assms(1) by (simp add: entry_ok_def length_entry_bytes)
  have fit: "60 * j + length (entry_bytes e) \<le> length blk" using assms n by simp
  show ?thesis
  proof (cases "k = j")
    case True
    then show ?thesis
      using assms(1) by (simp add: load_entry_def take_put_bytes [OF fit n] bytes_entry_bytes entry_ok_def Let_def)
  next
    case False
    then have "60 * k + 60 \<le> 60 * j \<or> 60 * j + length (entry_bytes e) \<le> 60 * k" unfolding n by linarith
    from take_put_bytes_other [OF fit this] False show ?thesis by (simp add: load_entry_def)
  qed
qed

lemma length_load_block [simp]: "length (load_block b blk ents) = length ents"
proof -
  have "length (foldl (\<lambda>es i. if b * 8 + i < 34 then es[b * 8 + i := load_entry blk i] else es) ents is) = length ents"
    for "is" by (induction "is" arbitrary: ents) auto
  then show ?thesis by (simp add: load_block_def)
qed

lemma load_block_nth:
  assumes "length ents = 34" "i < 34"
  shows "load_block b blk ents ! i =
    (if b * 8 \<le> i \<and> i < b * 8 + 8 then load_entry blk (i - b * 8) else ents ! i)"
proof -
  have "length (foldl (\<lambda>es i. if b * 8 + i < 34 then es[b * 8 + i := load_entry blk i] else es) ents [0..<n]) = 34 \<and>
    foldl (\<lambda>es i. if b * 8 + i < 34 then es[b * 8 + i := load_entry blk i] else es) ents [0..<n] ! i =
      (if b * 8 \<le> i \<and> i < b * 8 + n then load_entry blk (i - b * 8) else ents ! i)" for n
    using assms by (induction n) (auto simp: nth_list_update)
  from this [of 8] show "load_block b blk ents ! i =
      (if b * 8 \<le> i \<and> i < b * 8 + 8 then load_entry blk (i - b * 8) else ents ! i)"
    by (simp add: load_block_def)
qed

section \<open>Mounting\<close>

lemma upd_fs_sel [simp]:
  "sd_ok (upd_fs f w) = sd_ok w" "sd_card (upd_fs f w) = sd_card w" "sd_detected (upd_fs f w) = sd_detected w"
  "g_sd_ctx (upd_fs f w) = g_sd_ctx w" "g_rwfs (upd_fs f w) = f (g_rwfs w)"
  "g_rwos_disk (upd_fs f w) = g_rwos_disk w" "g_rwos_disk_valid (upd_fs f w) = g_rwos_disk_valid w"
  by (simp_all add: upd_fs_def sd_ok_def)

text \<open>The entries a mount loads from a card.\<close>

definition load_all :: "(u32 \<Rightarrow> block) \<Rightarrow> rwfs_super \<Rightarrow> rwfs_entry list \<Rightarrow> rwfs_entry list" where
  "load_all c s ents =
     (let i = rs_index_start_lba s in
      load_block 3 (c (i + 3)) (load_block 2 (c (i + 2)) (load_block 1 (c (i + 1)) (load_block 0 (c i) ents))))"

lemma load_all_nth:
  assumes "length ents = 34" "i < 34"
  shows "load_all c s ents ! i =
    (if i < 32 then load_entry (c (rs_index_start_lba s + of_nat (i div 8))) (i mod 8) else ents ! i)"
proof -
  consider "i < 8" | "8 \<le> i" "i < 16" | "16 \<le> i" "i < 24" | "24 \<le> i" "i < 32" | "32 \<le> i" by linarith
  then show ?thesis
  proof cases
    case 1
    with assms show ?thesis by (simp add: load_all_def Let_def load_block_nth)
  next
    case 2
    then have "i div 8 = 1" "i mod 8 = i - 8" by presburger+
    with 2 assms show ?thesis by (simp add: load_all_def Let_def load_block_nth)
  next
    case 3
    then have "i div 8 = 2" "i mod 8 = i - 16" by presburger+
    with 3 assms show ?thesis by (simp add: load_all_def Let_def load_block_nth)
  next
    case 4
    then have "i div 8 = 3" "i mod 8 = i - 24" by presburger+
    with 4 assms show ?thesis by (simp add: load_all_def Let_def load_block_nth)
  qed (use assms in \<open>simp add: load_all_def Let_def load_block_nth\<close>)
qed

lemma length_load_all: "length ents = 34 \<Longrightarrow> length (load_all c s ents) = 34"
  by (simp add: load_all_def Let_def)

lemma read_index_loop_ok:
  "sd_ok w \<Longrightarrow> rwfs_read_index_loop s bs w =
     (SD_OK, upd_fs (\<lambda>f. f\<lparr>fs_entries :=
        foldl (\<lambda>es b. load_block b (sd_card w (rs_index_start_lba s + of_nat b)) es) (fs_entries f) bs\<rparr>)
      (if bs = [] then w else w\<lparr>g_sd_last_error := SD_OK\<rparr>))"
proof (induction bs arbitrary: w)
  case (Cons b bs)
  let ?w1 = "upd_fs (\<lambda>f. f\<lparr>fs_entries := load_block b (sd_card w (rs_index_start_lba s + of_nat b)) (fs_entries f)\<rparr>)
    (w\<lparr>g_sd_last_error := SD_OK\<rparr>)"
  have ok: "sd_ok ?w1" using Cons.prems by simp
  have "rwfs_read_index_loop s (b # bs) w = rwfs_read_index_loop s bs ?w1"
    using Cons.prems by (simp add: sd_simps)
  also note Cons.IH [OF ok]
  finally show ?case by (simp add: upd_fs_def)
qed (simp add: upd_fs_def)

lemma read_index_ok:
  assumes "sd_ok w"
  shows "rwfs_read_index s w = (SD_OK, upd_fs (\<lambda>f. f\<lparr>fs_entries := load_all (sd_card w) s (fs_entries f)\<rparr>)
    (w\<lparr>g_sd_last_error := SD_OK\<rparr>))"
proof -
  have u: "[0..<4] = [0, 1, 2, 3 :: nat]" by code_simp
  show ?thesis unfolding rwfs_read_index_def u read_index_loop_ok [OF assms]
    by (simp add: load_all_def Let_def)
qed

text \<open>
  A card with a file system that the firmware made: the superblock found at the
  partition start describes the partition, and its areas are where
  \<open>rwfs_format_region\<close> puts them.
\<close>

definition fs_ready :: "rwfs_super \<Rightarrow> 'a fs_world_scheme \<Rightarrow> bool" where
  "fs_ready s w \<longleftrightarrow>
     (let d = g_rwos_disk w; start = d_rwfs_start_lba d; c = sd_card w in
      sd_ok w \<and> sd_detected w \<and> ctx_operation (g_sd_ctx w) = SD_OP_NONE \<and>
      ctx_status (g_sd_ctx w) \<noteq> DRV_IN_PROGRESS \<and> g_rwos_disk_valid w \<and> d_rwfs_blocks d > 6 \<and>
      unat start + unat (d_rwfs_blocks d) < 4294967296 \<and>
      mirror_best parse_super rs_generation (c start) (c (start + 1)) = Some s \<and> rwfs_super_valid s \<and>
      rs_region_start_lba s = start \<and> rs_region_blocks s \<le> d_rwfs_blocks d \<and>
      rs_index_start_lba s = start + 2 \<and> rs_data_start_lba s = start + 6 \<and>
      length (fs_entries (g_rwfs w)) = 34 \<and>
      (\<forall>i\<in>{32, 33}. re_state (fs_entries (g_rwfs w) ! i) = RWFS_ENTRY_FREE) \<and>
      (\<forall>k<4. length (c (start + 2 + of_nat k)) = 512))"

definition fs_mount :: "rwfs_super \<Rightarrow> 'a fs_world_scheme \<Rightarrow> 'a fs_world_scheme" where
  "fs_mount s w = upd_fs (\<lambda>f. f\<lparr>fs_super := s, fs_entries := load_all (sd_card w) s (fs_entries f),
     fs_mounted := True, fs_formatted := True, fs_last_err := SD_OK\<rparr>) (w\<lparr>g_sd_last_error := SD_OK\<rparr>)"

lemma fs_mount_sel [simp]:
  "sd_ok (fs_mount s w) = sd_ok w" "sd_card (fs_mount s w) = sd_card w"
  "sd_detected (fs_mount s w) = sd_detected w" "g_sd_ctx (fs_mount s w) = g_sd_ctx w"
  "g_rwos_disk (fs_mount s w) = g_rwos_disk w" "g_rwos_disk_valid (fs_mount s w) = g_rwos_disk_valid w"
  "fs_super (g_rwfs (fs_mount s w)) = s"
  "fs_entries (g_rwfs (fs_mount s w)) = load_all (sd_card w) s (fs_entries (g_rwfs w))"
  by (simp_all add: fs_mount_def)

lemma rwfs_mount_ok:
  assumes "fs_ready s w"
  shows "rwfs_init_or_mount w = (SD_OK, fs_mount s w)"
proof -
  let ?start = "d_rwfs_start_lba (g_rwos_disk w)"
  have r: "sd_ok w" "sd_detected w" "ctx_operation (g_sd_ctx w) = SD_OP_NONE"
    "ctx_status (g_sd_ctx w) \<noteq> DRV_IN_PROGRESS" "g_rwos_disk_valid w" "\<not> d_rwfs_blocks (g_rwos_disk w) \<le> 6"
    "mirror_best parse_super rs_generation (sd_card w ?start) (sd_card w (?start + 1)) = Some s"
    "rs_region_start_lba s = ?start" "\<not> rs_region_blocks s > d_rwfs_blocks (g_rwos_disk w)"
    using assms by (auto simp: fs_ready_def Let_def)
  have ready: "rwfs_media_ready w = (SD_OK, w)"
    using r(1-4) by (simp add: rwfs_media_ready_def sd_ok_def)
  have disk: "rwos_disk_get w = Some (g_rwos_disk w)" using r(5) by (simp add: rwos_disk_get_def)
  let ?w1 = "w\<lparr>g_sd_last_error := SD_OK\<rparr>"
  have copy: "rwfs_read_super_copy lba w = (parse_super (sd_card w lba), ?w1)"
    "rwfs_read_super_copy lba ?w1 = (parse_super (sd_card w lba), ?w1)" for lba
    using r(1) by (simp_all add: rwfs_read_super_copy_def sd_simps)
  have best: "(case (parse_super (sd_card w ?start), parse_super (sd_card w (?start + 1))) of
      (None, None) \<Rightarrow> None | (Some x, None) \<Rightarrow> Some x
      | (Some x, Some y) \<Rightarrow> if rs_generation x \<ge> rs_generation y then Some x else Some y
      | (None, Some y) \<Rightarrow> Some y) = Some s"
    using r(7) by (auto simp: mirror_best_def split: option.splits if_splits)
  have idx: "rwfs_read_index s (upd_fs (\<lambda>f. f\<lparr>fs_super := s\<rparr>) ?w1) =
      (SD_OK, upd_fs (\<lambda>f. f\<lparr>fs_entries := load_all (sd_card w) s (fs_entries f)\<rparr>)
        ((upd_fs (\<lambda>f. f\<lparr>fs_super := s\<rparr>) ?w1)\<lparr>g_sd_last_error := SD_OK\<rparr>))"
    using r(1) by (subst read_index_ok) simp_all
  show ?thesis
    using r(6,8,9) best
    by (simp add: rwfs_init_or_mount_def ready disk Let_def copy idx) (simp add: fs_mount_def upd_fs_def)
qed

section \<open>Writing and reading a record\<close>

definition pad512 :: "u8 list \<Rightarrow> block" where
  "pad512 c = c @ replicate (512 - length c) 0"

definition record_card ::
  "u32 \<Rightarrow> u32 \<Rightarrow> u32 \<Rightarrow> u32 \<Rightarrow> u8 list \<Rightarrow> (u32 \<Rightarrow> block) \<Rightarrow> u32 \<Rightarrow> block" where
  "record_card rec rb hash gen data c =
     (card_put (rec + 1) (map pad512 (chunks512 data))
        (c(rec := words_bytes (data_words RWFS_FDAT_MAGIC hash gen (of_nat (length data)) (rwfs_checksum_bytes data)))))
     (rec + rb - 1 := words_bytes (data_words RWFS_FDEN_MAGIC hash gen (of_nat (length data)) (rwfs_checksum_bytes data)))"

lemma write_payload_ok:
  "sd_ok w \<Longrightarrow> rwfs_write_payload lba cs w =
     (SD_OK, if cs = [] then w else w\<lparr>sd_card := card_put lba (map pad512 cs) (sd_card w), g_sd_last_error := SD_OK\<rparr>)"
  by (induction cs arbitrary: lba w) (auto simp: sd_simps pad512_def)

lemma write_record_ok:
  "sd_ok w \<Longrightarrow> rwfs_write_record rec rb hash gen data w =
     (SD_OK, w\<lparr>sd_card := record_card rec rb hash gen data (sd_card w), g_sd_last_error := SD_OK\<rparr>)"
  by (simp add: rwfs_write_record_def Let_def sd_simps write_payload_ok record_card_def)

lemma length_chunks512: "length (chunks512 bs) = (length bs + 511) div 512"
proof (induction bs rule: chunks512.induct)
  case (1 bs)
  show ?case
  proof (cases "bs = []")
    case False
    have "(length bs + 511) div 512 = Suc ((length (drop 512 bs) + 511) div 512)"
    proof (cases "length bs \<le> 512")
      case True
      with False have "(length bs + 511) div 512 = 1" by (intro div_nat_eqI) (auto simp: Suc_le_eq)
      with True show ?thesis by simp
    next
      case False
      then have "length bs + 511 = (length (drop 512 bs) + 511) + 512" by simp
      then show ?thesis by (metis div_add_self2 Suc_eq_plus1 zero_neq_numeral)
    qed
    with False 1 show ?thesis by (simp add: chunks512.simps [of bs])
  qed (simp add: chunks512.simps)
qed

lemma read_payload_ok:
  assumes "sd_ok w" "\<forall>k<length (chunks512 data). sd_card w (lba + of_nat k) = pad512 (chunks512 data ! k)"
  shows "rwfs_read_payload lba (length data) w =
    ((SD_OK, data), if data = [] then w else w\<lparr>g_sd_last_error := SD_OK\<rparr>)"
  using assms
proof (induction data arbitrary: lba w rule: chunks512.induct)
  case (1 bs)
  show ?case
  proof (cases "bs = []")
    case True
    then show ?thesis by (simp add: rwfs_read_payload.simps)
  next
    case False
    have ch: "chunks512 bs = take 512 bs # chunks512 (drop 512 bs)" using False by (simp add: chunks512.simps [of bs])
    have hd: "sd_card w lba = pad512 (take 512 bs)" using "1.prems"(2) ch by (auto dest: spec [of _ 0])
    let ?w1 = "w\<lparr>g_sd_last_error := SD_OK\<rparr>" and ?n = "if 512 < length bs then 512 else length bs"
    have tl: "\<forall>k<length (chunks512 (drop 512 bs)). sd_card ?w1 (lba + 1 + of_nat k) = pad512 (chunks512 (drop 512 bs) ! k)"
    proof (intro allI impI)
      fix k assume "k < length (chunks512 (drop 512 bs))"
      with "1.prems"(2) ch show "sd_card ?w1 (lba + 1 + of_nat k) = pad512 (chunks512 (drop 512 bs) ! k)"
        by (auto dest: spec [of _ "Suc k"] simp: algebra_simps)
    qed
    have n: "length bs - ?n = length (drop 512 bs)" "take ?n (pad512 (take 512 bs)) = take 512 bs"
      by (auto simp: pad512_def)
    have "rwfs_read_payload (lba + 1) (length (drop 512 bs)) ?w1 = ((SD_OK, drop 512 bs), ?w1)"
      using "1.IH" [OF False _ tl] "1.prems"(1) by simp
    with False "1.prems"(1) n show ?thesis
      by (subst rwfs_read_payload.simps) (simp add: sd_simps hd Let_def del: length_drop)
  qed
qed

lemma record_card_lookup:
  fixes start hash gen :: u32 and c :: "u32 \<Rightarrow> block"
  assumes n: "n = length (chunks512 data)" and fit: "r + n + 2 < 4294967296"
  defines "C \<equiv> record_card (start + of_nat r) (of_nat (n + 2)) hash gen data c"
  shows "C (start + of_nat r) =
      words_bytes (data_words RWFS_FDAT_MAGIC hash gen (of_nat (length data)) (rwfs_checksum_bytes data))"
    and "k < n \<Longrightarrow> C (start + of_nat r + 1 + of_nat k) = pad512 (chunks512 data ! k)"
    and "C (start + of_nat r + of_nat (n + 2) - 1) =
      words_bytes (data_words RWFS_FDEN_MAGIC hash gen (of_nat (length data)) (rwfs_checksum_bytes data))"
    and "k < r \<or> r + n + 2 \<le> k \<Longrightarrow> k < 4294967296 \<Longrightarrow> C (start + of_nat k) = c (start + of_nat k)"
proof -
  have last: "start + of_nat r + of_nat (n + 2) - 1 = start + of_nat (r + n + 1)" by simp
  have mid: "start + of_nat r + 1 + of_nat k = start + of_nat (r + 1 + k)" for k by simp
  let ?H = "words_bytes (data_words RWFS_FDAT_MAGIC hash gen (of_nat (length data)) (rwfs_checksum_bytes data))"
  let ?P = "card_put (start + of_nat r + 1) (map pad512 (chunks512 data)) (c(start + of_nat r := ?H))"
  have other: "?P (start + of_nat j) = (c(start + of_nat r := ?H)) (start + of_nat j)"
    if "j < 4294967296" "j \<le> r \<or> r + 1 + n \<le> j" for j
  proof (rule card_put_other, intro allI impI)
    fix k assume "k < length (map pad512 (chunks512 data))"
    then have "r + 1 + k < 4294967296" "j \<noteq> r + 1 + k" using that fit n by auto
    then show "start + of_nat j \<noteq> start + of_nat r + 1 + of_nat k"
      unfolding mid using that(1) lba_inj by blast
  qed
  have nl: "start + of_nat j \<noteq> start + of_nat (r + n + 1)" if "j < 4294967296" "j \<noteq> r + n + 1" for j
    using that fit lba_inj [of j "r + n + 1" start] by simp
  have C: "C = ?P(start + of_nat (r + n + 1) :=
      words_bytes (data_words RWFS_FDEN_MAGIC hash gen (of_nat (length data)) (rwfs_checksum_bytes data)))"
    unfolding C_def record_card_def last ..
  show "C (start + of_nat r) = ?H" using other [of r] nl [of r] fit by (simp add: C del: of_nat_add of_nat_Suc)
  show "C (start + of_nat r + of_nat (n + 2) - 1) =
      words_bytes (data_words RWFS_FDEN_MAGIC hash gen (of_nat (length data)) (rwfs_checksum_bytes data))"
    unfolding last by (simp add: C del: of_nat_add)
  show "C (start + of_nat r + 1 + of_nat k) = pad512 (chunks512 data ! k)" if k: "k < n"
  proof -
    have "?P (start + of_nat r + 1 + of_nat k) = pad512 (chunks512 data ! k)"
      using k n fit by (subst card_put_nth) simp_all
    moreover have "start + of_nat r + 1 + of_nat k \<noteq> start + of_nat (r + n + 1)"
      unfolding mid using k fit by (intro nl) simp_all
    ultimately show ?thesis by (simp add: C del: of_nat_add)
  qed
  show "C (start + of_nat k) = c (start + of_nat k)" if k: "k < r \<or> r + n + 2 \<le> k" "k < 4294967296"
  proof -
    have "start + of_nat k \<noteq> start + of_nat r" using k fit lba_inj [of k r start] by auto
    then show ?thesis using other [of k] nl [of k] k by (auto simp: C simp del: of_nat_add of_nat_Suc)
  qed
qed

text \<open>Where the next record goes, as an offset into the partition.\<close>

lemma fs_ready_next:
  assumes "fs_ready s w"
  obtains r where "rs_next_data_lba s = d_rwfs_start_lba (g_rwos_disk w) + of_nat r" "6 \<le> r"
    "r \<le> unat (rs_region_blocks s)"
    "unat (rs_next_data_lba s) = unat (d_rwfs_start_lba (g_rwos_disk w)) + r"
    "unat (rs_region_start_lba s + rs_region_blocks s)
       = unat (d_rwfs_start_lba (g_rwos_disk w)) + unat (rs_region_blocks s)"
    "unat (d_rwfs_start_lba (g_rwos_disk w)) + unat (rs_region_blocks s) < 4294967296"
proof -
  let ?st = "d_rwfs_start_lba (g_rwos_disk w)" and ?n = "d_rwfs_blocks (g_rwos_disk w)"
  have f: "?n > 6" "unat ?st + unat ?n < 4294967296" "rwfs_super_valid s" "rs_region_start_lba s = ?st"
    "rs_region_blocks s \<le> ?n" "rs_data_start_lba s = ?st + 6"
    using assms by (simp_all add: fs_ready_def Let_def)
  have v: "?st + 6 \<le> rs_next_data_lba s" "rs_next_data_lba s \<le> ?st + rs_region_blocks s"
    using f(3,4,6) by (simp_all add: rwfs_super_valid_def split: if_splits)
  have u: "unat (?st + rs_region_blocks s) = unat ?st + unat (rs_region_blocks s)"
    "unat ?st + unat (rs_region_blocks s) < 4294967296" "unat (?st + 6) = unat ?st + 6"
    using f(1,2,5) by (auto simp: unat_add_small word_le_nat_alt word_less_nat_alt)
  have le: "unat ?st + 6 \<le> unat (rs_next_data_lba s)"
    "unat (rs_next_data_lba s) \<le> unat ?st + unat (rs_region_blocks s)"
    using v u by (simp_all add: word_le_nat_alt)
  have "rs_next_data_lba s = ?st + of_nat (unat (rs_next_data_lba s) - unat ?st)"
    using le(1) by (simp add: of_nat_diff)
  with le u show ?thesis by (intro that [of "unat (rs_next_data_lba s) - unat ?st"]) (auto simp: f(4))
qed

lemma div_up_chunks:
  assumes "length data \<le> 0xFFFFFE00"
  shows "rwfs_div_up (of_nat (length data)) 512 = of_nat (length (chunks512 data))"
proof -
  have l: "length data < 4294967296" using assms by simp
  have "unat (of_nat (length data) + 512 - 1 :: u32) = length data + 511"
  proof -
    have "(of_nat (length data) + 512 - 1 :: u32) = of_nat (length data + 511)" by simp
    moreover have "unat (of_nat (length data + 511) :: u32) = length data + 511"
      using assms by (simp add: unat_of_nat del: of_nat_add)
    ultimately show ?thesis by (simp only:)
  qed
  then have "unat ((of_nat (length data) + 512 - 1 :: u32) div 512) = (length data + 511) div 512"
    by (simp add: unat_div)
  then show ?thesis unfolding rwfs_div_up_def length_chunks512
    using l by (simp add: word_unat_eq_iff unat_of_nat)
qed

section \<open>Writing a file\<close>

definition fs_slot :: "string \<Rightarrow> rwfs_ctx \<Rightarrow> (nat \<times> u32) option" where
  "fs_slot name f =
     (case rwfs_find_entry name f of
        Some i \<Rightarrow> Some (i, re_generation (fs_entries f ! i))
      | None \<Rightarrow> (case rwfs_find_free_entry f of Some i \<Rightarrow> Some (i, 0) | None \<Rightarrow> None))"

text \<open>The card after a complete write of \<open>data\<close> into index slot \<open>i\<close>.\<close>

definition written_entry :: "rwfs_super \<Rightarrow> string \<Rightarrow> u32 \<Rightarrow> u8 list \<Rightarrow> rwfs_entry" where
  "written_entry s name gen data =
     new_entry name (rs_next_data_lba s) (of_nat (length data)) gen (rwfs_checksum_bytes data)
       (of_nat (length (chunks512 data) + 2))"

definition written_super :: "rwfs_super \<Rightarrow> u8 list \<Rightarrow> rwfs_super" where
  "written_super s data = advance_super (of_nat (length (chunks512 data) + 2)) s"

definition written_record :: "rwfs_super \<Rightarrow> string \<Rightarrow> u32 \<Rightarrow> u8 list \<Rightarrow> (u32 \<Rightarrow> block) \<Rightarrow> u32 \<Rightarrow> block" where
  "written_record s name gen data c =
     record_card (rs_next_data_lba s) (of_nat (length (chunks512 data) + 2)) (rwfs_name_hash name) gen data c"

definition written_index :: "rwfs_super \<Rightarrow> nat \<Rightarrow> rwfs_entry \<Rightarrow> (u32 \<Rightarrow> block) \<Rightarrow> u32 \<Rightarrow> block" where
  "written_index s i e c =
     (let ib = rs_index_start_lba s + of_nat (i div 8)
      in c(ib := put_bytes (60 * (i mod 8)) (entry_bytes e) (c ib)))"

definition written_card :: "rwfs_super \<Rightarrow> nat \<Rightarrow> string \<Rightarrow> u32 \<Rightarrow> u8 list \<Rightarrow> (u32 \<Rightarrow> block) \<Rightarrow> u32 \<Rightarrow> block" where
  "written_card s i name gen data c =
     (written_index s i (written_entry s name gen data) (written_record s name gen data c))
     (rs_region_start_lba s := super_block (written_super s data),
      rs_region_start_lba s + 1 := super_block (written_super s data))"

text \<open>The record fits into what is left of the partition, in exact arithmetic.\<close>

definition fs_fits :: "rwfs_super \<Rightarrow> u8 list \<Rightarrow> bool" where
  "fs_fits s data \<longleftrightarrow> length data \<le> 0xFFFFFE00 \<and>
     unat (rs_next_data_lba s) + length (chunks512 data) + 2 \<le> unat (rs_region_start_lba s + rs_region_blocks s)"

lemma fs_fits_check:
  assumes "fs_fits s data"
  shows "\<not> rs_next_data_lba s + (2 + rwfs_div_up (of_nat (length data)) 512) > rs_region_start_lba s + rs_region_blocks s"
    "2 + rwfs_div_up (of_nat (length data)) 512 = of_nat (length (chunks512 data) + 2)"
    "unat (of_nat (length data) :: u32) = length data"
proof -
  have l: "length data \<le> 0xFFFFFE00" using assms by (simp add: fs_fits_def)
  show rb: "2 + rwfs_div_up (of_nat (length data)) 512 = of_nat (length (chunks512 data) + 2)"
    using div_up_chunks [OF l] by simp
  show "unat (of_nat (length data) :: u32) = length data" using l by (simp add: unat_of_nat)
  let ?e = "unat (rs_region_start_lba s + rs_region_blocks s)"
  have e: "?e < 4294967296" by simp
  define m where "m = length (chunks512 data) + 2"
  have f: "unat (rs_next_data_lba s) + m \<le> ?e" using assms unfolding fs_fits_def m_def by linarith
  have "m < 4294967296" using f e by linarith
  then have n: "unat (of_nat m :: u32) = m" by (simp add: unat_of_nat)
  have "unat (rs_next_data_lba s) + unat (of_nat m :: u32) < 2 ^ LENGTH(32)"
    unfolding n using le_less_trans [OF f e] by simp
  then have "unat (rs_next_data_lba s + of_nat m) \<le> ?e"
    using f n unat_add_small [of "rs_next_data_lba s" "of_nat m"] by simp
  then show "\<not> rs_next_data_lba s + (2 + rwfs_div_up (of_nat (length data)) 512) > rs_region_start_lba s + rs_region_blocks s"
    unfolding rb m_def by (simp add: word_less_nat_alt del: of_nat_add of_nat_Suc)
qed

lemma write_super_both_ok:
  "sd_ok w \<Longrightarrow> rwfs_write_super_both s w = (SD_OK, w\<lparr>sd_card := (sd_card w)
     (rs_region_start_lba s := super_block s, rs_region_start_lba s + 1 := super_block s), g_sd_last_error := SD_OK\<rparr>)"
  by (simp add: rwfs_write_super_both_def sd_simps)

lemma write_index_entry_ok:
  "sd_ok w \<Longrightarrow> i < 32 \<Longrightarrow> rwfs_write_index_entry s i e w =
     (SD_OK, w\<lparr>sd_card := written_index s i e (sd_card w), g_sd_last_error := SD_OK\<rparr>)"
proof -
  assume w: "sd_ok w" and "i < 32"
  then have "i div 8 < 4" by auto
  with w show ?thesis by (simp add: rwfs_write_index_entry_def Let_def sd_simps written_index_def)
qed

lemma advance_super_region [simp]: "rs_region_start_lba (advance_super rb s) = rs_region_start_lba s"
  by (simp add: advance_super_def Let_def)

lemma rwfs_write_ok:
  fixes w :: "'a fs_world_scheme"
  assumes ready: "fs_ready s w" and name: "rwfs_name_valid (Some name)" and fits: "fs_fits s data"
    and slot: "fs_slot name (g_rwfs (fs_mount s w)) = Some (i, g)" "i < 32"
  obtains w' where "rwfs_write_all_atomic (Some name) (Some data) (of_nat (length data)) w = (SD_OK, w')"
    "sd_card w' = written_card s i name (g + 1) data (sd_card w)"
    "fs_entries (g_rwfs w') = (fs_entries (g_rwfs (fs_mount s w)))[i := written_entry s name (g + 1) data]"
    "sd_ok w'" "sd_detected w' = sd_detected w" "g_sd_ctx w' = g_sd_ctx w" "g_rwos_disk w' = g_rwos_disk w"
    "g_rwos_disk_valid w' = g_rwos_disk_valid w"
proof -
  define rb :: u32 where "rb = of_nat (length (chunks512 data) + 2)"
  let ?m = "fs_mount s w" and ?crc = "rwfs_checksum_bytes data" and ?len = "of_nat (length data) :: u32"
  define e where "e = written_entry s name (g + 1) data"
  have ok: "sd_ok ?m" using ready by (simp add: fs_ready_def Let_def)
  have len: "unat ?len = length data" and rb: "2 + rwfs_div_up ?len 512 = rb"
    and room: "\<not> rs_next_data_lba s + rb > rs_region_start_lba s + rs_region_blocks s"
    using fs_fits_check [OF fits] unfolding rb_def by simp_all
  have slot': "(case rwfs_find_entry name (g_rwfs ?m) of
      Some i \<Rightarrow> Some (i, re_generation (fs_entries (g_rwfs ?m) ! i))
    | None \<Rightarrow> (case rwfs_find_free_entry (g_rwfs ?m) of Some i \<Rightarrow> Some (i, 0) | None \<Rightarrow> None)) = Some (i, g)"
    using slot(1) unfolding fs_slot_def .
  let ?w2 = "?m\<lparr>sd_card := written_record s name (g + 1) data (sd_card w), g_sd_last_error := SD_OK\<rparr>"
  have rec: "rwfs_write_record (rs_next_data_lba s) rb (rwfs_name_hash name) (g + 1) data ?m = (SD_OK, ?w2)"
    unfolding rb_def using write_record_ok [OF ok] by (simp add: written_record_def)
  have e: "new_entry name (rs_next_data_lba s) ?len (g + 1) ?crc rb = e"
    by (simp add: e_def written_entry_def rb_def)
  define w3 where "w3 = ?w2\<lparr>sd_card := written_index s i e (sd_card ?w2), g_sd_last_error := SD_OK\<rparr>"
  have idx: "rwfs_write_index_entry s i e ?w2 = (SD_OK, w3)"
    unfolding w3_def using ok slot(2) by (intro write_index_entry_ok) simp_all
  define w4 where "w4 = upd_fs (\<lambda>f. f\<lparr>fs_entries := (fs_entries f)[i := e],
    fs_super := advance_super rb (fs_super f)\<rparr>) w3"
  have s4: "fs_super (g_rwfs ?w2) = s" "fs_super (g_rwfs w3) = s" "advance_super rb s = written_super s data"
    by (simp_all add: w3_def written_super_def rb_def)
  have ok4: "sd_ok w4" using ok by (simp add: w4_def w3_def)
  let ?w5 = "upd_fs (\<lambda>f. f\<lparr>fs_last_err := SD_OK\<rparr>) (w4\<lparr>sd_card := (sd_card w4)
     (rs_region_start_lba (written_super s data) := super_block (written_super s data),
      rs_region_start_lba (written_super s data) + 1 := super_block (written_super s data)), g_sd_last_error := SD_OK\<rparr>)"
  have "rwfs_write_all_atomic (Some name) (Some data) ?len w = (SD_OK, ?w5)"
    unfolding rwfs_write_all_atomic_def rwfs_mount_ok [OF ready] Let_def option.sel option.case prod.case slot' len rb
    using name room
    by (simp add: rec e idx s4 w4_def [symmetric] write_super_both_ok [OF ok4] del: of_nat_add of_nat_Suc)
  then show ?thesis
    by (rule that) (use ok in \<open>simp_all add: written_card_def written_super_def w4_def w3_def e_def\<close>)
qed


text \<open>The blocks of the card after a write, by their offset in the partition.\<close>

lemma written_card_at:
  fixes c :: "u32 \<Rightarrow> block"
  assumes st: "rs_region_start_lba s = start" "rs_index_start_lba s = start + 2" and i: "i < 32"
    and k: "k < 4294967296"
  shows "written_card s i name gen data c (start + of_nat k) =
    (if k < 2 then super_block (written_super s data)
     else if k = 2 + i div 8
       then put_bytes (60 * (i mod 8)) (entry_bytes (written_entry s name gen data))
              (written_record s name gen data c (start + of_nat k))
     else written_record s name gen data c (start + of_nat k))"
proof -
  have d: "i div 8 < 4" using i by auto
  have ib: "start + 2 + of_nat (i div 8) = start + of_nat (2 + i div 8)" by simp
  have one: "start + 1 = start + of_nat 1" and zero: "start = start + of_nat 0" by simp_all
  have eq: "start + of_nat k = start + of_nat j \<longleftrightarrow> k = j" if "j < 6" for j
    using k that by (intro lba_inj) simp_all
  show ?thesis
    unfolding written_card_def written_index_def Let_def st ib fun_upd_apply one
    using eq [of 0] eq [of 1] eq [of "2 + i div 8"] d by (auto simp del: of_nat_add of_nat_1)
qed

lemma written_super_ready:
  assumes "rwfs_super_valid s" "fs_fits s data"
  shows "rwfs_super_valid (written_super s data)"
proof -
  define rb :: u32 where "rb = of_nat (length (chunks512 data) + 2)"
  have room: "\<not> rs_next_data_lba s + rb > rs_region_start_lba s + rs_region_blocks s"
    using fs_fits_check [OF assms(2)] unfolding rb_def by simp
  have "unat (rs_next_data_lba s) + (length (chunks512 data) + 2) < 4294967296"
    using assms(2) unat_u32_lt [of "rs_region_start_lba s + rs_region_blocks s"]
    unfolding fs_fits_def by linarith
  moreover have "unat rb = length (chunks512 data) + 2"
    unfolding rb_def unat_of_nat using calculation by (intro mod_less) simp
  ultimately have "unat (rs_next_data_lba s + rb) = unat (rs_next_data_lba s) + unat rb"
    by (intro unat_add_small) simp
  then have "rs_next_data_lba s \<le> rs_next_data_lba s + rb" by (simp add: word_le_nat_alt)
  then show ?thesis
    using assms(1) room unfolding written_super_def rb_def [symmetric]
    by (auto simp: rwfs_super_valid_def advance_super_def super_words_def Let_def split: if_splits)
qed

lemma written_super_sel [simp]:
  "rs_region_start_lba (written_super s data) = rs_region_start_lba s"
  "rs_region_blocks (written_super s data) = rs_region_blocks s"
  "rs_index_start_lba (written_super s data) = rs_index_start_lba s"
  "rs_data_start_lba (written_super s data) = rs_data_start_lba s"
  "rs_entry_count (written_super s data) = rs_entry_count s"
  by (simp_all add: written_super_def advance_super_def Let_def)

lemma length_name_copy [simp]: "length (rwfs_name_copy n) = 32"
proof -
  have "length (takeWhile (\<lambda>c. c \<noteq> CHR 0x00) (take 31 n)) \<le> 31"
    by (rule order_trans [OF length_takeWhile_le]) simp
  then show ?thesis by (simp add: rwfs_name_copy_def Let_def)
qed

lemma crc_sealed_ok: "length (re_name e) = 32 \<Longrightarrow> entry_ok (e\<lparr>re_entry_crc := rwfs_entry_crc e\<rparr>)"
  by (simp add: entry_ok_def)

lemma written_entry_ok: "entry_ok (written_entry s name g data)"
  unfolding written_entry_def new_entry_def Let_def by (rule crc_sealed_ok) simp

lemma written_entry_sel [simp]:
  "re_name (written_entry s name g data) = rwfs_name_copy name"
  "re_state (written_entry s name g data) = RWFS_ENTRY_LIVE"
  "re_data_lba (written_entry s name g data) = rs_next_data_lba s"
  "re_data_len (written_entry s name g data) = of_nat (length data)"
  "re_generation (written_entry s name g data) = g"
  "re_content_crc (written_entry s name g data) = rwfs_checksum_bytes data"
  "re_record_blocks (written_entry s name g data) = of_nat (length (chunks512 data) + 2)"
  by (simp_all add: written_entry_def new_entry_def Let_def)

text \<open>A name found under itself.\<close>

lemma streq_loop_same: "\<forall>i\<in>set is. cch a i = cch b i \<Longrightarrow> streq_loop a b is"
  by (induction "is") auto

lemma streq_name_copy:
  assumes "rwfs_name_valid (Some name)" "CHR 0x00 \<notin> set name"
  shows "rwfs_streq_name (rwfs_name_copy name) name"
proof -
  have free: "takeWhile (\<lambda>c. c \<noteq> CHR 0x00) (take k name) = take k name" for k
    using assms(2) by (auto simp: takeWhile_eq_all_conv dest: in_set_takeD)
  have "length name < 32"
    using assms(1) by (simp add: rwfs_name_valid_def rwfs_strnlen_def free Let_def split: if_splits)
  then have "rwfs_name_copy name = name @ replicate (32 - length name) (CHR 0x00)"
    unfolding rwfs_name_copy_def free Let_def by simp
  then show ?thesis unfolding rwfs_streq_name_def
    by (intro streq_loop_same) (auto simp: cch_def nth_append)
qed

text \<open>The slot of a file, and where the next search finds it.\<close>

lemma find_upt: "find P [0..<n] = Some i \<longleftrightarrow> i < n \<and> P i \<and> (\<forall>j<i. \<not> P j)"
  by (auto simp: find_Some_iff)

lemma find_entry_after:
  assumes slot: "fs_slot name f = Some (i, g)" and e: "re_state e = RWFS_ENTRY_LIVE" "rwfs_streq_name (re_name e) name"
    and n: "unat (rs_entry_count (fs_super f)) \<le> length (fs_entries f)"
      "rs_entry_count (fs_super f') = rs_entry_count (fs_super f)"
    and upd: "fs_entries f' = (fs_entries f)[i := e]"
  shows "rwfs_find_entry name f' = Some i"
proof -
  let ?P = "\<lambda>j. re_state (fs_entries f ! j) = RWFS_ENTRY_LIVE \<and> rwfs_streq_name (re_name (fs_entries f ! j)) name"
  have "i < unat (rs_entry_count (fs_super f)) \<and> (\<forall>j<i. \<not> ?P j)"
  proof (cases "rwfs_find_entry name f")
    case None
    then have "\<forall>j<unat (rs_entry_count (fs_super f)). \<not> ?P j"
      unfolding rwfs_find_entry_def find_None_iff by auto
    moreover have "i < unat (rs_entry_count (fs_super f))"
      using slot None by (auto simp: fs_slot_def rwfs_find_free_entry_def find_upt split: option.splits)
    ultimately show ?thesis by auto
  next
    case (Some a)
    then have "a = i" using slot by (simp add: fs_slot_def)
    with Some show ?thesis unfolding rwfs_find_entry_def find_upt by auto
  qed
  with n e show ?thesis unfolding rwfs_find_entry_def find_upt n(2) upd by auto
qed

section \<open>Reading back what was written\<close>

lemma written_index_loaded:
  fixes c :: "u32 \<Rightarrow> block"
  assumes st: "rs_region_start_lba s = start" "rs_index_start_lba s = start + 2" "i < 32"
    and len: "\<forall>k<4. length (c (start + 2 + of_nat k)) = 512" "length ents = 34"
    and keep: "\<forall>k. 2 \<le> k \<and> k < 6 \<longrightarrow> written_record s name g data c (start + of_nat k) = c (start + of_nat k)"
  shows "load_all (written_card s i name g data c) (written_super s data)
      ((load_all c s ents)[i := written_entry s name g data]) =
    (load_all c s ents)[i := written_entry s name g data]"
proof (rule nth_equalityI)
  let ?e = "written_entry s name g data" and ?C = "written_card s i name g data c"
  let ?L = "(load_all c s ents)[i := ?e]"
  have L: "length ?L = 34" using len(2) by (simp add: length_load_all)
  then show "length (load_all ?C (written_super s data) ?L) = length ?L" by (simp add: length_load_all)
  fix j assume "j < length (load_all ?C (written_super s data) ?L)"
  then have j: "j < 34" using L by (simp add: length_load_all)
  show "load_all ?C (written_super s data) ?L ! j = ?L ! j"
  proof (cases "j < 32")
    case True
    have d: "j div 8 < 4" using True by auto
    let ?k = "2 + j div 8"
    have lba: "start + 2 + of_nat (j div 8) = start + of_nat ?k" by simp
    have blk: "length (c (start + of_nat ?k)) = 512" using len(1) d unfolding lba [symmetric] by blast
    have kept: "written_record s name g data c (start + of_nat ?k) = c (start + of_nat ?k)"
      using d by (intro keep [rule_format]) simp
    have C: "?C (start + of_nat ?k) =
        (if j div 8 = i div 8 then put_bytes (60 * (i mod 8)) (entry_bytes ?e) (c (start + of_nat ?k))
         else c (start + of_nat ?k))"
      using written_card_at [OF st, of ?k name g data c] d unfolding kept by (auto simp del: of_nat_add)
    have "load_entry (?C (start + of_nat ?k)) (j mod 8) =
        (if j = i then ?e else load_entry (c (start + of_nat ?k)) (j mod 8))"
    proof (cases "j div 8 = i div 8")
      case True
      have "j mod 8 = i mod 8 \<longleftrightarrow> j = i"
      proof
        assume "j mod 8 = i mod 8"
        with True show "j = i" by (metis div_mult_mod_eq)
      qed simp
      with True show ?thesis
        unfolding C using load_entry_put [OF written_entry_ok _ _ blk, of "i mod 8" "j mod 8"] by simp
    next
      case False
      then show ?thesis unfolding C by auto
    qed
    with True j show ?thesis
      unfolding load_all_nth [OF L j] written_super_sel st(2) lba
      by (auto simp: load_all_nth [OF len(2) j] nth_list_update length_load_all len(2) st(2) add.assoc)
  qed (use j L in \<open>simp add: load_all_nth\<close>)
qed

lemma data_block_ok_written:
  "data_block_ok magic (rwfs_name_hash name) (written_entry s name g data)
     (words_bytes (data_words magic (rwfs_name_hash name) g (of_nat (length data)) (rwfs_checksum_bytes data)))"
  "data_words magic h g l crc ! 5 = crc"
  by (simp_all add: data_block_ok_def data_words_def Let_def del: words_bytes_simps)

text \<open>The record of the new file on the card, block by block, and the frame of the write.\<close>

lemma fs_written:
  fixes w :: "'a fs_world_scheme" and name :: string and g :: u32
  assumes ready: "fs_ready s w" and fits: "fs_fits s data" and i: "i < 32"
  defines "start \<equiv> d_rwfs_start_lba (g_rwos_disk w)"
    and "C \<equiv> written_card s i name g data (sd_card w)"
    and "hash \<equiv> rwfs_name_hash name"
  shows "C (rs_next_data_lba s) =
      words_bytes (data_words RWFS_FDAT_MAGIC hash g (of_nat (length data)) (rwfs_checksum_bytes data))"
    and "k < length (chunks512 data) \<Longrightarrow> C (rs_next_data_lba s + 1 + of_nat k) = pad512 (chunks512 data ! k)"
    and "C (rs_next_data_lba s + of_nat (length (chunks512 data) + 2) - 1) =
      words_bytes (data_words RWFS_FDEN_MAGIC hash g (of_nat (length data)) (rwfs_checksum_bytes data))"
    and "2 \<le> k \<Longrightarrow> start + of_nat k < rs_next_data_lba s \<Longrightarrow> unat start + k < 4294967296 \<Longrightarrow>
      written_record s name g data (sd_card w) (start + of_nat k) = sd_card w (start + of_nat k)"
    and "6 \<le> k \<Longrightarrow> k < 4294967296 \<Longrightarrow>
      C (start + of_nat k) = written_record s name g data (sd_card w) (start + of_nat k)"
proof -
  from fs_ready_next [OF ready] obtain r where
    r: "rs_next_data_lba s = start + of_nat r" "6 \<le> r" "unat (rs_next_data_lba s) = unat start + r"
      "unat (rs_region_start_lba s + rs_region_blocks s) < 4294967296"
    unfolding start_def by (metis unat_u32_lt)
  let ?n = "length (chunks512 data)"
  have st: "rs_region_start_lba s = start" "rs_index_start_lba s = start + 2"
    using ready by (simp_all add: fs_ready_def Let_def start_def)
  have fit: "r + ?n + 2 < 4294967296" using fits r unfolding fs_fits_def by linarith
  note look = record_card_lookup [OF refl fit, where start = start and hash = hash and gen = g and c = "sd_card w"]
  have wr: "written_record s name g data (sd_card w) = record_card (start + of_nat r) (of_nat (?n + 2)) hash g data (sd_card w)"
    by (simp add: written_record_def r(1) hash_def del: of_nat_add of_nat_Suc)
  show above: "C (start + of_nat k) = written_record s name g data (sd_card w) (start + of_nat k)"
    if "6 \<le> k" "k < 4294967296" for k
  proof -
    have "i div 8 < 4" using i by auto
    then have "k \<noteq> 2 + i div 8" using that by linarith
    then show ?thesis unfolding C_def written_card_at [OF st i that(2)] using that by simp
  qed
  show "C (rs_next_data_lba s) =
      words_bytes (data_words RWFS_FDAT_MAGIC hash g (of_nat (length data)) (rwfs_checksum_bytes data))"
    unfolding r(1) using above [of r] r(2) fit look(1) by (simp add: wr)
  show "C (rs_next_data_lba s + 1 + of_nat k) = pad512 (chunks512 data ! k)" if k: "k < ?n"
  proof -
    have l: "start + of_nat r + 1 + of_nat k = start + of_nat (r + 1 + k)" by simp
    have "C (start + of_nat (r + 1 + k)) = pad512 (chunks512 data ! k)"
      using above [of "r + 1 + k"] r(2) fit k look(2) [OF k] unfolding l wr by simp
    then show ?thesis unfolding r(1) l .
  qed
  show "C (rs_next_data_lba s + of_nat (?n + 2) - 1) =
      words_bytes (data_words RWFS_FDEN_MAGIC hash g (of_nat (length data)) (rwfs_checksum_bytes data))"
  proof -
    have l: "start + of_nat r + of_nat (?n + 2) - 1 = start + of_nat (r + ?n + 1)" by simp
    show ?thesis unfolding r(1) l using above [of "r + ?n + 1"] r(2) fit look(3) unfolding wr l by simp
  qed
  show "written_record s name g data (sd_card w) (start + of_nat k) = sd_card w (start + of_nat k)"
    if "2 \<le> k" "start + of_nat k < rs_next_data_lba s" "unat start + k < 4294967296"
  proof -
    have "unat (of_nat k :: u32) = k" using that(3) by (simp add: unat_of_nat)
    then have "unat (start + of_nat k) = unat start + k" using that(3) by (simp add: unat_add_small)
    then have "k < r" using that(2) r(3) by (simp add: word_less_nat_alt)
    with that(3) show ?thesis unfolding wr by (intro look(4)) auto
  qed
qed

lemma fs_ready_after:
  fixes w :: "'a fs_world_scheme"
  assumes ready: "fs_ready s w" and fits: "fs_fits s data" and i: "i < 32"
    and card': "sd_card w' = written_card s i name g data (sd_card w)"
    and ents: "fs_entries (g_rwfs w') = (fs_entries (g_rwfs (fs_mount s w)))[i := written_entry s name g data]"
    and same: "sd_ok w'" "sd_detected w' = sd_detected w" "g_sd_ctx w' = g_sd_ctx w" "g_rwos_disk w' = g_rwos_disk w"
      "g_rwos_disk_valid w' = g_rwos_disk_valid w"
  shows "fs_ready (written_super s data) w' \<and>
    fs_entries (g_rwfs (fs_mount (written_super s data) w')) = fs_entries (g_rwfs w')"
proof -
  let ?st = "d_rwfs_start_lba (g_rwos_disk w)" and ?c = "sd_card w" and ?s' = "written_super s data"
  have st: "rs_region_start_lba s = ?st" "rs_index_start_lba s = ?st + 2"
    and len: "\<forall>k<4. length (?c (?st + 2 + of_nat k)) = 512" "length (fs_entries (g_rwfs w)) = 34"
    and val: "rwfs_super_valid s" and blocks: "d_rwfs_blocks (g_rwos_disk w) > 6"
      "unat ?st + unat (d_rwfs_blocks (g_rwos_disk w)) < 4294967296"
    and free: "\<forall>j\<in>{32, 33}. re_state (fs_entries (g_rwfs w) ! j) = RWFS_ENTRY_FREE"
    using ready by (simp_all add: fs_ready_def Let_def)
  note at = written_card_at [OF st i, where name = name and gen = g and data = data and c = ?c]
  from fs_ready_next [OF ready] obtain r where
    r: "rs_next_data_lba s = ?st + of_nat r" "6 \<le> r" "unat (rs_next_data_lba s) = unat ?st + r" by metis
  have keep: "written_record s name g data ?c (?st + of_nat k) = ?c (?st + of_nat k)" if "2 \<le> k" "k < 6" for k
  proof (rule fs_written(4) [OF ready fits i that(1)])
    have u: "unat ?st + k < 4294967296" using blocks that by (simp add: word_less_nat_alt)
    then show "unat ?st + k < 4294967296" .
    have "unat (?st + of_nat k) = unat ?st + k"
      using u by (subst unat_add_small) (simp_all add: unat_of_nat)
    then show "?st + of_nat k < rs_next_data_lba s" using r that by (simp add: word_less_nat_alt)
  qed
  have sup: "sd_card w' ?st = super_block ?s'" "sd_card w' (?st + 1) = super_block ?s'"
    unfolding card' using at [of 0] at [of 1] by simp_all
  have idx: "length (sd_card w' (?st + 2 + of_nat k)) = 512" if "k < 4" for k
  proof -
    have "length (written_record s name g data ?c (?st + of_nat (2 + k))) = 512"
      unfolding keep [of "2 + k", OF le_add1, simplified] using that len(1) keep [of "2 + k"] by (simp add: add.assoc)
    moreover have "60 * (i mod 8) + length (entry_bytes (written_entry s name g data)) \<le> 512"
      by (simp add: length_entry_bytes)
    ultimately have "length (put_bytes (60 * (i mod 8)) (entry_bytes (written_entry s name g data))
        (written_record s name g data ?c (?st + of_nat (2 + k)))) = 512"
      "length (written_record s name g data ?c (?st + of_nat (2 + k))) = 512"
      using length_put_bytes by metis+
    then have "length (sd_card w' (?st + of_nat (2 + k))) = 512"
      unfolding card' using at [of "2 + k"] that by auto
    then show ?thesis by (simp add: add.assoc)
  qed
  have E: "fs_entries (g_rwfs w') = (load_all ?c s (fs_entries (g_rwfs w)))[i := written_entry s name g data]"
    using ents by simp
  have "re_state (fs_entries (g_rwfs w') ! j) = RWFS_ENTRY_FREE" if "j \<in> {32, 33}" for j
    using that i free unfolding E by (auto simp: load_all_nth [OF len(2)] length_load_all [OF len(2)])
  moreover have "mirror_best parse_super rs_generation (sd_card w' ?st) (sd_card w' (?st + 1)) = Some ?s'"
    unfolding sup by (rule sm.best_both [OF written_super_ready [OF val fits]])
  moreover have "length (fs_entries (g_rwfs w')) = 34" unfolding E by (simp add: length_load_all [OF len(2)])
  ultimately have "fs_ready ?s' w'"
    using ready idx same written_super_ready [OF val fits] by (simp add: fs_ready_def Let_def)
  moreover have "fs_entries (g_rwfs (fs_mount ?s' w')) = fs_entries (g_rwfs w')"
    using written_index_loaded [OF st i len, of name g data] keep by (simp add: card' E)
  ultimately show ?thesis ..
qed

lemma rwfs_read_written:
  fixes w :: "'a fs_world_scheme"
  assumes ready: "fs_ready s w" and rec: "rwfs_find_entry name (g_rwfs (fs_mount s w)) = Some i"
    and e: "fs_entries (g_rwfs (fs_mount s w)) ! i = written_entry s0 name g data"
    and name: "rwfs_name_valid (Some name)" and cap: "length data \<le> unat cap" "length data < 4294967296"
    and blocks: "sd_card w (rs_next_data_lba s0) =
        words_bytes (data_words RWFS_FDAT_MAGIC (rwfs_name_hash name) g (of_nat (length data)) (rwfs_checksum_bytes data))"
      "\<forall>k<length (chunks512 data). sd_card w (rs_next_data_lba s0 + 1 + of_nat k) = pad512 (chunks512 data ! k)"
      "sd_card w (rs_next_data_lba s0 + of_nat (length (chunks512 data) + 2) - 1) =
        words_bytes (data_words RWFS_FDEN_MAGIC (rwfs_name_hash name) g (of_nat (length data)) (rwfs_checksum_bytes data))"
  shows "fst (rwfs_read_all (Some name) True cap w) = (SD_OK, data)"
proof -
  let ?m = "fs_mount s w" and ?m1 = "(fs_mount s w)\<lparr>g_sd_last_error := SD_OK\<rparr>"
  let ?e = "written_entry s0 name g data"
  have ok: "sd_ok ?m" "sd_ok ?m1" using ready by (simp_all add: fs_ready_def Let_def)
  have len: "unat (of_nat (length data) :: u32) = length data" using cap by (simp add: unat_of_nat)
  then have c: "\<not> re_data_len ?e > cap" using cap by (simp add: word_less_nat_alt)
  have pay: "rwfs_read_payload (rs_next_data_lba s0 + 1) (length data) ?m1 = ((SD_OK, data), ?m1)"
    using read_payload_ok [OF ok(2), of data] blocks(2) by simp
  define l where "l = rs_next_data_lba s0 + re_record_blocks ?e - 1"
  have tl: "sd_card w l = words_bytes (data_words RWFS_FDEN_MAGIC (rwfs_name_hash name) g
      (of_nat (length data)) (rwfs_checksum_bytes data))" unfolding l_def using blocks(3) by simp
  have rd: "sd_read1 l ?m1 = ((SD_OK, Some (sd_card ?m1 l)), ?m1)"
    "sd_read1 (rs_next_data_lba s0) ?m = ((SD_OK, Some (sd_card w (rs_next_data_lba s0))), ?m1)"
    using ok by (simp_all add: sd_simps)
  show ?thesis
    unfolding rwfs_read_all_def rwfs_mount_ok [OF ready] option.sel prod.case rec option.case e Let_def
    using name c
    by (simp add: rd(2) blocks(1) data_block_ok_written len pay l_def [symmetric] rd(1) tl
        del: written_entry_sel(7) words_bytes_simps)
qed

text \<open>C4: A file that is written is read back byte for byte: on a mounted card without faults,
  for a valid name, data that fits and an index slot that exists on the card,
  \<open>rwfs_write_all_atomic\<close> succeeds, the card is again a good file system whose next
  record goes behind the new one, a following \<open>rwfs_read_all\<close> with a large enough buffer
  returns exactly the data, and no block of the data area below the old
  allocation pointer (no earlier record) changes.\<close>

theorem rwfs_write_read:
  fixes w :: "'a fs_world_scheme"
  assumes ready: "fs_ready s w" and name: "rwfs_name_valid (Some name)" "CHR 0x00 \<notin> set name"
    and fits: "fs_fits s data" and slot: "fs_slot name (g_rwfs (fs_mount s w)) = Some (i, g)" "i < 32"
    and cap: "length data \<le> unat cap"
  shows "\<exists>w' s'. rwfs_write_all_atomic (Some name) (Some data) (of_nat (length data)) w = (SD_OK, w') \<and>
    fs_ready s' w' \<and> rs_next_data_lba s' = rs_next_data_lba s + of_nat (length (chunks512 data) + 2) \<and>
    fst (rwfs_read_all (Some name) True cap w') = (SD_OK, data) \<and>
    (\<forall>lba. d_rwfs_start_lba (g_rwos_disk w) + 6 \<le> lba \<and> lba < rs_next_data_lba s \<longrightarrow> sd_card w' lba = sd_card w lba)"
proof -
  let ?start = "d_rwfs_start_lba (g_rwos_disk w)" and ?s' = "written_super s data"
  obtain w' where w': "rwfs_write_all_atomic (Some name) (Some data) (of_nat (length data)) w = (SD_OK, w')"
    and C: "sd_card w' = written_card s i name (g + 1) data (sd_card w)"
    and E: "fs_entries (g_rwfs w') = (fs_entries (g_rwfs (fs_mount s w)))[i := written_entry s name (g + 1) data]"
    and same: "sd_ok w'" "sd_detected w' = sd_detected w" "g_sd_ctx w' = g_sd_ctx w" "g_rwos_disk w' = g_rwos_disk w"
      "g_rwos_disk_valid w' = g_rwos_disk_valid w"
    using rwfs_write_ok [OF ready name(1) fits slot] by metis
  note after = fs_ready_after [OF ready fits slot(2) C E same]
  note W = fs_written [OF ready fits slot(2), where name = name and g = "g + 1"]
  have ents: "length (fs_entries (g_rwfs (fs_mount s w))) = 34"
    and count: "rs_entry_count s = 34"
    using ready by (auto simp: fs_ready_def Let_def length_load_all rwfs_super_valid_def split: if_splits)
  let ?m' = "fs_mount ?s' w'"
  have found: "rwfs_find_entry name (g_rwfs ?m') = Some i"
    by (rule find_entry_after [OF slot(1), where e = "written_entry s name (g + 1) data"])
      (use after E ents count streq_name_copy [OF name] in simp_all)
  have e: "fs_entries (g_rwfs ?m') ! i = written_entry s name (g + 1) data"
    using after E slot(2) ents by simp
  have "length data < 4294967296" using fits by (simp add: fs_fits_def)
  then have rd: "fst (rwfs_read_all (Some name) True cap w') = (SD_OK, data)"
    using after W(1-3) by (intro rwfs_read_written [OF _ found e name(1) cap]) (simp_all only: C, simp_all)
  have frame: "sd_card w' lba = sd_card w lba"
    if l: "?start + 6 \<le> lba" "lba < rs_next_data_lba s" for lba
  proof -
    from fs_ready_next [OF ready] have b: "unat ?start + 6 < 4294967296"
      using ready by (auto simp: fs_ready_def Let_def word_less_nat_alt)
    then have "unat (?start + 6) = unat ?start + 6" by (simp add: unat_add_small)
    then have k: "unat ?start + 6 \<le> unat lba" using l(1) by (simp add: word_le_nat_alt)
    then have lba: "lba = ?start + of_nat (unat lba - unat ?start)" by (simp add: of_nat_diff)
    have "unat lba - unat ?start < 4294967296" using unat_u32_lt [of lba] by linarith
    with k l(2) lba W(4) [of "unat lba - unat ?start"] W(5) [of "unat lba - unat ?start"]
      unat_u32_lt [of lba] show ?thesis unfolding C by (simp del: of_nat_diff)
  qed
  have "rs_next_data_lba ?s' = rs_next_data_lba s + of_nat (length (chunks512 data) + 2)"
    by (simp add: written_super_def advance_super_def Let_def)
  with w' after rd frame show ?thesis by blast
qed

text \<open>A freshly formatted card, mounted or not.\<close>

lemma fresh_super_valid:
  "6 < blocks \<Longrightarrow> unat start + unat blocks < 4294967296 \<Longrightarrow> rwfs_super_valid (fresh_super start blocks)"
  using unat_add_small [of start 6] unat_add_small [of start blocks]
  by (auto simp: rwfs_super_valid_def fresh_super_def Let_def super_words_def word_less_nat_alt)

lemma load_entry_blank: "j < 8 \<Longrightarrow> re_state (load_entry (replicate 512 0) j) = RWFS_ENTRY_FREE"
proof -
  assume "j < 8"
  then have "take 60 (drop (60 * j) (replicate 512 (0 :: u8))) = replicate 60 0" by simp
  moreover have "re_state (bytes_entry (replicate 60 0)) = 0" by code_simp
  ultimately show ?thesis by (simp add: load_entry_def Let_def)
qed

definition zero_entry :: rwfs_entry where
  "zero_entry = \<lparr> re_name = replicate 32 (CHR 0x00), re_state = 0, re_data_lba = 0, re_data_len = 0,
     re_generation = 0, re_content_crc = 0, re_record_blocks = 0, re_entry_crc = 0 \<rparr>"

definition fs_power_on :: "u32 \<Rightarrow> u32 \<Rightarrow> (u32 \<Rightarrow> block) \<Rightarrow> fs_world" where
  "fs_power_on start blocks c =
     (jrnl_world.extend (jrnl_power_on c (\<lambda>_. IoOk) 100000) (fs_world.fields
        \<lparr> fs_mounted = False, fs_formatted = False, fs_last_err = 0,
          fs_super = words_super (replicate 128 0), fs_entries = replicate 34 zero_entry \<rparr>))
     \<lparr>g_rwos_disk := (words_disk (replicate 128 0))\<lparr>d_rwfs_start_lba := start, d_rwfs_blocks := blocks\<rparr>,
      g_rwos_disk_valid := True\<rparr>"

lemma fs_power_on_sel [simp]:
  "sd_ok (fs_power_on a b c)" "sd_detected (fs_power_on a b c)" "sd_card (fs_power_on a b c) = c"
  "ctx_operation (g_sd_ctx (fs_power_on a b c)) = SD_OP_NONE"
  "ctx_status (g_sd_ctx (fs_power_on a b c)) = DRV_IDLE" "g_rwos_disk_valid (fs_power_on a b c)"
  "d_rwfs_start_lba (g_rwos_disk (fs_power_on a b c)) = a" "d_rwfs_blocks (g_rwos_disk (fs_power_on a b c)) = b"
  "fs_entries (g_rwfs (fs_power_on a b c)) = replicate 34 zero_entry"
  by (simp_all add: fs_power_on_def jrnl_power_on_def disk_power_on_def disk_world.defs jrnl_world.defs
      fs_world.defs sd_ok_def)

text \<open>A card with the given four index blocks behind a fresh superblock at block 100.\<close>

definition fs_card :: "block \<Rightarrow> u32 \<Rightarrow> block" where
  "fs_card idx = (\<lambda>_. idx)(100 := super_block (fresh_super 100 64), 101 := super_block (fresh_super 100 64))"

lemma fs_card_ready:
  assumes "length idx = 512"
  shows "fs_ready (fresh_super 100 64) (fs_power_on 100 64 (fs_card idx))"
proof -
  have v: "rwfs_super_valid (fresh_super 100 64)" by (rule fresh_super_valid) simp_all
  have "fs_card idx 100 = super_block (fresh_super 100 64)" "fs_card idx (100 + 1) = super_block (fresh_super 100 64)"
    by (simp_all add: fs_card_def)
  then have "mirror_best parse_super rs_generation (fs_card idx 100) (fs_card idx (100 + 1)) = Some (fresh_super 100 64)"
    using sm.best_both [OF v] by simp
  moreover have "length (fs_card idx (100 + 2 + of_nat k)) = 512" if "k < 4" for k
  proof -
    have "k \<in> {0, 1, 2, 3}" using that by auto
    then show ?thesis using assms by (auto simp: fs_card_def)
  qed
  ultimately show ?thesis
    using v by (simp add: fs_ready_def Let_def fresh_super_def zero_entry_def)
qed

lemma fs_card_entries:
  assumes "j < 32"
  shows "fs_entries (g_rwfs (fs_mount (fresh_super 100 64) (fs_power_on 100 64 (fs_card idx)))) ! j =
    load_entry idx (j mod 8)"
proof -
  have "(102 :: u32) + of_nat (j div 8) \<notin> {100, 101}"
  proof -
    have "j div 8 \<in> {0, 1, 2, 3}" using assms by auto
    then show ?thesis by auto
  qed
  then show ?thesis using assms by (simp add: load_all_nth fs_card_def fresh_super_def)
qed

theorem rwfs_write_read_witness:
  "let s = fresh_super 100 64; w = fs_power_on 100 64 (fs_card (replicate 512 0)); data = [1, 2, 3] in
   \<exists>w' s'. rwfs_write_all_atomic (Some ''a.txt'') (Some data) (of_nat (length data)) w = (SD_OK, w') \<and>
    fs_ready s' w' \<and> rs_next_data_lba s' = rs_next_data_lba s + of_nat (length (chunks512 data) + 2) \<and>
    fst (rwfs_read_all (Some ''a.txt'') True 16 w') = (SD_OK, data) \<and>
    (\<forall>lba. d_rwfs_start_lba (g_rwos_disk w) + 6 \<le> lba \<and> lba < rs_next_data_lba s \<longrightarrow> sd_card w' lba = sd_card w lba)"
  unfolding Let_def
proof (rule rwfs_write_read [where i = 0 and g = 0])
  let ?f = "g_rwfs (fs_mount (fresh_super 100 64) (fs_power_on 100 64 (fs_card (replicate 512 0))))"
  have count: "unat (rs_entry_count (fs_super ?f)) = 34" by (simp add: fresh_super_def)
  have free: "re_state (fs_entries ?f ! j) = RWFS_ENTRY_FREE" if "j < 34" for j
  proof (cases "j < 32")
    case True
    then show ?thesis by (simp add: fs_card_entries load_entry_blank del: fs_mount_sel)
  next
    case False
    with that show ?thesis by (simp add: load_all_nth zero_entry_def)
  qed
  have "rwfs_find_entry ''a.txt'' ?f = None"
    unfolding rwfs_find_entry_def find_None_iff count using free by auto
  moreover have "rwfs_find_free_entry ?f = Some 0"
    unfolding rwfs_find_free_entry_def find_upt count using free by simp
  ultimately show "fs_slot ''a.txt'' ?f = Some (0, 0)" by (simp add: fs_slot_def)
  show "fs_fits (fresh_super 100 64) [1, 2, 3]" by (simp add: fs_fits_def fresh_super_def length_chunks512)
qed (simp_all add: fs_card_ready rwfs_name_valid_def rwfs_strnlen_def)

section \<open>The thirty-third file\<close>

text \<open>C21: The array in RAM has 34 entries but the four index blocks hold 32: once all 32
  are live under other names, writing a further file, however small, picks
  entry 32, writes the record to the data area and then fails with
  \<open>RWFS_ERR_CORRUPT\<close> instead of \<open>RWFS_ERR_FULL\<close>; superblock and index on the card are unchanged.\<close>

theorem rwfs_write_33rd_corrupt:
  fixes w :: "'a fs_world_scheme"
  assumes ready: "fs_ready s w" and name: "rwfs_name_valid (Some name)" and fits: "fs_fits s data"
    and full: "\<forall>j<32. re_state (fs_entries (g_rwfs (fs_mount s w)) ! j) = RWFS_ENTRY_LIVE \<and>
      \<not> rwfs_streq_name (re_name (fs_entries (g_rwfs (fs_mount s w)) ! j)) name"
  shows "\<exists>w'. rwfs_write_all_atomic (Some name) (Some data) (of_nat (length data)) w = (RWFS_ERR_CORRUPT, w') \<and>
    sd_card w' = written_record s name 1 data (sd_card w)"
proof -
  let ?m = "fs_mount s w" and ?len = "of_nat (length data) :: u32"
  define rb :: u32 where "rb = of_nat (length (chunks512 data) + 2)"
  have ok: "sd_ok ?m" using ready by (simp add: fs_ready_def Let_def)
  have len: "unat ?len = length data" and rb: "2 + rwfs_div_up ?len 512 = rb"
    and room: "\<not> rs_next_data_lba s + rb > rs_region_start_lba s + rs_region_blocks s"
    using fs_fits_check [OF fits] unfolding rb_def by simp_all
  have count: "unat (rs_entry_count (fs_super (g_rwfs ?m))) = 34"
    using ready by (simp add: fs_ready_def Let_def rwfs_super_valid_def split: if_splits)
  have ram: "re_state (fs_entries (g_rwfs ?m) ! j) = RWFS_ENTRY_FREE" if "j = 32 \<or> j = 33" for j
    using ready that by (auto simp: fs_ready_def Let_def load_all_nth)
  have none: "rwfs_find_entry name (g_rwfs ?m) = None"
    unfolding rwfs_find_entry_def find_None_iff count
  proof
    assume "\<exists>x. x \<in> set [0..<34] \<and> re_state (fs_entries (g_rwfs ?m) ! x) = RWFS_ENTRY_LIVE \<and>
      rwfs_streq_name (re_name (fs_entries (g_rwfs ?m) ! x)) name"
    then obtain x where x: "x < 34" "re_state (fs_entries (g_rwfs ?m) ! x) = RWFS_ENTRY_LIVE"
      "rwfs_streq_name (re_name (fs_entries (g_rwfs ?m) ! x)) name" by auto
    then have "\<not> x < 32" using full by blast
    then have "x = 32 \<or> x = 33" using x(1) by linarith
    with ram x(2) show False by fastforce
  qed
  have "re_state (fs_entries (g_rwfs ?m) ! j) \<noteq> RWFS_ENTRY_FREE" if "j < 32" for j
    using full that by simp
  then have free: "rwfs_find_free_entry (g_rwfs ?m) = Some 32"
    unfolding rwfs_find_free_entry_def find_upt count using ram by auto
  let ?w2 = "?m\<lparr>sd_card := written_record s name 1 data (sd_card w), g_sd_last_error := SD_OK\<rparr>"
  have rec: "rwfs_write_record (rs_next_data_lba s) rb (rwfs_name_hash name) 1 data ?m = (SD_OK, ?w2)"
    unfolding rb_def using write_record_ok [OF ok] by (simp add: written_record_def)
  have "rwfs_write_all_atomic (Some name) (Some data) ?len w = (RWFS_ERR_CORRUPT, ?w2)"
    unfolding rwfs_write_all_atomic_def rwfs_mount_ok [OF ready] Let_def option.sel option.case prod.case len rb none free
    using name room by (simp add: rec rwfs_write_index_entry_def rwfs_codes sd_codes)
  then show ?thesis by simp
qed

text \<open>An index with 32 files, all of them called \<open>x\<close>.\<close>

definition full_entry :: rwfs_entry where "full_entry = new_entry ''x'' 106 0 1 0 2"
definition full_index :: block where
  "full_index = concat (replicate 8 (entry_bytes full_entry)) @ replicate 32 0"

lemma full_entry_ok: "entry_ok full_entry"
  unfolding full_entry_def new_entry_def Let_def by (rule crc_sealed_ok) simp

lemma full_entry_bytes: "length (entry_bytes full_entry) = 60"
  using full_entry_ok by (simp add: entry_ok_def length_entry_bytes)

lemma full_index_entry:
  assumes "j < 8"
  shows "load_entry full_index j = full_entry"
proof -
  have "concat (replicate 8 (entry_bytes full_entry)) =
      concat (replicate j (entry_bytes full_entry)) @ entry_bytes full_entry @ concat (replicate (7 - j) (entry_bytes full_entry))"
  proof -
    have "(8 :: nat) = j + Suc (7 - j)" using assms by simp
    then have "replicate 8 (entry_bytes full_entry) =
        replicate j (entry_bytes full_entry) @ entry_bytes full_entry # replicate (7 - j) (entry_bytes full_entry)"
      by (metis replicate_Suc replicate_add)
    then show ?thesis by simp
  qed
  moreover have "length (concat (replicate j (entry_bytes full_entry))) = 60 * j"
    by (simp add: length_concat full_entry_bytes sum_list_replicate)
  ultimately have "take 60 (drop (60 * j) full_index) = entry_bytes full_entry"
    by (simp add: full_index_def full_entry_bytes)
  then show ?thesis
    using full_entry_ok by (simp add: load_entry_def Let_def bytes_entry_bytes entry_ok_def)
qed

theorem rwfs_write_33rd_corrupt_witness:
  "\<exists>w'. rwfs_write_all_atomic (Some ''y'') (Some [7]) (of_nat (length [7 :: u8])) (fs_power_on 100 64 (fs_card full_index)) =
      (RWFS_ERR_CORRUPT, w') \<and>
    sd_card w' = written_record (fresh_super 100 64) ''y'' 1 [7] (sd_card (fs_power_on 100 64 (fs_card full_index)))"
proof (rule rwfs_write_33rd_corrupt)
  have "length full_index = 512" by (simp add: full_index_def length_concat full_entry_bytes sum_list_replicate)
  then show "fs_ready (fresh_super 100 64) (fs_power_on 100 64 (fs_card full_index))" by (rule fs_card_ready)
  show "fs_fits (fresh_super 100 64) [7]" by (simp add: fs_fits_def fresh_super_def length_chunks512)
  show "\<forall>j<32. re_state (fs_entries (g_rwfs (fs_mount (fresh_super 100 64) (fs_power_on 100 64 (fs_card full_index)))) ! j) = 1 \<and>
      \<not> rwfs_streq_name (re_name (fs_entries (g_rwfs (fs_mount (fresh_super 100 64) (fs_power_on 100 64 (fs_card full_index)))) ! j)) ''y''"
  proof (intro allI impI)
    fix j :: nat
    assume "j < 32"
    then have "fs_entries (g_rwfs (fs_mount (fresh_super 100 64) (fs_power_on 100 64 (fs_card full_index)))) ! j = full_entry"
      by (simp add: fs_card_entries full_index_entry del: fs_mount_sel)
    moreover have "re_state full_entry = 1 \<and> \<not> rwfs_streq_name (re_name full_entry) ''y''"
      by code_simp
    ultimately show "re_state (fs_entries (g_rwfs (fs_mount (fresh_super 100 64) (fs_power_on 100 64 (fs_card full_index)))) ! j) = 1 \<and>
      \<not> rwfs_streq_name (re_name (fs_entries (g_rwfs (fs_mount (fresh_super 100 64) (fs_power_on 100 64 (fs_card full_index)))) ! j)) ''y''"
      by (simp only: simp_thms)
  qed
qed (simp add: rwfs_name_valid_def rwfs_strnlen_def)

end
