(* ===== verification/Bump.thy ===== *)
theory Bump
  imports Prelude
begin

text \<open>
  The bump allocator of \<open>bump.c\<close>.  The state is the break pointer; the two linker
  symbols \<open>_end\<close> and \<open>_sram_end\<close> are arguments.  Addresses and sizes are 32-bit
  and wrap, as on the target.
\<close>

definition align_up :: "u32 \<Rightarrow> u32 \<Rightarrow> u32" where
  "align_up n a = (n + (a - 1)) AND NOT (a - 1)"

definition bump_init :: "u32 \<Rightarrow> u32" where
  "bump_init end_sym = end_sym"

definition bump_alloc :: "u32 \<Rightarrow> u32 \<Rightarrow> u32 \<Rightarrow> u32 option \<times> u32" where
  "bump_alloc sram_end n brk =
     (let n1 = align_up n 8; p = brk in
      if brk + n1 > sram_end then (None, brk) else (Some p, brk + n1))"

fun bump_run :: "u32 \<Rightarrow> u32 list \<Rightarrow> u32 \<Rightarrow> (u32 \<times> u32) list \<times> u32" where
  "bump_run sram_end [] brk = ([], brk)"
| "bump_run sram_end (n # ns) brk =
     (case bump_alloc sram_end n brk of
        (None, brk1) \<Rightarrow> bump_run sram_end ns brk1
      | (Some p, brk1) \<Rightarrow> (case bump_run sram_end ns brk1 of (ps, brk2) \<Rightarrow> ((p, n) # ps, brk2)))"

lemma and_not_7: "unat (x AND - 8 :: u32) = unat x div 8 * 8"
proof -
  have m: "(- 8 :: u32) = NOT (mask 3)" by (simp add: mask_eq_exp_minus_1)
  have "x AND NOT (mask 3) = push_bit 3 (drop_bit 3 x)"
    by (rule bit_word_eqI) (auto simp: bit_simps)
  moreover have "unat (drop_bit 3 x) = unat x div 8" by (simp add: drop_bit_eq_div unat_div)
  moreover have "unat x div 8 * 8 < 4294967296" using unat_u32_lt [of x] by linarith
  ultimately show ?thesis
    by (simp add: m push_bit_eq_mult unat_mult_small mult.commute)
qed

lemma unat_align_up:
  assumes "unat n \<le> 4294967288"
  shows "unat (align_up n 8) = (unat n + 7) div 8 * 8"
proof -
  have "unat (n + 7) = unat n + 7" using assms by (subst unat_add_small) simp_all
  then show ?thesis by (simp add: align_up_def and_not_7)
qed

text \<open>A request small enough that neither the rounding nor the addition wraps.\<close>

definition request_ok :: "u32 \<Rightarrow> u32 \<Rightarrow> bool" where
  "request_ok sram_end n \<longleftrightarrow> unat sram_end + unat n + 7 < 4294967296"

lemma bump_alloc_bounds:
  assumes "request_ok sram_end n" "brk \<le> sram_end" "bump_alloc sram_end n brk = (r, brk')"
  shows "brk \<le> brk'" "brk' \<le> sram_end"
    "r = Some p \<Longrightarrow> p = brk \<and> unat brk + unat n \<le> unat brk' \<and> unat brk' mod 8 = unat brk mod 8"
    "r = None \<Longrightarrow> unat sram_end < unat brk + unat n + 7 \<and> brk' = brk"
proof -
  let ?m = "(unat n + 7) div 8 * 8"
  have m: "unat n \<le> ?m" "?m \<le> unat n + 7" by linarith+
  have n: "unat (align_up n 8) = ?m" using assms(1) by (intro unat_align_up) (simp add: request_ok_def)
  have a: "unat (brk + align_up n 8) = unat brk + ?m"
    using assms(1,2) m n by (subst unat_add_small) (auto simp: request_ok_def word_le_nat_alt)
  have "?m mod 8 = 0" by simp
  then have al: "(unat brk + ?m) mod 8 = unat brk mod 8" by (metis mod_add_right_eq add_0_right)
  show "brk \<le> brk'" "brk' \<le> sram_end"
    "r = Some p \<Longrightarrow> p = brk \<and> unat brk + unat n \<le> unat brk' \<and> unat brk' mod 8 = unat brk mod 8"
    "r = None \<Longrightarrow> unat sram_end < unat brk + unat n + 7 \<and> brk' = brk"
    using assms(2,3) a al m
    by (auto simp: bump_alloc_def Let_def word_le_nat_alt word_less_nat_alt split: if_splits)
qed

lemma bump_run_inv:
  assumes "list_all (request_ok sram_end) ns" "brk \<le> sram_end" "bump_run sram_end ns brk = (ps, brk')"
  shows "(\<forall>(p, n)\<in>set ps. unat brk \<le> unat p \<and> unat p + unat n \<le> unat sram_end \<and>
      unat p mod 8 = unat brk mod 8) \<and>
    sorted_wrt (\<lambda>(p, n) (q, m). unat p + unat n \<le> unat q) ps"
  using assms
proof (induction ns arbitrary: brk ps)
  case (Cons n ns)
  obtain r b1 where a: "bump_alloc sram_end n brk = (r, b1)" by fastforce
  note b = bump_alloc_bounds [OF _ Cons.prems(2) a]
  have ok: "request_ok sram_end n" using Cons.prems(1) by simp
  show ?case
  proof (cases r)
    case None
    with Cons.prems(3) a have "bump_run sram_end ns b1 = (ps, brk')" by simp
    from Cons.IH [OF _ b(2) [OF ok] this] Cons.prems(1) b(4) [OF ok None] show ?thesis by simp
  next
    case (Some p)
    with Cons.prems(3) a obtain qs where qs: "bump_run sram_end ns b1 = (qs, brk')" "ps = (p, n) # qs"
      by (auto split: prod.splits)
    from Cons.IH [OF _ b(2) [OF ok] qs(1)] Cons.prems(1) b(1,2) [OF ok] b(3) [OF ok Some] qs(2)
    show ?thesis by (fastforce simp: word_le_nat_alt)
  qed
qed simp

text \<open>The blocks handed out by any sequence of allocations lie inside
  [\<open>_end\<close>, \<open>_sram_end\<close>), do not overlap, and have the alignment of \<open>_end\<close> modulo 8,
  as long as every request is small enough not to wrap the address arithmetic.\<close>

theorem bump_blocks_disjoint:
  assumes "list_all (request_ok sram_end) ns" "end_sym \<le> sram_end"
    "bump_run sram_end ns (bump_init end_sym) = (ps, brk')"
  shows "(\<forall>(p, n)\<in>set ps. unat end_sym \<le> unat p \<and> unat p + unat n \<le> unat sram_end \<and>
      unat p mod 8 = unat end_sym mod 8) \<and>
    sorted_wrt (\<lambda>(p, n) (q, m). unat p + unat n \<le> unat q) ps"
  using bump_run_inv [OF assms(1,2) assms(3) [unfolded bump_init_def]] .

theorem bump_blocks_disjoint_witness:
  "unat (0x20000108 :: u32) + unat (16 :: u32) \<le> unat (0x2004FFC0 :: u32) \<and>
    unat (0x20000108 :: u32) mod 8 = unat (0x20000100 :: u32) mod 8 \<and>
    sorted_wrt (\<lambda>(p :: u32, n :: u32) (q :: u32, m :: u32). unat p + unat n \<le> unat q)
      [(0x20000100, 5), (0x20000108, 16)]"
proof -
  have "bump_run 0x2004FFC0 [5, 16, 0x50000] (bump_init 0x20000100) = ([(0x20000100, 5), (0x20000108, 16)], 0x20000118)"
    by (simp add: bump_init_def bump_alloc_def align_up_def)
  from bump_blocks_disjoint [OF _ _ this] show ?thesis by (auto simp: request_ok_def)
qed

text \<open>A request within 7 bytes of 2 ^ 32 rounds to 0 and succeeds without
  reserving anything, so the next allocation returns the same address.\<close>

theorem bump_alloc_huge_succeeds:
  assumes "0xFFFFFFF9 \<le> n" "brk \<le> sram_end"
  shows "bump_alloc sram_end n brk = (Some brk, brk)"
proof -
  obtain k where k: "unat n + 7 = k + 4294967296" "k < 8"
  proof
    show "unat n + 7 = (unat n + 7 - 4294967296) + 4294967296"
      using assms(1) by (simp add: word_le_nat_alt)
    show "unat n + 7 - 4294967296 < 8" using unat_u32_lt [of n] by linarith
  qed
  have "unat (n + 7) = (unat n + 7) mod 4294967296" by (simp add: unat_word_ariths)
  also have "\<dots> = k" unfolding k(1) using k(2) by simp
  finally have u: "unat (n + 7) < 8" using k(2) by simp
  then have "unat (align_up n 8) = 0" by (simp add: align_up_def and_not_7)
  then have "align_up n 8 = 0" by (simp add: unat_eq_0)
  with assms(2) show ?thesis by (simp add: bump_alloc_def)
qed

theorem bump_alloc_huge_succeeds_witness:
  "bump_alloc 0x2004FFC0 0xFFFFFFFF 0x20001000 = (Some 0x20001000, 0x20001000)"
  by (rule bump_alloc_huge_succeeds) simp_all

end
