(* ===== verification/Gap_Ring.thy ===== *)
theory Gap_Ring
  imports Ring_Fifo
begin

text \<open>
  The UART rings have no count: they are empty when head and tail meet, and
  full when one more step of the head would make them meet.
\<close>

definition gap_count :: "nat \<Rightarrow> nat \<Rightarrow> nat \<Rightarrow> nat" where
  "gap_count h t n = (if t \<le> h then h - t else h + n - t)"

lemma gap_count_less: "h < n \<Longrightarrow> t < n \<Longrightarrow> gap_count h t n < n"
  by (auto simp: gap_count_def)

lemma gap_count_0: "h < n \<Longrightarrow> t < n \<Longrightarrow> gap_count h t n = 0 \<longleftrightarrow> h = t"
  by (auto simp: gap_count_def)

lemma gap_head: "h < n \<Longrightarrow> t < n \<Longrightarrow> (t + gap_count h t n) mod n = h"
  by (auto simp: gap_count_def)

lemma gap_full: "h < n \<Longrightarrow> t < n \<Longrightarrow> Suc h mod n = t \<longleftrightarrow> gap_count h t n = n - 1"
  by (cases "Suc h = n") (auto simp: gap_count_def)

lemma gap_count_push: "h < n \<Longrightarrow> t < n \<Longrightarrow> Suc h mod n \<noteq> t \<Longrightarrow> gap_count (Suc h mod n) t n = Suc (gap_count h t n)"
  by (cases "Suc h = n") (auto simp: gap_count_def)

lemma gap_count_pop: "h < n \<Longrightarrow> t < n \<Longrightarrow> h \<noteq> t \<Longrightarrow> gap_count h (Suc t mod n) n = gap_count h t n - 1"
  by (cases "Suc t = n") (auto simp: gap_count_def)

definition gap_list :: "'a list \<Rightarrow> nat \<Rightarrow> nat \<Rightarrow> nat \<Rightarrow> 'a list" where
  "gap_list b n h t = ring_list b n t (gap_count h t n)"

lemma length_gap_list [simp]: "length (gap_list b n h t) = gap_count h t n"
  by (simp add: gap_list_def)

lemma gap_list_push [ring_simps]:
  assumes "h < n" "t < n" "n \<le> length b" "Suc h mod n \<noteq> t"
  shows "gap_list (b[h := x]) n (Suc h mod n) t = gap_list b n h t @ [x]"
  using ring_list_push [of "gap_count h t n" n b t x] gap_count_less [OF assms(1,2)] assms
  by (simp add: gap_list_def gap_head gap_count_push)

lemma gap_list_pop:
  assumes "h < n" "t < n" "h \<noteq> t"
  shows "gap_list b n h t = b ! t # gap_list b n h (Suc t mod n)"
  using ring_list_pop [of "gap_count h t n" t n b] gap_count_0 [OF assms(1,2)] assms
  by (simp add: gap_list_def gap_count_pop)

lemma gap_list_Nil: "h < n \<Longrightarrow> t < n \<Longrightarrow> gap_list b n h t = [] \<longleftrightarrow> h = t"
  by (simp add: gap_count_0 flip: length_0_conv)

end
