(* ===== verification/Uart_Async.thy ===== *)
theory Uart_Async
  imports Rwfs Bump Gap_Ring
begin

text \<open>
  The interrupt-driven UART of \<open>uart_async.c\<close>: the transmit and receive rings of
  \<open>g_uart_ctx\<close>, the interrupt handler and the calls of the main program.  A ring
  keeps one cell empty: it holds at most \<open>size - 1\<close> bytes.  The two registers the
  handler depends on are arguments (\<open>USART6_ISR\<close>, \<open>USART6_RDR\<close>), \<open>USART6_CR1\<close> is state,
  and a byte written to \<open>USART6_TDR\<close> joins the text \<open>w_uart\<close> on the line.  Between
  \<open>nvic_disable_irq\<close> and \<open>nvic_enable_irq\<close> the handler cannot run, so each such
  section is one step.
\<close>

record uart_context =
  uc_tx_buf :: "u8 list option"
  uc_tx_head :: u16
  uc_tx_tail :: u16
  uc_tx_size :: u16
  uc_tx_status :: drv_status
  uc_rx_buf :: "u8 list option"
  uc_rx_head :: u16
  uc_rx_tail :: u16
  uc_rx_size :: u16
  uc_rx_status :: drv_status
  uc_rx_event_pending :: bool
  uc_rx_event_post_fail :: u32
  uc_rx_overrun_count :: u32

record uart_world = fs_world +
  g_uart_ctx :: uart_context
  g_uart_sched :: bool
  g_uart_ao_id :: u8
  g_uart_rx_sig :: u16
  g_uart_tx_sched :: bool
  g_uart_tx_ao_id :: u8
  g_uart_tx_sig :: u16
  USART6_CR1 :: u32
  bump_brk :: u32

abbreviation (input) UART_TX_BUF_SIZE :: nat where "UART_TX_BUF_SIZE \<equiv> 256"
abbreviation (input) UART_RX_BUF_SIZE :: nat where "UART_RX_BUF_SIZE \<equiv> 128"
abbreviation (input) USART_CR1_RXNEIE :: u32 where "USART_CR1_RXNEIE \<equiv> 0x20"
abbreviation (input) USART_CR1_TCIE :: u32 where "USART_CR1_TCIE \<equiv> 0x40"
abbreviation (input) USART_CR1_TXEIE :: u32 where "USART_CR1_TXEIE \<equiv> 0x80"
abbreviation (input) USART_ISR_FE :: u32 where "USART_ISR_FE \<equiv> 0x02"
abbreviation (input) USART_ISR_NF :: u32 where "USART_ISR_NF \<equiv> 0x04"
abbreviation (input) USART_ISR_ORE :: u32 where "USART_ISR_ORE \<equiv> 0x08"
abbreviation (input) USART_ISR_RXNE :: u32 where "USART_ISR_RXNE \<equiv> 0x20"
abbreviation (input) USART_ISR_TC :: u32 where "USART_ISR_TC \<equiv> 0x40"
abbreviation (input) USART_ISR_TXE :: u32 where "USART_ISR_TXE \<equiv> 0x80"

definition upd_u :: "(uart_context \<Rightarrow> uart_context) \<Rightarrow> 'a uart_world_scheme \<Rightarrow> 'a uart_world_scheme" where
  "upd_u f w = w\<lparr>g_uart_ctx := f (g_uart_ctx w)\<rparr>"

definition sig_event :: "u16 \<Rightarrow> event" where
  "sig_event s = \<lparr> ev_sig = s, ev_src = 0, ev_arg0 = 0, ev_arg1 = 0, ev_tick = 0 \<rparr>"

definition uart_ctx_valid :: "uart_context \<Rightarrow> bool" where
  "uart_ctx_valid u =
     (if uc_tx_buf u = None \<or> uc_rx_buf u = None then False
      else if uc_tx_size u = 0 \<or> uc_rx_size u = 0 then False
      else if uc_tx_head u \<ge> uc_tx_size u \<or> uc_tx_tail u \<ge> uc_tx_size u then False
      else if uc_rx_head u \<ge> uc_rx_size u \<or> uc_rx_tail u \<ge> uc_rx_size u then False
      else True)"

section \<open>The two rings\<close>

definition uart_tx_put :: "u8 \<Rightarrow> uart_context \<Rightarrow> bool \<times> uart_context" where
  "uart_tx_put c u =
     (let next_head = ring_next16 (uc_tx_head u) (uc_tx_size u) in
      if next_head = uc_tx_tail u then (False, u)
      else (True, u\<lparr>uc_tx_buf := map_option (\<lambda>b. b[unat (uc_tx_head u) := c]) (uc_tx_buf u),
                    uc_tx_head := next_head, uc_tx_status := DRV_IN_PROGRESS\<rparr>))"

definition uart_tx_take :: "uart_context \<Rightarrow> u8 option \<times> uart_context" where
  "uart_tx_take u =
     (if uc_tx_head u \<noteq> uc_tx_tail u
      then (Some (the (uc_tx_buf u) ! unat (uc_tx_tail u)),
            u\<lparr>uc_tx_tail := ring_next16 (uc_tx_tail u) (uc_tx_size u)\<rparr>)
      else (None, u))"

definition uart_rx_put :: "u8 \<Rightarrow> uart_context \<Rightarrow> bool \<times> uart_context" where
  "uart_rx_put c u =
     (let next_head = ring_next16 (uc_rx_head u) (uc_rx_size u) in
      if next_head \<noteq> uc_rx_tail u
      then (True, u\<lparr>uc_rx_buf := map_option (\<lambda>b. b[unat (uc_rx_head u) := c]) (uc_rx_buf u),
                    uc_rx_head := next_head, uc_rx_status := DRV_IN_PROGRESS\<rparr>)
      else (False, u\<lparr>uc_rx_overrun_count := uc_rx_overrun_count u + 1\<rparr>))"

definition uart_rx_take :: "uart_context \<Rightarrow> u8 option \<times> uart_context" where
  "uart_rx_take u =
     (if uc_rx_head u = uc_rx_tail u then (None, u)
      else let u1 = u\<lparr>uc_rx_tail := ring_next16 (uc_rx_tail u) (uc_rx_size u)\<rparr>
           in (Some (the (uc_rx_buf u) ! unat (uc_rx_tail u)),
               if uc_rx_head u1 = uc_rx_tail u1 then u1\<lparr>uc_rx_status := DRV_IDLE\<rparr> else u1))"

section \<open>The interrupt handler\<close>

text \<open>The notification of a received byte, by the handler and by the injection.\<close>

definition uart_rx_notify ::
  "(u8 \<Rightarrow> event option \<Rightarrow> 'a uart_world_scheme \<Rightarrow> int \<times> 'a uart_world_scheme) \<Rightarrow> string \<Rightarrow> u32 \<Rightarrow>
   'a uart_world_scheme \<Rightarrow> 'a uart_world_scheme" where
  "uart_rx_notify post msg line w =
     (if g_uart_sched w \<and> \<not> uc_rx_event_pending (g_uart_ctx w)
      then if g_uart_rx_sig w = 0 then kernel_panic msg ''uart_async.c'' line w
           else case post (g_uart_ao_id w) (Some (sig_event (g_uart_rx_sig w)))
                       (upd_u (\<lambda>u. u\<lparr>uc_rx_event_pending := True\<rparr>) w) of (rc, w1) \<Rightarrow>
             if rc \<noteq> SCHED_OK
             then upd_u (\<lambda>u. u\<lparr>uc_rx_event_post_fail := uc_rx_event_post_fail u + 1,
                               uc_rx_event_pending := False\<rparr>) w1
             else w1
      else w)"

definition irq_rx :: "u32 \<Rightarrow> u32 \<Rightarrow> 'a uart_world_scheme \<Rightarrow> 'a uart_world_scheme" where
  "irq_rx status rdr w =
     (if status AND USART_ISR_RXNE \<noteq> 0 \<and> status AND (USART_ISR_FE OR USART_ISR_NF) \<noteq> 0
      then upd_u (\<lambda>u. u\<lparr>uc_rx_overrun_count := uc_rx_overrun_count u + 1\<rparr>) w
      else if status AND USART_ISR_RXNE \<noteq> 0
      then case uart_rx_put (ucast (rdr AND 0xFF)) (g_uart_ctx w) of (ok, u) \<Rightarrow>
             (if ok then uart_rx_notify sched_post_isr ''uart scheduler bound with zero signal'' 78 (w\<lparr>g_uart_ctx := u\<rparr>)
              else w\<lparr>g_uart_ctx := u\<rparr>)
      else w)"

definition irq_tx :: "u32 \<Rightarrow> u32 \<Rightarrow> 'a uart_world_scheme \<Rightarrow> 'a uart_world_scheme" where
  "irq_tx status cr1 w =
     (if status AND USART_ISR_TXE \<noteq> 0 \<and> cr1 AND USART_CR1_TXEIE \<noteq> 0
      then case uart_tx_take (g_uart_ctx w) of
             (Some b, u) \<Rightarrow> uart_puts [char_of_byte b] (w\<lparr>g_uart_ctx := u\<rparr>)
           | (None, u) \<Rightarrow> w\<lparr>USART6_CR1 := (cr1 AND NOT USART_CR1_TXEIE) OR USART_CR1_TCIE\<rparr>
      else w)"

definition irq_tc :: "u32 \<Rightarrow> u32 \<Rightarrow> 'a uart_world_scheme \<Rightarrow> 'a uart_world_scheme" where
  "irq_tc status cr1 w =
     (if status AND USART_ISR_TC \<noteq> 0 \<and> cr1 AND USART_CR1_TCIE \<noteq> 0
      then let w1 = upd_u (\<lambda>u. u\<lparr>uc_tx_status := DRV_IDLE\<rparr>)
                      (w\<lparr>USART6_CR1 := USART6_CR1 w AND NOT USART_CR1_TCIE\<rparr>)
           in if g_uart_tx_sched w1
              then if g_uart_tx_sig w1 = 0 then kernel_panic ''uart tx notifier zero signal'' ''uart_async.c'' 111 w1
                   else snd (sched_post_isr (g_uart_tx_ao_id w1) (Some (sig_event (g_uart_tx_sig w1))) w1)
              else w1
      else w)"

definition USART6_IRQHandler :: "u32 \<Rightarrow> u32 \<Rightarrow> 'a uart_world_scheme \<Rightarrow> 'a uart_world_scheme" where
  "USART6_IRQHandler status rdr w =
     (if \<not> uart_ctx_valid (g_uart_ctx w) then kernel_panic ''uart ctx invalid in irq'' ''uart_async.c'' 52 w
      else
        let cr1 = USART6_CR1 w;
            w1 = irq_rx status rdr w
        in if w_panic w1 \<noteq> None then w1
           else
             let w2 = (if status AND USART_ISR_ORE \<noteq> 0
                       then upd_u (\<lambda>u. u\<lparr>uc_rx_overrun_count := uc_rx_overrun_count u + 1\<rparr>) w1 else w1)
             in irq_tc status cr1 (irq_tx status cr1 w2))"

section \<open>The calls of the main program\<close>

text \<open>
  \<open>mem\<close> is what the SRAM above the break holds when the rings are allocated;
  \<open>heap_end\<close> the linker symbol \<open>_sram_end\<close>.
\<close>

definition uart_async_init :: "(u32 \<Rightarrow> u8) \<Rightarrow> u32 \<Rightarrow> 'a uart_world_scheme \<Rightarrow> 'a uart_world_scheme" where
  "uart_async_init mem heap_end w =
     (case bump_alloc heap_end (of_nat UART_TX_BUF_SIZE) (bump_brk w) of (tx, brk1) \<Rightarrow>
      case bump_alloc heap_end (of_nat UART_RX_BUF_SIZE) brk1 of (rx, brk2) \<Rightarrow>
        let buf = (\<lambda>n. map_option (\<lambda>p. map (\<lambda>i. mem (p + of_nat i)) [0..<n]));
            w1 = upd_u (\<lambda>u. u\<lparr>uc_tx_buf := buf UART_TX_BUF_SIZE tx, uc_rx_buf := buf UART_RX_BUF_SIZE rx\<rparr>)
                   (w\<lparr>bump_brk := brk2\<rparr>)
        in if tx = None \<or> rx = None then kernel_panic ''uart async alloc failed'' ''uart_async.c'' 122 w1
           else (upd_u (\<lambda>u. u\<lparr>uc_tx_size := of_nat UART_TX_BUF_SIZE, uc_rx_size := of_nat UART_RX_BUF_SIZE,
                     uc_tx_head := 0, uc_tx_tail := 0, uc_rx_head := 0, uc_rx_tail := 0,
                     uc_tx_status := DRV_IDLE, uc_rx_status := DRV_IDLE, uc_rx_event_pending := False,
                     uc_rx_event_post_fail := 0, uc_rx_overrun_count := 0\<rparr>) w1)
                \<lparr>g_uart_sched := False, g_uart_ao_id := 0, g_uart_rx_sig := 0,
                 g_uart_tx_sched := False, g_uart_tx_ao_id := 0, g_uart_tx_sig := 0,
                 USART6_CR1 := USART6_CR1 w1 OR USART_CR1_RXNEIE\<rparr>)"

definition uart_async_putc :: "char \<Rightarrow> 'a uart_world_scheme \<Rightarrow> bool \<times> 'a uart_world_scheme" where
  "uart_async_putc c w =
     (if \<not> uart_ctx_valid (g_uart_ctx w)
      then (False, kernel_panic ''uart ctx invalid in putc'' ''uart_async.c'' 150 w)
      else case uart_tx_put (byte_of c) (g_uart_ctx w) of (ok, u) \<Rightarrow>
        (ok, if ok then w\<lparr>g_uart_ctx := u, USART6_CR1 := USART6_CR1 w OR USART_CR1_TXEIE\<rparr> else w))"

fun uart_async_puts :: "string \<Rightarrow> 'a uart_world_scheme \<Rightarrow> int \<times> 'a uart_world_scheme" where
  "uart_async_puts [] w = (0, w)"
| "uart_async_puts (c # cs) w =
     (case uart_async_putc c w of (ok, w1) \<Rightarrow>
        if ok then (case uart_async_puts cs w1 of (n, w2) \<Rightarrow> (n + 1, w2)) else (0, w1))"

definition uart_async_write :: "u8 list \<Rightarrow> 'a uart_world_scheme \<Rightarrow> int \<times> 'a uart_world_scheme" where
  "uart_async_write data w = uart_async_puts (map char_of_byte data) w"

text \<open>The character, or None for the result -1.\<close>

definition uart_async_getc :: "'a uart_world_scheme \<Rightarrow> u8 option \<times> 'a uart_world_scheme" where
  "uart_async_getc w =
     (if \<not> uart_ctx_valid (g_uart_ctx w)
      then (None, kernel_panic ''uart ctx invalid in getc'' ''uart_async.c'' 200 w)
      else case uart_rx_take (g_uart_ctx w) of (r, u) \<Rightarrow> (r, w\<lparr>g_uart_ctx := u\<rparr>))"

fun uart_async_read :: "nat \<Rightarrow> 'a uart_world_scheme \<Rightarrow> u8 list \<times> 'a uart_world_scheme" where
  "uart_async_read 0 w = ([], w)"
| "uart_async_read (Suc n) w =
     (case uart_async_getc w of
        (None, w1) \<Rightarrow> ([], w1)
      | (Some c, w1) \<Rightarrow> (case uart_async_read n w1 of (cs, w2) \<Rightarrow> (c # cs, w2)))"

fun inject_loop :: "u8 list \<Rightarrow> uart_context \<Rightarrow> nat \<times> uart_context" where
  "inject_loop [] u = (0, u)"
| "inject_loop (c # cs) u =
     (case uart_rx_put c u of (ok, u1) \<Rightarrow>
        if ok then (case inject_loop cs u1 of (n, u2) \<Rightarrow> (Suc n, u2)) else (0, u1))"

definition uart_async_inject_rx :: "u8 list \<Rightarrow> 'a uart_world_scheme \<Rightarrow> int \<times> 'a uart_world_scheme" where
  "uart_async_inject_rx data w =
     (if \<not> uart_ctx_valid (g_uart_ctx w)
      then (0, kernel_panic ''uart ctx invalid in inject_rx'' ''uart_async.c'' 236 w)
      else if data = [] then (0, w)
      else case inject_loop data (g_uart_ctx w) of (written, u) \<Rightarrow>
        let w1 = w\<lparr>g_uart_ctx := u\<rparr> in
        (int written,
         if written > 0 then uart_rx_notify sched_post ''uart inject zero rx signal'' 259 w1 else w1))"

definition uart_tx_done :: "'a uart_world_scheme \<Rightarrow> bool" where
  "uart_tx_done w \<longleftrightarrow> uc_tx_head (g_uart_ctx w) = uc_tx_tail (g_uart_ctx w) \<and> uc_tx_status (g_uart_ctx w) = DRV_IDLE"

definition uart_rx_available :: "'a uart_world_scheme \<Rightarrow> bool" where
  "uart_rx_available w \<longleftrightarrow> uc_rx_head (g_uart_ctx w) \<noteq> uc_rx_tail (g_uart_ctx w)"

definition uart_async_bind_scheduler :: "u8 \<Rightarrow> u16 \<Rightarrow> 'a uart_world_scheme \<Rightarrow> 'a uart_world_scheme" where
  "uart_async_bind_scheduler ao rx_sig w =
     (if rx_sig = 0 then kernel_panic ''uart bind zero rx signal'' ''uart_async.c'' 285 w
      else upd_u (\<lambda>u. u\<lparr>uc_rx_event_pending := False\<rparr>)
             (w\<lparr>g_uart_sched := True, g_uart_ao_id := ao, g_uart_rx_sig := rx_sig\<rparr>))"

definition uart_async_unbind_scheduler :: "'a uart_world_scheme \<Rightarrow> 'a uart_world_scheme" where
  "uart_async_unbind_scheduler w =
     upd_u (\<lambda>u. u\<lparr>uc_rx_event_pending := False\<rparr>)
       (w\<lparr>g_uart_sched := False, g_uart_ao_id := 0, g_uart_rx_sig := 0\<rparr>)"

definition uart_async_rx_event_finish :: "'a uart_world_scheme \<Rightarrow> bool \<times> 'a uart_world_scheme" where
  "uart_async_rx_event_finish w =
     (let still_pending = uc_rx_head (g_uart_ctx w) \<noteq> uc_rx_tail (g_uart_ctx w) in
      (still_pending, if \<not> still_pending then upd_u (\<lambda>u. u\<lparr>uc_rx_event_pending := False\<rparr>) w else w))"

definition uart_async_bind_tx_notifier :: "u8 \<Rightarrow> u16 \<Rightarrow> 'a uart_world_scheme \<Rightarrow> 'a uart_world_scheme" where
  "uart_async_bind_tx_notifier ao tx_sig w =
     (if tx_sig = 0 then kernel_panic ''uart tx bind zero signal'' ''uart_async.c'' 322 w
      else w\<lparr>g_uart_tx_sched := True, g_uart_tx_ao_id := ao, g_uart_tx_sig := tx_sig\<rparr>)"

definition uart_async_unbind_tx_notifier :: "'a uart_world_scheme \<Rightarrow> 'a uart_world_scheme" where
  "uart_async_unbind_tx_notifier w = w\<lparr>g_uart_tx_sched := False, g_uart_tx_ao_id := 0, g_uart_tx_sig := 0\<rparr>"

definition uart_async_resume_after_restore :: "'a uart_world_scheme \<Rightarrow> bool \<times> 'a uart_world_scheme" where
  "uart_async_resume_after_restore w =
     (if \<not> uart_ctx_valid (g_uart_ctx w) then (False, w)
      else (True, upd_u (\<lambda>u. u\<lparr>uc_tx_head := 0, uc_tx_tail := 0, uc_tx_status := DRV_IDLE,
                               uc_rx_head := 0, uc_rx_tail := 0, uc_rx_event_pending := False\<rparr>) w))"

definition uart_async_resume_enable_irq :: "'a uart_world_scheme \<Rightarrow> 'a uart_world_scheme" where
  "uart_async_resume_enable_irq w = w\<lparr>USART6_CR1 := USART6_CR1 w OR USART_CR1_RXNEIE\<rparr>"


section \<open>The rings are queues\<close>

definition uart_ring_ok :: "uart_context \<Rightarrow> bool" where
  "uart_ring_ok u \<longleftrightarrow> uart_ctx_valid u \<and>
     unat (uc_tx_size u) \<le> length (the (uc_tx_buf u)) \<and> unat (uc_rx_size u) \<le> length (the (uc_rx_buf u))"

definition tx_contents :: "uart_context \<Rightarrow> u8 list" where
  "tx_contents u = gap_list (the (uc_tx_buf u)) (unat (uc_tx_size u)) (unat (uc_tx_head u)) (unat (uc_tx_tail u))"

definition rx_contents :: "uart_context \<Rightarrow> u8 list" where
  "rx_contents u = gap_list (the (uc_rx_buf u)) (unat (uc_rx_size u)) (unat (uc_rx_head u)) (unat (uc_rx_tail u))"

lemma uart_ring_okD:
  assumes "uart_ring_ok u"
  obtains tb rb where "uc_tx_buf u = Some tb" "uc_rx_buf u = Some rb" "uc_tx_size u \<noteq> 0" "uc_rx_size u \<noteq> 0"
    "unat (uc_tx_head u) < unat (uc_tx_size u)" "unat (uc_tx_tail u) < unat (uc_tx_size u)"
    "unat (uc_rx_head u) < unat (uc_rx_size u)" "unat (uc_rx_tail u) < unat (uc_rx_size u)"
    "unat (uc_tx_size u) \<le> length tb" "unat (uc_rx_size u) \<le> length rb"
  using assms that unfolding uart_ring_ok_def uart_ctx_valid_def
  by (auto simp: not_le word_less_nat_alt word_le_nat_alt split: if_splits)

lemma next16_lt: "n \<noteq> 0 \<Longrightarrow> ring_next16 i n < n" "n \<noteq> 0 \<Longrightarrow> \<not> n \<le> ring_next16 i n"
  by (simp_all add: word_less_nat_alt unat_ring_next16 unat_gt_0 not_le)

lemma next16_eq: "n \<noteq> 0 \<Longrightarrow> ring_next16 i n = t \<longleftrightarrow> Suc (unat i) mod unat n = unat t"
  by (simp add: word_unat_eq_iff unat_ring_next16)

lemma uart_ops_ok:
  assumes "uart_ring_ok u"
  shows "uart_ring_ok (snd (uart_tx_put c u))" "uart_ring_ok (snd (uart_tx_take u))"
    "uart_ring_ok (snd (uart_rx_put c u))" "uart_ring_ok (snd (uart_rx_take u))"
proof -
  obtain tb rb where b: "uc_tx_buf u = Some tb" "uc_rx_buf u = Some rb" using assms by (rule uart_ring_okD)
  have nz: "uc_tx_size u \<noteq> 0" "uc_rx_size u \<noteq> 0" using assms by (auto elim: uart_ring_okD)
  show "uart_ring_ok (snd (uart_tx_put c u))" "uart_ring_ok (snd (uart_tx_take u))"
    "uart_ring_ok (snd (uart_rx_put c u))" "uart_ring_ok (snd (uart_rx_take u))"
    using assms nz b
    by (auto simp: uart_ring_ok_def uart_ctx_valid_def uart_tx_put_def uart_tx_take_def uart_rx_put_def
        uart_rx_take_def Let_def next16_lt split: if_splits)
qed

text \<open>Put and take, in terms of the contents; the other ring is untouched.\<close>

lemma uart_tx_put_contents:
  assumes "uart_ring_ok u"
  shows "fst (uart_tx_put c u) \<longleftrightarrow> length (tx_contents u) < unat (uc_tx_size u) - 1"
    "tx_contents (snd (uart_tx_put c u)) = (if fst (uart_tx_put c u) then tx_contents u @ [c] else tx_contents u)"
    "rx_contents (snd (uart_tx_put c u)) = rx_contents u"
proof -
  obtain tb rb where b: "uc_tx_buf u = Some tb" "unat (uc_tx_size u) \<le> length tb" "uc_tx_size u \<noteq> 0"
    "unat (uc_tx_head u) < unat (uc_tx_size u)" "unat (uc_tx_tail u) < unat (uc_tx_size u)"
    using assms by (rule uart_ring_okD)
  note g = gap_count_less [OF b(4,5)] gap_full [OF b(4,5)]
  show "fst (uart_tx_put c u) \<longleftrightarrow> length (tx_contents u) < unat (uc_tx_size u) - 1"
    using g by (auto simp: uart_tx_put_def Let_def tx_contents_def next16_eq [OF b(3)])
  show "tx_contents (snd (uart_tx_put c u)) = (if fst (uart_tx_put c u) then tx_contents u @ [c] else tx_contents u)"
    using b gap_list_push [OF b(4,5,2)]
    by (auto simp: uart_tx_put_def Let_def tx_contents_def next16_eq unat_ring_next16)
  show "rx_contents (snd (uart_tx_put c u)) = rx_contents u"
    by (simp add: uart_tx_put_def Let_def rx_contents_def)
qed

lemma uart_rx_put_contents:
  assumes "uart_ring_ok u"
  shows "fst (uart_rx_put c u) \<longleftrightarrow> length (rx_contents u) < unat (uc_rx_size u) - 1"
    "rx_contents (snd (uart_rx_put c u)) = (if fst (uart_rx_put c u) then rx_contents u @ [c] else rx_contents u)"
    "tx_contents (snd (uart_rx_put c u)) = tx_contents u"
proof -
  obtain tb rb where b: "uc_rx_buf u = Some rb" "unat (uc_rx_size u) \<le> length rb" "uc_rx_size u \<noteq> 0"
    "unat (uc_rx_head u) < unat (uc_rx_size u)" "unat (uc_rx_tail u) < unat (uc_rx_size u)"
    using assms by (rule uart_ring_okD)
  note g = gap_count_less [OF b(4,5)] gap_full [OF b(4,5)]
  show "fst (uart_rx_put c u) \<longleftrightarrow> length (rx_contents u) < unat (uc_rx_size u) - 1"
    using g by (auto simp: uart_rx_put_def Let_def rx_contents_def next16_eq [OF b(3)])
  show "rx_contents (snd (uart_rx_put c u)) = (if fst (uart_rx_put c u) then rx_contents u @ [c] else rx_contents u)"
    using b gap_list_push [OF b(4,5,2)]
    by (auto simp: uart_rx_put_def Let_def rx_contents_def next16_eq unat_ring_next16)
  show "tx_contents (snd (uart_rx_put c u)) = tx_contents u"
    by (simp add: uart_rx_put_def Let_def tx_contents_def)
qed

lemma uart_tx_take_contents:
  assumes "uart_ring_ok u"
  shows "(fst (uart_tx_take u), tx_contents (snd (uart_tx_take u))) = list_pop (tx_contents u)"
    "rx_contents (snd (uart_tx_take u)) = rx_contents u"
proof -
  obtain tb rb where b: "uc_tx_buf u = Some tb" "unat (uc_tx_size u) \<le> length tb" "uc_tx_size u \<noteq> 0"
    "unat (uc_tx_head u) < unat (uc_tx_size u)" "unat (uc_tx_tail u) < unat (uc_tx_size u)"
    using assms by (rule uart_ring_okD)
  show "(fst (uart_tx_take u), tx_contents (snd (uart_tx_take u))) = list_pop (tx_contents u)"
  proof (cases "uc_tx_head u = uc_tx_tail u")
    case True
    then have "tx_contents u = []" using b by (simp add: tx_contents_def gap_list_Nil)
    with True show ?thesis by (simp add: uart_tx_take_def)
  next
    case False
    with b gap_list_pop [OF b(4,5), of tb] show ?thesis
      by (simp add: uart_tx_take_def tx_contents_def unat_ring_next16 word_unat_eq_iff)
  qed
  show "rx_contents (snd (uart_tx_take u)) = rx_contents u" by (simp add: uart_tx_take_def rx_contents_def)
qed

lemma uart_rx_take_contents:
  assumes "uart_ring_ok u"
  shows "(fst (uart_rx_take u), rx_contents (snd (uart_rx_take u))) = list_pop (rx_contents u)"
    "tx_contents (snd (uart_rx_take u)) = tx_contents u"
proof -
  obtain tb rb where b: "uc_rx_buf u = Some rb" "unat (uc_rx_size u) \<le> length rb" "uc_rx_size u \<noteq> 0"
    "unat (uc_rx_head u) < unat (uc_rx_size u)" "unat (uc_rx_tail u) < unat (uc_rx_size u)"
    using assms by (rule uart_ring_okD)
  show "(fst (uart_rx_take u), rx_contents (snd (uart_rx_take u))) = list_pop (rx_contents u)"
  proof (cases "uc_rx_head u = uc_rx_tail u")
    case True
    then have "rx_contents u = []" using b by (simp add: rx_contents_def gap_list_Nil)
    with True show ?thesis by (simp add: uart_rx_take_def)
  next
    case False
    with b gap_list_pop [OF b(4,5), of rb] show ?thesis
      by (simp add: uart_rx_take_def Let_def rx_contents_def unat_ring_next16 word_unat_eq_iff)
  qed
  show "tx_contents (snd (uart_rx_take u)) = tx_contents u"
    by (simp add: uart_rx_take_def Let_def tx_contents_def)
qed

lemma uart_sizes [simp]:
  "uc_tx_size (snd (uart_tx_put c u)) = uc_tx_size u" "uc_tx_size (snd (uart_tx_take u)) = uc_tx_size u"
  "uc_rx_size (snd (uart_rx_put c u)) = uc_rx_size u" "uc_rx_size (snd (uart_rx_take u)) = uc_rx_size u"
  by (simp_all add: uart_tx_put_def uart_tx_take_def uart_rx_put_def uart_rx_take_def Let_def)

interpretation txf: bounded_fifo uart_ring_ok tx_contents "\<lambda>u. unat (uc_tx_size u) - 1" uart_tx_put uart_tx_take
  by unfold_locales (auto simp: uart_ops_ok uart_tx_put_contents uart_tx_take_contents)

interpretation rxf: bounded_fifo uart_ring_ok rx_contents "\<lambda>u. unat (uc_rx_size u) - 1" uart_rx_put uart_rx_take
  by unfold_locales (auto simp: uart_ops_ok uart_rx_put_contents uart_rx_take_contents)

section \<open>Main program and interrupts\<close>

text \<open>
  Any interleaving of the main program's calls with interrupts.  The results
  of a step: the byte accepted for transmission, the byte read, and the byte
  taken from the receiver.
\<close>

datatype uart_op = Put char | Get | Irq u32 u32

definition irq_receives :: "u32 \<Rightarrow> u32 \<Rightarrow> uart_context \<Rightarrow> u8 list" where
  "irq_receives status rdr u =
     (if status AND USART_ISR_RXNE \<noteq> 0 \<and> status AND (USART_ISR_FE OR USART_ISR_NF) = 0 \<and>
         length (rx_contents u) < unat (uc_rx_size u) - 1
      then [ucast (rdr AND 0xFF)] else [])"

fun uart_step :: "uart_op \<Rightarrow> 'a uart_world_scheme \<Rightarrow> (u8 list \<times> u8 list \<times> u8 list) \<times> 'a uart_world_scheme" where
  "uart_step (Put c) w = (case uart_async_putc c w of (ok, w1) \<Rightarrow> ((if ok then [byte_of c] else [], [], []), w1))"
| "uart_step Get w = (case uart_async_getc w of (r, w1) \<Rightarrow> (([], case r of None \<Rightarrow> [] | Some c \<Rightarrow> [c], []), w1))"
| "uart_step (Irq status rdr) w =
     (([], [], irq_receives status rdr (g_uart_ctx w)), USART6_IRQHandler status rdr w)"

fun uart_run :: "uart_op list \<Rightarrow> 'a uart_world_scheme \<Rightarrow> (u8 list \<times> u8 list \<times> u8 list) \<times> 'a uart_world_scheme" where
  "uart_run [] w = (([], [], []), w)"
| "uart_run (c # cs) w =
     (case uart_step c w of ((acc, got, recv), w1) \<Rightarrow>
        case uart_run cs w1 of ((acc', got', recv'), w2) \<Rightarrow> ((acc @ acc', got @ got', recv @ recv'), w2))"

definition uart_ok :: "'a uart_world_scheme \<Rightarrow> bool" where
  "uart_ok w \<longleftrightarrow> uart_ring_ok (g_uart_ctx w) \<and> (g_uart_sched w \<longrightarrow> g_uart_rx_sig w \<noteq> 0) \<and>
     (g_uart_tx_sched w \<longrightarrow> g_uart_tx_sig w \<noteq> 0) \<and> w_panic w = None"

text \<open>Posting an event only touches the scheduler's part of the state.\<close>

lemma sched_post_frame [frame_simps]:
  fixes w :: "'a uart_world_scheme"
  shows "g_uart_ctx (snd (sched_post_common a e b w)) = g_uart_ctx w"
    "w_uart (snd (sched_post_common a e b w)) = w_uart w" "w_panic (snd (sched_post_common a e b w)) = w_panic w"
    "g_uart_sched (snd (sched_post_common a e b w)) = g_uart_sched w"
    "g_uart_rx_sig (snd (sched_post_common a e b w)) = g_uart_rx_sig w"
    "g_uart_tx_sched (snd (sched_post_common a e b w)) = g_uart_tx_sched w"
    "g_uart_tx_sig (snd (sched_post_common a e b w)) = g_uart_tx_sig w"
    "USART6_CR1 (snd (sched_post_common a e b w)) = USART6_CR1 w"
  by (simp_all add: sched_post_common_def set_ao_def Let_def split: option.split prod.split)

lemma upd_u_sel [simp]:
  "g_uart_ctx (upd_u f w) = f (g_uart_ctx w)" "w_uart (upd_u f w) = w_uart w" "w_panic (upd_u f w) = w_panic w"
  "g_uart_sched (upd_u f w) = g_uart_sched w" "g_uart_rx_sig (upd_u f w) = g_uart_rx_sig w"
  "g_uart_tx_sched (upd_u f w) = g_uart_tx_sched w" "g_uart_tx_sig (upd_u f w) = g_uart_tx_sig w"
  by (simp_all add: upd_u_def)

lemma flags_contents [simp]:
  "tx_contents (u\<lparr>uc_rx_event_pending := p\<rparr>) = tx_contents u" "rx_contents (u\<lparr>uc_rx_event_pending := p\<rparr>) = rx_contents u"
  "tx_contents (u\<lparr>uc_rx_event_post_fail := n\<rparr>) = tx_contents u" "rx_contents (u\<lparr>uc_rx_event_post_fail := n\<rparr>) = rx_contents u"
  "tx_contents (u\<lparr>uc_rx_overrun_count := n\<rparr>) = tx_contents u" "rx_contents (u\<lparr>uc_rx_overrun_count := n\<rparr>) = rx_contents u"
  "tx_contents (u\<lparr>uc_tx_status := s\<rparr>) = tx_contents u" "rx_contents (u\<lparr>uc_tx_status := s\<rparr>) = rx_contents u"
  "uart_ring_ok (u\<lparr>uc_rx_event_pending := p\<rparr>) = uart_ring_ok u" "uart_ring_ok (u\<lparr>uc_rx_event_post_fail := n\<rparr>) = uart_ring_ok u"
  "uart_ring_ok (u\<lparr>uc_rx_overrun_count := n\<rparr>) = uart_ring_ok u" "uart_ring_ok (u\<lparr>uc_tx_status := s\<rparr>) = uart_ring_ok u"
  by (simp_all add: tx_contents_def rx_contents_def uart_ring_ok_def uart_ctx_valid_def)

definition uart_same :: "'a uart_world_scheme \<Rightarrow> 'a uart_world_scheme \<Rightarrow> bool" where
  "uart_same w w' \<longleftrightarrow> tx_contents (g_uart_ctx w') = tx_contents (g_uart_ctx w) \<and>
     rx_contents (g_uart_ctx w') = rx_contents (g_uart_ctx w) \<and> w_uart w' = w_uart w \<and> uart_ok w'"

lemma rx_notify_same:
  assumes "uart_ok w" "post = sched_post \<or> post = sched_post_isr"
  shows "uart_same w (uart_rx_notify post msg line w)"
  using assms by (auto simp: uart_same_def uart_rx_notify_def uart_ok_def sched_post_def sched_post_isr_def frame_simps
      case_prod_beta)

lemma irq_rx_effect:
  assumes "uart_ok w"
  shows "tx_contents (g_uart_ctx (irq_rx status rdr w)) = tx_contents (g_uart_ctx w)"
    "rx_contents (g_uart_ctx (irq_rx status rdr w)) = rx_contents (g_uart_ctx w) @ irq_receives status rdr (g_uart_ctx w)"
    "w_uart (irq_rx status rdr w) = w_uart w" "uart_ok (irq_rx status rdr w)"
proof -
  have ok: "uart_ring_ok (g_uart_ctx w)" using assms by (simp add: uart_ok_def)
  let ?c = "ucast (rdr AND 0xFF) :: u8"
  note put = uart_rx_put_contents [OF ok, of ?c] uart_ops_ok(3) [OF ok, of ?c]
  let ?w1 = "w\<lparr>g_uart_ctx := snd (uart_rx_put ?c (g_uart_ctx w))\<rparr>"
  have ok1: "uart_ok ?w1" using assms put by (simp add: uart_ok_def)
  note n = rx_notify_same [OF ok1, of sched_post_isr, unfolded uart_same_def, simplified]
  have "tx_contents (g_uart_ctx (irq_rx status rdr w)) = tx_contents (g_uart_ctx w) \<and>
    rx_contents (g_uart_ctx (irq_rx status rdr w)) = rx_contents (g_uart_ctx w) @ irq_receives status rdr (g_uart_ctx w) \<and>
    w_uart (irq_rx status rdr w) = w_uart w \<and> uart_ok (irq_rx status rdr w)"
    using n ok1 put assms
    by (auto simp: irq_rx_def irq_receives_def case_prod_beta uart_ok_def)
  then show "tx_contents (g_uart_ctx (irq_rx status rdr w)) = tx_contents (g_uart_ctx w)"
    "rx_contents (g_uart_ctx (irq_rx status rdr w)) = rx_contents (g_uart_ctx w) @ irq_receives status rdr (g_uart_ctx w)"
    "w_uart (irq_rx status rdr w) = w_uart w" "uart_ok (irq_rx status rdr w)" by blast+
qed

lemma irq_tx_effect:
  assumes "uart_ok w"
  shows "\<exists>out. w_uart (irq_tx status cr1 w) = w_uart w @ map char_of_byte out \<and>
    tx_contents (g_uart_ctx w) = out @ tx_contents (g_uart_ctx (irq_tx status cr1 w)) \<and>
    rx_contents (g_uart_ctx (irq_tx status cr1 w)) = rx_contents (g_uart_ctx w) \<and> uart_ok (irq_tx status cr1 w)"
proof (cases "status AND USART_ISR_TXE \<noteq> 0 \<and> cr1 AND USART_CR1_TXEIE \<noteq> 0")
  case True
  have ok: "uart_ring_ok (g_uart_ctx w)" using assms by (simp add: uart_ok_def)
  obtain r u where t: "uart_tx_take (g_uart_ctx w) = (r, u)" by fastforce
  note take = uart_tx_take_contents [OF ok, unfolded t, simplified] uart_ops_ok(2) [OF ok, unfolded t, simplified]
  show ?thesis
  proof (cases r)
    case None
    then have "tx_contents (g_uart_ctx w) = []" using take(1) by (cases "tx_contents (g_uart_ctx w)") auto
    with None True t assms show ?thesis by (intro exI [of _ "[]"]) (auto simp: irq_tx_def uart_ok_def)
  next
    case (Some b)
    then have "tx_contents (g_uart_ctx w) = b # tx_contents u" using take(1) by (cases "tx_contents (g_uart_ctx w)") auto
    with Some True t assms take(2,3) show ?thesis
      by (intro exI [of _ "[b]"]) (auto simp: irq_tx_def uart_ok_def uart_puts_def)
  qed
qed (use assms in \<open>auto simp: irq_tx_def intro!: exI [of _ "[]"]\<close>)

lemma irq_tc_same:
  assumes "uart_ok w"
  shows "uart_same w (irq_tc status cr1 w)"
  using assms by (auto simp: uart_same_def irq_tc_def Let_def uart_ok_def sched_post_isr_def frame_simps)

lemma irq_effect:
  assumes "uart_ok w"
  shows "\<exists>out. w_uart (USART6_IRQHandler status rdr w) = w_uart w @ map char_of_byte out \<and>
    tx_contents (g_uart_ctx w) = out @ tx_contents (g_uart_ctx (USART6_IRQHandler status rdr w)) \<and>
    rx_contents (g_uart_ctx (USART6_IRQHandler status rdr w)) =
      rx_contents (g_uart_ctx w) @ irq_receives status rdr (g_uart_ctx w) \<and>
    uart_ok (USART6_IRQHandler status rdr w)"
proof -
  let ?w1 = "irq_rx status rdr w"
  let ?w2 = "if status AND USART_ISR_ORE \<noteq> 0
    then upd_u (\<lambda>u. u\<lparr>uc_rx_overrun_count := uc_rx_overrun_count u + 1\<rparr>) ?w1 else ?w1"
  let ?cr1 = "USART6_CR1 w"
  note rx = irq_rx_effect [OF assms, of status rdr]
  have w2: "uart_ok ?w2" "tx_contents (g_uart_ctx ?w2) = tx_contents (g_uart_ctx w)" "w_uart ?w2 = w_uart w"
    "rx_contents (g_uart_ctx ?w2) = rx_contents (g_uart_ctx w) @ irq_receives status rdr (g_uart_ctx w)"
    using rx by (auto simp: uart_ok_def)
  from irq_tx_effect [OF w2(1), of status ?cr1] obtain out where
    tx: "w_uart (irq_tx status ?cr1 ?w2) = w_uart ?w2 @ map char_of_byte out"
      "tx_contents (g_uart_ctx ?w2) = out @ tx_contents (g_uart_ctx (irq_tx status ?cr1 ?w2))"
      "rx_contents (g_uart_ctx (irq_tx status ?cr1 ?w2)) = rx_contents (g_uart_ctx ?w2)" "uart_ok (irq_tx status ?cr1 ?w2)"
    by blast
  note tc = irq_tc_same [OF tx(4), of status ?cr1, unfolded uart_same_def]
  have "USART6_IRQHandler status rdr w = irq_tc status ?cr1 (irq_tx status ?cr1 ?w2)"
    using assms rx(4) by (simp add: USART6_IRQHandler_def Let_def uart_ok_def uart_ring_ok_def)
  with w2 tx tc show ?thesis by (intro exI [of _ out]) simp
qed

lemma uart_step_effect:
  assumes "uart_ok w" "uart_step c w = ((acc, got, recv), w')"
  shows "\<exists>out. w_uart w' = w_uart w @ map char_of_byte out \<and>
    tx_contents (g_uart_ctx w) @ acc = out @ tx_contents (g_uart_ctx w') \<and>
    rx_contents (g_uart_ctx w) @ recv = got @ rx_contents (g_uart_ctx w') \<and> uart_ok w'"
proof (cases c)
  case (Put ch)
  have ok: "uart_ring_ok (g_uart_ctx w)" "uart_ctx_valid (g_uart_ctx w)"
    using assms(1) by (simp_all add: uart_ok_def uart_ring_ok_def)
  obtain r u where t: "uart_tx_put (byte_of ch) (g_uart_ctx w) = (r, u)" by fastforce
  note p = uart_tx_put_contents [OF ok(1), of "byte_of ch", unfolded t, simplified]
    uart_ops_ok(1) [OF ok(1), of "byte_of ch", unfolded t, simplified]
  show ?thesis using assms Put t p ok(2)
    by (intro exI [of _ "[]"]) (auto simp: uart_async_putc_def uart_ok_def split: if_splits)
next
  case Get
  have ok: "uart_ring_ok (g_uart_ctx w)" "uart_ctx_valid (g_uart_ctx w)"
    using assms(1) by (simp_all add: uart_ok_def uart_ring_ok_def)
  obtain r u where t: "uart_rx_take (g_uart_ctx w) = (r, u)" by fastforce
  note p = uart_rx_take_contents [OF ok(1), unfolded t, simplified] uart_ops_ok(4) [OF ok(1), unfolded t, simplified]
  have "rx_contents (g_uart_ctx w) = (case r of None \<Rightarrow> [] | Some x \<Rightarrow> [x]) @ rx_contents u"
    using p(1) by (cases "rx_contents (g_uart_ctx w)") auto
  then show ?thesis using assms Get t p ok(2)
    by (intro exI [of _ "[]"]) (auto simp: uart_async_getc_def uart_ok_def)
next
  case (Irq status rdr)
  with assms irq_effect [OF assms(1), of status rdr] show ?thesis by auto
qed


definition uart_boot :: "'a uart_world_scheme \<Rightarrow> 'a uart_world_scheme" where
  "uart_boot w = uart_async_init (\<lambda>_. 0) 0x20050000 (w\<lparr>bump_brk := 0x20010000\<rparr>)"

text \<open>The state after power-on, before any initialisation.\<close>

definition uart_zero :: uart_context where
  "uart_zero = \<lparr> uc_tx_buf = None, uc_tx_head = 0, uc_tx_tail = 0, uc_tx_size = 0, uc_tx_status = DRV_IDLE,
     uc_rx_buf = None, uc_rx_head = 0, uc_rx_tail = 0, uc_rx_size = 0, uc_rx_status = DRV_IDLE,
     uc_rx_event_pending = False, uc_rx_event_post_fail = 0, uc_rx_overrun_count = 0 \<rparr>"

definition uart_power_on :: uart_world where
  "uart_power_on = fs_world.extend (fs_power_on 100 64 blank_card)
     (uart_world.fields uart_zero False 0 0 False 0 0 0 0)"

lemma uart_async_init_ok:
  assumes "w_panic w = None"
  shows "uart_ok (uart_boot w)" "tx_contents (g_uart_ctx (uart_boot w)) = []" "rx_contents (g_uart_ctx (uart_boot w)) = []"
    "w_uart (uart_boot w) = w_uart w"
proof -
  have a: "bump_alloc 0x20050000 (of_nat 256) 0x20010000 = (Some 0x20010000, 0x20010100)"
    "bump_alloc 0x20050000 (of_nat 128) 0x20010100 = (Some 0x20010100, 0x20010180)" by code_simp+
  show "uart_ok (uart_boot w)" "tx_contents (g_uart_ctx (uart_boot w)) = []" "rx_contents (g_uart_ctx (uart_boot w)) = []"
    "w_uart (uart_boot w) = w_uart w"
    using assms
    by (simp_all add: uart_boot_def uart_async_init_def a[simplified] Let_def uart_ok_def uart_ring_ok_def uart_ctx_valid_def
        tx_contents_def rx_contents_def gap_list_def gap_count_def)
qed


end
