(* ===== verification/Console.thy ===== *)
theory Console
  imports Uart_Async "HOL-Library.Sublist"
begin

text \<open>
  The console task of \<open>console_task.c\<close>: a ring of 64 messages of at most 96
  characters that the writers fill and the task drains into the UART's
  transmit ring, and the sink switch that sends the text to the log instead.
  The last section follows text through console ring, UART ring and interrupt
  to the line.
\<close>

abbreviation (input) CONSOLE_MSG_SLOTS :: u8 where "CONSOLE_MSG_SLOTS \<equiv> 64"
abbreviation (input) CONSOLE_MSG_MAX :: nat where "CONSOLE_MSG_MAX \<equiv> 96"
abbreviation (input) CONSOLE_SINK_UART :: u8 where "CONSOLE_SINK_UART \<equiv> 0"
abbreviation (input) CONSOLE_SINK_LOG :: u8 where "CONSOLE_SINK_LOG \<equiv> 1"
abbreviation (input) AO_TERMINAL :: u8 where "AO_TERMINAL \<equiv> 0"
abbreviation (input) AO_SD :: u8 where "AO_SD \<equiv> 1"
abbreviation (input) AO_CMD :: u8 where "AO_CMD \<equiv> 2"
abbreviation (input) AO_CONSOLE :: u8 where "AO_CONSOLE \<equiv> 3"
abbreviation (input) CONSOLE_SIG_KICK :: u16 where "CONSOLE_SIG_KICK \<equiv> 8"
abbreviation (input) CONSOLE_SIG_TX_READY :: u16 where "CONSOLE_SIG_TX_READY \<equiv> 9"

record console_msg =
  cm_len :: u16
  cm_off :: u16
  cm_data :: string

record console_ctx =
  co_sched :: bool
  co_slots :: "console_msg list"
  co_head :: u8
  co_tail :: u8
  co_count :: u8
  co_wake_posted :: bool
  co_dropped :: u32

record con_world = uart_world +
  g_console :: console_ctx
  g_console_sink :: u8

definition upd_c :: "(console_ctx \<Rightarrow> console_ctx) \<Rightarrow> 'a con_world_scheme \<Rightarrow> 'a con_world_scheme" where
  "upd_c f w = w\<lparr>g_console := f (g_console w)\<rparr>"

definition console_set_sink :: "u8 \<Rightarrow> 'a con_world_scheme \<Rightarrow> 'a con_world_scheme" where
  "console_set_sink sink w = w\<lparr>g_console_sink := sink\<rparr>"

definition console_get_sink :: "'a con_world_scheme \<Rightarrow> u8" where
  "console_get_sink w = g_console_sink w"

definition console_kick :: "'a con_world_scheme \<Rightarrow> int \<times> 'a con_world_scheme" where
  "console_kick w =
     (if \<not> co_sched (g_console w) then (SCHED_ERR_PARAM, w)
      else if co_wake_posted (g_console w) then (SCHED_OK, w)
      else case sched_post AO_CONSOLE (Some (sig_event CONSOLE_SIG_KICK)) w of (rc, w1) \<Rightarrow>
        (rc, if rc = SCHED_OK then upd_c (\<lambda>c. c\<lparr>co_wake_posted := True\<rparr>) w1 else w1))"

text \<open>\<open>(uint8_t)((i + 1u) % CONSOLE_MSG_SLOTS)\<close>.\<close>

definition con_next :: "u8 \<Rightarrow> u8" where
  "con_next i = ucast ((ucast i + 1 :: u32) mod 64)"

text \<open>The message slot after \<open>s\<close> was copied into it.\<close>

definition con_fill :: "string \<Rightarrow> console_msg \<Rightarrow> console_msg" where
  "con_fill s m = m\<lparr>cm_data := s @ drop (length s) (cm_data m), cm_len := of_nat (length s), cm_off := 0\<rparr>"

definition console_enqueue :: "string option \<Rightarrow> u16 \<Rightarrow> 'a con_world_scheme \<Rightarrow> int \<times> 'a con_world_scheme" where
  "console_enqueue sp len w =
     (case sp of None \<Rightarrow> (SCHED_ERR_PARAM, w)
      | Some s \<Rightarrow>
        if len = 0 then (SCHED_ERR_PARAM, w)
        else if g_console_sink w = CONSOLE_SINK_LOG
        then (SCHED_OK, w\<lparr>w_log := snd (log_write (Some s) len (w_log w))\<rparr>)
        else if \<not> co_sched (g_console w) then (SCHED_ERR_PARAM, w)
        else if co_count (g_console w) \<ge> CONSOLE_MSG_SLOTS
        then (SCHED_ERR_FULL, upd_c (\<lambda>c. c\<lparr>co_dropped := co_dropped c + 1\<rparr>) w)
        else
          let n = (if unat len > CONSOLE_MSG_MAX then CONSOLE_MSG_MAX else unat len) in
          console_kick (upd_c (\<lambda>c. c\<lparr>co_slots := (co_slots c)[unat (co_head c) :=
                                       con_fill (take n s) (co_slots c ! unat (co_head c))],
                                     co_head := con_next (co_head c), co_count := co_count c + 1\<rparr>) w))"

text \<open>The two loops of the task: the characters of one message, the messages.\<close>

fun con_send :: "nat list \<Rightarrow> 'a con_world_scheme \<Rightarrow> bool \<times> 'a con_world_scheme" where
  "con_send [] w = (True, w)"
| "con_send (i # is) w =
     (let t = unat (co_tail (g_console w)) in
      case uart_async_putc (cm_data (co_slots (g_console w) ! t) ! i) w of (ok, w1) \<Rightarrow>
        if ok then con_send is (upd_c (\<lambda>c. c\<lparr>co_slots := (co_slots c)[t := (co_slots c ! t)\<lparr>cm_off := cm_off (co_slots c ! t) + 1\<rparr>]\<rparr>) w1)
        else (False, w1))"

fun con_drain :: "nat \<Rightarrow> 'a con_world_scheme \<Rightarrow> 'a con_world_scheme" where
  "con_drain 0 w = upd_c (\<lambda>c. c\<lparr>co_wake_posted := False\<rparr>) w"
| "con_drain (Suc n) w =
     (let m = co_slots (g_console w) ! unat (co_tail (g_console w)) in
      if cm_off m > cm_len m then kernel_panic ''console msg offset invalid'' ''console_task.c'' 102 w
      else case con_send [unat (cm_off m)..<unat (cm_len m)] w of (ok, w1) \<Rightarrow>
        if ok then con_drain n (upd_c (\<lambda>c. c\<lparr>co_tail := con_next (co_tail c), co_count := co_count c - 1\<rparr>) w1)
        else upd_c (\<lambda>c. c\<lparr>co_wake_posted := False\<rparr>) w1)"

definition console_task_dispatch :: "event option \<Rightarrow> 'a con_world_scheme \<Rightarrow> 'a con_world_scheme" where
  "console_task_dispatch ep w =
     (case ep of None \<Rightarrow> kernel_panic ''console dispatch: null event'' ''console_task.c'' 95 w
      | Some e \<Rightarrow>
          if ev_sig e \<noteq> CONSOLE_SIG_KICK \<and> ev_sig e \<noteq> CONSOLE_SIG_TX_READY then w
          else con_drain (unat (co_count (g_console w))) w)"

definition console_reset_after_restore :: "'a con_world_scheme \<Rightarrow> 'a con_world_scheme" where
  "console_reset_after_restore w =
     upd_c (\<lambda>c. c\<lparr>co_head := 0, co_tail := 0, co_count := 0, co_wake_posted := False\<rparr>) w"

text \<open>
  The addresses of the handler and of \<open>g_console\<close> are \<open>fn\<close> and \<open>cx\<close>, the queue
  storage the eight events \<open>st\<close>.
\<close>

definition console_task_register :: "u32 \<Rightarrow> u32 \<Rightarrow> event list \<Rightarrow> 'a con_world_scheme \<Rightarrow> int \<times> 'a con_world_scheme" where
  "console_task_register fn cx st w =
     (let w1 = upd_c (\<lambda>c. c\<lparr>co_sched := True, co_head := 0, co_tail := 0, co_count := 0,
                            co_wake_posted := False, co_dropped := 0\<rparr>) w in
      case sched_register_task (Some \<lparr> ts_id = AO_CONSOLE, ts_prio = 3, ts_dispatch = fn, ts_ctx = cx,
             ts_queue_storage = Some st, ts_queue_capacity = 8, ts_rtc_budget_ticks = 5,
             ts_name = Some ''console'' \<rparr>) w1 of (rc, w2) \<Rightarrow>
        if rc \<noteq> SCHED_OK then (rc, w2)
        else (SCHED_OK, uart_async_bind_tx_notifier AO_CONSOLE CONSOLE_SIG_TX_READY w2))"

function console_write_loop :: "string \<Rightarrow> 'a con_world_scheme \<Rightarrow> int \<times> 'a con_world_scheme" where
  "console_write_loop s w =
     (if s = [] then (SCHED_OK, w)
      else
        let chunk = (if length s > CONSOLE_MSG_MAX then CONSOLE_MSG_MAX else length s) in
        case console_enqueue (Some s) (of_nat chunk) w of (rc, w1) \<Rightarrow>
          if rc \<noteq> SCHED_OK then (rc, w1) else console_write_loop (drop chunk s) w1)"
  by auto
termination console_write_loop
  by (relation "measure (\<lambda>(s, w). length s)") (auto simp: length_greater_0_conv)

declare console_write_loop.simps [simp del]

definition console_write :: "string option \<Rightarrow> u16 \<Rightarrow> 'a con_world_scheme \<Rightarrow> int \<times> 'a con_world_scheme" where
  "console_write sp len w =
     (case sp of None \<Rightarrow> (SCHED_ERR_PARAM, w)
      | Some s \<Rightarrow> if len = 0 then (SCHED_ERR_PARAM, w) else console_write_loop (take (unat len) s) w)"

definition console_putc :: "char \<Rightarrow> 'a con_world_scheme \<Rightarrow> int \<times> 'a con_world_scheme" where
  "console_putc c w = console_enqueue (Some [c]) 1 w"

definition console_puts :: "string option \<Rightarrow> 'a con_world_scheme \<Rightarrow> int \<times> 'a con_world_scheme" where
  "console_puts sp w =
     (case sp of None \<Rightarrow> (SCHED_ERR_PARAM, w) | Some s \<Rightarrow> console_write (Some s) (of_nat (length s)) w)"

definition console_put_u32 :: "u32 \<Rightarrow> 'a con_world_scheme \<Rightarrow> int \<times> 'a con_world_scheme" where
  "console_put_u32 v w =
     (if v = 0 then console_write (Some ''0'') 1 w
      else let buf = u32_digits 10 v in console_write (Some (swap_ends buf)) (of_nat (length buf)) w)"

definition console_put_hex8 :: "u8 \<Rightarrow> 'a con_world_scheme \<Rightarrow> int \<times> 'a con_world_scheme" where
  "console_put_hex8 v w = console_write (Some [hx ! unat (drop_bit 4 v AND 0xF), hx ! unat (v AND 0xF)]) 2 w"

definition console_put_hex32 :: "u32 \<Rightarrow> 'a con_world_scheme \<Rightarrow> int \<times> 'a con_world_scheme" where
  "console_put_hex32 v w =
     console_write (Some (map (\<lambda>i. hx ! unat (drop_bit ((7 - i) * 4) v AND 0xF)) [0..<8])) 8 w"


section \<open>The message ring\<close>

definition con_rest :: "console_msg \<Rightarrow> string" where
  "con_rest m = take (unat (cm_len m) - unat (cm_off m)) (drop (unat (cm_off m)) (cm_data m))"

definition con_text :: "console_ctx \<Rightarrow> string" where
  "con_text c = concat (map con_rest (ring_list (co_slots c) 64 (unat (co_tail c)) (unat (co_count c))))"

definition con_msg_ok :: "console_msg \<Rightarrow> bool" where
  "con_msg_ok m \<longleftrightarrow> cm_off m \<le> cm_len m \<and> unat (cm_len m) \<le> 96 \<and> length (cm_data m) = 96"

definition con_inv :: "console_ctx \<Rightarrow> bool" where
  "con_inv c \<longleftrightarrow> length (co_slots c) = 64 \<and> unat (co_tail c) < 64 \<and> unat (co_count c) \<le> 64 \<and>
     unat (co_head c) = (unat (co_tail c) + unat (co_count c)) mod 64 \<and> list_all con_msg_ok (co_slots c)"

lemma unat_con_next: "unat i < 64 \<Longrightarrow> unat (con_next i) = Suc (unat i) mod 64"
proof -
  assume i: "unat i < 64"
  have s: "unat (ucast i + 1 :: u32) = Suc (unat i)" using i by (subst unat_Suc_small) simp_all
  have m: "unat ((ucast i + 1 :: u32) mod 64) = Suc (unat i) mod 64" by (simp add: unat_mod s)
  have "Suc (unat i) mod 64 < 64" by (rule mod_less_divisor) simp
  then show ?thesis unfolding con_next_def by (subst unat_ucast_u32_u8) (simp_all add: m)
qed

lemma con_fill_ok: "length s \<le> 96 \<Longrightarrow> con_msg_ok m \<Longrightarrow> con_msg_ok (con_fill s m)"
  by (auto simp: con_msg_ok_def con_fill_def unat_of_nat)

lemma con_fill_rest: "length s \<le> 96 \<Longrightarrow> con_rest (con_fill s m) = s"
  by (simp add: con_rest_def con_fill_def unat_of_nat)

lemma ring_list_update_tail:
  assumes "t < c" "Suc k \<le> c"
  shows "ring_list (b[t := x]) c (Suc t mod c) k = ring_list b c (Suc t mod c) k"
proof -
  have neq: "t \<noteq> (Suc t mod c + i) mod c" if "i < k" for i
    using ring_index_neq [of 0 "Suc i" c t] that assms by (simp add: mod_simps)
  have "map (\<lambda>i. b[t := x] ! ((Suc t mod c + i) mod c)) [0..<k] = map (\<lambda>i. b ! ((Suc t mod c + i) mod c)) [0..<k]"
    by (intro map_cong refl nth_list_update_neq neq) simp
  then show ?thesis by (simp only: ring_list_def)
qed

lemma con_text_push:
  assumes "con_inv c" "co_count c < 64" "length s \<le> 96"
  defines "c' \<equiv> c\<lparr>co_slots := (co_slots c)[unat (co_head c) := con_fill s (co_slots c ! unat (co_head c))],
    co_head := con_next (co_head c), co_count := co_count c + 1\<rparr>"
  shows "con_inv c' \<and> con_text c' = con_text c @ s"
proof -
  have i: "length (co_slots c) = 64" "unat (co_tail c) < 64" "list_all con_msg_ok (co_slots c)"
    "unat (co_head c) = (unat (co_tail c) + unat (co_count c)) mod 64"
    using assms(1) by (simp_all add: con_inv_def)
  have n: "unat (co_count c + 1) = Suc (unat (co_count c))" "unat (co_count c) < 64"
    using assms(2) unat_Suc_lt [OF assms(2)] by (simp_all add: word_less_nat_alt)
  have h: "unat (co_head c) < 64" unfolding i(4) by (rule mod_less_divisor) simp
  then have "con_msg_ok (co_slots c ! unat (co_head c))" using i(1,3) by (simp add: list_all_length)
  then have m: "con_msg_ok (con_fill s (co_slots c ! unat (co_head c)))" by (rule con_fill_ok [OF assms(3)])
  have "list_all con_msg_ok ((co_slots c)[unat (co_head c) := con_fill s (co_slots c ! unat (co_head c))])"
    using i(1,3) m h by (auto simp: list_all_length nth_list_update)
  moreover have "unat (con_next (co_head c)) = (unat (co_tail c) + unat (co_count c + 1)) mod 64"
    unfolding unat_con_next [OF h] n(1) by (simp add: i(4) mod_simps)
  ultimately have "con_inv c'" using i n by (simp add: con_inv_def c'_def)
  moreover have "con_text c' = con_text c @ s"
    using ring_list_push [of "unat (co_count c)" 64 "co_slots c" "unat (co_tail c)"] i n
    by (simp add: con_text_def c'_def con_fill_rest [OF assms(3)])
  ultimately show ?thesis ..
qed

text \<open>One more character of the oldest message has gone out.\<close>

definition con_advance :: "console_ctx \<Rightarrow> console_ctx" where
  "con_advance c = c\<lparr>co_slots := (co_slots c)[unat (co_tail c) :=
     (co_slots c ! unat (co_tail c))\<lparr>cm_off := cm_off (co_slots c ! unat (co_tail c)) + 1\<rparr>]\<rparr>"

lemma con_text_advance:
  assumes "con_inv c" "co_count c \<noteq> 0" "cm_off (co_slots c ! unat (co_tail c)) < cm_len (co_slots c ! unat (co_tail c))"
  shows "con_inv (con_advance c)"
    "con_text c = cm_data (co_slots c ! unat (co_tail c)) ! unat (cm_off (co_slots c ! unat (co_tail c))) # con_text (con_advance c)"
proof -
  let ?m = "co_slots c ! unat (co_tail c)" and ?t = "unat (co_tail c)" and ?n = "unat (co_count c)"
  have i: "length (co_slots c) = 64" "?t < 64" "list_all con_msg_ok (co_slots c)" "?n \<le> 64"
    using assms(1) by (simp_all add: con_inv_def)
  have n: "0 < ?n" using assms(2) by (simp add: unat_gt_0)
  have m: "con_msg_ok ?m" using i by (simp add: list_all_length)
  have o: "unat (cm_off ?m + 1) = Suc (unat (cm_off ?m))" "unat (cm_off ?m) < unat (cm_len ?m)"
    using assms(3) unat_Suc_lt [OF assms(3)] by (simp_all add: word_less_nat_alt)
  have l: "unat (cm_len ?m) \<le> length (cm_data ?m)" using m by (simp add: con_msg_ok_def)
  have m': "con_msg_ok (?m\<lparr>cm_off := cm_off ?m + 1\<rparr>)"
    using m o by (simp add: con_msg_ok_def word_le_nat_alt)
  have rest: "con_rest ?m = cm_data ?m ! unat (cm_off ?m) # con_rest (?m\<lparr>cm_off := cm_off ?m + 1\<rparr>)"
  proof -
    have "drop (unat (cm_off ?m)) (cm_data ?m) = cm_data ?m ! unat (cm_off ?m) # drop (Suc (unat (cm_off ?m))) (cm_data ?m)"
      using o l by (intro Cons_nth_drop_Suc [symmetric]) simp
    moreover have "unat (cm_len ?m) - unat (cm_off ?m) = Suc (unat (cm_len ?m) - Suc (unat (cm_off ?m)))"
      using o(2) by simp
    ultimately show ?thesis by (simp add: con_rest_def o(1))
  qed
  show "con_inv (con_advance c)"
    using assms(1) m' i by (auto simp: con_inv_def con_advance_def list_all_length nth_list_update)
  have "ring_list (co_slots (con_advance c)) 64 ?t ?n =
      ?m\<lparr>cm_off := cm_off ?m + 1\<rparr> # ring_list (co_slots c) 64 (Suc ?t mod 64) (?n - 1)"
    unfolding con_advance_def
    using ring_list_pop [OF n i(2), of "(co_slots c)[?t := ?m\<lparr>cm_off := cm_off ?m + 1\<rparr>]"]
      ring_list_update_tail [of ?t 64 "?n - 1" "co_slots c"] i n by simp
  then show "con_text c = cm_data ?m ! unat (cm_off ?m) # con_text (con_advance c)"
    using ring_list_pop [OF n i(2), of "co_slots c"] rest by (simp add: con_text_def con_advance_def)
qed

lemma con_text_next:
  assumes "con_inv c" "co_count c \<noteq> 0" "cm_off (co_slots c ! unat (co_tail c)) = cm_len (co_slots c ! unat (co_tail c))"
  defines "c' \<equiv> c\<lparr>co_tail := con_next (co_tail c), co_count := co_count c - 1\<rparr>"
  shows "con_inv c' \<and> con_text c' = con_text c \<and> unat (co_count c') = unat (co_count c) - 1"
proof -
  let ?t = "unat (co_tail c)" and ?n = "unat (co_count c)"
  have i: "?t < 64" "?n \<le> 64" "unat (co_head c) = (?t + ?n) mod 64" using assms(1) by (simp_all add: con_inv_def)
  have n: "0 < ?n" "unat (co_count c - 1) = ?n - 1" using assms(2) by (simp_all add: unat_gt_0 unat_minus_one)
  have "(Suc ?t mod 64 + (?n - 1)) mod 64 = (Suc ?t + (?n - 1)) mod 64" by (rule mod_add_left_eq)
  then have "(Suc ?t mod 64 + (?n - 1)) mod 64 = (?t + ?n) mod 64" using n(1) by simp
  then have "con_inv c'" using assms(1) i n by (simp add: con_inv_def c'_def unat_con_next)
  moreover have "con_text c' = con_text c"
    using ring_list_pop [OF n(1) i(1), of "co_slots c"] assms(3)
    by (simp add: con_text_def c'_def unat_con_next i n con_rest_def)
  ultimately show ?thesis using n by (simp add: c'_def)
qed

section \<open>From the writer to the line\<close>

text \<open>All the text on its way: already on the line, in the UART ring, in the message ring.\<close>

definition line_stream :: "'a con_world_scheme \<Rightarrow> string" where
  "line_stream w = w_uart w @ map char_of_byte (tx_contents (g_uart_ctx w)) @ con_text (g_console w)"

definition con_ok :: "'a con_world_scheme \<Rightarrow> bool" where
  "con_ok w \<longleftrightarrow> uart_ok w \<and> con_inv (g_console w)"

lemma upd_c_sel [simp]:
  "g_console (upd_c f w) = f (g_console w)" "g_uart_ctx (upd_c f w) = g_uart_ctx w" "w_uart (upd_c f w) = w_uart w"
  "w_panic (upd_c f w) = w_panic w" "uart_ok (upd_c f w) = uart_ok w" "g_console_sink (upd_c f w) = g_console_sink w"
  by (simp_all add: upd_c_def uart_ok_def)

lemma wake_flag [simp]:
  "con_ok (upd_c (\<lambda>c. c\<lparr>co_wake_posted := b\<rparr>) w) = con_ok w"
  "line_stream (upd_c (\<lambda>c. c\<lparr>co_wake_posted := b\<rparr>) w) = line_stream w"
  by (simp_all add: con_ok_def line_stream_def con_inv_def con_text_def)

lemma putc_effect:
  fixes w :: "'a con_world_scheme"
  assumes "uart_ok w" "uart_async_putc c w = (ok, w1)"
  shows "uart_ok w1" "w_uart w1 = w_uart w" "g_console w1 = g_console w"
    "tx_contents (g_uart_ctx w1) = tx_contents (g_uart_ctx w) @ (if ok then [byte_of c] else [])"
proof -
  have r: "uart_ring_ok (g_uart_ctx w)" "uart_ctx_valid (g_uart_ctx w)"
    using assms(1) by (simp_all add: uart_ok_def uart_ring_ok_def)
  obtain k u where t: "uart_tx_put (byte_of c) (g_uart_ctx w) = (k, u)" by fastforce
  note p = uart_tx_put_contents [OF r(1), of "byte_of c", unfolded t, simplified]
    uart_ops_ok(1) [OF r(1), of "byte_of c", unfolded t, simplified]
  show "uart_ok w1" "w_uart w1 = w_uart w" "g_console w1 = g_console w"
    "tx_contents (g_uart_ctx w1) = tx_contents (g_uart_ctx w) @ (if ok then [byte_of c] else [])"
    using assms r(2) t p by (auto simp: uart_async_putc_def uart_ok_def split: if_splits)
qed

lemma con_send_effect:
  fixes w :: "'a con_world_scheme"
  assumes "con_ok w" "co_count (g_console w) \<noteq> 0"
    "is = [unat (cm_off (co_slots (g_console w) ! unat (co_tail (g_console w))))..<
           unat (cm_len (co_slots (g_console w) ! unat (co_tail (g_console w))))]"
    "con_send is w = (ok, w1)"
  shows "con_ok w1 \<and> line_stream w1 = line_stream w \<and> co_count (g_console w1) = co_count (g_console w) \<and>
    (ok \<longrightarrow> cm_off (co_slots (g_console w1) ! unat (co_tail (g_console w1))) =
            cm_len (co_slots (g_console w1) ! unat (co_tail (g_console w1))))"
  using assms
proof (induction "is" arbitrary: w)
  case Nil
  let ?m = "co_slots (g_console w) ! unat (co_tail (g_console w))"
  have "con_msg_ok ?m" using Nil.prems(1) by (simp add: con_ok_def con_inv_def list_all_length)
  moreover have "\<not> unat (cm_off ?m) < unat (cm_len ?m)" using Nil.prems(3) [symmetric] by (auto simp: upt_eq_Nil_conv)
  ultimately have "cm_off ?m = cm_len ?m" by (simp add: con_msg_ok_def word_le_nat_alt word_unat_eq_iff)
  with Nil show ?case by simp
next
  case (Cons i "is")
  let ?c = "g_console w"
  let ?t = "unat (co_tail ?c)"
  let ?m = "co_slots ?c ! ?t"
  have inv: "uart_ok w" "con_inv ?c" using Cons.prems(1) by (simp_all add: con_ok_def)
  from Cons.prems(3) have up: "[unat (cm_off ?m)..<unat (cm_len ?m)] = i # is" ..
  then have i: "i = unat (cm_off ?m)" "unat (cm_off ?m) < unat (cm_len ?m)"
    and rest: "is = [Suc (unat (cm_off ?m))..<unat (cm_len ?m)]"
    by (auto simp: upt_eq_Cons_conv)
  have lt: "cm_off ?m < cm_len ?m" using i(2) by (simp add: word_less_nat_alt)
  obtain k w2 where p: "uart_async_putc (cm_data ?m ! i) w = (k, w2)" by fastforce
  note e = putc_effect [OF inv(1) p]
  show ?case
  proof (cases k)
    case False
    then have "ok = False" "w1 = w2" using Cons.prems(4) p by (simp_all add: Let_def)
    with False e inv show ?thesis by (simp add: con_ok_def line_stream_def)
  next
    case True
    let ?w3 = "upd_c con_advance w2"
    note adv = con_text_advance [OF inv(2) Cons.prems(2) lt]
    have run: "con_send is ?w3 = (ok, w1)"
      using Cons.prems(4) p True e(3) by (simp add: Let_def con_advance_def upd_c_def)
    have ok3: "con_ok ?w3" using e adv(1) by (simp add: con_ok_def)
    have stream: "line_stream ?w3 = line_stream w"
      using e True adv(2) i(1) by (simp add: line_stream_def)
    have tl: "?t < length (co_slots ?c)" using inv(2) by (simp add: con_inv_def)
    have cnt: "co_count (g_console ?w3) = co_count ?c" using e(3) by (simp add: con_advance_def)
    have "is = [unat (cm_off (co_slots (g_console ?w3) ! unat (co_tail (g_console ?w3))))..<
           unat (cm_len (co_slots (g_console ?w3) ! unat (co_tail (g_console ?w3))))]"
      using rest e(3) tl unat_Suc_lt [OF lt] by (simp add: con_advance_def)
    from Cons.IH [OF ok3 _ this run] cnt stream Cons.prems(2) show ?thesis by simp
  qed
qed

lemma con_drain_effect:
  fixes w :: "'a con_world_scheme"
  assumes "con_ok w" "n = unat (co_count (g_console w))"
  shows "con_ok (con_drain n w) \<and> line_stream (con_drain n w) = line_stream w"
  using assms
proof (induction n arbitrary: w)
  case 0
  then show ?case by simp
next
  case (Suc n)
  let ?m = "co_slots (g_console w) ! unat (co_tail (g_console w))"
  have nz: "co_count (g_console w) \<noteq> 0" using Suc.prems(2) by auto
  have "con_msg_ok ?m" using Suc.prems(1) by (simp add: con_ok_def con_inv_def list_all_length)
  then have m: "\<not> cm_off ?m > cm_len ?m" by (simp add: con_msg_ok_def not_less)
  obtain ok w1 where s: "con_send [unat (cm_off ?m)..<unat (cm_len ?m)] w = (ok, w1)" by fastforce
  note e = con_send_effect [OF Suc.prems(1) nz refl s]
  show ?case
  proof (cases ok)
    case False
    with e s m show ?thesis by (simp add: Let_def)
  next
    case True
    let ?w2 = "upd_c (\<lambda>c. c\<lparr>co_tail := con_next (co_tail c), co_count := co_count c - 1\<rparr>) w1"
    have "con_inv (g_console w1)" "co_count (g_console w1) \<noteq> 0" using e nz by (auto simp: con_ok_def)
    from con_text_next [OF this] e True
    have 2: "con_ok ?w2" "line_stream ?w2 = line_stream w1" "unat (co_count (g_console ?w2)) = unat (co_count (g_console w)) - 1"
      by (auto simp: con_ok_def line_stream_def)
    have "n = unat (co_count (g_console ?w2))" using 2(3) Suc.prems(2) by simp
    from Suc.IH [OF 2(1) this] 2(2) e True s m show ?thesis by (simp add: Let_def)
  qed
qed

lemma post_console [frame_simps]:
  fixes w :: "'a con_world_scheme"
  shows "g_console (snd (sched_post_common a e b w)) = g_console w"
    "g_console_sink (snd (sched_post_common a e b w)) = g_console_sink w"
  by (simp_all add: sched_post_common_def set_ao_def Let_def split: option.split prod.split)

lemma post_con_ok:
  fixes w :: "'a con_world_scheme"
  shows "con_ok w \<Longrightarrow> con_ok (snd (sched_post_common a e b w))"
  "line_stream (snd (sched_post_common a e b w)) = line_stream w"
  by (simp_all add: con_ok_def uart_ok_def line_stream_def frame_simps)

lemma console_kick_effect:
  "con_ok w \<Longrightarrow> con_ok (snd (console_kick w)) \<and> line_stream (snd (console_kick w)) = line_stream w"
  by (simp add: console_kick_def sched_post_def case_prod_beta post_con_ok)

lemma console_enqueue_effect:
  fixes w :: "'a con_world_scheme"
  assumes "con_ok w" "g_console_sink w \<noteq> CONSOLE_SINK_LOG" "console_enqueue (Some s) len w = (rc, w')"
    "unat len \<le> 96" "unat len \<le> length s"
  shows "con_ok w'"
    "line_stream w' = line_stream w @ take (unat len) s \<or> (rc \<noteq> SCHED_OK \<and> line_stream w' = line_stream w)"
proof -
  let ?w1 = "upd_c (\<lambda>c. c\<lparr>co_slots := (co_slots c)[unat (co_head c) := con_fill (take (unat len) s) (co_slots c ! unat (co_head c))],
    co_head := con_next (co_head c), co_count := co_count c + 1\<rparr>) w"
  have "con_ok w' \<and>
    (line_stream w' = line_stream w @ take (unat len) s \<or> (rc \<noteq> SCHED_OK \<and> line_stream w' = line_stream w))"
  proof (cases "len = 0 \<or> \<not> co_sched (g_console w) \<or> co_count (g_console w) \<ge> 64")
    case True
    with assms(1-3) show ?thesis
      by (auto simp: console_enqueue_def con_ok_def line_stream_def con_inv_def con_text_def sched_codes split: if_splits)
  next
    case False
    have "con_inv (g_console w)" "co_count (g_console w) < 64" "length (take (unat len) s) \<le> 96"
      using assms False by (auto simp: con_ok_def)
    from con_text_push [OF this] assms(1) have "con_ok ?w1" "line_stream ?w1 = line_stream w @ take (unat len) s"
      by (auto simp: con_ok_def line_stream_def)
    moreover have "w' = snd (console_kick ?w1)"
      using assms False by (simp add: console_enqueue_def Let_def not_less split: if_splits)
    ultimately show ?thesis using console_kick_effect [of ?w1] by simp
  qed
  then show "con_ok w'"
    "line_stream w' = line_stream w @ take (unat len) s \<or> (rc \<noteq> SCHED_OK \<and> line_stream w' = line_stream w)" by blast+
qed

lemma console_enqueue_sink [simp]: "g_console_sink (snd (console_enqueue s len w)) = g_console_sink w"
  by (simp add: console_enqueue_def console_kick_def sched_post_def Let_def case_prod_beta frame_simps split: option.split)

lemma console_write_loop_effect:
  fixes w :: "'a con_world_scheme"
  assumes "con_ok w" "g_console_sink w \<noteq> CONSOLE_SINK_LOG" "console_write_loop s w = (rc, w')"
  shows "con_ok w' \<and> g_console_sink w' = g_console_sink w \<and>
    (\<exists>t. line_stream w' = line_stream w @ t \<and> prefix t s \<and> (rc = SCHED_OK \<longrightarrow> t = s))"
  using assms
proof (induction s w arbitrary: rc w' rule: console_write_loop.induct)
  case (1 s w)
  show ?case
  proof (cases "s = []")
    case True
    with 1 show ?thesis by (simp add: console_write_loop.simps)
  next
    case False
    let ?n = "if length s > 96 then 96 else length s"
    obtain r w1 where e: "console_enqueue (Some s) (of_nat ?n) w = (r, w1)" by fastforce
    have n: "unat (of_nat ?n :: u16) = ?n" "?n \<le> 96" "?n \<le> length s" by (auto simp: unat_of_nat)
    have same: "g_console_sink w1 = g_console_sink w"
      using console_enqueue_sink [of "Some s" "of_nat ?n" w] e by simp
    then have sink: "g_console_sink w1 \<noteq> CONSOLE_SINK_LOG" using "1.prems"(2) by simp
    have eff: "con_ok w1" "line_stream w1 = line_stream w @ take ?n s \<or> (r \<noteq> SCHED_OK \<and> line_stream w1 = line_stream w)"
      using console_enqueue_effect [OF "1.prems"(1,2) e] n by simp_all
    show ?thesis
    proof (cases "r = SCHED_OK")
      case False
      then have "rc = r" "w' = w1" using "1.prems"(3) \<open>s \<noteq> []\<close> e by (auto simp: console_write_loop.simps Let_def)
      have "\<exists>t. line_stream w1 = line_stream w @ t \<and> prefix t s"
        using eff(2) take_is_prefix [of ?n s] by (elim disjE) (blast, metis append_Nil2 Nil_prefix)
      with eff(1) False same \<open>rc = r\<close> \<open>w' = w1\<close> show ?thesis by auto
    next
      case True
      then have "console_write_loop (drop ?n s) w1 = (rc, w')"
        using "1.prems"(3) \<open>s \<noteq> []\<close> e by (simp add: console_write_loop.simps [of s w] Let_def)
      from "1.IH" [OF False refl e [symmetric] _ eff(1) sink this] True obtain t where
        t: "con_ok w'" "g_console_sink w' = g_console_sink w1" "line_stream w' = line_stream w1 @ t" "prefix t (drop ?n s)" "rc = SCHED_OK \<longrightarrow> t = drop ?n s"
        by auto
      have "prefix (take ?n s @ t) s" using t(4) by (metis append_take_drop_id same_prefix_prefix)
      with t eff True same show ?thesis by (intro conjI exI [of _ "take ?n s @ t"]) auto
    qed
  qed
qed

text \<open>What can happen to text on its way out: a writer adds some, the console task
  runs on an event, the UART interrupts.\<close>

datatype con_op = Write string | Task u16 | Interrupt u32 u32

fun con_step :: "con_op \<Rightarrow> 'a con_world_scheme \<Rightarrow> int \<times> 'a con_world_scheme" where
  "con_step (Write s) w = console_puts (Some s) w"
| "con_step (Task sig) w = (SCHED_OK, console_task_dispatch (Some (sig_event sig)) w)"
| "con_step (Interrupt status rdr) w = (SCHED_OK, USART6_IRQHandler status rdr w)"

fun con_run :: "con_op list \<Rightarrow> 'a con_world_scheme \<Rightarrow> int list \<times> 'a con_world_scheme" where
  "con_run [] w = ([], w)"
| "con_run (c # cs) w = (case con_step c w of (rc, w1) \<Rightarrow> case con_run cs w1 of (rcs, w2) \<Rightarrow> (rc # rcs, w2))"

lemma kernel_panic_frame: "\<exists>t p. kernel_panic m f l w = w\<lparr>w_uart := t, w_panic := p\<rparr>"
proof (cases "w_panic w")
  case None
  let ?w1 = "uart_puts '':'' (uart_puts f (uart_puts ([CHR 0x0D, CHR 0x0A] @ ''at '') (uart_puts m
    (uart_puts ([CHR 0x0D, CHR 0x0A] @ ''PANIC: '') (w\<lparr>w_panic := Some m\<rparr>)))))"
  obtain t where "uart_put_u32 l ?w1 = uart_puts t ?w1" using uart_put_u32_puts by blast
  then have "kernel_panic m f l w = w\<lparr>w_uart := w_uart ?w1 @ t @ [CHR 0x0D, CHR 0x0A], w_panic := Some m\<rparr>"
    unfolding kernel_panic_def None option.case by (simp add: uart_puts_def)
  then show ?thesis by blast
next
  case (Some p)
  then have "kernel_panic m f l w = w\<lparr>w_uart := w_uart w, w_panic := w_panic w\<rparr>" by (simp add: kernel_panic_def)
  then show ?thesis by blast
qed

lemma panic_console [frame_simps]:
  fixes w :: "'a con_world_scheme"
  shows "g_console (kernel_panic m f l w) = g_console w" "g_console_sink (kernel_panic m f l w) = g_console_sink w"
  using kernel_panic_frame [of m f l w] by auto

lemma irq_console [frame_simps]:
  fixes w :: "'a con_world_scheme"
  shows "g_console (USART6_IRQHandler st rdr w) = g_console w" "g_console_sink (USART6_IRQHandler st rdr w) = g_console_sink w"
proof -
  have u: "g_console (upd_u f w) = g_console w" "g_console_sink (upd_u f w) = g_console_sink w"
    for f and w :: "'a con_world_scheme" by (simp_all add: upd_u_def)
  have n: "g_console (uart_rx_notify sched_post_isr m l w) = g_console w"
    "g_console_sink (uart_rx_notify sched_post_isr m l w) = g_console_sink w" for m l and w :: "'a con_world_scheme"
    by (simp_all add: uart_rx_notify_def sched_post_isr_def case_prod_beta frame_simps u)
  have r: "g_console (irq_rx st rdr w) = g_console w" "g_console_sink (irq_rx st rdr w) = g_console_sink w"
    for w :: "'a con_world_scheme"
    by (simp_all add: irq_rx_def case_prod_beta n u)
  have t: "g_console (irq_tx st c w) = g_console w" "g_console_sink (irq_tx st c w) = g_console_sink w"
    for c and w :: "'a con_world_scheme"
    by (simp_all add: irq_tx_def uart_puts_def split: prod.split option.split)
  have d: "g_console (irq_tc st c w) = g_console w" "g_console_sink (irq_tc st c w) = g_console_sink w"
    for c and w :: "'a con_world_scheme"
    by (simp_all add: irq_tc_def Let_def sched_post_isr_def frame_simps u)
  show "g_console (USART6_IRQHandler st rdr w) = g_console w" "g_console_sink (USART6_IRQHandler st rdr w) = g_console_sink w"
    by (simp_all add: USART6_IRQHandler_def Let_def r t d u frame_simps)
qed

lemma con_step_effect:
  fixes w :: "'a con_world_scheme"
  assumes "con_ok w" "g_console_sink w \<noteq> CONSOLE_SINK_LOG" "con_step c w = (rc, w')"
    "\<forall>s. c = Write s \<longrightarrow> length s < 65536"
  shows "con_ok w' \<and> g_console_sink w' = g_console_sink w \<and>
    (case c of Write s \<Rightarrow> \<exists>t. line_stream w' = line_stream w @ t \<and> prefix t s \<and> (rc = SCHED_OK \<longrightarrow> t = s)
     | _ \<Rightarrow> line_stream w' = line_stream w)"
proof (cases c)
  case (Write s)
  have len: "unat (of_nat (length s) :: u16) = length s" using assms(4) Write by (simp add: unat_of_nat)
  show ?thesis
  proof (cases "s = []")
    case True
    with assms(1-3) Write show ?thesis
      by (auto simp: console_puts_def console_write_def sched_codes)
  next
    case False
    then have "(of_nat (length s) :: u16) \<noteq> 0" using len by (metis length_0_conv unat_0)
    then have "console_write_loop s w = (rc, w')"
      using assms(3) Write len by (simp add: console_puts_def console_write_def)
    with console_write_loop_effect [OF assms(1,2) this] Write show ?thesis by simp
  qed
next
  case (Task sig)
  have sink: "g_console_sink (con_drain n w) = g_console_sink w" for n and w :: "'a con_world_scheme"
  proof -
    have p: "g_console_sink (snd (uart_async_putc c w)) = g_console_sink w" for c and w :: "'a con_world_scheme"
      by (simp add: uart_async_putc_def frame_simps case_prod_beta)
    have "g_console_sink (snd (con_send is w)) = g_console_sink w" for "is" and w :: "'a con_world_scheme"
    proof (induction "is" arbitrary: w)
      case (Cons i "is")
      show ?case using Cons.IH p by (simp add: Let_def case_prod_beta)
    qed simp
    then show ?thesis by (induction n arbitrary: w) (simp_all add: Let_def case_prod_beta frame_simps)
  qed
  show ?thesis using assms con_drain_effect [OF assms(1) refl] Task sink
    by (auto simp: console_task_dispatch_def)
next
  case (Interrupt status rdr)
  from irq_effect [of w status rdr] assms(1) obtain out where
    "w_uart (USART6_IRQHandler status rdr w) = w_uart w @ map char_of_byte out"
    "tx_contents (g_uart_ctx w) = out @ tx_contents (g_uart_ctx (USART6_IRQHandler status rdr w))"
    "uart_ok (USART6_IRQHandler status rdr w)" by (auto simp: con_ok_def)
  with assms Interrupt show ?thesis by (auto simp: con_ok_def line_stream_def frame_simps)
qed

text \<open>The text of the writes that were accepted in full.\<close>

fun con_written :: "con_op list \<Rightarrow> int list \<Rightarrow> string" where
  "con_written (Write s # cs) (rc # rcs) = s @ con_written cs rcs"
| "con_written (c # cs) (rc # rcs) = con_written cs rcs"
| "con_written cs rcs = []"


text \<open>The console after power-on, and with its task's wake-up already queued.\<close>

definition con_zero :: console_ctx where
  "con_zero = \<lparr> co_sched = False,
     co_slots = replicate 64 \<lparr> cm_len = 0, cm_off = 0, cm_data = replicate 96 (CHR 0x00) \<rparr>,
     co_head = 0, co_tail = 0, co_count = 0, co_wake_posted = False, co_dropped = 0 \<rparr>"

definition con_power_on :: con_world where
  "con_power_on = uart_boot (uart_world.extend uart_power_on (con_world.fields con_zero CONSOLE_SINK_UART))"

lemma con_power_on_ok: "con_ok con_power_on" "line_stream con_power_on = []" "g_console_sink con_power_on = 0"
proof -
  let ?w = "uart_world.extend uart_power_on (con_world.fields con_zero CONSOLE_SINK_UART)"
  have p: "w_panic ?w = None" "w_uart ?w = []"
    by (simp_all add: uart_power_on_def fs_power_on_def jrnl_power_on_def disk_power_on_def disk_world.defs
        jrnl_world.defs fs_world.defs uart_world.defs con_world.defs)
  note u = uart_async_init_ok [OF p(1)]
  have c: "g_console (uart_boot ?w) = con_zero" "g_console_sink (uart_boot ?w) = 0"
    by (simp_all add: uart_boot_def uart_async_init_def Let_def case_prod_beta upd_u_def frame_simps
        uart_world.defs con_world.defs)
  have "con_inv con_zero" by (simp add: con_inv_def con_zero_def con_msg_ok_def list_all_iff)
  then show "con_ok con_power_on" "line_stream con_power_on = []" "g_console_sink con_power_on = 0"
    using u p c by (simp_all add: con_power_on_def con_ok_def line_stream_def con_text_def con_zero_def)
qed

definition con_awake :: con_world where
  "con_awake = upd_c (\<lambda>c. c\<lparr>co_sched := True, co_wake_posted := True\<rparr>) con_power_on"

lemma con_awake_ok: "con_ok con_awake" "line_stream con_awake = []" "g_console_sink con_awake = 0"
  using con_power_on_ok
  by (simp_all add: con_awake_def con_ok_def line_stream_def con_inv_def con_text_def)

lemma con_awake_console: "co_sched (g_console con_awake)" "co_wake_posted (g_console con_awake)" "co_count (g_console con_awake) = 0"
  using con_power_on_ok
  by (simp_all add: con_awake_def con_power_on_def uart_boot_def uart_async_init_def Let_def case_prod_beta upd_u_def
      frame_simps uart_world.defs con_world.defs con_zero_def)

lemma con_awake_write: "fst (console_puts (Some ''hi'') con_awake) = SCHED_OK"
  using con_awake_console con_awake_ok(3)
  by (simp add: console_puts_def console_write_def console_write_loop.simps console_enqueue_def console_kick_def Let_def)


end
