(* ===== verification/Restore.thy ===== *)
theory Restore
  imports Console
begin

text \<open>
  Restoring tasks from a checkpoint: the registry of task descriptors
  (\<open>restore_registry.c\<close>), the loader that applies the regions of a checkpoint
  (\<open>restore_loader.c\<close>) and the queue of simulated restores (\<open>restore_sim.c\<close>).
  Function pointers are 32-bit addresses with 0 for null; \<open>call_reg f w\<close> is the
  call of the registration function at \<open>f\<close>, \<open>call_restore f blob w\<close> that of a
  restore function.
\<close>

abbreviation (input) TASK_CLASS_RESTORABLE_NOW :: u8 where "TASK_CLASS_RESTORABLE_NOW \<equiv> 0"
abbreviation (input) TASK_CLASS_RESTART_ONLY :: u8 where "TASK_CLASS_RESTART_ONLY \<equiv> 1"
abbreviation (input) TASK_CLASS_NON_RESTORABLE :: u8 where "TASK_CLASS_NON_RESTORABLE \<equiv> 2"
abbreviation (input) CKPT_V2_MAX_TASK_STATE_BLOB :: u32 where "CKPT_V2_MAX_TASK_STATE_BLOB \<equiv> 4096"
abbreviation (input) RESTORE_SIM_MAX_ITEMS :: u16 where "RESTORE_SIM_MAX_ITEMS \<equiv> 8"
abbreviation (input) RESTORE_SIM_MAX_BLOB :: u32 where "RESTORE_SIM_MAX_BLOB \<equiv> 512"

definition RESTORE_LOADER_OK :: int where "RESTORE_LOADER_OK = 0"
definition RESTORE_LOADER_ERR_PARAM :: int where "RESTORE_LOADER_ERR_PARAM = -1"
definition RESTORE_LOADER_ERR_RESTORE :: int where "RESTORE_LOADER_ERR_RESTORE = -6"

lemmas loader_codes = RESTORE_LOADER_OK_def RESTORE_LOADER_ERR_PARAM_def RESTORE_LOADER_ERR_RESTORE_def

record restore_desc =
  rd_task_id :: u8
  rd_task_class :: u8
  rd_state_version :: u16
  rd_min_state_len :: u32
  rd_max_state_len :: u32
  rd_register_fn :: u32
  rd_get_state_fn :: u32
  rd_restore_fn :: u32
  rd_ui_rehydrate_fn :: u32

record ckpt_region =
  rg_region_id :: u16
  rg_state_version :: u16
  rg_offset :: u32
  rg_length :: u32
  rg_crc32 :: u32

record loader_stats =
  ls_calls :: u32
  ls_applied :: u32
  ls_skipped :: u32
  ls_failed :: u32
  ls_last_rc :: int

record sim_item =
  si_seq :: u32
  si_action :: u16
  si_entry_state :: u16
  si_region :: ckpt_region
  si_blob :: "u8 list"

record sim_queue =
  sq_read_idx :: u16
  sq_write_idx :: u16
  sq_count :: u16
  sq_generation :: u32
  sq_next_seq :: u32

record res_world = con_world +
  g_registry :: "restore_desc option list"
  g_restore_loader_stats :: loader_stats
  g_items :: "sim_item list"
  g_q :: sim_queue

section \<open>Registry\<close>

definition restore_registry_init :: "'a res_world_scheme \<Rightarrow> 'a res_world_scheme" where
  "restore_registry_init w = w\<lparr>g_registry := replicate 256 None\<rparr>"

definition restore_registry_register_descriptor ::
  "restore_desc option \<Rightarrow> 'a res_world_scheme \<Rightarrow> int \<times> 'a res_world_scheme" where
  "restore_registry_register_descriptor dp w =
     (case dp of None \<Rightarrow> (SCHED_ERR_PARAM, w)
      | Some d \<Rightarrow>
        if rd_task_class d > TASK_CLASS_NON_RESTORABLE then (SCHED_ERR_PARAM, w)
        else if rd_min_state_len d > rd_max_state_len d then (SCHED_ERR_PARAM, w)
        else if rd_register_fn d = 0 then (SCHED_ERR_PARAM, w)
        else if rd_task_class d = TASK_CLASS_RESTORABLE_NOW \<and> (rd_get_state_fn d = 0 \<or> rd_restore_fn d = 0)
        then (SCHED_ERR_PARAM, w)
        else if g_registry w ! unat (rd_task_id d) \<noteq> None then (SCHED_ERR_EXISTS, w)
        else (SCHED_OK, w\<lparr>g_registry := (g_registry w)[unat (rd_task_id d) := Some d]\<rparr>))"

definition restore_registry_find :: "u8 \<Rightarrow> 'a res_world_scheme \<Rightarrow> restore_desc option" where
  "restore_registry_find task_id w = g_registry w ! unat task_id"

section \<open>Loader\<close>

definition bitmap_test_and_set :: "u32 list \<Rightarrow> u8 \<Rightarrow> bool \<times> u32 list" where
  "bitmap_test_and_set bits task_id =
     (let wd = unat (drop_bit 5 task_id);
          mask = push_bit (unat (task_id AND 31)) 1
      in (bits ! wd AND mask \<noteq> 0, bits[wd := bits ! wd OR mask]))"

text \<open>What becomes of one region.\<close>

datatype verdict = Applied | Skipped | Failed

text \<open>The checks before a region's bytes are handed to the task.\<close>

definition region_fits :: "restore_desc \<Rightarrow> ckpt_region \<Rightarrow> u32 \<Rightarrow> bool" where
  "region_fits d r payload_len \<longleftrightarrow>
     (if rd_state_version d \<noteq> rg_state_version r then False
      else if rg_length r < rd_min_state_len d \<or> rg_length r > rd_max_state_len d then False
      else if rg_length r > CKPT_V2_MAX_TASK_STATE_BLOB then False
      else let end_off = rg_offset r + rg_length r in
        if end_off < rg_offset r \<or> end_off > payload_len then False
        else rd_restore_fn d \<noteq> 0)"

definition apply_region ::
  "(u32 \<Rightarrow> 'a res_world_scheme \<Rightarrow> int \<times> 'a res_world_scheme) \<Rightarrow>
   (u32 \<Rightarrow> u8 list \<Rightarrow> 'a res_world_scheme \<Rightarrow> int \<times> 'a res_world_scheme) \<Rightarrow>
   u8 list \<Rightarrow> u32 \<Rightarrow> ckpt_region \<Rightarrow> u32 list \<Rightarrow> 'a res_world_scheme \<Rightarrow> verdict \<times> u32 list \<times> 'a res_world_scheme" where
  "apply_region call_reg call_restore payload payload_len r registered w =
     (case restore_registry_find (ucast (rg_region_id r)) w of
        None \<Rightarrow> (Failed, registered, w)
      | Some d \<Rightarrow>
        case bitmap_test_and_set registered (rd_task_id d) of (already, registered1) \<Rightarrow>
        case (if already then (SCHED_OK, w) else call_reg (rd_register_fn d) w) of (rc, w1) \<Rightarrow>
          if \<not> already \<and> rc \<noteq> SCHED_OK \<and> rc \<noteq> SCHED_ERR_EXISTS then (Failed, registered1, w1)
          else if rd_task_class d = TASK_CLASS_NON_RESTORABLE then (Skipped, registered1, w1)
          else if rd_task_class d = TASK_CLASS_RESTART_ONLY then (Skipped, registered1, w1)
          else if \<not> region_fits d r payload_len then (Failed, registered1, w1)
          else
            case call_restore (rd_restore_fn d) (take (unat (rg_length r)) (drop (unat (rg_offset r)) payload)) w1 of (rc, w2) \<Rightarrow>
              (if rc \<noteq> SCHED_OK then Failed else Applied, registered1, w2))"

fun apply_loop ::
  "(ckpt_region \<Rightarrow> u32 list \<Rightarrow> 'a res_world_scheme \<Rightarrow> verdict \<times> u32 list \<times> 'a res_world_scheme) \<Rightarrow>
   ckpt_region list \<Rightarrow> u32 list \<Rightarrow> 'a res_world_scheme \<Rightarrow> verdict list \<times> 'a res_world_scheme" where
  "apply_loop step [] registered w = ([], w)"
| "apply_loop step (r # rs) registered w =
     (case step r registered w of (v, registered1, w1) \<Rightarrow>
        case apply_loop step rs registered1 w1 of (vs, w2) \<Rightarrow> (v # vs, w2))"

definition count_verdict :: "verdict \<Rightarrow> verdict list \<Rightarrow> u32" where
  "count_verdict v vs = of_nat (length (filter ((=) v) vs))"

text \<open>The result: the return code and the three counters (written on success of the parameter checks).\<close>

definition restore_loader_apply_regions ::
  "(u32 \<Rightarrow> 'a res_world_scheme \<Rightarrow> int \<times> 'a res_world_scheme) \<Rightarrow>
   (u32 \<Rightarrow> u8 list \<Rightarrow> 'a res_world_scheme \<Rightarrow> int \<times> 'a res_world_scheme) \<Rightarrow>
   bool \<Rightarrow> ckpt_region list option \<Rightarrow> u16 \<Rightarrow> u8 list option \<Rightarrow> u32 \<Rightarrow> 'a res_world_scheme \<Rightarrow>
   (int \<times> (u32 \<times> u32 \<times> u32) option) \<times> 'a res_world_scheme" where
  "restore_loader_apply_regions call_reg call_restore have_sched regions region_count payload payload_len w =
     (let stats = (\<lambda>rc a s f w. w\<lparr>g_restore_loader_stats :=
            \<lparr> ls_calls = ls_calls (g_restore_loader_stats w) + 1,
              ls_applied = ls_applied (g_restore_loader_stats w) + a,
              ls_skipped = ls_skipped (g_restore_loader_stats w) + s,
              ls_failed = ls_failed (g_restore_loader_stats w) + f, ls_last_rc = rc \<rparr>\<rparr>) in
      if \<not> have_sched \<or> (regions = None \<and> region_count \<noteq> 0) \<or> (payload = None \<and> payload_len \<noteq> 0)
      then ((RESTORE_LOADER_ERR_PARAM, None), stats RESTORE_LOADER_ERR_PARAM 0 0 0 w)
      else
        case apply_loop (apply_region call_reg call_restore (case payload of None \<Rightarrow> [] | Some p \<Rightarrow> p) payload_len)
               (take (unat region_count) (case regions of None \<Rightarrow> [] | Some rs \<Rightarrow> rs)) (replicate 8 0) w of (vs, w1) \<Rightarrow>
          let a = count_verdict Applied vs; s = count_verdict Skipped vs; f = count_verdict Failed vs;
              rc = (if f \<noteq> 0 then RESTORE_LOADER_ERR_RESTORE else RESTORE_LOADER_OK)
          in ((rc, Some (a, s, f)), stats rc a s f w1))"

definition restore_loader_get_stats :: "'a res_world_scheme \<Rightarrow> loader_stats" where
  "restore_loader_get_stats w = g_restore_loader_stats w"

section \<open>Simulated restores\<close>

definition restore_sim_reset :: "'a res_world_scheme \<Rightarrow> int \<times> 'a res_world_scheme" where
  "restore_sim_reset w =
     (SCHED_OK, w\<lparr>g_q := \<lparr> sq_read_idx = 0, sq_write_idx = 0, sq_count = 0,
                           sq_generation = sq_generation (g_q w) + 1, sq_next_seq = 1 \<rparr>\<rparr>)"

definition restore_sim_enqueue ::
  "u16 \<Rightarrow> u16 \<Rightarrow> u8 list option \<Rightarrow> u32 \<Rightarrow> 'a res_world_scheme \<Rightarrow> int \<times> 'a res_world_scheme" where
  "restore_sim_enqueue region_id state_version blob len w =
     (let q = g_q w in
      if sq_count q \<ge> RESTORE_SIM_MAX_ITEMS then (SCHED_ERR_FULL, w)
      else if len > RESTORE_SIM_MAX_BLOB then (SCHED_ERR_PARAM, w)
      else if len \<noteq> 0 \<and> blob = None then (SCHED_ERR_PARAM, w)
      else
        let i = unat (sq_write_idx q); old = g_items w ! i;
            it = \<lparr> si_seq = sq_next_seq q, si_action = 1, si_entry_state = 0,
                   si_region = \<lparr> rg_region_id = region_id, rg_state_version = state_version,
                                 rg_offset = 0, rg_length = len, rg_crc32 = 0 \<rparr>,
                   si_blob = (case blob of None \<Rightarrow> si_blob old
                              | Some b \<Rightarrow> take (unat len) b @ drop (unat len) (si_blob old)) \<rparr>
        in (SCHED_OK, w\<lparr>g_items := (g_items w)[i := it],
                        g_q := q\<lparr>sq_next_seq := sq_next_seq q + 1,
                                 sq_write_idx := ring_next16 (sq_write_idx q) RESTORE_SIM_MAX_ITEMS,
                                 sq_count := sq_count q + 1\<rparr>\<rparr>))"

text \<open>The queued items from the read index on, and the regions and payload they make.\<close>

definition sim_queued :: "'a res_world_scheme \<Rightarrow> sim_item list" where
  "sim_queued w = ring_list (g_items w) 8 (unat (sq_read_idx (g_q w))) (unat (sq_count (g_q w)))"

definition sim_collect :: "sim_item list \<Rightarrow> ckpt_region list \<times> u8 list" where
  "sim_collect items =
     foldl (\<lambda>(regions, payload) it.
        if si_action it = 1 \<and> si_entry_state it = 0
        then (regions @ [(si_region it)\<lparr>rg_offset := of_nat (length payload)\<rparr>],
              payload @ take (unat (rg_length (si_region it))) (si_blob it))
        else (regions, payload)) ([], []) items"

definition restore_sim_apply ::
  "(u32 \<Rightarrow> 'a res_world_scheme \<Rightarrow> int \<times> 'a res_world_scheme) \<Rightarrow>
   (u32 \<Rightarrow> u8 list \<Rightarrow> 'a res_world_scheme \<Rightarrow> int \<times> 'a res_world_scheme) \<Rightarrow>
   bool \<Rightarrow> 'a res_world_scheme \<Rightarrow> (int \<times> (u32 \<times> u32 \<times> u32) option) \<times> 'a res_world_scheme" where
  "restore_sim_apply call_reg call_restore have_sched w =
     (case sim_collect (sim_queued w) of (regions, payload) \<Rightarrow>
      if regions = [] then ((RESTORE_LOADER_OK, Some (0, 0, 0)), w)
      else
        case restore_loader_apply_regions call_reg call_restore have_sched (Some regions) (of_nat (length regions))
               (Some payload) (of_nat (length payload)) w of ((rc, outs), w1) \<Rightarrow>
        let st = (if rc = RESTORE_LOADER_OK then 1 else 2);
            w2 = w1\<lparr>g_items := foldl (\<lambda>its k. let i = (unat (sq_read_idx (g_q w1)) + k) mod 8
                                               in its[i := (its ! i)\<lparr>si_entry_state := st\<rparr>])
                               (g_items w1) [0..<unat (sq_count (g_q w1))]\<rparr>
        in ((rc, outs),
            if rc = RESTORE_LOADER_OK
            then w2\<lparr>g_q := (g_q w2)\<lparr>sq_read_idx := sq_write_idx (g_q w2), sq_count := 0,
                                    sq_generation := sq_generation (g_q w2) + 1\<rparr>\<rparr>
            else w2))"

definition restore_sim_pending :: "'a res_world_scheme \<Rightarrow> u32" where
  "restore_sim_pending w = ucast (sq_count (g_q w))"

definition restore_sim_generation :: "'a res_world_scheme \<Rightarrow> u32" where
  "restore_sim_generation w = sq_generation (g_q w)"


section \<open>What the loader does with a checkpoint\<close>

lemma apply_loop_length: "length (fst (apply_loop step rs reg w)) = length rs"
proof (induction rs arbitrary: reg w)
  case (Cons r rs)
  obtain v reg1 w1 where "step r reg w = (v, reg1, w1)" by (metis prod_cases3)
  with Cons.IH [of reg1 w1] show ?case by (simp add: case_prod_beta)
qed simp

lemma verdict_partition:
  "length (filter ((=) Applied) vs) + length (filter ((=) Skipped) vs) + length (filter ((=) Failed) vs) = length vs"
proof (induction vs)
  case (Cons v vs)
  then show ?case by (cases v) simp_all
qed simp

lemma unat_count_verdict: "length vs < 65536 \<Longrightarrow> unat (count_verdict v vs) = length (filter ((=) v) vs)"
proof -
  assume "length vs < 65536"
  then have "length (filter ((=) v) vs) < 4294967296" using length_filter_le [of "(=) v" vs] by linarith
  then show ?thesis by (simp add: count_verdict_def unat_of_nat)
qed

text \<open>The loader accounts for every region.  Whatever the registration and restore
  functions do, a load of \<open>region_count\<close> regions returns counters of applied,
  skipped and failed regions that add up to \<open>region_count\<close>, and reports success
  exactly when no region failed.\<close>

theorem loader_accounts_regions:
  assumes "unat region_count \<le> length regions"
  shows "\<exists>rc a s f w'. restore_loader_apply_regions call_reg call_restore True (Some regions) region_count
      (Some payload) payload_len w = ((rc, Some (a, s, f)), w') \<and>
    unat a + unat s + unat f = unat region_count \<and> (rc = RESTORE_LOADER_OK \<longleftrightarrow> f = 0) \<and>
    ls_last_rc (restore_loader_get_stats w') = rc"
proof -
  let ?rs = "take (unat region_count) regions"
  obtain vs w1 where run: "apply_loop (apply_region call_reg call_restore payload payload_len) ?rs (replicate 8 0) w = (vs, w1)"
    by fastforce
  have len: "length vs = unat region_count"
    using apply_loop_length [of "apply_region call_reg call_restore payload payload_len" ?rs "replicate 8 0" w] run assms
    by simp
  then have small: "length vs < 65536" by simp
  have "unat (count_verdict Applied vs) + unat (count_verdict Skipped vs) + unat (count_verdict Failed vs) = unat region_count"
    unfolding unat_count_verdict [OF small] verdict_partition len ..
  then show ?thesis
    by (simp add: restore_loader_apply_regions_def run Let_def loader_codes restore_loader_get_stats_def)
qed

definition zero_region :: ckpt_region where
  "zero_region = \<lparr> rg_region_id = 0, rg_state_version = 0, rg_offset = 0, rg_length = 0, rg_crc32 = 0 \<rparr>"

definition res_power_on :: res_world where
  "res_power_on = con_world.extend con_power_on (res_world.fields (replicate 256 None)
     \<lparr> ls_calls = 0, ls_applied = 0, ls_skipped = 0, ls_failed = 0, ls_last_rc = 0 \<rparr>
     (replicate 8 \<lparr> si_seq = 0, si_action = 0, si_entry_state = 0, si_region = zero_region, si_blob = replicate 512 0 \<rparr>)
     \<lparr> sq_read_idx = 0, sq_write_idx = 0, sq_count = 0, sq_generation = 0, sq_next_seq = 0 \<rparr>)"

theorem loader_accounts_regions_witness:
  "\<exists>rc a s f w'. restore_loader_apply_regions (\<lambda>f w. (SCHED_OK, w)) (\<lambda>f b w. (SCHED_OK, w)) True
      (Some [zero_region, zero_region]) 2 (Some []) 0 res_power_on = ((rc, Some (a, s, f)), w') \<and>
    unat a + unat s + unat f = unat (2 :: u16) \<and> (rc = RESTORE_LOADER_OK \<longleftrightarrow> f = 0) \<and>
    ls_last_rc (restore_loader_get_stats w') = rc"
  by (rule loader_accounts_regions) simp



section \<open>The simulated restore queue\<close>

definition sim_pending_item :: "sim_item \<Rightarrow> bool" where
  "sim_pending_item it \<longleftrightarrow> si_action it = 1 \<and> si_entry_state it = 0"

definition sim_ok :: "sim_item \<Rightarrow> bool" where
  "sim_ok it \<longleftrightarrow> unat (rg_length (si_region it)) \<le> 512 \<and> length (si_blob it) = 512"

lemma sim_collect_step:
  "sim_collect (items @ [it]) =
     (if sim_pending_item it
      then (fst (sim_collect items) @ [(si_region it)\<lparr>rg_offset := of_nat (length (snd (sim_collect items)))\<rparr>],
            snd (sim_collect items) @ take (unat (rg_length (si_region it))) (si_blob it))
      else sim_collect items)"
  by (cases "sim_collect items") (simp add: sim_collect_def sim_pending_item_def)

lemma sim_collect_lengths:
  "list_all sim_ok items \<Longrightarrow> length (fst (sim_collect items)) = length (filter sim_pending_item items) \<and>
     length (snd (sim_collect items)) \<le> 512 * length items"
proof (induction items rule: rev_induct)
  case (snoc it items)
  then show ?case by (auto simp: sim_collect_step sim_ok_def)
qed (simp add: sim_collect_def)

text \<open>the simulated restore hands every queued blob on unchanged: the regions that
  \<open>restore_sim_apply\<close> builds are the pending items in queue order, and the slice of
  the packed payload that region \<open>k\<close> describes is exactly the blob of the k-th
  pending item.\<close>

theorem sim_blobs_unchanged:
  assumes "list_all sim_ok items" "length items \<le> 8" "k < length (filter sim_pending_item items)"
    and "sim_collect items = (regions, payload)"
  shows "let it = filter sim_pending_item items ! k; r = regions ! k in
    take (unat (rg_length r)) (drop (unat (rg_offset r)) payload) =
      take (unat (rg_length (si_region it))) (si_blob it) \<and>
    rg_region_id r = rg_region_id (si_region it) \<and> unat (rg_offset r) + unat (rg_length r) \<le> length payload"
  using assms
proof (induction items arbitrary: regions payload k rule: rev_induct)
  case (snoc it items)
  obtain rs p where col: "sim_collect items = (rs, p)" by fastforce
  have ok: "list_all sim_ok items" "sim_ok it" using snoc.prems(1) by simp_all
  note len = sim_collect_lengths [OF ok(1)]
  show ?case
  proof (cases "sim_pending_item it")
    case False
    with snoc.prems col snoc.IH [OF ok(1) _ _ col] show ?thesis by (simp add: sim_collect_step)
  next
    case True
    let ?r = "(si_region it)\<lparr>rg_offset := of_nat (length p)\<rparr>"
    have eq: "regions = rs @ [?r]" "payload = p @ take (unat (rg_length (si_region it))) (si_blob it)"
      using snoc.prems(4) col True by (simp_all add: sim_collect_step)
    have rl: "length rs = length (filter sim_pending_item items)" using len col by simp
    show ?thesis
    proof (cases "k < length (filter sim_pending_item items)")
      case True
      with snoc.prems(2) snoc.IH [OF ok(1) _ True col] show ?thesis
        by (simp add: eq Let_def nth_append rl)
    next
      case False
      then have k: "k = length (filter sim_pending_item items)"
        using snoc.prems(3) \<open>sim_pending_item it\<close> by simp
      have "length p < 4294967296" using len col snoc.prems(2) by simp
      then have "unat (of_nat (length p) :: u32) = length p" by (simp add: unat_of_nat)
      then show ?thesis using ok(2) \<open>sim_pending_item it\<close>
        by (simp add: eq Let_def nth_append rl k sim_ok_def)
    qed
  qed
qed simp

definition demo_item :: "u16 \<Rightarrow> u8 \<Rightarrow> sim_item" where
  "demo_item st b = \<lparr> si_seq = 1, si_action = 1, si_entry_state = st,
     si_region = zero_region\<lparr>rg_region_id := 4, rg_length := 3\<rparr>, si_blob = replicate 512 b \<rparr>"

theorem sim_blobs_unchanged_witness:
  "let items = [demo_item 0 7, demo_item 1 8, demo_item 0 9]; it = filter sim_pending_item items ! 1;
       r = fst (sim_collect items) ! 1 in
    take (unat (rg_length r)) (drop (unat (rg_offset r)) (snd (sim_collect items))) =
      take (unat (rg_length (si_region it))) (si_blob it) \<and>
    rg_region_id r = rg_region_id (si_region it) \<and>
    unat (rg_offset r) + unat (rg_length r) \<le> length (snd (sim_collect items))"
  using sim_blobs_unchanged [of "[demo_item 0 7, demo_item 1 8, demo_item 0 9]" 1, OF _ _ _ surjective_pairing]
  by (simp add: sim_ok_def sim_pending_item_def demo_item_def zero_region_def Let_def)

text \<open>Task functions that leave the restore queue alone.\<close>

definition queue_frame :: "('a res_world_scheme \<Rightarrow> int \<times> 'a res_world_scheme) \<Rightarrow> bool" where
  "queue_frame f \<longleftrightarrow> (\<forall>w. g_items (snd (f w)) = g_items w \<and> g_q (snd (f w)) = g_q w)"

lemma loader_queue_frame:
  assumes reg: "\<And>f. queue_frame (call_reg f)" and res: "\<And>f b. queue_frame (call_restore f b)"
  shows "g_items (snd (restore_loader_apply_regions call_reg call_restore hs rs n p l w)) = g_items w"
    "g_q (snd (restore_loader_apply_regions call_reg call_restore hs rs n p l w)) = g_q w"
proof -
  have step: "g_items (snd (snd (apply_region call_reg call_restore pl l r bits w))) = g_items w \<and>
      g_q (snd (snd (apply_region call_reg call_restore pl l r bits w))) = g_q w" for pl r bits w
    using reg res unfolding queue_frame_def apply_region_def
    by (auto simp: case_prod_beta split: option.split)
  have loop: "g_items (snd (apply_loop (apply_region call_reg call_restore pl l) rs bits w)) = g_items w \<and>
      g_q (snd (apply_loop (apply_region call_reg call_restore pl l) rs bits w)) = g_q w" for pl rs bits w
  proof (induction rs arbitrary: bits w)
    case (Cons r rs)
    obtain v b1 w1 where "apply_region call_reg call_restore pl l r bits w = (v, b1, w1)" by (metis prod_cases3)
    with Cons.IH [of b1 w1] step [of pl r bits w] show ?case by (simp add: case_prod_beta)
  qed simp
  show "g_items (snd (restore_loader_apply_regions call_reg call_restore hs rs n p l w)) = g_items w"
    "g_q (snd (restore_loader_apply_regions call_reg call_restore hs rs n p l w)) = g_q w"
    using loop by (simp_all add: restore_loader_apply_regions_def Let_def case_prod_beta)
qed

definition sim_mark :: "u16 \<Rightarrow> nat \<Rightarrow> nat \<Rightarrow> sim_item list \<Rightarrow> sim_item list" where
  "sim_mark st rd n its =
     foldl (\<lambda>its k. let i = (rd + k) mod 8 in its[i := (its ! i)\<lparr>si_entry_state := st\<rparr>]) its [0..<n]"

lemma sim_mark_nth:
  assumes "length its = 8"
  shows "length (sim_mark st rd n its) = 8 \<and>
    (\<forall>j<n. si_entry_state (sim_mark st rd n its ! ((rd + j) mod 8)) = st)"
proof (induction n)
  case (Suc n)
  have m: "(rd + n) mod 8 < 8" by simp
  show ?case using Suc m by (auto simp: sim_mark_def Let_def nth_list_update less_Suc_eq)
qed (simp add: sim_mark_def assms)

lemma sim_collect_none: "\<forall>it\<in>set items. \<not> sim_pending_item it \<Longrightarrow> sim_collect items = ([], [])"
proof (induction items rule: rev_induct)
  case (snoc it items)
  then show ?case by (simp add: sim_collect_step)
qed (simp add: sim_collect_def)


definition sim_demo :: res_world where
  "sim_demo = snd (restore_sim_enqueue 4 2 (Some [1, 2, 3]) 3 res_power_on)"


end
