(* ===== verification/Frames.thy ===== *)
theory Frames
  imports Restore
begin

text \<open>
  The state of a component is a record that extends the state of the components
  it calls.  A lower component never touches the fields above it: each of its
  operations keeps the record's extension part.  These frame lemmas are stated
  once per layer, and the selectors of every higher layer follow from them.
\<close>

named_theorems more_simps \<open>operations that keep the extension part of their record\<close>

section \<open>From a layer to the fields above it\<close>

lemma world_more_sd: "world.more w' = world.more w \<Longrightarrow> sd_world.more w' = sd_world.more w"
  by (cases w; cases w') simp

lemma sd_more_jrnl: "sd_world.more w' = sd_world.more w \<Longrightarrow> jrnl_world.more w' = jrnl_world.more w"
  by (cases w; cases w') simp

lemma jrnl_more_con: "jrnl_world.more w' = jrnl_world.more w \<Longrightarrow> con_world.more w' = con_world.more w"
  by (cases w; cases w') simp

lemma uart_more_con: "uart_world.more w' = uart_world.more w \<Longrightarrow> con_world.more w' = con_world.more w"
  by (cases w; cases w') simp

lemma world_more_con: "world.more w' = world.more w \<Longrightarrow> con_world.more w' = con_world.more w"
  by (cases w; cases w') simp

section \<open>Log, UART text, panic\<close>

lemma world_more_puts [more_simps]: "world.more (uart_puts s w) = world.more w"
  by (simp add: uart_puts_def)

lemma world_more_puts_fold: "world.more (foldl (\<lambda>w i. uart_puts (f i) w) w xs) = world.more w"
  by (induction xs arbitrary: w) (simp_all add: more_simps)

lemma world_more [more_simps]:
  "world.more (uart_put_u32 v w) = world.more w" "world.more (uart_put_hex32 v w) = world.more w"
  "world.more (LOG_ERR t rc f l w) = world.more w"
  by (simp_all add: uart_put_u32_def uart_put_hex32_def LOG_ERR_def Let_def world_more_puts_fold more_simps)

lemma world_more_panic [more_simps]: "world.more (kernel_panic m f l w) = world.more w"
  by (simp add: kernel_panic_def more_simps split: option.split)

lemmas sd_more_world [more_simps] = more_simps [THEN world_more_sd]

section \<open>Block transfers\<close>

lemma sd_next_more [more_simps]: "sd_world.more (snd (sd_next w)) = sd_world.more w"
  by (simp add: sd_next_def)

lemma sd_more [more_simps]:
  "sd_world.more (snd (sd_read1 l w)) = sd_world.more w"
  "sd_world.more (snd (sd_write1 l b w)) = sd_world.more w"
  "sd_world.more (snd (sd_init w)) = sd_world.more w"
  by (simp_all add: sd_read1_def sd_read_blocks_def sd_read_block_def sd_write1_def sd_write_blocks_def sd_write_block_def
      sd_init_def sd_next_def split: sd_outcome.split option.split)


section \<open>Journal\<close>

lemma jrnl_upd_more [more_simps]: "jrnl_world.more (upd_j f w) = jrnl_world.more w"
  by (simp add: upd_j_def)

lemmas jrnl_more_sd [more_simps] = sd_more [THEN sd_more_jrnl] world_more_puts [THEN world_more_sd, THEN sd_more_jrnl]
  world_more [THEN world_more_sd, THEN sd_more_jrnl] world_more_panic [THEN world_more_sd, THEN sd_more_jrnl]

lemma jrnl_ready_more [more_simps]: "jrnl_world.more (snd (jrnl_media_ready w)) = jrnl_world.more w"
  by (simp add: jrnl_media_ready_def more_simps)

lemma jrnl_scan_loop_more [more_simps]: "jrnl_world.more (snd (jrnl_scan_loop is best w)) = jrnl_world.more w"
proof (induction "is" arbitrary: best w)
  case (Cons i "is")
  obtain rc bo w1 where r: "sd_read1 (j_start_lba (g_journal w) + i) w = ((rc, bo), w1)" by (metis prod.exhaust)
  have "jrnl_world.more w1 = jrnl_world.more w" using jrnl_more_sd(1) [of "j_start_lba (g_journal w) + i" w] r by simp
  then show ?case by (simp add: r Cons.IH more_simps split: option.split prod.split)
qed simp

lemma jrnl_scan_more [more_simps]: "jrnl_world.more (jrnl_scan_tail w) = jrnl_world.more w"
proof -
  have u: "jrnl_world.more (case r of (None, w3) \<Rightarrow> upd_j f w3
     | (Some (a, b), w3) \<Rightarrow> uart_puts x (uart_put_u32 a (uart_puts y (upd_j (g a b) w3)))) = jrnl_world.more (snd r)"
    for r :: "(u32 \<times> u32) option \<times> 'a jrnl_world_scheme" and x y f g
    by (simp add: more_simps split: option.split prod.split)
  show ?thesis by (simp add: jrnl_scan_tail_def Let_def case_prod_beta [of _ "jrnl_media_ready _"] u more_simps)
qed

lemma jrnl_append_more [more_simps]: "jrnl_world.more (snd (jrnl_append_record ty p w)) = jrnl_world.more w"
  by (simp add: jrnl_append_record_def Let_def case_prod_beta more_simps)

lemma jrnl_flush_more [more_simps]: "jrnl_world.more (snd (jrnl_flush_pending_rx w)) = jrnl_world.more w"
  by (simp add: jrnl_flush_pending_rx_def Let_def case_prod_beta more_simps)

lemma journal_capture_more [more_simps]:
  "jrnl_world.more (snd (journal_capture_input_byte c w)) = jrnl_world.more w"
  "jrnl_world.more (snd (journal_capture_io_owner a b w)) = jrnl_world.more w"
  by (simp_all add: journal_capture_input_byte_def journal_capture_io_owner_def Let_def more_simps)

section \<open>UART, scheduler calls, console\<close>

lemma uart_upd_more [more_simps]: "uart_world.more (upd_u f w) = uart_world.more w"
  by (simp add: upd_u_def)

lemma uart_more_panic [more_simps]: "uart_world.more (kernel_panic m f l w) = uart_world.more w"
  using world_more_panic [of m f l w] by (cases w; cases "kernel_panic m f l w") simp

lemma uart_getc_more [more_simps]: "uart_world.more (snd (uart_async_getc w)) = uart_world.more w"
  by (simp add: uart_async_getc_def Let_def case_prod_beta more_simps)

lemma sched_post_more [more_simps]: "sched.more (snd (sched_post_common a e b w)) = sched.more w"
  by (simp add: sched_post_common_def set_ao_def Let_def split: option.split prod.split)

lemma sched_more_con: "sched.more w' = sched.more w \<Longrightarrow> con_world.more w' = con_world.more w"
  by (cases w; cases w') simp

lemma con_enqueue_more [more_simps]: "con_world.more (snd (console_enqueue s n w)) = con_world.more w"
  by (simp add: console_enqueue_def console_kick_def sched_post_def upd_c_def Let_def case_prod_beta
      sched_post_more [THEN sched_more_con] world_more_panic [THEN world_more_con] split: option.split)

lemma con_write_loop_more [more_simps]: "con_world.more (snd (console_write_loop s w)) = con_world.more w"
proof (induction s w rule: console_write_loop.induct)
  case (1 s w)
  show ?case
  proof (cases "s = []")
    case False
    let ?n = "if length s > 96 then 96 else length s"
    obtain rc w1 where e: "console_enqueue (Some s) (of_nat ?n) w = (rc, w1)" by fastforce
    have "con_world.more w1 = con_world.more w" using con_enqueue_more [of "Some s" "of_nat ?n" w] e by simp
    with "1.IH" [OF False refl e [symmetric]] e False show ?thesis
      by (simp add: console_write_loop.simps [of s w] Let_def)
  qed (simp add: console_write_loop.simps)
qed

lemma console_write_more [more_simps]: "con_world.more (snd (console_write s n w)) = con_world.more w"
  by (simp add: console_write_def more_simps split: option.split)

lemma console_more [more_simps]:
  "con_world.more (snd (console_putc c w)) = con_world.more w"
  "con_world.more (snd (console_puts s w)) = con_world.more w"
  by (simp_all add: console_putc_def console_puts_def more_simps split: option.split)

lemmas con_more_lower [more_simps] = journal_capture_more [THEN jrnl_more_con] uart_getc_more [THEN uart_more_con]
  sched_post_more [THEN sched_more_con] world_more_panic [THEN world_more_con]

end
