(* ===== verification/Shell.thy ===== *)
theory Shell
  imports Frames
begin

text \<open>
  The line editor of \<open>lineio_async.c\<close> (history, escape sequences, end-of-line
  handling) and the stdin ownership of \<open>terminal.c\<close>.  The shell's state is the
  one in \<open>g_term_ctx\<close>; character arrays are lists of their declared size, and
  \<open>dispatch\<close> is the function that receives a submitted line.
\<close>

abbreviation (input) SHELL_LINE_MAX :: nat where "SHELL_LINE_MAX \<equiv> 128"
abbreviation (input) SHELL_HISTORY_MAX :: nat where "SHELL_HISTORY_MAX \<equiv> 8"
abbreviation (input) EOL_STATE_NONE :: u8 where "EOL_STATE_NONE \<equiv> 0"
abbreviation (input) EOL_STATE_AFTER_CR :: u8 where "EOL_STATE_AFTER_CR \<equiv> 1"
abbreviation (input) EOL_STATE_AFTER_CRCR :: u8 where "EOL_STATE_AFTER_CRCR \<equiv> 2"
abbreviation (input) TERM_STDIN_OWNER_NONE :: u8 where "TERM_STDIN_OWNER_NONE \<equiv> 0xFF"
abbreviation (input) TERM_STDIN_MODE_RAW :: u8 where "TERM_STDIN_MODE_RAW \<equiv> 1"
abbreviation (input) TERM_SIG_UART_RX_READY :: u16 where "TERM_SIG_UART_RX_READY \<equiv> 1"
abbreviation (input) TERM_SIG_REPRINT_PROMPT :: u16 where "TERM_SIG_REPRINT_PROMPT \<equiv> 2"
abbreviation (input) CMD_SIG_EXEC :: u16 where "CMD_SIG_EXEC \<equiv> 5"
abbreviation (input) TERM_SIG_STDIN_RAW :: u16 where "TERM_SIG_STDIN_RAW \<equiv> 12"
abbreviation (input) CMD_MAILBOX_CAP :: nat where "CMD_MAILBOX_CAP \<equiv> 8"

record shell_state =
  ss_line :: string
  ss_history :: "string list"
  ss_nav_scratch :: string
  ss_len :: nat
  ss_hist_head :: nat
  ss_hist_count :: nat
  ss_nav_scratch_len :: nat
  ss_nav_index :: int
  ss_prompt_str :: string
  ss_escape_state :: int
  ss_eol_state :: u8

record terminal_task_ctx =
  tc_shell :: shell_state
  tc_stdin_owner :: u8
  tc_stdin_mode :: u8
  tc_stdin_owner_ref :: "nat option"

record cmd_slot =
  cs_line :: string
  cs_used :: bool

record term_world = res_world +
  g_term_ctx :: terminal_task_ctx
  g_sched :: bool
  g_cmd_slots :: "cmd_slot list"
  g_cmd_alloc_cursor :: u8
  g_cmd_bg_ctx :: u8
  g_cmd_bg_async :: u8
  g_cmd_fg_async :: u8

definition upd_t :: "(terminal_task_ctx \<Rightarrow> terminal_task_ctx) \<Rightarrow> 'a term_world_scheme \<Rightarrow> 'a term_world_scheme" where
  "upd_t f w = w\<lparr>g_term_ctx := f (g_term_ctx w)\<rparr>"

definition sh :: "'a term_world_scheme \<Rightarrow> shell_state" where
  "sh w = tc_shell (g_term_ctx w)"

definition upd_sh :: "(shell_state \<Rightarrow> shell_state) \<Rightarrow> 'a term_world_scheme \<Rightarrow> 'a term_world_scheme" where
  "upd_sh f w = upd_t (\<lambda>t. t\<lparr>tc_shell := f (tc_shell t)\<rparr>) w"

text \<open>Calls whose result the code ignores.\<close>

definition con_putc :: "char \<Rightarrow> 'a con_world_scheme \<Rightarrow> 'a con_world_scheme" where
  "con_putc c w = snd (console_putc c w)"

definition con_puts :: "string \<Rightarrow> 'a con_world_scheme \<Rightarrow> 'a con_world_scheme" where
  "con_puts s w = snd (console_puts (Some s) w)"

definition con_write :: "string \<Rightarrow> nat \<Rightarrow> 'a con_world_scheme \<Rightarrow> 'a con_world_scheme" where
  "con_write s n w = snd (console_write (Some s) (of_nat n) w)"

text \<open>The characters of a NUL-terminated array.\<close>

definition c_str :: "string \<Rightarrow> string" where
  "c_str s = takeWhile (\<lambda>c. c \<noteq> CHR 0x00) s"

section \<open>Line editor\<close>

definition erase_one :: "'a con_world_scheme \<Rightarrow> 'a con_world_scheme" where
  "erase_one w = con_putc (CHR 0x08) (con_putc (CHR '' '') (con_putc (CHR 0x08) w))"

text \<open>\<open>dst[0..n) = s[0..n); dst[n] = 0\<close>.\<close>

definition copy_line :: "string \<Rightarrow> nat \<Rightarrow> string \<Rightarrow> string" where
  "copy_line s n dst = take n s @ [CHR 0x00] @ drop (Suc n) dst"

definition shell_redraw_line :: "string \<Rightarrow> nat \<Rightarrow> 'a term_world_scheme \<Rightarrow> 'a term_world_scheme" where
  "shell_redraw_line s n0 w =
     (let old_len = ss_len (sh w);
          n = (if n0 > SHELL_LINE_MAX - 1 then SHELL_LINE_MAX - 1 else n0);
          w1 = upd_sh (\<lambda>t. t\<lparr>ss_line := copy_line s n (ss_line t), ss_len := n\<rparr>) w;
          row = (\<lambda>w. let w' = con_puts (ss_prompt_str (sh w)) (con_putc (CHR 0x0D) w)
                     in if ss_len (sh w') > 0 then con_write (ss_line (sh w')) (ss_len (sh w')) w' else w');
          w2 = row w1
      in if old_len > n then row (foldl (\<lambda>w _. con_putc (CHR '' '') w) w2 [0..<old_len - n]) else w2)"

definition shell_hist_recent_index :: "shell_state \<Rightarrow> nat \<Rightarrow> nat" where
  "shell_hist_recent_index t nav = nat ((int (ss_hist_head t) - 1 - int nav) mod int SHELL_HISTORY_MAX)"

text \<open>The comparison with the newest entry: equal up to \<open>len\<close> and terminated there.\<close>

definition same_as_last :: "shell_state \<Rightarrow> string \<Rightarrow> nat \<Rightarrow> bool" where
  "same_as_last t line len \<longleftrightarrow>
     (let h = ss_history t ! shell_hist_recent_index t 0
      in take len h = take len line \<and> cch h len = CHR 0x00)"

definition shell_history_push :: "string \<Rightarrow> nat \<Rightarrow> shell_state \<Rightarrow> shell_state" where
  "shell_history_push line len0 t =
     (if len0 = 0 then t
      else
        let len = (if len0 > SHELL_LINE_MAX - 1 then SHELL_LINE_MAX - 1 else len0) in
        if ss_hist_count t > 0 \<and> same_as_last t line len then t
        else t\<lparr>ss_history := (ss_history t)[ss_hist_head t := copy_line line len (ss_history t ! ss_hist_head t)],
               ss_hist_head := (ss_hist_head t + 1) mod SHELL_HISTORY_MAX,
               ss_hist_count := (if ss_hist_count t < SHELL_HISTORY_MAX then ss_hist_count t + 1 else ss_hist_count t)\<rparr>)"

text \<open>\<open>n\<close> of the two navigation functions: the length of the entry, at most 127.\<close>

definition entry_len :: "string \<Rightarrow> nat" where
  "entry_len h = length (takeWhile (\<lambda>c. c \<noteq> CHR 0x00) (take (SHELL_LINE_MAX - 1) h))"

definition shell_show_entry :: "'a term_world_scheme \<Rightarrow> 'a term_world_scheme" where
  "shell_show_entry w =
     (let h = ss_history (sh w) ! shell_hist_recent_index (sh w) (nat (ss_nav_index (sh w)))
      in shell_redraw_line h (entry_len h) w)"

definition shell_history_up :: "'a term_world_scheme \<Rightarrow> 'a term_world_scheme" where
  "shell_history_up w =
     (if ss_hist_count (sh w) = 0 then w
      else shell_show_entry (upd_sh (\<lambda>t.
             if ss_nav_index t < 0
             then t\<lparr>ss_nav_scratch := copy_line (ss_line t) (ss_len t) (ss_nav_scratch t),
                    ss_nav_scratch_len := ss_len t, ss_nav_index := 0\<rparr>
             else if ss_nav_index t + 1 < int (ss_hist_count t) then t\<lparr>ss_nav_index := ss_nav_index t + 1\<rparr>
             else t) w))"

definition shell_history_down :: "'a term_world_scheme \<Rightarrow> 'a term_world_scheme" where
  "shell_history_down w =
     (if ss_nav_index (sh w) < 0 then w
      else if ss_nav_index (sh w) = 0
      then upd_sh (\<lambda>t. t\<lparr>ss_nav_index := -1\<rparr>) (shell_redraw_line (ss_nav_scratch (sh w)) (ss_nav_scratch_len (sh w)) w)
      else shell_show_entry (upd_sh (\<lambda>t. t\<lparr>ss_nav_index := ss_nav_index t - 1\<rparr>) w))"

definition shell_submit_line ::
  "(string \<Rightarrow> 'a term_world_scheme \<Rightarrow> 'a term_world_scheme) \<Rightarrow> 'a term_world_scheme \<Rightarrow> int \<times> 'a term_world_scheme" where
  "shell_submit_line dispatch w =
     (let w1 = upd_sh (\<lambda>t. let t1 = t\<lparr>ss_line := (ss_line t)[ss_len t := CHR 0x00]\<rparr>
                            in (shell_history_push (ss_line t1) (ss_len t1) t1)\<lparr>ss_nav_index := -1, ss_nav_scratch_len := 0\<rparr>)
                 (con_puts crlf w)
      in (1, upd_sh (\<lambda>t. t\<lparr>ss_len := 0\<rparr>) (dispatch (c_str (ss_line (sh w1))) w1)))"

definition shell_state_init :: "string \<Rightarrow> 'a term_world_scheme \<Rightarrow> 'a term_world_scheme" where
  "shell_state_init prompt w =
     con_puts prompt (upd_sh (\<lambda>t. t\<lparr>ss_len := 0, ss_hist_head := 0, ss_hist_count := 0, ss_nav_scratch_len := 0,
       ss_nav_index := -1, ss_prompt_str := prompt, ss_escape_state := 0, ss_eol_state := EOL_STATE_NONE\<rparr>) w)"

text \<open>The part of \<open>shell_tick\<close> after the byte was read and captured, in two steps: the
  swallowing of the rest of an end-of-line sequence, and the key itself.\<close>

definition eol_swallow :: "u8 \<Rightarrow> u8 \<Rightarrow> bool \<times> u8" where
  "eol_swallow eol c =
     (if eol = EOL_STATE_AFTER_CR
      then if c = 0x0A then (True, EOL_STATE_NONE)
           else if c = 0x0D then (True, EOL_STATE_AFTER_CRCR)
           else (False, EOL_STATE_NONE)
      else if eol = EOL_STATE_AFTER_CRCR
      then if c = 0x0A then (True, EOL_STATE_NONE) else (False, EOL_STATE_NONE)
      else (False, eol))"

definition shell_key ::
  "(string \<Rightarrow> 'a term_world_scheme \<Rightarrow> 'a term_world_scheme) \<Rightarrow> u8 \<Rightarrow> 'a term_world_scheme \<Rightarrow> int \<times> 'a term_world_scheme" where
  "shell_key dispatch c w =
     (if ss_escape_state (sh w) = 1
      then (0, upd_sh (\<lambda>t. t\<lparr>ss_escape_state := (if c = 0x5B then 2 else 0)\<rparr>) w)
      else if ss_escape_state (sh w) = 2
      then let w1 = upd_sh (\<lambda>t. t\<lparr>ss_escape_state := 0\<rparr>) w in
           (0, if c = 0x41 then shell_history_up w1 else if c = 0x42 then shell_history_down w1 else w1)
      else if c = 0x1B
      then (0, upd_sh (\<lambda>t. t\<lparr>ss_eol_state := EOL_STATE_NONE, ss_escape_state := 1\<rparr>) w)
      else if c = 0x0D
      then shell_submit_line dispatch (upd_sh (\<lambda>t. t\<lparr>ss_eol_state := EOL_STATE_AFTER_CR\<rparr>) w)
      else if c = 0x0A
      then shell_submit_line dispatch (upd_sh (\<lambda>t. t\<lparr>ss_eol_state := EOL_STATE_NONE\<rparr>) w)
      else if c = 0x08 \<or> c = 0x7F
      then (0, if ss_len (sh w) > 0 then erase_one (upd_sh (\<lambda>t. t\<lparr>ss_len := ss_len t - 1\<rparr>) w) else w)
      else if c \<ge> 0x20 \<and> c \<le> 0x7E
      then (0, if ss_len (sh w) < SHELL_LINE_MAX - 1
               then con_putc (char_of_byte c)
                      (upd_sh (\<lambda>t. t\<lparr>ss_line := (ss_line t)[ss_len t := char_of_byte c], ss_len := ss_len t + 1\<rparr>) w)
               else con_putc (CHR 0x07) w)
      else (0, w))"

definition shell_byte ::
  "(string \<Rightarrow> 'a term_world_scheme \<Rightarrow> 'a term_world_scheme) \<Rightarrow> u8 \<Rightarrow> 'a term_world_scheme \<Rightarrow> int \<times> 'a term_world_scheme" where
  "shell_byte dispatch c w =
     (case eol_swallow (ss_eol_state (sh w)) c of (swallowed, eol) \<Rightarrow>
        let w1 = upd_sh (\<lambda>t. t\<lparr>ss_eol_state := eol\<rparr>) w in
        if swallowed then (0, w1) else shell_key dispatch c w1)"

definition shell_tick ::
  "(string \<Rightarrow> 'a term_world_scheme \<Rightarrow> 'a term_world_scheme) \<Rightarrow> 'a term_world_scheme \<Rightarrow> int \<times> 'a term_world_scheme" where
  "shell_tick dispatch w =
     (case uart_async_getc w of
        (None, w1) \<Rightarrow> (0, w1)
      | (Some c, w1) \<Rightarrow> shell_byte dispatch c (snd (journal_capture_input_byte c w1)))"

definition shell_rx_idle :: "'a term_world_scheme \<Rightarrow> 'a term_world_scheme" where
  "shell_rx_idle w = upd_sh (\<lambda>t. t\<lparr>ss_eol_state := EOL_STATE_NONE\<rparr>) w"

section \<open>Ownership of standard input\<close>

definition term_is_protected_task :: "u8 \<Rightarrow> bool" where
  "term_is_protected_task ao \<longleftrightarrow> ao = AO_TERMINAL \<or> ao = AO_CMD \<or> ao = AO_CONSOLE"

definition term_stdin_owner_valid :: "'a term_world_scheme \<Rightarrow> bool" where
  "term_stdin_owner_valid w =
     (let t = g_term_ctx w; o' = tc_stdin_owner t in
      if \<not> g_sched w then False
      else if o' = TERM_STDIN_OWNER_NONE then False
      else if unat o' \<ge> SCHED_MAX_AO then False
      else if sc_table w ! unat o' = None then False
      else if tc_stdin_owner_ref t = None then False
      else sc_table w ! unat o' = tc_stdin_owner_ref t)"

definition term_stdin_release_internal :: "'a term_world_scheme \<Rightarrow> 'a term_world_scheme" where
  "term_stdin_release_internal w =
     upd_t (\<lambda>t. t\<lparr>tc_stdin_owner := TERM_STDIN_OWNER_NONE, tc_stdin_mode := 0, tc_stdin_owner_ref := None\<rparr>) w"

definition terminal_stdin_acquire :: "u8 \<Rightarrow> u8 \<Rightarrow> 'a term_world_scheme \<Rightarrow> int \<times> 'a term_world_scheme" where
  "terminal_stdin_acquire owner mode w =
     (if \<not> g_sched w \<or> unat owner \<ge> SCHED_MAX_AO then (SCHED_ERR_PARAM, w)
      else if mode \<noteq> TERM_STDIN_MODE_RAW then (SCHED_ERR_PARAM, w)
      else if sc_table w ! unat owner = None then (SCHED_ERR_NOT_FOUND, w)
      else if term_is_protected_task owner then (SCHED_ERR_DISABLED, w)
      else if tc_stdin_owner (g_term_ctx w) \<noteq> TERM_STDIN_OWNER_NONE then (SCHED_ERR_EXISTS, w)
      else (SCHED_OK, snd (journal_capture_io_owner owner 1 (shell_rx_idle
             (upd_t (\<lambda>t. t\<lparr>tc_stdin_owner := owner, tc_stdin_mode := mode,
                           tc_stdin_owner_ref := sc_table w ! unat owner\<rparr>) w)))))"

definition terminal_stdin_release :: "u8 \<Rightarrow> 'a term_world_scheme \<Rightarrow> int \<times> 'a term_world_scheme" where
  "terminal_stdin_release owner w =
     (if \<not> g_sched w \<or> unat owner \<ge> SCHED_MAX_AO then (SCHED_ERR_PARAM, w)
      else if tc_stdin_owner (g_term_ctx w) = TERM_STDIN_OWNER_NONE then (SCHED_ERR_NOT_FOUND, w)
      else if tc_stdin_owner (g_term_ctx w) \<noteq> owner then (SCHED_ERR_PARAM, w)
      else if \<not> term_stdin_owner_valid w then (SCHED_ERR_NOT_FOUND, w)
      else (SCHED_OK, snd (sched_post AO_TERMINAL (Some (sig_event TERM_SIG_REPRINT_PROMPT))
             (snd (journal_capture_io_owner owner 0 (shell_rx_idle (term_stdin_release_internal w)))))))"

definition term_kill_task :: "u8 \<Rightarrow> 'a term_world_scheme \<Rightarrow> (int \<times> string option) \<times> 'a term_world_scheme" where
  "term_kill_task ao w =
     (if \<not> g_sched w \<or> unat ao \<ge> SCHED_MAX_AO then ((SCHED_ERR_PARAM, None), w)
      else if term_is_protected_task ao then ((SCHED_ERR_DISABLED, None), w)
      else case sc_table w ! unat ao of
        None \<Rightarrow> ((SCHED_ERR_NOT_FOUND, None), w)
      | Some k \<Rightarrow>
          case sched_unregister ao w of (rc, w1) \<Rightarrow>
            ((rc, ao_name (g_task_aos w ! k)),
             if rc = SCHED_OK \<and> tc_stdin_owner (g_term_ctx w1) = ao then term_stdin_release_internal w1 else w1))"

definition ui_notify_bg_done :: "string \<Rightarrow> 'a term_world_scheme \<Rightarrow> 'a term_world_scheme" where
  "ui_notify_bg_done name w =
     (let nm = (if name = [] then ''?'' else name);
          w1 = con_puts (ss_prompt_str (sh w)) (con_puts ('']'' @ crlf) (con_puts nm (con_puts (crlf @ ''[done: '') w)))
      in if ss_len (sh w1) > 0 then con_write (ss_line (sh w1)) (ss_len (sh w1)) w1 else w1)"


section \<open>What the console and the journal leave alone\<close>

lemma con_more_term: "con_world.more w' = con_world.more w \<Longrightarrow> g_term_ctx w' = g_term_ctx w"
  by (cases w; cases w') simp

lemma con_call_more [more_simps]:
  "con_world.more (con_putc c w) = con_world.more w" "con_world.more (con_puts s w) = con_world.more w"
  "con_world.more (con_write s n w) = con_world.more w" "con_world.more (erase_one w) = con_world.more w"
  by (simp_all add: con_putc_def con_puts_def con_write_def erase_one_def more_simps)

lemma con_call_sh: "con_world.more w' = con_world.more w \<Longrightarrow> sh w' = sh w"
  using con_more_term unfolding sh_def by metis

lemmas sh_lower [simp] = con_call_more [THEN con_call_sh] con_more_lower [THEN con_call_sh]

lemma sh_upd [simp]: "sh (upd_sh f w) = f (sh w)"
  by (simp add: sh_def upd_sh_def upd_t_def)

lemma sh_fold_putc [simp]: "sh (foldl (\<lambda>w _. con_putc c w) w xs) = sh (w :: 'a term_world_scheme)"
  by (induction xs arbitrary: w) simp_all

lemma sh_redraw [simp]:
  "sh (shell_redraw_line s n w) =
     (let m = (if n > 127 then 127 else n)
      in (sh w)\<lparr>ss_line := copy_line s m (ss_line (sh w)), ss_len := m\<rparr>)"
  by (simp add: shell_redraw_line_def Let_def)

section \<open>The shell's arrays are never overrun\<close>

definition shell_inv :: "shell_state \<Rightarrow> bool" where
  "shell_inv t \<longleftrightarrow> length (ss_line t) = 128 \<and> length (ss_history t) = 8 \<and> list_all (\<lambda>h. length h = 128) (ss_history t) \<and>
     length (ss_nav_scratch t) = 128 \<and> ss_len t \<le> 127 \<and> ss_hist_head t < 8 \<and> ss_hist_count t \<le> 8 \<and>
     ss_nav_scratch_len t \<le> 127 \<and> -1 \<le> ss_nav_index t \<and> ss_nav_index t < int (ss_hist_count t)"

lemma length_copy_line: "n \<le> 127 \<Longrightarrow> length s = 128 \<Longrightarrow> length dst = 128 \<Longrightarrow> length (copy_line s n dst) = 128"
  by (simp add: copy_line_def)

lemma hist_index_lt: "shell_hist_recent_index t n < 8"
proof -
  have "(int (ss_hist_head t) - 1 - int n) mod 8 < 8" by simp
  then show ?thesis unfolding shell_hist_recent_index_def by (simp add: nat_less_iff)
qed

lemma hist_row: "shell_inv t \<Longrightarrow> i < 8 \<Longrightarrow> length (ss_history t ! i) = 128"
  by (simp add: shell_inv_def list_all_length)

lemma entry_len_le: "entry_len h \<le> 127"
  unfolding entry_len_def by (rule order_trans [OF length_takeWhile_le]) simp

lemma shell_inv_push:
  assumes "shell_inv t" "length line = 128"
  shows "shell_inv (shell_history_push line n t)"
    "ss_line (shell_history_push line n t) = ss_line t" "ss_len (shell_history_push line n t) = ss_len t"
    "ss_escape_state (shell_history_push line n t) = ss_escape_state t"
    "ss_eol_state (shell_history_push line n t) = ss_eol_state t"
    "ss_hist_count t \<le> ss_hist_count (shell_history_push line n t)"
proof -
  have h: "ss_hist_head t < 8" "length (ss_history t ! ss_hist_head t) = 128"
    using assms(1) hist_row by (simp_all add: shell_inv_def)
  show "shell_inv (shell_history_push line n t)"
    using assms h by (auto simp: shell_inv_def shell_history_push_def Let_def list_all_length nth_list_update copy_line_def)
  show "ss_line (shell_history_push line n t) = ss_line t" "ss_len (shell_history_push line n t) = ss_len t"
    "ss_escape_state (shell_history_push line n t) = ss_escape_state t"
    "ss_eol_state (shell_history_push line n t) = ss_eol_state t"
    "ss_hist_count t \<le> ss_hist_count (shell_history_push line n t)"
    by (simp_all add: shell_history_push_def Let_def)
qed

lemma shell_inv_redraw:
  assumes "shell_inv (sh w)" "length s = 128"
  shows "shell_inv (sh (shell_redraw_line s n w))"
  using assms by (auto simp: shell_inv_def Let_def copy_line_def)

lemma shell_inv_show: "shell_inv (sh w) \<Longrightarrow> shell_inv (sh (shell_show_entry w))"
  by (simp add: shell_show_entry_def Let_def shell_inv_redraw hist_row hist_index_lt del: sh_redraw)

lemma shell_inv_history:
  assumes "shell_inv (sh w)"
  shows "shell_inv (sh (shell_history_up w))" "shell_inv (sh (shell_history_down w))"
proof -
  show "shell_inv (sh (shell_history_up w))"
  proof (cases "ss_hist_count (sh w) = 0")
    case False
    let ?f = "\<lambda>t. if ss_nav_index t < 0
             then t\<lparr>ss_nav_scratch := copy_line (ss_line t) (ss_len t) (ss_nav_scratch t),
                    ss_nav_scratch_len := ss_len t, ss_nav_index := 0\<rparr>
             else if ss_nav_index t + 1 < int (ss_hist_count t) then t\<lparr>ss_nav_index := ss_nav_index t + 1\<rparr>
             else t"
    have "shell_inv (?f (sh w))" using assms False by (simp add: shell_inv_def length_copy_line)
    then have "shell_inv (sh (upd_sh ?f w))" by simp
    from shell_inv_show [OF this] False show ?thesis by (simp add: shell_history_up_def)
  qed (simp add: shell_history_up_def assms)
  have s: "length (ss_nav_scratch (sh w)) = 128" using assms by (simp add: shell_inv_def)
  show "shell_inv (sh (shell_history_down w))"
  proof (cases "ss_nav_index (sh w) \<le> 0")
    case True
    with shell_inv_redraw [OF assms s, of "ss_nav_scratch_len (sh w)"] assms show ?thesis
      by (auto simp: shell_history_down_def shell_inv_def Let_def)
  next
    case False
    have "shell_inv (sh (upd_sh (\<lambda>t. t\<lparr>ss_nav_index := ss_nav_index t - 1\<rparr>) w))"
      using assms False by (simp add: shell_inv_def)
    from shell_inv_show [OF this] False show ?thesis by (simp add: shell_history_down_def)
  qed
qed

lemma shell_inv_submit:
  assumes "shell_inv (sh w)" "\<And>l w. sh (dispatch l w) = sh w"
  shows "shell_inv (sh (snd (shell_submit_line dispatch w)))"
proof -
  let ?t = "(sh w)\<lparr>ss_line := (ss_line (sh w))[ss_len (sh w) := CHR 0x00]\<rparr>"
  have t: "shell_inv ?t" using assms(1) by (simp add: shell_inv_def)
  have "length (ss_line ?t) = 128" using assms(1) by (simp add: shell_inv_def)
  from shell_inv_push [OF t this, of "ss_len (sh w)"] show ?thesis
    by (simp add: shell_submit_line_def Let_def assms(2)) (simp add: shell_inv_def)
qed


lemma shell_inv_key:
  assumes i: "shell_inv (sh w)" and d: "\<And>l w. sh (dispatch l w) = sh w"
  shows "shell_inv (sh (snd (shell_key dispatch c w)))"
proof -
  have upd: "shell_inv (f (sh w)) \<Longrightarrow> shell_inv (sh (upd_sh f w))" for f by simp
  have eol: "shell_inv (sh (upd_sh (\<lambda>t. t\<lparr>ss_eol_state := e\<rparr>) w))" for e using i by (simp add: shell_inv_def)
  have esc: "shell_inv (sh (upd_sh (\<lambda>t. t\<lparr>ss_escape_state := e\<rparr>) w))" for e using i by (simp add: shell_inv_def)
  have key: "shell_inv ((sh w)\<lparr>ss_line := (ss_line (sh w))[n := x], ss_len := m\<rparr>)" if "m \<le> 127" for n x m
    using i that by (simp add: shell_inv_def)
  have bsp: "shell_inv ((sh w)\<lparr>ss_len := ss_len (sh w) - 1\<rparr>)" using i by (auto simp: shell_inv_def)
  note sub = shell_inv_submit [where dispatch = dispatch, OF eol d]
  show ?thesis
    using shell_inv_history [OF esc] sub esc eol key bsp i
    by (simp add: shell_key_def Let_def) (simp add: shell_inv_def)
qed

lemma shell_inv_byte:
  assumes "shell_inv (sh w)" and "\<And>l w. sh (dispatch l w) = sh w"
  shows "shell_inv (sh (snd (shell_byte dispatch c w)))"
proof -
  have "shell_inv (sh (upd_sh (\<lambda>t. t\<lparr>ss_eol_state := e\<rparr>) w))" for e using assms(1) by (simp add: shell_inv_def)
  from this shell_inv_key [OF this assms(2)] show ?thesis
    by (simp add: shell_byte_def Let_def case_prod_beta del: sh_upd)
qed

text \<open>The line editor never leaves its buffers.  Whatever bytes arrive, in whatever
  order, the line index stays below 128, the history position and count below their
  bounds, and the arrays keep their sizes, over any number of calls of \<open>shell_tick\<close>,
  for every command dispatcher that leaves the editor's state alone.\<close>

theorem shell_tick_in_bounds:
  assumes "shell_inv (sh w)" and "\<And>l w. sh (dispatch l w) = sh w"
  shows "shell_inv (sh (((\<lambda>w. snd (shell_tick dispatch w)) ^^ n) w))"
proof (induction n)
  case (Suc n)
  let ?w = "((\<lambda>w. snd (shell_tick dispatch w)) ^^ n) w"
  obtain co w1 where g: "uart_async_getc ?w = (co, w1)" by fastforce
  have s: "sh w1 = sh ?w" using uart_getc_more [THEN uart_more_con, THEN con_call_sh, of ?w] g by simp
  show ?case
  proof (cases co)
    case (Some c)
    have "shell_inv (sh (snd (journal_capture_input_byte c w1)))" using Suc s by simp
    from shell_inv_byte [OF this assms(2)] g Some show ?thesis by (simp add: shell_tick_def)
  qed (use g s Suc in \<open>simp add: shell_tick_def\<close>)
qed (use assms in simp)


definition shell_zero :: shell_state where
  "shell_zero = \<lparr> ss_line = replicate 128 (CHR 0x00), ss_history = replicate 8 (replicate 128 (CHR 0x00)),
     ss_nav_scratch = replicate 128 (CHR 0x00), ss_len = 0, ss_hist_head = 0, ss_hist_count = 0, ss_nav_scratch_len = 0,
     ss_nav_index = -1, ss_prompt_str = ''> '', ss_escape_state = 0, ss_eol_state = EOL_STATE_NONE \<rparr>"

definition term_power_on :: term_world where
  "term_power_on = res_world.extend res_power_on (term_world.fields
     \<lparr> tc_shell = shell_zero, tc_stdin_owner = TERM_STDIN_OWNER_NONE, tc_stdin_mode = 0, tc_stdin_owner_ref = None \<rparr>
     True (replicate 8 \<lparr> cs_line = replicate 128 (CHR 0x00), cs_used = False \<rparr>) 0 0 0 0)"

lemma term_power_on_sh: "sh term_power_on = shell_zero"
  by (simp add: term_power_on_def sh_def term_world.defs res_world.defs)

lemma shell_zero_inv: "shell_inv shell_zero"
  by (simp add: shell_zero_def shell_inv_def list_all_length)

theorem shell_tick_in_bounds_witness:
  "shell_inv (sh (((\<lambda>w. snd (shell_tick con_puts w)) ^^ 3) term_power_on))"
  by (rule shell_tick_in_bounds) (simp_all add: term_power_on_sh shell_zero_inv)

section \<open>Typed text and line ends\<close>

text \<open>The line under construction.\<close>

definition typed :: "shell_state \<Rightarrow> string" where
  "typed t = take (ss_len t) (ss_line t)"

text \<open>The editing keys, and what they do to a string of at most 127 characters.\<close>

definition is_erase :: "u8 \<Rightarrow> bool" where
  "is_erase c \<longleftrightarrow> c = 0x08 \<or> c = 0x7F"

definition is_edit :: "u8 \<Rightarrow> bool" where
  "is_edit c \<longleftrightarrow> is_erase c \<or> (0x20 \<le> c \<and> c \<le> 0x7E)"

definition edit :: "string \<Rightarrow> u8 \<Rightarrow> string" where
  "edit s c = (if is_erase c then butlast s else if length s < 127 then s @ [char_of_byte c] else s)"

definition edited :: "u8 list \<Rightarrow> string" where
  "edited ks = foldl edit [] ks"

text \<open>A dispatcher that records the lines it is given.\<close>

record rec_world = term_world +
  rec_lines :: "string list"

definition record_line :: "string \<Rightarrow> 'a rec_world_scheme \<Rightarrow> 'a rec_world_scheme" where
  "record_line l w = w\<lparr>rec_lines := rec_lines w @ [l]\<rparr>"

definition shell_feed :: "u8 list \<Rightarrow> 'a rec_world_scheme \<Rightarrow> 'a rec_world_scheme" where
  "shell_feed bs w = foldl (\<lambda>w c. snd (shell_byte record_line c w)) w bs"

lemma con_more_rec: "con_world.more w' = con_world.more w \<Longrightarrow> rec_lines w' = rec_lines w"
  by (cases w; cases w') simp

lemmas rec_lower [simp] = con_call_more [THEN con_more_rec]

lemma rec_upd [simp]: "rec_lines (upd_sh f w) = rec_lines w" "sh (record_line l w) = sh w"
  by (simp_all add: upd_sh_def upd_t_def record_line_def sh_def)

lemma shell_feed_append: "shell_feed (xs @ ys) w = shell_feed ys (shell_feed xs w)"
  by (simp add: shell_feed_def)

lemma edit_key:
  assumes "shell_inv (sh w)" "ss_escape_state (sh w) = 0" "is_edit c"
    "\<not> fst (eol_swallow (ss_eol_state (sh w)) c)"
    "w' = snd (shell_byte record_line c w)"
  shows "typed (sh w') = edit (typed (sh w)) c" "rec_lines w' = rec_lines w"
    "ss_escape_state (sh w') = 0" "ss_eol_state (sh w') = snd (eol_swallow (ss_eol_state (sh w)) c)"
proof -
  have k: "c \<noteq> 0x1B" "c \<noteq> 0x0D" "c \<noteq> 0x0A"
    using assms(3) by (auto simp: is_edit_def is_erase_def)
  have l: "ss_len (sh w) \<le> 127" "length (ss_line (sh w)) = 128" using assms(1) by (simp_all add: shell_inv_def)
  note w' = assms(5) shell_byte_def case_prod_beta Let_def shell_key_def
  show "rec_lines w' = rec_lines w" "ss_escape_state (sh w') = 0"
    "ss_eol_state (sh w') = snd (eol_swallow (ss_eol_state (sh w)) c)"
    using assms(2-4) k by (simp_all add: w')
  have t: "take (Suc (ss_len (sh w))) ((ss_line (sh w))[ss_len (sh w) := x]) = typed (sh w) @ [x]" for x
    using l by (simp add: typed_def take_Suc_conv_app_nth)
  have b: "take (ss_len (sh w) - Suc 0) (ss_line (sh w)) = butlast (typed (sh w))"
    using l by (simp add: typed_def butlast_take)
  have n: "length (typed (sh w)) = ss_len (sh w)" using l by (simp add: typed_def)
  show "typed (sh w') = edit (typed (sh w)) c"
  proof (cases "is_erase c")
    case True
    with assms(2-4) k b show ?thesis
      by (auto simp: w' edit_def is_erase_def) (simp_all add: typed_def)
  next
    case False
    with assms(3) have "32 \<le> c" "c \<le> 126" "c \<noteq> 8" "c \<noteq> 127" by (simp_all add: is_edit_def is_erase_def)
    with False assms(2-4) k n t show ?thesis by (simp add: w' edit_def typed_def)
  qed
qed


text \<open>An idle editor: no escape sequence open, at most the rest of a line end pending.\<close>

definition idle :: "u8 \<Rightarrow> shell_state \<Rightarrow> bool" where
  "idle e t \<longleftrightarrow> shell_inv t \<and> ss_escape_state t = 0 \<and> ss_eol_state t = e \<and> CHR 0x00 \<notin> set (typed t)"

lemma edit_no_nul:
  assumes "is_edit c" "CHR 0x00 \<notin> set s"
  shows "CHR 0x00 \<notin> set (edit s c)"
proof -
  have "is_erase c \<or> char_of_byte c \<noteq> CHR 0x00"
  proof (cases "c = 0")
    case False
    then have "unat c \<noteq> 0" by (simp add: unat_eq_zero)
    then have "of_char (char_of_byte c) \<noteq> (0 :: nat)" by (simp add: char_of_byte_def)
    then show ?thesis by auto
  qed (use assms(1) in \<open>simp add: is_edit_def is_erase_def\<close>)
  then show ?thesis using assms(2) by (auto simp: edit_def dest: in_set_butlastD)
qed

lemma eol_swallow_edit: "is_edit c \<Longrightarrow> e \<in> {0, 1, 2} \<Longrightarrow> eol_swallow e c = (False, 0)"
  by (auto simp: eol_swallow_def is_edit_def is_erase_def)

lemma idle_edit:
  assumes "idle e (sh w)" "is_edit c" "e \<in> {0, 1, 2}"
  shows "idle 0 (sh (snd (shell_byte record_line c w)))"
    "typed (sh (snd (shell_byte record_line c w))) = edit (typed (sh w)) c"
    "rec_lines (snd (shell_byte record_line c w)) = rec_lines w"
proof -
  have s: "eol_swallow (ss_eol_state (sh w)) c = (False, 0)"
    using assms eol_swallow_edit by (simp add: idle_def)
  have i: "shell_inv (sh w)" "ss_escape_state (sh w) = 0" "CHR 0x00 \<notin> set (typed (sh w))"
    using assms(1) by (simp_all add: idle_def)
  have "\<not> fst (eol_swallow (ss_eol_state (sh w)) c)" using s by simp
  note k = edit_key [OF i(1,2) assms(2) this refl]
  show "typed (sh (snd (shell_byte record_line c w))) = edit (typed (sh w)) c"
    "rec_lines (snd (shell_byte record_line c w)) = rec_lines w" by (rule k)+
  have "shell_inv (sh (snd (shell_byte record_line c w)))" by (rule shell_inv_byte [OF i(1)]) simp
  with k s edit_no_nul [OF assms(2) i(3)] show "idle 0 (sh (snd (shell_byte record_line c w)))"
    by (simp add: idle_def)
qed

lemma feed_edits:
  assumes "idle e (sh w)" "list_all is_edit ks" "e \<in> {0, 1, 2}"
  shows "idle (if ks = [] then e else 0) (sh (shell_feed ks w)) \<and>
    typed (sh (shell_feed ks w)) = foldl edit (typed (sh w)) ks \<and> rec_lines (shell_feed ks w) = rec_lines w"
  using assms
proof (induction ks arbitrary: w e)
  case (Cons c ks)
  let ?w = "snd (shell_byte record_line c w)"
  have c: "is_edit c" "list_all is_edit ks" using Cons.prems by simp_all
  note k = idle_edit [OF Cons.prems(1) c(1) Cons.prems(3)]
  from Cons.IH [OF k(1) c(2)] k show ?case by (simp add: shell_feed_def)
qed (simp add: shell_feed_def)

lemma submit_line:
  assumes "idle e (sh w)" "w' = snd (shell_submit_line record_line (upd_sh (\<lambda>t. t\<lparr>ss_eol_state := e'\<rparr>) w))"
  shows "idle e' (sh w')" "typed (sh w') = []" "rec_lines w' = rec_lines w @ [typed (sh w)]"
proof -
  let ?l = "(ss_line (sh w))[ss_len (sh w) := CHR 0x00]"
  let ?t = "(sh w)\<lparr>ss_eol_state := e', ss_line := ?l\<rparr>"
  have i: "shell_inv (sh w)" "ss_escape_state (sh w) = 0" "CHR 0x00 \<notin> set (typed (sh w))"
    using assms(1) by (simp_all add: idle_def)
  have t: "shell_inv ?t" "length ?l = 128" using i(1) by (simp_all add: shell_inv_def)
  note p = shell_inv_push [OF t(1) t(2), of "ss_len (sh w)"]
  have r: "shell_inv (sh (upd_sh (\<lambda>t. t\<lparr>ss_eol_state := e'\<rparr>) w))" using i(1) by (simp add: shell_inv_def)
  have "shell_inv (sh w')" unfolding assms(2) by (rule shell_inv_submit [OF r]) simp
  moreover have "typed (sh w') = []" by (simp add: assms(2) shell_submit_line_def Let_def typed_def)
  ultimately show "idle e' (sh w')" "typed (sh w') = []"
    using i(2) p by (simp_all add: idle_def) (simp_all add: assms(2) shell_submit_line_def Let_def)
  have "?l = typed (sh w) @ CHR 0x00 # drop (Suc (ss_len (sh w))) (ss_line (sh w))"
    using i(1) by (simp add: typed_def upd_conv_take_nth_drop shell_inv_def)
  then have "c_str ?l = typed (sh w)" using i(3) by (auto simp: c_str_def takeWhile_append)
  then show "rec_lines w' = rec_lines w @ [typed (sh w)]"
    using p(2) by (simp add: assms(2) shell_submit_line_def Let_def) (simp add: record_line_def)
qed


lemma feed_one: "shell_feed [c] w = snd (shell_byte record_line c w)"
  by (simp add: shell_feed_def)

lemma feed_swallowed:
  assumes "idle e (sh w)" "eol_swallow e c = (True, e')"
  shows "idle e' (sh (shell_feed [c] w))" "typed (sh (shell_feed [c] w)) = typed (sh w)"
    "rec_lines (shell_feed [c] w) = rec_lines w"
  using assms by (simp_all add: feed_one shell_byte_def idle_def typed_def shell_inv_def)

lemma feed_cr:
  assumes "idle 0 (sh w)"
  shows "idle 1 (sh (shell_feed [0x0D] w))" "typed (sh (shell_feed [0x0D] w)) = []"
    "rec_lines (shell_feed [0x0D] w) = rec_lines w @ [typed (sh w)]"
proof -
  let ?w = "upd_sh (\<lambda>t. t\<lparr>ss_eol_state := 0\<rparr>) w"
  have i: "idle 0 (sh ?w)" and t: "typed (sh ?w) = typed (sh w)"
    using assms by (simp_all add: idle_def shell_inv_def typed_def)
  have "shell_feed [0x0D] w = snd (shell_submit_line record_line (upd_sh (\<lambda>t. t\<lparr>ss_eol_state := 1\<rparr>) ?w))"
    using assms by (simp add: feed_one shell_byte_def shell_key_def eol_swallow_def idle_def)
  from submit_line [OF i this] t show "idle 1 (sh (shell_feed [0x0D] w))" "typed (sh (shell_feed [0x0D] w)) = []"
    "rec_lines (shell_feed [0x0D] w) = rec_lines w @ [typed (sh w)]" by simp_all
qed

lemma feed_lf:
  assumes "idle 0 (sh w)"
  shows "idle 0 (sh (shell_feed [0x0A] w))" "typed (sh (shell_feed [0x0A] w)) = []"
    "rec_lines (shell_feed [0x0A] w) = rec_lines w @ [typed (sh w)]"
proof -
  let ?w = "upd_sh (\<lambda>t. t\<lparr>ss_eol_state := 0\<rparr>) w"
  have i: "idle 0 (sh ?w)" and t: "typed (sh ?w) = typed (sh w)"
    using assms by (simp_all add: idle_def shell_inv_def typed_def)
  have "shell_feed [0x0A] w = snd (shell_submit_line record_line (upd_sh (\<lambda>t. t\<lparr>ss_eol_state := 0\<rparr>) ?w))"
    using assms by (simp add: feed_one shell_byte_def shell_key_def eol_swallow_def idle_def)
  from submit_line [OF i this] t show "idle 0 (sh (shell_feed [0x0A] w))" "typed (sh (shell_feed [0x0A] w)) = []"
    "rec_lines (shell_feed [0x0A] w) = rec_lines w @ [typed (sh w)]" by simp_all
qed

text \<open>The line ends the editor accepts.\<close>

definition line_ends :: "u8 list set" where
  "line_ends = {[0x0D], [0x0A], [0x0D, 0x0A], [0x0D, 0x0D, 0x0A]}"

lemma feed_line_end:
  assumes "idle 0 (sh w)" "t \<in> line_ends"
  shows "idle (if t = [0x0D] then 1 else 0) (sh (shell_feed t w)) \<and> typed (sh (shell_feed t w)) = [] \<and>
    rec_lines (shell_feed t w) = rec_lines w @ [typed (sh w)]"
proof -
  have split: "shell_feed [a, b] w = shell_feed [b] (shell_feed [a] w)"
    "shell_feed [a, b, c] w = shell_feed [c] (shell_feed [b] (shell_feed [a] w))" for a b c
    by (simp_all add: shell_feed_def)
  note cr = feed_cr [OF assms(1)] and lf = feed_lf [OF assms(1)]
  have sw: "eol_swallow 1 0x0A = (True, 0)" "eol_swallow 1 0x0D = (True, 2)" "eol_swallow 2 0x0A = (True, 0)"
    by (simp_all add: eol_swallow_def)
  note lf2 = feed_swallowed [OF cr(1) sw(1)] and cr2 = feed_swallowed [OF cr(1) sw(2)]
  note lf3 = feed_swallowed [OF cr2(1) sw(3)]
  consider "t = [0x0D]" | "t = [0x0A]" | "t = [0x0D, 0x0A]" | "t = [0x0D, 0x0D, 0x0A]"
    using assms(2) by (auto simp: line_ends_def)
  then show ?thesis
    by cases (use cr lf lf2 cr2 lf3 in \<open>simp_all add: split\<close>)
qed

text \<open>
  A session: lines of editing keys, each with its line end.  After a bare CR
  the next line must not be empty, since the editor takes a following CR or LF
  for the rest of the same line end.
\<close>

fun session_ok :: "bool \<Rightarrow> (u8 list \<times> u8 list) list \<Rightarrow> bool" where
  "session_ok cr [] = True"
| "session_ok cr ((ks, t) # ls) =
     (list_all is_edit ks \<and> t \<in> line_ends \<and> (cr \<longrightarrow> ks \<noteq> []) \<and> session_ok (t = [0x0D]) ls)"

definition session_bytes :: "(u8 list \<times> u8 list) list \<Rightarrow> u8 list" where
  "session_bytes ls = concat (map (\<lambda>(ks, t). ks @ t) ls)"

lemma feed_session:
  assumes "idle (if cr then 1 else 0) (sh w)" "typed (sh w) = []" "session_ok cr ls"
  shows "rec_lines (shell_feed (session_bytes ls) w) = rec_lines w @ map (\<lambda>l. edited (fst l)) ls"
  using assms
proof (induction ls arbitrary: w cr)
  case Nil
  then show ?case by (simp add: session_bytes_def shell_feed_def)
next
  case (Cons l ls)
  obtain ks t where l: "l = (ks, t)" by fastforce
  with Cons.prems have s: "list_all is_edit ks" "t \<in> line_ends" "cr \<longrightarrow> ks \<noteq> []" "session_ok (t = [0x0D]) ls" by simp_all
  from feed_edits [OF Cons.prems(1) s(1)] s(3)
  have k: "idle 0 (sh (shell_feed ks w))" "typed (sh (shell_feed ks w)) = edited ks" "rec_lines (shell_feed ks w) = rec_lines w"
    by (auto simp: edited_def Cons.prems(2) split: if_splits)
  from feed_line_end [OF k(1) s(2)] have e: "idle (if t = [0x0D] then 1 else 0) (sh (shell_feed t (shell_feed ks w)))"
    "typed (sh (shell_feed t (shell_feed ks w))) = []"
    "rec_lines (shell_feed t (shell_feed ks w)) = rec_lines w @ [edited ks]" by (simp_all add: k)
  from Cons.IH [OF e(1,2) s(4)] e(3) show ?case
    by (simp add: l session_bytes_def shell_feed_append)
qed


definition rec_start :: rec_world where
  "rec_start = term_world.extend term_power_on (rec_world.fields [])"

lemma rec_start_sh: "sh rec_start = shell_zero" "rec_lines rec_start = []"
  using term_power_on_sh by (simp_all add: rec_start_def sh_def rec_world.defs term_world.defs)



section \<open>The lock on standard input\<close>

lemma term_upd_t [simp]: "g_term_ctx (upd_t f w) = f (g_term_ctx w)" "sc_table (upd_t f w) = sc_table w" "g_sched (upd_t f w) = g_sched w"
  by (simp_all add: upd_t_def)

text \<open>C26: standard input has one owner.  When \<open>terminal_stdin_acquire\<close> returns OK the caller
  is a registered, unprotected task and owns the input; every further acquire is refused
  without a change, and so is a release by another task.\<close>

theorem stdin_single_owner:
  assumes "terminal_stdin_acquire a m w = (SCHED_OK, w')"
  shows "tc_stdin_owner (g_term_ctx w) = TERM_STDIN_OWNER_NONE \<and> sc_table w ! unat a \<noteq> None \<and> \<not> term_is_protected_task a \<and>
    tc_stdin_owner (g_term_ctx w') = a \<and> tc_stdin_owner_ref (g_term_ctx w') = sc_table w ! unat a \<and>
    (\<exists>rc. rc \<noteq> SCHED_OK \<and> terminal_stdin_acquire b m' w' = (rc, w')) \<and>
    (b = a \<or> (\<exists>rc. rc \<noteq> SCHED_OK \<and> terminal_stdin_release b w' = (rc, w')))"
proof -
  let ?w1 = "shell_rx_idle (upd_t (\<lambda>t. t\<lparr>tc_stdin_owner := a, tc_stdin_mode := m, tc_stdin_owner_ref := sc_table w ! unat a\<rparr>) w)"
  have c: "g_sched w" "unat a < SCHED_MAX_AO" "m = TERM_STDIN_MODE_RAW" "sc_table w ! unat a \<noteq> None" "\<not> term_is_protected_task a"
    "tc_stdin_owner (g_term_ctx w) = TERM_STDIN_OWNER_NONE" and w': "w' = snd (journal_capture_io_owner a 1 ?w1)"
    using assms by (auto simp: terminal_stdin_acquire_def sched_codes split: if_splits)
  have t: "g_term_ctx w' = g_term_ctx ?w1"
    unfolding w' by (rule con_more_term [OF journal_capture_more(2) [THEN jrnl_more_con]])
  then have o': "tc_stdin_owner (g_term_ctx w') = a" "tc_stdin_owner_ref (g_term_ctx w') = sc_table w ! unat a"
    by (simp_all add: shell_rx_idle_def upd_sh_def)
  moreover have a: "a \<noteq> 0xFF" using c(2) by auto
  moreover have "\<exists>rc. rc \<noteq> SCHED_OK \<and> terminal_stdin_acquire b m' w' = (rc, w')"
    using o' a by (auto simp: terminal_stdin_acquire_def sched_codes)
  moreover have "b = a \<or> (\<exists>rc. rc \<noteq> SCHED_OK \<and> terminal_stdin_release b w' = (rc, w'))"
    using o' a by (auto simp: terminal_stdin_release_def sched_codes)
  ultimately show ?thesis using c by blast
qed

definition owner_demo :: term_world where
  "owner_demo = term_power_on\<lparr>sc_table := replicate 32 (Some 0)\<rparr>"

theorem stdin_single_owner_witness:
  "\<exists>w'. terminal_stdin_acquire 5 TERM_STDIN_MODE_RAW owner_demo = (SCHED_OK, w') \<and> tc_stdin_owner (g_term_ctx w') = 5 \<and>
    (\<exists>rc. rc \<noteq> SCHED_OK \<and> terminal_stdin_release 6 w' = (rc, w'))"
proof -
  have s: "g_sched owner_demo" "tc_stdin_owner (g_term_ctx owner_demo) = 0xFF" "sc_table owner_demo = replicate 32 (Some 0)"
    by (simp_all add: owner_demo_def term_power_on_def term_world.defs res_world.defs)
  have "unat (5 :: u8) = 5" by simp
  with s have "\<exists>w'. terminal_stdin_acquire 5 TERM_STDIN_MODE_RAW owner_demo = (SCHED_OK, w')"
    by (simp add: terminal_stdin_acquire_def term_is_protected_task_def)
  then obtain w' where a: "terminal_stdin_acquire 5 TERM_STDIN_MODE_RAW owner_demo = (SCHED_OK, w')" ..
  from stdin_single_owner [OF a, of 6] a show ?thesis by auto
qed

text \<open>C27: a stale owner keeps the input locked.  When the recorded owner is no longer the
  registered object it was (its task was unregistered without releasing the input), every
  acquire and every release, by whatever task, fails and changes nothing.\<close>

theorem stale_stdin_owner_stuck:
  assumes "tc_stdin_owner (g_term_ctx w) \<noteq> TERM_STDIN_OWNER_NONE" "\<not> term_stdin_owner_valid w"
  shows "(\<exists>rc. rc \<noteq> SCHED_OK \<and> terminal_stdin_acquire a m w = (rc, w)) \<and>
    (\<exists>rc. rc \<noteq> SCHED_OK \<and> terminal_stdin_release b w = (rc, w))"
  using assms by (auto simp: terminal_stdin_acquire_def terminal_stdin_release_def sched_codes)

theorem stale_stdin_owner_stuck_witness:
  "\<exists>rc. rc \<noteq> SCHED_OK \<and> terminal_stdin_acquire 6 TERM_STDIN_MODE_RAW
     (upd_t (\<lambda>t. t\<lparr>tc_stdin_owner := 5\<rparr>) owner_demo) =
       (rc, upd_t (\<lambda>t. t\<lparr>tc_stdin_owner := 5\<rparr>) owner_demo)"
proof -
  let ?w = "upd_t (\<lambda>t. t\<lparr>tc_stdin_owner := 5\<rparr>) owner_demo"
  have "tc_stdin_owner (g_term_ctx ?w) \<noteq> 0xFF" by simp
  moreover have "\<not> term_stdin_owner_valid ?w"
    by (simp add: term_stdin_owner_valid_def owner_demo_def term_power_on_def term_world.defs res_world.defs)
  ultimately show ?thesis using stale_stdin_owner_stuck [of ?w 6 TERM_STDIN_MODE_RAW] by blast
qed

end
