(* ===== verification/Sched_Frames.thy ===== *)
theory Sched_Frames
  imports Frames
begin

text \<open>
  What the drivers, the journal and the console leave of the scheduler: block
  transfers, the journal and the UART do not touch it at all, and console
  output only posts to the console task.
\<close>

section \<open>Operations that leave the scheduler alone\<close>

definition same_sched :: "'a sched_scheme \<Rightarrow> 'a sched_scheme \<Rightarrow> bool" where
  "same_sched w' w \<longleftrightarrow> g_task_aos w' = g_task_aos w \<and> sc_table w' = sc_table w \<and> sc_ready_bitmap w' = sc_ready_bitmap w \<and>
     sc_rr_cursor w' = sc_rr_cursor w"

lemma same_sched_refl [simp]: "same_sched w w"
  by (simp add: same_sched_def)

lemma same_sched_trans: "same_sched w2 w1 \<Longrightarrow> same_sched w1 w \<Longrightarrow> same_sched w2 w"
  by (simp add: same_sched_def)

lemma same_sched_puts: "same_sched (uart_puts s w') w \<longleftrightarrow> same_sched w' w"
  by (simp add: same_sched_def uart_puts_def)

lemma same_sched_puts_fold: "same_sched (foldl (\<lambda>w i. uart_puts (f i) w) w' xs) w \<longleftrightarrow> same_sched w' w"
  by (induction xs arbitrary: w') (simp_all add: same_sched_puts)

lemma same_sched_world:
  "same_sched (uart_put_u32 v w') w \<longleftrightarrow> same_sched w' w" "same_sched (LOG_ERR t rc f l w') w \<longleftrightarrow> same_sched w' w"
  by (simp_all add: uart_put_u32_def same_sched_puts same_sched_puts_fold Let_def) (simp add: LOG_ERR_def same_sched_def)

lemma same_sched_panic: "same_sched (kernel_panic m f l w') w \<longleftrightarrow> same_sched w' w"
  by (cases "w_panic w'") (simp_all add: kernel_panic_def same_sched_puts same_sched_world, simp add: same_sched_def)

lemma same_sched_sd:
  "same_sched (snd (sd_read1 l w)) w" "same_sched (snd (sd_write1 l b w)) w" "same_sched (snd (sd_init w)) w"
  by (simp_all add: same_sched_def sd_read1_def sd_read_blocks_def sd_read_block_def sd_write1_def sd_write_blocks_def
      sd_write_block_def sd_init_def sd_next_def split: sd_outcome.split option.split)

lemma same_sched_upd_j: "same_sched (upd_j f w') w \<longleftrightarrow> same_sched w' w"
  by (simp add: same_sched_def upd_j_def)

lemmas same_sched_simps = same_sched_puts same_sched_world same_sched_panic same_sched_upd_j same_sched_sd

lemma same_sched_ready: "same_sched (snd (jrnl_media_ready w)) w"
  by (simp add: jrnl_media_ready_def same_sched_sd)

lemma same_sched_scan_loop: "same_sched w' w \<Longrightarrow> same_sched (snd (jrnl_scan_loop is best w')) w"
proof (induction "is" arbitrary: best w')
  case (Cons i "is")
  obtain rc bo w1 where r: "sd_read1 (j_start_lba (g_journal w') + i) w' = ((rc, bo), w1)" by (metis prod.exhaust)
  have "same_sched w1 w" using same_sched_sd(1) [of "j_start_lba (g_journal w') + i" w'] r Cons.prems same_sched_trans
    by (metis snd_conv)
  then show ?case by (simp add: r Cons.IH same_sched_simps split: option.split prod.split)
qed simp

lemma same_sched_scan: "same_sched w' w \<Longrightarrow> same_sched (jrnl_scan_tail w') w"
proof -
  assume w: "same_sched w' w"
  have u: "same_sched (case r of (None, w3) \<Rightarrow> upd_j f w3
     | (Some (a, b), w3) \<Rightarrow> uart_puts x (uart_put_u32 a (uart_puts y (upd_j (g a b) w3)))) w \<longleftrightarrow> same_sched (snd r) w"
    for r :: "(u32 \<times> u32) option \<times> 'a jrnl_world_scheme" and x y f g
    by (simp add: same_sched_simps split: option.split prod.split)
  have rd: "same_sched w1 w \<Longrightarrow> same_sched (snd (jrnl_media_ready w1)) w" for w1 :: "'a jrnl_world_scheme"
    using same_sched_ready same_sched_trans by metis
  have "same_sched (uart_puts x (upd_j f w')) w" for x f using w by (simp add: same_sched_simps)
  note m = rd [OF this]
  have "same_sched (snd (jrnl_scan_loop is None (uart_puts x (uart_put_u32 n (uart_puts y
     (snd (jrnl_media_ready (uart_puts z (upd_j f w'))))))))) w" for "is" x n y z f
    by (rule same_sched_scan_loop) (simp add: same_sched_simps m)
  then show ?thesis
    using w m by (simp add: jrnl_scan_tail_def Let_def case_prod_beta [of _ "jrnl_media_ready _"] u same_sched_simps)
qed

lemma same_sched_append: "same_sched w' w \<Longrightarrow> same_sched (snd (jrnl_append_record ty p w')) w"
proof -
  assume w: "same_sched w' w"
  define w0 where "w0 = (if \<not> j_scan_ready (g_journal w') then jrnl_scan_tail w' else w')"
  have 0: "same_sched w0 w" using w by (simp add: w0_def same_sched_scan)
  have 1: "same_sched (snd (jrnl_media_ready w0)) w" using same_sched_ready 0 same_sched_trans by metis
  have 2: "same_sched (snd (sd_write1 l b (snd (jrnl_media_ready w0)))) w" for l b
    using same_sched_sd(2) 1 same_sched_trans by metis
  show ?thesis
    using w 0 1 2 by (simp add: jrnl_append_record_def w0_def [symmetric] Let_def case_prod_beta same_sched_simps)
qed

lemma same_sched_flush: "same_sched w' w \<Longrightarrow> same_sched (snd (jrnl_flush_pending_rx w')) w"
  by (simp add: jrnl_flush_pending_rx_def case_prod_beta same_sched_append same_sched_simps)

lemma same_sched_capture:
  "same_sched w' w \<Longrightarrow> same_sched (snd (journal_capture_input_byte c w')) w"
  "same_sched w' w \<Longrightarrow> same_sched (snd (journal_capture_io_owner a b w')) w"
  by (simp_all add: journal_capture_input_byte_def journal_capture_io_owner_def Let_def same_sched_append
      same_sched_flush same_sched_simps)

lemma same_sched_getc: "same_sched (snd (uart_async_getc w)) w"
  by (simp add: uart_async_getc_def Let_def case_prod_beta same_sched_panic) (simp add: same_sched_def upd_u_def)

text \<open>Console output only posts to the console task.\<close>

definition post_frame :: "nat \<Rightarrow> 'a sched_scheme \<Rightarrow> 'a sched_scheme \<Rightarrow> bool" where
  "post_frame k w' w \<longleftrightarrow> sc_table w' = sc_table w \<and> length (g_task_aos w') = length (g_task_aos w) \<and>
     (\<forall>i. sc_table w ! k \<noteq> Some i \<longrightarrow> g_task_aos w' ! i = g_task_aos w ! i)"

lemma post_frame_same: "same_sched w' w \<Longrightarrow> post_frame k w' w"
  by (simp add: post_frame_def same_sched_def)

lemma post_frame_refl [simp]: "post_frame k w w"
  by (simp add: post_frame_def)

lemma post_frame_trans: "post_frame k w2 w1 \<Longrightarrow> post_frame k w1 w \<Longrightarrow> post_frame k w2 w"
  by (simp add: post_frame_def)

lemma post_frame_post: "unat a < 32 \<Longrightarrow> post_frame (unat a) (snd (sched_post_common a e b w)) w"
  by (auto simp: post_frame_def sched_post_common_def set_ao_def Let_def split: option.split prod.split)

lemma post_frame_enqueue: "post_frame 3 (snd (console_enqueue s n w)) w"
proof -
  have p: "post_frame 3 (snd (sched_post_common 3 e b w')) w'" for e b and w' :: "'a con_world_scheme"
    using post_frame_post [of 3 e b w'] by simp
  have c: "post_frame 3 (upd_c f w') w'' \<longleftrightarrow> post_frame 3 w' w''" for f and w' w'' :: "'a con_world_scheme"
    by (simp add: post_frame_def upd_c_def)
  have c2: "post_frame 3 (snd (sched_post_common 3 e b (upd_c f w'))) w'" for e b f and w' :: "'a con_world_scheme"
    by (rule post_frame_trans [OF p]) (simp add: c)
  have l: "post_frame 3 (w'\<lparr>w_log := x\<rparr>) w'" for x and w' :: "'a con_world_scheme" by (simp add: post_frame_def)
  have k: "post_frame 3 (kernel_panic m f x w') w' " for m f x and w' :: "'a con_world_scheme"
    by (rule post_frame_same) (simp add: same_sched_panic)
  show ?thesis
    by (simp add: console_enqueue_def console_kick_def sched_post_def Let_def case_prod_beta c c2 l k split: option.split)
qed

lemma post_frame_write_loop: "post_frame 3 (snd (console_write_loop s w)) w"
proof (induction s w rule: console_write_loop.induct)
  case (1 s w)
  show ?case
  proof (cases "s = []")
    case False
    let ?n = "if length s > 96 then 96 else length s"
    obtain rc w1 where e: "console_enqueue (Some s) (of_nat ?n) w = (rc, w1)" by fastforce
    have "post_frame 3 w1 w" using post_frame_enqueue [of "Some s" "of_nat ?n" w] e by simp
    with "1.IH" [OF False refl e [symmetric]] e False show ?thesis
      by (auto simp add: console_write_loop.simps [of s w] Let_def intro: post_frame_trans)
  qed (simp add: console_write_loop.simps)
qed

lemma post_frame_console:
  "post_frame 3 (snd (console_write s n w)) w" "post_frame 3 (snd (console_putc c w)) w" "post_frame 3 (snd (console_puts s w)) w"
  by (simp_all add: console_write_def console_putc_def console_puts_def post_frame_enqueue post_frame_write_loop
      split: option.split)

end
