(* ===== verification/Term_Frames.thy ===== *)
theory Term_Frames
  imports Shell Sched_Frames
begin

text \<open>
  Frame lemmas for the tasks: the terminal's calls, and everything below them,
  keep the fields of the tasks' own state.
\<close>

lemma con_more_above: "con_world.more w' = con_world.more w \<Longrightarrow> term_world.more w' = term_world.more w"
  by (cases w; cases w') simp

lemma sched_more_above: "sched.more w' = sched.more w \<Longrightarrow> term_world.more w' = term_world.more w"
  by (cases w; cases w') simp

lemma world_more_above: "world.more w' = world.more w \<Longrightarrow> term_world.more w' = term_world.more w"
  by (cases w; cases w') simp

lemma sched_unregister_more: "sched.more (snd (sched_unregister a w)) = sched.more w"
  by (simp add: sched_unregister_def set_ao_def Let_def split: option.split)

lemma term_more [more_simps]:
  "term_world.more (upd_t f w) = term_world.more w" "term_world.more (upd_sh g w) = term_world.more w"
  "term_world.more (shell_rx_idle w) = term_world.more w" "term_world.more (term_stdin_release_internal w) = term_world.more w"
  by (simp_all add: upd_sh_def upd_t_def shell_rx_idle_def term_stdin_release_internal_def)

lemmas term_more_lower [more_simps] = con_call_more [THEN con_more_above] con_more_lower [THEN con_more_above]
  sched_unregister_more [THEN sched_more_above] sched_post_more [THEN sched_more_above] console_write_more [THEN con_more_above]

lemma term_more_stdin [more_simps]:
  "term_world.more (snd (terminal_stdin_acquire a m w)) = term_world.more w"
  "term_world.more (snd (terminal_stdin_release a w)) = term_world.more w"
  "term_world.more (ui_notify_bg_done n w) = term_world.more w"
  by (simp_all add: terminal_stdin_acquire_def terminal_stdin_release_def ui_notify_bg_done_def sched_post_def Let_def more_simps)

lemma term_more_log [more_simps]:
  "term_world.more (w_log_puts s w) = term_world.more w" "term_world.more (w_log_u32 v w) = term_world.more w"
  by (simp_all add: w_log_puts_def w_log_u32_def)

lemma console_put_u32_more [more_simps]: "con_world.more (snd (console_put_u32 v w)) = con_world.more w"
  by (simp add: console_put_u32_def more_simps Let_def)

text \<open>Output keeps the terminal's context, the scheduler table and the flag \<open>g_sched\<close>.\<close>

definition term_same :: "'a term_world_scheme \<Rightarrow> 'a term_world_scheme \<Rightarrow> bool" where
  "term_same w' w \<longleftrightarrow> g_term_ctx w' = g_term_ctx w \<and> g_sched w' = g_sched w \<and> sc_table w' = sc_table w \<and>
     term_world.more w' = term_world.more w"

lemma term_same_refl [simp]: "term_same w w"
  by (simp add: term_same_def)

lemma term_same_trans: "term_same w2 w1 \<Longrightarrow> term_same w1 w \<Longrightarrow> term_same w2 w"
  by (simp add: term_same_def)

lemma con_more_g_sched: "con_world.more w' = con_world.more w \<Longrightarrow> g_sched w' = g_sched w"
  by (cases w; cases w') simp

lemma term_same_con: "con_world.more w' = con_world.more w \<Longrightarrow> post_frame 3 w' w \<Longrightarrow> term_same w' w"
  unfolding term_same_def post_frame_def
  using con_more_term [of w' w] con_more_g_sched [of w' w] con_more_above [of w' w] by blast

lemma term_same_output:
  "term_same (con_puts s w) w" "term_same (con_putc c w) w" "term_same (con_write s n w) w" "term_same (snd (console_put_u32 v w)) w"
proof -
  show "term_same (con_puts s w) w"
    by (rule term_same_con [OF con_call_more(2)]) (simp add: con_puts_def post_frame_console)
  show "term_same (con_putc c w) w"
    by (rule term_same_con [OF con_call_more(1)]) (simp add: con_putc_def post_frame_console)
  show "term_same (con_write s n w) w"
    by (rule term_same_con [OF con_call_more(3)]) (simp add: con_write_def post_frame_console)
  show "term_same (snd (console_put_u32 v w)) w"
    by (rule term_same_con [OF console_put_u32_more]) (simp add: console_put_u32_def Let_def post_frame_console)
qed

lemma term_same_log: "term_same (w_log_puts s w) w" "term_same (w_log_u32 v w) w"
  by (simp_all add: term_same_def w_log_puts_def w_log_u32_def)

lemmas term_same_intros = term_same_refl term_same_output [THEN term_same_trans] term_same_log [THEN term_same_trans]

lemma term_same_notify: "term_same (ui_notify_bg_done n w) w"
proof -
  define w1 where "w1 = con_puts (ss_prompt_str (sh w)) (con_puts ('']'' @ crlf) (con_puts (if n = [] then ''?'' else n) (con_puts (crlf @ ''[done: '') w)))"
  have 1: "term_same w1 w" unfolding w1_def by (intro term_same_intros)
  have "ui_notify_bg_done n w = (if ss_len (sh w1) > 0 then con_write (ss_line (sh w1)) (ss_len (sh w1)) w1 else w1)"
    by (simp only: ui_notify_bg_done_def w1_def Let_def)
  then show ?thesis using 1 by (simp add: term_same_output(3) [THEN term_same_trans])
qed

lemma term_same_valid: "term_same w' w \<Longrightarrow> term_stdin_owner_valid w' = term_stdin_owner_valid w"
  by (simp add: term_same_def term_stdin_owner_valid_def Let_def)

text \<open>A release by the owner frees the input and leaves the table alone.\<close>

lemma stdin_release_owner:
  assumes "term_stdin_owner_valid w" "tc_stdin_owner (g_term_ctx w) = a"
  shows "fst (terminal_stdin_release a w) = SCHED_OK"
    "tc_stdin_owner (g_term_ctx (snd (terminal_stdin_release a w))) = TERM_STDIN_OWNER_NONE"
    "sc_table (snd (terminal_stdin_release a w)) = sc_table w" "g_sched (snd (terminal_stdin_release a w)) = g_sched w"
proof -
  have v: "g_sched w" "a \<noteq> TERM_STDIN_OWNER_NONE" "unat a < 32"
    using assms by (auto simp: term_stdin_owner_valid_def Let_def split: if_splits)
  let ?w1 = "shell_rx_idle (term_stdin_release_internal w)"
  let ?w2 = "snd (journal_capture_io_owner a 0 ?w1)"
  have r: "terminal_stdin_release a w = (SCHED_OK, snd (sched_post AO_TERMINAL (Some (sig_event TERM_SIG_REPRINT_PROMPT)) ?w2))"
    using assms v by (simp add: terminal_stdin_release_def)
  have m: "con_world.more (snd (sched_post AO_TERMINAL (Some (sig_event TERM_SIG_REPRINT_PROMPT)) ?w2)) = con_world.more ?w1"
    by (simp add: sched_post_def more_simps)
  have s: "same_sched ?w2 ?w1" by (rule same_sched_capture) simp
  have p: "sc_table (snd (sched_post AO_TERMINAL (Some (sig_event TERM_SIG_REPRINT_PROMPT)) ?w2)) = sc_table ?w2"
    using post_frame_post [of 0 "Some (sig_event TERM_SIG_REPRINT_PROMPT)" False ?w2] by (simp add: sched_post_def post_frame_def)
  show "fst (terminal_stdin_release a w) = SCHED_OK" by (simp add: r)
  show "tc_stdin_owner (g_term_ctx (snd (terminal_stdin_release a w))) = TERM_STDIN_OWNER_NONE"
    using con_more_term [OF m] by (simp add: r shell_rx_idle_def upd_sh_def upd_t_def term_stdin_release_internal_def)
  show "sc_table (snd (terminal_stdin_release a w)) = sc_table w"
    using s p by (simp add: r same_sched_def shell_rx_idle_def upd_sh_def upd_t_def term_stdin_release_internal_def)
  show "g_sched (snd (terminal_stdin_release a w)) = g_sched w"
    using con_more_g_sched [OF m] by (simp add: r shell_rx_idle_def upd_sh_def upd_t_def term_stdin_release_internal_def)
qed

lemma sched_unregister_table:
  assumes "unat a < 32" "length (sc_table w) = 32"
  shows "sc_table (snd (sched_unregister a w)) = (sc_table w)[unat a := None]"
proof (cases "sc_table w ! unat a")
  case None
  with list_update_id [of "sc_table w" "unat a"] show ?thesis using assms by (simp add: sched_unregister_def)
next
  case (Some k)
  with assms show ?thesis by (simp add: sched_unregister_def set_ao_def Let_def)
qed

end
