(* ===== verification/Counter.thy ===== *)
theory Counter
  imports Term_Frames
begin

text \<open>
  The counter task of \<open>counter_task.c\<close>: a run counts from 1 to its limit, one step
  per timer event, in the foreground (owning standard input) or in the
  background (writing to the log).  Its state is saved in an envelope of entries
  (\<open>restorable_envelope.h\<close>): a base state and arithmetic operations on it, applied
  in the order of their sequence numbers.  The padding byte of
  \<open>counter_task_state_t\<close>, which no code reads, is an argument of the encoder.
\<close>

section \<open>State\<close>

record counter_state =
  ct_active :: u8
  ct_bg :: u8
  ct_step_pending :: u8
  ct_limit :: u32
  ct_value :: u32
  ct_next_tick :: u32

record cnt_world = term_world +
  g_counter_ctx :: counter_state
  g_counter_sched :: bool
  g_counter_state_restored :: bool
  g_counter_restore_needs_stdin_rebind :: bool

abbreviation (input) AO_COUNTER :: u8 where "AO_COUNTER \<equiv> 4"
abbreviation (input) COUNTER_SIG_START :: u16 where "COUNTER_SIG_START \<equiv> 10"
abbreviation (input) COUNTER_SIG_STEP :: u16 where "COUNTER_SIG_STEP \<equiv> 11"
abbreviation (input) COUNTER_STEP_TICKS :: u32 where "COUNTER_STEP_TICKS \<equiv> 250"
abbreviation (input) RESTORE_ENV_MAGIC :: u32 where "RESTORE_ENV_MAGIC \<equiv> 0x31564E45"
abbreviation (input) RESTORE_ENV_VERSION :: u16 where "RESTORE_ENV_VERSION \<equiv> 1"
abbreviation (input) RESTORE_ENV_MAX_ENTRIES :: u16 where "RESTORE_ENV_MAX_ENTRIES \<equiv> 8"
abbreviation (input) RESTORE_ENV_ENTRY_PENDING :: u16 where "RESTORE_ENV_ENTRY_PENDING \<equiv> 0"
abbreviation (input) RESTORE_ENV_ENTRY_DONE :: u16 where "RESTORE_ENV_ENTRY_DONE \<equiv> 1"
abbreviation (input) COUNTER_RESTORE_ACTION_SET_STATE :: u16 where "COUNTER_RESTORE_ACTION_SET_STATE \<equiv> 1"
abbreviation (input) COUNTER_RESTORE_ACTION_APPLY_OP :: u16 where "COUNTER_RESTORE_ACTION_APPLY_OP \<equiv> 2"

definition systick_now :: "'a world_scheme \<Rightarrow> u32" where
  "systick_now w = w_tick w"

definition upd_ct :: "(counter_state \<Rightarrow> counter_state) \<Rightarrow> 'a cnt_world_scheme \<Rightarrow> 'a cnt_world_scheme" where
  "upd_ct f w = w\<lparr>g_counter_ctx := f (g_counter_ctx w)\<rparr>"

definition counter_registered :: "'a sched_scheme \<Rightarrow> bool" where
  "counter_registered w \<longleftrightarrow> sc_table w ! unat AO_COUNTER \<noteq> None"

definition counter_task_reset_state :: "'a cnt_world_scheme \<Rightarrow> 'a cnt_world_scheme" where
  "counter_task_reset_state w =
     w\<lparr>g_counter_ctx := \<lparr> ct_active = 0, ct_bg = 0, ct_step_pending = 0, ct_limit = 0, ct_value = 0, ct_next_tick = 0 \<rparr>,
       g_counter_restore_needs_stdin_rebind := False\<rparr>"

definition counter_task_restore_rebind_stdin_if_needed :: "'a cnt_world_scheme \<Rightarrow> 'a cnt_world_scheme" where
  "counter_task_restore_rebind_stdin_if_needed w =
     (if \<not> g_counter_restore_needs_stdin_rebind w then w
      else if ct_active (g_counter_ctx w) = 0 \<or> ct_bg (g_counter_ctx w) \<noteq> 0
      then w\<lparr>g_counter_restore_needs_stdin_rebind := False\<rparr>
      else if \<not> g_counter_sched w \<or> \<not> counter_registered w then w
      else case terminal_stdin_acquire AO_COUNTER TERM_STDIN_MODE_RAW w of (rc, w1) \<Rightarrow>
        if rc = SCHED_OK \<or> rc = SCHED_ERR_EXISTS then w1\<lparr>g_counter_restore_needs_stdin_rebind := False\<rparr> else w1)"

definition counter_task_get_state :: "'a cnt_world_scheme \<Rightarrow> counter_state" where
  "counter_task_get_state w = g_counter_ctx w"

text \<open>The inactive case of both restore functions.\<close>

definition counter_drop :: "'a cnt_world_scheme \<Rightarrow> 'a cnt_world_scheme" where
  "counter_drop w =
     (let w1 = counter_task_reset_state w;
          w2 = (if g_counter_sched w1 \<and> counter_registered w1 then snd (sched_unregister AO_COUNTER w1) else w1)
      in w2\<lparr>g_counter_state_restored := False\<rparr>)"

definition counter_task_restore_state :: "counter_state option \<Rightarrow> 'a cnt_world_scheme \<Rightarrow> int \<times> 'a cnt_world_scheme" where
  "counter_task_restore_state inp w =
     (case inp of None \<Rightarrow> (SCHED_ERR_PARAM, w)
      | Some s \<Rightarrow>
          if ct_active s = 0 then (SCHED_OK, counter_drop w)
          else (SCHED_OK, w\<lparr>g_counter_ctx := s\<lparr>ct_step_pending := 0, ct_next_tick := systick_now w + COUNTER_STEP_TICKS\<rparr>,
                            g_counter_state_restored := True\<rparr>))"

definition counter_task_disarm_hook :: "'a cnt_world_scheme \<Rightarrow> 'a cnt_world_scheme" where
  "counter_task_disarm_hook w = w\<lparr>g_counter_sched := False\<rparr>"

definition counter_task_rearm_hook :: "bool \<Rightarrow> 'a cnt_world_scheme \<Rightarrow> 'a cnt_world_scheme" where
  "counter_task_rearm_hook sched w =
     (if \<not> sched then w else if \<not> counter_registered w then w else w\<lparr>g_counter_sched := True\<rparr>)"

section \<open>The envelope\<close>

record env_entry =
  ee_seq :: u32
  ee_action :: u16
  ee_entry_state :: u16
  ee_data_len :: u16
  ee_reserved :: u16
  ee_data :: "u8 list"

record env_header =
  eh_magic :: u32
  eh_version :: u16
  eh_entry_count :: u16
  eh_read_idx :: u16
  eh_write_idx :: u16
  eh_generation :: u32
  eh_next_seq :: u32
  eh_program_id :: u8
  eh_reserved :: "u8 list"

record restore_op =
  op_op :: u8
  op_reserved :: "u8 list"
  op_operand :: u32

text \<open>The packed little-endian layout: header 24 bytes, each of the eight entries 44 bytes.\<close>

definition u16_bytes :: "u16 \<Rightarrow> u8 list" where
  "u16_bytes x = [ucast x, ucast (drop_bit 8 x)]"

definition u16_at :: "u8 list \<Rightarrow> nat \<Rightarrow> u16" where
  "u16_at b i = ucast (b ! i) OR push_bit 8 (ucast (b ! (i + 1)))"

definition u32_at :: "u8 list \<Rightarrow> nat \<Rightarrow> u32" where
  "u32_at b i = bytes_u32 (b ! i) (b ! (i + 1)) (b ! (i + 2)) (b ! (i + 3))"

definition env_header_bytes :: "env_header \<Rightarrow> u8 list" where
  "env_header_bytes h = u32_bytes (eh_magic h) @ u16_bytes (eh_version h) @ u16_bytes (eh_entry_count h) @
     u16_bytes (eh_read_idx h) @ u16_bytes (eh_write_idx h) @ u32_bytes (eh_generation h) @ u32_bytes (eh_next_seq h) @
     [eh_program_id h] @ eh_reserved h"

definition bytes_env_header :: "u8 list \<Rightarrow> env_header" where
  "bytes_env_header b = \<lparr> eh_magic = u32_at b 0, eh_version = u16_at b 4, eh_entry_count = u16_at b 6,
     eh_read_idx = u16_at b 8, eh_write_idx = u16_at b 10, eh_generation = u32_at b 12, eh_next_seq = u32_at b 16,
     eh_program_id = b ! 20, eh_reserved = take 3 (drop 21 b) \<rparr>"

definition env_entry_bytes :: "env_entry \<Rightarrow> u8 list" where
  "env_entry_bytes e = u32_bytes (ee_seq e) @ u16_bytes (ee_action e) @ u16_bytes (ee_entry_state e) @
     u16_bytes (ee_data_len e) @ u16_bytes (ee_reserved e) @ ee_data e"

definition bytes_env_entry :: "u8 list \<Rightarrow> env_entry" where
  "bytes_env_entry b = \<lparr> ee_seq = u32_at b 0, ee_action = u16_at b 4, ee_entry_state = u16_at b 6,
     ee_data_len = u16_at b 8, ee_reserved = u16_at b 10, ee_data = take 32 (drop 12 b) \<rparr>"

definition env_entries :: "u8 list \<Rightarrow> env_entry list" where
  "env_entries blob = map (\<lambda>i. bytes_env_entry (drop (24 + 44 * i) blob)) [0..<8]"

definition counter_state_bytes :: "u8 \<Rightarrow> counter_state \<Rightarrow> u8 list" where
  "counter_state_bytes pad s = [ct_active s, ct_bg s, ct_step_pending s, pad] @
     u32_bytes (ct_limit s) @ u32_bytes (ct_value s) @ u32_bytes (ct_next_tick s)"

definition bytes_counter_state :: "u8 list \<Rightarrow> counter_state" where
  "bytes_counter_state b = \<lparr> ct_active = b ! 0, ct_bg = b ! 1, ct_step_pending = b ! 2,
     ct_limit = u32_at b 4, ct_value = u32_at b 8, ct_next_tick = u32_at b 12 \<rparr>"

definition op_bytes :: "restore_op \<Rightarrow> u8 list" where
  "op_bytes p = op_op p # op_reserved p @ u32_bytes (op_operand p)"

definition bytes_op :: "u8 list \<Rightarrow> restore_op" where
  "bytes_op b = \<lparr> op_op = b ! 0, op_reserved = take 3 (drop 1 b), op_operand = u32_at b 4 \<rparr>"

definition pad32 :: "u8 list \<Rightarrow> u8 list" where
  "pad32 b = b @ replicate (32 - length b) 0"

definition state_entry :: "u8 \<Rightarrow> counter_state \<Rightarrow> env_entry" where
  "state_entry pad s = \<lparr> ee_seq = 1, ee_action = COUNTER_RESTORE_ACTION_SET_STATE,
     ee_entry_state = RESTORE_ENV_ENTRY_PENDING, ee_data_len = 16, ee_reserved = 0,
     ee_data = pad32 (counter_state_bytes pad s) \<rparr>"

definition op_entry :: "nat \<Rightarrow> restore_op \<Rightarrow> env_entry" where
  "op_entry idx p = \<lparr> ee_seq = of_nat (idx + 1), ee_action = COUNTER_RESTORE_ACTION_APPLY_OP,
     ee_entry_state = RESTORE_ENV_ENTRY_PENDING, ee_data_len = 8, ee_reserved = 0, ee_data = pad32 (op_bytes p) \<rparr>"

definition done_entry :: env_entry where
  "done_entry = \<lparr> ee_seq = 0, ee_action = 0, ee_entry_state = RESTORE_ENV_ENTRY_DONE, ee_data_len = 0,
     ee_reserved = 0, ee_data = replicate 32 0 \<rparr>"

definition counter_envelope :: "u8 \<Rightarrow> counter_state \<Rightarrow> restore_op list \<Rightarrow> env_header \<times> env_entry list" where
  "counter_envelope pad s ops =
     (let n = (of_nat (1 + length ops) :: u16) in
      (\<lparr> eh_magic = RESTORE_ENV_MAGIC, eh_version = RESTORE_ENV_VERSION, eh_entry_count = n, eh_read_idx = 0,
         eh_write_idx = n, eh_generation = 1, eh_next_seq = ucast n + 1, eh_program_id = AO_COUNTER,
         eh_reserved = [0, 0, 0] \<rparr>,
       state_entry pad s # map (\<lambda>(i, p). op_entry (i + 1) p) (enumerate 0 ops) @ replicate (7 - length ops) done_entry))"

text \<open>The result carries the bytes written to \<open>out\<close> and the new \<open>*io_len\<close>.\<close>

definition counter_task_encode_restore_envelope ::
  "u8 \<Rightarrow> counter_state option \<Rightarrow> restore_op list option \<Rightarrow> u16 \<Rightarrow> bool \<Rightarrow> u32 option \<Rightarrow> int \<times> (u8 list \<times> u32) option" where
  "counter_task_encode_restore_envelope pad statep opsp op_count out io_len =
     (case (statep, io_len) of
        (Some s, Some cap) \<Rightarrow>
          if \<not> out then (SCHED_ERR_PARAM, None)
          else if op_count > RESTORE_ENV_MAX_ENTRIES - 1 then (SCHED_ERR_PARAM, None)
          else if op_count > 0 \<and> opsp = None then (SCHED_ERR_PARAM, None)
          else if cap < 376 then (SCHED_ERR_PARAM, None)
          else (case counter_envelope pad s (case opsp of None \<Rightarrow> [] | Some ops \<Rightarrow> take (unat op_count) ops) of
                  (h, es) \<Rightarrow> (SCHED_OK, Some (env_header_bytes h @ concat (map env_entry_bytes es), 376)))
      | _ \<Rightarrow> (SCHED_ERR_PARAM, None))"


section \<open>The task\<close>

definition counter_out_puts :: "string \<Rightarrow> 'a cnt_world_scheme \<Rightarrow> 'a cnt_world_scheme" where
  "counter_out_puts s w = (if ct_bg (g_counter_ctx w) \<noteq> 0 then w_log_puts s w else con_puts s w)"

definition counter_out_put_u32 :: "u32 \<Rightarrow> 'a cnt_world_scheme \<Rightarrow> 'a cnt_world_scheme" where
  "counter_out_put_u32 v w =
     (if ct_bg (g_counter_ctx w) \<noteq> 0 then w_log_u32 v w else snd (console_put_u32 v w))"

definition counter_task_stop :: "'a cnt_world_scheme \<Rightarrow> 'a cnt_world_scheme" where
  "counter_task_stop w =
     (let w1 = (upd_ct (\<lambda>c. c\<lparr>ct_active := 0, ct_step_pending := 0\<rparr>) w)\<lparr>g_counter_restore_needs_stdin_rebind := False\<rparr>;
          w2 = (if ct_bg (g_counter_ctx w1) = 0 then snd (terminal_stdin_release AO_COUNTER w1) else w1)
      in if g_counter_sched w2 then snd (sched_unregister AO_COUNTER w2) else w2)"

definition counter_start :: "event \<Rightarrow> 'a cnt_world_scheme \<Rightarrow> 'a cnt_world_scheme" where
  "counter_start e w =
     (if ct_active (g_counter_ctx w) \<noteq> 0 then con_puts (''counter: busy'' @ crlf) w
      else counter_out_puts (''counter: start'' @ crlf)
        (upd_ct (\<lambda>c. c\<lparr>ct_limit := (if ev_arg0 e = 0 then 1 else ev_arg0 e), ct_value := 1,
                       ct_bg := ucast (ev_src e AND 1), ct_step_pending := 0, ct_active := 1,
                       ct_next_tick := systick_now w + COUNTER_STEP_TICKS\<rparr>) w))"

definition counter_step :: "'a cnt_world_scheme \<Rightarrow> 'a cnt_world_scheme" where
  "counter_step w =
     (let w1 = counter_out_puts crlf (counter_out_put_u32 (ct_value (g_counter_ctx w)) w) in
      if ct_value (g_counter_ctx w1) \<ge> ct_limit (g_counter_ctx w1)
      then let w2 = counter_out_puts (''counter: done'' @ crlf) (upd_ct (\<lambda>c. c\<lparr>ct_step_pending := 0\<rparr>) w1);
               w3 = (if ct_bg (g_counter_ctx w2) \<noteq> 0 then ui_notify_bg_done ''counter'' w2 else w2)
           in counter_task_stop w3
      else upd_ct (\<lambda>c. c\<lparr>ct_value := ct_value c + 1, ct_next_tick := systick_now w1 + COUNTER_STEP_TICKS,
                        ct_step_pending := 0\<rparr>) w1)"

definition counter_task_dispatch :: "event option \<Rightarrow> 'a cnt_world_scheme \<Rightarrow> 'a cnt_world_scheme" where
  "counter_task_dispatch ep w =
     (case ep of None \<Rightarrow> w
      | Some e \<Rightarrow>
          if ev_sig e = COUNTER_SIG_START then counter_start e w
          else if ev_sig e = TERM_SIG_STDIN_RAW then w
          else if ev_sig e \<noteq> COUNTER_SIG_STEP \<or> ct_active (g_counter_ctx w) = 0 then w
          else counter_step w)"

text \<open>The addresses of the handler and of the context are \<open>fn\<close> and \<open>cx\<close>, the queue storage is \<open>st\<close>.\<close>

definition counter_task_register ::
  "u32 \<Rightarrow> u32 \<Rightarrow> event list \<Rightarrow> bool \<Rightarrow> 'a cnt_world_scheme \<Rightarrow> int \<times> 'a cnt_world_scheme" where
  "counter_task_register fn cx st sched w =
     (if \<not> sched then (SCHED_ERR_PARAM, w)
      else
        let w1 = w\<lparr>g_counter_sched := True\<rparr>;
            w2 = (if \<not> g_counter_state_restored w1 then counter_task_reset_state w1 else w1);
            w3 = w2\<lparr>g_counter_state_restored := False\<rparr>;
            w4 = (if ct_active (g_counter_ctx w3) \<noteq> 0 \<and> ct_bg (g_counter_ctx w3) = 0
                  then w3\<lparr>g_counter_restore_needs_stdin_rebind := True\<rparr> else w3)
        in case sched_register_task (Some \<lparr> ts_id = AO_COUNTER, ts_prio = 2, ts_dispatch = fn, ts_ctx = cx,
               ts_queue_storage = Some st, ts_queue_capacity = 8, ts_rtc_budget_ticks = 1,
               ts_name = Some ''counter'' \<rparr>) w4 of (rc, w5) \<Rightarrow>
             (if rc = SCHED_ERR_EXISTS then SCHED_OK else rc, w5))"

definition counter_task_request_start :: "u32 \<Rightarrow> 'a cnt_world_scheme \<Rightarrow> int \<times> 'a cnt_world_scheme" where
  "counter_task_request_start limit w =
     (if \<not> g_counter_sched w then (SCHED_ERR_PARAM, w)
      else
        let is_bg = g_cmd_bg_ctx w AND 1 in
        case (if is_bg = 0 then terminal_stdin_acquire AO_COUNTER TERM_STDIN_MODE_RAW w else (SCHED_OK, w)) of (lock_rc, w1) \<Rightarrow>
        if lock_rc \<noteq> SCHED_OK then (lock_rc, w1)
        else case sched_post AO_COUNTER (Some ((sig_event COUNTER_SIG_START)\<lparr>ev_src := ucast is_bg, ev_arg0 := limit\<rparr>)) w1 of (rc, w2) \<Rightarrow>
          if rc \<noteq> SCHED_OK
          then (rc, if is_bg = 0 then snd (terminal_stdin_release AO_COUNTER w2) else w2)
          else (SCHED_OK,
                if is_bg \<noteq> 0 then w2\<lparr>g_cmd_bg_async := 1\<rparr>
                else w2\<lparr>g_counter_restore_needs_stdin_rebind := False, g_cmd_fg_async := 1\<rparr>))"

definition counter_task_systick_hook :: "'a cnt_world_scheme \<Rightarrow> 'a cnt_world_scheme" where
  "counter_task_systick_hook w =
     (if \<not> g_counter_sched w then w
      else if \<not> counter_registered w then upd_ct (\<lambda>c. c\<lparr>ct_active := 0, ct_step_pending := 0\<rparr>) w
      else if ct_active (g_counter_ctx w) = 0 \<or> ct_step_pending (g_counter_ctx w) \<noteq> 0 then w
      else if sint (systick_now w - ct_next_tick (g_counter_ctx w)) < 0 then w
      else case sched_post_isr AO_COUNTER (Some (sig_event COUNTER_SIG_STEP)) w of (rc, w1) \<Rightarrow>
        if rc = SCHED_OK then upd_ct (\<lambda>c. c\<lparr>ct_step_pending := 1\<rparr>) w1 else w1)"

section \<open>Saving and restoring\<close>

definition counter_restore_get_state_fn :: "u8 \<Rightarrow> bool \<Rightarrow> u32 option \<Rightarrow> 'a cnt_world_scheme \<Rightarrow> int \<times> (u8 list \<times> u32) option" where
  "counter_restore_get_state_fn pad out io_len w =
     (case io_len of None \<Rightarrow> (SCHED_ERR_PARAM, None)
      | Some cap \<Rightarrow>
          if \<not> out then (SCHED_ERR_PARAM, None)
          else if cap < 376 then (SCHED_ERR_PARAM, None)
          else if ct_active (counter_task_get_state w) = 0 then (SCHED_ERR_NOT_FOUND, None)
          else counter_task_encode_restore_envelope pad (Some (counter_task_get_state w)) None 0 out io_len)"

text \<open>The inner loop: the first unconsumed entry with the smallest sequence number below 2 ^ 32 - 1.\<close>

definition env_pick :: "env_entry list \<Rightarrow> bool list \<Rightarrow> nat option" where
  "env_pick es consumed =
     snd (foldl (\<lambda>(best_seq, best) j.
       if consumed ! j then (best_seq, best)
       else if ee_seq (es ! j) < best_seq then (ee_seq (es ! j), Some j)
       else (best_seq, best)) (0xFFFFFFFF :: u32, None) [0..<length es])"

definition apply_op :: "restore_op \<Rightarrow> counter_state \<Rightarrow> counter_state option" where
  "apply_op p s =
     map_option (\<lambda>v. s\<lparr>ct_value := (if v > ct_limit s \<and> ct_limit s \<noteq> 0 then ct_limit s else v)\<rparr>)
       (if op_op p = 1 then Some (ct_value s + op_operand p)
        else if op_op p = 2 then Some (if ct_value s > op_operand p then ct_value s - op_operand p else 1)
        else if op_op p = 3 then Some (ct_value s * op_operand p)
        else if op_op p = 4 then
          (if op_operand p = 0 then None
           else let v = ct_value s div op_operand p in Some (if v = 0 then 1 else v))
        else None)"

text \<open>One entry: the state so far, None before a base state was set; the outer None is a rejection.\<close>

definition env_step :: "env_entry \<Rightarrow> counter_state option \<Rightarrow> counter_state option option" where
  "env_step e st =
     (if ee_entry_state e \<noteq> RESTORE_ENV_ENTRY_PENDING then Some st
      else if ee_action e = COUNTER_RESTORE_ACTION_SET_STATE
      then if ee_data_len e \<noteq> 16 then None
           else Some (Some ((bytes_counter_state (ee_data e))\<lparr>ct_step_pending := 0\<rparr>))
      else if ee_action e = COUNTER_RESTORE_ACTION_APPLY_OP
      then case st of None \<Rightarrow> None
           | Some s \<Rightarrow> if ee_data_len e \<noteq> 8 then None
                       else map_option Some (apply_op (bytes_op (ee_data e)) s)
      else None)"

fun env_loop :: "nat \<Rightarrow> env_entry list \<Rightarrow> bool list \<Rightarrow> counter_state option \<Rightarrow> counter_state option option" where
  "env_loop 0 es consumed st = Some st"
| "env_loop (Suc n) es consumed st =
     (case env_pick es consumed of
        None \<Rightarrow> None
      | Some j \<Rightarrow>
          (case env_step (es ! j) st of
             None \<Rightarrow> None
           | Some st' \<Rightarrow> env_loop n es (consumed[j := True]) st'))"

definition counter_adopt :: "counter_state \<Rightarrow> 'a cnt_world_scheme \<Rightarrow> 'a cnt_world_scheme" where
  "counter_adopt s w =
     (let w1 = w\<lparr>g_counter_ctx := s\<lparr>ct_step_pending := 0, ct_next_tick := systick_now w + COUNTER_STEP_TICKS\<rparr>,
                 g_counter_restore_needs_stdin_rebind := False\<rparr>;
          w2 = counter_out_puts ''counter: restore value='' w1;
          w3 = counter_out_put_u32 (ct_value (g_counter_ctx w2)) w2;
          w4 = counter_out_puts '' limit='' w3;
          w5 = counter_out_puts crlf (counter_out_put_u32 (ct_limit (g_counter_ctx w4)) w4);
          w6 = (if ct_bg (g_counter_ctx w5) = 0
                then case terminal_stdin_acquire AO_COUNTER TERM_STDIN_MODE_RAW w5 of (rc, w') \<Rightarrow>
                  w'\<lparr>g_counter_restore_needs_stdin_rebind := \<not> (rc = SCHED_OK \<or> rc = SCHED_ERR_EXISTS)\<rparr>
                else w5)
      in w6\<lparr>g_counter_state_restored := True\<rparr>)"

definition counter_restore_apply_state_fn :: "u8 list option \<Rightarrow> u32 \<Rightarrow> 'a cnt_world_scheme \<Rightarrow> int \<times> 'a cnt_world_scheme" where
  "counter_restore_apply_state_fn blobp len w =
     (case blobp of None \<Rightarrow> (SCHED_ERR_PARAM, w)
      | Some blob \<Rightarrow>
          if len = 16 then counter_task_restore_state (Some (bytes_counter_state blob)) w
          else if len < 376 then (SCHED_ERR_PARAM, w)
          else
            let h = bytes_env_header blob in
            if eh_magic h \<noteq> RESTORE_ENV_MAGIC \<or> eh_version h \<noteq> RESTORE_ENV_VERSION then (SCHED_ERR_PARAM, w)
            else if eh_program_id h \<noteq> AO_COUNTER then (SCHED_ERR_PARAM, w)
            else if eh_entry_count h = 0 \<or> eh_entry_count h > RESTORE_ENV_MAX_ENTRIES then (SCHED_ERR_PARAM, w)
            else if eh_read_idx h > eh_entry_count h \<or> eh_write_idx h > eh_entry_count h then (SCHED_ERR_PARAM, w)
            else
              let n = unat (eh_entry_count h) in
              case env_loop n (take n (env_entries blob)) (replicate n False) None of
                None \<Rightarrow> (SCHED_ERR_PARAM, w)
              | Some None \<Rightarrow> (SCHED_ERR_PARAM, w)
              | Some (Some s) \<Rightarrow>
                  if ct_active s = 0 then (SCHED_OK, counter_drop w) else (SCHED_OK, counter_adopt s w))"


section \<open>The order of the entries\<close>

fun env_run :: "env_entry list \<Rightarrow> counter_state option \<Rightarrow> counter_state option option" where
  "env_run [] st = Some st"
| "env_run (e # es) st = (case env_step e st of None \<Rightarrow> None | Some st' \<Rightarrow> env_run es st')"

lemma hd_insort_key: "hd (insort_key f x xs) = (if xs = [] \<or> f x \<le> f (hd xs) then x else hd xs)"
  by (cases xs) simp_all

lemma sort_key_Nil_iff [simp]: "sort_key f xs = [] \<longleftrightarrow> xs = []"
  by (metis length_0_conv length_sort)

lemma hd_sort_key_Cons:
  "hd (sort_key f (x # xs)) = (if xs = [] \<or> f x \<le> f (hd (sort_key f xs)) then x else hd (sort_key f xs))"
  by (simp add: hd_insort_key)

lemma foldl_first_min:
  "foldl (\<lambda>(b, o') j. if f j < b then (f j, Some j) else (b, o')) (f y, Some y) xs =
     (f (hd (sort_key f (y # xs))), Some (hd (sort_key f (y # xs))))"
proof (induction xs arbitrary: y)
  case (Cons x xs)
  have "hd (sort_key f (y # x # xs)) = hd (sort_key f ((if f x < f y then x else y) # xs))"
    unfolding hd_sort_key_Cons by auto
  with Cons.IH [of x] Cons.IH [of y] show ?case by (simp del: sort_key_simps)
qed simp

lemma foldl_filter: "foldl (\<lambda>a j. if P j then a else g a j) a xs = foldl g a (filter (\<lambda>j. \<not> P j) xs)"
  by (induction xs arbitrary: a) simp_all

lemma u32_lt_max: "x \<noteq> 0xFFFFFFFF \<Longrightarrow> x < (0xFFFFFFFF :: u32)"
proof -
  assume x: "x \<noteq> 0xFFFFFFFF"
  have m: "(0xFFFFFFFF :: u32) = - 1" by simp
  from x show ?thesis unfolding m using word_order.not_eq_extremum [of x] by blast
qed

lemma env_pick_first:
  assumes "\<forall>e\<in>set es. ee_seq e \<noteq> 0xFFFFFFFF"
  shows "env_pick es c =
    (let xs = filter (\<lambda>j. \<not> c ! j) [0..<length es]
     in if xs = [] then None else Some (hd (sort_key (\<lambda>j. ee_seq (es ! j)) xs)))"
proof -
  let ?f = "\<lambda>j. ee_seq (es ! j)" and ?xs = "filter (\<lambda>j. \<not> c ! j) [0..<length es]"
  let ?g = "\<lambda>(b, o') j. if ?f j < b then (?f j, Some j) else (b, o')"
  have "(\<lambda>(b, o') j. if c ! j then (b, o') else if ?f j < b then (?f j, Some j) else (b, o')) =
      (\<lambda>a j. if c ! j then a else ?g a j)"
    by (intro ext) (auto split: prod.split)
  then have "env_pick es c = snd (foldl (\<lambda>a j. if c ! j then a else ?g a j) (0xFFFFFFFF, None) [0..<length es])"
    unfolding env_pick_def by (simp only:)
  also have "\<dots> = snd (foldl ?g (0xFFFFFFFF, None) ?xs)" by (simp only: foldl_filter)
  finally have e: "env_pick es c = snd (foldl ?g (0xFFFFFFFF, None) ?xs)" .
  show ?thesis
  proof (cases ?xs)
    case Nil
    with e show ?thesis by simp
  next
    case (Cons y ys)
    then have "y \<in> set ?xs" by simp
    then have "?f y \<noteq> 0xFFFFFFFF" using assms by simp
    then have "?f y < 0xFFFFFFFF" by (rule u32_lt_max)
    with e Cons foldl_first_min [of ?f y ys] show ?thesis by (simp add: Let_def del: sort_key_simps)
  qed
qed


lemma insort_key_map: "insort_key f (g x) (map g ys) = map g (insort_key (\<lambda>z. f (g z)) x ys)"
  by (induction ys) simp_all

lemma sort_key_map: "sort_key f (map g xs) = map g (sort_key (\<lambda>z. f (g z)) xs)"
  by (induction xs) (simp_all add: insort_key_map)

lemma sort_key_without_hd:
  assumes "distinct xs" "xs \<noteq> []"
  shows "sort_key f xs = hd (sort_key f xs) # sort_key f (filter (\<lambda>j. j \<noteq> hd (sort_key f xs)) xs)"
proof -
  obtain y ys where s: "sort_key f xs = y # ys" using assms(2) by (cases "sort_key f xs") auto
  have "distinct (y # ys)" using assms(1) distinct_sort [of f xs] s by simp
  then have "filter (\<lambda>j. j \<noteq> y) (y # ys) = ys" by (auto simp: filter_id_conv)
  then show ?thesis using s filter_sort [of "\<lambda>j. j \<noteq> y" f xs] by simp
qed

lemma env_loop_remaining:
  assumes "\<forall>e\<in>set es. ee_seq e \<noteq> 0xFFFFFFFF" "length c = length es"
    "n = length (filter (\<lambda>j. \<not> c ! j) [0..<length es])"
  shows "env_loop n es c st =
    env_run (map ((!) es) (sort_key (\<lambda>j. ee_seq (es ! j)) (filter (\<lambda>j. \<not> c ! j) [0..<length es]))) st"
  using assms(2,3)
proof (induction n arbitrary: c st)
  case (Suc n)
  let ?f = "\<lambda>j. ee_seq (es ! j)" and ?xs = "filter (\<lambda>j. \<not> c ! j) [0..<length es]"
  define y where "y = hd (sort_key ?f ?xs)"
  have ne: "?xs \<noteq> []" using Suc.prems(2) by (metis length_0_conv nat.simps(3))
  have "y \<in> set (sort_key ?f ?xs)" unfolding y_def using ne by (intro hd_in_set) simp
  then have y: "y < length es" "\<not> c ! y" by simp_all
  have rest: "filter (\<lambda>j. \<not> c[y := True] ! j) [0..<length es] = filter (\<lambda>j. j \<noteq> y) ?xs"
    using y Suc.prems(1) by (auto simp: filter_filter nth_list_update intro!: filter_cong)
  have p: "env_pick es c = Some y" using env_pick_first [OF assms(1), of c] ne by (simp add: y_def Let_def)
  have srt: "sort_key ?f ?xs = y # sort_key ?f (filter (\<lambda>j. j \<noteq> y) ?xs)"
    unfolding y_def by (rule sort_key_without_hd [OF _ ne]) simp
  then have "length ?xs = Suc (length (filter (\<lambda>j. j \<noteq> y) ?xs))" by (metis length_Cons length_sort)
  then have n: "n = length (filter (\<lambda>j. \<not> c[y := True] ! j) [0..<length es])"
    using Suc.prems(2) unfolding rest by simp
  have "length (c[y := True]) = length es" using Suc.prems(1) by simp
  note ih = Suc.IH [OF this n]
  show ?case
    unfolding srt using p ih rest by (simp split: option.split)
qed simp

lemma env_loop_sorted:
  assumes "\<forall>e\<in>set es. ee_seq e \<noteq> 0xFFFFFFFF"
  shows "env_loop (length es) es (replicate (length es) False) st = env_run (sort_key ee_seq es) st"
proof -
  have all: "filter (\<lambda>j. \<not> replicate (length es) False ! j) [0..<length es] = [0..<length es]"
    by (simp add: filter_id_conv)
  have "map ((!) es) (sort_key (\<lambda>j. ee_seq (es ! j)) [0..<length es]) = sort_key ee_seq es"
    using sort_key_map [of ee_seq "(!) es" "[0..<length es]"] by (simp add: map_nth)
  with env_loop_remaining [OF assms, of "replicate (length es) False" "length es"] show ?thesis by (simp add: all)
qed

text \<open>C28: the entries of an envelope are applied in the order of their sequence numbers,
  whatever order they are stored in (entries with equal numbers in the order they are
  stored): the search for the smallest unconsumed number is a stable sort.\<close>

theorem envelope_applied_in_sequence:
  assumes "\<forall>e\<in>set es. ee_seq e \<noteq> 0xFFFFFFFF"
  shows "env_loop (length es) es (replicate (length es) False) st = env_run (sort_key ee_seq es) st"
  by (rule env_loop_sorted [OF assms])

definition demo_state :: counter_state where
  "demo_state = \<lparr> ct_active = 1, ct_bg = 1, ct_step_pending = 0, ct_limit = 9, ct_value = 3, ct_next_tick = 0 \<rparr>"

definition demo_op :: restore_op where
  "demo_op = \<lparr> op_op = 1, op_reserved = [0, 0, 0], op_operand = 2 \<rparr>"

theorem envelope_applied_in_sequence_witness:
  "env_loop 2 [op_entry 1 demo_op, state_entry 0 demo_state] (replicate 2 False) None =
   env_run [state_entry 0 demo_state, op_entry 1 demo_op] None"
proof -
  let ?es = "[op_entry 1 demo_op, state_entry 0 demo_state]"
  have l: "length ?es = 2" by simp
  have k: "sort_key ee_seq ?es = [state_entry 0 demo_state, op_entry 1 demo_op]" "\<forall>e\<in>set ?es. ee_seq e \<noteq> 0xFFFFFFFF"
    by (simp_all add: op_entry_def state_entry_def word_le_nat_alt)
  from envelope_applied_in_sequence [OF k(2), of None] show ?thesis unfolding l k(1) .
qed

section \<open>Encoding and decoding\<close>

lemma u16_bytes_join: "ucast (ucast (x :: u16) :: u8) OR push_bit 8 (ucast (ucast (drop_bit 8 x) :: u8)) = x"
  by (rule bit_eqI) (auto simp: bit_simps)

lemma u16_at_bytes [simp]:
  "u16_at (u16_bytes x @ b) 0 = x"
  "u16_at (u16_bytes y @ b) (Suc (Suc i)) = u16_at b i"
  "u16_at (u32_bytes z @ b) (Suc (Suc (Suc (Suc i)))) = u16_at b i"
  by (simp_all add: u16_at_def u16_bytes_def u32_bytes_def u16_bytes_join)

lemma u32_at_bytes [simp]:
  "u32_at (u32_bytes x @ b) 0 = x"
  "u32_at (u16_bytes y @ b) (Suc (Suc i)) = u32_at b i"
  "u32_at (u32_bytes z @ b) (Suc (Suc (Suc (Suc i)))) = u32_at b i"
  by (simp_all add: u32_at_def u16_bytes_def u32_bytes_def bytes_u32_bytes add.commute)

lemma length_u16_bytes [simp]: "length (u16_bytes x) = 2"
  by (simp add: u16_bytes_def)

lemma entry_roundtrip: "length (ee_data e) = 32 \<Longrightarrow> bytes_env_entry (env_entry_bytes e @ b) = e"
  by (simp add: bytes_env_entry_def env_entry_bytes_def eval_nat_numeral)

lemma header_roundtrip: "length (eh_reserved h) = 3 \<Longrightarrow> bytes_env_header (env_header_bytes h @ b) = h"
  by (simp add: bytes_env_header_def env_header_bytes_def eval_nat_numeral nth_append)

lemma state_roundtrip: "bytes_counter_state (counter_state_bytes pad s @ b) = s"
  by (simp add: bytes_counter_state_def counter_state_bytes_def u32_at_def u32_bytes_def bytes_u32_bytes)

lemma op_roundtrip: "length (op_reserved p) = 3 \<Longrightarrow> bytes_op (op_bytes p @ b) = p"
proof -
  assume "length (op_reserved p) = 3"
  then obtain x y z where "op_reserved p = [x, y, z]" by (auto simp: length_Suc_conv eval_nat_numeral)
  then show ?thesis by (simp add: bytes_op_def op_bytes_def u32_at_def u32_bytes_def bytes_u32_bytes)
qed

lemma drop_concat:
  assumes "\<forall>x\<in>set xs. length x = k" "i < length xs"
  shows "drop (k * i) (concat xs) = xs ! i @ concat (drop (Suc i) xs)"
  using assms
proof (induction xs arbitrary: i)
  case (Cons x xs)
  then show ?case by (cases i) simp_all
qed simp

lemma env_entries_bytes:
  assumes "length hb = 24" "length es = 8" "\<forall>e\<in>set es. length (ee_data e) = 32"
  shows "env_entries (hb @ concat (map env_entry_bytes es)) = es"
proof (rule nth_equalityI)
  show "length (env_entries (hb @ concat (map env_entry_bytes es))) = length es" using assms(2) by (simp add: env_entries_def)
  fix i assume "i < length (env_entries (hb @ concat (map env_entry_bytes es)))"
  then have i: "i < 8" by (simp add: env_entries_def)
  have l: "\<forall>x\<in>set (map env_entry_bytes es). length x = 44" using assms(3) by (simp add: env_entry_bytes_def)
  have "drop (24 + 44 * i) (hb @ concat (map env_entry_bytes es)) = drop (44 * i) (concat (map env_entry_bytes es))"
    using assms(1) by simp
  also have "\<dots> = env_entry_bytes (es ! i) @ concat (drop (Suc i) (map env_entry_bytes es))"
    using drop_concat [OF l, of i] i assms(2) by simp
  finally show "env_entries (hb @ concat (map env_entry_bytes es)) ! i = es ! i"
    using i assms(2,3) by (simp add: env_entries_def entry_roundtrip)
qed


fun apply_ops :: "restore_op list \<Rightarrow> counter_state \<Rightarrow> counter_state option" where
  "apply_ops [] s = Some s"
| "apply_ops (p # ps) s = (case apply_op p s of None \<Rightarrow> None | Some s' \<Rightarrow> apply_ops ps s')"

definition op_entries :: "nat \<Rightarrow> restore_op list \<Rightarrow> env_entry list" where
  "op_entries k ops = map (\<lambda>(i, p). op_entry (i + 1) p) (enumerate k ops)"

lemma op_entries_simps [simp]:
  "op_entries k [] = []" "op_entries k (p # ps) = op_entry (k + 1) p # op_entries (Suc k) ps" "length (op_entries k ops) = length ops"
  by (simp_all add: op_entries_def)

lemma map_seq_op_entries: "map ee_seq (op_entries k ops) = map of_nat [k + 2..<k + 2 + length ops]"
  by (induction ops arbitrary: k) (simp_all add: op_entry_def upt_conv_Cons del: upt_Suc)

lemma env_step_state: "env_step (state_entry pad s) st = Some (Some (s\<lparr>ct_step_pending := 0\<rparr>))"
  by (simp add: env_step_def state_entry_def pad32_def state_roundtrip)

lemma env_step_op:
  "length (op_reserved p) = 3 \<Longrightarrow> env_step (op_entry i p) (Some s) = map_option Some (apply_op p s)"
  by (simp add: env_step_def op_entry_def pad32_def op_roundtrip)

lemma env_run_ops:
  "\<forall>p\<in>set ops. length (op_reserved p) = 3 \<Longrightarrow> env_run (op_entries k ops) (Some s) = map_option Some (apply_ops ops s)"
  by (induction ops arbitrary: k s) (simp_all add: env_step_op split: option.split)

lemma sorted_of_nat: "b \<le> 4294967296 \<Longrightarrow> sorted (map of_nat [a..<b] :: u32 list)"
  unfolding sorted_map by (rule sorted_wrt_mono_rel [OF _ sorted_upt]) (auto simp: word_le_nat_alt unat_of_nat)

lemma op_entries_data:
  "\<forall>p\<in>set ops. length (op_reserved p) = 3 \<Longrightarrow> \<forall>x\<in>set (op_entries k ops). length (ee_data x) = 32"
  by (induction ops arbitrary: k) (auto simp: op_entry_def pad32_def op_bytes_def)

lemma apply_op_active: "apply_op p s = Some s' \<Longrightarrow> ct_active s' = ct_active s"
  by (auto simp: apply_op_def Let_def split: if_splits)

lemma apply_ops_active: "apply_ops ops s = Some s' \<Longrightarrow> ct_active s' = ct_active s"
  by (induction ops arbitrary: s) (auto dest: apply_op_active split: option.splits)

lemma counter_envelope_run:
  assumes "length ops \<le> 7" "\<forall>p\<in>set ops. length (op_reserved p) = 3"
  shows "env_loop (Suc (length ops)) (state_entry pad s # op_entries 0 ops) (replicate (Suc (length ops)) False) None =
    map_option Some (apply_ops ops (s\<lparr>ct_step_pending := 0\<rparr>))"
proof -
  let ?es = "state_entry pad s # op_entries 0 ops"
  have keys: "map ee_seq ?es = map of_nat [1..<2 + length ops]"
    by (simp add: map_seq_op_entries state_entry_def upt_conv_Cons numeral_2_eq_2 del: upt_Suc)
  have "\<forall>x\<in>set (map ee_seq ?es). x \<noteq> 0xFFFFFFFF"
  proof -
    have "of_nat i \<noteq> (0xFFFFFFFF :: u32)" if "i < 9" for i
      using that by (auto simp: word_unat_eq_iff unat_of_nat simp del: of_nat_numeral)
    with assms(1) show ?thesis unfolding keys set_map set_upt by fastforce
  qed
  then have "\<forall>e\<in>set ?es. ee_seq e \<noteq> 0xFFFFFFFF" by simp
  from env_loop_sorted [OF this, of None]
  have "env_loop (length ?es) ?es (replicate (length ?es) False) None = env_run (sort_key ee_seq ?es) None" .
  moreover have "sort_key ee_seq ?es = ?es"
    using sorted_of_nat [of "2 + length ops" 1] assms(1) by (intro sort_key_id_if_sorted) (simp only: keys)
  ultimately show ?thesis by (simp add: env_step_state env_run_ops [OF assms(2)])
qed

text \<open>The bytes of a saved counter.\<close>

definition counter_blob :: "u8 \<Rightarrow> counter_state \<Rightarrow> restore_op list \<Rightarrow> u8 list" where
  "counter_blob pad s ops = (case counter_envelope pad s ops of (h, es) \<Rightarrow> env_header_bytes h @ concat (map env_entry_bytes es))"

lemma counter_enveloped:
  assumes "length ops \<le> 7" "\<forall>p\<in>set ops. length (op_reserved p) = 3"
  shows "length (counter_blob pad s ops) = 376"
    "ct_active s \<noteq> 0 \<Longrightarrow> apply_ops ops (s\<lparr>ct_step_pending := 0\<rparr>) = Some s' \<Longrightarrow>
      counter_restore_apply_state_fn (Some (counter_blob pad s ops)) 376 w = (SCHED_OK, counter_adopt s' w)"
proof -
  obtain h es where e: "counter_envelope pad s ops = (h, es)" by fastforce
  have es: "es = state_entry pad s # op_entries 0 ops @ replicate (7 - length ops) done_entry"
    and h: "eh_magic h = RESTORE_ENV_MAGIC" "eh_version h = RESTORE_ENV_VERSION" "eh_entry_count h = of_nat (1 + length ops)"
      "eh_read_idx h = 0" "eh_write_idx h = of_nat (1 + length ops)" "eh_program_id h = AO_COUNTER" "length (eh_reserved h) = 3"
    using e by (auto simp: counter_envelope_def op_entries_def Let_def)
  have n: "unat (eh_entry_count h) = Suc (length ops)" using assms(1) by (simp only: h(3) unat_of_nat) simp
  define blob where "blob = counter_blob pad s ops"
  have blob: "blob = env_header_bytes h @ concat (map env_entry_bytes es)" by (simp add: blob_def counter_blob_def e)
  have data: "\<forall>x\<in>set es. length (ee_data x) = 32"
    using op_entries_data [OF assms(2)] by (auto simp: es state_entry_def done_entry_def pad32_def counter_state_bytes_def)
  have len: "length es = 8" using assms(1) by (simp add: es)
  have hl: "length (env_header_bytes h) = 24" by (simp add: env_header_bytes_def h)
  have "map length (map env_entry_bytes es) = replicate 8 44"
    using data len by (intro replicate_eqI) (auto simp: env_entry_bytes_def)
  then have bl: "length blob = 376" by (simp add: blob length_concat hl sum_list_replicate)
  have hd': "bytes_env_header blob = h" by (simp add: blob header_roundtrip h)
  have en: "take (Suc (length ops)) (env_entries blob) = state_entry pad s # op_entries 0 ops"
    by (simp add: blob env_entries_bytes [OF hl len data]) (simp add: es)
  have c: "eh_entry_count h \<noteq> 0" "\<not> eh_entry_count h > RESTORE_ENV_MAX_ENTRIES" "eh_write_idx h = eh_entry_count h"
    using assms(1) n by (auto simp: word_less_nat_alt h(3,5))
  show "length (counter_blob pad s ops) = 376" using bl by (simp add: blob_def)
  show "counter_restore_apply_state_fn (Some (counter_blob pad s ops)) 376 w = (SCHED_OK, counter_adopt s' w)"
    if "ct_active s \<noteq> 0" "apply_ops ops (s\<lparr>ct_step_pending := 0\<rparr>) = Some s'"
    unfolding blob_def [symmetric] using apply_ops_active [OF that(2)] that c
    by (simp add: counter_restore_apply_state_fn_def Let_def hd' n en counter_envelope_run [OF assms(1,2)] h(1,2,4,6) del: replicate_Suc env_loop.simps)
qed

lemma counter_saved:
  assumes "ct_active (g_counter_ctx w0) \<noteq> 0" "376 \<le> cap"
  shows "counter_restore_get_state_fn pad True (Some cap) w0 = (SCHED_OK, Some (counter_blob pad (g_counter_ctx w0) [], 376))"
    "length (counter_blob pad (g_counter_ctx w0) []) = 376"
    "counter_restore_apply_state_fn (Some (counter_blob pad (g_counter_ctx w0) [])) 376 w =
       (SCHED_OK, counter_adopt ((g_counter_ctx w0)\<lparr>ct_step_pending := 0\<rparr>) w)"
proof -
  show "counter_restore_get_state_fn pad True (Some cap) w0 = (SCHED_OK, Some (counter_blob pad (g_counter_ctx w0) [], 376))"
    using assms by (simp add: counter_restore_get_state_fn_def counter_task_get_state_def counter_task_encode_restore_envelope_def
        counter_blob_def not_less split: prod.split)
qed (simp_all add: counter_enveloped assms(1))

text \<open>C29: a saved counter comes back.  The blob the encoder writes for an active state and
  up to seven operations is accepted by the restore function, which adopts the state with
  the operations applied in order, each capped at the limit (as long as no operation is
  unknown or divides by zero).\<close>

theorem counter_envelope_roundtrip:
  assumes "length ops \<le> 7" "\<forall>p\<in>set ops. length (op_reserved p) = 3" "376 \<le> cap" "ct_active s \<noteq> 0"
    "apply_ops ops (s\<lparr>ct_step_pending := 0\<rparr>) = Some s'"
  shows "\<exists>blob. counter_task_encode_restore_envelope pad (Some s) (Some ops) (of_nat (length ops)) True (Some cap) =
      (SCHED_OK, Some (blob, 376)) \<and> length blob = 376 \<and>
    counter_restore_apply_state_fn (Some blob) 376 w = (SCHED_OK, counter_adopt s' w)"
proof -
  have "counter_task_encode_restore_envelope pad (Some s) (Some ops) (of_nat (length ops)) True (Some cap) =
      (SCHED_OK, Some (counter_blob pad s ops, 376))"
    using assms(1,3) by (auto simp: counter_task_encode_restore_envelope_def word_less_nat_alt word_le_nat_alt unat_of_nat counter_blob_def split: prod.split)
  with counter_enveloped [OF assms(1,2)] assms(4,5) show ?thesis by blast
qed

definition cnt_power_on :: cnt_world where
  "cnt_power_on = term_world.extend term_power_on (cnt_world.fields
     \<lparr> ct_active = 0, ct_bg = 0, ct_step_pending = 0, ct_limit = 0, ct_value = 0, ct_next_tick = 0 \<rparr> True False False)"

theorem counter_envelope_roundtrip_witness:
  "\<exists>blob. counter_task_encode_restore_envelope 0 (Some demo_state) (Some [demo_op]) (of_nat (length [demo_op])) True (Some 512) =
      (SCHED_OK, Some (blob, 376)) \<and> length blob = 376 \<and>
    counter_restore_apply_state_fn (Some blob) 376 cnt_power_on = (SCHED_OK, counter_adopt (demo_state\<lparr>ct_value := 5\<rparr>) cnt_power_on)"
  by (rule counter_envelope_roundtrip) (simp_all add: demo_op_def demo_state_def apply_op_def word_le_nat_alt word_less_nat_alt)

section \<open>A run of the counter\<close>

lemma term_more_cnt:
  assumes "term_world.more w' = term_world.more w"
  shows "g_counter_ctx w' = g_counter_ctx w" "g_counter_sched w' = g_counter_sched w"
    "g_counter_state_restored w' = g_counter_state_restored w"
    "g_counter_restore_needs_stdin_rebind w' = g_counter_restore_needs_stdin_rebind w"
  using assms by (cases w; cases w'; simp)+

lemma counter_out_more [more_simps]:
  "term_world.more (counter_out_puts s w) = term_world.more w" "term_world.more (counter_out_put_u32 v w) = term_world.more w"
  by (simp_all add: counter_out_puts_def counter_out_put_u32_def more_simps console_put_u32_more [THEN con_more_above])

lemmas counter_out_cnt [simp] = counter_out_more [THEN term_more_cnt(1)] counter_out_more [THEN term_more_cnt(2)]

lemma upd_ct_sel [simp]: "g_counter_ctx (upd_ct f w) = f (g_counter_ctx w)" "g_counter_sched (upd_ct f w) = g_counter_sched w"
  by (simp_all add: upd_ct_def)

lemma counter_stop_ctx:
  "g_counter_ctx (counter_task_stop w) = (g_counter_ctx w)\<lparr>ct_active := 0, ct_step_pending := 0\<rparr>"
  by (simp add: counter_task_stop_def Let_def term_more_cnt [OF term_more_stdin(2)]
      term_more_cnt [OF sched_unregister_more [THEN sched_more_above]])

lemma counter_step_ctx:
  fixes w :: "'a cnt_world_scheme"
  defines "c \<equiv> g_counter_ctx w" and "c' \<equiv> g_counter_ctx (counter_step w)"
  shows "ct_active c' = (if ct_value c \<ge> ct_limit c then 0 else ct_active c)"
    "ct_value c' = (if ct_value c \<ge> ct_limit c then ct_value c else ct_value c + 1)"
    "ct_limit c' = ct_limit c" "ct_bg c' = ct_bg c"
  by (simp_all add: c_def c'_def counter_step_def Let_def counter_stop_ctx term_more_cnt [OF term_more_stdin(3)])

lemma counter_out_same: "term_same (counter_out_puts s w) w" "term_same (counter_out_put_u32 v w) w"
  by (simp_all add: counter_out_puts_def counter_out_put_u32_def term_same_output term_same_log)

lemmas counter_out_intros = term_same_intros counter_out_same [THEN term_same_trans] term_same_notify [THEN term_same_trans]

text \<open>A foreground run: the counter is registered and owns the input.\<close>

definition counter_owns :: "'a cnt_world_scheme \<Rightarrow> bool" where
  "counter_owns w \<longleftrightarrow> term_stdin_owner_valid w \<and> tc_stdin_owner (g_term_ctx w) = AO_COUNTER \<and> g_counter_sched w \<and>
     length (sc_table w) = 32"

definition counter_gone :: "'a cnt_world_scheme \<Rightarrow> bool" where
  "counter_gone w \<longleftrightarrow> tc_stdin_owner (g_term_ctx w) = TERM_STDIN_OWNER_NONE \<and> \<not> counter_registered w"

lemma counter_owns_same: "term_same w' w \<Longrightarrow> counter_owns w' \<longleftrightarrow> counter_owns w"
  using term_same_valid [of w' w] term_more_cnt(2) [of w' w] by (simp add: counter_owns_def term_same_def)

lemma counter_owns_upd: "counter_owns (upd_ct f w) \<longleftrightarrow> counter_owns w"
  by (simp add: counter_owns_def upd_ct_def term_stdin_owner_valid_def)

lemma counter_stop_gone:
  assumes "counter_owns w" "ct_bg (g_counter_ctx w) = 0"
  shows "counter_gone (counter_task_stop w)"
proof -
  let ?w1 = "(upd_ct (\<lambda>c. c\<lparr>ct_active := 0, ct_step_pending := 0\<rparr>) w)\<lparr>g_counter_restore_needs_stdin_rebind := False\<rparr>"
  let ?w2 = "snd (terminal_stdin_release AO_COUNTER ?w1)"
  have o': "term_stdin_owner_valid ?w1" "tc_stdin_owner (g_term_ctx ?w1) = AO_COUNTER" "length (sc_table ?w1) = 32" "g_counter_sched ?w1"
    using assms(1) by (auto simp add: counter_owns_def upd_ct_def term_stdin_owner_valid_def Let_def split: if_splits)
  note r = stdin_release_owner [OF o'(1,2)]
  have s: "counter_task_stop w = snd (sched_unregister AO_COUNTER ?w2)"
    using assms(2) term_more_cnt(2) [OF term_more_stdin(2), of AO_COUNTER ?w1] o'(4)
    by (simp add: counter_task_stop_def Let_def)
  have "g_term_ctx (snd (sched_unregister AO_COUNTER ?w2)) = g_term_ctx ?w2"
    by (rule con_more_term [OF sched_unregister_more [THEN sched_more_con]])
  moreover have "sc_table (snd (sched_unregister AO_COUNTER ?w2)) = (sc_table ?w2)[4 := None]"
    using sched_unregister_table [of AO_COUNTER ?w2] r(3) o'(3) by simp
  ultimately show ?thesis using r o'(3) by (simp add: counter_gone_def s counter_registered_def)
qed

lemma counter_step_world:
  assumes "counter_owns w" "ct_bg (g_counter_ctx w) = 0"
  shows "if ct_value (g_counter_ctx w) \<ge> ct_limit (g_counter_ctx w) then counter_gone (counter_step w) else counter_owns (counter_step w)"
proof -
  let ?w1 = "counter_out_puts crlf (counter_out_put_u32 (ct_value (g_counter_ctx w)) w)"
  let ?w2 = "counter_out_puts (''counter: done'' @ crlf) (upd_ct (\<lambda>c. c\<lparr>ct_step_pending := 0\<rparr>) ?w1)"
  have 1: "term_same ?w1 w" by (intro counter_out_intros)
  have o1: "counter_owns ?w1" using counter_owns_same [OF 1] assms(1) by simp
  have "term_same ?w2 (upd_ct (\<lambda>c. c\<lparr>ct_step_pending := 0\<rparr>) ?w1)" by (intro counter_out_intros)
  then have o2: "counter_owns ?w2" using counter_owns_same counter_owns_upd o1 by blast
  have "ct_bg (g_counter_ctx ?w2) = 0" using assms(2) by simp
  from counter_stop_gone [OF o2 this] o1 assms(2) show ?thesis
    by (simp add: counter_step_def Let_def counter_owns_upd)
qed

abbreviation (input) step_event :: event where "step_event \<equiv> sig_event COUNTER_SIG_STEP"

lemma counter_dispatch_step:
  "counter_task_dispatch (Some step_event) w = (if ct_active (g_counter_ctx w) = 0 then w else counter_step w)"
  by (simp add: counter_task_dispatch_def sig_event_def)

lemma counter_run_inv:
  assumes "counter_owns w" "ct_active (g_counter_ctx w) = 1" "ct_bg (g_counter_ctx w) = 0" "ct_value (g_counter_ctx w) = 1"
    "ct_limit (g_counter_ctx w) = L" "L \<noteq> 0"
  shows "let w' = (counter_task_dispatch (Some step_event) ^^ k) w; c = g_counter_ctx w' in
    if k < unat L then ct_active c = 1 \<and> ct_value c = of_nat (Suc k) \<and> ct_limit c = L \<and> ct_bg c = 0 \<and> counter_owns w'
    else ct_active c = 0 \<and> counter_gone w'"
proof (induction k)
  case 0
  have "0 < unat L" using assms(6) by (simp add: unat_gt_0)
  with assms show ?case by simp
next
  case (Suc k)
  let ?w = "(counter_task_dispatch (Some step_event) ^^ k) w"
  show ?case
  proof (cases "k < unat L")
    case True
    with Suc have c: "ct_active (g_counter_ctx ?w) = 1" "ct_value (g_counter_ctx ?w) = of_nat (Suc k)"
      "ct_limit (g_counter_ctx ?w) = L" "ct_bg (g_counter_ctx ?w) = 0" "counter_owns ?w" by (simp_all add: Let_def)
    have ge: "ct_value (g_counter_ctx ?w) \<ge> ct_limit (g_counter_ctx ?w) \<longleftrightarrow> \<not> Suc k < unat L"
    proof -
      have "Suc k < 4294967296" using True unat_u32_lt [of L] by linarith
      then have "unat (of_nat (Suc k) :: u32) = Suc k" by (simp only: unat_of_nat) simp
      then show ?thesis unfolding c word_le_nat_alt by linarith
    qed
    have st: "(counter_task_dispatch (Some step_event) ^^ Suc k) w = counter_step ?w"
      using c(1) by (simp add: counter_dispatch_step [of ?w])
    show ?thesis
      using counter_step_world [OF c(5,4)] c ge unfolding st by (simp add: Let_def counter_step_ctx)
  next
    case False
    with Suc have "ct_active (g_counter_ctx ?w) = 0" "counter_gone ?w" by (simp_all add: Let_def)
    with False show ?thesis by (simp add: counter_dispatch_step [of ?w] Let_def)
  qed
qed

text \<open>C30: a foreground run counts to its limit and cleans up.  After the start event for a
  limit and k step events, the counter stands at k + 1 and still owns the input while k is
  below the limit (a limit of 0 counts as 1); from the limit-th step on it is inactive,
  unregistered, and has given the input back, and further step events change nothing.\<close>

theorem counter_counts_to_limit:
  assumes "counter_owns w" "ct_active (g_counter_ctx w) = 0" "ev_sig e = COUNTER_SIG_START" "ev_src e AND 1 = 0"
    "L = (if ev_arg0 e = 0 then 1 else ev_arg0 e)"
  shows "let w' = (counter_task_dispatch (Some step_event) ^^ k) (counter_task_dispatch (Some e) w); c = g_counter_ctx w' in
    if k < unat L then ct_active c = 1 \<and> ct_value c = of_nat (Suc k) \<and> ct_limit c = L \<and> ct_bg c = 0 \<and> counter_owns w'
    else ct_active c = 0 \<and> counter_gone w'"
proof -
  let ?w = "counter_task_dispatch (Some e) w"
  let ?u = "\<lambda>c. c\<lparr>ct_limit := (if ev_arg0 e = 0 then 1 else ev_arg0 e), ct_value := 1, ct_bg := ucast (ev_src e AND 1),
                   ct_step_pending := 0, ct_active := 1, ct_next_tick := systick_now w + COUNTER_STEP_TICKS\<rparr>"
  have s: "?w = counter_out_puts (''counter: start'' @ crlf) (upd_ct ?u w)"
    using assms by (simp add: counter_task_dispatch_def counter_start_def)
  have "term_same ?w (upd_ct ?u w)" unfolding s by (intro counter_out_intros)
  then have "counter_owns ?w" using counter_owns_same counter_owns_upd assms(1) by blast
  from counter_run_inv [OF this, of L k] show ?thesis using assms unfolding s by simp
qed


definition cnt_demo :: cnt_world where
  "cnt_demo = upd_t (\<lambda>t. t\<lparr>tc_stdin_owner := 4, tc_stdin_owner_ref := Some 4\<rparr>) (cnt_power_on\<lparr>sc_table := replicate 32 (Some 4)\<rparr>)"

theorem counter_counts_to_limit_witness:
  "ct_active (g_counter_ctx ((counter_task_dispatch (Some step_event) ^^ 2)
      (counter_task_dispatch (Some ((sig_event COUNTER_SIG_START)\<lparr>ev_arg0 := 2\<rparr>)) cnt_demo))) = 0 \<and>
   counter_gone ((counter_task_dispatch (Some step_event) ^^ 2)
      (counter_task_dispatch (Some ((sig_event COUNTER_SIG_START)\<lparr>ev_arg0 := 2\<rparr>)) cnt_demo))"
proof -
  have o': "counter_owns cnt_demo" "ct_active (g_counter_ctx cnt_demo) = 0"
    by (simp_all add: counter_owns_def term_stdin_owner_valid_def cnt_demo_def cnt_power_on_def term_power_on_def upd_t_def
        cnt_world.defs term_world.defs res_world.defs)
  have e: "ev_sig ((sig_event COUNTER_SIG_START)\<lparr>ev_arg0 := 2\<rparr>) = COUNTER_SIG_START"
    "ev_src ((sig_event COUNTER_SIG_START)\<lparr>ev_arg0 := 2\<rparr>) AND 1 = 0"
    "2 = (if ev_arg0 ((sig_event COUNTER_SIG_START)\<lparr>ev_arg0 := 2\<rparr>) = 0 then 1 else ev_arg0 ((sig_event COUNTER_SIG_START)\<lparr>ev_arg0 := 2\<rparr>))"
    by (simp_all add: sig_event_def)
  from counter_counts_to_limit [OF o' e, of 2] show ?thesis by (simp add: Let_def)
qed

end
