(* ===== verification/Snake.thy ===== *)
theory Snake
  imports Counter
begin

text \<open>
  The snake game of \<open>snake_task.c\<close>: a 20 by 12 board, the body as a ring of 240
  cells, keys from the terminal, a step per timer event, and the state saved to
  and restored from a checkpoint blob.
\<close>

section \<open>State\<close>

record snake_cell =
  cell_x :: u8
  cell_y :: u8

record snake_state =
  sn_active :: u8
  sn_ui_mode :: u8
  sn_dir :: u8
  sn_pending_dir :: u8
  sn_length :: u8
  sn_head_idx :: u8
  sn_food_x :: u8
  sn_food_y :: u8
  sn_game_over_reason :: u8
  sn_reserved0 :: "u8 list"
  sn_score :: u32
  sn_tick_interval_ms :: u32
  sn_next_tick :: u32
  sn_body :: "snake_cell list"

record snk_world = cnt_world +
  g_snake_ctx :: snake_state
  g_snake_sched :: bool
  g_snake_state_restored :: bool
  g_snake_restore_needs_stdin_rebind :: bool
  g_snake_tick_pending :: bool
  g_snake_full_redraw :: bool
  g_snake_render_buf :: string

abbreviation (input) AO_SNAKE :: u8 where "AO_SNAKE \<equiv> 7"
abbreviation (input) SNAKE_SIG_START :: u16 where "SNAKE_SIG_START \<equiv> 17"
abbreviation (input) SNAKE_SIG_TICK :: u16 where "SNAKE_SIG_TICK \<equiv> 18"
abbreviation (input) SNAKE_BOARD_W :: u8 where "SNAKE_BOARD_W \<equiv> 20"
abbreviation (input) SNAKE_BOARD_H :: u8 where "SNAKE_BOARD_H \<equiv> 12"
abbreviation (input) SNAKE_MAX_CELLS :: u32 where "SNAKE_MAX_CELLS \<equiv> 240"
abbreviation (input) SNAKE_RENDER_BUF_SIZE :: u16 where "SNAKE_RENDER_BUF_SIZE \<equiv> 768"
abbreviation (input) SNAKE_UI_TITLE :: u8 where "SNAKE_UI_TITLE \<equiv> 1"
abbreviation (input) SNAKE_UI_PLAYING :: u8 where "SNAKE_UI_PLAYING \<equiv> 2"
abbreviation (input) SNAKE_UI_PAUSED :: u8 where "SNAKE_UI_PAUSED \<equiv> 3"
abbreviation (input) SNAKE_UI_GAME_OVER :: u8 where "SNAKE_UI_GAME_OVER \<equiv> 4"
abbreviation (input) SNAKE_DIR_UP :: u8 where "SNAKE_DIR_UP \<equiv> 1"
abbreviation (input) SNAKE_DIR_RIGHT :: u8 where "SNAKE_DIR_RIGHT \<equiv> 2"
abbreviation (input) SNAKE_DIR_DOWN :: u8 where "SNAKE_DIR_DOWN \<equiv> 3"
abbreviation (input) SNAKE_DIR_LEFT :: u8 where "SNAKE_DIR_LEFT \<equiv> 4"
abbreviation (input) SNAKE_GAME_OVER_WALL :: u8 where "SNAKE_GAME_OVER_WALL \<equiv> 1"
abbreviation (input) SNAKE_GAME_OVER_SELF :: u8 where "SNAKE_GAME_OVER_SELF \<equiv> 2"
abbreviation (input) SNAKE_GAME_OVER_WIN :: u8 where "SNAKE_GAME_OVER_WIN \<equiv> 3"

definition upd_sn :: "(snake_state \<Rightarrow> snake_state) \<Rightarrow> 'a snk_world_scheme \<Rightarrow> 'a snk_world_scheme" where
  "upd_sn f w = w\<lparr>g_snake_ctx := f (g_snake_ctx w)\<rparr>"

definition snake_registered :: "'a sched_scheme \<Rightarrow> bool" where
  "snake_registered w \<longleftrightarrow> sc_table w ! unat AO_SNAKE \<noteq> None"

definition zero_cell :: snake_cell where
  "zero_cell = \<lparr> cell_x = 0, cell_y = 0 \<rparr>"

definition snake_zero_body :: "snake_state \<Rightarrow> snake_state" where
  "snake_zero_body s = s\<lparr>sn_body := replicate 240 zero_cell\<rparr>"

definition snake_reset :: snake_state where
  "snake_reset = \<lparr> sn_active = 0, sn_ui_mode = SNAKE_UI_TITLE, sn_dir = SNAKE_DIR_RIGHT, sn_pending_dir = SNAKE_DIR_RIGHT,
     sn_length = 0, sn_head_idx = 0, sn_food_x = 0, sn_food_y = 0, sn_game_over_reason = 0, sn_reserved0 = [0, 0, 0],
     sn_score = 0, sn_tick_interval_ms = 160, sn_next_tick = 0, sn_body = replicate 240 zero_cell \<rparr>"

definition snake_task_reset_state :: "'a snk_world_scheme \<Rightarrow> 'a snk_world_scheme" where
  "snake_task_reset_state w =
     w\<lparr>g_snake_ctx := snake_reset, g_snake_restore_needs_stdin_rebind := False, g_snake_tick_pending := False,
       g_snake_full_redraw := True\<rparr>"

definition snake_seed_new_session :: "'a snk_world_scheme \<Rightarrow> 'a snk_world_scheme" where
  "snake_seed_new_session w = upd_sn (\<lambda>s. s\<lparr>sn_active := 1\<rparr>) (snake_task_reset_state w)"

definition snake_dir_valid :: "u8 \<Rightarrow> bool" where
  "snake_dir_valid d \<longleftrightarrow> d \<ge> SNAKE_DIR_UP \<and> d \<le> SNAKE_DIR_LEFT"

definition snake_state_tail_index :: "snake_state \<Rightarrow> u8" where
  "snake_state_tail_index s = ucast ((ucast (sn_head_idx s) + SNAKE_MAX_CELLS + 1 - ucast (sn_length s)) mod SNAKE_MAX_CELLS)"

text \<open>The cell the two loops of \<open>snake_state_valid\<close> read at \<open>i\<close>.\<close>

definition valid_cell :: "snake_state \<Rightarrow> nat \<Rightarrow> snake_cell" where
  "valid_cell s i = sn_body s ! unat ((ucast (snake_state_tail_index s) + of_nat i) mod SNAKE_MAX_CELLS)"

definition snake_state_valid :: "snake_state \<Rightarrow> bool" where
  "snake_state_valid s \<longleftrightarrow>
     \<not> sn_active s > 1 \<and>
     \<not> (sn_ui_mode s < SNAKE_UI_TITLE \<or> sn_ui_mode s > SNAKE_UI_GAME_OVER) \<and>
     snake_dir_valid (sn_dir s) \<and> snake_dir_valid (sn_pending_dir s) \<and>
     \<not> ucast (sn_length s) > SNAKE_MAX_CELLS \<and>
     \<not> ucast (sn_head_idx s) \<ge> SNAKE_MAX_CELLS \<and>
     (if sn_food_x s \<ge> SNAKE_BOARD_W \<or> sn_food_y s \<ge> SNAKE_BOARD_H
      then sn_ui_mode s = SNAKE_UI_GAME_OVER \<and> sn_game_over_reason s = SNAKE_GAME_OVER_WIN else True) \<and>
     \<not> sn_game_over_reason s > SNAKE_GAME_OVER_WIN \<and>
     \<not> (sn_active s \<noteq> 0 \<and> sn_ui_mode s \<noteq> SNAKE_UI_TITLE \<and> sn_length s = 0) \<and>
     list_all (\<lambda>i. \<not> (cell_x (valid_cell s i) \<ge> SNAKE_BOARD_W \<or> cell_y (valid_cell s i) \<ge> SNAKE_BOARD_H) \<and>
        list_all (\<lambda>j. \<not> (cell_x (valid_cell s i) = cell_x (valid_cell s j) \<and> cell_y (valid_cell s i) = cell_y (valid_cell s j)))
          [i + 1..<unat (sn_length s)]) [0..<unat (sn_length s)]"

text \<open>The blob is the memory of \<open>snake_game_state_t\<close>: 504 bytes, no padding.\<close>

definition snake_bytes :: "snake_state \<Rightarrow> u8 list" where
  "snake_bytes s = [sn_active s, sn_ui_mode s, sn_dir s, sn_pending_dir s, sn_length s, sn_head_idx s, sn_food_x s, sn_food_y s,
     sn_game_over_reason s] @ sn_reserved0 s @ u32_bytes (sn_score s) @ u32_bytes (sn_tick_interval_ms s) @
     u32_bytes (sn_next_tick s) @ concat (map (\<lambda>c. [cell_x c, cell_y c]) (sn_body s))"

definition bytes_snake :: "u8 list \<Rightarrow> snake_state" where
  "bytes_snake b = \<lparr> sn_active = b ! 0, sn_ui_mode = b ! 1, sn_dir = b ! 2, sn_pending_dir = b ! 3, sn_length = b ! 4,
     sn_head_idx = b ! 5, sn_food_x = b ! 6, sn_food_y = b ! 7, sn_game_over_reason = b ! 8, sn_reserved0 = take 3 (drop 9 b),
     sn_score = u32_at b 12, sn_tick_interval_ms = u32_at b 16, sn_next_tick = u32_at b 20,
     sn_body = map (\<lambda>i. \<lparr> cell_x = b ! (24 + 2 * i), cell_y = b ! (24 + 2 * i + 1) \<rparr>) [0..<240] \<rparr>"

definition snake_task_get_state :: "'a snk_world_scheme \<Rightarrow> snake_state" where
  "snake_task_get_state w = g_snake_ctx w"

definition snake_task_encode_state_blob :: "snake_state option \<Rightarrow> bool \<Rightarrow> u32 option \<Rightarrow> int \<times> (u8 list \<times> u32) option" where
  "snake_task_encode_state_blob statep out io_len =
     (case (statep, io_len) of
        (Some s, Some cap) \<Rightarrow>
          if \<not> out then (SCHED_ERR_PARAM, None)
          else if \<not> snake_state_valid s then (SCHED_ERR_PARAM, None)
          else if cap < 504 then (SCHED_ERR_PARAM, None)
          else (SCHED_OK, Some (snake_bytes s, 504))
      | _ \<Rightarrow> (SCHED_ERR_PARAM, None))"

definition snake_task_decode_state_blob :: "u8 list option \<Rightarrow> u32 \<Rightarrow> int \<times> snake_state option" where
  "snake_task_decode_state_blob blobp len =
     (case blobp of None \<Rightarrow> (SCHED_ERR_PARAM, None)
      | Some blob \<Rightarrow>
          if len \<noteq> 504 then (SCHED_ERR_PARAM, None)
          else let s = bytes_snake blob in
            if \<not> snake_state_valid s then (SCHED_ERR_PARAM, Some s) else (SCHED_OK, Some s))"

section \<open>The board\<close>

definition snake_tail_index :: "snake_state \<Rightarrow> u8" where
  "snake_tail_index s = ucast ((ucast (sn_head_idx s) + SNAKE_MAX_CELLS + 1 - ucast (sn_length s)) mod SNAKE_MAX_CELLS)"

definition snake_body_cell_from_tail :: "snake_state \<Rightarrow> nat \<Rightarrow> snake_cell" where
  "snake_body_cell_from_tail s offset =
     (let idx = (ucast ((ucast (snake_tail_index s) + of_nat offset :: u32) mod SNAKE_MAX_CELLS) :: u8) in sn_body s ! unat idx)"

definition snake_mix_u32 :: "u32 \<Rightarrow> u32 \<Rightarrow> u32" where
  "snake_mix_u32 seed v = seed XOR (v + 0x9E3779B9 + push_bit 6 seed + drop_bit 2 seed)"

definition snake_dir_is_opposite :: "u8 \<Rightarrow> u8 \<Rightarrow> bool" where
  "snake_dir_is_opposite a b \<longleftrightarrow>
     (a = SNAKE_DIR_UP \<and> b = SNAKE_DIR_DOWN) \<or> (a = SNAKE_DIR_DOWN \<and> b = SNAKE_DIR_UP) \<or>
     (a = SNAKE_DIR_LEFT \<and> b = SNAKE_DIR_RIGHT) \<or> (a = SNAKE_DIR_RIGHT \<and> b = SNAKE_DIR_LEFT)"

definition snake_cell_occupied :: "snake_state \<Rightarrow> u8 \<Rightarrow> u8 \<Rightarrow> bool \<Rightarrow> bool" where
  "snake_cell_occupied s x y ignore_tail =
     list_ex (\<lambda>i. let c = snake_body_cell_from_tail s i in cell_x c = x \<and> cell_y c = y)
       [(if ignore_tail then 1 else 0)..<unat (sn_length s)]"

definition snake_seed :: "snake_state \<Rightarrow> u32" where
  "snake_seed s =
     foldl (\<lambda>seed i. let c = snake_body_cell_from_tail s i in snake_mix_u32 seed (push_bit 8 (ucast (cell_x c)) OR ucast (cell_y c)))
       (snake_mix_u32 (snake_mix_u32 (snake_mix_u32 (snake_mix_u32 0x51A7E5D3 (sn_score s)) (ucast (sn_length s)))
          (ucast (sn_dir s))) (ucast (sn_pending_dir s)))
       [0..<unat (sn_length s)]"

text \<open>The cell tried at \<open>step\<close>.\<close>

definition probe_cell :: "u32 \<Rightarrow> nat \<Rightarrow> u8 \<times> u8" where
  "probe_cell start step =
     (let idx = (start + of_nat step * 97) mod SNAKE_MAX_CELLS in (ucast (idx mod 20), ucast (idx div 20)))"

definition snake_spawn_food :: "snake_state \<Rightarrow> snake_state" where
  "snake_spawn_food s =
     (let start = snake_seed s mod SNAKE_MAX_CELLS in
      case find (\<lambda>step. \<not> snake_cell_occupied s (fst (probe_cell start step)) (snd (probe_cell start step)) False) [0..<240] of
        Some step \<Rightarrow> s\<lparr>sn_food_x := fst (probe_cell start step), sn_food_y := snd (probe_cell start step)\<rparr>
      | None \<Rightarrow> s\<lparr>sn_ui_mode := SNAKE_UI_GAME_OVER, sn_game_over_reason := SNAKE_GAME_OVER_WIN\<rparr>)"

definition snake_new_game :: "u32 \<Rightarrow> snake_state \<Rightarrow> snake_state" where
  "snake_new_game now s =
     snake_spawn_food ((snake_zero_body s)\<lparr>sn_ui_mode := SNAKE_UI_PLAYING, sn_dir := SNAKE_DIR_RIGHT,
       sn_pending_dir := SNAKE_DIR_RIGHT, sn_length := 3, sn_head_idx := 2,
       sn_body := (replicate 240 zero_cell)[0 := \<lparr> cell_x = 8, cell_y = 6 \<rparr>, 1 := \<lparr> cell_x = 9, cell_y = 6 \<rparr>,
                     2 := \<lparr> cell_x = 10, cell_y = 6 \<rparr>],
       sn_score := 0, sn_game_over_reason := 0, sn_next_tick := now + sn_tick_interval_ms s\<rparr>)"

definition snake_start_game :: "'a snk_world_scheme \<Rightarrow> 'a snk_world_scheme" where
  "snake_start_game w =
     (upd_sn (snake_new_game (systick_now w)) w)\<lparr>g_snake_tick_pending := False, g_snake_full_redraw := True\<rparr>"


section \<open>Rendering\<close>

text \<open>The render buffer and the offset the append functions pass along.\<close>

type_synonym render = "u16 \<times> string"

definition snake_render_append_char :: "char \<Rightarrow> render \<Rightarrow> render" where
  "snake_render_append_char c r =
     (case r of (off, buf) \<Rightarrow> if off < SNAKE_RENDER_BUF_SIZE then (off + 1, buf[unat off := c]) else (off, buf))"

fun snake_render_append_str :: "string \<Rightarrow> render \<Rightarrow> render" where
  "snake_render_append_str [] r = r"
| "snake_render_append_str (c # cs) (off, buf) =
     (if off < SNAKE_RENDER_BUF_SIZE then snake_render_append_str cs (off + 1, buf[unat off := c]) else (off, buf))"

definition snake_render_append_u32 :: "u32 \<Rightarrow> render \<Rightarrow> render" where
  "snake_render_append_u32 v r =
     (if v = 0 then snake_render_append_char (CHR ''0'') r
      else foldl (\<lambda>r c. snake_render_append_char c r) r (rev (u32_digits 10 v)))"

abbreviation (input) clear_line :: string where "clear_line \<equiv> [CHR 0x1B] @ ''[2K''"

definition snake_render_append_border :: "render \<Rightarrow> render" where
  "snake_render_append_border r =
     snake_render_append_str (''+'' @ crlf)
       (foldl (\<lambda>r _. snake_render_append_char (CHR ''-'') r)
         (snake_render_append_char (CHR ''+'') (snake_render_append_str clear_line r)) [0..<20])"

definition snake_render_append_line_start :: "render \<Rightarrow> render" where
  "snake_render_append_line_start r = snake_render_append_str clear_line r"

definition snake_mode_name :: "u8 \<Rightarrow> string" where
  "snake_mode_name m =
     (if m = SNAKE_UI_TITLE then ''TITLE'' else if m = SNAKE_UI_PLAYING then ''PLAYING''
      else if m = SNAKE_UI_PAUSED then ''PAUSED'' else if m = SNAKE_UI_GAME_OVER then ''GAME_OVER'' else ''?'')"

definition snake_game_over_name :: "u8 \<Rightarrow> string" where
  "snake_game_over_name r =
     (if r = SNAKE_GAME_OVER_WALL then ''wall'' else if r = SNAKE_GAME_OVER_SELF then ''self''
      else if r = SNAKE_GAME_OVER_WIN then ''win'' else ''none'')"

definition snake_board_char :: "snake_state \<Rightarrow> u8 \<Rightarrow> u8 \<Rightarrow> char" where
  "snake_board_char s x y =
     (if sn_ui_mode s \<noteq> SNAKE_UI_TITLE \<and> sn_game_over_reason s \<noteq> SNAKE_GAME_OVER_WIN \<and> sn_food_x s = x \<and> sn_food_y s = y
      then CHR ''*''
      else case find (\<lambda>i. let c = snake_body_cell_from_tail s i in cell_x c = x \<and> cell_y c = y) [0..<unat (sn_length s)] of
             Some i \<Rightarrow> if i + 1 = unat (sn_length s) then CHR ''@'' else CHR ''o''
           | None \<Rightarrow> CHR ''.'')"

definition snake_render_append_board :: "snake_state \<Rightarrow> render \<Rightarrow> render" where
  "snake_render_append_board s r =
     snake_render_append_border
       (foldl (\<lambda>r y. snake_render_append_str (''|'' @ crlf)
            (foldl (\<lambda>r x. snake_render_append_char (snake_board_char s (of_nat x) (of_nat y)) r)
              (snake_render_append_char (CHR ''|'') r) [0..<20]))
         (snake_render_append_border r) [0..<12])"

definition snake_hint :: "snake_state \<Rightarrow> render \<Rightarrow> render" where
  "snake_hint s r =
     (if sn_ui_mode s = SNAKE_UI_TITLE then snake_render_append_str (''press r to start, q to quit'' @ crlf) r
      else if sn_ui_mode s = SNAKE_UI_PAUSED then snake_render_append_str (''paused: p resume, r restart, q quit'' @ crlf) r
      else if sn_ui_mode s = SNAKE_UI_GAME_OVER
      then snake_render_append_str (''  press r to restart or q to quit'' @ crlf)
             (snake_render_append_str (snake_game_over_name (sn_game_over_reason s)) (snake_render_append_str ''game over: '' r))
      else snake_render_append_str (''w/a/s/d move  p pause  r restart  q quit'' @ crlf) r)"

definition snake_status :: "snake_state \<Rightarrow> render \<Rightarrow> render" where
  "snake_status s r0 =
     (let r1 = snake_render_append_str (''SNAKE'' @ crlf) (snake_render_append_line_start r0);
          r2 = snake_render_append_str (snake_mode_name (sn_ui_mode s))
                 (snake_render_append_str ''mode='' (snake_render_append_line_start r1));
          r3 = snake_render_append_u32 (sn_score s) (snake_render_append_str '' score='' r2);
          r4 = snake_render_append_u32 (ucast (sn_length s)) (snake_render_append_str '' len='' r3);
          r5 = snake_render_append_u32 20 (snake_render_append_str '' area='' r4);
          r6 = snake_render_append_u32 12 (snake_render_append_char (CHR ''x'') r5)
      in snake_render_append_str crlf r6)"

definition snake_render :: "'a snk_world_scheme \<Rightarrow> 'a snk_world_scheme" where
  "snake_render w =
     (let s = g_snake_ctx w;
          home = (if g_snake_full_redraw w then [CHR 0x1B] @ ''[2J'' @ [CHR 0x1B] @ ''[H'' else [CHR 0x1B] @ ''[H'')
      in case snake_render_append_board s (snake_hint s (snake_render_append_line_start
                (snake_status s (snake_render_append_str home (0, g_snake_render_buf w))))) of (len, buf) \<Rightarrow>
         snd (console_write (Some buf) len (w\<lparr>g_snake_render_buf := buf, g_snake_full_redraw := False\<rparr>)))"

section \<open>The game\<close>

definition snake_stop :: "'a snk_world_scheme \<Rightarrow> 'a snk_world_scheme" where
  "snake_stop w =
     (let w1 = (upd_sn (\<lambda>s. s\<lparr>sn_active := 0, sn_next_tick := 0\<rparr>) w)
                 \<lparr>g_snake_tick_pending := False, g_snake_restore_needs_stdin_rebind := False, g_snake_full_redraw := True\<rparr>;
          w2 = snd (terminal_stdin_release AO_SNAKE (con_puts ([CHR 0x1B] @ ''[2J'' @ [CHR 0x1B] @ ''[H'') w1))
      in if g_snake_sched w2 then snd (sched_unregister AO_SNAKE w2) else w2)"

definition snake_game_over :: "u8 \<Rightarrow> 'a snk_world_scheme \<Rightarrow> 'a snk_world_scheme" where
  "snake_game_over reason w =
     snake_render ((upd_sn (\<lambda>s. s\<lparr>sn_ui_mode := SNAKE_UI_GAME_OVER, sn_game_over_reason := reason, sn_next_tick := 0\<rparr>) w)
       \<lparr>g_snake_tick_pending := False\<rparr>)"

definition snake_turn :: "snake_state \<Rightarrow> snake_state" where
  "snake_turn s =
     (if \<not> snake_dir_is_opposite (sn_dir s) (sn_pending_dir s) \<or> sn_length s \<le> 1
      then s\<lparr>sn_dir := sn_pending_dir s\<rparr> else s)"

text \<open>The cell in front of the head; None beyond a wall.\<close>

definition snake_ahead :: "snake_state \<Rightarrow> (u8 \<times> u8) option" where
  "snake_ahead s =
     (let head = sn_body s ! unat (sn_head_idx s); x = cell_x head; y = cell_y head in
      if sn_dir s = SNAKE_DIR_UP then if y = 0 then None else Some (x, y - 1)
      else if sn_dir s = SNAKE_DIR_DOWN then if y + 1 \<ge> SNAKE_BOARD_H then None else Some (x, y + 1)
      else if sn_dir s = SNAKE_DIR_LEFT then if x = 0 then None else Some (x - 1, y)
      else if x + 1 \<ge> SNAKE_BOARD_W then None else Some (x + 1, y))"

definition snake_advance :: "u8 \<Rightarrow> u8 \<Rightarrow> snake_state \<Rightarrow> snake_state" where
  "snake_advance x y s =
     (let h = (ucast ((ucast (sn_head_idx s) + 1 :: u32) mod SNAKE_MAX_CELLS) :: u8) in
      s\<lparr>sn_body := (sn_body s)[unat h := \<lparr> cell_x = x, cell_y = y \<rparr>], sn_head_idx := h\<rparr>)"

definition snake_grow :: "snake_state \<Rightarrow> snake_state" where
  "snake_grow s =
     s\<lparr>sn_length := (if ucast (sn_length s) < SNAKE_MAX_CELLS then sn_length s + 1 else sn_length s), sn_score := sn_score s + 1\<rparr>"

definition snake_next_step :: "'a snk_world_scheme \<Rightarrow> 'a snk_world_scheme" where
  "snake_next_step w = snake_render (upd_sn (\<lambda>s. s\<lparr>sn_next_tick := systick_now w + sn_tick_interval_ms s\<rparr>) w)"

definition snake_step :: "'a snk_world_scheme \<Rightarrow> 'a snk_world_scheme" where
  "snake_step w0 =
     (let w1 = w0\<lparr>g_snake_tick_pending := False\<rparr>; s1 = g_snake_ctx w1 in
      if sn_active s1 = 0 \<or> sn_ui_mode s1 \<noteq> SNAKE_UI_PLAYING \<or> sn_length s1 = 0 then w1
      else
        let w = upd_sn snake_turn w1; s = g_snake_ctx w in
        case snake_ahead s of
          None \<Rightarrow> snake_game_over SNAKE_GAME_OVER_WALL w
        | Some (x, y) \<Rightarrow>
            let grow = (sn_food_x s = x \<and> sn_food_y s = y) in
            if snake_cell_occupied s x y (\<not> grow) then snake_game_over SNAKE_GAME_OVER_SELF w
            else
              let w2 = upd_sn (snake_advance x y) w in
              if grow
              then let w3 = upd_sn snake_grow w2 in
                   if ucast (sn_length (g_snake_ctx w3)) \<ge> SNAKE_MAX_CELLS then snake_game_over SNAKE_GAME_OVER_WIN w3
                   else let w4 = upd_sn snake_spawn_food w3 in
                        if sn_ui_mode (g_snake_ctx w4) = SNAKE_UI_GAME_OVER then snake_render w4 else snake_next_step w4
              else snake_next_step w2)"


definition key_is :: "u8 \<Rightarrow> u8 \<Rightarrow> u8 \<Rightarrow> bool" where
  "key_is k lower upper \<longleftrightarrow> k = lower \<or> k = upper"

definition snake_pause :: "'a snk_world_scheme \<Rightarrow> 'a snk_world_scheme" where
  "snake_pause w =
     (if sn_ui_mode (g_snake_ctx w) = SNAKE_UI_PLAYING
      then snake_render ((upd_sn (\<lambda>s. s\<lparr>sn_ui_mode := SNAKE_UI_PAUSED, sn_next_tick := 0\<rparr>) w)\<lparr>g_snake_tick_pending := False\<rparr>)
      else if sn_ui_mode (g_snake_ctx w) = SNAKE_UI_PAUSED
      then snake_render ((upd_sn (\<lambda>s. s\<lparr>sn_ui_mode := SNAKE_UI_PLAYING,
               sn_next_tick := systick_now w + sn_tick_interval_ms s\<rparr>) w)\<lparr>g_snake_tick_pending := False\<rparr>)
      else w)"

definition snake_key_dir :: "u8 \<Rightarrow> u8 option" where
  "snake_key_dir k =
     (if key_is k 0x77 0x57 then Some SNAKE_DIR_UP else if key_is k 0x64 0x44 then Some SNAKE_DIR_RIGHT
      else if key_is k 0x73 0x53 then Some SNAKE_DIR_DOWN else if key_is k 0x61 0x41 then Some SNAKE_DIR_LEFT else None)"

definition snake_steer :: "u8 \<Rightarrow> snake_state \<Rightarrow> snake_state" where
  "snake_steer d s = (if \<not> snake_dir_is_opposite (sn_dir s) d \<or> sn_length s \<le> 1 then s\<lparr>sn_pending_dir := d\<rparr> else s)"

definition snake_key :: "u8 \<Rightarrow> 'a snk_world_scheme \<Rightarrow> 'a snk_world_scheme" where
  "snake_key key w =
     (if key_is key 0x71 0x51 then snake_stop w
      else if key_is key 0x72 0x52 then snake_render (snake_start_game w)
      else if key_is key 0x70 0x50 then snake_pause w
      else if sn_ui_mode (g_snake_ctx w) \<noteq> SNAKE_UI_PLAYING \<and> sn_ui_mode (g_snake_ctx w) \<noteq> SNAKE_UI_PAUSED then w
      else case snake_key_dir key of None \<Rightarrow> w | Some d \<Rightarrow> upd_sn (snake_steer d) w)"

definition snake_task_dispatch :: "event option \<Rightarrow> 'a snk_world_scheme \<Rightarrow> 'a snk_world_scheme" where
  "snake_task_dispatch ep w =
     (case ep of None \<Rightarrow> w
      | Some e \<Rightarrow>
          if ev_sig e = SNAKE_SIG_START
          then if sn_active (g_snake_ctx w) \<noteq> 0 then con_puts (''snake: busy'' @ crlf) w
               else snake_render (snake_seed_new_session w)
          else if sn_active (g_snake_ctx w) = 0 then w
          else if ev_sig e = SNAKE_SIG_TICK then snake_step w
          else if ev_sig e \<noteq> TERM_SIG_STDIN_RAW then w
          else snake_key (ucast (ev_arg0 e)) w)"

section \<open>Registration, saving and restoring\<close>

definition snake_task_restore_state :: "snake_state option \<Rightarrow> 'a snk_world_scheme \<Rightarrow> int \<times> 'a snk_world_scheme" where
  "snake_task_restore_state inp w =
     (case inp of None \<Rightarrow> (SCHED_ERR_PARAM, w)
      | Some s \<Rightarrow>
          if \<not> snake_state_valid s then (SCHED_ERR_PARAM, w)
          else if sn_active s = 0
          then let w1 = snake_task_reset_state w;
                   w2 = (if g_snake_sched w1 \<and> snake_registered w1 then snd (sched_unregister AO_SNAKE w1) else w1)
               in (SCHED_OK, w2\<lparr>g_snake_state_restored := False\<rparr>)
          else (SCHED_OK,
                w\<lparr>g_snake_ctx := s\<lparr>sn_next_tick := (if sn_ui_mode s = SNAKE_UI_PLAYING
                                                   then systick_now w + sn_tick_interval_ms s else 0)\<rparr>,
                  g_snake_tick_pending := False, g_snake_full_redraw := True, g_snake_state_restored := True\<rparr>))"

definition snake_task_restore_rebind_stdin_if_needed :: "'a snk_world_scheme \<Rightarrow> 'a snk_world_scheme" where
  "snake_task_restore_rebind_stdin_if_needed w =
     (if \<not> g_snake_restore_needs_stdin_rebind w then w
      else if sn_active (g_snake_ctx w) = 0 then w\<lparr>g_snake_restore_needs_stdin_rebind := False\<rparr>
      else if \<not> g_snake_sched w \<or> \<not> snake_registered w then w
      else case terminal_stdin_acquire AO_SNAKE TERM_STDIN_MODE_RAW w of (rc, w1) \<Rightarrow>
        if rc = SCHED_OK \<or> rc = SCHED_ERR_EXISTS then snake_render (w1\<lparr>g_snake_restore_needs_stdin_rebind := False\<rparr>) else w1)"

definition snake_task_register :: "u32 \<Rightarrow> u32 \<Rightarrow> event list \<Rightarrow> bool \<Rightarrow> 'a snk_world_scheme \<Rightarrow> int \<times> 'a snk_world_scheme" where
  "snake_task_register fn cx st sched w =
     (if \<not> sched then (SCHED_ERR_PARAM, w)
      else
        let w1 = w\<lparr>g_snake_sched := True\<rparr>;
            w2 = (if \<not> g_snake_state_restored w1 then snake_task_reset_state w1 else w1);
            w3 = w2\<lparr>g_snake_state_restored := False\<rparr>;
            w4 = (if sn_active (g_snake_ctx w3) \<noteq> 0 then w3\<lparr>g_snake_restore_needs_stdin_rebind := True\<rparr> else w3)
        in case sched_register_task (Some \<lparr> ts_id = AO_SNAKE, ts_prio = 2, ts_dispatch = fn, ts_ctx = cx,
               ts_queue_storage = Some st, ts_queue_capacity = 8, ts_rtc_budget_ticks = 1,
               ts_name = Some ''snake'' \<rparr>) w4 of (rc, w5) \<Rightarrow>
             (if rc = SCHED_ERR_EXISTS then SCHED_OK else rc, w5))"

definition snake_task_request_start :: "'a snk_world_scheme \<Rightarrow> int \<times> 'a snk_world_scheme" where
  "snake_task_request_start w =
     (if \<not> g_snake_sched w then (SCHED_ERR_PARAM, w)
      else if g_cmd_bg_ctx w \<noteq> 0 then (SCHED_ERR_DISABLED, w)
      else case terminal_stdin_acquire AO_SNAKE TERM_STDIN_MODE_RAW w of (rc, w1) \<Rightarrow>
        if rc \<noteq> SCHED_OK then (rc, w1)
        else case sched_post AO_SNAKE (Some (sig_event SNAKE_SIG_START)) w1 of (rc, w2) \<Rightarrow>
          if rc \<noteq> SCHED_OK then (rc, snd (terminal_stdin_release AO_SNAKE w2))
          else (SCHED_OK, w2\<lparr>g_snake_restore_needs_stdin_rebind := False, g_cmd_fg_async := 1\<rparr>))"

definition snake_task_systick_hook :: "'a snk_world_scheme \<Rightarrow> 'a snk_world_scheme" where
  "snake_task_systick_hook w =
     (if \<not> g_snake_sched w then w
      else if \<not> snake_registered w
      then (upd_sn (\<lambda>s. s\<lparr>sn_active := 0, sn_next_tick := 0\<rparr>) w)\<lparr>g_snake_tick_pending := False\<rparr>
      else if sn_active (g_snake_ctx w) = 0 \<or> sn_ui_mode (g_snake_ctx w) \<noteq> SNAKE_UI_PLAYING \<or> g_snake_tick_pending w \<or>
        sn_next_tick (g_snake_ctx w) = 0 then w
      else if sint (systick_now w - sn_next_tick (g_snake_ctx w)) < 0 then w
      else case sched_post_isr AO_SNAKE (Some (sig_event SNAKE_SIG_TICK)) w of (rc, w1) \<Rightarrow>
        if rc = SCHED_OK then w1\<lparr>g_snake_tick_pending := True\<rparr> else w1)"

definition snake_restore_get_state_fn :: "bool \<Rightarrow> u32 option \<Rightarrow> 'a snk_world_scheme \<Rightarrow> int \<times> (u8 list \<times> u32) option" where
  "snake_restore_get_state_fn out io_len w =
     (if \<not> out \<or> io_len = None then (SCHED_ERR_PARAM, None)
      else if sn_active (snake_task_get_state w) = 0 then (SCHED_ERR_NOT_FOUND, None)
      else snake_task_encode_state_blob (Some (snake_task_get_state w)) out io_len)"

definition snake_restore_apply_state_fn :: "u8 list option \<Rightarrow> u32 \<Rightarrow> 'a snk_world_scheme \<Rightarrow> int \<times> 'a snk_world_scheme" where
  "snake_restore_apply_state_fn blobp len w =
     (case snake_task_decode_state_blob blobp len of (rc, so) \<Rightarrow>
        if rc \<noteq> SCHED_OK then (rc, w)
        else case snake_task_restore_state so w of (rc, w1) \<Rightarrow>
          if rc \<noteq> SCHED_OK then (rc, w1)
          else if sn_active (g_snake_ctx w1) = 0 then (SCHED_OK, w1)
          else case terminal_stdin_acquire AO_SNAKE TERM_STDIN_MODE_RAW (w1\<lparr>g_snake_restore_needs_stdin_rebind := False\<rparr>) of (rc, w2) \<Rightarrow>
            if rc = SCHED_OK \<or> rc = SCHED_ERR_EXISTS then (SCHED_OK, snake_render w2)
            else (SCHED_OK, w2\<lparr>g_snake_restore_needs_stdin_rebind := True\<rparr>))"


section \<open>The body as a list, tail first\<close>

definition ring_cells :: "snake_cell list \<Rightarrow> nat \<Rightarrow> nat \<Rightarrow> snake_cell list" where
  "ring_cells body h n = map (\<lambda>i. body ! ((h + 241 - n + i) mod 240)) [0..<n]"

definition snake_cells :: "snake_state \<Rightarrow> snake_cell list" where
  "snake_cells s = ring_cells (sn_body s) (unat (sn_head_idx s)) (unat (sn_length s))"

lemma length_ring_cells [simp]: "length (ring_cells body h n) = n"
  by (simp add: ring_cells_def)

lemma nth_ring_cells: "i < n \<Longrightarrow> ring_cells body h n ! i = body ! ((h + 241 - n + i) mod 240)"
  by (simp add: ring_cells_def del: upt_Suc)

lemma ring_index_ne:
  assumes "i < m" "m \<le> 239" "h < 240"
  shows "(h + 241 - m + i) mod 240 \<noteq> (h + 1) mod (240 :: nat)"
proof
  assume e: "(h + 241 - m + i) mod 240 = (h + 1) mod (240 :: nat)"
  have "h + 1 \<le> h + 241 - m + i" using assms by linarith
  then have "240 dvd (h + 241 - m + i) - (h + 1)" using e by (simp add: mod_eq_dvd_iff_nat)
  moreover have "(h + 241 - m + i) - (h + 1) = 240 - m + i" using assms by linarith
  moreover have "0 < 240 - m + i" "240 - m + i < 240" using assms by linarith+
  ultimately show False by (metis dvd_imp_le not_less)
qed

lemma ring_cells_advance:
  assumes "m \<le> 239" "h < 240" "length body = 240"
  shows "ring_cells (body[(h + 1) mod 240 := c]) ((h + 1) mod 240) (Suc m) = ring_cells body h m @ [c]"
proof (rule nth_equalityI)
  fix i assume "i < length (ring_cells (body[(h + 1) mod 240 := c]) ((h + 1) mod 240) (Suc m))"
  then have i: "i < Suc m" by simp
  have idx: "((h + 1) mod 240 + 241 - Suc m + i) mod 240 = (h + 241 - m + i) mod 240"
  proof (cases "h = 239")
    case True
    have e: "239 + 241 - m + i = 240 + (240 - m + i)" "0 + 241 - Suc m + i = 240 - m + i" using assms(1) by linarith+
    have "(239 + 1) mod 240 = (0 :: nat)" by simp
    then show ?thesis unfolding True e(1) by (simp only: e(2) mod_add_self1)
  next
    case False
    then have "(h + 1) mod 240 = h + 1" using assms(2) by simp
    moreover have "h + 1 + 241 - Suc m + i = h + 241 - m + i" by linarith
    ultimately show ?thesis by (simp only:)
  qed
  show "ring_cells (body[(h + 1) mod 240 := c]) ((h + 1) mod 240) (Suc m) ! i = (ring_cells body h m @ [c]) ! i"
  proof (cases "i = m")
    case True
    have "h + 241 - m + m = 240 + (h + 1)" using assms(1) by linarith
    then have "(h + 241 - m + m) mod 240 = (h + 1) mod 240" by (simp only: mod_add_self1)
    then show ?thesis unfolding nth_ring_cells [OF i] idx using True assms(3) by (simp add: nth_append)
  next
    case False
    then have m: "i < m" using i by simp
    have "(h + 1) mod 240 \<noteq> (h + 241 - m + i) mod 240" using ring_index_ne [OF m assms(1,2)] by metis
    note u = nth_list_update_neq [OF this, of body c]
    show ?thesis unfolding nth_ring_cells [OF i] idx u using m
      by (simp only: nth_append nth_ring_cells length_ring_cells if_True)
  qed
qed simp

lemma ring_cells_drop: "m \<le> n \<Longrightarrow> n \<le> 241 \<Longrightarrow> drop (n - m) (ring_cells body h n) = ring_cells body h m"
  by (rule nth_equalityI) (simp_all add: ring_cells_def algebra_simps)

text \<open>The index arithmetic of the code is the arithmetic of \<open>ring_cells\<close>.\<close>

lemma tail_index_nat:
  assumes "unat (sn_head_idx s) < 240" "unat (sn_length s) \<le> 240"
  shows "unat (snake_tail_index s) = (unat (sn_head_idx s) + 241 - unat (sn_length s)) mod 240"
    "snake_state_tail_index s = snake_tail_index s"
proof -
  let ?h = "sn_head_idx s" and ?n = "sn_length s"
  have a: "unat (ucast ?h + 240 + 1 - ucast ?n :: u32) = unat ?h + 241 - unat ?n"
  proof -
    have 1: "unat (ucast ?h + 240 + 1 :: u32) = unat ?h + 241"
      using assms(1) by (simp add: unat_word_ariths)
    have "ucast ?n \<le> (ucast ?h + 240 + 1 :: u32)"
      unfolding word_le_nat_alt 1 using assms(2) by simp
    then show ?thesis using 1 by (simp add: unat_sub)
  qed
  have "unat ((ucast ?h + 240 + 1 - ucast ?n :: u32) mod 240) = (unat ?h + 241 - unat ?n) mod 240"
    unfolding unat_mod a by simp
  moreover have "(unat ?h + 241 - unat ?n) mod 240 < 256" using mod_less_divisor [of 240 "unat ?h + 241 - unat ?n"] by linarith
  ultimately show "unat (snake_tail_index s) = (unat ?h + 241 - unat ?n) mod 240"
    by (simp only: snake_tail_index_def unat_ucast_u32_u8)
qed (simp add: snake_tail_index_def snake_state_tail_index_def)


lemma ring_index_u32:
  assumes "unat t < 240" "i < 256"
  shows "unat ((ucast (t :: u8) + of_nat i :: u32) mod 240) = (unat t + i) mod 240"
    "unat (ucast ((ucast t + of_nat i :: u32) mod 240) :: u8) = (unat t + i) mod 240"
proof -
  have "unat (of_nat i :: u32) = i" using assms(2) by (simp add: unat_of_nat)
  then have "unat (ucast t + of_nat i :: u32) = unat t + i" using assms by (simp add: unat_word_ariths)
  then show 1: "unat ((ucast t + of_nat i :: u32) mod 240) = (unat t + i) mod 240" unfolding unat_mod by simp
  have "(unat t + i) mod 240 < 256" using mod_less_divisor [of 240 "unat t + i"] by linarith
  then show "unat (ucast ((ucast t + of_nat i :: u32) mod 240) :: u8) = (unat t + i) mod 240"
    using 1 by (simp only: unat_ucast_u32_u8)
qed

text \<open>What the code relies on: the sizes of the arrays and the ranges of the two indices.\<close>

definition snake_sized :: "snake_state \<Rightarrow> bool" where
  "snake_sized s \<longleftrightarrow> length (sn_body s) = 240 \<and> length (sn_reserved0 s) = 3 \<and> unat (sn_head_idx s) < 240 \<and> unat (sn_length s) \<le> 240"

lemma snake_cell_nth:
  assumes "snake_sized s" "i < unat (sn_length s)"
  shows "snake_body_cell_from_tail s i = snake_cells s ! i" "valid_cell s i = snake_cells s ! i"
proof -
  let ?t = "snake_tail_index s"
  have b: "unat (sn_head_idx s) < 240" "unat (sn_length s) \<le> 240" using assms(1) by (simp_all add: snake_sized_def)
  note t = tail_index_nat [OF b]
  have "unat ?t < 240" using t(1) by simp
  moreover have "i < 256" using assms(2) b(2) by linarith
  ultimately have r: "unat ((ucast ?t + of_nat i :: u32) mod 240) = (unat ?t + i) mod 240"
    "unat (ucast ((ucast ?t + of_nat i :: u32) mod 240) :: u8) = (unat ?t + i) mod 240" by (rule ring_index_u32)+
  have "(unat ?t + i) mod 240 = (unat (sn_head_idx s) + 241 - unat (sn_length s) + i) mod 240"
    unfolding t(1) by (rule mod_add_left_eq)
  with r show "snake_body_cell_from_tail s i = snake_cells s ! i" "valid_cell s i = snake_cells s ! i"
    unfolding snake_body_cell_from_tail_def valid_cell_def snake_cells_def Let_def nth_ring_cells [OF assms(2)] t(2)
    by simp_all
qed

lemma snake_cells_map: "snake_sized s \<Longrightarrow> map (snake_body_cell_from_tail s) [0..<unat (sn_length s)] = snake_cells s"
  by (rule nth_equalityI) (simp_all add: snake_cell_nth, simp_all add: snake_cells_def)

lemma snake_occupied:
  assumes "snake_sized s"
  shows "snake_cell_occupied s x y ign \<longleftrightarrow> \<lparr> cell_x = x, cell_y = y \<rparr> \<in> set (drop (if ign then 1 else 0) (snake_cells s))"
proof -
  have e: "(cell_x c = x \<and> cell_y c = y) \<longleftrightarrow> c = \<lparr> cell_x = x, cell_y = y \<rparr>" for c by auto
  have "snake_cell_occupied s x y ign \<longleftrightarrow>
    \<lparr> cell_x = x, cell_y = y \<rparr> \<in> set (map (snake_body_cell_from_tail s) [(if ign then 1 else 0)..<unat (sn_length s)])"
    by (simp add: snake_cell_occupied_def list_ex_iff Let_def e image_iff) metis
  also have "map (snake_body_cell_from_tail s) [(if ign then 1 else 0)..<unat (sn_length s)] =
    drop (if ign then 1 else 0) (snake_cells s)"
    unfolding snake_cells_map [OF assms, symmetric] by (simp add: drop_map)
  finally show ?thesis .
qed

definition on_board :: "snake_cell \<Rightarrow> bool" where
  "on_board c \<longleftrightarrow> cell_x c < 20 \<and> cell_y c < 12"

text \<open>\<open>snake_state_valid\<close> in terms of the list: all cells on the board and distinct.\<close>

definition snake_ranges :: "snake_state \<Rightarrow> bool" where
  "snake_ranges s \<longleftrightarrow> sn_active s \<le> 1 \<and> sn_ui_mode s \<in> {1..4} \<and> sn_dir s \<in> {1..4} \<and> sn_pending_dir s \<in> {1..4} \<and>
     (on_board \<lparr> cell_x = sn_food_x s, cell_y = sn_food_y s \<rparr> \<or> sn_ui_mode s = 4 \<and> sn_game_over_reason s = 3) \<and>
     sn_game_over_reason s \<le> 3 \<and> (sn_active s \<noteq> 0 \<longrightarrow> sn_ui_mode s \<noteq> 1 \<longrightarrow> sn_length s \<noteq> 0)"

lemma snake_valid_iff:
  assumes "snake_sized s"
  shows "snake_state_valid s \<longleftrightarrow> snake_ranges s \<and> list_all on_board (snake_cells s) \<and> distinct (snake_cells s)"
proof -
  let ?n = "unat (sn_length s)" and ?c = "snake_cells s"
  have l: "length ?c = ?n" by (simp add: snake_cells_def)
  have b: "\<not> ucast (sn_length s) > (240 :: u32)" "\<not> ucast (sn_head_idx s) \<ge> (240 :: u32)"
    using assms by (simp_all add: snake_sized_def word_less_nat_alt word_le_nat_alt)
  have eq: "cell_x a = cell_x c \<and> cell_y a = cell_y c \<longleftrightarrow> a = c" for a c :: snake_cell by auto
  define P where "P \<longleftrightarrow> list_all (\<lambda>i. \<not> (cell_x (valid_cell s i) \<ge> 20 \<or> cell_y (valid_cell s i) \<ge> 12) \<and>
        list_all (\<lambda>j. \<not> (cell_x (valid_cell s i) = cell_x (valid_cell s j) \<and> cell_y (valid_cell s i) = cell_y (valid_cell s j)))
          [i + 1..<?n]) [0..<?n]"
  have loops: "P \<longleftrightarrow> (\<forall>i<?n. on_board (?c ! i)) \<and> (\<forall>i<?n. \<forall>j<?n. i < j \<longrightarrow> ?c ! i \<noteq> ?c ! j)"
    unfolding P_def using snake_cell_nth(2) [OF assms] by (auto simp: list_all_iff on_board_def not_le eq Suc_le_eq)
  have d: "(\<forall>i<?n. \<forall>j<?n. i < j \<longrightarrow> ?c ! i \<noteq> ?c ! j) \<longleftrightarrow> distinct ?c"
    unfolding distinct_conv_nth l by (fastforce simp: nat_neq_iff)
  have "snake_state_valid s \<longleftrightarrow> snake_ranges s \<and> P"
    unfolding snake_state_valid_def P_def [symmetric] snake_ranges_def snake_dir_valid_def on_board_def
    using b by (auto simp only: not_less not_le de_Morgan_disj atLeastAtMost_iff snake_cell.select_convs split: if_splits)
  then show ?thesis using loops d by (simp add: list_all_length l)
qed


section \<open>Food\<close>

lemma probe_nat:
  assumes "unat start < 240" "step < 240"
  shows "unat ((start + of_nat step * 97) mod 240 :: u32) = (unat start + step * 97) mod 240"
proof -
  have s: "unat (of_nat step :: u32) = step" using assms(2) by (simp add: unat_of_nat)
  have "unat (of_nat step * 97 :: u32) = step * 97" using unat_mult_small [of "of_nat step" 97] s assms(2) by simp
  then have "unat (start + of_nat step * 97) = unat start + step * 97"
    using unat_add_small [of start "of_nat step * 97"] assms by simp
  then show ?thesis unfolding unat_mod by simp
qed

lemma probe_cell_nat:
  assumes "unat start < 240" "step < 240" "k = (unat start + step * 97) mod 240"
  shows "unat (fst (probe_cell start step)) = k mod 20" "unat (snd (probe_cell start step)) = k div 20"
proof -
  let ?i = "(start + of_nat step * 97) mod 240 :: u32"
  have i: "unat ?i = k" using probe_nat [OF assms(1,2)] assms(3) by simp
  have k: "k < 240" using assms(3) by simp
  have "unat (?i mod 20) = unat ?i mod unat (20 :: u32)" "unat (?i div 20) = unat ?i div unat (20 :: u32)"
    by (rule unat_mod unat_div)+
  then have "unat (?i mod 20) = k mod 20" "unat (?i div 20) = k div 20" unfolding i by simp_all
  moreover have "k mod 20 < 256" "k div 20 < 256" using k by (simp_all add: less_mult_imp_div_less order_less_trans [OF mod_less_divisor])
  ultimately show "unat (fst (probe_cell start step)) = k mod 20" "unat (snd (probe_cell start step)) = k div 20"
    by (simp_all only: probe_cell_def Let_def fst_conv snd_conv unat_ucast_u32_u8)
qed

text \<open>97 is invertible modulo 240, so the 240 probes visit every cell of the board.\<close>

lemma probe_covers_board:
  assumes "unat start < 240" "on_board c"
  shows "\<exists>step<240. probe_cell start step = (cell_x c, cell_y c)"
proof -
  define t where "t = unat (cell_x c) + 20 * unat (cell_y c)"
  have xy: "unat (cell_x c) < 20" "unat (cell_y c) < 12" using assms(2) by (simp_all add: on_board_def word_less_nat_alt)
  have t: "t < 240" unfolding t_def using xy by linarith
  define step where "step = ((t + 240 - unat start) * 193) mod 240"
  have "(unat start + step * 97) mod 240 = (unat start + (t + 240 - unat start) * 193 * 97) mod 240"
    unfolding step_def by (metis mod_add_right_eq mod_mult_left_eq)
  also have "unat start + (t + 240 - unat start) * 193 * 97 = (t + 240) + 240 * ((t + 240 - unat start) * 78)"
    using assms(1) t by (simp add: algebra_simps)
  also have "\<dots> mod 240 = t" unfolding mod_mult_self2 using t by simp
  finally have k: "t = (unat start + step * 97) mod 240" by simp
  have s: "step < 240" by (simp add: step_def)
  have "unat (fst (probe_cell start step)) = unat (cell_x c)" "unat (snd (probe_cell start step)) = unat (cell_y c)"
    using probe_cell_nat [OF assms(1) s k] xy by (simp_all add: t_def)
  then have "probe_cell start step = (cell_x c, cell_y c)" by (simp add: prod_eq_iff word_unat_eq_iff)
  with s show ?thesis by blast
qed

definition food_cell :: "snake_state \<Rightarrow> snake_cell" where
  "food_cell s = \<lparr> cell_x = sn_food_x s, cell_y = sn_food_y s \<rparr>"

definition all_cells :: "snake_cell list" where
  "all_cells = map (\<lambda>k. \<lparr> cell_x = of_nat (k mod 20), cell_y = of_nat (k div 20) \<rparr>) [0..<240]"

lemma all_cells:
  shows "length all_cells = 240" "distinct all_cells" "list_all on_board all_cells"
proof -
  show "length all_cells = 240" by (simp add: all_cells_def)
  have u: "unat (of_nat (k mod 20) :: u8) = k mod 20" "k < 240 \<Longrightarrow> unat (of_nat (k div 20) :: u8) = k div 20" for k
  proof -
    have "k mod 20 < 256" by (rule order_less_trans [OF mod_less_divisor]) simp_all
    then show "unat (of_nat (k mod 20) :: u8) = k mod 20" by (simp add: unat_of_nat)
    assume "k < 240"
    then have "k div 20 < 256" by (simp add: less_mult_imp_div_less)
    then show "unat (of_nat (k div 20) :: u8) = k div 20" by (simp add: unat_of_nat)
  qed
  show "distinct all_cells"
  proof (unfold all_cells_def distinct_map, intro conjI inj_onI)
    fix j k assume "j \<in> set [0..<240]" "k \<in> set [0..<240 :: nat]"
    then have jk: "j < 240" "k < 240" by simp_all
    assume "\<lparr> cell_x = of_nat (j mod 20), cell_y = of_nat (j div 20) \<rparr> = \<lparr> cell_x = (of_nat (k mod 20) :: u8), cell_y = (of_nat (k div 20) :: u8) \<rparr>"
    then have "(of_nat (j mod 20) :: u8) = of_nat (k mod 20)" "(of_nat (j div 20) :: u8) = of_nat (k div 20)" by simp_all
    then have "j mod 20 = k mod 20" "j div 20 = k div 20" using u jk by metis+
    then show "j = k" by (metis div_mult_mod_eq)
  qed simp
  have "on_board \<lparr> cell_x = of_nat (k mod 20), cell_y = of_nat (k div 20) \<rparr>" if "k < 240" for k
    using that u [of k] by (simp add: on_board_def word_less_nat_alt less_mult_imp_div_less)
  then show "list_all on_board all_cells" by (simp add: all_cells_def list_all_iff)
qed

text \<open>While the snake does not fill the board, the food lands on a free cell.\<close>

lemma spawn_food_free:
  assumes "snake_sized s" "unat (sn_length s) < 240"
  shows "\<exists>x y. snake_spawn_food s = s\<lparr>sn_food_x := x, sn_food_y := y\<rparr> \<and> on_board \<lparr> cell_x = x, cell_y = y \<rparr> \<and>
    \<lparr> cell_x = x, cell_y = y \<rparr> \<notin> set (snake_cells s)"
proof -
  define start where "start = snake_seed s mod 240"
  have st: "unat start < 240" by (simp add: start_def unat_mod)
  let ?free = "\<lambda>step. \<not> snake_cell_occupied s (fst (probe_cell start step)) (snd (probe_cell start step)) False"
  have "\<not> set all_cells \<subseteq> set (snake_cells s)"
  proof
    assume "set all_cells \<subseteq> set (snake_cells s)"
    then have "card (set all_cells) \<le> length (snake_cells s)" by (meson card_mono card_length finite_set order_trans)
    then show False using assms(2) all_cells(1,2) by (simp add: distinct_card snake_cells_def)
  qed
  then obtain c where c: "c \<in> set all_cells" "c \<notin> set (snake_cells s)" by blast
  then have "on_board c" using all_cells(3) by (simp add: list_all_iff)
  with probe_covers_board [OF st] obtain k where "k < 240" "probe_cell start k = (cell_x c, cell_y c)" by blast
  with c(2) have "?free k" unfolding snake_occupied [OF assms(1)] by (cases c) simp
  with \<open>k < 240\<close> have "find ?free [0..<240] \<noteq> None" by (auto simp: find_None_iff)
  then obtain step where f: "find ?free [0..<240] = Some step" by blast
  then have step: "step < 240" "?free step" by (auto simp: find_Some_iff)
  obtain x y where xy: "probe_cell start step = (x, y)" by fastforce
  have "unat x = (unat start + step * 97) mod 240 mod 20" "unat y = (unat start + step * 97) mod 240 div 20"
    using probe_cell_nat [OF st step(1) refl] xy by simp_all
  then have "on_board \<lparr> cell_x = x, cell_y = y \<rparr>"
    by (simp add: on_board_def word_less_nat_alt less_mult_imp_div_less)
  moreover have "\<lparr> cell_x = x, cell_y = y \<rparr> \<notin> set (snake_cells s)"
    using step(2) xy snake_occupied [OF assms(1)] by simp
  moreover have "snake_spawn_food s = s\<lparr>sn_food_x := x, sn_food_y := y\<rparr>"
    using f xy by (simp add: snake_spawn_food_def start_def [symmetric] Let_def)
  ultimately show ?thesis by blast
qed


section \<open>A step of the game\<close>

definition snake_inv :: "snake_state \<Rightarrow> bool" where
  "snake_inv s \<longleftrightarrow> snake_sized s \<and> snake_state_valid s"

lemma snake_inv_iff:
  "snake_inv s \<longleftrightarrow> snake_sized s \<and> snake_ranges s \<and> list_all on_board (snake_cells s) \<and> distinct (snake_cells s)"
  using snake_valid_iff by (auto simp: snake_inv_def)

lemma length_snake_cells [simp]: "length (snake_cells s) = unat (sn_length s)"
  by (simp add: snake_cells_def)

text \<open>The state after a step, without the output.\<close>

definition snake_over :: "u8 \<Rightarrow> snake_state \<Rightarrow> snake_state" where
  "snake_over reason s = s\<lparr>sn_ui_mode := SNAKE_UI_GAME_OVER, sn_game_over_reason := reason, sn_next_tick := 0\<rparr>"

definition snake_timed :: "u32 \<Rightarrow> snake_state \<Rightarrow> snake_state" where
  "snake_timed now s = s\<lparr>sn_next_tick := now + sn_tick_interval_ms s\<rparr>"

definition snake_moved :: "u32 \<Rightarrow> u8 \<Rightarrow> u8 \<Rightarrow> snake_state \<Rightarrow> snake_state" where
  "snake_moved now x y s =
     (let grow = (sn_food_x s = x \<and> sn_food_y s = y) in
      if snake_cell_occupied s x y (\<not> grow) then snake_over SNAKE_GAME_OVER_SELF s
      else if grow
      then let s3 = snake_grow (snake_advance x y s) in
           if ucast (sn_length s3) \<ge> SNAKE_MAX_CELLS then snake_over SNAKE_GAME_OVER_WIN s3
           else let s4 = snake_spawn_food s3 in if sn_ui_mode s4 = SNAKE_UI_GAME_OVER then s4 else snake_timed now s4
      else snake_timed now (snake_advance x y s))"

definition snake_next :: "u32 \<Rightarrow> snake_state \<Rightarrow> snake_state" where
  "snake_next now s1 =
     (if sn_active s1 = 0 \<or> sn_ui_mode s1 \<noteq> SNAKE_UI_PLAYING \<or> sn_length s1 = 0 then s1
      else let s = snake_turn s1 in
           case snake_ahead s of None \<Rightarrow> snake_over SNAKE_GAME_OVER_WALL s | Some (x, y) \<Rightarrow> snake_moved now x y s)"

lemma con_more_snake: "con_world.more w' = con_world.more w \<Longrightarrow> g_snake_ctx w' = g_snake_ctx w"
  by (cases w; cases w') simp

lemma upd_sn_sel [simp]: "g_snake_ctx (upd_sn f w) = f (g_snake_ctx w)" "systick_now (upd_sn f w) = systick_now w"
  by (simp_all add: upd_sn_def systick_now_def)

lemma snake_ctx_render [simp]: "g_snake_ctx (snake_render w) = g_snake_ctx w"
proof -
  have "g_snake_ctx (snd (console_write b n (w\<lparr>g_snake_render_buf := x, g_snake_full_redraw := False\<rparr>))) = g_snake_ctx w" for b n x
    using con_more_snake [OF console_write_more, of b n "w\<lparr>g_snake_render_buf := x, g_snake_full_redraw := False\<rparr>"] by simp
  then show ?thesis by (simp add: snake_render_def Let_def split: prod.split)
qed

lemma snake_ctx_over [simp]: "g_snake_ctx (snake_game_over r w) = snake_over r (g_snake_ctx w)"
  by (simp add: snake_game_over_def snake_over_def)

lemma snake_ctx_next_step [simp]: "g_snake_ctx (snake_next_step w) = snake_timed (systick_now w) (g_snake_ctx w)"
  by (simp add: snake_next_step_def snake_timed_def)

lemma snake_ctx_step: "g_snake_ctx (snake_step w) = snake_next (systick_now w) (g_snake_ctx w)"
proof -
  have t: "systick_now (w\<lparr>g_snake_tick_pending := False\<rparr>) = systick_now w" by (simp add: systick_now_def)
  show ?thesis by (simp add: snake_step_def snake_next_def snake_moved_def Let_def t split: option.split prod.split)
qed

text \<open>The reference game: the cells tail first, the food, the cell in front of the head.\<close>

definition dir_dx :: "u8 \<Rightarrow> int" where
  "dir_dx d = (if d = SNAKE_DIR_RIGHT then 1 else if d = SNAKE_DIR_LEFT then -1 else 0)"

definition dir_dy :: "u8 \<Rightarrow> int" where
  "dir_dy d = (if d = SNAKE_DIR_DOWN then 1 else if d = SNAKE_DIR_UP then -1 else 0)"

definition cell_ahead :: "u8 \<Rightarrow> snake_cell \<Rightarrow> snake_cell option" where
  "cell_ahead d c =
     (let x = int (unat (cell_x c)) + dir_dx d; y = int (unat (cell_y c)) + dir_dy d in
      if 0 \<le> x \<and> x < 20 \<and> 0 \<le> y \<and> y < 12 then Some \<lparr> cell_x = of_int x, cell_y = of_int y \<rparr> else None)"

datatype outcome = Crash u8 | Moves "snake_cell list"

definition game_step :: "snake_cell list \<Rightarrow> snake_cell \<Rightarrow> snake_cell option \<Rightarrow> outcome" where
  "game_step cells food front =
     (case front of
        None \<Rightarrow> Crash SNAKE_GAME_OVER_WALL
      | Some c \<Rightarrow>
          if c = food
          then if c \<in> set cells then Crash SNAKE_GAME_OVER_SELF else Moves (cells @ [c])
          else if c \<in> set (tl cells) then Crash SNAKE_GAME_OVER_SELF else Moves (tl cells @ [c]))"

lemma snake_head:
  assumes "snake_sized s" "sn_length s \<noteq> 0"
  shows "snake_cells s \<noteq> []" "last (snake_cells s) = sn_body s ! unat (sn_head_idx s)"
proof -
  have n: "0 < unat (sn_length s)" "unat (sn_length s) \<le> 240" "unat (sn_head_idx s) < 240"
    using assms by (simp_all add: snake_sized_def unat_gt_0)
  then show ne: "snake_cells s \<noteq> []" by (metis length_0_conv length_snake_cells less_numeral_extra(3))
  have i: "unat (sn_length s) - 1 < unat (sn_length s)" using n by simp
  have "unat (sn_head_idx s) + 241 - unat (sn_length s) + (unat (sn_length s) - 1) = 240 + unat (sn_head_idx s)" using n by linarith
  then have "(unat (sn_head_idx s) + 241 - unat (sn_length s) + (unat (sn_length s) - 1)) mod 240 = unat (sn_head_idx s)"
    using n(3) by simp
  then show "last (snake_cells s) = sn_body s ! unat (sn_head_idx s)"
    using last_conv_nth [OF ne] nth_ring_cells [OF i, of "sn_body s" "unat (sn_head_idx s)"]
    by (simp only: length_snake_cells snake_cells_def length_ring_cells)
qed

lemma dir_cases:
  assumes "(d :: u8) \<in> {1..4}"
  obtains "d = 1" | "d = 2" | "d = 3" | "d = 4"
proof -
  have "unat d \<in> {1..4}" using assms by (simp add: word_le_nat_alt)
  then have "unat d = 1 \<or> unat d = 2 \<or> unat d = 3 \<or> unat d = 4" by auto
  then show thesis using that by (auto simp: word_unat_eq_iff)
qed

lemma snake_ahead_cell:
  assumes "on_board (sn_body s ! unat (sn_head_idx s))" "sn_dir s \<in> {1..4}"
  shows "cell_ahead (sn_dir s) (sn_body s ! unat (sn_head_idx s)) = map_option (\<lambda>(x, y). \<lparr> cell_x = x, cell_y = y \<rparr>) (snake_ahead s)"
proof -
  let ?c = "sn_body s ! unat (sn_head_idx s)"
  let ?x = "cell_x ?c" and ?y = "cell_y ?c"
  have b: "unat ?x < 20" "unat ?y < 12" using assms(1) by (simp_all add: on_board_def word_less_nat_alt)
  have p: "unat (?x + 1) = unat ?x + 1" "unat (?y + 1) = unat ?y + 1" using b by (simp_all add: unat_word_ariths)
  have u: "uint (?x + 1) = uint ?x + 1" "uint (?y + 1) = uint ?y + 1"
    using arg_cong [OF p(1), of int] arg_cong [OF p(2), of int] by simp_all
  have z: "v = 0 \<longleftrightarrow> \<not> 0 \<le> uint v - 1" for v :: u8
  proof -
    have "0 \<le> uint v" by simp
    then have "uint v = 0 \<longleftrightarrow> \<not> 0 \<le> uint v - 1" by linarith
    then show ?thesis by (simp only: word_uint_eq_iff unsigned_0)
  qed
  have le: "20 \<le> ?x + 1 \<longleftrightarrow> \<not> uint ?x + 1 < 20" "12 \<le> ?y + 1 \<longleftrightarrow> \<not> uint ?y + 1 < 12"
    "?x = 0 \<longleftrightarrow> \<not> 0 \<le> uint ?x - 1" "?y = 0 \<longleftrightarrow> \<not> 0 \<le> uint ?y - 1"
    by (rule z | simp add: word_le_def u not_less)+
  have b: "uint ?x < 20" "uint ?y < 12" using assms(1) by (simp_all add: on_board_def word_less_def)
  show ?thesis
    using assms(2)
    by (cases rule: dir_cases)
       (use b le in \<open>simp_all add: cell_ahead_def snake_ahead_def dir_dx_def dir_dy_def Let_def\<close>)
qed


lemma snake_new_head:
  assumes "unat (h :: u8) < 240"
  shows "unat (ucast ((ucast h + 1 :: u32) mod 240) :: u8) = (unat h + 1) mod 240"
  using ring_index_u32(2) [OF assms, of 1] by simp

lemma snake_advance_cells:
  assumes "snake_sized s" "m \<le> unat (sn_length s)" "m \<le> 239"
    "t = (snake_advance x y s)\<lparr>sn_length := n, sn_score := sc\<rparr>" "unat n = Suc m"
  shows "snake_sized t" "snake_cells t = drop (unat (sn_length s) - m) (snake_cells s) @ [\<lparr> cell_x = x, cell_y = y \<rparr>]"
proof -
  have z: "unat (sn_head_idx s) < 240" "length (sn_body s) = 240" "unat (sn_length s) \<le> 240" using assms(1) by (simp_all add: snake_sized_def)
  note h = snake_new_head [OF z(1)]
  show "snake_sized t" using assms(1,3,5) h by (simp add: assms(4) snake_sized_def snake_advance_def Let_def)
  have "snake_cells t = ring_cells ((sn_body s)[(unat (sn_head_idx s) + 1) mod 240 := \<lparr> cell_x = x, cell_y = y \<rparr>])
      ((unat (sn_head_idx s) + 1) mod 240) (Suc m)"
    using h assms(5) by (simp add: assms(4) snake_cells_def snake_advance_def Let_def del: Suc_eq_plus1)
  also have "\<dots> = ring_cells (sn_body s) (unat (sn_head_idx s)) m @ [\<lparr> cell_x = x, cell_y = y \<rparr>]"
    by (rule ring_cells_advance [OF assms(3) z(1,2)])
  also have "ring_cells (sn_body s) (unat (sn_head_idx s)) m = drop (unat (sn_length s) - m) (snake_cells s)"
    using ring_cells_drop [OF assms(2)] z(3) by (simp add: snake_cells_def)
  finally show "snake_cells t = drop (unat (sn_length s) - m) (snake_cells s) @ [\<lparr> cell_x = x, cell_y = y \<rparr>]" .
qed

lemma snake_move_cells:
  assumes "snake_sized s" "sn_length s \<noteq> 0"
  shows "snake_sized (snake_advance x y s)" "snake_cells (snake_advance x y s) = tl (snake_cells s) @ [\<lparr> cell_x = x, cell_y = y \<rparr>]"
proof -
  have n: "unat (sn_length s) = Suc (unat (sn_length s) - 1)" "unat (sn_length s) - 1 \<le> 239"
    using assms by (auto simp add: snake_sized_def unat_gt_0)
  have t: "snake_advance x y s = (snake_advance x y s)\<lparr>sn_length := sn_length s, sn_score := sn_score s\<rparr>"
    by (simp add: snake_advance_def Let_def)
  note a = snake_advance_cells [OF assms(1) _ n(2) t n(1)]
  show "snake_sized (snake_advance x y s)" by (rule a) simp
  have "unat (sn_length s) - (unat (sn_length s) - 1) = 1" using n(1) by linarith
  with a(2) show "snake_cells (snake_advance x y s) = tl (snake_cells s) @ [\<lparr> cell_x = x, cell_y = y \<rparr>]"
    by (simp add: drop_Suc)
qed

lemma snake_grow_cells:
  assumes "snake_sized s" "unat (sn_length s) < 240"
  shows "snake_sized (snake_grow (snake_advance x y s))"
    "snake_cells (snake_grow (snake_advance x y s)) = snake_cells s @ [\<lparr> cell_x = x, cell_y = y \<rparr>]"
    "unat (sn_length (snake_grow (snake_advance x y s))) = Suc (unat (sn_length s))"
proof -
  have lt: "ucast (sn_length s) < (240 :: u32)" using assms(2) by (simp add: word_less_nat_alt)
  have n: "unat (sn_length s + 1) = Suc (unat (sn_length s))" using assms(2) by (simp add: unat_word_ariths)
  have t: "snake_grow (snake_advance x y s) = (snake_advance x y s)\<lparr>sn_length := sn_length s + 1, sn_score := sn_score s + 1\<rparr>"
    using lt by (simp add: snake_grow_def snake_advance_def Let_def)
  have m: "unat (sn_length s) \<le> 239" using assms(2) by simp
  note a = snake_advance_cells [OF assms(1) order_refl m t n]
  show "snake_sized (snake_grow (snake_advance x y s))" by (rule a)
  show "snake_cells (snake_grow (snake_advance x y s)) = snake_cells s @ [\<lparr> cell_x = x, cell_y = y \<rparr>]" using a(2) by simp
  show "unat (sn_length (snake_grow (snake_advance x y s))) = Suc (unat (sn_length s))" by (simp add: t n)
qed

lemma snake_cells_upd [simp]:
  "snake_cells (s\<lparr>sn_food_x := a, sn_food_y := b\<rparr>) = snake_cells s" "snake_cells (snake_over r s) = snake_cells s"
  "snake_cells (snake_timed now s) = snake_cells s" "snake_cells (snake_turn s) = snake_cells s"
  "snake_cells (s\<lparr>sn_active := c\<rparr>) = snake_cells s"
  by (simp_all add: snake_cells_def snake_over_def snake_timed_def snake_turn_def)

lemma snake_sized_upd [simp]:
  "snake_sized (s\<lparr>sn_food_x := a, sn_food_y := b\<rparr>) = snake_sized s" "snake_sized (snake_over r s) = snake_sized s"
  "snake_sized (snake_timed now s) = snake_sized s" "snake_sized (snake_turn s) = snake_sized s"
  by (simp_all add: snake_sized_def snake_over_def snake_timed_def snake_turn_def)


lemma on_board_all_cells: "on_board c \<Longrightarrow> c \<in> set all_cells"
proof -
  assume b: "on_board c"
  let ?k = "unat (cell_x c) + 20 * unat (cell_y c)"
  have xy: "unat (cell_x c) < 20" "unat (cell_y c) < 12" using b by (simp_all add: on_board_def word_less_nat_alt)
  then have "?k < 240" "?k mod 20 = unat (cell_x c)" "?k div 20 = unat (cell_y c)" by simp_all
  then have "\<lparr> cell_x = of_nat (?k mod 20), cell_y = of_nat (?k div 20) \<rparr> = c" "?k \<in> set [0..<240]" by simp_all
  then show ?thesis unfolding all_cells_def set_map by (metis (no_types, lifting) image_eqI)
qed

lemma full_board:
  assumes "distinct cs" "list_all on_board cs" "length cs = 240" "on_board c"
  shows "c \<in> set cs"
proof -
  have "set cs \<subseteq> set all_cells" using assms(2) on_board_all_cells by (auto simp: list_all_iff)
  moreover have "card (set cs) = card (set all_cells)" using assms(1,3) all_cells(1,2) by (simp add: distinct_card)
  ultimately have "set cs = set all_cells" by (simp add: card_subset_eq)
  with on_board_all_cells [OF assms(4)] show ?thesis by simp
qed

lemma cell_ahead_on_board: "cell_ahead d c = Some c' \<Longrightarrow> on_board c'"
proof -
  assume a: "cell_ahead d c = Some c'"
  define x where "x = int (unat (cell_x c)) + dir_dx d"
  define y where "y = int (unat (cell_y c)) + dir_dy d"
  have c': "0 \<le> x" "x < 20" "0 \<le> y" "y < 12" "c' = \<lparr> cell_x = of_int x, cell_y = of_int y \<rparr>"
    using a by (auto simp: cell_ahead_def Let_def x_def y_def split: if_splits)
  have "uint (of_int x :: u8) = x" "uint (of_int y :: u8) = y"
    using c' by (simp_all add: uint_word_of_int)
  then show ?thesis using c' by (simp add: on_board_def word_less_def)
qed

lemma snake_turn_ranges: "snake_ranges s \<Longrightarrow> snake_ranges (snake_turn s)"
  by (simp add: snake_ranges_def snake_turn_def)

lemma snake_turn_sel [simp]:
  "sn_body (snake_turn s) = sn_body s" "sn_head_idx (snake_turn s) = sn_head_idx s" "sn_length (snake_turn s) = sn_length s"
  "food_cell (snake_turn s) = food_cell s" "sn_score (snake_turn s) = sn_score s" "sn_ui_mode (snake_turn s) = sn_ui_mode s"
  "sn_food_x (snake_turn s) = sn_food_x s" "sn_food_y (snake_turn s) = sn_food_y s"
  by (simp_all add: snake_turn_def food_cell_def)

lemma snake_advance_sel [simp]:
  "sn_ui_mode (snake_advance x y s) = sn_ui_mode s" "sn_score (snake_advance x y s) = sn_score s"
  "food_cell (snake_advance x y s) = food_cell s" "sn_length (snake_advance x y s) = sn_length s"
  by (simp_all add: snake_advance_def food_cell_def Let_def)

text \<open>What one move does, by the cell in front.\<close>

lemma snake_moved_game:
  assumes "snake_sized s" "list_all on_board (snake_cells s)" "distinct (snake_cells s)" "sn_length s \<noteq> 0"
    "sn_ui_mode s = SNAKE_UI_PLAYING" "c = \<lparr> cell_x = x, cell_y = y \<rparr>" "on_board c" "s' = snake_moved now x y s"
  shows "case game_step (snake_cells s) (food_cell s) (Some c) of
      Crash r \<Rightarrow> s' = snake_over r s
    | Moves cs \<Rightarrow> snake_sized s' \<and> snake_cells s' = cs \<and> sn_score s' = sn_score s + of_nat (length cs - length (snake_cells s)) \<and>
        (if length cs = length (snake_cells s) then s' = snake_timed now (snake_advance x y s)
         else if length cs = 240 then s' = snake_over SNAKE_GAME_OVER_WIN (snake_grow (snake_advance x y s))
         else \<exists>fx fy. s' = snake_timed now ((snake_grow (snake_advance x y s))\<lparr>sn_food_x := fx, sn_food_y := fy\<rparr>) \<and>
              on_board (food_cell s') \<and> food_cell s' \<notin> set cs)"
proof (cases "c = food_cell s")
  case False
  then have g: "\<not> (sn_food_x s = x \<and> sn_food_y s = y)" using assms(6) by (auto simp: food_cell_def)
  note m = snake_move_cells [OF assms(1,4), of x y]
  have ne: "snake_cells s \<noteq> []" using snake_head(1) [OF assms(1,4)] .
  have occ: "snake_cell_occupied s x y True \<longleftrightarrow> c \<in> set (tl (snake_cells s))"
    using snake_occupied [OF assms(1), of x y True] by (simp add: assms(6) drop_Suc)
  show ?thesis
  proof (cases "c \<in> set (tl (snake_cells s))")
    case hit: True
    with False g occ show ?thesis by (simp add: assms(8) snake_moved_def game_step_def)
  next
    case free: False
    then have s': "s' = snake_timed now (snake_advance x y s)" using g occ by (auto simp: assms(8) snake_moved_def)
    have gs: "game_step (snake_cells s) (food_cell s) (Some c) = Moves (tl (snake_cells s) @ [c])"
      using False free by (simp add: game_step_def)
    have "length (tl (snake_cells s) @ [c]) = length (snake_cells s)" using ne by (cases "snake_cells s") simp_all
    moreover have "sn_score s' = sn_score s" by (simp add: s' snake_timed_def)
    ultimately show ?thesis using m s' unfolding gs by (simp add: assms(6) [symmetric])
  qed
next
  case True
  then have g: "sn_food_x s = x \<and> sn_food_y s = y" using assms(6) by (simp add: food_cell_def)
  show ?thesis
  proof (cases "c \<in> set (snake_cells s)")
    case occ: True
    with True g snake_occupied [OF assms(1), of x y False] show ?thesis
      by (simp add: assms(8) snake_moved_def game_step_def assms(6) [symmetric])
  next
    case free: False
    have n: "unat (sn_length s) < 240"
    proof (rule ccontr)
      assume "\<not> unat (sn_length s) < 240"
      then have "length (snake_cells s) = 240" using assms(1) by (simp add: snake_sized_def)
      with full_board [OF assms(3,2) _ assms(7)] free show False by simp
    qed
    let ?t = "snake_grow (snake_advance x y s)"
    note gr = snake_grow_cells [OF assms(1) n, of x y]
    have sc: "sn_score ?t = sn_score s + 1" "sn_ui_mode ?t = SNAKE_UI_PLAYING" using assms(5) by (simp_all add: snake_grow_def)
    have full: "(240 :: u32) \<le> ucast (sn_length ?t) \<longleftrightarrow> Suc (unat (sn_length s)) = 240" using gr(3) n by (auto simp add: word_le_nat_alt)
    have mv: "s' = (if Suc (unat (sn_length s)) = 240 then snake_over SNAKE_GAME_OVER_WIN ?t
        else if sn_ui_mode (snake_spawn_food ?t) = SNAKE_UI_GAME_OVER then snake_spawn_food ?t else snake_timed now (snake_spawn_food ?t))"
      using g free snake_occupied [OF assms(1), of x y False] full by (simp add: assms(8) snake_moved_def assms(6) [symmetric] Let_def)
    have gs: "game_step (snake_cells s) (food_cell s) (Some c) = Moves (snake_cells s @ [c])"
      using True free by (simp add: game_step_def)
    show ?thesis
    proof (cases "Suc (unat (sn_length s)) = 240")
      case w: True
      then have s': "s' = snake_over SNAKE_GAME_OVER_WIN ?t" using mv by simp
      then have "sn_score s' = sn_score s + 1" using sc by (simp add: snake_over_def)
      with s' w gr show ?thesis unfolding gs by (simp add: assms(6))
    next
      case nw: False
      have "unat (sn_length ?t) < 240" using gr(3) n nw by simp
      from spawn_food_free [OF gr(1) this] obtain fx fy where f: "snake_spawn_food ?t = ?t\<lparr>sn_food_x := fx, sn_food_y := fy\<rparr>"
        "on_board \<lparr> cell_x = fx, cell_y = fy \<rparr>" "\<lparr> cell_x = fx, cell_y = fy \<rparr> \<notin> set (snake_cells ?t)" by blast
      have s': "s' = snake_timed now (?t\<lparr>sn_food_x := fx, sn_food_y := fy\<rparr>)" using mv nw f(1) sc(2) by simp
      have fc: "food_cell s' = \<lparr> cell_x = fx, cell_y = fy \<rparr>" by (simp add: s' food_cell_def snake_timed_def)
      have "sn_score s' = sn_score s + 1" by (simp add: s' snake_timed_def sc)
      moreover have "snake_cells s' = snake_cells s @ [c]" "snake_sized s'" using gr s' by (simp_all add: assms(6))
      ultimately show ?thesis using nw n f(2,3) gr(2) s' fc unfolding gs by (auto simp: assms(6))
    qed
  qed
qed


text \<open>The state after a step of an active game, by the reference game.\<close>

definition step_front :: "snake_state \<Rightarrow> snake_cell option" where
  "step_front s = cell_ahead (sn_dir (snake_turn s)) (last (snake_cells s))"

lemma snake_next_cases:
  assumes "snake_inv s" "sn_active s \<noteq> 0" "sn_ui_mode s = SNAKE_UI_PLAYING"
  obtains (wall) "step_front s = None" "snake_next now s = snake_over SNAKE_GAME_OVER_WALL (snake_turn s)"
  | (cell) x y where "step_front s = Some \<lparr> cell_x = x, cell_y = y \<rparr>" "on_board \<lparr> cell_x = x, cell_y = y \<rparr>"
      "snake_next now s = snake_moved now x y (snake_turn s)"
proof -
  have i: "snake_sized s" "snake_ranges s" "list_all on_board (snake_cells s)"
    using assms(1) by (simp_all add: snake_inv_iff)
  have n: "sn_length s \<noteq> 0" using i(2) assms(2,3) by (simp add: snake_ranges_def)
  note h = snake_head [OF i(1) n]
  have b: "on_board (sn_body s ! unat (sn_head_idx s))"
    using i(3) h(1) last_in_set [OF h(1)] unfolding h(2) [symmetric] list_all_iff by blast
  have d: "sn_dir (snake_turn s) \<in> {1..4}" using snake_turn_ranges [OF i(2)] by (simp add: snake_ranges_def)
  have f: "step_front s = map_option (\<lambda>(x, y). \<lparr> cell_x = x, cell_y = y \<rparr>) (snake_ahead (snake_turn s))"
    using snake_ahead_cell [of "snake_turn s"] b d by (simp add: step_front_def h(2))
  have nx: "snake_next now s = (case snake_ahead (snake_turn s) of None \<Rightarrow> snake_over SNAKE_GAME_OVER_WALL (snake_turn s)
      | Some (x, y) \<Rightarrow> snake_moved now x y (snake_turn s))"
    using assms(2,3) n by (simp add: snake_next_def Let_def)
  show thesis
  proof (cases "snake_ahead (snake_turn s)")
    case None
    then show thesis using wall f nx by simp
  next
    case (Some xy)
    obtain x y where xy: "xy = (x, y)" by fastforce
    have c: "step_front s = Some \<lparr> cell_x = x, cell_y = y \<rparr>" using f Some xy by simp
    then have "on_board \<lparr> cell_x = x, cell_y = y \<rparr>" using cell_ahead_on_board by (simp add: step_front_def)
    with c show thesis using cell nx Some xy by simp
  qed
qed

lemma snake_over_sel [simp]:
  "sn_ui_mode (snake_over r s) = SNAKE_UI_GAME_OVER" "sn_game_over_reason (snake_over r s) = r" "sn_active (snake_over r s) = sn_active s"
  "sn_length (snake_over r s) = sn_length s"
  by (simp_all add: snake_over_def)

lemma snake_next_game:
  assumes "snake_inv s" "sn_active s \<noteq> 0" "sn_ui_mode s = SNAKE_UI_PLAYING" "s' = snake_next now s"
  shows "case game_step (snake_cells s) (food_cell s) (step_front s) of
      Crash r \<Rightarrow> sn_ui_mode s' = SNAKE_UI_GAME_OVER \<and> sn_game_over_reason s' = r \<and> snake_cells s' = snake_cells s
    | Moves cs \<Rightarrow> snake_cells s' = cs \<and> sn_score s' = sn_score s + of_nat (length cs - length (snake_cells s)) \<and>
        (if length cs = length (snake_cells s) then sn_ui_mode s' = SNAKE_UI_PLAYING \<and> food_cell s' = food_cell s
         else if length cs = 240 then sn_ui_mode s' = SNAKE_UI_GAME_OVER \<and> sn_game_over_reason s' = SNAKE_GAME_OVER_WIN
         else sn_ui_mode s' = SNAKE_UI_PLAYING \<and> on_board (food_cell s') \<and> food_cell s' \<notin> set cs)"
proof -
  have i: "snake_sized (snake_turn s)" "list_all on_board (snake_cells (snake_turn s))" "distinct (snake_cells (snake_turn s))"
    "sn_length (snake_turn s) \<noteq> 0" "sn_ui_mode (snake_turn s) = SNAKE_UI_PLAYING"
    using assms by (simp_all add: snake_inv_iff snake_ranges_def)
  from assms(1-3) show ?thesis
  proof (cases rule: snake_next_cases [where now = now])
    case wall
    then show ?thesis by (simp add: assms(4) game_step_def)
  next
    case (cell x y)
    have t: "food_cell (snake_timed now t) = food_cell t" "sn_ui_mode (snake_timed now t) = sn_ui_mode t"
      "sn_ui_mode (snake_grow t) = sn_ui_mode t" for t
      by (simp_all add: snake_timed_def food_cell_def snake_grow_def)
    have s': "s' = snake_moved now x y (snake_turn s)" using cell(3) assms(4) by simp
    note m = snake_moved_game [OF i refl cell(2) s']
    show ?thesis
    proof (cases "game_step (snake_cells s) (food_cell s) (step_front s)")
      case (Crash r)
      with m have "s' = snake_over r (snake_turn s)" by (simp add: cell(1))
      then show ?thesis unfolding Crash by simp
    next
      case (Moves cs)
      with m have "snake_sized s' \<and> snake_cells s' = cs \<and> sn_score s' = sn_score s + of_nat (length cs - length (snake_cells s)) \<and>
        (if length cs = length (snake_cells s) then s' = snake_timed now (snake_advance x y (snake_turn s))
         else if length cs = 240 then s' = snake_over SNAKE_GAME_OVER_WIN (snake_grow (snake_advance x y (snake_turn s)))
         else \<exists>fx fy. s' = snake_timed now ((snake_grow (snake_advance x y (snake_turn s)))\<lparr>sn_food_x := fx, sn_food_y := fy\<rparr>) \<and>
              on_board (food_cell s') \<and> food_cell s' \<notin> set cs)" by (simp add: cell(1)) auto
      then show ?thesis unfolding Moves using i(5) t by (auto split: if_splits)
    qed
  qed
qed

text \<open>C31: a step of the snake is a step of the reference game.  On a valid, running game the
  timer event moves the list of cells as the reference game does: a wall or the body ends
  the game with that reason and leaves the cells, an ordinary move drops the tail and adds
  the cell in front, food is eaten by growing and counted in the score, the game is won
  when the snake fills the board, and otherwise the new food lies on a free cell of the
  board.\<close>

theorem snake_step_refines_game:
  assumes "snake_inv (g_snake_ctx w)" "sn_active (g_snake_ctx w) \<noteq> 0" "sn_ui_mode (g_snake_ctx w) = SNAKE_UI_PLAYING"
  shows "let s = g_snake_ctx w; s' = g_snake_ctx (snake_step w) in
    case game_step (snake_cells s) (food_cell s) (step_front s) of
      Crash r \<Rightarrow> sn_ui_mode s' = SNAKE_UI_GAME_OVER \<and> sn_game_over_reason s' = r \<and> snake_cells s' = snake_cells s
    | Moves cs \<Rightarrow> snake_cells s' = cs \<and> sn_score s' = sn_score s + of_nat (length cs - length (snake_cells s)) \<and>
        (if length cs = length (snake_cells s) then sn_ui_mode s' = SNAKE_UI_PLAYING \<and> food_cell s' = food_cell s
         else if length cs = 240 then sn_ui_mode s' = SNAKE_UI_GAME_OVER \<and> sn_game_over_reason s' = SNAKE_GAME_OVER_WIN
         else sn_ui_mode s' = SNAKE_UI_PLAYING \<and> on_board (food_cell s') \<and> food_cell s' \<notin> set cs)"
  unfolding Let_def by (rule snake_next_game [OF assms snake_ctx_step])


section \<open>The state stays valid\<close>

lemma game_step_keeps:
  assumes "game_step cells food (Some c) = Moves cs" "distinct cells" "list_all on_board cells" "on_board c"
  shows "distinct cs" "list_all on_board cs"
proof -
  have "set (tl cells) \<subseteq> set cells" by (cases cells) auto
  with assms show "distinct cs" "list_all on_board cs"
    by (auto simp: game_step_def list_all_iff distinct_tl split: if_splits)
qed

lemma snake_inv_over: "snake_inv s \<Longrightarrow> sn_length s \<noteq> 0 \<Longrightarrow> sn_ui_mode s = SNAKE_UI_PLAYING \<Longrightarrow> r \<le> 3 \<Longrightarrow> snake_inv (snake_over r s)"
  unfolding snake_inv_iff by (simp add: snake_ranges_def) (simp add: snake_over_def)

lemma snake_ranges_timed [simp]:
  "snake_ranges (snake_timed now s) = snake_ranges s" "snake_ranges (snake_advance x y s) = snake_ranges s"
  by (simp_all add: snake_ranges_def snake_timed_def snake_advance_def Let_def)

lemma snake_ranges_grow: "snake_ranges s \<Longrightarrow> sn_length (snake_grow s) \<noteq> 0 \<Longrightarrow> snake_ranges (snake_grow s)"
  by (simp add: snake_ranges_def snake_grow_def)

lemma snake_inv_next:
  assumes "snake_inv s" "s' = snake_next now s"
  shows "snake_inv s'"
proof (cases "sn_active s = 0 \<or> sn_ui_mode s \<noteq> SNAKE_UI_PLAYING")
  case True
  with assms show ?thesis by (auto simp: snake_next_def)
next
  case False
  let ?t = "snake_turn s"
  have inv: "snake_sized s" "snake_ranges s" "list_all on_board (snake_cells s)" "distinct (snake_cells s)"
    using assms(1) by (simp_all add: snake_inv_iff)
  have n: "sn_length s \<noteq> 0" using inv(2) False by (simp add: snake_ranges_def)
  have it: "snake_inv ?t" using inv snake_turn_ranges by (simp add: snake_inv_iff)
  have i: "snake_sized ?t" "list_all on_board (snake_cells ?t)" "distinct (snake_cells ?t)"
    "sn_length ?t \<noteq> 0" "sn_ui_mode ?t = SNAKE_UI_PLAYING" using inv n False by simp_all
  have p: "sn_active s \<noteq> 0" "sn_ui_mode s = SNAKE_UI_PLAYING" using False by simp_all
  from assms(1) p show ?thesis
  proof (cases rule: snake_next_cases [where now = now])
    case wall
    with snake_inv_over [OF it i(4,5)] show ?thesis by (simp add: assms(2))
  next
    case (cell x y)
    let ?c = "\<lparr> cell_x = x, cell_y = y \<rparr>"
    have s': "s' = snake_moved now x y ?t" using cell(3) assms(2) by simp
    note m = snake_moved_game [OF i refl cell(2) s']
    show ?thesis
    proof (cases "game_step (snake_cells ?t) (food_cell ?t) (Some ?c)")
      case (Crash r)
      then have "r \<le> 3" by (auto simp: game_step_def split: if_splits)
      with m Crash snake_inv_over [OF it i(4,5), of r] show ?thesis by simp
    next
      case (Moves cs)
      note k = game_step_keeps [OF Moves i(3,2) cell(2)]
      let ?g = "snake_grow (snake_advance x y ?t)"
      have len: "length cs = length (snake_cells s')" "cs = snake_cells s'" "snake_sized s'" using m Moves by simp_all
      have ne: "sn_length ?g \<noteq> 0" if "unat (sn_length s) < 240"
        using snake_grow_cells(3) [OF i(1), of x y] that by (auto simp: unat_eq_zero [symmetric])
      have rt: "snake_ranges ?t" using it by (simp add: snake_inv_iff)
      have cs: "length cs \<le> length (snake_cells s) + 1" "length cs \<le> 240"
        using Moves len(1,3) by (auto simp: game_step_def snake_sized_def split: if_splits)
      have g: "length cs \<noteq> length (snake_cells s) \<Longrightarrow> unat (sn_length s) < 240"
        using Moves len(1,3) n by (auto simp: game_step_def snake_sized_def unat_gt_0 split: if_splits)
      consider (same) "s' = snake_timed now (snake_advance x y ?t)"
        | (win) "s' = snake_over SNAKE_GAME_OVER_WIN ?g" "sn_length ?g \<noteq> 0"
        | (food) fx fy where "s' = snake_timed now (?g\<lparr>sn_food_x := fx, sn_food_y := fy\<rparr>)" "on_board (food_cell s')" "sn_length ?g \<noteq> 0"
        using m Moves ne g by (auto split: if_splits)
      then have "snake_ranges s'"
      proof cases
        case same
        then show ?thesis using rt by simp
      next
        case win
        have "snake_ranges ?g" using snake_ranges_grow [of "snake_advance x y ?t"] rt win(2) by simp
        with win show ?thesis by (simp add: snake_ranges_def) (simp add: snake_over_def)
      next
        case (food fx fy)
        have "snake_ranges ?g" using snake_ranges_grow [of "snake_advance x y ?t"] rt food(3) by simp
        then show ?thesis using food(2) unfolding food(1) by (simp add: snake_ranges_def snake_timed_def food_cell_def)
      qed
      then show ?thesis using k len by (simp add: snake_inv_iff)
    qed
  qed
qed


lemma snake_inv_upd:
  "snake_inv s \<Longrightarrow> snake_inv (s\<lparr>sn_next_tick := t\<rparr>)"
  "snake_inv s \<Longrightarrow> snake_inv (s\<lparr>sn_active := 0, sn_next_tick := t\<rparr>)"
  "snake_inv s \<Longrightarrow> d \<in> {1..4} \<Longrightarrow> snake_inv (s\<lparr>sn_pending_dir := d\<rparr>)"
  "snake_inv s \<Longrightarrow> m \<in> {2, 3} \<Longrightarrow> sn_ui_mode s \<in> {2, 3} \<Longrightarrow> snake_inv (s\<lparr>sn_ui_mode := m, sn_next_tick := t\<rparr>)"
  unfolding snake_inv_iff
  by (auto simp: snake_sized_def snake_ranges_def snake_cells_def)

lemma snake_inv_reset: "snake_inv (snake_reset\<lparr>sn_active := a\<rparr>)" if "a \<le> 1"
  using that unfolding snake_inv_iff
  by (simp add: snake_sized_def snake_ranges_def snake_cells_def ring_cells_def snake_reset_def on_board_def)

lemma snake_inv_reset0: "snake_inv snake_reset"
  using snake_inv_reset [of 0] by (simp add: snake_reset_def)

lemma snake_inv_new_game:
  assumes "snake_inv s"
  shows "snake_inv (snake_new_game now s)"
proof -
  define b where "b = (replicate 240 zero_cell)[0 := \<lparr> cell_x = 8, cell_y = 6 \<rparr>, 1 := \<lparr> cell_x = 9, cell_y = 6 \<rparr>,
                     2 := \<lparr> cell_x = 10, cell_y = 6 \<rparr>]"
  define t where "t = s\<lparr>sn_ui_mode := SNAKE_UI_PLAYING, sn_dir := SNAKE_DIR_RIGHT,
       sn_pending_dir := SNAKE_DIR_RIGHT, sn_length := 3, sn_head_idx := 2, sn_body := b,
       sn_score := 0, sn_game_over_reason := 0, sn_next_tick := now + sn_tick_interval_ms s\<rparr>"
  have t: "snake_new_game now s = snake_spawn_food t"
    by (simp add: snake_new_game_def snake_zero_body_def t_def b_def)
  have b: "b ! 0 = \<lparr> cell_x = 8, cell_y = 6 \<rparr>" "b ! 1 = \<lparr> cell_x = 9, cell_y = 6 \<rparr>" "b ! 2 = \<lparr> cell_x = 10, cell_y = 6 \<rparr>" "length b = 240"
    by (simp_all add: b_def)
  have z: "snake_sized t" using assms b(4) by (simp add: t_def snake_inv_def snake_sized_def)
  have "[0..<3] = [0, 1, 2 :: nat]" by (simp add: upt_rec)
  then have "snake_cells t = [b ! 0, b ! 1, b ! 2]" by (simp add: t_def snake_cells_def ring_cells_def)
  then have c: "list_all on_board (snake_cells t)" "distinct (snake_cells t)"
    unfolding b by (simp_all add: on_board_def)
  have "unat (sn_length t) < 240" by (simp add: t_def)
  from spawn_food_free [OF z this] obtain x y where f: "snake_spawn_food t = t\<lparr>sn_food_x := x, sn_food_y := y\<rparr>"
    "on_board \<lparr> cell_x = x, cell_y = y \<rparr>" by blast
  have "snake_ranges (t\<lparr>sn_food_x := x, sn_food_y := y\<rparr>)"
    using assms f(2) by (simp add: t_def snake_inv_iff snake_ranges_def)
  then show ?thesis using z c by (simp add: t f(1) snake_inv_iff)
qed

lemma term_more_snake: "term_world.more w' = term_world.more w \<Longrightarrow> g_snake_ctx w' = g_snake_ctx w"
  by (cases w; cases w') simp

lemmas snake_ctx_lower [simp] = con_call_more [THEN con_more_snake] term_more_stdin [THEN term_more_snake]
  sched_unregister_more [THEN sched_more_above, THEN term_more_snake] sched_post_more [THEN sched_more_above, THEN term_more_snake]

lemma snake_ctx_flags [simp]:
  "g_snake_ctx (w\<lparr>g_snake_tick_pending := p\<rparr>) = g_snake_ctx w"
  by simp

lemma snake_inv_key:
  assumes "snake_inv (g_snake_ctx w)"
  shows "snake_inv (g_snake_ctx (snake_key k w))"
proof -
  have d: "snake_key_dir k = Some d \<Longrightarrow> d \<in> {1..4}" for d
    by (auto simp: snake_key_dir_def split: if_splits)
  have "snake_inv (snake_steer d (g_snake_ctx w))" if "d \<in> {1..4}" for d
    using snake_inv_upd(3) [OF assms that] assms by (simp add: snake_steer_def)
  moreover have "snake_inv (g_snake_ctx (snake_pause w))"
    using snake_inv_upd(4) [OF assms] assms by (simp add: snake_pause_def)
  moreover have "snake_inv (g_snake_ctx (snake_stop w))"
    using snake_inv_upd(2) [OF assms, of 0] by (simp add: snake_stop_def Let_def)
  ultimately show ?thesis
    using assms d snake_inv_new_game [OF assms]
    by (simp add: snake_key_def snake_start_game_def split: option.split)
qed

lemma snake_inv_dispatch:
  assumes "snake_inv (g_snake_ctx w)"
  shows "snake_inv (g_snake_ctx (snake_task_dispatch e w))"
proof -
  have "snake_inv (g_snake_ctx (snake_seed_new_session w))"
    using snake_inv_reset [of 1] by (simp add: snake_seed_new_session_def snake_task_reset_state_def)
  moreover have "snake_inv (g_snake_ctx (snake_step w))" by (rule snake_inv_next [OF assms snake_ctx_step])
  ultimately show ?thesis
    using assms snake_inv_key [OF assms] by (simp add: snake_task_dispatch_def split: option.split)
qed

lemma snake_blob_sized:
  assumes "12 \<le> length blob" "snake_state_valid (bytes_snake blob)"
  shows "snake_inv (bytes_snake blob)"
proof -
  have "\<not> ucast (sn_length (bytes_snake blob)) > (240 :: u32)" "\<not> ucast (sn_head_idx (bytes_snake blob)) \<ge> (240 :: u32)"
    using assms(2) by (simp_all add: snake_state_valid_def)
  then have "unat (sn_length (bytes_snake blob)) \<le> 240" "unat (sn_head_idx (bytes_snake blob)) < 240"
    by (simp_all add: word_less_nat_alt word_le_nat_alt)
  then show ?thesis using assms by (simp add: snake_inv_def snake_sized_def bytes_snake_def)
qed


datatype snake_op = Deliver "event option" | Tick | Restore "u8 list" | Register u32 u32 "event list" | Rebind

fun snake_act :: "snake_op \<Rightarrow> 'a snk_world_scheme \<Rightarrow> 'a snk_world_scheme" where
  "snake_act (Deliver e) w = snake_task_dispatch e w"
| "snake_act Tick w = snake_task_systick_hook w"
| "snake_act (Restore blob) w = snd (snake_restore_apply_state_fn (Some blob) (of_nat (length blob)) w)"
| "snake_act (Register fn cx st) w = snd (snake_task_register fn cx st True w)"
| "snake_act Rebind w = snake_task_restore_rebind_stdin_if_needed w"

lemma snake_inv_hook: "snake_inv (g_snake_ctx w) \<Longrightarrow> snake_inv (g_snake_ctx (snake_task_systick_hook w))"
  using snake_inv_upd(2) [of "g_snake_ctx w" 0]
  by (simp add: snake_task_systick_hook_def sched_post_isr_def case_prod_beta)

lemma sched_register_more: "sched.more (snd (sched_register_task sp w)) = sched.more w"
  by (simp add: sched_register_task_def sched_register_def set_ao_def Let_def split: option.split)

lemma snake_inv_register:
  assumes "snake_inv (g_snake_ctx w)"
  shows "snake_inv (g_snake_ctx (snd (snake_task_register fn cx st b w)))"
  using assms snake_inv_reset0
  by (simp add: snake_task_register_def Let_def case_prod_beta snake_task_reset_state_def
      sched_register_more [THEN sched_more_above, THEN term_more_snake])

lemma snake_inv_rebind:
  assumes "snake_inv (g_snake_ctx w)"
  shows "snake_inv (g_snake_ctx (snake_task_restore_rebind_stdin_if_needed w))"
  using assms by (simp add: snake_task_restore_rebind_stdin_if_needed_def case_prod_beta)

lemma snake_inv_restore_state:
  assumes "snake_inv (g_snake_ctx w)" "snake_inv s"
  shows "snake_inv (g_snake_ctx (snd (snake_task_restore_state (Some s) w)))"
  using assms snake_inv_reset0 snake_inv_upd(1) [OF assms(2)]
  by (simp add: snake_task_restore_state_def Let_def snake_task_reset_state_def)

lemma snake_inv_restore:
  assumes "snake_inv (g_snake_ctx w)"
  shows "snake_inv (g_snake_ctx (snd (snake_restore_apply_state_fn (Some blob) (of_nat (length blob)) w)))"
proof (cases "fst (snake_task_decode_state_blob (Some blob) (of_nat (length blob))) = SCHED_OK")
  case False
  then show ?thesis using assms by (simp add: snake_restore_apply_state_fn_def case_prod_beta)
next
  case True
  let ?s = "bytes_snake blob"
  have d: "(of_nat (length blob) :: u32) = 504" "snake_state_valid ?s"
    "snake_task_decode_state_blob (Some blob) (of_nat (length blob)) = (SCHED_OK, Some ?s)"
    using True by (auto simp: snake_task_decode_state_blob_def Let_def sched_codes split: if_splits)
  have "length blob mod 4294967296 = 504" using arg_cong [OF d(1), of unat] by (simp add: unat_of_nat)
  then have "12 \<le> length blob" using mod_less_eq_dividend [of "length blob" 4294967296] by linarith
  note si = snake_blob_sized [OF this d(2)]
  have r: "snake_inv (g_snake_ctx (snd (snake_task_restore_state (Some ?s) w)))" by (rule snake_inv_restore_state [OF assms si])
  have x: "g_snake_ctx (snd (terminal_stdin_acquire a m (u\<lparr>g_snake_restore_needs_stdin_rebind := False\<rparr>))) = g_snake_ctx u"
    for a m and u :: "'a snk_world_scheme" by simp
  show ?thesis
    unfolding snake_restore_apply_state_fn_def d(3)
    using r x by (simp add: case_prod_beta)
qed

text \<open>C32: the saved state of the game is always valid.  From any valid state, whatever events,
  keys, timer ticks, registrations and restores follow, \<open>snake_state_valid\<close> holds again:
  the cells are on the board and distinct, the indices inside the ring, modes, directions
  and reason in range.  So the encoder never refuses a running game.\<close>

theorem snake_state_always_valid:
  assumes "snake_inv (g_snake_ctx w)"
  shows "snake_state_valid (g_snake_ctx (foldl (\<lambda>w p. snake_act p w) w ops))"
proof -
  have step: "snake_inv (g_snake_ctx (snake_act p w))" if "snake_inv (g_snake_ctx w)" for p and w :: "'a snk_world_scheme"
    using that by (cases p) (simp_all add: snake_inv_dispatch snake_inv_hook snake_inv_restore snake_inv_register snake_inv_rebind)
  have "snake_inv (g_snake_ctx (foldl (\<lambda>w p. snake_act p w) w ops))"
    using assms by (induction ops arbitrary: w) (simp_all add: step)
  then show ?thesis by (simp add: snake_inv_def)
qed

definition snk_power_on :: snk_world where
  "snk_power_on = cnt_world.extend cnt_power_on (snk_world.fields snake_reset True False False False True (replicate 768 (CHR 0x00)))"

lemma snk_power_on_inv: "snake_inv (g_snake_ctx snk_power_on)"
  using snake_inv_reset0 by (simp add: snk_power_on_def snk_world.defs cnt_world.defs)

theorem snake_state_always_valid_witness:
  "snake_state_valid (g_snake_ctx (foldl (\<lambda>w p. snake_act p w) snk_power_on
     [Deliver (Some (sig_event SNAKE_SIG_START)), Deliver (Some ((sig_event TERM_SIG_STDIN_RAW)\<lparr>ev_arg0 := 0x72\<rparr>)), Tick]))"
  by (rule snake_state_always_valid [OF snk_power_on_inv])


section \<open>Saving and restoring a game\<close>

lemma length_concat_pairs: "length (concat (map (\<lambda>c. [cell_x c, cell_y c]) cs)) = 2 * length cs"
  by (induction cs) simp_all

lemma concat_pairs_nth:
  "i < length cs \<Longrightarrow> concat (map (\<lambda>c. [cell_x c, cell_y c]) cs) ! (2 * i) = cell_x (cs ! i)"
  "i < length cs \<Longrightarrow> concat (map (\<lambda>c. [cell_x c, cell_y c]) cs) ! Suc (2 * i) = cell_y (cs ! i)"
proof (induction cs arbitrary: i)
  case (Cons c cs)
  {
    case 1
    with Cons.IH(1) show ?case by (cases i) simp_all
  next
    case 2
    with Cons.IH(2) show ?case by (cases i) simp_all
  }
qed simp_all

lemma snake_bytes_roundtrip:
  assumes "snake_sized s"
  shows "bytes_snake (snake_bytes s) = s" "length (snake_bytes s) = 504"
proof -
  obtain r0 r1 r2 where r: "sn_reserved0 s = [r0, r1, r2]"
    using assms by (auto simp: snake_sized_def length_Suc_conv eval_nat_numeral)
  define p where "p = [sn_active s, sn_ui_mode s, sn_dir s, sn_pending_dir s, sn_length s, sn_head_idx s, sn_food_x s, sn_food_y s,
     sn_game_over_reason s, r0, r1, r2] @ u32_bytes (sn_score s) @ u32_bytes (sn_tick_interval_ms s) @ u32_bytes (sn_next_tick s)"
  define q where "q = concat (map (\<lambda>c. [cell_x c, cell_y c]) (sn_body s))"
  have b: "snake_bytes s = p @ q" by (simp add: snake_bytes_def p_def q_def r)
  have l: "length (sn_body s) = 240" using assms by (simp add: snake_sized_def)
  have len: "length p = 24" "length q = 480" using l by (simp_all add: p_def q_def length_concat_pairs)
  then show "length (snake_bytes s) = 504" by (simp add: b)
  have body: "map (\<lambda>i. \<lparr> cell_x = (p @ q) ! (24 + 2 * i), cell_y = (p @ q) ! (24 + 2 * i + 1) \<rparr>) [0..<240] = sn_body s"
  proof (rule nth_equalityI)
    fix i assume "i < length (map (\<lambda>i. \<lparr> cell_x = (p @ q) ! (24 + 2 * i), cell_y = (p @ q) ! (24 + 2 * i + 1) \<rparr>) [0..<240])"
    then have i: "i < length (sn_body s)" using l by simp
    with l len concat_pairs_nth [OF i]
    show "map (\<lambda>i. \<lparr> cell_x = (p @ q) ! (24 + 2 * i), cell_y = (p @ q) ! (24 + 2 * i + 1) \<rparr>) [0..<240] ! i = sn_body s ! i"
      by (simp add: nth_append q_def)
  qed (simp add: l)
  have "sn_body (bytes_snake (snake_bytes s)) = sn_body s" unfolding b bytes_snake_def using body by simp
  moreover have "bytes_snake (snake_bytes s) = s\<lparr>sn_body := sn_body (bytes_snake (snake_bytes s))\<rparr>"
    by (simp add: b bytes_snake_def p_def u32_at_def u32_bytes_def bytes_u32_bytes r)
  ultimately show "bytes_snake (snake_bytes s) = s" by simp
qed

definition snake_resumed :: "u32 \<Rightarrow> snake_state \<Rightarrow> snake_state" where
  "snake_resumed now s = s\<lparr>sn_next_tick := (if sn_ui_mode s = SNAKE_UI_PLAYING then now + sn_tick_interval_ms s else 0)\<rparr>"

lemma snake_decoded:
  assumes "snake_inv s"
  shows "length (snake_bytes s) = 504" "snake_task_decode_state_blob (Some (snake_bytes s)) 504 = (SCHED_OK, Some s)"
proof -
  have v: "snake_state_valid s" "snake_sized s" using assms by (simp_all add: snake_inv_def)
  note r = snake_bytes_roundtrip [OF v(2)]
  show "length (snake_bytes s) = 504" by (rule r(2))
  show "snake_task_decode_state_blob (Some (snake_bytes s)) 504 = (SCHED_OK, Some s)"
    using v r by (simp add: snake_task_decode_state_blob_def)
qed

lemma snake_saved:
  assumes "snake_inv (g_snake_ctx w0)" "sn_active (g_snake_ctx w0) \<noteq> 0" "504 \<le> cap"
  shows "snake_restore_get_state_fn True (Some cap) w0 = (SCHED_OK, Some (snake_bytes (g_snake_ctx w0), 504))"
    "length (snake_bytes (g_snake_ctx w0)) = 504"
    "fst (snake_restore_apply_state_fn (Some (snake_bytes (g_snake_ctx w0))) 504 w) = SCHED_OK"
    "g_snake_ctx (snd (snake_restore_apply_state_fn (Some (snake_bytes (g_snake_ctx w0))) 504 w)) = snake_resumed (systick_now w) (g_snake_ctx w0)"
proof -
  let ?s = "g_snake_ctx w0"
  have v: "snake_state_valid ?s" "snake_sized ?s" using assms(1) by (simp_all add: snake_inv_def)
  show "length (snake_bytes ?s) = 504" by (rule snake_decoded(1) [OF assms(1)])
  show "snake_restore_get_state_fn True (Some cap) w0 = (SCHED_OK, Some (snake_bytes ?s, 504))"
    using assms v by (simp add: snake_restore_get_state_fn_def snake_task_get_state_def snake_task_encode_state_blob_def not_less)
  note dec = snake_decoded(2) [OF assms(1)]
  obtain w1 where w1: "snake_task_restore_state (Some ?s) w = (SCHED_OK, w1)" "g_snake_ctx w1 = snake_resumed (systick_now w) ?s"
    using v assms(2) by (simp add: snake_task_restore_state_def snake_resumed_def)
  show "fst (snake_restore_apply_state_fn (Some (snake_bytes ?s)) 504 w) = SCHED_OK"
    "g_snake_ctx (snd (snake_restore_apply_state_fn (Some (snake_bytes ?s)) 504 w)) = snake_resumed (systick_now w) ?s"
    using assms(2) w1 by (simp_all add: snake_restore_apply_state_fn_def dec case_prod_beta snake_resumed_def)
qed

text \<open>C33: a saved game comes back.  The blob of a running game is 504 bytes long, and the
  restore function accepts it and puts the same game back, paused timers re-armed from
  the current tick.\<close>

theorem snake_save_restore:
  assumes "snake_inv (g_snake_ctx w0)" "sn_active (g_snake_ctx w0) \<noteq> 0" "504 \<le> cap"
  shows "\<exists>blob. snake_restore_get_state_fn True (Some cap) w0 = (SCHED_OK, Some (blob, 504)) \<and> length blob = 504 \<and>
    (\<exists>w'. snake_restore_apply_state_fn (Some blob) 504 w = (SCHED_OK, w') \<and>
       g_snake_ctx w' = (g_snake_ctx w0)\<lparr>sn_next_tick := (if sn_ui_mode (g_snake_ctx w0) = SNAKE_UI_PLAYING
          then systick_now w + sn_tick_interval_ms (g_snake_ctx w0) else 0)\<rparr>)"
  using snake_saved [OF assms] unfolding snake_resumed_def by (metis prod.collapse)

definition snake_demo :: snake_state where
  "snake_demo = snake_reset\<lparr>sn_active := 1, sn_ui_mode := SNAKE_UI_PLAYING, sn_length := 3, sn_head_idx := 2,
     sn_body := (replicate 240 zero_cell)[0 := \<lparr> cell_x = 8, cell_y = 6 \<rparr>, 1 := \<lparr> cell_x = 9, cell_y = 6 \<rparr>,
                     2 := \<lparr> cell_x = 10, cell_y = 6 \<rparr>]\<rparr>"

lemma snake_demo_cells:
  "snake_cells snake_demo = [\<lparr> cell_x = 8, cell_y = 6 \<rparr>, \<lparr> cell_x = 9, cell_y = 6 \<rparr>, \<lparr> cell_x = 10, cell_y = 6 \<rparr>]"
proof -
  have "[0..<3] = [0, 1, 2 :: nat]" by (simp add: upt_rec)
  then show ?thesis by (simp add: snake_demo_def snake_cells_def ring_cells_def)
qed

lemma snake_demo_inv: "snake_inv snake_demo"
  unfolding snake_inv_iff snake_demo_cells
  by (simp add: snake_sized_def snake_ranges_def snake_demo_def snake_reset_def on_board_def)

theorem snake_save_restore_witness:
  "\<exists>blob. snake_restore_get_state_fn True (Some 512) (upd_sn (\<lambda>_. snake_demo) snk_power_on) = (SCHED_OK, Some (blob, 504)) \<and>
    length blob = 504"
proof -
  have "snake_inv (g_snake_ctx (upd_sn (\<lambda>_. snake_demo) snk_power_on))"
    "sn_active (g_snake_ctx (upd_sn (\<lambda>_. snake_demo) snk_power_on)) \<noteq> 0" "(504 :: u32) \<le> 512"
    using snake_demo_inv by (simp_all add: word_le_nat_alt) (simp add: snake_demo_def)
  from snake_save_restore [OF this, of snk_power_on] show ?thesis by blast
qed

theorem snake_step_refines_game_witness:
  "snake_cells (g_snake_ctx (snake_step (upd_sn (\<lambda>_. snake_demo) snk_power_on))) =
     [\<lparr> cell_x = 9, cell_y = 6 \<rparr>, \<lparr> cell_x = 10, cell_y = 6 \<rparr>, \<lparr> cell_x = 11, cell_y = 6 \<rparr>]"
proof -
  let ?w = "upd_sn (\<lambda>_. snake_demo) snk_power_on"
  have g: "g_snake_ctx ?w = snake_demo" by simp
  have p: "snake_inv (g_snake_ctx ?w)" "sn_active (g_snake_ctx ?w) \<noteq> 0" "sn_ui_mode (g_snake_ctx ?w) = SNAKE_UI_PLAYING"
    using snake_demo_inv by (simp_all add: snake_demo_def)
  have d: "sn_dir (snake_turn snake_demo) = 2" "food_cell snake_demo = \<lparr> cell_x = 0, cell_y = 0 \<rparr>"
    by (simp_all add: snake_turn_def snake_demo_def snake_reset_def food_cell_def)
  have "step_front snake_demo = Some \<lparr> cell_x = 11, cell_y = 6 \<rparr>"
    by (simp add: step_front_def d snake_demo_cells cell_ahead_def dir_dx_def dir_dy_def)
  then have "game_step (snake_cells snake_demo) (food_cell snake_demo) (step_front snake_demo) =
      Moves [\<lparr> cell_x = 9, cell_y = 6 \<rparr>, \<lparr> cell_x = 10, cell_y = 6 \<rparr>, \<lparr> cell_x = 11, cell_y = 6 \<rparr>]"
    by (simp add: d snake_demo_cells game_step_def)
  with snake_step_refines_game [OF p] show ?thesis unfolding g by (simp add: Let_def)
qed


section \<open>The frame fits the buffer\<close>

text \<open>The buffer holds the text appended so far.\<close>

definition rendered :: "string \<Rightarrow> render \<Rightarrow> bool" where
  "rendered t r \<longleftrightarrow> length (snd r) = 768 \<and> unat (fst r) = length t \<and> take (length t) (snd r) = t \<and> length t \<le> 768"

lemma rendered_char:
  assumes "rendered t r" "length t < 768"
  shows "rendered (t @ [c]) (snake_render_append_char c r)"
proof -
  obtain off buf where r: "r = (off, buf)" by fastforce
  have o': "unat off = length t" "take (length t) buf = t" "length buf = 768" using assms(1) by (simp_all add: rendered_def r)
  have n: "unat (off + 1) = length t + 1" using o'(1) assms(2) by (simp add: unat_word_ariths)
  have "off < 768" using o'(1) assms(2) by (simp add: word_less_nat_alt)
  then show ?thesis using o' n assms(2)
    by (simp add: rendered_def r snake_render_append_char_def take_Suc_conv_app_nth)
qed

lemma rendered_str:
  "rendered t r \<Longrightarrow> length t + length s \<le> 768 \<Longrightarrow> rendered (t @ s) (snake_render_append_str s r)"
proof (induction s arbitrary: t r)
  case (Cons c s)
  obtain off buf where r: "r = (off, buf)" by fastforce
  have "off < 768" using Cons.prems by (simp add: rendered_def r word_less_nat_alt)
  then have e: "snake_render_append_str (c # s) r = snake_render_append_str s (snake_render_append_char c r)"
    by (simp add: r snake_render_append_char_def)
  have "rendered (t @ [c]) (snake_render_append_char c r)" by (rule rendered_char) (use Cons.prems in simp_all)
  from Cons.IH [OF this] Cons.prems(2) show ?case unfolding e by simp
qed simp

lemma rendered_fold:
  "rendered t r \<Longrightarrow> length t + length xs \<le> 768 \<Longrightarrow> rendered (t @ map f xs) (foldl (\<lambda>r x. snake_render_append_char (f x) r) r xs)"
proof (induction xs arbitrary: t r)
  case (Cons x xs)
  have "rendered (t @ [f x]) (snake_render_append_char (f x) r)" by (rule rendered_char) (use Cons.prems in simp_all)
  from Cons.IH [OF this] Cons.prems(2) show ?case by simp
qed simp

definition u32_text :: "u32 \<Rightarrow> string" where
  "u32_text v = dec (unat v)"

lemma u32_text_digits: "u32_text v = (if v = 0 then ''0'' else rev (u32_digits 10 v))"
proof -
  have "unat v < 10 ^ 10" by (rule less_trans [OF unat_u32_lt]) simp
  then have "v \<noteq> 0 \<Longrightarrow> rev (u32_digits 10 v) = dec (unat v)" by (intro u32_digits_dec) (simp_all add: unat_gt_0)
  moreover have "dec 0 = ''0''" by code_simp
  ultimately show ?thesis by (auto simp: u32_text_def)
qed

lemma length_u32_text: "length (u32_text v) \<le> 10"
  using length_u32_digits [of 10 v] by (simp add: u32_text_digits)

lemma rendered_u32:
  "rendered t r \<Longrightarrow> length t + 10 \<le> 768 \<Longrightarrow> rendered (t @ u32_text v) (snake_render_append_u32 v r)"
  using rendered_fold [of t r "rev (u32_digits 10 v)" "\<lambda>c. c"] rendered_char [of t r "CHR ''0''"] length_u32_digits [of 10 v]
  by (simp add: snake_render_append_u32_def u32_text_digits)

definition border_text :: string where
  "border_text = clear_line @ ''+'' @ replicate 20 (CHR ''-'') @ ''+'' @ crlf"

lemma rendered_border:
  assumes "rendered t r" "length t + 28 \<le> 768"
  shows "rendered (t @ border_text) (snake_render_append_border r)"
proof -
  have 1: "rendered (t @ clear_line) (snake_render_append_str clear_line r)" by (rule rendered_str) (use assms in simp_all)
  have 2: "rendered ((t @ clear_line) @ ''+'') (snake_render_append_char (CHR ''+'') (snake_render_append_str clear_line r))"
    by (rule rendered_char [OF 1]) (use assms in simp)
  note 3 = rendered_fold [OF 2, of "[0..<20]" "\<lambda>_. CHR ''-''"]
  have "rendered ((((t @ clear_line) @ ''+'') @ map (\<lambda>_. CHR ''-'') [0..<20]) @ ''+'' @ crlf) (snake_render_append_border r)"
    unfolding snake_render_append_border_def by (rule rendered_str [OF 3]) (use assms in simp_all)
  then show ?thesis by (simp add: border_text_def map_replicate_const)
qed

definition row_text :: "snake_state \<Rightarrow> nat \<Rightarrow> string" where
  "row_text s y = ''|'' @ map (\<lambda>x. snake_board_char s (of_nat x) (of_nat y)) [0..<20] @ ''|'' @ crlf"

lemma rendered_rows:
  "rendered t r \<Longrightarrow> length t + 24 * length ys \<le> 768 \<Longrightarrow>
   rendered (t @ concat (map (row_text s) ys))
     (foldl (\<lambda>r y. snake_render_append_str (''|'' @ crlf)
            (foldl (\<lambda>r x. snake_render_append_char (snake_board_char s (of_nat x) (of_nat y)) r)
              (snake_render_append_char (CHR ''|'') r) [0..<20])) r ys)"
proof (induction ys arbitrary: t r)
  case (Cons y ys)
  let ?f = "\<lambda>x. snake_board_char s (of_nat x) (of_nat y)"
  let ?r = "snake_render_append_str (''|'' @ crlf) (foldl (\<lambda>r x. snake_render_append_char (?f x) r) (snake_render_append_char (CHR ''|'') r) [0..<20])"
  have 1: "rendered (t @ ''|'') (snake_render_append_char (CHR ''|'') r)" by (rule rendered_char) (use Cons.prems in simp_all)
  note 2 = rendered_fold [OF 1, of "[0..<20]" ?f]
  have "rendered (((t @ ''|'') @ map ?f [0..<20]) @ ''|'' @ crlf) ?r"
    by (rule rendered_str [OF 2]) (use Cons.prems in simp_all)
  then have "rendered (t @ row_text s y) ?r" by (simp add: row_text_def)
  from Cons.IH [OF this] Cons.prems(2) show ?case by (simp add: row_text_def)
qed simp


definition home_text :: "bool \<Rightarrow> string" where
  "home_text full = (if full then [CHR 0x1B] @ ''[2J'' @ [CHR 0x1B] @ ''[H'' else [CHR 0x1B] @ ''[H'')"

definition status_text :: "snake_state \<Rightarrow> string" where
  "status_text s = clear_line @ ''SNAKE'' @ crlf @ clear_line @ ''mode='' @ snake_mode_name (sn_ui_mode s) @ '' score='' @
     u32_text (sn_score s) @ '' len='' @ u32_text (ucast (sn_length s)) @ '' area='' @ u32_text 20 @ ''x'' @ u32_text 12 @ crlf"

definition hint_text :: "snake_state \<Rightarrow> string" where
  "hint_text s =
     (if sn_ui_mode s = SNAKE_UI_TITLE then ''press r to start, q to quit'' @ crlf
      else if sn_ui_mode s = SNAKE_UI_PAUSED then ''paused: p resume, r restart, q quit'' @ crlf
      else if sn_ui_mode s = SNAKE_UI_GAME_OVER
      then ''game over: '' @ snake_game_over_name (sn_game_over_reason s) @ ''  press r to restart or q to quit'' @ crlf
      else ''w/a/s/d move  p pause  r restart  q quit'' @ crlf)"

definition frame_text :: "bool \<Rightarrow> snake_state \<Rightarrow> string" where
  "frame_text full s = home_text full @ status_text s @ clear_line @ hint_text s @ border_text @
     concat (map (row_text s) [0..<12]) @ border_text"

lemma length_names: "length (snake_mode_name m) \<le> 9" "length (snake_game_over_name r) \<le> 4"
  by (simp_all add: snake_mode_name_def snake_game_over_name_def)

lemma length_texts:
  "length (home_text full) \<le> 7" "length (status_text s) \<le> 93" "length (hint_text s) \<le> 50" "length border_text = 28"
proof -
  show "length (home_text full) \<le> 7" "length border_text = 28" by (simp_all add: home_text_def border_text_def)
  show "length (status_text s) \<le> 93"
    using length_names(1) [of "sn_ui_mode s"] length_u32_text [of "sn_score s"] length_u32_text [of "ucast (sn_length s)"]
      length_u32_text [of 20] length_u32_text [of 12] by (simp add: status_text_def)
  show "length (hint_text s) \<le> 50" using length_names(2) [of "sn_game_over_reason s"] by (simp add: hint_text_def)
qed

lemma rendered_status:
  assumes "rendered t r" "length t + 100 \<le> 768"
  shows "rendered (t @ status_text s) (snake_status s r)"
proof -
  note n = length_names(1) [of "sn_ui_mode s"] length_u32_text [of "sn_score s"] length_u32_text [of "ucast (sn_length s)"]
    length_u32_text [of 20] length_u32_text [of 12]
  have 1: "rendered (t @ clear_line @ ''SNAKE'' @ crlf @ clear_line @ ''mode='' @ snake_mode_name (sn_ui_mode s))
     (snake_render_append_str (snake_mode_name (sn_ui_mode s)) (snake_render_append_str ''mode='' (snake_render_append_line_start
       (snake_render_append_str (''SNAKE'' @ crlf) (snake_render_append_line_start r)))))"
    (is "rendered ?t1 ?r1")
    using rendered_str [OF rendered_str [OF rendered_str [OF rendered_str [OF rendered_str [OF assms(1), of clear_line],
       of "''SNAKE'' @ crlf"], of clear_line], of "''mode=''"], of "snake_mode_name (sn_ui_mode s)"] assms(2) n
    by (simp add: snake_render_append_line_start_def)
  have l1: "length ?t1 \<le> length t + 29" using n by simp
  have 2: "rendered (?t1 @ '' score='' @ u32_text (sn_score s))
     (snake_render_append_u32 (sn_score s) (snake_render_append_str '' score='' ?r1))" (is "rendered ?t2 ?r2")
    using rendered_u32 [OF rendered_str [OF 1, of "'' score=''"], of "sn_score s"] assms(2) l1 by simp
  have l2: "length ?t2 \<le> length t + 46" using l1 n by simp
  have 3: "rendered (?t2 @ '' len='' @ u32_text (ucast (sn_length s)))
     (snake_render_append_u32 (ucast (sn_length s)) (snake_render_append_str '' len='' ?r2))" (is "rendered ?t3 ?r3")
    using rendered_u32 [OF rendered_str [OF 2, of "'' len=''"], of "ucast (sn_length s)"] assms(2) l2 by simp
  have l3: "length ?t3 \<le> length t + 61" using l2 n by simp
  have 4: "rendered (?t3 @ '' area='' @ u32_text 20 @ ''x'' @ u32_text 12)
     (snake_render_append_u32 12 (snake_render_append_char (CHR ''x'')
        (snake_render_append_u32 20 (snake_render_append_str '' area='' ?r3))))" (is "rendered ?t4 ?r4")
    using rendered_u32 [OF rendered_char [OF rendered_u32 [OF rendered_str [OF 3, of "'' area=''"], of 20], of "CHR ''x''"], of 12]
      assms(2) l3 n by simp
  have l4: "length ?t4 \<le> length t + 88" using l3 n by simp
  have "rendered (?t4 @ crlf) (snake_render_append_str crlf ?r4)" by (rule rendered_str [OF 4]) (use l4 assms(2) in simp)
  then show ?thesis by (simp add: status_text_def snake_status_def Let_def)
qed


lemma rendered_hint:
  assumes "rendered t r" "length t + 50 \<le> 768"
  shows "rendered (t @ hint_text s) (snake_hint s r)"
proof -
  have s: "rendered (t @ x) (snake_render_append_str x r)" if "length x \<le> 50" for x
    by (rule rendered_str [OF assms(1)]) (use assms(2) that in simp)
  have "rendered (((t @ ''game over: '') @ snake_game_over_name (sn_game_over_reason s)) @ ''  press r to restart or q to quit'' @ crlf)
     (snake_render_append_str (''  press r to restart or q to quit'' @ crlf)
        (snake_render_append_str (snake_game_over_name (sn_game_over_reason s)) (snake_render_append_str ''game over: '' r)))"
    by (intro rendered_str s) (use assms(2) length_names(2) [of "sn_game_over_reason s"] in simp_all)
  then show ?thesis using s by (simp add: hint_text_def snake_hint_def)
qed

lemma rendered_board:
  assumes "rendered t r" "length t + 344 \<le> 768"
  shows "rendered (t @ border_text @ concat (map (row_text s) [0..<12]) @ border_text) (snake_render_append_board s r)"
proof -
  have 1: "rendered (t @ border_text) (snake_render_append_border r)" by (rule rendered_border) (use assms in simp_all)
  have l: "length (concat (map (row_text s) ys)) = 24 * length ys" for ys by (induction ys) (simp_all add: row_text_def)
  have 2: "rendered ((t @ border_text) @ concat (map (row_text s) [0..<12]))
     (foldl (\<lambda>r y. snake_render_append_str (''|'' @ crlf)
            (foldl (\<lambda>r x. snake_render_append_char (snake_board_char s (of_nat x) (of_nat y)) r)
              (snake_render_append_char (CHR ''|'') r) [0..<20])) (snake_render_append_border r) [0..<12])"
    by (rule rendered_rows [OF 1]) (use assms(2) in \<open>simp add: length_texts\<close>)
  have "rendered (((t @ border_text) @ concat (map (row_text s) [0..<12])) @ border_text) (snake_render_append_board s r)"
    unfolding snake_render_append_board_def
    by (rule rendered_border [OF 2]) (use assms(2) in \<open>simp add: length_texts l\<close>)
  then show ?thesis by simp
qed

text \<open>The rendered frame is never cut off.  For every state of the game the frame (cursor
  control, status line with the decimal score and length, key hint, board) is at most 522
  characters long, fits the 768-byte buffer, and is handed to the console whole.\<close>

theorem snake_frame_complete:
  assumes "length (g_snake_render_buf w) = 768"
  shows "let frame = frame_text (g_snake_full_redraw w) (g_snake_ctx w) in
    length frame \<le> 522 \<and>
    (\<exists>buf. length buf = 768 \<and>
       snake_render w = con_write frame (length frame) (w\<lparr>g_snake_render_buf := buf, g_snake_full_redraw := False\<rparr>))"
proof -
  let ?s = "g_snake_ctx w" and ?h = "home_text (g_snake_full_redraw w)"
  define F where "F = frame_text (g_snake_full_redraw w) ?s"
  note n = length_texts(1) [of "g_snake_full_redraw w"] length_texts(2) [of ?s] length_texts(3) [of ?s] length_texts(4)
  have 0: "rendered [] (0, g_snake_render_buf w)" using assms by (simp add: rendered_def)
  have 1: "rendered ?h (snake_render_append_str ?h (0, g_snake_render_buf w))" using rendered_str [OF 0, of ?h] n(1) by simp
  note 2 = rendered_status [OF 1, of ?s]
  have 3: "rendered ((?h @ status_text ?s) @ clear_line) (snake_render_append_line_start (snake_status ?s (snake_render_append_str ?h (0, g_snake_render_buf w))))"
    unfolding snake_render_append_line_start_def by (rule rendered_str [OF 2]) (use n in simp_all)
  note 4 = rendered_hint [OF 3, of ?s]
  note 5 = rendered_board [OF 4, of ?s]
  obtain off buf where r: "snake_render_append_board ?s (snake_hint ?s (snake_render_append_line_start
      (snake_status ?s (snake_render_append_str ?h (0, g_snake_render_buf w))))) = (off, buf)" by fastforce
  have f: "rendered F (off, buf)" using 5 n r by (simp add: F_def frame_text_def)
  have l: "length (concat (map (row_text ?s) ys)) = 24 * length ys" for ys by (induction ys) (simp_all add: row_text_def)
  have fl: "length F \<le> 522" "length F \<noteq> 0" using n by (simp_all add: F_def frame_text_def l)
  have o': "off = of_nat (length F)" "take (length F) buf = F" "length buf = 768"
    using f by (auto simp: rendered_def word_unat_eq_iff unat_of_nat)
  have u: "unat (of_nat (length F) :: u16) = length F" using fl by (simp add: unat_of_nat)
  have "snake_render w = snd (console_write (Some buf) off (w\<lparr>g_snake_render_buf := buf, g_snake_full_redraw := False\<rparr>))"
    using r by (simp add: snake_render_def Let_def home_text_def)
  also have "\<dots> = con_write F (length F) (w\<lparr>g_snake_render_buf := buf, g_snake_full_redraw := False\<rparr>)"
    using o' u by (simp add: con_write_def console_write_def)
  finally show ?thesis using fl o'(3) unfolding F_def [symmetric] Let_def by blast
qed

theorem snake_frame_complete_witness:
  "length (frame_text True snake_reset) \<le> 522"
proof -
  have w: "length (g_snake_render_buf snk_power_on) = 768" "g_snake_full_redraw snk_power_on" "g_snake_ctx snk_power_on = snake_reset"
    by (simp_all add: snk_power_on_def snk_world.defs cnt_world.defs)
  from snake_frame_complete [OF w(1)] w(2,3) show ?thesis by (simp add: Let_def)
qed

end
