(* ===== verification/Assembly_Line.thy ===== *)
theory Assembly_Line
  imports Snake
begin

text \<open>
  The assembly line of \<open>assembly_line_task.c\<close>: four parts are scanned, picked to the
  fixture, and finished or rejected, each operation taking 300 ticks.  After a
  restore the robot must be homed before work goes on.
\<close>

section \<open>State\<close>

record line_part =
  pt_part_id :: u16
  pt_scan_result :: u8
  pt_location :: u8
  pt_process_state :: u8
  pt_reserved :: "u8 list"

record line_state =
  ln_active :: u8
  ln_ui_mode :: u8
  ln_selected_slot :: u8
  ln_robot_state :: u8
  ln_robot_needs_home :: u8
  ln_pending_op :: u8
  ln_fixture_slot :: u8
  ln_reserved0 :: u8
  ln_current_part_seq :: u32
  ln_completed_count :: u32
  ln_rejected_count :: u32
  ln_next_tick :: u32
  ln_parts :: "line_part list"

record line_world = snk_world +
  g_assembly_line_ctx :: line_state
  g_assembly_line_sched :: bool
  g_assembly_line_state_restored :: bool
  g_assembly_line_restore_needs_stdin_rebind :: bool
  g_assembly_line_tick_pending :: bool

abbreviation (input) AO_ASSEMBLY_LINE :: u8 where "AO_ASSEMBLY_LINE \<equiv> 6"
abbreviation (input) ASSEMBLY_LINE_SIG_START :: u16 where "ASSEMBLY_LINE_SIG_START \<equiv> 15"
abbreviation (input) ASSEMBLY_LINE_SIG_TICK :: u16 where "ASSEMBLY_LINE_SIG_TICK \<equiv> 16"
abbreviation (input) ASSEMBLY_LINE_NO_SLOT :: u8 where "ASSEMBLY_LINE_NO_SLOT \<equiv> 0xFF"
abbreviation (input) ASSEMBLY_LINE_OP_TICKS :: u32 where "ASSEMBLY_LINE_OP_TICKS \<equiv> 300"
abbreviation (input) UI_RUNNING :: u8 where "UI_RUNNING \<equiv> 1"
abbreviation (input) UI_COMPLETE :: u8 where "UI_COMPLETE \<equiv> 2"
abbreviation (input) ROBOT_HOME :: u8 where "ROBOT_HOME \<equiv> 1"
abbreviation (input) ROBOT_BUSY :: u8 where "ROBOT_BUSY \<equiv> 2"
abbreviation (input) ROBOT_FIXTURE :: u8 where "ROBOT_FIXTURE \<equiv> 3"
abbreviation (input) ROBOT_HOME_REQUIRED :: u8 where "ROBOT_HOME_REQUIRED \<equiv> 4"
abbreviation (input) OP_NONE :: u8 where "OP_NONE \<equiv> 0"
abbreviation (input) OP_HOME :: u8 where "OP_HOME \<equiv> 1"
abbreviation (input) OP_SCAN :: u8 where "OP_SCAN \<equiv> 2"
abbreviation (input) OP_PICK :: u8 where "OP_PICK \<equiv> 3"
abbreviation (input) OP_FINISH :: u8 where "OP_FINISH \<equiv> 4"
abbreviation (input) OP_REJECT :: u8 where "OP_REJECT \<equiv> 5"
abbreviation (input) SCAN_PASS :: u8 where "SCAN_PASS \<equiv> 1"
abbreviation (input) SCAN_FAIL :: u8 where "SCAN_FAIL \<equiv> 2"
abbreviation (input) LOC_FIXTURE :: u8 where "LOC_FIXTURE \<equiv> 4"
abbreviation (input) LOC_GOOD_BIN :: u8 where "LOC_GOOD_BIN \<equiv> 5"
abbreviation (input) LOC_REJECT_BIN :: u8 where "LOC_REJECT_BIN \<equiv> 6"
abbreviation (input) PART_RAW :: u8 where "PART_RAW \<equiv> 0"
abbreviation (input) PART_SCANNED_OK :: u8 where "PART_SCANNED_OK \<equiv> 1"
abbreviation (input) PART_SCANNED_BAD :: u8 where "PART_SCANNED_BAD \<equiv> 2"
abbreviation (input) PART_AT_FIXTURE :: u8 where "PART_AT_FIXTURE \<equiv> 3"
abbreviation (input) PART_DONE_GOOD :: u8 where "PART_DONE_GOOD \<equiv> 4"
abbreviation (input) PART_DONE_REJECT :: u8 where "PART_DONE_REJECT \<equiv> 5"

definition upd_ln :: "(line_state \<Rightarrow> line_state) \<Rightarrow> 'a line_world_scheme \<Rightarrow> 'a line_world_scheme" where
  "upd_ln f w = w\<lparr>g_assembly_line_ctx := f (g_assembly_line_ctx w)\<rparr>"

definition line_registered :: "'a sched_scheme \<Rightarrow> bool" where
  "line_registered w \<longleftrightarrow> sc_table w ! unat AO_ASSEMBLY_LINE \<noteq> None"

definition assembly_line_zero_parts :: "line_part list" where
  "assembly_line_zero_parts = map (\<lambda>i. \<lparr> pt_part_id = 0, pt_scan_result = 0, pt_location = of_nat i, pt_process_state = PART_RAW,
     pt_reserved = [0, 0, 0] \<rparr>) [0..<4]"

definition line_reset :: line_state where
  "line_reset = \<lparr> ln_active = 0, ln_ui_mode = UI_RUNNING, ln_selected_slot = 0, ln_robot_state = ROBOT_HOME,
     ln_robot_needs_home = 0, ln_pending_op = OP_NONE, ln_fixture_slot = ASSEMBLY_LINE_NO_SLOT, ln_reserved0 = 0,
     ln_current_part_seq = 1, ln_completed_count = 0, ln_rejected_count = 0, ln_next_tick = 0,
     ln_parts = assembly_line_zero_parts \<rparr>"

definition assembly_line_task_reset_state :: "'a line_world_scheme \<Rightarrow> 'a line_world_scheme" where
  "assembly_line_task_reset_state w =
     w\<lparr>g_assembly_line_ctx := line_reset, g_assembly_line_restore_needs_stdin_rebind := False,
       g_assembly_line_tick_pending := False\<rparr>"

definition line_seed :: line_state where
  "line_seed = line_reset\<lparr>ln_active := 1, ln_current_part_seq := 5,
     ln_parts := map (\<lambda>(i, p). p\<lparr>pt_part_id := of_nat (i + 1), pt_location := of_nat i\<rparr>) (enumerate 0 assembly_line_zero_parts)\<rparr>"

definition assembly_line_seed_new_run :: "'a line_world_scheme \<Rightarrow> 'a line_world_scheme" where
  "assembly_line_seed_new_run w = upd_ln (\<lambda>_. line_seed) (assembly_line_task_reset_state w)"

definition assembly_line_state_valid :: "line_state \<Rightarrow> bool" where
  "assembly_line_state_valid s \<longleftrightarrow>
     \<not> ln_active s > 1 \<and>
     \<not> (ln_ui_mode s \<noteq> UI_RUNNING \<and> ln_ui_mode s \<noteq> UI_COMPLETE) \<and>
     \<not> ln_selected_slot s \<ge> 4 \<and>
     \<not> (ln_robot_state s < ROBOT_HOME \<or> ln_robot_state s > ROBOT_HOME_REQUIRED) \<and>
     \<not> ln_robot_needs_home s > 1 \<and>
     \<not> ln_pending_op s > OP_REJECT \<and>
     \<not> (ln_fixture_slot s \<noteq> ASSEMBLY_LINE_NO_SLOT \<and> ln_fixture_slot s \<ge> 4) \<and>
     list_all (\<lambda>p. \<not> pt_scan_result p > SCAN_FAIL \<and> \<not> pt_location p > LOC_REJECT_BIN \<and> \<not> pt_process_state p > PART_DONE_REJECT)
       (ln_parts s)"

text \<open>The blob is the memory of \<open>assembly_line_state_t\<close>: 24 bytes and four parts of 8, no padding.\<close>

definition part_bytes :: "line_part \<Rightarrow> u8 list" where
  "part_bytes p = u16_bytes (pt_part_id p) @ [pt_scan_result p, pt_location p, pt_process_state p] @ pt_reserved p"

definition bytes_part :: "u8 list \<Rightarrow> line_part" where
  "bytes_part b = \<lparr> pt_part_id = u16_at b 0, pt_scan_result = b ! 2, pt_location = b ! 3, pt_process_state = b ! 4,
     pt_reserved = take 3 (drop 5 b) \<rparr>"

definition line_bytes :: "line_state \<Rightarrow> u8 list" where
  "line_bytes s = [ln_active s, ln_ui_mode s, ln_selected_slot s, ln_robot_state s, ln_robot_needs_home s, ln_pending_op s,
     ln_fixture_slot s, ln_reserved0 s] @ u32_bytes (ln_current_part_seq s) @ u32_bytes (ln_completed_count s) @
     u32_bytes (ln_rejected_count s) @ u32_bytes (ln_next_tick s) @ concat (map part_bytes (ln_parts s))"

definition bytes_line :: "u8 list \<Rightarrow> line_state" where
  "bytes_line b = \<lparr> ln_active = b ! 0, ln_ui_mode = b ! 1, ln_selected_slot = b ! 2, ln_robot_state = b ! 3,
     ln_robot_needs_home = b ! 4, ln_pending_op = b ! 5, ln_fixture_slot = b ! 6, ln_reserved0 = b ! 7,
     ln_current_part_seq = u32_at b 8, ln_completed_count = u32_at b 12, ln_rejected_count = u32_at b 16,
     ln_next_tick = u32_at b 20, ln_parts = map (\<lambda>i. bytes_part (drop (24 + 8 * i) b)) [0..<4] \<rparr>"

definition assembly_line_task_get_state :: "'a line_world_scheme \<Rightarrow> line_state" where
  "assembly_line_task_get_state w = g_assembly_line_ctx w"

definition assembly_line_task_encode_state_blob :: "line_state option \<Rightarrow> bool \<Rightarrow> u32 option \<Rightarrow> int \<times> (u8 list \<times> u32) option" where
  "assembly_line_task_encode_state_blob statep out io_len =
     (case (statep, io_len) of
        (Some s, Some cap) \<Rightarrow>
          if \<not> out then (SCHED_ERR_PARAM, None)
          else if \<not> assembly_line_state_valid s then (SCHED_ERR_PARAM, None)
          else if cap < 56 then (SCHED_ERR_PARAM, None)
          else (SCHED_OK, Some (line_bytes s, 56))
      | _ \<Rightarrow> (SCHED_ERR_PARAM, None))"

definition assembly_line_task_decode_state_blob :: "u8 list option \<Rightarrow> u32 \<Rightarrow> int \<times> line_state option" where
  "assembly_line_task_decode_state_blob blobp len =
     (case blobp of None \<Rightarrow> (SCHED_ERR_PARAM, None)
      | Some blob \<Rightarrow>
          if len \<noteq> 56 then (SCHED_ERR_PARAM, None)
          else let s = bytes_line blob in
            if \<not> assembly_line_state_valid s then (SCHED_ERR_PARAM, Some s) else (SCHED_OK, Some s))"

section \<open>Parts\<close>

text \<open>The searches return the index of the part (the code: a pointer to it).\<close>

definition part_done :: "line_part \<Rightarrow> bool" where
  "part_done p \<longleftrightarrow> pt_process_state p = PART_DONE_GOOD \<or> pt_process_state p = PART_DONE_REJECT"

definition assembly_line_find_part_in_location :: "line_state \<Rightarrow> u8 \<Rightarrow> nat option" where
  "assembly_line_find_part_in_location s loc =
     find (\<lambda>i. pt_location (ln_parts s ! i) = loc \<and> pt_process_state (ln_parts s ! i) \<noteq> PART_DONE_GOOD \<and>
               pt_process_state (ln_parts s ! i) \<noteq> PART_DONE_REJECT) [0..<4]"

definition assembly_line_find_selected_part :: "line_state \<Rightarrow> nat option" where
  "assembly_line_find_selected_part s = assembly_line_find_part_in_location s (ln_selected_slot s)"

definition assembly_line_find_fixture_part :: "line_state \<Rightarrow> nat option" where
  "assembly_line_find_fixture_part s = assembly_line_find_part_in_location s LOC_FIXTURE"

definition assembly_line_scan_name :: "u8 \<Rightarrow> string" where
  "assembly_line_scan_name r = (if r = SCAN_PASS then ''PASS'' else if r = SCAN_FAIL then ''FAIL'' else ''--'')"

definition assembly_line_part_state_name :: "u8 \<Rightarrow> string" where
  "assembly_line_part_state_name s =
     (if s = PART_RAW then ''RAW'' else if s = PART_SCANNED_OK then ''SCANNED_OK'' else if s = PART_SCANNED_BAD then ''SCANNED_BAD''
      else if s = PART_AT_FIXTURE then ''FIXTURE'' else if s = PART_DONE_GOOD then ''GOOD''
      else if s = PART_DONE_REJECT then ''REJECT'' else ''?'')"

definition assembly_line_robot_state_name :: "u8 \<Rightarrow> string" where
  "assembly_line_robot_state_name s =
     (if s = ROBOT_HOME then ''HOME'' else if s = ROBOT_BUSY then ''BUSY'' else if s = ROBOT_FIXTURE then ''FIXTURE''
      else if s = ROBOT_HOME_REQUIRED then ''HOME_REQUIRED'' else ''?'')"

definition assembly_line_op_name :: "u8 \<Rightarrow> string" where
  "assembly_line_op_name p =
     (if p = OP_HOME then ''HOME'' else if p = OP_SCAN then ''SCAN'' else if p = OP_PICK then ''PICK''
      else if p = OP_FINISH then ''FINISH'' else if p = OP_REJECT then ''REJECT'' else ''NONE'')"

definition assembly_line_all_parts_done :: "line_state \<Rightarrow> bool" where
  "assembly_line_all_parts_done s =
     list_all (\<lambda>i. \<not> (pt_process_state (ln_parts s ! i) \<noteq> PART_DONE_GOOD \<and> pt_process_state (ln_parts s ! i) \<noteq> PART_DONE_REJECT)) [0..<4]"

definition assembly_line_check_complete :: "line_state \<Rightarrow> line_state" where
  "assembly_line_check_complete s =
     (if assembly_line_all_parts_done s \<and> ln_fixture_slot s = ASSEMBLY_LINE_NO_SLOT \<and> ln_pending_op s = OP_NONE
      then s\<lparr>ln_ui_mode := UI_COMPLETE, ln_robot_state := ROBOT_HOME, ln_robot_needs_home := 0\<rparr> else s)"


section \<open>Rendering\<close>

abbreviation (input) con_u32 :: "u32 \<Rightarrow> 'a line_world_scheme \<Rightarrow> 'a line_world_scheme" where
  "con_u32 v w \<equiv> snd (console_put_u32 v w)"

definition part_line :: "line_part \<Rightarrow> 'a line_world_scheme \<Rightarrow> 'a line_world_scheme" where
  "part_line p w =
     con_puts crlf (con_puts (assembly_line_part_state_name (pt_process_state p)) (con_puts '' state=''
       (con_puts (assembly_line_scan_name (pt_scan_result p)) (con_puts '' scan=''
         (con_u32 (ucast (pt_part_id p)) (con_puts ''part='' w))))))"

definition assembly_line_render_slot :: "u8 \<Rightarrow> 'a line_world_scheme \<Rightarrow> 'a line_world_scheme" where
  "assembly_line_render_slot slot w =
     (let w1 = con_puts (if ln_selected_slot (g_assembly_line_ctx w) = slot then ''>'' else '' '') w;
          w2 = con_puts '': '' (con_u32 (ucast slot) (con_puts '' SLOT'' w1))
      in case assembly_line_find_part_in_location (g_assembly_line_ctx w) slot of
           None \<Rightarrow> con_puts (''(empty)'' @ crlf) w2
         | Some i \<Rightarrow> part_line (ln_parts (g_assembly_line_ctx w2) ! i) w2)"

definition assembly_line_render_fixture :: "'a line_world_scheme \<Rightarrow> 'a line_world_scheme" where
  "assembly_line_render_fixture w =
     (let w1 = con_puts ''  FIXTURE: '' w
      in case assembly_line_find_fixture_part (g_assembly_line_ctx w) of
           None \<Rightarrow> con_puts (''(empty)'' @ crlf) w1
         | Some i \<Rightarrow> part_line (ln_parts (g_assembly_line_ctx w1) ! i) w1)"

definition line_status :: "'a line_world_scheme \<Rightarrow> 'a line_world_scheme" where
  "line_status w =
     (if ln_robot_needs_home (g_assembly_line_ctx w) \<noteq> 0
      then con_puts (''status: HOME REQUIRED before work can continue'' @ crlf) w
      else if ln_ui_mode (g_assembly_line_ctx w) = UI_COMPLETE then con_puts (''status: COMPLETE, press q to exit'' @ crlf) w
      else con_puts (''status: ready'' @ crlf) w)"

definition assembly_line_render :: "'a line_world_scheme \<Rightarrow> 'a line_world_scheme" where
  "assembly_line_render w =
     (let w1 = con_puts (''ASSEMBLY LINE'' @ crlf) (con_puts ([CHR 0x1B] @ ''[2J'' @ [CHR 0x1B] @ ''[H'') w);
          w2 = con_puts (assembly_line_robot_state_name (ln_robot_state (g_assembly_line_ctx w1))) (con_puts ''robot='' w1);
          w3 = con_puts (assembly_line_op_name (ln_pending_op (g_assembly_line_ctx w2))) (con_puts '' pending='' w2);
          w4 = con_u32 (ln_completed_count (g_assembly_line_ctx w3)) (con_puts '' completed='' w3);
          w5 = con_puts crlf (con_u32 (ln_rejected_count (g_assembly_line_ctx w4)) (con_puts '' rejected='' w4));
          w6 = assembly_line_render_fixture (foldl (\<lambda>w slot. assembly_line_render_slot slot w) (line_status w5) [0, 1, 2, 3])
      in con_puts (''keys: a/d select  s scan  p pick  f finish-good  x reject  h home  q quit'' @ crlf) (con_puts crlf w6))"

section \<open>Operations of the robot\<close>

definition assembly_line_stop :: "'a line_world_scheme \<Rightarrow> 'a line_world_scheme" where
  "assembly_line_stop w =
     (let w1 = (upd_ln (\<lambda>s. s\<lparr>ln_active := 0, ln_pending_op := OP_NONE, ln_next_tick := 0\<rparr>) w)
                 \<lparr>g_assembly_line_tick_pending := False, g_assembly_line_restore_needs_stdin_rebind := False\<rparr>;
          w2 = snd (terminal_stdin_release AO_ASSEMBLY_LINE w1)
      in if g_assembly_line_sched w2 then snd (sched_unregister AO_ASSEMBLY_LINE w2) else w2)"

definition assembly_line_begin_op :: "u8 \<Rightarrow> 'a line_world_scheme \<Rightarrow> 'a line_world_scheme" where
  "assembly_line_begin_op opc w =
     assembly_line_render ((upd_ln (\<lambda>s. s\<lparr>ln_pending_op := opc, ln_robot_state := ROBOT_BUSY,
         ln_next_tick := systick_now w + ASSEMBLY_LINE_OP_TICKS\<rparr>) w)\<lparr>g_assembly_line_tick_pending := False\<rparr>)"

definition upd_part :: "nat \<Rightarrow> (line_part \<Rightarrow> line_part) \<Rightarrow> line_state \<Rightarrow> line_state" where
  "upd_part i f s = s\<lparr>ln_parts := (ln_parts s)[i := f (ln_parts s ! i)]\<rparr>"

text \<open>The part found, when it is in one of the given process states.\<close>

definition part_when :: "nat option \<Rightarrow> (u8 \<Rightarrow> bool) \<Rightarrow> line_state \<Rightarrow> nat option" where
  "part_when r ok s = (case r of None \<Rightarrow> None | Some i \<Rightarrow> if ok (pt_process_state (ln_parts s ! i)) then Some i else None)"

definition scan_part :: "line_part \<Rightarrow> line_part" where
  "scan_part p =
     (let r = (if pt_part_id p AND 1 \<noteq> 0 then SCAN_PASS else SCAN_FAIL)
      in p\<lparr>pt_scan_result := r, pt_process_state := (if r = SCAN_PASS then PART_SCANNED_OK else PART_SCANNED_BAD)\<rparr>)"

definition assembly_line_finish_scan :: "'a line_world_scheme \<Rightarrow> 'a line_world_scheme" where
  "assembly_line_finish_scan w =
     (let s = g_assembly_line_ctx w in
      case part_when (assembly_line_find_selected_part s) (\<lambda>st. st = PART_RAW) s of
        None \<Rightarrow> con_puts (''line: nothing raw in selected slot'' @ crlf) w
      | Some i \<Rightarrow> upd_ln (\<lambda>s. (upd_part i scan_part s)\<lparr>ln_robot_state := ROBOT_HOME\<rparr>) w)"

definition assembly_line_finish_pick :: "'a line_world_scheme \<Rightarrow> 'a line_world_scheme" where
  "assembly_line_finish_pick w =
     (let s = g_assembly_line_ctx w in
      if ln_fixture_slot s \<noteq> ASSEMBLY_LINE_NO_SLOT then con_puts (''line: fixture occupied'' @ crlf) w
      else case part_when (assembly_line_find_selected_part s) (\<lambda>st. st = PART_SCANNED_OK \<or> st = PART_SCANNED_BAD) s of
        None \<Rightarrow> con_puts (''line: selected slot needs scanned part'' @ crlf) w
      | Some i \<Rightarrow> upd_ln (\<lambda>s. (upd_part i (\<lambda>p. p\<lparr>pt_location := LOC_FIXTURE, pt_process_state := PART_AT_FIXTURE\<rparr>) s)
            \<lparr>ln_fixture_slot := ln_selected_slot s, ln_robot_state := ROBOT_FIXTURE\<rparr>) w)"

definition assembly_line_finish_good :: "'a line_world_scheme \<Rightarrow> 'a line_world_scheme" where
  "assembly_line_finish_good w =
     (let s = g_assembly_line_ctx w in
      case assembly_line_find_fixture_part s of
        None \<Rightarrow> con_puts (''line: fixture empty'' @ crlf) w
      | Some i \<Rightarrow>
          if pt_scan_result (ln_parts s ! i) \<noteq> SCAN_PASS then con_puts (''line: only PASS parts can finish good'' @ crlf) w
          else upd_ln (\<lambda>s. (upd_part i (\<lambda>p. p\<lparr>pt_location := LOC_GOOD_BIN, pt_process_state := PART_DONE_GOOD\<rparr>) s)
            \<lparr>ln_fixture_slot := ASSEMBLY_LINE_NO_SLOT, ln_completed_count := ln_completed_count s + 1,
              ln_robot_state := ROBOT_HOME\<rparr>) w)"

definition reject_part :: "line_part \<Rightarrow> line_part" where
  "reject_part p = p\<lparr>pt_location := LOC_REJECT_BIN, pt_process_state := PART_DONE_REJECT\<rparr>"

definition assembly_line_finish_reject :: "'a line_world_scheme \<Rightarrow> 'a line_world_scheme" where
  "assembly_line_finish_reject w =
     (let s = g_assembly_line_ctx w in
      case assembly_line_find_fixture_part s of
        Some i \<Rightarrow> upd_ln (\<lambda>s. (upd_part i reject_part s)\<lparr>ln_fixture_slot := ASSEMBLY_LINE_NO_SLOT,
            ln_rejected_count := ln_rejected_count s + 1, ln_robot_state := ROBOT_HOME\<rparr>) w
      | None \<Rightarrow>
          (case part_when (assembly_line_find_selected_part s) (\<lambda>st. st = PART_SCANNED_BAD) s of
             None \<Rightarrow> con_puts (''line: selected slot has nothing to reject'' @ crlf) w
           | Some i \<Rightarrow> upd_ln (\<lambda>s. (upd_part i reject_part s)
                 \<lparr>ln_rejected_count := ln_rejected_count s + 1, ln_robot_state := ROBOT_HOME\<rparr>) w))"

definition assembly_line_complete_pending_op :: "'a line_world_scheme \<Rightarrow> 'a line_world_scheme" where
  "assembly_line_complete_pending_op w =
     (let opc = ln_pending_op (g_assembly_line_ctx w);
          w1 = (upd_ln (\<lambda>s. s\<lparr>ln_pending_op := OP_NONE, ln_next_tick := 0\<rparr>) w)\<lparr>g_assembly_line_tick_pending := False\<rparr>;
          w2 = (if opc = OP_HOME then upd_ln (\<lambda>s. s\<lparr>ln_robot_state := ROBOT_HOME, ln_robot_needs_home := 0\<rparr>) w1
                else if opc = OP_SCAN then assembly_line_finish_scan w1
                else if opc = OP_PICK then assembly_line_finish_pick w1
                else if opc = OP_FINISH then assembly_line_finish_good w1
                else if opc = OP_REJECT then assembly_line_finish_reject w1
                else w1)
      in assembly_line_render (upd_ln assembly_line_check_complete w2))"

definition line_key :: "u8 \<Rightarrow> 'a line_world_scheme \<Rightarrow> 'a line_world_scheme" where
  "line_key key w =
     (let s = g_assembly_line_ctx w in
      if key_is key 0x71 0x51 then assembly_line_stop w
      else if ln_pending_op s \<noteq> OP_NONE then w
      else if key_is key 0x61 0x41
      then assembly_line_render (upd_ln (\<lambda>s. s\<lparr>ln_selected_slot := ucast ((ucast (ln_selected_slot s) + 4 - 1 :: u32) mod 4)\<rparr>) w)
      else if key_is key 0x64 0x44
      then assembly_line_render (upd_ln (\<lambda>s. s\<lparr>ln_selected_slot := ucast ((ucast (ln_selected_slot s) + 1 :: u32) mod 4)\<rparr>) w)
      else if key_is key 0x68 0x48 then assembly_line_begin_op OP_HOME w
      else if ln_robot_needs_home s \<noteq> 0 then con_puts (''line: press h to home robot first'' @ crlf) w
      else if ln_ui_mode s = UI_COMPLETE then con_puts (''line: complete, press q to exit'' @ crlf) w
      else if key_is key 0x73 0x53 then assembly_line_begin_op OP_SCAN w
      else if key_is key 0x70 0x50 then assembly_line_begin_op OP_PICK w
      else if key_is key 0x66 0x46 then assembly_line_begin_op OP_FINISH w
      else if key_is key 0x78 0x58 then assembly_line_begin_op OP_REJECT w
      else w)"

definition assembly_line_task_dispatch :: "event option \<Rightarrow> 'a line_world_scheme \<Rightarrow> 'a line_world_scheme" where
  "assembly_line_task_dispatch ep w =
     (case ep of None \<Rightarrow> w
      | Some e \<Rightarrow>
          if ev_sig e = ASSEMBLY_LINE_SIG_START
          then if ln_active (g_assembly_line_ctx w) \<noteq> 0 then con_puts (''line: busy'' @ crlf) w
               else assembly_line_render (assembly_line_seed_new_run w)
          else if ln_active (g_assembly_line_ctx w) = 0 then w
          else if ev_sig e = ASSEMBLY_LINE_SIG_TICK then assembly_line_complete_pending_op w
          else if ev_sig e \<noteq> TERM_SIG_STDIN_RAW then w
          else line_key (ucast (ev_arg0 e)) w)"


section \<open>Registration, saving and restoring\<close>

definition assembly_line_task_restore_state :: "line_state option \<Rightarrow> 'a line_world_scheme \<Rightarrow> int \<times> 'a line_world_scheme" where
  "assembly_line_task_restore_state inp w =
     (case inp of None \<Rightarrow> (SCHED_ERR_PARAM, w)
      | Some s \<Rightarrow>
          if \<not> assembly_line_state_valid s then (SCHED_ERR_PARAM, w)
          else if ln_active s = 0
          then let w1 = assembly_line_task_reset_state w;
                   w2 = (if g_assembly_line_sched w1 \<and> line_registered w1 then snd (sched_unregister AO_ASSEMBLY_LINE w1) else w1)
               in (SCHED_OK, w2\<lparr>g_assembly_line_state_restored := False\<rparr>)
          else (SCHED_OK,
                w\<lparr>g_assembly_line_ctx := s\<lparr>ln_pending_op := OP_NONE, ln_next_tick := 0,
                    ln_robot_state := (if ln_ui_mode s = UI_COMPLETE then ROBOT_HOME else ROBOT_HOME_REQUIRED),
                    ln_robot_needs_home := (if ln_ui_mode s = UI_COMPLETE then 0 else 1)\<rparr>,
                  g_assembly_line_tick_pending := False, g_assembly_line_state_restored := True\<rparr>))"

definition assembly_line_task_restore_rebind_stdin_if_needed :: "'a line_world_scheme \<Rightarrow> 'a line_world_scheme" where
  "assembly_line_task_restore_rebind_stdin_if_needed w =
     (if \<not> g_assembly_line_restore_needs_stdin_rebind w then w
      else if ln_active (g_assembly_line_ctx w) = 0 then w\<lparr>g_assembly_line_restore_needs_stdin_rebind := False\<rparr>
      else if \<not> g_assembly_line_sched w \<or> \<not> line_registered w then w
      else case terminal_stdin_acquire AO_ASSEMBLY_LINE TERM_STDIN_MODE_RAW w of (rc, w1) \<Rightarrow>
        if rc = SCHED_OK \<or> rc = SCHED_ERR_EXISTS
        then assembly_line_render (w1\<lparr>g_assembly_line_restore_needs_stdin_rebind := False\<rparr>) else w1)"

definition assembly_line_task_register :: "u32 \<Rightarrow> u32 \<Rightarrow> event list \<Rightarrow> bool \<Rightarrow> 'a line_world_scheme \<Rightarrow> int \<times> 'a line_world_scheme" where
  "assembly_line_task_register fn cx st sched w =
     (if \<not> sched then (SCHED_ERR_PARAM, w)
      else
        let w1 = w\<lparr>g_assembly_line_sched := True\<rparr>;
            w2 = (if \<not> g_assembly_line_state_restored w1 then assembly_line_task_reset_state w1 else w1);
            w3 = w2\<lparr>g_assembly_line_state_restored := False\<rparr>;
            w4 = (if ln_active (g_assembly_line_ctx w3) \<noteq> 0 then w3\<lparr>g_assembly_line_restore_needs_stdin_rebind := True\<rparr> else w3)
        in case sched_register_task (Some \<lparr> ts_id = AO_ASSEMBLY_LINE, ts_prio = 2, ts_dispatch = fn, ts_ctx = cx,
               ts_queue_storage = Some st, ts_queue_capacity = 8, ts_rtc_budget_ticks = 1,
               ts_name = Some ''line'' \<rparr>) w4 of (rc, w5) \<Rightarrow>
             (if rc = SCHED_ERR_EXISTS then SCHED_OK else rc, w5))"

definition assembly_line_task_request_start :: "'a line_world_scheme \<Rightarrow> int \<times> 'a line_world_scheme" where
  "assembly_line_task_request_start w =
     (if \<not> g_assembly_line_sched w then (SCHED_ERR_PARAM, w)
      else if g_cmd_bg_ctx w \<noteq> 0 then (SCHED_ERR_DISABLED, w)
      else case terminal_stdin_acquire AO_ASSEMBLY_LINE TERM_STDIN_MODE_RAW w of (rc, w1) \<Rightarrow>
        if rc \<noteq> SCHED_OK then (rc, w1)
        else case sched_post AO_ASSEMBLY_LINE (Some (sig_event ASSEMBLY_LINE_SIG_START)) w1 of (rc, w2) \<Rightarrow>
          if rc \<noteq> SCHED_OK then (rc, snd (terminal_stdin_release AO_ASSEMBLY_LINE w2))
          else (SCHED_OK, w2\<lparr>g_assembly_line_restore_needs_stdin_rebind := False, g_cmd_fg_async := 1\<rparr>))"

definition assembly_line_task_systick_hook :: "'a line_world_scheme \<Rightarrow> 'a line_world_scheme" where
  "assembly_line_task_systick_hook w =
     (if \<not> g_assembly_line_sched w then w
      else if \<not> line_registered w
      then (upd_ln (\<lambda>s. s\<lparr>ln_active := 0, ln_pending_op := OP_NONE, ln_next_tick := 0\<rparr>) w)\<lparr>g_assembly_line_tick_pending := False\<rparr>
      else if ln_active (g_assembly_line_ctx w) = 0 \<or> ln_pending_op (g_assembly_line_ctx w) = OP_NONE \<or>
        g_assembly_line_tick_pending w \<or> ln_next_tick (g_assembly_line_ctx w) = 0 then w
      else if sint (systick_now w - ln_next_tick (g_assembly_line_ctx w)) < 0 then w
      else case sched_post_isr AO_ASSEMBLY_LINE (Some (sig_event ASSEMBLY_LINE_SIG_TICK)) w of (rc, w1) \<Rightarrow>
        if rc = SCHED_OK then w1\<lparr>g_assembly_line_tick_pending := True\<rparr> else w1)"

definition assembly_line_restore_get_state_fn :: "bool \<Rightarrow> u32 option \<Rightarrow> 'a line_world_scheme \<Rightarrow> int \<times> (u8 list \<times> u32) option" where
  "assembly_line_restore_get_state_fn out io_len w =
     (if \<not> out \<or> io_len = None then (SCHED_ERR_PARAM, None)
      else if ln_active (assembly_line_task_get_state w) = 0 then (SCHED_ERR_NOT_FOUND, None)
      else assembly_line_task_encode_state_blob (Some (assembly_line_task_get_state w)) out io_len)"

definition assembly_line_restore_apply_state_fn :: "u8 list option \<Rightarrow> u32 \<Rightarrow> 'a line_world_scheme \<Rightarrow> int \<times> 'a line_world_scheme" where
  "assembly_line_restore_apply_state_fn blobp len w =
     (case assembly_line_task_decode_state_blob blobp len of (rc, so) \<Rightarrow>
        if rc \<noteq> SCHED_OK then (rc, w)
        else case assembly_line_task_restore_state so w of (rc, w1) \<Rightarrow>
          if rc \<noteq> SCHED_OK then (rc, w1)
          else if ln_active (g_assembly_line_ctx w1) = 0 then (SCHED_OK, w1)
          else case terminal_stdin_acquire AO_ASSEMBLY_LINE TERM_STDIN_MODE_RAW
                 (w1\<lparr>g_assembly_line_restore_needs_stdin_rebind := False\<rparr>) of (rc, w2) \<Rightarrow>
            if rc = SCHED_OK \<or> rc = SCHED_ERR_EXISTS then (SCHED_OK, assembly_line_render w2)
            else (SCHED_OK, w2\<lparr>g_assembly_line_restore_needs_stdin_rebind := True\<rparr>))"

section \<open>The frame of the state\<close>

lemma con_more_line: "con_world.more w' = con_world.more w \<Longrightarrow> g_assembly_line_ctx w' = g_assembly_line_ctx w"
  by (cases w; cases w') simp

lemma term_more_line: "term_world.more w' = term_world.more w \<Longrightarrow> g_assembly_line_ctx w' = g_assembly_line_ctx w"
  by (cases w; cases w') simp

lemmas line_ctx_lower [simp] = con_call_more [THEN con_more_line] console_put_u32_more [THEN con_more_line]
  term_more_stdin [THEN term_more_line]
  sched_unregister_more [THEN sched_more_above, THEN term_more_line] sched_post_more [THEN sched_more_above, THEN term_more_line]
  sched_register_more [THEN sched_more_above, THEN term_more_line]

lemma line_ctx_upd [simp]: "g_assembly_line_ctx (upd_ln f w) = f (g_assembly_line_ctx w)" "systick_now (upd_ln f w) = systick_now w"
  by (simp_all add: upd_ln_def systick_now_def)

lemma line_ctx_render [simp]: "g_assembly_line_ctx (assembly_line_render w) = g_assembly_line_ctx w"
proof -
  have p: "g_assembly_line_ctx (part_line q u) = g_assembly_line_ctx u" for q and u :: "'a line_world_scheme"
    by (simp add: part_line_def)
  then have s: "g_assembly_line_ctx (assembly_line_render_slot k u) = g_assembly_line_ctx u" for k and u :: "'a line_world_scheme"
    by (simp add: assembly_line_render_slot_def Let_def split: option.split)
  have f: "g_assembly_line_ctx (assembly_line_render_fixture u) = g_assembly_line_ctx u" for u :: "'a line_world_scheme"
    by (simp add: assembly_line_render_fixture_def p Let_def split: option.split)
  have t: "g_assembly_line_ctx (line_status u) = g_assembly_line_ctx u" for u :: "'a line_world_scheme"
    by (simp add: line_status_def)
  show ?thesis by (simp add: assembly_line_render_def Let_def s f t)
qed


section \<open>What the state always says\<close>

definition part_count :: "u8 \<Rightarrow> line_state \<Rightarrow> nat" where
  "part_count st s = length (filter (\<lambda>p. pt_process_state p = st) (ln_parts s))"

text \<open>A part that has been scanned carries the result its id gives: odd passes.\<close>

definition graded :: "line_part \<Rightarrow> bool" where
  "graded p \<longleftrightarrow> pt_scan_result p = (if pt_part_id p AND 1 \<noteq> 0 then SCAN_PASS else SCAN_FAIL)"

definition part_ok :: "u8 \<Rightarrow> nat \<Rightarrow> line_part \<Rightarrow> bool" where
  "part_ok fixture i p \<longleftrightarrow> length (pt_reserved p) = 3 \<and>
     (pt_process_state p = PART_RAW \<and> pt_location p = of_nat i \<and> pt_scan_result p = 0 \<or>
      pt_process_state p = PART_SCANNED_OK \<and> pt_location p = of_nat i \<and> graded p \<and> pt_scan_result p = SCAN_PASS \<or>
      pt_process_state p = PART_SCANNED_BAD \<and> pt_location p = of_nat i \<and> graded p \<and> pt_scan_result p = SCAN_FAIL \<or>
      pt_process_state p = PART_AT_FIXTURE \<and> pt_location p = LOC_FIXTURE \<and> graded p \<and> fixture = of_nat i \<or>
      pt_process_state p = PART_DONE_GOOD \<and> pt_location p = LOC_GOOD_BIN \<and> graded p \<and> pt_scan_result p = SCAN_PASS \<or>
      pt_process_state p = PART_DONE_REJECT \<and> pt_location p = LOC_REJECT_BIN \<and> graded p)"

definition line_ranges :: "line_state \<Rightarrow> bool" where
  "line_ranges s \<longleftrightarrow> ln_active s \<le> 1 \<and> ln_ui_mode s \<in> {UI_RUNNING, UI_COMPLETE} \<and> ln_selected_slot s < 4 \<and>
     ln_robot_state s \<in> {ROBOT_HOME, ROBOT_BUSY, ROBOT_FIXTURE, ROBOT_HOME_REQUIRED} \<and> ln_robot_needs_home s \<le> 1 \<and>
     ln_pending_op s \<le> OP_REJECT"

definition line_fixture :: "line_state \<Rightarrow> bool" where
  "line_fixture s \<longleftrightarrow> ln_fixture_slot s = ASSEMBLY_LINE_NO_SLOT \<or>
     (\<exists>i<4. ln_fixture_slot s = of_nat i \<and> pt_process_state (ln_parts s ! i) = PART_AT_FIXTURE)"

definition line_inv :: "line_state \<Rightarrow> bool" where
  "line_inv s \<longleftrightarrow> line_ranges s \<and> length (ln_parts s) = 4 \<and> (\<forall>i<4. part_ok (ln_fixture_slot s) i (ln_parts s ! i)) \<and>
     line_fixture s \<and> ln_completed_count s = of_nat (part_count PART_DONE_GOOD s) \<and>
     ln_rejected_count s = of_nat (part_count PART_DONE_REJECT s) \<and>
     (ln_ui_mode s = UI_COMPLETE \<longrightarrow> assembly_line_all_parts_done s)"

lemma slot_eq: "i < 4 \<Longrightarrow> j < 4 \<Longrightarrow> (of_nat i :: u8) = of_nat j \<longleftrightarrow> i = j" "i < 4 \<Longrightarrow> (of_nat i :: u8) \<noteq> 0xFF"
  "i < 4 \<Longrightarrow> (of_nat i :: u8) < 4"
proof -
  have u: "i < 4 \<Longrightarrow> unat (of_nat i :: u8) = i" for i by (simp add: unat_of_nat)
  show "i < 4 \<Longrightarrow> j < 4 \<Longrightarrow> (of_nat i :: u8) = of_nat j \<longleftrightarrow> i = j" using u by metis
  show "i < 4 \<Longrightarrow> (of_nat i :: u8) \<noteq> 0xFF" using u [of i] by auto
  show "i < 4 \<Longrightarrow> (of_nat i :: u8) < 4" using u [of i] by (simp add: word_less_nat_alt)
qed

lemma slot_cases: "(x :: u8) < 4 \<Longrightarrow> \<exists>i<4. x = of_nat i"
  by (rule exI [of _ "unat x"]) (simp add: word_less_nat_alt)

lemma line_ranges_bounds:
  assumes "line_ranges s"
  shows "\<not> ln_active s > 1" "\<not> (ln_ui_mode s \<noteq> UI_RUNNING \<and> ln_ui_mode s \<noteq> UI_COMPLETE)" "\<not> ln_selected_slot s \<ge> 4"
    "\<not> (ln_robot_state s < ROBOT_HOME \<or> ln_robot_state s > ROBOT_HOME_REQUIRED)" "\<not> ln_robot_needs_home s > 1"
    "\<not> ln_pending_op s > OP_REJECT"
  using assms by (auto simp: line_ranges_def not_less not_le)

lemma part_ok_ranges:
  assumes "part_ok f i p" "i < 4"
  shows "\<not> pt_scan_result p > SCAN_FAIL" "\<not> pt_location p > LOC_REJECT_BIN" "\<not> pt_process_state p > PART_DONE_REJECT"
proof -
  have "(of_nat i :: u8) \<le> 6" using slot_eq(3) [OF assms(2)] by (simp add: word_less_nat_alt word_le_nat_alt)
  then show "\<not> pt_location p > LOC_REJECT_BIN" using assms(1) by (auto simp: part_ok_def not_less)
  show "\<not> pt_scan_result p > SCAN_FAIL" "\<not> pt_process_state p > PART_DONE_REJECT"
    using assms(1) by (auto simp: part_ok_def graded_def split: if_splits)
qed

lemma line_inv_valid:
  assumes "line_inv s"
  shows "assembly_line_state_valid s"
proof -
  have r: "line_ranges s" and l: "length (ln_parts s) = 4" and p: "\<forall>i<4. part_ok (ln_fixture_slot s) i (ln_parts s ! i)"
    and f: "line_fixture s" using assms by (simp_all add: line_inv_def)
  have "\<not> (ln_fixture_slot s \<noteq> ASSEMBLY_LINE_NO_SLOT \<and> ln_fixture_slot s \<ge> 4)"
    using f slot_eq(3) by (auto simp: line_fixture_def not_le)
  moreover have "list_all (\<lambda>p. \<not> pt_scan_result p > SCAN_FAIL \<and> \<not> pt_location p > LOC_REJECT_BIN \<and> \<not> pt_process_state p > PART_DONE_REJECT) (ln_parts s)"
    unfolding list_all_length l using p part_ok_ranges by blast
  ultimately show ?thesis unfolding assembly_line_state_valid_def using line_ranges_bounds [OF r] by blast
qed


lemma find_part:
  assumes "assembly_line_find_part_in_location s loc = Some i"
  shows "i < 4" "pt_location (ln_parts s ! i) = loc" "\<not> part_done (ln_parts s ! i)"
  using assms by (auto simp: assembly_line_find_part_in_location_def find_Some_iff part_done_def)

lemma all_done: "assembly_line_all_parts_done s \<longleftrightarrow> (\<forall>i<4. part_done (ln_parts s ! i))"
  by (auto simp: assembly_line_all_parts_done_def part_done_def list_all_iff)

lemma line_inv_running:
  assumes "line_inv s" "assembly_line_find_part_in_location s loc = Some i"
  shows "ln_ui_mode s = UI_RUNNING"
proof -
  have "\<not> assembly_line_all_parts_done s" using find_part [OF assms(2)] by (auto simp: all_done)
  then show ?thesis using assms(1) by (auto simp: line_inv_def line_ranges_def)
qed

lemma selected_part:
  assumes "line_inv s" "assembly_line_find_selected_part s = Some i"
  shows "i < 4" "ln_selected_slot s = of_nat i" "pt_process_state (ln_parts s ! i) \<in> {PART_RAW, PART_SCANNED_OK, PART_SCANNED_BAD}"
    "ln_ui_mode s = UI_RUNNING" "part_ok (ln_fixture_slot s) i (ln_parts s ! i)"
proof -
  note f = find_part [OF assms(2) [unfolded assembly_line_find_selected_part_def]]
  show "i < 4" by (rule f(1))
  then show ok: "part_ok (ln_fixture_slot s) i (ln_parts s ! i)" using assms(1) by (simp add: line_inv_def)
  have lt: "pt_location (ln_parts s ! i) < 4" using f(2) assms(1) by (simp add: line_inv_def line_ranges_def)
  show "ln_ui_mode s = UI_RUNNING"
    using line_inv_running [OF assms(1) assms(2) [unfolded assembly_line_find_selected_part_def]] .
  show "pt_process_state (ln_parts s ! i) \<in> {PART_RAW, PART_SCANNED_OK, PART_SCANNED_BAD}" "ln_selected_slot s = of_nat i"
    using ok lt f(2,3) by (auto simp: part_ok_def part_done_def)
qed

lemma fixture_part:
  assumes "line_inv s" "assembly_line_find_fixture_part s = Some i"
  shows "i < 4" "ln_fixture_slot s = of_nat i" "pt_process_state (ln_parts s ! i) = PART_AT_FIXTURE"
    "ln_ui_mode s = UI_RUNNING" "graded (ln_parts s ! i)" "length (pt_reserved (ln_parts s ! i)) = 3"
proof -
  note f = find_part [OF assms(2) [unfolded assembly_line_find_fixture_part_def]]
  show i: "i < 4" by (rule f(1))
  then have ok: "part_ok (ln_fixture_slot s) i (ln_parts s ! i)" using assms(1) by (simp add: line_inv_def)
  have ne: "(of_nat i :: u8) \<noteq> 4" using slot_eq(3) [OF i] by auto
  show "ln_ui_mode s = UI_RUNNING"
    using line_inv_running [OF assms(1) assms(2) [unfolded assembly_line_find_fixture_part_def]] .
  show "ln_fixture_slot s = of_nat i" "pt_process_state (ln_parts s ! i) = PART_AT_FIXTURE" "graded (ln_parts s ! i)"
    "length (pt_reserved (ln_parts s ! i)) = 3"
    using ok ne f(2,3) by (auto simp: part_ok_def part_done_def)
qed

lemma count_upd:
  assumes "i < length xs" "\<not> P (xs ! i)"
  shows "length (filter P (xs[i := y])) = length (filter P xs) + (if P y then 1 else 0)"
  using assms
proof (induction xs arbitrary: i)
  case (Cons x xs)
  then show ?case by (cases i) simp_all
qed simp

text \<open>One part moves on: the invariant is checked at that part, and the counts grow by it.\<close>

lemma line_inv_move:
  assumes inv: "line_inv s" and i: "i < 4" and nd: "\<not> part_done (ln_parts s ! i)"
    and upd: "s' = s\<lparr>ln_parts := (ln_parts s)[i := q], ln_fixture_slot := f, ln_robot_state := r,
        ln_completed_count := ln_completed_count s + (if pt_process_state q = PART_DONE_GOOD then 1 else 0),
        ln_rejected_count := ln_rejected_count s + (if pt_process_state q = PART_DONE_REJECT then 1 else 0)\<rparr>"
    and q: "part_ok f i q" and others: "\<And>j. j < 4 \<Longrightarrow> j \<noteq> i \<Longrightarrow> part_ok f j (ln_parts s ! j)"
    and fx: "line_fixture s'" and r: "r \<in> {ROBOT_HOME, ROBOT_FIXTURE}" and m: "ln_ui_mode s = UI_RUNNING"
  shows "line_inv s'"
proof -
  have l: "length (ln_parts s) = 4" and c: "ln_completed_count s = of_nat (part_count PART_DONE_GOOD s)"
    "ln_rejected_count s = of_nat (part_count PART_DONE_REJECT s)" and rg: "line_ranges s"
    using inv by (simp_all add: line_inv_def)
  have n: "part_count st s' = part_count st s + (if pt_process_state q = st then 1 else 0)"
    if "st \<in> {PART_DONE_GOOD, PART_DONE_REJECT}" for st
    unfolding part_count_def upd using count_upd [of i "ln_parts s" "\<lambda>p. pt_process_state p = st" q] l i nd that
    by (auto simp: part_done_def)
  have "part_ok (ln_fixture_slot s') j (ln_parts s' ! j)" if "j < 4" for j
    using q others [OF that] that l by (cases "j = i") (simp_all add: upd)
  moreover have "line_ranges s'" using rg r m by (auto simp: line_ranges_def upd)
  moreover have "ln_completed_count s' = of_nat (part_count PART_DONE_GOOD s')" "ln_rejected_count s' = of_nat (part_count PART_DONE_REJECT s')"
    using n [of 4] n [of 5] c by (simp_all add: upd)
  ultimately show ?thesis using l fx m by (simp add: line_inv_def upd)
qed


lemma part_ok_refit: "part_ok f i p \<Longrightarrow> pt_process_state p \<noteq> PART_AT_FIXTURE \<Longrightarrow> part_ok f' i p"
  by (auto simp: part_ok_def)

lemma line_ok: "line_inv s \<Longrightarrow> j < 4 \<Longrightarrow> part_ok (ln_fixture_slot s) j (ln_parts s ! j)"
  by (simp add: line_inv_def)

lemma at_fixture: "part_ok f i p \<Longrightarrow> pt_process_state p = PART_AT_FIXTURE \<Longrightarrow> f = of_nat i"
  by (auto simp: part_ok_def)

lemma line_fixture_elsewhere:
  assumes "line_fixture s" "pt_process_state (ln_parts s ! i) \<noteq> PART_AT_FIXTURE" "ln_parts s' = (ln_parts s)[i := q]"
    "ln_fixture_slot s' = ln_fixture_slot s"
  shows "line_fixture s'"
proof (cases "ln_fixture_slot s = ASSEMBLY_LINE_NO_SLOT")
  case True
  then show ?thesis using assms(4) by (simp add: line_fixture_def)
next
  case False
  then obtain k where k: "k < 4" "ln_fixture_slot s = of_nat k" "pt_process_state (ln_parts s ! k) = PART_AT_FIXTURE"
    using assms(1) by (auto simp: line_fixture_def)
  then have "ln_parts s' ! k = ln_parts s ! k" using assms(2,3) by (metis nth_list_update_neq)
  then show ?thesis unfolding line_fixture_def using k assms(4) by metis
qed

lemma line_inv_finish_scan:
  assumes "line_inv (g_assembly_line_ctx w)"
  shows "line_inv (g_assembly_line_ctx (assembly_line_finish_scan w))"
proof (cases "part_when (assembly_line_find_selected_part (g_assembly_line_ctx w)) (\<lambda>st. st = PART_RAW) (g_assembly_line_ctx w)")
  case None
  then show ?thesis using assms by (simp add: assembly_line_finish_scan_def)
next
  case (Some i)
  let ?s = "g_assembly_line_ctx w"
  let ?p = "ln_parts ?s ! i"
  have sel: "assembly_line_find_selected_part ?s = Some i" and raw: "pt_process_state ?p = PART_RAW"
    using Some by (auto simp: part_when_def split: option.splits if_splits)
  note p = selected_part [OF assms sel]
  have q: "part_ok (ln_fixture_slot ?s) i (scan_part ?p)" "pt_process_state (scan_part ?p) \<noteq> PART_DONE_GOOD"
    "pt_process_state (scan_part ?p) \<noteq> PART_DONE_REJECT"
    using p(5) raw by (auto simp: part_ok_def scan_part_def graded_def)
  have "line_inv ((upd_part i scan_part ?s)\<lparr>ln_robot_state := ROBOT_HOME\<rparr>)"
  proof (rule line_inv_move [OF assms p(1)])
    show "\<not> part_done ?p" using raw by (simp add: part_done_def)
    show "(upd_part i scan_part ?s)\<lparr>ln_robot_state := ROBOT_HOME\<rparr> =
      ?s\<lparr>ln_parts := (ln_parts ?s)[i := scan_part ?p], ln_fixture_slot := ln_fixture_slot ?s, ln_robot_state := ROBOT_HOME,
        ln_completed_count := ln_completed_count ?s + (if pt_process_state (scan_part ?p) = PART_DONE_GOOD then 1 else 0),
        ln_rejected_count := ln_rejected_count ?s + (if pt_process_state (scan_part ?p) = PART_DONE_REJECT then 1 else 0)\<rparr>"
      using q by (simp add: upd_part_def)
    show "line_fixture ((upd_part i scan_part ?s)\<lparr>ln_robot_state := ROBOT_HOME\<rparr>)"
      by (rule line_fixture_elsewhere [of ?s i _ "scan_part ?p"]) (use assms raw in \<open>simp_all add: line_inv_def upd_part_def\<close>)
  qed (use q p(4) line_ok [OF assms] in simp_all)
  then show ?thesis by (simp add: assembly_line_finish_scan_def Some)
qed

lemma line_inv_finish_pick:
  assumes "line_inv (g_assembly_line_ctx w)"
  shows "line_inv (g_assembly_line_ctx (assembly_line_finish_pick w))"
proof (cases "ln_fixture_slot (g_assembly_line_ctx w) = ASSEMBLY_LINE_NO_SLOT")
  case False
  then show ?thesis using assms by (simp add: assembly_line_finish_pick_def)
next
  case free: True
  let ?s = "g_assembly_line_ctx w"
  let ?ok = "\<lambda>st. st = PART_SCANNED_OK \<or> st = PART_SCANNED_BAD"
  show ?thesis
  proof (cases "part_when (assembly_line_find_selected_part ?s) ?ok ?s")
    case None
    then show ?thesis using assms free by (simp add: assembly_line_finish_pick_def)
  next
    case (Some i)
    let ?p = "ln_parts ?s ! i"
    let ?q = "?p\<lparr>pt_location := LOC_FIXTURE, pt_process_state := PART_AT_FIXTURE\<rparr>"
    have sel: "assembly_line_find_selected_part ?s = Some i" and st: "?ok (pt_process_state ?p)"
      using Some by (auto simp: part_when_def split: option.splits if_splits)
    note p = selected_part [OF assms sel]
    let ?s' = "(upd_part i (\<lambda>p. p\<lparr>pt_location := LOC_FIXTURE, pt_process_state := PART_AT_FIXTURE\<rparr>) ?s)
      \<lparr>ln_fixture_slot := ln_selected_slot ?s, ln_robot_state := ROBOT_FIXTURE\<rparr>"
    have l: "length (ln_parts ?s) = 4" using assms by (simp add: line_inv_def)
    have "line_inv ?s'"
    proof (rule line_inv_move [OF assms p(1)])
      show "\<not> part_done ?p" using st by (auto simp: part_done_def)
      show "?s' = ?s\<lparr>ln_parts := (ln_parts ?s)[i := ?q], ln_fixture_slot := of_nat i, ln_robot_state := ROBOT_FIXTURE,
          ln_completed_count := ln_completed_count ?s + (if pt_process_state ?q = PART_DONE_GOOD then 1 else 0),
          ln_rejected_count := ln_rejected_count ?s + (if pt_process_state ?q = PART_DONE_REJECT then 1 else 0)\<rparr>"
        using p(2) by (simp add: upd_part_def)
      show "part_ok (of_nat i) i ?q" using p(5) st by (auto simp: part_ok_def graded_def)
      show "part_ok (of_nat i) j (ln_parts ?s ! j)" if "j < 4" "j \<noteq> i" for j
        by (rule part_ok_refit [OF line_ok [OF assms that(1)]]) (use at_fixture [OF line_ok [OF assms that(1)]] free slot_eq(2) that in auto)
      show "line_fixture ?s'" using p(1,2) l by (auto simp: line_fixture_def upd_part_def)
    qed (use p(4) in simp_all)
    then show ?thesis using free by (simp add: assembly_line_finish_pick_def Some)
  qed
qed

text \<open>The part at the fixture leaves it, for the good bin or the reject bin.\<close>

lemma line_inv_leave_fixture:
  assumes inv: "line_inv s" and at: "assembly_line_find_fixture_part s = Some i"
    and upd: "s' = s\<lparr>ln_parts := (ln_parts s)[i := q], ln_fixture_slot := ASSEMBLY_LINE_NO_SLOT, ln_robot_state := ROBOT_HOME,
        ln_completed_count := ln_completed_count s + (if pt_process_state q = PART_DONE_GOOD then 1 else 0),
        ln_rejected_count := ln_rejected_count s + (if pt_process_state q = PART_DONE_REJECT then 1 else 0)\<rparr>"
    and q: "part_ok ASSEMBLY_LINE_NO_SLOT i q"
  shows "line_inv s'"
proof (rule line_inv_move [OF inv fixture_part(1) [OF inv at] _ upd q])
  note p = fixture_part [OF inv at]
  show "\<not> part_done (ln_parts s ! i)" using p(3) by (simp add: part_done_def)
  show "part_ok ASSEMBLY_LINE_NO_SLOT j (ln_parts s ! j)" if "j < 4" "j \<noteq> i" for j
    by (rule part_ok_refit [OF line_ok [OF inv that(1)]])
      (use at_fixture [OF line_ok [OF inv that(1)]] slot_eq(1) [OF that(1) p(1)] that(2) p(2) in auto)
  show "line_fixture s'" by (simp add: line_fixture_def upd)
qed (use fixture_part(4) [OF inv at] in simp_all)

lemma line_inv_finish_good:
  assumes "line_inv (g_assembly_line_ctx w)"
  shows "line_inv (g_assembly_line_ctx (assembly_line_finish_good w))"
proof (cases "assembly_line_find_fixture_part (g_assembly_line_ctx w)")
  case None
  then show ?thesis using assms by (simp add: assembly_line_finish_good_def)
next
  case (Some i)
  let ?s = "g_assembly_line_ctx w"
  let ?p = "ln_parts ?s ! i"
  let ?q = "?p\<lparr>pt_location := LOC_GOOD_BIN, pt_process_state := PART_DONE_GOOD\<rparr>"
  have "line_inv ((upd_part i (\<lambda>p. p\<lparr>pt_location := LOC_GOOD_BIN, pt_process_state := PART_DONE_GOOD\<rparr>) ?s)
      \<lparr>ln_fixture_slot := ASSEMBLY_LINE_NO_SLOT, ln_completed_count := ln_completed_count ?s + 1, ln_robot_state := ROBOT_HOME\<rparr>)"
    if "pt_scan_result ?p = SCAN_PASS"
    by (rule line_inv_leave_fixture [OF assms Some, of _ ?q])
      (use that fixture_part(5,6) [OF assms Some] in \<open>auto simp: upd_part_def part_ok_def graded_def\<close>)
  then show ?thesis using assms by (simp add: assembly_line_finish_good_def Some)
qed

lemma line_inv_finish_reject:
  assumes "line_inv (g_assembly_line_ctx w)"
  shows "line_inv (g_assembly_line_ctx (assembly_line_finish_reject w))"
proof (cases "assembly_line_find_fixture_part (g_assembly_line_ctx w)")
  case (Some i)
  let ?s = "g_assembly_line_ctx w"
  have "line_inv ((upd_part i reject_part ?s)\<lparr>ln_fixture_slot := ASSEMBLY_LINE_NO_SLOT,
      ln_rejected_count := ln_rejected_count ?s + 1, ln_robot_state := ROBOT_HOME\<rparr>)"
    by (rule line_inv_leave_fixture [OF assms Some, of _ "reject_part (ln_parts ?s ! i)"])
      (use fixture_part(5,6) [OF assms Some] in \<open>auto simp: upd_part_def reject_part_def part_ok_def graded_def\<close>)
  then show ?thesis by (simp add: assembly_line_finish_reject_def Some)
next
  case empty: None
  let ?s = "g_assembly_line_ctx w"
  show ?thesis
  proof (cases "part_when (assembly_line_find_selected_part ?s) (\<lambda>st. st = PART_SCANNED_BAD) ?s")
    case None
    then show ?thesis using assms empty by (simp add: assembly_line_finish_reject_def)
  next
    case (Some i)
    let ?p = "ln_parts ?s ! i"
    have sel: "assembly_line_find_selected_part ?s = Some i" and st: "pt_process_state ?p = PART_SCANNED_BAD"
      using Some by (auto simp: part_when_def split: option.splits if_splits)
    note p = selected_part [OF assms sel]
    let ?s' = "(upd_part i reject_part ?s)\<lparr>ln_rejected_count := ln_rejected_count ?s + 1, ln_robot_state := ROBOT_HOME\<rparr>"
    have "line_inv ?s'"
    proof (rule line_inv_move [OF assms p(1)])
      show "\<not> part_done ?p" using st by (auto simp: part_done_def)
      show "?s' = ?s\<lparr>ln_parts := (ln_parts ?s)[i := reject_part ?p], ln_fixture_slot := ln_fixture_slot ?s, ln_robot_state := ROBOT_HOME,
          ln_completed_count := ln_completed_count ?s + (if pt_process_state (reject_part ?p) = PART_DONE_GOOD then 1 else 0),
          ln_rejected_count := ln_rejected_count ?s + (if pt_process_state (reject_part ?p) = PART_DONE_REJECT then 1 else 0)\<rparr>"
        by (simp add: upd_part_def reject_part_def)
      show "part_ok (ln_fixture_slot ?s) i (reject_part ?p)" using p(5) st by (auto simp: part_ok_def reject_part_def graded_def)
      show "line_fixture ?s'"
        by (rule line_fixture_elsewhere [of ?s i _ "reject_part ?p"]) (use assms st in \<open>simp_all add: line_inv_def upd_part_def\<close>)
    qed (use p(4) line_ok [OF assms] in simp_all)
    then show ?thesis by (simp add: assembly_line_finish_reject_def empty Some)
  qed
qed


text \<open>The other fields may change within their ranges.\<close>

lemma line_inv_keep:
  assumes "line_inv s" "line_ranges s'" "ln_parts s' = ln_parts s" "ln_fixture_slot s' = ln_fixture_slot s"
    "ln_completed_count s' = ln_completed_count s" "ln_rejected_count s' = ln_rejected_count s"
    "ln_ui_mode s' = UI_COMPLETE \<longrightarrow> assembly_line_all_parts_done s'"
  shows "line_inv s'"
  using assms by (simp add: line_inv_def part_count_def line_fixture_def)

lemma line_inv_facts:
  assumes "line_inv s"
  shows "line_ranges s" "ln_ui_mode s = UI_COMPLETE \<Longrightarrow> assembly_line_all_parts_done s"
  using assms by (simp_all add: line_inv_def)

lemma all_done_parts: "ln_parts s' = ln_parts s \<Longrightarrow> assembly_line_all_parts_done s' = assembly_line_all_parts_done s"
  by (simp add: all_done)

lemma line_inv_upd:
  assumes "line_inv s"
  shows "a \<le> 1 \<Longrightarrow> line_inv (s\<lparr>ln_active := a, ln_pending_op := OP_NONE, ln_next_tick := 0\<rparr>)"
    "line_inv (s\<lparr>ln_pending_op := OP_NONE, ln_next_tick := t\<rparr>)"
    "q \<le> OP_REJECT \<Longrightarrow> line_inv (s\<lparr>ln_pending_op := q, ln_robot_state := ROBOT_BUSY, ln_next_tick := t\<rparr>)"
    "line_inv (s\<lparr>ln_robot_state := ROBOT_HOME, ln_robot_needs_home := 0\<rparr>)"
    "k < 4 \<Longrightarrow> line_inv (s\<lparr>ln_selected_slot := k\<rparr>)"
    "line_inv (assembly_line_check_complete s)"
proof -
  note f = line_inv_facts [OF assms]
  have d: "ln_parts s' = ln_parts s \<Longrightarrow> ln_ui_mode s' = ln_ui_mode s \<Longrightarrow> ln_ui_mode s' = UI_COMPLETE \<longrightarrow> assembly_line_all_parts_done s'" for s'
    using f(2) by (simp add: all_done)
  note k = line_inv_keep [OF assms]
  show "a \<le> 1 \<Longrightarrow> line_inv (s\<lparr>ln_active := a, ln_pending_op := OP_NONE, ln_next_tick := 0\<rparr>)"
    by (rule k) (use f(1) d in \<open>simp_all add: line_ranges_def\<close>)
  show "line_inv (s\<lparr>ln_pending_op := OP_NONE, ln_next_tick := t\<rparr>)"
    by (rule k) (use f(1) d in \<open>simp_all add: line_ranges_def\<close>)
  show "q \<le> OP_REJECT \<Longrightarrow> line_inv (s\<lparr>ln_pending_op := q, ln_robot_state := ROBOT_BUSY, ln_next_tick := t\<rparr>)"
    by (rule k) (use f(1) d in \<open>simp_all add: line_ranges_def\<close>)
  show "line_inv (s\<lparr>ln_robot_state := ROBOT_HOME, ln_robot_needs_home := 0\<rparr>)"
    by (rule k) (use f(1) d in \<open>simp_all add: line_ranges_def\<close>)
  show "k < 4 \<Longrightarrow> line_inv (s\<lparr>ln_selected_slot := k\<rparr>)"
    by (rule k) (use f(1) d in \<open>simp_all add: line_ranges_def\<close>)
  have "line_inv (s\<lparr>ln_ui_mode := UI_COMPLETE, ln_robot_state := ROBOT_HOME, ln_robot_needs_home := 0\<rparr>)"
    if "assembly_line_all_parts_done s"
    by (rule k) (use f(1) that in \<open>simp_all add: line_ranges_def all_done\<close>)
  then show "line_inv (assembly_line_check_complete s)" using assms by (simp add: assembly_line_check_complete_def)
qed

lemma line_inv_complete_op:
  assumes "line_inv (g_assembly_line_ctx w)"
  shows "line_inv (g_assembly_line_ctx (assembly_line_complete_pending_op w))"
proof -
  define w1 where "w1 = (upd_ln (\<lambda>s. s\<lparr>ln_pending_op := OP_NONE, ln_next_tick := 0\<rparr>) w)\<lparr>g_assembly_line_tick_pending := False\<rparr>"
  have i: "line_inv (g_assembly_line_ctx w1)" using line_inv_upd(2) [OF assms] by (simp add: w1_def)
  show ?thesis
    unfolding assembly_line_complete_pending_op_def Let_def w1_def [symmetric]
    using i line_inv_finish_scan [OF i] line_inv_finish_pick [OF i] line_inv_finish_good [OF i] line_inv_finish_reject [OF i]
    by (simp add: line_inv_upd)
qed

lemma line_inv_begin: "line_inv (g_assembly_line_ctx w) \<Longrightarrow> opc \<le> OP_REJECT \<Longrightarrow> line_inv (g_assembly_line_ctx (assembly_line_begin_op opc w))"
  by (simp add: assembly_line_begin_op_def line_inv_upd)

lemma slot_mod: "(ucast ((x :: u32) mod 4) :: u8) < 4"
proof -
  have "unat (x mod 4) < 4" by (simp add: unat_mod)
  then show ?thesis by (simp add: word_less_nat_alt unat_ucast_u32_u8)
qed

lemma line_inv_key:
  assumes "line_inv (g_assembly_line_ctx w)"
  shows "line_inv (g_assembly_line_ctx (line_key k w))"
proof -
  have s: "line_inv (g_assembly_line_ctx (assembly_line_stop w))"
    using line_inv_upd(1) [OF assms, of 0] by (simp add: assembly_line_stop_def Let_def)
  show ?thesis unfolding line_key_def Let_def using assms s line_inv_upd(5) [OF assms slot_mod] by (simp add: line_inv_begin)
qed

lemma fresh_parts: "ln_parts line_reset = map (\<lambda>i. \<lparr> pt_part_id = 0, pt_scan_result = 0, pt_location = of_nat i,
      pt_process_state = PART_RAW, pt_reserved = [0, 0, 0] \<rparr>) [0..<4]"
  "ln_parts line_seed = map (\<lambda>i. \<lparr> pt_part_id = of_nat (i + 1), pt_scan_result = 0, pt_location = of_nat i,
      pt_process_state = PART_RAW, pt_reserved = [0, 0, 0] \<rparr>) [0..<4]"
  by (simp_all add: line_reset_def line_seed_def assembly_line_zero_parts_def upt_rec enumerate_eq_zip)

lemma line_inv_fresh: "line_inv line_reset" "line_inv line_seed"
proof -
  have c: "part_count st line_reset = 0" "part_count st line_seed = 0" if "st \<noteq> PART_RAW" for st
    using that by (auto simp: part_count_def fresh_parts filter_empty_conv)
  show "line_inv line_reset"
    using c [of 4] c [of 5] fresh_parts(1) by (simp add: line_inv_def part_ok_def line_ranges_def line_fixture_def) (simp add: line_reset_def)
  show "line_inv line_seed"
    using c [of 4] c [of 5] fresh_parts(2)
    by (simp add: line_inv_def part_ok_def line_ranges_def line_fixture_def) (simp add: line_seed_def line_reset_def)
qed


lemma line_inv_dispatch:
  assumes "line_inv (g_assembly_line_ctx w)"
  shows "line_inv (g_assembly_line_ctx (assembly_line_task_dispatch e w))"
  using assms line_inv_fresh(2) line_inv_key [OF assms] line_inv_complete_op [OF assms]
  by (simp add: assembly_line_task_dispatch_def assembly_line_seed_new_run_def split: option.split)

lemma line_inv_hook: "line_inv (g_assembly_line_ctx w) \<Longrightarrow> line_inv (g_assembly_line_ctx (assembly_line_task_systick_hook w))"
  using line_inv_upd(1) [of "g_assembly_line_ctx w" 0]
  by (simp add: assembly_line_task_systick_hook_def sched_post_isr_def case_prod_beta)

lemma line_inv_register:
  assumes "line_inv (g_assembly_line_ctx w)"
  shows "line_inv (g_assembly_line_ctx (snd (assembly_line_task_register fn cx st b w)))"
  using assms line_inv_fresh(1)
  by (simp add: assembly_line_task_register_def Let_def case_prod_beta assembly_line_task_reset_state_def)

lemma line_inv_rebind:
  assumes "line_inv (g_assembly_line_ctx w)"
  shows "line_inv (g_assembly_line_ctx (assembly_line_task_restore_rebind_stdin_if_needed w))"
  using assms by (simp add: assembly_line_task_restore_rebind_stdin_if_needed_def case_prod_beta)

lemma line_inv_request:
  assumes "line_inv (g_assembly_line_ctx w)"
  shows "line_inv (g_assembly_line_ctx (snd (assembly_line_task_request_start w)))"
  using assms by (simp add: assembly_line_task_request_start_def sched_post_def case_prod_beta)

section \<open>Saving and restoring\<close>

lemma part_bytes_roundtrip:
  assumes "length (pt_reserved p) = 3"
  shows "length (part_bytes p) = 8" "bytes_part (part_bytes p @ rest) = p"
proof -
  obtain a b c where "pt_reserved p = [a, b, c]" using assms by (auto simp: length_Suc_conv eval_nat_numeral)
  then show "length (part_bytes p) = 8" "bytes_part (part_bytes p @ rest) = p"
    by (simp_all add: part_bytes_def bytes_part_def u16_bytes_def u16_at_def u16_bytes_join)
qed


lemma line_bytes_roundtrip:
  assumes "length (ln_parts s) = 4" "\<forall>p \<in> set (ln_parts s). length (pt_reserved p) = 3"
  shows "bytes_line (line_bytes s) = s" "length (line_bytes s) = 56"
proof -
  obtain p0 p1 p2 p3 where p: "ln_parts s = [p0, p1, p2, p3]" using assms(1) by (auto simp: length_Suc_conv eval_nat_numeral)
  have r: "length (pt_reserved p0) = 3" "length (pt_reserved p1) = 3" "length (pt_reserved p2) = 3" "length (pt_reserved p3) = 3"
    using assms(2) by (simp_all add: p)
  note l = part_bytes_roundtrip(1) [OF r(1)] part_bytes_roundtrip(1) [OF r(2)] part_bytes_roundtrip(1) [OF r(3)] part_bytes_roundtrip(1) [OF r(4)]
  define h where "h = [ln_active s, ln_ui_mode s, ln_selected_slot s, ln_robot_state s, ln_robot_needs_home s, ln_pending_op s,
     ln_fixture_slot s, ln_reserved0 s] @ u32_bytes (ln_current_part_seq s) @ u32_bytes (ln_completed_count s) @
     u32_bytes (ln_rejected_count s) @ u32_bytes (ln_next_tick s)"
  have hl: "length h = 24" by (simp add: h_def)
  have b: "line_bytes s = h @ part_bytes p0 @ part_bytes p1 @ part_bytes p2 @ part_bytes p3"
    by (simp add: line_bytes_def h_def p)
  then show "length (line_bytes s) = 56" by (simp add: hl l)
  have "ln_parts (bytes_line (line_bytes s)) = ln_parts s"
    using part_bytes_roundtrip(2) [OF r(1)] part_bytes_roundtrip(2) [OF r(2)] part_bytes_roundtrip(2) [OF r(3)]
      part_bytes_roundtrip(2) [OF r(4), of "[]"]
    by (simp add: bytes_line_def b hl l p upt_rec)
  moreover have "bytes_line (line_bytes s) = s\<lparr>ln_parts := ln_parts (bytes_line (line_bytes s))\<rparr>"
    by (simp add: b bytes_line_def h_def u32_at_def u32_bytes_def bytes_u32_bytes)
  ultimately show "bytes_line (line_bytes s) = s" by simp
qed

definition line_resumed :: "line_state \<Rightarrow> line_state" where
  "line_resumed s = s\<lparr>ln_pending_op := OP_NONE, ln_next_tick := 0,
     ln_robot_state := (if ln_ui_mode s = UI_COMPLETE then ROBOT_HOME else ROBOT_HOME_REQUIRED),
     ln_robot_needs_home := (if ln_ui_mode s = UI_COMPLETE then 0 else 1)\<rparr>"

lemma line_decoded:
  assumes "line_inv s"
  shows "length (line_bytes s) = 56" "assembly_line_task_decode_state_blob (Some (line_bytes s)) 56 = (SCHED_OK, Some s)"
proof -
  have "length (ln_parts s) = 4" "\<forall>p \<in> set (ln_parts s). length (pt_reserved p) = 3"
    using assms by (auto simp: line_inv_def in_set_conv_nth part_ok_def)
  note r = line_bytes_roundtrip [OF this]
  show "length (line_bytes s) = 56" by (rule r(2))
  show "assembly_line_task_decode_state_blob (Some (line_bytes s)) 56 = (SCHED_OK, Some s)"
    using line_inv_valid [OF assms] r by (simp add: assembly_line_task_decode_state_blob_def)
qed

lemma line_saved:
  assumes "line_inv (g_assembly_line_ctx w0)" "ln_active (g_assembly_line_ctx w0) \<noteq> 0" "56 \<le> cap"
  shows "assembly_line_restore_get_state_fn True (Some cap) w0 = (SCHED_OK, Some (line_bytes (g_assembly_line_ctx w0), 56))"
    "length (line_bytes (g_assembly_line_ctx w0)) = 56"
    "fst (assembly_line_restore_apply_state_fn (Some (line_bytes (g_assembly_line_ctx w0))) 56 w) = SCHED_OK"
    "g_assembly_line_ctx (snd (assembly_line_restore_apply_state_fn (Some (line_bytes (g_assembly_line_ctx w0))) 56 w))
       = line_resumed (g_assembly_line_ctx w0)"
proof -
  let ?s = "g_assembly_line_ctx w0"
  have v: "assembly_line_state_valid ?s" by (rule line_inv_valid [OF assms(1)])
  show "length (line_bytes ?s) = 56" by (rule line_decoded(1) [OF assms(1)])
  show "assembly_line_restore_get_state_fn True (Some cap) w0 = (SCHED_OK, Some (line_bytes ?s, 56))"
    using assms(2,3) v by (simp add: assembly_line_restore_get_state_fn_def assembly_line_task_get_state_def
        assembly_line_task_encode_state_blob_def not_less)
  note dec = line_decoded(2) [OF assms(1)]
  have w1: "fst (assembly_line_task_restore_state (Some ?s) w) = SCHED_OK"
    "g_assembly_line_ctx (snd (assembly_line_task_restore_state (Some ?s) w)) = line_resumed ?s"
    using v assms(2) by (simp_all add: assembly_line_task_restore_state_def line_resumed_def)
  show "fst (assembly_line_restore_apply_state_fn (Some (line_bytes ?s)) 56 w) = SCHED_OK"
    "g_assembly_line_ctx (snd (assembly_line_restore_apply_state_fn (Some (line_bytes ?s)) 56 w)) = line_resumed ?s"
    using assms(2) w1 by (simp_all add: assembly_line_restore_apply_state_fn_def dec case_prod_beta line_resumed_def)
qed

lemma line_inv_resumed:
  assumes "line_inv s"
  shows "line_inv (line_resumed s)"
  by (rule line_inv_keep [OF assms])
    (use line_inv_facts [OF assms] in \<open>auto simp: line_resumed_def line_ranges_def all_done\<close>)

datatype line_op = Line_Deliver "event option" | Line_Tick | Line_Register u32 u32 "event list" | Line_Rebind | Line_Start
  | Line_Reload

text \<open>\<open>Line_Reload\<close> saves the running line and applies the blob again, as a rewind does.\<close>

fun line_act :: "line_op \<Rightarrow> 'a line_world_scheme \<Rightarrow> 'a line_world_scheme" where
  "line_act (Line_Deliver e) w = assembly_line_task_dispatch e w"
| "line_act Line_Tick w = assembly_line_task_systick_hook w"
| "line_act (Line_Register fn cx st) w = snd (assembly_line_task_register fn cx st True w)"
| "line_act Line_Rebind w = assembly_line_task_restore_rebind_stdin_if_needed w"
| "line_act Line_Start w = snd (assembly_line_task_request_start w)"
| "line_act Line_Reload w =
     (case assembly_line_restore_get_state_fn True (Some 56) w of
        (rc, Some (blob, len)) \<Rightarrow> snd (assembly_line_restore_apply_state_fn (Some blob) len w)
      | (rc, None) \<Rightarrow> w)"

lemma line_inv_act:
  assumes "line_inv (g_assembly_line_ctx w)"
  shows "line_inv (g_assembly_line_ctx (line_act p w))"
proof (cases p)
  case Line_Reload
  show ?thesis
  proof (cases "ln_active (g_assembly_line_ctx w) = 0")
    case True
    then show ?thesis using assms by (simp add: Line_Reload assembly_line_restore_get_state_fn_def assembly_line_task_get_state_def)
  next
    case False
    note s = line_saved [OF assms False, of 56]
    show ?thesis using s(1) s(4) [of w] line_inv_resumed [OF assms] by (simp add: Line_Reload)
  qed
qed (simp_all add: assms line_inv_dispatch line_inv_hook line_inv_register line_inv_rebind line_inv_request)

text \<open>C34: the line's bookkeeping is exact.  Over any sequence of events, keys, timer ticks,
  registrations, starts and rewinds: the counters are the numbers of parts in the good
  and the reject bin, every part in the good bin passed its scan, at most one part is at
  the fixture and the fixture slot names it, the line is complete only when every part
  is binned, and the state stays valid for the encoder.\<close>

theorem line_books_exact:
  assumes "line_inv (g_assembly_line_ctx w)"
  shows "let s = g_assembly_line_ctx (foldl (\<lambda>w p. line_act p w) w ops) in
    assembly_line_state_valid s \<and> length (ln_parts s) = 4 \<and>
    ln_completed_count s = of_nat (length (filter (\<lambda>p. pt_process_state p = PART_DONE_GOOD) (ln_parts s))) \<and>
    ln_rejected_count s = of_nat (length (filter (\<lambda>p. pt_process_state p = PART_DONE_REJECT) (ln_parts s))) \<and>
    (\<forall>p \<in> set (ln_parts s). pt_process_state p = PART_DONE_GOOD \<longrightarrow> pt_scan_result p = SCAN_PASS \<and> pt_part_id p AND 1 \<noteq> 0) \<and>
    (\<forall>i<4. pt_process_state (ln_parts s ! i) = PART_AT_FIXTURE \<longleftrightarrow> ln_fixture_slot s = of_nat i) \<and>
    (ln_ui_mode s = UI_COMPLETE \<longrightarrow> (\<forall>p \<in> set (ln_parts s). part_done p))"
proof -
  define s where "s = g_assembly_line_ctx (foldl (\<lambda>w p. line_act p w) w ops)"
  have inv: "line_inv s" unfolding s_def using assms by (induction ops arbitrary: w) (simp_all add: line_inv_act)
  then have l: "length (ln_parts s) = 4" and c: "ln_completed_count s = of_nat (part_count PART_DONE_GOOD s)"
    "ln_rejected_count s = of_nat (part_count PART_DONE_REJECT s)" and f: "line_fixture s" by (simp_all add: line_inv_def)
  have good: "pt_scan_result p = SCAN_PASS \<and> pt_part_id p AND 1 \<noteq> 0" if "p \<in> set (ln_parts s)" "pt_process_state p = PART_DONE_GOOD" for p
  proof -
    note m = that
    obtain i where "i < 4" "p = ln_parts s ! i" using m(1) by (auto simp: in_set_conv_nth l)
    then show ?thesis using line_ok [OF inv, of i] m(2) by (auto simp: part_ok_def graded_def split: if_splits)
  qed
  have fix_iff: "pt_process_state (ln_parts s ! i) = PART_AT_FIXTURE \<longleftrightarrow> ln_fixture_slot s = of_nat i" if "i < 4" for i
  proof
    show "pt_process_state (ln_parts s ! i) = PART_AT_FIXTURE \<Longrightarrow> ln_fixture_slot s = of_nat i"
      by (rule at_fixture [OF line_ok [OF inv that]])
    have n: "(of_nat i :: u8) \<noteq> 0xFF" by (rule slot_eq(2) [OF that])
    assume "ln_fixture_slot s = of_nat i"
    moreover from this obtain k where "k < 4" "ln_fixture_slot s = of_nat k" "pt_process_state (ln_parts s ! k) = PART_AT_FIXTURE"
      using f n unfolding line_fixture_def by metis
    ultimately show "pt_process_state (ln_parts s ! i) = PART_AT_FIXTURE" using slot_eq(1) [OF that] by metis
  qed
  have comp: "part_done p" if "ln_ui_mode s = UI_COMPLETE" "p \<in> set (ln_parts s)" for p
    using line_inv_facts(2) [OF inv that(1)] that(2) unfolding all_done by (auto simp: in_set_conv_nth l)
  show ?thesis
    unfolding s_def [symmetric] Let_def using line_inv_valid [OF inv] l c [unfolded part_count_def] good fix_iff comp by blast
qed

definition line_power_on :: line_world where
  "line_power_on = snk_world.extend snk_power_on (line_world.fields line_reset True False False False)"

lemma line_power_on_inv: "line_inv (g_assembly_line_ctx line_power_on)"
  using line_inv_fresh(1) by (simp add: line_power_on_def line_world.defs snk_world.defs)

abbreviation (input) line_press :: "u32 \<Rightarrow> line_op" where
  "line_press k \<equiv> Line_Deliver (Some ((sig_event TERM_SIG_STDIN_RAW)\<lparr>ev_arg0 := k\<rparr>))"

abbreviation (input) line_timer :: line_op where
  "line_timer \<equiv> Line_Deliver (Some (sig_event ASSEMBLY_LINE_SIG_TICK))"

theorem line_books_exact_witness:
  "let s = g_assembly_line_ctx (foldl (\<lambda>w p. line_act p w) line_power_on
     [Line_Deliver (Some (sig_event ASSEMBLY_LINE_SIG_START)), line_press 0x73, line_timer, line_press 0x70, line_timer,
      line_press 0x66, line_timer]) in
    ln_completed_count s = of_nat (length (filter (\<lambda>p. pt_process_state p = PART_DONE_GOOD) (ln_parts s))) \<and>
    ln_rejected_count s = of_nat (length (filter (\<lambda>p. pt_process_state p = PART_DONE_REJECT) (ln_parts s)))"
  using line_books_exact [OF line_power_on_inv,
      of "[Line_Deliver (Some (sig_event ASSEMBLY_LINE_SIG_START)), line_press 0x73, line_timer, line_press 0x70, line_timer,
      line_press 0x66, line_timer]"]
  unfolding Let_def by blast



end
