(* ===== verification/Snapshot_Format.thy ===== *)
theory Snapshot_Format
  imports Rwos_Disk
begin

text \<open>
  The snapshot slot on the card, as \<open>snapshot_task.c\<close> writes it and
  \<open>boot_terminal.c\<close> reads it.  A slot is a header block, the payload and, in its
  last block, a commit.  The payload is PAY0, then for each region of memory a
  RGS0 block, the data blocks and a RGE0 block, then PAYE.  Every block that is
  not data holds a few words followed by their checksum.
\<close>

abbreviation (input) SNAP_HDR_MAGIC :: u32 where "SNAP_HDR_MAGIC \<equiv> 0x50414E53"
abbreviation (input) SNAP_CMIT_MAGIC :: u32 where "SNAP_CMIT_MAGIC \<equiv> 0x54494D43"
abbreviation (input) SNAP_FMT_VERSION :: u32 where "SNAP_FMT_VERSION \<equiv> 1"
abbreviation (input) SNAP_HDR_WORDS :: nat where "SNAP_HDR_WORDS \<equiv> 7"
abbreviation (input) SNAP_CMIT_WORDS :: nat where "SNAP_CMIT_WORDS \<equiv> 4"
abbreviation (input) SNAP_PAY0_MAGIC :: u32 where "SNAP_PAY0_MAGIC \<equiv> 0x30594150"
abbreviation (input) SNAP_PAYE_MAGIC :: u32 where "SNAP_PAYE_MAGIC \<equiv> 0x45594150"
abbreviation (input) SNAP_RGS0_MAGIC :: u32 where "SNAP_RGS0_MAGIC \<equiv> 0x30534752"
abbreviation (input) SNAP_RGE0_MAGIC :: u32 where "SNAP_RGE0_MAGIC \<equiv> 0x30454752"
abbreviation (input) SNAP_PAY0_WORDS :: nat where "SNAP_PAY0_WORDS \<equiv> 7"
abbreviation (input) SNAP_PAYE_WORDS :: nat where "SNAP_PAYE_WORDS \<equiv> 4"
abbreviation (input) SNAP_RGS0_WORDS :: nat where "SNAP_RGS0_WORDS \<equiv> 4"
abbreviation (input) SNAP_RGE0_WORDS :: nat where "SNAP_RGE0_WORDS \<equiv> 5"
abbreviation (input) SNAPSHOT_STACK_EXCLUDE_BYTES :: u32 where "SNAPSHOT_STACK_EXCLUDE_BYTES \<equiv> 8192"
abbreviation (input) fnv_init :: u32 where "fnv_init \<equiv> 2166136261"

section \<open>Checksums\<close>

definition checksum_words :: "u32 list \<Rightarrow> u32" where
  "checksum_words ws = foldl (\<lambda>h w. (h XOR w) * 16777619) fnv_init ws XOR 0xA5A55A5A"

definition checksum_bytes_update :: "u32 \<Rightarrow> u8 list \<Rightarrow> u32" where
  "checksum_bytes_update h bs = foldl (\<lambda>h b. (h XOR ucast b) * 16777619) h bs"

definition checksum_bytes_finalize :: "u32 \<Rightarrow> u32" where
  "checksum_bytes_finalize h = h XOR 0xA5A55A5A"

lemma checksum_bytes_append:
  "checksum_bytes_update h (xs @ ys) = checksum_bytes_update (checksum_bytes_update h xs) ys"
  by (simp add: checksum_bytes_update_def)

section \<open>Sealed blocks\<close>

text \<open>A structure of a few words, zero-filled, whose checksum follows the words.\<close>

definition sealed :: "u32 list \<Rightarrow> block" where
  "sealed ws = words_bytes (ws @ [checksum_words ws] @ replicate (127 - length ws) 0)"

text \<open>The checksum test that every reader makes on the first \<open>n\<close> words.\<close>

definition seal_ok :: "nat \<Rightarrow> block \<Rightarrow> bool" where
  "seal_ok n b \<longleftrightarrow> word_at b n = checksum_words (take n (bytes_words b))"

lemma sealed_word: "i < length ws \<Longrightarrow> word_at (sealed ws) i = ws ! i"
  by (simp add: sealed_def nth_append del: words_bytes_simps)

lemma sealed_ok: "length ws = n \<Longrightarrow> seal_ok n (sealed ws)"
  by (auto simp: seal_ok_def sealed_def word_at_def bytes_words_append)

lemma length_sealed: "length ws \<le> 127 \<Longrightarrow> length (sealed ws) = 512"
  by (simp add: sealed_def)

definition hdr_block :: "u32 \<Rightarrow> u32 \<Rightarrow> u32 \<Rightarrow> u32 \<Rightarrow> block" where
  "hdr_block seq slot plba pblocks = sealed [SNAP_HDR_MAGIC, SNAP_FMT_VERSION, seq, slot, plba, pblocks, 1]"

definition cmit_block :: "u32 \<Rightarrow> u32 \<Rightarrow> block" where
  "cmit_block seq slot = sealed [SNAP_CMIT_MAGIC, SNAP_FMT_VERSION, seq, slot]"

definition pay0_block :: "u32 \<Rightarrow> u32 \<Rightarrow> u32 \<Rightarrow> u32 \<Rightarrow> u32 \<Rightarrow> block" where
  "pay0_block reason tick ready count bytes = sealed [SNAP_PAY0_MAGIC, SNAP_FMT_VERSION, reason, tick, ready, count, bytes]"

definition paye_block :: "u32 \<Rightarrow> u32 \<Rightarrow> block" where
  "paye_block count bytes = sealed [SNAP_PAYE_MAGIC, SNAP_FMT_VERSION, count, bytes]"

definition rgs_block :: "u32 \<Rightarrow> u32 \<Rightarrow> block" where
  "rgs_block addr len = sealed [SNAP_RGS0_MAGIC, SNAP_FMT_VERSION, addr, len]"

definition rge_block :: "u32 \<Rightarrow> u32 \<Rightarrow> u32 \<Rightarrow> block" where
  "rge_block addr len crc = sealed [SNAP_RGE0_MAGIC, SNAP_FMT_VERSION, addr, len, crc]"

lemmas snap_blocks = hdr_block_def cmit_block_def pay0_block_def paye_block_def rgs_block_def rge_block_def

lemma snap_block_seals:
  "seal_ok 7 (hdr_block a b c d)" "seal_ok 4 (cmit_block a b)" "seal_ok 7 (pay0_block a b c d e)"
  "seal_ok 4 (paye_block a b)" "seal_ok 4 (rgs_block a b)" "seal_ok 5 (rge_block a b c)"
  by (simp_all add: snap_blocks sealed_ok)

lemma snap_block_words:
  "word_at (hdr_block a b c d) 0 = SNAP_HDR_MAGIC" "word_at (hdr_block a b c d) 1 = 1" "word_at (hdr_block a b c d) 2 = a"
  "word_at (hdr_block a b c d) 3 = b" "word_at (hdr_block a b c d) 4 = c" "word_at (hdr_block a b c d) 5 = d"
  "word_at (cmit_block a b) 0 = SNAP_CMIT_MAGIC" "word_at (cmit_block a b) 1 = 1" "word_at (cmit_block a b) 2 = a"
  "word_at (cmit_block a b) 3 = b"
  "word_at (pay0_block a b c d e) 0 = SNAP_PAY0_MAGIC" "word_at (pay0_block a b c d e) 1 = 1" "word_at (pay0_block a b c d e) 5 = d"
  "word_at (pay0_block a b c d e) 6 = e"
  "word_at (paye_block a b) 0 = SNAP_PAYE_MAGIC" "word_at (paye_block a b) 1 = 1" "word_at (paye_block a b) 2 = a"
  "word_at (paye_block a b) 3 = b"
  "word_at (rgs_block a b) 0 = SNAP_RGS0_MAGIC" "word_at (rgs_block a b) 1 = 1" "word_at (rgs_block a b) 2 = a"
  "word_at (rgs_block a b) 3 = b"
  "word_at (rge_block a b c) 0 = SNAP_RGE0_MAGIC" "word_at (rge_block a b c) 1 = 1" "word_at (rge_block a b c) 2 = a"
  "word_at (rge_block a b c) 3 = b" "word_at (rge_block a b c) 4 = c"
  by (simp_all add: snap_blocks sealed_word)

section \<open>Regions\<close>

record region_span =
  rs_start :: u32
  rs_len :: u32

text \<open>The two excluded spans: the linker's scratch section, clipped to the SRAM, and the
  window at the top of the SRAM where the stack lives.\<close>

definition exclude_scratch :: "u32 \<Rightarrow> u32 \<Rightarrow> (u32 \<times> u32) list" where
  "exclude_scratch xs xe =
     (let s = (if xs < sram_start then sram_start else xs); e = (if xe > sram_end then sram_end else xe)
      in if e > s then [(s, e)] else [])"

definition exclude_stack :: "(u32 \<times> u32) list" where
  "exclude_stack =
     (let e = sram_end;
          s0 = (if e > SNAPSHOT_STACK_EXCLUDE_BYTES then e - SNAPSHOT_STACK_EXCLUDE_BYTES else sram_start);
          s = (if s0 < sram_start then sram_start else s0)
      in if e > s then [(s, e)] else [])"

definition order_spans :: "(u32 \<times> u32) list \<Rightarrow> (u32 \<times> u32) list" where
  "order_spans ex = (case ex of [a, b] \<Rightarrow> if fst b < fst a then [b, a] else [a, b] | _ \<Rightarrow> ex)"

definition merge_spans :: "(u32 \<times> u32) list \<Rightarrow> (u32 \<times> u32) list" where
  "merge_spans ex =
     (case ex of [a, b] \<Rightarrow> if fst b \<le> snd a then [(fst a, if snd b > snd a then snd b else snd a)] else [a, b] | _ \<Rightarrow> ex)"

fun gap_loop :: "nat \<Rightarrow> (u32 \<times> u32) list \<Rightarrow> u32 \<Rightarrow> region_span list \<Rightarrow> (region_span list \<times> u32) option" where
  "gap_loop maxr [] cursor regions = Some (regions, cursor)"
| "gap_loop maxr ((s, e) # ex) cursor regions =
     (let next_cursor = (if cursor < e then e else cursor) in
      if cursor < s
      then if length regions \<ge> maxr then None
           else gap_loop maxr ex next_cursor (regions @ [\<lparr> rs_start = cursor, rs_len = s - cursor \<rparr>])
      else gap_loop maxr ex next_cursor regions)"

text \<open>The empty list is the result 0 of the function; the total is the sum of the lengths.\<close>

definition snapshot_build_regions :: "u32 \<Rightarrow> u32 \<Rightarrow> nat \<Rightarrow> region_span list" where
  "snapshot_build_regions xs xe maxr =
     (if maxr = 0 then []
      else if sram_end \<le> sram_start then []
      else case gap_loop maxr (merge_spans (order_spans (exclude_scratch xs xe @ exclude_stack))) sram_start [] of
        None \<Rightarrow> []
      | Some (regions, cursor) \<Rightarrow>
          if cursor < sram_end \<and> length regions \<ge> maxr then []
          else
            let all = (if cursor < sram_end then regions @ [\<lparr> rs_start = cursor, rs_len = sram_end - cursor \<rparr>] else regions)
            in if all = [] \<and> sram_end > sram_start then [\<lparr> rs_start = sram_start, rs_len = sram_end - sram_start \<rparr>] else all)"

definition region_total :: "region_span list \<Rightarrow> u32" where
  "region_total rs = foldl (\<lambda>t r. t + rs_len r) 0 rs"

definition div_round_up_u32 :: "u32 \<Rightarrow> u32 \<Rightarrow> u32" where
  "div_round_up_u32 n d = (if d = 0 then 0 else (n + d - 1) div d)"

definition required_blocks :: "region_span list \<Rightarrow> u32" where
  "required_blocks rs = foldl (\<lambda>t r. t + 2 + div_round_up_u32 (rs_len r) 512) 2 rs"

section \<open>What the regions are\<close>

definition in_region :: "u32 \<Rightarrow> region_span \<Rightarrow> bool" where
  "in_region a r \<longleftrightarrow> unat (rs_start r) \<le> unat a \<and> unat a < unat (rs_start r) + unat (rs_len r)"

text \<open>The start of the stack window.\<close>

abbreviation (input) stack_low :: u32 where "stack_low \<equiv> 0x2004DFC0"

lemma exclude_stack: "exclude_stack = [(stack_low, sram_end)]"
  by (simp add: exclude_stack_def)

lemma exclude_scratch_cases:
  obtains (none) "exclude_scratch xs xe = []" "xe \<le> sram_start \<or> sram_end \<le> xs \<or> xe \<le> xs"
  | (span) s e where "exclude_scratch xs xe = [(s, e)]" "sram_start \<le> s" "s < e" "e \<le> sram_end"
      "s = (if xs < sram_start then sram_start else xs)" "e = (if xe > sram_end then sram_end else xe)"
proof (cases "exclude_scratch xs xe = []")
  case True
  then have "xe \<le> sram_start \<or> sram_end \<le> xs \<or> xe \<le> xs"
    by (auto simp: exclude_scratch_def Let_def word_less_nat_alt word_le_nat_alt split: if_splits)
  with True none show ?thesis by blast
next
  case False
  then show ?thesis
    by (intro span [of "if xs < sram_start then sram_start else xs" "if xe > sram_end then sram_end else xe"])
      (auto simp: exclude_scratch_def Let_def word_less_nat_alt word_le_nat_alt split: if_splits)
qed

text \<open>The regions captured, by where the scratch section lies.\<close>

lemma build_regions_cases:
  obtains (whole) "exclude_scratch xs xe = [] \<or> (\<exists>s e. exclude_scratch xs xe = [(s, e)] \<and> stack_low < s)"
      "snapshot_build_regions xs xe 4 = [\<lparr> rs_start = sram_start, rs_len = stack_low - sram_start \<rparr>]"
  | (front) s e where "exclude_scratch xs xe = [(s, e)]" "sram_start < s" "s \<le> stack_low" "stack_low \<le> e"
      "snapshot_build_regions xs xe 4 = [\<lparr> rs_start = sram_start, rs_len = s - sram_start \<rparr>]"
  | (both) s e where "exclude_scratch xs xe = [(s, e)]" "sram_start < s" "s < e" "e < stack_low"
      "snapshot_build_regions xs xe 4 =
        [\<lparr> rs_start = sram_start, rs_len = s - sram_start \<rparr>, \<lparr> rs_start = e, rs_len = stack_low - e \<rparr>]"
  | (back_part) e where "exclude_scratch xs xe = [(sram_start, e)]" "sram_start < e" "e < stack_low"
      "snapshot_build_regions xs xe 4 = [\<lparr> rs_start = e, rs_len = stack_low - e \<rparr>]"
  | (covered) e where "exclude_scratch xs xe = [(sram_start, e)]" "stack_low \<le> e"
      "snapshot_build_regions xs xe 4 = [\<lparr> rs_start = sram_start, rs_len = sram_end - sram_start \<rparr>]"
proof (cases rule: exclude_scratch_cases [of xs xe, case_names none span])
  case none
  have "snapshot_build_regions xs xe 4 = [\<lparr> rs_start = sram_start, rs_len = stack_low - sram_start \<rparr>]"
    by (simp add: snapshot_build_regions_def exclude_stack none(1) order_spans_def merge_spans_def)
  with none whole show ?thesis by blast
next
  case (span s e)
  note d = snapshot_build_regions_def exclude_stack span(1) order_spans_def merge_spans_def
  consider "stack_low < s" | "s \<le> stack_low" "stack_low \<le> e" "sram_start < s" | "s \<le> stack_low" "e < stack_low" "sram_start < s"
    | "s = sram_start" "stack_low \<le> e" | "s = sram_start" "e < stack_low"
    using span(2) by fastforce
  then show ?thesis
  proof cases
    case 1
    have "snapshot_build_regions xs xe 4 = [\<lparr> rs_start = sram_start, rs_len = stack_low - sram_start \<rparr>]"
      using 1 span(3,4) by (auto simp: d)
    with 1 span(1) whole show ?thesis by blast
  next
    case 2
    have "snapshot_build_regions xs xe 4 = [\<lparr> rs_start = sram_start, rs_len = s - sram_start \<rparr>]"
      using 2 span(3,4) by (auto simp: d)
    with 2 span(1) front show ?thesis by blast
  next
    case 3
    have "snapshot_build_regions xs xe 4 =
        [\<lparr> rs_start = sram_start, rs_len = s - sram_start \<rparr>, \<lparr> rs_start = e, rs_len = stack_low - e \<rparr>]"
      using 3 span(3,4) by (auto simp: d)
    with 3 span(1,3) both show ?thesis by blast
  next
    case 4
    have "snapshot_build_regions xs xe 4 = [\<lparr> rs_start = sram_start, rs_len = sram_end - sram_start \<rparr>]"
      using 4 span(3,4) by (auto simp: d)
    then show ?thesis using 4 span(1) by (intro covered [of e]) simp_all
  next
    case 5
    have "snapshot_build_regions xs xe 4 = [\<lparr> rs_start = e, rs_len = stack_low - e \<rparr>]"
      using 5 span(3,4) by (auto simp: d)
    then show ?thesis using 5 span(1,3) by (intro back_part [of e]) simp_all
  qed
qed

lemma build_regions_ok:
  "snapshot_build_regions xs xe 4 \<noteq> []" "length (snapshot_build_regions xs xe 4) \<le> 2"
  "\<forall>r \<in> set (snapshot_build_regions xs xe 4). sram_start \<le> rs_start r \<and> unat (rs_start r) + unat (rs_len r) \<le> unat sram_end \<and> rs_len r \<noteq> 0"
  "(\<Sum>r\<leftarrow>snapshot_build_regions xs xe 4. unat (rs_len r)) \<le> 327616"
proof -
  have d: "unat (y - x) = unat y - unat x" if "x < y" for x y :: u32
    using that by (simp add: unat_sub less_imp_le)
  have "snapshot_build_regions xs xe 4 \<noteq> [] \<and> length (snapshot_build_regions xs xe 4) \<le> 2 \<and>
    (\<forall>r \<in> set (snapshot_build_regions xs xe 4). sram_start \<le> rs_start r \<and> unat (rs_start r) + unat (rs_len r) \<le> unat sram_end \<and> rs_len r \<noteq> 0) \<and>
    (\<Sum>r\<leftarrow>snapshot_build_regions xs xe 4. unat (rs_len r)) \<le> 327616"
    by (cases rule: build_regions_cases [of xs xe, case_names whole front both back_part covered])
      (auto simp: d word_less_nat_alt word_le_nat_alt)
  then show "snapshot_build_regions xs xe 4 \<noteq> []" "length (snapshot_build_regions xs xe 4) \<le> 2"
    "\<forall>r \<in> set (snapshot_build_regions xs xe 4). sram_start \<le> rs_start r \<and> unat (rs_start r) + unat (rs_len r) \<le> unat sram_end \<and> rs_len r \<noteq> 0"
    "(\<Sum>r\<leftarrow>snapshot_build_regions xs xe 4. unat (rs_len r)) \<le> 327616" by blast+
qed


section \<open>The payload as a list of blocks\<close>

text \<open>A region is copied in chunks of at most 512 bytes.  Interrupts run between the
  copies, so each chunk sees memory at its own time: \<open>mem k\<close> is the memory at the
  \<open>k\<close>-th copy.\<close>

function chunks :: "(nat \<Rightarrow> u32 \<Rightarrow> u8) \<Rightarrow> u32 \<Rightarrow> nat \<Rightarrow> u8 list list" where
  "chunks mem a len =
     (if len = 0 then []
      else let n = min len 512
           in map (\<lambda>i. mem 0 (a + of_nat i)) [0..<n] # chunks (\<lambda>k. mem (Suc k)) (a + of_nat n) (len - n))"
  by pat_completeness auto
termination by (relation "measure (\<lambda>(_, _, len). len)") auto

declare chunks.simps [simp del]

lemma chunks_0 [simp]: "chunks mem a 0 = []"
  by (simp add: chunks.simps)

definition padded :: "u8 list \<Rightarrow> block" where
  "padded bs = bs @ replicate (512 - length bs) 0"

definition region_chunks :: "(nat \<Rightarrow> u32 \<Rightarrow> u8) \<Rightarrow> region_span \<Rightarrow> u8 list list" where
  "region_chunks mem r = chunks mem (rs_start r) (unat (rs_len r))"

definition region_blocks :: "(nat \<Rightarrow> u32 \<Rightarrow> u8) \<Rightarrow> region_span \<Rightarrow> block list" where
  "region_blocks mem r =
     rgs_block (rs_start r) (rs_len r) # map padded (region_chunks mem r) @
     [rge_block (rs_start r) (rs_len r) (checksum_bytes_finalize (checksum_bytes_update fnv_init (concat (region_chunks mem r))))]"

fun regions_blocks :: "(nat \<Rightarrow> u32 \<Rightarrow> u8) \<Rightarrow> region_span list \<Rightarrow> block list" where
  "regions_blocks mem [] = []"
| "regions_blocks mem (r # rs) = region_blocks mem r @ regions_blocks (\<lambda>k. mem (k + length (region_chunks mem r))) rs"

definition payload_list :: "(nat \<Rightarrow> u32 \<Rightarrow> u8) \<Rightarrow> region_span list \<Rightarrow> u32 \<Rightarrow> u32 \<Rightarrow> u32 \<Rightarrow> block list" where
  "payload_list mem rs reason tick ready =
     pay0_block reason tick ready (of_nat (length rs)) (region_total rs) # regions_blocks mem rs @
     [paye_block (of_nat (length rs)) (region_total rs)]"

lemma length_chunks: "length (chunks mem a len) = (len + 511) div 512"
proof (induction mem a len rule: chunks.induct)
  case (1 mem a len)
  show ?case
  proof (cases "len = 0")
    case False
    let ?n = "min len 512"
    have "length (chunks mem a len) = Suc ((len - ?n + 511) div 512)"
      using "1.IH" [OF False refl] False by (subst chunks.simps) (simp add: Let_def)
    also have "\<dots> = (len + 511) div 512"
    proof (cases "len \<le> 512")
      case False
      then have "(len + 511) div 512 = ((len - 512 + 511) + 512) div 512" by simp
      then show ?thesis using False by simp
    qed (use False in \<open>simp add: min_def\<close>)
    finally show ?thesis .
  qed simp
qed

lemma length_concat_chunks: "length (concat (chunks mem a len)) = len"
proof (induction mem a len rule: chunks.induct)
  case (1 mem a len)
  then show ?case by (cases "len = 0") (simp_all add: chunks.simps [of mem a len] Let_def)
qed

lemma chunk_sizes: "\<forall>c \<in> set (chunks mem a len). length c \<le> 512"
proof (induction mem a len rule: chunks.induct)
  case (1 mem a len)
  then show ?case by (cases "len = 0") (simp_all add: chunks.simps [of mem a len] Let_def)
qed

section \<open>Blocks on the card\<close>

definition card_has :: "(u32 \<Rightarrow> block) \<Rightarrow> u32 \<Rightarrow> block list \<Rightarrow> bool" where
  "card_has c lba bs \<longleftrightarrow> (\<forall>k<length bs. c (lba + of_nat k) = bs ! k)"

lemma card_has_Nil [simp]: "card_has c lba []"
  by (simp add: card_has_def)

lemma card_has_Cons [simp]: "card_has c lba (b # bs) \<longleftrightarrow> c lba = b \<and> card_has c (lba + 1) bs"
proof
  assume h: "card_has c lba (b # bs)"
  have "c (lba + 1 + of_nat k) = bs ! k" if "k < length bs" for k
    using h [unfolded card_has_def, rule_format, of "Suc k"] that by (simp add: algebra_simps)
  then show "c lba = b \<and> card_has c (lba + 1) bs"
    using h [unfolded card_has_def, rule_format, of 0] by (simp add: card_has_def)
next
  assume h: "c lba = b \<and> card_has c (lba + 1) bs"
  have "c (lba + of_nat k) = (b # bs) ! k" if "k < length (b # bs)" for k
    using h that by (cases k) (simp_all add: card_has_def algebra_simps)
  then show "card_has c lba (b # bs)" by (simp add: card_has_def)
qed

lemma card_has_append [simp]:
  "card_has c lba (xs @ ys) \<longleftrightarrow> card_has c lba xs \<and> card_has c (lba + of_nat (length xs)) ys"
  by (induction xs arbitrary: lba) (simp_all add: algebra_simps)

lemma card_put_has: "length bs < 4294967296 \<Longrightarrow> card_has (card_put lba bs c) lba bs"
  by (simp add: card_has_def card_put_nth)

lemma card_put_append: "card_put lba (xs @ ys) c = card_put (lba + of_nat (length xs)) ys (card_put lba xs c)"
  by (induction xs arbitrary: lba c) (simp_all add: algebra_simps)

section \<open>Bytes in memory\<close>

fun write_bytes :: "u32 \<Rightarrow> u8 list \<Rightarrow> (u32 \<Rightarrow> u8) \<Rightarrow> u32 \<Rightarrow> u8" where
  "write_bytes a [] m = m"
| "write_bytes a (b # bs) m = write_bytes (a + 1) bs (m(a := b))"

lemma write_bytes_append: "write_bytes a (xs @ ys) m = write_bytes (a + of_nat (length xs)) ys (write_bytes a xs m)"
  by (induction xs arbitrary: a m) (simp_all add: algebra_simps)

lemma write_bytes_outside:
  assumes "unat a + length bs \<le> 4294967296" "unat x < unat a \<or> unat a + length bs \<le> unat x"
  shows "write_bytes a bs m x = m x"
  using assms
proof (induction bs arbitrary: a m)
  case (Cons b bs)
  show ?case
  proof (cases bs)
    case Nil
    with Cons.prems show ?thesis by auto
  next
    case (Cons b' bs')
    then have "a < 4294967295" using Cons.prems(1) by (simp add: word_less_nat_alt)
    then have "unat (a + 1) = unat a + 1" by (simp add: unat_Suc_lt)
    then show ?thesis using Cons.IH [of "a + 1"] Cons.prems by auto
  qed
qed simp


lemma write_bytes_inside:
  assumes "unat a + length bs \<le> 4294967296" "i < length bs"
  shows "write_bytes a bs m (a + of_nat i) = bs ! i"
  using assms
proof (induction bs arbitrary: a m i)
  case (Cons b bs)
  have lt: "length bs < 4294967296" using Cons.prems(1) by simp
  show ?case
  proof (cases i)
    case 0
    have "write_bytes (a + 1) bs (m(a := b)) a = b"
    proof (cases bs)
      case (Cons b' bs')
      then have "a < 4294967295" using Cons.prems(1) by (simp add: word_less_nat_alt)
      then have "unat (a + 1) = unat a + 1" by (simp add: unat_Suc_lt)
      then show ?thesis using Cons.prems(1) by (subst write_bytes_outside) simp_all
    qed simp
    then show ?thesis using 0 by simp
  next
    case (Suc j)
    then have "a < 4294967295" using Cons.prems by (simp add: word_less_nat_alt)
    then have "unat (a + 1) = unat a + 1" by (simp add: unat_Suc_lt)
    then show ?thesis using Cons.IH [of "a + 1" j] Cons.prems Suc by (simp add: algebra_simps)
  qed
qed simp

lemma chunks_nth: "i < len \<Longrightarrow> concat (chunks mem a len) ! i = mem (i div 512) (a + of_nat i)"
proof (induction mem a len arbitrary: i rule: chunks.induct)
  case (1 mem a len)
  then have len: "len \<noteq> 0" by simp
  let ?n = "min len 512"
  have c: "concat (chunks mem a len) = map (\<lambda>i. mem 0 (a + of_nat i)) [0..<?n] @ concat (chunks (\<lambda>k. mem (Suc k)) (a + of_nat ?n) (len - ?n))"
    using len by (subst chunks.simps) (simp add: Let_def)
  show ?case
  proof (cases "i < ?n")
    case True
    then show ?thesis by (simp add: c nth_append)
  next
    case False
    then have n: "?n = 512" "512 \<le> i" "i - 512 < len - 512" using "1.prems" by auto
    have "concat (chunks (\<lambda>k. mem (Suc k)) (a + of_nat ?n) (len - ?n)) ! (i - ?n) =
        mem (Suc ((i - ?n) div 512)) (a + of_nat ?n + of_nat (i - ?n))"
      by (rule "1.IH" [OF len refl]) (use n in simp)
    moreover have "Suc ((i - 512) div 512) = i div 512" using n(2) by (simp add: le_div_geq)
    moreover have "a + of_nat 512 + of_nat (i - 512) = a + (of_nat i :: u32)" using n(2) by (simp add: of_nat_diff)
    ultimately show ?thesis using False n(1) by (simp add: c nth_append)
  qed
qed

text \<open>The memory that a region, copied in chunks and written back, leaves.\<close>

lemma region_back:
  assumes "unat (rs_start r) + unat (rs_len r) \<le> 4294967296"
  shows "write_bytes (rs_start r) (concat (region_chunks mem r)) m x =
    (if in_region x r then mem ((unat x - unat (rs_start r)) div 512) x else m x)"
proof (cases "in_region x r")
  case True
  let ?i = "unat x - unat (rs_start r)"
  have i: "?i < unat (rs_len r)" using True by (auto simp: in_region_def)
  have "rs_start r + of_nat ?i = x" using True by (simp add: in_region_def of_nat_diff)
  with write_bytes_inside [of "rs_start r" "concat (region_chunks mem r)" ?i m] chunks_nth [OF i, of mem "rs_start r"] assms i
  show ?thesis using True by (simp add: region_chunks_def length_concat_chunks)
next
  case False
  then show ?thesis using assms
    by (subst write_bytes_outside) (auto simp: in_region_def region_chunks_def length_concat_chunks)
qed

text \<open>Outside the scratch section and the stack window every byte of the SRAM is in a region,
  and no other byte is (unless the scratch section covers everything below the window).\<close>

lemma captured_iff:
  assumes "\<not> (xs \<le> sram_start \<and> stack_low \<le> xe)"
  shows "(\<exists>r \<in> set (snapshot_build_regions xs xe 4). in_region a r) \<longleftrightarrow>
    sram_start \<le> a \<and> a < stack_low \<and> \<not> (xs \<le> a \<and> a < xe)"
proof -
  have d: "unat (y - x) = unat y - unat x" if "x < y" for x y :: u32
    using that by (simp add: unat_sub less_imp_le)
  show ?thesis
  proof (cases rule: build_regions_cases [of xs xe, case_names whole front both back_part covered])
    case whole
    then show ?thesis
      by (auto simp: in_region_def exclude_scratch_def Let_def word_less_nat_alt word_le_nat_alt split: if_splits)
  qed (use assms in \<open>auto simp: in_region_def exclude_scratch_def Let_def d word_less_nat_alt word_le_nat_alt split: if_splits\<close>)
qed


section \<open>Writing a row of blocks\<close>

text \<open>What the card holds after writing \<open>bs\<close> from \<open>lba\<close> on: all of it, or, when a transfer
  failed, the blocks before it and possibly a torn block that satisfies \<open>P\<close>.\<close>

definition wrote :: "(u32 \<Rightarrow> block) \<Rightarrow> u32 \<Rightarrow> block list \<Rightarrow> (block \<Rightarrow> bool) \<Rightarrow> bool \<Rightarrow> (u32 \<Rightarrow> block) \<Rightarrow> bool" where
  "wrote c lba bs P ok c' \<longleftrightarrow>
     (if ok then c' = card_put lba bs c
      else \<exists>k<length bs. c' = card_put lba (take k bs) c \<or>
        (\<exists>x. P x \<and> c' = (card_put lba (take k bs) c)(lba + of_nat k := x)))"

lemma wrote_Nil [simp]: "wrote c lba [] P True c' \<longleftrightarrow> c' = c"
  by (simp add: wrote_def)

lemma wrote_one:
  assumes "sd_torn P w" "sd_write1 lba b w = (rc, w1)"
  shows "wrote (sd_card w) lba [b] P (rc = SD_OK) (sd_card w1)"
  using sd_write1_torn [OF assms] by (auto simp: wrote_def)

lemma wrote_more:
  assumes "wrote c lba xs P True c1" "wrote c1 (lba + of_nat (length xs)) ys P ok c2"
  shows "wrote c lba (xs @ ys) P ok c2"
proof (cases ok)
  case True
  then show ?thesis using assms by (simp add: wrote_def card_put_append)
next
  case False
  then obtain k where k: "k < length ys" "c2 = card_put (lba + of_nat (length xs)) (take k ys) c1 \<or>
      (\<exists>x. P x \<and> c2 = (card_put (lba + of_nat (length xs)) (take k ys) c1)(lba + of_nat (length xs) + of_nat k := x))"
    using assms(2) by (auto simp: wrote_def)
  have "card_put lba (take (length xs + k) (xs @ ys)) c = card_put (lba + of_nat (length xs)) (take k ys) c1"
    using assms(1) by (simp add: wrote_def card_put_append)
  then show ?thesis using k False unfolding wrote_def
    by (auto intro!: exI [of _ "length xs + k"] simp: add.assoc)
qed

lemma wrote_stop: "wrote c lba xs P False c1 \<Longrightarrow> wrote c lba (xs @ ys) P False c1"
proof -
  assume "wrote c lba xs P False c1"
  then obtain k where k: "k < length xs" "c1 = card_put lba (take k xs) c \<or> (\<exists>x. P x \<and> c1 = (card_put lba (take k xs) c)(lba + of_nat k := x))"
    by (auto simp: wrote_def)
  then have "take k (xs @ ys) = take k xs" by simp
  then show ?thesis unfolding wrote_def if_False using k by (intro exI [of _ k]) (simp only: length_append, simp)
qed

lemma wrote_other:
  assumes "wrote c lba bs P ok c'" "\<forall>k<length bs. l \<noteq> lba + of_nat k"
  shows "c' l = c l"
proof -
  have "card_put lba (take k bs) c l = c l" for k using assms(2) by (intro card_put_other) auto
  moreover have "card_put lba bs c l = c l" by (rule card_put_other [OF assms(2)])
  ultimately show ?thesis using assms by (auto simp: wrote_def split: if_splits)
qed

text \<open>The first block of a row of which only a later part failed.\<close>

lemma wrote_first:
  assumes "wrote c lba (b # bs) P False c'" "length bs < 4294967295"
  shows "c' lba = b \<or> c' = c \<or> (\<exists>x. P x \<and> c' = c(lba := x))"
proof -
  obtain k where k: "k < length (b # bs)" "c' = card_put lba (take k (b # bs)) c \<or>
      (\<exists>x. P x \<and> c' = (card_put lba (take k (b # bs)) c)(lba + of_nat k := x))"
    using assms(1) by (auto simp: wrote_def)
  show ?thesis
  proof (cases k)
    case 0
    with k show ?thesis by auto
  next
    case (Suc j)
    have "card_put lba (take k (b # bs)) c lba = b"
      using card_put_nth [of 0 "take k (b # bs)" lba c] Suc assms(2) by (simp add: min_def)
    moreover have "lba + of_nat k \<noteq> lba"
      using lba_inj [of k 0 lba] k(1) assms(2) Suc by simp
    ultimately show ?thesis using k(2) by (auto simp: fun_upd_other)
  qed
qed

end
