(* ===== verification/Sd_Async.thy ===== *)
theory Sd_Async
  imports Sd_Card
begin

text \<open>
  The interrupt-driven reads of \<open>sd_async.c\<close>: a read is started with the command
  for its first block; interrupts move the words of the FIFO to memory, start
  the next block, and post one event when the last block, or a fault, has come.
  The controller is the hardware's: \<open>sdmmc_line\<close> holds the words the card has
  still to send for the last command, \<open>sdmmc_fifo\<close> those received and not yet
  read; RXDAVL says that the latter is not empty, every other flag of the status
  is an argument of the interrupt.  A word that arrives during an
  interrupt counts as arriving before it or after it: the second loop of the handler
  empties the FIFO in any case.
\<close>

abbreviation (input) SDMMC_DCTRL_READ :: u32 where "SDMMC_DCTRL_READ \<equiv> 0x93"
abbreviation (input) SDMMC_MASK_READ :: u32 where "SDMMC_MASK_READ \<equiv> 0x812A"

definition sd_ctx_valid_for_transfer :: "sd_context \<Rightarrow> bool" where
  "sd_ctx_valid_for_transfer c \<longleftrightarrow>
     ctx_operation c = SD_OP_READ \<and> ctx_status c = DRV_IN_PROGRESS \<and> ctx_total_blocks c \<noteq> 0 \<and>
     ctx_blocks_done c < ctx_total_blocks c \<and> ctx_buffer c \<noteq> 0 \<and> ctx_current_ptr c \<noteq> 0 \<and>
     ctx_fifo_words_left c \<le> 128"

definition upd_sd :: "(sd_context \<Rightarrow> sd_context) \<Rightarrow> 'a sd_world_scheme \<Rightarrow> 'a sd_world_scheme" where
  "upd_sd f w = w\<lparr>g_sd_ctx := f (g_sd_ctx w)\<rparr>"

text \<open>The address of the command for a block, and the block a card finds there.\<close>

definition sd_block_addr :: "u8 \<Rightarrow> u32 \<Rightarrow> u32" where
  "sd_block_addr hc lba = (if hc \<noteq> 0 then lba else push_bit 9 lba)"

definition sd_addressed :: "u8 \<Rightarrow> u32 \<Rightarrow> u32" where
  "sd_addressed hc addr = (if hc \<noteq> 0 then addr else drop_bit 9 addr)"

definition sd_start_single_block_read :: "u32 \<Rightarrow> 'a sd_world_scheme \<Rightarrow> 'a sd_world_scheme" where
  "sd_start_single_block_read addr w =
     w\<lparr>sdmmc_fifo := [], sdmmc_dctrl := SDMMC_DCTRL_READ,
       sdmmc_line := bytes_words (sd_card w (sd_addressed (g_sd_high_capacity w) addr)),
       sdmmc_mask := SDMMC_MASK_READ\<rparr>"

text \<open>One word of the FIFO to memory; the loop over at most \<open>n\<close> words, and over all of them.\<close>

definition sd_take_word :: "u32 \<Rightarrow> u32 list \<Rightarrow> 'a sd_world_scheme \<Rightarrow> 'a sd_world_scheme" where
  "sd_take_word d ds w =
     upd_sd (\<lambda>c. c\<lparr>ctx_current_ptr := ctx_current_ptr c + 4, ctx_fifo_words_left := ctx_fifo_words_left c - 1\<rparr>)
       (w\<lparr>sdmmc_fifo := ds, sd_mem := (sd_mem w)(ctx_current_ptr (g_sd_ctx w) := d)\<rparr>)"

fun sd_drain_count :: "nat \<Rightarrow> 'a sd_world_scheme \<Rightarrow> 'a sd_world_scheme" where
  "sd_drain_count 0 w = w"
| "sd_drain_count (Suc n) w =
     (if ctx_fifo_words_left (g_sd_ctx w) = 0 then w
      else case sdmmc_fifo w of [] \<Rightarrow> w | d # ds \<Rightarrow> sd_drain_count n (sd_take_word d ds w))"

function sd_drain_all :: "'a sd_world_scheme \<Rightarrow> 'a sd_world_scheme" where
  "sd_drain_all w =
     (case sdmmc_fifo w of [] \<Rightarrow> w
      | d # ds \<Rightarrow> if ctx_fifo_words_left (g_sd_ctx w) = 0 then w else sd_drain_all (sd_take_word d ds w))"
  by pat_completeness auto

termination
  by (relation "measure (\<lambda>w. length (sdmmc_fifo w))") (auto simp: sd_take_word_def upd_sd_def)

declare sd_drain_all.simps [simp del]

definition sd_irq_post :: "event \<Rightarrow> string \<Rightarrow> u32 \<Rightarrow> 'a sd_world_scheme \<Rightarrow> 'a sd_world_scheme" where
  "sd_irq_post e msg line w =
     (case sched_post_isr (g_sd_ao_id w) (Some e) w of (rc, w1) \<Rightarrow>
        if rc \<noteq> SCHED_OK then kernel_panic msg ''sd_async.c'' line w1 else w1)"

definition sd_done_event :: "u16 \<Rightarrow> event" where
  "sd_done_event sig = \<lparr> ev_sig = sig, ev_src = 0, ev_arg0 = 0, ev_arg1 = 0, ev_tick = 0 \<rparr>"

definition sd_error_event :: "u16 \<Rightarrow> int \<Rightarrow> event" where
  "sd_error_event sig code = \<lparr> ev_sig = sig, ev_src = 0, ev_arg0 = word_of_int code, ev_arg1 = 0, ev_tick = 0 \<rparr>"

text \<open>The error branch of the handler, its data branch, and the handler.\<close>

definition sd_irq_error :: "u32 \<Rightarrow> 'a sd_world_scheme \<Rightarrow> 'a sd_world_scheme" where
  "sd_irq_error status w =
     (let code = (if bit status 3 then SD_ERR_TIMEOUT else if bit status 1 then SD_ERR_CRC else SD_ERR_DATA);
          w1 = upd_sd (\<lambda>c. c\<lparr>ctx_status := DRV_ERROR, ctx_error_detail := status, ctx_error_code := code\<rparr>)
                 (w\<lparr>sdmmc_dctrl := 0, sdmmc_mask := 0\<rparr>)
      in if \<not> g_sd_async_sched w1 then w1
         else if g_sd_err_sig w1 = 0
         then kernel_panic ''sd scheduler bound with zero err signal'' ''sd_async.c'' 122 w1
         else sd_irq_post (sd_error_event (g_sd_err_sig w1) code) ''sd irq: failed to post error event'' 125 w1)"

definition sd_irq_block_end :: "'a sd_world_scheme \<Rightarrow> 'a sd_world_scheme" where
  "sd_irq_block_end w0 =
     (let w = upd_sd (\<lambda>c. c\<lparr>ctx_blocks_done := ctx_blocks_done c + 1\<rparr>) w0; c = g_sd_ctx w in
      if ctx_blocks_done c < ctx_total_blocks c
      then sd_start_single_block_read (sd_block_addr (ctx_high_capacity c) (ctx_lba c + ctx_blocks_done c))
             (upd_sd (\<lambda>c. c\<lparr>ctx_fifo_words_left := 128\<rparr>) w)
      else
        let w1 = upd_sd (\<lambda>c. c\<lparr>ctx_status := DRV_COMPLETE, ctx_error_code := SD_OK\<rparr>)
                   (w\<lparr>sdmmc_dctrl := 0, sdmmc_mask := 0\<rparr>)
        in if \<not> g_sd_async_sched w1 then w1
           else if g_sd_done_sig w1 = 0
           then kernel_panic ''sd scheduler bound with zero done signal'' ''sd_async.c'' 166 w1
           else sd_irq_post (sd_done_event (g_sd_done_sig w1)) ''sd irq: failed to post done event'' 169 w1)"

definition SDMMC1_IRQHandler :: "u32 \<Rightarrow> 'a sd_world_scheme \<Rightarrow> 'a sd_world_scheme" where
  "SDMMC1_IRQHandler status w =
     (if ctx_status (g_sd_ctx w) = DRV_IN_PROGRESS \<and> \<not> sd_ctx_valid_for_transfer (g_sd_ctx w)
      then kernel_panic ''sd ctx invalid in irq'' ''sd_async.c'' 100 w
      else if bit status 1 \<or> bit status 3 \<or> bit status 5 then sd_irq_error status w
      else
        let w1 = (if bit status 15 then sd_drain_count 16 w else w);
            w2 = sd_drain_all w1
        in if bit status 8 then sd_irq_block_end w2 else w2)"

definition sd_async_init :: "'a sd_world_scheme \<Rightarrow> 'a sd_world_scheme" where
  "sd_async_init w =
     upd_sd (\<lambda>c. c\<lparr>ctx_operation := SD_OP_NONE, ctx_status := DRV_IDLE, ctx_error_code := SD_OK,
        ctx_error_detail := 0, ctx_lba := 0, ctx_total_blocks := 0, ctx_blocks_done := 0, ctx_buffer := 0,
        ctx_fifo_words_left := 0, ctx_current_ptr := 0, ctx_high_capacity := 0\<rparr>)
       (w\<lparr>sdmmc_dctrl := 0, sdmmc_mask := 0, sdmmc_fifo := [], sdmmc_irq_enabled := False\<rparr>)"

definition sd_async_read_start :: "u32 \<Rightarrow> u32 \<Rightarrow> u32 \<Rightarrow> 'a sd_world_scheme \<Rightarrow> int \<times> 'a sd_world_scheme" where
  "sd_async_read_start lba count buf w =
     (if \<not> g_sd_initialized w then (SD_ERR_NO_INIT, w)
      else if count = 0 \<or> buf = 0 then (SD_ERR_PARAM, w)
      else if buf AND 3 \<noteq> 0 then (SD_ERR_PARAM, w)
      else
        let w1 = upd_sd (\<lambda>c. c\<lparr>ctx_operation := SD_OP_READ, ctx_status := DRV_IN_PROGRESS, ctx_error_code := SD_OK,
                   ctx_lba := lba, ctx_total_blocks := count, ctx_blocks_done := 0, ctx_buffer := buf,
                   ctx_current_ptr := buf, ctx_fifo_words_left := 128,
                   ctx_high_capacity := g_sd_high_capacity w\<rparr>) (w\<lparr>sdmmc_irq_enabled := True\<rparr>)
        in (SD_OK, sd_start_single_block_read (sd_block_addr (g_sd_high_capacity w) lba) w1))"

definition sd_async_poll :: "'a sd_world_scheme \<Rightarrow> drv_status" where
  "sd_async_poll w = ctx_status (g_sd_ctx w)"

definition sd_async_error :: "'a sd_world_scheme \<Rightarrow> int" where
  "sd_async_error w = ctx_error_code (g_sd_ctx w)"

definition sd_async_bind_scheduler :: "bool \<Rightarrow> u8 \<Rightarrow> u16 \<Rightarrow> u16 \<Rightarrow> 'a sd_world_scheme \<Rightarrow> 'a sd_world_scheme" where
  "sd_async_bind_scheduler sched aid done_sig err_sig w =
     (if \<not> sched then kernel_panic ''sd bind null scheduler'' ''sd_async.c'' 267 w
      else if done_sig = 0 \<or> err_sig = 0 then kernel_panic ''sd bind zero signal'' ''sd_async.c'' 268 w
      else w\<lparr>g_sd_async_sched := True, g_sd_ao_id := aid, g_sd_done_sig := done_sig, g_sd_err_sig := err_sig\<rparr>)"

definition sd_async_unbind_scheduler :: "'a sd_world_scheme \<Rightarrow> 'a sd_world_scheme" where
  "sd_async_unbind_scheduler w =
     w\<lparr>g_sd_async_sched := False, g_sd_ao_id := 0, g_sd_done_sig := 0, g_sd_err_sig := 0\<rparr>"

end
