(* ===== verification/Snapshot.thy ===== *)
theory Snapshot
  imports Assembly_Line Snapshot_Format Best_Scan Sd_Async
begin

text \<open>
  The snapshot task of \<open>snapshot_task.c\<close>: every interval, or on request, the SRAM
  outside the scratch section and the stack window is written to the next slot of
  a ring of slots on the card.  The addresses of the linker symbols of the scratch
  section are fields of the state, \<open>snap_mem\<close> is the memory at each of the copies
  to come, and \<open>g_snapshot_sched\<close> says whether the pointer is set.  The masking of
  interrupts around the copies is what makes each copy see one memory.
\<close>

record snapshot_ctx =
  sx_enabled :: u8
  sx_busy :: u8
  sx_step_pending :: u8
  sx_restore_mode :: u8
  sx_restore_has_candidate :: u8
  sx_interval_ticks :: u32
  sx_next_tick :: u32
  sx_saves_ok :: u32
  sx_saves_err :: u32
  sx_last_err :: int
  sx_last_slot :: u32
  sx_last_seq :: u32
  sx_last_capture_tick :: u32
  sx_last_ready_bitmap :: u32
  sx_restore_slot :: u32
  sx_restore_seq :: u32

record snap_world = line_world +
  g_snapshot_ctx :: snapshot_ctx
  g_snapshot_sched :: bool
  snap_mem :: "nat \<Rightarrow> u32 \<Rightarrow> u8"
  ssnap_exclude :: u32
  esnap_exclude :: u32
  sd_dbg_write_stage :: u32
  sd_dbg_write_last_sta :: u32

abbreviation (input) AO_SNAPSHOT :: u8 where "AO_SNAPSHOT \<equiv> 5"
abbreviation (input) SNAP_SIG_TRIGGER :: u16 where "SNAP_SIG_TRIGGER \<equiv> 13"
abbreviation (input) SNAPSHOT_SLOTS_MIN :: u32 where "SNAPSHOT_SLOTS_MIN \<equiv> 1"
abbreviation (input) SNAPSHOT_SLOTS_MAX :: u32 where "SNAPSHOT_SLOTS_MAX \<equiv> 64"
abbreviation (input) SNAPSHOT_MIN_SLOT_BLOCKS :: u32 where "SNAPSHOT_MIN_SLOT_BLOCKS \<equiv> 2"
abbreviation (input) SNAPSHOT_INTERVAL_MIN_S :: u32 where "SNAPSHOT_INTERVAL_MIN_S \<equiv> 5"
abbreviation (input) SNAPSHOT_INTERVAL_MAX_S :: u32 where "SNAPSHOT_INTERVAL_MAX_S \<equiv> 3600"
abbreviation (input) SNAPSHOT_REASON_PERIODIC :: u32 where "SNAPSHOT_REASON_PERIODIC \<equiv> 0"
abbreviation (input) SNAPSHOT_REASON_MANUAL :: u32 where "SNAPSHOT_REASON_MANUAL \<equiv> 1"
abbreviation (input) SNAP_TARGET_RECENT :: u8 where "SNAP_TARGET_RECENT \<equiv> 0"
abbreviation (input) SNAP_TARGET_FRESH :: u8 where "SNAP_TARGET_FRESH \<equiv> 1"
abbreviation (input) SNAP_TARGET_SNAPSHOT :: u8 where "SNAP_TARGET_SNAPSHOT \<equiv> 2"

definition upd_sx :: "(snapshot_ctx \<Rightarrow> snapshot_ctx) \<Rightarrow> 'a snap_world_scheme \<Rightarrow> 'a snap_world_scheme" where
  "upd_sx f w = w\<lparr>g_snapshot_ctx := f (g_snapshot_ctx w)\<rparr>"

definition snap_registered :: "'a sched_scheme \<Rightarrow> bool" where
  "snap_registered w \<longleftrightarrow> sc_table w ! unat AO_SNAPSHOT \<noteq> None"

definition snapshot_task_disarm_hook :: "'a snap_world_scheme \<Rightarrow> 'a snap_world_scheme" where
  "snapshot_task_disarm_hook w = upd_sx (\<lambda>x. x\<lparr>sx_enabled := 0\<rparr>) (w\<lparr>g_snapshot_sched := False\<rparr>)"

definition snapshot_task_rearm_hook :: "bool \<Rightarrow> 'a snap_world_scheme \<Rightarrow> 'a snap_world_scheme" where
  "snapshot_task_rearm_hook sched w =
     (if \<not> sched then w
      else if \<not> snap_registered w then w
      else upd_sx (\<lambda>x. x\<lparr>sx_busy := 0, sx_step_pending := 0, sx_enabled := 1,
                          sx_next_tick := systick_now w + sx_interval_ticks x\<rparr>) (w\<lparr>g_snapshot_sched := True\<rparr>))"

definition clamp_interval_s :: "u32 \<Rightarrow> u32" where
  "clamp_interval_s v =
     (if v < SNAPSHOT_INTERVAL_MIN_S then SNAPSHOT_INTERVAL_DEFAULT_S
      else if v > SNAPSHOT_INTERVAL_MAX_S then SNAPSHOT_INTERVAL_DEFAULT_S else v)"

section \<open>Output\<close>

definition w_log_hex32 :: "u32 \<Rightarrow> 'a world_scheme \<Rightarrow> 'a world_scheme" where
  "w_log_hex32 v w = w\<lparr>w_log := snd (log_put_hex32 v (w_log w))\<rparr>"

definition snapshot_out_puts :: "bool \<Rightarrow> string \<Rightarrow> 'a con_world_scheme \<Rightarrow> 'a con_world_scheme" where
  "snapshot_out_puts bg s w = (if bg then w_log_puts s w else con_puts s w)"

definition snapshot_out_put_u32 :: "bool \<Rightarrow> u32 \<Rightarrow> 'a con_world_scheme \<Rightarrow> 'a con_world_scheme" where
  "snapshot_out_put_u32 bg v w = (if bg then w_log_u32 v w else snd (console_put_u32 v w))"

definition snapshot_out_put_s32 :: "bool \<Rightarrow> int \<Rightarrow> 'a con_world_scheme \<Rightarrow> 'a con_world_scheme" where
  "snapshot_out_put_s32 bg v w =
     (if v < 0 then snapshot_out_put_u32 bg (of_int (- v)) (snapshot_out_puts bg ''-'' w)
      else snapshot_out_put_u32 bg (of_int v) w)"

section \<open>Writing a slot\<close>

definition snapshot_layout_valid :: "rwos_disk \<Rightarrow> bool" where
  "snapshot_layout_valid d =
     (if d_snap_slots d < SNAPSHOT_SLOTS_MIN \<or> d_snap_slots d > SNAPSHOT_SLOTS_MAX then False
      else if d_snap_slot_blocks d < SNAPSHOT_MIN_SLOT_BLOCKS then False
      else if d_snap_blocks d < d_snap_slots d * d_snap_slot_blocks d then False
      else if d_snap_start_lba d = 0 \<or> d_snap_start_lba d + d_snap_blocks d > d_total_blocks d then False
      else True)"

definition snapshot_copy_region_chunk_atomic :: "u32 \<Rightarrow> u32 \<Rightarrow> 'a snap_world_scheme \<Rightarrow> u8 list \<times> 'a snap_world_scheme" where
  "snapshot_copy_region_chunk_atomic src n w =
     (map (\<lambda>i. snap_mem w 0 (src + of_nat i)) [0..<unat n], w\<lparr>snap_mem := (\<lambda>k. snap_mem w (Suc k))\<rparr>)"

abbreviation (input) snap_err :: "string \<Rightarrow> int \<Rightarrow> u32 \<Rightarrow> 'a snap_world_scheme \<Rightarrow> 'a snap_world_scheme" where
  "snap_err tag rc l w \<equiv> LOG_ERR tag rc ''snapshot_task.c'' l w"

text \<open>The copy loop of a region: the result, the next block and the running checksum.\<close>

function snap_data_loop ::
  "u32 \<Rightarrow> u32 \<Rightarrow> u32 \<Rightarrow> u32 \<Rightarrow> 'a snap_world_scheme \<Rightarrow> (int \<times> u32 \<times> u32) \<times> 'a snap_world_scheme" where
  "snap_data_loop src rem lba crc w =
     (if rem = 0 then ((SD_OK, lba, crc), w)
      else
        let n = (if rem > 512 then 512 else rem) in
        case snapshot_copy_region_chunk_atomic src n w of (bs, w1) \<Rightarrow>
        let crc1 = checksum_bytes_update crc bs in
        case sd_write1 lba (padded bs) w1 of (rc, w2) \<Rightarrow>
          if rc \<noteq> SD_OK then ((rc, lba, crc1), snap_err ''snap-data'' rc 547 w2)
          else snap_data_loop (src + n) (rem - n) (lba + 1) crc1 w2)"
  by pat_completeness auto
termination
  by (relation "measure (\<lambda>(_, rem, _). unat rem)")
    (auto simp: word_less_nat_alt unat_sub_if' unat_gt_0 split: if_splits)

declare snap_data_loop.simps [simp del]

fun snap_regions_loop ::
  "region_span list \<Rightarrow> u32 \<Rightarrow> 'a snap_world_scheme \<Rightarrow> (int \<times> u32) \<times> 'a snap_world_scheme" where
  "snap_regions_loop [] lba w = ((SD_OK, lba), w)"
| "snap_regions_loop (r # rs) lba w =
     (case sd_write1 lba (rgs_block (rs_start r) (rs_len r)) w of (rc, w1) \<Rightarrow>
        if rc \<noteq> SD_OK then ((rc, lba), snap_err ''snap-rgs'' rc 530 w1)
        else case snap_data_loop (rs_start r) (rs_len r) (lba + 1) fnv_init w1 of ((rc, lba2, crc), w2) \<Rightarrow>
          if rc \<noteq> SD_OK then ((rc, lba2), w2)
          else case sd_write1 lba2 (rge_block (rs_start r) (rs_len r) (checksum_bytes_finalize crc)) w2 of (rc, w3) \<Rightarrow>
            if rc \<noteq> SD_OK then ((rc, lba2), snap_err ''snap-rge'' rc 568 w3)
            else snap_regions_loop rs (lba2 + 1) w3)"

definition snapshot_write_payload ::
  "u32 \<Rightarrow> u32 \<Rightarrow> u32 \<Rightarrow> u32 \<Rightarrow> u32 \<Rightarrow> 'a snap_world_scheme \<Rightarrow> int \<times> 'a snap_world_scheme" where
  "snapshot_write_payload slot_lba payload_blocks reason captured_tick ready_bitmap w =
     (let rs = snapshot_build_regions (ssnap_exclude w) (esnap_exclude w) 4 in
      if rs = [] then (SD_ERR_PARAM, w)
      else if required_blocks rs > payload_blocks then (SD_ERR_PARAM, w)
      else case sd_write1 (slot_lba + 1) (pay0_block reason captured_tick ready_bitmap (of_nat (length rs)) (region_total rs)) w of (rc, w1) \<Rightarrow>
        if rc \<noteq> SD_OK then (rc, snap_err ''snap-pay0'' rc 509 w1)
        else case snap_regions_loop rs (slot_lba + 2) w1 of ((rc, lba), w2) \<Rightarrow>
          if rc \<noteq> SD_OK then (rc, w2)
          else case sd_write1 lba (paye_block (of_nat (length rs)) (region_total rs)) w2 of (rc, w3) \<Rightarrow>
            if rc \<noteq> SD_OK then (rc, snap_err ''snap-paye'' rc 586 w3) else (SD_OK, w3))"

section \<open>Finding the slots\<close>

definition snapshot_read_block_retry :: "u32 \<Rightarrow> 'a sd_world_scheme \<Rightarrow> (int \<times> block option) \<times> 'a sd_world_scheme" where
  "snapshot_read_block_retry lba w =
     (case sd_read1 lba w of ((rc, b), w1) \<Rightarrow> if rc = SD_OK then ((rc, b), w1) else sd_read1 lba w1)"

definition slotval_hdr :: "u32 \<Rightarrow> u32 \<Rightarrow> u32 \<Rightarrow> block \<Rightarrow> 'a world_scheme \<Rightarrow> bool \<times> 'a world_scheme" where
  "slotval_hdr slot_lba slot_blocks idx b w =
     (if word_at b 0 \<noteq> SNAP_HDR_MAGIC \<or> word_at b 1 \<noteq> SNAP_FMT_VERSION
      then (False, w_log_puts [CHR 0x0A] (w_log_u32 (word_at b 1) (w_log_puts '' v='' (w_log_hex32 (word_at b 0)
              (w_log_puts ''slotval: bad magic/ver m='' w)))))
      else if word_at b 3 \<noteq> idx then (False, w_log_puts (''slotval: bad idx'' @ [CHR 0x0A]) w)
      else if word_at b 4 \<noteq> slot_lba + 1 \<or> word_at b 5 \<noteq> slot_blocks - 2
      then (False, w_log_puts [CHR 0x0A] (w_log_u32 (word_at b 5) (w_log_puts '' pb='' (w_log_u32 (word_at b 4)
              (w_log_puts ''slotval: bad layout plba='' w)))))
      else if \<not> seal_ok SNAP_HDR_WORDS b then (False, w_log_puts (''slotval: bad hdr cksum'' @ [CHR 0x0A]) w)
      else (True, w))"

definition slotval_pay0 :: "block \<Rightarrow> 'a world_scheme \<Rightarrow> bool \<times> 'a world_scheme" where
  "slotval_pay0 b w =
     (if word_at b 0 \<noteq> SNAP_PAY0_MAGIC \<or> word_at b 1 \<noteq> SNAP_FMT_VERSION
      then (False, w_log_puts [CHR 0x0A] (w_log_hex32 (word_at b 0) (w_log_puts ''slotval: bad pay0 m='' w)))
      else if \<not> seal_ok SNAP_PAY0_WORDS b then (False, w_log_puts (''slotval: bad pay0 cksum'' @ [CHR 0x0A]) w)
      else (True, w))"

definition slotval_cmit :: "u32 \<Rightarrow> u32 \<Rightarrow> block \<Rightarrow> 'a world_scheme \<Rightarrow> bool \<times> 'a world_scheme" where
  "slotval_cmit idx seq b w =
     (if word_at b 0 \<noteq> SNAP_CMIT_MAGIC \<or> word_at b 1 \<noteq> SNAP_FMT_VERSION
      then (False, w_log_puts [CHR 0x0A] (w_log_hex32 (word_at b 0) (w_log_puts ''slotval: bad cmit m='' w)))
      else if word_at b 3 \<noteq> idx \<or> word_at b 2 \<noteq> seq then (False, w_log_puts (''slotval: bad cmit idx/seq'' @ [CHR 0x0A]) w)
      else if \<not> seal_ok SNAP_CMIT_WORDS b then (False, w_log_puts (''slotval: bad cmit cksum'' @ [CHR 0x0A]) w)
      else (True, w))"

definition slotval_read :: "string \<Rightarrow> u32 \<Rightarrow> 'a sd_world_scheme \<Rightarrow> block option \<times> 'a sd_world_scheme" where
  "slotval_read what lba w =
     (case snapshot_read_block_retry lba w of ((rc, b), w1) \<Rightarrow>
        if rc \<noteq> SD_OK
        then (None, w_log_puts [CHR 0x0A] (w_log_s32 rc (w_log_puts (''slotval: read '' @ what @ '' rc='') w1)))
        else (b, w1))"

text \<open>The sequence number of a valid slot, None for an invalid one.\<close>

definition snapshot_slot_valid :: "u32 \<Rightarrow> u32 \<Rightarrow> u32 \<Rightarrow> 'a sd_world_scheme \<Rightarrow> u32 option \<times> 'a sd_world_scheme" where
  "snapshot_slot_valid slot_lba slot_blocks idx w =
     (case slotval_read ''hdr'' slot_lba w of
        (None, w1) \<Rightarrow> (None, w1)
      | (Some h, w1) \<Rightarrow>
          case slotval_hdr slot_lba slot_blocks idx h w1 of (ok, w2) \<Rightarrow>
          if \<not> ok then (None, w2)
          else case slotval_read ''pay0'' (slot_lba + 1) w2 of
            (None, w3) \<Rightarrow> (None, w3)
          | (Some p, w3) \<Rightarrow>
              case slotval_pay0 p w3 of (ok, w4) \<Rightarrow>
              if \<not> ok then (None, w4)
              else case slotval_read ''cmit'' (slot_lba + slot_blocks - 1) w4 of
                (None, w5) \<Rightarrow> (None, w5)
              | (Some c, w5) \<Rightarrow>
                  case slotval_cmit idx (word_at h 2) c w5 of (ok, w6) \<Rightarrow>
                  if \<not> ok then (None, w6) else (Some (word_at h 2), w6))"

fun snap_scan_loop ::
  "u32 list \<Rightarrow> u32 \<Rightarrow> u32 \<Rightarrow> (u32 \<times> u32) option \<Rightarrow> 'a sd_world_scheme \<Rightarrow> (u32 \<times> u32) option \<times> 'a sd_world_scheme" where
  "snap_scan_loop [] start slot_blocks best w = (best, w)"
| "snap_scan_loop (i # is) start slot_blocks best w =
     (case snapshot_slot_valid (start + i * slot_blocks) slot_blocks i w of
        (None, w1) \<Rightarrow> snap_scan_loop is start slot_blocks best w1
      | (Some seq, w1) \<Rightarrow>
          snap_scan_loop is start slot_blocks
            (if (case best of None \<Rightarrow> True | Some (s, _) \<Rightarrow> seq > s) then Some (seq, i) else best) w1)"

text \<open>The latest slot as (sequence, index); None is \<open>have_latest\<close> 0.\<close>

definition snapshot_scan_latest :: "rwos_disk \<Rightarrow> 'a sd_world_scheme \<Rightarrow> (u32 \<times> u32) option \<times> 'a sd_world_scheme" where
  "snapshot_scan_latest d w =
     snap_scan_loop (map of_nat [0..<unat (d_snap_slots d)]) (d_snap_start_lba d) (d_snap_slot_blocks d) None w"


definition snapshot_set_candidate :: "u32 \<Rightarrow> u32 \<Rightarrow> 'a snap_world_scheme \<Rightarrow> 'a snap_world_scheme" where
  "snapshot_set_candidate slot seq w =
     upd_sx (\<lambda>x. x\<lparr>sx_restore_has_candidate := 1, sx_restore_slot := slot, sx_restore_seq := seq\<rparr>) w"

text \<open>The slot an explicit target asks for, when it is valid and carries the requested sequence.\<close>

definition snapshot_requested :: "rwos_disk \<Rightarrow> 'a sd_world_scheme \<Rightarrow> (u32 \<times> u32) option \<times> 'a sd_world_scheme" where
  "snapshot_requested d w =
     (if d_boot_target_slot d < d_snap_slots d
      then case snapshot_slot_valid (d_snap_start_lba d + d_boot_target_slot d * d_snap_slot_blocks d) (d_snap_slot_blocks d)
                  (d_boot_target_slot d) w of
          (None, w1) \<Rightarrow> (None, w1)
        | (Some seq, w1) \<Rightarrow>
            (if d_boot_target_seq d = 0 \<or> d_boot_target_seq d = seq then Some (seq, d_boot_target_slot d) else None, w1)
      else (None, w))"

definition snapshot_consume_boot_target :: "rwos_disk \<Rightarrow> 'a snap_world_scheme \<Rightarrow> 'a snap_world_scheme" where
  "snapshot_consume_boot_target d w0 =
     (let mode = ucast (d_boot_target_mode d AND 0xFF) :: u8;
          w = upd_sx (\<lambda>x. x\<lparr>sx_restore_mode := mode, sx_restore_has_candidate := 0, sx_restore_slot := 0, sx_restore_seq := 0\<rparr>) w0
      in if mode = SNAP_TARGET_FRESH then w
         else case (if mode = SNAP_TARGET_SNAPSHOT then snapshot_requested d w else (None, w)) of
           (Some (seq, slot), w1) \<Rightarrow> snapshot_set_candidate slot seq w1
         | (None, w1) \<Rightarrow>
             (case snapshot_scan_latest d w1 of
                (Some (seq, slot), w2) \<Rightarrow> snapshot_set_candidate slot seq w2
              | (None, w2) \<Rightarrow> w2))"

section \<open>The task\<close>

definition snapshot_pause_mutators :: "'a snap_world_scheme \<Rightarrow> 'a snap_world_scheme" where
  "snapshot_pause_mutators w =
     (if \<not> g_snapshot_sched w then w
      else snd (sched_pause_accept AO_COUNTER (snd (sched_pause_accept AO_CONSOLE
             (snd (sched_pause_accept AO_CMD (snd (sched_pause_accept AO_TERMINAL w))))))))"

definition snapshot_resume_mutators :: "'a snap_world_scheme \<Rightarrow> 'a snap_world_scheme" where
  "snapshot_resume_mutators w =
     (if \<not> g_snapshot_sched w then w
      else snd (sched_resume_accept AO_TERMINAL (snd (sched_resume_accept AO_CMD
             (snd (sched_resume_accept AO_CONSOLE (snd (sched_resume_accept AO_COUNTER w))))))))"

definition snapshot_capture_quiesced :: "'a snap_world_scheme \<Rightarrow> (u32 \<times> u32) \<times> 'a snap_world_scheme" where
  "snapshot_capture_quiesced w =
     (let w1 = snapshot_pause_mutators w
      in ((systick_now w1, if g_snapshot_sched w1 then sc_ready_bitmap w1 else 0), snapshot_resume_mutators w1))"

definition snapshot_try_load_policy :: "'a disk_world_scheme \<Rightarrow> int \<times> u32" where
  "snapshot_try_load_policy w =
     (case rwos_disk_get w of
        None \<Rightarrow> (SD_ERR_NO_INIT, 0)
      | Some d \<Rightarrow>
          if \<not> snapshot_layout_valid d then (SD_ERR_PARAM, 0) else (SD_OK, clamp_interval_s (d_snap_interval_s d) * 1000))"

text \<open>The slot and the sequence number a new snapshot takes.\<close>

definition next_slot :: "rwos_disk \<Rightarrow> (u32 \<times> u32) option \<Rightarrow> u32 \<times> u32" where
  "next_slot d latest = (case latest of None \<Rightarrow> (0, 1) | Some (seq, slot) \<Rightarrow> ((slot + 1) mod d_snap_slots d, seq + 1))"

definition snapshot_write_slot ::
  "u32 \<Rightarrow> u32 \<Rightarrow> u32 \<Rightarrow> u32 \<Rightarrow> u32 \<Rightarrow> u32 \<Rightarrow> u32 \<Rightarrow> 'a snap_world_scheme \<Rightarrow> int \<times> 'a snap_world_scheme" where
  "snapshot_write_slot slot_lba slot_blocks slot_idx seq reason tick ready w =
     (case sd_write1 slot_lba (hdr_block seq slot_idx (slot_lba + 1) (slot_blocks - 2)) w of (rc, w1) \<Rightarrow>
        if rc \<noteq> SD_OK then (rc, snap_err ''snap-hdr'' rc 871 w1)
        else case snapshot_write_payload slot_lba (slot_blocks - 2) reason tick ready w1 of (rc, w2) \<Rightarrow>
          if rc \<noteq> SD_OK then (rc, w2)
          else case sd_write1 (slot_lba + slot_blocks - 1) (cmit_block seq slot_idx) w2 of (rc, w3) \<Rightarrow>
            if rc \<noteq> SD_OK then (rc, snap_err ''snap-cmit'' rc 892 w3) else (SD_OK, w3))"

definition snapshot_write_one :: "u32 \<Rightarrow> 'a snap_world_scheme \<Rightarrow> int \<times> 'a snap_world_scheme" where
  "snapshot_write_one reason w =
     (if ctx_operation (g_sd_ctx w) \<noteq> SD_OP_NONE \<or> ctx_status (g_sd_ctx w) = DRV_IN_PROGRESS then (SCHED_ERR_DISABLED, w)
      else case rwos_disk_get w of
        None \<Rightarrow> (SD_ERR_NO_INIT, w)
      | Some d \<Rightarrow>
          if \<not> snapshot_layout_valid d then (SD_ERR_PARAM, w)
          else case snapshot_scan_latest d w of (latest, w1) \<Rightarrow>
          case next_slot d latest of (slot_idx, seq) \<Rightarrow>
          case snapshot_capture_quiesced w1 of ((tick, ready), w2) \<Rightarrow>
          case snapshot_write_slot (d_snap_start_lba d + slot_idx * d_snap_slot_blocks d) (d_snap_slot_blocks d) slot_idx seq
                 reason tick ready w2 of (rc, w3) \<Rightarrow>
          if rc \<noteq> SD_OK then (rc, w3)
          else
            let w4 = snd (rwos_disk_set_last_snap slot_idx seq w3);
                w5 = upd_sx (\<lambda>x. x\<lparr>sx_last_slot := slot_idx, sx_last_seq := seq, sx_last_capture_tick := tick,
                                    sx_last_ready_bitmap := ready\<rparr>) w4
            in (SD_OK, journal_note_snapshot_seq seq w5))"

definition snapshot_result :: "int \<Rightarrow> bool \<Rightarrow> 'a snap_world_scheme \<Rightarrow> 'a snap_world_scheme" where
  "snapshot_result rc manual w0 =
     (let w = upd_sx (\<lambda>x. x\<lparr>sx_last_err := rc\<rparr>) w0 in
      if rc = SD_OK
      then let w1 = upd_sx (\<lambda>x. x\<lparr>sx_saves_ok := sx_saves_ok x + 1\<rparr>) w in
           if \<not> manual
           then w_log_puts crlf (w_log_u32 (sx_last_seq (g_snapshot_ctx w1)) (w_log_puts '' seq=''
                  (w_log_u32 (sx_last_slot (g_snapshot_ctx w1)) (w_log_puts ''snapshot: ok slot='' w1))))
           else w1
      else snd (sd_init (sd_async_init (upd_sx (\<lambda>x. x\<lparr>sx_saves_err := sx_saves_err x + 1\<rparr>) w))))"

definition snapshot_report :: "int \<Rightarrow> bool \<Rightarrow> 'a snap_world_scheme \<Rightarrow> 'a snap_world_scheme" where
  "snapshot_report rc manual w =
     (if manual
      then let w1 = snapshot_out_puts True ''snapshot: '' w in
           if rc = SD_OK
           then snapshot_out_puts True crlf (snapshot_out_put_u32 True (sx_last_seq (g_snapshot_ctx w1)) (snapshot_out_puts True '' seq=''
                  (snapshot_out_put_u32 True (sx_last_slot (g_snapshot_ctx w1)) (snapshot_out_puts True ''ok slot='' w1))))
           else let w2 = snapshot_out_puts True '' cmd='' (snapshot_out_put_s32 True rc (snapshot_out_puts True ''err='' w1));
                    w3 = snapshot_out_puts True '' sta='' (w_log_hex32 (sd_last_cmd w2) w2)
                in snapshot_out_puts True crlf (w_log_hex32 (sd_last_sta w3) w3)
      else if rc \<noteq> SD_OK
      then let w1 = w_log_puts ''  wstg='' (snap_err ''snapshot'' rc 969 w);
               w2 = w_log_puts '' wsta='' (w_log_u32 (sd_dbg_write_stage w1) w1)
           in w_log_puts crlf (w_log_hex32 (sd_dbg_write_last_sta w2) w2)
      else w)"

definition snapshot_task_dispatch :: "event option \<Rightarrow> 'a snap_world_scheme \<Rightarrow> 'a snap_world_scheme" where
  "snapshot_task_dispatch ep w =
     (case ep of None \<Rightarrow> w
      | Some e \<Rightarrow>
          if ev_sig e \<noteq> SNAP_SIG_TRIGGER then w
          else if sx_enabled (g_snapshot_ctx w) = 0 \<or> sx_busy (g_snapshot_ctx w) \<noteq> 0
          then upd_sx (\<lambda>x. x\<lparr>sx_step_pending := 0\<rparr>) w
          else
            let manual = ev_arg0 e AND 1 \<noteq> 0 in
            case snapshot_write_one (if manual then SNAPSHOT_REASON_MANUAL else SNAPSHOT_REASON_PERIODIC)
                   (upd_sx (\<lambda>x. x\<lparr>sx_busy := 1\<rparr>) w) of (rc, w1) \<Rightarrow>
            let w2 = snapshot_report rc manual (snapshot_result rc manual w1)
            in upd_sx (\<lambda>x. x\<lparr>sx_step_pending := 0, sx_busy := 0, sx_next_tick := systick_now w2 + sx_interval_ticks x\<rparr>) w2)"

definition snapshot_ctx_init :: "u32 \<Rightarrow> snapshot_ctx" where
  "snapshot_ctx_init now =
     \<lparr> sx_enabled = 0, sx_busy = 0, sx_step_pending = 0, sx_restore_mode = SNAP_TARGET_RECENT, sx_restore_has_candidate = 0,
       sx_interval_ticks = SNAPSHOT_INTERVAL_DEFAULT_S * 1000, sx_next_tick = now + SNAPSHOT_INTERVAL_DEFAULT_S * 1000,
       sx_saves_ok = 0, sx_saves_err = 0, sx_last_err = SD_OK, sx_last_slot = 0, sx_last_seq = 0, sx_last_capture_tick = 0,
       sx_last_ready_bitmap = 0, sx_restore_slot = 0, sx_restore_seq = 0 \<rparr>"

definition snapshot_task_register :: "u32 \<Rightarrow> u32 \<Rightarrow> event list \<Rightarrow> bool \<Rightarrow> 'a snap_world_scheme \<Rightarrow> int \<times> 'a snap_world_scheme" where
  "snapshot_task_register fn cx st sched w =
     (if \<not> sched then (SCHED_ERR_PARAM, w)
      else
        let w1 = w\<lparr>g_snapshot_sched := True, g_snapshot_ctx := snapshot_ctx_init (systick_now w)\<rparr>
        in sched_register_task (Some \<lparr> ts_id = AO_SNAPSHOT, ts_prio = 2, ts_dispatch = fn, ts_ctx = cx,
               ts_queue_storage = Some st, ts_queue_capacity = 8, ts_rtc_budget_ticks = 1,
               ts_name = Some ''snapshot'' \<rparr>) (journal_configure 0 0 0 w1))"

definition snapshot_disable :: "int \<Rightarrow> string \<Rightarrow> 'a snap_world_scheme \<Rightarrow> int \<times> 'a snap_world_scheme" where
  "snapshot_disable rc msg w = (rc, upd_sx (\<lambda>x. x\<lparr>sx_enabled := 0, sx_last_err := rc\<rparr>) (uart_puts (msg @ crlf) w))"

definition snapshot_task_boot_init :: "'a snap_world_scheme \<Rightarrow> int \<times> 'a snap_world_scheme" where
  "snapshot_task_boot_init w0 =
     (let w = uart_puts (''snapshot: boot init'' @ crlf) w0 in
      case rwos_disk_get w of
        None \<Rightarrow> snapshot_disable SD_ERR_NO_INIT ''snapshot: disk not ready, disabled'' w
      | Some d \<Rightarrow>
          if \<not> g_sd_initialized w then snapshot_disable SD_ERR_NO_INIT ''snapshot: disk not ready, disabled'' w
          else if \<not> snapshot_layout_valid d then snapshot_disable SD_ERR_PARAM ''snapshot: layout invalid, disabled'' w
          else
            let ticks = clamp_interval_s (d_snap_interval_s d) * 1000;
                w1 = upd_sx (\<lambda>x. x\<lparr>sx_enabled := 1, sx_interval_ticks := ticks, sx_next_tick := systick_now w + ticks,
                                    sx_last_err := SD_OK, sx_last_seq := d_last_snap_seq d\<rparr>) w;
                w2 = (if d_last_snap_seq d \<noteq> 0
                      then snapshot_consume_boot_target d (uart_puts (''snapshot: scanning boot target'' @ crlf) w1)
                      else uart_puts (''snapshot: fresh disk, skip scan'' @ crlf) w1);
                w3 = journal_configure (d_journal_start_lba d) (d_journal_blocks d) (d_last_snap_seq d) w2
            in (SD_OK, uart_puts (''snapshot: boot init ok'' @ crlf) w3))"

definition snapshot_task_request_now :: "'a snap_world_scheme \<Rightarrow> int \<times> 'a snap_world_scheme" where
  "snapshot_task_request_now w =
     (if \<not> g_snapshot_sched w then (SCHED_ERR_PARAM, w)
      else case snapshot_try_load_policy w of (rc, ticks) \<Rightarrow>
        if rc \<noteq> SD_OK then (SCHED_ERR_DISABLED, upd_sx (\<lambda>x. x\<lparr>sx_enabled := 0, sx_last_err := rc\<rparr>) w)
        else
          let w1 = upd_sx (\<lambda>x. x\<lparr>sx_enabled := 1, sx_interval_ticks := ticks\<rparr>) w;
              bg = g_cmd_bg_ctx w1 AND 1;
              w2 = (if bg \<noteq> 0 then w1\<lparr>g_cmd_bg_async := 1\<rparr> else w1)
          in sched_post AO_SNAPSHOT (Some ((sig_event SNAP_SIG_TRIGGER)\<lparr>ev_src := ucast bg, ev_arg0 := 1\<rparr>)) w2)"

definition snapshot_task_systick_hook :: "'a snap_world_scheme \<Rightarrow> 'a snap_world_scheme" where
  "snapshot_task_systick_hook w =
     (if \<not> g_snapshot_sched w \<or> sx_enabled (g_snapshot_ctx w) = 0 then w
      else if \<not> snap_registered w then upd_sx (\<lambda>x. x\<lparr>sx_enabled := 0, sx_step_pending := 0\<rparr>) w
      else if sx_busy (g_snapshot_ctx w) \<noteq> 0 \<or> sx_step_pending (g_snapshot_ctx w) \<noteq> 0 then w
      else if sint (systick_now w - sx_next_tick (g_snapshot_ctx w)) < 0 then w
      else case sched_post_isr AO_SNAPSHOT (Some (sig_event SNAP_SIG_TRIGGER)) w of (rc, w1) \<Rightarrow>
        if rc = SCHED_OK then upd_sx (\<lambda>x. x\<lparr>sx_step_pending := 1\<rparr>) w1 else w1)"

end
