(* ===== verification/Max_Scan.thy ===== *)
theory Max_Scan
  imports Best_Scan
begin

text \<open>
  The scan of \<open>Best_Scan\<close> when records compare by a plain sequence number: it
  returns the first record with the largest number, and a record that is not the
  best one may disappear without changing the result.
\<close>

abbreviation max_scan :: "('i \<Rightarrow> 's :: linorder option) \<Rightarrow> 'i list \<Rightarrow> ('s \<times> 'i) option \<Rightarrow> ('s \<times> 'i) option" where
  "max_scan \<equiv> best_scan (\<lambda>s t. s > t)"

lemma best_scan_append: "best_scan newer probe (xs @ ys) best = best_scan newer probe ys (best_scan newer probe xs best)"
  by (induction xs arbitrary: best) (simp_all split: option.split)

lemma max_scan_below:
  assumes "\<forall>j \<in> set xs. \<forall>t. probe j = Some t \<longrightarrow> t < s" "\<forall>t k. best = Some (t, k) \<longrightarrow> t < s"
  shows "\<forall>t k. max_scan probe xs best = Some (t, k) \<longrightarrow> t < s"
  using assms
proof (induction xs arbitrary: best)
  case (Cons x xs)
  let ?best = "case probe x of None \<Rightarrow> best | Some u \<Rightarrow> if (case best of None \<Rightarrow> True | Some (t, _) \<Rightarrow> u > t) then Some (u, x) else best"
  have "max_scan probe (x # xs) best = max_scan probe xs ?best" by (simp split: option.split)
  moreover have "\<forall>t k. ?best = Some (t, k) \<longrightarrow> t < s" using Cons.prems by (auto split: option.splits if_splits)
  ultimately show ?case using Cons.IH [of ?best] Cons.prems(1) by simp
qed simp

lemma max_scan_keeps:
  assumes "\<forall>j \<in> set ys. \<forall>t. probe j = Some t \<longrightarrow> t \<le> s"
  shows "max_scan probe ys (Some (s, i)) = Some (s, i)"
  using assms by (induction ys) (auto simp: not_less split: option.split)

text \<open>The first largest record, exactly.\<close>

definition first_max :: "('i \<Rightarrow> 's :: linorder option) \<Rightarrow> 'i list \<Rightarrow> 's \<Rightarrow> 'i \<Rightarrow> bool" where
  "first_max probe is s i \<longleftrightarrow> (\<exists>xs ys. is = xs @ i # ys \<and> probe i = Some s \<and>
     (\<forall>j \<in> set xs. \<forall>t. probe j = Some t \<longrightarrow> t < s) \<and> (\<forall>j \<in> set ys. \<forall>t. probe j = Some t \<longrightarrow> t \<le> s))"

lemma max_scan_first_max:
  assumes "first_max probe is s i"
  shows "max_scan probe is None = Some (s, i)"
proof -
  obtain xs ys where "is": "is = xs @ i # ys" and p: "probe i = Some s"
    and x: "\<forall>j \<in> set xs. \<forall>t. probe j = Some t \<longrightarrow> t < s" and y: "\<forall>j \<in> set ys. \<forall>t. probe j = Some t \<longrightarrow> t \<le> s"
    using assms by (auto simp: first_max_def)
  have "\<forall>t k. max_scan probe xs None = Some (t, k) \<longrightarrow> t < s" by (rule max_scan_below [OF x]) simp
  then have "max_scan probe (i # ys) (max_scan probe xs None) = max_scan probe ys (Some (s, i))"
    using p by (auto split: option.splits)
  then show ?thesis by (simp add: "is" best_scan_append max_scan_keeps [OF y])
qed

lemma max_scan_None: "max_scan probe is None = None \<longleftrightarrow> (\<forall>j \<in> set is. probe j = None)"
proof (induction "is" rule: rev_induct)
  case (snoc x xs)
  show ?case
  proof (cases "probe x")
    case None
    then show ?thesis using snoc by (simp add: best_scan_append)
  next
    case (Some s)
    then show ?thesis by (auto simp: best_scan_append split: option.splits)
  qed
qed simp

lemma first_max_max_scan:
  assumes "max_scan probe is None = Some (s, i)"
  shows "first_max probe is s i"
  using assms
proof (induction "is" arbitrary: s i rule: rev_induct)
  case (snoc x xs)
  show ?case
  proof (cases "max_scan probe xs None")
    case None
    then have n: "\<forall>j \<in> set xs. probe j = None" by (simp add: max_scan_None)
    then have "probe x = Some s" "i = x" using snoc.prems None by (auto simp: best_scan_append split: option.splits)
    then show ?thesis using n unfolding first_max_def by (intro exI [of _ xs] exI [of _ "[]"]) auto
  next
    case (Some r)
    obtain u k where r: "r = (u, k)" by fastforce
    obtain as bs where o': "xs = as @ k # bs" "probe k = Some u" "\<forall>j \<in> set as. \<forall>t. probe j = Some t \<longrightarrow> t < u"
      "\<forall>j \<in> set bs. \<forall>t. probe j = Some t \<longrightarrow> t \<le> u"
      using snoc.IH [of u k] Some r by (auto simp: first_max_def)
    show ?thesis
    proof (cases "\<exists>v. probe x = Some v \<and> v > u")
      case True
      then have "probe x = Some s" "i = x" "s > u" using snoc.prems Some r by (auto simp: best_scan_append)
      moreover from this have "\<forall>j \<in> set xs. \<forall>t. probe j = Some t \<longrightarrow> t < s" using o' by (auto dest: order.strict_trans2)
      ultimately show ?thesis unfolding first_max_def by (intro exI [of _ xs] exI [of _ "[]"]) auto
    next
      case False
      then have "s = u" "i = k" using snoc.prems Some r by (auto simp: best_scan_append split: option.splits if_splits)
      then show ?thesis using o' False unfolding first_max_def
        by (intro exI [of _ as] exI [of _ "bs @ [x]"]) (auto simp: not_less)
    qed
  qed
qed simp

lemma max_scan_iff: "max_scan probe is None = Some (s, i) \<longleftrightarrow> first_max probe is s i"
  using max_scan_first_max first_max_max_scan by metis

text \<open>A record other than the best may become invalid.\<close>

lemma max_scan_forget:
  assumes "max_scan probe is None = best" "\<forall>j. probe' j = probe j \<or> probe' j = None \<and> (\<forall>s. best \<noteq> Some (s, j))"
  shows "max_scan probe' is None = best"
proof (cases best)
  case None
  then show ?thesis using assms by (metis max_scan_None)
next
  case (Some r)
  obtain s i where r: "r = (s, i)" by fastforce
  have fm: "first_max probe is s i" using assms(1) Some r by (simp add: max_scan_iff)
  have i: "probe' i = probe i" using assms(2) [rule_format, of i] Some r by auto
  have le: "probe' j = Some t \<Longrightarrow> probe j = Some t" for j t using assms(2) [rule_format, of j] by auto
  have "first_max probe' is s i" using fm i le unfolding first_max_def by metis
  then show ?thesis using Some r by (simp add: max_scan_iff)
qed

text \<open>A record newer than all the others is found.\<close>

lemma max_scan_new:
  assumes "i \<in> set is" "distinct is" "probe i = Some s" "\<forall>j \<in> set is. j \<noteq> i \<longrightarrow> (\<forall>t. probe j = Some t \<longrightarrow> t < s)"
  shows "max_scan probe is None = Some (s, i)"
proof (rule max_scan_first_max)
  obtain xs ys where "is": "is = xs @ i # ys" using assms(1) by (meson split_list)
  then have "i \<notin> set xs" "i \<notin> set ys" using assms(2) by auto
  then show "first_max probe is s i" using assms(3,4) "is" unfolding first_max_def
    by (intro exI [of _ xs] exI [of _ ys]) (auto simp: less_imp_le)
qed

lemma max_scan_ge: "max_scan probe is None = Some (s, i) \<Longrightarrow> j \<in> set is \<Longrightarrow> probe j = Some t \<Longrightarrow> t \<le> s"
  by (auto simp: max_scan_iff first_max_def less_imp_le)

lemma max_scan_probe: "max_scan probe is None = Some (s, i) \<Longrightarrow> i \<in> set is \<and> probe i = Some s"
  by (auto simp: max_scan_iff first_max_def)

end
