(* ===== verification/Snapshot_Ring.thy ===== *)
theory Snapshot_Ring
  imports Snapshot Max_Scan
begin

text \<open>
  What the snapshot writer leaves on the card, whatever the outcomes of the
  transfers: a complete new slot, or the ring as it was before.
\<close>

section \<open>The writer's loops write the payload list\<close>

definition kept :: "'a snap_world_scheme \<Rightarrow> 'a snap_world_scheme \<Rightarrow> bool" where
  "kept w' w \<longleftrightarrow> g_rwos_disk w' = g_rwos_disk w \<and> g_rwos_disk_valid w' = g_rwos_disk_valid w \<and> g_journal w' = g_journal w \<and>
     ssnap_exclude w' = ssnap_exclude w \<and> esnap_exclude w' = esnap_exclude w"

lemma kept_refl [simp]: "kept w w"
  by (simp add: kept_def)

lemma kept_trans: "kept w2 w1 \<Longrightarrow> kept w1 w \<Longrightarrow> kept w2 w"
  by (simp add: kept_def)

lemma kept_more: "sd_world.more w' = sd_world.more w \<Longrightarrow> kept w' w" "sd_world.more w' = sd_world.more w \<Longrightarrow> snap_mem w' = snap_mem w"
  by (cases w; cases w'; simp add: kept_def)+

lemma write1_kept:
  assumes "sd_write1 lba b w = (rc, w1)"
  shows "kept w1 w" "snap_mem w1 = snap_mem w"
  using kept_more [of w1 w] sd_more(2) [of lba b w] assms by simp_all

lemma snap_err_same [simp]:
  "kept (LOG_ERR t rc f l w') w \<longleftrightarrow> kept w' w" "snap_mem (LOG_ERR t rc f l w) = snap_mem w" "sd_torn P (LOG_ERR t rc f l w) = sd_torn P w"
  by (simp_all add: kept_def LOG_ERR_def sd_torn_def)

lemma copy_chunk:
  "snapshot_copy_region_chunk_atomic src n w = (map (\<lambda>i. snap_mem w 0 (src + of_nat i)) [0..<unat n], w\<lparr>snap_mem := \<lambda>k. snap_mem w (Suc k)\<rparr>)"
  by (simp add: snapshot_copy_region_chunk_atomic_def)

lemma chunks_step:
  assumes "rem \<noteq> (0 :: u32)"
  defines "n \<equiv> (if rem > 512 then 512 else rem)"
  shows "chunks mem src (unat rem) = map (\<lambda>i. mem 0 (src + of_nat i)) [0..<unat n] # chunks (\<lambda>k. mem (Suc k)) (src + n) (unat (rem - n))"
proof -
  have n: "unat n = min (unat rem) 512" by (simp add: n_def min_def word_less_nat_alt)
  moreover have "unat (rem - n) = unat rem - unat n" by (simp add: n_def unat_sub word_less_nat_alt word_le_nat_alt)
  moreover have "of_nat (unat n) = n" by simp
  ultimately show ?thesis using assms(1) by (subst chunks.simps) (simp add: Let_def unat_0_iff del: of_nat_unat flip: n)
qed

lemma snap_data_loop_wrote:
  assumes "sd_torn P w" "snap_data_loop src rem lba crc w = ((rc, lba', crc'), w')"
  shows "wrote (sd_card w) lba (map padded (chunks (snap_mem w) src (unat rem))) P (rc = SD_OK) (sd_card w') \<and> sd_torn P w' \<and> kept w' w \<and>
    (rc = SD_OK \<longrightarrow> lba' = lba + of_nat (length (chunks (snap_mem w) src (unat rem))) \<and>
       crc' = checksum_bytes_update crc (concat (chunks (snap_mem w) src (unat rem))) \<and>
       snap_mem w' = (\<lambda>k. snap_mem w (k + length (chunks (snap_mem w) src (unat rem)))))"
  using assms
proof (induction src rem lba crc w rule: snap_data_loop.induct)
  case (1 src rem lba crc w)
  show ?case
  proof (cases "rem = 0")
    case True
    then show ?thesis using "1.prems" by (simp add: snap_data_loop.simps checksum_bytes_update_def)
  next
    case False
    let ?n = "if rem > 512 then 512 else rem"
    let ?bs = "map (\<lambda>i. snap_mem w 0 (src + of_nat i)) [0..<unat ?n]"
    let ?w1 = "w\<lparr>snap_mem := \<lambda>k. snap_mem w (Suc k)\<rparr>"
    have t1: "sd_torn P ?w1" using "1.prems"(1) by (simp add: sd_torn_def)
    obtain rc2 w2 where e: "sd_write1 lba (padded ?bs) ?w1 = (rc2, w2)" by fastforce
    have w1: "wrote (sd_card w) lba [padded ?bs] P (rc2 = SD_OK) (sd_card w2)" using wrote_one [OF t1 e] by simp
    have t2: "sd_torn P w2" by (rule sd_write1_torn(1) [OF t1 e])
    have k2: "kept w2 w" "snap_mem w2 = (\<lambda>k. snap_mem w (Suc k))"
      using write1_kept [OF e] by (simp_all add: kept_def)
    note cs = chunks_step [OF False, of "snap_mem w" src]
    show ?thesis
    proof (cases "rc2 = SD_OK")
      case False
      then have "rc = rc2" "w' = snap_err ''snap-data'' rc2 547 w2"
        using "1.prems"(2) \<open>rem \<noteq> 0\<close> e by (auto simp: snap_data_loop.simps [of src rem lba crc w] copy_chunk)
      then show ?thesis using False w1 t2 k2 wrote_stop [of _ _ "[padded ?bs]"] by (simp add: cs)
    next
      case True
      have l: "snap_data_loop (src + ?n) (rem - ?n) (lba + 1) (checksum_bytes_update crc ?bs) w2 = ((rc, lba', crc'), w')"
        using "1.prems"(2) \<open>rem \<noteq> 0\<close> e True by (simp add: snap_data_loop.simps [of src rem lba crc w] copy_chunk Let_def)
      note ih = "1.IH" [OF False refl copy_chunk [symmetric] refl e [symmetric] _ t2 l]
      show ?thesis
        using ih True wrote_more [OF w1 [unfolded True, simplified], of "map padded (chunks (snap_mem w2) (src + ?n) (unat (rem - ?n)))"]
          k2 kept_trans [OF _ k2(1)]
        by (auto simp: cs checksum_bytes_append add.assoc)
    qed
  qed
qed


lemma snap_regions_loop_wrote:
  assumes "sd_torn P w" "snap_regions_loop rs lba w = ((rc, lba'), w')"
  shows "wrote (sd_card w) lba (regions_blocks (snap_mem w) rs) P (rc = SD_OK) (sd_card w') \<and> sd_torn P w' \<and> kept w' w \<and>
    (rc = SD_OK \<longrightarrow> lba' = lba + of_nat (length (regions_blocks (snap_mem w) rs)))"
  using assms
proof (induction rs arbitrary: lba w)
  case (Cons r rs)
  let ?cs = "region_chunks (snap_mem w) r"
  let ?tail = "regions_blocks (\<lambda>k. snap_mem w (k + length ?cs)) rs"
  obtain rc1 w1 where e1: "sd_write1 lba (rgs_block (rs_start r) (rs_len r)) w = (rc1, w1)" by fastforce
  note a1 = wrote_one [OF Cons.prems(1) e1] and t1 = sd_write1_torn(1) [OF Cons.prems(1) e1] and k1 = write1_kept [OF e1]
  show ?case
  proof (cases "rc1 = SD_OK")
    case False
    then have "rc = rc1" "w' = snap_err ''snap-rgs'' rc1 530 w1" using Cons.prems(2) e1 by auto
    then show ?thesis using False a1 t1 k1 wrote_stop [of _ _ "[rgs_block (rs_start r) (rs_len r)]"]
      by (simp add: region_blocks_def)
  next
    case True
    obtain rc2 lba2 crc w2 where e2: "snap_data_loop (rs_start r) (rs_len r) (lba + 1) fnv_init w1 = ((rc2, lba2, crc), w2)"
      by (metis prod.exhaust)
    note d = snap_data_loop_wrote [OF t1 e2, unfolded k1(2), folded region_chunks_def]
    have a2: "wrote (sd_card w) lba (rgs_block (rs_start r) (rs_len r) # map padded ?cs) P (rc2 = SD_OK) (sd_card w2)"
      using wrote_more [OF a1 [unfolded True, simplified], of "map padded ?cs"] d by simp
    have t2: "sd_torn P w2" and k2: "kept w2 w" using d kept_trans [OF _ k1(1)] by auto
    show ?thesis
    proof (cases "rc2 = SD_OK")
      case False
      then have "rc = rc2" "w' = w2" using Cons.prems(2) e1 e2 True by auto
      then show ?thesis using False a2 t2 k2 wrote_stop [of _ _ "rgs_block (rs_start r) (rs_len r) # map padded ?cs"]
        by (simp add: region_blocks_def)
    next
      case ok2: True
      let ?re = "rge_block (rs_start r) (rs_len r) (checksum_bytes_finalize crc)"
      have crc: "crc = checksum_bytes_update fnv_init (concat ?cs)" and l2: "lba2 = lba + 1 + of_nat (length ?cs)"
        and m2: "snap_mem w2 = (\<lambda>k. snap_mem w (k + length ?cs))" using d ok2 by simp_all
      obtain rc3 w3 where e3: "sd_write1 lba2 ?re w2 = (rc3, w3)" by fastforce
      note a3 = wrote_one [OF t2 e3] and t3 = sd_write1_torn(1) [OF t2 e3] and k3 = write1_kept [OF e3]
      have rb: "region_blocks (snap_mem w) r = (rgs_block (rs_start r) (rs_len r) # map padded ?cs) @ [?re]"
        by (simp add: region_blocks_def crc)
      have a4: "wrote (sd_card w) lba (region_blocks (snap_mem w) r) P (rc3 = SD_OK) (sd_card w3)"
        unfolding rb by (rule wrote_more [OF a2 [unfolded ok2, simplified]]) (use a3 l2 in \<open>simp add: add.assoc\<close>)
      have k4: "kept w3 w" by (rule kept_trans [OF k3(1) k2])
      show ?thesis
      proof (cases "rc3 = SD_OK")
        case False
        then have "rc = rc3" "w' = snap_err ''snap-rge'' rc3 568 w3" using Cons.prems(2) e1 e2 e3 True ok2 by auto
        then show ?thesis using False a4 t3 k4 wrote_stop by simp
      next
        case ok3: True
        have l: "snap_regions_loop rs (lba2 + 1) w3 = ((rc, lba'), w')" using Cons.prems(2) e1 e2 e3 True ok2 ok3 by simp
        have len: "lba2 + 1 = lba + of_nat (length (region_blocks (snap_mem w) r))" by (simp add: rb l2 algebra_simps)
        note ih = Cons.IH [OF t3 l]
        show ?thesis
          using ih wrote_more [OF a4 [unfolded ok3, simplified], of ?tail] kept_trans [OF _ k4]
          by (auto simp: len k3(2) m2 add.assoc)
      qed
    qed
  qed
qed simp


section \<open>The payload and the slot\<close>

lemma length_region_blocks: "length (region_blocks mem r) = 2 + (unat (rs_len r) + 511) div 512"
  by (simp add: region_blocks_def region_chunks_def length_chunks)

lemma length_regions_blocks: "length (regions_blocks mem rs) = (\<Sum>r\<leftarrow>rs. 2 + (unat (rs_len r) + 511) div 512)"
  by (induction rs arbitrary: mem) (simp_all add: length_region_blocks)

lemma length_payload: "length (payload_list mem rs a b c) = 2 + (\<Sum>r\<leftarrow>rs. 2 + (unat (rs_len r) + 511) div 512)"
  by (simp add: payload_list_def length_regions_blocks)

lemma round_up_nat:
  assumes "unat n < 4294966784"
  shows "unat (div_round_up_u32 n 512) = (unat n + 511) div 512"
proof -
  have "unat (n + 512 - 1) = unat n + 511" using assms by (simp add: unat_word_ariths)
  moreover have "div_round_up_u32 n 512 = (n + 512 - 1) div 512" by (simp add: div_round_up_u32_def)
  ultimately show ?thesis by (simp only: unat_div) simp
qed

lemma required_blocks_nat:
  assumes "(\<Sum>r\<leftarrow>rs. unat (rs_len r)) \<le> 4000000" "length rs \<le> 8"
  shows "unat (required_blocks rs) = 2 + (\<Sum>r\<leftarrow>rs. 2 + (unat (rs_len r) + 511) div 512)"
proof -
  have "unat (foldl (\<lambda>t r. t + 2 + div_round_up_u32 (rs_len r) 512) t rs) = unat t + (\<Sum>r\<leftarrow>rs. 2 + (unat (rs_len r) + 511) div 512)"
    if "unat t + 3 * length rs + (\<Sum>r\<leftarrow>rs. unat (rs_len r)) < 4294966000" for t
    using that
  proof (induction rs arbitrary: t)
    case (Cons r rs)
    let ?q = "(unat (rs_len r) + 511) div 512"
    have q: "?q \<le> unat (rs_len r) + 1" by linarith
    have d: "unat (div_round_up_u32 (rs_len r) 512) = ?q" by (rule round_up_nat) (use Cons.prems in simp)
    have "unat t + 2 + ?q < 4294967296" using Cons.prems q by simp
    then have u: "unat (t + 2 + div_round_up_u32 (rs_len r) 512) = unat t + 2 + ?q"
      by (simp add: unat_word_ariths d)
    have "unat (t + 2 + div_round_up_u32 (rs_len r) 512) + 3 * length rs + (\<Sum>r\<leftarrow>rs. unat (rs_len r)) < 4294966000"
      using Cons.prems q by (simp add: u)
    from Cons.IH [OF this] show ?case by (simp add: u)
  qed simp
  from this [of 2] show ?thesis using assms by (simp add: required_blocks_def)
qed

lemma snapshot_write_payload_wrote:
  assumes "sd_torn P w" "snapshot_write_payload lba pb reason tick ready w = (rc, w')"
  defines "rs \<equiv> snapshot_build_regions (ssnap_exclude w) (esnap_exclude w) 4"
  shows "sd_torn P w' \<and> kept w' w \<and>
    (if required_blocks rs > pb then rc \<noteq> SD_OK \<and> sd_card w' = sd_card w
     else wrote (sd_card w) (lba + 1) (payload_list (snap_mem w) rs reason tick ready) P (rc = SD_OK) (sd_card w'))"
proof (cases "required_blocks rs > pb")
  case True
  then show ?thesis using assms(1,2) build_regions_ok(1) [of "ssnap_exclude w" "esnap_exclude w"]
    by (auto simp: snapshot_write_payload_def rs_def [symmetric] sd_codes)
next
  case False
  have ne: "rs \<noteq> []" using build_regions_ok(1) by (simp add: rs_def)
  let ?p0 = "pay0_block reason tick ready (of_nat (length rs)) (region_total rs)"
  let ?pe = "paye_block (of_nat (length rs)) (region_total rs)"
  obtain rc1 w1 where e1: "sd_write1 (lba + 1) ?p0 w = (rc1, w1)" by fastforce
  note a1 = wrote_one [OF assms(1) e1] and t1 = sd_write1_torn(1) [OF assms(1) e1] and k1 = write1_kept [OF e1]
  have pl: "payload_list (snap_mem w) rs reason tick ready = [?p0] @ regions_blocks (snap_mem w) rs @ [?pe]"
    by (simp add: payload_list_def)
  show ?thesis
  proof (cases "rc1 = SD_OK")
    case bad: False
    then have "rc = rc1" "w' = snap_err ''snap-pay0'' rc1 509 w1"
      using assms(2) False ne e1 by (auto simp: snapshot_write_payload_def rs_def [symmetric] Let_def)
    then show ?thesis using bad False t1 k1 a1 wrote_stop [of "sd_card w" "lba + 1" "[?p0]" P "sd_card w1" "regions_blocks (snap_mem w) rs @ [?pe]"]
      unfolding pl by simp
  next
    case True
    obtain rc2 lba2 w2 where e2: "snap_regions_loop rs (lba + 2) w1 = ((rc2, lba2), w2)" by (metis prod.exhaust)
    note r = snap_regions_loop_wrote [OF t1 e2, unfolded k1(2)]
    have a2: "wrote (sd_card w) (lba + 1) ([?p0] @ regions_blocks (snap_mem w) rs) P (rc2 = SD_OK) (sd_card w2)"
      by (rule wrote_more [OF a1 [unfolded True, simplified]]) (use r in \<open>simp add: add.assoc\<close>)
    have t2: "sd_torn P w2" and k2: "kept w2 w" using r kept_trans [OF _ k1(1)] by auto
    show ?thesis
    proof (cases "rc2 = SD_OK")
      case bad: False
      then have "rc = rc2" "w' = w2"
        using assms(2) False ne e1 e2 True by (auto simp: snapshot_write_payload_def rs_def [symmetric] Let_def)
      then show ?thesis using bad False t2 k2 a2
          wrote_stop [of "sd_card w" "lba + 1" "[?p0] @ regions_blocks (snap_mem w) rs" P "sd_card w2" "[?pe]"]
        unfolding pl by simp
    next
      case ok2: True
      obtain rc3 w3 where e3: "sd_write1 lba2 ?pe w2 = (rc3, w3)" by fastforce
      note a3 = wrote_one [OF t2 e3] and t3 = sd_write1_torn(1) [OF t2 e3] and k3 = write1_kept [OF e3]
      have l2: "lba2 = lba + 1 + of_nat (length ([?p0] @ regions_blocks (snap_mem w) rs))" using r ok2 by (simp add: algebra_simps)
      have a4: "wrote (sd_card w) (lba + 1) (([?p0] @ regions_blocks (snap_mem w) rs) @ [?pe]) P (rc3 = SD_OK) (sd_card w3)"
        by (rule wrote_more [where ?c1.0 = "sd_card w2"]) (use a2 ok2 a3 l2 in simp_all)
      have "rc = rc3" "sd_card w' = sd_card w3" "sd_torn P w' = sd_torn P w3" "kept w' w = kept w3 w"
        using assms(2) False ne e1 e2 e3 True ok2
        by (auto simp: snapshot_write_payload_def rs_def [symmetric] Let_def split: if_splits)
      then show ?thesis using False t3 kept_trans [OF k3(1) k2] a4 unfolding pl by simp
    qed
  qed
qed


section \<open>Slots on a card\<close>

definition hdr_ok :: "u32 \<Rightarrow> u32 \<Rightarrow> u32 \<Rightarrow> block \<Rightarrow> bool" where
  "hdr_ok lba blocks idx b \<longleftrightarrow> word_at b 0 = SNAP_HDR_MAGIC \<and> word_at b 1 = SNAP_FMT_VERSION \<and> word_at b 3 = idx \<and>
     word_at b 4 = lba + 1 \<and> word_at b 5 = blocks - 2 \<and> seal_ok SNAP_HDR_WORDS b"

definition pay0_ok :: "block \<Rightarrow> bool" where
  "pay0_ok b \<longleftrightarrow> word_at b 0 = SNAP_PAY0_MAGIC \<and> word_at b 1 = SNAP_FMT_VERSION \<and> seal_ok SNAP_PAY0_WORDS b"

definition cmit_ok :: "u32 \<Rightarrow> block \<Rightarrow> bool" where
  "cmit_ok idx b \<longleftrightarrow> word_at b 0 = SNAP_CMIT_MAGIC \<and> word_at b 1 = SNAP_FMT_VERSION \<and> word_at b 3 = idx \<and> seal_ok SNAP_CMIT_WORDS b"

definition slot_base :: "rwos_disk \<Rightarrow> u32 \<Rightarrow> u32" where
  "slot_base d i = d_snap_start_lba d + i * d_snap_slot_blocks d"

text \<open>The sequence number of slot \<open>i\<close>, as the checks of \<open>snapshot_slot_valid\<close> decide it.\<close>

definition slot_probe :: "(u32 \<Rightarrow> block) \<Rightarrow> u32 \<Rightarrow> u32 \<Rightarrow> u32 \<Rightarrow> u32 option" where
  "slot_probe c lba blocks idx =
     (if hdr_ok lba blocks idx (c lba) \<and> pay0_ok (c (lba + 1)) \<and> cmit_ok idx (c (lba + blocks - 1)) \<and>
         word_at (c (lba + blocks - 1)) 2 = word_at (c lba) 2
      then Some (word_at (c lba) 2) else None)"

definition card_probe :: "rwos_disk \<Rightarrow> (u32 \<Rightarrow> block) \<Rightarrow> u32 \<Rightarrow> u32 option" where
  "card_probe d c i = slot_probe c (slot_base d i) (d_snap_slot_blocks d) i"

definition slot_list :: "rwos_disk \<Rightarrow> u32 list" where
  "slot_list d = map of_nat [0..<unat (d_snap_slots d)]"

text \<open>The latest snapshot on a card.\<close>

definition card_latest :: "rwos_disk \<Rightarrow> (u32 \<Rightarrow> block) \<Rightarrow> (u32 \<times> u32) option" where
  "card_latest d c = max_scan (card_probe d c) (slot_list d) None"

text \<open>No slot holds a commit that is newer than the latest snapshot.\<close>

definition ring_ok :: "rwos_disk \<Rightarrow> (u32 \<Rightarrow> block) \<Rightarrow> bool" where
  "ring_ok d c \<longleftrightarrow> (\<forall>i \<in> set (slot_list d). cmit_ok i (c (slot_base d i + d_snap_slot_blocks d - 1)) \<longrightarrow>
     (\<exists>q j. card_latest d c = Some (q, j) \<and> word_at (c (slot_base d i + d_snap_slot_blocks d - 1)) 2 \<le> q))"

text \<open>The slots lie in a row without wrapping round, and hold at least two blocks.\<close>

definition ring_layout :: "rwos_disk \<Rightarrow> bool" where
  "ring_layout d \<longleftrightarrow> 2 \<le> unat (d_snap_slot_blocks d) \<and> 0 < unat (d_snap_slots d) \<and>
     unat (d_snap_start_lba d) + unat (d_snap_slots d) * unat (d_snap_slot_blocks d) < 4294967296"

lemma set_slot_list: "i \<in> set (slot_list d) \<longleftrightarrow> i < d_snap_slots d"
proof
  assume "i \<in> set (slot_list d)"
  then obtain k where "i = of_nat k" "k < unat (d_snap_slots d)" by (auto simp: slot_list_def)
  moreover from this have "k < 4294967296" using unat_u32_lt [of "d_snap_slots d"] by linarith
  moreover from calculation have "unat i = k" by (simp add: unat_of_nat)
  ultimately show "i < d_snap_slots d" by (simp add: word_less_nat_alt)
next
  assume "i < d_snap_slots d"
  then have "i = of_nat (unat i)" "unat i < unat (d_snap_slots d)" by (simp_all add: word_less_nat_alt)
  then show "i \<in> set (slot_list d)" unfolding slot_list_def by (metis atLeast0LessThan imageI lessThan_iff list.set_map set_upt)
qed

lemma distinct_slot_list: "distinct (slot_list d)"
proof -
  have "inj_on (of_nat :: nat \<Rightarrow> u32) {0..<unat (d_snap_slots d)}"
  proof (rule inj_onI)
    fix x y assume a: "x \<in> {0..<unat (d_snap_slots d)}" "y \<in> {0..<unat (d_snap_slots d)}" "(of_nat x :: u32) = of_nat y"
    have "x < 4294967296" "y < 4294967296" using a unat_u32_lt [of "d_snap_slots d"] by (simp_all only: atLeastLessThan_iff) linarith+
    then show "x = y" using a(3) lba_inj [of x y 0] by simp
  qed
  then show ?thesis by (simp add: slot_list_def distinct_map)
qed

text \<open>Block \<open>k\<close> of slot \<open>i\<close> has its own address.\<close>

lemma slot_pos:
  assumes "ring_layout d" "i < d_snap_slots d" "k < unat (d_snap_slot_blocks d)"
  shows "slot_base d i + of_nat k = d_snap_start_lba d + of_nat (unat i * unat (d_snap_slot_blocks d) + k)"
    "unat i * unat (d_snap_slot_blocks d) + k < unat (d_snap_slots d) * unat (d_snap_slot_blocks d)"
proof -
  let ?B = "unat (d_snap_slot_blocks d)"
  have "unat i + 1 \<le> unat (d_snap_slots d)" using assms(2) by (simp add: word_less_nat_alt)
  then have "(unat i + 1) * ?B \<le> unat (d_snap_slots d) * ?B" by (rule mult_le_mono1)
  then show "unat i * ?B + k < unat (d_snap_slots d) * ?B" using assms(3) by simp
  show "slot_base d i + of_nat k = d_snap_start_lba d + of_nat (unat i * ?B + k)"
    by (simp add: slot_base_def)
qed

lemma slot_disjoint:
  assumes "ring_layout d" "i < d_snap_slots d" "j < d_snap_slots d" "k < unat (d_snap_slot_blocks d)" "m < unat (d_snap_slot_blocks d)"
  shows "slot_base d i + of_nat k = slot_base d j + of_nat m \<longleftrightarrow> i = j \<and> k = m"
proof -
  let ?B = "unat (d_snap_slot_blocks d)"
  note p = slot_pos [OF assms(1,2,4)] and q = slot_pos [OF assms(1,3,5)]
  have b: "unat (d_snap_slots d) * ?B < 4294967296" using assms(1) by (simp add: ring_layout_def)
  have "slot_base d i + of_nat k = slot_base d j + of_nat m \<longleftrightarrow> unat i * ?B + k = unat j * ?B + m"
    unfolding p(1) q(1) by (rule lba_inj) (use p(2) q(2) b in simp_all)
  also have "\<dots> \<longleftrightarrow> unat i = unat j \<and> k = m"
  proof
    assume e: "unat i * ?B + k = unat j * ?B + m"
    then have "(unat i * ?B + k) div ?B = (unat j * ?B + m) div ?B" "(unat i * ?B + k) mod ?B = (unat j * ?B + m) mod ?B" by simp_all
    then show "unat i = unat j \<and> k = m" using assms(4,5) by simp
  qed simp
  finally show ?thesis by (simp add: word_unat_eq_iff)
qed

lemma slot_last: "ring_layout d \<Longrightarrow> slot_base d i + d_snap_slot_blocks d - 1 = slot_base d i + of_nat (unat (d_snap_slot_blocks d) - 1)"
  by (simp add: ring_layout_def of_nat_diff)


section \<open>One slot is written\<close>

text \<open>A torn block carries neither a header's nor a commit's checksum.\<close>

definition torn_snap :: "block \<Rightarrow> bool" where
  "torn_snap b \<longleftrightarrow> \<not> (word_at b 0 = SNAP_HDR_MAGIC \<and> seal_ok SNAP_HDR_WORDS b) \<and>
     \<not> (word_at b 0 = SNAP_CMIT_MAGIC \<and> seal_ok SNAP_CMIT_WORDS b)"

lemma torn_snap_bad: "torn_snap b \<Longrightarrow> \<not> hdr_ok l n i b" "torn_snap b \<Longrightarrow> \<not> cmit_ok i b"
  by (auto simp: torn_snap_def hdr_ok_def cmit_ok_def)

lemma new_blocks_ok: "hdr_ok l n i (hdr_block seq i (l + 1) (n - 2))" "cmit_ok i (cmit_block seq i)" "pay0_ok (pay0_block a b c e f)"
  by (simp_all add: hdr_ok_def cmit_ok_def pay0_ok_def snap_block_words snap_block_seals del: One_nat_def)

lemma snapshot_write_slot_wrote:
  assumes "sd_torn P w" "snapshot_write_slot lba blocks idx seq reason tick ready w = (rc, w')"
  defines "rs \<equiv> snapshot_build_regions (ssnap_exclude w) (esnap_exclude w) 4"
  defines "row \<equiv> hdr_block seq idx (lba + 1) (blocks - 2) # payload_list (snap_mem w) rs reason tick ready"
  shows "sd_torn P w'" "kept w' w"
    "rc = SD_OK \<Longrightarrow> \<not> required_blocks rs > blocks - 2 \<and> sd_card w' = (card_put lba row (sd_card w))(lba + blocks - 1 := cmit_block seq idx)"
    "rc \<noteq> SD_OK \<Longrightarrow> (\<not> required_blocks rs > blocks - 2 \<and>
        (wrote (sd_card w) lba row P False (sd_card w') \<or> sd_card w' = card_put lba row (sd_card w) \<or>
         (\<exists>x. P x \<and> sd_card w' = (card_put lba row (sd_card w))(lba + blocks - 1 := x)))) \<or>
      (required_blocks rs > blocks - 2 \<and> (sd_card w' = (sd_card w)(lba := hdr_block seq idx (lba + 1) (blocks - 2)) \<or>
         wrote (sd_card w) lba [hdr_block seq idx (lba + 1) (blocks - 2)] P False (sd_card w')))"
proof -
  let ?h = "hdr_block seq idx (lba + 1) (blocks - 2)"
  let ?pl = "payload_list (snap_mem w) rs reason tick ready"
  obtain rc1 w1 where e1: "sd_write1 lba ?h w = (rc1, w1)" by fastforce
  note a1 = wrote_one [OF assms(1) e1] and t1 = sd_write1_torn(1) [OF assms(1) e1] and k1 = write1_kept [OF e1]
  obtain rc2 w2 where e2: "snapshot_write_payload lba (blocks - 2) reason tick ready w1 = (rc2, w2)" by fastforce
  have rs1: "snapshot_build_regions (ssnap_exclude w1) (esnap_exclude w1) 4 = rs" using k1(1) by (simp add: rs_def kept_def)
  note p = snapshot_write_payload_wrote [OF t1 e2, unfolded rs1 k1(2)]
  obtain rc3 w3 where e3: "sd_write1 (lba + blocks - 1) (cmit_block seq idx) w2 = (rc3, w3)" by fastforce
  have t2: "sd_torn P w2" and k2: "kept w2 w" using p kept_trans [OF _ k1(1)] by auto
  note s3 = sd_write1_torn [OF t2 e3] and k3 = write1_kept [OF e3]
  have eval: "(rc, w') = (if rc1 \<noteq> SD_OK then (rc1, snap_err ''snap-hdr'' rc1 871 w1) else if rc2 \<noteq> SD_OK then (rc2, w2)
      else if rc3 \<noteq> SD_OK then (rc3, snap_err ''snap-cmit'' rc3 892 w3) else (SD_OK, w3))"
    unfolding assms(2) [symmetric] by (simp add: snapshot_write_slot_def e1 e2 e3)
  consider (hdr) "rc1 \<noteq> SD_OK" | (pay) "rc1 = SD_OK" "rc2 \<noteq> SD_OK" | (cmit) "rc1 = SD_OK" "rc2 = SD_OK" by blast
  then have "sd_torn P w' \<and> kept w' w \<and>
    (rc = SD_OK \<longrightarrow> \<not> required_blocks rs > blocks - 2 \<and> sd_card w' = (card_put lba row (sd_card w))(lba + blocks - 1 := cmit_block seq idx)) \<and>
    (rc \<noteq> SD_OK \<longrightarrow> (\<not> required_blocks rs > blocks - 2 \<and>
        (wrote (sd_card w) lba row P False (sd_card w') \<or> sd_card w' = card_put lba row (sd_card w) \<or>
         (\<exists>x. P x \<and> sd_card w' = (card_put lba row (sd_card w))(lba + blocks - 1 := x)))) \<or>
      (required_blocks rs > blocks - 2 \<and> (sd_card w' = (sd_card w)(lba := ?h) \<or> wrote (sd_card w) lba [?h] P False (sd_card w'))))"
  proof cases
    case hdr
    then have e: "rc = rc1" "sd_card w' = sd_card w1" "sd_torn P w' = sd_torn P w1" "kept w' w = kept w1 w" using eval by auto
    have "wrote (sd_card w) lba [?h] P False (sd_card w1)" using a1 hdr by simp
    then show ?thesis using e t1 k1 hdr wrote_stop [of "sd_card w" lba "[?h]" P "sd_card w1" ?pl] by (simp add: row_def)
  next
    case pay
    then have e: "rc = rc2" "w' = w2" using eval by auto
    have c1: "sd_card w1 = (sd_card w)(lba := ?h)" using a1 pay by (simp add: wrote_def)
    show ?thesis
    proof (cases "required_blocks rs > blocks - 2")
      case True
      then show ?thesis using e t2 k2 p pay c1 by simp
    next
      case False
      have "wrote (sd_card w) lba ([?h] @ ?pl) P False (sd_card w2)"
        by (rule wrote_more [where ?c1.0 = "sd_card w1"]) (use a1 p pay False in simp_all)
      then show ?thesis using e t2 k2 pay False by (simp add: row_def)
    qed
  next
    case cmit
    then have f: "\<not> required_blocks rs > blocks - 2" using p by (auto split: if_splits)
    have "wrote (sd_card w) lba ([?h] @ ?pl) P True (sd_card w2)"
      by (rule wrote_more [where ?c1.0 = "sd_card w1"]) (use a1 p cmit f in simp_all)
    then have c2: "sd_card w2 = card_put lba row (sd_card w)" by (simp add: wrote_def row_def)
    have e: "rc = rc3" "sd_card w' = sd_card w3" "sd_torn P w' = sd_torn P w3" "kept w' w = kept w3 w" using eval cmit by (auto split: if_splits)
    then show ?thesis using f s3 kept_trans [OF k3(1) k2] c2 by (cases "rc3 = SD_OK") auto
  qed
  then show "sd_torn P w'" "kept w' w"
    "rc = SD_OK \<Longrightarrow> \<not> required_blocks rs > blocks - 2 \<and> sd_card w' = (card_put lba row (sd_card w))(lba + blocks - 1 := cmit_block seq idx)"
    "rc \<noteq> SD_OK \<Longrightarrow> (\<not> required_blocks rs > blocks - 2 \<and>
        (wrote (sd_card w) lba row P False (sd_card w') \<or> sd_card w' = card_put lba row (sd_card w) \<or>
         (\<exists>x. P x \<and> sd_card w' = (card_put lba row (sd_card w))(lba + blocks - 1 := x)))) \<or>
      (required_blocks rs > blocks - 2 \<and> (sd_card w' = (sd_card w)(lba := ?h) \<or> wrote (sd_card w) lba [?h] P False (sd_card w')))"
    by blast+
qed


text \<open>The block addresses of the payload row stay below the commit block of the slot.\<close>

lemma row_length:
  assumes "\<not> required_blocks (snapshot_build_regions xs xe 4) > blocks - 2" "2 \<le> unat blocks"
  shows "length (hdr_block seq idx l n # payload_list mem (snapshot_build_regions xs xe 4) a b c) \<le> unat blocks - 1"
proof -
  let ?rs = "snapshot_build_regions xs xe 4"
  have "unat (required_blocks ?rs) = 2 + (\<Sum>r\<leftarrow>?rs. 2 + (unat (rs_len r) + 511) div 512)"
    by (rule required_blocks_nat) (use build_regions_ok(2,4) [of xs xe] in simp_all)
  moreover have "unat (required_blocks ?rs) \<le> unat blocks - 2"
    using assms by (simp add: not_less word_le_nat_alt unat_sub)
  ultimately show ?thesis using assms(2) by (simp add: length_payload)
qed

lemma row_other_slot:
  assumes "ring_layout d" "i < d_snap_slots d" "j < d_snap_slots d" "j \<noteq> i" "m < unat (d_snap_slot_blocks d)" "n \<le> unat (d_snap_slot_blocks d)"
  shows "\<forall>k<n. slot_base d j + of_nat m \<noteq> slot_base d i + of_nat k"
  using slot_disjoint [OF assms(1,3,2,5)] assms(4,6) by auto

lemma probe_same:
  assumes "ring_layout d" "\<forall>m<unat (d_snap_slot_blocks d). c' (slot_base d j + of_nat m) = c (slot_base d j + of_nat m)"
  shows "card_probe d c' j = card_probe d c j"
    "c' (slot_base d j + d_snap_slot_blocks d - 1) = c (slot_base d j + d_snap_slot_blocks d - 1)"
proof -
  have b: "2 \<le> unat (d_snap_slot_blocks d)" using assms(1) by (simp add: ring_layout_def)
  have "c' (slot_base d j) = c (slot_base d j)" "c' (slot_base d j + 1) = c (slot_base d j + 1)"
    using assms(2) [rule_format, of 0] assms(2) [rule_format, of 1] b by simp_all
  moreover show l: "c' (slot_base d j + d_snap_slot_blocks d - 1) = c (slot_base d j + d_snap_slot_blocks d - 1)"
    using assms(2) [rule_format, of "unat (d_snap_slot_blocks d) - 1"] b unfolding slot_last [OF assms(1)] by simp
  ultimately show "card_probe d c' j = card_probe d c j" by (simp add: card_probe_def slot_probe_def)
qed

text \<open>Slot \<open>i\<close> was written, in full or in part: no other slot changed, and slot \<open>i\<close> now holds
  the new snapshot, or it holds what it held, or it is invalid.\<close>

definition slot_step :: "rwos_disk \<Rightarrow> u32 \<Rightarrow> u32 \<Rightarrow> bool \<Rightarrow> (u32 \<Rightarrow> block) \<Rightarrow> (u32 \<Rightarrow> block) \<Rightarrow> bool" where
  "slot_step d i seq ok c c' \<longleftrightarrow>
     (\<forall>j. j < d_snap_slots d \<longrightarrow> j \<noteq> i \<longrightarrow> (\<forall>m<unat (d_snap_slot_blocks d). c' (slot_base d j + of_nat m) = c (slot_base d j + of_nat m))) \<and>
     (let m = c (slot_base d i + d_snap_slot_blocks d - 1); m' = c' (slot_base d i + d_snap_slot_blocks d - 1) in
      if ok then card_probe d c' i = Some seq \<and> word_at m' 2 = seq
      else (m' = m \<or> \<not> cmit_ok i m') \<and> (card_probe d c' i = card_probe d c i \<or> card_probe d c' i = None \<or>
             card_probe d c' i = Some seq \<and> cmit_ok i m \<and> word_at m 2 = seq))"

lemma probe_new_header:
  assumes "c' (slot_base d i) = hdr_block seq i (slot_base d i + 1) (d_snap_slot_blocks d - 2)"
  shows "card_probe d c' i = None \<or> card_probe d c' i = Some seq \<and> cmit_ok i (c' (slot_base d i + d_snap_slot_blocks d - 1)) \<and>
    word_at (c' (slot_base d i + d_snap_slot_blocks d - 1)) 2 = seq"
  by (auto simp: card_probe_def slot_probe_def assms snap_block_words)

lemma slot_step_failed:
  assumes L: "ring_layout d" and i: "i < d_snap_slots d"
    and frame: "\<And>j m. j < d_snap_slots d \<Longrightarrow> j \<noteq> i \<Longrightarrow> m < unat (d_snap_slot_blocks d) \<Longrightarrow> c' (slot_base d j + of_nat m) = c (slot_base d j + of_nat m)"
    and cm: "c' (slot_base d i + d_snap_slot_blocks d - 1) = c (slot_base d i + d_snap_slot_blocks d - 1) \<or>
      torn_snap (c' (slot_base d i + d_snap_slot_blocks d - 1))"
    and hd: "c' (slot_base d i) = hdr_block seq i (slot_base d i + 1) (d_snap_slot_blocks d - 2) \<or> c' = c \<or> torn_snap (c' (slot_base d i))"
  shows "slot_step d i seq False c c'"
proof -
  have m: "c' (slot_base d i + d_snap_slot_blocks d - 1) = c (slot_base d i + d_snap_slot_blocks d - 1) \<or>
      \<not> cmit_ok i (c' (slot_base d i + d_snap_slot_blocks d - 1))" using cm torn_snap_bad(2) by blast
  have "card_probe d c' i = card_probe d c i \<or> card_probe d c' i = None \<or> card_probe d c' i = Some seq \<and>
      cmit_ok i (c (slot_base d i + d_snap_slot_blocks d - 1)) \<and> word_at (c (slot_base d i + d_snap_slot_blocks d - 1)) 2 = seq"
    using hd
  proof (elim disjE)
    assume "c' (slot_base d i) = hdr_block seq i (slot_base d i + 1) (d_snap_slot_blocks d - 2)"
    then show ?thesis using probe_new_header [of c' d i seq] m by metis
  next
    assume "torn_snap (c' (slot_base d i))"
    then have "card_probe d c' i = None" using torn_snap_bad(1) by (simp add: card_probe_def slot_probe_def)
    then show ?thesis by simp
  qed simp
  then show ?thesis using m frame unfolding slot_step_def Let_def by simp
qed


lemma row_frame:
  assumes L: "ring_layout d" and i: "i < d_snap_slots d" and w: "wrote c (slot_base d i) bs P ok c'"
    and n: "length bs \<le> unat (d_snap_slot_blocks d) - 1"
  shows "j < d_snap_slots d \<Longrightarrow> j \<noteq> i \<Longrightarrow> m < unat (d_snap_slot_blocks d) \<Longrightarrow> c' (slot_base d j + of_nat m) = c (slot_base d j + of_nat m)"
    "c' (slot_base d i + d_snap_slot_blocks d - 1) = c (slot_base d i + d_snap_slot_blocks d - 1)"
proof -
  have b: "2 \<le> unat (d_snap_slot_blocks d)" using L by (simp add: ring_layout_def)
  show "c' (slot_base d j + of_nat m) = c (slot_base d j + of_nat m)"
    if "j < d_snap_slots d" "j \<noteq> i" "m < unat (d_snap_slot_blocks d)"
    by (rule wrote_other [OF w]) (use row_other_slot [OF L i that, of "length bs"] n in simp)
  show "c' (slot_base d i + d_snap_slot_blocks d - 1) = c (slot_base d i + d_snap_slot_blocks d - 1)"
    unfolding slot_last [OF L]
  proof (rule wrote_other [OF w], intro allI impI)
    fix k assume "k < length bs"
    then show "slot_base d i + of_nat (unat (d_snap_slot_blocks d) - 1) \<noteq> slot_base d i + of_nat k"
      using slot_disjoint [OF L i i, of "unat (d_snap_slot_blocks d) - 1" k] n b by simp
  qed
qed

lemma slot_last_other:
  assumes "ring_layout d" "i < d_snap_slots d" "j < d_snap_slots d" "j \<noteq> i" "m < unat (d_snap_slot_blocks d)"
  shows "slot_base d j + of_nat m \<noteq> slot_base d i + d_snap_slot_blocks d - 1"
proof -
  have "unat (d_snap_slot_blocks d) - 1 < unat (d_snap_slot_blocks d)" using assms(1) by (simp add: ring_layout_def)
  from slot_disjoint [OF assms(1,3,2,5) this] show ?thesis unfolding slot_last [OF assms(1)] using assms(4) by blast
qed

lemma write_slot_step:
  assumes L: "ring_layout d" and i: "i < d_snap_slots d" and t: "sd_torn torn_snap w"
    and e: "snapshot_write_slot (slot_base d i) (d_snap_slot_blocks d) i seq reason tick ready w = (rc, w')"
  shows "slot_step d i seq (rc = SD_OK) (sd_card w) (sd_card w')"
proof -
  let ?B = "d_snap_slot_blocks d"
  let ?l = "slot_base d i"
  let ?c = "sd_card w"
  let ?rs = "snapshot_build_regions (ssnap_exclude w) (esnap_exclude w) 4"
  let ?h = "hdr_block seq i (?l + 1) (?B - 2)"
  let ?pl = "payload_list (snap_mem w) ?rs reason tick ready"
  note s = snapshot_write_slot_wrote [OF t e]
  have b: "2 \<le> unat ?B" using L by (simp add: ring_layout_def)
  have last0: "?l + ?B - 1 \<noteq> ?l" using slot_disjoint [OF L i i, of "unat ?B - 1" 0] b unfolding slot_last [OF L] by simp
  have rl: "length (?h # ?pl) \<le> unat ?B - 1" if "\<not> required_blocks ?rs > ?B - 2" using row_length [OF that b] .
  have big: "length ?pl < 4294967295" if "\<not> required_blocks ?rs > ?B - 2"
  proof -
    have "unat ?B < 4294967296" by (rule unat_u32_lt)
    moreover have "Suc (length ?pl) \<le> unat ?B - 1" using rl [OF that] by simp
    ultimately show ?thesis using b by linarith
  qed
  have full: "wrote ?c ?l (?h # ?pl) torn_snap True (card_put ?l (?h # ?pl) ?c)" by (simp add: wrote_def)
  have h0: "card_put ?l (?h # ?pl) ?c ?l = ?h" if "\<not> required_blocks ?rs > ?B - 2"
    using card_put_nth [of 0 "?h # ?pl" ?l ?c] big [OF that] by simp
  show ?thesis
  proof (cases "rc = SD_OK")
    case True
    note k = s(3) [OF True]
    let ?c1 = "card_put ?l (?h # ?pl) ?c"
    note f = row_frame [OF L i full rl [OF conjunct1 [OF k]]]
    have c': "sd_card w' = ?c1(?l + ?B - 1 := cmit_block seq i)" using k by simp
    have pay0: "?l + 1 \<noteq> ?l + ?B - 1"
    proof -
      have "1 < unat ?B - 1" using rl [OF conjunct1 [OF k]] by (simp add: payload_list_def)
      then show ?thesis using slot_disjoint [OF L i i, of 1 "unat ?B - 1"] unfolding slot_last [OF L] by simp
    qed
    have "?c1 (?l + 1) = ?pl ! 0" using card_put_nth [of 1 "?h # ?pl" ?l ?c] big [OF conjunct1 [OF k]] by (simp add: payload_list_def)
    then have "card_probe d (sd_card w') i = Some seq"
      using h0 [OF conjunct1 [OF k]] last0 pay0 new_blocks_ok
      by (simp add: card_probe_def slot_probe_def c' snap_block_words payload_list_def del: card_put.simps)
    then show ?thesis using f(1) slot_last_other [OF L i] True
      by (simp add: slot_step_def c' snap_block_words del: card_put.simps)
  next
    case False
    have hdr1: "wrote ?c ?l [?h] torn_snap True (?c(?l := ?h))" by (simp add: wrote_def)
    from s(4) [OF False] consider (part) "\<not> required_blocks ?rs > ?B - 2" "wrote ?c ?l (?h # ?pl) torn_snap False (sd_card w')"
      | (nocommit) "\<not> required_blocks ?rs > ?B - 2" "sd_card w' = card_put ?l (?h # ?pl) ?c"
      | (tcommit) x where "\<not> required_blocks ?rs > ?B - 2" "torn_snap x" "sd_card w' = (card_put ?l (?h # ?pl) ?c)(?l + ?B - 1 := x)"
      | (header) "sd_card w' = ?c(?l := ?h)" | (theader) "wrote ?c ?l [?h] torn_snap False (sd_card w')" by blast
    then have "slot_step d i seq False ?c (sd_card w')"
    proof cases
      case part
      note f = row_frame [OF L i part(2) rl [OF part(1)]]
      show ?thesis by (rule slot_step_failed [OF L i]) (use f wrote_first [OF part(2) big [OF part(1)]] in auto)
    next
      case nocommit
      note f = row_frame [OF L i full rl [OF nocommit(1)]]
      show ?thesis unfolding nocommit(2) by (rule slot_step_failed [OF L i]) (use f h0 [OF nocommit(1)] in \<open>auto simp del: card_put.simps\<close>)
    next
      case tcommit
      note f = row_frame [OF L i full rl [OF tcommit(1)]]
      show ?thesis unfolding tcommit(3)
        by (rule slot_step_failed [OF L i])
          (use f h0 [OF tcommit(1)] slot_last_other [OF L i] tcommit(2) last0 in \<open>auto simp del: card_put.simps\<close>)
    next
      case header
      have f: "j < d_snap_slots d \<Longrightarrow> j \<noteq> i \<Longrightarrow> m < unat ?B \<Longrightarrow> (?c(?l := ?h)) (slot_base d j + of_nat m) = ?c (slot_base d j + of_nat m)" for j m
        using row_frame(1) [OF L i hdr1] b by simp
      show ?thesis unfolding header by (rule slot_step_failed [OF L i]) (use f last0 in auto)
    next
      case theader
      have f: "length [?h] \<le> unat ?B - 1" using b by simp
      note g = row_frame [OF L i theader f]
      show ?thesis by (rule slot_step_failed [OF L i]) (use g wrote_first [OF theader] in auto)
    qed
    then show ?thesis using False by simp
  qed
qed


section \<open>The ring as a whole\<close>

lemma ring_frame:
  assumes "ring_layout d" "\<forall>i m. i < d_snap_slots d \<longrightarrow> m < unat (d_snap_slot_blocks d) \<longrightarrow> c' (slot_base d i + of_nat m) = c (slot_base d i + of_nat m)"
  shows "card_latest d c' = card_latest d c" "ring_ok d c' = ring_ok d c"
proof -
  have p: "card_probe d c' i = card_probe d c i" "c' (slot_base d i + d_snap_slot_blocks d - 1) = c (slot_base d i + d_snap_slot_blocks d - 1)"
    if "i \<in> set (slot_list d)" for i
    using probe_same [OF assms(1), of c' i c] assms(2) that by (simp_all add: set_slot_list)
  have "max_scan (card_probe d c') xs best = max_scan (card_probe d c) xs best" if "set xs \<subseteq> set (slot_list d)" for xs best
    using that p(1) by (induction xs arbitrary: best) (simp_all split: option.split)
  then show l: "card_latest d c' = card_latest d c" by (simp add: card_latest_def)
  show "ring_ok d c' = ring_ok d c" unfolding ring_ok_def l using p(2) by simp
qed

lemma next_slot_other:
  assumes "2 \<le> unat (d_snap_slots d)" "next_slot d (Some (q, j)) = (i, seq)" "j < d_snap_slots d"
  shows "i \<noteq> j" "i < d_snap_slots d"
proof -
  have i: "i = (j + 1) mod d_snap_slots d" using assms(2) by (simp add: next_slot_def)
  then have u: "unat i = (unat j + 1) mod unat (d_snap_slots d)"
    using assms(3) by (simp add: unat_mod unat_Suc_lt)
  have j: "unat j < unat (d_snap_slots d)" using assms(3) by (simp add: word_less_nat_alt)
  show "i < d_snap_slots d" using u j by (simp add: word_less_nat_alt)
  show "i \<noteq> j"
  proof (cases "unat j + 1 = unat (d_snap_slots d)")
    case True
    then have "unat i = 0" using u by simp
    then show ?thesis using True assms(1) by auto
  next
    case False
    then have "unat i = unat j + 1" using u j by simp
    then show ?thesis by auto
  qed
qed

lemma latest_slot:
  assumes "card_latest d c = Some (q, j)"
  shows "j < d_snap_slots d" "card_probe d c j = Some q"
  using max_scan_probe [OF assms [unfolded card_latest_def]] by (simp_all add: set_slot_list)

lemma ring_step:
  assumes L: "ring_layout d" and two: "2 \<le> unat (d_snap_slots d)" and R: "ring_ok d c"
    and n: "next_slot d (card_latest d c) = (i, seq)" and nw: "\<forall>q j. card_latest d c = Some (q, j) \<longrightarrow> q \<noteq> 0xFFFFFFFF"
    and s: "slot_step d i seq ok c c'"
  shows "ring_ok d c' \<and> card_latest d c' = (if ok then Some (seq, i) else card_latest d c)"
proof -
  let ?m = "\<lambda>c i. c (slot_base d i + d_snap_slot_blocks d - 1)"
  have i: "i < d_snap_slots d" and newer: "\<And>q j. card_latest d c = Some (q, j) \<Longrightarrow> q < seq \<and> j \<noteq> i"
  proof -
    have z: "0 < d_snap_slots d" using two by (simp add: word_less_nat_alt)
    show "i < d_snap_slots d"
    proof (cases "card_latest d c")
      case None
      then show ?thesis using n z by (simp add: next_slot_def)
    next
      case (Some r)
      obtain q j where r: "r = (q, j)" by fastforce
      then have "j < d_snap_slots d" using Some latest_slot(1) by blast
      then show ?thesis using next_slot_other [OF two] n Some r by metis
    qed
    fix q j assume l: "card_latest d c = Some (q, j)"
    then have j: "j < d_snap_slots d" by (rule latest_slot)
    have "q \<noteq> 0xFFFFFFFF" using nw l by blast
    then have "unat q \<noteq> 4294967295" by (auto simp: word_unat_eq_iff)
    then have "unat q < 4294967295" using unat_u32_lt [of q] by linarith
    then have "q < 0xFFFFFFFF" by (simp add: word_less_nat_alt)
    then have "unat (q + 1) = unat q + 1" by (simp add: unat_Suc_lt)
    moreover have "seq = q + 1" using n l by (simp add: next_slot_def)
    ultimately have "q < seq" by (simp add: word_less_nat_alt)
    then show "q < seq \<and> j \<noteq> i" using next_slot_other(1) [OF two] n l j by metis
  qed
  have others: "card_probe d c' j = card_probe d c j \<and> ?m c' j = ?m c j" if "j \<in> set (slot_list d)" "j \<noteq> i" for j
    using probe_same [OF L, of c' j c] s that by (simp add: slot_step_def set_slot_list)
  have old: "\<And>s. j \<in> set (slot_list d) \<Longrightarrow> card_probe d c j = Some s \<Longrightarrow> s < seq" for j
  proof -
    fix s assume j: "j \<in> set (slot_list d)" "card_probe d c j = Some s"
    then have "card_latest d c \<noteq> None" by (auto simp: card_latest_def max_scan_None)
    then obtain q k where l: "card_latest d c = Some (q, k)" by auto
    then have "s \<le> q" using max_scan_ge [of _ _ q k j s] j by (simp add: card_latest_def)
    then show "s < seq" using newer [OF l] by (simp add: le_less_trans)
  qed
  have stale: "\<not> (cmit_ok i (?m c i) \<and> word_at (?m c i) 2 = seq)"
  proof
    assume a: "cmit_ok i (?m c i) \<and> word_at (?m c i) 2 = seq"
    have "i \<in> set (slot_list d)" using i by (simp add: set_slot_list)
    then obtain q j where "card_latest d c = Some (q, j)" "seq \<le> q" using R a unfolding ring_ok_def by blast
    then show False using newer by (metis leD)
  qed
  show ?thesis
  proof (cases ok)
    case True
    then have p: "card_probe d c' i = Some seq" "word_at (?m c' i) 2 = seq" using s by (simp_all add: slot_step_def Let_def)
    have l: "card_latest d c' = Some (seq, i)" unfolding card_latest_def
    proof (rule max_scan_new [OF _ distinct_slot_list])
      show "i \<in> set (slot_list d)" using i by (simp add: set_slot_list)
      show "\<forall>j \<in> set (slot_list d). j \<noteq> i \<longrightarrow> (\<forall>t. card_probe d c' j = Some t \<longrightarrow> t < seq)" using others old by auto
    qed (rule p(1))
    have "\<exists>q j. card_latest d c' = Some (q, j) \<and> word_at (?m c' j') 2 \<le> q" if "j' \<in> set (slot_list d)" "cmit_ok j' (?m c' j')" for j'
    proof (cases "j' = i")
      case False
      note mem = that(1)
      from False have "cmit_ok j' (?m c j')" "?m c' j' = ?m c j'" using that others by auto
      then obtain q k where "card_latest d c = Some (q, k)" "word_at (?m c j') 2 \<le> q" using R mem unfolding ring_ok_def by blast
      moreover from this have "q < seq" using newer by blast
      ultimately show ?thesis using l \<open>?m c' j' = ?m c j'\<close> by auto
    qed (use l p in simp)
    then show ?thesis using l True by (simp add: ring_ok_def)
  next
    case False
    have p: "card_probe d c' i = card_probe d c i \<or> card_probe d c' i = None" and m: "?m c' i = ?m c i \<or> \<not> cmit_ok i (?m c' i)"
      using s False stale by (auto simp: slot_step_def Let_def)
    define pr where "pr j = (if j \<in> set (slot_list d) then card_probe d c' j else card_probe d c j)" for j
    have "max_scan pr (slot_list d) None = card_latest d c"
    proof (rule max_scan_forget [where probe = "card_probe d c"])
      show "\<forall>j. pr j = card_probe d c j \<or> pr j = None \<and> (\<forall>s. card_latest d c \<noteq> Some (s, j))"
        using others p newer by (auto simp: pr_def)
    qed (simp add: card_latest_def)
    moreover have "max_scan pr xs best = max_scan (card_probe d c') xs best" if "set xs \<subseteq> set (slot_list d)" for xs best
      using that by (induction xs arbitrary: best) (simp_all add: pr_def split: option.split)
    ultimately have l: "card_latest d c' = card_latest d c" by (simp add: card_latest_def)
    have "\<exists>q k. card_latest d c = Some (q, k) \<and> word_at (?m c' j) 2 \<le> q" if "j \<in> set (slot_list d)" "cmit_ok j (?m c' j)" for j
      using R m others that unfolding ring_ok_def by (cases "j = i") auto
    then show ?thesis using l False by (simp add: ring_ok_def)
  qed
qed


section \<open>Reading leaves the card alone\<close>

definition only_read :: "'a sd_world_scheme \<Rightarrow> 'a sd_world_scheme \<Rightarrow> bool" where
  "only_read w' w \<longleftrightarrow> sd_card w' = sd_card w \<and> sd_world.more w' = sd_world.more w \<and> (\<forall>P. sd_torn P w \<longrightarrow> sd_torn P w') \<and> (sd_ok w \<longrightarrow> sd_ok w')"

lemma only_read_refl [simp]: "only_read w w"
  by (simp add: only_read_def)

lemma only_read_trans: "only_read w2 w1 \<Longrightarrow> only_read w1 w \<Longrightarrow> only_read w2 w"
  by (simp add: only_read_def)

lemma only_read_log [simp]:
  "only_read (w_log_puts s w') w \<longleftrightarrow> only_read w' w" "only_read (w_log_u32 v w') w \<longleftrightarrow> only_read w' w"
  "only_read (w_log_hex32 v w') w \<longleftrightarrow> only_read w' w" "only_read (w_log_s32 x w') w \<longleftrightarrow> only_read w' w"
  by (simp_all add: only_read_def w_log_puts_def w_log_u32_def w_log_hex32_def w_log_s32_def sd_torn_def sd_ok_def)

lemma only_read_read1: "only_read (snd (sd_read1 l w)) w"
  by (simp add: only_read_def sd_read1_torn more_simps sd_simps)

lemma only_read_retry: "only_read (snd (snapshot_read_block_retry l w)) w"
  using only_read_read1 [of l w] only_read_trans [OF only_read_read1, of "snd (sd_read1 l w)" w l]
  by (simp add: snapshot_read_block_retry_def case_prod_beta)

lemma only_read_slotval:
  "only_read (snd (slotval_read s l w)) w" "only_read (snd (slotval_hdr l n i b w)) w" "only_read (snd (slotval_pay0 b w)) w"
  "only_read (snd (slotval_cmit i q b w)) w"
  using only_read_retry [of l w]
  by (simp_all add: slotval_read_def slotval_hdr_def slotval_pay0_def slotval_cmit_def case_prod_beta)

lemma only_read_slot_valid: "only_read (snd (snapshot_slot_valid l n i w)) w"
proof -
  have t: "only_read (snd (f w')) w' \<Longrightarrow> only_read w' w \<Longrightarrow> only_read (snd (f w')) w"
    for f :: "'a sd_world_scheme \<Rightarrow> 'b \<times> 'a sd_world_scheme" and w'
    by (rule only_read_trans)
  define w1 where "w1 = snd (slotval_read ''hdr'' l w)"
  have 1: "only_read w1 w" by (simp add: w1_def only_read_slotval)
  define w2 where "w2 h = snd (slotval_hdr l n i h w1)" for h
  have 2: "only_read (w2 h) w" for h unfolding w2_def by (rule only_read_trans [OF only_read_slotval(2) 1])
  define w3 where "w3 h = snd (slotval_read ''pay0'' (l + 1) (w2 h))" for h
  have 3: "only_read (w3 h) w" for h unfolding w3_def by (rule only_read_trans [OF only_read_slotval(1) 2])
  define w4 where "w4 h p = snd (slotval_pay0 p (w3 h))" for h p
  have 4: "only_read (w4 h p) w" for h p unfolding w4_def by (rule only_read_trans [OF only_read_slotval(3) 3])
  define w5 where "w5 h p = snd (slotval_read ''cmit'' (l + n - 1) (w4 h p))" for h p
  have 5: "only_read (w5 h p) w" for h p unfolding w5_def by (rule only_read_trans [OF only_read_slotval(1) 4])
  have 6: "only_read (snd (slotval_cmit i q c (w5 h p))) w" for q c h p by (rule only_read_trans [OF only_read_slotval(4) 5])
  show ?thesis
    using 1 2 3 4 5 6
    by (simp add: snapshot_slot_valid_def case_prod_beta w1_def w2_def w3_def w4_def w5_def split: option.split)
qed

lemma only_read_scan: "only_read (snd (snap_scan_loop is start n best w)) w"
proof (induction "is" arbitrary: best w)
  case (Cons i "is")
  have "only_read (snd (snapshot_slot_valid (start + i * n) n i w)) w" by (rule only_read_slot_valid)
  with Cons.IH only_read_trans show ?case by (fastforce split: option.split prod.split)
qed simp

lemma only_read_latest: "only_read (snd (snapshot_scan_latest d w)) w"
  by (simp add: snapshot_scan_latest_def only_read_scan)

section \<open>Later writes stay outside the slots\<close>

definition journal_area :: "'a jrnl_world_scheme \<Rightarrow> u32 \<Rightarrow> bool" where
  "journal_area w l \<longleftrightarrow> (\<exists>k<unat (j_blocks (g_journal w)). l = j_start_lba (g_journal w) + of_nat k)"

text \<open>The journal's next record goes into its own area.\<close>

definition journal_inside :: "'a jrnl_world_scheme \<Rightarrow> bool" where
  "journal_inside w \<longleftrightarrow> (j_scan_ready (g_journal w) \<longrightarrow> j_blocks (g_journal w) \<noteq> 0 \<longrightarrow> journal_area w (j_next_lba (g_journal w)))"

definition journal_same :: "'a jrnl_world_scheme \<Rightarrow> 'a jrnl_world_scheme \<Rightarrow> bool" where
  "journal_same w' w \<longleftrightarrow> sd_card w' = sd_card w \<and> j_start_lba (g_journal w') = j_start_lba (g_journal w) \<and>
     j_blocks (g_journal w') = j_blocks (g_journal w)"

lemma journal_same_refl [simp]: "journal_same w w"
  by (simp add: journal_same_def)

lemma journal_same_trans: "journal_same w2 w1 \<Longrightarrow> journal_same w1 w \<Longrightarrow> journal_same w2 w"
  by (simp add: journal_same_def)

lemma journal_same_out [simp]:
  "journal_same (uart_puts s w') w \<longleftrightarrow> journal_same w' w" "journal_same (uart_put_u32 v w') w \<longleftrightarrow> journal_same w' w"
  by (simp_all add: journal_same_def)

lemma journal_same_sd:
  "journal_same (snd (sd_read1 l w)) w" "journal_same (snd (jrnl_media_ready w)) w"
proof -
  have j: "g_journal w' = g_journal w" if "sd_world.more w' = sd_world.more w" for w' w :: "'b jrnl_world_scheme"
    using that by (cases w; cases w') simp
  show "journal_same (snd (sd_read1 l w)) w" using j [OF sd_more(1), of l w] by (simp add: journal_same_def)
  show "journal_same (snd (jrnl_media_ready w)) w"
    using j [OF sd_more(3), of w]
    by (simp add: journal_same_def jrnl_media_ready_def) (simp add: sd_init_def sd_next_def split: sd_outcome.split)
qed

lemma journal_same_upd: "j_start_lba (f (g_journal w')) = j_start_lba (g_journal w') \<Longrightarrow> j_blocks (f (g_journal w')) = j_blocks (g_journal w') \<Longrightarrow>
  journal_same (upd_j f w') w \<longleftrightarrow> journal_same w' w"
  by (simp add: journal_same_def)

lemma journal_same_loop: "journal_same (snd (jrnl_scan_loop is best w)) w"
proof (induction "is" arbitrary: best w)
  case (Cons i "is")
  obtain rc bo w1 where r: "sd_read1 (j_start_lba (g_journal w) + i) w = ((rc, bo), w1)" by (metis prod.exhaust)
  have "journal_same w1 w" using journal_same_sd(1) [of "j_start_lba (g_journal w) + i" w] r by simp
  with Cons.IH [of _ w1] journal_same_trans show ?case
    by (fastforce simp: r journal_same_upd split: option.split prod.split)
qed simp

lemma scan_tail_same: "journal_same (jrnl_scan_tail w) w"
proof -
  define w0 where "w0 = upd_j (\<lambda>j. j\<lparr>j_scan_ready := False\<rparr>) w"
  define w1 where "w1 = snd (jrnl_media_ready (uart_puts (''jrnl: scan media'' @ crlf) w0))"
  have 0: "journal_same w0 w" by (simp add: w0_def journal_same_upd)
  have 1: "journal_same w1 w" unfolding w1_def by (rule journal_same_trans [OF journal_same_sd(2)]) (simp add: 0)
  define w2 where "w2 = uart_puts ('' blks'' @ crlf) (uart_put_u32 (j_blocks (g_journal w1)) (uart_puts ''jrnl: scan '' w1))"
  have 2: "journal_same w2 w" using 1 by (simp add: w2_def)
  define w3 where "w3 = snd (jrnl_scan_loop (map of_nat [0..<unat (j_blocks (g_journal w2))]) None w2)"
  have 3: "journal_same w3 w" unfolding w3_def by (rule journal_same_trans [OF journal_same_loop 2])
  show ?thesis
    unfolding jrnl_scan_tail_def Let_def case_prod_beta w0_def [symmetric] w1_def [symmetric] w2_def [symmetric] w3_def [symmetric]
    using 0 1 3 by (simp add: journal_same_upd split: option.split)
qed

lemma scan_tail_inside: "j_blocks (g_journal w) \<noteq> 0 \<Longrightarrow> journal_area (jrnl_scan_tail w) (j_next_lba (g_journal (jrnl_scan_tail w))) \<or>
  \<not> j_scan_ready (g_journal (jrnl_scan_tail w))"
proof -
  assume b: "j_blocks (g_journal w) \<noteq> 0"
  have z: "\<exists>k<unat (j_blocks j). j_start_lba j = j_start_lba j + of_nat k" if "j_blocks j \<noteq> 0" for j :: journal_ctx
    using that by (intro exI [of _ 0]) (simp add: unat_gt_0)
  have m: "\<exists>k<unat n. s + x mod n = s + of_nat k" if "n \<noteq> 0" for s x n :: u32
  proof (intro exI [of _ "unat (x mod n)"] conjI)
    show "unat (x mod n) < unat n" using that by (simp add: unat_mod unat_gt_0)
  qed simp
  have s: "j_blocks (g_journal (jrnl_scan_tail w)) = j_blocks (g_journal w)" using scan_tail_same [of w] by (simp add: journal_same_def)
  show ?thesis
  proof (cases "j_scan_ready (g_journal (jrnl_scan_tail w))")
    case True
    then show ?thesis using b s z m
      unfolding journal_area_def jrnl_scan_tail_def Let_def case_prod_beta
      by (auto split: option.splits if_splits)
  qed simp
qed

lemma panic_card [simp]: "sd_card (kernel_panic m f n w) = sd_card w"
proof -
  have "sd_card w' = sd_card w" if "world.more w' = world.more w" for w' using that by (cases w; cases w') simp
  from this [OF world_more_panic] show ?thesis .
qed

lemma append_outside:
  assumes "journal_inside w" "\<not> journal_area w l"
  shows "sd_card (snd (jrnl_append_record t p w)) l = sd_card w l"
proof -
  define w0 where "w0 = (if \<not> j_scan_ready (g_journal w) then jrnl_scan_tail w else w)"
  have s0: "journal_same w0 w" by (simp add: w0_def scan_tail_same)
  define w1 where "w1 = snd (jrnl_media_ready w0)"
  have s1: "journal_same w1 w" unfolding w1_def by (rule journal_same_trans [OF journal_same_sd(2) s0])
  have n1: "j_next_lba (g_journal w1) = j_next_lba (g_journal w0)"
  proof -
    have "g_journal w' = g_journal w0" if "sd_world.more w' = sd_world.more w0" for w' :: "'a jrnl_world_scheme"
      using that by (cases w'; cases w0) simp
    from this [OF sd_more(3)] show ?thesis by (simp add: w1_def jrnl_media_ready_def)
  qed
  have out: "j_next_lba (g_journal w1) \<noteq> l" if "j_blocks (g_journal w) \<noteq> 0" "j_scan_ready (g_journal w0)"
  proof -
    have a: "journal_area w0 l = journal_area w l" for l using s0 by (simp add: journal_area_def journal_same_def)
    have "journal_area w0 (j_next_lba (g_journal w0))"
      using that assms(1) scan_tail_inside [of w] a unfolding w0_def journal_inside_def by (auto split: if_splits)
    then show ?thesis using a assms(2) n1 by auto
  qed
  define w2 where "w2 = snd (sd_write1 (j_next_lba (g_journal w1)) (jrnl_record (j_next_seq (g_journal w1)) (j_last_snapshot_seq (g_journal w1)) t p) w1)"
  have c2: "sd_card w2 l = sd_card w l" if "j_blocks (g_journal w) \<noteq> 0" "j_scan_ready (g_journal w0)"
    using sd_write1_other [OF out [OF that, symmetric], of _ w1] s1 by (simp add: w2_def journal_same_def)
  show ?thesis
    unfolding jrnl_append_record_def Let_def case_prod_beta w0_def [symmetric] w1_def [symmetric] w2_def [symmetric]
    using s0 s1 c2 by (simp add: journal_same_def)
qed

lemma note_seq_outside:
  assumes "journal_inside w" "\<not> journal_area w l"
  shows "sd_card (journal_note_snapshot_seq seq w) l = sd_card w l"
  using append_outside [OF assms] by (simp add: journal_note_snapshot_seq_def jrnl_flush_pending_rx_def case_prod_beta Let_def)

lemma set_last_snap_outside: "l \<noteq> 1 \<Longrightarrow> l \<noteq> 2 \<Longrightarrow> sd_card (snd (rwos_disk_set_last_snap i q w)) l = sd_card w l"
  by (simp add: rwos_disk_set_last_snap_def rwos_disk_write_both_def Let_def case_prod_beta sd_write1_other)

lemma set_last_snap_journal: "g_journal (snd (rwos_disk_set_last_snap i q w)) = g_journal w"
proof -
  have j: "g_journal w' = g_journal w" if "sd_world.more w' = sd_world.more w" for w' w :: "'b jrnl_world_scheme"
    using that by (cases w; cases w') simp
  have b: "g_journal (snd (rwos_disk_write_both w)) = g_journal w" for w :: "'b jrnl_world_scheme"
    by (simp add: rwos_disk_write_both_def case_prod_beta LOG_ERR_def j [OF sd_more(2)])
  show ?thesis by (simp add: rwos_disk_set_last_snap_def Let_def b)
qed

section \<open>The scan\<close>

text \<open>No two transfers in a row fail, so one retry is enough for every read.\<close>

definition no_double_fault :: "'a sd_world_scheme \<Rightarrow> bool" where
  "no_double_fault w \<longleftrightarrow> g_sd_initialized w \<and> (\<forall>n. sd_env w n = IoOk \<or> sd_env w (Suc n) = IoOk)"

lemma no_double_fault_log [simp]:
  "no_double_fault (w_log_puts s w) = no_double_fault w" "no_double_fault (w_log_u32 v w) = no_double_fault w"
  "no_double_fault (w_log_hex32 v w) = no_double_fault w" "no_double_fault (w_log_s32 x w) = no_double_fault w"
  by (simp_all add: no_double_fault_def w_log_puts_def w_log_u32_def w_log_hex32_def w_log_s32_def)

lemma log_card:
  "sd_card (w_log_puts s w) = sd_card w" "sd_card (w_log_u32 v w) = sd_card w"
  "sd_card (w_log_hex32 v w) = sd_card w" "sd_card (w_log_s32 x w) = sd_card w"
  by (simp_all add: w_log_puts_def w_log_u32_def w_log_hex32_def w_log_s32_def)

lemma read_retry_ok:
  assumes "no_double_fault w"
  obtains w' where "snapshot_read_block_retry l w = ((SD_OK, Some (sd_card w l)), w')" "no_double_fault w'" "sd_card w' = sd_card w"
proof (cases "sd_env w 0")
  case IoOk
  then show ?thesis using assms that
    by (simp add: snapshot_read_block_retry_def sd_read1_def sd_read_blocks_def sd_read_block_def sd_next_def no_double_fault_def)
next
  case (IoErr f b)
  then have "sd_env w 1 = IoOk" using assms by (auto simp: no_double_fault_def dest: spec [of _ 0])
  then show ?thesis using assms that IoErr
    by (simp add: snapshot_read_block_retry_def sd_read1_def sd_read_blocks_def sd_read_block_def sd_next_def no_double_fault_def
        fault_code_neg sd_codes)
qed

lemma slotval_read_ok:
  assumes "no_double_fault w"
  obtains w' where "slotval_read s l w = (Some (sd_card w l), w')" "no_double_fault w'" "sd_card w' = sd_card w"
proof -
  obtain w' where "snapshot_read_block_retry l w = ((SD_OK, Some (sd_card w l)), w')" "no_double_fault w'" "sd_card w' = sd_card w"
    by (rule read_retry_ok [OF assms])
  then show ?thesis by (intro that [of w']) (simp_all add: slotval_read_def)
qed

lemma slotval_checks:
  "fst (slotval_hdr l n i b w) = hdr_ok l n i b" "fst (slotval_pay0 b w) = pay0_ok b"
  "fst (slotval_cmit i q b w) = (cmit_ok i b \<and> word_at b 2 = q)"
  by (auto simp: slotval_hdr_def slotval_pay0_def slotval_cmit_def hdr_ok_def pay0_ok_def cmit_ok_def)

lemma slotval_same:
  "no_double_fault (snd (slotval_hdr l n i b w)) = no_double_fault w" "sd_card (snd (slotval_hdr l n i b w)) = sd_card w"
  "no_double_fault (snd (slotval_pay0 b w)) = no_double_fault w" "sd_card (snd (slotval_pay0 b w)) = sd_card w"
  "no_double_fault (snd (slotval_cmit i q b w)) = no_double_fault w" "sd_card (snd (slotval_cmit i q b w)) = sd_card w"
  by (simp_all add: slotval_hdr_def slotval_pay0_def slotval_cmit_def log_card)

lemma slot_valid_probe:
  assumes "no_double_fault w"
  shows "fst (snapshot_slot_valid l n i w) = slot_probe (sd_card w) l n i \<and> no_double_fault (snd (snapshot_slot_valid l n i w))"
proof -
  obtain w1 where 1: "slotval_read ''hdr'' l w = (Some (sd_card w l), w1)" "no_double_fault w1" "sd_card w1 = sd_card w"
    using slotval_read_ok [OF assms] by metis
  let ?h = "sd_card w l"
  define w2 where "w2 = snd (slotval_hdr l n i ?h w1)"
  have 2: "no_double_fault w2" "sd_card w2 = sd_card w" using 1 by (simp_all add: w2_def slotval_same)
  obtain w3 where 3: "slotval_read ''pay0'' (l + 1) w2 = (Some (sd_card w (l + 1)), w3)" "no_double_fault w3" "sd_card w3 = sd_card w"
    using slotval_read_ok [OF 2(1)] 2(2) by metis
  let ?p = "sd_card w (l + 1)"
  define w4 where "w4 = snd (slotval_pay0 ?p w3)"
  have 4: "no_double_fault w4" "sd_card w4 = sd_card w" using 3 by (simp_all add: w4_def slotval_same)
  obtain w5 where 5: "slotval_read ''cmit'' (l + n - 1) w4 = (Some (sd_card w (l + n - 1)), w5)" "no_double_fault w5" "sd_card w5 = sd_card w"
    using slotval_read_ok [OF 4(1)] 4(2) by metis
  show ?thesis
    unfolding snapshot_slot_valid_def 1(1) case_prod_beta fst_conv snd_conv option.case slotval_checks w2_def [symmetric] 3(1)
      w4_def [symmetric] 5(1)
    using 2(1) 4(1) 5(2) by (auto simp: slot_probe_def slotval_same)
qed

lemma scan_loop_probe:
  assumes "no_double_fault w"
  shows "fst (snap_scan_loop is s n best w) = max_scan (\<lambda>i. slot_probe (sd_card w) (s + i * n) n i) is best \<and>
    no_double_fault (snd (snap_scan_loop is s n best w))"
  using assms
proof (induction "is" arbitrary: best w)
  case (Cons i "is")
  obtain r w1 where e: "snapshot_slot_valid (s + i * n) n i w = (r, w1)" by fastforce
  note v = slot_valid_probe [OF Cons.prems, of "s + i * n" n i, unfolded e fst_conv snd_conv]
  have c: "sd_card w1 = sd_card w" using only_read_slot_valid [of "s + i * n" n i w] e by (simp add: only_read_def)
  have p: "slot_probe (sd_card w) (s + i * n) n i = r" using v by simp
  show ?case using Cons.IH [of w1] v c by (cases r) (simp_all add: e p)
qed simp

lemma scan_latest_truth:
  "no_double_fault w \<Longrightarrow> fst (snapshot_scan_latest d w) = card_latest d (sd_card w)"
  using scan_loop_probe [of w "slot_list d" "d_snap_start_lba d" "d_snap_slot_blocks d" None]
  by (simp add: snapshot_scan_latest_def card_latest_def slot_list_def card_probe_def [abs_def] slot_base_def)

section \<open>Capturing and recording a snapshot\<close>

lemma sched_more_snap:
  assumes "sched.more w' = sched.more w"
  shows "kept w' w" "sd_card w' = sd_card w" "snap_mem w' = snap_mem w" "sd_torn P w' = sd_torn P w" "sd_env w' = sd_env w"
    "g_sd_initialized w' = g_sd_initialized w" "g_snapshot_sched w' = g_snapshot_sched w"
  using assms by (cases w; cases w'; simp add: kept_def sd_torn_def)+

lemma accept_more: "sched.more (snd (sched_pause_accept a w)) = sched.more w" "sched.more (snd (sched_resume_accept a w)) = sched.more w"
  by (simp_all add: sched_pause_accept_def sched_resume_accept_def set_ao_def split: option.split)

lemma capture_more: "sched.more (snd (snapshot_capture_quiesced w)) = sched.more w"
  by (simp add: snapshot_capture_quiesced_def snapshot_pause_mutators_def snapshot_resume_mutators_def Let_def accept_more)

text \<open>The slots lie apart from the disk table and from the journal.\<close>

definition slots_apart :: "rwos_disk \<Rightarrow> 'a jrnl_world_scheme \<Rightarrow> bool" where
  "slots_apart d w \<longleftrightarrow> (\<forall>i m. i < d_snap_slots d \<longrightarrow> m < unat (d_snap_slot_blocks d) \<longrightarrow>
     slot_base d i + of_nat m \<noteq> 1 \<and> slot_base d i + of_nat m \<noteq> 2 \<and> \<not> journal_area w (slot_base d i + of_nat m))"

lemma recorded_card:
  assumes "journal_inside w" "w' = journal_note_snapshot_seq seq (upd_sx f (snd (rwos_disk_set_last_snap i q w)))"
    "l \<noteq> 1" "l \<noteq> 2" "\<not> journal_area w l"
  shows "sd_card w' l = sd_card w l"
proof -
  let ?w5 = "upd_sx f (snd (rwos_disk_set_last_snap i q w))"
  have g: "g_journal ?w5 = g_journal w" by (simp add: upd_sx_def set_last_snap_journal)
  have "sd_card w' l = sd_card ?w5 l"
    unfolding assms(2) by (rule note_seq_outside) (use assms(1,5) g in \<open>simp_all add: journal_inside_def journal_area_def\<close>)
  then show ?thesis using set_last_snap_outside [OF assms(3,4)] by (simp add: upd_sx_def)
qed

lemma recorded_ring:
  assumes L: "ring_layout d" and apart: "slots_apart d w" and j: "journal_inside w"
    and w': "w' = journal_note_snapshot_seq seq (upd_sx f (snd (rwos_disk_set_last_snap i q w)))"
  shows "card_latest d (sd_card w') = card_latest d (sd_card w)" "ring_ok d (sd_card w') = ring_ok d (sd_card w)"
proof -
  have "\<forall>i m. i < d_snap_slots d \<longrightarrow> m < unat (d_snap_slot_blocks d) \<longrightarrow>
      sd_card w' (slot_base d i + of_nat m) = sd_card w (slot_base d i + of_nat m)"
    using apart recorded_card [OF j w'] by (simp add: slots_apart_def)
  from ring_frame [OF L this] show "card_latest d (sd_card w') = card_latest d (sd_card w)" "ring_ok d (sd_card w') = ring_ok d (sd_card w)" .
qed

lemma write_one_ring:
  assumes disk: "rwos_disk_get w = Some d" "ring_layout d" "2 \<le> unat (d_snap_slots d)" "slots_apart d w" "journal_inside w"
    and card: "no_double_fault w" "sd_torn torn_snap w" "ring_ok d (sd_card w)"
    and room: "\<forall>q j. card_latest d (sd_card w) = Some (q, j) \<longrightarrow> q \<noteq> 0xFFFFFFFF"
    and run: "snapshot_write_one reason w = (rc, w')"
  shows "ring_ok d (sd_card w') \<and>
    card_latest d (sd_card w') =
      (if rc = SD_OK then case next_slot d (card_latest d (sd_card w)) of (i, seq) \<Rightarrow> Some (seq, i) else card_latest d (sd_card w))"
proof (cases "ctx_operation (g_sd_ctx w) \<noteq> SD_OP_NONE \<or> ctx_status (g_sd_ctx w) = DRV_IN_PROGRESS \<or> \<not> snapshot_layout_valid d")
  case True
  then have "w' = w \<and> rc \<noteq> SD_OK" using run disk(1)
    by (auto simp: snapshot_write_one_def sd_codes SCHED_ERR_DISABLED_def split: if_splits)
  then show ?thesis using card(3) by simp
next
  case False
  obtain latest w1 where e1: "snapshot_scan_latest d w = (latest, w1)" by fastforce
  have latest: "latest = card_latest d (sd_card w)" using scan_latest_truth [OF card(1), of d] e1 by simp
  have o1: "sd_card w1 = sd_card w" "sd_world.more w1 = sd_world.more w" "sd_torn torn_snap w1"
    using only_read_latest [of d w] e1 card(2) by (simp_all add: only_read_def)
  obtain i seq where n: "next_slot d latest = (i, seq)" by fastforce
  obtain tick ready w2 where e2: "snapshot_capture_quiesced w1 = ((tick, ready), w2)" by (metis prod.exhaust)
  note m2 = sched_more_snap [OF capture_more [of w1, unfolded e2 snd_conv]]
  obtain rc3 w3 where e3: "snapshot_write_slot (slot_base d i) (d_snap_slot_blocks d) i seq reason tick ready w2 = (rc3, w3)" by fastforce
  have t2: "sd_torn torn_snap w2" using m2(4) o1(3) by blast
  have i: "i < d_snap_slots d"
  proof (cases latest)
    case None
    then show ?thesis using n disk(3) by (auto simp: next_slot_def word_less_nat_alt)
  next
    case (Some a)
    then show ?thesis using n latest latest_slot(1) next_slot_other(2) [OF disk(3)] by (metis prod.exhaust)
  qed
  note s = write_slot_step [OF disk(2) i t2 e3]
  have ring3: "ring_ok d (sd_card w3) \<and> card_latest d (sd_card w3) = (if rc3 = SD_OK then Some (seq, i) else card_latest d (sd_card w))"
    by (rule ring_step [OF disk(2,3) card(3) n [unfolded latest] room]) (use s m2(2) o1(1) in simp)
  have k3: "kept w3 w" using snapshot_write_slot_wrote(2) [OF t2 e3] kept_trans m2(1) kept_more(1) [OF o1(2)] by blast
  show ?thesis
  proof (cases "rc3 = SD_OK")
    case bad: False
    then have "rc = rc3" "w' = w3" using run False disk(1) e1 n e2 e3 by (simp_all add: snapshot_write_one_def slot_base_def)
    then show ?thesis using ring3 bad by simp
  next
    case True
    have a3: "slots_apart d w3" "journal_inside w3"
      using disk(4,5) k3 by (simp_all add: slots_apart_def journal_inside_def journal_area_def kept_def)
    have "rc = SD_OK" "\<exists>f. w' = journal_note_snapshot_seq seq (upd_sx f (snd (rwos_disk_set_last_snap i seq w3)))"
      using run False disk(1) e1 n e2 e3 True by (auto simp: snapshot_write_one_def slot_base_def Let_def)
    then show ?thesis using ring3 True recorded_ring [OF disk(2) a3] n latest by auto
  qed
qed


section \<open>On a good card\<close>

lemma copy_good [simp]: "sd_ok (w\<lparr>snap_mem := m\<rparr>) = sd_ok w"
  by (simp add: sd_ok_def)

lemma data_loop_good:
  assumes "sd_ok w"
  shows "fst (fst (snap_data_loop src rem lba crc w)) = SD_OK \<and> sd_ok (snd (snap_data_loop src rem lba crc w))"
  using assms
proof (induction src rem lba crc w rule: snap_data_loop.induct)
  case (1 src rem lba crc w)
  show ?case
  proof (cases "rem = 0")
    case False
    let ?n = "if rem > 512 then 512 else rem"
    obtain bs w1 where e: "snapshot_copy_region_chunk_atomic src ?n w = (bs, w1)" by fastforce
    then have "sd_ok w1" using "1.prems" by (auto simp: snapshot_copy_region_chunk_atomic_def)
    then obtain w2 where e2: "sd_write1 lba (padded bs) w1 = (SD_OK, w2)" "sd_ok w2" by (simp add: sd_simps)
    from "1.IH" [OF False refl e [symmetric] refl e2(1) [symmetric] _ e2(2)] show ?thesis
      by (subst (1 2) snap_data_loop.simps) (simp add: False e e2 Let_def)
  qed (use "1.prems" in \<open>simp add: snap_data_loop.simps\<close>)
qed

lemma regions_loop_good:
  "sd_ok w \<Longrightarrow> fst (fst (snap_regions_loop rs lba w)) = SD_OK \<and> sd_ok (snd (snap_regions_loop rs lba w))"
proof (induction rs arbitrary: lba w)
  case (Cons r rs)
  obtain w1 where e1: "sd_write1 lba (rgs_block (rs_start r) (rs_len r)) w = (SD_OK, w1)" "sd_ok w1" using Cons.prems by (simp add: sd_simps)
  obtain lba2 crc w2 where e2: "snap_data_loop (rs_start r) (rs_len r) (lba + 1) fnv_init w1 = ((SD_OK, lba2, crc), w2)" "sd_ok w2"
    using data_loop_good [OF e1(2), of "rs_start r" "rs_len r" "lba + 1" fnv_init] by (metis prod.collapse)
  obtain w3 where e3: "sd_write1 lba2 (rge_block (rs_start r) (rs_len r) (checksum_bytes_finalize crc)) w2 = (SD_OK, w3)" "sd_ok w3"
    using e2(2) by (simp add: sd_simps)
  show ?case using Cons.IH [OF e3(2)] by (simp add: e1 e2 e3)
qed simp

lemma write_slot_good:
  assumes "sd_ok w" "\<not> required_blocks (snapshot_build_regions (ssnap_exclude w) (esnap_exclude w) 4) > blocks - 2"
  shows "fst (snapshot_write_slot lba blocks i seq reason tick ready w) = SD_OK \<and> sd_ok (snd (snapshot_write_slot lba blocks i seq reason tick ready w))"
proof -
  let ?rs = "snapshot_build_regions (ssnap_exclude w) (esnap_exclude w) 4"
  obtain w1 where e1: "sd_write1 lba (hdr_block seq i (lba + 1) (blocks - 2)) w = (SD_OK, w1)" "sd_ok w1" using assms(1) by (simp add: sd_simps)
  have r: "ssnap_exclude w1 = ssnap_exclude w" "esnap_exclude w1 = esnap_exclude w" using write1_kept(1) [OF e1(1)] by (simp_all add: kept_def)
  let ?p0 = "pay0_block reason tick ready (of_nat (length ?rs)) (region_total ?rs)"
  obtain w2 where e2: "sd_write1 (lba + 1) ?p0 w1 = (SD_OK, w2)" "sd_ok w2" using e1(2) by (simp add: sd_simps)
  obtain lba3 w3 where e3: "snap_regions_loop ?rs (lba + 2) w2 = ((SD_OK, lba3), w3)" "sd_ok w3"
    using regions_loop_good [OF e2(2), of ?rs "lba + 2"] by (metis prod.collapse)
  obtain w4 where e4: "sd_write1 lba3 (paye_block (of_nat (length ?rs)) (region_total ?rs)) w3 = (SD_OK, w4)" "sd_ok w4"
    using e3(2) by (simp add: sd_simps)
  have "snapshot_write_payload lba (blocks - 2) reason tick ready w1 = (SD_OK, w4)"
    using build_regions_ok(1) assms(2) by (simp add: snapshot_write_payload_def r e2 e3 e4 Let_def)
  then show ?thesis by (simp add: snapshot_write_slot_def e1 sd_simps e4(2))
qed

text \<open>The regions of any memory layout fit into a slot of a formatted card.\<close>

lemma formatted_slot_fits:
  "656 \<le> blocks \<Longrightarrow> \<not> required_blocks (snapshot_build_regions xs xe 4) > blocks - 2"
proof -
  assume b: "656 \<le> blocks"
  let ?rs = "snapshot_build_regions xs xe 4"
  have d: "(x + 511) div 512 \<le> x div 512 + 1" for x :: nat by linarith
  have "unat (required_blocks ?rs) = 2 + (\<Sum>r\<leftarrow>?rs. 2 + (unat (rs_len r) + 511) div 512)"
    by (rule required_blocks_nat) (use build_regions_ok(2,4) [of xs xe] in simp_all)
  also have "\<dots> \<le> 2 + (3 * length ?rs + (\<Sum>r\<leftarrow>?rs. unat (rs_len r)) div 512)"
  proof -
    have "(\<Sum>r\<leftarrow>rs. 2 + (unat (rs_len r) + 511) div 512) \<le> 3 * length rs + (\<Sum>r\<leftarrow>rs. unat (rs_len r)) div 512" for rs
    proof (induction rs)
      case (Cons r rs)
      have q: "x div 512 + y div 512 \<le> (x + y) div 512" for x y :: nat by linarith
      have g: "a \<le> p + 1 \<Longrightarrow> s \<le> 3 * n + u \<Longrightarrow> p + u \<le> t \<Longrightarrow> 2 + a + s \<le> 3 * (n + Suc 0) + t" for a p s n u t :: nat by simp
      show ?case unfolding list.map sum_list.Cons list.size by (rule g [OF d Cons q])
    qed simp
    then show ?thesis by simp
  qed
  also have "\<dots> \<le> 654" using build_regions_ok(2,4) [of xs xe] by linarith
  also have "654 \<le> unat (blocks - 2)" using b by (simp add: word_le_nat_alt unat_sub)
  finally show ?thesis by (simp add: word_less_nat_alt)
qed

lemma write_one_good:
  assumes "rwos_disk_get w = Some d" "snapshot_layout_valid d" "656 \<le> d_snap_slot_blocks d" "sd_ok w"
    and idle: "ctx_operation (g_sd_ctx w) = SD_OP_NONE" "ctx_status (g_sd_ctx w) \<noteq> DRV_IN_PROGRESS"
  shows "fst (snapshot_write_one reason w) = SD_OK"
proof -
  obtain latest w1 where e1: "snapshot_scan_latest d w = (latest, w1)" by fastforce
  have w1: "sd_ok w1" using only_read_latest [of d w] e1 assms(4) by (simp add: only_read_def)
  obtain i seq where n: "next_slot d latest = (i, seq)" by fastforce
  obtain tick ready w2 where e2: "snapshot_capture_quiesced w1 = ((tick, ready), w2)" by (metis prod.exhaust)
  note m2 = sched_more_snap [OF capture_more [of w1, unfolded e2 snd_conv]]
  have "sd_ok w2" using w1 m2(5,6) by (simp add: sd_ok_def)
  from write_slot_good [OF this formatted_slot_fits [OF assms(3)], THEN conjunct1]
  have "fst (snapshot_write_slot (d_snap_start_lba d + i * d_snap_slot_blocks d) (d_snap_slot_blocks d) i seq reason tick ready w2) = SD_OK" .
  then show ?thesis using assms(1,2) idle by (simp add: snapshot_write_one_def e1 n e2 case_prod_beta Let_def)
qed


section \<open>A formatted card\<close>

definition snap_demo :: "(nat \<Rightarrow> sd_outcome) \<Rightarrow> snap_world" where
  "snap_demo env = (line_world.extend line_power_on
     (snap_world.fields (snapshot_ctx_init 0) False (\<lambda>_ a. ucast a) 0x20010000 0x20020000 0 0))
     \<lparr>sd_card := table_card, sd_env := env, g_sd_initialized := True, g_sd_ctx := g_sd_ctx (disk_loaded env),
      g_rwos_disk := format_table 100000, g_rwos_disk_valid := True,
      g_journal := jrnl_zero\<lparr>j_configured := True, j_scan_ready := True, j_start_lba := 3, j_blocks := 128, j_next_lba := 3, j_next_seq := 1\<rparr>\<rparr>"

lemma snap_demo_sel [simp]:
  "sd_card (snap_demo env) = table_card" "sd_env (snap_demo env) = env" "g_sd_initialized (snap_demo env)"
  "rwos_disk_get (snap_demo env) = Some (format_table 100000)" "ctx_operation (g_sd_ctx (snap_demo env)) = SD_OP_NONE"
  "ctx_status (g_sd_ctx (snap_demo env)) = DRV_IDLE" "sd_ok (snap_demo (\<lambda>_. IoOk))"
  "j_start_lba (g_journal (snap_demo env)) = 3" "j_blocks (g_journal (snap_demo env)) = 128" "j_next_lba (g_journal (snap_demo env)) = 3"
  by (simp_all add: snap_demo_def rwos_disk_get_def disk_loaded_def disk_power_on_def sd_ok_def)

lemma format_sel [simp]:
  "d_snap_slots (format_table cap) = 4" "d_snap_slot_blocks (format_table cap) = 656" "d_snap_start_lba (format_table cap) = 131"
  "d_snap_blocks (format_table cap) = 2624" "d_total_blocks (format_table cap) = cap"
  by (simp_all add: format_table_def)

lemma demo_layout: "ring_layout (format_table cap)" "snapshot_layout_valid (format_table 100000)"
  by (simp_all add: ring_layout_def snapshot_layout_valid_def)

lemma demo_apart: "slots_apart (format_table 100000) (snap_demo env)"
  unfolding slots_apart_def
proof (intro allI impI)
  fix i m assume a: "i < d_snap_slots (format_table 100000)" "m < unat (d_snap_slot_blocks (format_table 100000))"
  define k where "k = unat i * 656 + m"
  have p: "slot_base (format_table 100000) i + of_nat m = 131 + of_nat k" "k < 2624"
    using slot_pos [OF demo_layout(1) a] by (simp_all add: k_def)
  have o': "131 + of_nat k \<noteq> (of_nat x :: u32)" if "x < 131" for x
    using lba_inj [of "131 + k" x 0] p(2) that by simp
  have "(131 + of_nat k :: u32) \<noteq> 3 + of_nat x" if "x < 128" for x using o' [of "3 + x"] that by simp
  then show "slot_base (format_table 100000) i + of_nat m \<noteq> 1 \<and> slot_base (format_table 100000) i + of_nat m \<noteq> 2 \<and>
      \<not> journal_area (snap_demo env) (slot_base (format_table 100000) i + of_nat m)"
    using o' [of 1] o' [of 2] by (simp add: p(1) journal_area_def)
qed

lemma demo_empty: "i < 4 \<Longrightarrow> m < 656 \<Longrightarrow> table_card (slot_base (format_table 100000) i + of_nat m) = replicate 512 0"
proof -
  assume "i < 4" "m < 656"
  then have "slot_base (format_table 100000) i + of_nat m \<noteq> 1 \<and> slot_base (format_table 100000) i + of_nat m \<noteq> 2"
    using demo_apart [of "\<lambda>_. IoOk"] by (simp add: slots_apart_def)
  then show ?thesis by (simp add: table_card_def blank_card_def)
qed

lemma zero_block_word: "word_at (replicate 512 0) 0 = 0"
  by (simp add: word_at_def zero_block_words)

lemma demo_ring: "card_latest (format_table 100000) table_card = None" "ring_ok (format_table 100000) table_card"
proof -
  have z: "table_card (slot_base (format_table 100000) i) = replicate 512 0"
    "table_card (slot_base (format_table 100000) i + 656 - 1) = replicate 512 0" if "i < 4" for i
    using demo_empty [OF that, of 0] demo_empty [OF that, of 655] by (simp_all add: algebra_simps)
  have "card_probe (format_table 100000) table_card i = None" if "i \<in> set (slot_list (format_table 100000))" for i
    using that z(1) [of i] by (simp add: set_slot_list card_probe_def slot_probe_def hdr_ok_def zero_block_word)
  then show l: "card_latest (format_table 100000) table_card = None" by (simp add: card_latest_def max_scan_None)
  show "ring_ok (format_table 100000) table_card" using z(2) by (simp add: ring_ok_def set_slot_list cmit_ok_def zero_block_word)
qed


text \<open>The header of the new snapshot tears.\<close>

definition tear_header :: "nat \<Rightarrow> sd_outcome" where
  "tear_header n = (if n = 4 then IoErr Fault_crc (Some (replicate 512 0)) else IoOk)"


end
