(* ===== verification/Boot_Restore.thy ===== *)
theory Boot_Restore
  imports Snapshot_Ring
begin

text \<open>
  The boot loader's side of snapshots, from \<open>boot_terminal.c\<close>: finding the valid
  slots and writing one back to memory.  \<open>boot_mem\<close> is the memory that the restore
  writes; the loader's own buffers (\<open>sd_buf_words\<close>, \<open>sd_restore_words\<close>) and its stack
  are kept apart from it.  The status block is the \<open>boot_status_t\<close> that the loader's
  functions pass by pointer.
\<close>

record boot_world = hand_world +
  boot_mem :: "u32 \<Rightarrow> u8"

record boot_status =
  st_app_present :: bool
  st_sd_present :: bool
  st_sd_init_ok :: bool
  st_sd_init_err :: int
  st_has_mbr_signature :: bool
  st_has_admin_magic :: bool
  st_capacity_blocks :: u32
  st_capacity_mb :: u32
  st_fs_free_mb_est :: u32
  st_snapshot_slots :: u32
  st_snapshot_interval_s :: u32
  st_snapshot_start_lba :: u32
  st_snapshot_blocks :: u32
  st_snapshot_slot_blocks :: u32
  st_snapshot_valid_count :: u32
  st_snapshot_slot_idx :: "u32 list"
  st_snapshot_slot_seq :: "u32 list"
  st_boot_target_mode :: u32
  st_boot_target_slot :: u32
  st_boot_target_seq :: u32

abbreviation (input) BOOT_SNAPSHOT_MENU_COUNT :: nat where "BOOT_SNAPSHOT_MENU_COUNT \<equiv> 3"
abbreviation (input) ADMIN_BLOCKS_MIN :: u32 where "ADMIN_BLOCKS_MIN \<equiv> 32"
abbreviation (input) MIN_SNAP_BLOCKS :: u32 where "MIN_SNAP_BLOCKS \<equiv> 2048"
abbreviation (input) MIN_FS_BLOCKS :: u32 where "MIN_FS_BLOCKS \<equiv> 2048"
abbreviation (input) SNAP_PART_PCT :: u32 where "SNAP_PART_PCT \<equiv> 25"
abbreviation (input) JOURNAL_PART_PCT :: u32 where "JOURNAL_PART_PCT \<equiv> 5"
abbreviation (input) NO_SLOT :: u32 where "NO_SLOT \<equiv> 0xFFFFFFFF"

definition uart_put_s32 :: "int \<Rightarrow> 'a world_scheme \<Rightarrow> 'a world_scheme" where
  "uart_put_s32 v w = (if v < 0 then uart_put_u32 (of_int (- v)) (uart_puts ''-'' w) else uart_put_u32 (of_int v) w)"

section \<open>The layout of a card\<close>

definition align_up_u32 :: "u32 \<Rightarrow> u32 \<Rightarrow> u32" where
  "align_up_u32 n a = (if a = 0 then n else (n + (a - 1)) AND NOT (a - 1))"

definition u32_max :: "u32 \<Rightarrow> u32 \<Rightarrow> u32" where
  "u32_max a b = (if a > b then a else b)"

text \<open>The layout as (journal start, journal blocks, snapshot start, snapshot blocks, blocks per slot).\<close>

definition boot_snapshot_layout_compute :: "u32 \<Rightarrow> u32 \<Rightarrow> (u32 \<times> u32 \<times> u32 \<times> u32 \<times> u32) option" where
  "boot_snapshot_layout_compute total_blocks slots =
     (if total_blocks = 0 \<or> slots = 0 then None
      else
        let target_snap = (total_blocks div 100) * SNAP_PART_PCT + ((total_blocks mod 100) * SNAP_PART_PCT) div 100;
            target_journal = (total_blocks div 100) * JOURNAL_PART_PCT + ((total_blocks mod 100) * JOURNAL_PART_PCT) div 100;
            admin_blocks = u32_max ADMIN_BLOCKS_MIN (align_up_u32 (total_blocks div 4096) 32);
            journal_blocks = u32_max ADMIN_BLOCKS_MIN (align_up_u32 target_journal 32);
            used = admin_blocks + journal_blocks
        in if total_blocks \<le> used + MIN_FS_BLOCKS then None
           else
             let max_snap = total_blocks - used - MIN_FS_BLOCKS;
                 snap0 = (if target_snap < MIN_SNAP_BLOCKS then MIN_SNAP_BLOCKS else target_snap);
                 snap = (if snap0 > max_snap then max_snap else snap0)
             in if snap < slots * SNAPSHOT_MIN_SLOT_BLOCKS then None
                else
                  let per_slot = snap div slots in
                  if per_slot < SNAPSHOT_MIN_SLOT_BLOCKS then None
                  else if per_slot * slots = 0 then None
                  else Some (admin_blocks, if journal_blocks > JOURNAL_BLOCKS_DEFAULT then JOURNAL_BLOCKS_DEFAULT else journal_blocks,
                             admin_blocks + journal_blocks, per_slot * slots, per_slot))"

definition boot_snapshot_layout_valid :: "u32 \<Rightarrow> u32 \<Rightarrow> u32 \<Rightarrow> u32 \<Rightarrow> u32 \<Rightarrow> bool" where
  "boot_snapshot_layout_valid total_blocks slots snap_start_lba snap_blocks slot_blocks =
     (if total_blocks = 0 \<or> slots = 0 then False
      else if slot_blocks < SNAPSHOT_MIN_SLOT_BLOCKS then False
      else if snap_blocks < slots * slot_blocks then False
      else if snap_start_lba < ADMIN_BLOCKS_MIN then False
      else if snap_start_lba + snap_blocks > total_blocks then False
      else True)"

section \<open>Finding the slots\<close>

definition boot_read_block_retry :: "u32 \<Rightarrow> 'a sd_world_scheme \<Rightarrow> (int \<times> block option) \<times> 'a sd_world_scheme" where
  "boot_read_block_retry lba w =
     (case sd_read1 lba w of ((rc, b), w1) \<Rightarrow>
        if rc = SD_OK then ((SD_OK, b), w1)
        else case sd_init w1 of (rc, w2) \<Rightarrow> if rc \<noteq> SD_OK then ((rc, None), w2) else sd_read1 lba w2)"

definition boot_snapshot_summary_reset :: "boot_status \<Rightarrow> boot_status" where
  "boot_snapshot_summary_reset st =
     st\<lparr>st_snapshot_valid_count := 0, st_snapshot_slot_idx := replicate BOOT_SNAPSHOT_MENU_COUNT NO_SLOT,
        st_snapshot_slot_seq := replicate BOOT_SNAPSHOT_MENU_COUNT 0\<rparr>"

text \<open>The inner loop moves the entries from \<open>i\<close> on one place down; the last one falls off.\<close>

definition shift_in :: "nat \<Rightarrow> 'a \<Rightarrow> 'a list \<Rightarrow> 'a list" where
  "shift_in i x xs = (foldl (\<lambda>ys j. ys[j := ys ! (j - 1)]) xs (rev [i + 1..<BOOT_SNAPSHOT_MENU_COUNT]))[i := x]"

fun summary_insert_loop :: "nat list \<Rightarrow> u32 \<Rightarrow> u32 \<Rightarrow> boot_status \<Rightarrow> boot_status" where
  "summary_insert_loop [] slot_idx seq st = st"
| "summary_insert_loop (i # is) slot_idx seq st =
     (if st_snapshot_slot_idx st ! i = NO_SLOT \<or> seq > st_snapshot_slot_seq st ! i
      then st\<lparr>st_snapshot_slot_idx := shift_in i slot_idx (st_snapshot_slot_idx st),
              st_snapshot_slot_seq := shift_in i seq (st_snapshot_slot_seq st)\<rparr>
      else summary_insert_loop is slot_idx seq st)"

definition boot_snapshot_summary_insert :: "u32 \<Rightarrow> u32 \<Rightarrow> boot_status \<Rightarrow> boot_status" where
  "boot_snapshot_summary_insert slot_idx seq st =
     summary_insert_loop [0..<BOOT_SNAPSHOT_MENU_COUNT] slot_idx seq
       (st\<lparr>st_snapshot_valid_count := st_snapshot_valid_count st + 1\<rparr>)"

definition boot_snapshot_slot_is_valid :: "u32 \<Rightarrow> u32 \<Rightarrow> u32 \<Rightarrow> 'a sd_world_scheme \<Rightarrow> u32 option \<times> 'a sd_world_scheme" where
  "boot_snapshot_slot_is_valid slot_lba slot_blocks idx w =
     (case sd_read1 slot_lba w of
        ((rc, None), w1) \<Rightarrow> (None, w1)
      | ((rc, Some h), w1) \<Rightarrow>
          if word_at h 0 \<noteq> SNAP_HDR_MAGIC \<or> word_at h 1 \<noteq> SNAP_FMT_VERSION then (None, w1)
          else if word_at h 3 \<noteq> idx then (None, w1)
          else if word_at h 4 \<noteq> slot_lba + 1 then (None, w1)
          else if word_at h 5 \<noteq> slot_blocks - 2 then (None, w1)
          else if \<not> seal_ok SNAP_HDR_WORDS h then (None, w1)
          else case boot_read_block_retry (slot_lba + 1) w1 of
            ((rc, None), w2) \<Rightarrow> (None, w2)
          | ((rc, Some p), w2) \<Rightarrow>
              if word_at p 0 \<noteq> SNAP_PAY0_MAGIC \<or> word_at p 1 \<noteq> SNAP_FMT_VERSION then (None, w2)
              else if \<not> seal_ok SNAP_PAY0_WORDS p then (None, w2)
              else case boot_read_block_retry (slot_lba + slot_blocks - 1) w2 of
                ((rc, None), w3) \<Rightarrow> (None, w3)
              | ((rc, Some c), w3) \<Rightarrow>
                  if word_at c 0 \<noteq> SNAP_CMIT_MAGIC \<or> word_at c 1 \<noteq> SNAP_FMT_VERSION then (None, w3)
                  else if word_at c 3 \<noteq> idx \<or> word_at c 2 \<noteq> word_at h 2 then (None, w3)
                  else if \<not> seal_ok SNAP_CMIT_WORDS c then (None, w3)
                  else (Some (word_at h 2), w3))"

fun boot_scan_loop :: "u32 list \<Rightarrow> boot_status \<Rightarrow> 'a sd_world_scheme \<Rightarrow> boot_status \<times> 'a sd_world_scheme" where
  "boot_scan_loop [] st w = (st, w)"
| "boot_scan_loop (i # is) st w =
     (case boot_snapshot_slot_is_valid (st_snapshot_start_lba st + i * st_snapshot_slot_blocks st) (st_snapshot_slot_blocks st) i w of
        (None, w1) \<Rightarrow> boot_scan_loop is st w1
      | (Some seq, w1) \<Rightarrow> boot_scan_loop is (boot_snapshot_summary_insert i seq st) w1)"

definition boot_snapshot_scan :: "boot_status \<Rightarrow> 'a sd_world_scheme \<Rightarrow> boot_status \<times> 'a sd_world_scheme" where
  "boot_snapshot_scan st0 w =
     (let st = boot_snapshot_summary_reset st0 in
      if \<not> st_has_admin_magic st \<or> \<not> st_sd_present st \<or> \<not> st_sd_init_ok st then (st, w)
      else if \<not> boot_snapshot_layout_valid (st_capacity_blocks st) (st_snapshot_slots st) (st_snapshot_start_lba st)
                  (st_snapshot_blocks st) (st_snapshot_slot_blocks st) then (st, w)
      else boot_scan_loop (map of_nat [0..<unat (st_snapshot_slots st)]) st w)"

text \<open>The slot and sequence of a rank, None when there is none.\<close>

definition boot_snapshot_rank_to_slot :: "boot_status \<Rightarrow> u32 \<Rightarrow> (u32 \<times> u32) option" where
  "boot_snapshot_rank_to_slot st rank =
     (if unat rank \<ge> BOOT_SNAPSHOT_MENU_COUNT then None
      else if st_snapshot_slot_idx st ! unat rank = NO_SLOT then None
      else Some (st_snapshot_slot_idx st ! unat rank, st_snapshot_slot_seq st ! unat rank))"

section \<open>Restoring a slot\<close>

definition boot_snapshot_read_header :: "u32 \<Rightarrow> u32 \<Rightarrow> u32 \<Rightarrow> 'a sd_world_scheme \<Rightarrow> (int \<times> block) \<times> 'a sd_world_scheme" where
  "boot_snapshot_read_header slot_lba slot_blocks idx w =
     (case boot_read_block_retry slot_lba w of
        ((rc, None), w1) \<Rightarrow> ((rc, []), w1)
      | ((rc, Some h), w1) \<Rightarrow>
          if word_at h 0 \<noteq> SNAP_HDR_MAGIC \<or> word_at h 1 \<noteq> SNAP_FMT_VERSION then ((SD_ERR_PARAM, []), w1)
          else if word_at h 3 \<noteq> idx then ((SD_ERR_PARAM, []), w1)
          else if word_at h 4 \<noteq> slot_lba + 1 \<or> word_at h 5 \<noteq> slot_blocks - 2 then ((SD_ERR_PARAM, []), w1)
          else if \<not> seal_ok SNAP_HDR_WORDS h then ((SD_ERR_PARAM, []), w1)
          else case boot_read_block_retry (slot_lba + slot_blocks - 1) w1 of
            ((rc, None), w2) \<Rightarrow> ((rc, h), w2)
          | ((rc, Some c), w2) \<Rightarrow>
              if word_at c 0 \<noteq> SNAP_CMIT_MAGIC \<or> word_at c 1 \<noteq> SNAP_FMT_VERSION then ((SD_ERR_PARAM, h), w2)
              else if word_at c 3 \<noteq> idx \<or> word_at c 2 \<noteq> word_at h 2 then ((SD_ERR_PARAM, h), w2)
              else if \<not> seal_ok SNAP_CMIT_WORDS c then ((SD_ERR_PARAM, h), w2)
              else ((SD_OK, h), w2))"

text \<open>
  The copy loop of a region: the result, the next block, the blocks left and the
  checksum so far.  The two copying directions of the code guard against an overlap
  of the buffer and the target; both leave the bytes of the block in memory.
\<close>

abbreviation (input) boot_msg :: "string \<Rightarrow> 'a world_scheme \<Rightarrow> 'a world_scheme" where
  "boot_msg s w \<equiv> uart_puts (s @ crlf) w"

function boot_data_loop ::
  "u32 \<Rightarrow> u32 \<Rightarrow> u32 \<Rightarrow> u32 \<Rightarrow> u32 \<Rightarrow> 'a boot_world_scheme \<Rightarrow> (int \<times> u32 \<times> u32 \<times> u32) \<times> 'a boot_world_scheme" where
  "boot_data_loop dst rem lba left crc w =
     (if rem = 0 then ((SD_OK, lba, left, crc), w)
      else if left = 0 then ((SD_ERR_PARAM, lba, left, crc), boot_msg ''R:data noblk'' w)
      else case boot_read_block_retry lba w of
        ((rc, None), w1) \<Rightarrow> ((rc, lba, left, crc), w1)
      | ((rc, Some b), w1) \<Rightarrow>
          let n = (if rem > 512 then 512 else rem);
              bs = take (unat n) b
          in boot_data_loop (dst + n) (rem - n) (lba + 1) (left - 1) (checksum_bytes_update crc bs)
               (w1\<lparr>boot_mem := write_bytes dst bs (boot_mem w1)\<rparr>))"
  by pat_completeness auto
termination
  by (relation "measure (\<lambda>(_, rem, _). unat rem)")
    (auto simp: word_less_nat_alt unat_sub_if' unat_gt_0 split: if_splits)

declare boot_data_loop.simps [simp del]

text \<open>One region: the result, the next block, the blocks left and the length of the region.\<close>

definition boot_region ::
  "u32 \<Rightarrow> u32 \<Rightarrow> 'a boot_world_scheme \<Rightarrow> (int \<times> u32 \<times> u32 \<times> u32) \<times> 'a boot_world_scheme" where
  "boot_region lba left w =
     (if left = 0 then ((SD_ERR_PARAM, lba, left, 0), boot_msg ''R:rgs noblk'' w)
      else case boot_read_block_retry lba w of
        ((rc, None), w1) \<Rightarrow> ((rc, lba, left, 0), w1)
      | ((rc, Some g), w1) \<Rightarrow>
          if word_at g 0 \<noteq> SNAP_RGS0_MAGIC \<or> word_at g 1 \<noteq> SNAP_FMT_VERSION
          then ((SD_ERR_PARAM, lba, left, 0), uart_puts crlf (uart_put_hex32 (word_at g 0) (uart_puts ''R:rgs m='' w1)))
          else if \<not> seal_ok SNAP_RGS0_WORDS g then ((SD_ERR_PARAM, lba, left, 0), boot_msg ''R:rgs cksum'' w1)
          else
            let addr = word_at g 2; len = word_at g 3 in
            if addr < sram_start \<or> addr > sram_end
            then ((SD_ERR_PARAM, lba, left, 0), uart_puts crlf (uart_put_hex32 addr (uart_puts ''R:rgn addr='' w1)))
            else if len > sram_end - addr
            then ((SD_ERR_PARAM, lba, left, 0), uart_puts crlf (uart_put_u32 len (uart_puts ''R:rgn len='' w1)))
            else case boot_data_loop addr len (lba + 1) (left - 1) fnv_init w1 of ((rc, lba2, left2, crc), w2) \<Rightarrow>
              if rc \<noteq> SD_OK then ((rc, lba2, left2, 0), w2)
              else if left2 = 0 then ((SD_ERR_PARAM, lba2, left2, 0), boot_msg ''R:rge noblk'' w2)
              else case boot_read_block_retry lba2 w2 of
                ((rc, None), w3) \<Rightarrow> ((rc, lba2, left2, 0), w3)
              | ((rc, Some e), w3) \<Rightarrow>
                  if word_at e 0 \<noteq> SNAP_RGE0_MAGIC \<or> word_at e 1 \<noteq> SNAP_FMT_VERSION
                  then ((SD_ERR_PARAM, lba2, left2, 0), uart_puts crlf (uart_put_hex32 (word_at e 0) (uart_puts ''R:rge m='' w3)))
                  else if word_at e 2 \<noteq> addr \<or> word_at e 3 \<noteq> len then ((SD_ERR_PARAM, lba2, left2, 0), boot_msg ''R:rge addr/len'' w3)
                  else if \<not> seal_ok SNAP_RGE0_WORDS e then ((SD_ERR_PARAM, lba2, left2, 0), boot_msg ''R:rge cksum'' w3)
                  else if word_at e 4 \<noteq> checksum_bytes_finalize crc then ((SD_ERR_PARAM, lba2, left2, 0), boot_msg ''R:rge crc'' w3)
                  else ((SD_OK, lba2 + 1, left2 - 1, len), w3))"

text \<open>The loop over the regions still to copy, with the bytes copied so far.\<close>

fun boot_regions_loop ::
  "nat \<Rightarrow> u32 \<Rightarrow> u32 \<Rightarrow> u32 \<Rightarrow> 'a boot_world_scheme \<Rightarrow> (int \<times> u32 \<times> u32 \<times> u32) \<times> 'a boot_world_scheme" where
  "boot_regions_loop 0 lba left copied w = ((SD_OK, lba, left, copied), w)"
| "boot_regions_loop (Suc n) lba left copied w =
     (case boot_region lba left w of ((rc, lba1, left1, len), w1) \<Rightarrow>
        if rc \<noteq> SD_OK then ((rc, lba1, left1, copied), w1)
        else boot_regions_loop n lba1 left1 (copied + len) w1)"

definition boot_payload_end :: "u32 \<Rightarrow> u32 \<Rightarrow> u32 \<Rightarrow> u32 \<Rightarrow> 'a sd_world_scheme \<Rightarrow> int \<times> 'a sd_world_scheme" where
  "boot_payload_end lba left count bytes w =
     (if left = 0 then (SD_ERR_PARAM, boot_msg ''R:paye noblk'' w)
      else case boot_read_block_retry lba w of
        ((rc, None), w1) \<Rightarrow> (rc, w1)
      | ((rc, Some e), w1) \<Rightarrow>
          if word_at e 0 \<noteq> SNAP_PAYE_MAGIC \<or> word_at e 1 \<noteq> SNAP_FMT_VERSION
          then (SD_ERR_PARAM, uart_puts crlf (uart_put_hex32 (word_at e 0) (uart_puts ''R:paye m='' w1)))
          else if \<not> seal_ok SNAP_PAYE_WORDS e then (SD_ERR_PARAM, boot_msg ''R:paye cksum'' w1)
          else if word_at e 2 \<noteq> count \<or> word_at e 3 \<noteq> bytes then (SD_ERR_PARAM, boot_msg ''R:paye count'' w1)
          else (SD_OK, w1))"

definition boot_snapshot_restore_payload ::
  "u32 \<Rightarrow> u32 \<Rightarrow> u32 \<Rightarrow> u32 \<Rightarrow> 'a boot_world_scheme \<Rightarrow> int \<times> 'a boot_world_scheme" where
  "boot_snapshot_restore_payload slot_lba slot_blocks idx expected_seq w =
     (case boot_snapshot_read_header slot_lba slot_blocks idx w of ((rc, h), w1) \<Rightarrow>
        if rc \<noteq> SD_OK then (rc, uart_puts crlf (uart_put_s32 rc (uart_puts ''R:hdr rc='' w1)))
        else if expected_seq \<noteq> 0 \<and> word_at h 2 \<noteq> expected_seq
        then (SD_ERR_PARAM, uart_puts crlf (uart_put_u32 (word_at h 2) (uart_puts '' got='' (uart_put_u32 expected_seq (uart_puts ''R:seq exp='' w1)))))
        else
          let lba = word_at h 4; left = word_at h 5 in
          if left = 0 then (SD_ERR_PARAM, boot_msg ''R:0blk'' w1)
          else case boot_read_block_retry lba w1 of
            ((rc, None), w2) \<Rightarrow> (rc, uart_puts crlf (uart_put_s32 rc (uart_puts ''R:pay0 rd rc='' w2)))
          | ((rc, Some p), w2) \<Rightarrow>
              if word_at p 0 \<noteq> SNAP_PAY0_MAGIC \<or> word_at p 1 \<noteq> SNAP_FMT_VERSION
              then (SD_ERR_PARAM, uart_puts crlf (uart_put_hex32 (word_at p 0) (uart_puts ''R:pay0 m='' w2)))
              else if \<not> seal_ok SNAP_PAY0_WORDS p then (SD_ERR_PARAM, boot_msg ''R:pay0 cksum'' w2)
              else if word_at p 5 = 0 \<or> word_at p 5 > 8
              then (SD_ERR_PARAM, uart_puts crlf (uart_put_u32 (word_at p 5) (uart_puts ''R:pay0 rgn='' w2)))
              else case boot_regions_loop (unat (word_at p 5)) (lba + 1) (left - 1) 0 w2 of ((rc, lba2, left2, bytes), w3) \<Rightarrow>
                if rc \<noteq> SD_OK then (rc, w3)
                else boot_payload_end lba2 left2 (word_at p 5) bytes w3)"

section \<open>What a restore puts back\<close>

text \<open>A card that answers; the resume request, the card and the memory of a state.\<close>

definition boot_at :: "rewind_handoff \<Rightarrow> (u32 \<Rightarrow> block) \<Rightarrow> (u32 \<Rightarrow> u8) \<Rightarrow> 'a boot_world_scheme \<Rightarrow> bool" where
  "boot_at h c m w \<longleftrightarrow> sd_ok w \<and> g_rewind_handoff w = h \<and> sd_card w = c \<and> boot_mem w = m"

lemma boot_at_read:
  assumes "boot_at h c m w"
  obtains w' where "boot_read_block_retry l w = ((SD_OK, Some (c l)), w')" "boot_at h c m w'"
  using assms by (simp add: boot_at_def boot_read_block_retry_def sd_simps)

lemma padded_take: "length bs \<le> 512 \<Longrightarrow> take (length bs) (padded bs) = bs"
  by (simp add: padded_def)

lemma data_loop_restores:
  assumes "boot_at h c m w" "card_has c lba (map padded (chunks mem a (unat rem)))" "length (chunks mem a (unat rem)) \<le> unat left"
  shows "\<exists>w'. boot_data_loop a rem lba left crc w =
      ((SD_OK, lba + of_nat (length (chunks mem a (unat rem))), left - of_nat (length (chunks mem a (unat rem))),
        checksum_bytes_update crc (concat (chunks mem a (unat rem)))), w') \<and>
    boot_at h c (write_bytes a (concat (chunks mem a (unat rem))) m) w'"
  using assms
proof (induction a rem lba left crc w arbitrary: m mem rule: boot_data_loop.induct)
  case (1 a rem lba left crc w)
  show ?case
  proof (cases "rem = 0")
    case True
    then show ?thesis using "1.prems"(1) by (simp add: boot_data_loop.simps checksum_bytes_update_def)
  next
    case False
    define n where "n = (if rem > 512 then 512 else rem)"
    define b where "b = map (\<lambda>i. mem 0 (a + of_nat i)) [0..<unat n]"
    define cs where "cs = chunks (\<lambda>k. mem (Suc k)) (a + n) (unat (rem - n))"
    have cs: "chunks mem a (unat rem) = b # cs" using chunks_step [OF False, of mem a] by (simp add: n_def b_def cs_def)
    have n: "length b = unat n" "unat n \<le> 512" by (simp_all add: n_def b_def word_less_nat_alt)
    have left: "left \<noteq> 0" "length cs \<le> unat (left - 1)"
    proof -
      have "Suc (length cs) \<le> unat left" using "1.prems"(3) unfolding cs by simp
      then show "left \<noteq> 0" "length cs \<le> unat (left - 1)" by (auto simp: unat_sub word_le_nat_alt)
    qed
    obtain w1 where r: "boot_read_block_retry lba w = ((SD_OK, Some (padded b)), w1)" "boot_at h c m w1"
      using boot_at_read [OF "1.prems"(1), of lba] "1.prems"(2) unfolding cs by auto
    have tk: "take (unat n) (padded b) = b" using padded_take [of b] n by simp
    define w2 where "w2 = w1\<lparr>boot_mem := write_bytes a b (boot_mem w1)\<rparr>"
    have at: "boot_at h c (write_bytes a b m) w2" using r(2) by (simp add: w2_def boot_at_def sd_ok_def)
    have ch: "card_has c (lba + 1) (map padded cs)" using "1.prems"(2) unfolding cs by simp
    have step: "boot_data_loop a rem lba left crc w = boot_data_loop (a + n) (rem - n) (lba + 1) (left - 1) (checksum_bytes_update crc b) w2"
      by (subst boot_data_loop.simps) (simp only: False left(1) r(1) tk w2_def n_def [symmetric] Let_def if_False prod.case option.case)
    from "1.IH" [OF False left(1) r(1) [symmetric] refl refl n_def refl, unfolded tk, folded w2_def, OF at ch [unfolded cs_def] left(2) [unfolded cs_def], folded cs_def]
    obtain w' where w': "boot_data_loop (a + n) (rem - n) (lba + 1) (left - 1) (checksum_bytes_update crc b) w2 =
        ((SD_OK, lba + 1 + of_nat (length cs), left - 1 - of_nat (length cs), checksum_bytes_update (checksum_bytes_update crc b) (concat cs)), w')"
      "boot_at h c (write_bytes (a + n) (concat cs) (write_bytes a b m)) w'" by blast
    have "of_nat (length b) = n" using n(1) by simp
    then show ?thesis unfolding step w'(1) cs using w'(2)
      by (simp add: checksum_bytes_update_def write_bytes_append algebra_simps)
  qed
qed

fun put_regions :: "(nat \<Rightarrow> u32 \<Rightarrow> u8) \<Rightarrow> region_span list \<Rightarrow> (u32 \<Rightarrow> u8) \<Rightarrow> u32 \<Rightarrow> u8" where
  "put_regions mem [] m = m"
| "put_regions mem (r # rs) m =
     put_regions (\<lambda>k. mem (k + length (region_chunks mem r))) rs (write_bytes (rs_start r) (concat (region_chunks mem r)) m)"

definition region_ok :: "region_span \<Rightarrow> bool" where
  "region_ok r \<longleftrightarrow> sram_start \<le> rs_start r \<and> unat (rs_start r) + unat (rs_len r) \<le> unat sram_end"

lemma region_restores:
  assumes "boot_at h c m w" "card_has c lba (region_blocks mem r)" "length (region_blocks mem r) \<le> unat left" "region_ok r"
  shows "\<exists>w'. boot_region lba left w =
      ((SD_OK, lba + of_nat (length (region_blocks mem r)), left - of_nat (length (region_blocks mem r)), rs_len r), w') \<and>
    boot_at h c (write_bytes (rs_start r) (concat (region_chunks mem r)) m) w'"
proof -
  let ?cs = "region_chunks mem r"
  let ?g = "rgs_block (rs_start r) (rs_len r)"
  let ?crc = "checksum_bytes_update fnv_init (concat ?cs)"
  let ?e = "rge_block (rs_start r) (rs_len r) (checksum_bytes_finalize ?crc)"
  have on: "c lba = ?g" "card_has c (lba + 1) (map padded ?cs)" "c (lba + 1 + of_nat (length ?cs)) = ?e"
    using assms(2) by (simp_all add: region_blocks_def)
  have left: "length ?cs + 2 \<le> unat left" using assms(3) by (simp add: region_blocks_def)
  then have l1: "left \<noteq> 0" "length ?cs + 1 \<le> unat (left - 1)" by (auto simp: unat_sub word_le_nat_alt)
  obtain w1 where r1: "boot_read_block_retry lba w = ((SD_OK, Some ?g), w1)" "boot_at h c m w1"
    using boot_at_read [OF assms(1), of lba] on(1) by metis
  have cs: "?cs = chunks mem (rs_start r) (unat (rs_len r))" by (simp add: region_chunks_def)
  obtain w2 where d: "boot_data_loop (rs_start r) (rs_len r) (lba + 1) (left - 1) fnv_init w1 =
      ((SD_OK, lba + 1 + of_nat (length ?cs), left - 1 - of_nat (length ?cs), ?crc), w2)"
      "boot_at h c (write_bytes (rs_start r) (concat ?cs) m) w2"
    using data_loop_restores [OF r1(2), of "lba + 1" mem "rs_start r" "rs_len r" "left - 1" fnv_init, folded cs] on(2) l1(2) by auto
  have l2: "left - 1 - of_nat (length ?cs) \<noteq> 0"
  proof
    assume "left - 1 - of_nat (length ?cs) = 0"
    then have "unat (left - 1) = unat (of_nat (length ?cs) :: u32)" by simp
    also have "\<dots> \<le> length ?cs" by (simp add: unat_of_nat)
    finally show False using l1(2) by simp
  qed
  obtain w3 where r3: "boot_read_block_retry (lba + 1 + of_nat (length ?cs)) w2 = ((SD_OK, Some ?e), w3)"
      "boot_at h c (write_bytes (rs_start r) (concat ?cs) m) w3"
    using boot_at_read [OF d(2), of "lba + 1 + of_nat (length ?cs)"] on(3) by metis
  have "rs_start r \<le> sram_end" using assms(4) by (simp add: region_ok_def word_le_nat_alt)
  moreover from this have "rs_len r \<le> sram_end - rs_start r"
    using assms(4) by (auto simp: region_ok_def word_le_nat_alt unat_sub)
  ultimately have b: "\<not> (rs_start r < sram_start \<or> rs_start r > sram_end)" "\<not> rs_len r > sram_end - rs_start r"
    using assms(4) by (simp_all add: region_ok_def not_less)
  have "boot_region lba left w = ((SD_OK, lba + 1 + of_nat (length ?cs) + 1, left - 1 - of_nat (length ?cs) - 1, rs_len r), w3)"
    using b l1(1) l2 by (simp add: boot_region_def r1(1) d(1) r3(1) snap_block_words snap_block_seals Let_def del: One_nat_def)
  then show ?thesis using r3(2) by (simp add: region_blocks_def algebra_simps)
qed

lemma regions_restore:
  assumes "boot_at h c m w" "card_has c lba (regions_blocks mem rs)" "length (regions_blocks mem rs) \<le> unat left" "\<forall>r \<in> set rs. region_ok r"
  shows "\<exists>w'. boot_regions_loop (length rs) lba left copied w =
      ((SD_OK, lba + of_nat (length (regions_blocks mem rs)), left - of_nat (length (regions_blocks mem rs)),
        foldl (\<lambda>t r. t + rs_len r) copied rs), w') \<and> boot_at h c (put_regions mem rs m) w'"
  using assms
proof (induction rs arbitrary: mem m w lba left copied)
  case (Cons r rs)
  let ?m1 = "\<lambda>k. mem (k + length (region_chunks mem r))"
  let ?n = "length (region_blocks mem r)"
  have a: "card_has c lba (region_blocks mem r)" "card_has c (lba + of_nat ?n) (regions_blocks ?m1 rs)"
    "?n + length (regions_blocks ?m1 rs) \<le> unat left" using Cons.prems(2,3) by simp_all
  obtain w1 where r: "boot_region lba left w = ((SD_OK, lba + of_nat ?n, left - of_nat ?n, rs_len r), w1)"
      "boot_at h c (write_bytes (rs_start r) (concat (region_chunks mem r)) m) w1"
    using region_restores [OF Cons.prems(1) a(1), of left] a(3) Cons.prems(4) by auto
  have "(of_nat ?n :: u32) \<le> left" "unat (of_nat ?n :: u32) = ?n"
  proof -
    have "unat left < 4294967296" by (rule unat_u32_lt)
    then have "?n < 4294967296" using a(3) by linarith
    then show "unat (of_nat ?n :: u32) = ?n" by (simp add: unat_of_nat)
    then show "(of_nat ?n :: u32) \<le> left" using a(3) by (simp add: word_le_nat_alt)
  qed
  then have "length (regions_blocks ?m1 rs) \<le> unat (left - of_nat ?n)" using a(3) by (simp add: unat_sub)
  from Cons.IH [OF r(2) a(2) this] Cons.prems(4)
  obtain w' where "boot_regions_loop (length rs) (lba + of_nat ?n) (left - of_nat ?n) (copied + rs_len r) w1 =
      ((SD_OK, lba + of_nat ?n + of_nat (length (regions_blocks ?m1 rs)), left - of_nat ?n - of_nat (length (regions_blocks ?m1 rs)),
        foldl (\<lambda>t r. t + rs_len r) (copied + rs_len r) rs), w')"
      "boot_at h c (put_regions ?m1 rs (write_bytes (rs_start r) (concat (region_chunks mem r)) m)) w'" by fastforce
  then show ?case by (simp add: r(1) algebra_simps)
qed simp

lemma read_header_ok:
  assumes "boot_at h c m w" "c lba = hdr_block seq idx (lba + 1) (blocks - 2)" "c (lba + blocks - 1) = cmit_block seq idx"
  obtains w' where "boot_snapshot_read_header lba blocks idx w = ((SD_OK, hdr_block seq idx (lba + 1) (blocks - 2)), w')" "boot_at h c m w'"
proof -
  obtain w1 where r1: "boot_read_block_retry lba w = ((SD_OK, Some (c lba)), w1)" "boot_at h c m w1" by (rule boot_at_read [OF assms(1)])
  obtain w2 where r2: "boot_read_block_retry (lba + blocks - 1) w1 = ((SD_OK, Some (c (lba + blocks - 1))), w2)" "boot_at h c m w2"
    by (rule boot_at_read [OF r1(2)])
  show ?thesis
    by (rule that [OF _ r2(2)])
      (simp add: boot_snapshot_read_header_def r1(1) r2(1) assms(2,3) snap_block_words snap_block_seals del: One_nat_def)
qed

lemma slot_restores:
  assumes "boot_at h c m w" "card_has c lba (hdr_block seq idx (lba + 1) (blocks - 2) # payload_list mem rs reason tick ready)"
    and "c (lba + blocks - 1) = cmit_block seq idx" "length (payload_list mem rs reason tick ready) \<le> unat (blocks - 2)"
    and "rs \<noteq> []" "length rs \<le> 8" "\<forall>r \<in> set rs. region_ok r" "expected = 0 \<or> expected = seq"
  shows "\<exists>w'. boot_snapshot_restore_payload lba blocks idx expected w = (SD_OK, w') \<and> boot_at h c (put_regions mem rs m) w'"
proof -
  define left where "left = blocks - 2"
  let ?h = "hdr_block seq idx (lba + 1) (left)"
  let ?p = "pay0_block reason tick ready (of_nat (length rs)) (region_total rs)"
  let ?e = "paye_block (of_nat (length rs)) (region_total rs)"
  let ?bs = "regions_blocks mem rs"
  have on: "c lba = ?h" "c (lba + 1) = ?p" "card_has c (lba + 2) ?bs" "c (lba + 2 + of_nat (length ?bs)) = ?e"
    using assms(2) by (simp_all add: payload_list_def ac_simps left_def)
  have fits: "length ?bs + 2 \<le> unat (left)" using assms(4) by (simp add: payload_list_def left_def)
  then have b: "left \<noteq> 0" "length ?bs + 1 \<le> unat (left - 1)" by (auto simp: unat_sub word_le_nat_alt)
  obtain w1 where r1: "boot_snapshot_read_header lba blocks idx w = ((SD_OK, ?h), w1)" "boot_at h c m w1"
    by (rule read_header_ok [OF assms(1) on(1) [unfolded left_def] assms(3), folded left_def])
  obtain w2 where r2: "boot_read_block_retry (lba + 1) w1 = ((SD_OK, Some ?p), w2)" "boot_at h c m w2"
    using boot_at_read [OF r1(2), of "lba + 1"] on(2) by metis
  have n: "unat (of_nat (length rs) :: u32) = length rs" using assms(6) by (simp add: unat_of_nat)
  have cnt: "(of_nat (length rs) :: u32) \<noteq> 0" "\<not> (of_nat (length rs) :: u32) > 8"
    using n assms(5,6) by (auto simp: word_unat_eq_iff word_less_nat_alt)
  obtain w3 where r3: "boot_regions_loop (length rs) (lba + 2) (left - 1) 0 w2 =
      ((SD_OK, lba + 2 + of_nat (length ?bs), left - 1 - of_nat (length ?bs), region_total rs), w3)"
      "boot_at h c (put_regions mem rs m) w3"
    using regions_restore [OF r2(2) on(3), of "left - 1" 0] b(2) assms(7) by (auto simp: region_total_def)
  have l: "left - 1 - of_nat (length ?bs) \<noteq> 0"
  proof
    assume "left - 1 - of_nat (length ?bs) = 0"
    then have "unat (left - 1) = unat (of_nat (length ?bs) :: u32)" by simp
    also have "\<dots> \<le> length ?bs" by (simp add: unat_of_nat)
    finally show False using b(2) by simp
  qed
  obtain w4 where r4: "boot_read_block_retry (lba + 2 + of_nat (length ?bs)) w3 = ((SD_OK, Some ?e), w4)" "boot_at h c (put_regions mem rs m) w4"
    using boot_at_read [OF r3(2), of "lba + 2 + of_nat (length ?bs)"] on(4) by metis
  have e: "boot_payload_end (lba + 2 + of_nat (length ?bs)) (left - 1 - of_nat (length ?bs)) (of_nat (length rs)) (region_total rs) w3 = (SD_OK, w4)"
    using l by (simp add: boot_payload_end_def r4(1) snap_block_words snap_block_seals del: One_nat_def)
  have l1: "lba + 1 + 1 = lba + 2" by simp
  have ex: "(expected \<noteq> 0 \<and> seq \<noteq> expected) = False" using assms(8) by auto
  have "boot_snapshot_restore_payload lba blocks idx expected w = (SD_OK, w4)"
    using b(1) cnt
    by (simp add: boot_snapshot_restore_payload_def ex r1(1) r2(1) snap_block_words snap_block_seals Let_def n r3(1) e l1 del: One_nat_def
        cong del: if_weak_cong)
  then show ?thesis using r4(2) by blast
qed

text \<open>With memory that stood still while it was captured, the regions hold it.\<close>

lemma put_regions_still:
  "\<forall>r \<in> set rs. region_ok r \<Longrightarrow> put_regions (\<lambda>_. mem) rs m a = (if \<exists>r \<in> set rs. in_region a r then mem a else m a)"
proof (induction rs arbitrary: m)
  case (Cons r rs)
  have "unat (rs_start r) + unat (rs_len r) \<le> 4294967296" using Cons.prems by (auto simp: region_ok_def)
  from Cons.IH Cons.prems region_back [OF this, of "\<lambda>_. mem" m a] show ?case by simp
qed simp

section \<open>The card a successful snapshot leaves\<close>

text \<open>The slot that \<open>snapshot_write_one\<close> reports holds the header, the payload of the memory
  it captured and the commit, also after the table and the journal were updated.\<close>

lemma write_one_slot:
  assumes disk: "rwos_disk_get w = Some d" "ring_layout d" "slots_apart d w" "journal_inside w"
    and torn: "sd_torn torn_snap w" and run: "snapshot_write_one reason w = (SD_OK, w')"
    and n: "next_slot d (fst (snapshot_scan_latest d w)) = (i, seq)" and i: "i < d_snap_slots d"
  defines "rs \<equiv> snapshot_build_regions (ssnap_exclude w) (esnap_exclude w) 4"
  shows "\<exists>tick ready. card_has (sd_card w') (slot_base d i)
      (hdr_block seq i (slot_base d i + 1) (d_snap_slot_blocks d - 2) # payload_list (snap_mem w) rs reason tick ready) \<and>
    length (payload_list (snap_mem w) rs reason tick ready) \<le> unat (d_snap_slot_blocks d - 2)"
    "sd_card w' (slot_base d i + d_snap_slot_blocks d - 1) = cmit_block seq i"
proof -
  let ?B = "d_snap_slot_blocks d"
  let ?l = "slot_base d i"
  obtain latest w1 where e1: "snapshot_scan_latest d w = (latest, w1)" by fastforce
  have o1: "sd_card w1 = sd_card w" "sd_world.more w1 = sd_world.more w" "sd_torn torn_snap w1"
    using only_read_latest [of d w] e1 torn by (simp_all add: only_read_def)
  have n': "next_slot d latest = (i, seq)" using n e1 by simp
  obtain tick ready w2 where e2: "snapshot_capture_quiesced w1 = ((tick, ready), w2)" by (metis prod.exhaust)
  note m2 = sched_more_snap [OF capture_more [of w1, unfolded e2 snd_conv]]
  obtain rc3 w3 where e3: "snapshot_write_slot ?l ?B i seq reason tick ready w2 = (rc3, w3)" by fastforce
  have t2: "sd_torn torn_snap w2" using m2(4) o1(3) by blast
  have k2: "kept w2 w" "snap_mem w2 = snap_mem w" using m2(1,3) kept_more [OF o1(2)] kept_trans by auto
  have run': "rc3 = SD_OK \<and> (\<exists>f. w' = journal_note_snapshot_seq seq (upd_sx f (snd (rwos_disk_set_last_snap i seq w3))))"
    using run disk(1) e1 n' e2 e3
    by (auto simp: snapshot_write_one_def slot_base_def Let_def sd_codes SCHED_ERR_DISABLED_def split: if_splits)
  then obtain f where ok: "rc3 = SD_OK" and w': "w' = journal_note_snapshot_seq seq (upd_sx f (snd (rwos_disk_set_last_snap i seq w3)))" by blast
  let ?h = "hdr_block seq i (?l + 1) (?B - 2)"
  let ?pl = "payload_list (snap_mem w) rs reason tick ready"
  have rs2: "snapshot_build_regions (ssnap_exclude w2) (esnap_exclude w2) 4 = rs" using k2(1) by (simp add: kept_def rs_def)
  note s = snapshot_write_slot_wrote [OF t2 e3, unfolded rs2 k2(2)]
  have c3: "sd_card w3 = (card_put ?l (?h # ?pl) (sd_card w2))(?l + ?B - 1 := cmit_block seq i)" and room: "\<not> required_blocks rs > ?B - 2"
    using s(3) [OF ok] by simp_all
  have b: "2 \<le> unat ?B" using disk(2) by (simp add: ring_layout_def)
  have len: "length (?h # ?pl) \<le> unat ?B - 1" using row_length [OF room [unfolded rs_def] b] by (simp add: rs_def)
  have "unat ?B < 4294967296" by (rule unat_u32_lt)
  then have big: "length (?h # ?pl) < 4294967296" using len by linarith
  have a3: "slots_apart d w3" "journal_inside w3"
    using disk(3,4) kept_trans [OF s(2) k2(1)] by (simp_all add: slots_apart_def journal_inside_def journal_area_def kept_def)
  have same: "sd_card w' (?l + of_nat m) = sd_card w3 (?l + of_nat m)" if "m < unat ?B" for m
    using recorded_card [OF a3(2) w'] a3(1) i that by (simp add: slots_apart_def)
  have "card_has (sd_card w') ?l (?h # ?pl)" unfolding card_has_def
  proof (intro allI impI)
    fix k assume k: "k < length (?h # ?pl)"
    then have kb: "k < unat ?B - 1" using len by linarith
    then have "?l + of_nat k \<noteq> ?l + ?B - 1"
      using slot_disjoint [OF disk(2) i i, of k "unat ?B - 1"] unfolding slot_last [OF disk(2)] by auto
    then show "sd_card w' (?l + of_nat k) = (?h # ?pl) ! k"
      using same [of k] kb card_put_nth [OF k big] by (simp add: c3 del: card_put.simps)
  qed
  moreover have "length ?pl \<le> unat (?B - 2)" using len b by (simp add: unat_sub word_le_nat_alt)
  ultimately show "\<exists>tick ready. card_has (sd_card w') ?l (?h # payload_list (snap_mem w) rs reason tick ready) \<and>
    length (payload_list (snap_mem w) rs reason tick ready) \<le> unat (?B - 2)" by blast
  show "sd_card w' (?l + ?B - 1) = cmit_block seq i"
    using same [of "unat ?B - 1"] b unfolding slot_last [OF disk(2), symmetric] by (simp add: c3)
qed

end
