(* ===== verification/Boot_Admin.thy ===== *)
theory Boot_Admin
  imports Boot_Restore
begin

text \<open>
  The boot loader's table of the card, its status block and the restore of the
  target the table asks for, from \<open>boot_terminal.c\<close>.  The clock settings and the
  register writes of \<open>sd_abort_stale_transfer\<close> are not modelled; the switch of the
  stack pointer before the restore has no effect on the modelled state.
\<close>

record boot_admin =
  ad_magic :: u32
  ad_version :: u32
  ad_generation :: u32
  ad_total_blocks :: u32
  ad_fallback_mode :: u32
  ad_snapshot_slots :: u32
  ad_snapshot_interval_s :: u32
  ad_reserved :: "u32 list"

abbreviation (input) ADMIN_MAGIC :: u32 where "ADMIN_MAGIC \<equiv> 0x53535752"
abbreviation (input) ADMIN_VERSION :: u32 where "ADMIN_VERSION \<equiv> 1"
abbreviation (input) ADMIN_PROBE_LBA :: u32 where "ADMIN_PROBE_LBA \<equiv> 1"
abbreviation (input) ADMIN_MIRROR_LBA :: u32 where "ADMIN_MIRROR_LBA \<equiv> 2"
abbreviation (input) RSV_SNAP_START_LBA :: nat where "RSV_SNAP_START_LBA \<equiv> 0"
abbreviation (input) RSV_SNAP_BLOCKS :: nat where "RSV_SNAP_BLOCKS \<equiv> 1"
abbreviation (input) RSV_SNAP_SLOT_BLOCKS :: nat where "RSV_SNAP_SLOT_BLOCKS \<equiv> 2"
abbreviation (input) RSV_BOOT_TARGET_MODE :: nat where "RSV_BOOT_TARGET_MODE \<equiv> 3"
abbreviation (input) RSV_BOOT_TARGET_SLOT :: nat where "RSV_BOOT_TARGET_SLOT \<equiv> 4"
abbreviation (input) RSV_BOOT_TARGET_SEQ :: nat where "RSV_BOOT_TARGET_SEQ \<equiv> 5"
abbreviation (input) RSV_LAST_SNAP_SLOT :: nat where "RSV_LAST_SNAP_SLOT \<equiv> 6"
abbreviation (input) RSV_LAST_SNAP_SEQ :: nat where "RSV_LAST_SNAP_SEQ \<equiv> 7"
abbreviation (input) RSV_JRN_START_LBA :: nat where "RSV_JRN_START_LBA \<equiv> 8"
abbreviation (input) RSV_JRN_BLOCKS :: nat where "RSV_JRN_BLOCKS \<equiv> 9"
abbreviation (input) BOOT_TARGET_RECENT :: u32 where "BOOT_TARGET_RECENT \<equiv> 0"
abbreviation (input) BOOT_TARGET_FRESH :: u32 where "BOOT_TARGET_FRESH \<equiv> 1"
abbreviation (input) BOOT_TARGET_SNAPSHOT :: u32 where "BOOT_TARGET_SNAPSHOT \<equiv> 2"
abbreviation (input) SNAPSHOT_SLOTS_DEFAULT :: u32 where "SNAPSHOT_SLOTS_DEFAULT \<equiv> 4"
abbreviation (input) APP_BASE :: u32 where "APP_BASE \<equiv> 0x08020000"

definition BOOT_ERR_NOT_FOUND :: int where "BOOT_ERR_NOT_FOUND = -100"

section \<open>The card\<close>

definition boot_estimate_fs_blocks :: "u32 \<Rightarrow> u32" where
  "boot_estimate_fs_blocks total_blocks =
     (let snap_blocks = (total_blocks div 100) * SNAP_PART_PCT + ((total_blocks mod 100) * SNAP_PART_PCT) div 100;
          journal_blocks = (total_blocks div 100) * JOURNAL_PART_PCT + ((total_blocks mod 100) * JOURNAL_PART_PCT) div 100;
          admin_blocks = u32_max ADMIN_BLOCKS_MIN (align_up_u32 (total_blocks div 4096) 32);
          jrn_blocks = u32_max ADMIN_BLOCKS_MIN (align_up_u32 journal_blocks 32);
          snap0 = (if snap_blocks < MIN_SNAP_BLOCKS then MIN_SNAP_BLOCKS else snap_blocks);
          used = admin_blocks + jrn_blocks
      in if total_blocks \<le> used + MIN_FS_BLOCKS then 0
         else
           let max_snap = total_blocks - used - MIN_FS_BLOCKS;
               snap = (if snap0 > max_snap then max_snap else snap0);
               used2 = used + snap
           in if used2 \<ge> total_blocks then 0 else total_blocks - used2)"

fun sd_init_attempts :: "u32 list \<Rightarrow> int \<Rightarrow> 'a sd_world_scheme \<Rightarrow> int \<times> 'a sd_world_scheme" where
  "sd_init_attempts [] rc w = (rc, w)"
| "sd_init_attempts (a # as) rc0 w =
     (case sd_init (if a > 0 then uart_puts (''...'' @ crlf) (uart_put_u32 a (uart_puts ''  sd: retry '' w)) else w) of (rc, w1) \<Rightarrow>
        if rc = SD_OK then (rc, w1) else sd_init_attempts as rc w1)"

definition boot_ensure_sd_ready :: "boot_status \<Rightarrow> 'a sd_world_scheme \<Rightarrow> bool \<times> boot_status \<times> 'a sd_world_scheme" where
  "boot_ensure_sd_ready st w =
     (if \<not> sd_detected w then (False, st\<lparr>st_sd_present := False, st_sd_init_ok := False, st_sd_init_err := 0\<rparr>, w)
      else case sd_init_attempts [0, 1, 2] SD_OK w of (rc, w1) \<Rightarrow>
        let st1 = st\<lparr>st_sd_present := True, st_sd_init_ok := (rc = SD_OK), st_sd_init_err := (if rc = SD_OK then 0 else rc)\<rparr>;
            st2 = (if rc = SD_OK
                   then st1\<lparr>st_capacity_blocks := g_sd_capacity w1, st_capacity_mb := g_sd_capacity w1 div 2048,
                            st_fs_free_mb_est := boot_estimate_fs_blocks (g_sd_capacity w1) div 2048\<rparr>
                   else st1)
        in (rc = SD_OK, st2, w1))"

section \<open>The table\<close>

definition words_admin :: "u32 list \<Rightarrow> boot_admin" where
  "words_admin ws =
     \<lparr> ad_magic = ws ! 0, ad_version = ws ! 1, ad_generation = ws ! 2, ad_total_blocks = ws ! 3, ad_fallback_mode = ws ! 4,
       ad_snapshot_slots = ws ! 5, ad_snapshot_interval_s = ws ! 6, ad_reserved = take 10 (drop 7 ws) \<rparr>"

definition admin_words :: "boot_admin \<Rightarrow> u32 list" where
  "admin_words a =
     [ad_magic a, ad_version a, ad_generation a, ad_total_blocks a, ad_fallback_mode a, ad_snapshot_slots a, ad_snapshot_interval_s a]
     @ ad_reserved a"

text \<open>A table of the main image ("RWDI") is read as if the loader had written it.\<close>

definition boot_admin_parse_block :: "block \<Rightarrow> boot_admin option" where
  "boot_admin_parse_block b =
     (let w = bytes_words b; adm = words_admin w in
      if ad_magic adm = ADMIN_MAGIC \<and> ad_version adm = ADMIN_VERSION then Some adm
      else if w ! 0 = RWOS_DISK_MAGIC \<and> w ! 1 = 1
      then Some \<lparr> ad_magic = ADMIN_MAGIC, ad_version = ADMIN_VERSION, ad_generation = w ! 2, ad_total_blocks = w ! 3,
                  ad_fallback_mode = 0, ad_snapshot_slots = w ! 8, ad_snapshot_interval_s = w ! 10,
                  ad_reserved = [w ! 6, w ! 7, w ! 9, w ! 13, w ! 14, w ! 15, w ! 16, w ! 17, w ! 4, w ! 5] \<rparr>
      else None)"

definition boot_admin_read_best :: "'a sd_world_scheme \<Rightarrow> boot_admin option \<times> 'a sd_world_scheme" where
  "boot_admin_read_best w =
     (case sd_read1 ADMIN_PROBE_LBA w of ((rc, b), w1) \<Rightarrow>
      let first = (case b of None \<Rightarrow> None | Some b \<Rightarrow> boot_admin_parse_block b) in
      case sd_read1 ADMIN_MIRROR_LBA w1 of ((rc, b), w2) \<Rightarrow>
      let second = (case b of None \<Rightarrow> None | Some b \<Rightarrow> boot_admin_parse_block b) in
      (case second of
         None \<Rightarrow> first
       | Some cand \<Rightarrow> (case first of
             None \<Rightarrow> Some cand
           | Some best \<Rightarrow> if ad_generation cand \<ge> ad_generation best then Some cand else Some best), w2))"

definition boot_admin_write_raw :: "boot_admin \<Rightarrow> 'a sd_world_scheme \<Rightarrow> int \<times> 'a sd_world_scheme" where
  "boot_admin_write_raw adm w =
     (let blk = words_bytes (admin_words adm @ replicate (128 - length (admin_words adm)) 0) in
      case sd_write1 ADMIN_PROBE_LBA blk w of (rc, w1) \<Rightarrow>
        if rc \<noteq> SD_OK then (rc, w1)
        else case sd_write1 ADMIN_MIRROR_LBA blk w1 of (rc, w2) \<Rightarrow> if rc \<noteq> SD_OK then (rc, w2) else (SD_OK, w2))"

definition boot_admin_update_target ::
  "u32 \<Rightarrow> u32 \<Rightarrow> u32 \<Rightarrow> boot_status \<Rightarrow> 'a sd_world_scheme \<Rightarrow> int \<times> boot_status \<times> 'a sd_world_scheme" where
  "boot_admin_update_target mode slot_idx seq st w =
     (case boot_admin_read_best w of
        (None, w1) \<Rightarrow> (SD_ERR_NO_INIT, st, w1)
      | (Some adm, w1) \<Rightarrow>
          case boot_ensure_sd_ready st w1 of (ready, st1, w2) \<Rightarrow>
          if \<not> ready then (if st_sd_init_err st1 \<noteq> 0 then st_sd_init_err st1 else SD_ERR_NO_INIT, st1, w2)
          else
            let adm1 = (if ad_generation adm \<noteq> 0xFFFFFFFF then adm\<lparr>ad_generation := ad_generation adm + 1\<rparr> else adm);
                adm2 = adm1\<lparr>ad_reserved := (ad_reserved adm1)[RSV_BOOT_TARGET_MODE := mode, RSV_BOOT_TARGET_SLOT := slot_idx,
                          RSV_BOOT_TARGET_SEQ := seq]\<rparr>
            in case boot_admin_write_raw adm2 w2 of (rc, w3) \<Rightarrow> (rc, st1, w3))"

section \<open>The status\<close>

definition mem_u32 :: "u32 \<Rightarrow> (u32 \<Rightarrow> u8) \<Rightarrow> u32" where
  "mem_u32 a m = bytes_words [m a, m (a + 1), m (a + 2), m (a + 3)] ! 0"

definition app_image_present :: "'a boot_world_scheme \<Rightarrow> bool" where
  "app_image_present w =
     (let sp = mem_u32 APP_BASE (boot_mem w);
          rv = mem_u32 (APP_BASE + 4) (boot_mem w);
          rv_addr = rv AND NOT 1
      in if sp < sram_start \<or> sp > sram_end then False
         else if rv AND 1 = 0 then False
         else if rv_addr < APP_BASE \<or> rv_addr \<ge> 0x08100000 then False
         else True)"

definition boot_status_init :: "boot_status \<Rightarrow> 'a boot_world_scheme \<Rightarrow> boot_status" where
  "boot_status_init st w =
     boot_snapshot_summary_reset (st\<lparr>st_app_present := app_image_present w, st_sd_present := False, st_sd_init_ok := False,
       st_sd_init_err := 0, st_has_mbr_signature := False, st_has_admin_magic := False, st_capacity_blocks := 0, st_capacity_mb := 0,
       st_fs_free_mb_est := 0, st_snapshot_slots := SNAPSHOT_SLOTS_DEFAULT, st_snapshot_interval_s := SNAPSHOT_INTERVAL_DEFAULT_S,
       st_snapshot_start_lba := 0, st_snapshot_blocks := 0, st_snapshot_slot_blocks := 0,
       st_boot_target_mode := BOOT_TARGET_RECENT, st_boot_target_slot := 0, st_boot_target_seq := 0\<rparr>)"

definition boot_admin_apply_defaults :: "boot_status \<Rightarrow> boot_status" where
  "boot_admin_apply_defaults st0 =
     (let st1 = (if st_snapshot_slots st0 < SNAPSHOT_SLOTS_MIN \<or> st_snapshot_slots st0 > SNAPSHOT_SLOTS_MAX
                 then st0\<lparr>st_snapshot_slots := SNAPSHOT_SLOTS_DEFAULT\<rparr> else st0);
          st2 = (if st_snapshot_interval_s st1 < SNAPSHOT_INTERVAL_MIN_S \<or> st_snapshot_interval_s st1 > SNAPSHOT_INTERVAL_MAX_S
                 then st1\<lparr>st_snapshot_interval_s := SNAPSHOT_INTERVAL_DEFAULT_S\<rparr> else st1)
      in if st_boot_target_mode st2 > BOOT_TARGET_SNAPSHOT then st2\<lparr>st_boot_target_mode := BOOT_TARGET_RECENT\<rparr> else st2)"

text \<open>The layout kept in the status: that of the table when it is valid, else a computed one.\<close>

definition probe_layout :: "boot_admin option \<Rightarrow> boot_status \<Rightarrow> boot_status" where
  "probe_layout adm st =
     (if \<not> st_sd_init_ok st then st
      else
        let table = (case adm of None \<Rightarrow> None
              | Some a \<Rightarrow>
                  if boot_snapshot_layout_valid (st_capacity_blocks st) (st_snapshot_slots st) (ad_reserved a ! RSV_SNAP_START_LBA)
                       (ad_reserved a ! RSV_SNAP_BLOCKS) (ad_reserved a ! RSV_SNAP_SLOT_BLOCKS)
                  then Some (ad_reserved a ! RSV_SNAP_START_LBA, ad_reserved a ! RSV_SNAP_BLOCKS, ad_reserved a ! RSV_SNAP_SLOT_BLOCKS)
                  else None);
            layout = (case table of Some l \<Rightarrow> Some l
              | None \<Rightarrow> (case boot_snapshot_layout_compute (st_capacity_blocks st) (st_snapshot_slots st) of
                    None \<Rightarrow> None | Some (js, jb, start, blocks, per_slot) \<Rightarrow> Some (start, blocks, per_slot)))
        in case layout of None \<Rightarrow> st
           | Some (start, blocks, per_slot) \<Rightarrow>
               st\<lparr>st_snapshot_start_lba := start, st_snapshot_blocks := blocks, st_snapshot_slot_blocks := per_slot\<rparr>)"

text \<open>The status block starts without \<open>has_admin_magic\<close>, so it is set exactly when a table was read.\<close>

definition boot_probe_storage_markers :: "boot_status \<Rightarrow> 'a sd_world_scheme \<Rightarrow> boot_status \<times> 'a sd_world_scheme" where
  "boot_probe_storage_markers st0 w =
     (case sd_read1 0 w of ((rc, b), w1) \<Rightarrow>
      let st1 = (case b of None \<Rightarrow> st0
            | Some blk \<Rightarrow> if blk ! 510 = 0x55 \<and> blk ! 511 = 0xAA then st0\<lparr>st_has_mbr_signature := True\<rparr> else st0) in
      case boot_admin_read_best w1 of (adm, w2) \<Rightarrow>
      let st2 = (case adm of None \<Rightarrow> st1
            | Some a \<Rightarrow> st1\<lparr>st_has_admin_magic := True, st_snapshot_slots := ad_snapshot_slots a,
                st_snapshot_interval_s := ad_snapshot_interval_s a, st_boot_target_mode := ad_reserved a ! RSV_BOOT_TARGET_MODE,
                st_boot_target_slot := ad_reserved a ! RSV_BOOT_TARGET_SLOT, st_boot_target_seq := ad_reserved a ! RSV_BOOT_TARGET_SEQ\<rparr>)
      in (probe_layout adm (boot_admin_apply_defaults st2), w2))"

definition boot_refresh_status :: "boot_status \<Rightarrow> 'a boot_world_scheme \<Rightarrow> boot_status \<times> 'a boot_world_scheme" where
  "boot_refresh_status st w =
     (case boot_ensure_sd_ready (boot_status_init st w) w of (ready, st1, w1) \<Rightarrow>
        if \<not> ready then (st1, w1)
        else case boot_probe_storage_markers st1 w1 of (st2, w2) \<Rightarrow> boot_snapshot_scan st2 w2)"

section \<open>Formatting and restoring\<close>

fun zero_headers :: "u32 list \<Rightarrow> u32 \<Rightarrow> u32 \<Rightarrow> 'a sd_world_scheme \<Rightarrow> int \<times> 'a sd_world_scheme" where
  "zero_headers [] start slot_blocks w = (SD_OK, w)"
| "zero_headers (s # ss) start slot_blocks w =
     (case sd_write1 (start + s * slot_blocks) (replicate 512 0) w of (rc, w1) \<Rightarrow>
        if rc \<noteq> SD_OK then (rc, w1) else zero_headers ss start slot_blocks w1)"

definition boot_write_admin_region :: "boot_status \<Rightarrow> 'a sd_world_scheme \<Rightarrow> int \<times> boot_status \<times> 'a sd_world_scheme" where
  "boot_write_admin_region st w =
     (case boot_ensure_sd_ready st w of (ready, st1, w1) \<Rightarrow>
      if \<not> ready then (if st_sd_init_err st1 \<noteq> 0 then st_sd_init_err st1 else SD_ERR_NO_INIT, st1, w1)
      else case boot_snapshot_layout_compute (st_capacity_blocks st1) (st_snapshot_slots st1) of
        None \<Rightarrow> (SD_ERR_PARAM, st1, w1)
      | Some (jstart, jblocks, start, blocks, per_slot) \<Rightarrow>
          case boot_admin_read_best w1 of (existing, w2) \<Rightarrow>
          let gen = (case existing of None \<Rightarrow> 1
                | Some e \<Rightarrow> if ad_generation e \<noteq> 0xFFFFFFFF then ad_generation e + 1 else 1);
              adm = \<lparr> ad_magic = ADMIN_MAGIC, ad_version = ADMIN_VERSION, ad_generation = gen, ad_total_blocks = st_capacity_blocks st1,
                      ad_fallback_mode = 0, ad_snapshot_slots = st_snapshot_slots st1, ad_snapshot_interval_s = st_snapshot_interval_s st1,
                      ad_reserved = [start, blocks, per_slot, BOOT_TARGET_RECENT, 0, 0, 0, 0, jstart, jblocks] \<rparr>
          in case boot_admin_write_raw adm w2 of (rc, w3) \<Rightarrow>
             if rc \<noteq> SD_OK then (rc, st1, w3)
             else case zero_headers (map of_nat [0..<min (unat (st_snapshot_slots st1)) (unat SNAPSHOT_SLOTS_MAX)]) start per_slot w3 of
               (rc, w4) \<Rightarrow> (rc, st1, w4))"

definition boot_select_restore_candidate_from_admin ::
  "boot_admin \<Rightarrow> boot_status \<Rightarrow> 'a sd_world_scheme \<Rightarrow> (int \<times> u32 \<times> u32) \<times> boot_status \<times> 'a sd_world_scheme" where
  "boot_select_restore_candidate_from_admin adm st w =
     (let mode = ad_reserved adm ! RSV_BOOT_TARGET_MODE in
      if mode = BOOT_TARGET_FRESH then ((BOOT_ERR_NOT_FOUND, 0, 0), st, w)
      else
        let slot_blocks = ad_reserved adm ! RSV_SNAP_SLOT_BLOCKS;
            snap_start = ad_reserved adm ! RSV_SNAP_START_LBA;
            req_slot = ad_reserved adm ! RSV_BOOT_TARGET_SLOT;
            req_seq = ad_reserved adm ! RSV_BOOT_TARGET_SEQ
        in case (if mode = BOOT_TARGET_SNAPSHOT \<and> req_slot < ad_snapshot_slots adm
                 then boot_snapshot_slot_is_valid (snap_start + req_slot * slot_blocks) slot_blocks req_slot w else (None, w)) of
             (found, w1) \<Rightarrow>
           if (case found of None \<Rightarrow> False | Some s \<Rightarrow> req_seq = 0 \<or> req_seq = s) then ((SD_OK, req_slot, the found), st, w1)
           else case boot_snapshot_scan st w1 of (st1, w2) \<Rightarrow>
             (case boot_snapshot_rank_to_slot st1 0 of
                None \<Rightarrow> ((BOOT_ERR_NOT_FOUND, 0, 0), st1, w2)
              | Some (slot, seq) \<Rightarrow> ((SD_OK, slot, seq), st1, w2)))"

text \<open>The result, the restored slot and its sequence number.\<close>

definition boot_restore_from_admin_target ::
  "boot_status \<Rightarrow> 'a boot_world_scheme \<Rightarrow> (int \<times> u32 \<times> u32) \<times> boot_status \<times> 'a boot_world_scheme" where
  "boot_restore_from_admin_target st w =
     (if \<not> st_has_admin_magic st then ((SD_ERR_NO_INIT, 0, 0), st, w)
      else case boot_ensure_sd_ready st w of (ready, st1, w1) \<Rightarrow>
      if \<not> ready then ((if st_sd_init_err st1 \<noteq> 0 then st_sd_init_err st1 else SD_ERR_NO_INIT, 0, 0), st1, w1)
      else case boot_admin_read_best w1 of
        (None, w2) \<Rightarrow> ((SD_ERR_NO_INIT, 0, 0), st1, w2)
      | (Some adm, w2) \<Rightarrow>
          if \<not> boot_snapshot_layout_valid (st_capacity_blocks st1) (ad_snapshot_slots adm) (ad_reserved adm ! RSV_SNAP_START_LBA)
                 (ad_reserved adm ! RSV_SNAP_BLOCKS) (ad_reserved adm ! RSV_SNAP_SLOT_BLOCKS)
          then ((SD_ERR_PARAM, 0, 0), st1, w2)
          else
            let st2 = st1\<lparr>st_snapshot_slots := ad_snapshot_slots adm, st_snapshot_start_lba := ad_reserved adm ! RSV_SNAP_START_LBA,
                         st_snapshot_blocks := ad_reserved adm ! RSV_SNAP_BLOCKS,
                         st_snapshot_slot_blocks := ad_reserved adm ! RSV_SNAP_SLOT_BLOCKS\<rparr>
            in case boot_select_restore_candidate_from_admin adm st2 w2 of ((rc, slot, seq), st3, w3) \<Rightarrow>
            if rc \<noteq> SD_OK then ((rc, 0, 0), st3, w3)
            else case boot_snapshot_restore_payload (st_snapshot_start_lba st3 + slot * st_snapshot_slot_blocks st3)
                        (st_snapshot_slot_blocks st3) slot seq w3 of (rc, w4) \<Rightarrow>
            if rc \<noteq> SD_OK then ((rc, 0, 0), st3, w4)
            else case boot_admin_read_best w4 of
              (None, w5) \<Rightarrow> ((SD_ERR_NO_INIT, 0, 0), st3, w5)
            | (Some adm2, w5) \<Rightarrow>
                let w6 = w5\<lparr>g_rewind_handoff := rewind_handoff_mark_resume slot seq (ad_reserved adm2 ! RSV_JRN_START_LBA)
                             (ad_reserved adm2 ! RSV_JRN_BLOCKS) (g_rewind_handoff w5)\<rparr>
                in if ad_reserved adm2 ! RSV_BOOT_TARGET_MODE = BOOT_TARGET_SNAPSHOT
                   then case boot_admin_update_target BOOT_TARGET_RECENT 0 0 st3 w6 of (_, st4, w7) \<Rightarrow> ((SD_OK, slot, seq), st4, w7)
                   else ((SD_OK, slot, seq), st3, w6))"

section \<open>On a card that answers\<close>

text \<open>A booting system: the card answers and is present; its contents and the memory are given.\<close>

definition boot_on :: "u32 \<Rightarrow> (u32 \<Rightarrow> block) \<Rightarrow> 'a sd_world_scheme \<Rightarrow> bool" where
  "boot_on cap c w \<longleftrightarrow> sd_env w = (\<lambda>_. IoOk) \<and> sd_detected w \<and> sd_real_capacity w = cap \<and> sd_card w = c"

lemma sd_init_on:
  "boot_on cap c w \<Longrightarrow> sd_init w = (SD_OK, w\<lparr>g_sd_initialized := True, g_sd_capacity := cap\<rparr>)"
  by (simp add: boot_on_def sd_init_def sd_next_ok)

definition ready_status :: "u32 \<Rightarrow> boot_status \<Rightarrow> boot_status" where
  "ready_status cap st = st\<lparr>st_sd_present := True, st_sd_init_ok := True, st_sd_init_err := 0, st_capacity_blocks := cap,
     st_capacity_mb := cap div 2048, st_fs_free_mb_est := boot_estimate_fs_blocks cap div 2048\<rparr>"

lemma ensure_ready_on:
  assumes "boot_on cap c w"
  shows "boot_ensure_sd_ready st w = (True, ready_status cap st, w\<lparr>g_sd_initialized := True, g_sd_capacity := cap\<rparr>)"
  using assms sd_init_on [OF assms] by (simp add: boot_ensure_sd_ready_def boot_on_def ready_status_def Let_def)

lemma boot_on_upd [simp]:
  "boot_on cap c (w\<lparr>g_sd_initialized := b\<rparr>) = boot_on cap c w" "boot_on cap c (w\<lparr>g_sd_capacity := n\<rparr>) = boot_on cap c w"
  "boot_on cap c (w\<lparr>g_sd_last_error := e\<rparr>) = boot_on cap c w"
  by (simp_all add: boot_on_def)

definition admin_best :: "(u32 \<Rightarrow> block) \<Rightarrow> boot_admin option" where
  "admin_best c =
     (case boot_admin_parse_block (c ADMIN_MIRROR_LBA) of
        None \<Rightarrow> boot_admin_parse_block (c ADMIN_PROBE_LBA)
      | Some cand \<Rightarrow> (case boot_admin_parse_block (c ADMIN_PROBE_LBA) of
            None \<Rightarrow> Some cand
          | Some best \<Rightarrow> if ad_generation cand \<ge> ad_generation best then Some cand else Some best))"

lemma admin_read_ok: "sd_ok w \<Longrightarrow> boot_admin_read_best w = (admin_best (sd_card w), w\<lparr>g_sd_last_error := SD_OK\<rparr>)"
  by (simp add: boot_admin_read_best_def sd_simps admin_best_def Let_def split: option.split)

text \<open>The loader's view of a table of the main image.\<close>

definition admin_of :: "rwos_disk \<Rightarrow> boot_admin" where
  "admin_of d =
     \<lparr> ad_magic = ADMIN_MAGIC, ad_version = ADMIN_VERSION, ad_generation = d_generation d, ad_total_blocks = d_total_blocks d,
       ad_fallback_mode = 0, ad_snapshot_slots = d_snap_slots d, ad_snapshot_interval_s = d_snap_interval_s d,
       ad_reserved = [d_snap_start_lba d, d_snap_blocks d, d_snap_slot_blocks d, d_boot_target_mode d, d_boot_target_slot d,
         d_boot_target_seq d, d_last_snap_slot d, d_last_snap_seq d, d_journal_start_lba d, d_journal_blocks d] \<rparr>"

lemma parse_disk_block: "disk_valid d \<Longrightarrow> boot_admin_parse_block (disk_block d) = Some (admin_of d)"
  by (simp add: boot_admin_parse_block_def disk_block_def disk_words_def words_admin_def admin_of_def disk_valid_def Let_def)

lemma admin_best_disk: "disk_valid d \<Longrightarrow> c 1 = disk_block d \<Longrightarrow> c 2 = disk_block d \<Longrightarrow> admin_best c = Some (admin_of d)"
  by (simp add: admin_best_def parse_disk_block)

section \<open>The boot target reaches the main image\<close>

text \<open>The file system begins right behind the snapshots, as the formatter lays it out.\<close>

definition rwfs_behind :: "rwos_disk \<Rightarrow> bool" where
  "rwfs_behind d \<longleftrightarrow> d_rwfs_start_lba d = d_snap_start_lba d + d_snap_blocks d \<and> d_total_blocks d > d_rwfs_start_lba d \<and>
     d_rwfs_blocks d = d_total_blocks d - d_rwfs_start_lba d \<and> d_reserved d = replicate 109 0"

lemma parse_admin_words:
  fixes g mode slot seq :: u32
  assumes "disk_valid d" "rwfs_behind d"
  defines "a \<equiv> admin_of d\<lparr>ad_generation := g, ad_reserved := (ad_reserved (admin_of d))[3 := mode, 4 := slot, 5 := seq]\<rparr>"
  defines "e \<equiv> d\<lparr>d_generation := g, d_boot_target_mode := mode, d_boot_target_slot := slot, d_boot_target_seq := seq\<rparr>"
  shows "rwos_disk_parse (words_bytes (admin_words a @ replicate (128 - length (admin_words a)) 0)) = Some (e\<lparr>d_checksum := rwos_disk_checksum e\<rparr>)"
proof -
  have "length (admin_words a) = 17" by (simp add: a_def admin_of_def admin_words_def)
  then show ?thesis using assms(1,2)
    by (cases d) (simp add: rwos_disk_parse_def admin_words_def a_def e_def admin_of_def words_disk_def rwfs_behind_def
        disk_valid_def Let_def rwos_disk_checksum_def disk_words_def)
qed

text \<open>C38: the loader and the main image agree on the boot target.  On a card with a good
  table whose file system lies behind the snapshots, setting a target from the boot
  menu leaves a card on which the main image reads exactly the table that its own
  \<open>rwos_disk_set_boot_target\<close> would have written: same partitions, same last snapshot.\<close>

theorem boot_target_reaches_main:
  assumes "sd_ok w" "boot_on cap c w" "disk_valid d" "rwfs_behind d" "c 1 = disk_block d" "c 2 = disk_block d"
  shows "\<exists>st' w'. boot_admin_update_target mode slot seq st w = (SD_OK, st', w') \<and> card_table (sd_card w') = Some (target_table mode slot seq d)"
proof -
  define g where "g = d_generation (bump_generation d)"
  define a where "a = admin_of d\<lparr>ad_generation := g, ad_reserved := (ad_reserved (admin_of d))[3 := mode, 4 := slot, 5 := seq]\<rparr>"
  define blk where "blk = words_bytes (admin_words a @ replicate (128 - length (admin_words a)) 0)"
  have t: "target_table mode slot seq d = (let e = d\<lparr>d_generation := g, d_boot_target_mode := mode, d_boot_target_slot := slot,
      d_boot_target_seq := seq\<rparr> in e\<lparr>d_checksum := rwos_disk_checksum e\<rparr>)"
    by (cases d) (simp add: target_table_def g_def bump_generation_def Let_def)
  have p: "rwos_disk_parse blk = Some (target_table mode slot seq d)"
    unfolding blk_def a_def t Let_def by (rule parse_admin_words [OF assms(3,4)])
  have best: "boot_admin_read_best w = (Some (admin_of d), w\<lparr>g_sd_last_error := SD_OK\<rparr>)"
    using admin_read_ok [OF assms(1)] admin_best_disk [OF assms(3), of c] assms(2,5,6) by (simp add: boot_on_def)
  have gen: "(if ad_generation (admin_of d) \<noteq> 0xFFFFFFFF then admin_of d\<lparr>ad_generation := ad_generation (admin_of d) + 1\<rparr> else admin_of d)
      = admin_of d\<lparr>ad_generation := g\<rparr>"
    by (simp add: g_def bump_generation_def admin_of_def)
  let ?w2 = "w\<lparr>g_sd_last_error := SD_OK, g_sd_initialized := True, g_sd_capacity := cap\<rparr>"
  have r: "boot_ensure_sd_ready st (w\<lparr>g_sd_last_error := SD_OK\<rparr>) = (True, ready_status cap st, ?w2)"
    using ensure_ready_on [of cap c "w\<lparr>g_sd_last_error := SD_OK\<rparr>" st] assms(2) by simp
  have env: "sd_env w = (\<lambda>_. IoOk)" using assms(1) by (simp add: sd_ok_def)
  have wr: "boot_admin_write_raw a ?w2 = (SD_OK, ?w2\<lparr>sd_card := (sd_card w)(1 := blk, 2 := blk)\<rparr>)"
    unfolding boot_admin_write_raw_def blk_def [symmetric] Let_def using env by (simp add: sd_simps sd_ok_def)
  have "boot_admin_update_target mode slot seq st w = (SD_OK, ready_status cap st, ?w2\<lparr>sd_card := (sd_card w)(1 := blk, 2 := blk)\<rparr>)"
    using wr gen by (simp add: boot_admin_update_target_def best r Let_def a_def)
  moreover have "card_table ((sd_card w)(1 := blk, 2 := blk)) = Some (target_table mode slot seq d)"
    by (simp add: card_table_def mirror_best_def p)
  ultimately show ?thesis by auto
qed

section \<open>The scan of the boot loader\<close>

lemma slot_is_valid_on:
  assumes "sd_ok w"
  shows "\<exists>w'. boot_snapshot_slot_is_valid l n i w = (slot_probe (sd_card w) l n i, w') \<and> sd_ok w' \<and> sd_card w' = sd_card w \<and>
    sd_world.more w' = sd_world.more w"
proof -
  have r: "boot_read_block_retry l w = ((SD_OK, Some (sd_card w l)), w\<lparr>g_sd_last_error := SD_OK\<rparr>)" if "sd_ok w" for l and w :: "'a sd_world_scheme"
    using that by (simp add: boot_read_block_retry_def sd_simps)
  let ?w1 = "w\<lparr>g_sd_last_error := SD_OK\<rparr>"
  have h: "(if word_at b 0 \<noteq> SNAP_HDR_MAGIC \<or> word_at b 1 \<noteq> SNAP_FMT_VERSION then x else if word_at b 3 \<noteq> i then x
      else if word_at b 4 \<noteq> l + 1 then x else if word_at b 5 \<noteq> n - 2 then x else if \<not> seal_ok SNAP_HDR_WORDS b then x else y)
      = (if hdr_ok l n i b then y else x)" for b and x y :: "u32 option \<times> 'a sd_world_scheme"
    by (simp add: hdr_ok_def)
  have p: "(if word_at b 0 \<noteq> SNAP_PAY0_MAGIC \<or> word_at b 1 \<noteq> SNAP_FMT_VERSION then x else if \<not> seal_ok SNAP_PAY0_WORDS b then x else y)
      = (if pay0_ok b then y else x)" for b and x y :: "u32 option \<times> 'a sd_world_scheme"
    by (simp add: pay0_ok_def)
  have m: "(if word_at b 0 \<noteq> SNAP_CMIT_MAGIC \<or> word_at b 1 \<noteq> SNAP_FMT_VERSION then x else if word_at b 3 \<noteq> i \<or> word_at b 2 \<noteq> q then x
      else if \<not> seal_ok SNAP_CMIT_WORDS b then x else y) = (if cmit_ok i b \<and> word_at b 2 = q then y else x)"
    for b q and x y :: "u32 option \<times> 'a sd_world_scheme"
    by (simp add: cmit_ok_def)
  have "boot_read_block_retry l ?w1 = ((SD_OK, Some (sd_card w l)), ?w1)" for l using r [of ?w1 l] assms by simp
  then have "boot_snapshot_slot_is_valid l n i w = (slot_probe (sd_card w) l n i, ?w1)"
    unfolding boot_snapshot_slot_is_valid_def sd_read1_ok [OF assms] prod.case option.case h p m
    by (simp add: slot_probe_def)
  then show ?thesis using assms by simp
qed

text \<open>Snapshots are ranked by descending sequence number; of equal ones the earlier slot comes first.\<close>

fun rank_in :: "u32 \<times> u32 \<Rightarrow> (u32 \<times> u32) list \<Rightarrow> (u32 \<times> u32) list" where
  "rank_in x [] = [x]"
| "rank_in x (y # ys) = (if fst x > fst y then x # y # ys else y # rank_in x ys)"

definition rank_key :: "u32 \<times> u32 \<Rightarrow> int" where
  "rank_key x = - uint (fst x)"

lemma rank_key_less: "rank_key x < rank_key y \<longleftrightarrow> fst x > fst y" "rank_key x \<le> rank_key y \<longleftrightarrow> fst x \<ge> fst y"
  by (simp_all add: rank_key_def word_less_def word_le_def)

lemma rank_in_commute: "rank_in x (insort_key rank_key y zs) = insort_key rank_key y (rank_in x zs)"
  by (induction zs) (auto simp: rank_key_less)

lemma rank_in_sort: "rank_in x (sort_key rank_key xs) = sort_key rank_key (xs @ [x])"
  by (induction xs) (simp_all add: rank_in_commute)

lemma foldl_rank: "foldl (\<lambda>acc x. rank_in x acc) [] xs = sort_key rank_key xs"
  by (induction xs rule: rev_induct) (simp_all add: rank_in_sort)

lemma take_rank_in: "take n (rank_in x (take n ys)) = take n (rank_in x ys)"
proof (induction ys arbitrary: n)
  case (Cons y ys)
  show ?case
  proof (cases n)
    case (Suc m)
    have "take m (y # take m ys) = take m (y # ys)" by (cases m) simp_all
    with Suc Cons show ?thesis by simp
  qed simp
qed simp

text \<open>The three entries of the summary hold the first three of a ranking.\<close>

definition summary_of :: "(u32 \<times> u32) list \<Rightarrow> boot_status \<Rightarrow> bool" where
  "summary_of xs st \<longleftrightarrow>
     st_snapshot_slot_idx st = map snd (take 3 xs) @ replicate (3 - length xs) NO_SLOT \<and>
     st_snapshot_slot_seq st = map fst (take 3 xs) @ replicate (3 - length xs) 0"

lemma shift_in_3: "shift_in 0 x [a, b, c] = [x, a, b]" "shift_in 1 x [a, b, c] = [a, x, b]" "shift_in 2 x [a, b, c] = [a, b, x]"
  by (simp_all add: shift_in_def upt_rec)

lemma take3_cases:
  obtains "take 3 xs = []" "xs = []" | a where "take 3 xs = [a]" "xs = [a]" | a b where "take 3 xs = [a, b]" "xs = [a, b]"
  | a b c ys where "take 3 xs = [a, b, c]" "xs = a # b # c # ys"
proof (cases xs)
  case (Cons a ys)
  note 1 = this
  show ?thesis
  proof (cases ys)
    case (Cons b zs)
    with 1 that show ?thesis by (cases zs) (simp_all add: numeral_3_eq_3)
  qed (use 1 that in simp)
qed (use that in simp)

lemma upt_3: "[0..<3] = [0, 1, 2 :: nat]"
  by (simp add: upt_rec)

lemma summary_insert:
  assumes "summary_of xs st" "i \<noteq> NO_SLOT" "\<forall>x \<in> set xs. snd x \<noteq> NO_SLOT"
  shows "summary_of (rank_in (seq, i) xs) (boot_snapshot_summary_insert i seq st)"
proof -
  have r: "replicate 3 (x :: u32) = [x, x, x]" "replicate 2 x = [x, x]" "replicate 1 x = [x]" for x
    by (simp_all add: numeral_3_eq_3 numeral_2_eq_2)
  show ?thesis
  proof (cases xs rule: take3_cases)
    case 1
    then show ?thesis using assms by (simp add: summary_of_def boot_snapshot_summary_insert_def upt_3 shift_in_3 r)
  next
    case (2 a)
    then show ?thesis using assms
      by (cases a) (simp add: summary_of_def boot_snapshot_summary_insert_def upt_3 shift_in_3 r del: One_nat_def)
  next
    case (3 a b)
    then show ?thesis using assms
      by (cases a; cases b) (simp add: summary_of_def boot_snapshot_summary_insert_def upt_3 shift_in_3 r del: One_nat_def)
  next
    case (4 a b c ys)
    then show ?thesis using assms
      by (cases a; cases b; cases c)
        (simp add: summary_of_def boot_snapshot_summary_insert_def upt_3 shift_in_3 r del: One_nat_def)
  qed
qed

fun ranking :: "(u32 \<Rightarrow> u32 option) \<Rightarrow> u32 list \<Rightarrow> (u32 \<times> u32) list \<Rightarrow> (u32 \<times> u32) list" where
  "ranking probe [] acc = acc"
| "ranking probe (i # is) acc = ranking probe is (case probe i of None \<Rightarrow> acc | Some s \<Rightarrow> rank_in (s, i) acc)"

text \<open>The valid slots of a card with their sequence numbers, in the order of the slots.\<close>

definition valid_slots :: "(u32 \<Rightarrow> u32 option) \<Rightarrow> u32 list \<Rightarrow> (u32 \<times> u32) list" where
  "valid_slots probe is = List.map_filter (\<lambda>i. map_option (\<lambda>s. (s, i)) (probe i)) is"

lemma ranking_sort: "ranking probe is (sort_key rank_key xs) = sort_key rank_key (xs @ valid_slots probe is)"
proof (induction "is" arbitrary: xs)
  case (Cons i "is")
  show ?case
  proof (cases "probe i")
    case (Some s)
    then show ?thesis using Cons.IH [of "xs @ [(s, i)]"] by (simp add: rank_in_sort valid_slots_def map_filter_simps)
  qed (use Cons.IH in \<open>simp add: valid_slots_def map_filter_simps\<close>)
qed (simp add: valid_slots_def map_filter_simps)

lemma ranking_best:
  "best_scan (\<lambda>s t. t < s) probe is (case acc of [] \<Rightarrow> None | x # _ \<Rightarrow> Some x) = (case ranking probe is acc of [] \<Rightarrow> None | x # _ \<Rightarrow> Some x)"
proof (induction "is" arbitrary: acc)
  case (Cons i "is")
  show ?case
  proof (cases "probe i")
    case (Some s)
    then show ?thesis using Cons.IH [of "rank_in (s, i) acc"] by (cases acc) (auto split: prod.splits)
  qed (use Cons.IH in simp)
qed (simp split: list.split)

lemma set_rank_in: "set (rank_in x xs) = insert x (set xs)"
  by (induction xs) auto

lemma length_rank_in: "length (rank_in x xs) = Suc (length xs)"
  by (induction xs) auto

lemma insert_keeps: "st_snapshot_start_lba (boot_snapshot_summary_insert i s st) = st_snapshot_start_lba st"
  "st_snapshot_slot_blocks (boot_snapshot_summary_insert i s st) = st_snapshot_slot_blocks st"
  "st_snapshot_valid_count (boot_snapshot_summary_insert i s st) = st_snapshot_valid_count st + 1"
  by (simp_all add: boot_snapshot_summary_insert_def upt_3)

lemma scan_loop_ranks:
  assumes "sd_ok w" "summary_of acc st" "\<forall>x \<in> set acc. snd x \<noteq> NO_SLOT" "NO_SLOT \<notin> set is"
  defines "probe \<equiv> \<lambda>i. slot_probe (sd_card w) (st_snapshot_start_lba st + i * st_snapshot_slot_blocks st) (st_snapshot_slot_blocks st) i"
  shows "\<exists>st' w'. boot_scan_loop is st w = (st', w') \<and> summary_of (ranking probe is acc) st' \<and>
    st_snapshot_start_lba st' = st_snapshot_start_lba st \<and> st_snapshot_slot_blocks st' = st_snapshot_slot_blocks st \<and>
    st_snapshot_valid_count st' = st_snapshot_valid_count st + of_nat (length (valid_slots probe is)) \<and>
    sd_ok w' \<and> sd_card w' = sd_card w \<and> sd_world.more w' = sd_world.more w"
  using assms(1-4) unfolding probe_def
proof (induction "is" arbitrary: acc st w)
  case (Cons i "is")
  let ?s = "st_snapshot_start_lba st" and ?n = "st_snapshot_slot_blocks st"
  obtain w1 where v: "boot_snapshot_slot_is_valid (?s + i * ?n) ?n i w = (slot_probe (sd_card w) (?s + i * ?n) ?n i, w1)"
      "sd_ok w1" "sd_card w1 = sd_card w" "sd_world.more w1 = sd_world.more w"
    using slot_is_valid_on [OF Cons.prems(1)] by blast
  show ?case
  proof (cases "slot_probe (sd_card w) (?s + i * ?n) ?n i")
    case None
    then show ?thesis using Cons.IH [OF v(2) Cons.prems(2,3)] Cons.prems(4) v
      by (simp add: valid_slots_def map_filter_simps)
  next
    case (Some q)
    have "summary_of (rank_in (q, i) acc) (boot_snapshot_summary_insert i q st)"
      by (rule summary_insert [OF Cons.prems(2) _ Cons.prems(3)]) (use Cons.prems(4) in auto)
    from Cons.IH [OF v(2) this] Cons.prems(3,4) v Some show ?thesis
      by (simp add: set_rank_in insert_keeps valid_slots_def map_filter_simps algebra_simps)
  qed
qed (simp_all add: valid_slots_def map_filter_simps)

lemma summary_empty: "summary_of [] (boot_snapshot_summary_reset st)"
  by (simp add: summary_of_def boot_snapshot_summary_reset_def)

text \<open>C37: the boot menu offers the newest snapshots.  On a card that answers, with a valid layout,
  the scan counts the valid slots, and its three entries are the first three of the
  valid slots sorted by descending sequence number, with unused entries marked.\<close>

theorem boot_scan_newest_first:
  assumes "sd_ok w" "st_has_admin_magic st" "st_sd_present st" "st_sd_init_ok st" "st_snapshot_slots st \<le> 64"
    and "boot_snapshot_layout_valid (st_capacity_blocks st) (st_snapshot_slots st) (st_snapshot_start_lba st) (st_snapshot_blocks st)
      (st_snapshot_slot_blocks st)"
  defines "valid \<equiv> valid_slots (\<lambda>i. slot_probe (sd_card w) (st_snapshot_start_lba st + i * st_snapshot_slot_blocks st) (st_snapshot_slot_blocks st) i)
      (map of_nat [0..<unat (st_snapshot_slots st)])"
  shows "let st' = fst (boot_snapshot_scan st w); newest = take 3 (sort_key (\<lambda>x. - uint (fst x)) valid) in
    st_snapshot_slot_idx st' = map snd newest @ replicate (3 - length valid) NO_SLOT \<and>
    st_snapshot_slot_seq st' = map fst newest @ replicate (3 - length valid) 0 \<and>
    st_snapshot_valid_count st' = of_nat (length valid)"
proof -
  let ?st = "boot_snapshot_summary_reset st"
  let ?is = "map of_nat [0..<unat (st_snapshot_slots st)] :: u32 list"
  have f: "st_has_admin_magic ?st = st_has_admin_magic st" "st_sd_present ?st = st_sd_present st" "st_sd_init_ok ?st = st_sd_init_ok st"
    "st_snapshot_start_lba ?st = st_snapshot_start_lba st" "st_snapshot_slot_blocks ?st = st_snapshot_slot_blocks st"
    "st_snapshot_slots ?st = st_snapshot_slots st" "st_capacity_blocks ?st = st_capacity_blocks st"
    "st_snapshot_blocks ?st = st_snapshot_blocks st" "st_snapshot_valid_count ?st = 0"
    by (simp_all add: boot_snapshot_summary_reset_def)
  have no: "NO_SLOT \<notin> set ?is"
  proof
    assume "NO_SLOT \<in> set ?is"
    then obtain k where k: "NO_SLOT = of_nat k" "k < unat (st_snapshot_slots st)" by auto
    then have "k < 64" using assms(5) by (simp add: word_le_nat_alt)
    then have "unat (of_nat k :: u32) < 64" by (simp add: unat_of_nat)
    then show False using k(1) [symmetric] by simp
  qed
  obtain st' w' where s: "boot_scan_loop ?is ?st w = (st', w')" "summary_of (sort_key rank_key valid) st'"
      "st_snapshot_valid_count st' = of_nat (length valid)"
    using scan_loop_ranks [OF assms(1) summary_empty _ no, of st] ranking_sort [of _ ?is "[]"] unfolding f valid_def by auto
  have "boot_snapshot_scan st w = (st', w')" using assms(2-4,6) s(1) by (simp add: boot_snapshot_scan_def Let_def f)
  moreover have "rank_key = (\<lambda>x. - uint (fst x))" by (rule ext) (simp add: rank_key_def)
  ultimately show ?thesis using s(2,3) by (simp add: summary_of_def Let_def)
qed

section \<open>Rewinding\<close>

lemma snap_table_same:
  "d_snap_slots (snap_table i q d) = d_snap_slots d" "d_snap_slot_blocks (snap_table i q d) = d_snap_slot_blocks d"
  "d_snap_start_lba (snap_table i q d) = d_snap_start_lba d" "d_snap_blocks (snap_table i q d) = d_snap_blocks d"
  "d_boot_target_mode (snap_table i q d) = d_boot_target_mode d" "d_journal_start_lba (snap_table i q d) = d_journal_start_lba d"
  "d_journal_blocks (snap_table i q d) = d_journal_blocks d"
  by (simp_all add: snap_table_def bump_generation_def Let_def)

text \<open>On a good card both copies of the table name the new snapshot.\<close>

lemma write_one_table:
  assumes "rwos_disk_get w = Some d" "journal_inside w" "\<not> journal_area w 1" "\<not> journal_area w 2" "sd_ok w"
    and run: "snapshot_write_one reason w = (SD_OK, w')" and n: "next_slot d (fst (snapshot_scan_latest d w)) = (i, seq)"
  shows "sd_card w' 1 = disk_block (snap_table i seq d)" "sd_card w' 2 = disk_block (snap_table i seq d)"
proof -
  obtain latest w1 where e1: "snapshot_scan_latest d w = (latest, w1)" by fastforce
  have o1: "sd_world.more w1 = sd_world.more w" "sd_ok w1"
    using only_read_latest [of d w] e1 assms(5) by (simp_all add: only_read_def)
  obtain tick ready w2 where e2: "snapshot_capture_quiesced w1 = ((tick, ready), w2)" by (metis prod.exhaust)
  note m2 = sched_more_snap [OF capture_more [of w1, unfolded e2 snd_conv]]
  have ok2: "sd_ok w2" using o1(2) m2(5,6) by (simp add: sd_ok_def)
  obtain rc3 w3 where e3: "snapshot_write_slot (slot_base d i) (d_snap_slot_blocks d) i seq reason tick ready w2 = (rc3, w3)" by fastforce
  obtain f where ok: "rc3 = SD_OK" and w': "w' = journal_note_snapshot_seq seq (upd_sx f (snd (rwos_disk_set_last_snap i seq w3)))"
    using run assms(1) e1 n e2 e3
    by (auto simp: snapshot_write_one_def slot_base_def Let_def sd_codes SCHED_ERR_DISABLED_def split: if_splits)
  have t2: "sd_torn (\<lambda>_. True) w2" by (simp add: sd_torn_def)
  have room: "\<not> required_blocks (snapshot_build_regions (ssnap_exclude w2) (esnap_exclude w2) 4) > d_snap_slot_blocks d - 2"
    using snapshot_write_slot_wrote(3) [OF t2 e3 ok] by simp
  have ok3: "sd_ok w3" using write_slot_good [OF ok2 room, of "slot_base d i" i seq reason tick ready] e3 by simp
  have k3: "kept w3 w" using snapshot_write_slot_wrote(2) [OF t2 e3] kept_trans m2(1) kept_more(1) [OF o1(1)] by blast
  have d3: "g_rwos_disk_valid w3" "g_rwos_disk w3 = d" using k3 assms(1) by (auto simp: kept_def rwos_disk_get_def split: if_splits)
  let ?w4 = "snd (rwos_disk_set_last_snap i seq w3)"
  have "sd_card ?w4 1 = disk_block (snap_table i seq d) \<and> sd_card ?w4 2 = disk_block (snap_table i seq d)"
    using ok3 by (simp add: set_last_snap_eq d3 write_both_ok sd_ok_def)
  moreover have "sd_card w' l = sd_card ?w4 l" if "\<not> journal_area w l" for l
  proof -
    have "g_journal (upd_sx f ?w4) = g_journal w" using k3 by (simp add: upd_sx_def set_last_snap_journal kept_def)
    then have "sd_card w' l = sd_card (upd_sx f ?w4) l"
      unfolding w' by (intro note_seq_outside) (use assms(2) that in \<open>simp_all add: journal_inside_def journal_area_def\<close>)
    then show ?thesis by (simp add: upd_sx_def)
  qed
  ultimately show "sd_card w' 1 = disk_block (snap_table i seq d)" "sd_card w' 2 = disk_block (snap_table i seq d)"
    using assms(3,4) by simp_all
qed

lemma boot_at_more:
  assumes "boot_at h c m w" "sd_ok w'" "sd_card w' = sd_card w" "sd_world.more w' = sd_world.more w"
  shows "boot_at h c m w'"
  using assms by (cases w; cases w') (simp add: boot_at_def)

lemma select_recent:
  assumes at: "boot_at h c m w" and st: "st_has_admin_magic st" "st_sd_present st" "st_sd_init_ok st"
    and geo: "st_snapshot_slots st = d_snap_slots d" "st_snapshot_start_lba st = d_snap_start_lba d" "st_snapshot_slot_blocks st = d_snap_slot_blocks d"
      "boot_snapshot_layout_valid (st_capacity_blocks st) (d_snap_slots d) (d_snap_start_lba d) (st_snapshot_blocks st) (d_snap_slot_blocks d)"
    and mode: "ad_reserved adm ! RSV_BOOT_TARGET_MODE = BOOT_TARGET_RECENT" and latest: "card_latest d c = Some (seq, i)"
  shows "\<exists>st' w'. boot_select_restore_candidate_from_admin adm st w = ((SD_OK, i, seq), st', w') \<and> boot_at h c m w' \<and>
    st_snapshot_start_lba st' = d_snap_start_lba d \<and> st_snapshot_slot_blocks st' = d_snap_slot_blocks d"
proof -
  let ?st = "boot_snapshot_summary_reset st"
  have f: "st_has_admin_magic ?st = st_has_admin_magic st" "st_sd_present ?st = st_sd_present st" "st_sd_init_ok ?st = st_sd_init_ok st"
    "st_snapshot_start_lba ?st = st_snapshot_start_lba st" "st_snapshot_slot_blocks ?st = st_snapshot_slot_blocks st"
    "st_snapshot_slots ?st = st_snapshot_slots st" "st_capacity_blocks ?st = st_capacity_blocks st" "st_snapshot_blocks ?st = st_snapshot_blocks st"
    by (simp_all add: boot_snapshot_summary_reset_def)
  have no: "NO_SLOT \<notin> set (slot_list d)"
  proof
    assume "NO_SLOT \<in> set (slot_list d)"
    then have "4294967295 < unat (d_snap_slots d)" by (simp add: set_slot_list word_less_nat_alt)
    moreover have "unat (d_snap_slots d) < 4294967296" by (rule unat_u32_lt)
    ultimately show False by linarith
  qed
  have ok: "sd_ok w" "sd_card w = c" using at by (simp_all add: boot_at_def)
  have probe: "(\<lambda>i. slot_probe c (d_snap_start_lba d + i * d_snap_slot_blocks d) (d_snap_slot_blocks d) i) = card_probe d c"
    by (rule ext) (simp add: card_probe_def slot_base_def)
  obtain st' w' where s: "boot_scan_loop (slot_list d) ?st w = (st', w')" "summary_of (ranking (card_probe d c) (slot_list d) []) st'"
      "st_snapshot_start_lba st' = d_snap_start_lba d" "st_snapshot_slot_blocks st' = d_snap_slot_blocks d"
      "sd_ok w'" "sd_card w' = sd_card w" "sd_world.more w' = sd_world.more w"
    using scan_loop_ranks [OF ok(1) summary_empty _ no, of st] unfolding f geo ok(2) probe by auto
  obtain xs where r: "ranking (card_probe d c) (slot_list d) [] = (seq, i) # xs"
    using ranking_best [of "card_probe d c" "slot_list d" "[]"] latest by (auto simp: card_latest_def split: list.splits)
  have "i \<noteq> NO_SLOT" using no latest_slot(1) [OF latest] by (auto simp: set_slot_list)
  moreover have "st_snapshot_slot_idx st' ! 0 = i" "st_snapshot_slot_seq st' ! 0 = seq" using s(2) by (simp_all add: r summary_of_def)
  ultimately have "boot_snapshot_rank_to_slot st' 0 = Some (i, seq)" by (simp add: boot_snapshot_rank_to_slot_def)
  moreover have "boot_snapshot_scan st w = (st', w')"
    using st geo s(1) by (simp add: boot_snapshot_scan_def Let_def f slot_list_def)
  ultimately have "boot_select_restore_candidate_from_admin adm st w = ((SD_OK, i, seq), st', w')"
    using mode by (simp add: boot_select_restore_candidate_from_admin_def Let_def)
  then show ?thesis using s(3,4) boot_at_more [OF at s(5-7)] by blast
qed


section \<open>A boot from the demonstration card\<close>

definition boot_demo :: "(u32 \<Rightarrow> block) \<Rightarrow> boot_world" where
  "boot_demo c = hand_world.extend (hand_world.truncate (disk_power_on c (\<lambda>_. IoOk) 100000)) (boot_world.fields (\<lambda>_. 0))"

definition status_demo :: boot_status where
  "status_demo = \<lparr> st_app_present = True, st_sd_present = True, st_sd_init_ok = True, st_sd_init_err = 0, st_has_mbr_signature = False,
     st_has_admin_magic = True, st_capacity_blocks = 100000, st_capacity_mb = 48, st_fs_free_mb_est = 0, st_snapshot_slots = 4,
     st_snapshot_interval_s = 60, st_snapshot_start_lba = 131, st_snapshot_blocks = 2624, st_snapshot_slot_blocks = 656,
     st_snapshot_valid_count = 0, st_snapshot_slot_idx = [0, 0, 0], st_snapshot_slot_seq = [0, 0, 0], st_boot_target_mode = 0,
     st_boot_target_slot = 0, st_boot_target_seq = 0 \<rparr>"

lemma status_has: "st_has_admin_magic status_demo"
  by (simp add: status_demo_def)

lemma boot_demo_on: "boot_on 100000 c (boot_demo c)" "sd_ok (boot_demo c)" "sd_card (boot_demo c) = c" "boot_mem (boot_demo c) = (\<lambda>_. 0)"
  by (simp_all add: boot_demo_def boot_on_def sd_ok_def hand_world.defs disk_world.defs boot_world.defs disk_power_on_def)

lemma format_demo:
  "rwfs_behind (format_table 100000)" "d_boot_target_mode (format_table 100000) = 0" "d_journal_start_lba (format_table 100000) = 3"
  "d_journal_blocks (format_table 100000) = 128"
  by (simp_all add: rwfs_behind_def format_table_def format_base_def words_disk_def)

theorem boot_target_reaches_main_witness:
  "\<exists>st' w'. boot_admin_update_target 2 1 7 status_demo (boot_demo table_card) = (SD_OK, st', w') \<and>
    card_table (sd_card w') = Some (target_table 2 1 7 (format_table 100000))"
  by (rule boot_target_reaches_main [OF boot_demo_on(2,1) format_table_valid format_demo(1)]) (simp_all add: table_card_def)

theorem boot_scan_newest_first_witness:
  "let valid = valid_slots (\<lambda>i. slot_probe table_card (131 + i * 656) 656 i) (map of_nat [0..<4]); st' = fst (boot_snapshot_scan status_demo (boot_demo table_card));
       newest = take 3 (sort_key (\<lambda>x. - uint (fst x)) valid) in
    st_snapshot_slot_idx st' = map snd newest @ replicate (3 - length valid) NO_SLOT \<and>
    st_snapshot_slot_seq st' = map fst newest @ replicate (3 - length valid) 0 \<and>
    st_snapshot_valid_count st' = of_nat (length valid)"
  using boot_scan_newest_first [OF boot_demo_on(2), of status_demo table_card]
  by (simp add: status_demo_def boot_snapshot_layout_valid_def boot_demo_on Let_def)


end
