(* ===== verification/Terminal.thy ===== *)
theory Terminal
  imports Snapshot
begin

text \<open>
  The terminal and command tasks of \<open>terminal.c\<close>, and the timer interrupt of
  \<open>systick.c\<close>.  The terminal task hands each received byte to the line editor or,
  while a program owns standard input, to that program; a submitted line goes
  into one of eight mailbox slots and an event with the slot's number to the
  command task, which executes it.  The executor \<open>term_execute\<close> is an argument
  of the command task: it receives the characters of the slot (it splits them
  in place, and the slot is released after it, so those edits are not seen).
  The two receive loops are partial functions: None is a loop that does not
  return.
\<close>

section \<open>Command mailbox\<close>

fun cmd_slot_find :: "u8 \<Rightarrow> cmd_slot list \<Rightarrow> nat list \<Rightarrow> nat option" where
  "cmd_slot_find cursor slots [] = None"
| "cmd_slot_find cursor slots (i # is) =
     (let idx = (unat cursor + i) mod CMD_MAILBOX_CAP
      in if cs_used (slots ! idx) then cmd_slot_find cursor slots is else Some idx)"

definition cmd_slot_alloc_copy :: "string \<Rightarrow> 'a term_world_scheme \<Rightarrow> int \<times> 'a term_world_scheme" where
  "cmd_slot_alloc_copy line w =
     (case cmd_slot_find (g_cmd_alloc_cursor w) (g_cmd_slots w) [0..<CMD_MAILBOX_CAP] of
        None \<Rightarrow> (-1, w)
      | Some idx \<Rightarrow>
          (int idx,
           w\<lparr>g_cmd_slots := (g_cmd_slots w)[idx :=
               \<lparr> cs_line = copy_line line (entry_len line) (cs_line (g_cmd_slots w ! idx)), cs_used = True \<rparr>],
             g_cmd_alloc_cursor := of_nat ((idx + 1) mod CMD_MAILBOX_CAP)\<rparr>))"

definition cmd_slot_release :: "u8 \<Rightarrow> 'a term_world_scheme \<Rightarrow> 'a term_world_scheme" where
  "cmd_slot_release idx w =
     (if unat idx \<ge> CMD_MAILBOX_CAP then kernel_panic ''cmd slot idx out of range'' ''terminal.c'' 1145 w
      else w\<lparr>g_cmd_slots := (g_cmd_slots w)[unat idx := (g_cmd_slots w ! unat idx)\<lparr>cs_used := False\<rparr>]\<rparr>)"

text \<open>\<open>uart_put_s32\<close> of this file, which prints to the console.\<close>

definition term_put_s32 :: "int \<Rightarrow> 'a con_world_scheme \<Rightarrow> 'a con_world_scheme" where
  "term_put_s32 v w =
     (if v < 0 then snd (console_put_u32 (word_of_int (- v)) (con_putc (CHR ''-'') w))
      else snd (console_put_u32 (word_of_int v) w))"

definition term_find_task_id :: "string \<Rightarrow> 'a term_world_scheme \<Rightarrow> u8 option" where
  "term_find_task_id selector w =
     (case parse_u32 (Some selector) of
        Some i \<Rightarrow>
          if unat i \<ge> SCHED_MAX_AO then None
          else if sc_table w ! unat i = None then None
          else Some (ucast i)
      | None \<Rightarrow>
          map_option of_nat (find (\<lambda>i.
            case sc_table w ! i of None \<Rightarrow> False
            | Some k \<Rightarrow> ao_name (g_task_aos w ! k) = Some selector) [0..<SCHED_MAX_AO]))"

section \<open>Terminal task\<close>

text \<open>The value of \<open>slen\<close> after \<open>while (slen > 0 && (s[slen-1] == ' ' || s[slen-1] == '\t')) slen--\<close>.\<close>

definition rtrim_len :: "string \<Rightarrow> nat" where
  "rtrim_len s = length (dropWhile is_blank (rev s))"

definition cmd_event :: "nat \<Rightarrow> u32 \<Rightarrow> event" where
  "cmd_event slot is_bg = \<lparr> ev_sig = CMD_SIG_EXEC, ev_src = 0, ev_arg0 = of_nat slot, ev_arg1 = is_bg, ev_tick = 0 \<rparr>"

definition term_enqueue_dispatch :: "string \<Rightarrow> 'a term_world_scheme \<Rightarrow> 'a term_world_scheme" where
  "term_enqueue_dispatch line w =
     (if \<not> g_sched w then kernel_panic ''terminal scheduler not bound'' ''terminal.c'' 2767 w
      else if c_str (dropWhile is_blank line) = [] then con_puts (ss_prompt_str (sh w)) w
      else case cmd_slot_alloc_copy line w of (slot, w1) \<Rightarrow>
        if slot < 0 then con_puts (''cmd queue full'' @ crlf) w1
        else
          let s = c_str (cs_line (g_cmd_slots w1 ! nat slot));
              slen = rtrim_len s;
              bg = (slen > 0 \<and> s ! (slen - 1) = CHR ''&'');
              w2 = (if bg
                    then let slen2 = rtrim_len (take (slen - 1) s) in
                         w1\<lparr>g_cmd_slots := (g_cmd_slots w1)[nat slot :=
                           (g_cmd_slots w1 ! nat slot)\<lparr>cs_line := (cs_line (g_cmd_slots w1 ! nat slot))[slen2 := CHR 0x00]\<rparr>]\<rparr>
                    else w1)
          in case sched_post AO_CMD (Some (cmd_event (nat slot) (if bg then 1 else 0))) w2 of (rc, w3) \<Rightarrow>
               if rc \<noteq> SCHED_OK
               then con_puts (''cmd dispatch failed'' @ crlf) (cmd_slot_release (of_int slot) w3)
               else w3)"

definition term_stale_owner :: "'a term_world_scheme \<Rightarrow> 'a term_world_scheme" where
  "term_stale_owner w =
     (let w1 = con_puts (crlf @ ''stdin owner stale; released'' @ crlf) (term_stdin_release_internal w)
      in con_puts (ss_prompt_str (sh w1)) w1)"

definition term_on_fg_shortcut_interrupt :: "'a term_world_scheme \<Rightarrow> 'a term_world_scheme" where
  "term_on_fg_shortcut_interrupt w =
     (if \<not> term_stdin_owner_valid w then term_stale_owner w
      else case term_kill_task (tc_stdin_owner (g_term_ctx w)) w of ((rc, name), w1) \<Rightarrow>
        let w2 = con_puts (''^C'' @ crlf) w1;
            w3 = (if rc = SCHED_OK
                  then con_puts crlf
                         (con_puts (case name of Some s \<Rightarrow> if s \<noteq> [] then s else ''(unnamed)'' | None \<Rightarrow> ''(unnamed)'')
                           (con_puts ''killed '' w2))
                  else con_puts crlf (term_put_s32 rc (con_puts ''interrupt: kill err='' w2)))
        in con_puts (ss_prompt_str (sh w3)) w3)"

definition raw_event :: "u8 \<Rightarrow> event" where
  "raw_event c = \<lparr> ev_sig = TERM_SIG_STDIN_RAW, ev_src = 0, ev_arg0 = ucast c, ev_arg1 = 0, ev_tick = 0 \<rparr>"

definition term_dispatch_owned_input :: "'a term_world_scheme \<Rightarrow> 'a term_world_scheme" where
  "term_dispatch_owned_input w =
     (if \<not> term_stdin_owner_valid w then term_stale_owner w
      else case uart_async_getc w of
        (None, w1) \<Rightarrow> w1
      | (Some c, w1) \<Rightarrow>
          let w2 = snd (journal_capture_input_byte c w1) in
          if tc_stdin_mode (g_term_ctx w2) = TERM_STDIN_MODE_RAW
          then if c = 0x03 then term_on_fg_shortcut_interrupt w2
               else case sched_post (tc_stdin_owner (g_term_ctx w2)) (Some (raw_event c)) w2 of (rc, w3) \<Rightarrow>
                 if rc \<noteq> SCHED_OK
                 then let w4 = (if rc = SCHED_ERR_NOT_FOUND \<or> rc = SCHED_ERR_DISABLED
                                then term_stdin_release_internal w3 else w3);
                          w5 = con_puts crlf (term_put_s32 rc (con_puts (crlf @ ''stdin dispatch err='') w4))
                      in con_puts (ss_prompt_str (sh w5)) w5
                 else w3
          else let w3 = con_puts (crlf @ ''stdin mode invalid; released'' @ crlf) (term_stdin_release_internal w2)
               in con_puts (ss_prompt_str (sh w3)) w3)"

text \<open>The body of the receive loop: one byte.\<close>

definition term_rx_one :: "'a term_world_scheme \<Rightarrow> 'a term_world_scheme" where
  "term_rx_one w =
     (if \<not> term_stdin_owner_valid w then snd (shell_tick term_enqueue_dispatch w)
      else term_dispatch_owned_input w)"

partial_function (option) terminal_replay_drain :: "'a term_world_scheme \<Rightarrow> 'a term_world_scheme option" where
  [code]: "terminal_replay_drain w =
     (if uart_rx_available w then terminal_replay_drain (term_rx_one w) else Some w)"

partial_function (option) term_rx_loop :: "'a term_world_scheme \<Rightarrow> 'a term_world_scheme option" where
  [code]: "term_rx_loop w =
     Option.bind (terminal_replay_drain w) (\<lambda>w1.
       case uart_async_rx_event_finish w1 of (again, w2) \<Rightarrow>
         if again then term_rx_loop w2
         else Some (if \<not> term_stdin_owner_valid w2 then shell_rx_idle w2 else w2))"

definition terminal_task_dispatch :: "event option \<Rightarrow> 'a term_world_scheme \<Rightarrow> 'a term_world_scheme option" where
  "terminal_task_dispatch ep w =
     (case ep of None \<Rightarrow> Some (kernel_panic ''terminal dispatch: null event'' ''terminal.c'' 2901 w)
      | Some e \<Rightarrow>
          if ev_sig e = TERM_SIG_REPRINT_PROMPT
          then Some (if \<not> term_stdin_owner_valid w
                     then let w1 = con_puts (ss_prompt_str (sh w)) w in
                          if ss_len (sh w1) > 0 then con_write (ss_line (sh w1)) (ss_len (sh w1)) w1 else w1
                     else w)
          else if ev_sig e \<noteq> TERM_SIG_UART_RX_READY then Some w
          else term_rx_loop w)"

definition terminal_task_register :: "u32 \<Rightarrow> u32 \<Rightarrow> event list \<Rightarrow> bool \<Rightarrow> 'a line_world_scheme \<Rightarrow> int \<times> 'a line_world_scheme" where
  "terminal_task_register fn cx st sched w =
     (if \<not> sched then (SCHED_ERR_PARAM, w)
      else
        let w1 = uart_async_bind_scheduler AO_TERMINAL TERM_SIG_UART_RX_READY
                   (term_stdin_release_internal (shell_state_init ''rewind> '' (w\<lparr>g_sched := True\<rparr>)))
        in case sched_register_task (Some \<lparr> ts_id = AO_TERMINAL, ts_prio = 1, ts_dispatch = fn, ts_ctx = cx,
               ts_queue_storage = Some st, ts_queue_capacity = 8, ts_rtc_budget_ticks = 1,
               ts_name = Some ''terminal'' \<rparr>) w1 of (rc, w2) \<Rightarrow>
             (rc, if rc = SCHED_OK
                  then snake_task_restore_rebind_stdin_if_needed (assembly_line_task_restore_rebind_stdin_if_needed
                         (counter_task_restore_rebind_stdin_if_needed w2))
                  else w2))"

section \<open>Command task\<close>

definition cmd_first_word :: "string \<Rightarrow> string" where
  "cmd_first_word s = take 31 (takeWhile (\<lambda>c. \<not> is_blank c) (dropWhile is_blank s))"

definition cmd_task_dispatch ::
  "(string \<Rightarrow> 'a term_world_scheme \<Rightarrow> 'a term_world_scheme) \<Rightarrow> event option \<Rightarrow> 'a term_world_scheme \<Rightarrow> 'a term_world_scheme" where
  "cmd_task_dispatch term_execute ep w =
     (case ep of None \<Rightarrow> kernel_panic ''cmd dispatch: null event'' ''terminal.c'' 2969 w
      | Some e \<Rightarrow>
          if ev_sig e \<noteq> CMD_SIG_EXEC then w
          else
            let idx = (ucast (ev_arg0 e) :: u8); is_bg = (ucast (ev_arg1 e AND 1) :: u8) in
            if unat idx \<ge> CMD_MAILBOX_CAP then kernel_panic ''cmd event idx out of range'' ''terminal.c'' 2977 w
            else if \<not> cs_used (g_cmd_slots w ! unat idx) then kernel_panic ''cmd event for free slot'' ''terminal.c'' 2980 w
            else
              let s = c_str (cs_line (g_cmd_slots w ! unat idx));
                  w1 = w\<lparr>g_cmd_bg_ctx := is_bg, g_cmd_bg_async := 0, g_cmd_fg_async := 0\<rparr>;
                  w2 = (if is_bg \<noteq> 0 then console_set_sink CONSOLE_SINK_LOG w1 else w1);
                  w3 = console_set_sink CONSOLE_SINK_UART (term_execute s w2);
                  w4 = (if is_bg \<noteq> 0 \<and> g_cmd_bg_async w3 = 0
                        then con_puts ('']'' @ crlf) (con_puts (cmd_first_word s) (con_puts ''[done: '' w3)) else w3);
                  w5 = cmd_slot_release idx (w4\<lparr>g_cmd_bg_ctx := 0\<rparr>);
                  w6 = (if g_cmd_fg_async w5 = 0 then con_puts (ss_prompt_str (sh w5)) w5 else w5)
              in w6\<lparr>g_cmd_fg_async := 0\<rparr>)"

definition cmd_task_register :: "u32 \<Rightarrow> u32 \<Rightarrow> event list \<Rightarrow> bool \<Rightarrow> 'a term_world_scheme \<Rightarrow> int \<times> 'a term_world_scheme" where
  "cmd_task_register fn cx st sched w =
     (if \<not> sched then (SCHED_ERR_PARAM, w)
      else sched_register_task (Some \<lparr> ts_id = AO_CMD, ts_prio = 0, ts_dispatch = fn, ts_ctx = cx,
             ts_queue_storage = Some st, ts_queue_capacity = 8, ts_rtc_budget_ticks = 1, ts_name = Some ''cmd'' \<rparr>)
             (w\<lparr>g_cmd_slots := map (\<lambda>s. s\<lparr>cs_used := False\<rparr>) (g_cmd_slots w), g_cmd_alloc_cursor := 0\<rparr>))"

section \<open>Timer interrupt\<close>

text \<open>\<open>terminal_task_systick_hook\<close> has no definition in \<open>terminal.c\<close>: the weak one of
  \<open>terminal_api_stub.c\<close>, which does nothing, is linked.\<close>

definition terminal_task_systick_hook :: "'a term_world_scheme \<Rightarrow> 'a term_world_scheme" where
  "terminal_task_systick_hook w = w"

definition SysTick_Handler :: "'a snap_world_scheme \<Rightarrow> 'a snap_world_scheme" where
  "SysTick_Handler w =
     snake_task_systick_hook (assembly_line_task_systick_hook (terminal_task_systick_hook
       (snapshot_task_systick_hook (counter_task_systick_hook (w\<lparr>w_tick := w_tick w + 1\<rparr>)))))"


section \<open>What leaves the receive ring alone\<close>

lemma sched_more_uart: "sched.more w' = sched.more w \<Longrightarrow> g_uart_ctx w' = g_uart_ctx w"
  by (cases w; cases w') simp

lemma world_more_uart: "world.more w' = world.more w \<Longrightarrow> g_uart_ctx w' = g_uart_ctx w"
  by (cases w; cases w') simp

lemma jrnl_more_uart: "jrnl_world.more w' = jrnl_world.more w \<Longrightarrow> g_uart_ctx w' = g_uart_ctx w"
  by (cases w; cases w') simp

lemmas uart_lower [simp] = sched_post_more [THEN sched_more_uart] sched_unregister_more [THEN sched_more_uart]
  world_more_panic [THEN world_more_uart] journal_capture_more [THEN jrnl_more_uart]

lemma uart_enqueue: "g_uart_ctx (snd (console_enqueue s n w)) = g_uart_ctx w"
  by (simp add: console_enqueue_def console_kick_def sched_post_def upd_c_def Let_def case_prod_beta split: option.split)

lemma uart_write_loop: "g_uart_ctx (snd (console_write_loop s w)) = g_uart_ctx w"
proof (induction s w rule: console_write_loop.induct)
  case (1 s w)
  show ?case
  proof (cases "s = []")
    case False
    let ?n = "if length s > 96 then 96 else length s"
    obtain rc w1 where e: "console_enqueue (Some s) (of_nat ?n) w = (rc, w1)" by fastforce
    have "g_uart_ctx w1 = g_uart_ctx w" using uart_enqueue [of "Some s" "of_nat ?n" w] e by simp
    with "1.IH" [OF False refl e [symmetric]] e False show ?thesis
      by (simp add: console_write_loop.simps [of s w] Let_def)
  qed (simp add: console_write_loop.simps)
qed

lemma uart_console [simp]:
  "g_uart_ctx (con_puts s w) = g_uart_ctx w" "g_uart_ctx (con_putc c w) = g_uart_ctx w"
  "g_uart_ctx (con_write s n w) = g_uart_ctx w" "g_uart_ctx (erase_one w) = g_uart_ctx w"
  "g_uart_ctx (snd (console_put_u32 v w)) = g_uart_ctx w" "g_uart_ctx (term_put_s32 r w) = g_uart_ctx w"
  by (simp_all add: con_puts_def con_putc_def con_write_def erase_one_def term_put_s32_def console_put_u32_def console_puts_def
      console_putc_def console_write_def uart_enqueue uart_write_loop Let_def split: option.split)

lemma uart_term [simp]:
  "g_uart_ctx (upd_t f w) = g_uart_ctx w" "g_uart_ctx (upd_sh g w) = g_uart_ctx w" "g_uart_ctx (shell_rx_idle w) = g_uart_ctx w"
  "g_uart_ctx (term_stdin_release_internal w) = g_uart_ctx w" "g_uart_ctx (cmd_slot_release i w) = g_uart_ctx w"
  "g_uart_ctx (snd (cmd_slot_alloc_copy l w)) = g_uart_ctx w"
  by (simp_all add: upd_sh_def upd_t_def shell_rx_idle_def term_stdin_release_internal_def cmd_slot_release_def
      cmd_slot_alloc_copy_def split: option.split)

lemma uart_enqueue_dispatch [simp]: "g_uart_ctx (term_enqueue_dispatch l w) = g_uart_ctx w"
  by (simp add: term_enqueue_dispatch_def sched_post_def Let_def case_prod_beta)

lemma uart_fold_putc [simp]: "g_uart_ctx (foldl (\<lambda>w _. con_putc c w) w xs) = g_uart_ctx (w :: 'a term_world_scheme)"
  by (induction xs arbitrary: w) simp_all

lemma uart_redraw [simp]: "g_uart_ctx (shell_redraw_line s n w) = g_uart_ctx w"
  by (simp add: shell_redraw_line_def Let_def)

lemma uart_key:
  assumes "\<And>l v. g_uart_ctx (dispatch l v) = g_uart_ctx v"
  shows "g_uart_ctx (snd (shell_byte dispatch c w)) = g_uart_ctx w"
proof -
  have s: "g_uart_ctx (snd (shell_submit_line dispatch v)) = g_uart_ctx v" for v
    by (simp add: shell_submit_line_def Let_def assms)
  have h: "g_uart_ctx (shell_history_up v) = g_uart_ctx v" "g_uart_ctx (shell_history_down v) = g_uart_ctx v"
    for v :: "'a term_world_scheme"
    by (simp_all add: shell_history_up_def shell_history_down_def shell_show_entry_def Let_def)
  show ?thesis by (simp add: shell_byte_def shell_key_def Let_def case_prod_beta s h)
qed

section \<open>The receive loops return\<close>

lemma rx_available_iff:
  assumes "uart_ring_ok (g_uart_ctx w)"
  shows "uart_rx_available w \<longleftrightarrow> rx_contents (g_uart_ctx w) \<noteq> []"
  using uart_rx_take_contents [OF assms]
  by (cases "rx_contents (g_uart_ctx w)") (auto simp: uart_rx_available_def uart_rx_take_def Let_def split: if_splits)

lemma getc_takes:
  assumes "uart_ring_ok (g_uart_ctx w)" "rx_contents (g_uart_ctx w) = c # cs"
  shows "\<exists>w1. uart_async_getc w = (Some c, w1) \<and> uart_ring_ok (g_uart_ctx w1) \<and> rx_contents (g_uart_ctx w1) = cs"
proof -
  have v: "uart_ctx_valid (g_uart_ctx w)" using assms(1) by (simp add: uart_ring_ok_def)
  have "(fst (uart_rx_take (g_uart_ctx w)), rx_contents (snd (uart_rx_take (g_uart_ctx w)))) = (Some c, cs)"
    using uart_rx_take_contents [OF assms(1)] assms(2) by simp
  with v assms(1) show ?thesis by (simp add: uart_async_getc_def case_prod_beta uart_ops_ok(4))
qed

lemma rx_one_takes:
  assumes "uart_ring_ok (g_uart_ctx w)" "rx_contents (g_uart_ctx w) = c # cs"
  shows "uart_ring_ok (g_uart_ctx (term_rx_one w))" "rx_contents (g_uart_ctx (term_rx_one w)) = cs"
proof -
  obtain w1 where w1: "uart_async_getc w = (Some c, w1)" "uart_ring_ok (g_uart_ctx w1)" "rx_contents (g_uart_ctx w1) = cs"
    using getc_takes [OF assms] by blast
  have "g_uart_ctx (term_rx_one w) = g_uart_ctx w1"
  proof (cases "term_stdin_owner_valid w")
    case False
    then show ?thesis by (simp add: term_rx_one_def shell_tick_def w1(1) uart_key)
  next
    case True
    have k: "g_uart_ctx (term_on_fg_shortcut_interrupt v) = g_uart_ctx v" for v :: "'a term_world_scheme"
      by (simp add: term_on_fg_shortcut_interrupt_def term_stale_owner_def term_kill_task_def Let_def case_prod_beta split: option.split)
    from True show ?thesis
      by (simp add: term_rx_one_def term_dispatch_owned_input_def w1(1) Let_def case_prod_beta sched_post_def k)
  qed
  with w1 show "uart_ring_ok (g_uart_ctx (term_rx_one w))" "rx_contents (g_uart_ctx (term_rx_one w)) = cs" by simp_all
qed

lemma drain_returns:
  assumes "uart_ring_ok (g_uart_ctx w)"
  shows "\<exists>w'. terminal_replay_drain w = Some w' \<and> uart_ring_ok (g_uart_ctx w') \<and> rx_contents (g_uart_ctx w') = []"
  using assms
proof (induction "rx_contents (g_uart_ctx w)" arbitrary: w)
  case Nil
  then show ?case by (subst terminal_replay_drain.simps) (simp add: rx_available_iff)
next
  case (Cons c cs)
  note t = rx_one_takes [OF Cons.prems Cons.hyps(2) [symmetric]]
  obtain w' where "terminal_replay_drain (term_rx_one w) = Some w'" "uart_ring_ok (g_uart_ctx w')" "rx_contents (g_uart_ctx w') = []"
    using Cons.hyps(1) [OF t(2) [symmetric] t(1)] by blast
  with Cons show ?case by (subst terminal_replay_drain.simps) (simp add: rx_available_iff flip: Cons.hyps(2))
qed


lemma uart_pending_ok [simp]:
  "uart_ring_ok (u\<lparr>uc_rx_event_pending := b\<rparr>) = uart_ring_ok u"
  "rx_contents (u\<lparr>uc_rx_event_pending := b\<rparr>) = rx_contents u"
  by (simp_all add: uart_ring_ok_def uart_ctx_valid_def rx_contents_def)

text \<open>C39: the terminal task always returns.  On a receive event, whatever bytes wait in the
  ring and whoever owns standard input, the loops of \<open>terminal_task_dispatch\<close> end,
  the ring is empty, and the pending mark is cleared, so that the next byte
  posts a new event.\<close>

theorem terminal_dispatch_returns:
  assumes "uart_ring_ok (g_uart_ctx w)" "ev_sig e = TERM_SIG_UART_RX_READY"
  shows "\<exists>w'. terminal_task_dispatch (Some e) w = Some w' \<and> rx_contents (g_uart_ctx w') = [] \<and>
    \<not> uc_rx_event_pending (g_uart_ctx w') \<and> uart_ring_ok (g_uart_ctx w')"
proof -
  obtain w1 where w1: "terminal_replay_drain w = Some w1" "uart_ring_ok (g_uart_ctx w1)" "rx_contents (g_uart_ctx w1) = []"
    using drain_returns [OF assms(1)] by blast
  define w2 where "w2 = upd_u (\<lambda>u. u\<lparr>uc_rx_event_pending := False\<rparr>) w1"
  have f: "uart_async_rx_event_finish w1 = (False, w2)"
    using rx_available_iff [OF w1(2)] w1(3) by (simp add: uart_async_rx_event_finish_def uart_rx_available_def w2_def)
  have u: "g_uart_ctx w2 = (g_uart_ctx w1)\<lparr>uc_rx_event_pending := False\<rparr>" by (simp add: w2_def upd_u_def)
  have "terminal_task_dispatch (Some e) w = Some (if \<not> term_stdin_owner_valid w2 then shell_rx_idle w2 else w2)"
    using assms(2) by (simp add: terminal_task_dispatch_def term_rx_loop.simps [of w] w1(1) f)
  moreover have "rx_contents (g_uart_ctx w2) = []" "uart_ring_ok (g_uart_ctx w2)"
    using w1(2,3) by (simp_all add: u)
  ultimately show ?thesis by (simp add: u)
qed

section \<open>The mailbox is a bounded queue of command lines\<close>

text \<open>The specification: at most eight commands wait; a blank line and a command
  that finds the queue full are dropped; commands run in the order they came.
  A trailing ampersand asks for the background.\<close>

definition blank_line :: "string \<Rightarrow> bool" where
  "blank_line l \<longleftrightarrow> list_all is_blank (c_str l)"

definition parsed :: "string \<Rightarrow> string \<times> bool" where
  "parsed l =
     (let s = c_str (take 127 l); n = rtrim_len s in
      if n > 0 \<and> s ! (n - 1) = CHR ''&'' then (take (rtrim_len (take (n - 1) s)) s, True) else (s, False))"

datatype mailbox_action = Submit string | Run_Next

fun mailbox_spec :: "mailbox_action \<Rightarrow> (string \<times> bool) list \<times> (string \<times> bool) list \<Rightarrow> (string \<times> bool) list \<times> (string \<times> bool) list" where
  "mailbox_spec (Submit l) (waiting, past) =
     (if blank_line l \<or> length waiting = 8 then (waiting, past) else (waiting @ [parsed l], past))"
| "mailbox_spec Run_Next ([], past) = ([], past)"
| "mailbox_spec Run_Next (x # waiting, past) = (waiting, past @ [x])"

text \<open>The implementation: \<open>Submit\<close> is the terminal's dispatcher; \<open>Run_Next\<close> is a turn of the
  command task, the executor noting the line and the background flag it runs with.\<close>

record mb_world = term_world +
  mb_ran :: "(string \<times> bool) list"

definition note_cmd :: "string \<Rightarrow> 'a mb_world_scheme \<Rightarrow> 'a mb_world_scheme" where
  "note_cmd l w = w\<lparr>mb_ran := mb_ran w @ [(l, g_cmd_bg_ctx w \<noteq> 0)]\<rparr>"

definition cmd_q :: "'a sched_scheme \<Rightarrow> event_queue" where
  "cmd_q w = ao_q (g_task_aos w ! 2)"

fun mailbox_step ::
  "(string \<Rightarrow> 'a mb_world_scheme \<Rightarrow> 'a mb_world_scheme) \<Rightarrow> mailbox_action \<Rightarrow> 'a mb_world_scheme \<Rightarrow> 'a mb_world_scheme" where
  "mailbox_step ex (Submit l) w = term_enqueue_dispatch l w"
| "mailbox_step ex Run_Next w =
     (case eq_pop (cmd_q w) of
        ((rc, Some e), q) \<Rightarrow> cmd_task_dispatch (\<lambda>l v. ex l (note_cmd l v)) (Some e) (set_ao 2 (\<lambda>a. a\<lparr>ao_q := q\<rparr>) w)
      | ((rc, None), q) \<Rightarrow> w)"

definition waiting_cmds :: "'a term_world_scheme \<Rightarrow> (string \<times> bool) list" where
  "waiting_cmds w = map (\<lambda>e. (c_str (cs_line (g_cmd_slots w ! unat (ev_arg0 e))), ev_arg1 e \<noteq> 0)) (eq_contents (cmd_q w))"

definition mailbox_abs :: "'a mb_world_scheme \<Rightarrow> (string \<times> bool) list \<times> (string \<times> bool) list" where
  "mailbox_abs w = (waiting_cmds w, mb_ran w)"

text \<open>The used slots are exactly those named by the queued events, each once.\<close>

definition slot_of :: "event \<Rightarrow> nat" where
  "slot_of e = unat (ev_arg0 e)"

definition mailbox_slots :: "cmd_slot list \<Rightarrow> event list \<Rightarrow> bool" where
  "mailbox_slots slots es \<longleftrightarrow> length slots = 8 \<and> list_all (\<lambda>s. length (cs_line s) = 128) slots \<and>
     list_all (\<lambda>e. ev_sig e = CMD_SIG_EXEC \<and> ev_arg1 e \<le> 1) es \<and>
     distinct (map slot_of es) \<and> set (map slot_of es) = {i. i < 8 \<and> cs_used (slots ! i)}"

definition mailbox_queue :: "'a sched_scheme \<Rightarrow> bool" where
  "mailbox_queue w \<longleftrightarrow> length (g_task_aos w) = 32 \<and> sc_table w ! 2 = Some 2 \<and> sc_table w ! 3 \<noteq> Some 2 \<and>
     ao_flags (g_task_aos w ! 2) AND AO_FLAG_ACCEPT_EVENTS \<noteq> 0 \<and> eq_inv (cmd_q w) \<and> q_cap (cmd_q w) = 8"

definition mailbox_inv :: "'a term_world_scheme \<Rightarrow> bool" where
  "mailbox_inv w \<longleftrightarrow> g_sched w \<and> mailbox_queue w \<and> mailbox_slots (g_cmd_slots w) (eq_contents (cmd_q w))"

text \<open>Calls that leave the mailbox alone.\<close>

definition mailbox_same :: "'a term_world_scheme \<Rightarrow> 'a term_world_scheme \<Rightarrow> bool" where
  "mailbox_same w' w \<longleftrightarrow> g_sched w' = g_sched w \<and> length (g_task_aos w') = length (g_task_aos w) \<and>
     sc_table w' ! 2 = sc_table w ! 2 \<and> sc_table w' ! 3 = sc_table w ! 3 \<and> g_task_aos w' ! 2 = g_task_aos w ! 2 \<and>
     g_cmd_slots w' = g_cmd_slots w"

lemma mailbox_same_inv: "mailbox_same w' w \<Longrightarrow> mailbox_inv w' = mailbox_inv w"
  by (auto simp: mailbox_same_def mailbox_inv_def mailbox_queue_def cmd_q_def)

lemma mailbox_same_waiting: "mailbox_same w' w \<Longrightarrow> waiting_cmds w' = waiting_cmds w"
  by (simp add: mailbox_same_def waiting_cmds_def cmd_q_def)

lemma mailbox_same_trans: "mailbox_same w2 w1 \<Longrightarrow> mailbox_same w1 w \<Longrightarrow> mailbox_same w2 w"
  by (simp add: mailbox_same_def)

lemma con_more_slots: "con_world.more w' = con_world.more w \<Longrightarrow> g_cmd_slots w' = g_cmd_slots w"
  by (cases w; cases w') simp

lemma mailbox_same_puts:
  assumes "sc_table w ! 3 \<noteq> Some 2"
  shows "mailbox_same (con_puts s w) w"
proof -
  have p: "post_frame 3 (con_puts s w) w" by (simp add: con_puts_def post_frame_console)
  have m: "con_world.more (con_puts s w) = con_world.more w" by (rule con_call_more)
  from p assms con_more_slots [OF m] con_more_g_sched [OF m] show ?thesis
    by (simp add: mailbox_same_def post_frame_def)
qed

lemma con_more_ran: "con_world.more w' = con_world.more w \<Longrightarrow> mb_ran w' = mb_ran w"
  by (cases w; cases w') simp

lemma ran_puts [simp]: "mb_ran (con_puts s w) = mb_ran w"
  by (rule con_more_ran) (rule con_call_more)

text \<open>With a free slot the queue has room, so the post of an allocated slot never fails.\<close>

lemma slots_count:
  assumes "mailbox_slots slots es"
  shows "length es = card {i. i < 8 \<and> cs_used (slots ! i)}"
  using assms distinct_card [of "map slot_of es"] by (simp add: mailbox_slots_def)

lemma slots_full_iff:
  assumes "mailbox_slots slots es"
  shows "length es = 8 \<longleftrightarrow> (\<forall>i<8. cs_used (slots ! i))" "length es \<le> 8"
proof -
  define U where "U = {i. i < 8 \<and> cs_used (slots ! i)}"
  have U: "U \<subseteq> {..<8}" "length es = card U" using slots_count [OF assms] by (auto simp: U_def)
  have "card U = 8 \<Longrightarrow> U = {..<8}" using card_subset_eq [OF finite_lessThan U(1)] by simp
  then have "length es = 8 \<longleftrightarrow> U = {..<8}" using U(2) by auto
  then show "length es = 8 \<longleftrightarrow> (\<forall>i<8. cs_used (slots ! i))" by (auto simp: U_def)
  show "length es \<le> 8" using card_mono [OF finite_lessThan U(1)] U(2) by simp
qed

lemma cmd_slot_find_some:
  "cmd_slot_find c slots is = Some idx \<Longrightarrow> idx < 8 \<and> \<not> cs_used (slots ! idx)"
  by (induction c slots "is" rule: cmd_slot_find.induct) (auto simp: Let_def split: if_splits)

lemma cmd_slot_find_none:
  "cmd_slot_find c slots is = None \<longleftrightarrow> (\<forall>i\<in>set is. cs_used (slots ! ((unat c + i) mod 8)))"
  by (induction c slots "is" rule: cmd_slot_find.induct) (auto simp: Let_def)

lemma slot_reached: "j < 8 \<Longrightarrow> \<exists>i<8. (c + i) mod 8 = (j :: nat)"
proof -
  assume j: "j < 8"
  define m where "m = c mod 8"
  define i where "i = (if j \<ge> m then j - m else j + 8 - m)"
  have m: "m < 8" "(c + i) mod 8 = (m + i) mod 8" by (simp_all add: m_def mod_add_left_eq)
  from j m(1) have i: "i < 8" "(m + i) mod 8 = j" by (auto simp: i_def)
  have "(c + i) mod 8 = j" using m(2) i(2) by simp
  with i(1) show ?thesis by blast
qed

lemma cmd_slot_find_full: "cmd_slot_find c slots [0..<8] = None \<longleftrightarrow> (\<forall>j<8. cs_used (slots ! j))"
proof
  assume n: "cmd_slot_find c slots [0..<8] = None"
  show "\<forall>j<8. cs_used (slots ! j)"
  proof (intro allI impI)
    fix j :: nat assume "j < 8"
    with slot_reached obtain i where "i < 8" "(unat c + i) mod 8 = j" by blast
    with n show "cs_used (slots ! j)" unfolding cmd_slot_find_none by auto
  qed
qed (simp add: cmd_slot_find_none)


section \<open>Submitting a command\<close>

lemma blank_iff: "c_str (dropWhile is_blank l) = [] \<longleftrightarrow> blank_line l"
  by (induction l) (auto simp: blank_line_def c_str_def is_blank_def)

lemma c_str_len: "length (c_str l) \<le> length l"
  by (simp add: c_str_def length_takeWhile_le)

lemma c_str_stop: "c_str (c_str l @ CHR 0x00 # r) = c_str l"
  unfolding c_str_def by (subst takeWhile_append2) (auto dest: set_takeWhileD)

lemma c_str_copy: "take (entry_len l) l = c_str (take 127 l)" "c_str (copy_line l (entry_len l) dst) = c_str (take 127 l)"
proof -
  have e: "entry_len l = length (c_str (take 127 l))" by (simp add: entry_len_def c_str_def)
  have "c_str (take 127 l) = take (entry_len l) (take 127 l)"
    unfolding e c_str_def by (rule takeWhile_eq_take)
  then show t: "take (entry_len l) l = c_str (take 127 l)"
    using entry_len_le [of l] by (simp add: min_absorb1)
  show "c_str (copy_line l (entry_len l) dst) = c_str (take 127 l)"
    by (simp add: copy_line_def t c_str_stop)
qed

lemma c_str_cut: "n \<le> length (c_str l) \<Longrightarrow> n < length l \<Longrightarrow> c_str (l[n := CHR 0x00]) = take n (c_str l)"
proof (induction l arbitrary: n)
  case (Cons x xs)
  then show ?case by (cases n) (auto simp: c_str_def split: if_splits)
qed simp

lemma rtrim_le: "rtrim_len s \<le> length s"
  unfolding rtrim_len_def using length_dropWhile_le [of is_blank "rev s"] by simp

text \<open>The slot's contents after the copy and the cut at the ampersand.\<close>

definition bg_line :: "string \<Rightarrow> bool" where
  "bg_line s \<longleftrightarrow> rtrim_len s > 0 \<and> s ! (rtrim_len s - 1) = CHR ''&''"

definition cut_line :: "string \<Rightarrow> string" where
  "cut_line l = (let s = c_str l in if bg_line s then l[rtrim_len (take (rtrim_len s - 1) s) := CHR 0x00] else l)"

lemma cut_line_parsed:
  assumes "length l = 128" "c_str l = c_str (take 127 line)"
  shows "(c_str (cut_line l), bg_line (c_str l)) = parsed line" "length (cut_line l) = 128"
proof -
  let ?n = "rtrim_len (take (rtrim_len (c_str l) - 1) (c_str l))"
  have n: "?n \<le> length (c_str l)" using rtrim_le [of "take (rtrim_len (c_str l) - 1) (c_str l)"] by simp
  have "length (c_str l) \<le> 127" using c_str_len [of "take 127 line"] assms(2) by simp
  with n assms(1) have m: "?n < length l" by simp
  show "(c_str (cut_line l), bg_line (c_str l)) = parsed line"
    unfolding parsed_def assms(2) [symmetric] using c_str_cut [OF n m] by (simp add: cut_line_def bg_line_def Let_def)
  show "length (cut_line l) = 128" using assms(1) by (simp add: cut_line_def Let_def)
qed

lemma cmd_post_room:
  assumes "mailbox_queue w" "length (eq_contents (cmd_q w)) < 8"
  shows "\<exists>w'. sched_post AO_CMD (Some e) w = (SCHED_OK, w') \<and> sched.more w' = sched.more w \<and>
    mailbox_queue w' \<and> eq_contents (cmd_q w') = eq_contents (cmd_q w) @ [e]"
proof -
  have i: "eq_inv (cmd_q w)" "q_cap (cmd_q w) = 8" "sc_table w ! 2 = Some 2" "length (g_task_aos w) = 32"
    "ao_flags (g_task_aos w ! 2) AND AO_FLAG_ACCEPT_EVENTS \<noteq> 0"
    using assms(1) by (simp_all add: mailbox_queue_def)
  have "q_count (cmd_q w) < q_cap (cmd_q w)" using assms(2) i(2) by (simp add: word_less_nat_alt)
  note p = eq_push_room [OF i(1) this, of e]
  have "sched_post AO_CMD (Some e) w =
     (SCHED_OK, (set_ao 2 (\<lambda>a. a\<lparr>ao_q := snd (eq_push_common (Some e) (cmd_q w))\<rparr>) w)\<lparr>sc_ready_bitmap := sc_ready_bitmap w OR id_bit 2\<rparr>)"
    using i p(1) by (simp add: sched_post_def sched_post_common_def Let_def case_prod_beta eq_push_def cmd_q_def)
  with p i assms(1) show ?thesis by (simp add: mailbox_queue_def cmd_q_def set_ao_def)
qed

lemma slots_submit:
  assumes "mailbox_slots slots es" "idx < 8" "\<not> cs_used (slots ! idx)" "length L = 128"
    and e: "ev_sig e = CMD_SIG_EXEC" "ev_arg1 e \<le> 1" "slot_of e = idx"
  shows "mailbox_slots (slots[idx := \<lparr> cs_line = L, cs_used = True \<rparr>]) (es @ [e])"
    "\<forall>x\<in>set es. slot_of x \<noteq> idx"
proof -
  have s: "length slots = 8" "set (map slot_of es) = {i. i < 8 \<and> cs_used (slots ! i)}"
    using assms(1) by (simp_all add: mailbox_slots_def)
  then have n: "idx \<notin> set (map slot_of es)" using assms(3) by simp
  then show "\<forall>x\<in>set es. slot_of x \<noteq> idx" by auto
  have "insert idx (set (map slot_of es)) = {i. i < 8 \<and> cs_used (slots[idx := \<lparr> cs_line = L, cs_used = True \<rparr>] ! i)}"
    unfolding s(2) using s(1) assms(2) by (auto simp: nth_list_update)
  moreover have "list_all (\<lambda>s. length (cs_line s) = 128) (slots[idx := \<lparr> cs_line = L, cs_used = True \<rparr>])"
    using assms(1,2,4) by (auto simp: mailbox_slots_def list_all_length nth_list_update)
  ultimately show "mailbox_slots (slots[idx := \<lparr> cs_line = L, cs_used = True \<rparr>]) (es @ [e])"
    using assms n by (auto simp: mailbox_slots_def)
qed

lemma submit_room:
  assumes "mailbox_inv w" "\<not> blank_line l" "length (waiting_cmds w) \<noteq> 8" and w': "w' = term_enqueue_dispatch l w"
  shows "mailbox_inv w'" "waiting_cmds w' = waiting_cmds w @ [parsed l]" "term_world.more w' = term_world.more w"
proof -
  let ?es = "eq_contents (cmd_q w)" and ?ss = "g_cmd_slots w"
  have i: "g_sched w" "mailbox_queue w" "mailbox_slots ?ss ?es" using assms(1) by (simp_all add: mailbox_inv_def)
  have len: "length ?es < 8" using slots_full_iff(2) [OF i(3)] assms(3) by (simp add: waiting_cmds_def)
  then have "cmd_slot_find (g_cmd_alloc_cursor w) ?ss [0..<8] \<noteq> None"
    using slots_full_iff(1) [OF i(3)] cmd_slot_find_full by simp
  then obtain idx where f: "cmd_slot_find (g_cmd_alloc_cursor w) ?ss [0..<8] = Some idx" by blast
  from cmd_slot_find_some [OF f] have idx: "idx < 8" "\<not> cs_used (?ss ! idx)" by simp_all
  have l8: "length ?ss = 8" "length (cs_line (?ss ! idx)) = 128"
    using i(3) idx(1) by (simp_all add: mailbox_slots_def list_all_length)
  define c where "c = copy_line l (entry_len l) (cs_line (?ss ! idx))"
  have "length (take (entry_len l) l) = entry_len l"
    using c_str_copy(1) [of l] by (simp add: entry_len_def c_str_def)
  then have c: "length c = 128" "c_str c = c_str (take 127 l)"
    using l8(2) entry_len_le [of l] c_str_copy(2) by (simp_all add: c_def copy_line_def)
  note cut = cut_line_parsed [OF c]
  define e where "e = cmd_event idx (if bg_line (c_str c) then 1 else 0)"
  define w2 where "w2 = w\<lparr>g_cmd_slots := ?ss[idx := \<lparr> cs_line = cut_line c, cs_used = True \<rparr>],
    g_cmd_alloc_cursor := of_nat ((idx + 1) mod 8)\<rparr>"
  have q2: "mailbox_queue w2" "cmd_q w2 = cmd_q w" using i(2) by (simp_all add: w2_def mailbox_queue_def cmd_q_def)
  have "length (eq_contents (cmd_q w2)) < 8" using len q2(2) by simp
  from cmd_post_room [OF q2(1) this] obtain w3 where p: "sched_post AO_CMD (Some e) w2 = (SCHED_OK, w3)"
    "sched.more w3 = sched.more w2" "mailbox_queue w3" "eq_contents (cmd_q w3) = ?es @ [e]"
    unfolding q2(2) by blast
  have bg: "(0 < rtrim_len s \<and> s ! (rtrim_len s - Suc 0) = CHR ''&'') = bg_line s" for s by (simp add: bg_line_def)
  have "term_enqueue_dispatch l w = w3"
  proof (cases "bg_line (c_str c)")
    case True
    have "w2 = w\<lparr>g_cmd_alloc_cursor := of_nat ((idx + 1) mod 8), g_cmd_slots := ?ss[idx := \<lparr> cs_line = cut_line c, cs_used = True \<rparr>]\<rparr>"
      by (cases w) (simp add: w2_def)
    with True i(1) assms(2) f l8 idx(1) p(1) show ?thesis
      by (simp add: term_enqueue_dispatch_def blank_iff cmd_slot_alloc_copy_def Let_def bg e_def c_def [symmetric] cut_line_def)
  next
    case False
    with i(1) assms(2) f l8 idx(1) p(1) show ?thesis
      by (simp add: term_enqueue_dispatch_def blank_iff cmd_slot_alloc_copy_def Let_def bg e_def c_def [symmetric] cut_line_def w2_def)
  qed
  with w' have w': "w' = w3" by simp
  have m: "g_sched w3 = g_sched w2" "g_cmd_slots w3 = g_cmd_slots w2" "term_world.more w3 = term_world.more w2"
    using p(2) by (cases w2; cases w3; simp)+
  have e: "ev_sig e = CMD_SIG_EXEC" "ev_arg1 e \<le> 1" "slot_of e = idx" "(ev_arg1 e \<noteq> 0) = bg_line (c_str c)"
    using idx(1) by (simp_all add: e_def cmd_event_def slot_of_def unat_of_nat)
  note s = slots_submit [OF i(3) idx cut(2) e(1-3)]
  show "mailbox_inv w'" using s(1) i(1) p(3,4) m by (simp add: w' mailbox_inv_def w2_def)
  show "term_world.more w' = term_world.more w" using m(3) by (simp add: w' w2_def)
  have "waiting_cmds w' = waiting_cmds w @ [(c_str (cut_line c), bg_line (c_str c))]"
    using s(2) e(3,4) l8(1) idx(1) by (auto simp: w' waiting_cmds_def p(4) m(2) w2_def slot_of_def)
  then show "waiting_cmds w' = waiting_cmds w @ [parsed l]" using cut(1) by simp
qed


lemma submit_refused:
  assumes "mailbox_inv w" "blank_line l \<or> length (waiting_cmds w) = 8" and w': "w' = term_enqueue_dispatch l w"
  shows "mailbox_inv w'" "waiting_cmds w' = waiting_cmds w" "term_world.more w' = term_world.more w"
proof -
  have i: "g_sched w" "sc_table w ! 3 \<noteq> Some 2" "mailbox_slots (g_cmd_slots w) (eq_contents (cmd_q w))"
    using assms(1) by (simp_all add: mailbox_inv_def mailbox_queue_def)
  have "blank_line l \<or> cmd_slot_find (g_cmd_alloc_cursor w) (g_cmd_slots w) [0..<8] = None"
    using assms(2) slots_full_iff(1) [OF i(3)] cmd_slot_find_full by (auto simp: waiting_cmds_def)
  then have "\<exists>s. w' = con_puts s w"
    using i(1) by (auto simp: w' term_enqueue_dispatch_def blank_iff cmd_slot_alloc_copy_def)
  then obtain s where w': "w' = con_puts s w" by blast
  note m = mailbox_same_puts [OF i(2), of s]
  show "mailbox_inv w'" "waiting_cmds w' = waiting_cmds w" "term_world.more w' = term_world.more w"
    using assms(1) mailbox_same_inv [OF m] mailbox_same_waiting [OF m] by (simp_all add: w' more_simps)
qed

section \<open>Running a command\<close>

lemma slots_release:
  assumes "mailbox_slots slots (e # es)"
  shows "mailbox_slots (slots[slot_of e := (slots ! slot_of e)\<lparr>cs_used := False\<rparr>]) es"
    "slot_of e < 8" "cs_used (slots ! slot_of e)" "\<forall>x\<in>set es. slot_of x \<noteq> slot_of e"
proof -
  have s: "length slots = 8" "insert (slot_of e) (set (map slot_of es)) = {i. i < 8 \<and> cs_used (slots ! i)}"
    "slot_of e \<notin> set (map slot_of es)"
    using assms by (simp_all add: mailbox_slots_def)
  then show n: "slot_of e < 8" "cs_used (slots ! slot_of e)" by auto
  show "\<forall>x\<in>set es. slot_of x \<noteq> slot_of e" using s(3) by (metis image_eqI list.set_map)
  have "set (map slot_of es) = {i. i < 8 \<and> cs_used (slots ! i)} - {slot_of e}"
    using s(3) unfolding s(2) [symmetric] by blast
  then have "set (map slot_of es) = {i. i < 8 \<and> cs_used (slots[slot_of e := (slots ! slot_of e)\<lparr>cs_used := False\<rparr>] ! i)}"
    using s(1) n(1) by (auto simp: nth_list_update)
  moreover have "list_all (\<lambda>s. length (cs_line s) = 128) (slots[slot_of e := (slots ! slot_of e)\<lparr>cs_used := False\<rparr>])"
    using assms n(1) by (auto simp: mailbox_slots_def list_all_length nth_list_update)
  ultimately show "mailbox_slots (slots[slot_of e := (slots ! slot_of e)\<lparr>cs_used := False\<rparr>]) es"
    using assms by (auto simp: mailbox_slots_def)
qed

text \<open>An executor that leaves the mailbox, and the notes, alone.\<close>

definition leaves_mailbox :: "(string \<Rightarrow> 'a mb_world_scheme \<Rightarrow> 'a mb_world_scheme) \<Rightarrow> bool" where
  "leaves_mailbox ex \<longleftrightarrow> (\<forall>l w. mailbox_queue w \<longrightarrow> mailbox_same (ex l w) w \<and> mb_ran (ex l w) = mb_ran w)"

lemma run_dispatch:
  assumes "leaves_mailbox ex" "mailbox_queue w" "mailbox_slots (g_cmd_slots w) (e # es)" "eq_contents (cmd_q w) = es" "g_sched w"
    and w': "w' = cmd_task_dispatch (\<lambda>l v. ex l (note_cmd l v)) (Some e) w"
  shows "mailbox_inv w'" "waiting_cmds w' = map (\<lambda>e. (c_str (cs_line (g_cmd_slots w ! slot_of e)), ev_arg1 e \<noteq> 0)) es"
    "mb_ran w' = mb_ran w @ [(c_str (cs_line (g_cmd_slots w ! slot_of e)), ev_arg1 e \<noteq> 0)]"
proof -
  note r = slots_release [OF assms(3)]
  define idx where "idx = (ucast (ev_arg0 e) :: u8)"
  define bg where "bg = (ucast (ev_arg1 e AND 1) :: u8)"
  have e: "ev_sig e = CMD_SIG_EXEC" "ev_arg1 e \<le> 1" using assms(3) by (simp_all add: mailbox_slots_def)
  have "unat (ev_arg0 e) < 8" using r(2) by (simp add: slot_of_def)
  then have idx: "unat idx = slot_of e" by (simp add: idx_def slot_of_def unat_ucast_u32_u8)
  have "ev_arg1 e = 0 \<or> ev_arg1 e = 1" using e(2) by (auto simp: word_le_nat_alt word_unat_eq_iff)
  then have bg: "(bg \<noteq> 0) = (ev_arg1 e \<noteq> 0)" by (auto simp: bg_def)
  define s where "s = c_str (cs_line (g_cmd_slots w ! slot_of e))"
  define w1 where "w1 = w\<lparr>g_cmd_bg_ctx := bg, g_cmd_bg_async := 0, g_cmd_fg_async := 0\<rparr>"
  define w2 where "w2 = (if bg \<noteq> 0 then console_set_sink CONSOLE_SINK_LOG w1 else w1)"
  define w3 where "w3 = console_set_sink CONSOLE_SINK_UART (ex s (note_cmd s w2))"
  define w4 where "w4 = (if bg \<noteq> 0 \<and> g_cmd_bg_async w3 = 0
    then con_puts ('']'' @ crlf) (con_puts (cmd_first_word s) (con_puts ''[done: '' w3)) else w3)"
  define w5 where "w5 = cmd_slot_release idx (w4\<lparr>g_cmd_bg_ctx := 0\<rparr>)"
  have d: "w' = (if g_cmd_fg_async w5 = 0 then con_puts (ss_prompt_str (sh w5)) w5 else w5)\<lparr>g_cmd_fg_async := 0\<rparr>"
    using e(1) r(2,3) unfolding w' cmd_task_dispatch_def w5_def w4_def w3_def w2_def w1_def
    by (simp add: Let_def idx_def [symmetric] idx bg_def [symmetric] s_def [symmetric] split del: if_split)
  have t3: "sc_table w ! 3 \<noteq> Some 2" using assms(2) by (simp add: mailbox_queue_def)
  have s2: "mailbox_same (note_cmd s w2) w" by (simp add: w2_def w1_def note_cmd_def console_set_sink_def mailbox_same_def)
  have "mailbox_queue (note_cmd s w2)"
    using assms(2) by (simp add: w2_def w1_def note_cmd_def console_set_sink_def mailbox_queue_def cmd_q_def)
  with assms(1) have ex: "mailbox_same (ex s (note_cmd s w2)) (note_cmd s w2)" "mb_ran (ex s (note_cmd s w2)) = mb_ran (note_cmd s w2)"
    unfolding leaves_mailbox_def by blast+
  have s3: "mailbox_same w3 w" using s2 ex(1) by (simp add: w3_def console_set_sink_def mailbox_same_def)
  have puts: "mailbox_same (con_puts x v) w" if "mailbox_same v w" for x and v :: "'a mb_world_scheme"
    using mailbox_same_puts [of v x] that t3 by (simp add: mailbox_same_def)
  have s4: "mailbox_same w4 w" using s3 puts by (simp add: w4_def)
  have ran: "mb_ran w4 = mb_ran w @ [(s, ev_arg1 e \<noteq> 0)]"
  proof -
    have "mb_ran w4 = mb_ran (ex s (note_cmd s w2))" by (simp add: w4_def w3_def console_set_sink_def)
    also have "\<dots> = mb_ran w @ [(s, bg \<noteq> 0)]" unfolding ex(2) by (simp add: w2_def w1_def note_cmd_def console_set_sink_def)
    finally show ?thesis using bg by simp
  qed
  have w5: "w5 = w4\<lparr>g_cmd_bg_ctx := 0, g_cmd_slots := (g_cmd_slots w)[slot_of e := (g_cmd_slots w ! slot_of e)\<lparr>cs_used := False\<rparr>]\<rparr>"
    using idx r(2) s4 by (simp add: w5_def cmd_slot_release_def mailbox_same_def)
  have i5: "mailbox_inv w5" "sc_table w5 ! 3 \<noteq> Some 2" "cmd_q w5 = cmd_q w"
    using s4 r(1) assms(2,4,5) t3 by (auto simp: w5 mailbox_inv_def mailbox_same_def mailbox_queue_def cmd_q_def)
  have "mailbox_same w' w5" using mailbox_same_puts [OF i5(2)] by (simp add: d mailbox_same_def)
  note same = mailbox_same_inv [OF this] mailbox_same_waiting [OF this]
  show "mailbox_inv w'" using i5(1) same(1) by simp
  have "waiting_cmds w5 = map (\<lambda>e. (c_str (cs_line (g_cmd_slots w ! slot_of e)), ev_arg1 e \<noteq> 0)) es"
    using r(4) by (simp add: waiting_cmds_def i5(3) assms(4)) (auto simp: w5 slot_of_def)
  then show "waiting_cmds w' = map (\<lambda>e. (c_str (cs_line (g_cmd_slots w ! slot_of e)), ev_arg1 e \<noteq> 0)) es" using same(2) by simp
  show "mb_ran w' = mb_ran w @ [(c_str (cs_line (g_cmd_slots w ! slot_of e)), ev_arg1 e \<noteq> 0)]"
    using ran by (simp add: d w5 s_def)
qed

lemma mailbox_step_spec:
  assumes "leaves_mailbox ex" "mailbox_inv w"
  shows "mailbox_inv (mailbox_step ex a w)" "mailbox_abs (mailbox_step ex a w) = mailbox_spec a (mailbox_abs w)"
proof -
  have m: "term_world.more w' = term_world.more w \<Longrightarrow> mb_ran w' = mb_ran w" for w' by (cases w; cases w') simp
  have "mailbox_inv (mailbox_step ex a w) \<and> mailbox_abs (mailbox_step ex a w) = mailbox_spec a (mailbox_abs w)"
  proof (cases a)
    case (Submit l)
    show ?thesis
    proof (cases "blank_line l \<or> length (waiting_cmds w) = 8")
      case True
      note r = submit_refused [OF assms(2) True refl]
      from r m [OF r(3)] True Submit show ?thesis by (simp add: mailbox_abs_def)
    next
      case False
      then have "\<not> blank_line l" "length (waiting_cmds w) \<noteq> 8" by simp_all
      note r = submit_room [OF assms(2) this refl]
      from r m [OF r(3)] False Submit show ?thesis by (simp add: mailbox_abs_def)
    qed
  next
    case Run_Next
    have i: "g_sched w" "mailbox_queue w" "mailbox_slots (g_cmd_slots w) (eq_contents (cmd_q w))" "eq_inv (cmd_q w)"
      using assms(2) by (simp_all add: mailbox_inv_def mailbox_queue_def)
    show ?thesis
    proof (cases "q_count (cmd_q w) = 0")
      case True
      then have "waiting_cmds w = []" using eq_contents_empty [of "cmd_q w"] by (simp add: waiting_cmds_def)
      with eq_pop_empty [OF i(4) True] Run_Next assms(2) show ?thesis by (simp add: mailbox_abs_def)
    next
      case False
      from eq_pop_some [OF i(4) False] obtain e q where q: "eq_pop (cmd_q w) = ((EQ_OK, Some e), q)"
        "eq_contents (cmd_q w) = e # eq_contents q" "eq_inv q" by blast
      define v where "v = set_ao 2 (\<lambda>a. a\<lparr>ao_q := q\<rparr>) w"
      have cap: "q_cap q = 8" using eq_cap_pop [of "cmd_q w"] q(1) i(2) by (simp add: mailbox_queue_def)
      have v: "mailbox_queue v" "g_cmd_slots v = g_cmd_slots w" "eq_contents (cmd_q v) = eq_contents q" "g_sched v" "mb_ran v = mb_ran w"
        using i(1,2) q(3) cap by (simp_all add: v_def mailbox_queue_def cmd_q_def set_ao_def)
      have "mailbox_slots (g_cmd_slots v) (e # eq_contents q)" using i(3) q(2) v(2) by simp
      from run_dispatch [OF assms(1) v(1) this v(3,4) refl] q(1,2) v Run_Next show ?thesis
        by (simp add: mailbox_abs_def waiting_cmds_def [of w] v_def [symmetric] slot_of_def)
    qed
  qed
  then show "mailbox_inv (mailbox_step ex a w)" "mailbox_abs (mailbox_step ex a w) = mailbox_spec a (mailbox_abs w)" by simp_all
qed



section \<open>Witnesses\<close>

definition mb_demo :: mb_world where
  "mb_demo = snd (cmd_task_register 1 1 (replicate 8 (sig_event 0)) True
     ((term_world.extend term_power_on (mb_world.fields []))\<lparr>g_task_aos := replicate 32 ex_ao, sc_table := replicate 32 None\<rparr>))"

lemma echo_leaves_mailbox: "leaves_mailbox con_puts"
  by (simp add: leaves_mailbox_def mailbox_queue_def mailbox_same_puts)

lemma mb_demo_fields:
  "g_sched mb_demo" "sc_table mb_demo = (replicate 32 None)[2 := Some 2]" "mb_ran mb_demo = []"
  "g_cmd_slots mb_demo = replicate 8 \<lparr> cs_line = replicate 128 (CHR 0x00), cs_used = False \<rparr>"
  "length (g_task_aos mb_demo) = 32" "cmd_q mb_demo = eq_init (Some (replicate 8 (sig_event 0))) 8"
  "ao_flags (g_task_aos mb_demo ! 2) = 1"
  by (simp_all add: mb_demo_def cmd_task_register_def sched_register_task_def sched_register_def set_ao_def Let_def cmd_q_def
      eq_init_def AO_FLAG_ACCEPT_EVENTS_def term_power_on_def mb_world.defs term_world.defs res_world.defs)

lemma mb_demo_inv: "mailbox_inv mb_demo" "mailbox_abs mb_demo = ([], [])"
proof -
  have "eq_inv (cmd_q mb_demo)" "eq_contents (cmd_q mb_demo) = []" "q_cap (cmd_q mb_demo) = 8"
    using eq_inv_init [of 8 "replicate 8 (sig_event 0)"] by (simp_all add: mb_demo_fields) (simp add: eq_init_def)
  then show "mailbox_inv mb_demo" "mailbox_abs mb_demo = ([], [])"
    by (auto simp: mailbox_inv_def mailbox_queue_def mailbox_slots_def mailbox_abs_def waiting_cmds_def mb_demo_fields
        AO_FLAG_ACCEPT_EVENTS_def list_all_length)
qed



text \<open>Two bytes wait in a receive ring of four.\<close>

definition rx_demo :: term_world where
  "rx_demo = term_power_on\<lparr>g_uart_ctx := \<lparr> uc_tx_buf = Some [0, 0], uc_tx_head = 0, uc_tx_tail = 0, uc_tx_size = 2,
     uc_tx_status = DRV_IDLE, uc_rx_buf = Some [0x70, 0x0D, 0, 0], uc_rx_head = 2, uc_rx_tail = 0, uc_rx_size = 4,
     uc_rx_status = DRV_IN_PROGRESS, uc_rx_event_pending = True, uc_rx_event_post_fail = 0, uc_rx_overrun_count = 0 \<rparr>\<rparr>"

theorem terminal_dispatch_returns_witness:
  "rx_contents (g_uart_ctx rx_demo) = [0x70, 0x0D] \<and>
   (\<exists>w'. terminal_task_dispatch (Some (sig_event 1)) rx_demo = Some w' \<and> rx_contents (g_uart_ctx w') = [] \<and>
     \<not> uc_rx_event_pending (g_uart_ctx w') \<and> uart_ring_ok (g_uart_ctx w'))"
proof
  show "rx_contents (g_uart_ctx rx_demo) = [0x70, 0x0D]"
    by (simp add: rx_demo_def rx_contents_def gap_list_def gap_count_def ring_list_def upt_rec)
  have "uart_ring_ok (g_uart_ctx rx_demo)" by (simp add: rx_demo_def uart_ring_ok_def uart_ctx_valid_def)
  then show "\<exists>w'. terminal_task_dispatch (Some (sig_event 1)) rx_demo = Some w' \<and> rx_contents (g_uart_ctx w') = [] \<and>
     \<not> uc_rx_event_pending (g_uart_ctx w') \<and> uart_ring_ok (g_uart_ctx w')"
    by (rule terminal_dispatch_returns) (simp add: sig_event_def)
qed

end
