(* ===== verification/Print.thy ===== *)
theory Print
  imports Terminal
begin

text \<open>
  Runs of print calls: the commands and the SD task print a report as a sequence
  of calls, here a list of items.  To the console each item is one call of
  \<open>console_task.c\<close>, to the log one of \<open>log.c\<close>; the text of an item is what the call prints.
\<close>

datatype item = Str string | Chr char | U32 u32 | S32 int | Hex8 u8 | Hex32 u32

fun con_item :: "item \<Rightarrow> 'a con_world_scheme \<Rightarrow> 'a con_world_scheme" where
  "con_item (Str s) w = con_puts s w"
| "con_item (Chr c) w = con_putc c w"
| "con_item (U32 v) w = snd (console_put_u32 v w)"
| "con_item (S32 v) w = term_put_s32 v w"
| "con_item (Hex8 v) w = snd (console_put_hex8 v w)"
| "con_item (Hex32 v) w = snd (console_put_hex32 v w)"

definition con_print :: "item list \<Rightarrow> 'a con_world_scheme \<Rightarrow> 'a con_world_scheme" where
  "con_print is w = foldl (\<lambda>w i. con_item i w) w is"

text \<open>The same calls of the log; a negative number is its sign and \<open>(uint32_t)(-v)\<close>.\<close>

fun log_item :: "item \<Rightarrow> log_ring \<Rightarrow> log_ring" where
  "log_item (Str s) l = snd (log_puts (Some s) l)"
| "log_item (Chr c) l = snd (log_putc c l)"
| "log_item (U32 v) l = snd (log_put_u32 v l)"
| "log_item (S32 v) l =
     (if v < 0 then snd (log_put_u32 (word_of_int (- v)) (snd (log_putc (CHR ''-'') l)))
      else snd (log_put_u32 (word_of_int v) l))"
| "log_item (Hex8 v) l = snd (log_put_hex8 v l)"
| "log_item (Hex32 v) l = snd (log_put_hex32 v l)"

definition log_print :: "item list \<Rightarrow> 'a world_scheme \<Rightarrow> 'a world_scheme" where
  "log_print is w = w\<lparr>w_log := foldl (\<lambda>l i. log_item i l) (w_log w) is\<rparr>"

section \<open>The text of a report\<close>

fun item_text :: "item \<Rightarrow> string" where
  "item_text (Str s) = s"
| "item_text (Chr c) = [c]"
| "item_text (U32 v) = dec (unat v)"
| "item_text (S32 v) = (if v < 0 then CHR ''-'' # dec (unat (word_of_int (- v) :: u32)) else dec (unat (word_of_int v :: u32)))"
| "item_text (Hex8 v) = [hx ! unat (drop_bit 4 v AND 0xF), hx ! unat (v AND 0xF)]"
| "item_text (Hex32 v) = map (\<lambda>i. hx ! unat (drop_bit ((7 - i) * 4) v AND 0xF)) [0..<8]"

definition items_text :: "item list \<Rightarrow> string" where
  "items_text is = concat (map item_text is)"

text \<open>A string literal or a line of a dump is shorter than the 16-bit lengths of \<open>log.c\<close>.\<close>

fun item_ok :: "item \<Rightarrow> bool" where
  "item_ok (Str s) \<longleftrightarrow> length s < 65536"
| "item_ok _ \<longleftrightarrow> True"

lemma log_item_spec:
  assumes "log_inv l" "item_ok i"
  shows "log_inv (log_item i l) \<and> log_contents (log_item i l) = lastn 512 (log_contents l @ item_text i)"
proof (cases i)
  case (S32 v)
  note m = log_putc_spec [OF assms(1), of "CHR ''-''"]
  show ?thesis using log_put_u32_spec [OF assms(1)] log_put_u32_spec [OF m(1)] m(2)
    by (simp add: S32 lastn_lastn_append)
qed (use assms log_puts_spec [OF assms(1)] log_putc_spec [OF assms(1)] log_put_u32_spec [OF assms(1)] in
    \<open>simp_all add: log_put_hex8_def log_put_hex32_def log_write_spec\<close>)

lemma log_items_spec:
  assumes "log_inv l" "list_all item_ok is"
  shows "log_inv (foldl (\<lambda>l i. log_item i l) l is) \<and>
    log_contents (foldl (\<lambda>l i. log_item i l) l is) = lastn 512 (log_contents l @ items_text is)"
  using assms
proof (induction "is" arbitrary: l)
  case Nil
  then show ?case using log_put_u32_spec [of l 0] by (simp add: items_text_def log_contents_def log_inv_def)
next
  case (Cons i r)
  have s: "log_inv (log_item i l)" "log_contents (log_item i l) = lastn 512 (log_contents l @ item_text i)"
    using log_item_spec [of l i] Cons.prems by simp_all
  show ?case using Cons.IH [OF s(1)] Cons.prems(2) by (simp add: s(2) items_text_def lastn_lastn_append)
qed

lemma log_print_spec:
  assumes "log_inv (w_log w)" "list_all item_ok is"
  shows "log_inv (w_log (log_print is w))"
    "log_contents (w_log (log_print is w)) = lastn 512 (log_contents (w_log w) @ items_text is)"
  using log_items_spec [OF assms] by (simp_all add: log_print_def)

lemma con_print_more [more_simps]: "con_world.more (con_print is w) = con_world.more w"
proof -
  have i: "con_world.more (con_item i w) = con_world.more w" for i and w :: "'a con_world_scheme"
    by (cases i) (simp_all add: more_simps term_put_s32_def console_put_hex8_def console_put_hex32_def)
  show ?thesis unfolding con_print_def by (induction "is" arbitrary: w) (simp_all add: i)
qed

end
