(* ===== verification/Snap_List.thy ===== *)
theory Snap_List
  imports Print Snapshot_Ring
begin

text \<open>
  What the commands \<open>snapstat\<close> and \<open>snapls\<close> show of the snapshot task
  (\<open>snapshot_task_get_stats\<close>, \<open>snapshot_task_list_slots\<close>): a copy of the counters, and
  the slots on the card, one bounded line of text each.
\<close>

record snapshot_task_stats =
  sg_enabled :: u8
  sg_busy :: u8
  sg_restore_mode :: u8
  sg_restore_has_candidate :: u8
  sg_interval_s :: u32
  sg_next_tick :: u32
  sg_saves_ok :: u32
  sg_saves_err :: u32
  sg_last_err :: int
  sg_last_slot :: u32
  sg_last_seq :: u32
  sg_last_capture_tick :: u32
  sg_last_ready_bitmap :: u32
  sg_restore_slot :: u32
  sg_restore_seq :: u32

definition snapshot_task_get_stats :: "'a snap_world_scheme \<Rightarrow> snapshot_task_stats" where
  "snapshot_task_get_stats w = (let x = g_snapshot_ctx w in
     \<lparr> sg_enabled = sx_enabled x, sg_busy = sx_busy x, sg_restore_mode = sx_restore_mode x,
       sg_restore_has_candidate = sx_restore_has_candidate x, sg_interval_s = sx_interval_ticks x div 1000,
       sg_next_tick = sx_next_tick x, sg_saves_ok = sx_saves_ok x, sg_saves_err = sx_saves_err x, sg_last_err = sx_last_err x,
       sg_last_slot = sx_last_slot x, sg_last_seq = sx_last_seq x, sg_last_capture_tick = sx_last_capture_tick x,
       sg_last_ready_bitmap = sx_last_ready_bitmap x, sg_restore_slot = sx_restore_slot x, sg_restore_seq = sx_restore_seq x \<rparr>)"

section \<open>Lines\<close>

text \<open>The buffer of 128 bytes up to \<open>off\<close>; both appenders stop one byte before its end.\<close>

abbreviation (input) LINE_CAP :: nat where "LINE_CAP \<equiv> 128"

definition snapshot_line_append_lit :: "string \<Rightarrow> string \<Rightarrow> string" where
  "snapshot_line_append_lit s buf = buf @ take (LINE_CAP - 1 - length buf) s"

definition snapshot_line_append_u32 :: "u32 \<Rightarrow> string \<Rightarrow> string" where
  "snapshot_line_append_u32 v buf =
     (if v = 0 then snapshot_line_append_lit ''0'' buf else buf @ take (LINE_CAP - 1 - length buf) (rev (u32_digits 10 v)))"

definition snapshot_line_emit :: "bool \<Rightarrow> string \<Rightarrow> 'a con_world_scheme \<Rightarrow> 'a con_world_scheme" where
  "snapshot_line_emit bg buf w = snapshot_out_puts bg (take (LINE_CAP - 1) buf) w"

text \<open>A line as the code builds it: the literals and numbers in turn.\<close>

fun snap_line :: "item list \<Rightarrow> string \<Rightarrow> string" where
  "snap_line (Str s # is) buf = snap_line is (snapshot_line_append_lit s buf)"
| "snap_line (U32 v # is) buf = snap_line is (snapshot_line_append_u32 v buf)"
| "snap_line _ buf = buf"

section \<open>The list\<close>

text \<open>The first loop: which slots are valid, with their sequence numbers, and the latest.\<close>

fun snapls_scan ::
  "u32 list \<Rightarrow> rwos_disk \<Rightarrow> u32 option list \<times> (u32 \<times> u32) option \<Rightarrow> 'a sd_world_scheme \<Rightarrow>
   (u32 option list \<times> (u32 \<times> u32) option) \<times> 'a sd_world_scheme" where
  "snapls_scan [] d acc w = (acc, w)"
| "snapls_scan (i # is) d (valid, latest) w =
     (case snapshot_slot_valid (d_snap_start_lba d + i * d_snap_slot_blocks d) (d_snap_slot_blocks d) i w of
        (None, w1) \<Rightarrow> snapls_scan is d (valid, latest) w1
      | (Some seq, w1) \<Rightarrow>
          snapls_scan is d
            (valid[unat i := Some seq],
             if (case latest of None \<Rightarrow> True | Some (s, _) \<Rightarrow> seq > s) then Some (seq, i) else latest) w1)"

definition snapls_target_line :: "rwos_disk \<Rightarrow> item list" where
  "snapls_target_line d =
     [Str ''snapls: target='',
      Str (if d_boot_target_mode d = 1 then ''fresh'' else if d_boot_target_mode d = 2 then ''snapshot'' else ''recent''),
      Str '' slot='', U32 (d_boot_target_slot d), Str '' seq='', U32 (d_boot_target_seq d), Str crlf]"

definition snapls_latest_line :: "(u32 \<times> u32) option \<Rightarrow> item list" where
  "snapls_latest_line latest =
     (case latest of None \<Rightarrow> [Str (''snapls: latest none'' @ crlf)]
      | Some (seq, slot) \<Rightarrow> [Str ''snapls: latest slot='', U32 slot, Str '' seq='', U32 seq, Str crlf])"

definition snapls_slot_line :: "rwos_disk \<Rightarrow> u32 option list \<Rightarrow> u32 \<Rightarrow> item list" where
  "snapls_slot_line d valid i =
     [Str ''  slot '', U32 i, Str '' lba='', U32 (d_snap_start_lba d + i * d_snap_slot_blocks d), Str '' ''] @
     (case (if i < SNAPSHOT_SLOTS_MAX then valid ! unat i else None) of
        Some seq \<Rightarrow> [Str ''valid seq='', U32 seq] | None \<Rightarrow> [Str ''empty/invalid'']) @ [Str crlf]"

definition snapls_emit :: "bool \<Rightarrow> item list \<Rightarrow> 'a con_world_scheme \<Rightarrow> 'a con_world_scheme" where
  "snapls_emit bg is w = snapshot_line_emit bg (snap_line is []) w"

definition snapls_slots :: "rwos_disk \<Rightarrow> u32 list" where
  "snapls_slots d = map of_nat [0..<min (unat (d_snap_slots d)) (unat SNAPSHOT_SLOTS_MAX)]"

definition snapshot_task_list_slots :: "'a snap_world_scheme \<Rightarrow> int \<times> 'a snap_world_scheme" where
  "snapshot_task_list_slots w =
     (let bg = (g_cmd_bg_ctx w AND 1 \<noteq> 0) in
      if ctx_operation (g_sd_ctx w) \<noteq> SD_OP_NONE \<or> ctx_status (g_sd_ctx w) = DRV_IN_PROGRESS then (SCHED_ERR_DISABLED, w)
      else case rwos_disk_get w of
        None \<Rightarrow> (SD_ERR_NO_INIT, w)
      | Some d \<Rightarrow>
          let w1 = snapls_emit bg (snapls_target_line d) w in
          if \<not> snapshot_layout_valid d then (SD_ERR_PARAM, w1)
          else
            let w2 = snapshot_consume_boot_target d w1; x = g_snapshot_ctx w2;
                w3 = snapls_emit bg [Str ''snapls: restore candidate='', U32 (ucast (sx_restore_has_candidate x)), Str '' slot='',
                       U32 (sx_restore_slot x), Str '' seq='', U32 (sx_restore_seq x), Str crlf] w2;
                w4 = snapls_emit bg [Str ''snapls: slots='', U32 (d_snap_slots d), Str '' start_lba='', U32 (d_snap_start_lba d),
                       Str '' slot_blocks='', U32 (d_snap_slot_blocks d), Str crlf] w3
            in case snapls_scan (snapls_slots d) d (replicate (unat SNAPSHOT_SLOTS_MAX) None, None) w4 of ((valid, latest), w5) \<Rightarrow>
               let w6 = snapls_emit bg (snapls_latest_line latest) w5;
                   w7 = foldl (\<lambda>w i. snapls_emit bg (snapls_slot_line d valid i) w) w6 (map of_nat [0..<unat (d_snap_slots d)])
               in (SCHED_OK, snapshot_out_puts bg (''snapls: done'' @ crlf) w7))"

section \<open>The list and the writer agree\<close>

text \<open>The loop of the list visits the slots as the writer's scan does, and finds the same latest one.\<close>

lemma snapls_scan_latest:
  "snapls_scan is d (valid, latest) w = ((v, l), w1) \<Longrightarrow>
     snap_scan_loop is (d_snap_start_lba d) (d_snap_slot_blocks d) latest w = (l, w1)"
  by (induction "is" arbitrary: valid latest w) (auto split: prod.splits option.splits)

lemma snapls_slots_all: "snapshot_layout_valid d \<Longrightarrow> snapls_slots d = map of_nat [0..<unat (d_snap_slots d)]"
  by (simp add: snapls_slots_def snapshot_layout_valid_def word_le_nat_alt word_less_nat_alt min_absorb1 split: if_splits)

lemma snapls_latest:
  assumes "snapshot_layout_valid d"
  shows "snapshot_scan_latest d w =
    (snd (fst (snapls_scan (snapls_slots d) d (replicate 64 None, None) w)), snd (snapls_scan (snapls_slots d) d (replicate 64 None, None) w))"
  using snapls_scan_latest [of "snapls_slots d" d "replicate 64 None" None w] snapls_slots_all [OF assms]
  by (simp add: snapshot_scan_latest_def prod_eq_iff)

end
