(* ===== verification/Checkpoint.thy ===== *)
theory Checkpoint
  imports Terminal
begin

text \<open>
  The checkpoints of \<open>terminal.c\<close>: the states of the restorable tasks, saved in one
  of two slots of sixteen blocks, and loaded through the restore loader.  A slot
  starts with a header of 64 bytes and a directory of regions; the states follow
  from byte 192, then the lifecycle record (how often each task was launched
  and has exited).  A save writes the slot with a pending header and then the
  first block again with a committed one.  \<open>call_get f len w\<close>, \<open>call_reg\<close> and \<open>call_restore\<close> are
  the calls of a descriptor's functions.
\<close>

section \<open>Layout on the card\<close>

abbreviation (input) CKPT_V2_MAGIC :: u32 where "CKPT_V2_MAGIC \<equiv> 0x32545043"
abbreviation (input) CKPT_V2_FORMAT_VERSION :: u8 where "CKPT_V2_FORMAT_VERSION \<equiv> 2"
abbreviation (input) CKPT_FORMAT_VERSION_CURRENT :: u8 where "CKPT_FORMAT_VERSION_CURRENT \<equiv> 3"
abbreviation (input) CKPT_V2_MAX_REGIONS :: u16 where "CKPT_V2_MAX_REGIONS \<equiv> 64"
abbreviation (input) CKPT_SD_LEGACY_SLOT0_LBA :: u32 where "CKPT_SD_LEGACY_SLOT0_LBA \<equiv> 2060"
abbreviation (input) CKPT_SD_LEGACY_SLOT1_LBA :: u32 where "CKPT_SD_LEGACY_SLOT1_LBA \<equiv> 2061"
abbreviation (input) CKPT_SD_SLOT_BASE_LBA :: u32 where "CKPT_SD_SLOT_BASE_LBA \<equiv> 2080"
abbreviation (input) CKPT_SD_SLOT_COUNT :: u32 where "CKPT_SD_SLOT_COUNT \<equiv> 2"
abbreviation (input) CKPT_SD_SLOT_BLOCKS :: u16 where "CKPT_SD_SLOT_BLOCKS \<equiv> 16"
abbreviation (input) CKPT_SD_SLOT_BYTES :: u32 where "CKPT_SD_SLOT_BYTES \<equiv> 8192"
abbreviation (input) CKPT_SD_MAX_REGIONS :: nat where "CKPT_SD_MAX_REGIONS \<equiv> 8"
abbreviation (input) CKPT_SD_MAX_BLOB :: u32 where "CKPT_SD_MAX_BLOB \<equiv> 4096"
abbreviation (input) CKPT_SLOT_STATE_PENDING :: u8 where "CKPT_SLOT_STATE_PENDING \<equiv> 0"
abbreviation (input) CKPT_SLOT_STATE_COMMITTED :: u8 where "CKPT_SLOT_STATE_COMMITTED \<equiv> 1"
abbreviation (input) CKPT_META_MAGIC :: u32 where "CKPT_META_MAGIC \<equiv> 0x4154454D"
abbreviation (input) CKPT_META_VERSION :: u16 where "CKPT_META_VERSION \<equiv> 1"

definition crc32_bit :: "u32 \<Rightarrow> u32" where
  "crc32_bit crc = drop_bit 1 crc XOR (0xEDB88320 AND (- (crc AND 1)))"

definition crc32_calc :: "u8 list \<Rightarrow> u32" where
  "crc32_calc bs = NOT (foldl (\<lambda>crc b. (crc32_bit ^^ 8) (crc XOR ucast b)) 0xFFFFFFFF bs)"

record ckpt_header =
  kh_magic :: u32
  kh_format_version :: u16
  kh_header_size :: u16
  kh_seq :: u32
  kh_tick_at_checkpoint :: u32
  kh_slot_id :: u8
  kh_state :: u8
  kh_region_count :: u16
  kh_active_task_bitmap :: u32
  kh_stdin_owner :: u8
  kh_reserved0 :: "u8 list"
  kh_regions_crc32 :: u32
  kh_header_crc32 :: u32
  kh_reserved1 :: "u8 list"

definition ckpt_header_bytes :: "ckpt_header \<Rightarrow> u8 list" where
  "ckpt_header_bytes h = u32_bytes (kh_magic h) @ u16_bytes (kh_format_version h) @ u16_bytes (kh_header_size h) @
     u32_bytes (kh_seq h) @ u32_bytes (kh_tick_at_checkpoint h) @ [kh_slot_id h, kh_state h] @ u16_bytes (kh_region_count h) @
     u32_bytes (kh_active_task_bitmap h) @ [kh_stdin_owner h] @ kh_reserved0 h @ u32_bytes (kh_regions_crc32 h) @
     u32_bytes (kh_header_crc32 h) @ kh_reserved1 h"

definition bytes_ckpt_header :: "u8 list \<Rightarrow> ckpt_header" where
  "bytes_ckpt_header b = \<lparr> kh_magic = u32_at b 0, kh_format_version = u16_at b 4, kh_header_size = u16_at b 6,
     kh_seq = u32_at b 8, kh_tick_at_checkpoint = u32_at b 12, kh_slot_id = b ! 16, kh_state = b ! 17,
     kh_region_count = u16_at b 18, kh_active_task_bitmap = u32_at b 20, kh_stdin_owner = b ! 24,
     kh_reserved0 = take 3 (drop 25 b), kh_regions_crc32 = u32_at b 28, kh_header_crc32 = u32_at b 32,
     kh_reserved1 = take 28 (drop 36 b) \<rparr>"

definition ckpt_region_bytes :: "ckpt_region \<Rightarrow> u8 list" where
  "ckpt_region_bytes r = u16_bytes (rg_region_id r) @ u16_bytes (rg_state_version r) @ u32_bytes (rg_offset r) @
     u32_bytes (rg_length r) @ u32_bytes (rg_crc32 r)"

definition bytes_ckpt_region :: "u8 list \<Rightarrow> nat \<Rightarrow> ckpt_region" where
  "bytes_ckpt_region b i = \<lparr> rg_region_id = u16_at b i, rg_state_version = u16_at b (i + 2), rg_offset = u32_at b (i + 4),
     rg_length = u32_at b (i + 8), rg_crc32 = u32_at b (i + 12) \<rparr>"

record lifecycle_entry =
  le_task_id :: u8
  le_launch_count :: u16
  le_exit_count :: u16

record lifecycle_meta =
  lm_magic :: u32
  lm_version :: u16
  lm_entry_count :: u16
  lm_running_bitmap :: u32
  lm_entries :: "lifecycle_entry list"

text \<open>Both reserved fields of an entry are 0 when written and never read.\<close>

definition lifecycle_entry_bytes :: "lifecycle_entry \<Rightarrow> u8 list" where
  "lifecycle_entry_bytes e = [le_task_id e, 0] @ u16_bytes (le_launch_count e) @ u16_bytes (le_exit_count e) @ [0, 0]"

definition lifecycle_meta_bytes :: "lifecycle_meta \<Rightarrow> u8 list" where
  "lifecycle_meta_bytes m = u32_bytes (lm_magic m) @ u16_bytes (lm_version m) @ u16_bytes (lm_entry_count m) @
     u32_bytes (lm_running_bitmap m) @ concat (map lifecycle_entry_bytes (lm_entries m))"

definition bytes_lifecycle_entry :: "u8 list \<Rightarrow> nat \<Rightarrow> lifecycle_entry" where
  "bytes_lifecycle_entry b i = \<lparr> le_task_id = b ! i, le_launch_count = u16_at b (i + 2), le_exit_count = u16_at b (i + 4) \<rparr>"

definition bytes_lifecycle_meta :: "u8 list \<Rightarrow> nat \<Rightarrow> lifecycle_meta" where
  "bytes_lifecycle_meta b i = \<lparr> lm_magic = u32_at b i, lm_version = u16_at b (i + 4), lm_entry_count = u16_at b (i + 6),
     lm_running_bitmap = u32_at b (i + 8),
     lm_entries = map (\<lambda>j. bytes_lifecycle_entry b (i + 12 + 8 * j)) [0..<unat (u16_at b (i + 6))] \<rparr>"

record ckpt_layout =
  kl_slot_id :: u8
  kl_format_version :: u8
  kl_block_count :: u16
  kl_lba :: u32

record ckpt_item =
  ki_task_id :: u8
  ki_state_version :: u16
  ki_len :: u32
  ki_offset :: u32
  ki_crc32 :: u32

record ckpt_world = snap_world +
  g_ckpt_slot_buf :: "u8 list"
  g_ckpt_restore_filtered_regions :: "ckpt_region list"
  g_ckpt_sd_seq :: u32
  g_ckpt_sd_seq_seeded :: bool
  g_ckpt_running_prev_bitmap :: u32
  g_ckpt_launch_count :: "u16 list"
  g_ckpt_exit_count :: "u16 list"

definition slice :: "u32 \<Rightarrow> u32 \<Rightarrow> u8 list \<Rightarrow> u8 list" where
  "slice off len b = take (unat len) (drop (unat off) b)"

text \<open>\<open>buf_copy (buf + off, bs, |bs|)\<close>.\<close>

definition buf_put :: "nat \<Rightarrow> u8 list \<Rightarrow> u8 list \<Rightarrow> u8 list" where
  "buf_put off bs buf = take off buf @ bs @ drop (off + length bs) buf"

definition buf_blocks :: "u8 list \<Rightarrow> block list" where
  "buf_blocks buf = map (\<lambda>i. take 512 (drop (512 * i) buf)) [0..<16]"

definition ckpt_sd_current_lba_for_slot :: "u32 \<Rightarrow> u32" where
  "ckpt_sd_current_lba_for_slot slot = CKPT_SD_SLOT_BASE_LBA + slot * ucast CKPT_SD_SLOT_BLOCKS"

definition ckpt_sd_slot_bytes_from_layout :: "ckpt_layout \<Rightarrow> u32" where
  "ckpt_sd_slot_bytes_from_layout l = ucast (kl_block_count l) * 512"

definition ckpt_sd_payload_base :: u32 where
  "ckpt_sd_payload_base = 64 + of_nat CKPT_SD_MAX_REGIONS * 16"

definition ckpt_sd_make_current_layout :: "u32 \<Rightarrow> ckpt_layout" where
  "ckpt_sd_make_current_layout slot = \<lparr> kl_slot_id = ucast slot, kl_format_version = CKPT_FORMAT_VERSION_CURRENT,
     kl_block_count = CKPT_SD_SLOT_BLOCKS, kl_lba = ckpt_sd_current_lba_for_slot slot \<rparr>"

definition ckpt_sd_make_legacy_layout :: "u32 \<Rightarrow> ckpt_layout" where
  "ckpt_sd_make_legacy_layout slot = \<lparr> kl_slot_id = ucast slot, kl_format_version = CKPT_V2_FORMAT_VERSION,
     kl_block_count = 1, kl_lba = (if slot = 0 then CKPT_SD_LEGACY_SLOT0_LBA else CKPT_SD_LEGACY_SLOT1_LBA) \<rparr>"

definition ckpt_meta_size :: "u16 \<Rightarrow> u32" where
  "ckpt_meta_size entry_count = 12 + ucast entry_count * 8"

definition ckpt_lifecycle_meta_valid :: "lifecycle_meta \<Rightarrow> u32 \<Rightarrow> u32 \<Rightarrow> bool" where
  "ckpt_lifecycle_meta_valid m meta_len slot_bytes \<longleftrightarrow>
     (if meta_len < ckpt_meta_size 0 \<or> meta_len > slot_bytes then False
      else if lm_magic m \<noteq> CKPT_META_MAGIC \<or> lm_version m \<noteq> CKPT_META_VERSION then False
      else if unat (lm_entry_count m) > CKPT_SD_MAX_REGIONS then False
      else if meta_len < ckpt_meta_size (lm_entry_count m) then False
      else True)"

section \<open>Reading a slot\<close>

text \<open>The check of the regions: None, or the end of the bytes in use.\<close>

fun ckpt_check_regions :: "u8 list \<Rightarrow> u32 \<Rightarrow> u32 \<Rightarrow> u32 \<Rightarrow> nat list \<Rightarrow> u32 option" where
  "ckpt_check_regions blk dir_end slot_bytes used_end [] = Some used_end"
| "ckpt_check_regions blk dir_end slot_bytes used_end (i # is) =
     (let r = bytes_ckpt_region blk (64 + 16 * i); reg_end = rg_offset r + rg_length r in
      if reg_end < rg_offset r \<or> rg_offset r < dir_end \<or> reg_end > slot_bytes then None
      else if crc32_calc (slice (rg_offset r) (rg_length r) blk) \<noteq> rg_crc32 r then None
      else ckpt_check_regions blk dir_end slot_bytes (if reg_end > used_end then reg_end else used_end) is)"

definition ckpt_meta_off :: "ckpt_header \<Rightarrow> u32" where
  "ckpt_meta_off h = u32_at (kh_reserved1 h) 0"

definition ckpt_meta_len :: "ckpt_header \<Rightarrow> u32" where
  "ckpt_meta_len h = u32_at (kh_reserved1 h) 4"

text \<open>The lifecycle part of the check: None, or the end of the bytes in use so far.\<close>

definition ckpt_check_meta :: "ckpt_header \<Rightarrow> u8 list \<Rightarrow> u32 \<Rightarrow> u32 \<Rightarrow> u32 option" where
  "ckpt_check_meta h blk dir_end slot_bytes =
     (if ckpt_meta_len h = 0 then Some dir_end
      else let meta_end = ckpt_meta_off h + ckpt_meta_len h in
        if meta_end < ckpt_meta_off h \<or> ckpt_meta_off h < dir_end \<or> meta_end > slot_bytes then None
        else if \<not> ckpt_lifecycle_meta_valid (bytes_lifecycle_meta blk (unat (ckpt_meta_off h))) (ckpt_meta_len h) slot_bytes
        then None
        else Some meta_end)"

definition ckpt_slot_header :: "ckpt_layout \<Rightarrow> u8 list \<Rightarrow> ckpt_header option" where
  "ckpt_slot_header l blk =
     (let h = bytes_ckpt_header blk in
      if kh_magic h \<noteq> CKPT_V2_MAGIC \<or> kh_format_version h \<noteq> ucast (kl_format_version l) \<or>
         kh_state h \<noteq> CKPT_SLOT_STATE_COMMITTED \<or> kh_region_count h > CKPT_V2_MAX_REGIONS \<or> kh_header_size h \<noteq> 64
      then None
      else if crc32_calc (ckpt_header_bytes (h\<lparr>kh_header_crc32 := 0\<rparr>)) \<noteq> kh_header_crc32 h then None
      else Some h)"

definition ckpt_slot_parse :: "ckpt_layout \<Rightarrow> u8 list \<Rightarrow> ckpt_header option" where
  "ckpt_slot_parse l blk =
     (case ckpt_slot_header l blk of None \<Rightarrow> None
      | Some h \<Rightarrow>
        let slot_bytes = ckpt_sd_slot_bytes_from_layout l;
            regions_bytes = ucast (kh_region_count h) * 16;
            dir_end = 64 + regions_bytes
        in
        if dir_end < 64 \<or> dir_end > slot_bytes then None
        else case ckpt_check_meta h blk dir_end slot_bytes of None \<Rightarrow> None
        | Some used \<Rightarrow>
          case ckpt_check_regions blk dir_end slot_bytes used [0..<unat (kh_region_count h)] of None \<Rightarrow> None
          | Some used_end \<Rightarrow>
            if crc32_calc (slice 64 (if kl_format_version l = CKPT_FORMAT_VERSION_CURRENT then used_end - 64 else regions_bytes) blk)
                 \<noteq> kh_regions_crc32 h
            then None else Some h)"

definition ckpt_sd_read_valid_layout :: "ckpt_layout \<Rightarrow> 'a ckpt_world_scheme \<Rightarrow> ckpt_header option \<times> 'a ckpt_world_scheme" where
  "ckpt_sd_read_valid_layout l w =
     (let slot_bytes = ckpt_sd_slot_bytes_from_layout l in
      if slot_bytes = 0 \<or> slot_bytes > CKPT_SD_SLOT_BYTES then (None, w)
      else case sd_read_blocks (kl_lba l) (ucast (kl_block_count l)) w of ((rc, bs), w1) \<Rightarrow>
        let blk = buf_put 0 (concat bs) (g_ckpt_slot_buf w1); w2 = w1\<lparr>g_ckpt_slot_buf := blk\<rparr> in
        if rc \<noteq> SD_OK then (None, w2) else (ckpt_slot_parse l blk, w2))"

definition ckpt_better :: "ckpt_header \<Rightarrow> ckpt_layout \<Rightarrow> (ckpt_header \<times> ckpt_layout) option \<Rightarrow> bool" where
  "ckpt_better h l sel \<longleftrightarrow>
     (case sel of None \<Rightarrow> True
      | Some (bh, bl) \<Rightarrow> kh_seq h > kh_seq bh \<or> kh_seq h = kh_seq bh \<and> kl_format_version l > kl_format_version bl)"

fun ckpt_find_loop ::
  "ckpt_layout list \<Rightarrow> (ckpt_header \<times> ckpt_layout) option \<Rightarrow> 'a ckpt_world_scheme \<Rightarrow>
   (ckpt_header \<times> ckpt_layout) option \<times> 'a ckpt_world_scheme" where
  "ckpt_find_loop [] sel w = (sel, w)"
| "ckpt_find_loop (l # ls) sel w =
     (case ckpt_sd_read_valid_layout l w of
        (None, w1) \<Rightarrow> ckpt_find_loop ls sel w1
      | (Some h, w1) \<Rightarrow> ckpt_find_loop ls (if ckpt_better h l sel then Some (h, l) else sel) w1)"

definition ckpt_sd_find_best_slot :: "'a ckpt_world_scheme \<Rightarrow> (ckpt_header \<times> ckpt_layout) option \<times> 'a ckpt_world_scheme" where
  "ckpt_sd_find_best_slot w =
     (case ckpt_find_loop (map ckpt_sd_make_current_layout [0, 1]) None w of (sel, w1) \<Rightarrow>
        ckpt_find_loop (map ckpt_sd_make_legacy_layout [0, 1]) sel w1)"

definition ckpt_next_seq :: "u32 \<Rightarrow> u32" where
  "ckpt_next_seq seq = (if seq = 0xFFFFFFFF then 1 else seq + 1)"

definition ckpt_sd_seed_seq_if_needed :: "'a ckpt_world_scheme \<Rightarrow> 'a ckpt_world_scheme" where
  "ckpt_sd_seed_seq_if_needed w =
     (if g_ckpt_sd_seq_seeded w then w
      else case ckpt_sd_find_best_slot w of
        (None, w1) \<Rightarrow> w1
      | (Some (h, l), w1) \<Rightarrow> w1\<lparr>g_ckpt_sd_seq := ckpt_next_seq (kh_seq h), g_ckpt_sd_seq_seeded := True\<rparr>)"

definition ckpt_lifecycle_seed_tracking ::
  "u32 \<Rightarrow> ckpt_region list \<Rightarrow> lifecycle_meta option \<Rightarrow> 'a ckpt_world_scheme \<Rightarrow> 'a ckpt_world_scheme" where
  "ckpt_lifecycle_seed_tracking active_bitmap regions meta w =
     (let zeros = replicate SCHED_MAX_AO 0 in
      case meta of
        Some m \<Rightarrow>
          let known = filter (\<lambda>e. unat (le_task_id e) < SCHED_MAX_AO) (lm_entries m) in
          w\<lparr>g_ckpt_running_prev_bitmap := lm_running_bitmap m,
            g_ckpt_launch_count := foldl (\<lambda>xs e. xs[unat (le_task_id e) := le_launch_count e]) zeros known,
            g_ckpt_exit_count := foldl (\<lambda>xs e. xs[unat (le_task_id e) := le_exit_count e]) zeros known\<rparr>
      | None \<Rightarrow>
          w\<lparr>g_ckpt_running_prev_bitmap := active_bitmap,
            g_ckpt_launch_count := foldl (\<lambda>xs r. xs[unat (rg_region_id r) := 1]) zeros
              (filter (\<lambda>r. unat (rg_region_id r) < SCHED_MAX_AO) regions),
            g_ckpt_exit_count := zeros\<rparr>)"

section \<open>Saving\<close>

text \<open>The loop of \<open>ckpt_collect_restorable_regions\<close>: the buffer, the items and the bytes of states so far.\<close>

definition ckpt_collect_one ::
  "(u32 \<Rightarrow> u32 \<Rightarrow> 'a ckpt_world_scheme \<Rightarrow> int \<times> (u8 list \<times> u32) option) \<Rightarrow> 'a ckpt_world_scheme \<Rightarrow> u32 \<Rightarrow> u32 \<Rightarrow> nat \<Rightarrow>
   u8 list \<times> ckpt_item list \<times> u32 \<Rightarrow> u8 list \<times> ckpt_item list \<times> u32" where
  "ckpt_collect_one call_get w slot_bytes meta_len i acc =
     (case acc of (buf, items, payload_bytes) \<Rightarrow>
      case restore_registry_find (of_nat i) w of None \<Rightarrow> acc
      | Some d \<Rightarrow>
        if rd_task_class d \<noteq> TASK_CLASS_RESTORABLE_NOW \<or> rd_get_state_fn d = 0 then acc
        else if \<not> g_sched w \<or> sc_table w ! i = None then acc
        else if rd_max_state_len d > CKPT_SD_MAX_BLOB then acc
        else if ckpt_sd_payload_base + payload_bytes + meta_len > slot_bytes then acc
        else
          let remaining = slot_bytes - (ckpt_sd_payload_base + payload_bytes + meta_len) in
          if remaining < rd_min_state_len d then acc
          else
            let len0 = (if remaining > rd_max_state_len d then rd_max_state_len d else remaining);
                len1 = (if len0 > CKPT_SD_MAX_BLOB then CKPT_SD_MAX_BLOB else len0);
                off = ckpt_sd_payload_base + payload_bytes
            in case call_get (rd_get_state_fn d) len1 w of
                 (rc, None) \<Rightarrow> acc
               | (rc, Some (blob, len)) \<Rightarrow>
                   let buf1 = buf_put (unat off) blob buf in
                   if rc \<noteq> SCHED_OK then (buf1, items, payload_bytes)
                   else if len < rd_min_state_len d \<or> len > rd_max_state_len d \<or> len > remaining \<or> len > CKPT_SD_MAX_BLOB
                   then (buf1, items, payload_bytes)
                   else (buf1, items @ [\<lparr> ki_task_id = of_nat i, ki_state_version = rd_state_version d, ki_len = len, ki_offset = off,
                           ki_crc32 = crc32_calc (slice off len buf1) \<rparr>], payload_bytes + len))"

fun ckpt_collect_loop ::
  "(nat \<Rightarrow> u8 list \<times> ckpt_item list \<times> u32 \<Rightarrow> u8 list \<times> ckpt_item list \<times> u32) \<Rightarrow> nat list \<Rightarrow>
   u8 list \<times> ckpt_item list \<times> u32 \<Rightarrow> u8 list \<times> ckpt_item list \<times> u32" where
  "ckpt_collect_loop one [] acc = acc"
| "ckpt_collect_loop one (i # is) acc =
     (if length (fst (snd acc)) < CKPT_SD_MAX_REGIONS then ckpt_collect_loop one is (one i acc) else acc)"

definition ckpt_collect_restorable_regions ::
  "(u32 \<Rightarrow> u32 \<Rightarrow> 'a ckpt_world_scheme \<Rightarrow> int \<times> (u8 list \<times> u32) option) \<Rightarrow> u8 list \<Rightarrow> u32 \<Rightarrow> u32 \<Rightarrow> 'a ckpt_world_scheme \<Rightarrow>
   u8 list \<times> ckpt_item list \<times> u32" where
  "ckpt_collect_restorable_regions call_get buf slot_bytes meta_len w =
     ckpt_collect_loop (ckpt_collect_one call_get w slot_bytes meta_len) [0..<SCHED_MAX_AO] (buf, [], 0)"

text \<open>\<open>active_bitmap\<close>: the bits of the collected tasks.\<close>

definition ckpt_active_bitmap :: "ckpt_item list \<Rightarrow> u32" where
  "ckpt_active_bitmap items = foldl (\<lambda>b k. b OR id_bit (unat (ki_task_id k))) 0 items"

definition ckpt_running_bitmap :: "'a sched_scheme \<Rightarrow> u32" where
  "ckpt_running_bitmap w = foldl (\<lambda>b i. if sc_table w ! i \<noteq> None then b OR id_bit i else b) 0 [0..<SCHED_MAX_AO]"

definition ckpt_count_bits :: "u32 \<Rightarrow> u16 list \<Rightarrow> u16 list" where
  "ckpt_count_bits bits xs = foldl (\<lambda>xs i. if bits AND id_bit i \<noteq> 0 then xs[i := xs ! i + 1] else xs) xs [0..<SCHED_MAX_AO]"

text \<open>The ids of the lifecycle record: the first eight restorable tasks of the registry.\<close>

definition ckpt_meta_ids :: "'a res_world_scheme \<Rightarrow> nat list" where
  "ckpt_meta_ids w = take CKPT_SD_MAX_REGIONS (filter (\<lambda>i. case restore_registry_find (of_nat i) w of None \<Rightarrow> False
     | Some d \<Rightarrow> rd_task_class d = TASK_CLASS_RESTORABLE_NOW) [0..<SCHED_MAX_AO])"

definition ckpt_item_region :: "ckpt_item \<Rightarrow> ckpt_region" where
  "ckpt_item_region k = \<lparr> rg_region_id = ucast (ki_task_id k), rg_state_version = ki_state_version k, rg_offset = ki_offset k,
     rg_length = ki_len k, rg_crc32 = ki_crc32 k \<rparr>"

definition ckpt_make_meta :: "nat list \<Rightarrow> u32 \<Rightarrow> 'a ckpt_world_scheme \<Rightarrow> lifecycle_meta" where
  "ckpt_make_meta ids running w = \<lparr> lm_magic = CKPT_META_MAGIC, lm_version = CKPT_META_VERSION, lm_entry_count = of_nat (length ids),
     lm_running_bitmap = running,
     lm_entries = map (\<lambda>i. \<lparr> le_task_id = of_nat i, le_launch_count = g_ckpt_launch_count w ! i,
       le_exit_count = g_ckpt_exit_count w ! i \<rparr>) ids \<rparr>"

text \<open>The header with its checksum, for a state.\<close>

definition ckpt_seal :: "ckpt_header \<Rightarrow> ckpt_header" where
  "ckpt_seal h = h\<lparr>kh_header_crc32 := crc32_calc (ckpt_header_bytes (h\<lparr>kh_header_crc32 := 0\<rparr>))\<rparr>"

definition ckpt_make_header :: "u32 \<Rightarrow> u32 \<Rightarrow> u32 \<Rightarrow> ckpt_item list \<Rightarrow> u32 \<Rightarrow> u32 \<Rightarrow> ckpt_header" where
  "ckpt_make_header seq tick slot_id items meta_off meta_len =
     \<lparr> kh_magic = CKPT_V2_MAGIC, kh_format_version = ucast CKPT_FORMAT_VERSION_CURRENT, kh_header_size = 64, kh_seq = seq,
       kh_tick_at_checkpoint = tick, kh_slot_id = ucast slot_id, kh_state = CKPT_SLOT_STATE_PENDING,
       kh_region_count = of_nat (length items), kh_active_task_bitmap = ckpt_active_bitmap items, kh_stdin_owner = TERM_STDIN_OWNER_NONE,
       kh_reserved0 = [0, 0, 0], kh_regions_crc32 = 0, kh_header_crc32 = 0,
       kh_reserved1 = u32_bytes meta_off @ u32_bytes meta_len @ replicate 20 0 \<rparr>"

text \<open>The tasks that appeared and went since the last save, counted.\<close>

definition ckpt_launched :: "'a ckpt_world_scheme \<Rightarrow> u32" where
  "ckpt_launched w = ckpt_running_bitmap w AND NOT (g_ckpt_running_prev_bitmap w)"

definition ckpt_exited :: "'a ckpt_world_scheme \<Rightarrow> u32" where
  "ckpt_exited w = g_ckpt_running_prev_bitmap w AND NOT (ckpt_running_bitmap w)"

definition ckpt_count_lifecycle :: "'a ckpt_world_scheme \<Rightarrow> 'a ckpt_world_scheme" where
  "ckpt_count_lifecycle w =
     w\<lparr>g_ckpt_launch_count := ckpt_count_bits (ckpt_launched w) (g_ckpt_launch_count w),
       g_ckpt_exit_count := ckpt_count_bits (ckpt_exited w) (g_ckpt_exit_count w),
       g_ckpt_running_prev_bitmap := ckpt_running_bitmap w\<rparr>"

text \<open>The slot buffer with lifecycle record and directory, and the pending header over it.\<close>

definition ckpt_lay_out ::
  "ckpt_header \<Rightarrow> ckpt_item list \<Rightarrow> lifecycle_meta \<Rightarrow> u32 \<Rightarrow> u32 \<Rightarrow> u8 list \<Rightarrow> ckpt_header \<times> u8 list" where
  "ckpt_lay_out hdr items meta meta_off meta_len buf =
     (let regs = map ckpt_item_region items;
          buf1 = buf_put 64 (concat (map ckpt_region_bytes regs)) (buf_put (unat meta_off) (lifecycle_meta_bytes meta) buf);
          used_end = foldl (\<lambda>u r. if rg_offset r + rg_length r > u then rg_offset r + rg_length r else u)
                       (meta_off + meta_len) regs;
          hdr1 = ckpt_seal (hdr\<lparr>kh_regions_crc32 := crc32_calc (slice 64 (used_end - 64) buf1)\<rparr>)
      in (hdr1, buf_put 0 (ckpt_header_bytes hdr1) buf1))"

text \<open>The whole slot, pending; then its first block again, committed.\<close>

definition ckpt_commit :: "ckpt_layout \<Rightarrow> ckpt_header \<Rightarrow> u8 list \<Rightarrow> 'a ckpt_world_scheme \<Rightarrow> int \<times> 'a ckpt_world_scheme" where
  "ckpt_commit layout hdr1 buf2 w =
     (case sd_write_blocks (kl_lba layout) (ucast (kl_block_count layout)) (Some (buf_blocks buf2)) (w\<lparr>g_ckpt_slot_buf := buf2\<rparr>) of (rc, w1) \<Rightarrow>
        if rc \<noteq> SD_OK then (rc, w1)
        else
          let hdr2 = ckpt_seal (hdr1\<lparr>kh_state := CKPT_SLOT_STATE_COMMITTED\<rparr>);
              buf3 = buf_put 0 (ckpt_header_bytes hdr2) buf2
          in sd_write_blocks (kl_lba layout) 1 (Some (buf_blocks buf3)) (w1\<lparr>g_ckpt_slot_buf := buf3\<rparr>))"

text \<open>The result of a save: the code and, on success, block, slot, sequence number and regions.\<close>

definition terminal_ckpt_save_sd_once ::
  "(u32 \<Rightarrow> u32 \<Rightarrow> 'a ckpt_world_scheme \<Rightarrow> int \<times> (u8 list \<times> u32) option) \<Rightarrow> 'a ckpt_world_scheme \<Rightarrow>
   (int \<times> (u32 \<times> u32 \<times> u32 \<times> u32) option) \<times> 'a ckpt_world_scheme" where
  "terminal_ckpt_save_sd_once call_get w0 =
     (let w1 = ckpt_sd_seed_seq_if_needed w0 in
      if \<not> g_sched w1 then ((SCHED_ERR_PARAM, None), w1)
      else
        let w2 = ckpt_count_lifecycle w1;
            ids = ckpt_meta_ids w2;
            meta_len = ckpt_meta_size (of_nat (length ids));
            lifecycle_changed = ((ckpt_launched w1 OR ckpt_exited w1) AND foldl (\<lambda>b i. b OR id_bit i) 0 ids \<noteq> 0)
        in case ckpt_collect_restorable_regions call_get (replicate 8192 0) CKPT_SD_SLOT_BYTES meta_len w2 of
             (buf, items, payload_bytes) \<Rightarrow>
          let w3 = w2\<lparr>g_ckpt_slot_buf := buf\<rparr>; meta_off = ckpt_sd_payload_base + payload_bytes in
          if items = [] \<and> \<not> lifecycle_changed then ((SCHED_ERR_NOT_FOUND, None), w3)
          else if meta_off + meta_len > CKPT_SD_SLOT_BYTES then ((SCHED_ERR_FULL, None), w3)
          else
            let seq = g_ckpt_sd_seq w3;
                slot_id = (seq - 1) mod CKPT_SD_SLOT_COUNT;
                layout = ckpt_sd_make_current_layout slot_id;
                w4 = w3\<lparr>g_ckpt_sd_seq := seq + 1\<rparr>
            in case ckpt_lay_out (ckpt_make_header seq (systick_now w4) slot_id items meta_off meta_len) items
                      (ckpt_make_meta ids (ckpt_running_bitmap w1) w4) meta_off meta_len buf of (hdr1, buf2) \<Rightarrow>
              case ckpt_commit layout hdr1 buf2 w4 of (rc, w5) \<Rightarrow>
                if rc \<noteq> SD_OK then ((rc, None), w5)
                else ((SCHED_OK, Some (kl_lba layout, slot_id, seq, of_nat (length items))), w5\<lparr>g_ckpt_sd_seq_seeded := True\<rparr>))"

section \<open>Loading\<close>

text \<open>A region is left out when the lifecycle record says that its task has exited.\<close>

definition ckpt_allowed :: "lifecycle_meta option \<Rightarrow> ckpt_region \<Rightarrow> bool" where
  "ckpt_allowed meta r \<longleftrightarrow>
     (case meta of None \<Rightarrow> True
      | Some m \<Rightarrow>
        (case find (\<lambda>e. le_task_id e = ucast (rg_region_id r)) (lm_entries m) of
           None \<Rightarrow> True | Some e \<Rightarrow> \<not> le_launch_count e \<le> le_exit_count e))"

definition ckpt_load_meta :: "ckpt_header \<Rightarrow> u8 list \<Rightarrow> u32 \<Rightarrow> lifecycle_meta option" where
  "ckpt_load_meta h blk len =
     (if ckpt_meta_off h + ckpt_meta_len h \<le> len
      then let m = bytes_lifecycle_meta blk (unat (ckpt_meta_off h)) in
        if ckpt_lifecycle_meta_valid m (ckpt_meta_len h) len then Some m else None
      else None)"

text \<open>The result of a load: the code and, when a slot was found, the loader's three
  counters with sequence number, block and slot.\<close>

definition term_ckpt_load_latest_sd_internal ::
  "(u32 \<Rightarrow> 'a ckpt_world_scheme \<Rightarrow> int \<times> 'a ckpt_world_scheme) \<Rightarrow>
   (u32 \<Rightarrow> u8 list \<Rightarrow> 'a ckpt_world_scheme \<Rightarrow> int \<times> 'a ckpt_world_scheme) \<Rightarrow> bool \<Rightarrow> 'a ckpt_world_scheme \<Rightarrow>
   (int \<times> ((u32 \<times> u32 \<times> u32) option \<times> u32 \<times> u32 \<times> u8) option) \<times> 'a ckpt_world_scheme" where
  "term_ckpt_load_latest_sd_internal call_reg call_restore sched w =
     (if \<not> sched then ((SCHED_ERR_PARAM, None), w)
      else case ckpt_sd_find_best_slot (ckpt_sd_seed_seq_if_needed w) of
        (None, w1) \<Rightarrow> ((SCHED_ERR_NOT_FOUND, None), w1)
      | (Some (_, l), w1) \<Rightarrow>
          case ckpt_sd_read_valid_layout l w1 of
            (None, w2) \<Rightarrow> ((SCHED_ERR_NOT_FOUND, None), w2)
          | (Some h, w2) \<Rightarrow>
              let blk = g_ckpt_slot_buf w2;
                  len = ckpt_sd_slot_bytes_from_layout l;
                  regions = map (\<lambda>i. bytes_ckpt_region blk (64 + 16 * i)) [0..<unat (kh_region_count h)];
                  meta = ckpt_load_meta h blk len;
                  kept = filter (ckpt_allowed meta) regions;
                  w3 = w2\<lparr>g_ckpt_restore_filtered_regions := kept @ drop (length kept) (g_ckpt_restore_filtered_regions w2)\<rparr>
              in case restore_loader_apply_regions call_reg call_restore True (Some (g_ckpt_restore_filtered_regions w3))
                        (of_nat (length kept)) (Some blk) len w3 of ((rc, counts), w4) \<Rightarrow>
                let w5 = (if rc = RESTORE_LOADER_OK then ckpt_lifecycle_seed_tracking (kh_active_task_bitmap h) regions meta w4 else w4)
                in ((rc, Some (counts, kh_seq h, kl_lba l, kh_slot_id h)),
                    w5\<lparr>g_ckpt_sd_seq := ckpt_next_seq (kh_seq h), g_ckpt_sd_seq_seeded := True\<rparr>))"

definition terminal_ckpt_load_latest_sd ::
  "(u32 \<Rightarrow> 'a ckpt_world_scheme \<Rightarrow> int \<times> 'a ckpt_world_scheme) \<Rightarrow>
   (u32 \<Rightarrow> u8 list \<Rightarrow> 'a ckpt_world_scheme \<Rightarrow> int \<times> 'a ckpt_world_scheme) \<Rightarrow> bool \<Rightarrow> 'a ckpt_world_scheme \<Rightarrow>
   (int \<times> ((u32 \<times> u32 \<times> u32) option \<times> u32) option) \<times> 'a ckpt_world_scheme" where
  "terminal_ckpt_load_latest_sd call_reg call_restore sched w =
     (case term_ckpt_load_latest_sd_internal call_reg call_restore sched w of ((rc, outs), w1) \<Rightarrow>
        ((rc, map_option (\<lambda>(counts, seq, lba, slot). (counts, seq)) outs), w1))"

end
