(* ===== verification/Checkpoint_Slots.thy ===== *)
theory Checkpoint_Slots
  imports Checkpoint
begin

text \<open>
  What a save writes is what a load reads: the bytes of a slot as the save lays
  them out, and that the checks of the reader accept them.
\<close>

section \<open>Bytes inside a buffer\<close>

lemma at_append [simp]:
  "u32_at (xs @ ys) (length xs + i) = u32_at ys i" "u16_at (xs @ ys) (length xs + i) = u16_at ys i"
  by (simp_all add: u32_at_def u16_at_def nth_append)

lemma at_prefix:
  "i + 4 \<le> length xs \<Longrightarrow> u32_at (xs @ ys) i = u32_at xs i" "i + 2 \<le> length xs \<Longrightarrow> u16_at (xs @ ys) i = u16_at xs i"
  by (simp_all add: u32_at_def u16_at_def nth_append)

lemma length_buf_put [simp]: "off + length bs \<le> length buf \<Longrightarrow> length (buf_put off bs buf) = length buf"
  by (auto simp: buf_put_def)

lemma buf_put_before: "i + n \<le> off \<Longrightarrow> off \<le> length buf \<Longrightarrow> take n (drop i (buf_put off bs buf)) = take n (drop i buf)"
  by (simp add: buf_put_def drop_take min_absorb1)

lemma buf_put_at: "off \<le> length buf \<Longrightarrow> take (length bs) (drop off (buf_put off bs buf)) = bs"
  by (simp add: buf_put_def)

text \<open>The rest of a slot behind its directory: states, lifecycle record, unused bytes.\<close>

definition slot_rest :: "nat \<Rightarrow> nat \<Rightarrow> u8 list \<Rightarrow> u8 list \<Rightarrow> u8 list" where
  "slot_rest k mo M buf = take (mo - k) (drop k buf) @ M @ drop (mo + length M) buf"

lemma slot_image:
  assumes "length buf = 8192" "length R \<le> 128" "192 \<le> mo" "mo + length M \<le> 8192" "length H = 64" "length H' = 64"
  shows "buf_put 64 R (buf_put mo M buf) = take 64 buf @ R @ slot_rest (64 + length R) mo M buf"
    "buf_put 0 H' (buf_put 64 R (buf_put mo M buf)) = H' @ R @ slot_rest (64 + length R) mo M buf"
    "buf_put 0 H (buf_put 0 H' (buf_put 64 R (buf_put mo M buf))) = H @ R @ slot_rest (64 + length R) mo M buf"
proof -
  have "drop (64 + length R) (buf_put mo M buf) = slot_rest (64 + length R) mo M buf"
    using assms by (simp add: buf_put_def slot_rest_def drop_take)
  moreover have "take 64 (buf_put mo M buf) = take 64 buf" using assms by (simp add: buf_put_def)
  ultimately show b1: "buf_put 64 R (buf_put mo M buf) = take 64 buf @ R @ slot_rest (64 + length R) mo M buf"
    by (simp only: buf_put_def)
  show "buf_put 0 H' (buf_put 64 R (buf_put mo M buf)) = H' @ R @ slot_rest (64 + length R) mo M buf"
    "buf_put 0 H (buf_put 0 H' (buf_put 64 R (buf_put mo M buf))) = H @ R @ slot_rest (64 + length R) mo M buf"
    unfolding b1 using assms by (simp_all add: buf_put_def)
qed

section \<open>Round trips of the structures\<close>

lemma ckpt_header_roundtrip:
  assumes "length (kh_reserved0 h) = 3" "length (kh_reserved1 h) = 28"
  shows "bytes_ckpt_header (ckpt_header_bytes h @ b) = h" "length (ckpt_header_bytes h) = 64"
proof -
  obtain x y z where r: "kh_reserved0 h = [x, y, z]" using assms(1) by (auto simp: length_Suc_conv eval_nat_numeral)
  show "length (ckpt_header_bytes h) = 64" using assms by (simp add: ckpt_header_bytes_def)
  show "bytes_ckpt_header (ckpt_header_bytes h @ b) = h"
    using assms(2) by (simp add: bytes_ckpt_header_def ckpt_header_bytes_def r u32_at_def u16_at_def u32_bytes_def u16_bytes_def
        bytes_u32_bytes u16_bytes_join)
qed

lemma length_region_bytes [simp]: "length (ckpt_region_bytes r) = 16"
  by (simp add: ckpt_region_bytes_def)

lemma ckpt_region_roundtrip: "bytes_ckpt_region (ckpt_region_bytes r @ b) 0 = r"
  by (simp add: bytes_ckpt_region_def ckpt_region_bytes_def u32_at_def u16_at_def u32_bytes_def u16_bytes_def
      bytes_u32_bytes u16_bytes_join)

lemma bytes_region_append: "bytes_ckpt_region (xs @ ys) (length xs + i) = bytes_ckpt_region ys i"
  unfolding bytes_ckpt_region_def using at_append(2) [of xs ys "i + 2"]
  by (simp add: add.assoc del: add_2_eq_Suc add_2_eq_Suc')

lemma length_regions [simp]: "length (concat (map ckpt_region_bytes rs)) = 16 * length rs"
  by (induction rs) simp_all

lemma bytes_regions:
  "i < length rs \<Longrightarrow> bytes_ckpt_region (concat (map ckpt_region_bytes rs) @ b) (16 * i) = rs ! i"
proof (induction rs arbitrary: i)
  case (Cons r rs)
  show ?case
  proof (cases i)
    case (Suc j)
    have "bytes_ckpt_region (ckpt_region_bytes r @ (concat (map ckpt_region_bytes rs) @ b)) (length (ckpt_region_bytes r) + 16 * j) =
      bytes_ckpt_region (concat (map ckpt_region_bytes rs) @ b) (16 * j)" by (rule bytes_region_append)
    with Cons Suc show ?thesis by simp
  qed (simp add: ckpt_region_roundtrip)
qed simp

lemma length_lifecycle_entry [simp]: "length (lifecycle_entry_bytes e) = 8"
  by (simp add: lifecycle_entry_bytes_def)

lemma lifecycle_entry_roundtrip: "bytes_lifecycle_entry (lifecycle_entry_bytes e @ b) 0 = e"
  by (simp add: bytes_lifecycle_entry_def lifecycle_entry_bytes_def u16_at_def u16_bytes_def u16_bytes_join)

lemma bytes_entry_append: "bytes_lifecycle_entry (xs @ ys) (length xs + i) = bytes_lifecycle_entry ys i"
  unfolding bytes_lifecycle_entry_def using at_append(2) [of xs ys "i + 2"]
  by (simp add: add.assoc nth_append del: add_2_eq_Suc add_2_eq_Suc')

lemma bytes_entries:
  "i < length es \<Longrightarrow> bytes_lifecycle_entry (concat (map lifecycle_entry_bytes es) @ b) (8 * i) = es ! i"
proof (induction es arbitrary: i)
  case (Cons e es)
  show ?case
  proof (cases i)
    case (Suc j)
    have "bytes_lifecycle_entry (lifecycle_entry_bytes e @ (concat (map lifecycle_entry_bytes es) @ b)) (length (lifecycle_entry_bytes e) + 8 * j) =
      bytes_lifecycle_entry (concat (map lifecycle_entry_bytes es) @ b) (8 * j)" by (rule bytes_entry_append)
    with Cons Suc show ?thesis by simp
  qed (simp add: lifecycle_entry_roundtrip)
qed simp

lemma length_entries [simp]: "length (concat (map lifecycle_entry_bytes es)) = 8 * length es"
  by (induction es) simp_all

lemma length_meta_bytes: "length (lifecycle_meta_bytes m) = 12 + 8 * length (lm_entries m)"
  by (simp add: lifecycle_meta_bytes_def)

lemma lifecycle_meta_roundtrip:
  assumes "unat (lm_entry_count m) = length (lm_entries m)"
  shows "bytes_lifecycle_meta (xs @ lifecycle_meta_bytes m @ b) (length xs) = m"
proof -
  define es where "es = concat (map lifecycle_entry_bytes (lm_entries m))"
  define hd where "hd = u32_bytes (lm_magic m) @ u16_bytes (lm_version m) @ u16_bytes (lm_entry_count m) @ u32_bytes (lm_running_bitmap m)"
  have hd: "length hd = 12" by (simp add: hd_def)
  have M: "lifecycle_meta_bytes m @ b = hd @ es @ b" by (simp add: lifecycle_meta_bytes_def hd_def es_def)
  have at: "u32_at (xs @ hd @ es @ b) (length xs) = u32_at (hd @ es @ b) 0" "u32_at (xs @ hd @ es @ b) (length xs + 8) = u32_at (hd @ es @ b) 8"
    "u16_at (xs @ hd @ es @ b) (length xs + 4) = u16_at (hd @ es @ b) 4" "u16_at (xs @ hd @ es @ b) (length xs + 6) = u16_at (hd @ es @ b) 6"
    using at_append(1) [of xs "hd @ es @ b" 0] by simp_all
  have f: "u32_at (hd @ es @ b) 0 = lm_magic m" "u16_at (hd @ es @ b) 4 = lm_version m" "u16_at (hd @ es @ b) 6 = lm_entry_count m"
    "u32_at (hd @ es @ b) 8 = lm_running_bitmap m"
    by (simp_all add: hd_def u32_at_def u16_at_def u32_bytes_def u16_bytes_def bytes_u32_bytes u16_bytes_join)
  have e: "bytes_lifecycle_entry (xs @ hd @ es @ b) (length xs + 12 + 8 * j) = lm_entries m ! j" if "j < length (lm_entries m)" for j
    using bytes_entry_append [of "xs @ hd" "es @ b" "8 * j"] bytes_entries [OF that, of b] by (simp add: hd es_def add.assoc)
  have "map (\<lambda>j. bytes_lifecycle_entry (xs @ hd @ es @ b) (length xs + 12 + 8 * j)) [0..<length (lm_entries m)] = lm_entries m"
    by (rule nth_equalityI) (simp_all add: e)
  then show ?thesis unfolding M bytes_lifecycle_meta_def at f assms by simp
qed


section \<open>The reader accepts what the writer lays out\<close>

text \<open>A slot: header, directory, states and lifecycle record around a buffer with the states.\<close>

definition slot_bytes_of :: "ckpt_header \<Rightarrow> ckpt_region list \<Rightarrow> lifecycle_meta \<Rightarrow> u32 \<Rightarrow> u8 list \<Rightarrow> u8 list" where
  "slot_bytes_of h regs m mo buf = ckpt_header_bytes h @ concat (map ckpt_region_bytes regs) @
     slot_rest (64 + 16 * length regs) (unat mo) (lifecycle_meta_bytes m) buf"

definition region_placed :: "u8 list \<Rightarrow> u32 \<Rightarrow> ckpt_region \<Rightarrow> bool" where
  "region_placed buf mo r \<longleftrightarrow> 192 \<le> unat (rg_offset r) \<and> unat (rg_offset r) + unat (rg_length r) \<le> unat mo \<and>
     crc32_calc (slice (rg_offset r) (rg_length r) buf) = rg_crc32 r"

text \<open>What the save knows when it lays out a slot.\<close>

definition slot_laid_out :: "ckpt_header \<Rightarrow> ckpt_region list \<Rightarrow> lifecycle_meta \<Rightarrow> u32 \<Rightarrow> u8 list \<Rightarrow> bool" where
  "slot_laid_out h regs m mo buf \<longleftrightarrow>
     length buf = 8192 \<and> length regs \<le> 8 \<and> list_all (region_placed buf mo) regs \<and>
     lm_magic m = CKPT_META_MAGIC \<and> lm_version m = CKPT_META_VERSION \<and> length (lm_entries m) \<le> 8 \<and>
     unat (lm_entry_count m) = length (lm_entries m) \<and> 192 \<le> unat mo \<and> unat mo + 12 + 8 * length (lm_entries m) \<le> 8192 \<and>
     length (kh_reserved0 h) = 3 \<and> length (kh_reserved1 h) = 28 \<and> ckpt_meta_off h = mo \<and>
     ckpt_meta_len h = of_nat (12 + 8 * length (lm_entries m)) \<and> kh_magic h = CKPT_V2_MAGIC \<and> kh_format_version h = 3 \<and>
     kh_header_size h = 64 \<and> kh_region_count h = of_nat (length regs)"

lemma slot_lengths:
  assumes "slot_laid_out h regs m mo buf"
  shows "length (slot_bytes_of h regs m mo buf) = 8192" "length (ckpt_header_bytes h) = 64"
    "length (lifecycle_meta_bytes m) = 12 + 8 * length (lm_entries m)"
  using assms ckpt_header_roundtrip(2) [of h]
  by (auto simp: slot_laid_out_def slot_bytes_of_def slot_rest_def length_meta_bytes min_def)

lemma slot_slice:
  assumes "slot_laid_out h regs m mo buf" "192 \<le> unat off" "unat off + unat len \<le> unat mo"
  shows "slice off len (slot_bytes_of h regs m mo buf) = slice off len buf"
proof -
  define k where "k = 64 + 16 * length regs"
  have k: "k \<le> 192" "length buf = 8192" "unat mo \<le> 8192" using assms(1) by (simp_all add: slot_laid_out_def k_def)
  have "drop (unat off) (slot_bytes_of h regs m mo buf) = drop (unat off - k) (slot_rest k (unat mo) (lifecycle_meta_bytes m) buf)"
    using slot_lengths(2) [OF assms(1)] assms(2) k by (simp add: slot_bytes_of_def k_def)
  also have "\<dots> = take (unat mo - unat off) (drop (unat off) buf) @ lifecycle_meta_bytes m @ drop (unat mo + length (lifecycle_meta_bytes m)) buf"
    using assms(2,3) k by (simp add: slot_rest_def drop_take)
  finally show ?thesis using assms(3) k by (simp add: slice_def)
qed

lemma slot_regions:
  assumes "slot_laid_out h regs m mo buf" "i < length regs"
  shows "bytes_ckpt_region (slot_bytes_of h regs m mo buf) (64 + 16 * i) = regs ! i"
  using bytes_region_append [of "ckpt_header_bytes h" _ "16 * i"] bytes_regions [OF assms(2)] slot_lengths(2) [OF assms(1)]
  by (simp add: slot_bytes_of_def)

lemma slot_meta:
  assumes "slot_laid_out h regs m mo buf"
  shows "bytes_lifecycle_meta (slot_bytes_of h regs m mo buf) (unat mo) = m"
proof -
  let ?pre = "ckpt_header_bytes h @ concat (map ckpt_region_bytes regs) @ take (unat mo - (64 + 16 * length regs)) (drop (64 + 16 * length regs) buf)"
  have "length ?pre = unat mo" using assms slot_lengths(2) [OF assms] by (auto simp: slot_laid_out_def min_def)
  moreover have "slot_bytes_of h regs m mo buf = ?pre @ lifecycle_meta_bytes m @ drop (unat mo + length (lifecycle_meta_bytes m)) buf"
    by (simp add: slot_bytes_of_def slot_rest_def)
  ultimately show ?thesis using lifecycle_meta_roundtrip [of m ?pre] assms by (simp add: slot_laid_out_def)
qed

lemma unat_sum_le: "unat a + unat b \<le> 8192 \<Longrightarrow> unat (a + b :: u32) = unat a + unat b"
  by (simp add: unat_word_ariths)

lemma slot_check_regions:
  assumes l: "slot_laid_out h regs m mo buf" and "set is \<subseteq> {..<length regs}" "unat mo \<le> unat used"
  shows "ckpt_check_regions (slot_bytes_of h regs m mo buf) (64 + of_nat (length regs) * 16) 8192 used is = Some used"
  using assms(2)
proof (induction "is")
  case (Cons i "is")
  let ?r = "regs ! i"
  have i: "i < length regs" using Cons.prems by simp
  have b: "length regs \<le> 8" "unat mo \<le> 8192" using l by (simp_all add: slot_laid_out_def)
  have r: "192 \<le> unat (rg_offset ?r)" "unat (rg_offset ?r) + unat (rg_length ?r) \<le> unat mo"
    "crc32_calc (slice (rg_offset ?r) (rg_length ?r) buf) = rg_crc32 ?r"
    using l i by (simp_all add: slot_laid_out_def list_all_length region_placed_def)
  have e: "unat (rg_offset ?r + rg_length ?r) = unat (rg_offset ?r) + unat (rg_length ?r)"
    by (rule unat_sum_le) (use r(2) b(2) in linarith)
  have d: "unat (64 + of_nat (length regs) * 16 :: u32) = 64 + 16 * length regs"
    using b(1) by (simp add: unat_word_ariths unat_of_nat)
  have c: "\<not> rg_offset ?r + rg_length ?r < rg_offset ?r" "\<not> rg_offset ?r < 64 + of_nat (length regs) * 16"
    "\<not> 8192 < rg_offset ?r + rg_length ?r" "\<not> used < rg_offset ?r + rg_length ?r"
    unfolding word_less_nat_alt e d using r(1,2) b assms(3) by simp_all
  have s: "slice (rg_offset ?r) (rg_length ?r) (slot_bytes_of h regs m mo buf) = slice (rg_offset ?r) (rg_length ?r) buf"
    by (rule slot_slice [OF l r(1,2)])
  have "set is \<subseteq> {..<length regs}" using Cons.prems by simp
  from Cons.IH [OF this] show ?case
    using c by (simp add: slot_regions [OF l i] Let_def s r(3))
qed simp


definition sealed :: "ckpt_header \<Rightarrow> bool" where
  "sealed h \<longleftrightarrow> kh_header_crc32 h = crc32_calc (ckpt_header_bytes (h\<lparr>kh_header_crc32 := 0\<rparr>))"

lemma sealed_seal [simp]: "sealed (ckpt_seal h)"
  by (simp add: sealed_def ckpt_seal_def)

lemma current_layout [simp]:
  "kl_format_version (ckpt_sd_make_current_layout s) = 3" "ckpt_sd_slot_bytes_from_layout (ckpt_sd_make_current_layout s) = 8192"
  "kl_block_count (ckpt_sd_make_current_layout s) = 16" "kl_lba (ckpt_sd_make_current_layout s) = 2080 + s * 16"
  by (simp_all add: ckpt_sd_make_current_layout_def ckpt_sd_slot_bytes_from_layout_def ckpt_sd_current_lba_for_slot_def)

lemma slot_header:
  assumes "slot_laid_out h regs m mo buf"
  shows "bytes_ckpt_header (slot_bytes_of h regs m mo buf) = h"
  using assms ckpt_header_roundtrip(1) [of h] by (simp add: slot_laid_out_def slot_bytes_of_def)

lemma slot_check_meta:
  assumes "slot_laid_out h regs m mo buf"
  shows "ckpt_check_meta h (slot_bytes_of h regs m mo buf) (64 + of_nat (length regs) * 16) 8192 = Some (mo + ckpt_meta_len h)"
    "ckpt_load_meta h (slot_bytes_of h regs m mo buf) 8192 = Some m" "unat mo \<le> unat (mo + ckpt_meta_len h)"
proof -
  define e where "e = length (lm_entries m)"
  have a: "e \<le> 8" "unat (lm_entry_count m) = e" "unat mo + 12 + 8 * e \<le> 8192" "192 \<le> unat mo" "length regs \<le> 8"
    "ckpt_meta_off h = mo" "ckpt_meta_len h = of_nat (12 + 8 * e)" "lm_magic m = CKPT_META_MAGIC" "lm_version m = CKPT_META_VERSION"
    using assms by (simp_all add: slot_laid_out_def e_def)
  have l: "unat (ckpt_meta_len h) = 12 + 8 * e" unfolding a(7) using a(1) by (simp add: unat_of_nat del: of_nat_add of_nat_mult)
  have s: "unat (mo + ckpt_meta_len h) = unat mo + (12 + 8 * e)" using unat_sum_le [of mo "ckpt_meta_len h"] a(3) l by simp
  then show "unat mo \<le> unat (mo + ckpt_meta_len h)" by simp
  have d: "unat (64 + of_nat (length regs) * 16 :: u32) = 64 + 16 * length regs"
    using a(5) by (simp add: unat_word_ariths unat_of_nat)
  have z: "unat (ckpt_meta_size (lm_entry_count m)) = 12 + 8 * e" "unat (ckpt_meta_size 0) = 12"
    using a(1,2) by (simp_all add: ckpt_meta_size_def unat_word_ariths)
  have v: "ckpt_lifecycle_meta_valid m (ckpt_meta_len h) 8192"
    unfolding ckpt_lifecycle_meta_valid_def word_less_nat_alt z l using a by simp
  have c: "ckpt_meta_len h \<noteq> 0" "\<not> mo + ckpt_meta_len h < mo" "\<not> mo < 64 + of_nat (length regs) * 16" "\<not> 8192 < mo + ckpt_meta_len h"
    using l a(3-5) by (auto simp: word_less_nat_alt s d unat_eq_0 [symmetric])
  show "ckpt_check_meta h (slot_bytes_of h regs m mo buf) (64 + of_nat (length regs) * 16) 8192 = Some (mo + ckpt_meta_len h)"
    using c v by (simp add: ckpt_check_meta_def a(6) slot_meta [OF assms] Let_def)
  show "ckpt_load_meta h (slot_bytes_of h regs m mo buf) 8192 = Some m"
    using c v by (simp add: ckpt_load_meta_def a(6) slot_meta [OF assms] Let_def not_less)
qed

lemma slot_accepted:
  assumes l: "slot_laid_out h regs m mo buf" and "sealed h" "kh_state h = CKPT_SLOT_STATE_COMMITTED"
    and "kh_regions_crc32 h = crc32_calc (slice 64 (mo + ckpt_meta_len h - 64) (slot_bytes_of h regs m mo buf))"
  shows "ckpt_slot_parse (ckpt_sd_make_current_layout s) (slot_bytes_of h regs m mo buf) = Some h"
proof -
  have a: "length regs \<le> 8" "kh_magic h = CKPT_V2_MAGIC" "kh_format_version h = 3" "kh_header_size h = 64"
    "kh_region_count h = of_nat (length regs)"
    using l by (simp_all add: slot_laid_out_def)
  have n: "unat (kh_region_count h) = length regs" "(ucast (kh_region_count h) :: u32) = of_nat (length regs)"
    using a(1,5) by (simp_all add: unat_of_nat word_unat_eq_iff)
  have "\<not> kh_region_count h > CKPT_V2_MAX_REGIONS" using n(1) a(1) by (simp add: word_less_nat_alt)
  then have h: "ckpt_slot_header (ckpt_sd_make_current_layout s) (slot_bytes_of h regs m mo buf) = Some h"
    using assms(2,3) a by (simp add: ckpt_slot_header_def slot_header [OF l] sealed_def)
  have d: "unat (64 + of_nat (length regs) * 16 :: u32) = 64 + 16 * length regs"
    using a(1) by (simp add: unat_word_ariths unat_of_nat)
  then have c: "\<not> 64 + of_nat (length regs) * 16 < (64 :: u32)" "\<not> 8192 < (64 + of_nat (length regs) * 16 :: u32)"
    using a(1) by (simp_all add: word_less_nat_alt)
  have r: "ckpt_check_regions (slot_bytes_of h regs m mo buf) (64 + of_nat (length regs) * 16) 8192 (mo + ckpt_meta_len h) [0..<length regs]
      = Some (mo + ckpt_meta_len h)"
    by (rule slot_check_regions [OF l]) (use slot_check_meta(3) [OF l] in auto)
  show ?thesis
    using c assms(4) by (simp add: ckpt_slot_parse_def h Let_def n slot_check_meta(1) [OF l] r)
qed


section \<open>Slots on a card that answers\<close>

definition ckpt_layouts :: "ckpt_layout list" where
  "ckpt_layouts = map ckpt_sd_make_current_layout [0, 1] @ map ckpt_sd_make_legacy_layout [0, 1]"

definition slot_on :: "(u32 \<Rightarrow> block) \<Rightarrow> ckpt_layout \<Rightarrow> u8 list" where
  "slot_on c l = concat (map (\<lambda>i. c (kl_lba l + of_nat i)) [0..<unat (kl_block_count l)])"

definition header_on :: "(u32 \<Rightarrow> block) \<Rightarrow> ckpt_layout \<Rightarrow> ckpt_header option" where
  "header_on c l = ckpt_slot_parse l (slot_on c l)"

definition card_blocks :: "(u32 \<Rightarrow> block) \<Rightarrow> bool" where
  "card_blocks c \<longleftrightarrow> (\<forall>l. length (c l) = 512)"

lemma sd_read_loop_ok:
  "sd_env w = (\<lambda>_. IoOk) \<Longrightarrow> sd_read_loop lba n w = ((SD_OK, map (\<lambda>i. sd_card w (lba + of_nat i)) [0..<n]), w)"
proof (induction n arbitrary: lba)
  case (Suc n)
  have "map (\<lambda>i. sd_card w (lba + of_nat i)) [0..<Suc n] = sd_card w lba # map (\<lambda>i. sd_card w (lba + 1 + of_nat i)) [0..<n]"
    by (subst upt_conv_Cons, simp, subst map_Suc_upt [symmetric]) (simp add: comp_def ac_simps)
  with Suc show ?case by (simp add: sd_read_block_def sd_next_ok del: upt_Suc)
qed simp

lemma sd_read_blocks_ok:
  "sd_ok w \<Longrightarrow> n \<noteq> 0 \<Longrightarrow> sd_read_blocks lba n w =
     ((SD_OK, map (\<lambda>i. sd_card w (lba + of_nat i)) [0..<unat n]), w\<lparr>g_sd_last_error := SD_OK\<rparr>)"
  by (simp add: sd_ok_def sd_read_blocks_def sd_read_loop_ok)

text \<open>The reader looks at nothing behind the end of the slot.\<close>

lemma slice_prefix: "unat off + unat len \<le> length A \<Longrightarrow> slice off len (A @ B) = slice off len A"
  by (simp add: slice_def)

lemma header_prefix: "64 \<le> length A \<Longrightarrow> bytes_ckpt_header (A @ B) = bytes_ckpt_header A"
  by (simp add: bytes_ckpt_header_def at_prefix nth_append)

lemma region_prefix: "i + 16 \<le> length A \<Longrightarrow> bytes_ckpt_region (A @ B) i = bytes_ckpt_region A i"
  by (simp add: bytes_ckpt_region_def at_prefix)

lemma unat_add_no_wrap: "\<not> a + b < (a :: u32) \<Longrightarrow> unat (a + b) = unat a + unat b"
  by (simp add: not_less no_olen_add_nat unat_add_lem [THEN iffD1])

lemma check_regions_prefix:
  assumes "set is \<subseteq> {..<n}" "64 + 16 * n \<le> length A" "unat slot_bytes = length A"
  shows "ckpt_check_regions (A @ B) dir_end slot_bytes used is = ckpt_check_regions A dir_end slot_bytes used is"
  using assms(1)
proof (induction "is" arbitrary: used)
  case (Cons i "is")
  let ?r = "bytes_ckpt_region A (64 + 16 * i)"
  have r: "bytes_ckpt_region (A @ B) (64 + 16 * i) = ?r" using Cons.prems assms(2) by (intro region_prefix) simp
  have s: "slice (rg_offset ?r) (rg_length ?r) (A @ B) = slice (rg_offset ?r) (rg_length ?r) A"
    if "\<not> rg_offset ?r + rg_length ?r < rg_offset ?r" "\<not> slot_bytes < rg_offset ?r + rg_length ?r"
    using that(2) unat_add_no_wrap [OF that(1)] assms(3) by (intro slice_prefix) (simp add: word_less_nat_alt)
  from Cons s show ?case by (simp add: r Let_def)
qed simp

lemma check_meta_prefix:
  assumes "unat slot_bytes = length A"
  shows "ckpt_check_meta h (A @ B) dir_end slot_bytes = ckpt_check_meta h A dir_end slot_bytes"
proof -
  let ?mo = "ckpt_meta_off h" and ?ml = "ckpt_meta_len h"
  have "ckpt_lifecycle_meta_valid (bytes_lifecycle_meta (A @ B) (unat ?mo)) ?ml slot_bytes =
      ckpt_lifecycle_meta_valid (bytes_lifecycle_meta A (unat ?mo)) ?ml slot_bytes"
    if "\<not> ?mo + ?ml < ?mo" "\<not> slot_bytes < ?mo + ?ml"
  proof (cases "?ml < ckpt_meta_size 0")
    case False
    then have "unat ?mo + 12 \<le> length A"
      using that(2) unat_add_no_wrap [OF that(1)] assms by (simp add: word_less_nat_alt ckpt_meta_size_def)
    then show ?thesis by (simp add: ckpt_lifecycle_meta_valid_def bytes_lifecycle_meta_def at_prefix)
  qed (simp add: ckpt_lifecycle_meta_valid_def)
  then show ?thesis by (simp add: ckpt_check_meta_def Let_def)
qed


lemma check_regions_bounds:
  "ckpt_check_regions A dir_end slot_bytes used is = Some u \<Longrightarrow> used \<le> slot_bytes \<Longrightarrow> used \<le> u \<and> u \<le> slot_bytes"
proof (induction "is" arbitrary: used)
  case (Cons i "is")
  let ?r = "bytes_ckpt_region A (64 + 16 * i)"
  let ?u = "if rg_offset ?r + rg_length ?r > used then rg_offset ?r + rg_length ?r else used"
  from Cons.prems have "ckpt_check_regions A dir_end slot_bytes ?u is = Some u" "?u \<le> slot_bytes"
    by (auto simp: Let_def split: if_splits)
  from Cons.IH [OF this] show ?case by (auto split: if_splits intro: order_trans less_imp_le)
qed simp

lemma check_meta_bounds:
  "ckpt_check_meta h A dir_end slot_bytes = Some u \<Longrightarrow> dir_end \<le> slot_bytes \<Longrightarrow> dir_end \<le> u \<and> u \<le> slot_bytes"
  by (auto simp: ckpt_check_meta_def Let_def split: if_splits)

lemma parse_prefix:
  assumes "unat (ckpt_sd_slot_bytes_from_layout l) = length A" "64 \<le> length A"
  shows "ckpt_slot_parse l (A @ B) = ckpt_slot_parse l A"
proof (cases "ckpt_slot_header l A")
  case None
  then show ?thesis using header_prefix [OF assms(2)] by (simp add: ckpt_slot_parse_def ckpt_slot_header_def)
next
  case (Some h)
  let ?sb = "ckpt_sd_slot_bytes_from_layout l"
  define rb where "rb = (ucast (kh_region_count h) * 16 :: u32)"
  have h: "ckpt_slot_header l (A @ B) = Some h" using Some header_prefix [OF assms(2)] by (simp add: ckpt_slot_header_def)
  have "kh_region_count h \<le> 64" using Some by (auto simp: ckpt_slot_header_def Let_def not_less split: if_splits)
  then have n: "unat (kh_region_count h) \<le> 64" by (simp add: word_le_nat_alt)
  then have rb: "unat rb = 16 * unat (kh_region_count h)" "unat (64 + rb) = 64 + 16 * unat (kh_region_count h)"
    by (simp_all add: rb_def unat_word_ariths)
  show ?thesis
  proof (cases "64 + rb > ?sb")
    case True
    then show ?thesis by (simp add: ckpt_slot_parse_def h Some Let_def rb_def)
  next
    case False
    then have d: "64 + 16 * unat (kh_region_count h) \<le> length A" "64 + rb \<le> ?sb" "\<not> 64 + rb < 64"
      using rb(2) assms(1) by (simp_all add: word_less_nat_alt word_le_nat_alt)
    have m: "ckpt_check_meta h (A @ B) (64 + rb) ?sb = ckpt_check_meta h A (64 + rb) ?sb"
      by (rule check_meta_prefix [OF assms(1)])
    have r: "ckpt_check_regions (A @ B) (64 + rb) ?sb u [0..<unat (kh_region_count h)] =
        ckpt_check_regions A (64 + rb) ?sb u [0..<unat (kh_region_count h)]" for u
      by (rule check_regions_prefix [OF _ d(1) assms(1)]) auto
    have c: "slice 64 (u' - 64) (A @ B) = slice 64 (u' - 64) A"
      if "ckpt_check_meta h A (64 + rb) ?sb = Some u" "ckpt_check_regions A (64 + rb) ?sb u [0..<unat (kh_region_count h)] = Some u'" for u u'
    proof -
      have u: "64 + rb \<le> u" "u \<le> ?sb" using check_meta_bounds [OF that(1) d(2)] by simp_all
      have "u \<le> u'" "u' \<le> ?sb" using check_regions_bounds [OF that(2) u(2)] by simp_all
      then have "64 \<le> unat u'" "unat u' \<le> length A" using u rb(2) assms(1) by (simp_all add: word_le_nat_alt)
      then show ?thesis by (intro slice_prefix) (simp add: unat_sub word_le_nat_alt)
    qed
    have s: "slice 64 rb (A @ B) = slice 64 rb A" by (rule slice_prefix) (use rb(1) d(1) in simp)
    show ?thesis
      using c s d(2,3)
      by (auto simp: ckpt_slot_parse_def h Some Let_def rb_def [symmetric] m r split: option.split)
  qed
qed

text \<open>Reading changes only the buffer and the driver's error word.\<close>

definition only_read :: "'a ckpt_world_scheme \<Rightarrow> 'a ckpt_world_scheme \<Rightarrow> bool" where
  "only_read w' w \<longleftrightarrow> (\<exists>e b. length b = 8192 \<and> w' = w\<lparr>g_sd_last_error := e, g_ckpt_slot_buf := b\<rparr>)"

lemma only_reads_refl: "length (g_ckpt_slot_buf w) = 8192 \<Longrightarrow> only_read w w"
  unfolding only_read_def by (rule exI [of _ "g_sd_last_error w"], rule exI [of _ "g_ckpt_slot_buf w"]) simp

lemma only_reads_trans: "only_read w2 w1 \<Longrightarrow> only_read w1 w \<Longrightarrow> only_read w2 w"
  unfolding only_read_def by force

lemma only_readD:
  assumes "only_read w' w"
  shows "sd_card w' = sd_card w" "length (g_ckpt_slot_buf w') = 8192" "sd_ok w' = sd_ok w" "g_ckpt_sd_seq w' = g_ckpt_sd_seq w"
    "g_ckpt_sd_seq_seeded w' = g_ckpt_sd_seq_seeded w" "g_sched w' = g_sched w" "sc_table w' = sc_table w" "g_registry w' = g_registry w"
    "g_ckpt_running_prev_bitmap w' = g_ckpt_running_prev_bitmap w" "g_ckpt_launch_count w' = g_ckpt_launch_count w"
    "g_ckpt_exit_count w' = g_ckpt_exit_count w" "w_tick w' = w_tick w"
    "g_ckpt_restore_filtered_regions w' = g_ckpt_restore_filtered_regions w"
  using assms by (auto simp: only_read_def sd_ok_def)

lemma layout_facts:
  assumes "l \<in> set ckpt_layouts"
  shows "unat (ckpt_sd_slot_bytes_from_layout l) = 512 * unat (kl_block_count l)" "0 < unat (kl_block_count l)"
    "unat (kl_block_count l) \<le> 16" "ckpt_sd_slot_bytes_from_layout l \<noteq> 0" "\<not> 8192 < ckpt_sd_slot_bytes_from_layout l"
    "(ucast (kl_block_count l) :: u32) \<noteq> 0" "unat (ucast (kl_block_count l) :: u32) = unat (kl_block_count l)"
  using assms by (auto simp: ckpt_layouts_def ckpt_sd_make_legacy_layout_def ckpt_sd_slot_bytes_from_layout_def)

lemma length_slot_on: "card_blocks c \<Longrightarrow> length (slot_on c l) = 512 * unat (kl_block_count l)"
  by (simp add: slot_on_def card_blocks_def length_concat comp_def sum_list_triv)

lemma read_valid_ok:
  assumes "sd_ok w" "length (g_ckpt_slot_buf w) = 8192" "card_blocks (sd_card w)" "l \<in> set ckpt_layouts"
  shows "\<exists>w'. ckpt_sd_read_valid_layout l w = (header_on (sd_card w) l, w') \<and> only_read w' w \<and>
    (kl_block_count l = 16 \<longrightarrow> g_ckpt_slot_buf w' = slot_on (sd_card w) l)"
proof -
  let ?A = "slot_on (sd_card w) l"
  let ?B = "drop (512 * unat (kl_block_count l)) (g_ckpt_slot_buf w)"
  let ?w = "w\<lparr>g_sd_last_error := SD_OK, g_ckpt_slot_buf := ?A @ ?B\<rparr>"
  note f = layout_facts [OF assms(4)]
  have A: "length ?A = 512 * unat (kl_block_count l)" by (rule length_slot_on [OF assms(3)])
  have b: "buf_put 0 (concat (map (\<lambda>i. sd_card w (kl_lba l + of_nat i)) [0..<unat (kl_block_count l)])) (g_ckpt_slot_buf w) = ?A @ ?B"
    using A by (simp add: buf_put_def slot_on_def)
  have p: "ckpt_slot_parse l (?A @ ?B) = header_on (sd_card w) l"
    unfolding header_on_def by (rule parse_prefix) (use f A in simp_all)
  have "ckpt_sd_read_valid_layout l w = (header_on (sd_card w) l, ?w)"
    using f by (simp add: ckpt_sd_read_valid_layout_def Let_def sd_read_blocks_ok [OF assms(1)] b p)
  moreover have "only_read ?w w"
    unfolding only_read_def by (rule exI [of _ SD_OK], rule exI [of _ "?A @ ?B"]) (use A f(3) assms(2) in simp)
  moreover have "kl_block_count l = 16 \<longrightarrow> ?A @ ?B = ?A" using assms(2) by simp
  ultimately show ?thesis by auto
qed


section \<open>The best slot\<close>

text \<open>The choice as a function of the card alone.\<close>

definition ckpt_pick :: "(u32 \<Rightarrow> block) \<Rightarrow> (ckpt_header \<times> ckpt_layout) option \<Rightarrow> ckpt_layout \<Rightarrow> (ckpt_header \<times> ckpt_layout) option" where
  "ckpt_pick c sel l = (case header_on c l of None \<Rightarrow> sel | Some h \<Rightarrow> if ckpt_better h l sel then Some (h, l) else sel)"

definition ckpt_best :: "(u32 \<Rightarrow> block) \<Rightarrow> (ckpt_header \<times> ckpt_layout) option" where
  "ckpt_best c = foldl (ckpt_pick c) None ckpt_layouts"

lemma find_loop_ok:
  assumes "set ls \<subseteq> set ckpt_layouts" "sd_ok w" "length (g_ckpt_slot_buf w) = 8192" "card_blocks (sd_card w)"
  shows "\<exists>w'. ckpt_find_loop ls sel w = (foldl (ckpt_pick (sd_card w)) sel ls, w') \<and> only_read w' w"
  using assms
proof (induction ls arbitrary: sel w)
  case Nil
  then show ?case by (simp add: only_reads_refl)
next
  case (Cons l ls)
  have "l \<in> set ckpt_layouts" using Cons.prems(1) by simp
  from read_valid_ok [OF Cons.prems(2-4) this] obtain w1 where w1: "ckpt_sd_read_valid_layout l w = (header_on (sd_card w) l, w1)"
    "only_read w1 w" by blast
  note d = only_readD [OF w1(2)]
  have "\<exists>w'. ckpt_find_loop ls s w1 = (foldl (ckpt_pick (sd_card w1)) s ls, w') \<and> only_read w' w1" for s
    by (rule Cons.IH) (use Cons.prems d in simp_all)
  then have "\<exists>w'. ckpt_find_loop ls s w1 = (foldl (ckpt_pick (sd_card w)) s ls, w') \<and> only_read w' w" for s
    using only_reads_trans [OF _ w1(2)] d(1) by metis
  then show ?case by (cases "header_on (sd_card w) l") (simp_all add: w1(1) ckpt_pick_def [of _ _ l])
qed

lemma find_best_ok:
  assumes "sd_ok w" "length (g_ckpt_slot_buf w) = 8192" "card_blocks (sd_card w)"
  shows "\<exists>w'. ckpt_sd_find_best_slot w = (ckpt_best (sd_card w), w') \<and> only_read w' w"
proof -
  let ?a = "map ckpt_sd_make_current_layout [0, 1]" and ?b = "map ckpt_sd_make_legacy_layout [0, 1]"
  have s: "set ?a \<subseteq> set ckpt_layouts" "set ?b \<subseteq> set ckpt_layouts" by (auto simp: ckpt_layouts_def)
  from find_loop_ok [OF s(1) assms] obtain w1 where w1: "ckpt_find_loop ?a None w = (foldl (ckpt_pick (sd_card w)) None ?a, w1)" "only_read w1 w"
    by blast
  note d = only_readD [OF w1(2)]
  have "sd_ok w1" "card_blocks (sd_card w1)" using assms d by simp_all
  from find_loop_ok [OF s(2) this(1) d(2) this(2)] obtain w2 where
    w2: "ckpt_find_loop ?b (foldl (ckpt_pick (sd_card w)) None ?a) w1 = (foldl (ckpt_pick (sd_card w1)) (foldl (ckpt_pick (sd_card w)) None ?a) ?b, w2)"
    "only_read w2 w1" by blast
  have "ckpt_sd_find_best_slot w = (ckpt_best (sd_card w), w2)"
    unfolding ckpt_sd_find_best_slot_def w1(1) by (simp only: case_prod_conv w2(1)) (simp add: ckpt_best_def ckpt_layouts_def d(1))
  with only_reads_trans [OF w2(2) w1(2)] show ?thesis by blast
qed

lemma ckpt_pick_inv:
  assumes "\<And>bh bl. sel = Some (bh, bl) \<Longrightarrow> header_on c bl = Some bh \<and> bl \<in> S"
  shows "foldl (ckpt_pick c) sel ls = Some (bh, bl) \<Longrightarrow> header_on c bl = Some bh \<and> bl \<in> S \<union> set ls"
    "l \<in> set ls \<Longrightarrow> header_on c l = Some h \<Longrightarrow> \<exists>bh bl. foldl (ckpt_pick c) sel ls = Some (bh, bl) \<and> kh_seq h \<le> kh_seq bh"
    "sel = Some (h, l) \<Longrightarrow> \<exists>bh bl. foldl (ckpt_pick c) sel ls = Some (bh, bl) \<and> kh_seq h \<le> kh_seq bh"
proof -
  have mono: "\<exists>bh' bl'. foldl (ckpt_pick c) (Some (bh, bl)) ls = Some (bh', bl') \<and> kh_seq bh \<le> kh_seq bh'" for bh bl ls
  proof (induction ls arbitrary: bh bl)
    case (Cons l ls)
    have "\<exists>bh1 bl1. ckpt_pick c (Some (bh, bl)) l = Some (bh1, bl1) \<and> kh_seq bh \<le> kh_seq bh1"
      by (cases "header_on c l") (auto simp: ckpt_pick_def ckpt_better_def)
    then obtain bh1 bl1 where "ckpt_pick c (Some (bh, bl)) l = Some (bh1, bl1)" "kh_seq bh \<le> kh_seq bh1" by blast
    with Cons.IH [of bh1 bl1] show ?case by (auto intro: order_trans)
  qed simp
  then show "sel = Some (h, l) \<Longrightarrow> \<exists>bh bl. foldl (ckpt_pick c) sel ls = Some (bh, bl) \<and> kh_seq h \<le> kh_seq bh" by simp
  show "l \<in> set ls \<Longrightarrow> header_on c l = Some h \<Longrightarrow> \<exists>bh bl. foldl (ckpt_pick c) sel ls = Some (bh, bl) \<and> kh_seq h \<le> kh_seq bh"
  proof -
    assume l: "l \<in> set ls" "header_on c l = Some h"
    then obtain as bs where ls: "ls = as @ l # bs" by (meson split_list)
    have "\<exists>bh bl. ckpt_pick c s l = Some (bh, bl) \<and> kh_seq h \<le> kh_seq bh" for s
      using l(2) by (cases s) (auto simp: ckpt_pick_def ckpt_better_def not_less)
    then obtain bh bl where "ckpt_pick c (foldl (ckpt_pick c) sel as) l = Some (bh, bl)" "kh_seq h \<le> kh_seq bh" by blast
    with mono [of bh bl bs] show ?thesis by (auto simp: ls intro: order_trans)
  qed
  show "foldl (ckpt_pick c) sel ls = Some (bh, bl) \<Longrightarrow> header_on c bl = Some bh \<and> bl \<in> S \<union> set ls"
    using assms
  proof (induction ls arbitrary: sel S)
    case (Cons l ls)
    have "\<And>bh bl. ckpt_pick c sel l = Some (bh, bl) \<Longrightarrow> header_on c bl = Some bh \<and> bl \<in> insert l S"
      using Cons.prems(2) by (auto simp: ckpt_pick_def split: option.splits if_splits)
    from Cons.IH [OF _ this] Cons.prems(1) show ?case by auto
  qed auto
qed

lemma ckpt_best_valid: "ckpt_best c = Some (bh, bl) \<Longrightarrow> header_on c bl = Some bh \<and> bl \<in> set ckpt_layouts"
  using ckpt_pick_inv(1) [of None c "{}" ckpt_layouts bh bl] by (simp add: ckpt_best_def)

lemma ckpt_best_upper:
  "l \<in> set ckpt_layouts \<Longrightarrow> header_on c l = Some h \<Longrightarrow> \<exists>bh bl. ckpt_best c = Some (bh, bl) \<and> kh_seq h \<le> kh_seq bh"
  using ckpt_pick_inv(2) [of None c "{}" l ckpt_layouts h] by (simp add: ckpt_best_def)

lemma ckpt_best_unique:
  assumes "l \<in> set ckpt_layouts" "header_on c l = Some h"
    and "\<And>l' h'. l' \<in> set ckpt_layouts \<Longrightarrow> l' \<noteq> l \<Longrightarrow> header_on c l' = Some h' \<Longrightarrow> kh_seq h' < kh_seq h"
  shows "ckpt_best c = Some (h, l)"
proof -
  from ckpt_best_upper [OF assms(1,2)] obtain bh bl where b: "ckpt_best c = Some (bh, bl)" "kh_seq h \<le> kh_seq bh" by blast
  from ckpt_best_valid [OF b(1)] have v: "header_on c bl = Some bh" "bl \<in> set ckpt_layouts" by simp_all
  have "bl = l" using assms(3) [OF v(2) _ v(1)] b(2) by fastforce
  with v b assms(2) show ?thesis by simp
qed

end
