(* ===== verification/Checkpoint_Save.thy ===== *)
theory Checkpoint_Save
  imports Checkpoint_Slots
begin

text \<open>
  A save and a load of the running programs, on a card that answers: the save
  collects the state of every running restorable task into a slot, and the load
  hands each task the very bytes it gave.
\<close>

section \<open>Collecting the states\<close>

text \<open>A running task: its id, the bytes it gives, its descriptor.\<close>

type_synonym saved_state = "nat \<times> u8 list \<times> restore_desc"

definition task_running ::
  "(u32 \<Rightarrow> u32 \<Rightarrow> 'a ckpt_world_scheme \<Rightarrow> int \<times> (u8 list \<times> u32) option) \<Rightarrow> 'a ckpt_world_scheme \<Rightarrow> nat \<Rightarrow> u8 list \<Rightarrow> restore_desc \<Rightarrow> bool" where
  "task_running call_get w i b d \<longleftrightarrow> restore_registry_find (of_nat i) w = Some d \<and> sc_table w ! i \<noteq> None \<and> rd_task_id d = of_nat i \<and>
     rd_task_class d = TASK_CLASS_RESTORABLE_NOW \<and> rd_get_state_fn d \<noteq> 0 \<and> rd_restore_fn d \<noteq> 0 \<and> rd_max_state_len d \<le> 4096 \<and>
     rd_min_state_len d \<le> of_nat (length b) \<and> of_nat (length b) \<le> rd_max_state_len d \<and> length b \<le> 4096 \<and>
     (\<forall>cap. of_nat (length b) \<le> cap \<longrightarrow> call_get (rd_get_state_fn d) cap w = (SCHED_OK, Some (b, of_nat (length b))))"

definition task_idle ::
  "(u32 \<Rightarrow> u32 \<Rightarrow> 'a ckpt_world_scheme \<Rightarrow> int \<times> (u8 list \<times> u32) option) \<Rightarrow> 'a ckpt_world_scheme \<Rightarrow> nat \<Rightarrow> bool" where
  "task_idle call_get w i \<longleftrightarrow> (case restore_registry_find (of_nat i) w of None \<Rightarrow> True
     | Some d \<Rightarrow> rd_task_class d \<noteq> TASK_CLASS_RESTORABLE_NOW \<or> rd_get_state_fn d = 0 \<or> sc_table w ! i = None \<or>
         (\<forall>cap. snd (call_get (rd_get_state_fn d) cap w) = None))"

text \<open>The states of the tasks \<open>is\<close>, and what the loop has after collecting them.\<close>

definition states_of :: "(nat \<Rightarrow> (u8 list \<times> restore_desc) option) \<Rightarrow> nat list \<Rightarrow> saved_state list" where
  "states_of T is = concat (map (\<lambda>i. case T i of None \<Rightarrow> [] | Some (b, d) \<Rightarrow> [(i, b, d)]) is)"

definition blobs :: "saved_state list \<Rightarrow> u8 list" where
  "blobs ss = concat (map (\<lambda>(i, b, d). b) ss)"

fun items_of :: "nat \<Rightarrow> saved_state list \<Rightarrow> ckpt_item list" where
  "items_of off [] = []"
| "items_of off ((i, b, d) # ss) = \<lparr> ki_task_id = of_nat i, ki_state_version = rd_state_version d, ki_len = of_nat (length b),
     ki_offset = of_nat off, ki_crc32 = crc32_calc b \<rparr> # items_of (off + length b) ss"

definition collected :: "saved_state list \<Rightarrow> u8 list \<times> ckpt_item list \<times> u32" where
  "collected ss = (buf_put 192 (blobs ss) (replicate 8192 0), items_of 192 ss, of_nat (length (blobs ss)))"

lemma blobs_append [simp]: "blobs (xs @ ys) = blobs xs @ blobs ys" "blobs [] = []" "blobs ((i, b, d) # ys) = b @ blobs ys"
  by (simp_all add: blobs_def)

lemma length_items_of [simp]: "length (items_of off ss) = length ss"
  by (induction off ss rule: items_of.induct) simp_all

lemma items_of_append: "items_of off (xs @ ys) = items_of off xs @ items_of (off + length (blobs xs)) ys"
  by (induction off xs rule: items_of.induct) (simp_all add: add.assoc)

lemma buf_put_twice:
  "192 + length xs + length ys \<le> length buf \<Longrightarrow> buf_put (192 + length xs) ys (buf_put 192 xs buf) = buf_put 192 (xs @ ys) buf"
  by (simp add: buf_put_def ac_simps)

lemma collect_idle:
  assumes "task_idle call_get w i"
  shows "ckpt_collect_one call_get w slot_bytes meta_len i acc = acc"
proof -
  obtain buf items pb where a: "acc = (buf, items, pb)" by (cases acc) auto
  show ?thesis
  proof (cases "restore_registry_find (of_nat i) w")
    case (Some d)
    have g: "(case call_get (rd_get_state_fn d) cap w of (rc, None) \<Rightarrow> acc | (rc, Some (blob, len)) \<Rightarrow> f rc blob len) = acc"
      if "\<forall>cap. snd (call_get (rd_get_state_fn d) cap w) = None" for cap f
      using spec [OF that, of cap] by (cases "call_get (rd_get_state_fn d) cap w") simp
    have "rd_task_class d \<noteq> TASK_CLASS_RESTORABLE_NOW \<or> rd_get_state_fn d = 0 \<or> sc_table w ! i = None \<or>
        (\<forall>cap. snd (call_get (rd_get_state_fn d) cap w) = None)"
      using assms Some by (simp add: task_idle_def)
    then show ?thesis
    proof (elim disjE)
      assume n: "\<forall>cap. snd (call_get (rd_get_state_fn d) cap w) = None"
      show ?thesis by (simp only: ckpt_collect_one_def a prod.case Some option.case Let_def g [OF n, unfolded a] if_cancel)
    qed (simp_all add: ckpt_collect_one_def a Some)
  qed (simp add: ckpt_collect_one_def a)
qed

lemma collect_running:
  assumes r: "task_running call_get w i b d" and "g_sched w" and fit: "192 + length (blobs ss) + length b + unat meta_len \<le> 8192"
  shows "ckpt_collect_one call_get w 8192 meta_len i (collected ss) = collected (ss @ [(i, b, d)])"
proof -
  define n where "n = length (blobs ss)"
  define off where "off = ckpt_sd_payload_base + (of_nat n :: u32)"
  define rem where "rem = 8192 - (off + meta_len)"
  have n: "n < 8192" "unat (of_nat n :: u32) = n" using fit by (simp_all add: n_def unat_of_nat)
  have off: "off = of_nat (192 + n)" by (simp add: off_def ckpt_sd_payload_base_def)
  have uoff: "unat off = 192 + n" unfolding off using n(1) by (simp add: unat_of_nat del: of_nat_add)
  have lb: "length b \<le> 4096" "unat (of_nat (length b) :: u32) = length b" using r by (simp_all add: task_running_def unat_of_nat)
  have sum: "unat (off + meta_len) = 192 + n + unat meta_len"
    using fit uoff n_def by (subst unat_sum_le) simp_all
  have rem: "unat rem = 8192 - (192 + n + unat meta_len)"
    unfolding rem_def by (subst unat_sub) (use fit sum in \<open>simp_all add: word_le_nat_alt n_def\<close>)
  have le: "of_nat (length b) \<le> rem" using rem lb(2) fit by (simp add: word_le_nat_alt n_def)
  have c: "\<not> 8192 < off + meta_len" using sum fit by (simp add: word_less_nat_alt n_def)
  have d: "rd_min_state_len d \<le> of_nat (length b)" "of_nat (length b) \<le> rd_max_state_len d" "rd_max_state_len d \<le> 4096"
    using r by (simp_all add: task_running_def)
  have mx: "\<not> 4096 < rd_max_state_len d" "\<not> rem < rd_min_state_len d" "(of_nat (length b) :: u32) \<le> 4096"
    using d le by (auto simp: not_less)
  define len0 where "len0 = (if rd_max_state_len d < rem then rd_max_state_len d else rem)"
  define cap where "cap = (if 4096 < len0 then 4096 else len0)"
  have cap: "of_nat (length b) \<le> cap" using le d(2) mx(3) by (simp add: cap_def len0_def)
  have g: "call_get (rd_get_state_fn d) cap w = (SCHED_OK, Some (b, of_nat (length b)))" using r cap by (simp add: task_running_def)
  have b1: "buf_put (192 + n) b (buf_put 192 (blobs ss) (replicate 8192 0)) = buf_put 192 (blobs ss @ b) (replicate 8192 0)"
    unfolding n_def by (rule buf_put_twice) (use fit in simp)
  have s: "slice off (of_nat (length b)) (buf_put 192 (blobs ss @ b) (replicate 8192 0)) = b"
    using uoff lb(2) fit unfolding slice_def by (simp add: buf_put_def n_def)
  have ok: "\<not> of_nat (length b) < rd_min_state_len d" "\<not> rd_max_state_len d < of_nat (length b)" "\<not> rem < of_nat (length b)"
    "\<not> 4096 < (of_nat (length b) :: u32)"
    using d le mx(3) by (simp_all add: not_less)
  have f: "restore_registry_find (of_nat i) w = Some d" "rd_task_class d = TASK_CLASS_RESTORABLE_NOW" "rd_get_state_fn d \<noteq> 0" "sc_table w ! i \<noteq> None"
    using r by (simp_all add: task_running_def)
  have "ckpt_collect_one call_get w 8192 meta_len i (collected ss) =
      (buf_put 192 (blobs ss @ b) (replicate 8192 0), items_of 192 ss @ [\<lparr> ki_task_id = of_nat i, ki_state_version = rd_state_version d,
         ki_len = of_nat (length b), ki_offset = off, ki_crc32 = crc32_calc b \<rparr>], of_nat n + of_nat (length b))"
    unfolding ckpt_collect_one_def collected_def n_def [symmetric] prod.case f(1) option.case Let_def off_def [symmetric] rem_def [symmetric]
      len0_def [symmetric] cap_def [symmetric] g
    using f(2-4) assms(2) c mx(1,2) ok by (simp add: uoff b1 s)
  also have "\<dots> = collected (ss @ [(i, b, d)])" by (simp add: collected_def items_of_append off n_def)
  finally show ?thesis .
qed

lemma collect_loop:
  assumes "\<And>i. i \<in> set is \<Longrightarrow> T i = None \<Longrightarrow> task_idle call_get w i"
    and "\<And>i b d. i \<in> set is \<Longrightarrow> T i = Some (b, d) \<Longrightarrow> task_running call_get w i b d"
    and "g_sched w" "192 + length (blobs (ss @ states_of T is)) + unat meta_len \<le> 8192" "length (ss @ states_of T is) \<le> 8"
  shows "ckpt_collect_loop (ckpt_collect_one call_get w 8192 meta_len) is (collected ss) = collected (ss @ states_of T is)"
  using assms
proof (induction "is" arbitrary: ss)
  case (Cons i "is")
  have c: "states_of T (i # is) = (case T i of None \<Rightarrow> [] | Some (b, d) \<Rightarrow> [(i, b, d)]) @ states_of T is"
    by (simp add: states_of_def)
  have len: "length (fst (snd (collected ss))) = length ss" by (simp add: collected_def)
  show ?case
  proof (cases "length ss < 8")
    case False
    have "length ss + length (states_of T (i # is)) \<le> 8" using Cons.prems(5) by simp
    with False have "states_of T (i # is) = []" unfolding length_0_conv [symmetric] by linarith
    with False len show ?thesis by simp
  next
    case True
    show ?thesis
    proof (cases "T i")
      case None
      then have "ckpt_collect_one call_get w 8192 meta_len i (collected ss) = collected ss"
        using Cons.prems(1) by (intro collect_idle) simp
      with True None len c Cons.IH [of ss] Cons.prems show ?thesis by simp
    next
      case (Some bd)
      obtain b d where bd: "bd = (b, d)" by (cases bd)
      have "ckpt_collect_one call_get w 8192 meta_len i (collected ss) = collected (ss @ [(i, b, d)])"
        using Cons.prems Some bd c by (intro collect_running) simp_all
      with True Some bd len c Cons.IH [of "ss @ [(i, b, d)]"] Cons.prems show ?thesis by simp
    qed
  qed
qed (simp add: states_of_def)

section \<open>Counting launches and exits\<close>

lemma bit_running_bitmap:
  assumes "i < 32"
  shows "bit (ckpt_running_bitmap w) i \<longleftrightarrow> sc_table w ! i \<noteq> None"
proof -
  have "bit (foldl (\<lambda>b i. if P i then b OR id_bit i else b) b is) i \<longleftrightarrow> bit b i \<or> i \<in> set is \<and> P i" for P b "is"
    using assms by (induction "is" arbitrary: b) auto
  from this [of "\<lambda>i. sc_table w ! i \<noteq> None" 0 "[0..<32]"] assms show ?thesis by (simp add: ckpt_running_bitmap_def del: upt_Suc)
qed

lemma and_id_bit: "w AND id_bit i \<noteq> 0 \<longleftrightarrow> bit (w :: u32) i"
  by (simp add: id_bit_def bit_iff_and_push_bit_not_eq_0)

lemma count_bits:
  assumes "length xs = 32"
  shows "length (ckpt_count_bits bits xs) = 32" "i < 32 \<Longrightarrow> ckpt_count_bits bits xs ! i = (if bit bits i then xs ! i + 1 else xs ! i)"
proof -
  let ?f = "\<lambda>xs i. if bits AND id_bit i \<noteq> 0 then xs[i := xs ! i + 1] else xs"
  have "length (foldl ?f ys is) = length ys" for "is" and ys :: "u16 list" by (induction "is" arbitrary: ys) simp_all
  with assms show "length (ckpt_count_bits bits xs) = 32" by (simp add: ckpt_count_bits_def del: upt_Suc)
  have "foldl ?f ys is ! i = (if i \<in> set is \<and> bit bits i then ys ! i + 1 else ys ! i)"
    if "distinct is" "set is \<subseteq> {..<32}" "length ys = 32" for "is" and ys :: "u16 list" and i
    using that by (induction "is" arbitrary: ys) (auto simp: and_id_bit nth_list_update)
  moreover have "set [0..<32] \<subseteq> {..<32 :: nat}" by auto
  ultimately show "i < 32 \<Longrightarrow> ckpt_count_bits bits xs ! i = (if bit bits i then xs ! i + 1 else xs ! i)"
    using assms by (simp add: ckpt_count_bits_def del: upt_Suc)
qed

text \<open>A running task has been launched more often than it has exited.\<close>

definition lives :: "'a ckpt_world_scheme \<Rightarrow> nat \<Rightarrow> bool" where
  "lives w i \<longleftrightarrow> (if bit (g_ckpt_running_prev_bitmap w) i then g_ckpt_exit_count w ! i < g_ckpt_launch_count w ! i
     else g_ckpt_exit_count w ! i \<le> g_ckpt_launch_count w ! i \<and> g_ckpt_launch_count w ! i \<noteq> 0xFFFF)"

lemma counted_lives:
  assumes "lives w i" "i < 32" "sc_table w ! i \<noteq> None" "length (g_ckpt_launch_count w) = 32" "length (g_ckpt_exit_count w) = 32"
  shows "g_ckpt_exit_count (ckpt_count_lifecycle w) ! i < g_ckpt_launch_count (ckpt_count_lifecycle w) ! i"
proof -
  have inc: "a \<le> b \<Longrightarrow> b \<noteq> 0xFFFF \<Longrightarrow> a < b + 1" for a b :: u16 
  proof -
    assume "a \<le> b" "b \<noteq> 0xFFFF"
    then have "unat b \<noteq> 65535" by (simp add: word_unat_eq_iff)
    then have "unat (b + 1) = unat b + 1" using unat_u16_lt [of b] by (simp add: unat_word_ariths del: unat_u16_lt)
    with \<open>a \<le> b\<close> show "a < b + 1" by (simp add: word_less_nat_alt word_le_nat_alt)
  qed
  show ?thesis
    using assms bit_running_bitmap [OF assms(2), of w] inc
    by (auto simp: ckpt_count_lifecycle_def ckpt_launched_def ckpt_exited_def count_bits lives_def bit_simps split: if_splits)
qed

section \<open>The card after a save\<close>

lemma length_buf_blocks [simp]: "length (buf_blocks b) = 16"
  by (simp add: buf_blocks_def)

lemma nth_buf_blocks: "i < 16 \<Longrightarrow> buf_blocks b ! i = take 512 (drop (512 * i) b)"
  by (simp add: buf_blocks_def)

lemma concat_chunks: "concat (map (\<lambda>i. take k (drop (k * i) b)) [0..<n]) = take (k * n) b"
  by (induction n) (simp_all add: take_add [of "k * _" k] add.commute [of k])

lemma concat_buf_blocks: "length b = 8192 \<Longrightarrow> concat (buf_blocks b) = b"
  unfolding buf_blocks_def concat_chunks by simp

text \<open>The second write replaces the first block alone.\<close>

lemma commit_card:
  assumes "length H = 64" "length H' = 64" "length X = 8128"
  shows "map (\<lambda>i. card_put lba (take 1 (buf_blocks (H' @ X))) (card_put lba (buf_blocks (H @ X)) c) (lba + of_nat i)) [0..<16] =
    buf_blocks (H' @ X)"
proof (rule nth_equalityI)
  fix i assume "i < length (map (\<lambda>i. card_put lba (take 1 (buf_blocks (H' @ X))) (card_put lba (buf_blocks (H @ X)) c) (lba + of_nat i)) [0..<16])"
  then have i: "i < 16" by simp
  have one: "take 1 (buf_blocks (H' @ X)) = [buf_blocks (H' @ X) ! 0]" by (simp add: buf_blocks_def upt_rec)
  have "card_put lba (buf_blocks (H @ X)) c (lba + of_nat i) = buf_blocks (H @ X) ! i" using i by (intro card_put_nth) simp_all
  moreover have "i \<noteq> 0 \<Longrightarrow> buf_blocks (H @ X) ! i = buf_blocks (H' @ X) ! i" using i assms(1,2) by (simp add: nth_buf_blocks)
  moreover have "i \<noteq> 0 \<Longrightarrow> lba + of_nat i \<noteq> lba" using lba_inj [of i 0 lba] i by simp
  ultimately show "map (\<lambda>i. card_put lba (take 1 (buf_blocks (H' @ X))) (card_put lba (buf_blocks (H @ X)) c) (lba + of_nat i)) [0..<16] ! i =
      buf_blocks (H' @ X) ! i"
    unfolding one using i by (cases "i = 0") simp_all
qed simp

lemma layouts_apart:
  assumes "l \<in> set ckpt_layouts" "l' \<in> set ckpt_layouts" "l \<noteq> l'" "i < unat (kl_block_count l)" "j < unat (kl_block_count l')"
  shows "kl_lba l + of_nat i \<noteq> kl_lba l' + of_nat j"
proof
  assume e: "kl_lba l + of_nat i = kl_lba l' + of_nat j"
  have s: "k < unat (kl_block_count l) \<Longrightarrow> unat (kl_lba l + of_nat k) = unat (kl_lba l) + k" if "l \<in> set ckpt_layouts" for k l
    using that by (auto simp: ckpt_layouts_def ckpt_sd_make_legacy_layout_def unat_word_ariths unat_of_nat)
  have "unat (kl_lba l) + i = unat (kl_lba l') + j" using arg_cong [OF e, of unat] s assms by simp
  with assms show False by (auto simp: ckpt_layouts_def ckpt_sd_make_legacy_layout_def)
qed

lemma slot_on_other:
  assumes "l \<in> set ckpt_layouts" "l' \<in> set ckpt_layouts" "l' \<noteq> l" "length bs \<le> unat (kl_block_count l)"
  shows "slot_on (card_put (kl_lba l) bs c) l' = slot_on c l'"
proof -
  have "card_put (kl_lba l) bs c (kl_lba l' + of_nat i) = c (kl_lba l' + of_nat i)" if "i < unat (kl_block_count l')" for i
    using layouts_apart [OF assms(2,1,3) that] assms(4) by (intro card_put_other) auto
  then show ?thesis unfolding slot_on_def by (intro arg_cong [of _ _ concat] map_cong) simp_all
qed

section \<open>The image of a slot\<close>

definition ckpt_regs :: "saved_state list \<Rightarrow> ckpt_region list" where
  "ckpt_regs ss = map ckpt_item_region (items_of 192 ss)"

definition ckpt_end :: "saved_state list \<Rightarrow> u32" where
  "ckpt_end ss = of_nat (192 + length (blobs ss))"

definition region_of :: "nat \<Rightarrow> saved_state \<Rightarrow> ckpt_region" where
  "region_of off = (\<lambda>(i, b, d). \<lparr> rg_region_id = ucast (of_nat i :: u8), rg_state_version = rd_state_version d, rg_offset = of_nat off,
     rg_length = of_nat (length b), rg_crc32 = crc32_calc b \<rparr>)"

lemma length_regs [simp]: "length (ckpt_regs ss) = length ss"
  by (simp add: ckpt_regs_def)

lemma ckpt_regs_nth: "k < length ss \<Longrightarrow> ckpt_regs ss ! k = region_of (192 + length (blobs (take k ss))) (ss ! k)"
proof -
  assume k: "k < length ss"
  obtain i b d where s: "ss ! k = (i, b, d)" by (cases "ss ! k") auto
  have "items_of 192 ss ! k = items_of 192 (take k ss @ (i, b, d) # drop (Suc k) ss) ! k"
    using id_take_nth_drop [OF k] s by simp
  with k s show ?thesis by (simp add: items_of_append nth_append ckpt_regs_def ckpt_item_region_def region_of_def del: append_take_drop_id)
qed

lemma blob_in_place:
  assumes "k < length ss" "192 + length (blobs ss) \<le> 8192" "ss ! k = (i, b, d)"
  shows "192 + length (blobs (take k ss)) + length b \<le> 192 + length (blobs ss)"
    "slice (of_nat (192 + length (blobs (take k ss)))) (of_nat (length b)) (fst (collected ss)) = b"
proof -
  let ?n = "192 + length (blobs (take k ss))"
  have s: "blobs ss = blobs (take k ss) @ b @ blobs (drop (Suc k) ss)"
    using arg_cong [OF id_take_nth_drop [OF assms(1)], of blobs] assms(3) by simp
  then have l: "length (blobs ss) = length (blobs (take k ss)) + length b + length (blobs (drop (Suc k) ss))" by simp
  then show "?n + length b \<le> 192 + length (blobs ss)" by simp
  have n: "unat (of_nat ?n :: u32) = ?n" "unat (of_nat (length b) :: u32) = length b"
    using l assms(2) by (simp_all add: unat_of_nat del: of_nat_add)
  have "fst (collected ss) = (replicate 192 0 @ blobs (take k ss)) @ b @ (blobs (drop (Suc k) ss) @ replicate (8192 - (192 + length (blobs ss))) 0)"
    using assms(2) by (simp add: collected_def buf_put_def s)
  moreover have "length (replicate 192 0 @ blobs (take k ss)) = ?n" by simp
  ultimately show "slice (of_nat ?n) (of_nat (length b)) (fst (collected ss)) = b"
    unfolding slice_def n by (simp only: append_eq_conv_conj [THEN iffD1, OF refl]) simp
qed

lemma length_collected: "192 + length (blobs ss) \<le> 8192 \<Longrightarrow> length (fst (collected ss)) = 8192"
  by (simp add: collected_def)

lemma unat_ckpt_end: "192 + length (blobs ss) \<le> 8192 \<Longrightarrow> unat (ckpt_end ss) = 192 + length (blobs ss)"
  by (simp add: ckpt_end_def unat_of_nat del: of_nat_add)

lemma regs_placed:
  assumes "192 + length (blobs ss) \<le> 8192"
  shows "list_all (region_placed (fst (collected ss)) (ckpt_end ss)) (ckpt_regs ss)"
  unfolding list_all_length
proof (intro allI impI)
  fix k assume "k < length (ckpt_regs ss)"
  then have k: "k < length ss" by simp
  obtain i b d where s: "ss ! k = (i, b, d)" by (cases "ss ! k") auto
  note p = blob_in_place [OF k assms s]
  have "unat (of_nat (192 + length (blobs (take k ss))) :: u32) = 192 + length (blobs (take k ss))" "unat (of_nat (length b) :: u32) = length b"
    using p(1) assms by (simp_all add: unat_of_nat del: of_nat_add)
  with p unat_ckpt_end [OF assms] show "region_placed (fst (collected ss)) (ckpt_end ss) (ckpt_regs ss ! k)"
    by (simp add: ckpt_regs_nth [OF k] s region_of_def region_placed_def)
qed

lemma used_end_meta:
  assumes "list_all (region_placed buf mo) regs" "unat mo \<le> unat u" "unat mo \<le> 8192"
  shows "foldl (\<lambda>u r. if rg_offset r + rg_length r > u then rg_offset r + rg_length r else u) u regs = u"
  using assms(1)
proof (induction regs)
  case (Cons r regs)
  then have "unat (rg_offset r) + unat (rg_length r) \<le> unat mo" by (simp add: region_placed_def)
  then have "\<not> rg_offset r + rg_length r > u" using unat_sum_le [of "rg_offset r" "rg_length r"] assms(2,3) by (simp add: word_less_nat_alt)
  with Cons show ?case by simp
qed simp

text \<open>The slot of a checkpoint: the states, the lifecycle record, a committed header.\<close>

definition ckpt_holds :: "(u32 \<Rightarrow> block) \<Rightarrow> ckpt_layout \<Rightarrow> u32 \<Rightarrow> saved_state list \<Rightarrow> lifecycle_meta \<Rightarrow> bool" where
  "ckpt_holds c l seq ss m \<longleftrightarrow> (\<exists>h. kh_seq h = seq \<and> header_on c l = Some h \<and> slot_laid_out h (ckpt_regs ss) m (ckpt_end ss) (fst (collected ss)) \<and>
     slot_on c l = slot_bytes_of h (ckpt_regs ss) m (ckpt_end ss) (fst (collected ss)))"

lemma seal_fields [simp]:
  "kh_seq (ckpt_seal h) = kh_seq h" "kh_reserved0 (ckpt_seal h) = kh_reserved0 h" "kh_reserved1 (ckpt_seal h) = kh_reserved1 h"
  "kh_magic (ckpt_seal h) = kh_magic h" "kh_format_version (ckpt_seal h) = kh_format_version h" "kh_header_size (ckpt_seal h) = kh_header_size h"
  "kh_region_count (ckpt_seal h) = kh_region_count h" "kh_state (ckpt_seal h) = kh_state h" "kh_regions_crc32 (ckpt_seal h) = kh_regions_crc32 h"
  "kh_slot_id (ckpt_seal h) = kh_slot_id h"
  by (simp_all add: ckpt_seal_def)

lemma commit_ok:
  assumes "sd_ok w" "s = 0 \<or> s = 1" "length (ckpt_header_bytes hdr1) = 64" "length (ckpt_header_bytes h2) = 64" "length X = 8128"
    and "h2 = ckpt_seal (hdr1\<lparr>kh_state := CKPT_SLOT_STATE_COMMITTED\<rparr>)"
  shows "\<exists>w'. ckpt_commit (ckpt_sd_make_current_layout s) hdr1 (ckpt_header_bytes hdr1 @ X) w = (SD_OK, w') \<and>
     w' = w\<lparr>sd_card := sd_card w', g_sd_last_error := SD_OK, g_ckpt_slot_buf := ckpt_header_bytes h2 @ X\<rparr> \<and>
     slot_on (sd_card w') (ckpt_sd_make_current_layout s) = ckpt_header_bytes h2 @ X \<and>
     (card_blocks (sd_card w) \<longrightarrow> card_blocks (sd_card w')) \<and>
     (\<forall>l \<in> set ckpt_layouts. l \<noteq> ckpt_sd_make_current_layout s \<longrightarrow> slot_on (sd_card w') l = slot_on (sd_card w) l)"
proof -
  let ?l = "ckpt_sd_make_current_layout s" and ?b1 = "ckpt_header_bytes hdr1 @ X" and ?b2 = "ckpt_header_bytes h2 @ X"
  define c where "c = card_put (kl_lba ?l) (take 1 (buf_blocks ?b2)) (card_put (kl_lba ?l) (buf_blocks ?b1) (sd_card w))"
  let ?w = "w\<lparr>sd_card := c, g_sd_last_error := SD_OK, g_ckpt_slot_buf := ?b2\<rparr>"
  have l: "?l \<in> set ckpt_layouts" using assms(2) by (auto simp: ckpt_layouts_def)
  have b2: "buf_put 0 (ckpt_header_bytes h2) ?b1 = ?b2" using assms(3,4) by (simp add: buf_put_def)
  have "ckpt_commit ?l hdr1 ?b1 w = (SD_OK, ?w)"
    using assms(1) by (simp add: ckpt_commit_def assms(6) [symmetric] b2 sd_write_blocks_ok sd_ok_def c_def Let_def)
  moreover have "slot_on c ?l = ?b2"
    unfolding slot_on_def c_def using commit_card [OF assms(3,4,5)] concat_buf_blocks [of ?b2] assms(4,5) by simp
  moreover have "card_blocks c" if "card_blocks (sd_card w)"
  proof -
    have put: "card_blocks (card_put lba bs c)" if "\<forall>b \<in> set bs. length b = 512" "card_blocks c" for lba bs c
      using that by (induction bs arbitrary: lba c) (simp_all add: card_blocks_def)
    have len: "\<forall>b \<in> set (buf_blocks x). length b = 512" if "length x = 8192" for x using that by (auto simp: buf_blocks_def)
    show ?thesis unfolding c_def
      by (intro put) (use len [of ?b1] len [of ?b2] assms(3-5) that in \<open>auto dest: in_set_takeD\<close>)
  qed
  moreover have "slot_on c l' = slot_on (sd_card w) l'" if "l' \<in> set ckpt_layouts" "l' \<noteq> ?l" for l'
    unfolding c_def by (subst slot_on_other [OF l that], simp, subst slot_on_other [OF l that], simp_all)
  ultimately show ?thesis by (intro exI [of _ ?w]) simp
qed

section \<open>A save\<close>

text \<open>The state apart from the checkpoint's own variables and the driver's error word.\<close>

definition apart :: "'a ckpt_world_scheme \<Rightarrow> 'a ckpt_world_scheme" where
  "apart w = w\<lparr>g_sd_last_error := 0, g_ckpt_slot_buf := [], g_ckpt_restore_filtered_regions := [], g_ckpt_sd_seq := 0,
     g_ckpt_sd_seq_seeded := False, g_ckpt_running_prev_bitmap := 0, g_ckpt_launch_count := [], g_ckpt_exit_count := []\<rparr>"

lemma apart_fields:
  assumes "apart v = apart w"
  shows "sc_table v = sc_table w" "g_registry v = g_registry w" "g_sched v = g_sched w" "sd_card v = sd_card w" "w_tick v = w_tick w"
    "sd_ok v = sd_ok w"
  using arg_cong [OF assms, of sc_table] arg_cong [OF assms, of g_registry] arg_cong [OF assms, of g_sched] arg_cong [OF assms, of sd_card]
    arg_cong [OF assms, of w_tick] arg_cong [OF assms, of sd_ok]
  unfolding apart_def sd_ok_def by simp_all

lemma apart_only_read: "only_read v w \<Longrightarrow> apart v = apart w"
  by (auto simp: only_read_def apart_def)

definition blind :: "(u32 \<Rightarrow> u32 \<Rightarrow> 'a ckpt_world_scheme \<Rightarrow> int \<times> (u8 list \<times> u32) option) \<Rightarrow> bool" where
  "blind call_get \<longleftrightarrow> (\<forall>f cap v w. apart v = apart w \<longrightarrow> call_get f cap v = call_get f cap w)"

lemma task_apart:
  assumes "blind call_get" "apart v = apart w"
  shows "task_running call_get v i b d = task_running call_get w i b d" "task_idle call_get v i = task_idle call_get w i"
    "ckpt_meta_ids v = ckpt_meta_ids w"
proof -
  have c: "call_get f cap v = call_get f cap w" for f cap using assms unfolding blind_def by blast
  have f: "restore_registry_find n v = restore_registry_find n w" for n by (simp add: restore_registry_find_def apart_fields(2) [OF assms(2)])
  show "task_running call_get v i b d = task_running call_get w i b d" "task_idle call_get v i = task_idle call_get w i"
    "ckpt_meta_ids v = ckpt_meta_ids w"
    by (simp_all add: task_running_def task_idle_def ckpt_meta_ids_def c f apart_fields(1) [OF assms(2)] cong: option.case_cong)
qed

definition ckpt_seq_of :: "'a ckpt_world_scheme \<Rightarrow> u32" where
  "ckpt_seq_of w = (if g_ckpt_sd_seq_seeded w then g_ckpt_sd_seq w
     else case ckpt_best (sd_card w) of None \<Rightarrow> g_ckpt_sd_seq w | Some (h, l) \<Rightarrow> ckpt_next_seq (kh_seq h))"

text \<open>A card that answers, and a buffer of the right size.\<close>

definition ckpt_ready :: "'a ckpt_world_scheme \<Rightarrow> bool" where
  "ckpt_ready w \<longleftrightarrow> sd_ok w \<and> card_blocks (sd_card w) \<and> length (g_ckpt_slot_buf w) = 8192"

lemma seed_ok:
  assumes "ckpt_ready w"
  shows "apart (ckpt_sd_seed_seq_if_needed w) = apart w" "g_ckpt_sd_seq (ckpt_sd_seed_seq_if_needed w) = ckpt_seq_of w"
    "ckpt_ready (ckpt_sd_seed_seq_if_needed w)"
    "g_ckpt_launch_count (ckpt_sd_seed_seq_if_needed w) = g_ckpt_launch_count w"
    "g_ckpt_exit_count (ckpt_sd_seed_seq_if_needed w) = g_ckpt_exit_count w"
    "g_ckpt_running_prev_bitmap (ckpt_sd_seed_seq_if_needed w) = g_ckpt_running_prev_bitmap w"
proof -
  have r: "sd_ok w" "length (g_ckpt_slot_buf w) = 8192" "card_blocks (sd_card w)" using assms by (simp_all add: ckpt_ready_def)
  from find_best_ok [OF r] obtain v where v: "ckpt_sd_find_best_slot w = (ckpt_best (sd_card w), v)" "only_read v w" by blast
  note d = only_readD [OF v(2)]
  have s: "ckpt_sd_seed_seq_if_needed w = (if g_ckpt_sd_seq_seeded w then w else case ckpt_best (sd_card w) of None \<Rightarrow> v
     | Some (h, l) \<Rightarrow> v\<lparr>g_ckpt_sd_seq := ckpt_next_seq (kh_seq h), g_ckpt_sd_seq_seeded := True\<rparr>)"
    by (auto simp: ckpt_sd_seed_seq_if_needed_def v(1) split: option.split)
  have up: "apart (v\<lparr>g_ckpt_sd_seq := q, g_ckpt_sd_seq_seeded := t\<rparr>) = apart v" for q t by (simp add: apart_def)
  show "apart (ckpt_sd_seed_seq_if_needed w) = apart w" "g_ckpt_sd_seq (ckpt_sd_seed_seq_if_needed w) = ckpt_seq_of w"
    "ckpt_ready (ckpt_sd_seed_seq_if_needed w)"
    "g_ckpt_launch_count (ckpt_sd_seed_seq_if_needed w) = g_ckpt_launch_count w"
    "g_ckpt_exit_count (ckpt_sd_seed_seq_if_needed w) = g_ckpt_exit_count w"
    "g_ckpt_running_prev_bitmap (ckpt_sd_seed_seq_if_needed w) = g_ckpt_running_prev_bitmap w"
    using assms d apart_only_read [OF v(2)] unfolding s
    by (auto simp: ckpt_seq_of_def ckpt_ready_def up sd_ok_def split: option.split)
qed

lemma apart_count [simp]: "apart (ckpt_count_lifecycle w) = apart w"
  by (simp add: ckpt_count_lifecycle_def apart_def)

lemma slot_parity: "(q - 1) mod 2 = (0 :: u32) \<or> (q - 1) mod 2 = (1 :: u32)"
  by (simp add: word_unat_eq_iff unat_mod) linarith

text \<open>The tasks: \<open>T\<close> gives the bytes and the descriptor of each task that has a state now.\<close>

definition tasks_are ::
  "(u32 \<Rightarrow> u32 \<Rightarrow> 'a ckpt_world_scheme \<Rightarrow> int \<times> (u8 list \<times> u32) option) \<Rightarrow> (nat \<Rightarrow> (u8 list \<times> restore_desc) option) \<Rightarrow>
   'a ckpt_world_scheme \<Rightarrow> bool" where
  "tasks_are call_get T w \<longleftrightarrow> (\<forall>i<32. case T i of None \<Rightarrow> task_idle call_get w i | Some (b, d) \<Rightarrow> task_running call_get w i b d)"

definition ckpt_fits :: "saved_state list \<Rightarrow> 'a ckpt_world_scheme \<Rightarrow> bool" where
  "ckpt_fits ss w \<longleftrightarrow> ss \<noteq> [] \<and> length ss \<le> 8 \<and> 204 + length (blobs ss) + 8 * length (ckpt_meta_ids w) \<le> 8192"

lemma meta_ids:
  "length (ckpt_meta_ids w) \<le> 8" "unat (of_nat (length (ckpt_meta_ids w)) :: u16) = length (ckpt_meta_ids w)"
  "unat (ckpt_meta_size (of_nat (length (ckpt_meta_ids w)))) = 12 + 8 * length (ckpt_meta_ids w)"
proof -
  show l: "length (ckpt_meta_ids w) \<le> 8" by (simp add: ckpt_meta_ids_def del: upt_Suc)
  then show "unat (of_nat (length (ckpt_meta_ids w)) :: u16) = length (ckpt_meta_ids w)"
    "unat (ckpt_meta_size (of_nat (length (ckpt_meta_ids w)))) = 12 + 8 * length (ckpt_meta_ids w)"
    by (simp_all add: ckpt_meta_size_def unat_word_ariths unat_of_nat)
qed

lemma collect_all:
  assumes "tasks_are call_get T w" "g_sched w" "ckpt_fits (states_of T [0..<32]) w"
  shows "ckpt_collect_restorable_regions call_get (replicate 8192 0) 8192 (ckpt_meta_size (of_nat (length (ckpt_meta_ids w)))) w =
    collected (states_of T [0..<32])"
proof -
  have 0: "(replicate 8192 0, [], 0) = collected []" by (simp add: collected_def buf_put_def replicate_add [symmetric])
  have t: "i < 32 \<Longrightarrow> T i = None \<Longrightarrow> task_idle call_get w i" "i < 32 \<Longrightarrow> T i = Some (b, d) \<Longrightarrow> task_running call_get w i b d" for i b d
    using assms(1) unfolding tasks_are_def by force+
  show ?thesis
    unfolding ckpt_collect_restorable_regions_def 0
    by (subst collect_loop [where T = T and ss = "[]"])
      (use t assms(2,3) meta_ids(3) [of w] in \<open>simp_all add: ckpt_fits_def del: upt_Suc\<close>)
qed

text \<open>What the header and the lifecycle record of a save look like.\<close>

lemma lay_out_ok:
  fixes ss seq tick s
  assumes fit: "204 + length (blobs ss) + 8 * length ids \<le> 8192" "length ids \<le> 8" "length ss \<le> 8" "length (lm_entries m) = length ids"
    "lm_magic m = CKPT_META_MAGIC" "lm_version m = CKPT_META_VERSION" "lm_entry_count m = of_nat (length ids)"
  defines "ml \<equiv> ckpt_meta_size (of_nat (length ids))"
  defines "h0 \<equiv> ckpt_make_header seq tick s (items_of 192 ss) (ckpt_end ss) ml"
  shows "\<exists>h1 h2 X. ckpt_lay_out h0 (items_of 192 ss) m (ckpt_end ss) ml (fst (collected ss)) = (h1, ckpt_header_bytes h1 @ X) \<and>
     h2 = ckpt_seal (h1\<lparr>kh_state := CKPT_SLOT_STATE_COMMITTED\<rparr>) \<and> length (ckpt_header_bytes h1) = 64 \<and> length (ckpt_header_bytes h2) = 64 \<and>
     length X = 8128 \<and> kh_seq h2 = seq \<and> kh_slot_id h2 = ucast s \<and>
     ckpt_header_bytes h2 @ X = slot_bytes_of h2 (ckpt_regs ss) m (ckpt_end ss) (fst (collected ss)) \<and>
     slot_laid_out h2 (ckpt_regs ss) m (ckpt_end ss) (fst (collected ss)) \<and>
     ckpt_slot_parse (ckpt_sd_make_current_layout t) (ckpt_header_bytes h2 @ X) = Some h2"
proof -
  let ?buf = "fst (collected ss)" and ?mo = "ckpt_end ss"
  let ?R = "concat (map ckpt_region_bytes (ckpt_regs ss))" and ?M = "lifecycle_meta_bytes m"
  define X where "X = ?R @ slot_rest (64 + length ?R) (unat ?mo) ?M ?buf"
  have b: "192 + length (blobs ss) \<le> 8192" "length ?buf = 8192" "unat ?mo = 192 + length (blobs ss)"
    using fit(1) length_collected [of ss] unat_ckpt_end [of ss] by simp_all
  have M: "length ?M = 12 + 8 * length ids" using fit(4) by (simp add: length_meta_bytes)
  have R: "length ?R \<le> 128" using fit(3) by simp
  have n: "unat (of_nat (length ids) :: u16) = length ids" using fit(2) by (simp add: unat_of_nat)
  have ml: "unat ml = 12 + 8 * length ids" "ml = of_nat (12 + 8 * length (lm_entries m))"
    using n fit(2,4) by (simp_all add: ml_def ckpt_meta_size_def unat_word_ariths word_unat_eq_iff unat_of_nat)
  have used: "foldl (\<lambda>u r. if rg_offset r + rg_length r > u then rg_offset r + rg_length r else u) (?mo + ml) (ckpt_regs ss) = ?mo + ml"
    by (rule used_end_meta [OF regs_placed [OF b(1)]]) (use b fit(1) ml(1) in \<open>simp_all add: unat_sum_le\<close>)
  define z where "z = crc32_calc (slice 64 (?mo + ml - 64) (buf_put 64 ?R (buf_put (unat ?mo) ?M ?buf)))"
  define h1 where "h1 = ckpt_seal (h0\<lparr>kh_regions_crc32 := z\<rparr>)"
  define h2 where "h2 = ckpt_seal (h1\<lparr>kh_state := CKPT_SLOT_STATE_COMMITTED\<rparr>)"
  have h: "length (ckpt_header_bytes h1) = 64" "length (ckpt_header_bytes h2) = 64" 
    by (rule ckpt_header_roundtrip(2); simp add: h1_def h2_def h0_def ckpt_make_header_def)+
  note im = slot_image [OF b(2) R _ _ h(2,1), of "unat ?mo" ?M]
  have im1: "buf_put 64 ?R (buf_put (unat ?mo) ?M ?buf) = take 64 ?buf @ X" "buf_put 0 (ckpt_header_bytes h1) (take 64 ?buf @ X) = ckpt_header_bytes h1 @ X"
    using im b M fit(1) h by (simp_all add: X_def buf_put_def)
  have lx: "length X = 8128" using arg_cong [OF im1(1), of length] b M R fit(1) by simp
  have lay: "ckpt_lay_out h0 (items_of 192 ss) m ?mo ml ?buf = (h1, ckpt_header_bytes h1 @ X)"
    unfolding ckpt_lay_out_def Let_def ckpt_regs_def [symmetric] used im1 z_def [symmetric, unfolded im1] h1_def [symmetric] by simp
  have img: "ckpt_header_bytes h2 @ X = slot_bytes_of h2 (ckpt_regs ss) m ?mo ?buf" by (simp add: X_def slot_bytes_of_def)
  have off: "ckpt_meta_off h2 = ?mo" "ckpt_meta_len h2 = ml"
    by (simp_all add: h2_def h1_def h0_def ckpt_make_header_def ckpt_meta_off_def ckpt_meta_len_def u32_at_def u32_bytes_def bytes_u32_bytes)
  have laid: "slot_laid_out h2 (ckpt_regs ss) m ?mo ?buf"
    using fit b regs_placed [OF b(1)] off n ml(2)
    by (simp add: slot_laid_out_def h2_def h1_def h0_def ckpt_make_header_def)
  have sl: "slice 64 (?mo + ml - 64) (take 64 ?buf @ X) = slice 64 (?mo + ml - 64) (ckpt_header_bytes h2 @ X)"
    using b(2) h(2) by (simp add: slice_def)
  have "ckpt_slot_parse (ckpt_sd_make_current_layout t) (ckpt_header_bytes h2 @ X) = Some h2"
    unfolding img
    by (rule slot_accepted [OF laid]) (use z_def im1(1) sl off in \<open>simp_all add: h2_def h1_def img [unfolded h2_def h1_def]\<close>)
  moreover have "kh_seq h2 = seq" "kh_slot_id h2 = ucast s" by (simp_all add: h2_def h1_def h0_def ckpt_make_header_def)
  ultimately show ?thesis using lay h lx img laid h2_def by blast
qed

text \<open>A save on a card that answers: the slot then holds the states of the running
  tasks, the other slots are as they were, and nothing but the checkpoint's own
  variables has changed in memory.\<close>

lemma save_ok:
  fixes call_get and w :: "'a ckpt_world_scheme"
  assumes r: "ckpt_ready w" and "g_sched w" "blind call_get" "tasks_are call_get T w" "ckpt_fits (states_of T [0..<32]) w"
  defines "ss \<equiv> states_of T [0..<32]" and "q \<equiv> ckpt_seq_of w"
  defines "l \<equiv> ckpt_sd_make_current_layout ((q - 1) mod 2)"
  shows "\<exists>w'. terminal_ckpt_save_sd_once call_get w = ((SCHED_OK, Some (kl_lba l, (q - 1) mod 2, q, of_nat (length ss))), w') \<and>
     apart (w'\<lparr>sd_card := sd_card w\<rparr>) = apart w \<and> ckpt_ready w' \<and> g_ckpt_sd_seq w' = q + 1 \<and> g_ckpt_sd_seq_seeded w' \<and>
     (\<forall>l' \<in> set ckpt_layouts. l' \<noteq> l \<longrightarrow> header_on (sd_card w') l' = header_on (sd_card w) l') \<and>
     ckpt_holds (sd_card w') l q ss (ckpt_make_meta (ckpt_meta_ids w) (ckpt_running_bitmap w) (ckpt_count_lifecycle w))"
proof -
  let ?w1 = "ckpt_sd_seed_seq_if_needed w"
  note sd = seed_ok [OF r]
  define w2 where "w2 = ckpt_count_lifecycle ?w1"
  define ids where "ids = ckpt_meta_ids w"
  define ml where "ml = ckpt_meta_size (of_nat (length ids))"
  have ap: "apart w2 = apart w" using sd(1) by (simp add: w2_def)
  note f2 = apart_fields [OF ap]
  have i2: "ckpt_meta_ids w2 = ids" using task_apart(3) [OF assms(3) ap] by (simp add: ids_def)
  have "tasks_are call_get T w2" using assms(4) by (simp add: tasks_are_def task_apart [OF assms(3) ap] cong: option.case_cong)
  then have col: "ckpt_collect_restorable_regions call_get (replicate 8192 0) 8192 ml w2 = collected ss"
    using collect_all [of call_get T w2] assms(2,5) f2(3) i2 by (simp add: ss_def ml_def ckpt_fits_def ids_def)
  have fit: "ss \<noteq> []" "length ss \<le> 8" "204 + length (blobs ss) + 8 * length ids \<le> 8192" "length ids \<le> 8"
    using assms(5) meta_ids(1) [of w] by (simp_all add: ckpt_fits_def ss_def ids_def)
  have run: "ckpt_running_bitmap ?w1 = ckpt_running_bitmap w" using apart_fields(1) [OF sd(1)] by (simp add: ckpt_running_bitmap_def)
  have cnt: "g_ckpt_launch_count w2 = g_ckpt_launch_count (ckpt_count_lifecycle w)" "g_ckpt_exit_count w2 = g_ckpt_exit_count (ckpt_count_lifecycle w)"
    using sd(4-6) run by (simp_all add: w2_def ckpt_count_lifecycle_def ckpt_launched_def ckpt_exited_def)
  define w4 where "w4 = w2\<lparr>g_ckpt_slot_buf := fst (collected ss), g_ckpt_sd_seq := q + 1\<rparr>"
  define m where "m = ckpt_make_meta ids (ckpt_running_bitmap w) w4"
  have m: "m = ckpt_make_meta (ckpt_meta_ids w) (ckpt_running_bitmap w) (ckpt_count_lifecycle w)"
    using cnt by (simp add: m_def ckpt_make_meta_def w4_def ids_def)
  have "length (lm_entries m) = length ids" "lm_magic m = CKPT_META_MAGIC" "lm_version m = CKPT_META_VERSION" "lm_entry_count m = of_nat (length ids)"
    by (simp_all add: m_def ckpt_make_meta_def)
  from lay_out_ok [OF fit(3,4,2) this, of q "systick_now w4" "(q - 1) mod 2" "(q - 1) mod 2"] obtain h1 h2 X where
    lay: "ckpt_lay_out (ckpt_make_header q (systick_now w4) ((q - 1) mod 2) (items_of 192 ss) (ckpt_end ss) ml) (items_of 192 ss) m (ckpt_end ss) ml
      (fst (collected ss)) = (h1, ckpt_header_bytes h1 @ X)"
    and h2: "h2 = ckpt_seal (h1\<lparr>kh_state := CKPT_SLOT_STATE_COMMITTED\<rparr>)" "length (ckpt_header_bytes h1) = 64" "length (ckpt_header_bytes h2) = 64"
      "length X = 8128" "kh_seq h2 = q"
    and img: "ckpt_header_bytes h2 @ X = slot_bytes_of h2 (ckpt_regs ss) m (ckpt_end ss) (fst (collected ss))"
      "slot_laid_out h2 (ckpt_regs ss) m (ckpt_end ss) (fst (collected ss))" "ckpt_slot_parse l (ckpt_header_bytes h2 @ X) = Some h2"
    unfolding ml_def [symmetric] l_def by blast
  have ok4: "sd_ok w4" "sd_card w4 = sd_card w" "card_blocks (sd_card w4)"
    using r f2(4,6) by (simp_all add: w4_def sd_ok_def ckpt_ready_def)
  from commit_ok [OF ok4(1) slot_parity h2(2,3,4,1), of q] obtain w5 where
    w5: "ckpt_commit l h1 (ckpt_header_bytes h1 @ X) w4 = (SD_OK, w5)"
      "w5 = w4\<lparr>sd_card := sd_card w5, g_sd_last_error := SD_OK, g_ckpt_slot_buf := ckpt_header_bytes h2 @ X\<rparr>"
      "slot_on (sd_card w5) l = ckpt_header_bytes h2 @ X" "card_blocks (sd_card w5)"
      "\<And>l'. l' \<in> set ckpt_layouts \<Longrightarrow> l' \<noteq> l \<Longrightarrow> slot_on (sd_card w5) l' = slot_on (sd_card w) l'"
    unfolding l_def ok4(2) using ok4(2,3) by auto
  define w' where "w' = w5\<lparr>g_ckpt_sd_seq_seeded := True\<rparr>"
  have me: "ckpt_sd_payload_base + of_nat (length (blobs ss)) = ckpt_end ss" by (simp add: ckpt_sd_payload_base_def ckpt_end_def)
  have mle: "\<not> 8192 < ckpt_end ss + ml"
  proof -
    have "unat ml = 12 + 8 * length ids" using meta_ids(3) [of w] by (simp add: ml_def ids_def)
    then show ?thesis using unat_sum_le [of "ckpt_end ss" ml] unat_ckpt_end [of ss] fit(3) by (simp add: word_less_nat_alt)
  qed
  have ne: "items_of 192 ss \<noteq> []" using fit(1) length_items_of [of 192 ss] by (metis length_0_conv)
  have "terminal_ckpt_save_sd_once call_get w = ((SCHED_OK, Some (kl_lba l, (q - 1) mod 2, q, of_nat (length ss))), w')"
  proof -
    define B where "B = fst (collected ss)"
    have c: "ckpt_collect_restorable_regions call_get (replicate 8192 0) 8192 ml w2 = (B, items_of 192 ss, of_nat (length (blobs ss)))"
      unfolding col B_def by (simp add: collected_def)
    have q': "g_ckpt_sd_seq (w2\<lparr>g_ckpt_slot_buf := B\<rparr>) = q" "w2\<lparr>g_ckpt_slot_buf := B, g_ckpt_sd_seq := q + 1\<rparr> = w4"
      using sd(2) by (simp_all add: w4_def w2_def ckpt_count_lifecycle_def q_def B_def)
    have g: "g_sched ?w1" using apart_fields(3) [OF sd(1)] assms(2) by simp
    show ?thesis
      unfolding terminal_ckpt_save_sd_once_def Let_def w2_def [symmetric] i2 ml_def [symmetric] c prod.case me run q' l_def [symmetric]
        m_def [symmetric] lay [folded B_def] w5(1)
      using g mle ne by (simp add: w'_def)
  qed
  moreover have "apart (w'\<lparr>sd_card := sd_card w\<rparr>) = apart w"
  proof -
    have "w'\<lparr>sd_card := sd_card w\<rparr> = w4\<lparr>sd_card := sd_card w4, g_sd_last_error := SD_OK, g_ckpt_slot_buf := ckpt_header_bytes h2 @ X, g_ckpt_sd_seq_seeded := True\<rparr>"
      unfolding w'_def by (subst w5(2)) (simp add: ok4(2))
    then show ?thesis using ap by (simp add: w4_def apart_def)
  qed
  moreover have "ckpt_ready w'" "g_ckpt_sd_seq w' = q + 1"
    using w5(4) h2(3,4) ok4(1) unfolding w'_def by (subst w5(2), simp add: ckpt_ready_def sd_ok_def w4_def)+
  ultimately show ?thesis
    using w5(3,5) img h2(5) m by (intro exI [of _ w']) (auto simp: w'_def header_on_def ckpt_holds_def)
qed

section \<open>A save on any card\<close>

text \<open>Reads change nothing; a write, torn or not, changes its own blocks at most.\<close>

lemma sd_read_blocks_card: "sd_card (snd (sd_read_blocks lba n w)) = sd_card w"
proof -
  have "sd_card (snd (sd_read_loop lba k w)) = sd_card w" for lba k and w :: "'a sd_world_scheme"
    by (induction k arbitrary: lba w)
      (simp_all add: sd_read_block_def sd_next_def case_prod_beta split: sd_outcome.split)
  then show ?thesis by (simp add: sd_read_blocks_def case_prod_beta)
qed

lemma sd_write_blocks_other:
  assumes "\<forall>k<unat n. x \<noteq> lba + of_nat k"
  shows "sd_card (snd (sd_write_blocks lba n (Some bs) w)) x = sd_card w x"
proof -
  have "sd_card (snd (sd_write_loop lba bs w)) x = sd_card w x" if "\<forall>k<length bs. x \<noteq> lba + of_nat k"
    for lba bs and w :: "'a sd_world_scheme"
    using that
  proof (induction bs arbitrary: lba w)
    case (Cons b bs)
    have "x \<noteq> lba" using Cons.prems by (auto dest: spec [of _ 0])
    then have one: "sd_card (snd (sd_write_block lba b w)) x = sd_card w x"
      by (simp add: sd_write_block_def sd_next_def split: sd_outcome.split option.split)
    have "\<forall>k<length bs. x \<noteq> (lba + 1) + of_nat k" using Cons.prems by (auto dest: spec [of _ "Suc _"] simp: algebra_simps)
    from Cons.IH [OF this] one show ?case by (simp add: case_prod_beta)
  qed simp
  from this [of "take (unat n) bs" lba] assms show ?thesis by (simp add: sd_write_blocks_def case_prod_beta)
qed

lemma find_loop_card: "sd_card (snd (ckpt_find_loop ls sel w)) = sd_card w"
proof (induction ls arbitrary: sel w)
  case (Cons l ls)
  have "sd_card (snd (ckpt_sd_read_valid_layout l w)) = sd_card w"
    using sd_read_blocks_card [of "kl_lba l" "ucast (kl_block_count l)" w]
    by (simp add: ckpt_sd_read_valid_layout_def Let_def case_prod_beta)
  with Cons show ?case by (simp add: case_prod_beta split: option.split prod.split)
qed simp

lemma seed_card: "sd_card (ckpt_sd_seed_seq_if_needed w) = sd_card w"
proof -
  have "sd_card (snd (ckpt_sd_find_best_slot w)) = sd_card w"
    by (simp only: ckpt_sd_find_best_slot_def case_prod_beta find_loop_card)
  then show ?thesis by (simp add: ckpt_sd_seed_seq_if_needed_def case_prod_beta split: option.split prod.split)
qed

lemma commit_other:
  assumes "\<forall>k<16. x \<noteq> 2080 + s * 16 + of_nat k"
  shows "sd_card (snd (ckpt_commit (ckpt_sd_make_current_layout s) h b w)) x = sd_card w x"
proof -
  have "x \<noteq> 2080 + s * 16" using assms by (auto dest: spec [of _ 0])
  with assms show ?thesis
    by (simp add: ckpt_commit_def case_prod_beta Let_def sd_write_blocks_other)
qed

text \<open>C40: whatever the card answers to each command, torn writes included, a save leaves
  every slot but the one it writes as it was: the headers the reader finds there, valid
  or not, stay, so a save that fails half way keeps the checkpoint in the other slot.\<close>

theorem ckpt_save_keeps_others:
  assumes "l \<in> set ckpt_layouts"
    and "l \<noteq> ckpt_sd_make_current_layout ((g_ckpt_sd_seq (ckpt_sd_seed_seq_if_needed w) - 1) mod 2)"
  shows "header_on (sd_card (snd (terminal_ckpt_save_sd_once call_get w))) l = header_on (sd_card w) l \<and>
    slot_on (sd_card (snd (terminal_ckpt_save_sd_once call_get w))) l = slot_on (sd_card w) l"
proof -
  define s where "s = (g_ckpt_sd_seq (ckpt_sd_seed_seq_if_needed w) - 1) mod 2"
  have lin: "ckpt_sd_make_current_layout s \<in> set ckpt_layouts"
    using slot_parity [of "g_ckpt_sd_seq (ckpt_sd_seed_seq_if_needed w)", folded s_def] by (auto simp: ckpt_layouts_def)
  have "sd_card (snd (terminal_ckpt_save_sd_once call_get w)) (kl_lba l + of_nat i) = sd_card w (kl_lba l + of_nat i)"
    if i: "i < unat (kl_block_count l)" for i
  proof -
    have x: "\<forall>k<16. kl_lba l + of_nat i \<noteq> 2080 + s * 16 + of_nat k"
      using layouts_apart [OF assms(1) lin assms(2) [folded s_def] i] by simp
    define w2 where "w2 = ckpt_count_lifecycle (ckpt_sd_seed_seq_if_needed w)"
    have w2: "(g_ckpt_sd_seq (w2\<lparr>g_ckpt_slot_buf := b\<rparr>) - 1) mod 2 = s" "sd_card w2 = sd_card w" for b
      by (simp_all add: w2_def ckpt_count_lifecycle_def s_def seed_card)
    define ml where "ml = ckpt_meta_size (of_nat (length (ckpt_meta_ids w2)))"
    obtain buf items pb where col: "ckpt_collect_restorable_regions call_get (replicate 8192 0) 8192 ml w2 = (buf, items, pb)"
      by (metis prod_cases3)
    define w4 where "w4 = w2\<lparr>g_ckpt_slot_buf := buf, g_ckpt_sd_seq := g_ckpt_sd_seq (w2\<lparr>g_ckpt_slot_buf := buf\<rparr>) + 1\<rparr>"
    obtain h1 b2 where lay: "ckpt_lay_out (ckpt_make_header (g_ckpt_sd_seq (w2\<lparr>g_ckpt_slot_buf := buf\<rparr>)) (systick_now w4) s items
          (ckpt_sd_payload_base + pb) ml) items (ckpt_make_meta (ckpt_meta_ids w2) (ckpt_running_bitmap (ckpt_sd_seed_seq_if_needed w)) w4)
          (ckpt_sd_payload_base + pb) ml buf = (h1, b2)"
      by fastforce
    obtain rc w5 where com: "ckpt_commit (ckpt_sd_make_current_layout s) h1 b2 w4 = (rc, w5)" by fastforce
    have "sd_card w5 (kl_lba l + of_nat i) = sd_card w (kl_lba l + of_nat i)"
      using commit_other [OF x, of h1 b2 w4] com w2(2) by (simp add: w4_def)
    then show ?thesis
      unfolding terminal_ckpt_save_sd_once_def Let_def w2_def [symmetric] ml_def [symmetric] col prod.case w2(1) w4_def [symmetric] lay com
      by (simp add: w2(2) seed_card)
  qed
  then have "slot_on (sd_card (snd (terminal_ckpt_save_sd_once call_get w))) l = slot_on (sd_card w) l"
    unfolding slot_on_def by (intro arg_cong [of _ _ concat] map_cong) simp_all
  then show ?thesis by (simp add: header_on_def)
qed

text \<open>The state at power on, and a card that breaks every write.\<close>

definition ckpt_power_on :: ckpt_world where
  "ckpt_power_on = snap_world.extend (line_world.extend line_power_on
     (snap_world.fields (snapshot_ctx_init 0) False (\<lambda>_ _. 0) 0x20010000 0x20020000 0 0))
     (ckpt_world.fields (replicate 8192 0) (replicate 64 zero_region) 1 False 0 (replicate 32 0) (replicate 32 0))"

theorem ckpt_save_keeps_others_witness:
  "let w = ckpt_power_on\<lparr>g_ckpt_sd_seq := 7, g_ckpt_sd_seq_seeded := True, sd_env := (\<lambda>_. IoErr Fault_crc (Some (replicate 512 0xFF)))\<rparr>;
       l = ckpt_sd_make_current_layout 1; w' = snd (terminal_ckpt_save_sd_once (\<lambda>_ _ _. (SCHED_OK, Some ([1, 2, 3], 3))) w)
   in header_on (sd_card w') l = header_on (sd_card w) l \<and> slot_on (sd_card w') l = slot_on (sd_card w) l"
  unfolding Let_def
proof (rule ckpt_save_keeps_others)
  show "ckpt_sd_make_current_layout 1 \<in> set ckpt_layouts" by (simp add: ckpt_layouts_def)
  show "ckpt_sd_make_current_layout 1 \<noteq> ckpt_sd_make_current_layout ((g_ckpt_sd_seq (ckpt_sd_seed_seq_if_needed
      (ckpt_power_on\<lparr>g_ckpt_sd_seq := 7, g_ckpt_sd_seq_seeded := True, sd_env := \<lambda>_. IoErr Fault_crc (Some (replicate 512 0xFF))\<rparr>)) - 1) mod 2)"
    by (simp add: ckpt_sd_seed_seq_if_needed_def ckpt_sd_make_current_layout_def)
qed

end
