(* ===== verification/Checkpoint_Load.thy ===== *)
theory Checkpoint_Load
  imports Checkpoint_Save
begin

text \<open>
  A load after a save: the loader finds the slot of the save and hands every
  task the bytes it gave.  The contract of the tasks' register and restore
  functions is the locale \<open>resuming\<close>.
\<close>

section \<open>Finding the slot\<close>

text \<open>The slot of a layout holds the newest checkpoint.\<close>

definition ckpt_newest :: "(u32 \<Rightarrow> block) \<Rightarrow> ckpt_layout \<Rightarrow> u32 \<Rightarrow> bool" where
  "ckpt_newest c l q \<longleftrightarrow> (\<forall>l' \<in> set ckpt_layouts. l' \<noteq> l \<longrightarrow> (\<forall>h. header_on c l' = Some h \<longrightarrow> kh_seq h < q))"

lemma load_reads:
  assumes r: "ckpt_ready w" and s: "s = 0 \<or> s = 1" and l: "l = ckpt_sd_make_current_layout s"
    and h: "header_on (sd_card w) l = Some h" and new: "ckpt_newest (sd_card w) l (kh_seq h)"
  shows "\<exists>w1 w2. ckpt_sd_find_best_slot (ckpt_sd_seed_seq_if_needed w) = (Some (h, l), w1) \<and>
     ckpt_sd_read_valid_layout l w1 = (Some h, w2) \<and> apart w2 = apart w \<and> g_ckpt_slot_buf w2 = slot_on (sd_card w) l \<and> ckpt_ready w2"
proof -
  let ?w0 = "ckpt_sd_seed_seq_if_needed w"
  note sd = seed_ok [OF r]
  have c: "sd_card ?w0 = sd_card w" by (rule apart_fields(4) [OF sd(1)])
  have r0: "sd_ok ?w0" "length (g_ckpt_slot_buf ?w0) = 8192" "card_blocks (sd_card ?w0)" using sd(3) by (simp_all add: ckpt_ready_def)
  have lin: "l \<in> set ckpt_layouts" using s l by (auto simp: ckpt_layouts_def)
  have best: "ckpt_best (sd_card w) = Some (h, l)" using ckpt_best_unique [OF lin h] new by (simp add: ckpt_newest_def)
  from find_best_ok [OF r0] obtain w1 where w1: "ckpt_sd_find_best_slot ?w0 = (Some (h, l), w1)" "only_read w1 ?w0"
    unfolding c best by blast
  note d1 = only_readD [OF w1(2)]
  have r1: "sd_ok w1" "length (g_ckpt_slot_buf w1) = 8192" "card_blocks (sd_card w1)" using r0 d1 by simp_all
  from read_valid_ok [OF r1 lin] obtain w2 where w2: "ckpt_sd_read_valid_layout l w1 = (Some h, w2)" "only_read w2 w1"
      "g_ckpt_slot_buf w2 = slot_on (sd_card w) l"
    using h d1(1) c l by auto
  note d2 = only_readD [OF w2(2)]
  have "ckpt_ready w2" using r1 d2 by (simp add: ckpt_ready_def)
  with w1(1) w2(1,3) apart_only_read [OF w1(2)] apart_only_read [OF w2(2)] sd(1) show ?thesis by metis
qed

section \<open>Handing out the states\<close>

fun resume :: "(u32 \<Rightarrow> 'w \<Rightarrow> int \<times> 'w) \<Rightarrow> (u32 \<Rightarrow> u8 list \<Rightarrow> 'w \<Rightarrow> int \<times> 'w) \<Rightarrow> saved_state \<Rightarrow> 'w \<Rightarrow> 'w" where
  "resume call_reg call_restore (i, b, d) v = snd (call_restore (rd_restore_fn d) b (snd (call_reg (rd_register_fn d) v)))"

text \<open>A state that a task has given: it fits the task's descriptor.\<close>

fun state_fits :: "saved_state \<Rightarrow> bool" where
  "state_fits (i, b, d) \<longleftrightarrow> i < 32 \<and> rd_task_id d = of_nat i \<and> rd_task_class d = TASK_CLASS_RESTORABLE_NOW \<and> rd_restore_fn d \<noteq> 0 \<and>
     rd_min_state_len d \<le> of_nat (length b) \<and> of_nat (length b) \<le> rd_max_state_len d \<and> length b \<le> 4096"

lemma task_running_fits: "task_running call_get w i b d \<Longrightarrow> i < 32 \<Longrightarrow> state_fits (i, b, d)"
  by (simp add: task_running_def)

definition marks :: "u32 list \<Rightarrow> saved_state list \<Rightarrow> bool" where
  "marks bits ss \<longleftrightarrow> length bits = 8 \<and> (\<forall>(i, b, d) \<in> set ss. \<not> bit (bits ! 0) i)"

lemma mark_one:
  assumes "i < 32" "length bits = 8"
  shows "bitmap_test_and_set bits (of_nat i) = (bit (bits ! 0) i, bits[0 := bits ! 0 OR push_bit i 1])"
proof -
  have u: "unat (of_nat i :: u8) = i" using assms(1) by (simp add: unat_of_nat)
  have "drop_bit 5 (of_nat i :: u8) = 0"
    using assms(1) by (simp only: word_unat_eq_iff unat_drop_bit_eq u) (simp add: drop_bit_eq_div)
  moreover have "unat ((of_nat i :: u8) AND 31) = i"
  proof -
    have "(of_nat i :: u8) AND 31 = of_nat i AND mask 5" by (simp add: mask_eq_exp_minus_1)
    also have "\<dots> = of_nat i"
      using assms(1) by (simp only: take_bit_eq_mask [symmetric] word_unat_eq_iff unsigned_take_bit_eq u) (simp add: take_bit_eq_mod)
    finally show ?thesis by (simp add: u)
  qed
  ultimately show ?thesis by (simp add: bitmap_test_and_set_def Let_def bit_iff_and_push_bit_not_eq_0)
qed

lemma ucast_u8_u16: "ucast (ucast (x :: u8) :: u16) = x"
  by (rule bit_word_eqI) (simp add: bit_simps)

locale resuming =
  fixes call_reg :: "u32 \<Rightarrow> 'a ckpt_world_scheme \<Rightarrow> int \<times> 'a ckpt_world_scheme"
    and call_restore :: "u32 \<Rightarrow> u8 list \<Rightarrow> 'a ckpt_world_scheme \<Rightarrow> int \<times> 'a ckpt_world_scheme"
    and fit :: "'a ckpt_world_scheme \<Rightarrow> bool"
    and given :: "saved_state \<Rightarrow> bool"
  assumes known: "fit v \<Longrightarrow> given (i, b, d) \<Longrightarrow> restore_registry_find (of_nat i) v = Some d"
    and registers: "fit v \<Longrightarrow> given (i, b, d) \<Longrightarrow> fst (call_reg (rd_register_fn d) v) \<in> {SCHED_OK, SCHED_ERR_EXISTS}"
    and registers_fit: "fit v \<Longrightarrow> given (i, b, d) \<Longrightarrow> fit (snd (call_reg (rd_register_fn d) v))"
    and restores: "fit v \<Longrightarrow> given (i, b, d) \<Longrightarrow> fst (call_restore (rd_restore_fn d) b v) = SCHED_OK"
    and restores_fit: "fit v \<Longrightarrow> given (i, b, d) \<Longrightarrow> fit (snd (call_restore (rd_restore_fn d) b v))"
begin

lemma resume_fit: "fit v \<Longrightarrow> given s \<Longrightarrow> fit (resume call_reg call_restore s v)"
  by (cases s) (simp add: registers_fit restores_fit)

lemma region_applied:
  assumes "fit v" "given (i, b, d)" "state_fits (i, b, d)" "length bits = 8" "\<not> bit (bits ! 0) i"
    and "off + length b \<le> 8192" "take (length b) (drop off img) = b"
  shows "apply_region call_reg call_restore img 8192 (region_of off (i, b, d)) bits v =
    (Applied, bits[0 := bits ! 0 OR push_bit i 1], resume call_reg call_restore (i, b, d) v)"
proof -
  have i: "i < 32" "(ucast (ucast (of_nat i :: u8) :: u16) :: u8) = of_nat i" "rd_task_id d = of_nat i"
    using assms(3) by (simp_all add: ucast_u8_u16)
  have u: "unat (of_nat off :: u32) = off" "unat (of_nat (length b) :: u32) = length b" using assms(6) by (simp_all add: unat_of_nat)
  have e: "unat (of_nat off + of_nat (length b) :: u32) = off + length b" using unat_sum_le [of "of_nat off" "of_nat (length b)"] u assms(6) by simp
  have "region_fits d (region_of off (i, b, d)) 8192"
    using assms(3,6) u e by (simp add: region_fits_def region_of_def Let_def not_less word_less_nat_alt word_le_nat_alt)
  moreover obtain rc v1 where v1: "call_reg (rd_register_fn d) v = (rc, v1)" by fastforce
  moreover have "rc = SCHED_OK \<or> rc = SCHED_ERR_EXISTS" "fit v1"
    using registers [OF assms(1,2)] registers_fit [OF assms(1,2)] by (simp_all add: v1)
  moreover have "rd_task_class d = TASK_CLASS_RESTORABLE_NOW" using assms(3) by simp
  moreover note known [OF assms(1,2)] mark_one [OF i(1) assms(4)] restores [OF _ assms(2)]
  ultimately show ?thesis
    using assms(5,7) i u by (auto simp: apply_region_def region_of_def case_prod_beta)
qed

lemma all_applied:
  assumes "fit v" "\<forall>s \<in> set ss. given s \<and> state_fits s" "distinct (map fst ss)" "marks bits ss"
    and "length os = length ss" "\<forall>k<length ss. os ! k + length (fst (snd (ss ! k))) \<le> 8192 \<and>
      take (length (fst (snd (ss ! k)))) (drop (os ! k) img) = fst (snd (ss ! k))"
  shows "apply_loop (apply_region call_reg call_restore img 8192) (map2 region_of os ss) bits v =
    (replicate (length ss) Applied, foldl (\<lambda>v s. resume call_reg call_restore s v) v ss)"
    "fit (foldl (\<lambda>v s. resume call_reg call_restore s v) v ss)"
proof -
  have "apply_loop (apply_region call_reg call_restore img 8192) (map2 region_of os ss) bits v =
      (replicate (length ss) Applied, foldl (\<lambda>v s. resume call_reg call_restore s v) v ss) \<and>
      fit (foldl (\<lambda>v s. resume call_reg call_restore s v) v ss)"
    using assms
  proof (induction ss arbitrary: os bits v)
    case (Cons s ss)
    obtain i b d where s: "s = (i, b, d)" by (cases s) auto
    obtain off os' where os: "os = off # os'" using Cons.prems(5) by (cases os) auto
    have g: "given (i, b, d)" "state_fits (i, b, d)" "length bits = 8" "\<not> bit (bits ! 0) i" using Cons.prems(2,4) by (simp_all add: s marks_def)
    have i: "i < 32" using g(2) by simp
    have "off + length b \<le> 8192" "take (length b) (drop off img) = b" using spec [OF Cons.prems(6), of 0] by (simp_all add: s os)
    note one = region_applied [OF Cons.prems(1) g this]
    have "marks (bits[0 := bits ! 0 OR push_bit i 1]) ss"
      using Cons.prems(2,3,4) i by (force simp: marks_def s bit_simps)
    moreover have "\<forall>k<length ss. os' ! k + length (fst (snd (ss ! k))) \<le> 8192 \<and>
        take (length (fst (snd (ss ! k)))) (drop (os' ! k) img) = fst (snd (ss ! k))"
      using Cons.prems(6) by (auto simp: os dest: spec [of _ "Suc _"])
    ultimately have "apply_loop (apply_region call_reg call_restore img 8192) (map2 region_of os' ss) (bits[0 := bits ! 0 OR push_bit i 1])
        (resume call_reg call_restore s v) =
      (replicate (length ss) Applied, foldl (\<lambda>v s. resume call_reg call_restore s v) (resume call_reg call_restore s v) ss) \<and>
      fit (foldl (\<lambda>v s. resume call_reg call_restore s v) (resume call_reg call_restore s v) ss)"
      using Cons.prems resume_fit [OF Cons.prems(1) g(1)] by (intro Cons.IH) (simp_all add: os s)
    with one show ?case by (simp add: os s)
  qed simp
  then show "apply_loop (apply_region call_reg call_restore img 8192) (map2 region_of os ss) bits v =
    (replicate (length ss) Applied, foldl (\<lambda>v s. resume call_reg call_restore s v) v ss)"
    "fit (foldl (\<lambda>v s. resume call_reg call_restore s v) v ss)" by simp_all
qed

end

section \<open>The load\<close>

text \<open>A task that was running when it was saved is not left out.\<close>

definition counts_live :: "lifecycle_meta \<Rightarrow> saved_state list \<Rightarrow> bool" where
  "counts_live m ss \<longleftrightarrow> (\<forall>(i, b, d) \<in> set ss. \<forall>e \<in> set (lm_entries m). le_task_id e = of_nat i \<longrightarrow> le_exit_count e < le_launch_count e)"

lemma all_allowed:
  assumes "counts_live m ss"
  shows "filter (ckpt_allowed (Some m)) (ckpt_regs ss) = ckpt_regs ss"
proof (rule filter_True, intro ballI)
  fix r assume "r \<in> set (ckpt_regs ss)"
  then obtain k where k: "k < length ss" "r = ckpt_regs ss ! k" by (auto simp: in_set_conv_nth)
  obtain i b d where s: "ss ! k = (i, b, d)" by (cases "ss ! k") auto
  have id: "(ucast (rg_region_id r) :: u8) = of_nat i" using k s by (simp add: ckpt_regs_nth region_of_def ucast_u8_u16)
  have "(i, b, d) \<in> set ss" using k(1) s by (metis nth_mem)
  then have "\<forall>e \<in> set (lm_entries m). le_task_id e = of_nat i \<longrightarrow> \<not> le_launch_count e \<le> le_exit_count e"
    using assms by (force simp: counts_live_def not_le)
  then show "ckpt_allowed (Some m) r"
    by (auto simp: ckpt_allowed_def id find_Some_iff split: option.split)
qed

lemma regs_map2: "ckpt_regs ss = map2 region_of (map (\<lambda>k. 192 + length (blobs (take k ss))) [0..<length ss]) ss"
  by (rule nth_equalityI) (simp_all add: ckpt_regs_nth del: upt_Suc)

lemma image_regions:
  assumes "slot_laid_out h regs m mo buf"
  shows "map (\<lambda>i. bytes_ckpt_region (slot_bytes_of h regs m mo buf) (64 + 16 * i)) [0..<unat (kh_region_count h)] = regs"
proof -
  have "unat (kh_region_count h) = length regs" using assms by (simp add: slot_laid_out_def unat_of_nat)
  then show ?thesis by (intro nth_equalityI) (simp_all add: slot_regions [OF assms])
qed

text \<open>The state apart from the checkpoint's variables and the loader's statistics.\<close>

definition tidy :: "'a ckpt_world_scheme \<Rightarrow> 'a ckpt_world_scheme" where
  "tidy w = (apart w)\<lparr>g_restore_loader_stats := \<lparr> ls_calls = 0, ls_applied = 0, ls_skipped = 0, ls_failed = 0, ls_last_rc = 0 \<rparr>\<rparr>"

context resuming
begin

lemma apply_image:
  assumes "slot_laid_out h (ckpt_regs ss) m (ckpt_end ss) (fst (collected ss))" "192 + length (blobs ss) \<le> 8192"
    and "fit v" "\<forall>s \<in> set ss. given s \<and> state_fits s" "distinct (map fst ss)"
  defines "img \<equiv> slot_bytes_of h (ckpt_regs ss) m (ckpt_end ss) (fst (collected ss))"
  shows "apply_loop (apply_region call_reg call_restore img 8192) (ckpt_regs ss) (replicate 8 0) v =
    (replicate (length ss) Applied, foldl (\<lambda>v s. resume call_reg call_restore s v) v ss)"
proof -
  let ?os = "map (\<lambda>k. 192 + length (blobs (take k ss))) [0..<length ss]"
  have "?os ! k + length (fst (snd (ss ! k))) \<le> 8192 \<and> take (length (fst (snd (ss ! k)))) (drop (?os ! k) img) = fst (snd (ss ! k))"
    if k: "k < length ss" for k
  proof -
    obtain i b d where s: "ss ! k = (i, b, d)" by (cases "ss ! k") auto
    let ?n = "192 + length (blobs (take k ss))"
    note p = blob_in_place [OF k assms(2) s]
    have n: "unat (of_nat ?n :: u32) = ?n" "unat (of_nat (length b) :: u32) = length b"
      using p(1) assms(2) by (simp_all add: unat_of_nat del: of_nat_add)
    have "slice (of_nat ?n) (of_nat (length b)) img = b"
      unfolding img_def by (subst slot_slice [OF assms(1)]) (use n p unat_ckpt_end [OF assms(2)] in \<open>simp_all del: of_nat_add\<close>)
    then show ?thesis using k p(1) assms(2) n by (simp add: s slice_def del: of_nat_add)
  qed
  then show ?thesis
    unfolding regs_map2 by (intro all_applied assms(3,4,5)) (simp_all add: marks_def split_beta)
qed

lemma load_ok:
  fixes w
  assumes r: "ckpt_ready w" and s: "s = 0 \<or> s = 1" and l: "l = ckpt_sd_make_current_layout s"
    and holds: "ckpt_holds (sd_card w) l q ss m" and new: "ckpt_newest (sd_card w) l q" and live: "counts_live m ss"
    and fits: "192 + length (blobs ss) \<le> 8192" and given: "\<forall>s \<in> set ss. given s \<and> state_fits s" "distinct (map fst ss)"
    and fit: "\<And>v. apart v = apart w \<Longrightarrow> fit v"
  shows "\<exists>v w'. terminal_ckpt_load_latest_sd call_reg call_restore True w =
       ((RESTORE_LOADER_OK, Some (Some (of_nat (length ss), 0, 0), q)), w') \<and>
     apart v = apart w \<and> tidy w' = tidy (foldl (\<lambda>v s. resume call_reg call_restore s v) v ss)"
proof -
  let ?buf = "fst (collected ss)" and ?regs = "ckpt_regs ss"
  from holds obtain h where h: "kh_seq h = q" "header_on (sd_card w) l = Some h" "slot_laid_out h ?regs m (ckpt_end ss) ?buf"
    "slot_on (sd_card w) l = slot_bytes_of h ?regs m (ckpt_end ss) ?buf"
    unfolding ckpt_holds_def by blast
  define img where "img = slot_bytes_of h ?regs m (ckpt_end ss) ?buf"
  from load_reads [OF r s l h(2)] new h(1) obtain w1 w2 where
    rd: "ckpt_sd_find_best_slot (ckpt_sd_seed_seq_if_needed w) = (Some (h, l), w1)" "ckpt_sd_read_valid_layout l w1 = (Some h, w2)"
      "apart w2 = apart w" "g_ckpt_slot_buf w2 = img"
    unfolding h(4) img_def by auto
  have n: "length ss \<le> 8" using h(3) by (simp add: slot_laid_out_def)
  have regs: "map (\<lambda>i. bytes_ckpt_region img (64 + 16 * i)) [0..<unat (kh_region_count h)] = ?regs"
    unfolding img_def by (rule image_regions [OF h(3)])
  have meta: "ckpt_load_meta h img 8192 = Some m" unfolding img_def by (rule slot_check_meta(2) [OF h(3)])
  have lb: "ckpt_sd_slot_bytes_from_layout l = 8192" by (simp add: l)
  define v where "v = w2\<lparr>g_ckpt_restore_filtered_regions := ?regs @ drop (length ?regs) (g_ckpt_restore_filtered_regions w2)\<rparr>"
  have v: "apart v = apart w" using rd(3) by (simp add: v_def apart_def)
  note ap = apply_image [OF h(3) fits fit [OF v] given, folded img_def]
  let ?f = "foldl (\<lambda>v s. resume call_reg call_restore s v) v ss"
  have c: "count_verdict Applied (replicate (length ss) Applied) = of_nat (length ss)" "count_verdict Skipped (replicate (length ss) Applied) = 0"
    "count_verdict Failed (replicate (length ss) Applied) = 0"
    by (simp_all add: count_verdict_def)
  have tk: "take (unat (of_nat (length ?regs) :: u16)) (g_ckpt_restore_filtered_regions v) = ?regs"
    using n by (simp add: v_def unat_of_nat)
  obtain x where ld: "restore_loader_apply_regions call_reg call_restore True (Some (g_ckpt_restore_filtered_regions v)) (of_nat (length ?regs))
      (Some img) 8192 v = ((RESTORE_LOADER_OK, Some (of_nat (length ss), 0, 0)), ?f\<lparr>g_restore_loader_stats := x\<rparr>)"
    unfolding restore_loader_apply_regions_def using c tk ap by (simp add: Let_def)
  define w' where "w' = (ckpt_lifecycle_seed_tracking (kh_active_task_bitmap h) ?regs (Some m) (?f\<lparr>g_restore_loader_stats := x\<rparr>))
    \<lparr>g_ckpt_sd_seq := ckpt_next_seq q, g_ckpt_sd_seq_seeded := True\<rparr>"
  have "terminal_ckpt_load_latest_sd call_reg call_restore True w = ((RESTORE_LOADER_OK, Some (Some (of_nat (length ss), 0, 0), q)), w')"
    unfolding terminal_ckpt_load_latest_sd_def term_ckpt_load_latest_sd_internal_def Let_def rd(1) option.case prod.case rd(2,4) lb regs meta
      all_allowed [OF live] v_def [symmetric] ld
    by (simp add: w'_def h(1))
  moreover have "tidy w' = tidy ?f" by (simp add: w'_def ckpt_lifecycle_seed_tracking_def Let_def tidy_def apart_def)
  ultimately show ?thesis using v by blast
qed

end

end
