(* ===== verification/Programs.thy ===== *)
theory Programs
  imports Checkpoint_Load
begin

text \<open>
  The three restorable programs, counter, assembly line and snake, as the
  checkpoint commands see them: their descriptors, the calls through the
  descriptors' function addresses, and that a checkpoint saved while they run
  brings them back after a reset.
\<close>

section \<open>Descriptors\<close>

text \<open>The addresses of a program's functions and its queue's memory, as the linker places them.\<close>

record task_link =
  tl_register :: u32
  tl_get_state :: u32
  tl_restore :: u32
  tl_dispatch :: u32
  tl_ctx :: u32
  tl_queue :: "event list"

definition restorable_desc :: "u8 \<Rightarrow> u16 \<Rightarrow> u32 \<Rightarrow> u32 \<Rightarrow> task_link \<Rightarrow> restore_desc" where
  "restorable_desc task_id version min_len max_len l = \<lparr> rd_task_id = task_id, rd_task_class = TASK_CLASS_RESTORABLE_NOW,
     rd_state_version = version, rd_min_state_len = min_len, rd_max_state_len = max_len, rd_register_fn = tl_register l,
     rd_get_state_fn = tl_get_state l, rd_restore_fn = tl_restore l, rd_ui_rehydrate_fn = 0 \<rparr>"

definition counter_desc :: "task_link \<Rightarrow> restore_desc" where
  "counter_desc = restorable_desc AO_COUNTER 2 (24 + 44) 376"

definition line_desc :: "task_link \<Rightarrow> restore_desc" where
  "line_desc = restorable_desc AO_ASSEMBLY_LINE 1 56 56"

definition snake_desc :: "task_link \<Rightarrow> restore_desc" where
  "snake_desc = restorable_desc AO_SNAKE 2 504 504"

definition counter_task_register_restore_descriptor :: "task_link \<Rightarrow> 'a res_world_scheme \<Rightarrow> int \<times> 'a res_world_scheme" where
  "counter_task_register_restore_descriptor l w = restore_registry_register_descriptor (Some (counter_desc l)) w"

definition assembly_line_task_register_restore_descriptor :: "task_link \<Rightarrow> 'a res_world_scheme \<Rightarrow> int \<times> 'a res_world_scheme" where
  "assembly_line_task_register_restore_descriptor l w = restore_registry_register_descriptor (Some (line_desc l)) w"

definition snake_task_register_restore_descriptor :: "task_link \<Rightarrow> 'a res_world_scheme \<Rightarrow> int \<times> 'a res_world_scheme" where
  "snake_task_register_restore_descriptor l w = restore_registry_register_descriptor (Some (snake_desc l)) w"

section \<open>Calls through the descriptors\<close>

text \<open>\<open>desc->get_state_fn\<close>, \<open>desc->register_fn\<close> and \<open>desc->restore_fn\<close>, by address; \<open>pad\<close> is the
  padding of the counter's structure.\<close>

definition prog_get :: "task_link \<Rightarrow> task_link \<Rightarrow> task_link \<Rightarrow> u8 \<Rightarrow> u32 \<Rightarrow> u32 \<Rightarrow> 'a line_world_scheme \<Rightarrow> int \<times> (u8 list \<times> u32) option" where
  "prog_get C L S pad f cap w =
     (if f = tl_get_state C then counter_restore_get_state_fn pad True (Some cap) w
      else if f = tl_get_state L then assembly_line_restore_get_state_fn True (Some cap) w
      else if f = tl_get_state S then snake_restore_get_state_fn True (Some cap) w
      else (SCHED_ERR_PARAM, None))"

definition prog_register :: "task_link \<Rightarrow> task_link \<Rightarrow> task_link \<Rightarrow> u32 \<Rightarrow> 'a line_world_scheme \<Rightarrow> int \<times> 'a line_world_scheme" where
  "prog_register C L S f w =
     (if f = tl_register C then counter_task_register (tl_dispatch C) (tl_ctx C) (tl_queue C) True w
      else if f = tl_register L then assembly_line_task_register (tl_dispatch L) (tl_ctx L) (tl_queue L) True w
      else if f = tl_register S then snake_task_register (tl_dispatch S) (tl_ctx S) (tl_queue S) True w
      else (SCHED_ERR_PARAM, w))"

definition prog_restore :: "task_link \<Rightarrow> task_link \<Rightarrow> task_link \<Rightarrow> u32 \<Rightarrow> u8 list \<Rightarrow> 'a line_world_scheme \<Rightarrow> int \<times> 'a line_world_scheme" where
  "prog_restore C L S f b w =
     (if f = tl_restore C then counter_restore_apply_state_fn (Some b) (of_nat (length b)) w
      else if f = tl_restore L then assembly_line_restore_apply_state_fn (Some b) (of_nat (length b)) w
      else if f = tl_restore S then snake_restore_apply_state_fn (Some b) (of_nat (length b)) w
      else (SCHED_ERR_PARAM, w))"

text \<open>Function addresses differ and are not null.\<close>

definition links_ok :: "task_link \<Rightarrow> task_link \<Rightarrow> task_link \<Rightarrow> bool" where
  "links_ok C L S \<longleftrightarrow> distinct (map tl_register [C, L, S]) \<and> distinct (map tl_get_state [C, L, S]) \<and> distinct (map tl_restore [C, L, S]) \<and>
     list_all (\<lambda>l. tl_register l \<noteq> 0 \<and> tl_get_state l \<noteq> 0 \<and> tl_restore l \<noteq> 0 \<and> tl_dispatch l \<noteq> 0 \<and> tl_ctx l \<noteq> 0) [C, L, S]"

section \<open>What the programs leave alone\<close>

definition lowered :: "'a con_world_scheme \<Rightarrow> 'a con_world_scheme \<Rightarrow> bool" where
  "lowered w' w \<longleftrightarrow> con_world.more w' = con_world.more w \<and> post_frame 3 w' w"

lemma lowered_refl [simp]: "lowered w w"
  by (simp add: lowered_def)

lemma lowered_trans: "lowered w2 w1 \<Longrightarrow> lowered w1 w \<Longrightarrow> lowered w2 w"
  unfolding lowered_def using post_frame_trans by metis

lemma lowered_out:
  "lowered w' w \<Longrightarrow> lowered (con_puts s w') w" "lowered w' w \<Longrightarrow> lowered (snd (console_put_u32 v w')) w"
  "lowered w' w \<Longrightarrow> lowered (snd (console_write b n w')) w"
proof -
  have "lowered (con_puts s w') w'" "lowered (snd (console_put_u32 v w')) w'" "lowered (snd (console_write b n w')) w'"
    by (simp_all add: lowered_def con_call_more console_put_u32_more console_write_more)
      (simp_all add: con_puts_def console_put_u32_def Let_def post_frame_console)
  then show "lowered w' w \<Longrightarrow> lowered (con_puts s w') w" "lowered w' w \<Longrightarrow> lowered (snd (console_put_u32 v w')) w"
    "lowered w' w \<Longrightarrow> lowered (snd (console_write b n w')) w"
    using lowered_trans by blast+
qed

lemma lowered_line: "lowered (assembly_line_render w) w"
proof -
  have p: "lowered w' w \<Longrightarrow> lowered (part_line q w') w" for q w'
    by (simp add: part_line_def lowered_out)
  have s: "lowered w' w \<Longrightarrow> lowered (assembly_line_render_slot k w') w" for k w'
    by (simp add: assembly_line_render_slot_def Let_def lowered_out p split: option.split)
  have f: "lowered w' w \<Longrightarrow> lowered (assembly_line_render_fixture w') w" for w'
    by (simp add: assembly_line_render_fixture_def Let_def lowered_out p split: option.split)
  have t: "lowered w' w \<Longrightarrow> lowered (line_status w') w" for w'
    by (simp add: line_status_def lowered_out)
  show ?thesis by (simp add: assembly_line_render_def Let_def lowered_out s f t)
qed

text \<open>The registry stays, and no task is unregistered.\<close>

definition prog_frame :: "'a res_world_scheme \<Rightarrow> 'a res_world_scheme \<Rightarrow> bool" where
  "prog_frame w' w \<longleftrightarrow> g_registry w' = g_registry w \<and> length (g_task_aos w') = length (g_task_aos w) \<and>
     length (sc_table w') = length (sc_table w) \<and> (\<forall>i. sc_table w ! i \<noteq> None \<longrightarrow> sc_table w' ! i \<noteq> None)"

lemma prog_frame_refl [simp]: "prog_frame w w"
  by (simp add: prog_frame_def)

lemma prog_frame_trans: "prog_frame w2 w1 \<Longrightarrow> prog_frame w1 w \<Longrightarrow> prog_frame w2 w"
  by (simp add: prog_frame_def)

lemma con_more_registry: "con_world.more w' = con_world.more w \<Longrightarrow> g_registry w' = g_registry w"
  by (cases w; cases w') simp

lemma prog_frame_lowered: "lowered w' w \<Longrightarrow> prog_frame w' w"
  by (simp add: lowered_def prog_frame_def post_frame_def con_more_registry [of w' w])

lemma update_some: "xs ! i \<noteq> None \<Longrightarrow> xs[k := Some y] ! i \<noteq> None"
  by (cases "k < length xs"; cases "k = i") (auto simp: list_update_beyond not_less)

lemma prog_frame_ao: "prog_frame (set_ao k f w') w \<longleftrightarrow> prog_frame w' w"
  by (simp add: prog_frame_def set_ao_def)

lemma prog_frame_table:
  "prog_frame w' w \<Longrightarrow> prog_frame (w'\<lparr>sc_table := (sc_table w)[k := Some y]\<rparr>) w"
  "prog_frame w' w \<Longrightarrow> prog_frame (w'\<lparr>sc_table := (sc_table w)[k := Some y], sc_ready_bitmap := z\<rparr>) w"
  using update_some [of "sc_table w" _ k y] unfolding prog_frame_def by simp_all

lemma prog_frame_sched_register: "prog_frame (snd (sched_register kp w)) w"
proof (cases kp)
  case (Some k)
  show ?thesis unfolding sched_register_def Some by (simp add: Let_def prog_frame_table prog_frame_ao)
qed (simp add: sched_register_def)

lemma prog_frame_register: "prog_frame (snd (sched_register_task sp w)) w"
proof (cases sp)
  case (Some spec)
  have "prog_frame (snd (sched_register kp (set_ao k f w))) w" for kp k f
    by (rule prog_frame_trans [OF prog_frame_sched_register]) (simp add: prog_frame_ao)
  then show ?thesis unfolding sched_register_task_def Some by (simp add: Let_def)
qed (simp add: sched_register_task_def)

text \<open>A registration succeeds.\<close>

lemma register_task_ok:
  fixes nm bud st
  assumes "length (g_task_aos w) = 32" "length (sc_table w) = 32" "unat tid < 32" "unat prio < 32" "fn \<noteq> 0" "cx \<noteq> 0" "cap \<noteq> 0"
  defines "sp \<equiv> \<lparr> ts_id = tid, ts_prio = prio, ts_dispatch = fn, ts_ctx = cx, ts_queue_storage = Some st, ts_queue_capacity = cap,
     ts_rtc_budget_ticks = bud, ts_name = nm \<rparr>"
  shows "fst (sched_register_task (Some sp) w) \<in> {SCHED_OK, SCHED_ERR_EXISTS}" "sc_table (snd (sched_register_task (Some sp) w)) ! unat tid \<noteq> None"
  using assms by (auto simp: sched_register_task_def sched_register_def set_ao_def eq_init_def Let_def)

lemma prog_frame_acquire: "prog_frame (snd (terminal_stdin_acquire a m w)) w"
proof -
  let ?v = "shell_rx_idle (upd_t (\<lambda>t. t\<lparr>tc_stdin_owner := a, tc_stdin_mode := m, tc_stdin_owner_ref := sc_table w ! unat a\<rparr>) w)"
  have v: "same_sched ?v w" "g_registry ?v = g_registry w"
    by (simp_all add: same_sched_def shell_rx_idle_def upd_sh_def upd_t_def Let_def)
  have j: "same_sched (snd (journal_capture_io_owner a 1 ?v)) w" by (rule same_sched_capture(2) [OF v(1)])
  have "g_registry (snd (journal_capture_io_owner a 1 ?v)) = g_registry ?v"
    by (rule con_more_registry [OF jrnl_more_con [OF journal_capture_more(2)]])
  then have "prog_frame (snd (journal_capture_io_owner a 1 ?v)) w"
    using j v(2) unfolding prog_frame_def same_sched_def by metis
  then show ?thesis by (cases "m = TERM_STDIN_MODE_RAW") (simp_all add: terminal_stdin_acquire_def)
qed

text \<open>What a program's registration and restore leave of the others.\<close>

lemma term_more_counter: "term_world.more w' = term_world.more w \<Longrightarrow> g_counter_ctx w' = g_counter_ctx w"
  by (cases w; cases w') simp

lemma con_more_counter: "con_world.more w' = con_world.more w \<Longrightarrow> g_counter_ctx w' = g_counter_ctx w"
  by (cases w; cases w') simp

lemma counter_more_ctx:
  "cnt_world.more w' = cnt_world.more w \<Longrightarrow> g_snake_ctx w' = g_snake_ctx w"
  "cnt_world.more v' = cnt_world.more v \<Longrightarrow> g_assembly_line_ctx v' = g_assembly_line_ctx v"
  by (cases w; cases w'; simp) (cases v; cases v'; simp)

lemma snake_more_ctx: "snk_world.more w' = snk_world.more w \<Longrightarrow> g_assembly_line_ctx w' = g_assembly_line_ctx w"
  by (cases w; cases w') simp

lemma term_more_worlds:
  "term_world.more w' = term_world.more w \<Longrightarrow> cnt_world.more w' = cnt_world.more w"
  "term_world.more v' = term_world.more v \<Longrightarrow> snk_world.more v' = snk_world.more v"
  by (cases w; cases w'; simp) (cases v; cases v'; simp)

lemma prog_frame_registered: "prog_frame w' w \<Longrightarrow> prog_frame (snd (sched_register_task sp w')) w"
  by (rule prog_frame_trans [OF prog_frame_register])

lemmas task_registered_more = sched_register_more [THEN sched_more_above]

lemma counter_register_frames:
  "prog_frame (snd (counter_task_register fn cx st True w)) w"
  "cnt_world.more (snd (counter_task_register fn cx st True w)) = cnt_world.more w"
  by (simp_all add: counter_task_register_def Let_def case_prod_beta counter_task_reset_state_def
      task_registered_more [THEN term_more_worlds(1)])
    (intro conjI impI prog_frame_registered; simp add: prog_frame_def)

lemma line_register_frames:
  "prog_frame (snd (assembly_line_task_register fn cx st True w)) w"
  "g_counter_ctx (snd (assembly_line_task_register fn cx st True w)) = g_counter_ctx w"
  "g_snake_ctx (snd (assembly_line_task_register fn cx st True w)) = g_snake_ctx w"
  by (simp_all add: assembly_line_task_register_def Let_def case_prod_beta assembly_line_task_reset_state_def
      task_registered_more [THEN term_more_counter] task_registered_more [THEN term_more_snake])
    (intro conjI impI prog_frame_registered; simp add: prog_frame_def)

lemma snake_register_frames:
  "prog_frame (snd (snake_task_register fn cx st True w)) w"
  "g_counter_ctx (snd (snake_task_register fn cx st True w)) = g_counter_ctx w"
  "snk_world.more (snd (snake_task_register fn cx st True w)) = snk_world.more w"
  by (simp_all add: snake_task_register_def Let_def case_prod_beta snake_task_reset_state_def
      task_registered_more [THEN term_more_counter] task_registered_more [THEN term_more_worlds(2)])
    (intro conjI impI prog_frame_registered; simp add: prog_frame_def)

lemma prog_frame_fields [simp]:
  "prog_frame (a\<lparr>g_counter_restore_needs_stdin_rebind := b\<rparr>) wa \<longleftrightarrow> prog_frame a wa" "prog_frame (a\<lparr>g_counter_state_restored := b\<rparr>) wa \<longleftrightarrow> prog_frame a wa"
  "prog_frame (a\<lparr>g_counter_ctx := c\<rparr>) wa \<longleftrightarrow> prog_frame a wa"
  "prog_frame (d\<lparr>g_assembly_line_restore_needs_stdin_rebind := b\<rparr>) wd \<longleftrightarrow> prog_frame d wd" "prog_frame (d\<lparr>g_assembly_line_ctx := e\<rparr>) wd \<longleftrightarrow> prog_frame d wd"
  "prog_frame (d\<lparr>g_assembly_line_tick_pending := b\<rparr>) wd \<longleftrightarrow> prog_frame d wd" "prog_frame (d\<lparr>g_assembly_line_state_restored := b\<rparr>) wd \<longleftrightarrow> prog_frame d wd"
  "prog_frame (f\<lparr>g_snake_restore_needs_stdin_rebind := b\<rparr>) wk \<longleftrightarrow> prog_frame f wk" "prog_frame (f\<lparr>g_snake_ctx := g\<rparr>) wk \<longleftrightarrow> prog_frame f wk"
  "prog_frame (f\<lparr>g_snake_tick_pending := b\<rparr>) wk \<longleftrightarrow> prog_frame f wk" "prog_frame (f\<lparr>g_snake_full_redraw := b\<rparr>) wk \<longleftrightarrow> prog_frame f wk"
  "prog_frame (f\<lparr>g_snake_state_restored := b\<rparr>) wk \<longleftrightarrow> prog_frame f wk"
  by (simp_all add: prog_frame_def)

lemma prog_frame_calls:
  "prog_frame a wa \<Longrightarrow> prog_frame (counter_out_puts s a) wa" "prog_frame a wa \<Longrightarrow> prog_frame (counter_out_put_u32 v a) wa"
  "prog_frame b wb \<Longrightarrow> prog_frame (snd (terminal_stdin_acquire i m b)) wb"
  "prog_frame d wd \<Longrightarrow> prog_frame (assembly_line_render d) wd" "prog_frame f wk \<Longrightarrow> prog_frame (snake_render f) wk"
proof -
  have "prog_frame (counter_out_puts s a) a" "prog_frame (counter_out_put_u32 v a) a"
    by (simp_all add: counter_out_puts_def counter_out_put_u32_def prog_frame_lowered lowered_out)
      (simp_all add: prog_frame_def w_log_puts_def w_log_u32_def)
  moreover have "prog_frame (snake_render f) f"
  proof -
    have "prog_frame (snd (console_write x n (f\<lparr>g_snake_render_buf := y, g_snake_full_redraw := z\<rparr>))) f" for x n y z
      by (rule prog_frame_trans [OF prog_frame_lowered [OF lowered_out(3) [OF lowered_refl]]]) (simp add: prog_frame_def)
    then show ?thesis by (simp add: snake_render_def Let_def split: prod.split)
  qed
  ultimately show "prog_frame a wa \<Longrightarrow> prog_frame (counter_out_puts s a) wa" "prog_frame a wa \<Longrightarrow> prog_frame (counter_out_put_u32 v a) wa"
    "prog_frame b wb \<Longrightarrow> prog_frame (snd (terminal_stdin_acquire i m b)) wb"
    "prog_frame d wd \<Longrightarrow> prog_frame (assembly_line_render d) wd" "prog_frame f wk \<Longrightarrow> prog_frame (snake_render f) wk"
    using prog_frame_trans prog_frame_acquire [of i m b] prog_frame_lowered [OF lowered_line] by blast+
qed

lemma counter_adopt_frames:
  "prog_frame (counter_adopt s w) w" "cnt_world.more (counter_adopt s w) = cnt_world.more w"
  by (simp_all add: counter_adopt_def Let_def case_prod_beta prog_frame_calls)
    (simp_all add: counter_out_more [THEN term_more_worlds(1)] term_more_stdin [THEN term_more_worlds(1)])

text \<open>A restore from bytes that the program gave.\<close>

lemma line_restore_frames:
  assumes "line_inv s" "ln_active s \<noteq> 0"
  defines "v \<equiv> \<lambda>w. snd (assembly_line_restore_apply_state_fn (Some (line_bytes s)) 56 w)"
  shows "prog_frame (v w) w" "g_counter_ctx (v w) = g_counter_ctx w" "g_snake_ctx (v w) = g_snake_ctx w"
proof -
  have c: "g_counter_ctx (assembly_line_render u) = g_counter_ctx u" "g_snake_ctx (assembly_line_render u) = g_snake_ctx u" for u :: "'a line_world_scheme"
    using con_more_counter con_more_snake lowered_line unfolding lowered_def by blast+
  show "prog_frame (v w) w" "g_counter_ctx (v w) = g_counter_ctx w" "g_snake_ctx (v w) = g_snake_ctx w"
    using assms(2) line_inv_valid [OF assms(1)]
    by (simp_all add: v_def assembly_line_restore_apply_state_fn_def line_decoded [OF assms(1)] assembly_line_task_restore_state_def
        case_prod_beta prog_frame_calls c term_more_stdin [THEN term_more_counter] term_more_stdin [THEN term_more_snake])
qed

lemma snake_restore_frames:
  assumes "snake_inv s" "sn_active s \<noteq> 0"
  defines "v \<equiv> \<lambda>w. snd (snake_restore_apply_state_fn (Some (snake_bytes s)) 504 w)"
  shows "prog_frame (v w) w" "g_counter_ctx (v w) = g_counter_ctx w" "snk_world.more (v w) = snk_world.more w"
proof -
  have r: "g_counter_ctx (snd (console_write x n (u\<lparr>g_snake_render_buf := y, g_snake_full_redraw := z\<rparr>))) = g_counter_ctx u"
    "snk_world.more (snd (console_write x n (u\<lparr>g_snake_render_buf := y, g_snake_full_redraw := z\<rparr>))) = snk_world.more u"
    for u :: "'a snk_world_scheme" and x n y z
    using console_write_more [THEN con_more_counter, of x n "u\<lparr>g_snake_render_buf := y, g_snake_full_redraw := z\<rparr>"]
      console_write_more [THEN con_more_above, THEN term_more_worlds(2), of x n "u\<lparr>g_snake_render_buf := y, g_snake_full_redraw := z\<rparr>"] by simp_all
  have c: "g_counter_ctx (snake_render u) = g_counter_ctx u" "snk_world.more (snake_render u) = snk_world.more u" for u :: "'a snk_world_scheme"
    by (simp_all add: snake_render_def Let_def r split: prod.split)
  show "prog_frame (v w) w" "g_counter_ctx (v w) = g_counter_ctx w" "snk_world.more (v w) = snk_world.more w"
    using assms(1,2)
    by (simp_all add: v_def snake_restore_apply_state_fn_def snake_decoded [OF assms(1)] snake_task_restore_state_def snake_inv_def
        case_prod_beta prog_frame_calls c term_more_stdin [THEN term_more_counter] term_more_stdin [THEN term_more_worlds(2)])
qed

section \<open>The contract of a restorable program\<close>

text \<open>
  A program with a state gives it as bytes; the restore function, given the
  bytes, resumes the state.  \<open>fit\<close> is what the system keeps: the registry and the
  scheduler's tables.
\<close>

locale restorable =
  fixes get :: "u32 \<Rightarrow> 'a ckpt_world_scheme \<Rightarrow> int \<times> (u8 list \<times> u32) option"
    and reg :: "'a ckpt_world_scheme \<Rightarrow> int \<times> 'a ckpt_world_scheme"
    and res :: "u8 list \<Rightarrow> 'a ckpt_world_scheme \<Rightarrow> int \<times> 'a ckpt_world_scheme"
    and fit :: "'a ckpt_world_scheme \<Rightarrow> bool"
    and ctx :: "'a ckpt_world_scheme \<Rightarrow> 's"
    and active :: "'s \<Rightarrow> bool" and good :: "'s \<Rightarrow> bool"
    and bytes :: "'s \<Rightarrow> u8 list" and size_of :: nat
    and resumed :: "u32 \<Rightarrow> 's \<Rightarrow> 's"
    and task_id :: nat
  assumes small: "size_of \<le> 4096"
    and gives: "good (ctx w) \<Longrightarrow> active (ctx w) \<Longrightarrow> of_nat size_of \<le> cap \<Longrightarrow> get cap w = (SCHED_OK, Some (bytes (ctx w), of_nat size_of))"
    and rests: "\<not> active (ctx w) \<Longrightarrow> snd (get cap w) = None"
    and sized: "good s \<Longrightarrow> active s \<Longrightarrow> length (bytes s) = size_of"
    and registers: "fit v \<Longrightarrow> fst (reg v) \<in> {SCHED_OK, SCHED_ERR_EXISTS}" "fit v \<Longrightarrow> fit (snd (reg v))"
      "fit v \<Longrightarrow> sc_table (snd (reg v)) ! task_id \<noteq> None"
    and restores: "good s \<Longrightarrow> active s \<Longrightarrow> fst (res (bytes s) v) = SCHED_OK"
      "good s \<Longrightarrow> active s \<Longrightarrow> ctx (snd (res (bytes s) v)) = resumed (systick_now v) s"
      "good s \<Longrightarrow> active s \<Longrightarrow> prog_frame (snd (res (bytes s) v)) v"
    and frame: "prog_frame v' v \<Longrightarrow> fit v \<Longrightarrow> fit v'"
begin

text \<open>A program that runs is collected, one that does not is passed over.\<close>

lemma collected_running:
  assumes "good (ctx w)" "active (ctx w)" "sc_table w ! task_id \<noteq> None" "restore_registry_find (of_nat task_id) w = Some d"
    and "rd_task_id d = of_nat task_id" "rd_task_class d = TASK_CLASS_RESTORABLE_NOW" "rd_get_state_fn d \<noteq> 0" "rd_restore_fn d \<noteq> 0"
    and "rd_min_state_len d \<le> of_nat size_of" "of_nat size_of \<le> rd_max_state_len d" "rd_max_state_len d \<le> 4096"
    and "call_get (rd_get_state_fn d) = get"
  shows "task_running call_get w task_id (bytes (ctx w)) d"
  using assms sized [OF assms(1,2)] small by (simp add: task_running_def gives)

lemma collected_idle:
  assumes "\<not> active (ctx w) \<or> sc_table w ! task_id = None" "restore_registry_find (of_nat task_id) w = Some d" "call_get (rd_get_state_fn d) = get"
  shows "task_idle call_get w task_id"
  using assms rests by (auto simp: task_idle_def)

text \<open>A program that is handed its bytes resumes.\<close>

lemma resumes:
  assumes "fit v" "good s" "active s"
  defines "v' \<equiv> snd (res (bytes s) (snd (reg v)))"
  shows "\<exists>t. ctx v' = resumed t s" "fit v'" "sc_table v' ! task_id \<noteq> None"
  using restores(2) [OF assms(2,3)] restores(3) [OF assms(2,3), of "snd (reg v)"] registers(2,3) [OF assms(1)] frame
  unfolding v'_def prog_frame_def by blast+

end

section \<open>The three programs\<close>

text \<open>The three descriptors are registered, and the scheduler's tables have their size.\<close>

definition programs_known :: "task_link \<Rightarrow> task_link \<Rightarrow> task_link \<Rightarrow> 'a res_world_scheme \<Rightarrow> bool" where
  "programs_known C L S v \<longleftrightarrow> links_ok C L S \<and> length (g_task_aos v) = 32 \<and> length (sc_table v) = 32 \<and>
     restore_registry_find AO_COUNTER v = Some (counter_desc C) \<and> restore_registry_find AO_ASSEMBLY_LINE v = Some (line_desc L) \<and>
     restore_registry_find AO_SNAKE v = Some (snake_desc S)"

lemma programs_known_frame: "prog_frame v' v \<Longrightarrow> programs_known C L S v \<Longrightarrow> programs_known C L S v'"
  by (simp add: programs_known_def prog_frame_def restore_registry_find_def)

definition counter_resumed :: "u32 \<Rightarrow> counter_state \<Rightarrow> counter_state" where
  "counter_resumed now s = s\<lparr>ct_step_pending := 0, ct_next_tick := now + COUNTER_STEP_TICKS\<rparr>"

lemma counter_adopt_ctx: "g_counter_ctx (counter_adopt s w) = counter_resumed (systick_now w) s"
  by (simp add: counter_adopt_def Let_def case_prod_beta counter_resumed_def counter_out_more [THEN term_more_counter]
      term_more_stdin [THEN term_more_counter])

lemma registration_result:
  assumes "length (g_task_aos w) = 32" "length (sc_table w) = 32" "unat tid < 32" "fn \<noteq> 0" "cx \<noteq> 0"
  defines "r \<equiv> \<lambda>st nm. case sched_register_task (Some \<lparr> ts_id = tid, ts_prio = 2, ts_dispatch = fn, ts_ctx = cx,
     ts_queue_storage = Some st, ts_queue_capacity = 8, ts_rtc_budget_ticks = 1, ts_name = nm \<rparr>) w of (rc, w5) \<Rightarrow>
       (if rc = SCHED_ERR_EXISTS then SCHED_OK else rc, w5)"
  shows "fst (r st nm) \<in> {SCHED_OK, SCHED_ERR_EXISTS}" "sc_table (snd (r st nm)) ! unat tid \<noteq> None"
  using register_task_ok [OF assms(1-3), of 2 fn cx 8 st 1 nm] assms(4,5) by (auto simp: r_def split: prod.split)

lemma registration:
  assumes "programs_known C L S v"
  shows "fst (counter_task_register (tl_dispatch C) (tl_ctx C) st True v) \<in> {SCHED_OK, SCHED_ERR_EXISTS}"
    "sc_table (snd (counter_task_register (tl_dispatch C) (tl_ctx C) st True v)) ! unat AO_COUNTER \<noteq> None"
  using assms unfolding counter_task_register_def Let_def not_True_eq_False if_False
  by (intro registration_result; simp add: programs_known_def links_ok_def counter_task_reset_state_def)+

lemma line_registration:
  assumes "programs_known C L S v"
  shows "fst (assembly_line_task_register (tl_dispatch L) (tl_ctx L) st True v) \<in> {SCHED_OK, SCHED_ERR_EXISTS}"
    "sc_table (snd (assembly_line_task_register (tl_dispatch L) (tl_ctx L) st True v)) ! unat AO_ASSEMBLY_LINE \<noteq> None"
  using assms unfolding assembly_line_task_register_def Let_def not_True_eq_False if_False
  by (intro registration_result; simp add: programs_known_def links_ok_def assembly_line_task_reset_state_def)+

lemma snake_registration:
  assumes "programs_known C L S v"
  shows "fst (snake_task_register (tl_dispatch S) (tl_ctx S) st True v) \<in> {SCHED_OK, SCHED_ERR_EXISTS}"
    "sc_table (snd (snake_task_register (tl_dispatch S) (tl_ctx S) st True v)) ! unat AO_SNAKE \<noteq> None"
  using assms unfolding snake_task_register_def Let_def not_True_eq_False if_False
  by (intro registration_result; simp add: programs_known_def links_ok_def snake_task_reset_state_def)+

lemma program_rests:
  "ct_active (g_counter_ctx u) = 0 \<Longrightarrow> snd (counter_restore_get_state_fn pad True (Some cap) u) = None"
  "ln_active (g_assembly_line_ctx v) = 0 \<Longrightarrow> snd (assembly_line_restore_get_state_fn True (Some cap) v) = None"
  "sn_active (g_snake_ctx w) = 0 \<Longrightarrow> snd (snake_restore_get_state_fn True (Some cap) w) = None"
  by (simp_all add: counter_restore_get_state_fn_def counter_task_get_state_def assembly_line_restore_get_state_fn_def
      assembly_line_task_get_state_def snake_restore_get_state_fn_def snake_task_get_state_def)

interpretation counter_prog: restorable "\<lambda>cap. counter_restore_get_state_fn pad True (Some cap)"
  "counter_task_register (tl_dispatch C) (tl_ctx C) (tl_queue C) True" "\<lambda>b. counter_restore_apply_state_fn (Some b) (of_nat (length b))"
  "programs_known C L S" g_counter_ctx "\<lambda>s. ct_active s \<noteq> 0" "\<lambda>s. True" "\<lambda>s. counter_blob pad s []" 376 counter_resumed "unat AO_COUNTER"
proof
  fix v :: "'a ckpt_world_scheme" and s :: counter_state
  assume a: "ct_active s \<noteq> 0"
  show "length (counter_blob pad s []) = 376" by (simp add: counter_enveloped)
  have r: "counter_restore_apply_state_fn (Some (counter_blob pad s [])) 376 v = (SCHED_OK, counter_adopt (s\<lparr>ct_step_pending := 0\<rparr>) v)"
    using a by (simp add: counter_enveloped)
  show "fst (counter_restore_apply_state_fn (Some (counter_blob pad s [])) (of_nat (length (counter_blob pad s []))) v) = SCHED_OK"
    "g_counter_ctx (snd (counter_restore_apply_state_fn (Some (counter_blob pad s [])) (of_nat (length (counter_blob pad s []))) v)) =
      counter_resumed (systick_now v) s"
    "prog_frame (snd (counter_restore_apply_state_fn (Some (counter_blob pad s [])) (of_nat (length (counter_blob pad s []))) v)) v"
    by (simp_all add: counter_enveloped r counter_adopt_ctx counter_adopt_frames) (simp add: counter_resumed_def)
next
  fix v :: "'a ckpt_world_scheme"
  assume k: "programs_known C L S v"
  show "fst (counter_task_register (tl_dispatch C) (tl_ctx C) (tl_queue C) True v) \<in> {SCHED_OK, SCHED_ERR_EXISTS}"
    "sc_table (snd (counter_task_register (tl_dispatch C) (tl_ctx C) (tl_queue C) True v)) ! unat AO_COUNTER \<noteq> None"
    by (rule registration [OF k])+
  show "programs_known C L S (snd (counter_task_register (tl_dispatch C) (tl_ctx C) (tl_queue C) True v))"
    by (rule programs_known_frame [OF counter_register_frames(1) k])
qed (simp_all add: counter_saved(1) programs_known_frame program_rests)


interpretation line_prog: restorable "\<lambda>cap. assembly_line_restore_get_state_fn True (Some cap)"
  "assembly_line_task_register (tl_dispatch L) (tl_ctx L) (tl_queue L) True"
  "\<lambda>b. assembly_line_restore_apply_state_fn (Some b) (of_nat (length b))"
  "programs_known C L S" g_assembly_line_ctx "\<lambda>s. ln_active s \<noteq> 0" line_inv line_bytes 56 "\<lambda>_. line_resumed" "unat AO_ASSEMBLY_LINE"
proof
  fix v :: "'a ckpt_world_scheme" and s
  assume a: "line_inv s" "ln_active s \<noteq> 0"
  show l: "length (line_bytes s) = 56" by (rule line_decoded(1) [OF a(1)])
  show "fst (assembly_line_restore_apply_state_fn (Some (line_bytes s)) (of_nat (length (line_bytes s))) v) = SCHED_OK"
    "g_assembly_line_ctx (snd (assembly_line_restore_apply_state_fn (Some (line_bytes s)) (of_nat (length (line_bytes s))) v)) = line_resumed s"
    "prog_frame (snd (assembly_line_restore_apply_state_fn (Some (line_bytes s)) (of_nat (length (line_bytes s))) v)) v"
    using line_saved(3,4) [of "v\<lparr>g_assembly_line_ctx := s\<rparr>" 56 v] a line_restore_frames(1) [OF a] by (simp_all add: l)
next
  fix v :: "'a ckpt_world_scheme"
  assume k: "programs_known C L S v"
  show "fst (assembly_line_task_register (tl_dispatch L) (tl_ctx L) (tl_queue L) True v) \<in> {SCHED_OK, SCHED_ERR_EXISTS}"
    "sc_table (snd (assembly_line_task_register (tl_dispatch L) (tl_ctx L) (tl_queue L) True v)) ! unat AO_ASSEMBLY_LINE \<noteq> None"
    by (rule line_registration [OF k])+
  show "programs_known C L S (snd (assembly_line_task_register (tl_dispatch L) (tl_ctx L) (tl_queue L) True v))"
    by (rule programs_known_frame [OF line_register_frames(1) k])
qed (simp_all add: line_saved(1) programs_known_frame program_rests)

interpretation snake_prog: restorable "\<lambda>cap. snake_restore_get_state_fn True (Some cap)"
  "snake_task_register (tl_dispatch S) (tl_ctx S) (tl_queue S) True" "\<lambda>b. snake_restore_apply_state_fn (Some b) (of_nat (length b))"
  "programs_known C L S" g_snake_ctx "\<lambda>s. sn_active s \<noteq> 0" snake_inv snake_bytes 504 snake_resumed "unat AO_SNAKE"
proof
  fix v :: "'a ckpt_world_scheme" and s
  assume a: "snake_inv s" "sn_active s \<noteq> 0"
  show l: "length (snake_bytes s) = 504" by (rule snake_decoded(1) [OF a(1)])
  show "fst (snake_restore_apply_state_fn (Some (snake_bytes s)) (of_nat (length (snake_bytes s))) v) = SCHED_OK"
    "g_snake_ctx (snd (snake_restore_apply_state_fn (Some (snake_bytes s)) (of_nat (length (snake_bytes s))) v)) = snake_resumed (systick_now v) s"
    "prog_frame (snd (snake_restore_apply_state_fn (Some (snake_bytes s)) (of_nat (length (snake_bytes s))) v)) v"
    using snake_saved(3,4) [of "v\<lparr>g_snake_ctx := s\<rparr>" 504 v] a snake_restore_frames(1) [OF a] by (simp_all add: l)
next
  fix v :: "'a ckpt_world_scheme"
  assume k: "programs_known C L S v"
  show "fst (snake_task_register (tl_dispatch S) (tl_ctx S) (tl_queue S) True v) \<in> {SCHED_OK, SCHED_ERR_EXISTS}"
    "sc_table (snd (snake_task_register (tl_dispatch S) (tl_ctx S) (tl_queue S) True v)) ! unat AO_SNAKE \<noteq> None"
    by (rule snake_registration [OF k])+
  show "programs_known C L S (snd (snake_task_register (tl_dispatch S) (tl_ctx S) (tl_queue S) True v))"
    by (rule programs_known_frame [OF snake_register_frames(1) k])
qed (simp_all add: snake_saved(1) programs_known_frame program_rests)

section \<open>The loader and the three programs\<close>

lemma prog_calls:
  assumes "links_ok C L S"
  shows "prog_register C L S (tl_register C) v = counter_task_register (tl_dispatch C) (tl_ctx C) (tl_queue C) True v"
    "prog_register C L S (tl_register L) v = assembly_line_task_register (tl_dispatch L) (tl_ctx L) (tl_queue L) True v"
    "prog_register C L S (tl_register S) v = snake_task_register (tl_dispatch S) (tl_ctx S) (tl_queue S) True v"
    "prog_restore C L S (tl_restore C) b v = counter_restore_apply_state_fn (Some b) (of_nat (length b)) v"
    "prog_restore C L S (tl_restore L) b v = assembly_line_restore_apply_state_fn (Some b) (of_nat (length b)) v"
    "prog_restore C L S (tl_restore S) b v = snake_restore_apply_state_fn (Some b) (of_nat (length b)) v"
    "prog_get C L S pad (tl_get_state C) = (\<lambda>cap. counter_restore_get_state_fn pad True (Some cap) :: 'a line_world_scheme \<Rightarrow> _)"
    "prog_get C L S pad (tl_get_state L) = (\<lambda>cap. assembly_line_restore_get_state_fn True (Some cap) :: 'a line_world_scheme \<Rightarrow> _)"
    "prog_get C L S pad (tl_get_state S) = (\<lambda>cap. snake_restore_get_state_fn True (Some cap) :: 'a line_world_scheme \<Rightarrow> _)"
  using assms by (auto simp: links_ok_def prog_register_def prog_restore_def prog_get_def fun_eq_iff)

lemma desc_fields [simp]:
  "rd_task_id (counter_desc l) = 4" "rd_task_class (counter_desc l) = TASK_CLASS_RESTORABLE_NOW" "rd_register_fn (counter_desc l) = tl_register l"
  "rd_get_state_fn (counter_desc l) = tl_get_state l" "rd_restore_fn (counter_desc l) = tl_restore l" "rd_min_state_len (counter_desc l) = 68"
  "rd_max_state_len (counter_desc l) = 376"
  "rd_task_id (line_desc l) = 6" "rd_task_class (line_desc l) = TASK_CLASS_RESTORABLE_NOW" "rd_register_fn (line_desc l) = tl_register l"
  "rd_get_state_fn (line_desc l) = tl_get_state l" "rd_restore_fn (line_desc l) = tl_restore l" "rd_min_state_len (line_desc l) = 56"
  "rd_max_state_len (line_desc l) = 56"
  "rd_task_id (snake_desc l) = 7" "rd_task_class (snake_desc l) = TASK_CLASS_RESTORABLE_NOW" "rd_register_fn (snake_desc l) = tl_register l"
  "rd_get_state_fn (snake_desc l) = tl_get_state l" "rd_restore_fn (snake_desc l) = tl_restore l" "rd_min_state_len (snake_desc l) = 504"
  "rd_max_state_len (snake_desc l) = 504"
  by (simp_all add: counter_desc_def line_desc_def snake_desc_def restorable_desc_def)

text \<open>What the three programs give: bytes of a good state.\<close>

fun prog_given :: "task_link \<Rightarrow> task_link \<Rightarrow> task_link \<Rightarrow> u8 \<Rightarrow> saved_state \<Rightarrow> bool" where
  "prog_given C L S pad (i, b, d) \<longleftrightarrow>
     i = 4 \<and> d = counter_desc C \<and> (\<exists>s. ct_active s \<noteq> 0 \<and> b = counter_blob pad s []) \<or>
     i = 6 \<and> d = line_desc L \<and> (\<exists>s. line_inv s \<and> ln_active s \<noteq> 0 \<and> b = line_bytes s) \<or>
     i = 7 \<and> d = snake_desc S \<and> (\<exists>s. snake_inv s \<and> sn_active s \<noteq> 0 \<and> b = snake_bytes s)"

interpretation prog_loader: resuming "prog_register C L S" "prog_restore C L S" "programs_known C L S" "prog_given C L S pad"
proof
  fix v :: "'a ckpt_world_scheme" and i b d
  assume k: "programs_known C L S v" and g: "prog_given C L S pad (i, b, d)"
  have l: "links_ok C L S" using k by (simp add: programs_known_def)
  show "restore_registry_find (of_nat i) v = Some d" using k g by (auto simp: programs_known_def)
  show "fst (prog_register C L S (rd_register_fn d) v) \<in> {SCHED_OK, SCHED_ERR_EXISTS}"
    using g counter_prog.registers(1) [OF k] line_prog.registers(1) [OF k] snake_prog.registers(1) [OF k] by (auto simp: prog_calls [OF l])
  show "programs_known C L S (snd (prog_register C L S (rd_register_fn d) v))"
    using g counter_prog.registers(2) [OF k] line_prog.registers(2) [OF k] snake_prog.registers(2) [OF k] by (auto simp: prog_calls [OF l])
  show "fst (prog_restore C L S (rd_restore_fn d) b v) = SCHED_OK"
    using g counter_prog.restores(1) line_prog.restores(1) snake_prog.restores(1) by (auto simp: prog_calls [OF l])
  have "prog_frame (snd (prog_restore C L S (rd_restore_fn d) b v)) v"
    using g counter_prog.restores(3) line_prog.restores(3) snake_prog.restores(3) by (auto simp: prog_calls [OF l])
  then show "programs_known C L S (snd (prog_restore C L S (rd_restore_fn d) b v))" using k by (rule programs_known_frame)
qed

text \<open>Handing a program its state resumes it and leaves the others.\<close>

lemma resume_counter:
  fixes v :: "'a ckpt_world_scheme" and pad
  assumes k: "programs_known C L S v" and a: "ct_active s \<noteq> 0"
  defines "v' \<equiv> resume (prog_register C L S) (prog_restore C L S) (4, counter_blob pad s [], counter_desc C) v"
  shows "programs_known C L S v'" "(\<exists>t. g_counter_ctx v' = counter_resumed t s) \<and> sc_table v' ! 4 \<noteq> None"
    "g_assembly_line_ctx v' = g_assembly_line_ctx v" "g_snake_ctx v' = g_snake_ctx v"
proof -
  have l: "links_ok C L S" using k by (simp add: programs_known_def)
  have b: "length (counter_blob pad s []) = 376" by (simp add: counter_enveloped)
  have v': "v' = counter_adopt (s\<lparr>ct_step_pending := 0\<rparr>) (snd (counter_task_register (tl_dispatch C) (tl_ctx C) (tl_queue C) True v))"
    using a by (simp add: v'_def prog_calls [OF l] counter_enveloped)
  note r = counter_prog.resumes [OF k TrueI a, of pad, unfolded b]
  have e: "v' = snd (counter_restore_apply_state_fn (Some (counter_blob pad s [])) (of_nat 376)
      (snd (counter_task_register (tl_dispatch C) (tl_ctx C) (tl_queue C) True v)))"
    using a by (simp add: v' counter_enveloped)
  show "programs_known C L S v'" "(\<exists>t. g_counter_ctx v' = counter_resumed t s) \<and> sc_table v' ! 4 \<noteq> None"
    unfolding e using r by simp_all
  have "cnt_world.more v' = cnt_world.more v" by (simp add: v' counter_adopt_frames counter_register_frames)
  then show "g_assembly_line_ctx v' = g_assembly_line_ctx v" "g_snake_ctx v' = g_snake_ctx v"
    by (rule counter_more_ctx)+
qed

lemma resume_line:
  fixes v :: "'a ckpt_world_scheme"
  assumes k: "programs_known C L S v" and a: "line_inv s" "ln_active s \<noteq> 0"
  defines "v' \<equiv> resume (prog_register C L S) (prog_restore C L S) (6, line_bytes s, line_desc L) v"
  shows "programs_known C L S v'" "g_assembly_line_ctx v' = line_resumed s" "sc_table v' ! 6 \<noteq> None" "sc_table v ! 4 \<noteq> None \<Longrightarrow> sc_table v' ! 4 \<noteq> None"
    "g_counter_ctx v' = g_counter_ctx v" "g_snake_ctx v' = g_snake_ctx v"
proof -
  have l: "links_ok C L S" using k by (simp add: programs_known_def)
  have e: "v' = snd (assembly_line_restore_apply_state_fn (Some (line_bytes s)) 56
      (snd (assembly_line_task_register (tl_dispatch L) (tl_ctx L) (tl_queue L) True v)))"
    by (simp add: v'_def prog_calls [OF l] line_decoded(1) [OF a(1)])
  note r = line_prog.resumes [OF k a, unfolded line_decoded(1) [OF a(1)]]
  show "programs_known C L S v'" "g_assembly_line_ctx v' = line_resumed s" "sc_table v' ! 6 \<noteq> None"
    unfolding e using r by simp_all
  show "g_counter_ctx v' = g_counter_ctx v" "g_snake_ctx v' = g_snake_ctx v"
    unfolding e by (simp_all add: line_restore_frames(2,3) [OF a] line_register_frames)
  have "prog_frame v' v" unfolding e by (rule prog_frame_trans [OF line_restore_frames(1) [OF a] line_register_frames(1)])
  then show "sc_table v ! 4 \<noteq> None \<Longrightarrow> sc_table v' ! 4 \<noteq> None" by (simp add: prog_frame_def)
qed

lemma resume_snake:
  fixes v :: "'a ckpt_world_scheme"
  assumes k: "programs_known C L S v" and a: "snake_inv s" "sn_active s \<noteq> 0"
  defines "v' \<equiv> resume (prog_register C L S) (prog_restore C L S) (7, snake_bytes s, snake_desc S) v"
  shows "programs_known C L S v'" "(\<exists>t. g_snake_ctx v' = snake_resumed t s) \<and> sc_table v' ! 7 \<noteq> None"
    "sc_table v ! i \<noteq> None \<Longrightarrow> sc_table v' ! i \<noteq> None"
    "g_counter_ctx v' = g_counter_ctx v" "g_assembly_line_ctx v' = g_assembly_line_ctx v"
proof -
  have l: "links_ok C L S" using k by (simp add: programs_known_def)
  have e: "v' = snd (snake_restore_apply_state_fn (Some (snake_bytes s)) 504
      (snd (snake_task_register (tl_dispatch S) (tl_ctx S) (tl_queue S) True v)))"
    by (simp add: v'_def prog_calls [OF l] snake_decoded(1) [OF a(1)])
  note r = snake_prog.resumes [OF k a, unfolded snake_decoded(1) [OF a(1)]]
  show "programs_known C L S v'" "(\<exists>t. g_snake_ctx v' = snake_resumed t s) \<and> sc_table v' ! 7 \<noteq> None"
    unfolding e using r by simp_all
  show "g_counter_ctx v' = g_counter_ctx v"
    unfolding e by (simp add: snake_restore_frames(2) [OF a] snake_register_frames)
  have "snk_world.more v' = snk_world.more v" unfolding e by (simp add: snake_restore_frames(3) [OF a] snake_register_frames)
  then show "g_assembly_line_ctx v' = g_assembly_line_ctx v" by (rule snake_more_ctx)
  have "prog_frame v' v" unfolding e by (rule prog_frame_trans [OF snake_restore_frames(1) [OF a] snake_register_frames(1)])
  then show "sc_table v ! i \<noteq> None \<Longrightarrow> sc_table v' ! i \<noteq> None" by (simp add: prog_frame_def)
qed

section \<open>The programs survive a checkpoint\<close>

definition counter_runs :: "'a cnt_world_scheme \<Rightarrow> bool" where
  "counter_runs w \<longleftrightarrow> ct_active (g_counter_ctx w) \<noteq> 0 \<and> counter_registered w"

definition line_runs :: "'a line_world_scheme \<Rightarrow> bool" where
  "line_runs w \<longleftrightarrow> ln_active (g_assembly_line_ctx w) \<noteq> 0 \<and> line_registered w"

definition snake_runs :: "'a snk_world_scheme \<Rightarrow> bool" where
  "snake_runs w \<longleftrightarrow> sn_active (g_snake_ctx w) \<noteq> 0 \<and> snake_registered w"

definition prog_states :: "task_link \<Rightarrow> task_link \<Rightarrow> task_link \<Rightarrow> u8 \<Rightarrow> 'a line_world_scheme \<Rightarrow> nat \<Rightarrow> (u8 list \<times> restore_desc) option" where
  "prog_states C L S pad w i =
     (if i = 4 \<and> counter_runs w then Some (counter_blob pad (g_counter_ctx w) [], counter_desc C)
      else if i = 6 \<and> line_runs w then Some (line_bytes (g_assembly_line_ctx w), line_desc L)
      else if i = 7 \<and> snake_runs w then Some (snake_bytes (g_snake_ctx w), snake_desc S)
      else None)"

definition prog_saved :: "task_link \<Rightarrow> task_link \<Rightarrow> task_link \<Rightarrow> u8 \<Rightarrow> 'a line_world_scheme \<Rightarrow> saved_state list" where
  "prog_saved C L S pad w = (if counter_runs w then [(4, counter_blob pad (g_counter_ctx w) [], counter_desc C)] else []) @
     (if line_runs w then [(6, line_bytes (g_assembly_line_ctx w), line_desc L)] else []) @
     (if snake_runs w then [(7, snake_bytes (g_snake_ctx w), snake_desc S)] else [])"

lemma prog_saved_states: "states_of (prog_states C L S pad w) [0..<32] = prog_saved C L S pad w"
  by (simp add: states_of_def prog_states_def prog_saved_def upt_conv_Cons split: option.split)

text \<open>No task but the three programs is restorable, and their states are good ones.\<close>

definition programs_ok :: "task_link \<Rightarrow> task_link \<Rightarrow> task_link \<Rightarrow> 'a line_world_scheme \<Rightarrow> bool" where
  "programs_ok C L S w \<longleftrightarrow> programs_known C L S w \<and> line_inv (g_assembly_line_ctx w) \<and> snake_inv (g_snake_ctx w) \<and>
     (\<forall>i<32. i \<notin> {4, 6, 7} \<longrightarrow> (case restore_registry_find (of_nat i) w of None \<Rightarrow> True | Some d \<Rightarrow> rd_task_class d \<noteq> TASK_CLASS_RESTORABLE_NOW))"

lemma prog_saved_given:
  assumes "programs_ok C L S w" "x \<in> set (prog_saved C L S pad w)"
  shows "prog_given C L S pad x"
  using assms by (auto simp: prog_saved_def programs_ok_def counter_runs_def line_runs_def snake_runs_def split: if_splits)

lemma prog_saved_shape:
  assumes "programs_ok C L S w"
  shows "distinct (map fst (prog_saved C L S pad w))" "length (prog_saved C L S pad w) \<le> 3" "length (blobs (prog_saved C L S pad w)) \<le> 936"
  using assms line_decoded(1) [of "g_assembly_line_ctx w"] snake_decoded(1) [of "g_snake_ctx w"]
  by (simp_all add: prog_saved_def programs_ok_def counter_enveloped)

lemma prog_given_fits: "prog_given C L S pad x \<Longrightarrow> links_ok C L S \<Longrightarrow> state_fits x"
  by (cases x) (auto simp: links_ok_def counter_enveloped line_decoded snake_decoded)

lemma prog_tasks:
  fixes w :: "'a ckpt_world_scheme"
  assumes "programs_ok C L S w"
  shows "tasks_are (prog_get C L S pad) (prog_states C L S pad w) w"
proof -
  have k: "links_ok C L S" "restore_registry_find 4 w = Some (counter_desc C)" "restore_registry_find 6 w = Some (line_desc L)"
    "restore_registry_find 7 w = Some (snake_desc S)" "line_inv (g_assembly_line_ctx w)" "snake_inv (g_snake_ctx w)"
    using assms by (simp_all add: programs_ok_def programs_known_def)
  have nz: "tl_get_state C \<noteq> 0" "tl_get_state L \<noteq> 0" "tl_get_state S \<noteq> 0" "tl_restore C \<noteq> 0" "tl_restore L \<noteq> 0" "tl_restore S \<noteq> 0"
    using k(1) by (simp_all add: links_ok_def)
  have c: "if counter_runs w then task_running (prog_get C L S pad) w 4 (counter_blob pad (g_counter_ctx w) []) (counter_desc C)
      else task_idle (prog_get C L S pad) w 4"
    using k nz counter_prog.collected_running [of w "counter_desc C" "prog_get C L S pad" pad]
      counter_prog.collected_idle [of w "counter_desc C" "prog_get C L S pad" pad]
    by (auto simp: counter_runs_def counter_registered_def prog_calls [OF k(1)])
  have l: "if line_runs w then task_running (prog_get C L S pad) w 6 (line_bytes (g_assembly_line_ctx w)) (line_desc L)
      else task_idle (prog_get C L S pad) w 6"
    using k nz line_prog.collected_running [of w "line_desc L" "prog_get C L S pad"]
      line_prog.collected_idle [of w "line_desc L" "prog_get C L S pad"]
    by (auto simp: line_runs_def line_registered_def prog_calls [OF k(1)])
  have s: "if snake_runs w then task_running (prog_get C L S pad) w 7 (snake_bytes (g_snake_ctx w)) (snake_desc S)
      else task_idle (prog_get C L S pad) w 7"
    using k nz snake_prog.collected_running [of w "snake_desc S" "prog_get C L S pad"]
      snake_prog.collected_idle [of w "snake_desc S" "prog_get C L S pad"]
    by (auto simp: snake_runs_def snake_registered_def prog_calls [OF k(1)])
  have o: "task_idle (prog_get C L S pad) w i" if "i < 32" "i \<noteq> 4" "i \<noteq> 6" "i \<noteq> 7" for i
    using assms that unfolding programs_ok_def task_idle_def by (cases "restore_registry_find (of_nat i) w") auto
  show ?thesis unfolding tasks_are_def
  proof (intro allI impI)
    fix i :: nat assume i: "i < 32"
    consider "i = 4" | "i = 6" | "i = 7" | "i \<noteq> 4" "i \<noteq> 6" "i \<noteq> 7" by blast
    then show "case prog_states C L S pad w i of None \<Rightarrow> task_idle (prog_get C L S pad) w i
        | Some (b, d) \<Rightarrow> task_running (prog_get C L S pad) w i b d"
      using c l s o [OF i] by cases (simp_all add: prog_states_def split: if_splits)
  qed
qed

lemma get_ctx:
  "g_counter_ctx v = g_counter_ctx w \<Longrightarrow> counter_restore_get_state_fn pad out len v = counter_restore_get_state_fn pad out len w"
  "g_assembly_line_ctx v' = g_assembly_line_ctx w' \<Longrightarrow> assembly_line_restore_get_state_fn out len v' = assembly_line_restore_get_state_fn out len w'"
  "g_snake_ctx u = g_snake_ctx u' \<Longrightarrow> snake_restore_get_state_fn out len u = snake_restore_get_state_fn out len u'"
  by (simp_all add: counter_restore_get_state_fn_def counter_task_get_state_def assembly_line_restore_get_state_fn_def
      assembly_line_task_get_state_def snake_restore_get_state_fn_def snake_task_get_state_def split: option.split)

lemma prog_blind: "blind (prog_get C L S pad :: u32 \<Rightarrow> u32 \<Rightarrow> 'a ckpt_world_scheme \<Rightarrow> _)"
  unfolding blind_def
proof (intro allI impI)
  fix f cap and v w :: "'a ckpt_world_scheme"
  assume a: "apart v = apart w"
  have "g_counter_ctx v = g_counter_ctx w" "g_assembly_line_ctx v = g_assembly_line_ctx w" "g_snake_ctx v = g_snake_ctx w"
    using arg_cong [OF a, of g_counter_ctx] arg_cong [OF a, of g_assembly_line_ctx] arg_cong [OF a, of g_snake_ctx]
    unfolding apart_def by simp_all
  note g = get_ctx(1) [OF this(1)] get_ctx(2) [OF this(2)] get_ctx(3) [OF this(3)]
  show "prog_get C L S pad f cap v = prog_get C L S pad f cap w" unfolding prog_get_def g ..
qed

text \<open>A save, then a load in any state after a reset: with the pieces in place.\<close>

lemma prog_counts_live:
  fixes w :: "'a ckpt_world_scheme"
  assumes "\<forall>i<32. lives w i" "length (g_ckpt_launch_count w) = 32" "length (g_ckpt_exit_count w) = 32"
  shows "counts_live (ckpt_make_meta (ckpt_meta_ids w) (ckpt_running_bitmap w) (ckpt_count_lifecycle w)) (prog_saved C L S pad w)"
proof -
  have ids: "j < 32" if "j \<in> set (ckpt_meta_ids w)" for j using that by (auto simp: ckpt_meta_ids_def dest: in_set_takeD)
  have inj: "j = i" if "(of_nat j :: u8) = of_nat i" "j < 32" "i < 32" for i j :: nat
    using arg_cong [OF that(1), of unat] that(2,3) by (simp add: unat_of_nat)
  have t: "i < 32 \<and> sc_table w ! i \<noteq> None" if "(i, b, d) \<in> set (prog_saved C L S pad w)" for i b d
    using that by (auto simp: prog_saved_def counter_runs_def line_runs_def snake_runs_def counter_registered_def line_registered_def
        snake_registered_def split: if_splits)
  have "g_ckpt_exit_count (ckpt_count_lifecycle w) ! i < g_ckpt_launch_count (ckpt_count_lifecycle w) ! i"
    if "(i, b, d) \<in> set (prog_saved C L S pad w)" for i b d
    using t [OF that] assms by (intro counted_lives) auto
  with ids inj t show ?thesis by (fastforce simp: counts_live_def ckpt_make_meta_def)
qed

lemma foldl_if: "foldl f v (if c then [x] else []) = (if c then f v x else v)"
  by simp

lemma prog_resumed:
  fixes v w :: "'a ckpt_world_scheme" and pad
  assumes "programs_known C L S v" "programs_ok C L S w"
  defines "u \<equiv> foldl (\<lambda>v s. resume (prog_register C L S) (prog_restore C L S) s v) v (prog_saved C L S pad w)"
  shows "counter_runs w \<Longrightarrow> (\<exists>t. g_counter_ctx u = counter_resumed t (g_counter_ctx w)) \<and> sc_table u ! 4 \<noteq> None"
    "line_runs w \<Longrightarrow> g_assembly_line_ctx u = line_resumed (g_assembly_line_ctx w) \<and> sc_table u ! 6 \<noteq> None"
    "snake_runs w \<Longrightarrow> (\<exists>t. g_snake_ctx u = snake_resumed t (g_snake_ctx w)) \<and> sc_table u ! 7 \<noteq> None"
proof -
  let ?r = "resume (prog_register C L S) (prog_restore C L S) :: _ \<Rightarrow> 'a ckpt_world_scheme \<Rightarrow> _"
  define v1 where "v1 = (if counter_runs w then ?r (4, counter_blob pad (g_counter_ctx w) [], counter_desc C) v else v)"
  define v2 where "v2 = (if line_runs w then ?r (6, line_bytes (g_assembly_line_ctx w), line_desc L) v1 else v1)"
  have u: "u = (if snake_runs w then ?r (7, snake_bytes (g_snake_ctx w), snake_desc S) v2 else v2)"
    by (simp only: u_def prog_saved_def foldl_append foldl_if v1_def v2_def)
  have a: "counter_runs w \<Longrightarrow> ct_active (g_counter_ctx w) \<noteq> 0" "line_runs w \<Longrightarrow> ln_active (g_assembly_line_ctx w) \<noteq> 0"
    "snake_runs w \<Longrightarrow> sn_active (g_snake_ctx w) \<noteq> 0" "line_inv (g_assembly_line_ctx w)" "snake_inv (g_snake_ctx w)"
    using assms(2) by (simp_all add: counter_runs_def line_runs_def snake_runs_def programs_ok_def)
  have 1: "programs_known C L S v1" "counter_runs w \<Longrightarrow> (\<exists>t. g_counter_ctx v1 = counter_resumed t (g_counter_ctx w)) \<and> sc_table v1 ! 4 \<noteq> None"
    using resume_counter(1,2) [OF assms(1) a(1)] assms(1) by (auto simp: v1_def)
  have 2: "programs_known C L S v2" "g_counter_ctx v2 = g_counter_ctx v1" "sc_table v1 ! 4 \<noteq> None \<Longrightarrow> sc_table v2 ! 4 \<noteq> None"
    "line_runs w \<Longrightarrow> g_assembly_line_ctx v2 = line_resumed (g_assembly_line_ctx w) \<and> sc_table v2 ! 6 \<noteq> None"
    using resume_line [OF 1(1) a(4) a(2)] 1(1) by (auto simp: v2_def)
  have 3: "g_counter_ctx u = g_counter_ctx v2" "g_assembly_line_ctx u = g_assembly_line_ctx v2" "\<And>i. sc_table v2 ! i \<noteq> None \<Longrightarrow> sc_table u ! i \<noteq> None"
    "snake_runs w \<Longrightarrow> (\<exists>t. g_snake_ctx u = snake_resumed t (g_snake_ctx w)) \<and> sc_table u ! 7 \<noteq> None"
    using resume_snake [OF 2(1) a(5) a(3)] by (auto simp: u)
  show "counter_runs w \<Longrightarrow> (\<exists>t. g_counter_ctx u = counter_resumed t (g_counter_ctx w)) \<and> sc_table u ! 4 \<noteq> None"
    using 1(2) 2(2,3) 3(1,3) by simp
  show "line_runs w \<Longrightarrow> g_assembly_line_ctx u = line_resumed (g_assembly_line_ctx w) \<and> sc_table u ! 6 \<noteq> None"
    using 2(4) 3(2,3) by simp
  show "snake_runs w \<Longrightarrow> (\<exists>t. g_snake_ctx u = snake_resumed t (g_snake_ctx w)) \<and> sc_table u ! 7 \<noteq> None" by (rule 3(4))
qed

lemma tidy_fields:
  assumes "tidy v = tidy w"
  shows "g_counter_ctx v = g_counter_ctx w" "g_assembly_line_ctx v = g_assembly_line_ctx w" "g_snake_ctx v = g_snake_ctx w" "sc_table v = sc_table w"
  using arg_cong [OF assms, of g_counter_ctx] arg_cong [OF assms, of g_assembly_line_ctx] arg_cong [OF assms, of g_snake_ctx]
    arg_cong [OF assms, of sc_table]
  unfolding tidy_def apart_def by simp_all


section \<open>A snake in the middle of a game\<close>

definition demo_link :: "u32 \<Rightarrow> task_link" where
  "demo_link n = \<lparr> tl_register = n, tl_get_state = n, tl_restore = n, tl_dispatch = n, tl_ctx = n, tl_queue = replicate 8 (sig_event 0) \<rparr>"

definition snake_running :: ckpt_world where
  "snake_running = ckpt_power_on\<lparr>g_snake_ctx := snake_demo, g_assembly_line_ctx := line_reset, g_task_aos := replicate 32 ex_ao,
     sc_table := (replicate 32 None)[7 := Some 7],
     g_registry := (replicate 256 None)[4 := Some (counter_desc (demo_link 1)), 6 := Some (line_desc (demo_link 2)), 7 := Some (snake_desc (demo_link 3))],
     g_sched := True, g_sd_initialized := True, sd_env := (\<lambda>_. IoOk), sd_card := (\<lambda>_. replicate 512 0)\<rparr>"

lemma header_blank: "l \<in> set ckpt_layouts \<Longrightarrow> header_on (\<lambda>_. replicate 512 0) l = None"
proof -
  assume l: "l \<in> set ckpt_layouts"
  have "0 < unat (kl_block_count l)" by (rule layout_facts(2) [OF l])
  then obtain n where n: "unat (kl_block_count l) = Suc n" by (cases "unat (kl_block_count l)") auto
  have "concat (map (\<lambda>i. replicate 512 0) [0..<Suc n]) = replicate 512 0 @ concat (map (\<lambda>i. replicate 512 (0 :: u8)) [1..<Suc n])"
    by (simp add: upt_conv_Cons del: upt_Suc)
  then have "kh_magic (bytes_ckpt_header (slot_on (\<lambda>_. replicate 512 0) l)) = 0"
    by (simp add: slot_on_def n bytes_ckpt_header_def u32_at_def nth_append bytes_u32_def del: upt_Suc)
  then show ?thesis by (simp add: header_on_def ckpt_slot_parse_def ckpt_slot_header_def)
qed

lemma snake_running_ready:
  "ckpt_ready snake_running" "g_sched snake_running" "g_snake_ctx snake_running = snake_demo" "snake_runs snake_running"
  "sd_card snake_running = (\<lambda>_. replicate 512 0)" "ckpt_seq_of snake_running = 1" "\<forall>i<32. lives snake_running i"
  "length (g_ckpt_launch_count snake_running) = 32" "length (g_ckpt_exit_count snake_running) = 32"
proof -
  have p: "g_ckpt_sd_seq snake_running = 1" "length (g_ckpt_slot_buf snake_running) = 8192" "g_ckpt_launch_count snake_running = replicate 32 0"
    "g_ckpt_exit_count snake_running = replicate 32 0" "g_ckpt_running_prev_bitmap snake_running = 0" "\<not> g_ckpt_sd_seq_seeded snake_running"
    by (simp_all add: snake_running_def ckpt_power_on_def ckpt_world.defs snap_world.defs)
  show c: "sd_card snake_running = (\<lambda>_. replicate 512 0)" by (simp add: snake_running_def)
  show "ckpt_ready snake_running" using p(2) by (simp add: ckpt_ready_def c card_blocks_def) (simp add: snake_running_def sd_ok_def)
  show "g_sched snake_running" "g_snake_ctx snake_running = snake_demo" by (simp_all add: snake_running_def)
  show "snake_runs snake_running" by (simp add: snake_runs_def snake_registered_def snake_running_def snake_demo_def)
  have "ckpt_best (\<lambda>_. replicate 512 0) = None"
  proof (cases "ckpt_best (\<lambda>_. replicate 512 0)")
    case (Some x)
    with ckpt_best_valid [of "\<lambda>_. replicate 512 0" "fst x" "snd x"] header_blank [of "snd x"] show ?thesis by simp
  qed
  then show "ckpt_seq_of snake_running = 1" using p by (simp add: ckpt_seq_of_def c)
  show "\<forall>i<32. lives snake_running i" by (simp add: lives_def p)
  show "length (g_ckpt_launch_count snake_running) = 32" "length (g_ckpt_exit_count snake_running) = 32" by (simp_all add: p)
qed

lemma snake_running_ok: "programs_ok (demo_link 1) (demo_link 2) (demo_link 3) snake_running"
proof -
  have r: "restore_registry_find n snake_running = (if n = 4 then Some (counter_desc (demo_link 1)) else if n = 6 then Some (line_desc (demo_link 2))
      else if n = 7 then Some (snake_desc (demo_link 3)) else None)" for n
    by (simp add: restore_registry_find_def snake_running_def nth_list_update word_unat_eq_iff)
  have "programs_known (demo_link 1) (demo_link 2) (demo_link 3) snake_running"
    by (simp add: programs_known_def r links_ok_def demo_link_def) (simp add: snake_running_def)
  moreover have "(of_nat i :: u8) = 4 \<longleftrightarrow> i = 4" "(of_nat i :: u8) = 6 \<longleftrightarrow> i = 6" "(of_nat i :: u8) = 7 \<longleftrightarrow> i = 7" if "i < 32" for i :: nat
    using that by (simp_all add: word_unat_eq_iff unat_of_nat)
  moreover have "line_inv (g_assembly_line_ctx snake_running)" "snake_inv (g_snake_ctx snake_running)"
    using line_inv_fresh(1) snake_demo_inv by (simp_all add: snake_running_def)
  ultimately show ?thesis by (simp add: programs_ok_def r)
qed


end
