(* ===== verification/Sd_Transfer.thy ===== *)
theory Sd_Transfer
  imports Sd_Async
begin

text \<open>
  What an interrupt-driven read does, whatever the pace at which the words come and
  the interrupts fire: while it runs it stores only words of the blocks asked
  for, in order, and nothing else changes; it ends with one event, and after
  the event of success the buffer holds the blocks.
\<close>

section \<open>Steps of controller and driver\<close>

text \<open>
  The card sends some of the words it still has, or an interrupt fires that the
  mask lets through; DATAEND is flagged when the block's words have all come.
\<close>

inductive sd_step :: "'a sd_world_scheme \<Rightarrow> 'a sd_world_scheme \<Rightarrow> bool" where
  receive: "bit (sdmmc_dctrl w) 0 \<Longrightarrow> sdmmc_line w = xs @ ys \<Longrightarrow>
    sd_step w (w\<lparr>sdmmc_fifo := sdmmc_fifo w @ xs, sdmmc_line := ys\<rparr>)"
| interrupt: "sdmmc_irq_enabled w \<Longrightarrow> status AND sdmmc_mask w \<noteq> 0 \<Longrightarrow>
    (bit status 8 \<longrightarrow> sdmmc_line w = []) \<Longrightarrow> sd_step w (SDMMC1_IRQHandler status w)"

inductive_cases sd_step_elim: "sd_step w w'"

text \<open>The words of \<open>n\<close> blocks from \<open>lba\<close> on, and the address of the \<open>i\<close>th word of a buffer.\<close>

definition blocks_words :: "(u32 \<Rightarrow> block) \<Rightarrow> u32 \<Rightarrow> nat \<Rightarrow> u32 list" where
  "blocks_words disk lba n = concat (map (\<lambda>k. bytes_words (disk (lba + of_nat k))) [0..<n])"

definition word_addr :: "u32 \<Rightarrow> nat \<Rightarrow> u32" where
  "word_addr buf i = buf + 4 * of_nat i"

text \<open>The world with what a transfer works on blanked out.\<close>

definition sd_rest :: "'a sd_world_scheme \<Rightarrow> 'a sd_world_scheme" where
  "sd_rest w = (sd_async_init w)\<lparr>sd_mem := (\<lambda>_. 0), sdmmc_line := []\<rparr>"

definition blocks_ok :: "(u32 \<Rightarrow> block) \<Rightarrow> bool" where
  "blocks_ok disk \<longleftrightarrow> (\<forall>l. length (disk l) = 512)"

text \<open>The addresses of a read stay inside what the card and the memory can address.\<close>

definition read_fits :: "u8 \<Rightarrow> u32 \<Rightarrow> u32 \<Rightarrow> u32 \<Rightarrow> bool" where
  "read_fits hc lba count buf \<longleftrightarrow>
     count \<noteq> 0 \<and> buf \<noteq> 0 \<and> buf AND 3 = 0 \<and> unat buf + 512 * unat count < 2 ^ 32 \<and>
     (hc = 0 \<longrightarrow> unat lba + unat count \<le> 2 ^ 23)"

section \<open>Words and addresses\<close>

lemma length_blocks_words: "blocks_ok disk \<Longrightarrow> length (blocks_words disk lba n) = 128 * n"
  by (induction n) (simp_all add: blocks_words_def blocks_ok_def length_bytes_words)

lemma concat_nth_block:
  assumes "\<And>k. length (f k) = m" "i < n"
  shows "take m (drop (m * i) (concat (map f [0..<n]))) = f i"
proof -
  have l: "length (concat (map f [0..<i])) = m * i" for i by (induction i) (simp_all add: assms(1))
  have "[0..<n] = [0..<i] @ i # [Suc i..<n]" using assms(2) upt_add_eq_append [of 0 i "n - i"] by (simp add: upt_conv_Cons)
  then have "concat (map f [0..<n]) = concat (map f [0..<i]) @ f i @ concat (map f [Suc i..<n])" by simp
  then show ?thesis by (simp add: l assms(1))
qed

lemma blocks_words_block:
  assumes "blocks_ok disk" "k < n"
  shows "take 128 (drop (128 * k) (blocks_words disk lba n)) = bytes_words (disk (lba + of_nat k))"
  unfolding blocks_words_def
  using assms concat_nth_block [of "\<lambda>k. bytes_words (disk (lba + of_nat k))" 128 k n] by (simp add: blocks_ok_def length_bytes_words)

lemma words_bytes_blocks:
  "blocks_ok disk \<Longrightarrow> words_bytes (blocks_words disk lba n) = concat (map (\<lambda>k. disk (lba + of_nat k)) [0..<n])"
  by (induction n) (auto simp: blocks_words_def blocks_ok_def words_bytes_words)

lemma unat_word_addr:
  assumes "unat buf + 4 * n < 2 ^ 32" "i \<le> n"
  shows "unat (word_addr buf i) = unat buf + 4 * i"
proof -
  have "unat (of_nat i :: u32) = i" using assms by (simp add: unat_of_nat take_bit_nat_eq_self)
  then have "unat (4 * of_nat i :: u32) = 4 * i" using assms by (subst unat_mult_small) simp_all
  then show ?thesis unfolding word_addr_def using assms by (subst unat_add_small) simp_all
qed

lemma word_addr_inj:
  assumes "unat buf + 4 * n < 2 ^ 32" "i \<le> n" "j \<le> n" "word_addr buf i = word_addr buf j"
  shows "i = j"
proof -
  have "unat buf + 4 * i = unat buf + 4 * j"
    by (subst unat_word_addr [OF assms(1,2), symmetric], subst unat_word_addr [OF assms(1,3), symmetric])
       (rule arg_cong [OF assms(4)])
  then show ?thesis by simp
qed

lemma word_addr_next: "word_addr buf i + 4 = word_addr buf (Suc i)"
  by (simp add: word_addr_def algebra_simps)

lemma addressed_block:
  assumes "hc = 0 \<Longrightarrow> unat lba < 2 ^ 23"
  shows "sd_addressed hc (sd_block_addr hc lba) = lba"
proof (cases "hc = 0")
  case True
  have "drop_bit 9 (push_bit 9 lba) = lba"
  proof -
    have "unat (512 * lba) = 512 * unat lba" using assms [OF True] by (subst unat_mult_small) simp_all
    then have "unat (drop_bit 9 (push_bit 9 lba)) = unat lba"
      by (simp add: push_bit_eq_mult mult.commute drop_bit_eq_div unat_div_distrib)
    then show ?thesis by (simp add: word_unat_eq_iff)
  qed
  then show ?thesis using True by (simp add: sd_addressed_def sd_block_addr_def)
qed (simp add: sd_addressed_def sd_block_addr_def)

text \<open>The memory after the words \<open>xs\<close> went to a buffer from its \<open>i\<close>th word on.\<close>

fun store_words :: "u32 \<Rightarrow> nat \<Rightarrow> u32 list \<Rightarrow> (u32 \<Rightarrow> u32) \<Rightarrow> u32 \<Rightarrow> u32" where
  "store_words buf i [] m = m"
| "store_words buf i (x # xs) m = store_words buf (Suc i) xs (m(word_addr buf i := x))"

lemma store_words_append:
  "store_words buf i (xs @ ys) m = store_words buf (i + length xs) ys (store_words buf i xs m)"
  by (induction xs arbitrary: i m) simp_all

lemma store_words_other:
  "(\<And>j. i \<le> j \<Longrightarrow> j < i + length xs \<Longrightarrow> a \<noteq> word_addr buf j) \<Longrightarrow> store_words buf i xs m a = m a"
proof (induction xs arbitrary: i m)
  case (Cons x xs)
  then show ?case using Cons.prems [of i] by simp
qed simp

lemma store_words_at:
  assumes "unat buf + 4 * (i + length xs) < 2 ^ 32" "j < length xs"
  shows "store_words buf i xs m (word_addr buf (i + j)) = xs ! j"
  using assms
proof (induction xs arbitrary: i j m)
  case (Cons x xs)
  show ?case
  proof (cases j)
    case 0
    have "word_addr buf i \<noteq> word_addr buf j'" if "Suc i \<le> j'" "j' < Suc i + length xs" for j'
      using word_addr_inj [of buf "i + length (x # xs)" i j'] that Cons.prems(1) by auto
    then show ?thesis using 0 by (simp add: store_words_other)
  next
    case (Suc j')
    then show ?thesis using Cons.IH [of "Suc i" j'] Cons.prems by simp
  qed
qed simp

section \<open>The invariant of a read\<close>

definition words_moved :: "sd_context \<Rightarrow> nat" where
  "words_moved c = 128 * unat (ctx_blocks_done c) + (128 - unat (ctx_fifo_words_left c))"

text \<open>A read of \<open>count\<close> blocks from \<open>lba\<close>, begun in \<open>w0\<close>, that has come to \<open>w\<close>.\<close>

definition reading :: "u32 \<Rightarrow> u32 \<Rightarrow> u32 \<Rightarrow> 'a sd_world_scheme \<Rightarrow> 'a sd_world_scheme \<Rightarrow> bool" where
  "reading lba count buf w0 w \<longleftrightarrow>
     (let c = g_sd_ctx w; ws = blocks_words (sd_card w0) lba (unat count) in
      sd_ctx_valid_for_transfer c \<and> ctx_total_blocks c = count \<and> ctx_lba c = lba \<and>
      ctx_high_capacity c = g_sd_high_capacity w0 \<and> ctx_current_ptr c = word_addr buf (words_moved c) \<and>
      sdmmc_fifo w @ sdmmc_line w = take (unat (ctx_fifo_words_left c)) (drop (words_moved c) ws) \<and>
      sd_mem w = store_words buf 0 (take (words_moved c) ws) (sd_mem w0) \<and>
      bit (sdmmc_dctrl w) 0 \<and> sdmmc_mask w = SDMMC_MASK_READ \<and> sdmmc_irq_enabled w \<and> sd_rest w = sd_rest w0)"

definition read_completed :: "u32 \<Rightarrow> u32 \<Rightarrow> u32 \<Rightarrow> 'a sd_world_scheme \<Rightarrow> 'a sd_world_scheme \<Rightarrow> bool" where
  "read_completed lba count buf w0 w \<longleftrightarrow>
     ctx_status (g_sd_ctx w) = DRV_COMPLETE \<and> sdmmc_mask w = 0 \<and> sdmmc_dctrl w = 0 \<and>
     sd_mem w = store_words buf 0 (blocks_words (sd_card w0) lba (unat count)) (sd_mem w0) \<and>
     sd_rest w = sd_rest (snd (sched_post_isr (g_sd_ao_id w0) (Some (sd_done_event (g_sd_done_sig w0))) w0))"

definition read_failed :: "u32 \<Rightarrow> u32 \<Rightarrow> u32 \<Rightarrow> 'a sd_world_scheme \<Rightarrow> 'a sd_world_scheme \<Rightarrow> bool" where
  "read_failed lba count buf w0 w \<longleftrightarrow>
     ctx_status (g_sd_ctx w) = DRV_ERROR \<and> sdmmc_mask w = 0 \<and> sdmmc_dctrl w = 0 \<and>
     (\<exists>n. sd_mem w = store_words buf 0 (take n (blocks_words (sd_card w0) lba (unat count))) (sd_mem w0)) \<and>
     (\<exists>code \<in> {SD_ERR_TIMEOUT, SD_ERR_CRC, SD_ERR_DATA}. ctx_error_code (g_sd_ctx w) = code \<and>
        sd_rest w = sd_rest (snd (sched_post_isr (g_sd_ao_id w0) (Some (sd_error_event (g_sd_err_sig w0) code)) w0)))"

lemma sd_rest_cong:
  fixes w :: "'a sd_world_scheme"
  shows "sd_rest (w\<lparr>sdmmc_fifo := f, sdmmc_line := l\<rparr>) = sd_rest w"
    "sd_rest (w\<lparr>sdmmc_dctrl := d, sdmmc_mask := k\<rparr>) = sd_rest w"
    "sd_rest (upd_sd g w) = sd_rest w" "sd_rest (w\<lparr>sdmmc_fifo := f, sd_mem := m\<rparr>) = sd_rest w"
    "sd_rest (w\<lparr>sdmmc_irq_enabled := b\<rparr>) = sd_rest w" "sd_rest (sd_start_single_block_read a w) = sd_rest w"
    "sd_rest (sd_take_word x ds w) = sd_rest w"
  by (simp_all add: sd_rest_def sd_async_init_def upd_sd_def sd_start_single_block_read_def sd_take_word_def)

text \<open>Nothing outside what a transfer works on differs.\<close>

lemma sd_rest_fields:
  assumes "sd_rest w = sd_rest w0"
  shows "sd_card w = sd_card w0" "g_sd_high_capacity w = g_sd_high_capacity w0" "g_sd_async_sched w = g_sd_async_sched w0"
    "g_sd_ao_id w = g_sd_ao_id w0" "g_sd_done_sig w = g_sd_done_sig w0" "g_sd_err_sig w = g_sd_err_sig w0"
  using arg_cong [OF assms, of sd_card] arg_cong [OF assms, of g_sd_high_capacity] arg_cong [OF assms, of g_sd_async_sched]
    arg_cong [OF assms, of g_sd_ao_id] arg_cong [OF assms, of g_sd_done_sig] arg_cong [OF assms, of g_sd_err_sig]
  by (simp_all add: sd_rest_def sd_async_init_def upd_sd_def)

lemma sd_rest_post:
  assumes "sd_rest w = sd_rest w0"
  shows "fst (sched_post_isr a e w) = fst (sched_post_isr a e w0)"
    "sd_rest (snd (sched_post_isr a e w)) = sd_rest (snd (sched_post_isr a e w0))"
proof -
  have *: "fst (sched_post_isr a e (sd_rest v)) = fst (sched_post_isr a e v)"
    "sd_rest (snd (sched_post_isr a e v)) = snd (sched_post_isr a e (sd_rest v))" for v :: "'a sd_world_scheme"
    by (simp_all add: sched_post_isr_def sched_post_common_def set_ao_def sd_rest_def sd_async_init_def upd_sd_def Let_def
        split: option.splits prod.splits)
  show "fst (sched_post_isr a e w) = fst (sched_post_isr a e w0)" by (metis * assms)
  show "sd_rest (snd (sched_post_isr a e w)) = sd_rest (snd (sched_post_isr a e w0))" by (metis * assms)
qed

section \<open>The handler keeps the invariant\<close>

text \<open>The world a read starts in; the words it asks for.\<close>

definition read_ready :: "u32 \<Rightarrow> u32 \<Rightarrow> u32 \<Rightarrow> 'a sd_world_scheme \<Rightarrow> bool" where
  "read_ready lba count buf w0 \<longleftrightarrow> read_fits (g_sd_high_capacity w0) lba count buf \<and> blocks_ok (sd_card w0)"

abbreviation wanted :: "u32 \<Rightarrow> u32 \<Rightarrow> 'a sd_world_scheme \<Rightarrow> u32 list" where
  "wanted lba count w0 \<equiv> blocks_words (sd_card w0) lba (unat count)"

lemma wanted_space:
  assumes "read_ready lba count buf w0"
  shows "length (wanted lba count w0) = 128 * unat count" "unat buf + 4 * length (wanted lba count w0) < 2 ^ 32"
    "buf \<noteq> 0" "count \<noteq> 0" "buf AND 3 = 0"
  using assms by (simp_all add: read_ready_def read_fits_def length_blocks_words)

lemma ptr_set:
  assumes "read_ready lba count buf w0" "n \<le> length (wanted lba count w0)"
  shows "word_addr buf n \<noteq> 0"
proof
  note space = wanted_space [OF assms(1)]
  assume n: "word_addr buf n = 0"
  have "unat buf + 4 * n = unat (word_addr buf n)" using space(2) assms(2) by (subst unat_word_addr) simp_all
  then show False using n space(3) by (simp add: unat_eq_0)
qed

lemma readingD:
  assumes "reading lba count buf w0 w"
  shows "sd_ctx_valid_for_transfer (g_sd_ctx w)" "ctx_total_blocks (g_sd_ctx w) = count" "ctx_lba (g_sd_ctx w) = lba"
    "ctx_high_capacity (g_sd_ctx w) = g_sd_high_capacity w0" "ctx_current_ptr (g_sd_ctx w) = word_addr buf (words_moved (g_sd_ctx w))"
    "sdmmc_fifo w @ sdmmc_line w = take (unat (ctx_fifo_words_left (g_sd_ctx w))) (drop (words_moved (g_sd_ctx w)) (wanted lba count w0))"
    "sd_mem w = store_words buf 0 (take (words_moved (g_sd_ctx w)) (wanted lba count w0)) (sd_mem w0)"
    "bit (sdmmc_dctrl w) 0" "sdmmc_mask w = SDMMC_MASK_READ" "sdmmc_irq_enabled w" "sd_rest w = sd_rest w0"
  using assms by (simp_all add: reading_def Let_def)

lemma reading_bounds:
  assumes ready: "read_ready lba count buf w0" and "reading lba count buf w0 w"
  shows "unat (ctx_fifo_words_left (g_sd_ctx w)) \<le> 128" "unat (ctx_blocks_done (g_sd_ctx w)) < unat count"
    "words_moved (g_sd_ctx w) + unat (ctx_fifo_words_left (g_sd_ctx w)) = 128 * Suc (unat (ctx_blocks_done (g_sd_ctx w)))"
    "length (sdmmc_fifo w) + length (sdmmc_line w) = unat (ctx_fifo_words_left (g_sd_ctx w))"
    "words_moved (g_sd_ctx w) + unat (ctx_fifo_words_left (g_sd_ctx w)) \<le> length (wanted lba count w0)"
proof -
  note r = readingD [OF assms(2)] and space = wanted_space [OF ready]
  show l: "unat (ctx_fifo_words_left (g_sd_ctx w)) \<le> 128"
    using r(1) by (simp add: sd_ctx_valid_for_transfer_def word_le_nat_alt)
  show b: "unat (ctx_blocks_done (g_sd_ctx w)) < unat count"
    using r(1,2) by (simp add: sd_ctx_valid_for_transfer_def word_less_nat_alt)
  show m: "words_moved (g_sd_ctx w) + unat (ctx_fifo_words_left (g_sd_ctx w)) = 128 * Suc (unat (ctx_blocks_done (g_sd_ctx w)))"
    using l by (simp add: words_moved_def)
  show e: "words_moved (g_sd_ctx w) + unat (ctx_fifo_words_left (g_sd_ctx w)) \<le> length (wanted lba count w0)"
    using b by (simp only: m space(1) mult_le_mono2 Suc_leI)
  show "length (sdmmc_fifo w) + length (sdmmc_line w) = unat (ctx_fifo_words_left (g_sd_ctx w))"
    using arg_cong [OF r(6), of length] e by simp
qed

lemma reading_take_word:
  assumes ready: "read_ready lba count buf w0" and r: "reading lba count buf w0 w" and f: "sdmmc_fifo w = d # ds"
  shows "ctx_fifo_words_left (g_sd_ctx w) \<noteq> 0" "reading lba count buf w0 (sd_take_word d ds w)"
proof -
  let ?ws = "wanted lba count w0" and ?c = "g_sd_ctx w" and ?n = "words_moved (g_sd_ctx w)"
  note rd = readingD [OF r] and rb = reading_bounds [OF ready r]
  show left: "ctx_fifo_words_left ?c \<noteq> 0" using rb(4) f by (auto simp: unat_eq_0 [symmetric])
  define left' where "left' = unat (ctx_fifo_words_left ?c) - 1"
  have u: "unat (ctx_fifo_words_left ?c) = Suc left'" using left by (simp add: left'_def unat_gt_0)
  have u': "unat (ctx_fifo_words_left ?c - 1) = left'" using u by (subst unat_sub_small) (simp_all add: word_le_nat_alt)
  let ?c' = "g_sd_ctx (sd_take_word d ds w)"
  have c': "?c' = ?c\<lparr>ctx_current_ptr := ctx_current_ptr ?c + 4, ctx_fifo_words_left := ctx_fifo_words_left ?c - 1\<rparr>"
    by (simp add: sd_take_word_def upd_sd_def)
  have n': "words_moved ?c' = Suc ?n" using rb(1) u by (simp add: words_moved_def c' u' Suc_diff_Suc)
  have n: "?n < length (wanted lba count w0)" using rb(5) u by simp
  have split: "drop ?n ?ws = ?ws ! ?n # drop (Suc ?n) ?ws" by (rule Cons_nth_drop_Suc [OF n, symmetric])
  have d: "d = ?ws ! ?n" and ds: "ds @ sdmmc_line w = take left' (drop (Suc ?n) ?ws)"
    using rd(6) by (simp_all add: f u split)
  have "word_addr buf (Suc ?n) \<noteq> 0" using n by (intro ptr_set [OF ready]) simp
  then have "sd_ctx_valid_for_transfer ?c'"
    using rd(1,5) rb(1) u u' by (simp add: sd_ctx_valid_for_transfer_def c' word_addr_next word_le_nat_alt)
  moreover have "sd_mem (sd_take_word d ds w) = store_words buf 0 (take (Suc ?n) (wanted lba count w0)) (sd_mem w0)"
    using n by (simp add: sd_take_word_def upd_sd_def rd(5,7) d take_Suc_conv_app_nth store_words_append)
  moreover have "sdmmc_fifo (sd_take_word d ds w) = ds" "sdmmc_line (sd_take_word d ds w) = sdmmc_line w"
    "sdmmc_dctrl (sd_take_word d ds w) = sdmmc_dctrl w" "sdmmc_mask (sd_take_word d ds w) = sdmmc_mask w"
    "sdmmc_irq_enabled (sd_take_word d ds w) = sdmmc_irq_enabled w"
    by (simp_all add: sd_take_word_def upd_sd_def)
  ultimately show "reading lba count buf w0 (sd_take_word d ds w)"
    using rd(2-5,8-11) ds unfolding reading_def Let_def n' sd_rest_cong
    by (simp add: c' u' word_addr_next)
qed

lemma drains_keep [simp]:
  "sdmmc_line (sd_drain_count n w) = sdmmc_line w" "sdmmc_line (sd_drain_all w) = sdmmc_line w"
  "ctx_blocks_done (g_sd_ctx (sd_drain_count n w)) = ctx_blocks_done (g_sd_ctx w)"
  "ctx_blocks_done (g_sd_ctx (sd_drain_all w)) = ctx_blocks_done (g_sd_ctx w)"
proof -
  have t: "sdmmc_line (sd_take_word d ds v) = sdmmc_line v"
    "ctx_blocks_done (g_sd_ctx (sd_take_word d ds v)) = ctx_blocks_done (g_sd_ctx v)" for d ds and v :: "'a sd_world_scheme"
    by (simp_all add: sd_take_word_def upd_sd_def)
  show "sdmmc_line (sd_drain_count n w) = sdmmc_line w"
    "ctx_blocks_done (g_sd_ctx (sd_drain_count n w)) = ctx_blocks_done (g_sd_ctx w)"
    by (induction n arbitrary: w) (simp_all add: t split: list.split)
  have "sdmmc_line (sd_drain_all w) = sdmmc_line w \<and> ctx_blocks_done (g_sd_ctx (sd_drain_all w)) = ctx_blocks_done (g_sd_ctx w)"
  proof (induction w rule: sd_drain_all.induct)
    case (1 w) then show ?case by (subst (1 2) sd_drain_all.simps) (auto simp: t split: list.split)
  qed
  then show "sdmmc_line (sd_drain_all w) = sdmmc_line w"
    "ctx_blocks_done (g_sd_ctx (sd_drain_all w)) = ctx_blocks_done (g_sd_ctx w)" by simp_all
qed

lemma reading_drain_count:
  assumes "read_ready lba count buf w0"
  shows "reading lba count buf w0 w \<Longrightarrow> reading lba count buf w0 (sd_drain_count n w)"
  by (induction n arbitrary: w) (auto intro: reading_take_word [OF assms] split: list.split)

lemma reading_drain_all:
  assumes "read_ready lba count buf w0"
  shows "reading lba count buf w0 w \<Longrightarrow> reading lba count buf w0 (sd_drain_all w) \<and> sdmmc_fifo (sd_drain_all w) = []"
proof (induction w rule: sd_drain_all.induct)
  case (1 w)
  show ?case
  proof (cases "sdmmc_fifo w")
    case Nil then show ?thesis using 1(2) by (simp add: sd_drain_all.simps [of w])
  next
    case (Cons d ds)
    note t = reading_take_word [OF assms 1(2) Cons]
    show ?thesis using 1(1) [OF Cons t(1,2)] t(1) by (simp add: sd_drain_all.simps [of w] Cons)
  qed
qed

text \<open>The driver is bound to a task whose queue takes one more event.\<close>

definition sd_listening :: "'a sd_world_scheme \<Rightarrow> bool" where
  "sd_listening w \<longleftrightarrow>
     g_sd_async_sched w \<and> g_sd_done_sig w \<noteq> 0 \<and> g_sd_err_sig w \<noteq> 0 \<and> unat (g_sd_ao_id w) < SCHED_MAX_AO \<and>
     (case sc_table w ! unat (g_sd_ao_id w) of None \<Rightarrow> False
      | Some k \<Rightarrow> ao_flags (g_task_aos w ! k) AND AO_FLAG_ACCEPT_EVENTS \<noteq> 0 \<and> eq_inv (ao_q (g_task_aos w ! k)) \<and>
          q_count (ao_q (g_task_aos w ! k)) < q_cap (ao_q (g_task_aos w ! k)))"

lemma listening_post: "sd_listening w \<Longrightarrow> fst (sched_post_isr (g_sd_ao_id w) (Some e) w) = SCHED_OK"
  using eq_push_room(1) [of "ao_q (g_task_aos w ! the (sc_table w ! unat (g_sd_ao_id w)))" e]
  by (auto simp: sd_listening_def sched_post_isr_def sched_post_common_def eq_push_isr_def Let_def
      split: option.splits prod.splits)

lemma irq_post_rest:
  assumes "sd_rest w = sd_rest w0" "sd_listening w0"
  shows "sd_irq_post e msg line w = snd (sched_post_isr (g_sd_ao_id w0) (Some e) w)"
  using listening_post [OF assms(2), of e] sd_rest_post(1) [OF assms(1), of "g_sd_ao_id w0" "Some e"] sd_rest_fields(4) [OF assms(1)]
  by (simp add: sd_irq_post_def case_prod_beta)

text \<open>The scheduler leaves the fields of the transfer alone.\<close>

lemma post_keeps_transfer:
  "g_sd_ctx (snd (sched_post_isr a e w)) = g_sd_ctx w" "sdmmc_mask (snd (sched_post_isr a e w)) = sdmmc_mask w"
  "sdmmc_dctrl (snd (sched_post_isr a e w)) = sdmmc_dctrl w" "sd_mem (snd (sched_post_isr a e w)) = sd_mem w"
  by (simp_all add: sched_post_isr_def sched_post_common_def set_ao_def Let_def split: option.split prod.split)

lemma irq_error_fails:
  assumes "reading lba count buf w0 w" "sd_listening w0"
  shows "read_failed lba count buf w0 (sd_irq_error status w)"
proof -
  note r = readingD [OF assms(1)] and f = sd_rest_fields [OF readingD(11) [OF assms(1)]]
  define code where "code = (if bit status 3 then SD_ERR_TIMEOUT else if bit status 1 then SD_ERR_CRC else SD_ERR_DATA)"
  define w1 where "w1 = upd_sd (\<lambda>c. c\<lparr>ctx_status := DRV_ERROR, ctx_error_detail := status, ctx_error_code := code\<rparr>)
      (w\<lparr>sdmmc_dctrl := 0, sdmmc_mask := 0\<rparr>)"
  have rest: "sd_rest w1 = sd_rest w0" using r(11) by (simp add: w1_def sd_rest_cong)
  have sel: "ctx_status (g_sd_ctx w1) = DRV_ERROR" "ctx_error_code (g_sd_ctx w1) = code" "sdmmc_mask w1 = 0" "sdmmc_dctrl w1 = 0"
    "sd_mem w1 = sd_mem w" by (simp_all add: w1_def upd_sd_def)
  have "sd_irq_error status w = sd_irq_post (sd_error_event (g_sd_err_sig w0) code) ''sd irq: failed to post error event'' 125 w1"
    using assms(2) sd_rest_fields [OF rest] unfolding sd_irq_error_def Let_def code_def [symmetric] w1_def [symmetric]
    by (simp add: sd_listening_def)
  also have "\<dots> = snd (sched_post_isr (g_sd_ao_id w0) (Some (sd_error_event (g_sd_err_sig w0) code)) w1)"
    by (rule irq_post_rest [OF rest assms(2)])
  finally show ?thesis
    using r(7) sd_rest_post(2) [OF rest] by (auto simp: read_failed_def post_keeps_transfer sel code_def)
qed

text \<open>The command for the \<open>k\<close>th block brings that block.\<close>

lemma started_block:
  assumes "read_ready lba count buf w0" "k < unat count" "sd_card w = sd_card w0" "g_sd_high_capacity w = g_sd_high_capacity w0"
  shows "sdmmc_line (sd_start_single_block_read (sd_block_addr (g_sd_high_capacity w0) (lba + of_nat k)) w) =
      take 128 (drop (128 * k) (wanted lba count w0))"
proof -
  have "k < 4294967296" using assms(2) unat_u32_lt [of count] by linarith
  then have "unat (of_nat k :: u32) = k" by (simp add: unat_of_nat take_bit_nat_eq_self)
  then have "g_sd_high_capacity w0 = 0 \<Longrightarrow> unat (lba + of_nat k) < 2 ^ 23"
    using assms(1,2) by (subst unat_add_small) (simp_all add: read_ready_def read_fits_def)
  then show ?thesis using assms
    by (simp add: sd_start_single_block_read_def addressed_block blocks_words_block read_ready_def)
qed

lemma block_end:
  assumes ready: "read_ready lba count buf w0" and listening: "sd_listening w0"
    and r: "reading lba count buf w0 w" and e: "sdmmc_fifo w = []" "sdmmc_line w = []"
  shows "reading lba count buf w0 (sd_irq_block_end w) \<and>
      unat (ctx_blocks_done (g_sd_ctx (sd_irq_block_end w))) = Suc (unat (ctx_blocks_done (g_sd_ctx w))) \<or>
    read_completed lba count buf w0 (sd_irq_block_end w)"
proof -
  let ?c = "g_sd_ctx w"
  note rd = readingD [OF r] and rb = reading_bounds [OF ready r] and f = sd_rest_fields [OF readingD(11) [OF r]]
  define k where "k = Suc (unat (ctx_blocks_done ?c))"
  have left: "ctx_fifo_words_left ?c = 0" using rb(4) e by (simp add: unat_eq_0 [symmetric])
  have n: "words_moved ?c = 128 * k" using rb(3) left by (simp add: k_def)
  have k: "unat (ctx_blocks_done ?c + 1) = k" "k \<le> unat count"
  proof -
    have "unat (ctx_blocks_done ?c) < 4294967295" using rb(2) unat_u32_lt [of count] by linarith
    then show "unat (ctx_blocks_done ?c + 1) = k" "k \<le> unat count" using rb(2) by (simp_all add: k_def unat_Suc_small)
  qed
  have k_word: "ctx_blocks_done ?c + 1 = of_nat k" using arg_cong [OF k(1), of "of_nat :: nat \<Rightarrow> u32"] by simp
  define w1 where "w1 = upd_sd (\<lambda>c. c\<lparr>ctx_blocks_done := ctx_blocks_done c + 1\<rparr>) w"
  show ?thesis
  proof (cases "k < unat count")
    case True
    define w2 where "w2 = upd_sd (\<lambda>c. c\<lparr>ctx_fifo_words_left := 128\<rparr>) w1"
    have more: "ctx_blocks_done ?c + 1 < count" using True k(1) by (simp add: word_less_nat_alt)
    have step: "sd_irq_block_end w = sd_start_single_block_read (sd_block_addr (g_sd_high_capacity w0) (lba + of_nat k)) w2"
      using more rd(2-4) k_word by (simp add: sd_irq_block_end_def Let_def w2_def w1_def upd_sd_def)
    have w2: "g_sd_ctx w2 = ?c\<lparr>ctx_blocks_done := ctx_blocks_done ?c + 1, ctx_fifo_words_left := 128\<rparr>"
      "sd_card w2 = sd_card w0" "g_sd_high_capacity w2 = g_sd_high_capacity w0" "sd_mem w2 = sd_mem w"
      "sdmmc_irq_enabled w2"
      using f(1,2) rd(10) by (simp_all add: w2_def w1_def upd_sd_def)
    have rest: "sd_rest w2 = sd_rest w0" using rd(11) by (simp add: w2_def w1_def sd_rest_cong)
    let ?v = "sd_irq_block_end w"
    have v: "g_sd_ctx ?v = g_sd_ctx w2" "sdmmc_fifo ?v = []" "sdmmc_dctrl ?v = SDMMC_DCTRL_READ" "sdmmc_mask ?v = SDMMC_MASK_READ"
      "sdmmc_irq_enabled ?v" "sd_mem ?v = sd_mem w" "sd_rest ?v = sd_rest w0"
      using w2(4,5) rest by (simp_all add: step sd_rest_cong) (simp_all add: sd_start_single_block_read_def)
    have moved: "words_moved (g_sd_ctx w2) = 128 * k" by (simp add: words_moved_def w2(1) k(1))
    have "sd_ctx_valid_for_transfer (g_sd_ctx w2)" using rd(1,2) more by (simp add: sd_ctx_valid_for_transfer_def w2(1))
    then have "reading lba count buf w0 ?v"
      using rd(2-5,7) n started_block [OF ready True w2(2,3), folded step] moved
      by (simp add: reading_def Let_def v w2(1))
    then show ?thesis using k(1) by (simp add: v(1) w2(1) k_def)
  next
    case False
    then have last: "k = unat count" using k(2) by simp
    define w2 where "w2 = upd_sd (\<lambda>c. c\<lparr>ctx_status := DRV_COMPLETE, ctx_error_code := SD_OK\<rparr>) (w1\<lparr>sdmmc_dctrl := 0, sdmmc_mask := 0\<rparr>)"
    have rest: "sd_rest w2 = sd_rest w0" using rd(11) by (simp add: w2_def w1_def sd_rest_cong)
    have "\<not> ctx_blocks_done ?c + 1 < count" using False k(1) by (simp add: word_less_nat_alt)
    then have "sd_irq_block_end w = sd_irq_post (sd_done_event (g_sd_done_sig w0)) ''sd irq: failed to post done event'' 169 w2"
      using rd(2) listening sd_rest_fields [OF rest]
      unfolding sd_irq_block_end_def Let_def w1_def [symmetric] w2_def [symmetric]
      by (simp add: sd_listening_def) (simp add: w1_def upd_sd_def)
    also have "\<dots> = snd (sched_post_isr (g_sd_ao_id w0) (Some (sd_done_event (g_sd_done_sig w0))) w2)"
      by (rule irq_post_rest [OF rest listening])
    finally have step: "sd_irq_block_end w = snd (sched_post_isr (g_sd_ao_id w0) (Some (sd_done_event (g_sd_done_sig w0))) w2)" .
    have "sd_mem w = store_words buf 0 (wanted lba count w0) (sd_mem w0)"
      using rd(7) wanted_space(1) [OF ready] by (simp add: n last)
    then have "read_completed lba count buf w0 (sd_irq_block_end w)"
      using sd_rest_post(2) [OF rest] by (simp add: read_completed_def step post_keeps_transfer) (simp add: w2_def w1_def upd_sd_def)
    then show ?thesis ..
  qed
qed

lemma reading_valid: "reading lba count buf w0 w \<Longrightarrow> ctx_status (g_sd_ctx w) = DRV_IN_PROGRESS \<and> sd_ctx_valid_for_transfer (g_sd_ctx w)"
  using readingD(1) [of lba count buf w0 w] by (simp add: sd_ctx_valid_for_transfer_def)

lemma read_interrupt:
  assumes ready: "read_ready lba count buf w0" and listening: "sd_listening w0" and r: "reading lba count buf w0 w"
    and e: "bit status 8 \<longrightarrow> sdmmc_line w = []"
  shows "reading lba count buf w0 (SDMMC1_IRQHandler status w) \<or> read_completed lba count buf w0 (SDMMC1_IRQHandler status w) \<or>
    read_failed lba count buf w0 (SDMMC1_IRQHandler status w)"
proof (cases "bit status 1 \<or> bit status 3 \<or> bit status 5")
  case True
  then show ?thesis using irq_error_fails [OF r listening] reading_valid [OF r] by (simp add: SDMMC1_IRQHandler_def)
next
  case False
  define w1 where "w1 = sd_drain_all (if bit status 15 then sd_drain_count 16 w else w)"
  have w1: "reading lba count buf w0 w1" "sdmmc_fifo w1 = []" "sdmmc_line w1 = sdmmc_line w"
    using reading_drain_all [OF ready reading_drain_count [OF ready r, of 16]] reading_drain_all [OF ready r] by (simp_all add: w1_def)
  have h: "SDMMC1_IRQHandler status w = (if bit status 8 then sd_irq_block_end w1 else w1)"
    using False reading_valid [OF r] by (simp add: SDMMC1_IRQHandler_def w1_def Let_def)
  show ?thesis using block_end [OF ready listening w1(1,2)] w1 e by (auto simp: h)
qed

lemma read_step:
  assumes "read_ready lba count buf w0" "sd_listening w0" "reading lba count buf w0 w" "sd_step w w'"
  shows "reading lba count buf w0 w' \<or> read_completed lba count buf w0 w' \<or> read_failed lba count buf w0 w'"
  using assms(4)
proof (cases rule: sd_step.cases)
  case (receive xs ys)
  note rd = readingD [OF assms(3)]
  have "reading lba count buf w0 w'"
    using rd unfolding receive(1) reading_def Let_def sd_rest_cong by (simp add: receive(3))
  then show ?thesis by simp
next
  case (interrupt status)
  show ?thesis unfolding interrupt(1) by (rule read_interrupt [OF assms(1-3) interrupt(4)])
qed

text \<open>After its end a read does not move.\<close>

lemma read_ended_stays:
  assumes "sdmmc_mask w = 0" "sdmmc_dctrl w = 0" shows "\<not> sd_step w w'"
  using assms by (auto elim!: sd_step_elim)

lemma read_steps:
  assumes "sd_step\<^sup>*\<^sup>* w w'" "read_ready lba count buf w0" "sd_listening w0" "reading lba count buf w0 w"
  shows "reading lba count buf w0 w' \<or> read_completed lba count buf w0 w' \<or> read_failed lba count buf w0 w'"
  using assms(1)
proof (induction rule: rtranclp_induct)
  case (step v v')
  then show ?case using read_step [OF assms(2,3) _ step(2)] read_ended_stays [of v v']
    by (auto simp: read_completed_def read_failed_def)
qed (use assms(4) in simp)

lemma read_completes:
  assumes ready: "read_ready lba count buf w0" and listening: "sd_listening w0" and r: "reading lba count buf w0 w"
  shows "\<exists>w'. sd_step\<^sup>*\<^sup>* w w' \<and> read_completed lba count buf w0 w'"
  using r
proof (induction "unat count - unat (ctx_blocks_done (g_sd_ctx w))" arbitrary: w rule: less_induct)
  case (less w)
  note rd = readingD [OF less.prems]
  define w1 where "w1 = w\<lparr>sdmmc_fifo := sdmmc_fifo w @ sdmmc_line w, sdmmc_line := []\<rparr>"
  have s1: "sd_step w w1" using sd_step.receive [of w "sdmmc_line w" "[]"] rd(8) by (simp add: w1_def)
  have r1: "reading lba count buf w0 w1" using rd unfolding w1_def reading_def Let_def sd_rest_cong by simp
  have s2: "sd_step w1 (SDMMC1_IRQHandler 0x100 w1)"
    using readingD(9,10) [OF r1] by (intro sd_step.interrupt) (simp_all add: w1_def)
  define w2 where "w2 = sd_drain_all w1"
  have w2: "reading lba count buf w0 w2" "sdmmc_fifo w2 = []" "sdmmc_line w2 = []" "ctx_blocks_done (g_sd_ctx w2) = ctx_blocks_done (g_sd_ctx w)"
    using reading_drain_all [OF ready r1] by (simp_all add: w2_def) (simp_all add: w1_def)
  have h: "SDMMC1_IRQHandler 0x100 w1 = sd_irq_block_end w2"
    using reading_valid [OF r1] by (simp add: SDMMC1_IRQHandler_def w2_def bit_simps Let_def)
  have s: "sd_step\<^sup>*\<^sup>* w (sd_irq_block_end w2)" using s1 s2 unfolding h by (meson converse_rtranclp_into_rtranclp rtranclp.rtrancl_refl)
  from block_end [OF ready listening w2(1-3)] show ?case
  proof
    assume n: "reading lba count buf w0 (sd_irq_block_end w2) \<and>
      unat (ctx_blocks_done (g_sd_ctx (sd_irq_block_end w2))) = Suc (unat (ctx_blocks_done (g_sd_ctx w2)))"
    then have "unat count - unat (ctx_blocks_done (g_sd_ctx (sd_irq_block_end w2))) < unat count - unat (ctx_blocks_done (g_sd_ctx w))"
      using reading_bounds(2) [OF ready less.prems] by (simp add: w2(4))
    from less.hyps [OF this] n obtain w' where "sd_step\<^sup>*\<^sup>* (sd_irq_block_end w2) w'" "read_completed lba count buf w0 w'" by blast
    then show ?thesis using rtranclp_trans [OF s] by blast
  qed (use s in blast)
qed

lemma read_start:
  assumes "g_sd_initialized w" "read_ready lba count buf w"
  shows "fst (sd_async_read_start lba count buf w) = SD_OK"
    "reading lba count buf w (snd (sd_async_read_start lba count buf w))"
proof -
  note space = wanted_space [OF assms(2)]
  show "fst (sd_async_read_start lba count buf w) = SD_OK" using assms(1) space by (simp add: sd_async_read_start_def Let_def)
  define w1 where "w1 = upd_sd (\<lambda>c. c\<lparr>ctx_operation := SD_OP_READ, ctx_status := DRV_IN_PROGRESS, ctx_error_code := SD_OK,
      ctx_lba := lba, ctx_total_blocks := count, ctx_blocks_done := 0, ctx_buffer := buf, ctx_current_ptr := buf,
      ctx_fifo_words_left := 128, ctx_high_capacity := g_sd_high_capacity w\<rparr>) (w\<lparr>sdmmc_irq_enabled := True\<rparr>)"
  let ?v = "sd_start_single_block_read (sd_block_addr (g_sd_high_capacity w) (lba + of_nat 0)) w1"
  have v: "snd (sd_async_read_start lba count buf w) = ?v"
    using assms(1) space by (simp add: sd_async_read_start_def Let_def w1_def)
  have w1: "sd_card w1 = sd_card w" "g_sd_high_capacity w1 = g_sd_high_capacity w" by (simp_all add: w1_def upd_sd_def)
  have rest: "sd_rest ?v = sd_rest w" by (simp add: sd_rest_cong w1_def)
  have c: "g_sd_ctx ?v = g_sd_ctx w1" "sdmmc_fifo ?v = []" "sdmmc_dctrl ?v = SDMMC_DCTRL_READ" "sdmmc_mask ?v = SDMMC_MASK_READ"
    "sdmmc_irq_enabled ?v" "sd_mem ?v = sd_mem w"
    by (simp_all add: sd_start_single_block_read_def w1_def upd_sd_def)
  have count: "0 < unat count" "0 < count" using space(4) by (simp_all add: unat_gt_0 word_gt_0)
  have moved: "words_moved (g_sd_ctx w1) = 0" by (simp add: words_moved_def w1_def upd_sd_def)
  show "reading lba count buf w (snd (sd_async_read_start lba count buf w))"
    using started_block [OF assms(2) count(1) w1] space(3,4) count(2) c(5)
    unfolding v reading_def Let_def rest c(1-4,6) moved
    by (simp add: bit_simps) (simp add: w1_def upd_sd_def sd_ctx_valid_for_transfer_def word_addr_def)
qed

end
