(* ===== verification/Sd_Task.thy ===== *)
theory Sd_Task
  imports Print Sd_Transfer Checkpoint_Save
begin

text \<open>
  The SD command task of \<open>sd_task.c\<close>: it serves one request at a time, a read of
  up to four blocks or a test of the card, starts the transfer, and prints the
  result when the event of its end comes, to the console or, for a command in the
  background, to the log.  The buffer is memory that the interrupts of
  \<open>sd_async.c\<close> fill; the context holds its address.
\<close>

abbreviation (input) SD_TASK_MAX_BLOCKS :: u32 where "SD_TASK_MAX_BLOCKS \<equiv> 4"
abbreviation (input) SD_DUMP_BYTES :: nat where "SD_DUMP_BYTES \<equiv> 64"
abbreviation (input) SD_SIG_TRANSFER_DONE :: u16 where "SD_SIG_TRANSFER_DONE \<equiv> 3"
abbreviation (input) SD_SIG_TRANSFER_ERROR :: u16 where "SD_SIG_TRANSFER_ERROR \<equiv> 4"
abbreviation (input) SD_SIG_REQ_READ_DUMP :: u16 where "SD_SIG_REQ_READ_DUMP \<equiv> 6"
abbreviation (input) SD_SIG_REQ_TEST :: u16 where "SD_SIG_REQ_TEST \<equiv> 7"

datatype sd_task_op = SD_TASK_OP_NONE | SD_TASK_OP_READ_DUMP | SD_TASK_OP_TEST

record sd_task_ctx =
  st_completed :: u32
  st_errors :: u32
  st_last_error :: int
  st_op :: sd_task_op
  st_lba :: u32
  st_count :: u32
  st_bg :: u8
  st_buf_words :: u32

record sdt_world = ckpt_world +
  g_sd_task_ctx :: sd_task_ctx
  g_sd_task_sched :: bool

definition upd_st :: "(sd_task_ctx \<Rightarrow> sd_task_ctx) \<Rightarrow> 'a sdt_world_scheme \<Rightarrow> 'a sdt_world_scheme" where
  "upd_st f w = w\<lparr>g_sd_task_ctx := f (g_sd_task_ctx w)\<rparr>"

definition sd_task_request_prompt :: "'a sdt_world_scheme \<Rightarrow> 'a sdt_world_scheme" where
  "sd_task_request_prompt w = snd (sched_post AO_TERMINAL (Some (sig_event TERM_SIG_REPRINT_PROMPT)) w)"

text \<open>\<open>sd_out_putc\<close>, \<open>sd_out_puts\<close>, \<open>sd_out_put_u32\<close>, \<open>sd_out_put_hex8\<close> and \<open>sd_out_put_s32\<close>: the
  items of a report, to the log or to the console.\<close>

definition sd_out :: "item list \<Rightarrow> 'a sdt_world_scheme \<Rightarrow> 'a sdt_world_scheme" where
  "sd_out is w = (if st_bg (g_sd_task_ctx w) \<noteq> 0 then log_print is w else con_print is w)"

text \<open>A finished line of a dump, as \<open>log_write\<close> or \<open>console_write\<close> gets it.\<close>

definition sd_dump_line :: "string \<Rightarrow> 'a sdt_world_scheme \<Rightarrow> 'a sdt_world_scheme" where
  "sd_dump_line text w =
     (if st_bg (g_sd_task_ctx w) \<noteq> 0
      then w\<lparr>w_log := snd (log_write (Some text) (of_nat (length text)) (w_log w))\<rparr>
      else con_write text (length text) w)"

text \<open>The loop of \<open>sd_dump_bytes\<close> over the indices, with the characters of the line so far.\<close>

fun sd_dump_loop :: "u8 list \<Rightarrow> nat \<Rightarrow> nat list \<Rightarrow> string \<Rightarrow> 'a sdt_world_scheme \<Rightarrow> 'a sdt_world_scheme" where
  "sd_dump_loop buf count [] line w = w"
| "sd_dump_loop buf count (i # is) line w =
     (let v = buf ! i;
          line1 = line @ [hx ! unat (drop_bit 4 v AND 0xF), hx ! unat (v AND 0xF)];
          end_of_row = ((of_nat i :: u32) AND 0xF = 0xF);
          last_byte = (i = count - 1)
      in if end_of_row \<or> last_byte
         then sd_dump_loop buf count is [] (sd_dump_line (line1 @ crlf) w)
         else sd_dump_loop buf count is (line1 @ '' '') w)"

definition sd_dump_bytes :: "u8 list \<Rightarrow> nat \<Rightarrow> 'a sdt_world_scheme \<Rightarrow> 'a sdt_world_scheme" where
  "sd_dump_bytes buf count w = sd_dump_loop buf count [0..<count] [] w"

text \<open>The bytes of \<open>buf_words\<close>.\<close>

definition sd_task_buf :: "'a sdt_world_scheme \<Rightarrow> u8 list" where
  "sd_task_buf w = words_bytes (map (\<lambda>i. sd_mem w (word_addr (st_buf_words (g_sd_task_ctx w)) i)) [0..<512])"

text \<open>How both handlers end: the notice of a background command, or the prompt.\<close>

definition sd_task_notify :: "string \<Rightarrow> 'a sdt_world_scheme \<Rightarrow> 'a sdt_world_scheme" where
  "sd_task_notify name w =
     (if st_bg (g_sd_task_ctx w) \<noteq> 0 then ui_notify_bg_done name w else sd_task_request_prompt w)"

definition sd_op_name :: "sd_task_op \<Rightarrow> string" where
  "sd_op_name p = (if p = SD_TASK_OP_TEST then ''sdtest'' else ''sdread'')"

definition sd_dump_blocks :: "nat list \<Rightarrow> 'a sdt_world_scheme \<Rightarrow> 'a sdt_world_scheme" where
  "sd_dump_blocks is w =
     foldl (\<lambda>w i. sd_dump_bytes (drop (512 * i) (sd_task_buf w)) SD_DUMP_BYTES
              (sd_out [Str ''lba '', U32 (st_lba (g_sd_task_ctx w) + of_nat i), Str ('':'' @ crlf)] w)) w is"

definition sd_task_on_done :: "'a sdt_world_scheme \<Rightarrow> 'a sdt_world_scheme" where
  "sd_task_on_done w =
     (let c = g_sd_task_ctx w in
      if st_op c = SD_TASK_OP_NONE then kernel_panic ''sd done without active op'' ''sd_task.c'' 108 w
      else
        let w1 = (if st_op c = SD_TASK_OP_READ_DUMP
                  then sd_out [Str (''sdread: done'' @ crlf)] (sd_dump_blocks [0..<unat (st_count c)] w)
                  else
                    let b0 = sd_task_buf w ! 510; b1 = sd_task_buf w ! 511 in
                    sd_out [Str ''sdtest: sig='', Hex8 b0, Hex8 b1,
                            Str (if b0 = 0x55 \<and> b1 = 0xAA then '' (MBR)'' @ crlf else crlf),
                            Str (''sdtest: PASS'' @ crlf)] w)
        in sd_task_notify (sd_op_name (st_op c)) w1)"

definition sd_error_name :: "int \<Rightarrow> string" where
  "sd_error_name err =
     (if err = SD_ERR_TIMEOUT then '' (timeout)'' else if err = SD_ERR_CRC then '' (crc)''
      else if err = SD_ERR_DATA then '' (data)'' else if err = SD_ERR_NO_INIT then '' (not init)'' else [])"

definition sd_task_on_error :: "int \<Rightarrow> 'a sdt_world_scheme \<Rightarrow> 'a sdt_world_scheme" where
  "sd_task_on_error err w =
     (let c = g_sd_task_ctx w in
      if st_op c = SD_TASK_OP_NONE then kernel_panic ''sd error without active op'' ''sd_task.c'' 142 w
      else
        let w1 = sd_out ([Str (if st_op c = SD_TASK_OP_TEST then ''sdtest: read err='' else ''sdread: err=''), S32 err] @
                         (if sd_error_name err = [] then [] else [Str (sd_error_name err)]) @ [Str crlf]) w
        in sd_task_notify (sd_op_name (st_op c)) w1)"

definition sd_task_start_read :: "u32 \<Rightarrow> u32 \<Rightarrow> 'a sdt_world_scheme \<Rightarrow> int \<times> 'a sdt_world_scheme" where
  "sd_task_start_read lba count w =
     (if count = 0 \<or> count > SD_TASK_MAX_BLOCKS then (SD_ERR_PARAM, w)
      else case sd_async_read_start lba count (st_buf_words (g_sd_task_ctx w)) w of (rc, w1) \<Rightarrow>
        (rc, if rc = SD_OK then upd_st (\<lambda>c. c\<lparr>st_lba := lba, st_count := count\<rparr>) w1 else w1))"

text \<open>The end of a request whose read did not start.\<close>

definition sd_task_refuse :: "string \<Rightarrow> int \<Rightarrow> string \<Rightarrow> 'a sdt_world_scheme \<Rightarrow> 'a sdt_world_scheme" where
  "sd_task_refuse msg rc name w =
     sd_task_notify name (sd_out [Str msg, S32 rc, Str crlf] (upd_st (\<lambda>c. c\<lparr>st_op := SD_TASK_OP_NONE\<rparr>) w))"

definition sd_task_read_dump :: "event \<Rightarrow> 'a sdt_world_scheme \<Rightarrow> 'a sdt_world_scheme" where
  "sd_task_read_dump e w =
     (if st_op (g_sd_task_ctx w) \<noteq> SD_TASK_OP_NONE then con_puts (''sd: busy'' @ crlf) w
      else
        let w1 = sd_async_init (upd_st (\<lambda>c. c\<lparr>st_bg := ucast (ev_src e AND 1), st_op := SD_TASK_OP_READ_DUMP\<rparr>) w)
        in case sd_task_start_read (ev_arg0 e) (ev_arg1 e) w1 of (rc, w2) \<Rightarrow>
             if rc \<noteq> SD_OK then sd_task_refuse ''sdread: err='' rc ''sdread'' w2 else w2)"

definition sd_task_test :: "event \<Rightarrow> 'a sdt_world_scheme \<Rightarrow> 'a sdt_world_scheme" where
  "sd_task_test e w =
     (if st_op (g_sd_task_ctx w) \<noteq> SD_TASK_OP_NONE then con_puts (''sd: busy'' @ crlf) w
      else
        let w1 = upd_st (\<lambda>c. c\<lparr>st_bg := ucast (ev_src e AND 1), st_op := SD_TASK_OP_TEST\<rparr>) w;
            w2 = sd_async_init (sd_out [Str (''sdtest: initializing...'' @ crlf)] w1)
        in case sd_init w2 of (rc, w3) \<Rightarrow>
             if rc \<noteq> SD_OK then sd_task_refuse ''sdtest: init failed err='' rc ''sdtest'' w3
             else
               let w4 = sd_out [Str ''sdtest: ok '', U32 (g_sd_capacity w3 div 2048), Str (''MB'' @ crlf),
                                Str (''sdtest: reading block 0...'' @ crlf)] w3
               in case sd_task_start_read 0 1 w4 of (rc, w5) \<Rightarrow>
                    if rc \<noteq> SD_OK then sd_task_refuse ''sdtest: read err='' rc ''sdtest'' w5 else w5)"

definition sd_task_dispatch :: "event option \<Rightarrow> 'a sdt_world_scheme \<Rightarrow> 'a sdt_world_scheme" where
  "sd_task_dispatch ep w =
     (case ep of None \<Rightarrow> kernel_panic ''sd dispatch: null event'' ''sd_task.c'' 187 w
      | Some e \<Rightarrow>
        if ev_sig e = SD_SIG_REQ_READ_DUMP then sd_task_read_dump e w
        else if ev_sig e = SD_SIG_REQ_TEST then sd_task_test e w
        else if ev_sig e = SD_SIG_TRANSFER_DONE
        then upd_st (\<lambda>c. c\<lparr>st_op := SD_TASK_OP_NONE\<rparr>)
               (sd_task_on_done (upd_st (\<lambda>c. c\<lparr>st_completed := st_completed c + 1, st_last_error := SD_OK\<rparr>) w))
        else if ev_sig e = SD_SIG_TRANSFER_ERROR
        then let err = sint (ev_arg0 e) in
             upd_st (\<lambda>c. c\<lparr>st_op := SD_TASK_OP_NONE\<rparr>)
               (sd_task_on_error err (upd_st (\<lambda>c. c\<lparr>st_errors := st_errors c + 1, st_last_error := err\<rparr>) w))
        else w)"

definition sd_task_register :: "u32 \<Rightarrow> u32 \<Rightarrow> event list \<Rightarrow> bool \<Rightarrow> 'a sdt_world_scheme \<Rightarrow> int \<times> 'a sdt_world_scheme" where
  "sd_task_register fn cx st sched w =
     (if \<not> sched then (SCHED_ERR_PARAM, w)
      else
        let w1 = upd_st (\<lambda>c. c\<lparr>st_completed := 0, st_errors := 0, st_last_error := SD_OK, st_op := SD_TASK_OP_NONE,
                   st_lba := 0, st_count := 0\<rparr>) (w\<lparr>g_sd_task_sched := True\<rparr>)
        in case sched_register_task (Some \<lparr> ts_id = AO_SD, ts_prio = 2, ts_dispatch = fn, ts_ctx = cx,
               ts_queue_storage = Some st, ts_queue_capacity = 8, ts_rtc_budget_ticks = 1,
               ts_name = Some ''sd'' \<rparr>) w1 of (rc, w2) \<Rightarrow>
             if rc \<noteq> SCHED_OK then (rc, w2)
             else (SCHED_OK, sd_async_bind_scheduler sched AO_SD SD_SIG_TRANSFER_DONE SD_SIG_TRANSFER_ERROR w2))"

definition sd_mark_async :: "'a sdt_world_scheme \<Rightarrow> 'a sdt_world_scheme" where
  "sd_mark_async w = (if g_cmd_bg_ctx w \<noteq> 0 then w\<lparr>g_cmd_bg_async := 1\<rparr> else w\<lparr>g_cmd_fg_async := 1\<rparr>)"

definition sd_task_request_read_dump :: "u32 \<Rightarrow> u32 \<Rightarrow> 'a sdt_world_scheme \<Rightarrow> int \<times> 'a sdt_world_scheme" where
  "sd_task_request_read_dump lba count0 w =
     (if \<not> g_sd_task_sched w then (SCHED_ERR_PARAM, w)
      else
        let count1 = (if count0 = 0 then 1 else count0);
            count = (if count1 > SD_TASK_MAX_BLOCKS then SD_TASK_MAX_BLOCKS else count1)
        in sched_post AO_SD (Some \<lparr> ev_sig = SD_SIG_REQ_READ_DUMP, ev_src = ucast (g_cmd_bg_ctx w),
             ev_arg0 = lba, ev_arg1 = count, ev_tick = 0 \<rparr>) (sd_mark_async w))"

definition sd_task_request_test :: "'a sdt_world_scheme \<Rightarrow> int \<times> 'a sdt_world_scheme" where
  "sd_task_request_test w =
     (if \<not> g_sd_task_sched w then (SCHED_ERR_PARAM, w)
      else sched_post AO_SD (Some \<lparr> ev_sig = SD_SIG_REQ_TEST, ev_src = ucast (g_cmd_bg_ctx w),
             ev_arg0 = 0, ev_arg1 = 0, ev_tick = 0 \<rparr>) (sd_mark_async w))"

text \<open>A task that is registered again after a restore without its state; its descriptor.\<close>

definition restart_only_desc :: "u8 \<Rightarrow> u32 \<Rightarrow> restore_desc" where
  "restart_only_desc task_id register_fn = \<lparr> rd_task_id = task_id, rd_task_class = TASK_CLASS_RESTART_ONLY,
     rd_state_version = 0, rd_min_state_len = 0, rd_max_state_len = 0, rd_register_fn = register_fn,
     rd_get_state_fn = 0, rd_restore_fn = 0, rd_ui_rehydrate_fn = 0 \<rparr>"

definition sd_task_register_restore_descriptor :: "u32 \<Rightarrow> 'a res_world_scheme \<Rightarrow> int \<times> 'a res_world_scheme" where
  "sd_task_register_restore_descriptor register_fn w =
     restore_registry_register_descriptor (Some (restart_only_desc AO_SD register_fn)) w"

section \<open>The text of a dump\<close>

definition hex2 :: "u8 \<Rightarrow> string" where
  "hex2 v = [hx ! unat (drop_bit 4 v AND 0xF), hx ! unat (v AND 0xF)]"

definition row_text :: "u8 list \<Rightarrow> string" where
  "row_text row = hex2 (hd row) @ concat (map (\<lambda>v. '' '' @ hex2 v) (tl row)) @ crlf"

definition block_text :: "u32 \<Rightarrow> block \<Rightarrow> string" where
  "block_text lba b = ''lba '' @ dec (unat lba) @ '':'' @ crlf @ concat (map (\<lambda>r. row_text (take 16 (drop (16 * r) b))) [0..<4])"

text \<open>The flag \<open>end_of_row\<close> within 64 bytes.\<close>

lemma end_of_row: "r < 4 \<Longrightarrow> j < 16 \<Longrightarrow> ((of_nat (16 * r + j) :: u32) AND 0xF = 0xF) \<longleftrightarrow> j = 15"
proof -
  have "\<forall>r\<in>set [0..<4]. \<forall>j\<in>set [0..<16]. ((of_nat (16 * r + j) :: u32) AND 0xF = 0xF) \<longleftrightarrow> j = 15" by code_simp
  then show "r < 4 \<Longrightarrow> j < 16 \<Longrightarrow> ?thesis" by simp
qed

lemma dump_row:
  assumes "r < 4" "j < 16"
  shows "sd_dump_loop buf 64 (map ((+) (16 * r)) [j..<16] @ rest) line w =
    sd_dump_loop buf 64 rest [] (sd_dump_line (line @ hex2 (buf ! (16 * r + j)) @
      concat (map (\<lambda>k. '' '' @ hex2 (buf ! (16 * r + k))) [Suc j..<16]) @ crlf) w)"
  using assms(2)
proof (induction "15 - j" arbitrary: j line)
  case 0
  then have "j = 15" by simp
  then show ?case using end_of_row [OF assms(1), of 15] by (simp add: Let_def hex2_def)
next
  case (Suc n)
  have up: "[j..<16] = j # [Suc j..<16]" "[Suc j..<16] = Suc j # [Suc (Suc j)..<16]"
    using Suc.hyps(2) by (simp_all add: upt_conv_Cons del: upt_Suc)
  have go: "j \<noteq> 15" "16 * r + j \<noteq> 63" using Suc.hyps(2) assms(1) by auto
  have "sd_dump_loop buf 64 (map ((+) (16 * r)) [j..<16] @ rest) line w =
      sd_dump_loop buf 64 (map ((+) (16 * r)) [Suc j..<16] @ rest) (line @ hex2 (buf ! (16 * r + j)) @ '' '') w"
    using end_of_row [OF assms(1) Suc.prems] go by (simp only: up(1)) (simp add: Let_def hex2_def del: upt_Suc)
  also have "\<dots> = sd_dump_loop buf 64 rest [] (sd_dump_line ((line @ hex2 (buf ! (16 * r + j)) @ '' '') @ hex2 (buf ! (16 * r + Suc j)) @
      concat (map (\<lambda>k. '' '' @ hex2 (buf ! (16 * r + k))) [Suc (Suc j)..<16]) @ crlf) w)"
    using Suc.hyps by (intro Suc.hyps(1)) simp_all
  finally show ?case by (simp only: up(2)) (simp del: upt_Suc)
qed

lemma dump_full_row:
  assumes "r < 4" "64 \<le> length buf"
  shows "sd_dump_loop buf 64 (map ((+) (16 * r)) [0..<16] @ rest) [] w =
    sd_dump_loop buf 64 rest [] (sd_dump_line (row_text (take 16 (drop (16 * r) buf))) w)"
proof -
  have "take 16 (drop (16 * r) buf) = map (\<lambda>k. buf ! (16 * r + k)) [0..<16]"
    using assms by (intro nth_equalityI) simp_all
  then have "take 16 (drop (16 * r) buf) = buf ! (16 * r) # map (\<lambda>k. buf ! (16 * r + k)) [Suc 0..<16]"
    by (subst (asm) upt_conv_Cons) simp_all
  then show ?thesis using dump_row [OF assms(1), of 0 buf rest "[]" w] by (simp add: row_text_def o_def del: upt_Suc)
qed

lemma dump_four_rows:
  assumes "64 \<le> length buf"
  shows "sd_dump_bytes buf 64 w = foldl (\<lambda>w r. sd_dump_line (row_text (take 16 (drop (16 * r) buf))) w) w [0..<4]"
proof -
  have split: "[0..<64] = map ((+) (16 * 0)) [0..<16] @ map ((+) (16 * 1)) [0..<16] @ map ((+) (16 * 2)) [0..<16] @
      map ((+) (16 * 3)) [0..<16] @ ([] :: nat list)" by code_simp
  have four: "[0..<4] = [0, 1, 2, 3 :: nat]" by code_simp
  show ?thesis unfolding sd_dump_bytes_def split four
    by (subst dump_full_row, simp, rule assms)+ simp
qed

section \<open>What a background command leaves in the log\<close>

definition logs :: "string \<Rightarrow> 'a world_scheme \<Rightarrow> 'a world_scheme \<Rightarrow> bool" where
  "logs t w w' \<longleftrightarrow> w' = w\<lparr>w_log := w_log w'\<rparr> \<and> log_inv (w_log w') \<and>
     log_contents (w_log w') = lastn 512 (log_contents (w_log w) @ t)"

lemma logsI:
  "log_inv l \<Longrightarrow> log_contents l = lastn 512 (log_contents (w_log w) @ t) \<Longrightarrow> logs t w (w\<lparr>w_log := l\<rparr>)"
  by (simp add: logs_def)

lemma logs_trans:
  assumes "logs t w w1" "logs t' w1 w2" shows "logs (t @ t') w w2"
proof -
  have "w2 = w\<lparr>w_log := w_log w2\<rparr>" using assms unfolding logs_def by (metis world.surjective world.update_convs(1))
  then show ?thesis using assms by (simp add: logs_def lastn_lastn_append)
qed

lemma logs_refl: "log_inv (w_log w) \<Longrightarrow> logs [] w w"
  by (auto simp: logs_def log_contents_def log_inv_def lastn_all)

text \<open>The fields of the task and of the buffer stay.\<close>

lemma logs_fields:
  assumes "logs t w w'"
  shows "g_sd_task_ctx w' = g_sd_task_ctx w" "sd_task_buf w' = sd_task_buf w" "g_console_sink w' = g_console_sink w" "sh w' = sh w"
proof -
  have w: "w' = w\<lparr>w_log := w_log w'\<rparr>" using assms by (simp add: logs_def)
  show "g_sd_task_ctx w' = g_sd_task_ctx w" "sd_task_buf w' = sd_task_buf w" "g_console_sink w' = g_console_sink w" "sh w' = sh w"
    by (subst w, simp add: sd_task_buf_def sh_def)+
qed

lemma sd_out_logs:
  assumes "st_bg (g_sd_task_ctx w) \<noteq> 0" "log_inv (w_log w)" "list_all item_ok is"
  shows "logs (items_text is) w (sd_out is w)"
  using assms(1) log_items_spec [OF assms(2,3)] by (simp add: sd_out_def log_print_def logs_def)

lemma dump_line_logs:
  assumes "st_bg (g_sd_task_ctx w) \<noteq> 0" "log_inv (w_log w)" "length t < 65536"
  shows "logs t w (sd_dump_line t w)"
  using assms(1) log_puts_spec [OF assms(2,3)] by (simp add: sd_dump_line_def log_puts_def logs_def)

lemma length_row_text: "length (row_text (take 16 bs)) < 65536"
proof -
  have "length (concat (map (\<lambda>v. '' '' @ hex2 v) vs)) = 3 * length vs" for vs by (induction vs) (simp_all add: hex2_def)
  then show ?thesis by (auto simp: row_text_def hex2_def min_def)
qed

text \<open>A run of steps that each log a text logs them all.\<close>

lemma logs_foldl:
  assumes "\<And>v i. i \<in> set is \<Longrightarrow> logs [] v v \<Longrightarrow> g_sd_task_ctx v = g_sd_task_ctx w \<Longrightarrow> sd_task_buf v = sd_task_buf w \<Longrightarrow> logs (t i) v (f v i)"
    and "log_inv (w_log w)"
  shows "logs (concat (map t is)) w (foldl f w is)"
  using assms
proof (induction "is" arbitrary: w)
  case Nil then show ?case using logs_refl by simp
next
  case (Cons i r)
  have s: "logs (t i) w (f w i)" using Cons.prems(1) [of i w] logs_refl [OF Cons.prems(2)] by simp
  have "logs (concat (map t r)) (f w i) (foldl f (f w i) r)"
    using Cons.prems(1) s logs_fields [OF s] by (intro Cons.IH) (simp_all add: logs_def)
  then show ?case using logs_trans [OF s] by simp
qed

lemma sd_dump_logs:
  assumes "st_bg (g_sd_task_ctx w) \<noteq> 0" "log_inv (w_log w)" "64 \<le> length buf"
  shows "logs (concat (map (\<lambda>r. row_text (take 16 (drop (16 * r) buf))) [0..<4])) w (sd_dump_bytes buf 64 w)"
  unfolding dump_four_rows [OF assms(3)]
  using assms(1,2) by (intro logs_foldl dump_line_logs length_row_text) (simp_all add: logs_def)

lemma sd_dump_blocks_logs:
  assumes "st_bg (g_sd_task_ctx w) \<noteq> 0" "log_inv (w_log w)" "n \<le> 4"
  shows "logs (concat (map (\<lambda>i. block_text (st_lba (g_sd_task_ctx w) + of_nat i) (drop (512 * i) (sd_task_buf w))) [0..<n])) w
    (sd_dump_blocks [0..<n] w)"
  unfolding sd_dump_blocks_def
proof (rule logs_foldl)
  fix v i assume i: "i \<in> set [0..<n]" and v: "logs [] v v" "g_sd_task_ctx v = g_sd_task_ctx w" "sd_task_buf v = sd_task_buf w"
  let ?is = "[Str ''lba '', U32 (st_lba (g_sd_task_ctx v) + of_nat i), Str ('':'' @ crlf)]"
  have o: "logs (items_text ?is) v (sd_out ?is v)" using assms(1) v by (intro sd_out_logs) (simp_all add: logs_def)
  have "64 \<le> length (drop (512 * i) (sd_task_buf v))" using i assms(3) by (simp add: sd_task_buf_def length_words_bytes)
  from sd_dump_logs [OF _ _ this, of "sd_out ?is v"]
  have "logs (concat (map (\<lambda>r. row_text (take 16 (drop (16 * r) (drop (512 * i) (sd_task_buf v))))) [0..<4])) (sd_out ?is v)
      (sd_dump_bytes (drop (512 * i) (sd_task_buf v)) 64 (sd_out ?is v))"
    using assms(1) v(2) logs_fields [OF o] o by (simp add: logs_def)
  from logs_trans [OF o this]
  show "logs (block_text (st_lba (g_sd_task_ctx w) + of_nat i) (drop (512 * i) (sd_task_buf w))) v
      (sd_dump_bytes (drop (512 * i) (sd_task_buf v)) 64 (sd_out ?is v))"
    using v(2,3) by (simp add: block_text_def items_text_def)
qed (rule assms(2))

text \<open>Whatever \<open>console_enqueue\<close> keeps, the console's print calls keep.\<close>

lemma console_keeps:
  assumes "\<And>s n v. P v \<Longrightarrow> P (snd (console_enqueue s n v))" and "P w"
  shows "P (con_puts s w)" "P (con_write s n w)"
proof -
  have l: "P (snd (console_write_loop s w))" if "P w" for s w
    using that
  proof (induction s w rule: console_write_loop.induct)
    case (1 s w)
    define n where "n = (if 96 < length s then 96 else length s)"
    obtain rc w1 where e: "console_enqueue (Some s) (of_nat n) w = (rc, w1)" by fastforce
    have w1: "P w1" using assms(1) [OF 1(2), of "Some s" "of_nat n"] e by simp
    show ?case
    proof (cases "s = [] \<or> rc \<noteq> SCHED_OK")
      case True then show ?thesis using 1(2) w1 e by (subst console_write_loop.simps) (auto simp: Let_def n_def [symmetric])
    next
      case False
      then have "P (snd (console_write_loop (drop n s) w1))" using 1(1) [OF _ n_def e [symmetric]] w1 by blast
      then show ?thesis using False e by (subst console_write_loop.simps) (simp add: Let_def n_def [symmetric])
    qed
  qed
  show "P (con_puts s w)" "P (con_write s n w)"
    using l assms(2) by (simp_all add: con_puts_def con_write_def console_puts_def console_write_def)
qed

text \<open>It touches the scheduler and its ring, and the log only when that is the sink.\<close>

lemma enqueue_keeps:
  fixes w :: "'a con_world_scheme" and s n
  defines "w' \<equiv> snd (console_enqueue s n w)"
  shows "g_console_sink w = CONSOLE_SINK_UART \<Longrightarrow> w_log w' = w_log w" "g_console_sink w' = g_console_sink w"
    "sdmmc_mask w' = sdmmc_mask w" "sdmmc_dctrl w' = sdmmc_dctrl w"
proof -
  have p: "w_log (snd (sched_post a e w)) = w_log w" "g_console_sink (snd (sched_post a e w)) = g_console_sink w"
    "sdmmc_mask (snd (sched_post a e w)) = sdmmc_mask w" "sdmmc_dctrl (snd (sched_post a e w)) = sdmmc_dctrl w"
    for a e and w :: "'a con_world_scheme"
    by (simp_all add: sched_post_def sched_post_common_def set_ao_def Let_def split: option.split prod.split)
  have k: "w_log (snd (console_kick w)) = w_log w" "g_console_sink (snd (console_kick w)) = g_console_sink w"
    "sdmmc_mask (snd (console_kick w)) = sdmmc_mask w" "sdmmc_dctrl (snd (console_kick w)) = sdmmc_dctrl w" for w :: "'a con_world_scheme"
    using p [of AO_CONSOLE "Some (sig_event CONSOLE_SIG_KICK)" w] by (simp_all add: console_kick_def upd_c_def case_prod_beta)
  show "g_console_sink w = CONSOLE_SINK_UART \<Longrightarrow> w_log w' = w_log w" "g_console_sink w' = g_console_sink w"
    "sdmmc_mask w' = sdmmc_mask w" "sdmmc_dctrl w' = sdmmc_dctrl w"
    unfolding w'_def by (auto simp: console_enqueue_def k upd_c_def Let_def split: option.split)
qed

lemma con_puts_keeps_log:
  assumes "g_console_sink w = CONSOLE_SINK_UART"
  shows "w_log (con_puts s w) = w_log w" "g_console_sink (con_puts s w) = CONSOLE_SINK_UART"
    "w_log (con_write s n w) = w_log w" "g_console_sink (con_write s n w) = CONSOLE_SINK_UART"
  using console_keeps [of "\<lambda>v. w_log v = w_log w \<and> g_console_sink v = CONSOLE_SINK_UART" w] assms
  by (simp_all add: enqueue_keeps)

lemma con_puts_keeps_sd: "sdmmc_mask (con_puts s w) = sdmmc_mask w" "sdmmc_dctrl (con_puts s w) = sdmmc_dctrl w"
  using console_keeps(1) [of "\<lambda>v. sdmmc_mask v = sdmmc_mask w \<and> sdmmc_dctrl v = sdmmc_dctrl w" w] by (simp_all add: enqueue_keeps)

lemma notify_keeps_log:
  assumes "g_console_sink w = CONSOLE_SINK_UART" shows "w_log (ui_notify_bg_done name w) = w_log w"
  using assms by (simp add: ui_notify_bg_done_def Let_def con_puts_keeps_log)

section \<open>A read, from the request to the report\<close>

text \<open>The state of the task when a read begins.\<close>

definition sd_begun :: "event \<Rightarrow> 'a sdt_world_scheme \<Rightarrow> 'a sdt_world_scheme" where
  "sd_begun e w = sd_async_init (upd_st (\<lambda>c. c\<lparr>st_bg := ucast (ev_src e AND 1), st_op := SD_TASK_OP_READ_DUMP,
      st_lba := ev_arg0 e, st_count := ev_arg1 e\<rparr>) w)"

lemma read_ready_begun [simp]:
  "read_ready lba count buf (sd_begun e w) = read_ready lba count buf w" "sd_listening (sd_begun e w) = sd_listening w"
  "g_sd_initialized (sd_begun e w) = g_sd_initialized w" "sd_card (sd_begun e w) = sd_card w"
  "w_log (sd_begun e w) = w_log w" "g_console_sink (sd_begun e w) = g_console_sink w" "sd_mem (sd_begun e w) = sd_mem w"
  "g_sd_task_ctx (sd_begun e w) = (g_sd_task_ctx w)\<lparr>st_bg := ucast (ev_src e AND 1), st_op := SD_TASK_OP_READ_DUMP,
      st_lba := ev_arg0 e, st_count := ev_arg1 e\<rparr>"
  "sc_table (sd_begun e w) = sc_table w" "g_task_aos (sd_begun e w) = g_task_aos w"
  "g_sd_ao_id (sd_begun e w) = g_sd_ao_id w" "g_sd_done_sig (sd_begun e w) = g_sd_done_sig w"
  by (simp_all add: sd_begun_def sd_async_init_def upd_sd_def upd_st_def read_ready_def sd_listening_def cong: option.case_cong)

lemma request_starts:
  assumes "st_op (g_sd_task_ctx w) = SD_TASK_OP_NONE" "ev_sig e = SD_SIG_REQ_READ_DUMP" "ev_arg1 e \<le> 4"
    and "g_sd_initialized w" "read_ready (ev_arg0 e) (ev_arg1 e) (st_buf_words (g_sd_task_ctx w)) w"
  shows "reading (ev_arg0 e) (ev_arg1 e) (st_buf_words (g_sd_task_ctx w)) (sd_begun e w) (sd_task_dispatch (Some e) w)"
proof -
  let ?buf = "st_buf_words (g_sd_task_ctx w)"
  have comm: "upd_st (\<lambda>c. c\<lparr>st_lba := lba, st_count := count\<rparr>) (snd (sd_async_read_start lba count buf v)) =
      snd (sd_async_read_start lba count buf (upd_st (\<lambda>c. c\<lparr>st_lba := lba, st_count := count\<rparr>) v))"
    "fst (sd_async_read_start lba count buf (upd_st (\<lambda>c. c\<lparr>st_lba := lba, st_count := count\<rparr>) v)) = fst (sd_async_read_start lba count buf v)"
    for lba count buf and v :: "'a sdt_world_scheme"
    by (simp_all add: sd_async_read_start_def upd_st_def upd_sd_def sd_start_single_block_read_def Let_def)
  define w1 where "w1 = sd_async_init (upd_st (\<lambda>c. c\<lparr>st_bg := ucast (ev_src e AND 1), st_op := SD_TASK_OP_READ_DUMP\<rparr>) w)"
  have begun: "upd_st (\<lambda>c. c\<lparr>st_lba := ev_arg0 e, st_count := ev_arg1 e\<rparr>) w1 = sd_begun e w"
    by (simp add: w1_def sd_begun_def upd_st_def sd_async_init_def upd_sd_def)
  have s: "fst (sd_async_read_start (ev_arg0 e) (ev_arg1 e) ?buf (sd_begun e w)) = SD_OK"
    "reading (ev_arg0 e) (ev_arg1 e) ?buf (sd_begun e w) (snd (sd_async_read_start (ev_arg0 e) (ev_arg1 e) ?buf (sd_begun e w)))"
    using read_start [of "sd_begun e w"] assms(4,5) by simp_all
  have "st_buf_words (g_sd_task_ctx w1) = ?buf" by (simp add: w1_def upd_st_def sd_async_init_def upd_sd_def)
  moreover have "ev_arg1 e \<noteq> 0" "\<not> ev_arg1 e > 4" using wanted_space(4) [OF assms(5)] assms(3) by auto
  ultimately have "sd_task_dispatch (Some e) w = snd (sd_async_read_start (ev_arg0 e) (ev_arg1 e) ?buf (sd_begun e w))"
    using assms(1,2) s(1) comm(1) [where lba = "ev_arg0 e" and count = "ev_arg1 e" and buf = ?buf and v = w1]
      comm(2) [where lba = "ev_arg0 e" and count = "ev_arg1 e" and buf = ?buf and v = w1] unfolding begun
    by (simp add: sd_task_dispatch_def sd_task_read_dump_def sd_task_start_read_def w1_def [symmetric] case_prod_beta)
  then show ?thesis using s(2) by simp
qed

lemma sd_rest_task:
  assumes "sd_rest w = sd_rest w'"
  shows "g_sd_task_ctx w = g_sd_task_ctx w'" "w_log w = w_log w'" "g_console_sink w = g_console_sink w'"
    "g_task_aos w = g_task_aos w'" "sc_table w = sc_table w'" "w_panic w = w_panic w'"
  using arg_cong [OF assms, of g_sd_task_ctx] arg_cong [OF assms, of w_log] arg_cong [OF assms, of g_console_sink]
    arg_cong [OF assms, of g_task_aos] arg_cong [OF assms, of sc_table] arg_cong [OF assms, of w_panic]
  by (simp_all add: sd_rest_def sd_async_init_def upd_sd_def)

lemma post_isr_frame:
  "g_sd_task_ctx (snd (sched_post_isr a e w)) = g_sd_task_ctx w" "w_log (snd (sched_post_isr a e w)) = w_log w"
  "g_console_sink (snd (sched_post_isr a e w)) = g_console_sink w" "sc_table (snd (sched_post_isr a e w)) = sc_table w"
  by (simp_all add: sched_post_isr_def sched_post_common_def set_ao_def Let_def split: option.split prod.split)

text \<open>The buffer after the transfer.\<close>

lemma buffer_blocks:
  assumes "read_ready lba count buf w0" "read_completed lba count buf w0 w" "g_sd_task_ctx w = c" "st_buf_words c = buf"
    and "unat count \<le> 4" "i < unat count"
  shows "take 512 (drop (512 * i) (sd_task_buf w)) = sd_card w0 (lba + of_nat i)"
proof -
  note space = wanted_space [OF assms(1)]
  have blocks: "blocks_ok (sd_card w0)" using assms(1) by (simp add: read_ready_def)
  define ws where "ws = map (\<lambda>i. sd_mem w (word_addr buf i)) [0..<512]"
  have "take (128 * unat count) ws = wanted lba count w0"
    using assms(2,5) space(1,2) by (intro nth_equalityI) (simp_all add: ws_def read_completed_def store_words_at [of buf 0, simplified])
  then have "ws = wanted lba count w0 @ drop (128 * unat count) ws" by (metis append_take_drop_id)
  then have "sd_task_buf w = concat (map (\<lambda>k. sd_card w0 (lba + of_nat k)) [0..<unat count]) @ words_bytes (drop (128 * unat count) ws)"
    by (simp only: sd_task_buf_def assms(3,4) ws_def [symmetric] words_bytes_blocks [OF blocks, symmetric] words_bytes_simps(3) [symmetric])
  moreover have "length (concat (map (\<lambda>k. sd_card w0 (lba + of_nat k)) [0..<n])) = 512 * n" for n
    using blocks by (induction n) (simp_all add: blocks_ok_def)
  ultimately show ?thesis
    using concat_nth_block [of "\<lambda>k. sd_card w0 (lba + of_nat k)" 512 i "unat count"] blocks assms(6)
    by (simp add: blocks_ok_def)
qed

lemma block_text_take: "block_text lba (take 512 b) = block_text lba b"
  by (simp add: block_text_def drop_take upt_conv_Cons)

text \<open>The report of a background read whose buffer holds the blocks of \<open>disk\<close>.\<close>

lemma done_reports:
  assumes "st_op (g_sd_task_ctx w) = SD_TASK_OP_READ_DUMP" "st_bg (g_sd_task_ctx w) \<noteq> 0"
    and "log_inv (w_log w)" "g_console_sink w = CONSOLE_SINK_UART" "unat (st_count (g_sd_task_ctx w)) \<le> 4"
    and "\<And>i. i < unat (st_count (g_sd_task_ctx w)) \<Longrightarrow> take 512 (drop (512 * i) (sd_task_buf w)) = disk (st_lba (g_sd_task_ctx w) + of_nat i)"
  shows "log_contents (w_log (sd_task_on_done w)) = lastn 512 (log_contents (w_log w) @
      concat (map (\<lambda>i. block_text (st_lba (g_sd_task_ctx w) + of_nat i) (disk (st_lba (g_sd_task_ctx w) + of_nat i)))
        [0..<unat (st_count (g_sd_task_ctx w))]) @ ''sdread: done'' @ crlf)"
proof -
  let ?c = "g_sd_task_ctx w" and ?n = "unat (st_count (g_sd_task_ctx w))"
  define w1 where "w1 = sd_dump_blocks [0..<?n] w"
  define w2 where "w2 = sd_out [Str (''sdread: done'' @ crlf)] w1"
  note l1 = sd_dump_blocks_logs [OF assms(2,3,5), folded w1_def] and f1 = logs_fields [OF sd_dump_blocks_logs [OF assms(2,3,5), folded w1_def]]
  have l2: "logs (items_text [Str (''sdread: done'' @ crlf)]) w1 w2"
    unfolding w2_def using l1 f1 assms(2) by (intro sd_out_logs) (simp_all add: logs_def)
  have "sd_task_on_done w = sd_task_notify ''sdread'' w2"
    using assms(1) by (simp add: sd_task_on_done_def w1_def w2_def sd_op_name_def Let_def)
  moreover have "w_log (sd_task_notify ''sdread'' w2) = w_log w2"
    using assms(2,4) f1 logs_fields [OF l2] by (simp add: sd_task_notify_def notify_keeps_log)
  moreover have "log_contents (w_log w2) = lastn 512 (log_contents (w_log w) @
      concat (map (\<lambda>i. block_text (st_lba ?c + of_nat i) (drop (512 * i) (sd_task_buf w))) [0..<?n]) @ ''sdread: done'' @ crlf)"
    using logs_trans [OF l1 l2] by (simp add: logs_def items_text_def)
  moreover have "map (\<lambda>i. block_text (st_lba ?c + of_nat i) (drop (512 * i) (sd_task_buf w))) [0..<?n] =
      map (\<lambda>i. block_text (st_lba ?c + of_nat i) (disk (st_lba ?c + of_nat i))) [0..<?n]"
    using assms(6) block_text_take by (intro map_cong refl) (metis atLeastLessThan_iff set_upt)
  ultimately show ?thesis by simp
qed

text \<open>The queue of the task that the driver is bound to.\<close>

definition sd_queue :: "'a sd_world_scheme \<Rightarrow> event list" where
  "sd_queue w = (case sc_table w ! unat (g_sd_ao_id w) of None \<Rightarrow> [] | Some k \<Rightarrow> eq_contents (ao_q (g_task_aos w ! k)))"

lemma listening_queue:
  assumes "sd_listening w" "length (g_task_aos w) = 32" "\<And>k. sc_table w ! unat (g_sd_ao_id w) = Some k \<Longrightarrow> k < 32"
  shows "sd_queue (snd (sched_post_isr (g_sd_ao_id w) (Some e) w)) = sd_queue w @ [e]"
proof -
  obtain k where k: "sc_table w ! unat (g_sd_ao_id w) = Some k" using assms(1) by (auto simp: sd_listening_def split: option.splits)
  let ?q = "ao_q (g_task_aos w ! k)"
  have q: "eq_inv ?q" "q_count ?q < q_cap ?q" using assms(1) k by (simp_all add: sd_listening_def)
  obtain rc q' where p: "eq_push_common (Some e) ?q = (rc, q')" by fastforce
  show ?thesis using assms(1) k p eq_push_room [OF q, of e] assms(2) assms(3) [OF k]
    by (simp add: sd_queue_def sched_post_isr_def sched_post_common_def eq_push_isr_def sd_listening_def set_ao_def Let_def)
qed

section \<open>Properties\<close>

text \<open>The task is idle, bound to the driver, with room in its queue; the request is a
  background read of one to four blocks.\<close>

definition sd_task_ready :: "'a sdt_world_scheme \<Rightarrow> bool" where
  "sd_task_ready w \<longleftrightarrow>
     st_op (g_sd_task_ctx w) = SD_TASK_OP_NONE \<and> g_sd_initialized w \<and> sd_listening w \<and> sched_wf {} w \<and>
     log_inv (w_log w) \<and> g_console_sink w = CONSOLE_SINK_UART"

definition bg_read_request :: "event \<Rightarrow> bool" where
  "bg_read_request e \<longleftrightarrow> ev_sig e = SD_SIG_REQ_READ_DUMP \<and> ev_src e AND 1 = 1 \<and> ev_arg1 e \<le> 4"

lemma bg_read_outcome:
  assumes "sd_task_ready w" "bg_read_request e" "read_ready (ev_arg0 e) (ev_arg1 e) (st_buf_words (g_sd_task_ctx w)) w"
    and "sd_step\<^sup>*\<^sup>* (sd_task_dispatch (Some e) w) w1" "ctx_status (g_sd_ctx w1) = DRV_COMPLETE"
  shows "read_completed (ev_arg0 e) (ev_arg1 e) (st_buf_words (g_sd_task_ctx w)) (sd_begun e w) w1"
proof -
  let ?buf = "st_buf_words (g_sd_task_ctx w)"
  have "reading (ev_arg0 e) (ev_arg1 e) ?buf (sd_begun e w) (sd_task_dispatch (Some e) w)"
    using assms(1-3) by (intro request_starts) (simp_all add: sd_task_ready_def bg_read_request_def)
  from read_steps [OF assms(4) _ _ this] show ?thesis
    using assms(1,3,5) reading_valid [of "ev_arg0 e" "ev_arg1 e" ?buf "sd_begun e w" w1] by (auto simp: sd_task_ready_def read_failed_def)
qed

text \<open>C15: a background read of up to four blocks, whatever the pace of the card and the
  interrupts: once the transfer is complete, the task's queue has one more event, and when
  the task has handled it the log holds the hexadecimal dump of what the card has
  in these blocks, and the task takes requests again.\<close>

theorem sdread_logs_card_blocks:
  assumes "sd_task_ready w" "bg_read_request e" "read_ready (ev_arg0 e) (ev_arg1 e) (st_buf_words (g_sd_task_ctx w)) w"
    and "sd_step\<^sup>*\<^sup>* (sd_task_dispatch (Some e) w) w1" "ctx_status (g_sd_ctx w1) = DRV_COMPLETE"
  shows "sd_queue w1 = sd_queue w @ [sd_done_event (g_sd_done_sig w)] \<and>
    st_op (g_sd_task_ctx (sd_task_dispatch (Some (sd_done_event SD_SIG_TRANSFER_DONE)) w1)) = SD_TASK_OP_NONE \<and>
    log_contents (w_log (sd_task_dispatch (Some (sd_done_event SD_SIG_TRANSFER_DONE)) w1)) =
      lastn 512 (log_contents (w_log w) @
        concat (map (\<lambda>i. block_text (ev_arg0 e + of_nat i) (sd_card w (ev_arg0 e + of_nat i))) [0..<unat (ev_arg1 e)]) @
        ''sdread: done'' @ crlf)"
proof -
  let ?buf = "st_buf_words (g_sd_task_ctx w)" and ?w0 = "sd_begun e w"
  let ?post = "snd (sched_post_isr (g_sd_ao_id w) (Some (sd_done_event (g_sd_done_sig w))) ?w0)"
  note ready = assms(1) [unfolded sd_task_ready_def] and req = assms(2) [unfolded bg_read_request_def]
  note complete = bg_read_outcome [OF assms]
  have rest: "sd_rest w1 = sd_rest ?post" using complete by (simp add: read_completed_def)
  note f = sd_rest_task [OF rest] and s = sd_rest_fields [OF rest]
  have c: "g_sd_task_ctx w1 = (g_sd_task_ctx w)\<lparr>st_bg := 1, st_op := SD_TASK_OP_READ_DUMP, st_lba := ev_arg0 e, st_count := ev_arg1 e\<rparr>"
    using f(1) req by (simp add: post_isr_frame)
  have ao: "g_sd_ao_id w1 = g_sd_ao_id w" using s(4) by (simp add: sched_post_isr_def sched_post_common_def set_ao_def Let_def split: option.split prod.split)
  have aid: "unat (g_sd_ao_id w) < 32" using ready by (simp add: sd_listening_def)
  have "sd_queue w1 = sd_queue ?post" using f(4,5) s(4) by (simp add: sd_queue_def cong: option.case_cong)
  also have "\<dots> = sd_queue ?w0 @ [sd_done_event (g_sd_done_sig w)]"
  proof -
    have wf: "sched_wf {} w" using ready by simp
    have "k < 32" if "sc_table w ! unat (g_sd_ao_id w) = Some k" for k
      using sched_wf_registered(1) [OF wf aid that] aid by simp
    then show ?thesis using listening_queue [of ?w0] ready sched_wf_lengths [OF wf] by simp
  qed
  finally have q: "sd_queue w1 = sd_queue w @ [sd_done_event (g_sd_done_sig w)]"
    by (simp add: sd_queue_def cong: option.case_cong)
  have n4: "unat (ev_arg1 e) \<le> 4" using req by (simp add: word_le_nat_alt)
  define w2 where "w2 = upd_st (\<lambda>c. c\<lparr>st_completed := st_completed c + 1, st_last_error := SD_OK\<rparr>) w1"
  have c2: "g_sd_task_ctx w2 = (g_sd_task_ctx w1)\<lparr>st_completed := st_completed (g_sd_task_ctx w1) + 1, st_last_error := SD_OK\<rparr>"
    "sd_task_buf w2 = sd_task_buf w1" "w_log w2 = w_log w" "g_console_sink w2 = CONSOLE_SINK_UART"
    using f(2,3) ready by (simp_all add: w2_def upd_st_def sd_task_buf_def post_isr_frame)
  have "log_contents (w_log (sd_task_on_done w2)) = lastn 512 (log_contents (w_log w2) @
      concat (map (\<lambda>i. block_text (st_lba (g_sd_task_ctx w2) + of_nat i) (sd_card w (st_lba (g_sd_task_ctx w2) + of_nat i)))
        [0..<unat (st_count (g_sd_task_ctx w2))]) @ ''sdread: done'' @ crlf)"
    using buffer_blocks [OF _ complete c] assms(3) ready n4 by (intro done_reports) (simp_all add: c2 c)
  moreover have "sd_task_dispatch (Some (sd_done_event SD_SIG_TRANSFER_DONE)) w1 = upd_st (\<lambda>c. c\<lparr>st_op := SD_TASK_OP_NONE\<rparr>) (sd_task_on_done w2)"
    by (simp add: sd_task_dispatch_def sd_done_event_def w2_def)
  ultimately show ?thesis using q by (simp add: upd_st_def c2(1,3) c)
qed

text \<open>A panic stays recorded, and an interrupt that cannot post its event panics.\<close>

lemma panic_recorded: "w_panic (kernel_panic m f l w) \<noteq> None"
proof -
  have s: "w_panic (uart_puts t u) = w_panic u" for t and u :: "'a world_scheme" by (simp add: uart_puts_def)
  have f: "w_panic (foldl (\<lambda>w i. uart_puts (g i) w) u is) = w_panic u" for g "is" and u :: "'a world_scheme"
    by (induction "is" arbitrary: u) (simp_all add: s)
  show ?thesis by (simp add: kernel_panic_def uart_put_u32_def s f Let_def split: option.split)
qed

lemma sd_post_unregistered:
  assumes "sc_table w ! unat (g_sd_ao_id w) = None"
  shows "w_panic (sd_irq_post e msg line w) \<noteq> None"
proof -
  have "fst (sched_post_isr (g_sd_ao_id w) (Some e) w) \<noteq> SCHED_OK"
    using assms by (simp add: sched_post_isr_def sched_post_common_def sched_codes)
  then show ?thesis using panic_recorded by (simp add: sd_irq_post_def case_prod_beta)
qed

text \<open>What the data loops of the handler leave alone.\<close>

lemma drains_frame:
  "sd_rest (sd_drain_count n w) = sd_rest w" "sd_rest (sd_drain_all w) = sd_rest w"
  "ctx_total_blocks (g_sd_ctx (sd_drain_count n w)) = ctx_total_blocks (g_sd_ctx w)"
  "ctx_total_blocks (g_sd_ctx (sd_drain_all w)) = ctx_total_blocks (g_sd_ctx w)"
proof -
  have t: "sd_rest (sd_take_word d ds v) = sd_rest v" "ctx_total_blocks (g_sd_ctx (sd_take_word d ds v)) = ctx_total_blocks (g_sd_ctx v)"
    for d ds and v :: "'a sd_world_scheme" by (rule sd_rest_cong(7)) (simp add: sd_take_word_def upd_sd_def)
  show "sd_rest (sd_drain_count n w) = sd_rest w" "ctx_total_blocks (g_sd_ctx (sd_drain_count n w)) = ctx_total_blocks (g_sd_ctx w)"
    by (induction n arbitrary: w) (simp_all add: t split: list.split)
  have "sd_rest (sd_drain_all w) = sd_rest w \<and> ctx_total_blocks (g_sd_ctx (sd_drain_all w)) = ctx_total_blocks (g_sd_ctx w)"
  proof (induction w rule: sd_drain_all.induct)
    case (1 w) then show ?case by (subst (1 2) sd_drain_all.simps) (auto simp: t split: list.split)
  qed
  then show "sd_rest (sd_drain_all w) = sd_rest w" "ctx_total_blocks (g_sd_ctx (sd_drain_all w)) = ctx_total_blocks (g_sd_ctx w)" by simp_all
qed

lemma sd_rest_table:
  assumes "sd_rest w = sd_rest w'" shows "sc_table w = sc_table w'"
  using arg_cong [OF assms, of sc_table] by (simp add: sd_rest_def sd_async_init_def upd_sd_def)

text \<open>The interrupt that ends a read whose task is gone.\<close>

lemma orphan_interrupt_panics:
  assumes "g_sd_async_sched w" "sc_table w ! unat (g_sd_ao_id w) = None"
    and "ctx_blocks_done (g_sd_ctx w) + 1 = ctx_total_blocks (g_sd_ctx w)"
    and "bit status 1 \<or> bit status 3 \<or> bit status 5 \<or> bit status 8"
  shows "w_panic (SDMMC1_IRQHandler status w) \<noteq> None"
proof (cases "ctx_status (g_sd_ctx w) = DRV_IN_PROGRESS \<and> \<not> sd_ctx_valid_for_transfer (g_sd_ctx w)")
  case True then show ?thesis by (simp add: SDMMC1_IRQHandler_def panic_recorded)
next
  case valid: False
  show ?thesis
  proof (cases "bit status 1 \<or> bit status 3 \<or> bit status 5")
    case True
    then have "SDMMC1_IRQHandler status w = sd_irq_error status w" using valid by (auto simp: SDMMC1_IRQHandler_def)
    then show ?thesis using assms(1,2)
      by (simp add: sd_irq_error_def upd_sd_def Let_def sd_post_unregistered panic_recorded del: not_None_eq)
  next
    case False
    define w1 where "w1 = sd_drain_all (if bit status 15 then sd_drain_count 16 w else w)"
    have rest: "sd_rest w1 = sd_rest w" by (simp add: w1_def drains_frame)
    note f = sd_rest_fields [OF rest] sd_rest_table [OF rest]
    have c: "ctx_blocks_done (g_sd_ctx w1) = ctx_blocks_done (g_sd_ctx w)" "ctx_total_blocks (g_sd_ctx w1) = ctx_total_blocks (g_sd_ctx w)"
      by (simp_all add: w1_def drains_frame)
    have "SDMMC1_IRQHandler status w = sd_irq_block_end w1"
      using valid False assms(4) by (auto simp: SDMMC1_IRQHandler_def w1_def Let_def)
    then show ?thesis using assms(1-3) f c
      by (simp add: sd_irq_block_end_def Let_def upd_sd_def sd_post_unregistered panic_recorded del: not_None_eq)
  qed
qed

text \<open>C16: the SD task is not protected from being killed, and its driver stays bound to it:
  when it is killed while its last block is read, the interrupt that ends the read, with
  success or with a fault, panics the kernel.\<close>

theorem kill_sd_during_read_panics:
  assumes "g_sched w" "sched_wf {} w" "sc_table w ! unat AO_SD \<noteq> None"
    and "g_sd_async_sched w" "g_sd_ao_id w = AO_SD" "ctx_blocks_done (g_sd_ctx w) + 1 = ctx_total_blocks (g_sd_ctx w)"
    and "bit status 1 \<or> bit status 3 \<or> bit status 5 \<or> bit status 8"
  shows "fst (fst (term_kill_task AO_SD w)) = SCHED_OK \<and> w_panic (SDMMC1_IRQHandler status (snd (term_kill_task AO_SD w))) \<noteq> None"
proof -
  obtain k where k: "sc_table w ! 1 = Some k" using assms(3) by auto
  note l = sched_wf_lengths [OF assms(2)]
  define w1 where "w1 = snd (term_kill_task AO_SD w)"
  have w1: "g_sd_async_sched w1" "g_sd_ao_id w1 = AO_SD" "sc_table w1 ! unat AO_SD = None" "g_sd_ctx w1 = g_sd_ctx w"
    "fst (fst (term_kill_task AO_SD w)) = SCHED_OK"
    using assms(1,4,5) k l by (simp_all add: w1_def term_kill_task_def term_is_protected_task_def sched_unregister_def set_ao_def
        term_stdin_release_internal_def upd_t_def Let_def)
  show ?thesis using orphan_interrupt_panics [OF w1(1) _ _ assms(7)] w1 assms(6) by (simp add: w1_def [symmetric])
qed


section \<open>A card and a task that is asked to read\<close>

definition sd_demo_ao :: ao where
  "sd_demo_ao = \<lparr> ao_id = AO_SD, ao_prio = 2, ao_reserved = 0, ao_q = eq_init (Some (replicate 8 (sig_event 0))) 8,
     ao_dispatch = 0x8000001, ao_state = 0x20003000, ao_flags = AO_FLAG_ACCEPT_EVENTS, ao_rtc_max_ticks = 1,
     ao_events_handled = 0, ao_name = Some ''sd'' \<rparr>"

definition sd_demo :: sdt_world where
  "sd_demo = (ckpt_world.extend ckpt_power_on (sdt_world.fields
       \<lparr> st_completed = 0, st_errors = 0, st_last_error = 0, st_op = SD_TASK_OP_NONE, st_lba = 0, st_count = 0, st_bg = 0,
         st_buf_words = 0x20003000 \<rparr> True))
     \<lparr>g_task_aos := (replicate 32 ex_ao)[1 := sd_demo_ao], sc_table := (replicate 32 None)[1 := Some 1], sc_ready_bitmap := 0,
      sc_rr_cursor := replicate 32 0, w_log := ex_log, g_console_sink := CONSOLE_SINK_UART, g_sched := True,
      g_sd_initialized := True, sd_card := (\<lambda>lba. replicate 512 (ucast lba)), g_sd_high_capacity := 1,
      g_sd_async_sched := True, g_sd_ao_id := AO_SD, g_sd_done_sig := SD_SIG_TRANSFER_DONE, g_sd_err_sig := SD_SIG_TRANSFER_ERROR\<rparr>"

definition sd_demo_request :: event where
  "sd_demo_request = \<lparr> ev_sig = SD_SIG_REQ_READ_DUMP, ev_src = 1, ev_arg0 = 5, ev_arg1 = 2, ev_tick = 0 \<rparr>"

lemma sd_demo_ready:
  "sched_wf {} sd_demo" "sd_task_ready sd_demo" "bg_read_request sd_demo_request"
  "read_ready (ev_arg0 sd_demo_request) (ev_arg1 sd_demo_request) (st_buf_words (g_sd_task_ctx sd_demo)) sd_demo"
proof -
  have q: "eq_inv (ao_q sd_demo_ao)" using eq_inv_init [of 8 "replicate 8 (sig_event 0)"] by (simp add: sd_demo_ao_def)
  have ctx: "g_sd_task_ctx sd_demo = \<lparr> st_completed = 0, st_errors = 0, st_last_error = 0, st_op = SD_TASK_OP_NONE, st_lba = 0,
      st_count = 0, st_bg = 0, st_buf_words = 0x20003000 \<rparr>" by (simp add: sd_demo_def sdt_world.defs ckpt_world.defs)
  have sel: "g_task_aos sd_demo = (replicate 32 ex_ao)[1 := sd_demo_ao]" "sc_table sd_demo = (replicate 32 None)[1 := Some 1]"
    "sc_ready_bitmap sd_demo = 0" "sc_rr_cursor sd_demo = replicate 32 0" "w_log sd_demo = ex_log" "g_console_sink sd_demo = 0"
    "g_sd_initialized sd_demo" "sd_card sd_demo = (\<lambda>lba. replicate 512 (ucast lba))" "g_sd_high_capacity sd_demo = 1"
    "g_sd_async_sched sd_demo" "g_sd_ao_id sd_demo = 1" "g_sd_done_sig sd_demo = 3" "g_sd_err_sig sd_demo = 4"
    by (simp_all add: sd_demo_def)
  have "ao_ok {} sd_demo i" if "i < 32" for i
    using that q by (cases "i = 1") (simp_all add: ao_ok_def sel nth_list_update Let_def, simp_all add: sd_demo_ao_def eq_init_def AO_FLAG_ACCEPT_EVENTS_def)
  then show wf: "sched_wf {} sd_demo" by (simp add: sched_wf_def sel)
  have "sd_listening sd_demo" using q by (simp add: sd_listening_def sel) (simp add: sd_demo_ao_def eq_init_def AO_FLAG_ACCEPT_EVENTS_def)
  then show "sd_task_ready sd_demo" using wf ex_log_inv by (simp add: sd_task_ready_def sel ctx)
  show "bg_read_request sd_demo_request" by (simp add: bg_read_request_def sd_demo_request_def)
  show "read_ready (ev_arg0 sd_demo_request) (ev_arg1 sd_demo_request) (st_buf_words (g_sd_task_ctx sd_demo)) sd_demo"
    by (simp add: read_ready_def read_fits_def blocks_ok_def sel ctx sd_demo_request_def)
qed

theorem sdread_logs_card_blocks_witness:
  "\<exists>w1. sd_step\<^sup>*\<^sup>* (sd_task_dispatch (Some sd_demo_request) sd_demo) w1 \<and>
    log_contents (w_log (sd_task_dispatch (Some (sd_done_event SD_SIG_TRANSFER_DONE)) w1)) =
      lastn 512 (log_contents (w_log sd_demo) @
        concat (map (\<lambda>i. block_text (ev_arg0 sd_demo_request + of_nat i) (sd_card sd_demo (ev_arg0 sd_demo_request + of_nat i)))
          [0..<unat (ev_arg1 sd_demo_request)]) @ ''sdread: done'' @ crlf)"
proof -
  note r = sd_demo_ready
  have "reading (ev_arg0 sd_demo_request) (ev_arg1 sd_demo_request) (st_buf_words (g_sd_task_ctx sd_demo)) (sd_begun sd_demo_request sd_demo)
      (sd_task_dispatch (Some sd_demo_request) sd_demo)"
    using r by (intro request_starts) (simp_all add: sd_task_ready_def bg_read_request_def)
  from read_completes [OF _ _ this] r obtain w1 where "sd_step\<^sup>*\<^sup>* (sd_task_dispatch (Some sd_demo_request) sd_demo) w1"
    "ctx_status (g_sd_ctx w1) = DRV_COMPLETE" by (auto simp: sd_task_ready_def read_completed_def)
  with sdread_logs_card_blocks [OF r(2-4)] show ?thesis by blast
qed

theorem kill_sd_during_read_panics_witness:
  "w_panic (SDMMC1_IRQHandler 0x100 (snd (term_kill_task AO_SD
     (sd_demo\<lparr>g_sd_ctx := (g_sd_ctx sd_demo)\<lparr>ctx_total_blocks := 1, ctx_blocks_done := 0\<rparr>\<rparr>)))) \<noteq> None"
proof -
  let ?w = "sd_demo\<lparr>g_sd_ctx := (g_sd_ctx sd_demo)\<lparr>ctx_total_blocks := 1, ctx_blocks_done := 0\<rparr>\<rparr>"
  have wf: "sched_wf {} ?w" using sd_demo_ready(1) by (simp add: sched_wf_def ao_ok_def cong: option.case_cong)
  have "fst (fst (term_kill_task AO_SD ?w)) = SCHED_OK \<and> w_panic (SDMMC1_IRQHandler 0x100 (snd (term_kill_task AO_SD ?w))) \<noteq> None"
    by (rule kill_sd_during_read_panics [OF _ wf]) (simp_all add: sd_demo_def bit_simps)
  then show ?thesis by blast
qed


section \<open>The driver by itself\<close>

text \<open>C14: an interrupt-driven read that has been started is at every moment in one of three
  cases: it has stored the first words of the blocks asked for and nothing else, has
  posted no event, and can still complete; it is complete, all words are stored, and one
  event of success was posted; or a fault has ended it with one event of that fault.\<close>

theorem interrupt_read_outcomes:
  assumes "g_sd_initialized w" "read_ready lba count buf w" "sd_listening w"
    and "sd_step\<^sup>*\<^sup>* (snd (sd_async_read_start lba count buf w)) w'"
  shows "fst (sd_async_read_start lba count buf w) = SD_OK \<and>
    (sd_rest w' = sd_rest w \<and> (\<exists>n. sd_mem w' = store_words buf 0 (take n (wanted lba count w)) (sd_mem w)) \<and>
       (\<exists>w''. sd_step\<^sup>*\<^sup>* w' w'' \<and> read_completed lba count buf w w'') \<or>
     read_completed lba count buf w w' \<or> read_failed lba count buf w w')"
proof -
  note s = read_start [OF assms(1,2)]
  from read_steps [OF assms(4,2,3) s(2)] show ?thesis
    using s(1) readingD(7,11) [of lba count buf w w'] read_completes [OF assms(2,3), of w'] by blast
qed

theorem interrupt_read_outcomes_witness:
  "fst (sd_async_read_start 5 2 0x20003000 sd_demo) = SD_OK \<and>
    (\<exists>w'. sd_step\<^sup>*\<^sup>* (snd (sd_async_read_start 5 2 0x20003000 sd_demo)) w' \<and> read_completed 5 2 0x20003000 sd_demo w')"
proof -
  have r: "read_ready 5 2 0x20003000 sd_demo" "g_sd_initialized sd_demo" "sd_listening sd_demo"
    using sd_demo_ready(2,4) by (simp_all add: sd_demo_request_def sd_task_ready_def)
      (simp add: sd_demo_def sdt_world.defs ckpt_world.defs)
  let ?v = "snd (sd_async_read_start 5 2 0x20003000 sd_demo)"
  have "\<not> read_failed 5 2 0x20003000 sd_demo ?v"
    using reading_valid [OF read_start(2) [OF r(2,1)]] by (auto simp: read_failed_def)
  then show ?thesis using interrupt_read_outcomes [OF r(2,1,3) rtranclp.rtrancl_refl] by blast
qed

text \<open>No step of a read, and not its end, resets the field \<open>operation\<close>.\<close>

lemma drains_operation:
  "ctx_operation (g_sd_ctx (sd_drain_count n w)) = ctx_operation (g_sd_ctx w)"
  "ctx_operation (g_sd_ctx (sd_drain_all w)) = ctx_operation (g_sd_ctx w)"
proof -
  have t: "ctx_operation (g_sd_ctx (sd_take_word d ds v)) = ctx_operation (g_sd_ctx v)"
    for d ds and v :: "'a sd_world_scheme" by (simp add: sd_take_word_def upd_sd_def)
  show "ctx_operation (g_sd_ctx (sd_drain_count n w)) = ctx_operation (g_sd_ctx w)"
    by (induction n arbitrary: w) (simp_all add: t split: list.split)
  show "ctx_operation (g_sd_ctx (sd_drain_all w)) = ctx_operation (g_sd_ctx w)"
  proof (induction w rule: sd_drain_all.induct)
    case (1 w) then show ?case by (subst sd_drain_all.simps) (auto simp: t split: list.split)
  qed
qed

lemma panic_keeps_ctx: "g_sd_ctx (kernel_panic m f l w) = g_sd_ctx w"
proof -
  have p: "g_sd_ctx (uart_puts s v) = g_sd_ctx v" for s and v :: "'a sd_world_scheme" by (simp add: uart_puts_def)
  have f: "g_sd_ctx (foldl (\<lambda>w i. uart_puts (g i) w) v is) = g_sd_ctx v" for g "is" and v :: "'a sd_world_scheme"
    by (induction "is" arbitrary: v) (simp_all add: p)
  show ?thesis by (simp add: kernel_panic_def uart_put_u32_def p f Let_def split: option.split)
qed

lemma irq_operation: "ctx_operation (g_sd_ctx (SDMMC1_IRQHandler status w)) = ctx_operation (g_sd_ctx w)"
proof -
  have p: "g_sd_ctx (sd_irq_post e m l v) = g_sd_ctx v" for e m l and v :: "'a sd_world_scheme"
    by (simp add: sd_irq_post_def case_prod_beta panic_keeps_ctx post_keeps_transfer)
  have e: "ctx_operation (g_sd_ctx (sd_irq_error status v)) = ctx_operation (g_sd_ctx v)" for v :: "'a sd_world_scheme"
    by (simp add: sd_irq_error_def Let_def p panic_keeps_ctx upd_sd_def)
  have b: "ctx_operation (g_sd_ctx (sd_irq_block_end v)) = ctx_operation (g_sd_ctx v)" for v :: "'a sd_world_scheme"
    by (simp add: sd_irq_block_end_def Let_def p panic_keeps_ctx upd_sd_def sd_start_single_block_read_def)
  show ?thesis by (simp add: SDMMC1_IRQHandler_def Let_def e b panic_keeps_ctx drains_operation)
qed

lemma steps_operation: "sd_step\<^sup>*\<^sup>* w w' \<Longrightarrow> ctx_operation (g_sd_ctx w') = ctx_operation (g_sd_ctx w)"
  by (induction rule: rtranclp_induct) (auto elim!: sd_step_elim simp: irq_operation)

lemma scan_keeps_ctx: "g_sd_ctx (jrnl_scan_tail w) = g_sd_ctx w"
proof -
  have r: "g_sd_ctx (snd (sd_read1 l v)) = g_sd_ctx v" for l and v :: "'a jrnl_world_scheme"
    by (simp add: sd_read1_def sd_read_blocks_def sd_read_block_def sd_next_def split: prod.split sd_outcome.split option.split)
  have u: "g_sd_ctx (uart_put_u32 n v) = g_sd_ctx v" for n and v :: "'a jrnl_world_scheme"
    using uart_put_u32_puts [of n v] by auto
  have l: "g_sd_ctx (snd (jrnl_scan_loop is best v)) = g_sd_ctx v" for "is" best and v :: "'a jrnl_world_scheme"
  proof (induction "is" arbitrary: best v)
    case (Cons i "is")
    obtain rc b v1 where s: "sd_read1 (j_start_lba (g_journal v) + i) v = ((rc, b), v1)" by (metis prod.exhaust)
    have "g_sd_ctx v1 = g_sd_ctx v" using r [of "j_start_lba (g_journal v) + i" v] s by simp
    then show ?case by (simp add: s Cons.IH u upd_j_def split: option.split prod.split)
  qed simp
  have m: "g_sd_ctx (snd (jrnl_media_ready v)) = g_sd_ctx v" for v :: "'a jrnl_world_scheme"
    by (simp add: jrnl_media_ready_def sd_init_def sd_next_def split: sd_outcome.split)
  show ?thesis by (simp add: jrnl_scan_tail_def Let_def case_prod_beta l m u upd_j_def split: option.split)
qed



end
