(* ===== verification/Ckpt_Commands.thy ===== *)
theory Ckpt_Commands
  imports Programs Sd_Task
begin

text \<open>
  The checkpoint commands of \<open>terminal.c\<close>: those on the two slots of the card
  (\<open>ckptsave_sd\<close>, \<open>ckptload_sd\<close>, \<open>ckptinspect\<close>, \<open>ckptpreview\<close>, \<open>ckptcorrupt\<close>, \<open>ckptint\<close>) and
  those on the queue in memory (\<open>ckptq\<close>, \<open>ckptsave\<close>, \<open>ckptsaveop\<close>, \<open>ckptload\<close>, \<open>restoresim\<close>
  and its variants).  A command gets the argument vector as a list of strings.
\<close>

text \<open>What the commands depend on and the model leaves open: where the linker puts the
  programs, the padding byte of the counter's structure, the memory that \<open>md\<close> and
  \<open>sdmmcdump\<close> read, and what the card driver notes of its last command.\<close>

record cmd_env =
  ce_counter :: task_link
  ce_line :: task_link
  ce_snake :: task_link
  ce_pad :: u8
  ce_peek :: "u32 \<Rightarrow> u32"
  ce_rca :: u32
  ce_ocr :: u32
  ce_bus_width :: u32
  ce_last_cmd :: u32
  ce_last_sta :: u32
  ce_wait_calls :: u32
  ce_wait_ok :: u32
  ce_wait_timeout :: u32
  ce_wait_fail_fast :: u32

definition call_get :: "cmd_env \<Rightarrow> u32 \<Rightarrow> u32 \<Rightarrow> 'a line_world_scheme \<Rightarrow> int \<times> (u8 list \<times> u32) option" where
  "call_get E = prog_get (ce_counter E) (ce_line E) (ce_snake E) (ce_pad E)"

definition call_reg :: "cmd_env \<Rightarrow> u32 \<Rightarrow> 'a line_world_scheme \<Rightarrow> int \<times> 'a line_world_scheme" where
  "call_reg E = prog_register (ce_counter E) (ce_line E) (ce_snake E)"

definition call_restore :: "cmd_env \<Rightarrow> u32 \<Rightarrow> u8 list \<Rightarrow> 'a line_world_scheme \<Rightarrow> int \<times> 'a line_world_scheme" where
  "call_restore E = prog_restore (ce_counter E) (ce_line E) (ce_snake E)"

text \<open>\<open>argc > i && !parse_u32(argv[i], &v)\<close>: None for an argument that is no number.\<close>

definition arg_u32 :: "nat \<Rightarrow> u32 \<Rightarrow> string list \<Rightarrow> u32 option" where
  "arg_u32 i v av = (if i < length av then parse_u32 (Some (av ! i)) else Some v)"

definition put_err :: "string \<Rightarrow> int \<Rightarrow> 'a con_world_scheme \<Rightarrow> 'a con_world_scheme" where
  "put_err msg rc w = con_print [Str msg, S32 rc, Str crlf] w"

section \<open>The inspector's decoder\<close>

text \<open>One entry of an envelope, as \<open>ckpt_decode_counter_state\<close> applies it; the loop that finds
  the next entry is the counter task's (\<open>env_pick\<close>).\<close>

definition ckpt_decode_op :: "restore_op \<Rightarrow> counter_state \<Rightarrow> counter_state option" where
  "ckpt_decode_op p s =
     (case (if op_op p = 1 then Some (ct_value s + op_operand p)
            else if op_op p = 2 then Some (if ct_value s > op_operand p then ct_value s - op_operand p else 1)
            else if op_op p = 3 then Some (ct_value s * op_operand p)
            else if op_op p = 4 then
              if op_operand p = 0 then None
              else Some (if ct_value s div op_operand p = 0 then 1 else ct_value s div op_operand p)
            else None) of
        None \<Rightarrow> None
      | Some v \<Rightarrow> Some (s\<lparr>ct_value := (if v > ct_limit s \<and> ct_limit s \<noteq> 0 then ct_limit s else v)\<rparr>))"

definition ckpt_decode_entry :: "env_entry \<Rightarrow> counter_state option \<Rightarrow> counter_state option option" where
  "ckpt_decode_entry e st =
     (if ee_entry_state e \<noteq> RESTORE_ENV_ENTRY_PENDING then Some st
      else if ee_action e = COUNTER_RESTORE_ACTION_SET_STATE
      then if ee_data_len e \<noteq> 16 then None
           else Some (Some ((bytes_counter_state (ee_data e))\<lparr>ct_step_pending := 0\<rparr>))
      else if ee_action e = COUNTER_RESTORE_ACTION_APPLY_OP
      then case st of None \<Rightarrow> None
           | Some s \<Rightarrow> if ee_data_len e \<noteq> 8 then None
                       else map_option Some (ckpt_decode_op (bytes_op (ee_data e)) s)
      else None)"

fun ckpt_decode_loop :: "nat \<Rightarrow> env_entry list \<Rightarrow> bool list \<Rightarrow> counter_state option \<Rightarrow> counter_state option option" where
  "ckpt_decode_loop 0 es consumed st = Some st"
| "ckpt_decode_loop (Suc n) es consumed st =
     (case env_pick es consumed of
        None \<Rightarrow> None
      | Some j \<Rightarrow>
          (case ckpt_decode_entry (es ! j) st of
             None \<Rightarrow> None
           | Some st' \<Rightarrow> ckpt_decode_loop n es (consumed[j := True]) st'))"

definition ckpt_decode_counter_state :: "u8 list option \<Rightarrow> u32 \<Rightarrow> int \<times> counter_state option" where
  "ckpt_decode_counter_state blobp len =
     (case blobp of None \<Rightarrow> (SCHED_ERR_PARAM, None)
      | Some blob \<Rightarrow>
          if len = 16 then (SCHED_OK, Some ((bytes_counter_state blob)\<lparr>ct_step_pending := 0\<rparr>))
          else if len < 376 then (SCHED_ERR_PARAM, None)
          else
            let h = bytes_env_header blob in
            if eh_magic h \<noteq> RESTORE_ENV_MAGIC \<or> eh_version h \<noteq> RESTORE_ENV_VERSION then (SCHED_ERR_PARAM, None)
            else if eh_program_id h \<noteq> AO_COUNTER then (SCHED_ERR_PARAM, None)
            else if eh_entry_count h = 0 \<or> eh_entry_count h > RESTORE_ENV_MAX_ENTRIES then (SCHED_ERR_PARAM, None)
            else if eh_read_idx h > eh_entry_count h \<or> eh_write_idx h > eh_entry_count h then (SCHED_ERR_PARAM, None)
            else
              let n = unat (eh_entry_count h) in
              case ckpt_decode_loop n (take n (env_entries blob)) (replicate n False) None of
                None \<Rightarrow> (SCHED_ERR_PARAM, None)
              | Some None \<Rightarrow> (SCHED_ERR_PARAM, None)
              | Some (Some s) \<Rightarrow> (SCHED_OK, Some (s\<lparr>ct_step_pending := 0\<rparr>)))"

section \<open>Preview\<close>

text \<open>What \<open>ckptpreview\<close> shows: the counters as the next save would count them, and the
  regions it would collect.\<close>

definition preview_life :: "u8 \<Rightarrow> 'a ckpt_world_scheme \<Rightarrow> u16 \<times> u16" where
  "preview_life tid w =
     (ckpt_count_bits (ckpt_launched w) (g_ckpt_launch_count w) ! unat tid,
      ckpt_count_bits (ckpt_exited w) (g_ckpt_exit_count w) ! unat tid)"

definition preview_region :: "'a ckpt_world_scheme \<Rightarrow> ckpt_item \<Rightarrow> item list" where
  "preview_region w k =
     (case preview_life (ki_task_id k) w of (launch, exit) \<Rightarrow>
        [Str ''  region id='', U32 (ucast (ki_task_id k)), Str '' ver='', U32 (ucast (ki_state_version k)), Str '' len='', U32 (ki_len k),
         Str '' launch='', U32 (ucast launch), Str '' exit='', U32 (ucast exit),
         Str '' restore='', Str (if launch > exit then ''yes'' else ''no''), Str crlf])"

definition preview_lifecycle :: "'a ckpt_world_scheme \<Rightarrow> ckpt_item list \<Rightarrow> nat \<Rightarrow> item list" where
  "preview_lifecycle w items i =
     (if list_ex (\<lambda>k. ki_task_id k = of_nat i) items then []
      else case preview_life (of_nat i) w of (launch, exit) \<Rightarrow>
        [Str ''  lifecycle id='', U32 (of_nat i), Str '' launch='', U32 (ucast launch), Str '' exit='', U32 (ucast exit),
         Str ('' restore=no (not active/no region)'' @ crlf)])"

definition preview_head :: "ckpt_item list \<Rightarrow> u32 \<Rightarrow> u32 \<Rightarrow> 'a ckpt_world_scheme \<Rightarrow> item list" where
  "preview_head items payload_bytes meta_len w =
     [Str ''ckptpreview: next_seq='', U32 (g_ckpt_sd_seq w), Str '' running_bitmap=0x'', Hex32 (ckpt_running_bitmap w),
      Str '' active_bitmap=0x'', Hex32 (ckpt_active_bitmap items), Str crlf,
      Str ''  regions='', U32 (of_nat (length items)), Str '' payload='', U32 payload_bytes, Str '' meta='', U32 meta_len,
      Str '' total='', U32 (ckpt_sd_payload_base + payload_bytes + meta_len), Str ''/'', U32 CKPT_SD_SLOT_BYTES, Str ('' bytes'' @ crlf)]"

definition term_ckpt_preview :: "cmd_env \<Rightarrow> 'a ckpt_world_scheme \<Rightarrow> 'a ckpt_world_scheme" where
  "term_ckpt_preview E w =
     (if \<not> g_sched w then con_puts (''ckptpreview: scheduler not ready'' @ crlf) w
      else
        let ids = ckpt_meta_ids w; meta_len = ckpt_meta_size (of_nat (length ids))
        in case ckpt_collect_restorable_regions (call_get E) (replicate 8192 0) CKPT_SD_SLOT_BYTES meta_len w of
             (buf, items, payload_bytes) \<Rightarrow>
               con_print (preview_head items payload_bytes meta_len w @ concat (map (preview_region w) items) @
                 concat (map (preview_lifecycle w items) ids)) (w\<lparr>g_ckpt_slot_buf := buf\<rparr>))"

section \<open>Commands on the card\<close>

definition cmd_ckptsave_sd :: "cmd_env \<Rightarrow> 'a ckpt_world_scheme \<Rightarrow> 'a ckpt_world_scheme" where
  "cmd_ckptsave_sd E w =
     (case terminal_ckpt_save_sd_once (call_get E) w of ((rc, out), w1) \<Rightarrow>
        if rc \<noteq> SCHED_OK
        then if rc = SCHED_ERR_NOT_FOUND then con_puts (''ckptsave_sd: no restorable regions'' @ crlf) w1
             else put_err ''ckptsave_sd: err='' rc w1
        else case (case out of None \<Rightarrow> (0, 0, 0, 0) | Some p \<Rightarrow> p) of (lba, slot, seq, regions) \<Rightarrow>
          con_print [Str ''ckptsave_sd: ok lba='', U32 lba, Str '' slot='', U32 slot, Str '' seq='', U32 seq,
            Str '' regions='', U32 regions, Str crlf] w1)"

text \<open>The interval of periodic saves: only the weak definitions of \<open>terminal_api_stub.c\<close> exist.\<close>

definition terminal_ckpt_set_interval_ms :: "u32 \<Rightarrow> 'a con_world_scheme \<Rightarrow> 'a con_world_scheme" where
  "terminal_ckpt_set_interval_ms ms w = w"

definition terminal_ckpt_get_interval_ms :: "'a con_world_scheme \<Rightarrow> u32" where
  "terminal_ckpt_get_interval_ms w = 0"

definition cmd_ckptint :: "string list \<Rightarrow> 'a con_world_scheme \<Rightarrow> 'a con_world_scheme" where
  "cmd_ckptint av w =
     (if length av < 2 then con_print [Str ''ckptint: '', U32 (terminal_ckpt_get_interval_ms w), Str ('' ms'' @ crlf)] w
      else if streq (av ! 1) ''off'' \<or> streq (av ! 1) ''0''
      then con_puts (''ckptint: off'' @ crlf) (terminal_ckpt_set_interval_ms 0 w)
      else case parse_u32 (Some (av ! 1)) of
        None \<Rightarrow> con_puts (''usage: ckptint <ms|off>'' @ crlf) w
      | Some ms \<Rightarrow>
          if ms = 0 then con_puts (''usage: ckptint <ms|off>'' @ crlf) w
          else let w1 = terminal_ckpt_set_interval_ms ms w in
            con_print [Str ''ckptint: on every '', U32 (terminal_ckpt_get_interval_ms w1), Str ('' ms'' @ crlf)] w1)"

definition put_counts :: "u32 \<times> u32 \<times> u32 \<Rightarrow> item list" where
  "put_counts c = (case c of (applied, skipped, failed) \<Rightarrow>
     [Str '' applied='', U32 applied, Str '' skipped='', U32 skipped, Str '' failed='', U32 failed])"

definition counts_of :: "(u32 \<times> u32 \<times> u32) option \<Rightarrow> u32 \<times> u32 \<times> u32" where
  "counts_of co = (case co of None \<Rightarrow> (0, 0, 0) | Some c \<Rightarrow> c)"

definition cmd_ckptload_sd :: "cmd_env \<Rightarrow> 'a ckpt_world_scheme \<Rightarrow> 'a ckpt_world_scheme" where
  "cmd_ckptload_sd E w =
     (case term_ckpt_load_latest_sd_internal (call_reg E) (call_restore E) (g_sched w) w of ((rc, out), w1) \<Rightarrow>
        if rc = SCHED_ERR_NOT_FOUND then con_puts (''ckptload_sd: no valid slot'' @ crlf) w1
        else case (case out of None \<Rightarrow> (None, 0, 0, 0) | Some p \<Rightarrow> p) of (counts, seq, lba, slot) \<Rightarrow>
          con_print ([Str ''ckptload_sd: rc='', S32 rc] @ put_counts (counts_of counts) @
            [Str '' lba='', U32 lba, Str '' slot='', U32 (ucast slot), Str '' seq='', U32 seq, Str crlf]) w1)"

section \<open>Inspection\<close>

text \<open>The lines of a region: its place, the counters of its task, the state it holds.\<close>

definition inspect_range :: "string \<Rightarrow> ckpt_region \<Rightarrow> item list" where
  "inspect_range name r = [Str (name @ ''_blob: invalid range off=''), U32 (rg_offset r), Str '' len='', U32 (rg_length r), Str crlf]"

definition inspect_undecoded :: "string \<Rightarrow> int \<Rightarrow> item list" where
  "inspect_undecoded name rc = [Str (name @ ''_blob: decode rc=''), S32 rc, Str crlf]"

definition inspect_counter :: "counter_state \<Rightarrow> item list" where
  "inspect_counter s = [Str ''    counter_state: active='', U32 (ucast (ct_active s)), Str '' bg='', U32 (ucast (ct_bg s)),
     Str '' value='', U32 (ct_value s), Str '' limit='', U32 (ct_limit s), Str crlf]"

definition inspect_line :: "line_state \<Rightarrow> item list" where
  "inspect_line s = [Str ''    line_state: ui='', U32 (ucast (ln_ui_mode s)), Str '' slot='', U32 (ucast (ln_selected_slot s)),
     Str '' home='', U32 (ucast (ln_robot_needs_home s)), Str '' fixture='', U32 (ucast (ln_fixture_slot s)),
     Str '' done='', U32 (ln_completed_count s), Str '' reject='', U32 (ln_rejected_count s), Str crlf]"

definition inspect_snake :: "snake_state \<Rightarrow> item list" where
  "inspect_snake s = [Str ''    snake_state: ui='', U32 (ucast (sn_ui_mode s)), Str '' score='', U32 (sn_score s),
     Str '' len='', U32 (ucast (sn_length s)), Str '' food='', U32 (ucast (sn_food_x s)), Chr (CHR '',''), U32 (ucast (sn_food_y s)),
     Str '' reason='', U32 (ucast (sn_game_over_reason s)), Str crlf]"

definition inspect_blob ::
  "string \<Rightarrow> (u8 list option \<Rightarrow> u32 \<Rightarrow> int \<times> 's option) \<Rightarrow> ('s \<Rightarrow> item list) \<Rightarrow> u8 list \<Rightarrow> u32 \<Rightarrow> ckpt_region \<Rightarrow> item list" where
  "inspect_blob name decode show_state blk len r =
     (if rg_offset r + rg_length r < rg_offset r \<or> rg_offset r + rg_length r > len then inspect_range name r
      else case decode (Some (drop (unat (rg_offset r)) blk)) (rg_length r) of
        (rc, so) \<Rightarrow>
          if rc \<noteq> SCHED_OK then inspect_undecoded name rc
          else case so of None \<Rightarrow> [] | Some s \<Rightarrow> show_state s)"

definition inspect_life :: "lifecycle_meta option \<Rightarrow> ckpt_region \<Rightarrow> item list" where
  "inspect_life meta r =
     (case meta of None \<Rightarrow> []
      | Some m \<Rightarrow>
        (case find (\<lambda>e. le_task_id e = ucast (rg_region_id r)) (lm_entries m) of
           None \<Rightarrow> []
         | Some e \<Rightarrow> [Str '' launch='', U32 (ucast (le_launch_count e)), Str '' exit='', U32 (ucast (le_exit_count e)),
             Str '' restore='', Str (if le_launch_count e \<le> le_exit_count e then ''no'' else ''yes'')]))"

definition inspect_region :: "u8 list \<Rightarrow> u32 \<Rightarrow> lifecycle_meta option \<Rightarrow> ckpt_region \<Rightarrow> item list" where
  "inspect_region blk len meta r =
     [Str ''  region id='', U32 (ucast (rg_region_id r)), Str '' ver='', U32 (ucast (rg_state_version r)), Str '' len='', U32 (rg_length r)] @
     inspect_life meta r @ [Str crlf] @
     (if (ucast (rg_region_id r) :: u8) = AO_COUNTER
      then inspect_blob ''    counter'' ckpt_decode_counter_state inspect_counter blk len r
      else if (ucast (rg_region_id r) :: u8) = AO_ASSEMBLY_LINE
      then inspect_blob ''    line'' assembly_line_task_decode_state_blob inspect_line blk len r
      else if (ucast (rg_region_id r) :: u8) = AO_SNAKE
      then inspect_blob ''    snake'' snake_task_decode_state_blob inspect_snake blk len r
      else [])"

definition inspect_report :: "ckpt_layout \<Rightarrow> ckpt_header \<Rightarrow> u8 list \<Rightarrow> item list" where
  "inspect_report l h blk =
     (let len = ckpt_sd_slot_bytes_from_layout l; meta = ckpt_load_meta h blk len in
      [Str ''ckptinspect: lba='', U32 (kl_lba l), Str '' slot='', U32 (ucast (kh_slot_id h)), Str '' fmt='', U32 (ucast (kh_format_version h)),
       Str '' seq='', U32 (kh_seq h), Str '' regions='', U32 (ucast (kh_region_count h)),
       Str '' active_bitmap=0x'', Hex32 (kh_active_task_bitmap h), Str '' bytes='', U32 len, Str crlf] @
      (case meta of None \<Rightarrow> [Str (''  meta: none'' @ crlf)]
       | Some m \<Rightarrow> [Str ''  meta: running_bitmap=0x'', Hex32 (lm_running_bitmap m), Str '' entries='', U32 (ucast (lm_entry_count m)), Str crlf]) @
      concat (map (\<lambda>i. inspect_region blk len meta (bytes_ckpt_region blk (64 + 16 * i))) [0..<unat (kh_region_count h)]))"

definition cmd_ckptinspect :: "'a ckpt_world_scheme \<Rightarrow> 'a ckpt_world_scheme" where
  "cmd_ckptinspect w =
     (case ckpt_sd_find_best_slot w of
        (None, w1) \<Rightarrow> con_puts (''ckptinspect: no valid slot'' @ crlf) w1
      | (Some (_, l), w1) \<Rightarrow>
          case ckpt_sd_read_valid_layout l w1 of
            (None, w2) \<Rightarrow> con_puts (''ckptinspect: no valid slot'' @ crlf) w2
          | (Some h, w2) \<Rightarrow> con_print (inspect_report l h (g_ckpt_slot_buf w2)) w2)"

section \<open>Corruption\<close>

text \<open>The slot as \<open>ckptcorrupt\<close> reads it: valid in its current or its legacy place, else
  whatever the current place holds; the outer None is a failed read, which is reported.\<close>

definition corrupt_read :: "u32 \<Rightarrow> 'a ckpt_world_scheme \<Rightarrow> ckpt_layout option \<times> 'a ckpt_world_scheme" where
  "corrupt_read slot w =
     (case ckpt_sd_read_valid_layout (ckpt_sd_make_current_layout slot) w of
        (Some h, w1) \<Rightarrow> (Some (ckpt_sd_make_current_layout slot), w1)
      | (None, w1) \<Rightarrow>
          case ckpt_sd_read_valid_layout (ckpt_sd_make_legacy_layout slot) w1 of
            (Some h, w2) \<Rightarrow> (Some (ckpt_sd_make_legacy_layout slot), w2)
          | (None, w2) \<Rightarrow>
              let l = ckpt_sd_make_current_layout slot in
              case sd_read_blocks (kl_lba l) (ucast (kl_block_count l)) w2 of ((rc, bs), w3) \<Rightarrow>
                let w4 = w3\<lparr>g_ckpt_slot_buf := buf_put 0 (concat bs) (g_ckpt_slot_buf w3)\<rparr> in
                if rc \<noteq> SD_OK
                then (None, con_print [Str ''ckptcorrupt: read err='', S32 rc, Str '' lba='', U32 (kl_lba l), Str crlf] w4)
                else (Some l, w4))"

definition corrupt_byte :: "nat \<Rightarrow> u8 list \<Rightarrow> u8 list" where
  "corrupt_byte off blk = blk[off := blk ! off XOR 0xA5]"

definition corrupt_write :: "u32 \<Rightarrow> ckpt_layout \<Rightarrow> 'a ckpt_world_scheme \<Rightarrow> 'a ckpt_world_scheme" where
  "corrupt_write slot l w =
     (let off = ckpt_sd_payload_base in
      if off \<ge> ckpt_sd_slot_bytes_from_layout l then con_puts (''ckptcorrupt: bad offset'' @ crlf) w
      else
        let w1 = w\<lparr>g_ckpt_slot_buf := corrupt_byte (unat off) (g_ckpt_slot_buf w)\<rparr>
        in case sd_write_blocks (kl_lba l) (ucast (kl_block_count l)) (Some (buf_blocks (g_ckpt_slot_buf w1))) w1 of (rc, w2) \<Rightarrow>
          if rc \<noteq> SD_OK
          then con_print [Str ''ckptcorrupt: write err='', S32 rc, Str '' stage='', U32 (sd_dbg_write_stage w2),
                 Str '' sta=0x'', Hex32 (sd_dbg_write_last_sta w2), Str crlf] w2
          else con_print [Str ''ckptcorrupt: ok slot='', U32 slot, Str '' lba='', U32 (kl_lba l), Str '' off='', U32 off, Str crlf] w2)"

definition cmd_ckptcorrupt :: "string list \<Rightarrow> 'a ckpt_world_scheme \<Rightarrow> 'a ckpt_world_scheme" where
  "cmd_ckptcorrupt av w =
     (case (if length av < 2 then None else parse_u32 (Some (av ! 1))) of
        None \<Rightarrow> con_puts (''usage: ckptcorrupt <slot:0|1>'' @ crlf) w
      | Some slot \<Rightarrow>
          if slot \<ge> CKPT_SD_SLOT_COUNT then con_puts (''usage: ckptcorrupt <slot:0|1>'' @ crlf) w
          else case corrupt_read slot w of
            (None, w1) \<Rightarrow> w1
          | (Some l, w1) \<Rightarrow> corrupt_write slot l w1)"

section \<open>The queue in memory\<close>

definition cmd_ckptq :: "'a res_world_scheme \<Rightarrow> 'a res_world_scheme" where
  "cmd_ckptq w =
     con_print [Str ''ckptq: pending='', U32 (restore_sim_pending w), Str '' gen='', U32 (restore_sim_generation w), Str crlf] w"

text \<open>\<open>counter_task_encode_restore_envelope(&st, ops, op_count, blob, &blob_len)\<close> with a buffer of the
  envelope's size, and the enqueuing of the blob.\<close>

definition encode_counter :: "cmd_env \<Rightarrow> counter_state \<Rightarrow> restore_op list \<Rightarrow> int \<times> (u8 list \<times> u32) option" where
  "encode_counter E st ops =
     counter_task_encode_restore_envelope (ce_pad E) (Some st) (if ops = [] then None else Some ops) (of_nat (length ops)) True (Some 376)"

definition enqueue_counter :: "(u8 list \<times> u32) option \<Rightarrow> 'a res_world_scheme \<Rightarrow> int \<times> 'a res_world_scheme" where
  "enqueue_counter out w =
     (case out of None \<Rightarrow> restore_sim_enqueue (ucast AO_COUNTER) 2 None 0 w
      | Some (blob, blob_len) \<Rightarrow> restore_sim_enqueue (ucast AO_COUNTER) 2 (Some blob) blob_len w)"

definition cmd_ckptsave :: "cmd_env \<Rightarrow> 'a line_world_scheme \<Rightarrow> 'a line_world_scheme" where
  "cmd_ckptsave E w =
     (let st = counter_task_get_state w; w1 = snd (restore_sim_reset w) in
      case encode_counter E st [] of (rc, out) \<Rightarrow>
        if rc \<noteq> SCHED_OK then put_err ''ckptsave: encode err='' rc w1
        else case enqueue_counter out w1 of (rc2, w2) \<Rightarrow>
          if rc2 \<noteq> SCHED_OK then put_err ''ckptsave: enqueue err='' rc2 w2
          else con_print [Str ''ckptsave: ok value='', U32 (ct_value st), Str '' limit='', U32 (ct_limit st),
                 Str '' pending='', U32 (restore_sim_pending w2), Str crlf] w2)"

text \<open>\<open>ops[0 .. op_count)\<close>: a multiplication and a division, each only by more than one.\<close>

definition mul_div_ops :: "u32 \<Rightarrow> u32 \<Rightarrow> restore_op list" where
  "mul_div_ops m d =
     (if m > 1 then [\<lparr> op_op = 3, op_reserved = [0, 0, 0], op_operand = m \<rparr>] else []) @
     (if d > 1 then [\<lparr> op_op = 4, op_reserved = [0, 0, 0], op_operand = d \<rparr>] else [])"

definition cmd_ckptsaveop :: "cmd_env \<Rightarrow> string list \<Rightarrow> 'a line_world_scheme \<Rightarrow> 'a line_world_scheme" where
  "cmd_ckptsaveop E av w =
     (if length av < 3 then con_puts (''usage: ckptsaveop <mul> <div>'' @ crlf) w
      else case (parse_u32 (Some (av ! 1)), parse_u32 (Some (av ! 2))) of
        (Some m, Some d) \<Rightarrow>
          (let ops = mul_div_ops m d in
           case encode_counter E (counter_task_get_state w) ops of (rc, out) \<Rightarrow>
             if rc \<noteq> SCHED_OK then put_err ''ckptsaveop: encode err='' rc w
             else case enqueue_counter out (snd (restore_sim_reset w)) of (rc2, w2) \<Rightarrow>
               if rc2 \<noteq> SCHED_OK then put_err ''ckptsaveop: enqueue err='' rc2 w2
               else con_print [Str ''ckptsaveop: ok ops='', U32 (of_nat (length ops)), Str '' pending='',
                      U32 (restore_sim_pending w2), Str crlf] w2)
      | _ \<Rightarrow> con_puts (''ckptsaveop: bad args'' @ crlf) w)"

text \<open>\<open>restore_sim_apply\<close> and the report of its counters; \<open>pre\<close> is what is printed first.\<close>

definition sim_apply_report :: "cmd_env \<Rightarrow> item list \<Rightarrow> 'a line_world_scheme \<Rightarrow> 'a line_world_scheme" where
  "sim_apply_report E pre w =
     (case restore_sim_apply (call_reg E) (call_restore E) (g_sched w) w of ((rc, out), w1) \<Rightarrow>
        con_print (pre @ [S32 rc] @ put_counts (counts_of out) @ [Str crlf]) w1)"

definition counter_report :: "bool \<Rightarrow> counter_state \<Rightarrow> item list" where
  "counter_report with_active st =
     (if with_active then [Str ''counter state: active='', U32 (ucast (ct_active st)), Str '' value=''] else [Str ''counter state: value='']) @
     [U32 (ct_value st), Str '' limit='', U32 (ct_limit st), Str '' bg='', U32 (ucast (ct_bg st)), Str crlf]"

definition cmd_ckptload :: "cmd_env \<Rightarrow> 'a line_world_scheme \<Rightarrow> 'a line_world_scheme" where
  "cmd_ckptload E w =
     (let w1 = sim_apply_report E [Str ''ckptload: rc=''] w
      in con_print (counter_report True (counter_task_get_state w1)) w1)"

section \<open>Simulated restores\<close>

definition sim_state :: "u32 \<Rightarrow> u32 \<Rightarrow> u32 \<Rightarrow> u32 \<Rightarrow> counter_state" where
  "sim_state limit0 value0 bg tick =
     (let limit = (if limit0 = 0 then 1 else limit0);
          value1 = (if value0 = 0 then 1 else value0);
          v = (if value1 > limit then limit else value1)
      in \<lparr> ct_active = 1, ct_bg = ucast (bg AND 1), ct_step_pending = 0, ct_limit = limit, ct_value = v, ct_next_tick = tick + 10 \<rparr>)"

definition cmd_restoresim :: "cmd_env \<Rightarrow> string list \<Rightarrow> 'a line_world_scheme \<Rightarrow> 'a line_world_scheme" where
  "cmd_restoresim E av w =
     (case arg_u32 1 50 av of None \<Rightarrow> con_puts (''restoresim: bad limit'' @ crlf) w
      | Some limit \<Rightarrow>
      case arg_u32 2 25 av of None \<Rightarrow> con_puts (''restoresim: bad value'' @ crlf) w
      | Some v \<Rightarrow>
      case arg_u32 3 0 av of None \<Rightarrow> con_puts (''restoresim: bad bg'' @ crlf) w
      | Some bg \<Rightarrow>
        let w1 = snd (restore_sim_reset w) in
        case encode_counter E (sim_state limit v bg (systick_now w)) [] of (rc, out) \<Rightarrow>
          if rc \<noteq> SCHED_OK then put_err ''restoresim: encode err='' rc w1
          else case enqueue_counter out w1 of (rc2, w2) \<Rightarrow>
            if rc2 \<noteq> SCHED_OK then put_err ''restoresim: enqueue err='' rc2 w2
            else case restore_sim_enqueue (ucast AO_TERMINAL) 0 None 0 w2 of (rc3, w3) \<Rightarrow>
              if rc3 \<noteq> SCHED_OK then put_err ''restoresim: enqueue2 err='' rc3 w3
              else let w4 = sim_apply_report E [Str ''restoresim: rc=''] w3
                in con_print (counter_report True (counter_task_get_state w4)) w4)"

definition cmd_restoresimop :: "cmd_env \<Rightarrow> string list \<Rightarrow> 'a line_world_scheme \<Rightarrow> 'a line_world_scheme" where
  "cmd_restoresimop E av w =
     (if length av < 5 then con_puts (''usage: restoresimop <limit> <value> <mul> <div> [bg]'' @ crlf) w
      else case (parse_u32 (Some (av ! 1)), parse_u32 (Some (av ! 2)), parse_u32 (Some (av ! 3)), parse_u32 (Some (av ! 4))) of
        (Some limit, Some v, Some m, Some d) \<Rightarrow>
          (case arg_u32 5 0 av of None \<Rightarrow> con_puts (''restoresimop: bad bg'' @ crlf) w
           | Some bg \<Rightarrow>
             case encode_counter E (sim_state limit v bg (systick_now w)) (mul_div_ops m d) of (rc, out) \<Rightarrow>
               if rc \<noteq> SCHED_OK then put_err ''restoresimop: encode err='' rc w
               else case enqueue_counter out (snd (restore_sim_reset w)) of (rc2, w2) \<Rightarrow>
                 if rc2 \<noteq> SCHED_OK then put_err ''restoresimop: enqueue err='' rc2 w2
                 else let w3 = sim_apply_report E [Str ''restoresimop: rc=''] w2
                   in con_print (counter_report False (counter_task_get_state w3)) w3)
      | _ \<Rightarrow> con_puts (''restoresimop: bad args'' @ crlf) w)"

text \<open>The damage \<open>restoresimbad\<close> does to the blob: the version of the header, and action, length or
  operation of the second entry, which starts at byte 68.\<close>

definition spoil :: "string \<Rightarrow> u8 list \<Rightarrow> u8 list option" where
  "spoil mode blob =
     (if streq mode ''ver'' then Some (buf_put 4 (u16_bytes (u16_at blob 4 + 1)) blob)
      else if streq mode ''action'' then Some (buf_put 72 (u16_bytes 0xFFFF) blob)
      else if streq mode ''div0'' then Some (buf_put 84 (u32_bytes 0) (buf_put 80 [4] blob))
      else if streq mode ''len'' then Some (buf_put 76 (u16_bytes 7) blob)
      else None)"

definition cmd_restoresimbad :: "cmd_env \<Rightarrow> string list \<Rightarrow> 'a line_world_scheme \<Rightarrow> 'a line_world_scheme" where
  "cmd_restoresimbad E av w =
     (let mode = (if length av \<ge> 2 then av ! 1 else ''ver'');
          st = \<lparr> ct_active = 1, ct_bg = 0, ct_step_pending = 0, ct_limit = 100, ct_value = 10, ct_next_tick = systick_now w + 10 \<rparr>
      in case encode_counter E st [\<lparr> op_op = 3, op_reserved = [0, 0, 0], op_operand = 3 \<rparr>] of
           (rc, None) \<Rightarrow> put_err ''restoresimbad: encode err='' rc w
         | (rc, Some (blob, blob_len)) \<Rightarrow>
             if rc \<noteq> SCHED_OK then put_err ''restoresimbad: encode err='' rc w
             else case spoil mode blob of
               None \<Rightarrow> con_puts (''restoresimbad: mode must be ver|action|div0|len'' @ crlf) w
             | Some bad \<Rightarrow>
                 case enqueue_counter (Some (bad, blob_len)) (snd (restore_sim_reset w)) of (rc2, w2) \<Rightarrow>
                   if rc2 \<noteq> SCHED_OK then put_err ''restoresimbad: enqueue err='' rc2 w2
                   else sim_apply_report E [Str ''restoresimbad: mode='', Str mode, Str '' rc=''] w2)"

end
