(* ===== verification/Commands.thy ===== *)
theory Commands
  imports Parse Snap_List Ckpt_Commands
begin

text \<open>
  The command interpreter, \<open>term_execute\<close> of \<open>terminal.c\<close>: the line is split into at
  most eight words in place, and the first names the command.  A command prints to
  the console and calls the operations of the other components; each is a
  definition here or in the theory of its component.  A command can return, reset the
  machine, put it into standby, or never end.
\<close>

datatype 'w cmd_end = Returns 'w | Resets 'w | Standby 'w

section \<open>System commands\<close>

definition cmd_help :: "'a con_world_scheme \<Rightarrow> 'a con_world_scheme" where
  "cmd_help w = con_print (map (\<lambda>s. Str (s @ crlf))
    [[],
     ''  System'',
     ''    clear             Clear terminal screen'',
     ''    reboot            Reboot system'',
     ''    shutdown          Enter low-power standby'',
     ''    uptime            Show uptime'',
     ''    ticks             Show tick count'',
     ''    ps                Show active tasks'',
     ''    kill <task>       Remove task by id or name'',
     ''    counter [n]       Run simple counter program'',
     ''    snapnow           Trigger snapshot now'',
     ''    snapstat          Show snapshot task status'',
     ''    snapls            List snapshot slots + target'',
     ''    line              Run assembly line simulator (fg only)'',
     ''    snake             Run snake game (fg only)'',
     ''    snapnow           Trigger snapshot now'',
     ''    snapstat          Show snapshot task status'',
     ''    snapls            List snapshot slots + target'',
     ''    Ctrl-C            Kill foreground input owner'',
     [],
     ''  SD Card'',
     ''    sdinit            Initialize SD card'',
     ''    sdinfo            Show card info'',
     ''    sdtest            Init + read test'',
     ''    sdread <lba> [n]  Read blocks (n<=4)'',
     ''    sdaread <lba>     Async read one block'',
     ''    sddetect          Check card presence'',
     ''    sdwrite0          Write test block to fixed LBA'',
     ''    sdread0cmp        Read+verify fixed test block'',
     ''    ckptsave_sd       Save current checkpoint to SD slot storage'',
     ''    ckptload_sd       Load latest valid SD checkpoint'',
     ''    ckptinspect       Inspect latest valid SD checkpoint metadata'',
     ''    ckptpreview       Dry-run what next SD checkpoint would contain'',
     ''    ckptcorrupt <slot> Corrupt SD checkpoint slot 0 or 1 (debug)'',
     ''    ckptint <ms|off>  Configure periodic SD checkpoint save'',
     ''    autockpt <ms|off> Legacy alias for ckptint'',
     [],
     ''  Debug'',
     ''    md <addr> [n]     Memory dump'',
     ''    echo <text>       Echo text'',
     ''    logcat            Drain background log'',
     ''    sdmmcdump         Dump SDMMC registers'',
     ''    sderror           Show SD error details'',
     ''    sdreset           Reset SD hardware state'',
     ''    restorestat       Show restore loader/registry stats'',
     ''    ckptsave          Save counter state to in-memory ckpt queue'',
     ''    ckptsaveop <mul> <div>  Save counter state+ops to in-memory ckpt queue'',
     ''    ckptload          Load counter state from in-memory ckpt queue'',
     ''    ckptq             Show in-memory ckpt queue stats'',
     ''    restoresim [limit] [value] [bg]  Simulate in-memory restore blob'',
     ''    restoresimop <limit> <value> <mul> <div> [bg]  Simulate ordered ops restore'',
     ''    restoresimbad [ver|action|div0|len]  Simulate invalid restore blob'',
     []]) w"

text \<open>The arguments from the second word on, with a blank between two of them.\<close>

definition cmd_echo :: "string list \<Rightarrow> 'a con_world_scheme \<Rightarrow> 'a con_world_scheme" where
  "cmd_echo av w =
     con_print (concat (map (\<lambda>i. Str (av ! i) # (if i + 1 < length av then [Chr (CHR '' '')] else [])) [1..<length av]) @ [Str crlf]) w"

definition cmd_clear :: "'a con_world_scheme \<Rightarrow> 'a con_world_scheme" where
  "cmd_clear w = con_puts ([CHR 0x1B] @ ''[2J'' @ [CHR 0x1B] @ ''[H'') w"

text \<open>\<open>while (!uart_tx_done()) wfi\<close>: every interrupt that ends the wait is one of the transmitter.\<close>

partial_function (option) uart_wait_tx :: "'a uart_world_scheme \<Rightarrow> 'a uart_world_scheme option" where
  "uart_wait_tx w =
     (if uart_tx_done w then Some w else uart_wait_tx (USART6_IRQHandler (USART_ISR_TXE OR USART_ISR_TC) 0 w))"

definition cmd_reboot :: "'a sdt_world_scheme \<Rightarrow> 'a sdt_world_scheme cmd_end option" where
  "cmd_reboot w =
     map_option (\<lambda>w1. Resets ((uart_puts (''rebooting...'' @ crlf) w1)\<lparr>sdmmc_irq_enabled := False, sdmmc_mask := 0, sdmmc_dctrl := 0\<rparr>))
       (uart_wait_tx w)"

definition shutdown_now :: "'a sdt_world_scheme \<Rightarrow> 'a sdt_world_scheme option" where
  "shutdown_now w =
     uart_wait_tx (if uc_tx_buf (g_uart_ctx w) = None
                   then kernel_panic ''shutdown: uart not initialised'' ''shutdown.c'' 35 w else w)"

definition cmd_shutdown :: "'a sdt_world_scheme \<Rightarrow> 'a sdt_world_scheme cmd_end option" where
  "cmd_shutdown w =
     (case uart_wait_tx w of None \<Rightarrow> None
      | Some w1 \<Rightarrow> map_option Standby (shutdown_now (uart_puts (''halted.'' @ crlf) w1)))"

definition cmd_ticks :: "'a con_world_scheme \<Rightarrow> 'a con_world_scheme" where
  "cmd_ticks w = con_print [Str ''ticks='', U32 (systick_now w), Str crlf] w"

abbreviation (input) TICKS_PER_SEC :: u32 where "TICKS_PER_SEC \<equiv> 1000"

definition cmd_uptime :: "'a con_world_scheme \<Rightarrow> 'a con_world_scheme" where
  "cmd_uptime w =
     (let ms = (systick_now w * 1000) div TICKS_PER_SEC in con_print [Str ''uptime_ms='', U32 ms, Str crlf] w)"

section \<open>Tasks\<close>

text \<open>A field of a row of \<open>ps\<close>: text or number, then blanks up to the width, never past \<open>cap\<close>.\<close>

definition ps_pad :: "nat \<Rightarrow> nat \<Rightarrow> string \<Rightarrow> string" where
  "ps_pad cap n row = row @ replicate (min n (cap - length row)) (CHR '' '')"

definition ps_str_pad :: "nat \<Rightarrow> string \<Rightarrow> nat \<Rightarrow> string \<Rightarrow> string" where
  "ps_str_pad cap s width row =
     (let copied = take (cap - length row) s in ps_pad cap (width - length copied) (row @ copied))"

definition ps_u32_pad :: "nat \<Rightarrow> u32 \<Rightarrow> nat \<Rightarrow> string \<Rightarrow> string" where
  "ps_u32_pad cap v width row =
     (let digits = (if v = 0 then ''0'' else swap_ends (u32_digits 10 v))
      in ps_pad cap (width - length digits) (row @ take (cap - length row) digits))"

definition ps_row :: "ao \<Rightarrow> string" where
  "ps_row a =
     (let cap = 77 in
      (ps_u32_pad cap (q_dropped (ao_q a)) 8 (ps_u32_pad cap (ao_events_handled a) 9 (ps_u32_pad cap (ucast (q_cap (ao_q a))) 6
         (ps_u32_pad cap (ucast (q_count (ao_q a))) 6 (ps_u32_pad cap (ucast (ao_prio a)) 6 (ps_u32_pad cap (ucast (ao_id a)) 4
           (ps_str_pad cap (case ao_name a of Some s \<Rightarrow> s | None \<Rightarrow> ''?'') 12 []))))))) @ crlf)"

definition cmd_ps :: "'a con_world_scheme \<Rightarrow> 'a con_world_scheme" where
  "cmd_ps w =
     foldl (\<lambda>v i. case sc_table w ! i of None \<Rightarrow> v | Some k \<Rightarrow> con_puts (ps_row (g_task_aos w ! k)) v)
       (con_puts (''NAME        ID  PRIO  QLEN  QCAP  HANDLED  DROPPED'' @ crlf) w) [0..<SCHED_MAX_AO]"

definition cmd_kill :: "string list \<Rightarrow> 'a term_world_scheme \<Rightarrow> 'a term_world_scheme" where
  "cmd_kill av w =
     (if \<not> g_sched w then kernel_panic ''kill: scheduler not bound'' ''terminal.c'' 1450 w
      else if length av < 2 then con_puts (''usage: kill <task-id|name>'' @ crlf) w
      else case term_find_task_id (av ! 1) w of
        None \<Rightarrow> con_puts (''kill: task not found'' @ crlf) w
      | Some aid \<Rightarrow>
          case term_kill_task aid w of ((rc, name), w1) \<Rightarrow>
            if rc \<noteq> SCHED_OK
            then if rc = SCHED_ERR_DISABLED then con_puts (''kill: protected task'' @ crlf) w1
                 else put_err ''kill: err='' rc w1
            else con_print [Str ''killed '', Str (case name of Some s \<Rightarrow> if s \<noteq> [] then s else ''(unnamed)'' | None \<Rightarrow> ''(unnamed)''),
                   Str '' id='', U32 (ucast aid), Str crlf] w1)"

text \<open>A program is registered, then asked to start; either can fail.\<close>

definition start_program ::
  "string \<Rightarrow> ('w \<Rightarrow> int \<times> 'a con_world_scheme) \<Rightarrow> ('a con_world_scheme \<Rightarrow> int \<times> 'a con_world_scheme) \<Rightarrow> 'w \<Rightarrow> 'a con_world_scheme" where
  "start_program name register request w =
     (case register w of (rc, w1) \<Rightarrow>
        if rc \<noteq> SCHED_OK then put_err (name @ '': start err='') rc w1
        else case request w1 of (rc2, w2) \<Rightarrow>
          if rc2 \<noteq> SCHED_OK then put_err (name @ '': queue err='') rc2 w2 else w2)"

definition cmd_counter :: "cmd_env \<Rightarrow> string list \<Rightarrow> 'a line_world_scheme \<Rightarrow> 'a line_world_scheme" where
  "cmd_counter E av w =
     (case arg_u32 1 10 av of None \<Rightarrow> con_puts (''counter: bad n'' @ crlf) w
      | Some limit \<Rightarrow>
          let l = ce_counter E in
          start_program ''counter'' (counter_task_register (tl_dispatch l) (tl_ctx l) (tl_queue l) (g_sched w))
            (counter_task_request_start limit) w)"

definition cmd_line :: "cmd_env \<Rightarrow> 'a line_world_scheme \<Rightarrow> 'a line_world_scheme" where
  "cmd_line E w =
     (if g_cmd_bg_ctx w \<noteq> 0 then con_puts (''line: fg only'' @ crlf) w
      else let l = ce_line E in
        start_program ''line'' (assembly_line_task_register (tl_dispatch l) (tl_ctx l) (tl_queue l) (g_sched w))
          assembly_line_task_request_start w)"

definition cmd_snake :: "cmd_env \<Rightarrow> 'a line_world_scheme \<Rightarrow> 'a line_world_scheme" where
  "cmd_snake E w =
     (if g_cmd_bg_ctx w \<noteq> 0 then con_puts (''snake: fg only'' @ crlf) w
      else let l = ce_snake E in
        start_program ''snake'' (snake_task_register (tl_dispatch l) (tl_ctx l) (tl_queue l) (g_sched w))
          snake_task_request_start w)"

section \<open>Snapshots\<close>

text \<open>A request whose refusal is printed with its code.\<close>

definition request_or_err :: "string \<Rightarrow> ('w \<Rightarrow> int \<times> 'a con_world_scheme) \<Rightarrow> 'w \<Rightarrow> 'a con_world_scheme" where
  "request_or_err msg request w = (case request w of (rc, w1) \<Rightarrow> if rc \<noteq> SCHED_OK then put_err msg rc w1 else w1)"

definition cmd_snapnow :: "'a snap_world_scheme \<Rightarrow> 'a snap_world_scheme" where
  "cmd_snapnow w = request_or_err ''snapnow: err='' snapshot_task_request_now w"

definition cmd_snapstat :: "'a snap_world_scheme \<Rightarrow> 'a snap_world_scheme" where
  "cmd_snapstat w =
     (let s = snapshot_task_get_stats w in
      con_print
        [Str ''snapshot enabled='', U32 (ucast (sg_enabled s)), Str '' busy='', U32 (ucast (sg_busy s)),
         Str '' restore_mode='', U32 (ucast (sg_restore_mode s)), Str '' restore_candidate='', U32 (ucast (sg_restore_has_candidate s)),
         Str '' interval_s='', U32 (sg_interval_s s), Str crlf,
         Str ''restore slot='', U32 (sg_restore_slot s), Str '' seq='', U32 (sg_restore_seq s), Str crlf,
         Str ''last err='', S32 (sg_last_err s), Str '' slot='', U32 (sg_last_slot s), Str '' seq='', U32 (sg_last_seq s), Str crlf,
         Str ''last capture_tick='', U32 (sg_last_capture_tick s), Str '' ready_bitmap=0x'', Hex32 (sg_last_ready_bitmap s), Str crlf,
         Str ''totals ok='', U32 (sg_saves_ok s), Str '' err='', U32 (sg_saves_err s), Str '' next_tick='', U32 (sg_next_tick s), Str crlf] w)"

definition cmd_snapls :: "cmd_env \<Rightarrow> 'a snap_world_scheme \<Rightarrow> 'a snap_world_scheme" where
  "cmd_snapls E w =
     (case snapshot_task_list_slots w of (rc, w1) \<Rightarrow>
        if rc \<noteq> SCHED_OK
        then con_print [Str ''snapls: err='', S32 rc, Str '' cmd='', Hex32 (ce_last_cmd E), Str '' sta='', Hex32 (ce_last_sta E), Str crlf] w1
        else w1)"

section \<open>Memory and log\<close>

text \<open>A word of memory: its address and its contents.\<close>

definition md_row :: "(u32 \<Rightarrow> u32) \<Rightarrow> u32 \<Rightarrow> nat \<Rightarrow> item list" where
  "md_row peek addr i = (let a = addr + of_nat i * 4 in [Hex32 a, Str '': '', Hex32 (peek a), Str crlf])"

definition md_count :: "u32 \<Rightarrow> u32" where
  "md_count n0 = (let n = (if n0 = 0 then 1 else n0) in if n > 64 then 64 else n)"

definition cmd_md :: "cmd_env \<Rightarrow> string list \<Rightarrow> 'a con_world_scheme \<Rightarrow> 'a con_world_scheme" where
  "cmd_md E av w =
     (if length av < 2 then con_puts (''usage: md <addr> [n]'' @ crlf) w
      else case parse_u32 (Some (av ! 1)) of None \<Rightarrow> con_puts (''md: bad addr'' @ crlf) w
      | Some addr \<Rightarrow>
      case arg_u32 2 1 av of None \<Rightarrow> con_puts (''md: bad n'' @ crlf) w
      | Some n \<Rightarrow> con_print (concat (map (md_row (ce_peek E) addr) [0..<unat (md_count n)])) w)"

text \<open>The loop of \<open>logcat\<close>: the argument \<open>seen\<close> says whether anything was read.\<close>

partial_function (option) logcat_loop :: "bool \<Rightarrow> 'a con_world_scheme \<Rightarrow> (bool \<times> 'a con_world_scheme) option" where
  "logcat_loop seen w =
     (case log_read True 64 (w_log w) of ((n, buf), l) \<Rightarrow>
        if n = 0 then Some (seen, w\<lparr>w_log := l\<rparr>)
        else logcat_loop True (snd (console_write (Some buf) n (w\<lparr>w_log := l\<rparr>))))"

definition cmd_logcat :: "'a con_world_scheme \<Rightarrow> 'a con_world_scheme option" where
  "cmd_logcat w =
     (case logcat_loop False w of None \<Rightarrow> None
      | Some (seen, w1) \<Rightarrow> Some (if \<not> seen then con_puts (''(log empty)'' @ crlf) w1 else w1))"

section \<open>Card\<close>

definition cmd_sdinit :: "'a ckpt_world_scheme \<Rightarrow> 'a ckpt_world_scheme" where
  "cmd_sdinit w =
     (if \<not> sd_detected w then con_puts (''sd: not present'' @ crlf) w
      else case sd_init w of (rc, w1) \<Rightarrow>
        if rc = SD_OK then con_puts (''sdinit: ok'' @ crlf) ((sd_async_init w1)\<lparr>g_ckpt_sd_seq_seeded := False\<rparr>)
        else put_err ''sdinit: err='' rc (sd_async_init w1))"

definition sd_print_info :: "cmd_env \<Rightarrow> 'a con_world_scheme \<Rightarrow> 'a con_world_scheme" where
  "sd_print_info E w =
     (if \<not> g_sd_initialized w then con_puts (''sd not initialized'' @ crlf) w
      else con_print [Str ''rca='', Hex32 (ce_rca E), Str '' ocr='', Hex32 (ce_ocr E), Str crlf,
             Str ''capacity='', U32 (g_sd_capacity w div 2048), Str ''MB hc='', U32 (ucast (g_sd_high_capacity w)),
             Str '' bus='', U32 (ce_bus_width E), Str (''bit'' @ crlf)] w)"

definition cmd_sddetect :: "'a con_world_scheme \<Rightarrow> 'a con_world_scheme" where
  "cmd_sddetect w = con_puts ((if sd_detected w then ''sd: present'' else ''sd: not present'') @ crlf) w"

definition cmd_sdtest :: "'a sdt_world_scheme \<Rightarrow> 'a sdt_world_scheme" where
  "cmd_sdtest w = request_or_err ''sdtest: queue err='' sd_task_request_test w"

definition cmd_sdread :: "string list \<Rightarrow> 'a sdt_world_scheme \<Rightarrow> 'a sdt_world_scheme" where
  "cmd_sdread av w =
     (if length av < 2 then con_puts (''usage: sdread <lba> [count]'' @ crlf) w
      else case parse_u32 (Some (av ! 1)) of None \<Rightarrow> con_puts (''sdread: bad lba'' @ crlf) w
      | Some lba \<Rightarrow>
      case arg_u32 2 1 av of None \<Rightarrow> con_puts (''sdread: bad count'' @ crlf) w
      | Some count \<Rightarrow>
          request_or_err ''sdread: queue err='' (sd_task_request_read_dump lba (if count = 0 then 1 else count)) w)"

definition cmd_sdaread :: "string list \<Rightarrow> 'a sdt_world_scheme \<Rightarrow> 'a sdt_world_scheme" where
  "cmd_sdaread av w =
     (if length av < 2 then con_puts (''usage: sdaread <lba>'' @ crlf) w
      else case parse_u32 (Some (av ! 1)) of None \<Rightarrow> con_puts (''sdaread: bad lba'' @ crlf) w
      | Some lba \<Rightarrow> request_or_err ''sdaread: queue err='' (sd_task_request_read_dump lba 1) w)"

abbreviation (input) SDWRITE_TEST_LBA :: u32 where "SDWRITE_TEST_LBA \<equiv> 2048"

definition sdwrite_test_block :: block where
  "sdwrite_test_block =
     map byte_of ''RWOSTEST'' @ map (\<lambda>i. ucast ((of_nat i * 13 + 7 :: u32) AND 0xFF)) [8..<512]"

definition cmd_sdwrite0 :: "'a snap_world_scheme \<Rightarrow> 'a snap_world_scheme" where
  "cmd_sdwrite0 w =
     (case sd_write_blocks SDWRITE_TEST_LBA 1 (Some [sdwrite_test_block]) w of (rc, w1) \<Rightarrow>
        if rc \<noteq> SD_OK
        then con_print [Str ''sdwrite0: err='', S32 rc, Str '' stage='', U32 (sd_dbg_write_stage w1),
               Str '' sta=0x'', Hex32 (sd_dbg_write_last_sta w1), Str crlf] w1
        else con_print [Str ''sdwrite0: ok lba='', U32 SDWRITE_TEST_LBA, Str crlf] w1)"

definition cmd_sdread0cmp :: "'a snap_world_scheme \<Rightarrow> 'a snap_world_scheme" where
  "cmd_sdread0cmp w =
     (case sd_read_blocks SDWRITE_TEST_LBA 1 w of ((rc, bs), w1) \<Rightarrow>
        if rc \<noteq> SD_OK then put_err ''sdread0cmp: read err='' rc w1
        else case find (\<lambda>i. hd bs ! i \<noteq> sdwrite_test_block ! i) [0..<512] of
          Some i \<Rightarrow> con_print [Str ''sdread0cmp: mismatch at '', U32 (of_nat i), Str '' got=0x'', Hex8 (hd bs ! i),
                     Str '' exp=0x'', Hex8 (sdwrite_test_block ! i), Str crlf] w1
        | None \<Rightarrow> con_print [Str ''sdread0cmp: ok lba='', U32 SDWRITE_TEST_LBA, Str crlf] w1)"

definition cmd_sdmmcdump :: "cmd_env \<Rightarrow> 'a con_world_scheme \<Rightarrow> 'a con_world_scheme" where
  "cmd_sdmmcdump E w =
     con_print (Str (''SDMMC Registers:'' @ crlf) #
       concat (map (\<lambda>(name, v). [Str (name @ ''=0x''), Hex32 v, Str crlf])
         [(''POWER'', ce_peek E 0x40012C00), (''CLKCR'', ce_peek E 0x40012C04), (''DCTRL'', sdmmc_dctrl w),
          (''DLEN'', ce_peek E 0x40012C28), (''DTIMER'', ce_peek E 0x40012C24), (''STA'', ce_peek E 0x40012C34),
          (''MASK'', sdmmc_mask w), (''FIFOCNT'', ce_peek E 0x40012C48)])) w"

fun drv_status_code :: "drv_status \<Rightarrow> u32" where
  "drv_status_code DRV_IDLE = 0"
| "drv_status_code DRV_IN_PROGRESS = 1"
| "drv_status_code DRV_COMPLETE = 2"
| "drv_status_code DRV_ERROR = 3"

fun sd_operation_code :: "sd_operation \<Rightarrow> u32" where
  "sd_operation_code SD_OP_NONE = 0"
| "sd_operation_code SD_OP_READ = 1"
| "sd_operation_code SD_OP_WRITE = 2"

definition sderror_flags :: "u32 \<Rightarrow> item list" where
  "sderror_flags d =
     (if d = 0 then []
      else Str ''Flags: '' #
        map (\<lambda>(n, name). Str name) (filter (\<lambda>(n, name). bit d n)
          [(1, ''DCRCFAIL ''), (3, ''DTIMEOUT ''), (5, ''RXOVERR ''), (8, ''DATAEND ''), (21, ''RXDAVL '')]) @ [Str crlf])"

definition cmd_sderror :: "cmd_env \<Rightarrow> 'a con_world_scheme \<Rightarrow> 'a con_world_scheme" where
  "cmd_sderror E w =
     (let c = g_sd_ctx w in
      con_print
        ([Str (''SD Context:'' @ crlf),
          Str ''last_error='', S32 (g_sd_last_error w), Str crlf,
          Str ''last_cmd=0x'', Hex32 (ce_last_cmd E), Str crlf,
          Str ''last_sta=0x'', Hex32 (ce_last_sta E), Str crlf,
          Str ''error_code='', S32 (ctx_error_code c), Str crlf,
          Str ''error_detail=0x'', Hex32 (ctx_error_detail c), Str crlf,
          Str ''status='', U32 (drv_status_code (ctx_status c)), Str crlf,
          Str ''operation='', U32 (sd_operation_code (ctx_operation c)), Str crlf,
          Str ''wait_ready_calls='', U32 (ce_wait_calls E), Str crlf,
          Str ''wait_ready_ok='', U32 (ce_wait_ok E), Str crlf,
          Str ''wait_ready_timeout='', U32 (ce_wait_timeout E), Str crlf,
          Str ''wait_ready_failfast='', U32 (ce_wait_fail_fast E), Str crlf] @ sderror_flags (ctx_error_detail c)) w)"

definition cmd_sdreset :: "'a con_world_scheme \<Rightarrow> 'a con_world_scheme" where
  "cmd_sdreset w = con_puts (''SD hardware state reset'' @ crlf) (sd_async_init w)"

definition restore_class_name :: "u8 \<Rightarrow> string" where
  "restore_class_name c =
     (if c = TASK_CLASS_RESTORABLE_NOW then ''restorable'' else if c = TASK_CLASS_RESTART_ONLY then ''restart-only''
      else if c = TASK_CLASS_NON_RESTORABLE then ''non-restorable'' else ''unknown'')"

definition cmd_restorestat :: "'a res_world_scheme \<Rightarrow> 'a res_world_scheme" where
  "cmd_restorestat w =
     (let s = restore_loader_get_stats w in
      con_print
        ([Str ''restore: calls='', U32 (ls_calls s), Str '' applied='', U32 (ls_applied s), Str '' skipped='', U32 (ls_skipped s),
          Str '' failed='', U32 (ls_failed s), Str '' last_rc='', S32 (ls_last_rc s), Str crlf, Str (''registry:'' @ crlf)] @
         concat (map (\<lambda>i. case restore_registry_find (of_nat i) w of
             None \<Rightarrow> []
           | Some d \<Rightarrow> [Str ''  id='', U32 (of_nat i), Str '' class='', Str (restore_class_name (rd_task_class d)),
               Str '' ver='', U32 (ucast (rd_state_version d)), Str crlf]) [0..<SCHED_MAX_AO])) w)"

section \<open>The interpreter\<close>

definition cmd_unknown :: "string \<Rightarrow> 'a con_world_scheme \<Rightarrow> 'a con_world_scheme" where
  "cmd_unknown c w = con_print [Str ''unknown cmd: '', Str c, Str crlf] w"

text \<open>The words of the line, as the pointers into it show them after it was split.\<close>

definition argv_of :: "string \<Rightarrow> string list" where
  "argv_of line = (case tokenize line 8 of ((argc, argv), line') \<Rightarrow> map (cstr line') argv)"

definition term_execute_argv :: "cmd_env \<Rightarrow> string list \<Rightarrow> 'a sdt_world_scheme \<Rightarrow> 'a sdt_world_scheme cmd_end option" where
  "term_execute_argv E av w =
     (let c = av ! 0; ret = (\<lambda>v. Some (Returns v)) in
      if streq c ''help'' then ret (cmd_help w)
      else if streq c ''echo'' then ret (cmd_echo av w)
      else if streq c ''clear'' then ret (cmd_clear w)
      else if streq c ''reboot'' then cmd_reboot w
      else if streq c ''shutdown'' then cmd_shutdown w
      else if streq c ''ticks'' then ret (cmd_ticks w)
      else if streq c ''uptime'' then ret (cmd_uptime w)
      else if streq c ''ps''
      then ret (if \<not> g_sched w then kernel_panic ''ps: scheduler not bound'' ''terminal.c'' 1423 w else cmd_ps w)
      else if streq c ''kill'' then ret (cmd_kill av w)
      else if streq c ''counter'' then ret (cmd_counter E av w)
      else if streq c ''line'' then ret (cmd_line E w)
      else if streq c ''snake'' then ret (cmd_snake E w)
      else if streq c ''snapnow'' then ret (cmd_snapnow w)
      else if streq c ''snapstat'' then ret (cmd_snapstat w)
      else if streq c ''snapls'' then ret (cmd_snapls E w)
      else if streq c ''md'' then ret (cmd_md E av w)
      else if streq c ''sdinit'' then ret (cmd_sdinit w)
      else if streq c ''sdinfo'' then ret (sd_print_info E w)
      else if streq c ''sddetect'' then ret (cmd_sddetect w)
      else if streq c ''sdtest'' then ret (cmd_sdtest w)
      else if streq c ''sdread'' then ret (cmd_sdread av w)
      else if streq c ''sdaread'' then ret (cmd_sdaread av w)
      else if streq c ''sdwrite0'' then ret (cmd_sdwrite0 w)
      else if streq c ''sdread0cmp'' then ret (cmd_sdread0cmp w)
      else if streq c ''ckptsave_sd'' then ret (cmd_ckptsave_sd E w)
      else if streq c ''ckptint'' \<or> streq c ''autockpt'' then ret (cmd_ckptint av w)
      else if streq c ''ckptload_sd'' then ret (cmd_ckptload_sd E w)
      else if streq c ''ckptinspect'' then ret (cmd_ckptinspect w)
      else if streq c ''ckptpreview'' then ret (term_ckpt_preview E w)
      else if streq c ''ckptcorrupt'' then ret (cmd_ckptcorrupt av w)
      else if streq c ''logcat'' then map_option Returns (cmd_logcat w)
      else if streq c ''sdmmcdump'' then ret (cmd_sdmmcdump E w)
      else if streq c ''sderror'' then ret (cmd_sderror E w)
      else if streq c ''sdreset'' then ret (cmd_sdreset w)
      else if streq c ''restorestat'' then ret (cmd_restorestat w)
      else if streq c ''ckptq'' then ret (cmd_ckptq w)
      else if streq c ''ckptsave'' then ret (cmd_ckptsave E w)
      else if streq c ''ckptsaveop'' then ret (cmd_ckptsaveop E av w)
      else if streq c ''ckptload'' then ret (cmd_ckptload E w)
      else if streq c ''restoresim'' then ret (cmd_restoresim E av w)
      else if streq c ''restoresimop'' then ret (cmd_restoresimop E av w)
      else if streq c ''restoresimbad'' then ret (cmd_restoresimbad E av w)
      else ret (cmd_unknown c w))"

definition term_execute :: "cmd_env \<Rightarrow> string \<Rightarrow> 'a sdt_world_scheme \<Rightarrow> 'a sdt_world_scheme cmd_end option" where
  "term_execute E line w =
     (if argv_of line = [] then Some (Returns w) else term_execute_argv E (argv_of line) w)"

end
