(* ===== verification/Command_Loops.thy ===== *)
theory Command_Loops
  imports Commands
begin

text \<open>
  Which commands end.  Every command is a finite run of calls except the two that
  stop the machine and \<open>logcat\<close>, whose loop reads the log until it is empty: on the
  console that ends, in the background, where the console's text goes back to the log,
  it does not.
\<close>

section \<open>The log as the console\<close>

lemma log_sink_enqueue:
  assumes "g_console_sink w = CONSOLE_SINK_LOG" "len \<noteq> 0"
  shows "console_enqueue (Some s) len w = (SCHED_OK, w\<lparr>w_log := snd (log_write (Some s) len (w_log w))\<rparr>)"
  using assms by (simp add: console_enqueue_def)

lemma log_sink_write:
  assumes "g_console_sink w = CONSOLE_SINK_LOG" "log_inv (w_log w)"
  shows "g_console_sink (snd (console_write_loop s w)) = CONSOLE_SINK_LOG \<and> log_inv (w_log (snd (console_write_loop s w))) \<and>
    log_contents (w_log (snd (console_write_loop s w))) = lastn 512 (log_contents (w_log w) @ s)"
  using assms
proof (induction s w rule: console_write_loop.induct)
  case (1 s w)
  show ?case
  proof (cases "s = []")
    case True
    have "length (log_contents (w_log w)) \<le> 512"
      using 1(3) by (simp add: log_contents_def log_inv_def)
    with True 1(2,3) show ?thesis by (simp add: console_write_loop.simps [of "[]" w] lastn_all)
  next
    case False
    define n where "n = (if length s > 96 then 96 else length s)"
    define v where "v = w\<lparr>w_log := snd (log_write (Some s) (of_nat n) (w_log w))\<rparr>"
    have n: "n \<le> length s" "unat (of_nat n :: u16) = n" "(of_nat n :: u16) \<noteq> 0"
      using False by (auto simp: n_def unat_of_nat unat_eq_zero [symmetric] simp del: unat_eq_zero)
    have e: "console_enqueue (Some s) (of_nat n) w = (SCHED_OK, v)"
      using log_sink_enqueue [OF 1(2) n(3)] by (simp add: v_def)
    have l: "log_inv (w_log v)" "log_contents (w_log v) = lastn 512 (log_contents (w_log w) @ take n s)" "g_console_sink v = CONSOLE_SINK_LOG"
      using log_write_spec [OF 1(3), of "of_nat n" s] n 1(2) by (simp_all add: v_def)
    have r: "console_write_loop s w = console_write_loop (drop n s) v"
      using False e by (simp add: console_write_loop.simps [of s] n_def [symmetric] Let_def)
    have "g_console_sink (snd (console_write_loop (drop n s) v)) = CONSOLE_SINK_LOG \<and> log_inv (w_log (snd (console_write_loop (drop n s) v))) \<and>
        log_contents (w_log (snd (console_write_loop (drop n s) v))) = lastn 512 (log_contents (w_log v) @ drop n s)"
      using 1(1) [OF False n_def e [symmetric]] l by simp
    then show ?thesis by (simp add: r l(2) lastn_lastn_append)
  qed
qed

lemma lastn_nonempty: "s \<noteq> [] \<Longrightarrow> 0 < n \<Longrightarrow> lastn n s \<noteq> []"
  by (cases s) (auto simp: lastn_def)

section \<open>The loop of logcat\<close>

text \<open>One turn of the loop, on a log that holds something.\<close>

definition logcat_turn :: "'a con_world_scheme \<Rightarrow> 'a con_world_scheme" where
  "logcat_turn w = (case log_read True 64 (w_log w) of ((n, buf), l) \<Rightarrow> snd (console_write (Some buf) n (w\<lparr>w_log := l\<rparr>)))"

lemma logcat_step:
  "logcat_loop seen w =
     (if fst (fst (log_read True 64 (w_log w))) = 0 then Some (seen, w\<lparr>w_log := snd (log_read True 64 (w_log w))\<rparr>)
      else logcat_loop True (logcat_turn w))"
  by (subst logcat_loop.simps) (simp add: logcat_turn_def split: prod.split)

lemma logcat_read_zero:
  assumes "log_inv l"
  shows "fst (fst (log_read True 64 l)) = 0 \<longleftrightarrow> log_contents l = []"
proof -
  have "unat (fst (fst (log_read True 64 l))) = min 64 (length (log_contents l))" using log_read_spec(2) [OF assms, of 64] by simp
  then show ?thesis by (cases "log_contents l") (auto simp: unat_eq_zero [symmetric] simp del: unat_eq_zero)
qed

text \<open>On the UART a turn removes text from the log, in the background it puts it back.\<close>

lemma logcat_turn_uart:
  assumes "log_inv (w_log w)" "g_console_sink w = CONSOLE_SINK_UART"
  shows "g_console_sink (logcat_turn w) = CONSOLE_SINK_UART \<and> log_inv (w_log (logcat_turn w)) \<and>
    log_contents (w_log (logcat_turn w)) = drop 64 (log_contents (w_log w))"
proof -
  note r = log_read_spec [OF assms(1), of 64, simplified]
  have k: "w_log (snd (console_write sp n v)) = w_log v \<and> g_console_sink (snd (console_write sp n v)) = CONSOLE_SINK_UART"
    if "g_console_sink v = CONSOLE_SINK_UART" for sp n and v :: "'a con_world_scheme"
  proof (cases sp)
    case (Some s)
    have "con_puts s' v = snd (console_write_loop s' v)" if "s' \<noteq> [] \<and> length s' < 65536" for s'
      using that by (simp add: con_puts_def console_puts_def console_write_def unat_of_nat unat_eq_zero [symmetric] del: unat_eq_zero)
    moreover have "length (take (unat n) s) < 65536"
      by (rule le_less_trans [of _ "unat n"]) (simp, rule unat_u16_lt)
    ultimately show ?thesis
      using that Some con_puts_keeps_log [of v "take (unat n) s"]
      by (cases "take (unat n) s = []") (auto simp: console_write_def console_write_loop.simps [of "[]"])
  qed (use that in \<open>simp add: console_write_def\<close>)
  show ?thesis using k r(3,4) assms(2) by (simp add: logcat_turn_def case_prod_beta)
qed

lemma logcat_turn_log:
  assumes "log_inv (w_log w)" "g_console_sink w = CONSOLE_SINK_LOG" "log_contents (w_log w) \<noteq> []"
  shows "g_console_sink (logcat_turn w) = CONSOLE_SINK_LOG \<and> log_inv (w_log (logcat_turn w)) \<and> log_contents (w_log (logcat_turn w)) \<noteq> []"
proof -
  note r = log_read_spec [OF assms(1), of 64, simplified]
  let ?n = "fst (fst (log_read True 64 (w_log w)))" and ?v = "w\<lparr>w_log := snd (log_read True 64 (w_log w))\<rparr>"
  have n: "?n \<noteq> 0" using logcat_read_zero [OF assms(1)] assms(3) by simp
  have t: "take (unat ?n) (snd (fst (log_read True 64 (w_log w)))) \<noteq> []" using r(1,2) assms(3) by (simp add: min_def)
  have "log_contents (w_log (snd (console_write_loop s ?v))) \<noteq> []" if "s \<noteq> []" for s
    using log_sink_write [of ?v s] assms(2) r(4) lastn_nonempty [of "log_contents (w_log ?v) @ s" 512] that by simp
  from this [OF t] show ?thesis
    using log_sink_write [of ?v "take (unat ?n) (snd (fst (log_read True 64 (w_log w))))"] assms(2) r(4) t n
    by (simp add: logcat_turn_def case_prod_beta console_write_def)
qed

lemma logcat_uart_returns:
  assumes "log_inv (w_log w)" "g_console_sink w = CONSOLE_SINK_UART"
  shows "logcat_loop seen w \<noteq> None"
  using assms
proof (induction "length (log_contents (w_log w))" arbitrary: seen w rule: less_induct)
  case less
  show ?case
  proof (cases "log_contents (w_log w) = []")
    case True
    then show ?thesis using logcat_read_zero [OF less.prems(1)] by (simp add: logcat_step [of seen w] del: not_None_eq)
  next
    case False
    note t = logcat_turn_uart [OF less.prems]
    have "logcat_loop True (logcat_turn w) \<noteq> None"
      using less.hyps [of "logcat_turn w" True] t False by (simp del: not_None_eq)
    then show ?thesis using logcat_read_zero [OF less.prems(1)] False by (simp add: logcat_step [of seen w] del: not_None_eq)
  qed
qed

lemma logcat_log_diverges:
  assumes "logcat_loop seen w = Some y" "log_inv (w_log w)" "g_console_sink w = CONSOLE_SINK_LOG"
  shows "log_contents (w_log w) = []"
proof -
  have "log_inv (w_log w) \<longrightarrow> g_console_sink w = CONSOLE_SINK_LOG \<longrightarrow> log_contents (w_log w) = []"
  proof (rule logcat_loop.raw_induct [OF _ assms(1)])
    fix f seen and w :: "'a con_world_scheme" and y
    assume 1: "\<And>seen w y. f seen w = Some y \<Longrightarrow>
          log_inv (w_log w) \<longrightarrow> g_console_sink w = CONSOLE_SINK_LOG \<longrightarrow> log_contents (w_log w) = []"
      "(case log_read True 64 (w_log w) of ((n, buf), l) \<Rightarrow> if n = 0 then Some (seen, w\<lparr>w_log := l\<rparr>)
          else f True (snd (console_write (Some buf) n (w\<lparr>w_log := l\<rparr>)))) = Some y"
    show "log_inv (w_log w) \<longrightarrow> g_console_sink w = CONSOLE_SINK_LOG \<longrightarrow> log_contents (w_log w) = []"
    proof (intro impI)
      assume w: "log_inv (w_log w)" "g_console_sink w = CONSOLE_SINK_LOG"
      show "log_contents (w_log w) = []"
      proof (rule ccontr)
        assume c: "log_contents (w_log w) \<noteq> []"
        then have "f True (logcat_turn w) = Some y"
          using 1(2) logcat_read_zero [OF w(1)] by (simp add: logcat_turn_def case_prod_beta split: if_splits)
        then show False using 1(1) logcat_turn_log [OF w c] by blast
      qed
    qed
  qed
  with assms(2,3) show ?thesis by blast
qed

section \<open>Waiting for the transmitter\<close>

text \<open>The interrupts of the transmitter are on as long as it has something to do.\<close>

definition transmitter_on :: "'a uart_world_scheme \<Rightarrow> bool" where
  "transmitter_on w \<longleftrightarrow>
     (tx_contents (g_uart_ctx w) \<noteq> [] \<longrightarrow> USART6_CR1 w AND USART_CR1_TXEIE \<noteq> 0) \<and>
     (uc_tx_status (g_uart_ctx w) \<noteq> DRV_IDLE \<longrightarrow> USART6_CR1 w AND USART_CR1_TXEIE \<noteq> 0 \<or> USART6_CR1 w AND USART_CR1_TCIE \<noteq> 0)"

definition tx_work :: "'a uart_world_scheme \<Rightarrow> nat" where
  "tx_work w = 3 * length (tx_contents (g_uart_ctx w)) +
     (if uc_tx_status (g_uart_ctx w) = DRV_IDLE then 0 else if USART6_CR1 w AND USART_CR1_TXEIE \<noteq> 0 then 2 else 1)"

lemma cr1_bits:
  fixes c :: u32
  shows "(c AND -65) AND 0x80 = c AND 0x80" "((c AND -129) OR 0x40) AND 0x40 = 0x40" "((c AND -129) OR 0x40) AND 0x80 = 0"
    "(((c AND -129) OR 0x40) AND -65) AND 0x80 = 0"
  by (simp_all add: and.assoc bit.conj_disj_distrib2)

lemma tx_interrupt:
  assumes "uart_ok w"
  shows "USART6_IRQHandler 0xC0 0 w = irq_tc 0xC0 (USART6_CR1 w) (irq_tx 0xC0 (USART6_CR1 w) w)"
  using assms by (simp add: USART6_IRQHandler_def Let_def uart_ok_def uart_ring_ok_def irq_rx_def)

lemma tx_idle:
  assumes "uart_ok w" shows "uart_tx_done w \<longleftrightarrow> tx_contents (g_uart_ctx w) = [] \<and> uc_tx_status (g_uart_ctx w) = DRV_IDLE"
proof -
  have "fst (uart_tx_take (g_uart_ctx w)) = None \<longleftrightarrow> tx_contents (g_uart_ctx w) = []"
    using uart_tx_take_contents [of "g_uart_ctx w"] assms by (cases "tx_contents (g_uart_ctx w)") (auto simp: uart_ok_def)
  then show ?thesis by (auto simp: uart_tx_done_def uart_tx_take_def split: if_splits)
qed

lemma tc_fields:
  fixes w :: "'a uart_world_scheme" and cr1
  assumes "uart_ok w"
  defines "v \<equiv> irq_tc 0xC0 cr1 w"
  shows "tx_contents (g_uart_ctx v) = tx_contents (g_uart_ctx w)" "w_uart v = w_uart w" "uart_ok v"
    "uc_tx_status (g_uart_ctx v) = (if cr1 AND USART_CR1_TCIE \<noteq> 0 then DRV_IDLE else uc_tx_status (g_uart_ctx w))"
    "USART6_CR1 v = (if cr1 AND USART_CR1_TCIE \<noteq> 0 then USART6_CR1 w AND NOT USART_CR1_TCIE else USART6_CR1 w)"
proof -
  have s: "uart_same w v" using irq_tc_same [OF assms(1)] by (simp add: v_def)
  then show "tx_contents (g_uart_ctx v) = tx_contents (g_uart_ctx w)" "w_uart v = w_uart w" "uart_ok v"
    by (simp_all add: uart_same_def)
  show "uc_tx_status (g_uart_ctx v) = (if cr1 AND USART_CR1_TCIE \<noteq> 0 then DRV_IDLE else uc_tx_status (g_uart_ctx w))"
    "USART6_CR1 v = (if cr1 AND USART_CR1_TCIE \<noteq> 0 then USART6_CR1 w AND NOT USART_CR1_TCIE else USART6_CR1 w)"
    using assms(1) by (simp_all add: v_def irq_tc_def Let_def uart_ok_def sched_post_isr_def frame_simps upd_u_def)
qed

lemma tx_turn:
  fixes w :: "'a uart_world_scheme"
  assumes "uart_ok w" "transmitter_on w" "\<not> uart_tx_done w"
  defines "v \<equiv> USART6_IRQHandler (USART_ISR_TXE OR USART_ISR_TC) 0 w"
  shows "uart_ok v \<and> transmitter_on v \<and> tx_work v < tx_work w \<and>
    (\<exists>out. w_uart v = w_uart w @ map char_of_byte out \<and> tx_contents (g_uart_ctx w) = out @ tx_contents (g_uart_ctx v))"
proof -
  let ?c = "USART6_CR1 w" and ?u = "g_uart_ctx w"
  have ok: "uart_ring_ok ?u" using assms(1) by (simp add: uart_ok_def)
  note take = uart_tx_take_contents(1) [OF ok] uart_ops_ok(2) [OF ok]
  define x where "x = irq_tx 0xC0 ?c w"
  have v: "v = irq_tc 0xC0 ?c x" using tx_interrupt [OF assms(1)] by (simp add: v_def x_def)
  have x: "uart_ok x" using irq_tx_effect [OF assms(1), of "0xC0" ?c] by (auto simp: x_def)
  note tc = tc_fields [OF x, of ?c, folded v]
  show ?thesis
  proof (cases "tx_contents ?u")
    case (Cons b bs)
    then have c: "?c AND 0x80 \<noteq> 0" using assms(2) by (simp add: transmitter_on_def)
    obtain u where t: "uart_tx_take ?u = (Some b, u)" "tx_contents u = bs" "uc_tx_status u = uc_tx_status ?u"
      using take(1) Cons by (cases "uart_tx_take ?u") (auto simp: uart_tx_take_def split: if_splits)
    have xf: "w_uart x = w_uart w @ [char_of_byte b]" "tx_contents (g_uart_ctx x) = bs" "USART6_CR1 x = ?c"
      "uc_tx_status (g_uart_ctx x) = uc_tx_status ?u"
      using c t by (simp_all add: x_def irq_tx_def uart_puts_def)
    have "transmitter_on v" using tc xf c by (simp add: transmitter_on_def cr1_bits)
    moreover have "tx_work v < tx_work w" using tc xf c Cons by (simp add: tx_work_def)
    ultimately show ?thesis using tc xf Cons by (intro conjI exI [of _ "[b]"]) simp_all
  next
    case Nil
    then have st: "uc_tx_status ?u \<noteq> DRV_IDLE" using assms(3) tx_idle [OF assms(1)] by simp
    have t: "uart_tx_take ?u = (None, ?u)" using take(1) Nil by (cases "uart_tx_take ?u") (auto simp: uart_tx_take_def split: if_splits)
    have xf: "w_uart x = w_uart w" "g_uart_ctx x = ?u" "USART6_CR1 x = (if ?c AND 0x80 \<noteq> 0 then (?c AND NOT 0x80) OR 0x40 else ?c)"
      using t by (simp_all add: x_def irq_tx_def)
    have c: "?c AND 0x80 \<noteq> 0 \<or> ?c AND 0x40 \<noteq> 0" using assms(2) st by (simp add: transmitter_on_def)
    have "transmitter_on v" using tc xf c Nil by (auto simp: transmitter_on_def cr1_bits)
    moreover have "tx_work v < tx_work w" using tc xf c Nil st by (auto simp: tx_work_def cr1_bits)
    ultimately show ?thesis using tc xf Nil by (intro conjI exI [of _ "[]"]) simp_all
  qed
qed

lemma tx_drains:
  fixes w :: "'a con_world_scheme"
  assumes "uart_ok w" "transmitter_on w"
  shows "\<exists>w'. uart_wait_tx w = Some w' \<and> uart_ok w' \<and> transmitter_on w' \<and> tx_contents (g_uart_ctx w') = [] \<and>
    w_uart w' = w_uart w @ map char_of_byte (tx_contents (g_uart_ctx w)) \<and> g_console w' = g_console w"
  using assms
proof (induction "tx_work w" arbitrary: w rule: less_induct)
  case less
  show ?case
  proof (cases "uart_tx_done w")
    case True
    then have "uart_wait_tx w = Some w" by (simp add: uart_wait_tx.simps [of w])
    with True less.prems tx_idle [OF less.prems(1)] show ?thesis by simp
  next
    case False
    let ?v = "USART6_IRQHandler (USART_ISR_TXE OR USART_ISR_TC) 0 w"
    note t = tx_turn [OF less.prems False]
    from less.hyps [of ?v] t obtain w' where
      w': "uart_wait_tx ?v = Some w'" "uart_ok w'" "transmitter_on w'" "tx_contents (g_uart_ctx w') = []"
        "w_uart w' = w_uart ?v @ map char_of_byte (tx_contents (g_uart_ctx ?v))" "g_console w' = g_console ?v" by blast
    have "uart_wait_tx w = uart_wait_tx ?v" using False by (simp add: uart_wait_tx.simps [of w])
    with w' t irq_console(1) [of "USART_ISR_TXE OR USART_ISR_TC" 0 w] show ?thesis by (intro exI [of _ w']) auto
  qed
qed

section \<open>Which commands end\<close>

lemma ret_if:
  "((if P then Some (Returns a) else b) = None) = (\<not> P \<and> b = None)"
  "((if P then Some (Returns a) else b) = Some (Resets v)) = (\<not> P \<and> b = Some (Resets v))"
  "((if P then Some (Returns a) else b) = Some (Standby v)) = (\<not> P \<and> b = Some (Standby v))"
  by simp_all

lemma argv_outcome:
  assumes "av ! 0 \<noteq> ''reboot''" "av ! 0 \<noteq> ''shutdown''" "av ! 0 \<noteq> ''logcat''"
  shows "term_execute_argv E av w \<noteq> None \<and> term_execute_argv E av w \<noteq> Some (Resets v) \<and> term_execute_argv E av w \<noteq> Some (Standby v)"
  using assms by (simp add: term_execute_argv_def Let_def streq_iff ret_if del: not_None_eq split del: if_split)

lemma argv_special:
  "av ! 0 = ''reboot'' \<Longrightarrow> term_execute_argv E av w = cmd_reboot w"
  "av ! 0 = ''shutdown'' \<Longrightarrow> term_execute_argv E av w = cmd_shutdown w"
  "av ! 0 = ''logcat'' \<Longrightarrow> term_execute_argv E av w = map_option Returns (cmd_logcat w)"
  by (simp_all add: term_execute_argv_def Let_def streq_iff)

lemma shutdown_ends:
  assumes "uart_ok w" "transmitter_on w"
  shows "\<exists>v. cmd_shutdown w = Some (Standby v)"
proof -
  from tx_drains [OF assms] obtain v where v: "uart_wait_tx w = Some v" "uart_ok v" "transmitter_on v" by blast
  let ?u = "uart_puts (''halted.'' @ crlf) v"
  have u: "uart_ok ?u" "transmitter_on ?u" using v(2,3) by (simp_all add: uart_ok_def transmitter_on_def uart_puts_def)
  then have "uc_tx_buf (g_uart_ctx ?u) \<noteq> None" by (auto simp: uart_ok_def uart_ring_ok_def uart_ctx_valid_def split: if_splits)
  with tx_drains [OF u] v(1) show ?thesis by (auto simp: cmd_shutdown_def shutdown_now_def)
qed


section \<open>A machine with a command to run\<close>

definition cmd_env_demo :: cmd_env where
  "cmd_env_demo = \<lparr> ce_counter = demo_link 1, ce_line = demo_link 2, ce_snake = demo_link 3, ce_pad = 0, ce_peek = (\<lambda>a. a), ce_rca = 0,
     ce_ocr = 0, ce_bus_width = 4, ce_last_cmd = 0, ce_last_sta = 0, ce_wait_calls = 0, ce_wait_ok = 0, ce_wait_timeout = 0,
     ce_wait_fail_fast = 0 \<rparr>"

lemma sd_demo_uart:
  "g_uart_ctx sd_demo = g_uart_ctx con_power_on" "g_uart_sched sd_demo = g_uart_sched con_power_on" "w_panic sd_demo = w_panic con_power_on"
  "g_uart_tx_sched sd_demo = g_uart_tx_sched con_power_on" "g_uart_rx_sig sd_demo = g_uart_rx_sig con_power_on"
  "g_uart_tx_sig sd_demo = g_uart_tx_sig con_power_on" "w_log sd_demo = ex_log" "w_uart sd_demo = w_uart con_power_on"
  "g_console sd_demo = g_console con_power_on"
  by (simp_all add: sd_demo_def sdt_world.defs ckpt_world.defs ckpt_power_on_def snap_world.defs line_world.defs line_power_on_def
      snk_world.defs snk_power_on_def cnt_world.defs cnt_power_on_def term_world.defs term_power_on_def res_world.defs res_power_on_def con_world.defs)

lemma sd_demo_serial: "uart_ok sd_demo" "transmitter_on sd_demo" "tx_contents (g_uart_ctx sd_demo) = []"
proof -
  have c: "uart_ok con_power_on" "tx_contents (g_uart_ctx con_power_on) = []"
    using con_power_on_ok by (simp_all add: con_ok_def line_stream_def)
  have "uc_tx_status (g_uart_ctx con_power_on) = DRV_IDLE"
    by (simp add: con_power_on_def uart_boot_def uart_async_init_def Let_def case_prod_beta upd_u_def uart_world.defs
        uart_power_on_def fs_world.defs uart_zero_def con_world.defs)
  with c show "uart_ok sd_demo" "transmitter_on sd_demo" "tx_contents (g_uart_ctx sd_demo) = []"
    by (simp_all add: uart_ok_def transmitter_on_def sd_demo_uart)
qed

lemma argv_of_demo: "argv_of ''logcat'' = [''logcat'']"
  by code_simp


end
