(* ===== verification/Spec2Isabelle.thy ===== *)
theory Spec2Isabelle
  imports Sched_Preempt Parse Boot_Admin Command_Loops
begin

text \<open>
  \<^bold>\<open>RewindOS: a verification development.\<close>

  RewindOS is a small operating system for an STM32F7 board.  A cooperative
  scheduler runs active objects (terminal, command, console, snapshot and program
  tasks) that communicate by posting events; drivers feed them from
  interrupts.  Its purpose is to rewind: a snapshot task copies the memory of
  the running system into slots on the SD card, a boot menu lists the slots
  and copies one back into memory, a journal records console input so that it
  can be replayed after a restore, and programs can save their own state in
  checkpoints.  Paths below are relative to the directory \<open>src\<close> of the
  repository.

  \<^bold>\<open>How the model is built.\<close>  Each theory translates the C code of one component,
  definition by definition and under the names of the source.  The state of a
  component is a record; a component that calls another extends its record, so
  the whole system's state is one chain of extensions

    sched, world, sd\_world, hand\_world, disk\_world, jrnl\_world, fs\_world, uart\_world,
    con\_world, res\_world, term\_world, cnt\_world, snk\_world, line\_world, snap\_world,
    ckpt\_world, sdt\_world

  and every operation works on any extension of its own layer.  The boot menu,
  a program of its own that runs before the main image, extends hand\_world
  instead (boot\_world).  Integers have their C width (\<open>u8\<close>, \<open>u16\<close>, \<open>u32\<close>); return
  codes are the integers of the source; a null pointer is None; arrays are
  lists of their declared size; a structure on the card is the list of its
  little-endian bytes.  A panic is recorded in \<open>w_panic\<close>.  The card is a store of
  512-byte blocks with an environment that says for each transfer whether it
  succeeds, fails, or fails leaving a torn block: the properties about
  power loss quantify over that environment.

  \<^bold>\<open>Theories.\<close>
  \<^item> Prelude, Bytes, Ring\_Fifo, Gap\_Ring, Mirror, Best\_Scan, Max\_Scan: words, bytes and
    blocks, and the interfaces the components share.  Ring\_Fifo states the
    contract of a bounded FIFO as a locale, interpreted by the event queue and the
    two UART rings; Mirror that of a pair of blocks written one after the other,
    interpreted by the partition table and the file system's superblock;
    Best\_Scan and Max\_Scan hold the scans for the newest record or slot that the
    journal, the snapshot task and the boot menu make.
  \<^item> Event\_Queue, Scheduler, Sched\_Preempt (\<open>scheduler/scheduler.c\<close>): queues, registration,
    posting, the run loop; the ready bitmap is exact, turns serve the highest
    priority and are fair.  Sched\_Preempt splits the end of a turn into the
    steps between which an interrupt can post, and shows the lost wake-up.
  \<^item> Log (\<open>common_io/log.c\<close>, \<open>kernel/panic.c\<close>, \<open>drivers/uart/uart.c\<close>), Parse (\<open>common_io/parse.c\<close>),
    Bump (\<open>allocators/bump.c\<close>), Handoff (\<open>kernel/boot_handoff.c\<close>, \<open>common_io/rewind_restore.c\<close>).
  \<^item> Sd\_Card (the block interface of \<open>drivers/sd\<close>), Rwos\_Disk (\<open>common_io/rwos_disk.c\<close>): the
    mirrored partition table survives every fault of an update.
  \<^item> Journal (\<open>common_io/journal.c\<close>), Rwfs (\<open>common_io/rwfs.c\<close>): records and files written are
    those read after a restart.
  \<^item> Uart\_Async (\<open>drivers/uart/uart_async.c\<close>), Console (\<open>scheduler/console_task.c\<close>): bytes and
    messages arrive once and in order whatever the interleaving with interrupts.
  \<^item> Restore (\<open>kernel/restore_registry.c\<close>, \<open>restore_loader.c\<close>, \<open>restore_sim.c\<close>): the loader passes
    only bytes of the payload, and counts every region.
  \<^item> Frames, Sched\_Frames, Term\_Frames: what each layer leaves alone of the others.
  \<^item> Shell (\<open>common_io/lineio_async.c\<close>, standard input of \<open>terminal/terminal.c\<close>), Terminal (the
    terminal and command tasks, \<open>kernel/systick.c\<close>): the editor against a reference
    editor, the mailbox against a bounded queue, the receive loops return.
  \<^item> Counter, Snake, Assembly\_Line (\<open>scheduler/counter_task.c\<close>, \<open>snake_task.c\<close>,
    \<open>assembly_line_task.c\<close>): the programs against their rules, their invariants, and the
    round trip of their saved state.
  \<^item> Snapshot\_Format, Snapshot, Snapshot\_Ring (\<open>scheduler/snapshot_task.c\<close>): which memory is
    captured, how a slot is written, and that a snapshot is all or nothing.
  \<^item> Boot\_Restore, Boot\_Admin (\<open>bootmenu/boot_terminal.c\<close>): the boot menu's side of the
    slots and of the table; its last theorem joins both programs: what the
    snapshot task captured is what the boot menu puts back, byte for byte.

  \<^item> Checkpoint, Checkpoint\_Slots, Checkpoint\_Save, Checkpoint\_Load, Programs (the
    checkpoint functions of \<open>terminal/terminal.c\<close>): the two slots and their choice,
    the save, the load through the restore loader.  The locale \<open>resuming\<close> says what the
    load needs of a descriptor, \<open>restorable\<close> that a program's saved state gives it back;
    Programs interprets both on the counter, the assembly line and the snake, and its
    property joins save, power cut, registration and load.
  \<^item> Sd\_Async, Sd\_Transfer (\<open>drivers/sd/sd_async.c\<close>): reads by interrupts, over the words in
    the FIFO and the flags of the status; the relation \<open>sd_step\<close> is the arrival of a word
    or an interrupt, and its invariant says what of the blocks is in memory.
  \<^item> Print, Sd\_Task (\<open>scheduler/sd_task.c\<close>): reports as runs of print calls; the task that
    serves \<open>sdread\<close> and \<open>sdtest\<close>, and what goes wrong when it is killed, or the controller
    reset, during a read.
  \<^item> Snap\_List, Ckpt\_Commands, Commands, Command\_Loops (\<open>term_execute\<close> of \<open>terminal/terminal.c\<close>, the lists
    of \<open>snapshot_task.c\<close>): every command with its arguments, calls and reports, and which of
    them end.  What a command prints is a list of print calls (Print).

  \<^bold>\<open>Loops, fuel, bounds.\<close>  Loops over a counter are structural or have a measure.
  The journal's replay takes fuel, and a lemma says that twice the number
  of blocks and one is enough.  The receive loops of the terminal are partial functions
  into the option type, and a property says that they return.  The scheduler's
  endless loop is modelled turn by turn.

  The loops of \<open>logcat\<close> and of the wait for the transmitter are partial functions too; a
  property says exactly when a command does not end.

  \<^bold>\<open>Parameters.\<close>  Function pointers (handlers, the functions of a restore descriptor, the
  executor of command lines) are arguments; what a property needs of them is a
  premise, and its witness has a concrete instance.  Addresses of code and of
  buffers are arguments too.  What the hardware answers (status and data of an
  interrupt, outcome of a transfer, presence of a card) is an argument or part
  of the environment.

  \<^bold>\<open>Not modelled.\<close>  Register-level code (clocks, pins, interrupt controller, the SDMMC
  command protocol, stack switching, standby) and the assembly files: their effect is
  the hardware's.  Screens and command interpreter of the boot menu
  (\<open>boot_dispatch\<close>): they print and call the operations modelled here.
  Interrupts are interleaved only where a theory says so (UART, console, SD reads, end of
  a scheduler turn); elsewhere an operation is one step.
\<close>

end
